(* ===== verification/C_Prelude.thy ===== *)
theory C_Prelude
  imports Main "HOL-Library.Word" "HOL-Library.State_Monad"
begin

text \<open>
  The shared layer of the development: the C integer types as machine words,
  the collections the component proofs draw on, and the generic facts about
  lists, words and the state monad that several components need.

  C integer promotions are read as follows.  An expression on \<open>uint8_t\<close> or
  \<open>uint16_t\<close> operands is computed in \<open>int\<close> and truncated when it is stored, so
  sums, products, shifts to the left and bitwise operations that end in a store
  of the same width are the operations of that word type.  Where a comparison
  or an index is computed in \<open>int\<close> before any truncation, the model says so
  with \<open>unat\<close>, \<open>uint\<close> or \<open>sint\<close>.
\<close>

unbundle bit_operations_syntax

section \<open>C integer types\<close>

type_synonym u8 = "8 word"
type_synonym u16 = "16 word"
type_synonym u32 = "32 word"
type_synonym u64 = "64 word"

section \<open>Collections for the component proofs\<close>

named_theorems run_simps \<open>what running an operation of a driver yields\<close>
named_theorems inv_intros \<open>the operations that keep an invariant\<close>
named_theorems xor_linear \<open>operations that distribute over exclusive or\<close>

section \<open>Words\<close>

lemma drop_bit_xor_word [xor_linear]:
  "drop_bit n (a XOR b) = drop_bit n a XOR drop_bit n b" for a b :: "'a::len word"
  by (rule bit_word_eqI) (simp add: bit_simps)

lemma push_bit_xor_word [xor_linear]:
  "push_bit n (a XOR b) = push_bit n a XOR push_bit n b" for a b :: "'a::len word"
  by (rule bit_word_eqI) (auto simp: bit_simps)

lemma and_xor_word [xor_linear]:
  "(a XOR b) AND m = (a AND m) XOR (b AND m)" for a b m :: "'a::len word"
  by (rule bit_word_eqI) (auto simp: bit_simps)

lemma ucast_xor_word [xor_linear]:
  "(ucast (a XOR b) :: 'b::len word) = ucast a XOR ucast b" for a b :: "'a::len word"
  by (rule bit_word_eqI) (auto simp: bit_simps)

lemma disjoint_or: "m AND (a OR b) = 0 \<longleftrightarrow> m AND a = 0 \<and> m AND b = 0" for m a b :: "'a::len word"
  by (auto simp: bit_eq_iff bit_simps)

lemma or_and_not: "m AND a = 0 \<Longrightarrow> (a OR m) AND NOT m = a" for m a :: "'a::len word"
  by (auto simp: bit_eq_iff bit_simps)

lemma or_and_same: "(a OR m) AND m = m" for m a :: "'a::len word"
  by (auto simp: bit_eq_iff bit_simps)

lemma xor_self_cancel [simp]: "a XOR (a XOR b) = b" for a b :: "'a::len word"
  by (simp flip: xor.assoc)

lemma xor_eq_0_iff_word [simp]: "a XOR b = 0 \<longleftrightarrow> a = b" for a b :: "'a::len word"
proof
  assume "a XOR b = 0"
  then have "a XOR (a XOR b) = a" by simp
  then show "a = b" by simp
qed simp

lemma xor_left_inj_word [simp]: "a XOR b = a XOR c \<longleftrightarrow> b = c" for a b c :: "'a::len word"
  by (metis xor_self_cancel)

lemma xor_right_inj_word [simp]: "b XOR a = c XOR a \<longleftrightarrow> b = c" for a b c :: "'a::len word"
  by (metis xor.commute xor_left_inj_word)

lemma xor_4: "(a XOR b) XOR (c XOR d) = (a XOR c) XOR (b XOR d)" for a b c d :: "'a::len word"
  by (simp add: ac_simps)

lemma and_one_cases: "a AND 1 = 0 \<or> a AND 1 = (1 :: 'a::len word)"
  by (metis and_one_eq mod2_eq_if)

lemma unat_and_mask_less: "unat (w AND m) \<le> unat m" for w m :: "'a::len word"
  by (rule word_and_le1 [THEN word_le_nat_alt [THEN iffD1]])

lemma unat_less_exp: "unat w < 2 ^ LENGTH('a)" for w :: "'a::len word"
  by (fact unsigned_less)

lemma unat_u8_less [simp]: "unat (w :: u8) < 256"
  using unat_less_exp [of w] by simp

lemma unat_u16_less [simp]: "unat (w :: u16) < 65536"
  using unat_less_exp [of w] by simp

lemma mult_unit_inj:
  fixes a b m n :: "'a::len word"
  assumes "m * n = 1"
  shows "a * m = b * m \<longleftrightarrow> a = b"
  by (metis assms mult.assoc mult.right_neutral)

lemma xor_drop_bit_fixed:
  fixes d :: "'a::len word"
  assumes "0 < n" "d = drop_bit n d"
  shows "d = 0"
proof (rule bit_word_eqI)
  have step: "bit d i \<longleftrightarrow> bit d (n + i)" for i
    by (subst assms(2)) (simp add: bit_drop_bit_eq)
  fix i
  have "\<not> bit d i"
  proof (induction "LENGTH('a) - i" arbitrary: i rule: less_induct)
    case less
    show ?case
    proof (cases "i < LENGTH('a)")
      case True
      then show ?thesis using less [of "n + i"] step [of i] assms(1) by simp
    next
      case False
      then show ?thesis by (meson bit_imp_le_length)
    qed
  qed
  then show "bit d i = bit (0 :: 'a word) i" by simp
qed

lemma xor_push_bit_fixed:
  fixes d :: "'a::len word"
  assumes "0 < n" "d = push_bit n d"
  shows "d = 0"
proof (rule bit_word_eqI)
  have step: "bit d i \<longleftrightarrow> n \<le> i \<and> i < LENGTH('a) \<and> bit d (i - n)" for i
    by (subst assms(2)) (auto simp: bit_simps)
  fix i
  have "\<not> bit d i"
  proof (induction i rule: less_induct)
    case (less i)
    then show ?case using step [of i] assms(1) by (cases "n \<le> i") auto
  qed
  then show "bit d i = bit (0 :: 'a word) i" by simp
qed

lemma xor_swap_eq: "a XOR c = b XOR d \<longleftrightarrow> a XOR b = c XOR d" for a b c d :: "'a::len word"
  by (metis (no_types, lifting) xor.assoc xor.commute xor_self_cancel)

text \<open>The two halves of a xorshift are bijections.\<close>

lemma xor_drop_bit_inj:
  fixes x y :: "'a::len word"
  assumes "0 < n"
  shows "x XOR drop_bit n x = y XOR drop_bit n y \<longleftrightarrow> x = y"
  using xor_drop_bit_fixed [OF assms, of "x XOR y"]
  by (auto simp: xor_swap_eq drop_bit_xor_word)

lemma xor_push_bit_inj:
  fixes x y :: "'a::len word"
  assumes "0 < n"
  shows "x XOR push_bit n x = y XOR push_bit n y \<longleftrightarrow> x = y"
  using xor_push_bit_fixed [OF assms, of "x XOR y"]
  by (auto simp: xor_swap_eq push_bit_xor_word)

lemma ucast_down_up:
  assumes "LENGTH('a::len) \<le> LENGTH('b::len)"
  shows "ucast (ucast a :: 'b word) = (a :: 'a word)"
  using assms by (intro bit_word_eqI) (auto simp: bit_simps)

lemma ucast_inj_u8_u32: "(ucast a :: u32) = ucast b \<longleftrightarrow> a = b" for a b :: u8
proof
  assume "(ucast a :: u32) = ucast b"
  then have "(ucast (ucast a :: u32) :: u8) = ucast (ucast b :: u32)" by (rule arg_cong)
  then show "a = b" by (simp add: ucast_down_up)
qed simp

section \<open>Bit fields\<close>

text \<open>Fields of one bit, the first in the lowest bit, as the targets' compilers lay them out;
  bits without a field are zero.\<close>

fun pack :: "bool list \<Rightarrow> u8" where
  "pack [] = 0"
| "pack (b # bs) = of_bool b OR push_bit 1 (pack bs)"

section \<open>Little-endian memory\<close>

text \<open>
  The targets of the library (Cortex-M, x86, little-endian ARM) store the low
  byte first; \<open>le_word\<close> loads a word from the bytes at an address and
  \<open>le_bytes n\<close> is what a store of \<open>n\<close> bytes writes.
\<close>

fun le_word :: "u8 list \<Rightarrow> 'a::len word" where
  "le_word [] = 0"
| "le_word (b # bs) = ucast b OR push_bit 8 (le_word bs)"

fun le_bytes :: "nat \<Rightarrow> 'a::len word \<Rightarrow> u8 list" where
  "le_bytes 0 w = []"
| "le_bytes (Suc n) w = ucast w # le_bytes n (drop_bit 8 w)"

lemma length_le_bytes [simp]: "length (le_bytes n w) = n"
  by (induction n arbitrary: w) simp_all

lemma le_bytes_numeral: "le_bytes (numeral k) w = ucast w # le_bytes (pred_numeral k) (drop_bit 8 w)"
  by (simp add: numeral_eq_Suc)

lemma le_bytes_2: "le_bytes 2 w = [ucast w, ucast (drop_bit 8 w)]"
  by (simp add: numeral_eq_Suc)

lemma le_bytes_4: "le_bytes 4 w = [ucast w, ucast (drop_bit 8 w), ucast (drop_bit 16 w), ucast (drop_bit 24 w)]"
  by (simp add: le_bytes_numeral)

lemma le_bytes_8: "le_bytes 8 w = [ucast w, ucast (drop_bit 8 w), ucast (drop_bit 16 w), ucast (drop_bit 24 w),
   ucast (drop_bit 32 w), ucast (drop_bit 40 w), ucast (drop_bit 48 w), ucast (drop_bit 56 w)]"
  by (simp add: le_bytes_numeral)

lemma le_word_bound: "bit (le_word bs :: 'a::len word) i \<Longrightarrow> i < 8 * length bs"
proof (induction bs arbitrary: i)
  case (Cons b bs)
  have "i < 8 \<or> 8 \<le> i \<and> bit (le_word bs :: 'a word) (i - 8)"
    using Cons.prems by (auto simp: bit_simps dest: bit_imp_le_length)
  then show ?case using Cons.IH [of "i - 8"] by auto
qed simp

lemma le_word_le_bytes: "le_word (le_bytes n w) = take_bit (8 * n) w"
proof (induction n arbitrary: w)
  case (Suc n)
  show ?case
    by (rule bit_word_eqI)
      (auto simp: Suc bit_simps less_diff_conv2 dest: bit_imp_le_length)
qed simp

lemma le_word_le_bytes_id: "LENGTH('a) \<le> 8 * n \<Longrightarrow> le_word (le_bytes n w) = w" for w :: "'a::len word"
  by (simp add: le_word_le_bytes take_bit_word_eq_self)

lemma le_word_step:
  assumes "8 * Suc (length bs) \<le> LENGTH('a)"
  shows "drop_bit 8 (le_word (b # bs) :: 'a::len word) = le_word bs"
    and "ucast (le_word (b # bs) :: 'a word) = b"
proof -
  show "drop_bit 8 (le_word (b # bs) :: 'a word) = le_word bs"
  proof (rule bit_word_eqI)
    fix n
    have "bit (le_word bs :: 'a word) n \<Longrightarrow> 8 + n < LENGTH('a)"
      using le_word_bound [where 'a = 'a, of bs n] assms by auto
    then show "bit (drop_bit 8 (le_word (b # bs) :: 'a word)) n = bit (le_word bs :: 'a word) n"
      by (auto simp: bit_simps dest: bit_imp_le_length)
  qed
  show "ucast (le_word (b # bs) :: 'a word) = b"
    using assms by (intro bit_word_eqI) (auto simp: bit_simps)
qed

lemma le_bytes_le_word:
  "8 * length bs \<le> LENGTH('a) \<Longrightarrow> le_bytes (length bs) (le_word bs :: 'a::len word) = bs"
  by (induction bs) (simp_all add: le_word_step del: le_word.simps)

lemma le_word_inj:
  assumes "length bs = length cs" "8 * length bs \<le> LENGTH('a)"
  shows "(le_word bs :: 'a::len word) = le_word cs \<longleftrightarrow> bs = cs"
  using assms by (metis le_bytes_le_word)

section \<open>Lists\<close>

lemma nth_all_less: "xs ! i \<in> set ys" if "i < length xs" "set xs \<subseteq> set ys"
  using that by auto

lemma map2_xor_self: "map2 (XOR) xs xs = replicate (length xs) (0 :: 'a::len word)"
  by (induction xs) auto

section \<open>Streaming digests\<close>

text \<open>
  A digest register that is updated item by item and loses no information:
  checksums and hashes of this kind tell apart any two inputs that differ in
  one item.
\<close>

locale inj_stream =
  fixes step :: "'s \<Rightarrow> 'b \<Rightarrow> 's"
  assumes state_inj: "step c b = step d b \<Longrightarrow> c = d"
    and item_inj: "step c a = step c b \<Longrightarrow> a = b"
begin

lemma step_inj: "step c b = step d b \<longleftrightarrow> c = d"
  by (auto dest: state_inj)

lemma fold_inj: "foldl step c xs = foldl step d xs \<longleftrightarrow> c = d"
  by (induction xs arbitrary: c d) (simp_all add: step_inj)

lemma item_error_detected:
  assumes "a \<noteq> b"
  shows "foldl step c (xs @ a # ys) \<noteq> foldl step c (xs @ b # ys)"
  using assms item_inj by (auto simp: fold_inj)

end

end
