(* ===== verification/Checksum.thy ===== *)
theory Checksum
  imports C_Prelude
begin

text \<open>
  \<open>Common/crc.c\<close>: the table-driven \<open>crc32\<close> and \<open>crc16\<close>, the bit-serial
  \<open>crc8Dallas\<close> and \<open>crc8\<close>, and the Fletcher-32 sum.  A call reads \<open>len\<close> bytes
  (or half-words) from \<open>buf\<close>; the model takes that stretch of memory as a list.
\<close>

section \<open>The routines\<close>

definition crc32_tab :: "u32 list" where
  "crc32_tab =
    [0x0, 0x77073096, 0xee0e612c, 0x990951ba, 0x76dc419, 0x706af48f, 0xe963a535, 0x9e6495a3,
     0xedb8832, 0x79dcb8a4, 0xe0d5e91e, 0x97d2d988, 0x9b64c2b, 0x7eb17cbd, 0xe7b82d07, 0x90bf1d91,
     0x1db71064, 0x6ab020f2, 0xf3b97148, 0x84be41de, 0x1adad47d, 0x6ddde4eb, 0xf4d4b551, 0x83d385c7,
     0x136c9856, 0x646ba8c0, 0xfd62f97a, 0x8a65c9ec, 0x14015c4f, 0x63066cd9, 0xfa0f3d63, 0x8d080df5,
     0x3b6e20c8, 0x4c69105e, 0xd56041e4, 0xa2677172, 0x3c03e4d1, 0x4b04d447, 0xd20d85fd, 0xa50ab56b,
     0x35b5a8fa, 0x42b2986c, 0xdbbbc9d6, 0xacbcf940, 0x32d86ce3, 0x45df5c75, 0xdcd60dcf, 0xabd13d59,
     0x26d930ac, 0x51de003a, 0xc8d75180, 0xbfd06116, 0x21b4f4b5, 0x56b3c423, 0xcfba9599, 0xb8bda50f,
     0x2802b89e, 0x5f058808, 0xc60cd9b2, 0xb10be924, 0x2f6f7c87, 0x58684c11, 0xc1611dab, 0xb6662d3d,
     0x76dc4190, 0x1db7106, 0x98d220bc, 0xefd5102a, 0x71b18589, 0x6b6b51f, 0x9fbfe4a5, 0xe8b8d433,
     0x7807c9a2, 0xf00f934, 0x9609a88e, 0xe10e9818, 0x7f6a0dbb, 0x86d3d2d, 0x91646c97, 0xe6635c01,
     0x6b6b51f4, 0x1c6c6162, 0x856530d8, 0xf262004e, 0x6c0695ed, 0x1b01a57b, 0x8208f4c1, 0xf50fc457,
     0x65b0d9c6, 0x12b7e950, 0x8bbeb8ea, 0xfcb9887c, 0x62dd1ddf, 0x15da2d49, 0x8cd37cf3, 0xfbd44c65,
     0x4db26158, 0x3ab551ce, 0xa3bc0074, 0xd4bb30e2, 0x4adfa541, 0x3dd895d7, 0xa4d1c46d, 0xd3d6f4fb,
     0x4369e96a, 0x346ed9fc, 0xad678846, 0xda60b8d0, 0x44042d73, 0x33031de5, 0xaa0a4c5f, 0xdd0d7cc9,
     0x5005713c, 0x270241aa, 0xbe0b1010, 0xc90c2086, 0x5768b525, 0x206f85b3, 0xb966d409, 0xce61e49f,
     0x5edef90e, 0x29d9c998, 0xb0d09822, 0xc7d7a8b4, 0x59b33d17, 0x2eb40d81, 0xb7bd5c3b, 0xc0ba6cad,
     0xedb88320, 0x9abfb3b6, 0x3b6e20c, 0x74b1d29a, 0xead54739, 0x9dd277af, 0x4db2615, 0x73dc1683,
     0xe3630b12, 0x94643b84, 0xd6d6a3e, 0x7a6a5aa8, 0xe40ecf0b, 0x9309ff9d, 0xa00ae27, 0x7d079eb1,
     0xf00f9344, 0x8708a3d2, 0x1e01f268, 0x6906c2fe, 0xf762575d, 0x806567cb, 0x196c3671, 0x6e6b06e7,
     0xfed41b76, 0x89d32be0, 0x10da7a5a, 0x67dd4acc, 0xf9b9df6f, 0x8ebeeff9, 0x17b7be43, 0x60b08ed5,
     0xd6d6a3e8, 0xa1d1937e, 0x38d8c2c4, 0x4fdff252, 0xd1bb67f1, 0xa6bc5767, 0x3fb506dd, 0x48b2364b,
     0xd80d2bda, 0xaf0a1b4c, 0x36034af6, 0x41047a60, 0xdf60efc3, 0xa867df55, 0x316e8eef, 0x4669be79,
     0xcb61b38c, 0xbc66831a, 0x256fd2a0, 0x5268e236, 0xcc0c7795, 0xbb0b4703, 0x220216b9, 0x5505262f,
     0xc5ba3bbe, 0xb2bd0b28, 0x2bb45a92, 0x5cb36a04, 0xc2d7ffa7, 0xb5d0cf31, 0x2cd99e8b, 0x5bdeae1d,
     0x9b64c2b0, 0xec63f226, 0x756aa39c, 0x26d930a, 0x9c0906a9, 0xeb0e363f, 0x72076785, 0x5005713,
     0x95bf4a82, 0xe2b87a14, 0x7bb12bae, 0xcb61b38, 0x92d28e9b, 0xe5d5be0d, 0x7cdcefb7, 0xbdbdf21,
     0x86d3d2d4, 0xf1d4e242, 0x68ddb3f8, 0x1fda836e, 0x81be16cd, 0xf6b9265b, 0x6fb077e1, 0x18b74777,
     0x88085ae6, 0xff0f6a70, 0x66063bca, 0x11010b5c, 0x8f659eff, 0xf862ae69, 0x616bffd3, 0x166ccf45,
     0xa00ae278, 0xd70dd2ee, 0x4e048354, 0x3903b3c2, 0xa7672661, 0xd06016f7, 0x4969474d, 0x3e6e77db,
     0xaed16a4a, 0xd9d65adc, 0x40df0b66, 0x37d83bf0, 0xa9bcae53, 0xdebb9ec5, 0x47b2cf7f, 0x30b5ffe9,
     0xbdbdf21c, 0xcabac28a, 0x53b39330, 0x24b4a3a6, 0xbad03605, 0xcdd70693, 0x54de5729, 0x23d967bf,
     0xb3667a2e, 0xc4614ab8, 0x5d681b02, 0x2a6f2b94, 0xb40bbe37, 0xc30c8ea1, 0x5a05df1b, 0x2d02ef8d]"

definition crc16_tab :: "u16 list" where
  "crc16_tab =
    [0x0, 0xc0c1, 0xc181, 0x140, 0xc301, 0x3c0, 0x280, 0xc241,
     0xc601, 0x6c0, 0x780, 0xc741, 0x500, 0xc5c1, 0xc481, 0x440,
     0xcc01, 0xcc0, 0xd80, 0xcd41, 0xf00, 0xcfc1, 0xce81, 0xe40,
     0xa00, 0xcac1, 0xcb81, 0xb40, 0xc901, 0x9c0, 0x880, 0xc841,
     0xd801, 0x18c0, 0x1980, 0xd941, 0x1b00, 0xdbc1, 0xda81, 0x1a40,
     0x1e00, 0xdec1, 0xdf81, 0x1f40, 0xdd01, 0x1dc0, 0x1c80, 0xdc41,
     0x1400, 0xd4c1, 0xd581, 0x1540, 0xd701, 0x17c0, 0x1680, 0xd641,
     0xd201, 0x12c0, 0x1380, 0xd341, 0x1100, 0xd1c1, 0xd081, 0x1040,
     0xf001, 0x30c0, 0x3180, 0xf141, 0x3300, 0xf3c1, 0xf281, 0x3240,
     0x3600, 0xf6c1, 0xf781, 0x3740, 0xf501, 0x35c0, 0x3480, 0xf441,
     0x3c00, 0xfcc1, 0xfd81, 0x3d40, 0xff01, 0x3fc0, 0x3e80, 0xfe41,
     0xfa01, 0x3ac0, 0x3b80, 0xfb41, 0x3900, 0xf9c1, 0xf881, 0x3840,
     0x2800, 0xe8c1, 0xe981, 0x2940, 0xeb01, 0x2bc0, 0x2a80, 0xea41,
     0xee01, 0x2ec0, 0x2f80, 0xef41, 0x2d00, 0xedc1, 0xec81, 0x2c40,
     0xe401, 0x24c0, 0x2580, 0xe541, 0x2700, 0xe7c1, 0xe681, 0x2640,
     0x2200, 0xe2c1, 0xe381, 0x2340, 0xe101, 0x21c0, 0x2080, 0xe041,
     0xa001, 0x60c0, 0x6180, 0xa141, 0x6300, 0xa3c1, 0xa281, 0x6240,
     0x6600, 0xa6c1, 0xa781, 0x6740, 0xa501, 0x65c0, 0x6480, 0xa441,
     0x6c00, 0xacc1, 0xad81, 0x6d40, 0xaf01, 0x6fc0, 0x6e80, 0xae41,
     0xaa01, 0x6ac0, 0x6b80, 0xab41, 0x6900, 0xa9c1, 0xa881, 0x6840,
     0x7800, 0xb8c1, 0xb981, 0x7940, 0xbb01, 0x7bc0, 0x7a80, 0xba41,
     0xbe01, 0x7ec0, 0x7f80, 0xbf41, 0x7d00, 0xbdc1, 0xbc81, 0x7c40,
     0xb401, 0x74c0, 0x7580, 0xb541, 0x7700, 0xb7c1, 0xb681, 0x7640,
     0x7200, 0xb2c1, 0xb381, 0x7340, 0xb101, 0x71c0, 0x7080, 0xb041,
     0x5000, 0x90c1, 0x9181, 0x5140, 0x9301, 0x53c0, 0x5280, 0x9241,
     0x9601, 0x56c0, 0x5780, 0x9741, 0x5500, 0x95c1, 0x9481, 0x5440,
     0x9c01, 0x5cc0, 0x5d80, 0x9d41, 0x5f00, 0x9fc1, 0x9e81, 0x5e40,
     0x5a00, 0x9ac1, 0x9b81, 0x5b40, 0x9901, 0x59c0, 0x5880, 0x9841,
     0x8801, 0x48c0, 0x4980, 0x8941, 0x4b00, 0x8bc1, 0x8a81, 0x4a40,
     0x4e00, 0x8ec1, 0x8f81, 0x4f40, 0x8d01, 0x4dc0, 0x4c80, 0x8c41,
     0x4400, 0x84c1, 0x8581, 0x4540, 0x8701, 0x47c0, 0x4680, 0x8641,
     0x8201, 0x42c0, 0x4380, 0x8341, 0x4100, 0x81c1, 0x8081, 0x4040]"

definition crc32_step :: "u32 \<Rightarrow> u8 \<Rightarrow> u32" where
  "crc32_step crc b = crc32_tab ! unat ((crc XOR ucast b) AND 0xFF) XOR drop_bit 8 crc"

fun crc32_loop :: "u8 list \<Rightarrow> u32 \<Rightarrow> u32" where
  "crc32_loop [] crc = crc"
| "crc32_loop (b # buf) crc = crc32_loop buf (crc32_step crc b)"

definition crc32 :: "u8 list \<Rightarrow> u32" where
  "crc32 buf = crc32_loop buf 0 XOR NOT 0"

definition crc16_step :: "u16 \<Rightarrow> u8 \<Rightarrow> u16" where
  "crc16_step crc b = push_bit 8 crc XOR crc16_tab ! unat (drop_bit 8 crc XOR ucast b)"

fun crc16_loop :: "u8 list \<Rightarrow> u16 \<Rightarrow> u16" where
  "crc16_loop [] crc = crc"
| "crc16_loop (b # buf) crc = crc16_loop buf (crc16_step crc b)"

definition crc16 :: "u8 list \<Rightarrow> u16" where
  "crc16 buf = crc16_loop buf 0"

definition crc8Dallas_bit :: "u8 \<Rightarrow> u8" where
  "crc8Dallas_bit crc = (if crc AND 0x01 \<noteq> 0 then drop_bit 1 crc XOR 0x8C else drop_bit 1 crc)"

definition crc8Dallas_step :: "u8 \<Rightarrow> u8 \<Rightarrow> u8" where
  "crc8Dallas_step crc b = (crc8Dallas_bit ^^ 8) (crc XOR b)"

fun crc8Dallas_loop :: "u8 list \<Rightarrow> u8 \<Rightarrow> u8" where
  "crc8Dallas_loop [] crc = crc"
| "crc8Dallas_loop (b # buf) crc = crc8Dallas_loop buf (crc8Dallas_step crc b)"

definition crc8Dallas :: "u8 list \<Rightarrow> u8" where
  "crc8Dallas buf = crc8Dallas_loop buf 0"

definition crc8_bit :: "u8 \<Rightarrow> u8" where
  "crc8_bit crc = (if crc AND 0x80 \<noteq> 0 then push_bit 1 crc XOR 0x31 else push_bit 1 crc)"

definition crc8_step :: "u8 \<Rightarrow> u8 \<Rightarrow> u8" where
  "crc8_step crc b = (crc8_bit ^^ 8) (crc XOR b)"

fun crc8_loop :: "u8 list \<Rightarrow> u8 \<Rightarrow> u8" where
  "crc8_loop [] crc = crc"
| "crc8_loop (b # buf) crc = crc8_loop buf (crc8_step crc b)"

definition crc8 :: "u8 list \<Rightarrow> u8" where
  "crc8 buf = crc8_loop buf 0xFF"

text \<open>
  \<open>fletcher32\<close> sums blocks of at most 360 half-words before it folds the carries
  back; the inner \<open>do\<close> loop runs over one block.
\<close>

fun fletcher32_block :: "u16 list \<Rightarrow> u32 \<Rightarrow> u32 \<Rightarrow> u32 \<times> u32" where
  "fletcher32_block [] sum1 sum2 = (sum1, sum2)"
| "fletcher32_block (d # ds) sum1 sum2 =
     (let sum1 = sum1 + ucast d; sum2 = sum2 + sum1 in fletcher32_block ds sum1 sum2)"

definition fletcher32_fold :: "u32 \<Rightarrow> u32" where
  "fletcher32_fold s = (s AND 0xffff) + drop_bit 16 s"

function fletcher32_loop :: "u16 list \<Rightarrow> u32 \<Rightarrow> u32 \<Rightarrow> u32 \<times> u32" where
  "fletcher32_loop data sum1 sum2 =
     (if data = [] then (sum1, sum2)
      else let tlen = (if length data > 360 then 360 else length data);
               (sum1, sum2) = fletcher32_block (take tlen data) sum1 sum2
           in fletcher32_loop (drop tlen data) (fletcher32_fold sum1) (fletcher32_fold sum2))"
  by pat_completeness auto
termination
  by (relation "measure (\<lambda>(data, _, _). length data)") auto

declare fletcher32_loop.simps [simp del]

definition fletcher32 :: "u16 list \<Rightarrow> u32" where
  "fletcher32 data =
     (let (sum1, sum2) = fletcher32_loop data 0xffff 0xffff;
          sum1 = fletcher32_fold sum1; sum2 = fletcher32_fold sum2
      in push_bit 16 sum2 OR sum1)"

text \<open>
  \<open>fletcher32_string\<close> reads the characters of a NUL-terminated string two at a
  time on a little-endian machine; the terminator pads an odd length.
\<close>

fun half_words :: "u8 list \<Rightarrow> u16 list" where
  "half_words [] = []"
| "half_words [a] = [ucast a]"
| "half_words (a # b # cs) = (ucast a OR push_bit 8 (ucast b)) # half_words cs"

definition fletcher32_string :: "u8 list \<Rightarrow> u32" where
  "fletcher32_string str = fletcher32 (half_words str)"

section \<open>Bit-serial reference and the tables\<close>

text \<open>
  The reference: one bit of a reflected CRC.  The tables of the source are
  shown to hold, at every index, eight such steps from that index; both are
  linear over exclusive or, so the 256 entries follow from eight of them.
\<close>

definition crc_bit :: "'a::len word \<Rightarrow> 'a word \<Rightarrow> 'a word" where
  "crc_bit poly crc = (if odd crc then drop_bit 1 crc XOR poly else drop_bit 1 crc)"

definition xor_hom :: "('a::len word \<Rightarrow> 'b::len word) \<Rightarrow> bool" where
  "xor_hom f \<longleftrightarrow> (\<forall>a b. f (a XOR b) = f a XOR f b)"

lemma xor_homD: "xor_hom f \<Longrightarrow> f (a XOR b) = f a XOR f b"
  by (simp add: xor_hom_def)

lemma xor_hom_0 [simp]: "xor_hom f \<Longrightarrow> f 0 = 0"
  using xor_homD [of f 0 0] by simp

lemma xor_hom_comp: "xor_hom f \<Longrightarrow> xor_hom g \<Longrightarrow> xor_hom (\<lambda>x. f (g x))"
  by (simp add: xor_hom_def)

lemma xor_hom_funpow: "xor_hom f \<Longrightarrow> xor_hom (f ^^ n)" for f :: "'a::len word \<Rightarrow> 'a word"
  by (induction n) (simp_all add: xor_hom_def)

lemma xor_hom_crc_bit: "xor_hom (crc_bit poly)"
proof -
  have "crc_bit poly c = drop_bit 1 c XOR (if bit c 0 then poly else 0)" for c
    by (simp add: crc_bit_def bit_0)
  then show ?thesis
    by (auto simp: xor_hom_def xor_linear bit_xor_iff ac_simps)
qed

fun xor_table :: "'a::len word list \<Rightarrow> 'a word list" where
  "xor_table [] = [0]"
| "xor_table (b # bs) = (let t = xor_table bs in t @ map (\<lambda>x. b XOR x) t)"

lemma length_xor_table: "length (xor_table bs) = 2 ^ length bs"
  by (induction bs) (simp_all add: Let_def)

lemma of_nat_pow_add_xor:
  assumes "j < 2 ^ n"
  shows "(of_nat (2 ^ n + j) :: 'a::len word) = 2 ^ n XOR of_nat j"
proof -
  have "2 ^ n + j = 2 ^ n XOR j"
  proof (rule disjunctive_add_eq_xor)
    have "\<not> bit j n" using assms
      by (metis bit_take_bit_iff less_irrefl take_bit_nat_eq_self)
    then show "2 ^ n AND j = 0"
      by (intro bit_eqI) (auto simp: bit_simps)
  qed
  then show ?thesis 
    by (metis of_nat_numeral of_nat_power of_nat_xor_eq)
qed

lemma xor_table_nth:
  assumes "xor_hom f" "bs = rev (map (\<lambda>k. f (2 ^ k)) [0..<n])" "i < 2 ^ n"
  shows "xor_table bs ! i = f (of_nat i)"
  using assms(2,3)
proof (induction n arbitrary: bs i)
  case 0
  then show ?case by (simp add: assms(1))
next
  case (Suc n)
  define cs where "cs = rev (map (\<lambda>k. f (2 ^ k)) [0..<n])"
  have bs: "bs = f (2 ^ n) # cs" and len: "length (xor_table cs) = 2 ^ n"
    using Suc.prems(1) by (simp_all add: cs_def length_xor_table)
  show ?case
  proof (cases "i < 2 ^ n")
    case True
    then show ?thesis using Suc.IH [OF cs_def] by (simp add: bs Let_def nth_append len)
  next
    case False
    then obtain j where j: "i = 2 ^ n + j" "j < 2 ^ n"
      using Suc.prems(2) by (metis add_diff_inverse_nat less_diff_conv2 mult_2 not_less power_Suc add.commute)
    have "xor_table bs ! i = f (2 ^ n) XOR f (of_nat j)"
      using Suc.IH [OF cs_def j(2)] j by (simp add: bs Let_def nth_append len)
    then show ?thesis
      by (simp only: j(1) of_nat_pow_add_xor [OF j(2)] xor_homD [OF assms(1)])
  qed
qed

lemma funpow_8: "(f ^^ 8) x = f (f (f (f (f (f (f (f x)))))))"
  by (simp add: numeral_eq_Suc)

lemma upt_0_8: "[0..<8] = [0, 1, 2, 3, 4, 5, 6, 7 :: nat]"
  by (simp add: upt_rec)

lemma crc32_tab_nth:
  assumes "i < 256"
  shows "crc32_tab ! i = (crc_bit 0xEDB88320 ^^ 8) (of_nat i)"
proof -
  let ?bs = "[0xedb88320, 0x76dc4190, 0x3b6e20c8, 0x1db71064,
              0x0edb8832, 0x076dc419, 0xee0e612c, 0x77073096 :: u32]"
  have tab: "crc32_tab = xor_table ?bs" by (simp add: crc32_tab_def)
  have bs: "?bs = rev (map (\<lambda>k. (crc_bit 0xEDB88320 ^^ 8) (2 ^ k)) [0..<8])"
    by (simp add: upt_0_8 funpow_8 crc_bit_def)
  show ?thesis
    unfolding tab by (rule xor_table_nth [OF xor_hom_funpow [OF xor_hom_crc_bit] bs]) (use assms in simp)
qed

lemma crc16_tab_nth:
  assumes "i < 256"
  shows "crc16_tab ! i = (crc_bit 0xA001 ^^ 8) (of_nat i)"
proof -
  let ?bs = "[0xA001, 0xF001, 0xD801, 0xCC01, 0xC601, 0xC301, 0xC181, 0xC0C1 :: u16]"
  have tab: "crc16_tab = xor_table ?bs" by (simp add: crc16_tab_def)
  have bs: "?bs = rev (map (\<lambda>k. (crc_bit 0xA001 ^^ 8) (2 ^ k)) [0..<8])"
    by (simp add: upt_0_8 funpow_8 crc_bit_def)
  show ?thesis
    unfolding tab by (rule xor_table_nth [OF xor_hom_funpow [OF xor_hom_crc_bit] bs]) (use assms in simp)
qed

section \<open>Exclusive-or checksums\<close>

text \<open>
  A checksum register that is updated byte by byte.  \<open>step\<close> is linear over
  exclusive or, which is what makes two messages of one length comparable
  through their difference.
\<close>

locale xor_crc =
  fixes step :: "'a::len word \<Rightarrow> u8 \<Rightarrow> 'a word"
  assumes step_xor: "step (c XOR d) (a XOR b) = step c a XOR step d b"
begin

lemma step_0_0 [simp]: "step 0 0 = 0"
  using step_xor [of 0 0 0 0] by simp

lemma step_split: "step c b = step c 0 XOR step 0 b"
  using step_xor [of c 0 0 b] by simp

lemma fold_xor:
  assumes "length xs = length ys"
  shows "foldl step (c XOR d) (map2 (XOR) xs ys) = foldl step c xs XOR foldl step d ys"
  using assms by (induction xs ys arbitrary: c d rule: list_induct2) (simp_all add: step_xor)

lemma same_checksum_iff:
  assumes "length xs = length ys"
  shows "foldl step c xs = foldl step c ys \<longleftrightarrow> foldl step 0 (map2 (XOR) xs ys) = 0"
  using fold_xor [OF assms, of c c] by simp

lemma fold_zeros [simp]: "foldl step 0 (replicate n 0) = 0"
  by (induction n) simp_all

end

text \<open>
  A register that loses nothing when a zero byte is shifted in, and that
  notices every single byte.
\<close>

locale xor_crc_inj = xor_crc +
  assumes step_0_cancel: "step c 0 = 0 \<Longrightarrow> c = 0"
    and step_byte_cancel: "step 0 b = 0 \<Longrightarrow> b = 0"
begin

lemma fold_zeros_cancel: "foldl step c (replicate n 0) = 0 \<Longrightarrow> c = 0"
  by (induction n arbitrary: c) (auto dest: step_0_cancel)

end

text \<open>Such a register loses no information.\<close>

sublocale xor_crc_inj \<subseteq> inj_stream step
proof
  show "c = d" if "step c b = step d b" for c d b
  proof -
    have "step (c XOR d) 0 = 0" using that step_xor [of c d b b] by simp
    then show "c = d" by (auto dest: step_0_cancel)
  qed
  show "a = b" if "step c a = step c b" for c a b
  proof -
    have "step 0 (a XOR b) = 0" using that step_xor [of c c a b] by simp
    then show "a = b" by (auto dest: step_byte_cancel)
  qed
qed

section \<open>The four registers\<close>

lemma crc8Dallas_bit_eq: "crc8Dallas_bit = crc_bit 0x8C"
  by (rule ext) (simp add: crc8Dallas_bit_def crc_bit_def and_one_eq odd_iff_mod_2_eq_one)

lemma byte_index: "crc32_tab ! unat (w AND 0xFF) = (crc_bit 0xEDB88320 ^^ 8) (w AND 0xFF)"
  using crc32_tab_nth [of "unat (w AND 0xFF)"] unat_and_mask_less [of w "0xFF"] by simp

lemma crc32_step_eq: "crc32_step crc b = (crc_bit 0xEDB88320 ^^ 8) ((crc XOR ucast b) AND 0xFF) XOR drop_bit 8 crc"
  by (simp add: crc32_step_def byte_index)


lemma crc_bit_cancel:
  assumes "bit poly (LENGTH('a) - 1)" "crc_bit poly c = 0"
  shows "c = (0 :: 'a::len word)"
proof (cases "odd c")
  case True
  then have "drop_bit 1 c = poly" using assms(2) by (simp add: crc_bit_def)
  then have "bit c LENGTH('a)" using assms(1) by (auto simp: bit_simps)
  then show ?thesis by simp
next
  case False
  then have "drop_bit 1 c = 0" using assms(2) by (simp add: crc_bit_def)
  show ?thesis
  proof (rule bit_word_eqI)
    fix n
    show "bit c n = bit (0 :: 'a word) n"
    proof (cases n)
      case 0
      then show ?thesis using False by (simp add: bit_0)
    next
      case (Suc m)
      have "bit (drop_bit 1 c) m = False" using \<open>drop_bit 1 c = 0\<close> by simp
      then show ?thesis using Suc by (simp add: bit_simps)
    qed
  qed
qed

lemma funpow_cancel:
  fixes f :: "'a::len word \<Rightarrow> 'a word"
  assumes "\<And>c. f c = 0 \<Longrightarrow> c = 0" "(f ^^ n) c = 0"
  shows "c = 0"
  using assms(2) by (induction n) (auto dest: assms(1))

lemma crc_bit_funpow_drop:
  "take_bit n w = 0 \<Longrightarrow> (crc_bit poly ^^ n) w = drop_bit n w" for w :: "'a::len word"
proof (induction n arbitrary: w)
  case (Suc n)
  have low: "\<not> bit w i" if "i < Suc n" for i
    using Suc.prems that by (metis bit_0_eq bit_take_bit_iff bot_apply bot_bool_def)
  have "even w" using low [of 0] by (simp add: bit_0)
  then have "crc_bit poly w = drop_bit 1 w" by (simp add: crc_bit_def)
  moreover have "take_bit n (drop_bit 1 w) = 0"
    by (rule bit_word_eqI) (auto simp: bit_simps low)
  ultimately show ?case using Suc.IH by (simp add: funpow_swap1)
qed simp

lemma low_high_split:
  "x = (x AND 0xFF) XOR push_bit 8 (drop_bit 8 x)" if "8 \<le> LENGTH('a)" for x :: "'a::len word"
proof -
  have "x AND 0xFF = take_bit 8 x" by (simp add: take_bit_eq_mask mask_eq_exp_minus_1)
  then show ?thesis by (intro bit_word_eqI) (auto simp: bit_simps)
qed

lemma crc_bit_table_step:
  assumes "8 \<le> LENGTH('a)"
  shows "(crc_bit poly ^^ 8) x = (crc_bit poly ^^ 8) (x AND 0xFF) XOR drop_bit 8 (x :: 'a::len word)"
proof -
  have "(crc_bit poly ^^ 8) (push_bit 8 (drop_bit 8 x)) = drop_bit 8 (push_bit 8 (drop_bit 8 x))"
    by (rule crc_bit_funpow_drop) (simp add: take_bit_push_bit)
  also have "\<dots> = drop_bit 8 x"
    by (rule bit_word_eqI) (auto simp: bit_simps dest: bit_imp_le_length)
  finally show ?thesis
    using xor_homD [OF xor_hom_funpow [OF xor_hom_crc_bit]] low_high_split [OF assms, of x] by metis
qed

lemma drop_8_byte: "drop_bit 8 (ucast (b :: u8) :: 'a::len word) = 0"
  by (rule bit_word_eqI) (auto simp: bit_simps dest: bit_imp_le_length)

lemma crc32_step_serial: "crc32_step crc b = (crc_bit 0xEDB88320 ^^ 8) (crc XOR ucast b)"
  by (simp add: crc32_step_eq crc_bit_table_step [of _ "crc XOR ucast b"] xor_linear drop_8_byte)

lemma crc32_loop_foldl: "crc32_loop buf crc = foldl crc32_step crc buf"
  by (induction buf arbitrary: crc) simp_all

lemma crc16_loop_foldl: "crc16_loop buf crc = foldl crc16_step crc buf"
  by (induction buf arbitrary: crc) simp_all

lemma crc8Dallas_loop_foldl: "crc8Dallas_loop buf crc = foldl crc8Dallas_step crc buf"
  by (induction buf arbitrary: crc) simp_all

lemma crc8_loop_foldl: "crc8_loop buf crc = foldl crc8_step crc buf"
  by (induction buf arbitrary: crc) simp_all

lemma reflected_crc_inj:
  assumes step: "\<And>c b. step c b = (crc_bit poly ^^ 8) (c XOR ucast (b :: u8))"
    and "bit poly (LENGTH('a) - 1)" "8 \<le> LENGTH('a)"
  shows "xor_crc_inj (step :: 'a::len word \<Rightarrow> _)"
proof
  fix c d :: "'a word" and a b :: u8
  show "step (c XOR d) (a XOR b) = step c a XOR step d b"
    by (simp only: step ucast_xor_word xor_4 [of c d "ucast a" "ucast b"]
        xor_homD [OF xor_hom_funpow [OF xor_hom_crc_bit]])
  show "c = 0" if "step c 0 = 0"
    by (rule funpow_cancel [OF crc_bit_cancel [OF assms(2)]]) (use that in \<open>simp_all add: step\<close>)
  show "b = 0" if "step 0 b = 0"
  proof -
    have "(ucast b :: 'a word) = 0"
      by (rule funpow_cancel [OF crc_bit_cancel [OF assms(2)]]) (use that in \<open>simp_all add: step\<close>)
    moreover have "ucast (ucast b :: 'a word) = b"
      using assms(3) by (intro bit_word_eqI) (auto simp: bit_simps)
    ultimately show "b = 0" by simp
  qed
qed

interpretation c32: xor_crc_inj crc32_step
  by (rule reflected_crc_inj [OF crc32_step_serial]) simp_all

interpretation dallas: xor_crc_inj crc8Dallas_step
  by (rule reflected_crc_inj [of _ "0x8C"]) (simp_all add: crc8Dallas_step_def crc8Dallas_bit_eq)


lemma crc8_bit_eq: "crc8_bit c = push_bit 1 c XOR (if bit c 7 then 0x31 else 0)"
  using and_exp_eq_0_iff_not_bit [of c 7] by (simp add: crc8_bit_def)

lemma xor_hom_crc8_bit: "xor_hom crc8_bit"
  by (auto simp: xor_hom_def crc8_bit_eq xor_linear bit_xor_iff ac_simps)

lemma even_numeral_word_8: "odd (0x31 :: u8)"
  by simp

lemma crc8_bit_cancel:
  assumes "crc8_bit c = 0"
  shows "c = 0"
proof -
  have eq: "push_bit 1 c = (if bit c 7 then 0x31 else 0)"
    using assms by (auto simp: crc8_bit_eq)
  have "even (push_bit 1 c)" by simp
  then have top: "\<not> bit c 7" using eq by (metis even_numeral_word_8)
  then have z: "push_bit 1 c = 0" using eq by simp
  show ?thesis
  proof (rule bit_word_eqI)
    fix n assume n: "n < LENGTH(8)"
    have "\<not> bit (push_bit 1 c) (Suc n)" unfolding z by simp
    then have "\<not> bit c n" if "n < 7" using that unfolding bit_push_bit_iff by simp
    then show "bit c n = bit (0 :: u8) n" using top n by (cases "n = 7") auto
  qed
qed

interpretation sensirion: xor_crc_inj crc8_step
proof
  fix c d :: u8 and a b :: u8
  show "crc8_step (c XOR d) (a XOR b) = crc8_step c a XOR crc8_step d b"
    by (simp only: crc8_step_def xor_4 [of c d a b] xor_homD [OF xor_hom_funpow [OF xor_hom_crc8_bit]])
  show "c = 0" if "crc8_step c 0 = 0"
    by (rule funpow_cancel [OF crc8_bit_cancel]) (use that in \<open>simp_all add: crc8_step_def\<close>)
  show "b = 0" if "crc8_step 0 b = 0"
    by (rule funpow_cancel [OF crc8_bit_cancel]) (use that in \<open>simp_all add: crc8_step_def\<close>)
qed

lemma crc16_index: "unat (drop_bit 8 (c :: u16) XOR ucast (b :: u8)) < 256"
proof -
  let ?i = "drop_bit 8 c XOR ucast b"
  have "take_bit 8 ?i = ?i"
    by (rule bit_word_eqI) (auto simp: bit_simps dest: bit_imp_le_length)
  then have "unat ?i = take_bit 8 (unat ?i)"
    by (metis unsigned_take_bit_eq)
  then have "unat ?i < 2 ^ 8" by (metis take_bit_nat_less_exp)
  then show ?thesis by simp
qed

lemma crc16_step_serial:
  "crc16_step c b = push_bit 8 c XOR (crc_bit 0xA001 ^^ 8) (drop_bit 8 c XOR ucast b)"
  using crc16_tab_nth [OF crc16_index] by (simp add: crc16_step_def)

interpretation c16: xor_crc crc16_step
proof
  fix c d :: u16 and a b :: u8
  show "crc16_step (c XOR d) (a XOR b) = crc16_step c a XOR crc16_step d b"
    by (simp only: crc16_step_serial drop_bit_xor_word push_bit_xor_word ucast_xor_word
        xor_4 [of "drop_bit 8 c" "drop_bit 8 d" "ucast a" "ucast b"]
        xor_homD [OF xor_hom_funpow [OF xor_hom_crc_bit]] xor_4)
qed

lemma crc32_append: "crc32_loop (xs @ ys) c = crc32_loop ys (crc32_loop xs c)"
  by (simp add: crc32_loop_foldl)

lemma crc32_window:
  assumes "length es \<le> 4"
  shows "foldl crc32_step c es = ((crc_bit 0xEDB88320 ^^ 8) ^^ length es) (c XOR le_word es)"
  using assms
proof (induction es arbitrary: c)
  case (Cons e es)
  let ?F = "crc_bit 0xEDB88320 ^^ 8 :: u32 \<Rightarrow> u32"
  have low: "ucast e OR push_bit 8 (le_word es) = ucast e XOR push_bit 8 (le_word es :: u32)"
    by (rule bit_word_eqI) (auto simp: bit_simps dest: bit_imp_le_length)
  have "?F (push_bit 8 (le_word es)) = drop_bit 8 (push_bit 8 (le_word es))"
    by (rule crc_bit_funpow_drop) (simp add: take_bit_push_bit)
  also have "\<dots> = le_word es"
  proof (rule bit_word_eqI)
    fix n
    have "bit (le_word es :: u32) n \<Longrightarrow> 8 + n < 32"
      using le_word_bound [of es n, where 'a = 32] Cons.prems by auto
    then show "bit (drop_bit 8 (push_bit 8 (le_word es :: u32))) n = bit (le_word es :: u32) n"
      by (auto simp: bit_simps)
  qed
  finally have "?F (c XOR le_word (e # es)) = ?F (c XOR ucast e) XOR le_word es"
    by (simp only: le_word.simps low xor_homD [OF xor_hom_funpow [OF xor_hom_crc_bit]] xor.assoc)
  then show ?case
    using Cons by (simp add: crc32_step_serial funpow_swap1)
qed simp

lemma crc_serial_inj:
  assumes "bit poly (LENGTH('a) - 1)" "((crc_bit poly ^^ m) ^^ n) x = ((crc_bit poly ^^ m) ^^ n) y"
  shows "x = (y :: 'a::len word)"
proof -
  have "((crc_bit poly ^^ m) ^^ n) (x XOR y) = 0"
    using assms(2) by (simp add: xor_homD [OF xor_hom_funpow [OF xor_hom_funpow [OF xor_hom_crc_bit]]])
  then have "x XOR y = 0"
    by (rule funpow_cancel [rotated]) (rule funpow_cancel [OF crc_bit_cancel [OF assms(1)]])
  then show ?thesis by simp
qed

section \<open>Fletcher-32\<close>

text \<open>
  The specification is the pair of sums over unbounded naturals; the block
  length 360 is what keeps the 32-bit sums of the code from wrapping.
\<close>

fun simple_sum :: "u16 list \<Rightarrow> nat" where
  "simple_sum [] = 0"
| "simple_sum (d # ds) = unat d + simple_sum ds"

fun weighted_sum :: "u16 list \<Rightarrow> nat" where
  "weighted_sum [] = 0"
| "weighted_sum (d # ds) = Suc (length ds) * unat d + weighted_sum ds"

lemma simple_sum_append [simp]: "simple_sum (xs @ ys) = simple_sum xs + simple_sum ys"
  by (induction xs) simp_all

lemma weighted_sum_append [simp]:
  "weighted_sum (xs @ ys) = weighted_sum xs + length ys * simple_sum xs + weighted_sum ys"
  by (induction xs) (simp_all add: algebra_simps)

lemma unat_u16_le: "unat (d :: u16) \<le> 65535"
  using unat_u16_less [of d] by linarith

lemma simple_sum_le: "simple_sum ds \<le> length ds * 65535"
proof (induction ds)
  case (Cons d ds)
  then show ?case using unat_u16_le [of d] by simp
qed simp

lemma weighted_sum_le: "2 * weighted_sum ds \<le> length ds * Suc (length ds) * 65535"
proof (induction ds)
  case (Cons d ds)
  have "Suc (length ds) * unat d \<le> Suc (length ds) * 65535"
    using unat_u16_le by (rule mult_le_mono2)
  then show ?case using Cons.IH by (simp add: algebra_simps)
qed simp

lemma fletcher32_block_exact:
  assumes "unat s1 + simple_sum ds < 2 ^ 32"
    and "unat s2 + length ds * unat s1 + weighted_sum ds < 2 ^ 32"
  shows "unat (fst (fletcher32_block ds s1 s2)) = unat s1 + simple_sum ds"
    and "unat (snd (fletcher32_block ds s1 s2)) = unat s2 + length ds * unat s1 + weighted_sum ds"
  using assms
proof (induction ds arbitrary: s1 s2)
  case (Cons d ds)
  have u: "unat (ucast d :: u32) = unat d"
    using unat_u16_le [of d] by (simp add: unsigned_ucast_eq take_bit_nat_eq_self)
  {
    case 1
    have s1: "unat (s1 + ucast d) = unat s1 + unat d"
      using 1 by (simp add: unat_word_ariths u)
    have s2: "unat (s2 + (s1 + ucast d)) = unat s2 + unat s1 + unat d"
      using 1 s1 by (simp add: unat_word_ariths u)
    show ?case using Cons.IH(1) [of "s1 + ucast d" "s2 + (s1 + ucast d)"] 1 s1 s2
      by (simp add: Let_def algebra_simps)
  next
    case 2
    have s1: "unat (s1 + ucast d) = unat s1 + unat d"
      using 2 by (simp add: unat_word_ariths u)
    have s2: "unat (s2 + (s1 + ucast d)) = unat s2 + unat s1 + unat d"
      using 2 s1 by (simp add: unat_word_ariths u)
    show ?case using Cons.IH(2) [of "s1 + ucast d" "s2 + (s1 + ucast d)"] 2 s1 s2
      by (simp add: Let_def algebra_simps)
  }
qed simp_all

lemma and_mask_65535: "n AND 65535 = n mod 65536" for n :: nat
  using take_bit_eq_mask [of 16 n] by (simp add: take_bit_eq_mod mask_eq_exp_minus_1)

lemma unat_fletcher32_fold: "unat (fletcher32_fold s) = unat s mod 65536 + unat s div 65536"
proof -
  have a: "unat (s AND 0xffff) = unat s mod 65536"
    by (simp add: unsigned_and_eq and_mask_65535)
  have d: "unat (drop_bit 16 s) = unat s div 65536"
    unfolding unat_drop_bit_eq by (simp add: drop_bit_eq_div)
  show ?thesis
    using a d unat_less_exp [of s] by (simp add: fletcher32_fold_def unat_word_ariths)
qed

lemma fold_nat_mod: "(n mod 65536 + n div 65536) mod 65535 = n mod (65535 :: nat)"
proof -
  have "n = n mod 65536 + 65536 * (n div 65536)" by simp
  then have "n = n mod 65536 + n div 65536 + 65535 * (n div 65536)" by linarith
  then show ?thesis by (metis mod_mult_self2)
qed

lemma fletcher32_fold_mod: "unat (fletcher32_fold s) mod 65535 = unat s mod 65535"
  unfolding unat_fletcher32_fold by (rule fold_nat_mod)

lemma fletcher32_fold_pos: "0 < unat s \<Longrightarrow> 0 < unat (fletcher32_fold s)"
  unfolding unat_fletcher32_fold using div_mult_mod_eq [of "unat s" 65536] by linarith

lemma fletcher32_fold_le: "unat s \<le> m \<Longrightarrow> unat (fletcher32_fold s) \<le> 65535 + m div 65536"
  unfolding unat_fletcher32_fold
  using div_le_mono [of "unat s" m 65536] mod_less_divisor [of 65536 "unat s"] by linarith

lemma fletcher32_fold_final: "unat s \<le> 131070 \<Longrightarrow> unat (fletcher32_fold s) \<le> 65535"
  unfolding unat_fletcher32_fold using div_mult_mod_eq [of "unat s" 65536]
    mod_less_divisor [of 65536 "unat s"] by (cases "unat s < 65536") linarith+

definition fletcher_inv :: "u32 \<Rightarrow> u32 \<Rightarrow> bool" where
  "fletcher_inv s1 s2 \<longleftrightarrow> 0 < unat s1 \<and> unat s1 \<le> 65896 \<and> 0 < unat s2 \<and> unat s2 \<le> 131070"

lemma fletcher32_block_no_overflow:
  assumes "fletcher_inv s1 s2" "length ds \<le> 360"
  shows "unat s1 + simple_sum ds < 2 ^ 32"
    and "unat s2 + length ds * unat s1 + weighted_sum ds < 2 ^ 32"
proof -
  have "length ds * Suc (length ds) \<le> 360 * 361"
    using assms(2) by (intro mult_le_mono) auto
  then have w: "weighted_sum ds \<le> 64980 * 65535"
    using weighted_sum_le [of ds] by simp
  have "length ds * unat s1 \<le> 360 * 65896"
    using assms by (intro mult_le_mono) (auto simp: fletcher_inv_def)
  then show "unat s2 + length ds * unat s1 + weighted_sum ds < 2 ^ 32"
    using w assms(1) by (simp add: fletcher_inv_def)
  show "unat s1 + simple_sum ds < 2 ^ 32"
    using simple_sum_le [of ds] assms by (simp add: fletcher_inv_def)
qed

lemma fletcher32_block_inv:
  assumes "fletcher_inv s1 s2" "length ds \<le> 360" "fletcher32_block ds s1 s2 = (a, b)"
  shows "fletcher_inv (fletcher32_fold a) (fletcher32_fold b)"
    and "unat (fletcher32_fold a) mod 65535 = (unat s1 + simple_sum ds) mod 65535"
    and "unat (fletcher32_fold b) mod 65535 = (unat s2 + length ds * unat s1 + weighted_sum ds) mod 65535"
proof -
  note ex = fletcher32_block_exact [OF fletcher32_block_no_overflow [OF assms(1,2)]]
  have a: "unat a = unat s1 + simple_sum ds" using ex(1) assms(3) by simp
  have b: "unat b = unat s2 + length ds * unat s1 + weighted_sum ds" using ex(2) assms(3) by simp
  have "unat a \<le> 23658496" using a simple_sum_le [of ds] assms(1,2) by (simp add: fletcher_inv_def)
  then have "unat (fletcher32_fold a) \<le> 65896" using fletcher32_fold_le [of a 23658496] by simp
  moreover have "unat b \<le> 4294967295" using unat_less_exp [of b] by simp
  then have "unat (fletcher32_fold b) \<le> 131070" using fletcher32_fold_le [of b 4294967295] by simp
  ultimately show "fletcher_inv (fletcher32_fold a) (fletcher32_fold b)"
    using assms(1) a b fletcher32_fold_pos [of a] fletcher32_fold_pos [of b] by (simp add: fletcher_inv_def)
  show "unat (fletcher32_fold a) mod 65535 = (unat s1 + simple_sum ds) mod 65535"
    by (simp add: fletcher32_fold_mod a)
  show "unat (fletcher32_fold b) mod 65535 = (unat s2 + length ds * unat s1 + weighted_sum ds) mod 65535"
    by (simp add: fletcher32_fold_mod b)
qed

lemma fletcher32_loop_correct:
  assumes "fletcher_inv s1 s2" "fletcher32_loop ds s1 s2 = (a, b)"
  shows "fletcher_inv a b \<and> unat a mod 65535 = (unat s1 + simple_sum ds) mod 65535
    \<and> unat b mod 65535 = (unat s2 + length ds * unat s1 + weighted_sum ds) mod 65535"
  using assms
proof (induction ds s1 s2 rule: fletcher32_loop.induct)
  case (1 ds s1 s2)
  show ?case
  proof (cases "ds = []")
    case True
    then show ?thesis using 1 by (simp add: fletcher32_loop.simps [of "[]"])
  next
    case False
    define n where "n = (if length ds > 360 then 360 else length ds)"
    obtain p q where pq: "fletcher32_block (take n ds) s1 s2 = (p, q)" by fastforce
    have len: "length (take n ds) \<le> 360" by (simp add: n_def)
    note blk = fletcher32_block_inv [OF "1.prems"(1) len pq]
    have "fletcher32_loop (drop n ds) (fletcher32_fold p) (fletcher32_fold q) = (a, b)"
      using "1.prems"(2) False by (simp add: fletcher32_loop.simps [of ds] n_def [symmetric] pq)
    with "1.IH" [OF False n_def pq [symmetric] refl blk(1)]
    have ih: "fletcher_inv a b" "unat a mod 65535 = (unat (fletcher32_fold p) + simple_sum (drop n ds)) mod 65535"
      "unat b mod 65535 = (unat (fletcher32_fold q) + length (drop n ds) * unat (fletcher32_fold p)
          + weighted_sum (drop n ds)) mod 65535" by auto
    have ds: "simple_sum ds = simple_sum (take n ds) + simple_sum (drop n ds)"
      "weighted_sum ds = weighted_sum (take n ds) + length (drop n ds) * simple_sum (take n ds) + weighted_sum (drop n ds)"
      "length ds = length (take n ds) + length (drop n ds)"
      using simple_sum_append [of "take n ds" "drop n ds"] weighted_sum_append [of "take n ds" "drop n ds"]
        length_append [of "take n ds" "drop n ds"] by simp_all
    have "unat a mod 65535 = (unat s1 + simple_sum ds) mod 65535"
      unfolding ih(2) ds(1) using mod_add_cong [OF blk(2) refl, of "simple_sum (drop n ds)"]
      by (simp only: add.assoc)
    moreover have "unat b mod 65535 = (unat s2 + length ds * unat s1 + weighted_sum ds) mod 65535"
    proof -
      let ?L = "length (drop n ds)" and ?T = "take n ds" and ?D = "drop n ds"
      have "(unat (fletcher32_fold q) + ?L * unat (fletcher32_fold p) + weighted_sum ?D) mod 65535
          = ((unat s2 + length ?T * unat s1 + weighted_sum ?T) + ?L * (unat s1 + simple_sum ?T) + weighted_sum ?D) mod 65535"
        by (intro mod_add_cong mod_mult_cong blk refl)
      also have "\<dots> = (unat s2 + length ds * unat s1 + weighted_sum ds) mod 65535"
        unfolding ds(2,3) by (simp add: algebra_simps)
      finally show ?thesis using ih(3) by simp
    qed
    ultimately show ?thesis using ih(1) by simp
  qed
qed

lemma unat_pack_halves:
  assumes "unat a \<le> 65535" "unat b \<le> 65535"
  shows "unat (push_bit 16 b OR a :: u32) = 65536 * unat b + unat a"
proof -
  have "take_bit 16 a = a"
    using assms(1) by (simp add: word_unat_eq_iff unsigned_take_bit_eq take_bit_nat_eq_self)
  then have "\<not> bit a n" if "16 \<le> n" for n
    using that by (metis bit_take_bit_iff not_less)
  then have "push_bit 16 b AND a = 0"
    by (intro bit_word_eqI) (auto simp: bit_simps)
  then have "push_bit 16 b OR a = push_bit 16 b + a"
    by (rule disjunctive_add_eq_or [symmetric])
  then show ?thesis using assms by (simp add: push_bit_eq_mult unat_word_ariths)
qed

section \<open>Properties\<close>

text \<open>
  C31: the table-driven \<open>crc32\<close> computes the bit-serial reflected CRC with
  polynomial \<open>0xEDB88320\<close>, started from zero and complemented at the end, on
  every buffer.
\<close>

theorem crc32_is_bit_serial:
  "crc32 buf = NOT (foldl (\<lambda>crc b. (crc_bit 0xEDB88320 ^^ 8) (crc XOR ucast b)) 0 buf)"
proof -
  have "crc32_step = (\<lambda>crc b. (crc_bit 0xEDB88320 ^^ 8) (crc XOR ucast b))"
    by (intro ext) (rule crc32_step_serial)
  then show ?thesis by (simp add: crc32_def crc32_loop_foldl)
qed

text \<open>
  \<open>crc32\<close> detects every corruption confined to a window of four
  consecutive bytes, wherever the window lies and whatever surrounds it.
\<close>

theorem crc32_burst_detected:
  assumes "length es = length fs" "length es \<le> 4" "es \<noteq> fs"
  shows "crc32 (xs @ es @ ys) \<noteq> crc32 (xs @ fs @ ys)"
proof
  let ?c = "foldl crc32_step 0 xs"
  assume "crc32 (xs @ es @ ys) = crc32 (xs @ fs @ ys)"
  then have "foldl crc32_step ?c es = foldl crc32_step ?c fs"
    by (simp add: crc32_def crc32_loop_foldl c32.fold_inj)
  then have "((crc_bit 0xEDB88320 ^^ 8) ^^ length es) (?c XOR le_word es)
           = ((crc_bit 0xEDB88320 ^^ 8) ^^ length es) (?c XOR le_word fs)"
    using crc32_window [of es ?c] crc32_window [of fs ?c] assms(1,2) by metis
  then have "?c XOR le_word es = ?c XOR le_word fs"
    by (rule crc_serial_inj [rotated]) simp
  then show False using le_word_inj [OF assms(1), where 'a = 32] assms(2,3) by simp
qed

theorem crc32_burst_detected_witness:
  "crc32 ([1, 2] @ [3, 4, 5] @ [6]) \<noteq> crc32 ([1, 2] @ [3, 0x44, 5] @ [6])"
  by (rule crc32_burst_detected) simp_all

text \<open>
  \<open>crc16\<close> does not have that property.  The table is the one of a reflected
  CRC, but the register is shifted the other way, and the difference
  \<open>0x0C 0x05\<close> on two neighbouring bytes cancels: on every message and at every
  position the corrupted message has the checksum of the original.
\<close>

theorem crc16_burst_undetected:
  "crc16 (xs @ [a, b] @ ys) = crc16 (xs @ [a XOR 0x0C, b XOR 0x05] @ ys)"
proof -
  have z: "foldl crc16_step 0 [0x0C, 0x05] = 0"
    by (simp add: crc16_step_def crc16_tab_def)
  have "foldl crc16_step c [a, b] = foldl crc16_step c [a XOR 0x0C, b XOR 0x05]" for c
    by (subst c16.same_checksum_iff) (use z in \<open>simp_all\<close>)
  then show ?thesis by (simp add: crc16_def crc16_loop_foldl)
qed

lemma dallas_residue_iff: "crc8Dallas (buf @ [c]) = 0 \<longleftrightarrow> c = crc8Dallas buf"
proof -
  let ?r = "foldl crc8Dallas_step 0 buf"
  have "crc8Dallas_step ?r c = (crc_bit 0x8C ^^ 8) (?r XOR c)"
    by (simp add: crc8Dallas_step_def crc8Dallas_bit_eq)
  also have "\<dots> = 0 \<longleftrightarrow> ?r XOR c = 0"
    using dallas.step_0_cancel [of "?r XOR c"] dallas.step_0_0
    by (auto simp: crc8Dallas_step_def crc8Dallas_bit_eq)
  finally show ?thesis by (auto simp: crc8Dallas_def crc8Dallas_loop_foldl)
qed

text \<open>
  \<open>crc8Dallas\<close> of a buffer followed by its own checksum is zero, and no
  other last byte gives zero: the test on a scratchpad accepts exactly the
  untouched checksum.
\<close>

theorem crc8Dallas_residue: "crc8Dallas (buf @ [c]) = 0 \<longleftrightarrow> c = crc8Dallas buf"
  by (rule dallas_residue_iff)

text \<open>
  Both 8-bit checksums detect every corruption of a single byte.
\<close>

theorem crc8_byte_error_detected:
  assumes "a \<noteq> b"
  shows "crc8 (xs @ a # ys) \<noteq> crc8 (xs @ b # ys) \<and> crc8Dallas (xs @ a # ys) \<noteq> crc8Dallas (xs @ b # ys)"
  unfolding crc8_def crc8Dallas_def crc8_loop_foldl crc8Dallas_loop_foldl
  using sensirion.item_error_detected [OF assms] dallas.item_error_detected [OF assms] by blast

theorem crc8_byte_error_detected_witness:
  "crc8 ([1] @ 2 # [3]) \<noteq> crc8 ([1] @ 6 # [3]) \<and> crc8Dallas ([1] @ 2 # [3]) \<noteq> crc8Dallas ([1] @ 6 # [3])"
  by (rule crc8_byte_error_detected) simp

text \<open>
  \<open>fletcher32\<close> packs the two Fletcher sums, each reduced to its
  representative in \<open>1..65535\<close> modulo 65535, for input of any length: the
  sums of a block of 360 half-words never wrap.
\<close>

theorem fletcher32_correct:
  "unat (fletcher32 data) mod 65536 \<in> {1..65535}
   \<and> unat (fletcher32 data) mod 65536 mod 65535 = simple_sum data mod 65535
   \<and> unat (fletcher32 data) div 65536 \<in> {1..65535}
   \<and> unat (fletcher32 data) div 65536 mod 65535 = weighted_sum data mod 65535"
proof -
  obtain a b where ab: "fletcher32_loop data 0xffff 0xffff = (a, b)" by fastforce
  have "fletcher_inv 0xffff 0xffff" by (simp add: fletcher_inv_def)
  note loop = fletcher32_loop_correct [OF this ab]
  let ?a = "fletcher32_fold a" and ?b = "fletcher32_fold b"
  have bounds: "unat ?a \<in> {1..65535}" "unat ?b \<in> {1..65535}"
    using loop fletcher32_fold_final [of a] fletcher32_fold_final [of b]
      fletcher32_fold_pos [of a] fletcher32_fold_pos [of b] by (auto simp: fletcher_inv_def Suc_le_eq)
  have r: "unat (fletcher32 data) = 65536 * unat ?b + unat ?a"
    using bounds by (simp add: fletcher32_def ab unat_pack_halves)
  have lo: "unat (fletcher32 data) mod 65536 = unat ?a" and hi: "unat (fletcher32 data) div 65536 = unat ?b"
    unfolding r using bounds by simp_all
  have "65535 + length data * 65535 + weighted_sum data = weighted_sum data + 65535 * Suc (length data)" by simp
  then have "(65535 + length data * 65535 + weighted_sum data) mod 65535 = weighted_sum data mod 65535"
    by (simp only: mod_mult_self2)
  then show ?thesis
    unfolding lo hi fletcher32_fold_mod using loop bounds by simp
qed

end
