(* ===== verification/Bitops.thy ===== *)
theory Bitops
  imports C_Prelude
begin

text \<open>
  \<open>Common/bitops.c\<close> and \<open>Common/bitops.h\<close>: bit reversal by swapping ever larger
  groups, the conversions between words and strings of \<open>0\<close> and \<open>1\<close>, and the
  byte-order conversions.  A character buffer is a list of bytes; a write past
  its end, which C leaves undefined, is \<open>None\<close>.
\<close>

section \<open>Bit reversal\<close>

definition reverse_bits32 :: "u32 \<Rightarrow> u32" where
  "reverse_bits32 x =
    (let x = (drop_bit 1 x AND 0x55555555) OR push_bit 1 (x AND 0x55555555);
         x = (drop_bit 2 x AND 0x33333333) OR push_bit 2 (x AND 0x33333333);
         x = (drop_bit 4 x AND 0x0F0F0F0F) OR push_bit 4 (x AND 0x0F0F0F0F);
         x = (drop_bit 8 x AND 0x00FF00FF) OR push_bit 8 (x AND 0x00FF00FF)
     in drop_bit 16 x OR push_bit 16 x)"

definition reverse_bits16 :: "u16 \<Rightarrow> u16" where
  "reverse_bits16 x =
    (let x = (drop_bit 1 x AND 0x5555) OR push_bit 1 (x AND 0x5555);
         x = (drop_bit 2 x AND 0x3333) OR push_bit 2 (x AND 0x3333);
         x = (drop_bit 4 x AND 0x0F0F) OR push_bit 4 (x AND 0x0F0F)
     in drop_bit 8 x OR push_bit 8 x)"

definition reverse_bits8 :: "u8 \<Rightarrow> u8" where
  "reverse_bits8 x =
    (let x = (drop_bit 1 x AND 0x55) OR push_bit 1 (x AND 0x55);
         x = (drop_bit 2 x AND 0x33) OR push_bit 2 (x AND 0x33)
     in drop_bit 4 x OR push_bit 4 x)"

section \<open>Bit strings\<close>

text \<open>
  The three printers differ in the width only; the loop runs from the last
  character of the number down to the first.
\<close>

fun bit_str_loop :: "nat \<Rightarrow> 'a::len word \<Rightarrow> u8 list \<Rightarrow> u8 list option" where
  "bit_str_loop 0 value buffer = Some buffer"
| "bit_str_loop (Suc i) value buffer =
     (if i < length buffer
      then bit_str_loop i (drop_bit 1 value) (buffer[i := (if value AND 1 \<noteq> 0 then 0x31 else 0x30)])
      else None)"

definition terminate_str :: "nat \<Rightarrow> u8 list \<Rightarrow> u8 list option" where
  "terminate_str n buffer = (if n < length buffer then Some (buffer[n := 0]) else None)"

definition bit_str32 :: "u32 \<Rightarrow> u8 list \<Rightarrow> u8 list option" where
  "bit_str32 value buffer = Option.bind (bit_str_loop 32 value buffer) (terminate_str 32)"

definition bit_str16 :: "u16 \<Rightarrow> u8 list \<Rightarrow> u8 list option" where
  "bit_str16 value buffer = Option.bind (bit_str_loop 16 value buffer) (terminate_str 16)"

definition bit_str8 :: "u8 \<Rightarrow> u8 list \<Rightarrow> u8 list option" where
  "bit_str8 value buffer = Option.bind (bit_str_loop 8 value buffer) (terminate_str 8)"

text \<open>
  The readers stop after the width of the result, at the terminating zero or
  at a character that is neither \<open>0\<close> nor \<open>1\<close>; the result is shifted before the
  character is looked at.  The list is the string from \<open>str\<close> on, its end
  standing for the terminator.
\<close>

fun str_bits_loop :: "nat \<Rightarrow> u8 list \<Rightarrow> 'a::len word \<Rightarrow> 'a word" where
  "str_bits_loop 0 str result = result"
| "str_bits_loop (Suc n) [] result = result"
| "str_bits_loop (Suc n) (c # str) result =
     (if c = 0 then result
      else let result = push_bit 1 result
           in if c = 0x31 then str_bits_loop n str (result OR 1)
              else if c \<noteq> 0x30 then result
              else str_bits_loop n str result)"

definition str_bits32 :: "u8 list \<Rightarrow> u32" where
  "str_bits32 str = str_bits_loop 32 str 0"

definition str_bits16 :: "u8 list \<Rightarrow> u16" where
  "str_bits16 str = str_bits_loop 16 str 0"

definition str_bits8 :: "u8 list \<Rightarrow> u8" where
  "str_bits8 str = str_bits_loop 8 str 0"

section \<open>Byte order\<close>

text \<open>
  \<open>BigEndianToNative\<close> and its companions work on the object representation of
  a value, here the list of its \<open>sizeof(T)\<close> bytes.  Only the sizes 2, 4 and 8 are
  swapped.  \<open>le\<close> is \<open>IS_LITTLE_ENDIAN\<close>, and \<open>load\<close>/\<open>store\<close> are the copies between
  the object and the integer in the byte order of the machine.  The swap
  itself is the shift expression of the source, which the compiler builtins
  of the other branches also compute.
\<close>

definition bswap16 :: "u16 \<Rightarrow> u16" where
  "bswap16 x = drop_bit 8 x OR push_bit 8 x"

definition bswap32 :: "u32 \<Rightarrow> u32" where
  "bswap32 x =
    (drop_bit 24 x AND 0x000000FF) OR (drop_bit 8 x AND 0x0000FF00) OR
    (push_bit 8 x AND 0x00FF0000) OR (push_bit 24 x AND 0xFF000000)"

definition bswap64 :: "u64 \<Rightarrow> u64" where
  "bswap64 x =
    (drop_bit 56 x AND 0x00000000000000FF) OR (drop_bit 40 x AND 0x000000000000FF00) OR
    (drop_bit 24 x AND 0x0000000000FF0000) OR (drop_bit 8 x AND 0x00000000FF000000) OR
    (push_bit 8 x AND 0x000000FF00000000) OR (push_bit 24 x AND 0x0000FF0000000000) OR
    (push_bit 40 x AND 0x00FF000000000000) OR (push_bit 56 x AND 0xFF00000000000000)"

definition native_load :: "bool \<Rightarrow> u8 list \<Rightarrow> 'a::len word" where
  "native_load le bs = le_word (if le then bs else rev bs)"

definition native_store :: "bool \<Rightarrow> nat \<Rightarrow> 'a::len word \<Rightarrow> u8 list" where
  "native_store le n w = (if le then le_bytes n w else rev (le_bytes n w))"

definition BigEndianToNative :: "bool \<Rightarrow> u8 list \<Rightarrow> u8 list" where
  "BigEndianToNative le value =
    (if le then
       if length value = 2 then native_store le 2 (bswap16 (native_load le value))
       else if length value = 4 then native_store le 4 (bswap32 (native_load le value))
       else if length value = 8 then native_store le 8 (bswap64 (native_load le value))
       else value
     else value)"

definition LittleEndianToNative :: "bool \<Rightarrow> u8 list \<Rightarrow> u8 list" where
  "LittleEndianToNative le value =
    (if \<not> le then
       if length value = 2 then native_store le 2 (bswap16 (native_load le value))
       else if length value = 4 then native_store le 4 (bswap32 (native_load le value))
       else if length value = 8 then native_store le 8 (bswap64 (native_load le value))
       else value
     else value)"

definition NativeToBigEndian :: "bool \<Rightarrow> u8 list \<Rightarrow> u8 list" where
  "NativeToBigEndian le value = BigEndianToNative le value"

definition NativeToLittleEndian :: "bool \<Rightarrow> u8 list \<Rightarrow> u8 list" where
  "NativeToLittleEndian le value = LittleEndianToNative le value"

datatype Endian = Little | Big

fun NativeTo :: "Endian \<Rightarrow> bool \<Rightarrow> u8 list \<Rightarrow> u8 list" where
  "NativeTo Big le value = BigEndianToNative le value"
| "NativeTo Little le value = LittleEndianToNative le value"

fun ToNative :: "Endian \<Rightarrow> bool \<Rightarrow> u8 list \<Rightarrow> u8 list" where
  "ToNative Big le value = BigEndianToNative le value"
| "ToNative Little le value = LittleEndianToNative le value"

section \<open>Swapping neighbouring groups\<close>

definition swap_pos :: "nat \<Rightarrow> nat \<Rightarrow> nat" where
  "swap_pos k n = (if even (n div k) then n + k else n - k)"

lemma bit_swap_groups:
  fixes x m :: "'a::len word"
  assumes "\<And>i. i < LENGTH('a) \<Longrightarrow> bit m i \<longleftrightarrow> even (i div k)"
    and "0 < k" "n < LENGTH('a)" "swap_pos k n < LENGTH('a)"
  shows "bit ((drop_bit k x AND m) OR push_bit k (x AND m)) n \<longleftrightarrow> bit x (swap_pos k n)"
proof (cases "even (n div k)")
  case True
  then have "\<not> bit m (n - k)" if "k \<le> n"
    using that assms(1) [of "n - k"] assms(2,3) by (simp add: le_div_geq)
  then show ?thesis
    using True assms by (auto simp: swap_pos_def bit_simps add.commute)
next
  case False
  then have "k \<le> n" using assms(2) by (metis div_less even_zero not_le)
  then have "bit m (n - k)"
    using False assms(1) [of "n - k"] assms(2,3) by (simp add: le_div_geq)
  then show ?thesis
    using False \<open>k \<le> n\<close> assms by (auto simp: swap_pos_def bit_simps)
qed

lemma bit_swap_halves:
  fixes x :: "'a::len word"
  assumes "LENGTH('a) = 2 * k" "n < LENGTH('a)"
  shows "bit (drop_bit k x OR push_bit k x) n \<longleftrightarrow> bit x (swap_pos k n)"
proof (cases "n < k")
  case True
  then show ?thesis using assms by (auto simp: swap_pos_def bit_simps add.commute)
next
  case False
  then have "n div k = 1" using assms by (simp add: div_nat_eqI)
  then show ?thesis using False assms by (auto simp: swap_pos_def bit_simps dest: bit_imp_le_length)
qed

text \<open>Facts about positions and masks are decided position by position.\<close>

lemma all_positions: "list_all P [0..<w] \<Longrightarrow> n < w \<Longrightarrow> P n"
  by (simp add: list_all_iff)

lemma positions:
  "[0..<8] = [0, 1, 2, 3, 4, 5, 6, 7]"
  "[0..<16] = [0, 1, 2, 3, 4, 5, 6, 7, 8, 9, 10, 11, 12, 13, 14, 15]"
  "[0..<32] = [0, 1, 2, 3, 4, 5, 6, 7, 8, 9, 10, 11, 12, 13, 14, 15, 16, 17, 18, 19,
      20, 21, 22, 23, 24, 25, 26, 27, 28, 29, 30, 31]"
  by (simp_all add: upt_rec)

lemmas mask_simps = positions bit_0

lemma mask32:
  assumes "i < LENGTH(32)"
  shows "bit (0x55555555 :: u32) i \<longleftrightarrow> even (i div 1)"
    and "bit (0x33333333 :: u32) i \<longleftrightarrow> even (i div 2)"
    and "bit (0x0F0F0F0F :: u32) i \<longleftrightarrow> even (i div 4)"
    and "bit (0x00FF00FF :: u32) i \<longleftrightarrow> even (i div 8)"
  using assms by (rule all_positions [rotated], simp add: mask_simps)+

lemma mask16:
  assumes "i < LENGTH(16)"
  shows "bit (0x5555 :: u16) i \<longleftrightarrow> even (i div 1)"
    and "bit (0x3333 :: u16) i \<longleftrightarrow> even (i div 2)"
    and "bit (0x0F0F :: u16) i \<longleftrightarrow> even (i div 4)"
  using assms by (rule all_positions [rotated], simp add: mask_simps)+

lemma mask8:
  assumes "i < LENGTH(8)"
  shows "bit (0x55 :: u8) i \<longleftrightarrow> even (i div 1)"
    and "bit (0x33 :: u8) i \<longleftrightarrow> even (i div 2)"
  using assms by (rule all_positions [rotated], simp add: mask_simps)+

lemma swap_pos_less:
  assumes "k \<in> {1, 2, 4, 8, 16}" "2 * k \<le> w" "w \<in> {8, 16, 32}" "n < w"
  shows "swap_pos k n < w"
proof -
  obtain d where w: "w = 2 * k * d" using assms(1,2,3) by auto
  show ?thesis
  proof (cases "even (n div k)")
    case True
    have "0 < k" using assms(1) by auto
    have "n div k < 2 * d" using assms(4) w
      by (intro less_mult_imp_div_less) (simp add: ac_simps)
    with True have "Suc (n div k) < 2 * d" by (auto elim!: evenE)
    have "n < Suc (n div k) * k" using \<open>0 < k\<close> by (metis dividend_less_div_times mult_Suc add.commute)
    then have "n + k < Suc (Suc (n div k)) * k" by simp
    also have "\<dots> \<le> 2 * d * k" using \<open>Suc (n div k) < 2 * d\<close> by (intro mult_le_mono1) simp
    finally show ?thesis using True w by (simp add: swap_pos_def ac_simps)
  next
    case False
    then show ?thesis using assms(4) by (simp add: swap_pos_def)
  qed
qed

lemma swap_all_32: "n < 32 \<Longrightarrow> swap_pos 1 (swap_pos 2 (swap_pos 4 (swap_pos 8 (swap_pos 16 n)))) = 31 - n"
  by (rule all_positions [where w = 32 and P = "\<lambda>n. swap_pos 1 (swap_pos 2 (swap_pos 4 (swap_pos 8 (swap_pos 16 n)))) = 31 - n"])
    (simp_all add: positions swap_pos_def)

lemma swap_all_16: "n < 16 \<Longrightarrow> swap_pos 1 (swap_pos 2 (swap_pos 4 (swap_pos 8 n))) = 15 - n"
  by (rule all_positions [where w = 16 and P = "\<lambda>n. swap_pos 1 (swap_pos 2 (swap_pos 4 (swap_pos 8 n))) = 15 - n"])
    (simp_all add: positions swap_pos_def)

lemma swap_all_8: "n < 8 \<Longrightarrow> swap_pos 1 (swap_pos 2 (swap_pos 4 n)) = 7 - n"
  by (rule all_positions [where w = 8 and P = "\<lambda>n. swap_pos 1 (swap_pos 2 (swap_pos 4 n)) = 7 - n"])
    (simp_all add: positions swap_pos_def)

lemma reverse_bits32_correct: "reverse_bits32 x = word_reverse x"
proof (rule bit_word_eqI)
  fix n assume n: "n < LENGTH(32)"
  define x1 where "x1 = (drop_bit 1 x AND 0x55555555) OR push_bit 1 (x AND 0x55555555)"
  define x2 where "x2 = (drop_bit 2 x1 AND 0x33333333) OR push_bit 2 (x1 AND 0x33333333)"
  define x3 where "x3 = (drop_bit 4 x2 AND 0x0F0F0F0F) OR push_bit 4 (x2 AND 0x0F0F0F0F)"
  define x4 where "x4 = (drop_bit 8 x3 AND 0x00FF00FF) OR push_bit 8 (x3 AND 0x00FF00FF)"
  have "bit x1 i = bit x (swap_pos 1 i)" if "i < 32" for i
    unfolding x1_def by (rule bit_swap_groups [OF mask32(1)]) (use that in \<open>simp_all add: swap_pos_less\<close>)
  moreover have "bit x2 i = bit x1 (swap_pos 2 i)" if "i < 32" for i
    unfolding x2_def by (rule bit_swap_groups [OF mask32(2)]) (use that in \<open>simp_all add: swap_pos_less\<close>)
  moreover have "bit x3 i = bit x2 (swap_pos 4 i)" if "i < 32" for i
    unfolding x3_def by (rule bit_swap_groups [OF mask32(3)]) (use that in \<open>simp_all add: swap_pos_less\<close>)
  moreover have "bit x4 i = bit x3 (swap_pos 8 i)" if "i < 32" for i
    unfolding x4_def by (rule bit_swap_groups [OF mask32(4)]) (use that in \<open>simp_all add: swap_pos_less\<close>)
  moreover have "bit (reverse_bits32 x) n = bit x4 (swap_pos 16 n)"
    unfolding reverse_bits32_def Let_def x1_def [symmetric] x2_def [symmetric] x3_def [symmetric]
      x4_def [symmetric] using n by (intro bit_swap_halves) simp_all
  ultimately show "bit (reverse_bits32 x) n = bit (word_reverse x) n"
    using n swap_all_32 [of n] by (simp add: bit_word_reverse_iff swap_pos_less)
qed

lemma reverse_bits16_correct: "reverse_bits16 x = word_reverse x"
proof (rule bit_word_eqI)
  fix n assume n: "n < LENGTH(16)"
  define x1 where "x1 = (drop_bit 1 x AND 0x5555) OR push_bit 1 (x AND 0x5555)"
  define x2 where "x2 = (drop_bit 2 x1 AND 0x3333) OR push_bit 2 (x1 AND 0x3333)"
  define x3 where "x3 = (drop_bit 4 x2 AND 0x0F0F) OR push_bit 4 (x2 AND 0x0F0F)"
  have "bit x1 i = bit x (swap_pos 1 i)" if "i < 16" for i
    unfolding x1_def by (rule bit_swap_groups [OF mask16(1)]) (use that in \<open>simp_all add: swap_pos_less\<close>)
  moreover have "bit x2 i = bit x1 (swap_pos 2 i)" if "i < 16" for i
    unfolding x2_def by (rule bit_swap_groups [OF mask16(2)]) (use that in \<open>simp_all add: swap_pos_less\<close>)
  moreover have "bit x3 i = bit x2 (swap_pos 4 i)" if "i < 16" for i
    unfolding x3_def by (rule bit_swap_groups [OF mask16(3)]) (use that in \<open>simp_all add: swap_pos_less\<close>)
  moreover have "bit (reverse_bits16 x) n = bit x3 (swap_pos 8 n)"
    unfolding reverse_bits16_def Let_def x1_def [symmetric] x2_def [symmetric] x3_def [symmetric]
    using n by (intro bit_swap_halves) simp_all
  ultimately show "bit (reverse_bits16 x) n = bit (word_reverse x) n"
    using n swap_all_16 [of n] by (simp add: bit_word_reverse_iff swap_pos_less)
qed

lemma reverse_bits8_correct: "reverse_bits8 x = word_reverse x"
proof (rule bit_word_eqI)
  fix n assume n: "n < LENGTH(8)"
  define x1 where "x1 = (drop_bit 1 x AND 0x55) OR push_bit 1 (x AND 0x55)"
  define x2 where "x2 = (drop_bit 2 x1 AND 0x33) OR push_bit 2 (x1 AND 0x33)"
  have "bit x1 i = bit x (swap_pos 1 i)" if "i < 8" for i
    unfolding x1_def by (rule bit_swap_groups [OF mask8(1)]) (use that in \<open>simp_all add: swap_pos_less\<close>)
  moreover have "bit x2 i = bit x1 (swap_pos 2 i)" if "i < 8" for i
    unfolding x2_def by (rule bit_swap_groups [OF mask8(2)]) (use that in \<open>simp_all add: swap_pos_less\<close>)
  moreover have "bit (reverse_bits8 x) n = bit x2 (swap_pos 4 n)"
    unfolding reverse_bits8_def Let_def x1_def [symmetric] x2_def [symmetric]
    using n by (intro bit_swap_halves) simp_all
  ultimately show "bit (reverse_bits8 x) n = bit (word_reverse x) n"
    using n swap_all_8 [of n] by (simp add: bit_word_reverse_iff swap_pos_less)
qed

section \<open>Byte swaps reverse the bytes\<close>

lemma byte_masks:
  "(0xFF :: 'a::len word) = push_bit 0 (mask 8)" "(0xFF00 :: 'a word) = push_bit 8 (mask 8)"
  "(0xFF0000 :: 'a word) = push_bit 16 (mask 8)" "(0xFF000000 :: 'a word) = push_bit 24 (mask 8)"
  "(0xFF00000000 :: 'a word) = push_bit 32 (mask 8)" "(0xFF0000000000 :: 'a word) = push_bit 40 (mask 8)"
  "(0xFF000000000000 :: 'a word) = push_bit 48 (mask 8)" "(0xFF00000000000000 :: 'a word) = push_bit 56 (mask 8)"
  by (simp_all add: mask_eq_exp_minus_1 push_bit_eq_mult)

lemma le_bytes_bswap16: "le_bytes 2 (bswap16 w) = rev (le_bytes 2 w)"
  by (auto simp: le_bytes_2 bswap16_def bit_simps intro!: bit_word_eqI)

lemma le_bytes_bswap32: "le_bytes 4 (bswap32 w) = rev (le_bytes 4 w)"
  unfolding le_bytes_4 bswap32_def byte_masks
  by (auto simp: bit_simps intro!: bit_word_eqI)

lemma le_bytes_bswap64: "le_bytes 8 (bswap64 w) = rev (le_bytes 8 w)"
  unfolding le_bytes_8 bswap64_def byte_masks
  by (auto simp: bit_simps intro!: bit_word_eqI)

lemmas le_bytes_bswap = le_bytes_bswap16 le_bytes_bswap32 le_bytes_bswap64

lemma swap_bytes:
  "length bs = 2 \<Longrightarrow> native_store le 2 (bswap16 (native_load le bs)) = rev bs"
  "length bs = 4 \<Longrightarrow> native_store le 4 (bswap32 (native_load le bs)) = rev bs"
  "length bs = 8 \<Longrightarrow> native_store le 8 (bswap64 (native_load le bs)) = rev bs"
  using le_bytes_le_word [of bs, where 'a = 16] le_bytes_le_word [of "rev bs", where 'a = 16]
    le_bytes_le_word [of bs, where 'a = 32] le_bytes_le_word [of "rev bs", where 'a = 32]
    le_bytes_le_word [of bs, where 'a = 64] le_bytes_le_word [of "rev bs", where 'a = 64]
  by (auto simp: native_store_def native_load_def le_bytes_bswap)

lemma BigEndianToNative_eq:
  "BigEndianToNative le bs = (if le \<and> length bs \<in> {2, 4, 8} then rev bs else bs)"
  by (auto simp: BigEndianToNative_def swap_bytes)

lemma LittleEndianToNative_eq:
  "LittleEndianToNative le bs = (if \<not> le \<and> length bs \<in> {2, 4, 8} then rev bs else bs)"
  by (auto simp: LittleEndianToNative_def swap_bytes)

section \<open>Bit strings\<close>

abbreviation digit :: "bool \<Rightarrow> u8" where
  "digit b \<equiv> (if b then 0x31 else 0x30)"

definition msb_first :: "nat \<Rightarrow> 'a::len word \<Rightarrow> bool list" where
  "msb_first n v = map (\<lambda>i. bit v (n - Suc i)) [0..<n]"

lemma length_msb_first [simp]: "length (msb_first n v) = n"
  by (simp add: msb_first_def)

lemma msb_first_Suc: "msb_first (Suc n) v = msb_first n (drop_bit 1 v) @ [bit v 0]"
  by (simp add: msb_first_def bit_drop_bit_eq Suc_diff_Suc)

lemma and_1_bit: "v AND 1 \<noteq> 0 \<longleftrightarrow> bit v 0" for v :: "'a::len word"
  by (simp add: bit_0 and_one_eq odd_iff_mod_2_eq_one)

lemma bit_str_loop_eq:
  "n \<le> length buffer \<Longrightarrow>
    bit_str_loop n v buffer = Some (map digit (msb_first n v) @ drop n buffer)"
proof (induction n arbitrary: v buffer)
  case (Suc n)
  have "drop n (buffer[n := d]) = d # drop (Suc n) buffer" for d
    using Suc.prems by (simp add: drop_update_swap Cons_nth_drop_Suc [symmetric])
  then show ?case
    using Suc.prems Suc.IH [of "buffer[n := digit (bit v 0)]" "drop_bit 1 v"]
    by (simp add: and_1_bit msb_first_Suc)
qed (simp add: msb_first_def)

lemma bit_str_loop_short: "length buffer < n \<Longrightarrow> bit_str_loop n v buffer = None"
  by (cases n) auto

lemma str_bits_loop_digits:
  "str_bits_loop (length bs) (map digit bs @ rest) r = foldl (\<lambda>r b. push_bit 1 r OR of_bool b) r bs"
  by (induction bs arbitrary: r) (simp_all add: Let_def)

lemma bit_foldl_digits:
  fixes r :: "'a::len word"
  assumes "i < LENGTH('a)"
  shows "bit (foldl (\<lambda>r b. push_bit 1 r OR of_bool b) r bs) i \<longleftrightarrow>
    (if i < length bs then bs ! (length bs - Suc i) else bit r (i - length bs))"
  using assms
proof (induction bs arbitrary: i rule: rev_induct)
  case (snoc b bs)
  show ?case
  proof (cases i)
    case 0
    then show ?thesis by (simp add: bit_0 nth_append even_or_iff)
  next
    case (Suc j)
    have "bit (push_bit 1 x OR of_bool b :: 'a word) (Suc j) \<longleftrightarrow> bit x j" for x
      using snoc.prems Suc unfolding bit_or_iff bit_push_bit_iff by (simp add: bit_1_iff)
    moreover have "j < length bs \<Longrightarrow> length bs - Suc j < length bs" by simp
    ultimately show ?thesis using snoc Suc by (simp add: nth_append)
  qed
qed simp

lemma str_bits_msb_first:
  "str_bits_loop LENGTH('a) (map digit (msb_first LENGTH('a) v) @ rest) 0 = (v :: 'a::len word)"
proof -
  have "str_bits_loop LENGTH('a) (map digit (msb_first LENGTH('a) v) @ rest) 0
      = foldl (\<lambda>r b. push_bit 1 r OR of_bool b) 0 (msb_first LENGTH('a) v)"
    using str_bits_loop_digits [of "msb_first LENGTH('a) v"] by simp
  also have "\<dots> = v"
    by (rule bit_word_eqI, subst bit_foldl_digits) (simp_all add: msb_first_def)
  finally show ?thesis .
qed

lemma bit_str_round_trip:
  fixes v :: "'a::len word"
  assumes "LENGTH('a) < length buffer"
  shows "\<exists>s. Option.bind (bit_str_loop LENGTH('a) v buffer) (terminate_str LENGTH('a)) = Some s
    \<and> length s = length buffer \<and> s ! LENGTH('a) = 0
    \<and> set (take LENGTH('a) s) \<subseteq> {0x30, 0x31}
    \<and> drop (Suc LENGTH('a)) s = drop (Suc LENGTH('a)) buffer
    \<and> str_bits_loop LENGTH('a) s 0 = v"
proof -
  let ?n = "LENGTH('a)" and ?d = "map digit (msb_first LENGTH('a) v)"
  let ?s = "?d @ 0 # drop (Suc ?n) buffer"
  have "bit_str_loop ?n v buffer = Some (?d @ drop ?n buffer)"
    using assms by (intro bit_str_loop_eq) simp
  moreover have "drop ?n buffer = buffer ! ?n # drop (Suc ?n) buffer"
    using assms by (rule Cons_nth_drop_Suc [symmetric])
  ultimately have "Option.bind (bit_str_loop ?n v buffer) (terminate_str ?n) = Some ?s"
    using assms by (simp add: terminate_str_def list_update_append)
  moreover have "str_bits_loop ?n ?s 0 = v" by (rule str_bits_msb_first)
  ultimately show ?thesis using assms by (auto simp: nth_append)
qed

section \<open>Properties\<close>

text \<open>
  the three bit-reversal routines reverse the order of the bits: they are
  the mirror image of the word, computed with masks and shifts.
\<close>

theorem reverse_bits_correct:
  "reverse_bits32 x = word_reverse x \<and> reverse_bits16 y = word_reverse y
   \<and> reverse_bits8 z = word_reverse z"
  by (simp only: reverse_bits32_correct reverse_bits16_correct reverse_bits8_correct simp_thms)

text \<open>
  Printing a word as a bit string never fails on a buffer with room for
  the digits and the terminator, writes nothing behind the terminator, and the
  readers give the printed word back, for each of the three widths.
\<close>

theorem bit_str_read_back:
  assumes "32 < length b32" "16 < length b16" "8 < length b8"
  shows "(\<exists>s. bit_str32 x b32 = Some s \<and> str_bits32 s = x \<and> drop 33 s = drop 33 b32)
    \<and> (\<exists>s. bit_str16 y b16 = Some s \<and> str_bits16 s = y \<and> drop 17 s = drop 17 b16)
    \<and> (\<exists>s. bit_str8 z b8 = Some s \<and> str_bits8 s = z \<and> drop 9 s = drop 9 b8)"
  unfolding bit_str32_def bit_str16_def bit_str8_def str_bits32_def str_bits16_def str_bits8_def
  using bit_str_round_trip [of b32 x] bit_str_round_trip [of b16 y] bit_str_round_trip [of b8 z] assms
  by auto

theorem bit_str_read_back_witness:
  "(\<exists>s. bit_str32 0x12345678 (replicate 40 0xAA) = Some s \<and> str_bits32 s = 0x12345678
       \<and> drop 33 s = drop 33 (replicate 40 0xAA))
    \<and> (\<exists>s. bit_str16 0x1234 (replicate 17 0) = Some s \<and> str_bits16 s = 0x1234
       \<and> drop 17 s = drop 17 (replicate 17 0))
    \<and> (\<exists>s. bit_str8 0x12 (replicate 9 0) = Some s \<and> str_bits8 s = 0x12
       \<and> drop 9 s = drop 9 (replicate 9 0))"
  by (rule bit_str_read_back) simp_all

text \<open>
  On a machine of either byte order, converting a value of 2, 4 or 8 bytes
  to a layout and back is the identity, and the bytes of the converted value
  read in that layout are the number that was converted.
\<close>

theorem endian_round_trip:
  "ToNative e le (NativeTo e le value) = value
   \<and> (length value \<in> {2, 4, 8} \<longrightarrow>
        le_word (if e = Big then rev (NativeTo e le value) else NativeTo e le value)
        = (native_load le value :: u64))"
  by (cases e) (auto simp: BigEndianToNative_eq LittleEndianToNative_eq native_load_def)

theorem endian_round_trip_witness:
  "ToNative Big True (NativeTo Big True [1, 2, 3, 4]) = [1, 2, 3, 4]
   \<and> le_word (rev (NativeTo Big True [1, 2, 3, 4])) = (native_load True [1, 2, 3, 4] :: u64)"
  using endian_round_trip [of Big True "[1, 2, 3, 4]"] by simp

end
