(* ===== verification/Hash.thy ===== *)
theory Hash
  imports C_Prelude
begin

text \<open>
  The string and buffer hashes: \<open>fnv1a_hash\<close> (Common/hash.c), the compile-time
  \<open>Hash\<close> of a character array and the Murmur-style \<open>Hash\<close> of a \<open>CstrView\<close>
  (Common/hash.h).  Whether plain \<open>char\<close> is signed is a choice of the target, so
  the conversions of \<open>char\<close> to \<open>uint32_t\<close> take it as an argument.
\<close>

section \<open>The model\<close>

subsection \<open>Byte-wise hashes\<close>

definition fnv1a_step :: "u32 \<Rightarrow> u8 \<Rightarrow> u32" where
  "fnv1a_step hash b = (hash XOR ucast b) * 16777619"

fun fnv1a_loop :: "u32 \<Rightarrow> u8 list \<Rightarrow> u32" where
  "fnv1a_loop hash [] = hash"
| "fnv1a_loop hash (b # bs) = fnv1a_loop (fnv1a_step hash b) bs"

definition fnv1a_hash :: "u8 list \<Rightarrow> u32" where
  "fnv1a_hash bytes = fnv1a_loop 2166136261 bytes"

definition str_hash_step :: "u32 \<Rightarrow> u8 \<Rightarrow> u32" where
  "str_hash_step h b = (h * 33) XOR ucast b"

fun str_hash_loop :: "u32 \<Rightarrow> u8 list \<Rightarrow> u32" where
  "str_hash_loop h [] = h"
| "str_hash_loop h (b # bs) = str_hash_loop (str_hash_step h b) bs"

text \<open>The array argument has \<open>N\<close> characters, the last one the terminating zero.\<close>

definition str_hash :: "u8 list \<Rightarrow> u32" where
  "str_hash s = str_hash_loop 5381 (take (length s - 1) s)"

subsection \<open>The Murmur-style hash\<close>

record CstrView =
  cstr :: "u8 list"
  cstr_sz :: nat

definition CstrView_of :: "u8 list \<Rightarrow> CstrView" where
  "CstrView_of a_Str = \<lparr>cstr = a_Str, cstr_sz = length a_Str - 1\<rparr>"

definition char_u32 :: "bool \<Rightarrow> u8 \<Rightarrow> u32" where
  "char_u32 char_signed c = (if char_signed then scast c else ucast c)"

definition getBlock32 :: "bool \<Rightarrow> CstrView \<Rightarrow> nat \<Rightarrow> u32" where
  "getBlock32 sg v a_Index =
     (let i = a_Index * 4;
          l_B0 = char_u32 sg (cstr v ! i);
          l_B1 = char_u32 sg (cstr v ! (i + 1));
          l_B2 = char_u32 sg (cstr v ! (i + 2));
          l_B3 = char_u32 sg (cstr v ! (i + 3))
      in push_bit 24 l_B3 OR push_bit 16 l_B2 OR push_bit 8 l_B1 OR l_B0)"

definition blockSize32 :: "CstrView \<Rightarrow> nat" where
  "blockSize32 v = cstr_sz v div 4"

definition tail32 :: "CstrView \<Rightarrow> nat \<Rightarrow> u8" where
  "tail32 v a_Index = (let l_TailSize = cstr_sz v mod 4 in cstr v ! (cstr_sz v - l_TailSize + a_Index))"

definition murmur_M :: u32 where
  "murmur_M = 0x5bd1e995"

definition murmur_step :: "u32 \<Rightarrow> u32 \<Rightarrow> u32" where
  "murmur_step l_H l_K0 =
     (let l_K1 = l_K0 * murmur_M;
          l_K2 = l_K1 XOR drop_bit 24 l_K1;
          l_K3 = l_K2 * murmur_M
      in (l_H * murmur_M) XOR l_K3)"

fun murmur_blocks :: "bool \<Rightarrow> CstrView \<Rightarrow> nat \<Rightarrow> u32 \<Rightarrow> nat \<Rightarrow> u32" where
  "murmur_blocks sg v i l_H 0 = l_H"
| "murmur_blocks sg v i l_H (Suc n) = murmur_blocks sg v (Suc i) (murmur_step l_H (getBlock32 sg v i)) n"

text \<open>The \<open>switch\<close> falls through from the longest tail to the shortest.\<close>

definition murmur_tail :: "bool \<Rightarrow> CstrView \<Rightarrow> u32 \<Rightarrow> u32" where
  "murmur_tail sg v l_H =
     (let l_Rem = cstr_sz v mod 4;
          h3 = (if l_Rem = 3 then l_H XOR push_bit 16 (char_u32 sg (tail32 v 2)) else l_H);
          h2 = (if 2 \<le> l_Rem then h3 XOR push_bit 8 (char_u32 sg (tail32 v 1)) else h3)
      in if 1 \<le> l_Rem then (h2 XOR char_u32 sg (tail32 v 0)) * murmur_M else h2)"

definition murmur_final :: "u32 \<Rightarrow> u32" where
  "murmur_final l_H0 =
     (let l_H1 = l_H0 XOR drop_bit 13 l_H0;
          l_H2 = l_H1 * murmur_M
      in l_H2 XOR drop_bit 15 l_H2)"

definition cstr_hash :: "bool \<Rightarrow> CstrView \<Rightarrow> u32" where
  "cstr_hash sg a_Key =
     (let l_H = 0 XOR of_nat (cstr_sz a_Key)
      in murmur_final (murmur_tail sg a_Key (murmur_blocks sg a_Key 0 l_H (blockSize32 a_Key))))"

section \<open>The steps lose no information\<close>

lemma fnv1a_loop_foldl: "fnv1a_loop h bs = foldl fnv1a_step h bs"
  by (induction bs arbitrary: h) simp_all

lemma str_hash_loop_foldl: "str_hash_loop h bs = foldl str_hash_step h bs"
  by (induction bs arbitrary: h) simp_all

lemma fnv1a_mult_inj: "a * 16777619 = b * 16777619 \<longleftrightarrow> a = b" for a b :: u32
  by (rule mult_unit_inj [where n = 899433627]) simp

lemma str_mult_inj: "a * 33 = b * 33 \<longleftrightarrow> a = b" for a b :: u32
  by (rule mult_unit_inj [where n = 1041204193]) simp

lemma murmur_mult_inj [simp]: "a * murmur_M = b * murmur_M \<longleftrightarrow> a = b" for a b :: u32
  by (rule mult_unit_inj [where n = 3852147133]) (simp add: murmur_M_def)

interpretation fnv: inj_stream fnv1a_step
  by unfold_locales (simp_all add: fnv1a_step_def fnv1a_mult_inj ucast_inj_u8_u32)

interpretation shash: inj_stream str_hash_step
  by unfold_locales (simp_all add: str_hash_step_def str_mult_inj ucast_inj_u8_u32)

interpretation murmur: inj_stream murmur_step
  by unfold_locales (simp_all add: murmur_step_def Let_def xor_drop_bit_inj)

lemma murmur_final_inj: "murmur_final a = murmur_final b \<longleftrightarrow> a = b"
  by (simp add: murmur_final_def Let_def xor_drop_bit_inj)

lemma murmur_blocks_foldl:
  "murmur_blocks sg v i h n = foldl murmur_step h (map (getBlock32 sg v) [i..<i + n])"
  by (induction n arbitrary: i h) (simp_all add: upt_rec)

section \<open>What the hashes tell apart\<close>

text \<open>A character the signedness of \<open>char\<close> does not matter for.\<close>

definition plain_char :: "bool \<Rightarrow> u8 \<Rightarrow> bool" where
  "plain_char sg c \<longleftrightarrow> \<not> (sg \<and> bit c 7)"

lemma scast_nonneg_u8: "(scast c :: u32) = ucast c" if "\<not> bit c 7" for c :: u8
proof (rule bit_word_eqI)
  fix i
  have "bit c i \<Longrightarrow> i < 8" by (drule bit_imp_le_length) simp
  then show "bit (scast c :: u32) i = bit (ucast c :: u32) i"
    using that by (cases "i < 7"; cases "i = 7") (auto simp: bit_simps min_def)
qed

lemma char_u32_plain: "plain_char sg c \<Longrightarrow> char_u32 sg c = ucast c"
  by (auto simp: plain_char_def char_u32_def scast_nonneg_u8)

definition cview :: "u8 list \<Rightarrow> CstrView" where
  "cview s = CstrView_of (s @ [0])"

lemma cview_simps [simp]: "cstr (cview s) = s @ [0]" "cstr_sz (cview s) = length s"
  by (simp_all add: cview_def CstrView_of_def)

lemma getBlock32_plain:
  assumes "list_all (plain_char sg) s" "j < length s div 4"
  shows "getBlock32 sg (cview s) j = le_word (take 4 (drop (4 * j) s))"
proof -
  have l: "4 * j + 3 < length s" using assms(2) by linarith
  then have t: "take 4 (drop (4 * j) s) = [s ! (4 * j), s ! (4 * j + 1), s ! (4 * j + 2), s ! (4 * j + 3)]"
    by (simp add: take_Suc_conv_app_nth eval_nat_numeral)
  have p: "plain_char sg (s ! i)" if "i < length s" for i
    using assms(1) that by (simp add: list_all_length)
  show ?thesis
    unfolding t using l
    by (simp add: getBlock32_def Let_def nth_append char_u32_plain p mult.commute
        push_bit_or push_bit_push_bit ac_simps)
qed

lemma tail32_cview:
  "length s = 4 * k + r \<Longrightarrow> r < 4 \<Longrightarrow> i < r \<Longrightarrow> tail32 (cview s) i = s ! (4 * k + i)"
  by (simp add: tail32_def nth_append)

lemma le_word_Cons_xor: "(le_word (b # bs) :: u32) = ucast b XOR push_bit 8 (le_word bs)"
  by (rule bit_word_eqI) (auto simp: bit_simps dest: bit_imp_le_length)

lemma murmur_tail_plain:
  assumes "list_all (plain_char sg) s" "length s = 4 * k + r" "r < 4"
  shows "murmur_tail sg (cview s) h = (if r = 0 then h else (h XOR le_word (drop (4 * k) s)) * murmur_M)"
proof -
  have p: "plain_char sg (s ! i)" if "i < length s" for i
    using assms that by (simp add: list_all_length)
  have t: "char_u32 sg (tail32 (cview s) i) = ucast (drop (4 * k) s ! i)" if "i < r" for i
    using that assms by (simp add: tail32_cview char_u32_plain p)
  obtain d where d: "drop (4 * k) s = d" "length d = r" using assms(2) by simp
  consider "d = []" | a where "d = [a]" | a b where "d = [a, b]" | a b c where "d = [a, b, c]"
    using d(2) assms(3) by (auto simp: less_Suc_eq numeral_eq_Suc length_Suc_conv)
  then show ?thesis
    by cases (use d assms(2,3) in \<open>simp_all add: murmur_tail_def t le_word_Cons_xor push_bit_xor_word
        xor.assoc xor.left_commute xor.commute del: le_word.simps(2)\<close>)
qed

lemma murmur_tail_inj:
  "murmur_tail sg v h = murmur_tail sg v g \<longleftrightarrow> h = g"
  by (simp add: murmur_tail_def Let_def)

lemma list_eq_block:
  assumes "length s = length t" "\<forall>i < length s. i div 4 \<noteq> j \<longrightarrow> s ! i = t ! i" "k \<noteq> j"
  shows "take 4 (drop (4 * k) s) = take 4 (drop (4 * k) t)"
proof (rule nth_equalityI)
  show "length (take 4 (drop (4 * k) s)) = length (take 4 (drop (4 * k) t))" using assms(1) by simp
  fix i assume i: "i < length (take 4 (drop (4 * k) s))"
  then have "(4 * k + i) div 4 = k" by simp
  then show "take 4 (drop (4 * k) s) ! i = take 4 (drop (4 * k) t) ! i"
    using i assms by (simp add: less_diff_conv)
qed

lemma list_diff_block:
  assumes "length s = length t" "\<forall>i < length s. i div 4 \<noteq> j \<longrightarrow> s ! i = t ! i" "s \<noteq> t"
  shows "take 4 (drop (4 * j) s) \<noteq> take 4 (drop (4 * j) t)" "4 * j < length s"
proof -
  obtain i where i: "i < length s" "s ! i \<noteq> t ! i"
    using assms(1,3) by (auto simp: list_eq_iff_nth_eq)
  then have j: "i div 4 = j" using assms(2) by blast
  define m where "m = i mod 4"
  have m: "i = 4 * j + m" "m < 4" using j by (auto simp: m_def)
  have "take 4 (drop (4 * j) s) ! m \<noteq> take 4 (drop (4 * j) t) ! m"
    using i m assms(1) by simp
  then show "take 4 (drop (4 * j) s) \<noteq> take 4 (drop (4 * j) t)" by metis
  show "4 * j < length s" using i j by linarith
qed

text \<open> FNV-1a and the compile-time string hash are sensitive to every single
  byte: two inputs that differ in exactly one byte never collide.\<close>

theorem byte_change_detected:
  assumes "a \<noteq> b"
  shows "fnv1a_hash (xs @ a # ys) \<noteq> fnv1a_hash (xs @ b # ys) \<and>
    str_hash (xs @ a # ys @ [0]) \<noteq> str_hash (xs @ b # ys @ [0])"
  using fnv.item_error_detected [OF assms] shash.item_error_detected [OF assms]
  by (simp_all add: fnv1a_hash_def fnv1a_loop_foldl str_hash_def str_hash_loop_foldl)

theorem byte_change_detected_witness:
  "fnv1a_hash ([97, 98] @ 99 # [100]) \<noteq> fnv1a_hash ([97, 98] @ 35 # [100])"
  using byte_change_detected [of 99 35 "[97, 98]" "[100]"] by simp

text \<open> The Murmur-style hash of a \<open>CstrView\<close> tells apart any two strings of the
  same length that differ inside one aligned four-byte block (the incomplete last
  block included), as long as no character is negative as a \<open>char\<close>.\<close>

theorem cstr_hash_block_change_detected:
  assumes len: "length s = length t"
    and eq: "\<forall>i < length s. i div 4 \<noteq> j \<longrightarrow> s ! i = t ! i"
    and plain: "list_all (plain_char sg) s" "list_all (plain_char sg) t"
    and neq: "s \<noteq> t"
  shows "cstr_hash sg (cview s) \<noteq> cstr_hash sg (cview t)"
proof -
  define n r where "n = length s div 4" and "r = length s mod 4"
  have nr: "length s = 4 * n + r" "length t = 4 * n + r" "r < 4" using len by (auto simp: n_def r_def)
  have blk: "getBlock32 sg (cview s) k = getBlock32 sg (cview t) k \<longleftrightarrow>
      take 4 (drop (4 * k) s) = take 4 (drop (4 * k) t)" if "k < n" for k
    using that plain nr by (simp add: getBlock32_plain le_word_inj)
  have tl: "le_word (drop (4 * n) s) = (le_word (drop (4 * n) t) :: u32) \<longleftrightarrow>
      take 4 (drop (4 * n) s) = take 4 (drop (4 * n) t)" using nr by (simp add: le_word_inj)
  let ?f = "\<lambda>u. foldl murmur_step (of_nat (length s)) (map (getBlock32 sg (cview u)) [0..<n])"
  have h: "cstr_hash sg (cview u) = murmur_final (if r = 0 then ?f u
      else (?f u XOR le_word (drop (4 * n) u)) * murmur_M)"
    if "length u = 4 * n + r" "list_all (plain_char sg) u" for u
    using that nr by (simp add: cstr_hash_def murmur_blocks_foldl murmur_tail_plain blockSize32_def)
  note d = list_diff_block [OF len eq neq]
  note e = list_eq_block [OF len eq]
  consider "j < n" | "j = n" "0 < r" using d(2) nr by linarith
  then show ?thesis
  proof cases
    case 1
    have "?f s \<noteq> ?f t"
    proof -
      have u: "[0..<n] = [0..<j] @ j # [Suc j..<n]"
        using 1 upt_add_eq_append [of 0 j "n - j"] by (simp add: upt_conv_Cons)
      have "map (getBlock32 sg (cview s)) [0..<j] = map (getBlock32 sg (cview t)) [0..<j]"
        "map (getBlock32 sg (cview s)) [Suc j..<n] = map (getBlock32 sg (cview t)) [Suc j..<n]"
        using 1 by (auto simp: blk e)
      moreover have "getBlock32 sg (cview s) j \<noteq> getBlock32 sg (cview t) j" using 1 d by (simp add: blk)
      ultimately show ?thesis unfolding u map_append list.map
        by (metis murmur.item_error_detected)
    qed
    moreover have "take 4 (drop (4 * n) s) = take 4 (drop (4 * n) t)" using 1 by (intro e) simp
    then have "le_word (drop (4 * n) s) = (le_word (drop (4 * n) t) :: u32)" by (simp only: tl)
    ultimately show ?thesis
      unfolding h [OF nr(1) plain(1)] h [OF nr(2) plain(2)] by (simp only: murmur_final_inj split: if_split) simp
  next
    case 2
    have "map (getBlock32 sg (cview s)) [0..<n] = map (getBlock32 sg (cview t)) [0..<n]"
      using 2 by (auto simp: blk e)
    then have "?f s = ?f t" by (rule arg_cong)
    moreover have "le_word (drop (4 * n) s) \<noteq> (le_word (drop (4 * n) t) :: u32)"
      using d(1) 2 by (simp only: tl) simp
    ultimately show ?thesis using nr plain 2 by (simp add: h murmur_final_inj)
  qed
qed

theorem cstr_hash_block_change_detected_witness:
  "cstr_hash True (cview [97, 98, 99, 100, 101]) \<noteq> cstr_hash True (cview [97, 98, 99, 100, 102])"
  by (rule cstr_hash_block_change_detected [where j = 1])
    (simp_all add: plain_char_def All_less_Suc)

lemma getBlock32_skip:
  "getBlock32 sg (cview (w # a # b # c # s)) (Suc i) = getBlock32 sg (cview s) i"
  by (simp add: getBlock32_def Let_def eval_nat_numeral)

lemma murmur_blocks_skip:
  "murmur_blocks sg (cview (w # a # b # c # s)) (Suc i) h n = murmur_blocks sg (cview s) i h n"
  by (induction n arbitrary: i h) (simp_all add: getBlock32_skip)

lemma tail32_skip: "tail32 (cview (w # a # b # c # s)) i = tail32 (cview s) i"
proof -
  have "Suc (Suc (Suc (Suc (length s)))) = length s + 4" by simp
  moreover have "length s + 4 - length s mod 4 + i = Suc (Suc (Suc (Suc (length s - length s mod 4 + i))))"
    using mod_less_eq_dividend [of "length s" 4] by linarith
  ultimately show ?thesis by (simp add: tail32_def)
qed

lemma murmur_tail_skip: "murmur_tail sg (cview (w # a # b # c # s)) h = murmur_tail sg (cview s) h"
proof -
  have "length (w # a # b # c # s) mod 4 = (length s + 4) mod 4" by simp
  also have "\<dots> = length s mod 4" by simp
  finally show ?thesis by (simp only: murmur_tail_def tail32_skip cview_simps Let_def)
qed

lemma getBlock32_negative: "getBlock32 True (cview (0xFF # a # b # c # s)) 0 = 0xFFFFFFFF"
  by (simp add: getBlock32_def char_u32_def)

text \<open>Where \<open>char\<close> is signed, a block that starts with the character 255
  hides the rest of the block: its sign extension covers the other three bytes, so
  strings that differ there collide.\<close>

theorem cstr_hash_signed_collision:
  "cstr_hash True (cview (0xFF # a # b # c # s)) = cstr_hash True (cview (0xFF # a' # b' # c' # s))"
proof -
  have "blockSize32 (cview (0xFF # x # y # z # s)) = Suc (length s div 4)" for x y z
    using div_add_self2 [of 4 "length s"] by (simp add: blockSize32_def)
  then show ?thesis
    by (simp add: cstr_hash_def murmur_tail_skip murmur_blocks_skip getBlock32_negative)
qed

end
