(* ===== verification/Prng.thy ===== *)
theory Prng
  imports C_Prelude
begin

text \<open>
  The pseudo-random number generators of Common/rand.c.  Each call takes the
  state the caller (or, for TinyMT, the file-scope array) holds and gives the
  value returned and the new state.  The locale \<open>prng\<close> holds what any
  generator with an injective transition on a finite state space enjoys; the
  three word generators are interpretations of it.
\<close>

section \<open>The model\<close>

record tinymt =
  t0 :: u32
  t1 :: u32
  t2 :: u32
  t3 :: u32

definition tinymt_get :: "tinymt \<Rightarrow> nat \<Rightarrow> u32" where
  "tinymt_get s i = (if i = 0 then t0 s else if i = 1 then t1 s else if i = 2 then t2 s else t3 s)"

definition tinymt_set :: "tinymt \<Rightarrow> nat \<Rightarrow> u32 \<Rightarrow> tinymt" where
  "tinymt_set s i v =
     (if i = 0 then s\<lparr>t0 := v\<rparr> else if i = 1 then s\<lparr>t1 := v\<rparr>
      else if i = 2 then s\<lparr>t2 := v\<rparr> else s\<lparr>t3 := v\<rparr>)"

definition tinymt32_init_step :: "tinymt \<Rightarrow> nat \<Rightarrow> tinymt" where
  "tinymt32_init_step s i =
     (let p = tinymt_get s ((i - 1) mod 4)
      in tinymt_set s (i mod 4)
           (tinymt_get s (i mod 4) XOR (of_nat i + 1812433253 * (p XOR drop_bit 30 p))))"

definition tinymt32_init :: "u32 \<Rightarrow> tinymt" where
  "tinymt32_init seed =
     foldl tinymt32_init_step \<lparr>t0 = seed, t1 = 0x8f7011ee, t2 = 0xfc78ff1f, t3 = 0x3793fdff\<rparr> [1..<8]"

definition tinymt32_generate :: "tinymt \<Rightarrow> u32 \<times> tinymt" where
  "tinymt32_generate s =
     (let x0 = (t0 s AND 0x7fffffff) XOR t1 s XOR t2 s;
          x = x0 XOR push_bit 1 x0;
          s' = \<lparr>t0 = t1 s, t1 = t2 s, t2 = t3 s XOR drop_bit 1 x, t3 = x\<rparr>
      in (t3 s', s'))"

definition micro_rand :: "u8 \<Rightarrow> u8 \<times> u8" where
  "micro_rand s = (let s' = 29 * s + 217 in (s', s'))"

definition mulberry32 :: "u32 \<Rightarrow> u32 \<times> u32" where
  "mulberry32 s =
     (let s' = s + 0x6D2B79F5;
          z1 = (s' XOR drop_bit 15 s') * (s' OR 1);
          z2 = z1 XOR (z1 + (z1 XOR drop_bit 7 z1) * (z1 OR 1))
      in (z2 XOR drop_bit 14 z2, s'))"

definition ranq1 :: "u64 \<Rightarrow> u64 \<times> u64" where
  "ranq1 s0 =
     (let s1 = s0 XOR drop_bit 21 s0;
          s2 = s1 XOR push_bit 35 s1;
          s3 = s2 XOR drop_bit 4 s2
      in (s3 * 2685821657736338717, s3))"

text \<open>The state after a call, and after \<open>n\<close> calls.\<close>

definition next_state :: "('s \<Rightarrow> 'o \<times> 's) \<Rightarrow> 's \<Rightarrow> 's" where
  "next_state g s = snd (g s)"

section \<open>Generators with an injective transition\<close>

lemma funpow_fixed: "(f ^^ n) s = s" if "f s = s" for f :: "'s \<Rightarrow> 's"
  using that by (induction n) simp_all

lemma period_gcd:
  fixes f :: "'s \<Rightarrow> 's"
  assumes "(f ^^ m) s = s" "(f ^^ n) s = s"
  shows "(f ^^ gcd m n) s = s"
proof (cases "m = 0")
  case False
  obtain x y where xy: "m * x = n * y + gcd m n" using bezout_nat [OF False] by blast
  have mx: "(f ^^ (m * x)) s = s" and ny: "(f ^^ (n * y)) s = s"
    using assms by (simp_all only: funpow_mult [symmetric] funpow_fixed)
  have "(f ^^ (gcd m n + n * y)) s = s" using mx by (simp only: xy add.commute)
  then show ?thesis using ny by (simp only: funpow_add o_apply)
qed (use assms in simp)

lemma dvd_power_two_cases:
  fixes d :: nat
  assumes "d dvd 2 ^ Suc k"
  shows "d = 2 ^ Suc k \<or> d dvd 2 ^ k"
proof -
  obtain q where q: "2 ^ Suc k = d * q" using assms by blast
  show ?thesis
  proof (cases "even q")
    case True
    then obtain r where "q = 2 * r" by blast
    then have "2 ^ k = d * r" using q by simp
    then show ?thesis by simp
  next
    case False
    then have "coprime q (2 ^ Suc k)" by (metis coprime_commute coprime_left_2_iff_odd coprime_power_left_iff)
    then have "q = 1" using q by (metis coprime_common_divisor_nat dvd_refl dvd_triv_right)
    then show ?thesis using q by simp
  qed
qed

lemma period_dvd:
  fixes f :: "'s \<Rightarrow> 's"
  assumes "(f ^^ d) s = s" "d dvd n"
  shows "(f ^^ n) s = s"
proof -
  obtain q where "n = d * q" using assms(2) by blast
  then show ?thesis using assms(1) by (simp only: funpow_mult [symmetric] funpow_fixed)
qed

lemma power_two_period:
  fixes f :: "'s \<Rightarrow> 's"
  assumes full: "(f ^^ (2 ^ Suc k)) s = s" and half: "(f ^^ (2 ^ k)) s \<noteq> s"
  shows "(f ^^ n) s = s \<longleftrightarrow> 2 ^ Suc k dvd n"
proof
  assume n: "(f ^^ n) s = s"
  have "(f ^^ gcd n (2 ^ Suc k)) s = s" by (rule period_gcd [OF n full])
  with half have "\<not> gcd n (2 ^ Suc k) dvd 2 ^ k" by (meson period_dvd)
  then have "gcd n (2 ^ Suc k) = 2 ^ Suc k" using dvd_power_two_cases [OF gcd_dvd2] by blast
  then show "2 ^ Suc k dvd n" by (metis gcd_dvd1)
qed (rule period_dvd [OF full])

locale prng =
  fixes step :: "'s::finite \<Rightarrow> 's"
  assumes inj_step: "step a = step b \<Longrightarrow> a = b"
begin

lemma steps_inj: "(step ^^ n) a = (step ^^ n) b \<longleftrightarrow> a = b"
  by (induction n) (auto dest: inj_step)

lemma returns: "\<exists>n > 0. (step ^^ n) s = s"
proof -
  have "inj step" by (rule injI) (rule inj_step)
  then show ?thesis by (rule funpow_inj_finite [where x = s]) (auto intro: finite)
qed

end

section \<open>The generators\<close>

lemma next_micro: "next_state micro_rand s = 29 * s + 217"
  by (simp add: next_state_def micro_rand_def Let_def)

lemma next_mulberry: "next_state mulberry32 s = s + 0x6D2B79F5"
  by (simp add: next_state_def mulberry32_def Let_def)

interpretation micro: prng "next_state micro_rand"
proof
  fix a b :: u8 assume "next_state micro_rand a = next_state micro_rand b"
  then have "a * 29 = b * 29" by (simp add: next_micro mult.commute)
  then show "a = b" by (subst (asm) mult_unit_inj [where n = 53]) simp_all
qed

interpretation mulberry: prng "next_state mulberry32"
  by unfold_locales (simp add: next_mulberry)

interpretation ranq: prng "next_state ranq1"
  by unfold_locales (simp add: next_state_def ranq1_def Let_def xor_drop_bit_inj xor_push_bit_inj
      del: drop_bit_xor push_bit_xor)

lemma micro_double:
  assumes "\<And>s. (next_state micro_rand ^^ n) s = a * s + b" "m = 2 * n" "a * a = c" "a * b + b = d"
  shows "(next_state micro_rand ^^ m) s = c * s + d"
  by (simp only: assms(2) mult_2 funpow_add o_apply assms(1))
    (simp add: algebra_simps flip: assms(3,4))

lemma micro_pow_64: "(next_state micro_rand ^^ 64) s = s + 192"
proof -
  have 1: "(next_state micro_rand ^^ 1) s = 29 * s + 217" for s by (simp add: next_micro)
  have 2: "(next_state micro_rand ^^ 2) s = 73 * s + 110" for s by (rule micro_double [OF 1]) simp_all
  have 4: "(next_state micro_rand ^^ 4) s = 209 * s + 204" for s by (rule micro_double [OF 2]) simp_all
  have 8: "(next_state micro_rand ^^ 8) s = 161 * s + 88" for s by (rule micro_double [OF 4]) simp_all
  have 16: "(next_state micro_rand ^^ 16) s = 65 * s + 176" for s by (rule micro_double [OF 8]) simp_all
  have 32: "(next_state micro_rand ^^ 32) s = 129 * s + 96" for s by (rule micro_double [OF 16]) simp_all
  have 64: "(next_state micro_rand ^^ 64) s = 1 * s + 192" for s by (rule micro_double [OF 32]) simp_all
  show ?thesis using 64 by simp
qed

lemma micro_pow_128: "(next_state micro_rand ^^ 128) s = s + 128"
  using micro_double [of 64 1 192 128 1 128 s] by (simp add: micro_pow_64)

lemma micro_pow_256: "(next_state micro_rand ^^ 256) s = s"
  using micro_double [of 128 1 128 256 1 0 s] by (simp add: micro_pow_128)

lemma mulberry_pow: "(next_state mulberry32 ^^ n) s = s + of_nat n * 0x6D2B79F5"
  by (induction n) (simp_all add: next_mulberry algebra_simps)

lemma ranq1_zero: "next_state ranq1 0 = 0"
  by (simp add: next_state_def ranq1_def)

lemma ranq1_output: "fst (ranq1 s) = next_state ranq1 s * 2685821657736338717"
  by (simp add: next_state_def ranq1_def Let_def)

lemma ranq1_mult_inj: "a * 2685821657736338717 = b * 2685821657736338717 \<longleftrightarrow> a = b" for a b :: u64
  by (rule mult_unit_inj [where n = 6415128727920758069]) simp

lemma ranq1_pow_zero_iff: "(next_state ranq1 ^^ n) s = 0 \<longleftrightarrow> s = 0"
proof -
  have "(next_state ranq1 ^^ n) 0 = 0" by (rule funpow_fixed) (rule ranq1_zero)
  then show ?thesis using ranq.steps_inj [of n s 0] by simp
qed

lemma tinymt_get_set: "i \<noteq> j \<Longrightarrow> i < 4 \<Longrightarrow> j < 4 \<Longrightarrow> tinymt_get (tinymt_set s i v) j = tinymt_get s j"
  by (auto simp: tinymt_get_def tinymt_set_def)

lemma tinymt_set_inj:
  assumes "tinymt_set s i v = tinymt_set t i w" "i < 4"
  shows "v = w" "\<And>j. j < 4 \<Longrightarrow> j \<noteq> i \<Longrightarrow> tinymt_get s j = tinymt_get t j"
proof -
  have "tinymt_get (tinymt_set u i x) i = x" for u x
    by (simp add: tinymt_get_def tinymt_set_def)
  then show "v = w" using assms(1) by metis
  show "tinymt_get s j = tinymt_get t j" if "j < 4" "j \<noteq> i" for j
    using arg_cong [OF assms(1), of "\<lambda>x. tinymt_get x j"] that assms(2) by (simp add: tinymt_get_set)
qed

lemma tinymt_eqI:
  assumes "\<And>j. j < 4 \<Longrightarrow> tinymt_get s j = tinymt_get t j"
  shows "s = t"
  using assms [of 0] assms [of 1] assms [of 2] assms [of 3] by (simp add: tinymt_get_def)

lemma tinymt32_init_step_inj:
  assumes "tinymt32_init_step s i = tinymt32_init_step t i" "0 < i"
  shows "s = t"
proof (rule tinymt_eqI)
  have i: "i mod 4 < 4" "(i - 1) mod 4 < 4" "(i - 1) mod 4 \<noteq> i mod 4"
    using assms(2) by (simp, simp, cases i) (simp_all add: mod_Suc)
  note inj = tinymt_set_inj [OF assms(1) [unfolded tinymt32_init_step_def Let_def] i(1)]
  fix j :: nat assume "j < 4"
  then show "tinymt_get s j = tinymt_get t j"
  proof (cases "j = i mod 4")
    case True
    then show ?thesis using inj(1) [unfolded inj(2) [OF i(2,3)] xor_right_inj_word] by blast
  qed (rule inj(2))
qed

text \<open> \<open>micro_rand\<close> and \<open>mulberry32\<close> have full period: from every seed the state
  comes back after \<open>n\<close> calls exactly when \<open>n\<close> is a multiple of 256, respectively of
  \<open>2 ^ 32\<close>, so every state is visited in each period.\<close>

theorem full_period:
  "((next_state micro_rand ^^ n) s = s \<longleftrightarrow> 256 dvd n) \<and>
   ((next_state mulberry32 ^^ n) t = t \<longleftrightarrow> 2 ^ 32 dvd n)"
proof
  show "(next_state micro_rand ^^ n) s = s \<longleftrightarrow> 256 dvd n"
    using power_two_period [of 7 "next_state micro_rand" s n] micro_pow_128 [of s] micro_pow_256 [of s] by simp
  have "(next_state mulberry32 ^^ (2 ^ Suc 31)) t = t" by (simp add: mulberry_pow)
  moreover have "(next_state mulberry32 ^^ (2 ^ 31)) t \<noteq> t" by (simp add: mulberry_pow)
  ultimately show "(next_state mulberry32 ^^ n) t = t \<longleftrightarrow> 2 ^ 32 dvd n"
    using power_two_period [of 31 "next_state mulberry32" t n] by simp
qed

text \<open> \<open>ranq1\<close> has the all-zero state as a trap and as nothing else: the seed
  zero yields zero for ever, while a non-zero seed never yields zero, distinct states
  yield distinct values, and every seed comes back after finitely many calls.\<close>

theorem ranq1_behaviour:
  "(fst (ranq1 ((next_state ranq1 ^^ n) s)) = 0 \<longleftrightarrow> s = 0) \<and>
   (fst (ranq1 s) = fst (ranq1 t) \<longleftrightarrow> s = t) \<and>
   (\<exists>m > 0. (next_state ranq1 ^^ m) s = s)"
proof -
  have o: "fst (ranq1 a) = fst (ranq1 b) \<longleftrightarrow> a = b" for a b
    by (auto simp: ranq1_output ranq1_mult_inj dest: ranq.inj_step)
  have z: "fst (ranq1 0) = 0" by (simp add: ranq1_def)
  show ?thesis
    using ranq.returns [of s] o [of _ 0] o [of s t] by (auto simp: z ranq1_pow_zero_iff)
qed

text \<open> TinyMT keeps its seeds apart: different seeds give different initial
  states; and a call forgets exactly one bit of the state, the top bit of the first
  word: two states have the same successor iff they agree on everything else.\<close>

theorem tinymt_state:
  "(tinymt32_init a = tinymt32_init b \<longleftrightarrow> a = b) \<and>
   (next_state tinymt32_generate s = next_state tinymt32_generate t \<longleftrightarrow>
     t0 s AND 0x7fffffff = t0 t AND 0x7fffffff \<and> t1 s = t1 t \<and> t2 s = t2 t \<and> t3 s = t3 t)"
proof
  have "foldl tinymt32_init_step x is = foldl tinymt32_init_step y is \<Longrightarrow> x = y"
    if "0 \<notin> set is" for x y "is"
    using that by (induction "is" arbitrary: x y) (auto dest!: tinymt32_init_step_inj)
  from this [of "[1..<8]"] show "tinymt32_init a = tinymt32_init b \<longleftrightarrow> a = b"
    by (auto simp: tinymt32_init_def)
  define x where "x u = (t0 u AND 0x7fffffff) XOR t1 u XOR t2 u" for u :: tinymt
  define y where "y a = a XOR push_bit 1 a" for a :: u32
  have y: "y a = y b \<longleftrightarrow> a = b" for a b by (simp only: y_def xor_push_bit_inj [OF zero_less_one])
  have "next_state tinymt32_generate u = \<lparr>t0 = t1 u, t1 = t2 u, t2 = t3 u XOR drop_bit 1 (y (x u)), t3 = y (x u)\<rparr>" for u
    by (simp only: next_state_def tinymt32_generate_def Let_def x_def y_def snd_conv)
  then have "next_state tinymt32_generate s = next_state tinymt32_generate t \<longleftrightarrow>
      t1 s = t1 t \<and> t2 s = t2 t \<and> t3 s = t3 t \<and> x s = x t"
    by (auto simp: y)
  also have "\<dots> \<longleftrightarrow> t0 s AND 0x7fffffff = t0 t AND 0x7fffffff \<and> t1 s = t1 t \<and> t2 s = t2 t \<and> t3 s = t3 t"
    by (auto simp: x_def)
  finally show "next_state tinymt32_generate s = next_state tinymt32_generate t \<longleftrightarrow>
      t0 s AND 0x7fffffff = t0 t AND 0x7fffffff \<and> t1 s = t1 t \<and> t2 s = t2 t \<and> t3 s = t3 t" .
qed

end
