(* ===== verification/Pid.thy ===== *)
theory Pid
  imports Complex_Main C_Prelude
begin

text \<open>
  The PID regulators: the C functions of Common/pid.c on \<open>struct pid\<close>, and the
  C++ template \<open>PID\<close> of Common/pid.h.  The C code computes in a type \<open>PID_T\<close> the
  user chooses, so its operations are defined for every type with the four
  operators it uses; what only needs the order of the type is proved for every
  linear order, whatever rounding \<open>+\<close>, \<open>-\<close> and \<open>*\<close> do, and what needs
  arithmetic laws is proved for exact (ordered ring) arithmetic.
\<close>

section \<open>The C regulator\<close>

record 'a pid =
  kp :: 'a
  ki :: 'a
  kd :: 'a
  set_point :: 'a
  iterm :: 'a
  last_input :: 'a
  pmin :: 'a
  pmax :: 'a
  limits_en :: bool

definition pid_init :: "'a::zero pid \<Rightarrow> 'a \<Rightarrow> 'a \<Rightarrow> 'a \<Rightarrow> 'a pid" where
  "pid_init p p_kp p_ki p_kd =
     p\<lparr>iterm := 0, last_input := 0, kp := p_kp, ki := p_ki, kd := p_kd, limits_en := False\<rparr>"

definition pid_set_limits :: "'a pid \<Rightarrow> 'a \<Rightarrow> 'a \<Rightarrow> 'a pid" where
  "pid_set_limits p p_min p_max = p\<lparr>pmin := p_min, pmax := p_max, limits_en := True\<rparr>"

definition pid_set_target :: "'a pid \<Rightarrow> 'a \<Rightarrow> 'a pid" where
  "pid_set_target p v = p\<lparr>set_point := v\<rparr>"

text \<open>The block \<open>if (p->limits_en) ...\<close>, which the code has twice.\<close>

definition pid_limit :: "'a::ord pid \<Rightarrow> 'a \<Rightarrow> 'a" where
  "pid_limit p v =
     (if limits_en p then (if pmax p < v then pmax p else if v < pmin p then pmin p else v) else v)"

definition pid_calc :: "'a::{plus,minus,times,ord} pid \<Rightarrow> 'a \<Rightarrow> 'a \<times> 'a pid" where
  "pid_calc p0 input =
     (let error = set_point p0 - input;
          p1 = p0\<lparr>iterm := iterm p0 + ki p0 * error\<rparr>;
          p2 = p1\<lparr>iterm := pid_limit p1 (iterm p1)\<rparr>;
          d_input = input - last_input p2;
          out0 = kp p2 * error + iterm p2 - kd p2 * d_input;
          output = pid_limit p2 out0
      in (output, p2\<lparr>last_input := input\<rparr>))"

fun pid_run :: "'a::{plus,minus,times,ord} pid \<Rightarrow> 'a list \<Rightarrow> 'a list \<times> 'a pid" where
  "pid_run p [] = ([], p)"
| "pid_run p (x # xs) = (let (out, p') = pid_calc p x; (outs, p'') = pid_run p' xs in (out # outs, p''))"

lemma pid_limit_range:
  "limits_en p \<Longrightarrow> pmin p \<le> pmax p \<Longrightarrow> pmin p \<le> pid_limit p v \<and> pid_limit p v \<le> pmax p" for p :: "'a::linorder pid"
  by (auto simp: pid_limit_def)

lemma pid_limit_iterm [simp]: "pid_limit (p\<lparr>iterm := i\<rparr>) v = pid_limit p v"
  by (simp add: pid_limit_def)

lemma pid_calc_keeps [simp]:
  "limits_en (snd (pid_calc p x)) = limits_en p" "pmin (snd (pid_calc p x)) = pmin p"
  "pmax (snd (pid_calc p x)) = pmax p" "kp (snd (pid_calc p x)) = kp p" "ki (snd (pid_calc p x)) = ki p"
  "kd (snd (pid_calc p x)) = kd p" "set_point (snd (pid_calc p x)) = set_point p"
  "last_input (snd (pid_calc p x)) = x"
  by (simp_all add: pid_calc_def Let_def)

lemma pid_run_Cons: "pid_run p (x # xs) =
    (fst (pid_calc p x) # fst (pid_run (snd (pid_calc p x)) xs), snd (pid_run (snd (pid_calc p x)) xs))"
  by (simp add: split_beta)

lemmas pid_run_simps [simp] = pid_run.simps(1) pid_run_Cons

declare pid_run.simps(2) [simp del]

definition in_limits :: "'a::linorder pid \<Rightarrow> 'a \<Rightarrow> bool" where
  "in_limits p v \<longleftrightarrow> pmin p \<le> v \<and> v \<le> pmax p"

lemma pid_calc_in_limits:
  assumes "limits_en p" "pmin p \<le> pmax p"
  shows "in_limits p (fst (pid_calc p x))" "in_limits p (iterm (snd (pid_calc p x)))"
  using pid_limit_range [OF assms] by (auto simp: pid_calc_def Let_def in_limits_def)

lemma pid_calc_exact:
  fixes p :: "'a::linordered_idom pid"
  assumes "\<not> limits_en p"
  shows "fst (pid_calc p x) = kp p * (set_point p - x) + (iterm p + ki p * (set_point p - x)) - kd p * (x - last_input p)"
    "iterm (snd (pid_calc p x)) = iterm p + ki p * (set_point p - x)"
  using assms by (simp_all add: pid_calc_def Let_def pid_limit_def)

text \<open> With limits set, every output of every run stays within them and so does
  the integral term (no wind-up), for every number type with a linear order, however
  its arithmetic rounds or overflows.\<close>

theorem pid_run_bounded:
  fixes p :: "'a::{plus,minus,times,linorder} pid"
  assumes "lo \<le> hi"
  shows "list_all (\<lambda>v. lo \<le> v \<and> v \<le> hi) (fst (pid_run (pid_set_limits p lo hi) xs)) \<and>
    (xs \<noteq> [] \<longrightarrow> lo \<le> iterm (snd (pid_run (pid_set_limits p lo hi) xs)) \<and>
      iterm (snd (pid_run (pid_set_limits p lo hi) xs)) \<le> hi)"
proof -
  have "list_all (in_limits q) (fst (pid_run q xs)) \<and> (xs \<noteq> [] \<longrightarrow> in_limits q (iterm (snd (pid_run q xs))))"
    if "limits_en q" "pmin q \<le> pmax q" for q :: "'a pid"
    using that
  proof (induction xs arbitrary: q)
    case (Cons x xs)
    note IH = Cons.IH [of "snd (pid_calc q x)"]
    show ?case using Cons.prems IH pid_calc_in_limits [OF Cons.prems, of x]
      by (cases xs) (auto simp: in_limits_def list_all_iff)
  qed simp
  from this [of "pid_set_limits p lo hi"] show ?thesis
    using assms by (simp add: pid_set_limits_def in_limits_def list_all_iff)
qed

theorem pid_run_bounded_witness:
  "list_all (\<lambda>v. (-10 :: int) \<le> v \<and> v \<le> 10)
     (fst (pid_run (pid_set_limits \<lparr>kp = 3, ki = 2, kd = 1, set_point = 50, iterm = 0, last_input = 0,
       pmin = 0, pmax = 0, limits_en = False\<rparr> (-10) 10) [0, 20, 70]))"
  by (rule pid_run_bounded [THEN conjunct1]) simp

text \<open> Without limits and in exact arithmetic the regulator is the textbook one: the
  last output of a run is \<open>kp e + ki (e\<^sub>1 + ... + e\<^sub>n) - kd (x\<^sub>n - x\<^sub>n\<^sub>-\<^sub>1)\<close>, where \<open>e\<close>
  is the distance of the measured value from the target and the measurement before the
  first one counts as 0.\<close>

theorem pid_run_closed_form:
  fixes p :: "'a::linordered_idom pid"
  shows "last (fst (pid_run (pid_set_target (pid_init p c_kp c_ki c_kd) target) (xs @ [x]))) =
    c_kp * (target - x) + c_ki * (\<Sum>y \<leftarrow> xs @ [x]. target - y) - c_kd * (x - (if xs = [] then 0 else last xs))"
proof -
  have run: "last (fst (pid_run r (xs @ [x]))) = kp r * (set_point r - x) + (iterm r + ki r * (\<Sum>y \<leftarrow> xs @ [x]. set_point r - y))
      - kd r * (x - (if xs = [] then last_input r else last xs))" if "\<not> limits_en r" for r :: "'a pid"
    using that
  proof (induction xs arbitrary: r)
    case Nil
    then show ?case by (simp add: pid_calc_exact)
  next
    case (Cons y ys)
    have "fst (pid_run s (ys @ [x])) \<noteq> []" for s :: "'a pid" by (cases ys) simp_all
    then show ?case using Cons.IH [of "snd (pid_calc r y)"] Cons.prems
      by (simp add: pid_calc_exact algebra_simps)
  qed
  show ?thesis
    by (subst run) (simp_all add: pid_set_target_def pid_init_def)
qed

section \<open>The C++ regulator\<close>

text \<open>
  \<open>Calculate\<close> divides by the integral gain and by the time step.  A zero divisor
  is undefined for integers and yields an infinity or a NaN for floating point, and
  \<open>std::clamp\<close> is undefined when its bounds are the wrong way round; the model has
  no value then.
\<close>

record 'a PID =
  m_kp :: 'a
  m_ki :: 'a
  m_kd :: 'a
  m_max_output :: 'a
  m_min_output :: 'a
  m_dt :: 'a
  m_prev_error :: 'a
  m_integral :: 'a

definition PID_new :: "'a::zero \<Rightarrow> 'a \<Rightarrow> 'a \<Rightarrow> 'a \<Rightarrow> 'a \<Rightarrow> 'a \<Rightarrow> 'a PID" where
  "PID_new c_kp c_ki c_kd max_output min_output dt =
     \<lparr>m_kp = c_kp, m_ki = c_ki, m_kd = c_kd, m_max_output = max_output, m_min_output = min_output,
      m_dt = dt, m_prev_error = 0, m_integral = 0\<rparr>"

definition cpp_clamp :: "'a::ord \<Rightarrow> 'a \<Rightarrow> 'a \<Rightarrow> 'a option" where
  "cpp_clamp v lo hi = (if hi < lo then None else Some (if v < lo then lo else if hi < v then hi else v))"

definition cpp_div :: "'a::{zero,divide} \<Rightarrow> 'a \<Rightarrow> 'a option" where
  "cpp_div a b = (if b = 0 then None else Some (a div b))"

definition PID_Calculate :: "'a::{zero,plus,minus,times,divide,ord} PID \<Rightarrow> 'a \<Rightarrow> 'a \<Rightarrow> ('a \<times> 'a PID) option" where
  "PID_Calculate p setpoint current_val =
     (let error = setpoint - current_val;
          P_term = m_kp p * error;
          integral0 = m_integral p + error * m_dt p
      in do {
        lo \<leftarrow> cpp_div (m_min_output p) (m_ki p);
        hi \<leftarrow> cpp_div (m_max_output p) (m_ki p);
        integral \<leftarrow> cpp_clamp integral0 lo hi;
        let I_term = m_ki p * integral;
        derivative \<leftarrow> cpp_div (error - m_prev_error p) (m_dt p);
        let D_term = m_kd p * derivative;
        output \<leftarrow> cpp_clamp (P_term + I_term + D_term) (m_min_output p) (m_max_output p);
        Some (output, p\<lparr>m_integral := integral, m_prev_error := error\<rparr>)
      })"

definition PID_Reset :: "'a::zero PID \<Rightarrow> 'a PID" where
  "PID_Reset p = p\<lparr>m_prev_error := 0, m_integral := 0\<rparr>"

lemma cpp_clamp_some: "lo \<le> hi \<Longrightarrow> \<exists>w. cpp_clamp v lo hi = Some w \<and> lo \<le> w \<and> w \<le> hi" for v :: "'a::linorder"
  by (auto simp: cpp_clamp_def)

text \<open> In exact arithmetic and with a positive integral gain, a non-zero time step
  and ordered limits, \<open>Calculate\<close> always has a value, within the limits, and the
  integral term stays within them too; with the integral gain zero, which is the
  default argument of the constructor, it never has one.\<close>

theorem PID_Calculate_bounded:
  fixes p :: "'a::linordered_field PID"
  shows "(0 < m_ki p \<and> m_dt p \<noteq> 0 \<and> m_min_output p \<le> m_max_output p \<longrightarrow>
      (\<exists>output p'. PID_Calculate p setpoint v = Some (output, p') \<and>
        m_min_output p \<le> output \<and> output \<le> m_max_output p \<and>
        m_min_output p \<le> m_ki p * m_integral p' \<and> m_ki p * m_integral p' \<le> m_max_output p)) \<and>
    (m_ki p = 0 \<longrightarrow> PID_Calculate p setpoint v = None)"
proof (intro conjI impI)
  assume a: "0 < m_ki p \<and> m_dt p \<noteq> 0 \<and> m_min_output p \<le> m_max_output p"
  then have le: "m_min_output p div m_ki p \<le> m_max_output p div m_ki p"
    by (simp add: divide_right_mono)
  obtain i where i: "cpp_clamp (m_integral p + (setpoint - v) * m_dt p)
      (m_min_output p div m_ki p) (m_max_output p div m_ki p) = Some i"
    "m_min_output p div m_ki p \<le> i" "i \<le> m_max_output p div m_ki p"
    using cpp_clamp_some [OF le] by blast
  let ?o = "m_kp p * (setpoint - v) + m_ki p * i + m_kd p * ((setpoint - v - m_prev_error p) div m_dt p)"
  obtain w where w: "cpp_clamp ?o (m_min_output p) (m_max_output p) = Some w"
    "m_min_output p \<le> w" "w \<le> m_max_output p"
    using cpp_clamp_some a by blast
  have "m_min_output p \<le> m_ki p * i" "m_ki p * i \<le> m_max_output p"
    using i(2,3) a by (simp_all add: field_simps)
  then show "\<exists>output p'. PID_Calculate p setpoint v = Some (output, p') \<and>
        m_min_output p \<le> output \<and> output \<le> m_max_output p \<and>
        m_min_output p \<le> m_ki p * m_integral p' \<and> m_ki p * m_integral p' \<le> m_max_output p"
    using a i w by (simp add: PID_Calculate_def cpp_div_def)
next
  assume "m_ki p = 0"
  then show "PID_Calculate p setpoint v = None" by (simp add: PID_Calculate_def cpp_div_def)
qed

theorem PID_Calculate_bounded_witness:
  "\<exists>output p'. PID_Calculate (PID_new (1 :: real) 2 0 10 (-10) 1) 30 7 = Some (output, p') \<and> -10 \<le> output \<and> output \<le> 10"
  using PID_Calculate_bounded [of "PID_new (1 :: real) 2 0 10 (-10) 1" 30 7] by (auto simp: PID_new_def)

end
