(* ===== verification/State_Machine.thy ===== *)
theory State_Machine
  imports C_Prelude
begin

text \<open>
  The callback-driven state machine of Common/state_machine.c.  A callback is a
  function of the program's own data \<open>'e\<close> that gives its return value and the
  changed data; a null pointer is \<open>None\<close>.  Besides the C state the model records
  which callbacks ran, in order.  A state number outside the array of states is
  undefined behaviour of the C code, for which the model has no value.
\<close>

section \<open>The model\<close>

type_synonym 'e callback = "'e \<Rightarrow> int \<times> 'e"

record 'e machine_state =
  enter :: "'e callback option"
  work :: "'e callback option"
  exit :: "'e callback option"

record 'e state_machine =
  states :: "'e machine_state list"
  state_n :: int
  mode_changed_n :: int

datatype event = Enter int | Work int | Exit int

definition state_machine_init :: "'e machine_state list \<Rightarrow> 'e state_machine" where
  "state_machine_init states_list = \<lparr>states = states_list, state_n = 0, mode_changed_n = 0\<rparr>"

text \<open>The exit transition, which the code has twice: \<open>n\<close> is the state being left and
  \<open>next\<close> the positive value that asked for the transition.\<close>

definition leave_state ::
    "'e state_machine \<Rightarrow> 'e machine_state \<Rightarrow> int \<Rightarrow> int \<Rightarrow> 'e \<Rightarrow> 'e state_machine \<times> 'e \<times> event list" where
  "leave_state instance current n next e =
     (let i1 = instance\<lparr>mode_changed_n := 0, state_n := next - 1\<rparr>
      in case exit current of
           None \<Rightarrow> (i1, e, [])
         | Some cb \<Rightarrow> (let (next2, e2) = cb e
                      in (if 0 < next2 then i1\<lparr>state_n := next2 - 1\<rparr> else i1, e2, [Exit n])))"

definition do_work ::
    "'e state_machine \<Rightarrow> 'e machine_state \<Rightarrow> int \<Rightarrow> 'e \<Rightarrow> 'e state_machine \<times> 'e \<times> event list" where
  "do_work instance current n e =
     (case work current of
        None \<Rightarrow> (instance, e, [])
      | Some cb \<Rightarrow>
          (let (next, e2) = cb e
           in if 0 < next
              then (let (i, e3, ev) = leave_state instance current n next e2 in (i, e3, Work n # ev))
              else (instance, e2, [Work n])))"

definition state_machine_do_step ::
    "'e state_machine \<Rightarrow> 'e \<Rightarrow> ('e state_machine \<times> 'e \<times> event list) option" where
  "state_machine_do_step instance e =
     (let n = state_n instance
      in if n < 0 \<or> int (length (states instance)) \<le> n then None
         else let current = states instance ! nat n
              in Some (case (enter current, mode_changed_n instance = 0) of
                   (Some cb, True) \<Rightarrow>
                     (let (next, e2) = cb e
                      in if 0 < next
                         then (let (i, e3, ev) = leave_state instance current n next e2 in (i, e3, Enter n # ev))
                         else (let (i, e3, ev) = do_work (instance\<lparr>mode_changed_n := 1\<rparr>) current n e2
                               in (i, e3, Enter n # ev)))
                 | _ \<Rightarrow> do_work instance current n e))"

fun state_machine_run ::
    "nat \<Rightarrow> 'e state_machine \<Rightarrow> 'e \<Rightarrow> ('e state_machine \<times> 'e \<times> event list) option" where
  "state_machine_run 0 m e = Some (m, e, [])"
| "state_machine_run (Suc k) m e =
     (case state_machine_do_step m e of
        None \<Rightarrow> None
      | Some (m', e', ev) \<Rightarrow>
          (case state_machine_run k m' e' of
             None \<Rightarrow> None
           | Some (m'', e'', ev') \<Rightarrow> Some (m'', e'', ev @ ev')))"

section \<open>The life cycle of a state\<close>

text \<open>
  What the steps promise, as a relation on histories: a state is entered when the
  machine arrives in it (if it has an enter callback), works, and is left right
  after an enter or work callback asked for it; the exit callback of the state left
  runs before anything of the next state.
\<close>

datatype phase = Arrived | Running

inductive lifecycle :: "(int \<Rightarrow> bool) \<Rightarrow> (int \<Rightarrow> bool) \<Rightarrow> event list \<Rightarrow> int \<Rightarrow> phase \<Rightarrow> bool"
  for has_enter has_exit where
  start: "lifecycle has_enter has_exit [] 0 Arrived"
| enter: "lifecycle has_enter has_exit evs n Arrived \<Longrightarrow> has_enter n \<Longrightarrow>
    lifecycle has_enter has_exit (evs @ [Enter n]) n Running"
| work: "lifecycle has_enter has_exit evs n p \<Longrightarrow> p = Running \<or> \<not> has_enter n \<Longrightarrow>
    lifecycle has_enter has_exit (evs @ [Work n]) n p"
| leave: "lifecycle has_enter has_exit (evs @ [ev]) n p \<Longrightarrow> ev = Enter n \<or> ev = Work n \<Longrightarrow>
    p = Running \<or> \<not> has_enter n \<Longrightarrow>
    lifecycle has_enter has_exit (evs @ ev # (if has_exit n then [Exit n] else [])) m Arrived"

definition phase_of :: "'e state_machine \<Rightarrow> phase" where
  "phase_of m = (if mode_changed_n m = 0 then Arrived else Running)"

definition has_enter :: "'e machine_state list \<Rightarrow> int \<Rightarrow> bool" where
  "has_enter ss n \<longleftrightarrow> enter (ss ! nat n) \<noteq> None"

definition has_exit :: "'e machine_state list \<Rightarrow> int \<Rightarrow> bool" where
  "has_exit ss n \<longleftrightarrow> exit (ss ! nat n) \<noteq> None"

abbreviation machine_history :: "'e state_machine \<Rightarrow> event list \<Rightarrow> bool" where
  "machine_history m evs \<equiv>
     lifecycle (has_enter (states m)) (has_exit (states m)) evs (state_n m) (phase_of m)"

lemma leave_state_history:
  assumes "lifecycle (has_enter (states m)) (has_exit (states m)) (evs @ [ev]) n p"
    "ev = Enter n \<or> ev = Work n" "p = Running \<or> \<not> has_enter (states m) n"
    and l: "leave_state m (states m ! nat n) n next e = (m', e', ev')"
  shows "machine_history m' (evs @ ev # ev') \<and> states m' = states m"
  using lifecycle.leave [OF assms(1-3), of "state_n m'"] l
  by (auto simp: leave_state_def phase_of_def has_exit_def Let_def split: option.splits prod.splits if_splits)

lemma do_work_history:
  assumes h: "machine_history m evs" and n: "n = state_n m"
    and p: "phase_of m = Running \<or> \<not> has_enter (states m) n"
    and w: "do_work m (states m ! nat n) n e = (m', e', ev')"
  shows "machine_history m' (evs @ ev') \<and> states m' = states m"
proof (cases "work (states m ! nat n)")
  case None
  then show ?thesis using h w by (simp add: do_work_def)
next
  case (Some cb)
  obtain "next" e2 where cb: "cb e = (next, e2)" by fastforce
  have h2: "lifecycle (has_enter (states m)) (has_exit (states m)) (evs @ [Work n]) n (phase_of m)"
    using lifecycle.work h p n by blast
  show ?thesis
  proof (cases "0 < next")
    case True
    obtain i e3 ev where l: "leave_state m (states m ! nat n) n next e2 = (i, e3, ev)" by (metis prod_cases3)
    then have "m' = i" "ev' = Work n # ev" using w Some cb True by (simp_all add: do_work_def)
    then show ?thesis using leave_state_history [OF h2 _ p l] by auto
  next
    case False
    then show ?thesis using w Some cb h2 n by (auto simp: do_work_def)
  qed
qed

lemma do_step_history:
  assumes h: "machine_history m evs" and s: "state_machine_do_step m e = Some (m', e', ev')"
  shows "machine_history m' (evs @ ev') \<and> states m' = states m"
proof -
  define n where "n = state_n m"
  define c where "c = states m ! nat n"
  have in_range: "\<not> (n < 0 \<or> int (length (states m)) \<le> n)"
    using s by (auto simp: state_machine_do_step_def n_def Let_def)
  show ?thesis
  proof (cases "enter c \<noteq> None \<and> mode_changed_n m = 0")
    case True
    then obtain cb where cb: "enter c = Some cb" by blast
    obtain "next" e2 where r: "cb e = (next, e2)" by fastforce
    have h2: "lifecycle (has_enter (states m)) (has_exit (states m)) (evs @ [Enter n]) n Running"
      using h True lifecycle.enter [of _ _ evs n] by (simp add: phase_of_def has_enter_def n_def c_def)
    show ?thesis
    proof (cases "0 < next")
      case nx: True
      obtain i e3 ev where l: "leave_state m c n next e2 = (i, e3, ev)" by (metis prod_cases3)
      then have "m' = i" "ev' = Enter n # ev"
        using s in_range True cb r nx by (auto simp: state_machine_do_step_def n_def c_def Let_def)
      then show ?thesis using leave_state_history [OF h2 _ _ l [unfolded c_def]] by auto
    next
      case nx: False
      let ?m = "m\<lparr>mode_changed_n := 1\<rparr>"
      obtain i e3 ev where w: "do_work ?m c n e2 = (i, e3, ev)" by (metis prod_cases3)
      then have "m' = i" "ev' = Enter n # ev"
        using s in_range True cb r nx by (auto simp: state_machine_do_step_def n_def c_def Let_def)
      moreover have "machine_history ?m (evs @ [Enter n])" using h2 by (simp add: phase_of_def n_def)
      then have "machine_history i ((evs @ [Enter n]) @ ev) \<and> states i = states ?m"
        by (rule do_work_history) (use w in \<open>simp_all add: n_def c_def phase_of_def\<close>)
      ultimately show ?thesis by auto
    qed
  next
    case False
    then have "do_work m c n e = (m', e', ev')"
      using s in_range by (auto simp: state_machine_do_step_def n_def c_def Let_def split: option.splits bool.splits)
    then show ?thesis
      using do_work_history [OF h n_def, of e m' e' ev'] False
      by (auto simp: phase_of_def has_enter_def n_def c_def)
  qed
qed

lemma run_history:
  "machine_history m evs \<Longrightarrow> state_machine_run k m e = Some (m', e', ev') \<Longrightarrow>
   machine_history m' (evs @ ev') \<and> states m' = states m"
proof (induction k arbitrary: m e evs ev')
  case (Suc k)
  from Suc.prems(2) obtain m1 e1 ev1 ev2 where
    s: "state_machine_do_step m e = Some (m1, e1, ev1)" "state_machine_run k m1 e1 = Some (m', e', ev2)"
      "ev' = ev1 @ ev2"
    by (auto split: option.splits)
  then show ?case using do_step_history [OF Suc.prems(1) s(1)] Suc.IH [OF _ s(2)] by fastforce
qed simp

lemma init_history: "machine_history (state_machine_init ss) []"
  by (simp add: state_machine_init_def phase_of_def lifecycle.start)

text \<open>Every entry is matched by an exit, but for the state the machine is in.\<close>

lemma lifecycle_balance:
  assumes "lifecycle he hx evs n p" "he i" "hx i"
  shows "count_list evs (Enter i) = count_list evs (Exit i) + (if n = i \<and> p = Running then 1 else 0)"
  using assms by (induction rule: lifecycle.induct) auto

section \<open>Properties\<close>

text \<open>Every callback names one of the \<open>n\<close> states (numbered from 1) or none.\<close>

definition targets_ok :: "'e machine_state list \<Rightarrow> bool" where
  "targets_ok ss \<longleftrightarrow>
     (\<forall>s \<in> set ss. \<forall>cb. enter s = Some cb \<or> work s = Some cb \<or> exit s = Some cb \<longrightarrow>
       (\<forall>e. fst (cb e) \<le> int (length ss)))"

definition in_range :: "'e state_machine \<Rightarrow> bool" where
  "in_range m \<longleftrightarrow> 0 \<le> state_n m \<and> state_n m < int (length (states m))"

lemma targets_okD:
  "targets_ok ss \<Longrightarrow> s \<in> set ss \<Longrightarrow> enter s = Some cb \<or> work s = Some cb \<or> exit s = Some cb \<Longrightarrow>
   cb e = (next, e') \<Longrightarrow> next \<le> int (length ss)"
  unfolding targets_ok_def by (metis fst_conv)

lemma leave_state_range:
  assumes "targets_ok (states m)" "c \<in> set (states m)" "0 < next" "next \<le> int (length (states m))"
    "leave_state m c n next e = (m', e', ev)"
  shows "states m' = states m \<and> in_range m'"
  using assms(3-5) targets_okD [OF assms(1,2)]
  by (fastforce simp: leave_state_def Let_def in_range_def split: option.splits prod.splits if_splits)

lemma do_work_range:
  assumes "targets_ok (states m)" "c \<in> set (states m)" "in_range m" "do_work m c n e = (m', e', ev)"
  shows "states m' = states m \<and> in_range m'"
proof (cases "work c")
  case None
  then show ?thesis using assms by (simp add: do_work_def)
next
  case (Some cb)
  obtain "next" e2 where cb: "cb e = (next, e2)" by fastforce
  obtain i e3 ev2 where l: "leave_state m c n next e2 = (i, e3, ev2)" by (metis prod_cases3)
  show ?thesis
    using assms Some cb l leave_state_range [OF assms(1,2) _ _ l] targets_okD [OF assms(1,2), of cb e "next" e2]
    by (auto simp: do_work_def split: if_splits)
qed

lemma do_step_range:
  assumes "targets_ok (states m)" "in_range m"
  obtains m' e' ev where "state_machine_do_step m e = Some (m', e', ev)" "states m' = states m" "in_range m'"
proof -
  define c where "c = states m ! nat (state_n m)"
  have c: "c \<in> set (states m)" using assms(2) by (auto simp: c_def in_range_def)
  obtain i1 f1 w1 where w1: "do_work m c (state_n m) e = (i1, f1, w1)" by (metis prod_cases3)
  note r1 = do_work_range [OF assms(1) c assms(2) w1]
  show thesis
  proof (cases "enter c")
    case None
    then show ?thesis using that r1 w1 assms(2)
      by (auto simp: state_machine_do_step_def Let_def c_def in_range_def)
  next
    case (Some cb)
    obtain "next" e2 where cb: "cb e = (next, e2)" by fastforce
    obtain i2 f2 w2 where w2: "leave_state m c (state_n m) next e2 = (i2, f2, w2)" by (metis prod_cases3)
    obtain i3 f3 w3 where w3: "do_work (m\<lparr>mode_changed_n := 1\<rparr>) c (state_n m) e2 = (i3, f3, w3)" by (metis prod_cases3)
    have r2: "0 < next \<Longrightarrow> states i2 = states m \<and> in_range i2"
      using leave_state_range [OF assms(1) c _ _ w2] targets_okD [OF assms(1) c, of cb e "next" e2] Some cb by blast
    have r3: "states i3 = states m \<and> in_range i3"
      using do_work_range [OF _ _ _ w3] assms c by (auto simp: in_range_def)
    show ?thesis using that r1 r2 r3 w1 w2 w3 Some cb assms(2)
      by (cases "mode_changed_n m = 0"; cases "0 < next")
        (auto simp: state_machine_do_step_def Let_def c_def in_range_def)
  qed
qed

lemma run_range:
  "targets_ok (states m) \<Longrightarrow> in_range m \<Longrightarrow>
   \<exists>m' e' ev. state_machine_run k m e = Some (m', e', ev) \<and> states m' = states m \<and> in_range m'"
proof (induction k arbitrary: m e)
  case (Suc k)
  obtain m1 e1 ev1 where s: "state_machine_do_step m e = Some (m1, e1, ev1)" "states m1 = states m" "in_range m1"
    by (rule do_step_range [OF Suc.prems])
  with Suc.IH [of m1 e1] Suc.prems(1) show ?case by fastforce
qed auto

text \<open> C38: If every callback names an existing state or none, a machine with at least
  one state never leaves its array of states: any number of steps from
  \<open>state_machine_init\<close> has a result, and the current state exists.\<close>

theorem state_machine_run_total:
  assumes "targets_ok ss" "ss \<noteq> []"
  shows "\<exists>m e' evs. state_machine_run k (state_machine_init ss) e = Some (m, e', evs) \<and>
    0 \<le> state_n m \<and> state_n m < int (length ss)"
  using run_range [of "state_machine_init ss" k e] assms
  by (auto simp: state_machine_init_def in_range_def)

definition demo_states :: "nat machine_state list" where
  "demo_states =
     [\<lparr>enter = Some (\<lambda>e. (0, e)), work = Some (\<lambda>e. (2, e)), exit = Some (\<lambda>e. (0, e))\<rparr>,
      \<lparr>enter = Some (\<lambda>e. (0, e)), work = Some (\<lambda>e. (if 3 < e then 1 else 0, e + 1)), exit = Some (\<lambda>e. (0, e))\<rparr>]"

lemma demo_targets: "targets_ok demo_states"
  by (auto simp: targets_ok_def demo_states_def)

theorem state_machine_run_total_witness:
  "\<exists>m e' evs. state_machine_run 9 (state_machine_init demo_states) 0 = Some (m, e', evs) \<and>
    0 \<le> state_n m \<and> state_n m < int (length demo_states)"
  by (rule state_machine_run_total [OF demo_targets]) (simp add: demo_states_def)

text \<open> The enter and exit callbacks of a state are balanced: for every run from
  \<open>state_machine_init\<close> and every state that has both, enter has run as often as exit,
  and once more exactly when the machine is in that state and has entered it.\<close>

theorem state_machine_enter_exit_balanced:
  assumes "state_machine_run k (state_machine_init ss) e = Some (m, e', evs)"
    and "i < length ss" "enter (ss ! i) \<noteq> None" "exit (ss ! i) \<noteq> None"
  shows "count_list evs (Enter (int i)) = count_list evs (Exit (int i)) +
    (if state_n m = int i \<and> mode_changed_n m \<noteq> 0 then 1 else 0)"
proof -
  have "machine_history m ([] @ evs) \<and> states m = states (state_machine_init ss)"
    by (rule run_history [OF init_history assms(1)])
  then have "lifecycle (has_enter ss) (has_exit ss) evs (state_n m) (phase_of m)"
    by (auto simp: state_machine_init_def)
  from lifecycle_balance [OF this, of "int i"] assms(3,4) show ?thesis
    by (auto simp: has_enter_def has_exit_def phase_of_def)
qed

theorem state_machine_enter_exit_balanced_witness:
  "case state_machine_run 4 (state_machine_init demo_states) 0 of
     Some (m, e', evs) \<Rightarrow> count_list evs (Enter 0) = count_list evs (Exit 0) +
       (if state_n m = 0 \<and> mode_changed_n m \<noteq> 0 then 1 else 0)
   | None \<Rightarrow> False"
proof -
  obtain m e' evs where r: "state_machine_run 4 (state_machine_init demo_states) 0 = Some (m, e', evs)"
    using run_range [of "state_machine_init demo_states" 4 0] demo_targets
    by (auto simp: state_machine_init_def in_range_def demo_states_def)
  then show ?thesis
    using state_machine_enter_exit_balanced [OF r, of 0] by (simp add: demo_states_def)
qed

end
