(* ===== verification/Arg_Parser.thy ===== *)
theory Arg_Parser
  imports C_Prelude
begin

text \<open>
  The command-line splitter of Common/arg_parser.c.  The argument string is a
  buffer of bytes that ends with a zero; the code cuts it in place, and \<open>argv\<close> holds
  indices into it.  A callback is a function of the strings it is given.
\<close>

section \<open>The model\<close>

definition space :: u8 where "space = 32"

text \<open>The C string at an index of a buffer, and \<open>strchr\<close> on it (for a character other
  than the terminator).\<close>

definition c_string :: "u8 list \<Rightarrow> nat \<Rightarrow> u8 list" where
  "c_string buf i = takeWhile (\<lambda>c. c \<noteq> 0) (drop i buf)"

definition strchr :: "u8 list \<Rightarrow> nat \<Rightarrow> u8 \<Rightarrow> nat option" where
  "strchr buf i c =
     (let s = c_string buf i; n = length (takeWhile (\<lambda>x. x \<noteq> c) s)
      in if n < length s then Some (i + n) else None)"

definition MAX_ARG_CNT :: nat where "MAX_ARG_CNT = 32"

lemma strchr_bound: "strchr buf i c = Some t \<Longrightarrow> i \<le> t \<and> t < length buf"
proof -
  assume s: "strchr buf i c = Some t"
  have "length (c_string buf i) \<le> length buf - i"
    unfolding c_string_def by (metis length_drop length_takeWhile_le)
  then show ?thesis using s by (auto simp: strchr_def Let_def split: if_splits)
qed

text \<open>The loop that splits the string: writing beyond \<open>argv[MAX_ARG_CNT - 1]\<close> has no
  value.\<close>

function split_loop :: "u8 list \<Rightarrow> nat \<Rightarrow> nat list \<Rightarrow> (u8 list \<times> nat list) option" where
  "split_loop buf rd_ptr argv =
     (case strchr buf rd_ptr space of
        None \<Rightarrow> Some (buf, argv)
      | Some token \<Rightarrow>
          (let buf' = buf[token := 0]; token' = token + 1
           in if length argv < MAX_ARG_CNT then split_loop buf' token' (argv @ [token']) else None))"
  by pat_completeness auto
termination
  by (relation "measure (\<lambda>(buf, rd, _). Suc (length buf) - rd)") (auto dest!: strchr_bound)

declare split_loop.simps [simp del]

record arg_entry =
  cmd :: "u8 list"
  cb :: "nat \<Rightarrow> u8 list list \<Rightarrow> int"

text \<open>The search loop compares the entry the pointer \<open>arg_list\<close> points at; nothing moves
  the pointer.\<close>

fun find_loop :: "u8 list \<Rightarrow> u8 list \<Rightarrow> nat list \<Rightarrow> arg_entry list \<Rightarrow> nat \<Rightarrow> (nat \<times> int) option" where
  "find_loop buf s argv arg_list 0 = None"
| "find_loop buf s argv arg_list (Suc n) =
     (if s = cmd (arg_list ! 0)
      then Some (0, cb (arg_list ! 0) (length argv) (map (c_string buf) argv))
      else find_loop buf s argv arg_list n)"

text \<open>The value returned and the entry whose callback ran, if any.\<close>

definition parse :: "u8 list option \<Rightarrow> arg_entry list \<Rightarrow> (int \<times> nat option) option" where
  "parse arg_str arg_list =
     (case arg_str of
        None \<Rightarrow> Some (0, None)
      | Some buf0 \<Rightarrow>
          (case split_loop buf0 0 [] of
             None \<Rightarrow> None
           | Some (buf, argv) \<Rightarrow>
               (case find_loop buf (c_string buf 0) argv arg_list (length arg_list) of
                  None \<Rightarrow> Some (0, None)
                | Some (i, res) \<Rightarrow> Some (res, Some i))))"

section \<open>Splitting\<close>

text \<open>The reference: the fields of a string between single spaces.\<close>

fun fields :: "u8 list \<Rightarrow> u8 list list" where
  "fields [] = [[]]"
| "fields (c # cs) = (if c = space then [] # fields cs else (c # hd (fields cs)) # tl (fields cs))"

lemma fields_ne [simp]: "fields s \<noteq> []"
  by (induction s) auto

lemma length_fields: "length (fields s) = Suc (count_list s space)"
  by (induction s) (auto simp: space_def)

lemma fields_no_space: "space \<notin> set s \<Longrightarrow> fields s = [s]"
  by (induction s) auto

lemma fields_append: "space \<notin> set s \<Longrightarrow> fields (s @ space # t) = s # fields t"
  by (induction s) auto

lemma takeWhile_until: "c \<notin> set a \<Longrightarrow> takeWhile (\<lambda>x. x \<noteq> c) (a @ c # t) = a"
  by (simp add: takeWhile_tail) (metis takeWhile_eq_all_conv)

lemma c_string_here: "0 \<notin> set s \<Longrightarrow> c_string (p @ s @ 0 # q) (length p) = s"
  by (simp add: c_string_def takeWhile_until)

lemma split_loop_fields:
  assumes "0 \<notin> set s" "length argv + count_list s space \<le> MAX_ARG_CNT"
  shows "\<exists>s' js. split_loop (p @ s @ [0]) (length p) argv = Some (p @ s' @ [0], argv @ js) \<and>
     length s' = length s \<and> c_string (p @ s' @ [0]) (length p) # map (c_string (p @ s' @ [0])) js = fields s"
  using assms
proof (induction "length s" arbitrary: s p argv rule: less_induct)
  case less
  have cs: "c_string (p @ s @ [0]) (length p) = s" using less.prems(1) by (rule c_string_here)
  show ?case
  proof (cases "space \<in> set s")
    case False
    then have tw: "takeWhile (\<lambda>x. x \<noteq> space) s = s" by (simp add: takeWhile_eq_all_conv) metis
    have "strchr (p @ s @ [0]) (length p) space = None" unfolding strchr_def cs Let_def tw by simp
    then show ?thesis using cs False by (subst split_loop.simps) (auto simp: fields_no_space)
  next
    case True
    then obtain a t where s: "s = a @ space # t" "space \<notin> set a" by (metis split_list_first)
    have tw: "takeWhile (\<lambda>x. x \<noteq> space) s = a" using s by (simp add: takeWhile_until)
    have sc: "strchr (p @ s @ [0]) (length p) space = Some (length p + length a)"
      by (simp add: strchr_def cs tw) (simp add: s)
    let ?p = "p @ a @ [0]"
    have upd: "(p @ s @ [0])[length p + length a := 0] = ?p @ t @ [0]" by (simp add: s list_update_append)
    have len: "length argv < MAX_ARG_CNT" using less.prems(2) s by simp
    have "\<exists>s' js. split_loop (?p @ t @ [0]) (length ?p) (argv @ [length ?p]) =
        Some (?p @ s' @ [0], (argv @ [length ?p]) @ js) \<and> length s' = length t \<and>
        c_string (?p @ s' @ [0]) (length ?p) # map (c_string (?p @ s' @ [0])) js = fields t"
      by (rule less.hyps) (use less.prems s in auto)
    then obtain s' js where ih: "split_loop (?p @ t @ [0]) (length ?p) (argv @ [length ?p]) =
        Some (?p @ s' @ [0], (argv @ [length ?p]) @ js)" "length s' = length t"
        "c_string (?p @ s' @ [0]) (length ?p) # map (c_string (?p @ s' @ [0])) js = fields t" by blast
    have "split_loop (p @ s @ [0]) (length p) argv = split_loop (?p @ t @ [0]) (length ?p) (argv @ [length ?p])"
      by (subst split_loop.simps) (simp add: sc upd len)
    moreover have "c_string (?p @ s' @ [0]) (length p) = a"
      using c_string_here [of a p "s' @ [0]"] less.prems(1) s by simp
    moreover have "fields s = a # fields t" using s by (simp add: fields_append)
    ultimately show ?thesis
      using ih by (intro exI [of _ "a @ 0 # s'"] exI [of _ "length ?p # js"]) (simp add: s)
  qed
qed

lemma find_loop_first:
  "find_loop buf s argv l n =
     (if n \<noteq> 0 \<and> s = cmd (l ! 0) then Some (0, cb (l ! 0) (length argv) (map (c_string buf) argv)) else None)"
  by (induction n) auto

text \<open> For a string with at most 32 spaces, \<open>parse\<close> splits it at the spaces and
  compares the first field with the first command of the list alone: on a match it
  returns what that command's callback returns for the remaining fields, and otherwise
  it returns 0 and calls nothing, whatever the other commands are.\<close>

theorem parse_first_command:
  assumes "0 \<notin> set s" "count_list s space \<le> 32"
  shows "parse (Some (s @ [0])) (e # es) =
    Some (if hd (fields s) = cmd e
          then (cb e (count_list s space) (tl (fields s)), Some 0) else (0, None))"
proof -
  obtain s' js where sp: "split_loop (s @ [0]) 0 [] = Some (s' @ [0], js)"
    "c_string (s' @ [0]) 0 # map (c_string (s' @ [0])) js = fields s"
    using split_loop_fields [of s "[]" "[]"] assms by (auto simp: MAX_ARG_CNT_def)
  have "c_string (s' @ [0]) 0 = hd (fields s)" "map (c_string (s' @ [0])) js = tl (fields s)"
    using sp(2) by (metis list.sel)+
  moreover have "length js = count_list s space"
    using arg_cong [OF sp(2), of length] by (simp add: length_fields)
  ultimately show ?thesis by (simp add: parse_def sp(1) find_loop_first)
qed

text \<open>The second of two commands is never found.\<close>

theorem parse_first_command_witness:
  "parse (Some ([98, 32, 99] @ [0])) [\<lparr>cmd = [97], cb = \<lambda>_ _. 1\<rparr>, \<lparr>cmd = [98], cb = \<lambda>_ _. 2\<rparr>] = Some (0, None)"
  using parse_first_command [of "[98, 32, 99]" "\<lparr>cmd = [97], cb = \<lambda>_ _. 1\<rparr>" "[\<lparr>cmd = [98], cb = \<lambda>_ _. 2\<rparr>]"]
  by (simp add: space_def)

end
