(* ===== verification/Stepper.thy ===== *)
theory Stepper
  imports C_Prelude
begin

text \<open>
  The stepper-motor driver of Common/stepper.c with \<open>stp_t\<close> as \<open>uint16_t\<close>.  Tasks
  and their ramp buffers live in memory the caller owns, so they are kept in stores
  indexed by an address.  The calls of the user's output functions are recorded in
  order in \<open>calls\<close>; what the \<open>stop\<close> callback answers is an argument of the timer
  interrupt.  The arithmetic on \<open>double\<close> is a parameter, a record of the operations
  the code uses.  An access outside a ramp buffer, or to a null task, has no value.
\<close>

section \<open>The model\<close>

datatype state_t = STEPPER_ACCL | STEPPER_RUNN | STEPPER_DECL | STEPPER_IDLE
  | STEPPER_HOLD | STEPPER_DONE | STEPPER_STOP

fun state_num :: "state_t \<Rightarrow> nat" where
  "state_num STEPPER_ACCL = 0"
| "state_num STEPPER_RUNN = 1"
| "state_num STEPPER_DECL = 2"
| "state_num STEPPER_IDLE = 3"
| "state_num STEPPER_HOLD = 4"
| "state_num STEPPER_DONE = 5"
| "state_num STEPPER_STOP = 6"

text \<open>\<open>task->state++\<close>, which the code does in the first three states.\<close>

fun state_inc :: "state_t \<Rightarrow> state_t" where
  "state_inc STEPPER_ACCL = STEPPER_RUNN"
| "state_inc STEPPER_RUNN = STEPPER_DECL"
| "state_inc STEPPER_DECL = STEPPER_IDLE"
| "state_inc STEPPER_IDLE = STEPPER_HOLD"
| "state_inc STEPPER_HOLD = STEPPER_DONE"
| "state_inc STEPPER_DONE = STEPPER_STOP"
| "state_inc STEPPER_STOP = STEPPER_STOP"

datatype call = Set_duty u16 | Set_step u16 | Set_dir u16

record stp_buf_t =
  acc_buf :: "u16 list"
  dec_buf :: "u16 list"
  acc_buf_size :: u16
  dec_buf_size :: u16

record stepper_task_t =
  speed :: u16
  run_steps :: u16
  acc_steps :: u16
  dec_steps :: u16
  acc :: u16
  dec :: u16
  dir :: u16
  state :: state_t
  buf :: "nat option"
  next_ptr :: "nat option"

record stepper_t =
  has_set_dir :: bool
  has_stop :: bool
  cur_speed :: u16
  cur_duty :: u16
  pre_duty :: u16
  acc_pos :: u16
  dec_pos :: u16
  next_task :: "nat option"
  prev_state :: u16
  tim_freq :: u16
  tim_duty :: u16
  tasks :: "nat \<Rightarrow> stepper_task_t"
  bufs :: "nat \<Rightarrow> stp_buf_t"
  calls :: "call list"

record 'd double_ops =
  d_of :: "u16 \<Rightarrow> 'd"
  d_to :: "'d \<Rightarrow> u16"
  d_add :: "'d \<Rightarrow> 'd \<Rightarrow> 'd"
  d_sub :: "'d \<Rightarrow> 'd \<Rightarrow> 'd"
  d_mul :: "'d \<Rightarrow> 'd \<Rightarrow> 'd"
  d_div :: "'d \<Rightarrow> 'd \<Rightarrow> 'd"

abbreviation call_out :: "call \<Rightarrow> stepper_t \<Rightarrow> stepper_t" where
  "call_out c dev \<equiv> dev\<lparr>calls := calls dev @ [c]\<rparr>"

abbreviation put_task :: "nat \<Rightarrow> stepper_task_t \<Rightarrow> stepper_t \<Rightarrow> stepper_t" where
  "put_task t task dev \<equiv> dev\<lparr>tasks := (tasks dev)(t := task)\<rparr>"

definition stepper_init :: "stepper_t \<Rightarrow> bool \<Rightarrow> u16 \<Rightarrow> u16 \<Rightarrow> stepper_t" where
  "stepper_init dev with_dir freq duty =
     dev\<lparr>has_set_dir := with_dir, tim_freq := freq, tim_duty := duty, next_task := None, has_stop := False\<rparr>"

text \<open>The last task of the list that starts at a task; a cyclic list has no value.\<close>

partial_function (option) last_task :: "(nat \<Rightarrow> stepper_task_t) \<Rightarrow> nat \<Rightarrow> nat option" where
  "last_task ts p = (case next_ptr (ts p) of None \<Rightarrow> Some p | Some q \<Rightarrow> last_task ts q)"

text \<open>The ramp: \<open>n\<close> duties from the speed reached so far, each one acceleration step on.\<close>

fun ramp :: "'d double_ops \<Rightarrow> ('d \<Rightarrow> 'd \<Rightarrow> 'd) \<Rightarrow> u16 \<Rightarrow> u16 \<Rightarrow> nat \<Rightarrow> 'd \<Rightarrow> u16 list \<times> 'd" where
  "ramp d change duty step 0 prev_speed = ([], prev_speed)"
| "ramp d change duty step (Suc n) prev_speed =
     (let v = change prev_speed (d_of d step); (ds, v') = ramp d change duty step n v
      in (d_to d (d_div d (d_of d duty) v) # ds, v'))"

definition store_ramp :: "u16 list \<Rightarrow> u16 list \<Rightarrow> u16 list option" where
  "store_ramp old ds = (if length ds \<le> length old then Some (ds @ drop (length ds) old) else None)"

definition half_square :: "'d double_ops \<Rightarrow> u16 \<Rightarrow> u16 \<Rightarrow> u16" where
  "half_square d v a = (let t = d_div d (d_of d v) (d_of d a) in drop_bit 1 (d_to d (d_mul d (d_mul d t t) (d_of d a))))"

text \<open>The parts of \<open>stepper_add_task\<close>: appending the task to the list, with the speed the
  first task of the list is planned for, and filling the two halves of the ramp buffer.\<close>

definition link_task :: "'d double_ops \<Rightarrow> nat \<Rightarrow> nat option \<Rightarrow> stepper_t \<Rightarrow> (stepper_t \<times> 'd) option" where
  "link_task d t prev_task dev =
     (case prev_task of
        None \<Rightarrow> Some (dev\<lparr>next_task := Some t\<rparr>, d_of d 0)
      | Some p \<Rightarrow>
          (case last_task (tasks dev) p of
             None \<Rightarrow> None
           | Some l \<Rightarrow> Some (put_task l ((tasks dev l)\<lparr>next_ptr := Some t\<rparr>) dev, d_of d (speed (tasks dev p)))))"

definition fill_acc :: "'d double_ops \<Rightarrow> nat \<Rightarrow> nat option \<Rightarrow> 'd \<Rightarrow> stepper_t \<Rightarrow> (stepper_t \<times> 'd) option" where
  "fill_acc d t t_buf prev_speed dev =
     (case t_buf of
        None \<Rightarrow> Some (dev, prev_speed)
      | Some b \<Rightarrow>
          if acc_steps (tasks dev t) < acc_buf_size (bufs dev b)
          then (let (ds, v) = ramp d (d_add d) (tim_duty dev) (acc (tasks dev t)) (unat (acc_steps (tasks dev t))) prev_speed
                in case store_ramp (acc_buf (bufs dev b)) ds of
                     None \<Rightarrow> None
                   | Some new \<Rightarrow>
                       Some (dev\<lparr>bufs := (bufs dev)(b := (bufs dev b)\<lparr>acc_buf := new\<rparr>), acc_pos := 0\<rparr>, v))
          else Some (dev, prev_speed))"

definition fill_dec :: "'d double_ops \<Rightarrow> nat \<Rightarrow> nat option \<Rightarrow> 'd \<Rightarrow> stepper_t \<Rightarrow> (stepper_t \<times> 'd) option" where
  "fill_dec d t t_buf prev_speed dev =
     (case t_buf of
        None \<Rightarrow> Some (dev, prev_speed)
      | Some b \<Rightarrow>
          if dec_steps (tasks dev t) < dec_buf_size (bufs dev b)
          then (let (ds, v) = ramp d (d_sub d) (tim_duty dev) (dec (tasks dev t)) (unat (dec_steps (tasks dev t))) prev_speed
                in case store_ramp (dec_buf (bufs dev b)) ds of
                     None \<Rightarrow> None
                   | Some new \<Rightarrow>
                       Some (dev\<lparr>bufs := (bufs dev)(b := (bufs dev b)\<lparr>dec_buf := new\<rparr>), dec_pos := 0\<rparr>, v))
          else Some (dev, prev_speed))"

definition stepper_add_task ::
    "'d double_ops \<Rightarrow> stepper_t \<Rightarrow> nat \<Rightarrow> u16 \<Rightarrow> u16 \<Rightarrow> u16 \<Rightarrow> u16 \<Rightarrow> u16 \<Rightarrow> nat option \<Rightarrow> (u16 \<times> stepper_t) option" where
  "stepper_add_task d dev t steps t_speed t_acc t_dec t_dir t_buf =
     (let a = half_square d t_speed t_acc;
          k = half_square d t_speed t_dec;
          task1 = (tasks dev t)\<lparr>acc_steps := a, acc := d_to d (d_div d (d_of d t_speed) (d_of d a)),
                    dec_steps := k, dec := d_to d (d_div d (d_of d t_speed) (d_of d k)), speed := t_speed\<rparr>
      in if unat steps \<le> unat a + unat k then Some (0, put_task t task1 dev)
         else do {
           let task2 = task1\<lparr>run_steps := steps - a - k, dir := t_dir, buf := t_buf\<rparr>;
           (dev3, prev_speed0) \<leftarrow> link_task d t (next_task dev) (put_task t task2 dev);
           (dev4, prev_speed1) \<leftarrow> fill_acc d t t_buf prev_speed0 dev3;
           (dev5, _) \<leftarrow> fill_dec d t t_buf prev_speed1 dev4;
           Some (run_steps (tasks dev5 t), put_task t ((tasks dev5 t)\<lparr>state := STEPPER_IDLE\<rparr>) dev5)
         })"

definition stepper_run :: "stepper_t \<Rightarrow> stepper_t option" where
  "stepper_run dev =
     (case next_task dev of
        None \<Rightarrow> None
      | Some t \<Rightarrow>
          if state (tasks dev t) \<noteq> STEPPER_IDLE then Some dev
          else (let dev1 = (if has_set_dir dev then call_out (Set_dir (dir (tasks dev t))) dev else dev)
                in Some (put_task t ((tasks dev1 t)\<lparr>state := STEPPER_ACCL\<rparr>) dev1)))"

definition stepper_status :: "stepper_t \<Rightarrow> state_t option" where
  "stepper_status dev = map_option (\<lambda>t. state (tasks dev t)) (next_task dev)"

definition stepper_use_stop :: "stepper_t \<Rightarrow> bool \<Rightarrow> stepper_t" where
  "stepper_use_stop dev with_stop = dev\<lparr>has_stop := with_stop\<rparr>"

definition stepper_clean_tasks :: "stepper_t \<Rightarrow> stepper_t" where
  "stepper_clean_tasks dev = dev\<lparr>next_task := None\<rparr>"

text \<open>The switch of the step interrupt: the new state and whether the code goes on to the
  duty update (\<open>break\<close>) or returns.\<close>

definition isr1_switch :: "nat \<Rightarrow> stepper_t \<Rightarrow> (bool \<times> stepper_t) option" where
  "isr1_switch t dev =
     (let task = tasks dev t
      in case state task of
           STEPPER_ACCL \<Rightarrow> do {
             let task1 = task\<lparr>acc_steps := acc_steps task - 1\<rparr>;
             dev1 \<leftarrow> (case buf task of
                 None \<Rightarrow> Some dev
               | Some b \<Rightarrow>
                   if unat (acc_pos dev) < length (acc_buf (bufs dev b))
                   then Some (dev\<lparr>cur_duty := acc_buf (bufs dev b) ! unat (acc_pos dev), acc_pos := acc_pos dev + 1\<rparr>)
                   else None);
             Some (True, put_task t (if acc_steps task1 = 0 then task1\<lparr>state := state_inc (state task1)\<rparr> else task1) dev1)
           }
         | STEPPER_RUNN \<Rightarrow>
             (let task1 = task\<lparr>run_steps := run_steps task - 1\<rparr>
              in Some (False, put_task t (if run_steps task1 = 0 then task1\<lparr>state := state_inc (state task1)\<rparr> else task1) dev))
         | STEPPER_DECL \<Rightarrow> do {
             let task1 = task\<lparr>dec_steps := dec_steps task - 1\<rparr>;
             dev1 \<leftarrow> (case buf task of
                 None \<Rightarrow> Some dev
               | Some b \<Rightarrow>
                   if unat (dec_pos dev) < length (dec_buf (bufs dev b))
                   then Some (dev\<lparr>cur_duty := dec_buf (bufs dev b) ! unat (dec_pos dev), dec_pos := dec_pos dev + 1\<rparr>)
                   else None);
             let dev2 = put_task t task1 dev1;
             if dec_steps task1 = 0
             then (case next_ptr task1 of
                     Some n \<Rightarrow> map_option (Pair True) (stepper_run (dev2\<lparr>next_task := Some n\<rparr>))
                   | None \<Rightarrow> Some (True, put_task t (task1\<lparr>state := state_inc (state task1)\<rparr>) dev2))
             else Some (True, dev2)
           }
         | _ \<Rightarrow> Some (False, dev))"

definition stepper_isr1 :: "stepper_t \<Rightarrow> stepper_t option" where
  "stepper_isr1 dev =
     (case next_task dev of
        None \<Rightarrow> Some dev
      | Some t \<Rightarrow>
          if state_num STEPPER_DECL < state_num (state (tasks dev t)) then Some dev
          else (let level = (if prev_state dev = 0 then 1 else 0);
                    dev1 = call_out (Set_step level) (dev\<lparr>prev_state := level\<rparr>)
                in if level = 0 then Some dev1
                   else (case isr1_switch t dev1 of
                           None \<Rightarrow> None
                         | Some (False, dev2) \<Rightarrow> Some dev2
                         | Some (True, dev2) \<Rightarrow>
                             if cur_duty dev2 = pre_duty dev2 then Some dev2
                             else Some ((call_out (Set_duty (cur_duty dev2)) dev2)\<lparr>pre_duty := cur_duty dev2\<rparr>))))"

text \<open>The timer interrupt; \<open>answer\<close> is what the \<open>stop\<close> callback returns.\<close>

definition stepper_isr2 :: "u16 \<Rightarrow> stepper_t \<Rightarrow> stepper_t" where
  "stepper_isr2 answer dev =
     (case next_task dev of
        None \<Rightarrow> dev
      | Some t \<Rightarrow>
          (let task = tasks dev t;
               dev1 = (case state task of
                   STEPPER_ACCL \<Rightarrow> dev\<lparr>cur_speed := cur_speed dev + acc task\<rparr>
                 | STEPPER_DECL \<Rightarrow> dev\<lparr>cur_speed := cur_speed dev - dec task\<rparr>
                 | _ \<Rightarrow> dev);
               dev2 = (if has_stop dev1 \<and> answer \<noteq> 0
                       then put_task t ((tasks dev1 t)\<lparr>state := STEPPER_STOP\<rparr>) dev1 else dev1)
           in if buf (tasks dev2 t) \<noteq> None then dev2
              else dev2\<lparr>cur_duty := of_nat (unat (tim_duty dev2) div (1 + unat (cur_speed dev2)))\<rparr>))"

text \<open>A sequence of interrupts, in any order.\<close>

datatype interrupt = Isr1 | Isr2 u16

fun interrupts :: "interrupt list \<Rightarrow> stepper_t \<Rightarrow> stepper_t option" where
  "interrupts [] dev = Some dev"
| "interrupts (Isr1 # is) dev = (case stepper_isr1 dev of None \<Rightarrow> None | Some dev' \<Rightarrow> interrupts is dev')"
| "interrupts (Isr2 a # is) dev = interrupts is (stepper_isr2 a dev)"

section \<open>Counting the steps of the motor\<close>

definition pulses :: "call list \<Rightarrow> nat" where
  "pulses cs = length (filter (\<lambda>c. case c of Set_step l \<Rightarrow> l \<noteq> 0 | _ \<Rightarrow> False) cs)"

lemma pulses_simps [simp]:
  "pulses [] = 0" "pulses (xs @ ys) = pulses xs + pulses ys"
  "pulses [Set_step l] = (if l = 0 then 0 else 1)" "pulses [Set_duty l] = 0" "pulses [Set_dir l] = 0"
  by (simp_all add: pulses_def)

text \<open>The steps a task still has to do.\<close>

definition task_left :: "stepper_task_t \<Rightarrow> nat" where
  "task_left task =
     (case state task of
        STEPPER_ACCL \<Rightarrow> unat (acc_steps task) + unat (run_steps task) + unat (dec_steps task)
      | STEPPER_RUNN \<Rightarrow> unat (run_steps task) + unat (dec_steps task)
      | STEPPER_DECL \<Rightarrow> unat (dec_steps task)
      | _ \<Rightarrow> 0)"

definition task_total :: "stepper_task_t \<Rightarrow> nat" where
  "task_total task = unat (acc_steps task) + unat (run_steps task) + unat (dec_steps task)"

definition fresh :: "stepper_task_t \<Rightarrow> bool" where
  "fresh task \<longleftrightarrow> state task = STEPPER_IDLE \<and> buf task = None \<and>
     acc_steps task \<noteq> 0 \<and> run_steps task \<noteq> 0 \<and> dec_steps task \<noteq> 0"

definition moving :: "stepper_task_t \<Rightarrow> bool" where
  "moving task \<longleftrightarrow> buf task = None \<and>
     (state task = STEPPER_ACCL \<and> acc_steps task \<noteq> 0 \<and> run_steps task \<noteq> 0 \<and> dec_steps task \<noteq> 0 \<or>
      state task = STEPPER_RUNN \<and> run_steps task \<noteq> 0 \<and> dec_steps task \<noteq> 0 \<or>
      state task = STEPPER_DECL \<and> dec_steps task \<noteq> 0)"

text \<open>The queue of tasks, linked through \<open>next\<close>.\<close>

fun linked :: "(nat \<Rightarrow> stepper_task_t) \<Rightarrow> nat list \<Rightarrow> bool" where
  "linked ts [] = True"
| "linked ts [t] = (next_ptr (ts t) = None)"
| "linked ts (t # u # us) = (next_ptr (ts t) = Some u \<and> linked ts (u # us))"

definition queue_left :: "stepper_t \<Rightarrow> nat list \<Rightarrow> nat" where
  "queue_left dev q = (case q of [] \<Rightarrow> 0 | t # ts \<Rightarrow> task_left (tasks dev t) + (\<Sum>u \<leftarrow> ts. task_total (tasks dev u)))"

definition queue_ok :: "stepper_t \<Rightarrow> nat list \<Rightarrow> bool" where
  "queue_ok dev q \<longleftrightarrow> distinct q \<and> linked (tasks dev) q \<and>
     (case q of [] \<Rightarrow> False
      | t # ts \<Rightarrow> next_task dev = Some t \<and>
          (moving (tasks dev t) \<or> state (tasks dev t) = STEPPER_IDLE \<and> ts = []) \<and>
          list_all (\<lambda>u. fresh (tasks dev u)) ts)"

lemma linked_cong:
  "(\<And>x. x \<in> set q \<Longrightarrow> next_ptr (ts' x) = next_ptr (ts x)) \<Longrightarrow> linked ts' q = linked ts q"
  by (induction ts q rule: linked.induct) auto

lemma queue_cong:
  assumes "next_task dev' = next_task dev" "\<And>x. x \<in> set q \<Longrightarrow> tasks dev' x = tasks dev x"
  shows "queue_ok dev' q = queue_ok dev q" "queue_left dev' q = queue_left dev q"
proof -
  have "linked (tasks dev') q = linked (tasks dev) q" using assms(2) by (intro linked_cong) simp
  moreover have "list_all (\<lambda>u. fresh (tasks dev' u)) ts = list_all (\<lambda>u. fresh (tasks dev u)) ts" if "q = t # ts" for t ts
    using that assms(2) by (auto simp: list_all_iff)
  ultimately show "queue_ok dev' q = queue_ok dev q"
    using assms by (auto simp: queue_ok_def split: list.splits)
  show "queue_left dev' q = queue_left dev q"
    using assms(2) by (auto simp: queue_left_def split: list.splits intro!: arg_cong [where f = sum_list])
qed

text \<open>What the step interrupt does to the part of the state the motion depends on.\<close>

definition duty_update :: "stepper_t \<Rightarrow> stepper_t" where
  "duty_update dev = (if cur_duty dev = pre_duty dev then dev
     else (call_out (Set_duty (cur_duty dev)) dev)\<lparr>pre_duty := cur_duty dev\<rparr>)"

lemma duty_update_simps [simp]:
  "tasks (duty_update dev) = tasks dev" "next_task (duty_update dev) = next_task dev"
  "prev_state (duty_update dev) = prev_state dev" "pulses (calls (duty_update dev)) = pulses (calls dev)"
  by (simp_all add: duty_update_def)

lemma stepper_isr1_high:
  assumes "next_task dev = Some t" "moving (tasks dev t)" "prev_state dev = 0"
  shows "stepper_isr1 dev =
    map_option (\<lambda>(b, dev2). if b then duty_update dev2 else dev2)
      (isr1_switch t (call_out (Set_step 1) (dev\<lparr>prev_state := 1\<rparr>)))"
  using assms
  by (auto simp: stepper_isr1_def moving_def duty_update_def Let_def split: option.splits bool.splits prod.splits)

lemma unat_pred: "x \<noteq> 0 \<Longrightarrow> unat (x - 1) = unat x - 1 \<and> 0 < unat x" for x :: u16
  by (metis unat_minus_one unat_gt_0)

lemma pred_zero: "x - 1 = 0 \<longleftrightarrow> unat x = 1" for x :: u16
  unfolding right_minus_eq by (simp add: word_unat_eq_iff)

text \<open>The contract of the rising edge: one more pulse, one step less to do.\<close>

definition edge_done :: "stepper_t \<Rightarrow> nat list \<Rightarrow> stepper_t \<Rightarrow> nat list \<Rightarrow> bool" where
  "edge_done dev q dev' q' \<longleftrightarrow> queue_ok dev' q' \<and> Suc (queue_left dev' q') = queue_left dev q \<and>
     prev_state dev' = prev_state dev \<and> pulses (calls dev') = pulses (calls dev) \<and> has_stop dev' = has_stop dev"

lemma edge_put:
  assumes ok: "queue_ok dev (t # ts)" and m: "moving (tasks dev t)"
    and n: "next_ptr task = next_ptr (tasks dev t)" "Suc (task_left task) = task_left (tasks dev t)"
      "moving task \<or> state task = STEPPER_IDLE \<and> ts = []"
  shows "edge_done dev (t # ts) (put_task t task dev) (t # ts)"
proof -
  let ?d = "put_task t task dev"
  have d: "distinct (t # ts)" "t \<notin> set ts" using ok by (auto simp: queue_ok_def)
  have "linked (tasks ?d) (t # ts)"
    using ok linked_cong [of "t # ts" "tasks ?d" "tasks dev"] n(1) by (simp add: queue_ok_def)
  moreover have "list_all (\<lambda>u. fresh (tasks ?d u)) ts"
    using ok d(2) by (auto simp: queue_ok_def list_all_iff)
  ultimately have "queue_ok ?d (t # ts)" using ok n(3) by (auto simp: queue_ok_def)
  moreover have "(\<Sum>u \<leftarrow> ts. task_total (tasks ?d u)) = (\<Sum>u \<leftarrow> ts. task_total (tasks dev u))"
    using d(2) by (intro arg_cong [where f = sum_list]) auto
  then have "Suc (queue_left ?d (t # ts)) = queue_left dev (t # ts)"
    using n(2) by (simp add: queue_left_def)
  ultimately show ?thesis by (simp add: edge_done_def)
qed

lemma edge_next:
  assumes ok: "queue_ok dev (t # u # us)" and d: "state (tasks dev t) = STEPPER_DECL" "unat (dec_steps (tasks dev t)) = 1"
  shows "\<exists>dev'. stepper_run ((put_task t task dev)\<lparr>next_task := Some u\<rparr>) = Some dev' \<and>
    edge_done dev (t # u # us) dev' (u # us)"
proof -
  let ?r = "(tasks dev u)\<lparr>state := STEPPER_ACCL\<rparr>"
  let ?d0 = "(put_task t task dev)\<lparr>next_task := Some u\<rparr>"
  let ?d1 = "if has_set_dir dev then call_out (Set_dir (dir (tasks dev u))) ?d0 else ?d0"
  have tu: "t \<noteq> u" "t \<notin> set us" "u \<notin> set us" "distinct us" and f: "fresh (tasks dev u)"
    and fs: "list_all (\<lambda>x. fresh (tasks dev x)) us" and l: "linked (tasks dev) (u # us)"
    using ok by (auto simp: queue_ok_def)
  have run: "stepper_run ?d0 = Some (put_task u ?r ?d1)"
    using tu f by (simp add: stepper_run_def fresh_def Let_def)
  have same: "tasks (put_task u ?r ?d1) x = tasks dev x" if "x \<in> set us" for x
    using that tu by auto
  have "linked (tasks (put_task u ?r ?d1)) (u # us) = linked (tasks dev) (u # us)"
    using tu by (intro linked_cong) auto
  moreover have "list_all (\<lambda>x. fresh (tasks (put_task u ?r ?d1) x)) us"
    using fs same by (auto simp: list_all_iff)
  ultimately have "queue_ok (put_task u ?r ?d1) (u # us)"
    using l tu f by (auto simp: queue_ok_def moving_def fresh_def)
  moreover have "(\<Sum>x \<leftarrow> us. task_total (tasks (put_task u ?r ?d1) x)) = (\<Sum>x \<leftarrow> us. task_total (tasks dev x))"
    using same by (intro arg_cong [where f = sum_list]) simp
  then have "Suc (queue_left (put_task u ?r ?d1) (u # us)) = queue_left dev (t # u # us)"
    using d by (simp add: queue_left_def task_left_def task_total_def)
  ultimately show ?thesis using run by (auto simp: edge_done_def)
qed

lemma isr1_switch_edge:
  assumes ok: "queue_ok dev (t # ts)" and m: "moving (tasks dev t)"
  shows "\<exists>b dev' q'. isr1_switch t dev = Some (b, dev') \<and> edge_done dev (t # ts) dev' q'"
proof -
  note put = edge_put [OF ok m]
  let ?k = "tasks dev t"
  have b: "buf ?k = None" using m by (simp add: moving_def)
  consider (A) "state ?k = STEPPER_ACCL" "acc_steps ?k \<noteq> 0" "run_steps ?k \<noteq> 0" "dec_steps ?k \<noteq> 0"
    | (R) "state ?k = STEPPER_RUNN" "run_steps ?k \<noteq> 0" "dec_steps ?k \<noteq> 0"
    | (D) "state ?k = STEPPER_DECL" "dec_steps ?k \<noteq> 0"
    using m by (auto simp: moving_def)
  then show ?thesis
  proof cases
    case A
    let ?t1 = "?k\<lparr>acc_steps := acc_steps ?k - 1\<rparr>"
    let ?t2 = "if acc_steps ?t1 = 0 then ?t1\<lparr>state := state_inc (state ?t1)\<rparr> else ?t1"
    have "isr1_switch t dev = Some (True, put_task t ?t2 dev)" by (simp add: isr1_switch_def A(1) b Let_def)
    moreover have "edge_done dev (t # ts) (put_task t ?t2 dev) (t # ts)"
      by (rule put) (use A b unat_pred [of "acc_steps ?k"] pred_zero [of "acc_steps ?k"] in
          \<open>auto simp: task_left_def moving_def\<close>)
    ultimately show ?thesis by blast
  next
    case R
    let ?t1 = "?k\<lparr>run_steps := run_steps ?k - 1\<rparr>"
    let ?t2 = "if run_steps ?t1 = 0 then ?t1\<lparr>state := state_inc (state ?t1)\<rparr> else ?t1"
    have "isr1_switch t dev = Some (False, put_task t ?t2 dev)" by (simp add: isr1_switch_def R(1) b Let_def)
    moreover have "edge_done dev (t # ts) (put_task t ?t2 dev) (t # ts)"
      by (rule put) (use R b unat_pred [of "run_steps ?k"] pred_zero [of "run_steps ?k"] in
          \<open>auto simp: task_left_def moving_def\<close>)
    ultimately show ?thesis by blast
  next
    case D
    let ?t1 = "?k\<lparr>dec_steps := dec_steps ?k - 1\<rparr>"
    show ?thesis
    proof (cases "dec_steps ?t1 = 0")
      case False
      then have "isr1_switch t dev = Some (True, put_task t ?t1 dev)" by (simp add: isr1_switch_def D(1) b Let_def)
      moreover have "edge_done dev (t # ts) (put_task t ?t1 dev) (t # ts)"
        by (rule put) (use D b False unat_pred [of "dec_steps ?k"] in \<open>auto simp: task_left_def moving_def\<close>)
      ultimately show ?thesis by blast
    next
      case last: True
      then have one: "unat (dec_steps ?k) = 1" by (simp add: pred_zero)
      show ?thesis
      proof (cases ts)
        case Nil
        let ?t2 = "?t1\<lparr>state := state_inc (state ?t1)\<rparr>"
        have "next_ptr ?k = None" using ok Nil by (simp add: queue_ok_def)
        then have "isr1_switch t dev = Some (True, put_task t ?t2 dev)" using last by (simp add: isr1_switch_def D(1) b Let_def)
        moreover have "edge_done dev (t # ts) (put_task t ?t2 dev) (t # ts)"
          by (rule put) (use D b one Nil in \<open>auto simp: task_left_def\<close>)
        ultimately show ?thesis by blast
      next
        case (Cons u us)
        have nx: "next_ptr ?k = Some u" using ok Cons by (simp add: queue_ok_def)
        obtain dev' where "stepper_run ((put_task t ?t1 dev)\<lparr>next_task := Some u\<rparr>) = Some dev'"
          "edge_done dev (t # ts) dev' (u # us)"
          using edge_next [OF ok [unfolded Cons] D(1) one] Cons by blast
        then show ?thesis using last nx by (auto simp: isr1_switch_def D(1) b Let_def)
      qed
    qed
  qed
qed

section \<open>The motion seen from outside\<close>

text \<open>
  The contract of the interrupts: how many steps are left, whether the step pin is
  high and how many pulses were sent.  Each step interrupt toggles the pin while
  there are steps left; a rising edge is a pulse.
\<close>

type_synonym motion = "nat \<times> bool \<times> nat"

fun motion_isr1 :: "motion \<Rightarrow> motion" where
  "motion_isr1 (left, high, n) =
     (if left = 0 then (left, high, n) else if high then (left, False, n) else (left - 1, True, n + 1))"

definition motion_of :: "stepper_t \<Rightarrow> nat list \<Rightarrow> motion" where
  "motion_of dev q = (queue_left dev q, prev_state dev \<noteq> 0, pulses (calls dev))"

lemma moving_left: "moving task \<Longrightarrow> 0 < task_left task"
  by (auto simp: moving_def task_left_def unat_gt_0)

lemma isr1_refines:
  assumes ok: "queue_ok dev q"
  shows "\<exists>dev' q'. stepper_isr1 dev = Some dev' \<and> queue_ok dev' q' \<and> has_stop dev' = has_stop dev \<and>
    motion_of dev' q' = motion_isr1 (motion_of dev q)"
proof -
  obtain t ts where q: "q = t # ts" and nt: "next_task dev = Some t"
    using ok by (auto simp: queue_ok_def split: list.splits)
  show ?thesis
  proof (cases "moving (tasks dev t)")
    case False
    then have "state (tasks dev t) = STEPPER_IDLE" "ts = []" using ok q by (auto simp: queue_ok_def)
    then have "stepper_isr1 dev = Some dev" "queue_left dev q = 0"
      using nt q by (simp_all add: stepper_isr1_def queue_left_def task_left_def)
    then show ?thesis using ok by (auto simp: motion_of_def)
  next
    case True
    then have left: "0 < queue_left dev q" using moving_left q by (simp add: queue_left_def)
    have st: "\<not> state_num STEPPER_DECL < state_num (state (tasks dev t))" using True by (auto simp: moving_def)
    show ?thesis
    proof (cases "prev_state dev = 0")
      case False
      let ?d = "call_out (Set_step 0) (dev\<lparr>prev_state := 0\<rparr>)"
      have "stepper_isr1 dev = Some ?d" using nt st False by (simp add: stepper_isr1_def Let_def)
      moreover have "queue_ok ?d q" "queue_left ?d q = queue_left dev q"
        using ok queue_cong [of ?d dev q] by simp_all
      ultimately show ?thesis using left False by (auto simp: motion_of_def)
    next
      case low: True
      let ?d = "call_out (Set_step 1) (dev\<lparr>prev_state := 1\<rparr>)"
      have "queue_ok ?d q" and l: "queue_left ?d q = queue_left dev q"
        using ok queue_cong [of ?d dev q] by simp_all
      then obtain b d2 q' where e: "isr1_switch t ?d = Some (b, d2)" "edge_done ?d q d2 q'"
        using isr1_switch_edge [of ?d t ts] True q by auto
      define d3 where "d3 = (if b then duty_update d2 else d2)"
      have "stepper_isr1 dev = Some d3" using stepper_isr1_high [OF nt True low] e(1) by (simp add: d3_def)
      moreover have "queue_ok d3 q'" "queue_left d3 q' = queue_left d2 q'"
        using e(2) queue_cong [of d3 d2 q'] by (auto simp: d3_def edge_done_def)
      moreover have "has_stop d3 = has_stop d2" by (simp add: d3_def duty_update_def)
      ultimately show ?thesis
        using e(2) l left low by (auto simp: motion_of_def edge_done_def d3_def)
    qed
  qed
qed

lemma isr2_refines:
  assumes ok: "queue_ok dev q" and s: "\<not> has_stop dev \<or> a = 0"
  shows "queue_ok (stepper_isr2 a dev) q \<and> has_stop (stepper_isr2 a dev) = has_stop dev \<and>
    motion_of (stepper_isr2 a dev) q = motion_of dev q"
proof -
  obtain t where nt: "next_task dev = Some t" using ok by (auto simp: queue_ok_def split: list.splits)
  have "tasks (stepper_isr2 a dev) = tasks dev \<and> next_task (stepper_isr2 a dev) = next_task dev \<and>
      has_stop (stepper_isr2 a dev) = has_stop dev \<and> prev_state (stepper_isr2 a dev) = prev_state dev \<and>
      calls (stepper_isr2 a dev) = calls dev"
    using s nt by (cases "state (tasks dev t)") (auto simp: stepper_isr2_def Let_def)
  then show ?thesis using ok queue_cong [of "stepper_isr2 a dev" dev q] by (simp add: motion_of_def)
qed

fun isr1_count :: "interrupt list \<Rightarrow> nat" where
  "isr1_count [] = 0"
| "isr1_count (Isr1 # is) = Suc (isr1_count is)"
| "isr1_count (Isr2 a # is) = isr1_count is"

lemma interrupts_refine:
  assumes "queue_ok dev q" "\<not> has_stop dev \<or> list_all (\<lambda>i. i = Isr1 \<or> i = Isr2 0) is"
  shows "\<exists>dev' q'. interrupts is dev = Some dev' \<and> queue_ok dev' q' \<and>
    motion_of dev' q' = (motion_isr1 ^^ isr1_count is) (motion_of dev q)"
  using assms
proof (induction "is" arbitrary: dev q)
  case (Cons i "is")
  show ?case
  proof (cases i)
    case Isr1
    obtain d1 q1 where 1: "stepper_isr1 dev = Some d1" "queue_ok d1 q1" "has_stop d1 = has_stop dev"
      "motion_of d1 q1 = motion_isr1 (motion_of dev q)" using isr1_refines [OF Cons.prems(1)] by blast
    show ?thesis using Cons.IH [OF 1(2)] 1 Cons.prems(2) Isr1
      by (simp add: funpow_swap1)
  next
    case (Isr2 a)
    have "\<not> has_stop dev \<or> a = 0" using Cons.prems(2) Isr2 by auto
    note 2 = isr2_refines [OF Cons.prems(1) this]
    then show ?thesis using Cons.IH [of "stepper_isr2 a dev" q] Cons.prems(2) Isr2 by auto
  qed
qed auto

lemma motion_isr1_pow:
  "\<exists>high. (motion_isr1 ^^ n) (left, False, c) = (left - min ((n + 1) div 2) left, high, c + min ((n + 1) div 2) left) \<and>
     (n div 2 < left \<longrightarrow> high = odd n)"
proof (induction n)
  case (Suc n)
  then obtain high where h: "(motion_isr1 ^^ n) (left, False, c) =
      (left - min ((n + 1) div 2) left, high, c + min ((n + 1) div 2) left)" "n div 2 < left \<Longrightarrow> high = odd n" by blast
  show ?case
  proof (cases "(n + 1) div 2 < left")
    case True
    then have "high = odd n" using h(2) by linarith
    then show ?thesis using h(1) True by (cases "even n") (auto elim!: evenE oddE)
  next
    case False
    then show ?thesis using h by (auto simp: min_def)
  qed
qed auto

text \<open> C1: A queue of tasks that have steps in all three phases and no ramp buffer, and that were not started yet, is executed
  to the step: after \<open>stepper_run\<close>, under every
  interleaving of the step interrupt and the timer interrupt in which no stop is requested, the
  motor has received exactly one pulse per two step interrupts until the commanded
  steps of all tasks of the queue are done, and none after that.  What the conditions exclude is shown by
  \<open>zero_ramp_wraps\<close> and \<open>ramp_position_kept\<close>.\<close>

theorem stepper_pulse_count:
  assumes "next_task dev = Some t" "linked (tasks dev) (t # ts)" "distinct (t # ts)"
    and "list_all (\<lambda>u. fresh (tasks dev u)) (t # ts)"
    and "prev_state dev = 0" "calls dev = []"
    and "\<not> has_stop dev \<or> list_all (\<lambda>i. i = Isr1 \<or> i = Isr2 0) is"
  shows "\<exists>dev1 dev2. stepper_run dev = Some dev1 \<and> interrupts is dev1 = Some dev2 \<and>
    pulses (calls dev2) = min ((isr1_count is + 1) div 2) (\<Sum>u \<leftarrow> t # ts. task_total (tasks dev u))"
proof -
  let ?r = "(tasks dev t)\<lparr>state := STEPPER_ACCL\<rparr>"
  let ?d = "put_task t ?r (if has_set_dir dev then call_out (Set_dir (dir (tasks dev t))) dev else dev)"
  have run: "stepper_run dev = Some ?d" using assms(1,4) by (simp add: stepper_run_def fresh_def Let_def)
  have "linked (tasks ?d) (t # ts)" using assms(2) by (subst linked_cong) auto
  moreover have "list_all (\<lambda>u. fresh (tasks ?d u)) ts" using assms(3,4) by (auto simp: list_all_iff)
  ultimately have ok: "queue_ok ?d (t # ts)" using assms(1,3,4) by (auto simp: queue_ok_def moving_def fresh_def)
  have "(\<Sum>u \<leftarrow> ts. task_total (tasks ?d u)) = (\<Sum>u \<leftarrow> ts. task_total (tasks dev u))"
    using assms(3) by (intro arg_cong [where f = sum_list]) auto
  then have m: "motion_of ?d (t # ts) = (\<Sum>u \<leftarrow> t # ts. task_total (tasks dev u), False, 0)"
    using assms(5,6) by (simp add: motion_of_def queue_left_def task_left_def task_total_def)
  have hs: "\<not> has_stop ?d \<or> list_all (\<lambda>i. i = Isr1 \<or> i = Isr2 0) is" using assms(7) by simp
  obtain d2 q2 where 2: "interrupts is ?d = Some d2"
    "motion_of d2 q2 = (motion_isr1 ^^ isr1_count is) (motion_of ?d (t # ts))"
    using interrupts_refine [OF ok hs] by blast
  then have "pulses (calls d2) = min ((isr1_count is + 1) div 2) (\<Sum>u \<leftarrow> t # ts. task_total (tasks dev u))"
    using motion_isr1_pow [of "isr1_count is" "\<Sum>u \<leftarrow> t # ts. task_total (tasks dev u)" 0] m
    by (auto simp: motion_of_def)
  then show ?thesis using run 2(1) by blast
qed

text \<open> A stop is final: once the stop callback has answered non-zero in a timer
  interrupt, no further interrupt of either kind calls any output function.\<close>

theorem stepper_stop_final:
  assumes "next_task dev = Some t" "has_stop dev" "a \<noteq> 0"
  shows "\<exists>dev'. interrupts is (stepper_isr2 a dev) = Some dev' \<and> calls dev' = calls dev"
proof -
  have "\<exists>dev'. interrupts is d = Some dev' \<and> calls dev' = calls d"
    if "next_task d = Some t" "state (tasks d t) = STEPPER_STOP" for d
    using that
  proof (induction "is" arbitrary: d)
    case (Cons i "is")
    show ?case
    proof (cases i)
      case Isr1
      have "stepper_isr1 d = Some d" using Cons.prems by (simp add: stepper_isr1_def)
      then show ?thesis using Cons Isr1 by simp
    next
      case (Isr2 b)
      have "next_task (stepper_isr2 b d) = Some t" "state (tasks (stepper_isr2 b d) t) = STEPPER_STOP"
        "calls (stepper_isr2 b d) = calls d"
        using Cons.prems by (simp_all add: stepper_isr2_def Let_def)
      then show ?thesis using Cons.IH [of "stepper_isr2 b d"] Isr2 by simp
    qed
  qed simp
  moreover have "next_task (stepper_isr2 a dev) = Some t" "state (tasks (stepper_isr2 a dev) t) = STEPPER_STOP"
    "calls (stepper_isr2 a dev) = calls dev"
    using assms by (cases "state (tasks dev t)"; simp add: stepper_isr2_def Let_def)+
  ultimately show ?thesis by metis
qed

lemma unat_sub2:
  fixes a k steps :: u16
  assumes "unat a + unat k < unat steps"
  shows "unat (steps - a - k) = unat steps - unat a - unat k"
proof -
  have a: "a \<le> steps" using assms by (simp add: word_le_nat_alt)
  then have "unat (steps - a) = unat steps - unat a" by (rule unat_sub)
  moreover have "k \<le> steps - a" using assms a by (simp add: word_le_nat_alt unat_sub)
  ultimately show ?thesis by (simp add: unat_sub)
qed

lemma last_task_linked: "linked ts q \<Longrightarrow> q \<noteq> [] \<Longrightarrow> last_task ts (hd q) = Some (last q)"
  by (induction ts q rule: linked.induct) (simp_all add: last_task.simps [of _ "_ :: nat"])

lemma linked_snoc:
  "linked ts q \<Longrightarrow> t \<notin> set q \<Longrightarrow> distinct q \<Longrightarrow> next_ptr (ts t) = None \<Longrightarrow> q \<noteq> [] \<Longrightarrow>
   linked (ts(last q := (ts (last q))\<lparr>next_ptr := Some t\<rparr>)) (q @ [t])"
proof (induction ts q rule: linked.induct)
  case (3 ts x u us)
  then show ?case by (cases us) auto
qed auto

text \<open>The tasks waiting in the list of the device.\<close>

definition queued :: "stepper_t \<Rightarrow> nat list \<Rightarrow> bool" where
  "queued dev q \<longleftrightarrow> linked (tasks dev) q \<and> next_task dev = (if q = [] then None else Some (hd q))"

text \<open> A task without ramp buffers that is long enough for its ramps is appended to
  the list, ready to run; its three phases add up to the number of steps asked for and
  the tasks before it keep theirs.  A shorter one is refused with 0 and not
  queued.\<close>

theorem stepper_add_task_enqueues:
  assumes q: "queued dev q" "distinct q" "t \<notin> set q" "next_ptr (tasks dev t) = None"
    and ramps_def: "ramps = unat (half_square d v a) + unat (half_square d v k)"
  shows "\<exists>r dev'. stepper_add_task d dev t steps v a k t_dir None = Some (r, dev') \<and>
    (\<forall>u \<in> set q. task_total (tasks dev' u) = task_total (tasks dev u)) \<and>
    (if unat steps \<le> ramps then r = 0 \<and> queued dev' q
     else unat r = unat steps - ramps \<and> queued dev' (q @ [t]) \<and>
       task_total (tasks dev' t) = unat steps \<and> state (tasks dev' t) = STEPPER_IDLE)"
proof (cases "unat steps \<le> ramps")
  case True
  have "linked ((tasks dev)(t := x)) q = linked (tasks dev) q" for x using q(3) by (intro linked_cong) auto
  then show ?thesis
    using True q by (auto simp: stepper_add_task_def Let_def ramps_def queued_def)
next
  case False
  then have u: "unat (steps - half_square d v a - half_square d v k) = unat steps - ramps"
    by (simp add: unat_sub2 ramps_def)
  define task where "task = (tasks dev t)\<lparr>acc_steps := half_square d v a,
      acc := d_to d (d_div d (d_of d v) (d_of d (half_square d v a))), dec_steps := half_square d v k,
      dec := d_to d (d_div d (d_of d v) (d_of d (half_square d v k))), speed := v,
      run_steps := steps - half_square d v a - half_square d v k, dir := t_dir, buf := None\<rparr>"
  define d2 where "d2 = put_task t task dev"
  have t: "next_ptr task = None" "run_steps task = steps - half_square d v a - half_square d v k"
    "task_total task = unat steps" using q(4) u False by (simp_all add: task_def task_total_def ramps_def)
  have l2: "linked (tasks d2) q = linked (tasks dev) q" unfolding d2_def using q(3) by (intro linked_cong) auto
  obtain d3 v3 where d3: "link_task d t (next_task dev) d2 = Some (d3, v3)"
    "tasks d3 = (if q = [] then tasks d2 else (tasks d2)(last q := (tasks d2 (last q))\<lparr>next_ptr := Some t\<rparr>))"
    "next_task d3 = Some (hd (q @ [t]))"
  proof (cases "q = []")
    case True
    then show ?thesis using that q(1) by (auto simp: link_task_def queued_def)
  next
    case False
    then have "last_task (tasks d2) (hd q) = Some (last q)" using l2 q(1) by (simp add: last_task_linked queued_def)
    moreover have "next_task d2 = Some (hd q)" "next_task dev = Some (hd q)" using q(1) False by (simp_all add: d2_def queued_def)
    ultimately show ?thesis using that False by (simp add: link_task_def)
  qed
  have l3: "linked (tasks d3) (q @ [t])"
    using linked_snoc [of "tasks d2" q t] q l2 t(1) d3(2) by (cases "q = []") (auto simp: queued_def d2_def)
  have tt: "tasks d3 t = task" using d3(2) q(3) by (auto simp: d2_def)
  let ?d5 = "put_task t ((tasks d3 t)\<lparr>state := STEPPER_IDLE\<rparr>) d3"
  have "stepper_add_task d dev t steps v a k t_dir None = Some (run_steps (tasks d3 t), ?d5)"
    using False d3(1) by (simp add: stepper_add_task_def Let_def ramps_def fill_acc_def fill_dec_def d2_def task_def)
  moreover have "linked (tasks ?d5) (q @ [t]) = linked (tasks d3) (q @ [t])" by (intro linked_cong) auto
  then have "queued ?d5 (q @ [t])" using l3 d3(3) by (simp add: queued_def)
  moreover have "task_total (tasks ?d5 u) = task_total (tasks dev u)" if "u \<in> set q" for u
    using that q(3) d3(2) by (auto simp: d2_def task_total_def)
  moreover have "task_total (tasks ?d5 t) = unat steps" using t(3) tt by (simp add: task_total_def)
  moreover have "unat (run_steps (tasks d3 t)) = unat steps - ramps" using tt t(2) u by simp
  ultimately show ?thesis
    using False by (intro exI [of _ "run_steps (tasks d3 t)"] exI [of _ ?d5]) simp
qed

section \<open>Tasks without a ramp, and ramps of a second task\<close>

text \<open>A phase of no steps is counted down from 65536: the counter goes from 0 to its largest value.\<close>

lemma zero_ramp_wraps:
  assumes "state (tasks dev t) = STEPPER_ACCL" "acc_steps (tasks dev t) = 0" "buf (tasks dev t) = None"
  shows "isr1_switch t dev = Some (True, put_task t ((tasks dev t)\<lparr>acc_steps := - 1\<rparr>) dev)"
  using assms by (simp add: isr1_switch_def Let_def)

text \<open>The positions in the ramp buffers are set when a task is added, not when it starts: the second task of a queue
  goes on in its buffer where the first one stopped in its own.\<close>

lemma ramp_position_kept:
  assumes "isr1_switch t dev = Some (True, dev')" "next_task dev = Some t" "next_task dev' \<noteq> Some t"
  shows "acc_pos dev' = acc_pos dev"
  using assms by (auto simp: isr1_switch_def stepper_run_def Let_def split: state_t.splits option.splits if_splits)

section \<open>Witnesses\<close>

definition demo_task :: stepper_task_t where
  "demo_task = \<lparr>speed = 10, run_steps = 5, acc_steps = 2, dec_steps = 3, acc = 5, dec = 3, dir = 1,
     state = STEPPER_IDLE, buf = None, next_ptr = None\<rparr>"

definition demo_dev :: stepper_t where
  "demo_dev = \<lparr>has_set_dir = True, has_stop = True, cur_speed = 0, cur_duty = 0, pre_duty = 0, acc_pos = 0,
     dec_pos = 0, next_task = Some 0, prev_state = 0, tim_freq = 1000, tim_duty = 1000,
     tasks = (\<lambda>_. demo_task)(0 := demo_task\<lparr>next_ptr := Some 1\<rparr>),
     bufs = (\<lambda>_. \<lparr>acc_buf = [], dec_buf = [], acc_buf_size = 0, dec_buf_size = 0\<rparr>), calls = []\<rparr>"

text \<open>Integer arithmetic in place of \<open>double\<close>.\<close>

definition nat_ops :: "nat double_ops" where
  "nat_ops = \<lparr>d_of = unat, d_to = of_nat, d_add = (+), d_sub = (-), d_mul = (*), d_div = (div)\<rparr>"

theorem stepper_pulse_count_witness:
  "\<exists>dev1 dev2. stepper_run demo_dev = Some dev1 \<and> interrupts [Isr1, Isr1, Isr2 0, Isr1] dev1 = Some dev2 \<and>
     pulses (calls dev2) = 2"
proof -
  have "\<exists>dev1 dev2. stepper_run demo_dev = Some dev1 \<and> interrupts [Isr1, Isr1, Isr2 0, Isr1] dev1 = Some dev2 \<and>
     pulses (calls dev2) = min ((isr1_count [Isr1, Isr1, Isr2 0, Isr1] + 1) div 2) (\<Sum>u \<leftarrow> [0, 1]. task_total (tasks demo_dev u))"
    by (rule stepper_pulse_count) (simp_all add: demo_dev_def demo_task_def fresh_def)
  moreover have "min ((isr1_count [Isr1, Isr1, Isr2 0, Isr1] + 1) div 2) (\<Sum>u \<leftarrow> [0, 1]. task_total (tasks demo_dev u)) = 2"
    by (simp add: demo_dev_def demo_task_def task_total_def)
  ultimately show ?thesis by (simp only:)
qed

theorem stepper_stop_final_witness:
  "\<exists>dev'. interrupts [Isr1, Isr2 0, Isr1] (stepper_isr2 1 demo_dev) = Some dev' \<and> calls dev' = []"
  using stepper_stop_final [of demo_dev 0 1 "[Isr1, Isr2 0, Isr1]"] by (simp add: demo_dev_def)

theorem stepper_add_task_enqueues_witness:
  "\<exists>r dev'. stepper_add_task nat_ops demo_dev 2 100 10 5 5 0 None = Some (r, dev') \<and> unat r = 80 \<and> queued dev' [0, 1, 2]"
proof -
  have "queued demo_dev [0, 1]" "next_ptr (tasks demo_dev 2) = None"
    by (simp_all add: queued_def demo_dev_def demo_task_def)
  moreover have "half_square nat_ops 10 5 = 10"
    by (simp add: half_square_def nat_ops_def)
  ultimately show ?thesis
    using stepper_add_task_enqueues [of demo_dev "[0, 1]" 2 20 nat_ops 10 5 5 100 0] by auto
qed

end
