(* ===== verification/C_Memory.thy ===== *)
theory C_Memory
  imports C_Prelude
begin

text \<open>
  Byte buffers of the caller: a buffer is a list of bytes, a load or a store that
  leaves it has no value, and words are laid out in little-endian order.
\<close>

type_synonym mem = "u8 list"

definition load :: "nat \<Rightarrow> nat \<Rightarrow> mem \<Rightarrow> u8 list option" where
  "load p n m = (if p + n \<le> length m then Some (take n (drop p m)) else None)"

definition store :: "nat \<Rightarrow> u8 list \<Rightarrow> mem \<Rightarrow> mem option" where
  "store p bs m = (if p + length bs \<le> length m then Some (take p m @ bs @ drop (p + length bs) m) else None)"

definition load_u32 :: "nat \<Rightarrow> mem \<Rightarrow> u32 option" where
  "load_u32 p m = map_option le_word (load p 4 m)"

definition load_u8 :: "nat \<Rightarrow> mem \<Rightarrow> u8 option" where
  "load_u8 p m = map_option hd (load p 1 m)"

definition load_u16 :: "nat \<Rightarrow> mem \<Rightarrow> u16 option" where
  "load_u16 p m = map_option le_word (load p 2 m)"

text \<open>The string that ends with the first zero; looking for the zero must not leave the buffer.\<close>

definition c_string_at :: "nat \<Rightarrow> mem \<Rightarrow> u8 list option" where
  "c_string_at p m = (let s = takeWhile (\<lambda>c. c \<noteq> 0) (drop p m) in if p + length s < length m then Some s else None)"

section \<open>Access in the middle of a buffer\<close>

lemma load_mid: "length a = p \<Longrightarrow> length b = n \<Longrightarrow> load p n (a @ b @ c) = Some b"
  by (auto simp: load_def)

lemma store_mid: "length a = p \<Longrightarrow> length b = length b' \<Longrightarrow> store p b' (a @ b @ c) = Some (a @ b' @ c)"
  by (auto simp: store_def)

lemma load_u8_mid: "length a = p \<Longrightarrow> load_u8 p (a @ b # c) = Some b"
  using load_mid [of a p "[b]" 1 c] by (simp add: load_u8_def)

lemma load_u16_mid: "length a = p \<Longrightarrow> load_u16 p (a @ le_bytes 2 w @ c) = Some w"
  using load_mid [of a p "le_bytes 2 w" 2 c] by (simp add: load_u16_def le_word_le_bytes_id)

section \<open>Words and their bytes\<close>

lemma unat_offset: "n < 2 ^ 32 \<Longrightarrow> unat (of_nat n :: u32) = n"
  by (simp add: unat_of_nat)

lemma u16_bytes: "ucast (ucast w :: u8) + push_bit 8 (ucast (ucast (drop_bit 8 w) :: u8)) = (w :: u16)"
proof -
  have "le_word (le_bytes 2 w) = w" by (rule le_word_le_bytes_id) simp
  moreover have "le_bytes 2 w = [ucast w, ucast (drop_bit 8 w)]" by (simp add: numeral_2_eq_2)
  moreover have "(ucast a :: u16) + push_bit 8 (ucast b) = ucast a OR push_bit 8 (ucast b)" for a b :: u8
    by (rule disjunctive_add) (auto simp: bit_simps dest: bit_imp_le_length)
  ultimately show ?thesis by simp
qed

lemma u16_bytes_unat: "unat (ucast w :: u8) + 256 * unat (ucast (drop_bit 8 w) :: u8) = unat (w :: u16)"
proof -
  have "unat (ucast w :: u8) = unat w mod 256"
    by (simp add: unsigned_ucast_eq take_bit_eq_mod)
  moreover have "unat (ucast (drop_bit 8 w) :: u8) = unat w div 256"
    unfolding unsigned_ucast_eq unsigned_drop_bit_eq
    using unat_u16_less [of w] by (simp add: take_bit_eq_mod drop_bit_eq_div less_mult_imp_div_less)
  ultimately show ?thesis by (simp add: mult.commute)
qed

end
