(* ===== verification/Simple_Db.thy ===== *)
theory Simple_Db
  imports C_Memory
begin

text \<open>
  The tagged data base of Common/simple_db.c, which lives in a byte buffer of the
  caller: a 32-bit size, a 32-bit checksum, then the entries, each a zero-terminated
  tag, a type, a 16-bit size and the data.

  The buffer is a list of bytes; an access outside it has no value.  Offsets are
  natural numbers: a buffer plus one entry is far below \<open>2 ^ 32\<close> bytes, so the
  32-bit \<open>pointer\<close> of the code does not wrap.  Two things the C language leaves to
  the target are arguments: the size of an enumeration (the type is stored through a
  pointer to \<open>enum db_data_type\<close>), and whether \<open>memcpy\<close> can move a block to a lower,
  overlapping address.
\<close>

section \<open>The model\<close>

record target =
  enum_size :: nat
  memcpy_down :: bool

type_synonym crc_fn = "(u8 list \<Rightarrow> u32) option"

datatype db_error = DB_Success | DB_WrongCRC | DB_TagNotFound | DB_TagExist | DB_NoCRC_Func
  | DB_WrongFormat | DB_Blank

text \<open>\<open>enum db_data_type\<close> by its values; the code copies whatever value it is given.\<close>

definition DB_Text :: u32 where "DB_Text = 0"
definition DB_8b :: u32 where "DB_8b = 1"
definition DB_16b :: u32 where "DB_16b = 2"
definition DB_32b :: u32 where "DB_32b = 4"
definition DB_TypeError :: u32 where "DB_TypeError = 5"

subsection \<open>Memory\<close>

text \<open>\<open>*((enum db_data_type *)db + i)\<close>: the index counts enumerations, not bytes.\<close>

definition load_enum :: "target \<Rightarrow> nat \<Rightarrow> mem \<Rightarrow> u32 option" where
  "load_enum tgt i m = map_option le_word (load (enum_size tgt * i) (enum_size tgt) m)"

definition store_enum :: "target \<Rightarrow> nat \<Rightarrow> u32 \<Rightarrow> mem \<Rightarrow> mem option" where
  "store_enum tgt i v m = store (enum_size tgt * i) (le_bytes (enum_size tgt) v) m"

definition c_str :: "nat \<Rightarrow> mem \<Rightarrow> u8 list option" where
  "c_str p m = (let s = takeWhile (\<lambda>c. c \<noteq> 0) (drop p m) in if p + length s < length m then Some s else None)"

definition memcpy :: "target \<Rightarrow> nat \<Rightarrow> nat \<Rightarrow> nat \<Rightarrow> mem \<Rightarrow> mem option" where
  "memcpy tgt dst src n m =
     (if dst + n \<le> src \<or> src + n \<le> dst \<or> n = 0 \<or> memcpy_down tgt \<and> dst \<le> src
      then do { bs \<leftarrow> load src n m; store dst bs m } else None)"

subsection \<open>Operations\<close>

text \<open>The checksum function is a variable of the module; the operations take its value as an
  argument.\<close>

definition db_init :: "crc_fn \<Rightarrow> crc_fn \<Rightarrow> crc_fn" where
  "db_init crc_func crc = crc"

definition db_get_size :: "mem \<Rightarrow> u32 option" where
  "db_get_size m = map_option (\<lambda>s. if s = 0xFFFFFFFF then 0 else s) (load_u32 0 m)"

definition update_db :: "crc_fn \<Rightarrow> u32 \<Rightarrow> mem \<Rightarrow> mem option" where
  "update_db crc_func sz m = do {
     m1 \<leftarrow> store 0 (le_bytes 4 sz) m;
     case crc_func of
       None \<Rightarrow> Some m1
     | Some crc \<Rightarrow> do {
         bs \<leftarrow> load 8 (unat (sz - 8)) m1;
         store 4 (le_bytes 4 (crc bs)) m1
       }
   }"

text \<open>The loop of \<open>find_data\<close>: the offset of the tag (0 if there is none) and the number
  of tags visited.  Every round that goes on has moved the offset forward.\<close>

function find_loop :: "u8 list \<Rightarrow> mem \<Rightarrow> nat \<Rightarrow> nat \<Rightarrow> u16 \<Rightarrow> (nat \<times> u16) option" where
  "find_loop tag m dbsize pointer found =
     (case c_str pointer m of
        None \<Rightarrow> None
      | Some s \<Rightarrow>
          if tag = s then Some (pointer, found + 1)
          else (let tag_size = length s mod 65536;
                    p1 = pointer + tag_size + 2
                in case (load_u8 p1 m, load_u8 (p1 + 1) m) of
                     (Some lo, Some hi) \<Rightarrow>
                       (let entry_size = unat lo + 256 * unat hi;
                            p2 = p1 + 2 + entry_size
                        in if tag_size \<noteq> 0 \<and> p2 < dbsize then find_loop tag m dbsize p2 (found + 1)
                           else Some (0, found + 1))
                   | _ \<Rightarrow> None))"
  by pat_completeness auto
termination
  by (relation "measure (\<lambda>(_, _, dbsize, pointer, _). dbsize - pointer)") auto

declare find_loop.simps [simp del]

definition find_data :: "u8 list \<Rightarrow> mem \<Rightarrow> (nat \<times> u16) option" where
  "find_data tag m = do {
     dbsize \<leftarrow> db_get_size m;
     if unat dbsize \<le> 8 then Some (0, 0) else find_loop tag m (unat dbsize) 8 0
   }"

definition scaled :: "u32 \<Rightarrow> u16 \<Rightarrow> u16" where
  "scaled type datasize = (if type = DB_16b then datasize * 2 else if type = DB_32b then datasize * 4 else datasize)"

definition elements :: "u32 \<Rightarrow> u16 \<Rightarrow> u16" where
  "elements type sz = (if type = DB_16b then sz div 2 else if type = DB_32b then sz div 4 else sz)"

definition db_write :: "target \<Rightarrow> crc_fn \<Rightarrow> u8 list \<Rightarrow> u8 list \<Rightarrow> u16 \<Rightarrow> u32 \<Rightarrow> mem \<Rightarrow> (db_error \<times> mem) option" where
  "db_write tgt crc_func tag data datasize type m = do {
     sz \<leftarrow> db_get_size m;
     (found, _) \<leftarrow> find_data tag m;
     if found \<noteq> 0 then Some (DB_TagExist, m)
     else do {
       let p0 = (if unat sz \<le> 8 \<or> sz = 0xFFFFFFFF then 8 else unat sz);
       m1 \<leftarrow> store p0 (tag @ [0]) m;
       let p1 = p0 + length tag;
       m2 \<leftarrow> store p1 [0] m1;
       m3 \<leftarrow> store_enum tgt (p1 + 1) type m2;
       let bytes = scaled type datasize;
       m4 \<leftarrow> store (p1 + 2) [ucast bytes] m3;
       m5 \<leftarrow> store (p1 + 3) [ucast (drop_bit 8 bytes)] m4;
       bs \<leftarrow> load 0 (unat bytes) data;
       m6 \<leftarrow> store (p1 + 4) bs m5;
       m7 \<leftarrow> update_db crc_func (of_nat (p1 + 4 + unat bytes)) m6;
       Some (DB_Success, m7)
     }
   }"

definition db_read :: "target \<Rightarrow> u8 list \<Rightarrow> mem \<Rightarrow> (u16 \<times> u8 list) option" where
  "db_read tgt tag m = do {
     (pointer, _) \<leftarrow> find_data tag m;
     if pointer = 0 then Some (0, [])
     else do {
       let p1 = pointer + length tag + 1;
       type \<leftarrow> load_enum tgt p1 m;
       lo \<leftarrow> load_u8 (p1 + 1) m;
       hi \<leftarrow> load_u8 (p1 + 2) m;
       let sz = (ucast lo + push_bit 8 (ucast hi) :: u16);
       bs \<leftarrow> load (p1 + 3) (unat sz) m;
       Some (elements type sz, bs)
     }
   }"

definition db_get_type :: "target \<Rightarrow> u8 list \<Rightarrow> mem \<Rightarrow> u32 option" where
  "db_get_type tgt tag m = do {
     (pointer, _) \<leftarrow> find_data tag m;
     if pointer = 0 then Some DB_TypeError else load_enum tgt (pointer + length tag + 1) m
   }"

definition db_get_entry_size :: "target \<Rightarrow> u8 list \<Rightarrow> mem \<Rightarrow> u16 option" where
  "db_get_entry_size tgt tag m = do {
     (pointer, _) \<leftarrow> find_data tag m;
     if pointer = 0 then Some 0
     else do {
       let p1 = pointer + length tag + 1;
       type \<leftarrow> load_enum tgt p1 m;
       lo \<leftarrow> load_u8 (p1 + 1) m;
       hi \<leftarrow> load_u8 (p1 + 2) m;
       Some (elements type (ucast lo + push_bit 8 (ucast hi)))
     }
   }"

definition db_validate :: "crc_fn \<Rightarrow> mem \<Rightarrow> db_error option" where
  "db_validate crc_func m =
     (case crc_func of
        None \<Rightarrow> Some DB_NoCRC_Func
      | Some crc \<Rightarrow> do {
          stored \<leftarrow> load_u32 4 m;
          sz \<leftarrow> db_get_size m;
          bs \<leftarrow> load 8 (unat (sz - 8)) m;
          Some (if stored = crc bs then DB_Success else DB_WrongCRC)
        })"

definition db_delete :: "target \<Rightarrow> crc_fn \<Rightarrow> u8 list \<Rightarrow> mem \<Rightarrow> (db_error \<times> mem) option" where
  "db_delete tgt crc_func tag m = do {
     (pointer, _) \<leftarrow> find_data tag m;
     dbsize \<leftarrow> db_get_size m;
     if pointer = 0 then Some (DB_TagNotFound, m)
     else do {
       es \<leftarrow> db_get_entry_size tgt tag m;
       let entry_size = (of_nat (unat es + length tag + 4) :: u16);
       m1 \<leftarrow> memcpy tgt pointer (pointer + unat entry_size) (unat (dbsize - of_nat pointer - ucast entry_size)) m;
       m2 \<leftarrow> update_db crc_func (dbsize - ucast entry_size) m1;
       Some (DB_Success, m2)
     }
   }"

definition db_overwrite :: "target \<Rightarrow> crc_fn \<Rightarrow> u8 list \<Rightarrow> u8 list \<Rightarrow> u16 \<Rightarrow> u32 \<Rightarrow> mem \<Rightarrow> (db_error \<times> mem) option" where
  "db_overwrite tgt crc_func tag data datasize type m = do {
     (found, _) \<leftarrow> find_data tag m;
     (_, m1) \<leftarrow> (if found \<noteq> 0 then db_delete tgt crc_func tag m else Some (DB_Success, m));
     db_write tgt crc_func tag data datasize type m1
   }"

text \<open>The tag that is searched for in order to count is the string DEADBEEF.\<close>

definition deadbeef :: "u8 list" where
  "deadbeef = [0x44, 0x45, 0x41, 0x44, 0x42, 0x45, 0x45, 0x46]"

definition db_get_nof_tags :: "mem \<Rightarrow> u16 option" where
  "db_get_nof_tags m = map_option snd (find_data deadbeef m)"

fun db_error_string :: "db_error \<Rightarrow> string" where
  "db_error_string DB_Success = ''Success''"
| "db_error_string DB_WrongCRC = ''Wrong CRC''"
| "db_error_string DB_TagNotFound = ''Tag not found''"
| "db_error_string DB_TagExist = ''Tag exist''"
| "db_error_string DB_NoCRC_Func = ''No CRC function''"
| "db_error_string DB_WrongFormat = ''Wrong format''"
| "db_error_string DB_Blank = ''DB empty''"

section \<open>Memory lemmas\<close>

lemma c_str_mid:
  assumes "length a = p" "0 \<notin> set s"
  shows "c_str p (a @ s @ 0 # c) = Some s"
proof -
  have "takeWhile (\<lambda>x. x \<noteq> 0) s = s" using assms(2) by (simp add: takeWhile_eq_all_conv) metis
  then have "takeWhile (\<lambda>x. x \<noteq> 0) (s @ 0 # c) = s" by (simp add: takeWhile_tail)
  then show ?thesis using assms(1) by (auto simp: c_str_def)
qed

section \<open>The abstract data base\<close>

text \<open>An entry is a tag, a type and the bytes stored.\<close>

type_synonym entry = "u8 list \<times> u8 \<times> u8 list"

definition len16 :: "u8 list \<Rightarrow> u16" where
  "len16 d = of_nat (length d)"

fun enc :: "entry \<Rightarrow> u8 list" where
  "enc (t, ty, d) = t @ [0, ty, ucast (len16 d), ucast (drop_bit 8 (len16 d))] @ d"

definition body :: "entry list \<Rightarrow> u8 list" where
  "body es = concat (map enc es)"

lemma body_simps [simp]: "body [] = []" "body (e # es) = enc e @ body es" "body (es @ fs) = body es @ body fs"
  by (simp_all add: body_def)

definition entry_ok :: "entry \<Rightarrow> bool" where
  "entry_ok e \<longleftrightarrow> (case e of (t, ty, d) \<Rightarrow> t \<noteq> [] \<and> 0 \<notin> set t \<and> length t < 65536 \<and> length d < 65536)"

definition header_ok :: "u8 list \<Rightarrow> entry list \<Rightarrow> bool" where
  "header_ok hdr es \<longleftrightarrow> length hdr = 4 \<and>
     (let sz = le_word hdr :: u32
      in if es = [] then sz = 0xFFFFFFFF \<or> unat sz \<le> 8 else unat sz = 8 + length (body es))"

definition db_ok :: "mem \<Rightarrow> entry list \<Rightarrow> bool" where
  "db_ok m es \<longleftrightarrow> (\<exists>hdr crc free. m = hdr @ crc @ body es @ free \<and> header_ok hdr es \<and> length crc = 4 \<and>
     list_all entry_ok es \<and> distinct (map fst es) \<and> length m < 2 ^ 31)"

lemma unat_len16: "length d < 65536 \<Longrightarrow> unat (len16 d) = length d"
  by (simp add: len16_def unat_of_nat)

fun locate :: "u8 list \<Rightarrow> nat \<Rightarrow> entry list \<Rightarrow> nat" where
  "locate tag p [] = 0"
| "locate tag p (e # es) = (if fst e = tag then p else locate tag (p + length (enc e)) es)"

fun visited :: "u8 list \<Rightarrow> entry list \<Rightarrow> nat" where
  "visited tag [] = 0"
| "visited tag (e # es) = (if fst e = tag then 1 else Suc (visited tag es))"

lemma find_loop_entries:
  assumes "es \<noteq> []" "list_all entry_ok es" "length pre = p" "dbsize = p + length (body es)"
  shows "find_loop tag (pre @ body es @ free) dbsize p n = Some (locate tag p es, n + of_nat (visited tag es))"
  using assms
proof (induction es arbitrary: pre p n)
  case (Cons e es)
  obtain t ty d where e: "e = (t, ty, d)" by (cases e)
  have ok: "t \<noteq> []" "0 \<notin> set t" "length t < 65536" "length d < 65536"
    using Cons.prems(2) by (simp_all add: e entry_ok_def)
  let ?lo = "ucast (len16 d) :: u8" and ?hi = "ucast (drop_bit 8 (len16 d)) :: u8"
  define m where "m = pre @ body (e # es) @ free"
  have s: "c_str p m = Some t"
    using c_str_mid [OF Cons.prems(3) ok(2), of "[ty, ?lo, ?hi] @ d @ body es @ free"] by (simp add: e m_def)
  have lo: "load_u8 (p + length t + 2) m = Some ?lo"
    using load_u8_mid [of "pre @ t @ [0, ty]" "p + length t + 2" ?lo "?hi # d @ body es @ free"] Cons.prems(3)
    by (simp add: e m_def)
  have hi: "load_u8 (p + length t + 2 + 1) m = Some ?hi"
    using load_u8_mid [of "pre @ t @ [0, ty, ?lo]" "p + length t + 2 + 1" ?hi "d @ body es @ free"] Cons.prems(3)
    by (simp add: e m_def)
  have sz: "unat ?lo + 256 * unat ?hi = length d" using u16_bytes_unat unat_len16 ok(4) by simp
  have len: "length (enc e) = length t + length d + 4" by (simp add: e)
  show ?case
  proof (cases "t = tag")
    case True
    then have "find_loop tag m dbsize p n = Some (p, n + 1)" by (subst find_loop.simps) (simp add: s)
    then show ?thesis using True by (simp only: m_def e) simp
  next
    case False
    have p2: "p + length (enc e) = Suc (Suc (Suc (Suc (p + length t + length d))))" by (simp add: len)
    have step: "find_loop tag m dbsize p n =
        (if p + length (enc e) < dbsize then find_loop tag m dbsize (p + length (enc e)) (n + 1) else Some (0, n + 1))"
      using False ok(1,3) lo hi s by (subst find_loop.simps) (simp add: Let_def sz p2)
    show ?thesis
    proof (cases "es = []")
      case True
      then show ?thesis using step False Cons.prems(4) by (simp only: m_def) (simp add: e)
    next
      case es: False
      then obtain f fs where "es = f # fs" by (cases es) auto
      then have "0 < length (body es)" by (cases f) simp
      moreover have "find_loop tag ((pre @ enc e) @ body es @ free) dbsize (p + length (enc e)) (n + 1) =
          Some (locate tag (p + length (enc e)) es, (n + 1) + of_nat (visited tag es))"
        by (rule Cons.IH) (use Cons.prems es in simp_all)
      ultimately show ?thesis using step False Cons.prems(4) by (simp only: m_def) (simp add: e add.assoc)
    qed
  qed
qed simp

lemma db_okE:
  assumes "db_ok m es"
  obtains hdr crc free where "m = hdr @ crc @ body es @ free" "header_ok hdr es" "length hdr = 4" "length crc = 4"
    "list_all entry_ok es" "distinct (map fst es)" "length m < 2 ^ 31"
  using assms by (auto simp: db_ok_def header_ok_def)

lemma db_get_size_ok:
  assumes "header_ok hdr es" "length (hdr @ r) < 2 ^ 31" "8 + length (body es) \<le> length (hdr @ r)"
  shows "\<exists>sz. db_get_size (hdr @ r) = Some sz \<and> sz \<noteq> 0xFFFFFFFF \<and>
    (if es = [] then unat sz \<le> 8 else unat sz = 8 + length (body es))"
proof -
  have "load_u32 0 (hdr @ r) = Some (le_word hdr)"
    using load_mid [of "[]" 0 hdr 4 r] assms(1) by (simp add: load_u32_def header_ok_def)
  moreover have "unat (0xFFFFFFFF :: u32) = 2 ^ 32 - 1" by simp
  then have "es \<noteq> [] \<Longrightarrow> (le_word hdr :: u32) \<noteq> 0xFFFFFFFF"
    using assms by (auto simp: header_ok_def Let_def)
  ultimately show ?thesis
    using assms(1) by (auto simp: db_get_size_def header_ok_def Let_def split: if_splits)
qed

lemma db_ok_size:
  assumes "db_ok m es"
  obtains sz where "db_get_size m = Some sz" "sz \<noteq> 0xFFFFFFFF"
    "es = [] \<Longrightarrow> unat sz \<le> 8" "es \<noteq> [] \<Longrightarrow> unat sz = 8 + length (body es)"
proof -
  obtain hdr crc free where m: "m = hdr @ crc @ body es @ free" "header_ok hdr es" "length hdr = 4" "length crc = 4"
      "length m < 2 ^ 31" using assms by (rule db_okE)
  show ?thesis
    using that db_get_size_ok [of hdr es "crc @ body es @ free"] m by (auto split: if_splits)
qed

lemma find_data_ok:
  assumes "db_ok m es"
  shows "find_data tag m = Some (locate tag 8 es, of_nat (visited tag es))"
proof -
  obtain hdr crc free where m: "m = hdr @ crc @ body es @ free" "length hdr = 4" "length crc = 4" "list_all entry_ok es"
    using assms by (rule db_okE)
  obtain sz where sz: "db_get_size m = Some sz" "es = [] \<Longrightarrow> unat sz \<le> 8" "es \<noteq> [] \<Longrightarrow> unat sz = 8 + length (body es)"
    using db_ok_size [OF assms] by blast
  show ?thesis
  proof (cases "es = []")
    case True
    then show ?thesis using sz by (simp add: find_data_def)
  next
    case False
    then obtain e fs where "es = e # fs" by (cases es) auto
    then have "0 < length (body es)" by (cases e) simp
    then show ?thesis
      using find_loop_entries [OF False m(4), of "hdr @ crc" 8 "unat sz" tag free 0] m(1-3) sz False
      by (simp add: find_data_def)
  qed
qed

lemma locate_none: "tag \<notin> set (map fst es) \<Longrightarrow> locate tag p es = 0"
  by (induction es arbitrary: p) auto

lemma locate_some:
  assumes "(tag, ty, d) \<in> set es" "distinct (map fst es)"
  obtains es1 es2 where "es = es1 @ (tag, ty, d) # es2" "\<And>p. locate tag p es = p + length (body es1)"
proof -
  obtain es1 es2 where e: "es = es1 @ (tag, ty, d) # es2" using assms(1) by (meson split_list)
  have "tag \<notin> set (map fst es1)" using assms(2) e by auto
  then have "locate tag p es = p + length (body es1)" for p
    unfolding e by (induction es1 arbitrary: p) auto
  with e that show ?thesis by blast
qed

lemma locate_iff: "0 < p \<Longrightarrow> locate tag p es = 0 \<longleftrightarrow> tag \<notin> set (map fst es)"
  by (induction es arbitrary: p) auto

lemma load_enum_byte:
  "enum_size tgt = 1 \<Longrightarrow> length a = p \<Longrightarrow> load_enum tgt p (a @ ty # c) = Some (ucast ty)"
  using load_mid [of a p "[ty]" 1 c] by (simp add: load_enum_def)

text \<open>The fields of an entry, read where the code reads them.\<close>

lemma entry_fields:
  assumes "enum_size tgt = 1" "length a = p" "length d < 65536" "m = a @ enc (t, ty, d) @ c"
  shows "load_enum tgt (p + length t + 1) m = Some (ucast ty)"
    "load_u8 (p + length t + 2) m = Some (ucast (len16 d))"
    "load_u8 (p + length t + 3) m = Some (ucast (drop_bit 8 (len16 d)))"
    "load (p + length t + 4) (unat (len16 d)) m = Some d"
proof -
  let ?lo = "ucast (len16 d) :: u8" and ?hi = "ucast (drop_bit 8 (len16 d)) :: u8"
  show "load_enum tgt (p + length t + 1) m = Some (ucast ty)"
    using load_enum_byte [OF assms(1), of "a @ t @ [0]" "p + length t + 1" ty "?lo # ?hi # d @ c"] assms by simp
  show "load_u8 (p + length t + 2) m = Some ?lo"
    using load_u8_mid [of "a @ t @ [0, ty]" "p + length t + 2" ?lo "?hi # d @ c"] assms by simp
  show "load_u8 (p + length t + 3) m = Some ?hi"
    using load_u8_mid [of "a @ t @ [0, ty, ?lo]" "p + length t + 3" ?hi "d @ c"] assms by simp
  show "load (p + length t + 4) (unat (len16 d)) m = Some d"
    using load_mid [of "a @ t @ [0, ty, ?lo, ?hi]" "p + length t + 4" d "length d" c] assms unat_len16 by simp
qed

lemma read_ok:
  assumes "enum_size tgt = 1" "db_ok m es" "(tag, ty, d) \<in> set es"
  shows "db_read tgt tag m = Some (elements (ucast ty) (len16 d), d)"
    "db_get_type tgt tag m = Some (ucast ty)"
    "db_get_entry_size tgt tag m = Some (elements (ucast ty) (len16 d))"
proof -
  obtain hdr crc free where m: "m = hdr @ crc @ body es @ free" "length hdr = 4" "length crc = 4" "list_all entry_ok es"
    "distinct (map fst es)" using assms(2) by (rule db_okE)
  obtain es1 es2 where e: "es = es1 @ (tag, ty, d) # es2" "\<And>p. locate tag p es = p + length (body es1)"
    using locate_some [OF assms(3) m(5)] by blast
  have d: "length d < 65536" using m(4) e(1) by (simp add: entry_ok_def)
  define p where "p = 8 + length (body es1)"
  note f = entry_fields [OF assms(1) _ d, of "hdr @ crc @ body es1" p m tag ty "body es2 @ free"]
  have g: "find_data tag m = Some (p, of_nat (visited tag es))"
    using find_data_ok [OF assms(2)] e(2) by (simp add: p_def)
  have le: "0 < p" "length (hdr @ crc @ body es1) = p" "m = (hdr @ crc @ body es1) @ enc (tag, ty, d) @ body es2 @ free"
    using m e by (simp_all add: p_def)
  note f = f [OF le(2,3)]
  have ix: "p + length tag + 1 + 1 = p + length tag + 2" "p + length tag + 1 + 2 = p + length tag + 3"
    "p + length tag + 1 + 3 = p + length tag + 4" by simp_all
  show "db_read tgt tag m = Some (elements (ucast ty) (len16 d), d)"
    "db_get_type tgt tag m = Some (ucast ty)"
    "db_get_entry_size tgt tag m = Some (elements (ucast ty) (len16 d))"
    using le(1) by (simp_all only: db_read_def db_get_type_def db_get_entry_size_def g ix f u16_bytes Option.bind.bind_lunit
        prod.case Let_def if_False neq0_conv [symmetric] not_True_eq_False)
qed

text \<open>Writing.\<close>

lemma update_db_ok:
  assumes "length hdr = 4" "length crc = 4" "unat sz = 8 + length b"
  shows "\<exists>crc'. update_db crc_func sz (hdr @ crc @ b @ free) = Some (le_bytes 4 sz @ crc' @ b @ free) \<and>
    length crc' = 4 \<and> (\<forall>f. crc_func = Some f \<longrightarrow> crc' = le_bytes 4 (f b))"
proof -
  have s: "store 0 (le_bytes 4 sz) (hdr @ crc @ b @ free) = Some (le_bytes 4 sz @ crc @ b @ free)"
    using store_mid [of "[]" 0 hdr "le_bytes 4 sz" "crc @ b @ free"] assms(1) by simp
  have "8 \<le> sz" using assms(3) by (simp add: word_le_nat_alt)
  then have n: "unat (sz - 8) = length b" using assms(3) by (simp add: unat_sub)
  have l: "load 8 (length b) (le_bytes 4 sz @ crc @ b @ free) = Some b"
    using load_mid [of "le_bytes 4 sz @ crc" 8 b "length b" free] assms(2) by simp
  have c: "store 4 (le_bytes 4 x) (le_bytes 4 sz @ crc @ b @ free) = Some (le_bytes 4 sz @ le_bytes 4 x @ b @ free)" for x :: u32
    using store_mid [of "le_bytes 4 sz" 4 crc "le_bytes 4 x" "b @ free"] assms(2) by simp
  show ?thesis
    by (cases crc_func) (use s n l c assms(2) in \<open>simp_all add: update_db_def\<close>)
qed

lemma header_size: "header_ok (le_bytes 4 sz) es" if "unat sz = 8 + length (body es)" for sz :: u32
proof -
  have "le_word (le_bytes 4 sz) = sz" by (rule le_word_le_bytes_id) simp
  then show ?thesis using that by (auto simp: header_ok_def)
qed

lemma store_entry:
  assumes "enum_size tgt = 1" "length a = p0" "length free0 = length tag + 4 + length d"
    "length d < 65536" "bytes = len16 d"
  obtains m1 m2 m3 m4 m5 where "store p0 (tag @ [0]) (a @ free0 @ c) = Some m1"
    "store (p0 + length tag) [0] m1 = Some m2" "store_enum tgt (p0 + length tag + 1) (ucast ty) m2 = Some m3"
    "store (p0 + length tag + 2) [ucast bytes] m3 = Some m4"
    "store (p0 + length tag + 3) [ucast (drop_bit 8 bytes)] m4 = Some m5"
    "store (p0 + length tag + 4) d m5 = Some (a @ enc (tag, ty, d) @ c)"
proof -
  let ?n = "length tag"
  obtain f0 f1 f2 f3 f4 f5 where f: "free0 = f0 @ f1 # f2 # f3 # f4 # f5" "length f0 = ?n" "length f5 = length d"
  proof -
    define b where "b = drop ?n free0"
    have "free0 = take ?n free0 @ b" "length (take ?n free0) = ?n" and l: "length b = 4 + length d"
      using assms(3) by (simp_all add: b_def)
    moreover from l obtain x1 x2 x3 x4 r where "b = x1 # x2 # x3 # x4 # r"
      by (auto simp: length_Suc_conv numeral_eq_Suc)
    ultimately show ?thesis using that by simp
  qed
  have 1: "store p0 (tag @ [0]) (a @ free0 @ c) = Some (a @ (tag @ [0]) @ f2 # f3 # f4 # f5 @ c)"
    using store_mid [of a p0 "f0 @ [f1]" "tag @ [0]" "f2 # f3 # f4 # f5 @ c"] f assms(2) by simp
  have 2: "store (p0 + ?n) [0] (a @ (tag @ [0]) @ f2 # f3 # f4 # f5 @ c) = Some (a @ (tag @ [0]) @ f2 # f3 # f4 # f5 @ c)"
    using store_mid [of "a @ tag" "p0 + ?n" "[0]" "[0]" "f2 # f3 # f4 # f5 @ c"] assms(2) by simp
  have 3: "store_enum tgt (p0 + ?n + 1) (ucast ty) (a @ (tag @ [0]) @ f2 # f3 # f4 # f5 @ c) =
      Some (a @ (tag @ [0, ty]) @ f3 # f4 # f5 @ c)"
    using store_mid [of "a @ tag @ [0]" "p0 + ?n + 1" "[f2]" "[ty]" "f3 # f4 # f5 @ c"] assms(1,2)
    by (simp add: store_enum_def ucast_down_up)
  have 4: "store (p0 + ?n + 2) [ucast bytes] (a @ (tag @ [0, ty]) @ f3 # f4 # f5 @ c) =
      Some (a @ (tag @ [0, ty, ucast bytes]) @ f4 # f5 @ c)"
    using store_mid [of "a @ tag @ [0, ty]" "p0 + ?n + 2" "[f3]" "[ucast bytes]" "f4 # f5 @ c"] assms(2) by simp
  have 5: "store (p0 + ?n + 3) [ucast (drop_bit 8 bytes)] (a @ (tag @ [0, ty, ucast bytes]) @ f4 # f5 @ c) =
      Some (a @ (tag @ [0, ty, ucast bytes, ucast (drop_bit 8 bytes)]) @ f5 @ c)"
    using store_mid [of "a @ tag @ [0, ty, ucast bytes]" "p0 + ?n + 3" "[f4]" "[ucast (drop_bit 8 bytes)]" "f5 @ c"] assms(2) by simp
  have 6: "store (p0 + ?n + 4) d (a @ (tag @ [0, ty, ucast bytes, ucast (drop_bit 8 bytes)]) @ f5 @ c) =
      Some (a @ enc (tag, ty, d) @ c)"
    using store_mid [of "a @ tag @ [0, ty, ucast bytes, ucast (drop_bit 8 bytes)]" "p0 + ?n + 4" f5 d c] assms(2,5) f(3) by simp
  show ?thesis by (rule that [OF 1 2 3 4 5 6])
qed

lemma validate_ok:
  fixes sz :: u32
  assumes "length crc = 4" "unat sz = 8 + length b" "sz \<noteq> 0xFFFFFFFF"
  shows "db_validate (Some f) (le_bytes 4 sz @ crc @ b @ free) =
    Some (if (le_word crc :: u32) = f b then DB_Success else DB_WrongCRC)"
proof -
  have "load_u32 4 (le_bytes 4 sz @ crc @ b @ free) = Some (le_word crc)"
    using load_mid [of "le_bytes 4 sz" 4 crc 4 "b @ free"] assms(1) by (simp add: load_u32_def)
  moreover have "load_u32 0 (le_bytes 4 sz @ crc @ b @ free) = Some sz"
    using load_mid [of "[]" 0 "le_bytes 4 sz" 4 "crc @ b @ free"] by (simp add: load_u32_def le_word_le_bytes_id)
  moreover have "8 \<le> sz" using assms(2) by (simp add: word_le_nat_alt)
  then have "unat (sz - 8) = length b" using assms(2) by (simp add: unat_sub)
  moreover have "load 8 (length b) (le_bytes 4 sz @ crc @ b @ free) = Some b"
    using load_mid [of "le_bytes 4 sz @ crc" 8 b "length b" free] assms(1) by simp
  ultimately show ?thesis using assms(3) by (simp add: db_validate_def db_get_size_def)
qed

lemma update_db_valid:
  assumes "length hdr = 4" "length crc = 4" "list_all entry_ok es" "distinct (map fst es)"
    and "length (hdr @ crc @ body es @ free) < 2 ^ 31"
  obtains m' where "update_db crc_func (of_nat (8 + length (body es))) (hdr @ crc @ body es @ free) = Some m'"
    "db_ok m' es" "length m' = length (hdr @ crc @ body es @ free)"
    "\<And>f. crc_func = Some f \<Longrightarrow> db_validate crc_func m' = Some DB_Success"
proof -
  define sz where "sz = (of_nat (8 + length (body es)) :: u32)"
  have sz: "unat sz = 8 + length (body es)" unfolding sz_def unat_of_nat
    using assms by simp
  have "unat (0xFFFFFFFF :: u32) = 2 ^ 32 - 1" by simp
  then have ne: "sz \<noteq> 0xFFFFFFFF" using sz assms by auto
  obtain crc' where u: "update_db crc_func sz (hdr @ crc @ body es @ free) = Some (le_bytes 4 sz @ crc' @ body es @ free)"
    "length crc' = 4" "\<And>f. crc_func = Some f \<Longrightarrow> crc' = le_bytes 4 (f (body es))"
    using update_db_ok [OF assms(1,2) sz] by blast
  have "db_ok (le_bytes 4 sz @ crc' @ body es @ free) es"
    unfolding db_ok_def using u(2) assms header_size [OF sz] by (intro exI conjI) (rule refl, simp_all)
  moreover have "db_validate crc_func (le_bytes 4 sz @ crc' @ body es @ free) = Some DB_Success" if "crc_func = Some f" for f
    using validate_ok [OF u(2) sz ne, of f free] u(3) [OF that] that by (simp add: le_word_le_bytes_id)
  ultimately show ?thesis using that [of "le_bytes 4 sz @ crc' @ body es @ free"] u assms by (simp add: sz_def)
qed

lemma write_ok:
  assumes tgt: "enum_size tgt = 1" and ok: "db_ok m es" and tag: "entry_ok (tag, ty, d)" "tag \<notin> set (map fst es)"
    and d: "scaled (ucast ty) n = len16 d" "take (length d) data = d" "length d \<le> length data"
    and room: "8 + length (body es) + length (enc (tag, ty, d)) \<le> length m"
  obtains m' where "db_write tgt crc_func tag data n (ucast ty) m = Some (DB_Success, m')"
    "db_ok m' (es @ [(tag, ty, d)])" "length m' = length m"
    "\<And>f. crc_func = Some f \<Longrightarrow> db_validate crc_func m' = Some DB_Success"
proof -
  obtain hdr crc free where m: "m = hdr @ crc @ body es @ free" "length hdr = 4" "length crc = 4" "list_all entry_ok es"
    "distinct (map fst es)" "length m < 2 ^ 31" using ok by (rule db_okE)
  obtain sz where sz: "db_get_size m = Some sz" "sz \<noteq> 0xFFFFFFFF" "es = [] \<Longrightarrow> unat sz \<le> 8"
    "es \<noteq> [] \<Longrightarrow> unat sz = 8 + length (body es)" using db_ok_size [OF ok] by blast
  have len: "length d < 65536" using tag(1) by (simp add: entry_ok_def)
  let ?k = "length tag + 4 + length d"
  let ?a = "hdr @ crc @ body es"
  define p0 where "p0 = 8 + length (body es)"
  have a: "length ?a = p0" using m by (simp add: p0_def)
  have fr: "length (take ?k free) = ?k" using room m by simp
  have ma: "m = ?a @ take ?k free @ drop ?k free" using m by simp
  have start: "(if unat sz \<le> 8 \<or> sz = 0xFFFFFFFF then 8 else unat sz) = p0"
    using sz by (cases "es = []") (auto simp: p0_def)
  have find: "find_data tag m = Some (0, of_nat (visited tag es))"
    using find_data_ok [OF ok] tag(2) by (simp add: locate_none)
  obtain m1 m2 m3 m4 m5 where st: "store p0 (tag @ [0]) m = Some m1"
    "store (p0 + length tag) [0] m1 = Some m2" "store_enum tgt (p0 + length tag + 1) (ucast ty) m2 = Some m3"
    "store (p0 + length tag + 2) [ucast (len16 d)] m3 = Some m4"
    "store (p0 + length tag + 3) [ucast (drop_bit 8 (len16 d))] m4 = Some m5"
    "store (p0 + length tag + 4) d m5 = Some (?a @ enc (tag, ty, d) @ drop ?k free)"
    using store_entry [OF tgt a fr len refl, where ty = ty and c = "drop ?k free"] unfolding ma [symmetric] by metis
  have bs: "load 0 (unat (len16 d)) data = Some d" using d(2,3) len by (simp add: load_def unat_len16)
  have e: "list_all entry_ok (es @ [(tag, ty, d)])" "distinct (map fst (es @ [(tag, ty, d)]))"
    using m tag by auto
  have l: "length (hdr @ crc @ body (es @ [(tag, ty, d)]) @ drop ?k free) = length m" using room m by simp
  obtain m' where m': "update_db crc_func (of_nat (8 + length (body (es @ [(tag, ty, d)]))))
      (hdr @ crc @ body (es @ [(tag, ty, d)]) @ drop ?k free) = Some m'" "db_ok m' (es @ [(tag, ty, d)])"
    "length m' = length m" "\<And>f. crc_func = Some f \<Longrightarrow> db_validate crc_func m' = Some DB_Success"
    using update_db_valid [OF m(2,3) e] l m(6) by (metis (no_types, lifting))
  have sz': "p0 + length tag + 4 + unat (len16 d) = 8 + length (body (es @ [(tag, ty, d)]))"
    using len by (simp add: p0_def unat_len16)
  have "db_write tgt crc_func tag data n (ucast ty) m = Some (DB_Success, m')"
    using m'(1) by (simp only: db_write_def sz(1) find start st bs d(1) sz' Option.bind.bind_lunit prod.case Let_def
        append.assoc body_simps append_Nil2) simp
  then show ?thesis using that m' by blast
qed

text \<open>Deleting an entry whose elements are bytes.\<close>

lemma memcpy_down_ok:
  assumes "memcpy_down tgt \<or> length c \<le> k" "length a = p" "length b = k"
  shows "\<exists>r. memcpy tgt p (p + k) (length c) (a @ b @ c @ f) = Some (a @ c @ r) \<and> length r = k + length f"
proof -
  have "load (p + k) (length c) (a @ b @ c @ f) = Some c"
    using load_mid [of "a @ b" "p + k" c "length c" f] assms by simp
  then show ?thesis using assms by (auto simp: memcpy_def store_def)
qed

lemma delete_ok:
  assumes tgt: "enum_size tgt = 1" "memcpy_down tgt \<or> length (body es2) \<le> length (enc (tag, ty, d))"
    and ok: "db_ok m (es1 @ (tag, ty, d) # es2)"
    and ty: "ucast ty \<noteq> DB_16b" "ucast ty \<noteq> DB_32b" and len: "length (enc (tag, ty, d)) < 65536"
  obtains m' where "db_delete tgt crc_func tag m = Some (DB_Success, m')" "db_ok m' (es1 @ es2)"
    "length m' = length m" "\<And>f. crc_func = Some f \<Longrightarrow> db_validate crc_func m' = Some DB_Success"
proof -
  let ?es = "es1 @ (tag, ty, d) # es2"
  obtain hdr crc free where m: "m = hdr @ crc @ body ?es @ free" "length hdr = 4" "length crc = 4" "list_all entry_ok ?es"
    "distinct (map fst ?es)" "length m < 2 ^ 31" using ok by (rule db_okE)
  obtain sz where sz: "db_get_size m = Some sz" "unat sz = 8 + length (body ?es)" using db_ok_size [OF ok] by blast
  have dl: "length d < 65536" using len by simp
  have "tag \<notin> set (map fst es1)" using m(5) by auto
  then have "locate tag p ?es = p + length (body es1)" for p by (induction es1 arbitrary: p) auto
  define p where "p = 8 + length (body es1)"
  have p0: "(p = 0) = False" by (simp add: p_def)
  have find: "find_data tag m = Some (p, of_nat (visited tag ?es))"
    using find_data_ok [OF ok, of tag] \<open>\<And>p. locate tag p ?es = p + length (body es1)\<close> by (simp add: p_def)
  have gs: "db_get_entry_size tgt tag m = Some (len16 d)"
    using read_ok(3) [OF tgt(1) ok, of tag ty d] ty by (simp add: elements_def)
  define k where "k = length (enc (tag, ty, d))"
  define es_w where "es_w = (of_nat (unat (len16 d) + length tag + 4) :: u16)"
  have k: "unat es_w = k" "k = length tag + 4 + length d"
    using len dl unfolding es_w_def unat_of_nat by (simp_all add: k_def unat_len16)
  have uk: "unat (ucast es_w :: u32) = k"
    using k(1) unat_u16_less [of es_w] by (simp add: unsigned_ucast_eq take_bit_nat_eq_self)
  have up: "unat (of_nat p :: u32) = p" using m(1,6) unfolding unat_of_nat p_def by simp
  have le1: "of_nat p \<le> sz" using sz(2) up by (simp add: word_le_nat_alt p_def)
  have s1: "unat (sz - of_nat p) = k + length (body es2)"
    using unat_sub [OF le1] up sz(2) by (simp add: p_def k_def)
  have n: "unat (sz - of_nat p - ucast es_w) = length (body es2)"
    using s1 uk by (subst unat_sub) (simp_all add: word_le_nat_alt)
  have new: "sz - ucast es_w = of_nat (8 + length (body (es1 @ es2)))"
  proof -
    have "unat (sz - ucast es_w) = 8 + length (body (es1 @ es2))"
      using sz(2) uk by (subst unat_sub) (simp_all add: word_le_nat_alt k_def)
    then show ?thesis by (metis of_nat_unat ucast_id)
  qed
  obtain r where cp: "memcpy tgt p (p + k) (length (body es2)) m = Some (hdr @ crc @ body (es1 @ es2) @ r)" "length r = k + length free"
    using memcpy_down_ok [of tgt "body es2" k "hdr @ crc @ body es1" p "enc (tag, ty, d)" free] m tgt(2)
    by (auto simp: p_def k_def)
  have e: "list_all entry_ok (es1 @ es2)" "distinct (map fst (es1 @ es2))" using m by auto
  have l: "length (hdr @ crc @ body (es1 @ es2) @ r) = length m" using cp(2) m(1) by (simp add: k_def)
  obtain m' where m': "update_db crc_func (of_nat (8 + length (body (es1 @ es2)))) (hdr @ crc @ body (es1 @ es2) @ r) = Some m'"
    "db_ok m' (es1 @ es2)" "length m' = length m" "\<And>f. crc_func = Some f \<Longrightarrow> db_validate crc_func m' = Some DB_Success"
    using update_db_valid [OF m(2,3) e] l m(6) by (metis (no_types, lifting))
  have "db_delete tgt crc_func tag m = Some (DB_Success, m')"
    by (simp only: db_delete_def find sz(1) gs p0 if_False Let_def es_w_def [symmetric] k(1) n cp(1) new m'(1)
        Option.bind.bind_lunit prod.case)
  then show ?thesis using that m' by blast
qed

end
