(* ===== verification/Simple_Db_Store.thy ===== *)
theory Simple_Db_Store
  imports Simple_Db
begin

text \<open>
  The contract of the tagged data base of Common/simple_db.c: a locale for what a client relies on, its interpretation on the
  functions of Simple_Db, and what writing and deleting entries does to all the others.
\<close>

section \<open>The interface\<close>

text \<open>
  What a client relies on: entries that fit are appended without disturbing the
  others, and what is stored is read back.
\<close>

locale tag_store =
  fixes repr :: "'m \<Rightarrow> ('k \<times> 'v) list \<Rightarrow> bool"
    and capacity :: "'m \<Rightarrow> nat"
    and cost :: "'k \<times> 'v \<Rightarrow> nat"
    and valid :: "'k \<times> 'v \<Rightarrow> bool"
    and put :: "'k \<times> 'v \<Rightarrow> 'm \<Rightarrow> 'm option"
    and get :: "'k \<Rightarrow> 'm \<Rightarrow> 'v option"
  assumes get_repr: "repr m es \<Longrightarrow> (k, v) \<in> set es \<Longrightarrow> get k m = Some v"
    and get_none: "repr m es \<Longrightarrow> k \<notin> fst ` set es \<Longrightarrow> get k m = None"
    and put_repr: "repr m es \<Longrightarrow> valid (k, v) \<Longrightarrow> k \<notin> fst ` set es \<Longrightarrow>
      sum_list (map cost es) + cost (k, v) \<le> capacity m \<Longrightarrow>
      \<exists>m'. put (k, v) m = Some m' \<and> repr m' (es @ [(k, v)]) \<and> capacity m' = capacity m"
begin

fun put_all :: "('k \<times> 'v) list \<Rightarrow> 'm \<Rightarrow> 'm option" where
  "put_all [] m = Some m"
| "put_all (e # es) m = Option.bind (put e m) (put_all es)"

lemma put_all_repr:
  assumes "repr m es" "list_all valid fs" "distinct (map fst (es @ fs))"
    "sum_list (map cost (es @ fs)) \<le> capacity m"
  shows "\<exists>m'. put_all fs m = Some m' \<and> repr m' (es @ fs)"
  using assms
proof (induction fs arbitrary: m es)
  case (Cons f fs)
  obtain k v where f: "f = (k, v)" by (cases f)
  have "k \<notin> fst ` set es" using Cons.prems(3) by (auto simp: f)
  then obtain m1 where "put f m = Some m1" "repr m1 (es @ [f])" "capacity m1 = capacity m"
    using put_repr [OF Cons.prems(1), of k v] Cons.prems by (auto simp: f)
  then show ?case using Cons.IH [of m1 "es @ [f]"] Cons.prems by simp
qed simp

lemma put_all_get:
  assumes "repr m es" "list_all valid fs" "distinct (map fst (es @ fs))"
    "sum_list (map cost (es @ fs)) \<le> capacity m"
  shows "\<exists>m'. put_all fs m = Some m' \<and> (\<forall>k v. (k, v) \<in> set (es @ fs) \<longrightarrow> get k m' = Some v) \<and>
    (\<forall>k. k \<notin> fst ` set (es @ fs) \<longrightarrow> get k m' = None)"
  using put_all_repr [OF assms] get_repr get_none by (metis (no_types, lifting))

end

text \<open>The data base behind that interface, on a target with one-byte enumerations: a
  value is its type and its bytes, and it is written as that many elements.\<close>

definition db_put :: "target \<Rightarrow> crc_fn \<Rightarrow> entry \<Rightarrow> mem \<Rightarrow> mem option" where
  "db_put tgt crc_func e m =
     (case e of (tag, ty, d) \<Rightarrow>
        (case db_write tgt crc_func tag d (elements (ucast ty) (len16 d)) (ucast ty) m of
           Some (DB_Success, m') \<Rightarrow> Some m' | _ \<Rightarrow> None))"

definition db_get :: "target \<Rightarrow> u8 list \<Rightarrow> mem \<Rightarrow> (u8 \<times> u8 list) option" where
  "db_get tgt tag m =
     (case (db_get_type tgt tag m, db_read tgt tag m) of
        (Some ty, Some (n, d)) \<Rightarrow> if ty = DB_TypeError then None else Some (ucast ty, d) | _ \<Rightarrow> None)"

definition db_valid :: "entry \<Rightarrow> bool" where
  "db_valid e \<longleftrightarrow> entry_ok e \<and> (case e of (tag, ty, d) \<Rightarrow> ucast ty \<noteq> DB_TypeError \<and>
     scaled (ucast ty) (elements (ucast ty) (len16 d)) = len16 d)"

definition db_repr :: "mem \<Rightarrow> entry list \<Rightarrow> bool" where
  "db_repr m es \<longleftrightarrow> db_ok m es \<and> list_all db_valid es"

definition byte_target :: target where
  "byte_target = \<lparr>enum_size = 1, memcpy_down = True\<rparr>"

lemma length_body: "length (body es) = sum_list (map (\<lambda>e. length (enc e)) es)"
  by (induction es) simp_all

interpretation db: tag_store db_repr "\<lambda>m. length m - 8" "\<lambda>e. length (enc e)" db_valid
  "db_put byte_target crc_func" "db_get byte_target" for crc_func
proof
  have t: "enum_size byte_target = 1" by (simp add: byte_target_def)
  fix m es k and v :: "u8 \<times> u8 list"
  assume r: "db_repr m es"
  obtain ty d where v: "v = (ty, d)" by (cases v)
  show "db_get byte_target k m = Some v" if "(k, v) \<in> set es"
  proof -
    have "ucast ty \<noteq> DB_TypeError" using r that by (auto simp: db_repr_def list_all_iff db_valid_def v)
    then show ?thesis
      using read_ok [OF t, of m es k ty d] r that by (simp add: db_get_def db_repr_def v ucast_down_up)
  qed
  show "db_get byte_target k m = None" if "k \<notin> fst ` set es"
    using find_data_ok [of m es k] locate_none [of k es 8] r that
    by (simp add: db_get_def db_get_type_def db_read_def db_repr_def)
  show "\<exists>m'. db_put byte_target crc_func (k, v) m = Some m' \<and> db_repr m' (es @ [(k, v)]) \<and> length m' - 8 = length m - 8"
    if ok: "db_valid (k, v)" "k \<notin> fst ` set es" "sum_list (map (\<lambda>e. length (enc e)) es) + length (enc (k, v)) \<le> length m - 8"
  proof -
    have "8 \<le> length m" using r by (auto simp: db_repr_def db_ok_def header_ok_def)
    then have room: "8 + length (body es) + length (enc (k, ty, d)) \<le> length m"
      using ok(3) by (simp add: length_body v)
    have e: "entry_ok (k, ty, d)" "scaled (ucast ty) (elements (ucast ty) (len16 d)) = len16 d"
      using ok(1) by (simp_all add: db_valid_def v)
    have o: "db_ok m es" "k \<notin> set (map fst es)" using r ok(2) by (simp_all add: db_repr_def)
    obtain m' where "db_write byte_target crc_func k d (elements (ucast ty) (len16 d)) (ucast ty) m = Some (DB_Success, m')"
      "db_ok m' (es @ [(k, ty, d)])" "length m' = length m"
      by (rule write_ok [OF t o(1) e(1) o(2) e(2) _ _ room, of d crc_func]) simp_all
    then show ?thesis using r ok(1) by (simp add: db_put_def db_repr_def v)
  qed
qed

section \<open>Properties\<close>

fun db_write_all :: "target \<Rightarrow> crc_fn \<Rightarrow> entry list \<Rightarrow> mem \<Rightarrow> mem option" where
  "db_write_all tgt crc_func [] m = Some m"
| "db_write_all tgt crc_func (e # es) m = Option.bind (db_put tgt crc_func e m) (db_write_all tgt crc_func es)"

lemma db_write_all_put_all: "db_write_all byte_target crc_func fs m = db.put_all crc_func fs m"
proof (induction fs arbitrary: m)
  case (Cons f fs)
  then have "db_write_all byte_target crc_func fs = db.put_all crc_func fs" by (rule ext)
  then show ?case by simp
qed simp

text \<open> C2: On a target whose enumerations have one byte, writing a batch of new entries that fits into the buffer succeeds, and
  afterwards every entry, old or new, is read back with its type and its data, while
  no other tag is found.  With wider enumerations the type is stored elsewhere, see \<open>wide_enum_overruns\<close>.\<close>

theorem db_write_read:
  assumes "db_repr m es" "list_all db_valid fs" "distinct (map fst (es @ fs))"
    and "8 + length (body (es @ fs)) \<le> length m"
  shows "\<exists>m'. db_write_all byte_target crc_func fs m = Some m' \<and>
    (\<forall>k v. (k, v) \<in> set (es @ fs) \<longrightarrow> db_get byte_target k m' = Some v) \<and>
    (\<forall>k. k \<notin> fst ` set (es @ fs) \<longrightarrow> db_get byte_target k m' = None)"
  unfolding db_write_all_put_all
  by (rule db.put_all_get) (use assms in \<open>simp_all add: length_body\<close>)

lemma replicate_4: "replicate 4 x = [x, x, x, x]"
  by (simp add: numeral_eq_Suc)

lemma blank_repr: "db_repr (replicate n 0xFF) []" if "8 \<le> n" "n < 2 ^ 31"
proof -
  have r: "replicate n (0xFF :: u8) = replicate 4 0xFF @ replicate 4 0xFF @ body [] @ replicate (n - 8) 0xFF"
    using that by (simp flip: replicate_add)
  have "(le_word (replicate 4 0xFF) :: u32) = 0xFFFFFFFF"
    by (subst replicate_4) simp
  then show ?thesis unfolding db_repr_def db_ok_def
    using that r by (intro conjI exI) (rule r, simp_all add: header_ok_def)
qed

theorem db_write_read_witness:
  "\<exists>m'. db_write_all byte_target None [([97], 1, [7, 8]), ([98], 2, [1, 0])] (replicate 40 0xFF) = Some m' \<and>
     db_get byte_target [98] m' = Some (2, [1, 0])"
proof -
  have v: "list_all db_valid [([97], 1, [7, 8]), ([98], 2, [1, 0])]"
    by (simp add: db_valid_def entry_ok_def DB_TypeError_def scaled_def elements_def DB_16b_def DB_32b_def len16_def)
  show ?thesis
    using db_write_read [OF blank_repr [of 40] v, of None] by fastforce
qed

text \<open>With enumerations of four bytes the type goes to four times its offset: the first entry of a blank buffer of 40 bytes
  is written behind the buffer.\<close>

lemma wide_enum_overruns:
  "db_write \<lparr>enum_size = 4, memcpy_down = True\<rparr> None [97] [7] 1 DB_8b (replicate 40 0xFF) = None"
proof -
  have "db_get_size (replicate 40 0xFF) = Some 0"
    by (simp add: db_get_size_def load_u32_def load_def replicate_4)
  then show ?thesis by (simp add: db_write_def find_data_def store_def store_enum_def Let_def split: Option.bind_split)
qed

text \<open>Moving a longer rest down overlaps, which \<open>memcpy\<close> does not define.\<close>

lemma memcpy_overlap: "\<not> memcpy_down tgt \<Longrightarrow> 0 < k \<Longrightarrow> k < n \<Longrightarrow> memcpy tgt p (p + k) n m = None"
  by (simp add: memcpy_def)

text \<open> C3: On a target whose enumerations have one byte, deleting an entry of bytes or text with an encoding below 64 KiB
  removes exactly that entry and leaves the
  checksum right, provided that what follows it is not longer than the entry or that \<open>memcpy\<close> can move a block down
  over itself, which the C language does not promise; deleting an unknown tag changes nothing.\<close>

theorem db_delete_entry:
  assumes "enum_size tgt = 1" "memcpy_down tgt \<or> length (body es2) \<le> length (enc (tag, ty, d))"
    and "db_ok m (es1 @ (tag, ty, d) # es2)"
    and "ty \<noteq> 2" "ty \<noteq> 4" "length (enc (tag, ty, d)) < 65536"
  shows "(\<exists>m'. db_delete tgt (Some crc) tag m = Some (DB_Success, m') \<and> db_ok m' (es1 @ es2) \<and>
      db_validate (Some crc) m' = Some DB_Success) \<and>
    (\<forall>t. t \<notin> fst ` set (es1 @ (tag, ty, d) # es2) \<longrightarrow> db_delete tgt (Some crc) t m = Some (DB_TagNotFound, m))"
proof (intro conjI allI impI)
  have "(ucast ty :: u32) \<noteq> ucast (2 :: u8)" "(ucast ty :: u32) \<noteq> ucast (4 :: u8)"
    using assms(4,5) ucast_inj_u8_u32 by blast+
  then have ty: "ucast ty \<noteq> DB_16b" "ucast ty \<noteq> DB_32b" by (simp_all add: DB_16b_def DB_32b_def)
  obtain m' where "db_delete tgt (Some crc) tag m = Some (DB_Success, m')" "db_ok m' (es1 @ es2)"
    "db_validate (Some crc) m' = Some DB_Success"
    by (rule delete_ok [OF assms(1-3) ty assms(6), of "Some crc"]) blast
  then show "\<exists>m'. db_delete tgt (Some crc) tag m = Some (DB_Success, m') \<and> db_ok m' (es1 @ es2) \<and>
      db_validate (Some crc) m' = Some DB_Success" by blast
  fix t assume "t \<notin> fst ` set (es1 @ (tag, ty, d) # es2)"
  then have "find_data t m = Some (0, of_nat (visited t (es1 @ (tag, ty, d) # es2)))"
    using find_data_ok [OF assms(3), of t] locate_none [of t "es1 @ (tag, ty, d) # es2" 8] by auto
  moreover obtain sz where "db_get_size m = Some sz" using db_ok_size [OF assms(3)] by blast
  ultimately show "db_delete tgt (Some crc) t m = Some (DB_TagNotFound, m)" by (simp add: db_delete_def)
qed

lemma demo_db_ok: "db_ok (le_bytes 4 (20 :: u32) @ [0, 0, 0, 0] @ body [([97], 1, [7]), ([98], 1, [9])] @ [0, 0, 0, 0])
    ([] @ ([97], 1, [7]) # [([98], 1, [9])])"
  unfolding db_ok_def
  by (intro exI conjI) (rule arg_cong2 [where f = append], rule refl,
      rule arg_cong2 [where f = append], rule refl, simp, rule header_size, simp_all add: entry_ok_def)

theorem db_delete_entry_witness:
  "\<exists>m'. db_delete \<lparr>enum_size = 1, memcpy_down = False\<rparr> (Some (\<lambda>_. 5)) [97]
     (le_bytes 4 (20 :: u32) @ [0, 0, 0, 0] @ body [([97], 1, [7]), ([98], 1, [9])] @ [0, 0, 0, 0]) = Some (DB_Success, m') \<and>
   db_ok m' [([98], 1, [9])]"
  using db_delete_entry [OF _ _ demo_db_ok, of "\<lparr>enum_size = 1, memcpy_down = False\<rparr>" "\<lambda>_. 5"] by auto

text \<open>With 16-bit elements \<open>db_delete\<close> takes the number of elements for the number of bytes:
  deleting the entry \<open>a\<close> moves one byte too few, and the entry \<open>b\<close> behind it is lost.\<close>

definition demo_16bit :: mem where
  "demo_16bit = [21, 0, 0, 0, 0, 0, 0, 0, 97, 0, 2, 2, 0, 1, 0, 98, 0, 1, 1, 0, 9, 0, 0, 0]"

lemma demo_16bit_ok: "db_ok demo_16bit [([97], 2, [1, 0]), ([98], 1, [9])]"
  unfolding db_ok_def demo_16bit_def
  by (intro exI [of _ "[21, 0, 0, 0]"] exI [of _ "[0, 0, 0, 0]"] exI [of _ "[0, 0, 0]"])
    (simp add: header_ok_def entry_ok_def len16_def)

definition demo_16bit_after :: mem where
  "demo_16bit_after = [15, 0, 0, 0, 0, 0, 0, 0, 0, 98, 0, 1, 1, 0, 9, 98, 0, 1, 1, 0, 9, 0, 0, 0]"

lemma db_delete_16bit_loses_entry:
  "db_delete byte_target None [97] demo_16bit = Some (DB_Success, demo_16bit_after)"
  "db_read byte_target [98] demo_16bit_after = Some (0, [])"
proof -
  have f: "find_data [97] demo_16bit = Some (8, 1)" using find_data_ok [OF demo_16bit_ok, of "[97]"] by simp
  have z: "db_get_size demo_16bit = Some 21" by (simp add: db_get_size_def load_u32_def load_def demo_16bit_def)
  have g: "db_get_entry_size byte_target [97] demo_16bit = Some 1"
    using read_ok(3) [OF _ demo_16bit_ok, of byte_target "[97]" 2 "[1, 0]"]
    by (simp add: byte_target_def elements_def DB_16b_def len16_def)
  have b: "le_bytes 4 (15 :: u32) = [15, 0, 0, 0]" by (subst le_bytes_4) simp
  show "db_delete byte_target None [97] demo_16bit = Some (DB_Success, demo_16bit_after)"
    by (simp only: db_delete_def f z g Option.bind.bind_lunit prod.case Let_def)
      (simp add: update_db_def b memcpy_def byte_target_def load_def store_def demo_16bit_def demo_16bit_after_def)
  have "db_get_size demo_16bit_after = Some 15" by (simp add: db_get_size_def load_u32_def load_def demo_16bit_after_def)
  moreover have "find_loop [98] demo_16bit_after 15 8 0 = Some (0, 1)"
    by (subst find_loop.simps) (simp add: c_str_def load_u8_def load_def demo_16bit_after_def)
  ultimately show "db_read byte_target [98] demo_16bit_after = Some (0, [])"
    by (simp add: db_read_def find_data_def)
qed

text \<open>\<open>db_get_nof_tags\<close> is the number of entries of the data base, as long as none of
  them is called DEADBEEF; it searches for that tag and counts up to where it finds it.\<close>

lemma db_nof_tags:
  assumes "db_ok m es" "deadbeef \<notin> fst ` set es"
  shows "db_get_nof_tags m = Some (of_nat (length es))"
proof -
  have "visited deadbeef es = length es" using assms(2) by (induction es) auto
  then show ?thesis using find_data_ok [OF assms(1)] by (simp add: db_get_nof_tags_def)
qed

end
