(* ===== verification/Plbus.thy ===== *)
theory Plbus
  imports C_Memory Checksum
begin

text \<open>
  The serial bus protocol of Common/plbus.c: \<open>plbus_put\<close> is called for each byte the
  line delivers, \<open>plbus_poll\<close> looks for a complete frame in the receive buffer, and
  \<open>plbus_send\<close> builds a frame in the same buffer.  A frame is a packed structure: the
  token, the address, the checksum, the size, the error word and the payload, at the
  offsets 0, 1, 2, 4, 6 and 8.  Callbacks are functions of the bytes they are given.
  An access outside the receive buffer has no value.
\<close>

section \<open>The model\<close>

definition PLBUS_TOKEN :: u8 where "PLBUS_TOKEN = 0xA5"
definition PLBUS_BROADCAST :: u8 where "PLBUS_BROADCAST = 0x00"
definition PLBUS_CRC_ERROR :: u16 where "PLBUS_CRC_ERROR = 2"

definition plbus_crc16_tab :: "u16 list" where
  "plbus_crc16_tab =
    [0x0000, 0xc0c1, 0xc181, 0x0140, 0xc301, 0x03c0, 0x0280, 0xc241,
     0xc601, 0x06c0, 0x0780, 0xc741, 0x0500, 0xc5c1, 0xc481, 0x0440,
     0xcc01, 0x0cc0, 0x0d80, 0xcd41, 0x0f00, 0xcfc1, 0xce81, 0x0e40,
     0x0a00, 0xcac1, 0xcb81, 0x0b40, 0xc901, 0x09c0, 0x0880, 0xc841,
     0xd801, 0x18c0, 0x1980, 0xd941, 0x1b00, 0xdbc1, 0xda81, 0x1a40,
     0x1e00, 0xdec1, 0xdf81, 0x1f40, 0xdd01, 0x1dc0, 0x1c80, 0xdc41,
     0x1400, 0xd4c1, 0xd581, 0x1540, 0xd701, 0x17c0, 0x1680, 0xd641,
     0xd201, 0x12c0, 0x1380, 0xd341, 0x1100, 0xd1c1, 0xd081, 0x1040,
     0xf001, 0x30c0, 0x3180, 0xf141, 0x3300, 0xf3c1, 0xf281, 0x3240,
     0x3600, 0xf6c1, 0xf781, 0x3740, 0xf501, 0x35c0, 0x3480, 0xf441,
     0x3c00, 0xfcc1, 0xfd81, 0x3d40, 0xff01, 0x3fc0, 0x3e80, 0xfe41,
     0xfa01, 0x3ac0, 0x3b80, 0xfb41, 0x3900, 0xf9c1, 0xf881, 0x3840,
     0x2800, 0xe8c1, 0xe981, 0x2940, 0xeb01, 0x2bc0, 0x2a80, 0xea41,
     0xee01, 0x2ec0, 0x2f80, 0xef41, 0x2d00, 0xedc1, 0xec81, 0x2c40,
     0xe401, 0x24c0, 0x2580, 0xe541, 0x2700, 0xe7c1, 0xe681, 0x2640,
     0x2200, 0xe2c1, 0xe381, 0x2340, 0xe101, 0x21c0, 0x2080, 0xe041,
     0xa001, 0x60c0, 0x6180, 0xa141, 0x6300, 0xa3c1, 0xa281, 0x6240,
     0x6600, 0xa6c1, 0xa781, 0x6740, 0xa501, 0x65c0, 0x6480, 0xa441,
     0x6c00, 0xacc1, 0xad81, 0x6d40, 0xaf01, 0x6fc0, 0x6e80, 0xae41,
     0xaa01, 0x6ac0, 0x6b80, 0xab41, 0x6900, 0xa9c1, 0xa881, 0x6840,
     0x7800, 0xb8c1, 0xb981, 0x7940, 0xbb01, 0x7bc0, 0x7a80, 0xba41,
     0xbe01, 0x7ec0, 0x7f80, 0xbf41, 0x7d00, 0xbdc1, 0xbc81, 0x7c40,
     0xb401, 0x74c0, 0x7580, 0xb541, 0x7700, 0xb7c1, 0xb681, 0x7640,
     0x7200, 0xb2c1, 0xb381, 0x7340, 0xb101, 0x71c0, 0x7080, 0xb041,
     0x5000, 0x90c1, 0x9181, 0x5140, 0x9301, 0x53c0, 0x5280, 0x9241,
     0x9601, 0x56c0, 0x5780, 0x9741, 0x5500, 0x95c1, 0x9481, 0x5440,
     0x9c01, 0x5cc0, 0x5d80, 0x9d41, 0x5f00, 0x9fc1, 0x9e81, 0x5e40,
     0x5a00, 0x9ac1, 0x9b81, 0x5b40, 0x9901, 0x59c0, 0x5880, 0x9841,
     0x8801, 0x48c0, 0x4980, 0x8941, 0x4b00, 0x8bc1, 0x8a81, 0x4a40,
     0x4e00, 0x8ec1, 0x8f81, 0x4f40, 0x8d01, 0x4dc0, 0x4c80, 0x8c41,
     0x4400, 0x84c1, 0x8581, 0x4540, 0x8701, 0x47c0, 0x4680, 0x8641,
     0x8201, 0x42c0, 0x4380, 0x8341, 0x4100, 0x81c1, 0x8081, 0x4040]"

fun plbus_crc16_loop :: "u8 list \<Rightarrow> u16 \<Rightarrow> u16" where
  "plbus_crc16_loop [] crc = crc"
| "plbus_crc16_loop (b # buf) crc =
     plbus_crc16_loop buf (push_bit 8 crc XOR plbus_crc16_tab ! unat (drop_bit 8 crc XOR ucast b))"

definition plbus_crc16 :: "u8 list \<Rightarrow> u16" where
  "plbus_crc16 buf = plbus_crc16_loop buf 0"

record plbus =
  own_address :: u16
  rx_buffer :: mem
  rx_buffer_size :: u16
  rx_cnt :: u16
  in_sync :: bool
  crc_err :: u16

definition plbus_init :: "plbus \<Rightarrow> plbus" where
  "plbus_init bus = bus\<lparr>rx_cnt := 0, in_sync := False, crc_err := 0\<rparr>"

definition plbus_put :: "u8 \<Rightarrow> plbus \<Rightarrow> plbus option" where
  "plbus_put byte bus =
     (if \<not> in_sync bus
      then Some (if byte = PLBUS_TOKEN then bus\<lparr>in_sync := True, rx_cnt := 1\<rparr> else bus)
      else do {
        buf \<leftarrow> (if rx_cnt bus < rx_buffer_size bus then store (unat (rx_cnt bus)) [byte] (rx_buffer bus)
               else Some (rx_buffer bus));
        Some (bus\<lparr>rx_buffer := buf, rx_cnt := rx_cnt bus + 1\<rparr>)
      })"

fun plbus_puts :: "u8 list \<Rightarrow> plbus \<Rightarrow> plbus option" where
  "plbus_puts [] bus = Some bus"
| "plbus_puts (b # bs) bus = Option.bind (plbus_put b bus) (plbus_puts bs)"

text \<open>The result of a poll: the value returned, the payload handed to the callback, if
  any, and the new state.\<close>

definition plbus_poll :: "(u8 list \<Rightarrow> u16) option \<Rightarrow> plbus \<Rightarrow> (u16 \<times> u8 list option \<times> plbus) option" where
  "plbus_poll on_receive bus =
     (if \<not> in_sync bus then Some (0, None, bus)
      else do {
        sz \<leftarrow> load_u16 4 (rx_buffer bus);
        if unat sz + 8 \<noteq> unat (rx_cnt bus) then Some (0, None, bus)
        else do {
          address \<leftarrow> load_u8 1 (rx_buffer bus);
          if address \<noteq> PLBUS_BROADCAST \<and> ucast address \<noteq> own_address bus then Some (0, None, bus)
          else do {
            covered \<leftarrow> load 8 ((unat sz + 1 + 1 + 2) mod 65536) (rx_buffer bus);
            crc \<leftarrow> load_u16 2 (rx_buffer bus);
            if plbus_crc16 covered \<noteq> crc
            then Some (PLBUS_CRC_ERROR, None, bus\<lparr>crc_err := crc_err bus + 1\<rparr>)
            else (case on_receive of
                None \<Rightarrow> Some (0, None, bus\<lparr>in_sync := False\<rparr>)
              | Some cb \<Rightarrow> do {
                  payload \<leftarrow> load 8 (unat sz) (rx_buffer bus);
                  buf \<leftarrow> store 6 (le_bytes 2 (cb payload)) (rx_buffer bus);
                  Some (0, Some payload, bus\<lparr>in_sync := False, rx_buffer := buf\<rparr>)
                })
          }
        }
      })"

text \<open>The bytes handed to \<open>on_transmit\<close>, the value it returns and the new state.\<close>

definition plbus_send :: "u16 \<Rightarrow> u8 list \<Rightarrow> u16 \<Rightarrow> (u8 list \<Rightarrow> u16) \<Rightarrow> plbus \<Rightarrow> (u16 \<times> u8 list \<times> plbus) option" where
  "plbus_send dst data sz on_transmit bus = do {
     b1 \<leftarrow> store 0 [PLBUS_TOKEN] (rx_buffer bus);
     b2 \<leftarrow> store 1 [ucast dst] b1;
     b3 \<leftarrow> store 4 (le_bytes 2 sz) b2;
     payload \<leftarrow> load 0 (unat sz) data;
     b4 \<leftarrow> store 8 payload b3;
     covered \<leftarrow> load 8 ((unat sz + 2 + 2) mod 65536) b4;
     b5 \<leftarrow> store 2 (le_bytes 2 (plbus_crc16 covered)) b4;
     frame \<leftarrow> load 0 ((8 + unat sz) mod 65536) b5;
     Some (on_transmit frame, frame, bus\<lparr>rx_buffer := b5\<rparr>)
   }"

section \<open>The checksum is the one of the checksum library\<close>

lemma plbus_crc16_tab_eq: "plbus_crc16_tab = crc16_tab"
  by (simp add: plbus_crc16_tab_def crc16_tab_def)

lemma plbus_crc16_eq: "plbus_crc16 buf = crc16 buf"
proof -
  have "plbus_crc16_loop buf c = crc16_loop buf c" for c
    by (induction buf arbitrary: c) (simp_all add: plbus_crc16_tab_eq crc16_step_def)
  then show ?thesis by (simp add: plbus_crc16_def crc16_def)
qed

section \<open>Receiving\<close>

lemma plbus_puts_append:
  "plbus_puts (xs @ ys) bus = Option.bind (plbus_puts xs bus) (plbus_puts ys)"
proof (induction xs arbitrary: bus)
  case (Cons x xs)
  then have "plbus_puts (xs @ ys) = (\<lambda>b. Option.bind (plbus_puts xs b) (plbus_puts ys))" by (rule ext)
  then show ?case by simp
qed simp

lemma plbus_puts_noise:
  "\<not> in_sync bus \<Longrightarrow> PLBUS_TOKEN \<notin> set noise \<Longrightarrow> plbus_puts noise bus = Some bus"
  by (induction noise) (auto simp: plbus_put_def)

lemma word_less_of_nat: "unat c < n \<Longrightarrow> n < 65536 \<Longrightarrow> unat (c + 1) = unat c + 1" for c :: u16
  by (simp add: unat_word_ariths)

text \<open>The bytes after the token fill the buffer in order.\<close>

lemma plbus_puts_fill:
  assumes "in_sync bus" "rx_buffer bus = a @ old @ c" "length a = unat (rx_cnt bus)" "length old = length bs"
    "length a + length bs \<le> unat (rx_buffer_size bus)" "length a + length bs < 65536"
  shows "\<exists>cnt. plbus_puts bs bus = Some (bus\<lparr>rx_buffer := a @ bs @ c, rx_cnt := cnt\<rparr>) \<and>
    unat cnt = length a + length bs"
  using assms
proof (induction bs arbitrary: bus a old)
  case Nil
  then show ?case by (intro exI [of _ "rx_cnt bus"]) simp
next
  case (Cons b bs)
  obtain x old' where o: "old = x # old'" "length old' = length bs" using Cons.prems(4) by (cases old) auto
  have st: "store (unat (rx_cnt bus)) [b] (rx_buffer bus) = Some (a @ b # old' @ c)"
    using store_mid [of a "unat (rx_cnt bus)" "[x]" "[b]" "old' @ c"] Cons.prems o by simp
  define bus1 where "bus1 = bus\<lparr>rx_buffer := a @ b # old' @ c, rx_cnt := rx_cnt bus + 1\<rparr>"
  have lt: "rx_cnt bus < rx_buffer_size bus" using Cons.prems by (simp add: word_less_nat_alt)
  have cnt: "unat (rx_cnt bus + 1) = length a + 1"
    using word_less_of_nat [of "rx_cnt bus" "length a + 1"] Cons.prems by simp
  have "plbus_put b bus = Some bus1"
    using Cons.prems(1) st lt by (simp add: plbus_put_def bus1_def)
  moreover have "\<exists>cnt. plbus_puts bs bus1 = Some (bus1\<lparr>rx_buffer := (a @ [b]) @ bs @ c, rx_cnt := cnt\<rparr>) \<and>
      unat cnt = length (a @ [b]) + length bs"
    by (rule Cons.IH [where old = old']) (use Cons.prems o cnt in \<open>simp_all add: bus1_def\<close>)
  ultimately show ?case by (auto simp: bus1_def)
qed

text \<open>The bytes of a frame.\<close>

definition frame_bytes :: "u8 \<Rightarrow> u16 \<Rightarrow> u8 list \<Rightarrow> u8 list \<Rightarrow> u8 list" where
  "frame_bytes address crc err data =
     [PLBUS_TOKEN, address] @ le_bytes 2 crc @ le_bytes 2 (of_nat (length data) :: u16) @ err @ data"

lemma receive_frame:
  assumes bus: "\<not> in_sync bus" "8 + length data + length tail = length (rx_buffer bus)"
      "drop (8 + length data) (rx_buffer bus) = tail" "unat (rx_buffer_size bus) = length (rx_buffer bus)"
    and "PLBUS_TOKEN \<notin> set noise" "length err = 2"
  shows "\<exists>x cnt. plbus_puts (noise @ frame_bytes address crc err data) bus =
      Some (bus\<lparr>in_sync := True, rx_cnt := cnt, rx_buffer := x # tl (frame_bytes address crc err data) @ tail\<rparr>) \<and>
    unat cnt = 8 + length data"
proof -
  let ?f = "frame_bytes address crc err data"
  define bus1 where "bus1 = bus\<lparr>in_sync := True, rx_cnt := 1\<rparr>"
  have f: "?f = PLBUS_TOKEN # tl ?f" "length (tl ?f) = 7 + length data" using assms(6) by (simp_all add: frame_bytes_def)
  obtain x rest where b: "rx_buffer bus = x # rest" using bus(2) by (cases "rx_buffer bus") auto
  let ?old = "take (7 + length data) rest"
  have "8 + length data = Suc (7 + length data)" by simp
  then have "drop (7 + length data) rest = tail" using b bus(3) by (simp only: drop_Suc_Cons)
  then have sp: "rx_buffer bus = [x] @ ?old @ tail" "length ?old = length (tl ?f)" using b bus(2) f(2) by auto
  have lim: "length (rx_buffer bus) < 65536" using bus(4) unat_u16_less [of "rx_buffer_size bus"] by simp
  have "\<exists>cnt. plbus_puts (tl ?f) bus1 = Some (bus1\<lparr>rx_buffer := [x] @ tl ?f @ tail, rx_cnt := cnt\<rparr>) \<and>
      unat cnt = length [x] + length (tl ?f)"
    by (rule plbus_puts_fill [where old = ?old]) (use sp f bus lim in \<open>simp_all add: bus1_def\<close>)
  moreover have "plbus_puts (noise @ ?f) bus = plbus_puts (tl ?f) bus1"
    by (subst f(1)) (simp add: plbus_puts_append plbus_puts_noise [OF bus(1) assms(5)] plbus_put_def bus(1) bus1_def)
  ultimately obtain cnt where "plbus_puts (noise @ ?f) bus = Some (bus1\<lparr>rx_buffer := [x] @ tl ?f @ tail, rx_cnt := cnt\<rparr>)"
    "unat cnt = 8 + length data" using f(2) by auto
  then show ?thesis by (intro exI [of _ x] exI [of _ cnt]) (simp add: bus1_def)
qed

lemma frame_fields:
  assumes "length err = 2" "length data < 65536" "length r = 4" "m = x # tl (frame_bytes address crc err data) @ r @ s"
  shows "load_u8 1 m = Some address" "load_u16 2 m = Some crc" "load_u16 4 m = Some (of_nat (length data))"
    "load 8 (length data) m = Some data" "load 8 (length data + 4) m = Some (data @ r)"
    "\<And>w :: u16. store 6 (le_bytes 2 w) m = Some (x # tl (frame_bytes address crc (le_bytes 2 w) data) @ r @ s)"
proof -
  let ?c = "le_bytes 2 crc" and ?z = "le_bytes 2 (of_nat (length data) :: u16)"
  have m: "m = x # address # ?c @ ?z @ err @ data @ r @ s" using assms(4) by (simp add: frame_bytes_def)
  show "load_u8 1 m = Some address"
    using load_u8_mid [of "[x]" 1 address "?c @ ?z @ err @ data @ r @ s"] m by simp
  show "load_u16 2 m = Some crc"
    using load_u16_mid [of "[x, address]" 2 crc "?z @ err @ data @ r @ s"] m by simp
  show "load_u16 4 m = Some (of_nat (length data))"
    using load_u16_mid [of "[x, address] @ ?c" 4 "of_nat (length data)" "err @ data @ r @ s"] m by simp
  show "load 8 (length data) m = Some data"
    using load_mid [of "[x, address] @ ?c @ ?z @ err" 8 data "length data" "r @ s"] m assms(1) by simp
  show "load 8 (length data + 4) m = Some (data @ r)"
    using load_mid [of "[x, address] @ ?c @ ?z @ err" 8 "data @ r" "length data + 4" s] m assms(1,3) by simp
  show "store 6 (le_bytes 2 w) m = Some (x # tl (frame_bytes address crc (le_bytes 2 w) data) @ r @ s)" for w :: u16
    using store_mid [of "[x, address] @ ?c @ ?z" 6 err "le_bytes 2 w" "data @ r @ s"] m assms(1)
    by (simp add: frame_bytes_def)
qed

lemma frame_split: "frame_bytes address crc err data = PLBUS_TOKEN # tl (frame_bytes address crc err data)"
  by (simp add: frame_bytes_def)

text \<open>What \<open>plbus_send\<close> hands to the line: the checksum covers the payload and the four
  bytes the buffer happens to hold behind it.\<close>

lemma send_frame:
  assumes "length data < 65520" "12 + length data \<le> length (rx_buffer bus)"
  shows "\<exists>err bus'. plbus_send dst data (of_nat (length data)) tx bus = Some (tx (frame_bytes (ucast dst)
      (plbus_crc16 (data @ take 4 (drop (8 + length data) (rx_buffer bus)))) err data), frame_bytes (ucast dst)
      (plbus_crc16 (data @ take 4 (drop (8 + length data) (rx_buffer bus)))) err data, bus') \<and> length err = 2"
proof -
  let ?n = "length data" and ?m = "rx_buffer bus"
  have cut: "drop i ?m = take k (drop i ?m) @ drop (i + k) ?m" for i k
    by (metis add.commute append_take_drop_id drop_drop)
  obtain h0 h1 c z err p r s where m: "?m = [h0] @ [h1] @ c @ z @ err @ p @ r @ s"
    and len: "length c = 2" "length z = 2" "length err = 2" "length p = ?n" "length r = 4"
  proof
    show "?m = [?m ! 0] @ [?m ! 1] @ take 2 (drop 2 ?m) @ take 2 (drop 4 ?m) @ take 2 (drop 6 ?m) @
        take ?n (drop 8 ?m) @ take 4 (drop (8 + ?n) ?m) @ drop (12 + ?n) ?m"
    proof -
      have "?m = [?m ! 0] @ [?m ! 1] @ drop 2 ?m"
        using assms(2) by (cases ?m; cases "tl ?m") auto
      also have "drop 2 ?m = take 2 (drop 2 ?m) @ drop 4 ?m" using cut [of 2 2] by simp
      also have "drop 4 ?m = take 2 (drop 4 ?m) @ drop 6 ?m" using cut [of 4 2] by simp
      also have "drop 6 ?m = take 2 (drop 6 ?m) @ drop 8 ?m" using cut [of 6 2] by simp
      also have "drop 8 ?m = take ?n (drop 8 ?m) @ drop (8 + ?n) ?m" by (rule cut)
      also have "drop (8 + ?n) ?m = take 4 (drop (8 + ?n) ?m) @ drop (12 + ?n) ?m" using cut [of "8 + ?n" 4] by (simp add: add.commute)
      finally show ?thesis by simp
    qed
  qed (use assms in simp_all)
  define w where "w = (of_nat ?n :: u16)"
  have u: "unat w = ?n" using assms(1) by (simp add: w_def unat_of_nat)
  have md: "(?n + 2 + 2) mod 65536 = ?n + 4" "(8 + ?n) mod 65536 = 8 + ?n" using assms(1) by simp_all
  let ?a = "ucast dst :: u8" and ?z = "le_bytes 2 w"
  let ?crc = "plbus_crc16 (data @ r)"
  have "load (8 + ?n) 4 ?m = Some r"
    using load_mid [of "[h0] @ [h1] @ c @ z @ err @ p" "8 + ?n" r 4 s] m len by simp
  then have r: "take 4 (drop (8 + ?n) ?m) = r"
    unfolding load_def by (metis option.distinct(1) option.inject)
  have 1: "store 0 [PLBUS_TOKEN] ?m = Some ([PLBUS_TOKEN] @ [h1] @ c @ z @ err @ p @ r @ s)"
    using store_mid [of "[]" 0 "[h0]" "[PLBUS_TOKEN]"] m by simp
  have 2: "store 1 [?a] ([PLBUS_TOKEN] @ [h1] @ c @ z @ err @ p @ r @ s) =
      Some ([PLBUS_TOKEN] @ [?a] @ c @ z @ err @ p @ r @ s)"
    by (rule store_mid) simp_all
  have 3: "store 4 ?z ([PLBUS_TOKEN] @ [?a] @ c @ z @ err @ p @ r @ s) =
      Some ([PLBUS_TOKEN] @ [?a] @ c @ ?z @ err @ p @ r @ s)"
    using store_mid [of "[PLBUS_TOKEN] @ [?a] @ c" 4 z ?z "err @ p @ r @ s"] len by simp
  have 4: "store 8 data ([PLBUS_TOKEN] @ [?a] @ c @ ?z @ err @ p @ r @ s) =
      Some ([PLBUS_TOKEN] @ [?a] @ c @ ?z @ err @ data @ r @ s)"
    using store_mid [of "[PLBUS_TOKEN] @ [?a] @ c @ ?z @ err" 8 p data "r @ s"] len by simp
  have 5: "load 8 (?n + 4) ([PLBUS_TOKEN] @ [?a] @ c @ ?z @ err @ data @ r @ s) = Some (data @ r)"
    using load_mid [of "[PLBUS_TOKEN] @ [?a] @ c @ ?z @ err" 8 "data @ r" "?n + 4" s] len by simp
  have 6: "store 2 (le_bytes 2 ?crc) ([PLBUS_TOKEN] @ [?a] @ c @ ?z @ err @ data @ r @ s) =
      Some (frame_bytes ?a ?crc err data @ r @ s)"
    using store_mid [of "[PLBUS_TOKEN] @ [?a]" 2 c "le_bytes 2 ?crc" "?z @ err @ data @ r @ s"] len
    by (simp add: frame_bytes_def w_def)
  have 7: "load 0 (8 + ?n) (frame_bytes ?a ?crc err data @ r @ s) = Some (frame_bytes ?a ?crc err data)"
    using load_mid [of "[]" 0 "frame_bytes ?a ?crc err data" "8 + ?n" "r @ s"] len by (simp add: frame_bytes_def)
  have 0: "load 0 ?n data = Some data" using load_mid [of "[]" 0 data ?n "[]"] by simp
  have "plbus_send dst data w tx bus = Some (tx (frame_bytes ?a ?crc err data), frame_bytes ?a ?crc err data,
      bus\<lparr>rx_buffer := frame_bytes ?a ?crc err data @ r @ s\<rparr>)"
    by (simp only: plbus_send_def u md 0 1 2 3 4 5 6 7 Option.bind.bind_lunit)
  then show ?thesis unfolding r using len(3) by (auto simp: w_def)
qed

text \<open> C4: A frame sent by one station is delivered by another one of that address (or
  by all of them when broadcast): when the receiver is not in a frame, and after any noise without a start token (0xA5), the bytes of the
  frame make the next poll hand over exactly the payload, and the receiver is ready for
  the next frame.  This takes a payload of less than 65520 bytes, buffers on both sides that hold it and twelve bytes more, and
  that both stations agree on the four bytes that follow the
  payload in their buffers, which the checksum covers and the line does not carry.\<close>

theorem plbus_round_trip:
  assumes len: "length data < 65520" "12 + length data \<le> length (rx_buffer tx_bus)" "12 + length data \<le> length (rx_buffer bus)"
    and bus: "\<not> in_sync bus" "unat (rx_buffer_size bus) = length (rx_buffer bus)"
    and addr: "ucast dst = PLBUS_BROADCAST \<or> ucast (ucast dst :: u8) = own_address bus"
    and tail: "take 4 (drop (8 + length data) (rx_buffer tx_bus)) = take 4 (drop (8 + length data) (rx_buffer bus))"
    and noise: "PLBUS_TOKEN \<notin> set noise"
  shows "\<exists>ret frame tx_bus' bus1 bus2.
    plbus_send dst data (of_nat (length data)) line tx_bus = Some (ret, frame, tx_bus') \<and>
    plbus_puts (noise @ frame) bus = Some bus1 \<and>
    plbus_poll (Some cb) bus1 = Some (0, Some data, bus2) \<and> \<not> in_sync bus2"
proof -
  let ?t = "drop (8 + length data) (rx_buffer bus)"
  let ?r = "take 4 ?t" and ?s = "drop 4 ?t"
  define crc where "crc = plbus_crc16 (data @ ?r)"
  obtain err tx_bus' where send: "plbus_send dst data (of_nat (length data)) line tx_bus =
      Some (line (frame_bytes (ucast dst) crc err data), frame_bytes (ucast dst) crc err data, tx_bus')" "length err = 2"
    using send_frame [OF len(1,2), of dst line] tail by (auto simp: crc_def)
  have "8 + length data + length ?t = length (rx_buffer bus)" using len(3) by simp
  from receive_frame [OF bus(1) this refl bus(2) noise send(2)]
  obtain x cnt where puts: "plbus_puts (noise @ frame_bytes (ucast dst) crc err data) bus =
      Some (bus\<lparr>in_sync := True, rx_cnt := cnt, rx_buffer := x # tl (frame_bytes (ucast dst) crc err data) @ ?t\<rparr>)"
    "unat cnt = 8 + length data" by blast
  define m where "m = x # tl (frame_bytes (ucast dst) crc err data) @ ?t"
  have m: "m = x # tl (frame_bytes (ucast dst) crc err data) @ ?r @ ?s" by (simp only: m_def append_take_drop_id)
  have l: "length data < 65536" "length ?r = 4" using len by simp_all
  note f = frame_fields [OF send(2) l m]
  have u: "unat (of_nat (length data) :: u16) = length data" using l by (simp add: unat_of_nat)
  have md: "(length data + 1 + 1 + 2) mod 65536 = length data + 4" using len(1) by simp
  have a: "(ucast dst \<noteq> PLBUS_BROADCAST \<and> ucast (ucast dst :: u8) \<noteq> own_address bus) = False" using addr by blast
  have c: "(length data + 8 \<noteq> unat cnt) = False" "(plbus_crc16 (data @ ?r) \<noteq> crc) = False" using puts(2) by (simp_all add: crc_def)
  define bus1 where "bus1 = bus\<lparr>in_sync := True, rx_cnt := cnt, rx_buffer := m\<rparr>"
  have sel: "in_sync bus1 = True" "rx_buffer bus1 = m" "rx_cnt bus1 = cnt" "own_address bus1 = own_address bus"
    by (simp_all add: bus1_def)
  have "plbus_poll (Some cb) bus1 = Some (0, Some data, bus1\<lparr>in_sync := False,
        rx_buffer := x # tl (frame_bytes (ucast dst) crc (le_bytes 2 (cb data)) data) @ ?r @ ?s\<rparr>)"
    by (simp only: plbus_poll_def sel f u md a c if_False Option.bind.bind_lunit option.case simp_thms)
  then show ?thesis using send(1) puts(1) by (intro exI conjI) (auto simp: bus1_def m_def)
qed

theorem plbus_round_trip_witness:
  "\<exists>ret frame tx_bus' bus1 bus2.
    plbus_send 7 [1, 2, 3] 3 (\<lambda>_. 0) \<lparr>own_address = 1, rx_buffer = replicate 20 0, rx_buffer_size = 20, rx_cnt = 0,
      in_sync = False, crc_err = 0\<rparr> = Some (ret, frame, tx_bus') \<and>
    plbus_puts ([9, 9] @ frame) \<lparr>own_address = 7, rx_buffer = replicate 16 0, rx_buffer_size = 16, rx_cnt = 0,
      in_sync = False, crc_err = 0\<rparr> = Some bus1 \<and>
    plbus_poll (Some (\<lambda>_. 0)) bus1 = Some (0, Some [1, 2, 3], bus2) \<and> \<not> in_sync bus2"
  using plbus_round_trip [of "[1, 2, 3]" "\<lparr>own_address = 1, rx_buffer = replicate 20 0, rx_buffer_size = 20, rx_cnt = 0,
      in_sync = False, crc_err = 0\<rparr>" "\<lparr>own_address = 7, rx_buffer = replicate 16 0, rx_buffer_size = 16, rx_cnt = 0,
      in_sync = False, crc_err = 0\<rparr>" 7 "[9, 9]" "\<lambda>_. 0" "\<lambda>_. 0"]
  by (simp add: PLBUS_TOKEN_def)

section \<open>A frame for another station\<close>

lemma plbus_put_beyond:
  assumes "in_sync bus" "8 \<le> unat (rx_cnt bus)" "unat (rx_cnt bus) < 65535" "unat (rx_buffer_size bus) \<le> length (rx_buffer bus)"
  shows "\<exists>bus'. plbus_put b bus = Some bus' \<and> in_sync bus' \<and> unat (rx_cnt bus') = unat (rx_cnt bus) + 1 \<and>
    rx_buffer_size bus' = rx_buffer_size bus \<and> length (rx_buffer bus') = length (rx_buffer bus) \<and>
    load_u16 4 (rx_buffer bus') = load_u16 4 (rx_buffer bus)"
proof -
  have cnt: "unat (rx_cnt bus + 1) = unat (rx_cnt bus) + 1"
    using word_less_of_nat [of "rx_cnt bus" 65535] assms(3) by simp
  show ?thesis
  proof (cases "rx_cnt bus < rx_buffer_size bus")
    case False
    then show ?thesis using assms(1) cnt by (simp add: plbus_put_def)
  next
    case True
    then have c: "unat (rx_cnt bus) < length (rx_buffer bus)" using assms(4) by (simp add: word_less_nat_alt)
    let ?m = "take (unat (rx_cnt bus)) (rx_buffer bus) @ [b] @ drop (unat (rx_cnt bus) + 1) (rx_buffer bus)"
    have "store (unat (rx_cnt bus)) [b] (rx_buffer bus) = Some ?m" using c by (simp add: store_def)
    moreover have "load_u16 4 ?m = load_u16 4 (rx_buffer bus)" "length ?m = length (rx_buffer bus)"
      using c assms(2) by (auto simp: load_u16_def load_def min_def drop_take)
    ultimately show ?thesis using True assms(1) cnt by (simp add: plbus_put_def)
  qed
qed

text \<open> A complete frame addressed to another station is never released: from then on,
  whatever bytes follow (up to the wrap of the 16-bit counter) and however often the
  bus is polled, no payload is delivered, not even that of a frame for this
  station.\<close>

theorem plbus_foreign_frame_blocks:
  assumes "in_sync bus" "load_u16 4 (rx_buffer bus) = Some sz" "unat sz + 8 = unat (rx_cnt bus)"
    and "load_u8 1 (rx_buffer bus) = Some address" "address \<noteq> PLBUS_BROADCAST" "ucast address \<noteq> own_address bus"
    and "unat (rx_buffer_size bus) \<le> length (rx_buffer bus)" "unat (rx_cnt bus) + length bs < 65536"
  shows "\<exists>bus'. plbus_puts bs bus = Some bus' \<and> plbus_poll cb bus' = Some (0, None, bus')"
proof -
  have "\<exists>q. plbus_puts bs bus1 = Some q \<and> in_sync q \<and> unat (rx_cnt q) = unat (rx_cnt bus1) + length bs \<and>
      load_u16 4 (rx_buffer q) = load_u16 4 (rx_buffer bus1)"
    if "in_sync bus1" "8 \<le> unat (rx_cnt bus1)" "unat (rx_cnt bus1) + length bs < 65536"
      "unat (rx_buffer_size bus1) \<le> length (rx_buffer bus1)" for bus1
    using that
  proof (induction bs arbitrary: bus1)
    case (Cons b bs)
    obtain q where q: "plbus_put b bus1 = Some q" "in_sync q" "unat (rx_cnt q) = unat (rx_cnt bus1) + 1"
      "rx_buffer_size q = rx_buffer_size bus1" "length (rx_buffer q) = length (rx_buffer bus1)"
      "load_u16 4 (rx_buffer q) = load_u16 4 (rx_buffer bus1)"
      using plbus_put_beyond [of bus1 b] Cons.prems by auto
    then show ?case using Cons.IH [of q] Cons.prems by simp
  qed simp
  from this [of bus] obtain q where q: "plbus_puts bs bus = Some q" "in_sync q"
    "unat (rx_cnt q) = unat (rx_cnt bus) + length bs" "load_u16 4 (rx_buffer q) = Some sz" using assms by auto
  show ?thesis
  proof (cases "bs = []")
    case True
    then show ?thesis using q assms by (simp add: plbus_poll_def)
  next
    case False
    then show ?thesis using q assms(3) by (simp add: plbus_poll_def)
  qed
qed

theorem plbus_foreign_frame_blocks_witness:
  "\<exists>bus'. plbus_puts [0xA5, 1, 0, 0, 0, 0, 0, 0] \<lparr>own_address = 1, rx_buffer = [0, 2, 0, 0, 0, 0, 0, 0, 0, 0, 0, 0],
      rx_buffer_size = 12, rx_cnt = 8, in_sync = True, crc_err = 0\<rparr> = Some bus' \<and>
    plbus_poll (Some (\<lambda>_. 0)) bus' = Some (0, None, bus')"
  by (rule plbus_foreign_frame_blocks [where sz = 0 and address = 2])
    (simp_all add: load_u16_def load_u8_def load_def PLBUS_BROADCAST_def)

end
