(* ===== verification/C_Io.thy ===== *)
theory C_Io
  imports C_Prelude
begin

text \<open>
  Drivers that reach the hardware through function pointers.  The model of such a
  driver runs in a state monad.  The state holds the trace of the calls the driver has
  made so far and the number of answers it has got; what the hardware answers is a
  parameter, a sequence of answers, one per call that returns something.  Since the
  driver is deterministic, every behaviour of the hardware is such a sequence, so
  a statement for all sequences is a statement about all hardware.
\<close>

record 'e io =
  trace :: "'e list"
  asked :: nat

definition call :: "'e \<Rightarrow> (('e, 'm) io_scheme, unit) state" where
  "call e = State (\<lambda>s. ((), s\<lparr>trace := trace s @ [e]\<rparr>))"

definition ask :: "(nat \<Rightarrow> 'a) \<Rightarrow> 'e \<Rightarrow> (('e, 'm) io_scheme, 'a) state" where
  "ask answers e = State (\<lambda>s. (answers (asked s), s\<lparr>trace := trace s @ [e], asked := Suc (asked s)\<rparr>))"

definition skip :: "('s, unit) state" where
  "skip = State_Monad.return ()"

fun for_each :: "('x \<Rightarrow> ('s, unit) state) \<Rightarrow> 'x list \<Rightarrow> ('s, unit) state" where
  "for_each f [] = State_Monad.return ()"
| "for_each f (x # xs) = do { f x; for_each f xs }"

lemma run_call [run_simps]: "run_state (call e) s = ((), s\<lparr>trace := trace s @ [e]\<rparr>)"
  by (simp add: call_def)

lemma run_ask [run_simps]:
  "run_state (ask answers e) s = (answers (asked s), s\<lparr>trace := trace s @ [e], asked := Suc (asked s)\<rparr>)"
  by (simp add: ask_def)

lemma run_skip [run_simps]: "run_state skip s = ((), s)"
  by (simp add: skip_def)

text \<open>The state a fresh driver starts in.\<close>

definition io_start :: "'e io" where
  "io_start = \<lparr>trace = [], asked = 0\<rparr>"

lemma io_start_simps [simp]: "trace io_start = []" "asked io_start = 0"
  by (simp_all add: io_start_def)

text \<open>Running an operation: the trace it adds and the answers it uses.\<close>

definition runs :: "('e io, 'a) state \<Rightarrow> 'e io \<Rightarrow> 'a \<Rightarrow> 'e list \<Rightarrow> nat \<Rightarrow> bool" where
  "runs m s x es n \<longleftrightarrow> run_state m s = (x, s\<lparr>trace := trace s @ es, asked := asked s + n\<rparr>)"

lemma runs_call: "runs (call e) s () [e] 0"
  by (simp add: runs_def call_def)

lemma runs_ask: "runs (ask answers e) s (answers (asked s)) [e] 1"
  by (simp add: runs_def ask_def)

lemma runs_return: "runs (State_Monad.return x) s x [] 0"
  by (simp add: runs_def)

lemma runs_bind:
  assumes "runs m s x es n" "runs (f x) (s\<lparr>trace := trace s @ es, asked := asked s + n\<rparr>) y fs k"
  shows "runs (State_Monad.bind m f) s y (es @ fs) (n + k)"
  using assms by (simp add: runs_def add.assoc)

end
