(* ===== verification/Sw_I2c.thy ===== *)
theory Sw_I2c
  imports C_Io
begin

text \<open>
  The bit-banged I2C master of stm32/SW_I2C_Driver.c.  The driver structure holds
  functions that set the two lines and read the data line; setting a line and waiting
  are calls, reading the data line is a call with an answer (the clock line is read only by the
  older driver of stm32/SW_I2C.c, which shares the calls).  Buffers are lists of
  bytes: what is to be written, and what was read.
\<close>

section \<open>The model\<close>

datatype i2c_call = Sda bool | Scl bool | Sda_read | Scl_read | Delay u16

text \<open>\<open>I2C_Result\<close> by value: the code casts the level it read into it.\<close>

definition I2C_SUCCESS :: u16 where "I2C_SUCCESS = 0"
definition I2C_TIMEOUT :: u16 where "I2C_TIMEOUT = 1"
definition I2C_BUS_BUSY :: u16 where "I2C_BUS_BUSY = 3"
definition I2C_ADD_NOT_EXIST :: u16 where "I2C_ADD_NOT_EXIST = 6"
definition I2C_INTERFACE_ERROR :: u16 where "I2C_INTERFACE_ERROR = 8"

definition ACK :: u16 where "ACK = 0"

record i2c_driver =
  DelayValue :: u16
  has_delay :: bool

type_synonym answers = "nat \<Rightarrow> u16"
type_synonym 'a i2c = "(i2c_call io, 'a) state"

definition SW_I2C_ASSIGN :: "i2c_driver option \<Rightarrow> u16 \<times> i2c_driver option" where
  "SW_I2C_ASSIGN d = (if d = None then I2C_INTERFACE_ERROR else I2C_SUCCESS, d)"

definition delay :: "i2c_driver \<Rightarrow> unit i2c" where
  "delay d = (if has_delay d then call (Delay (DelayValue d)) else skip)"

definition SW_I2C_RESET_BUS :: "i2c_driver \<Rightarrow> unit i2c" where
  "SW_I2C_RESET_BUS d = do {
     call (Sda False); call (Scl False); delay d;
     call (Sda True); call (Scl True); delay d
   }"

definition SW_I2C_Start :: "answers \<Rightarrow> i2c_driver \<Rightarrow> u16 i2c" where
  "SW_I2C_Start ans d = do {
     call (Sda True); call (Scl True); delay d;
     level \<leftarrow> ask ans Sda_read;
     if level = 0 then State_Monad.return I2C_BUS_BUSY
     else do {
       call (Sda False); delay d; call (Scl False); delay d;
       State_Monad.return I2C_SUCCESS
     }
   }"

definition SW_I2C_ReStart :: "i2c_driver \<Rightarrow> unit i2c" where
  "SW_I2C_ReStart d = do {
     call (Sda True); call (Scl True); delay d; call (Sda False); delay d; call (Scl False)
   }"

definition SW_I2C_Stop :: "i2c_driver \<Rightarrow> unit i2c" where
  "SW_I2C_Stop d = do {
     delay d; call (Sda False); call (Scl True); delay d; call (Sda True); delay d
   }"

definition SW_I2C_Clock :: "answers \<Rightarrow> i2c_driver \<Rightarrow> u16 i2c" where
  "SW_I2C_Clock ans d = do {
     call (Scl True); delay d; level \<leftarrow> ask ans Sda_read; call (Scl False); delay d;
     State_Monad.return level
   }"

text \<open>The values the loop variable \<open>mask\<close> takes.\<close>

definition masks :: "u8 list" where
  "masks = [0x80, 0x40, 0x20, 0x10, 8, 4, 2, 1]"

fun write_bits :: "answers \<Rightarrow> i2c_driver \<Rightarrow> u8 \<Rightarrow> u8 list \<Rightarrow> unit i2c" where
  "write_bits ans d data [] = State_Monad.return ()"
| "write_bits ans d data (m # ms) = do {
     call (Sda (data AND m \<noteq> 0)); SW_I2C_Clock ans d; write_bits ans d data ms
   }"

definition SW_I2C_Write :: "answers \<Rightarrow> i2c_driver \<Rightarrow> u8 \<Rightarrow> u16 i2c" where
  "SW_I2C_Write ans d data = do {
     write_bits ans d data masks; call (Sda True); SW_I2C_Clock ans d
   }"

fun read_bits :: "answers \<Rightarrow> i2c_driver \<Rightarrow> u8 \<Rightarrow> u8 list \<Rightarrow> u8 i2c" where
  "read_bits ans d data [] = State_Monad.return data"
| "read_bits ans d data (m # ms) = do {
     level \<leftarrow> SW_I2C_Clock ans d;
     read_bits ans d (if level \<noteq> 0 then data OR m else data) ms
   }"

definition SW_I2C_Read :: "answers \<Rightarrow> i2c_driver \<Rightarrow> bool \<Rightarrow> u8 i2c" where
  "SW_I2C_Read ans d ack = do {
     data \<leftarrow> read_bits ans d 0 masks;
     (if ack then do { call (Sda False); SW_I2C_Clock ans d; call (Sda True) }
      else do { call (Sda True); SW_I2C_Clock ans d; skip });
     State_Monad.return data
   }"

text \<open>\<open>while (reglen--) Result = SW_I2C_Write(*reg++)\<close>: the last answer counts.\<close>

fun write_regs :: "answers \<Rightarrow> i2c_driver \<Rightarrow> u16 \<Rightarrow> u8 list \<Rightarrow> u16 i2c" where
  "write_regs ans d Result [] = State_Monad.return Result"
| "write_regs ans d Result (r # rs) = do { res \<leftarrow> SW_I2C_Write ans d r; write_regs ans d res rs }"

text \<open>\<open>while (size-- && Result == I2C_SUCCESS) Result = SW_I2C_Write(*buf++)\<close>\<close>

fun write_buf :: "answers \<Rightarrow> i2c_driver \<Rightarrow> u16 \<Rightarrow> u8 list \<Rightarrow> u16 i2c" where
  "write_buf ans d Result [] = State_Monad.return Result"
| "write_buf ans d Result (b # bs) =
     (if Result = I2C_SUCCESS then do { res \<leftarrow> SW_I2C_Write ans d b; write_buf ans d res bs }
      else State_Monad.return Result)"

text \<open>\<open>while (size--) *buf++ = SW_I2C_Read(size ? 1 : 0)\<close>\<close>

fun read_buf :: "answers \<Rightarrow> i2c_driver \<Rightarrow> nat \<Rightarrow> u8 list i2c" where
  "read_buf ans d 0 = State_Monad.return []"
| "read_buf ans d (Suc n) = do {
     b \<leftarrow> SW_I2C_Read ans d (n \<noteq> 0); bs \<leftarrow> read_buf ans d n; State_Monad.return (b # bs)
   }"

definition SW_I2C_WR :: "answers \<Rightarrow> i2c_driver option \<Rightarrow> u8 \<Rightarrow> u8 list \<Rightarrow> u8 list \<Rightarrow> u16 i2c" where
  "SW_I2C_WR ans drv address reg buf =
     (case drv of
        None \<Rightarrow> State_Monad.return I2C_INTERFACE_ERROR
      | Some d \<Rightarrow> do {
          st \<leftarrow> SW_I2C_Start ans d;
          if st \<noteq> I2C_SUCCESS then State_Monad.return I2C_BUS_BUSY
          else do {
            a \<leftarrow> SW_I2C_Write ans d (address AND 0xFE);
            Result \<leftarrow> (if a = ACK then do {
                r \<leftarrow> write_regs ans d I2C_SUCCESS reg; write_buf ans d r buf
              } else State_Monad.return I2C_ADD_NOT_EXIST);
            SW_I2C_Stop d;
            State_Monad.return Result
          }
        })"

definition SW_I2C_RD :: "answers \<Rightarrow> i2c_driver option \<Rightarrow> u8 \<Rightarrow> u8 list \<Rightarrow> nat \<Rightarrow> (u16 \<times> u8 list) i2c" where
  "SW_I2C_RD ans drv address reg sz =
     (case drv of
        None \<Rightarrow> State_Monad.return (I2C_INTERFACE_ERROR, [])
      | Some d \<Rightarrow> do {
          st \<leftarrow> SW_I2C_Start ans d;
          if st \<noteq> I2C_SUCCESS then State_Monad.return (I2C_BUS_BUSY, [])
          else do {
            a \<leftarrow> SW_I2C_Write ans d (address AND 0xFE);
            res \<leftarrow> (if a = ACK then do {
                r \<leftarrow> write_regs ans d ACK reg;
                SW_I2C_ReStart d;
                a2 \<leftarrow> SW_I2C_Write ans d (address OR 1);
                if a2 = I2C_SUCCESS then do { bs \<leftarrow> read_buf ans d sz; State_Monad.return (I2C_SUCCESS, bs) }
                else State_Monad.return (r, [])
              } else State_Monad.return (I2C_ADD_NOT_EXIST, []));
            SW_I2C_Stop d;
            State_Monad.return res
          }
        })"

definition SW_I2C_FAST_RD :: "answers \<Rightarrow> i2c_driver option \<Rightarrow> u8 \<Rightarrow> nat \<Rightarrow> (u16 \<times> u8 list) i2c" where
  "SW_I2C_FAST_RD ans drv address sz =
     (case drv of
        None \<Rightarrow> State_Monad.return (I2C_INTERFACE_ERROR, [])
      | Some d \<Rightarrow> do {
          st \<leftarrow> SW_I2C_Start ans d;
          if st \<noteq> I2C_SUCCESS then State_Monad.return (I2C_BUS_BUSY, [])
          else do {
            a \<leftarrow> SW_I2C_Write ans d (address OR 1);
            res \<leftarrow> (if a = ACK then do { bs \<leftarrow> read_buf ans d sz; State_Monad.return (I2C_SUCCESS, bs) }
              else State_Monad.return (I2C_ADD_NOT_EXIST, []));
            SW_I2C_Stop d;
            State_Monad.return res
          }
        })"

text \<open>The polling loops count an 8-bit variable down before they test it, so 0 attempts
  are 256.  The argument is the number of rounds left; the result carries the value of
  \<open>attempts\<close> when the loop ends.\<close>

definition rounds :: "u8 \<Rightarrow> nat" where
  "rounds attempts = (if attempts = 0 then 256 else unat attempts)"

fun poll_ack :: "answers \<Rightarrow> i2c_driver \<Rightarrow> u8 \<Rightarrow> nat \<Rightarrow> (u16 \<times> u8) i2c" where
  "poll_ack ans d address 0 = State_Monad.return (0, 0)"
| "poll_ack ans d address (Suc n) = do {
     SW_I2C_ReStart d;
     r \<leftarrow> SW_I2C_Write ans d (address OR 1);
     if r = 0 then State_Monad.return (r, of_nat (Suc n))
     else if n = 0 then State_Monad.return (r, 0)
     else poll_ack ans d address n
   }"

definition SW_I2C_RD_POOLING_ACK ::
    "answers \<Rightarrow> i2c_driver option \<Rightarrow> u8 \<Rightarrow> u8 \<Rightarrow> nat \<Rightarrow> u8 \<Rightarrow> (u16 \<times> u8 list) i2c" where
  "SW_I2C_RD_POOLING_ACK ans drv address reg sz attempts =
     (case drv of
        None \<Rightarrow> State_Monad.return (I2C_INTERFACE_ERROR, [])
      | Some d \<Rightarrow> do {
          st \<leftarrow> SW_I2C_Start ans d;
          if st \<noteq> I2C_SUCCESS then State_Monad.return (I2C_BUS_BUSY, [])
          else do {
            a \<leftarrow> SW_I2C_Write ans d (address AND 0xFE);
            res \<leftarrow> (if a = ACK then do {
                SW_I2C_Write ans d reg;
                (r, left) \<leftarrow> poll_ack ans d address (rounds attempts);
                if left \<noteq> 0 then do { bs \<leftarrow> read_buf ans d sz; State_Monad.return (r, bs) }
                else State_Monad.return (I2C_TIMEOUT, [])
              } else State_Monad.return (I2C_ADD_NOT_EXIST, []));
            SW_I2C_Stop d;
            State_Monad.return res
          }
        })"

fun poll_flag :: "answers \<Rightarrow> i2c_driver \<Rightarrow> u8 \<Rightarrow> nat \<Rightarrow> u8 i2c" where
  "poll_flag ans d flagToPooling 0 = State_Monad.return 0"
| "poll_flag ans d flagToPooling (Suc n) = do {
     ret \<leftarrow> SW_I2C_Read ans d True;
     if n \<noteq> 0 \<and> ret AND flagToPooling = 0 then poll_flag ans d flagToPooling n
     else State_Monad.return (of_nat n)
   }"

definition SW_I2C_WriteWithFlagPooling ::
    "answers \<Rightarrow> i2c_driver option \<Rightarrow> u8 \<Rightarrow> u8 \<Rightarrow> u8 option \<Rightarrow> u8 \<Rightarrow> u8 \<Rightarrow> u16 i2c" where
  "SW_I2C_WriteWithFlagPooling ans drv address reg value attempts flagToPooling =
     (case drv of
        None \<Rightarrow> State_Monad.return I2C_INTERFACE_ERROR
      | Some d \<Rightarrow> do {
          st \<leftarrow> SW_I2C_Start ans d;
          if st \<noteq> I2C_SUCCESS then State_Monad.return I2C_BUS_BUSY
          else do {
            a \<leftarrow> SW_I2C_Write ans d (address AND 0xFE);
            left \<leftarrow> (if a = I2C_SUCCESS then do {
                (if reg \<noteq> 0 then do { SW_I2C_Write ans d reg; skip } else skip);
                (case value of Some v \<Rightarrow> do { SW_I2C_Write ans d v; skip } | None \<Rightarrow> skip);
                SW_I2C_ReStart d;
                SW_I2C_Write ans d (address OR 1);
                left \<leftarrow> poll_flag ans d flagToPooling (rounds attempts);
                SW_I2C_Read ans d False;
                State_Monad.return left
              } else State_Monad.return attempts);
            SW_I2C_Stop d;
            State_Monad.return (if left = 0 then I2C_TIMEOUT else I2C_SUCCESS)
          }
        })"

section \<open>A listener on the bus\<close>

text \<open>
  What a device sees of the master's half of the lines, by the rules of the bus: the
  data line falling while the clock is high is a start condition, rising is a stop
  condition, and a clock pulse without either is a bit.
\<close>

datatype symbol = START | STOP | BIT bool

record bus =
  sda :: bool
  scl :: bool
  pending :: "bool option"
  seen :: "symbol list"

fun listen :: "bus \<Rightarrow> i2c_call \<Rightarrow> bus" where
  "listen b (Sda l) =
     (if scl b \<and> sda b \<noteq> l then b\<lparr>sda := l, pending := None, seen := seen b @ [if l then STOP else START]\<rparr>
      else b\<lparr>sda := l\<rparr>)"
| "listen b (Scl l) =
     (if l then (if scl b then b else b\<lparr>scl := True, pending := Some (sda b)\<rparr>)
      else (case (scl b, pending b) of
              (True, Some x) \<Rightarrow> b\<lparr>scl := False, pending := None, seen := seen b @ [BIT x]\<rparr>
            | _ \<Rightarrow> b\<lparr>scl := False, pending := None\<rparr>))"
| "listen b Sda_read = b"
| "listen b Scl_read = b"
| "listen b (Delay t) = b"

definition idle_bus :: bus where
  "idle_bus = \<lparr>sda = True, scl = True, pending = None, seen = []\<rparr>"

abbreviation hears :: "bus \<Rightarrow> i2c_call list \<Rightarrow> bus" where
  "hears b es \<equiv> foldl listen b es"

definition write_syms :: "u8 \<Rightarrow> symbol list" where
  "write_syms data = map (\<lambda>m. BIT (data AND m \<noteq> 0)) masks @ [BIT True]"

definition read_syms :: "bool \<Rightarrow> symbol list" where
  "read_syms ack = replicate 8 (BIT True) @ [BIT (\<not> ack)]"

text \<open>The byte a device drives onto the line, one level per mask.\<close>

definition byte_of :: "(nat \<Rightarrow> u16) \<Rightarrow> u8" where
  "byte_of f = foldl (\<lambda>data i. if f i \<noteq> 0 then data OR masks ! i else data) 0 [0..<8]"

section \<open>The parts of a transfer, as a device hears them\<close>

lemma run_delay [run_simps]:
  "run_state (delay d) s = ((), s\<lparr>trace := trace s @ (if has_delay d then [Delay (DelayValue d)] else [])\<rparr>)"
  by (simp add: delay_def run_simps)

text \<open>The bus after a run, and where a run stands: the two lines, the symbols heard and the
  number of answers used.\<close>

definition heard :: "i2c_call io \<Rightarrow> bus" where
  "heard s = hears idle_bus (trace s)"

definition at :: "i2c_call io \<Rightarrow> bool \<Rightarrow> bool \<Rightarrow> symbol list \<Rightarrow> nat \<Rightarrow> bool" where
  "at s x y syms n \<longleftrightarrow> heard s = \<lparr>sda = x, scl = y, pending = None, seen = syms\<rparr> \<and> asked s = n"

lemma at_start: "at io_start True True [] 0"
  by (simp add: at_def heard_def idle_bus_def)

lemma clock_run:
  assumes "at s x False syms n"
  shows "\<exists>s'. run_state (SW_I2C_Clock ans d) s = (ans n, s') \<and> at s' x False (syms @ [BIT x]) (Suc n)"
  using assms by (auto simp: SW_I2C_Clock_def run_simps at_def heard_def)

lemma sda_run:
  assumes "at s x False syms n"
  shows "\<exists>s'. run_state (call (Sda l)) s = ((), s') \<and> at s' l False syms n"
  using assms by (auto simp: run_simps at_def heard_def)

lemma start_run:
  assumes "at s True True syms n"
  shows "\<exists>s'. run_state (SW_I2C_Start ans d) s = (if ans n = 0 then I2C_BUS_BUSY else I2C_SUCCESS, s') \<and>
    (if ans n = 0 then at s' True True syms (Suc n) else at s' False False (syms @ [START]) (Suc n))"
  using assms by (auto simp: SW_I2C_Start_def run_simps at_def heard_def)

lemma restart_run:
  assumes "at s x False syms n"
  shows "\<exists>s'. run_state (SW_I2C_ReStart d) s = ((), s') \<and> at s' False False (syms @ [START]) n"
  using assms by (auto simp: SW_I2C_ReStart_def run_simps at_def heard_def)

lemma stop_run:
  assumes "at s x False syms n"
  shows "\<exists>s'. run_state (SW_I2C_Stop d) s = ((), s') \<and> at s' True True (syms @ [STOP]) n"
  using assms by (auto simp: SW_I2C_Stop_def run_simps at_def heard_def)

lemma write_bits_run:
  assumes "at s x False syms n"
  shows "\<exists>s' x'. run_state (write_bits ans d data ms) s = ((), s') \<and>
    at s' x' False (syms @ map (\<lambda>m. BIT (data AND m \<noteq> 0)) ms) (n + length ms)"
  using assms
proof (induction ms arbitrary: s x syms n)
  case (Cons m ms)
  obtain s1 where 1: "run_state (call (Sda (data AND m \<noteq> 0))) s = ((), s1)" "at s1 (data AND m \<noteq> 0) False syms n"
    using sda_run [OF Cons.prems] by blast
  obtain s2 where 2: "run_state (SW_I2C_Clock ans d) s1 = (ans n, s2)"
    "at s2 (data AND m \<noteq> 0) False (syms @ [BIT (data AND m \<noteq> 0)]) (Suc n)" using clock_run [OF 1(2)] by blast
  show ?case using Cons.IH [OF 2(2)] 1(1) 2(1) by auto
qed auto

lemma write_run:
  assumes "at s x False syms n"
  shows "\<exists>s'. run_state (SW_I2C_Write ans d data) s = (ans (n + 8), s') \<and>
    at s' True False (syms @ write_syms data) (n + 9)"
proof -
  obtain s1 x1 where 1: "run_state (write_bits ans d data masks) s = ((), s1)"
    "at s1 x1 False (syms @ map (\<lambda>m. BIT (data AND m \<noteq> 0)) masks) (n + length masks)"
    using write_bits_run [OF assms] by blast
  have m: "length masks = 8" by (simp add: masks_def)
  obtain s2 where 2: "run_state (call (Sda True)) s1 = ((), s2)"
    "at s2 True False (syms @ map (\<lambda>m. BIT (data AND m \<noteq> 0)) masks) (n + 8)" using sda_run [OF 1(2)] m by auto
  show ?thesis using clock_run [OF 2(2), of ans d] 1(1) 2(1) by (auto simp: SW_I2C_Write_def write_syms_def add.commute)
qed

lemma read_bits_run:
  assumes "at s True False syms n"
  shows "\<exists>s'. run_state (read_bits ans d data ms) s =
      (foldl (\<lambda>data i. if ans (n + i) \<noteq> 0 then data OR ms ! i else data) data [0..<length ms], s') \<and>
    at s' True False (syms @ replicate (length ms) (BIT True)) (n + length ms)"
  using assms
proof (induction ms arbitrary: s syms n data)
  case (Cons m ms)
  obtain s1 where 1: "run_state (SW_I2C_Clock ans d) s = (ans n, s1)" "at s1 True False (syms @ [BIT True]) (Suc n)"
    using clock_run [OF Cons.prems] by blast
  have "[0..<length (m # ms)] = 0 # map Suc [0..<length ms]"
    by (simp only: length_Cons upt_conv_Cons zero_less_Suc map_Suc_upt)
  then show ?case using Cons.IH [OF 1(2), of "if ans n \<noteq> 0 then data OR m else data"] 1(1)
    by (auto simp: foldl_map cong: if_cong)
qed auto

lemma read_run:
  assumes "at s True False syms n"
  shows "\<exists>s'. run_state (SW_I2C_Read ans d ack) s = (byte_of (\<lambda>i. ans (n + i)), s') \<and>
    at s' True False (syms @ read_syms ack) (n + 9)"
proof -
  have m: "length masks = 8" by (simp add: masks_def)
  obtain s1 where 1: "run_state (read_bits ans d 0 masks) s = (byte_of (\<lambda>i. ans (n + i)), s1)"
    "at s1 True False (syms @ replicate 8 (BIT True)) (n + 8)"
    using read_bits_run [OF assms, of ans d 0 masks] m by (auto simp: byte_of_def)
  obtain s2 where 2: "run_state (call (Sda (\<not> ack))) s1 = ((), s2)"
    "at s2 (\<not> ack) False (syms @ replicate 8 (BIT True)) (n + 8)" using sda_run [OF 1(2)] by blast
  obtain s3 where 3: "run_state (SW_I2C_Clock ans d) s2 = (ans (n + 8), s3)"
    "at s3 (\<not> ack) False ((syms @ replicate 8 (BIT True)) @ [BIT (\<not> ack)]) (Suc (n + 8))" using clock_run [OF 2(2)] by blast
  obtain s4 where 4: "run_state (call (Sda True)) s3 = ((), s4)"
    "at s4 True False ((syms @ replicate 8 (BIT True)) @ [BIT (\<not> ack)]) (Suc (n + 8))" using sda_run [OF 3(2)] by blast
  show ?thesis using 1 2 3 4 by (cases ack) (auto simp: SW_I2C_Read_def read_syms_def run_simps add.commute)
qed

section \<open>Whole transfers\<close>

lemma write_regs_run:
  assumes "at s x False syms n" "rs \<noteq> [] \<or> x"
  shows "\<exists>s'. run_state (write_regs ans d r rs) s = (if rs = [] then r else ans (n + 9 * length rs - 1), s') \<and>
    at s' True False (syms @ concat (map write_syms rs)) (n + 9 * length rs)"
  using assms
proof (induction rs arbitrary: s x syms n r)
  case (Cons a rs)
  obtain s1 where 1: "run_state (SW_I2C_Write ans d a) s = (ans (n + 8), s1)" "at s1 True False (syms @ write_syms a) (n + 9)"
    using write_run [OF Cons.prems(1)] by blast
  show ?case using Cons.IH [OF 1(2), of "ans (n + 8)"] 1(1) by (auto simp: algebra_simps)
qed auto

text \<open>The part of a buffer that goes out: up to the first byte that is not acknowledged.\<close>

fun sent :: "(nat \<Rightarrow> u16) \<Rightarrow> nat \<Rightarrow> u16 \<Rightarrow> u8 list \<Rightarrow> u8 list" where
  "sent ans n r [] = []"
| "sent ans n r (b # bs) = (if r = 0 then b # sent ans (n + 9) (ans (n + 8)) bs else [])"

lemma write_buf_run:
  assumes "at s True False syms n"
  shows "\<exists>s' k. run_state (write_buf ans d r bs) s =
      (if sent ans n r bs = [] then r else ans (n + 9 * length (sent ans n r bs) - 1), s') \<and>
    at s' True False (syms @ concat (map write_syms (sent ans n r bs))) k"
  using assms
proof (induction bs arbitrary: s syms n r)
  case (Cons b bs)
  show ?case
  proof (cases "r = 0")
    case True
    obtain s1 where 1: "run_state (SW_I2C_Write ans d b) s = (ans (n + 8), s1)" "at s1 True False (syms @ write_syms b) (n + 9)"
      using write_run [OF Cons.prems] by blast
    show ?thesis using Cons.IH [OF 1(2), of "ans (n + 8)"] 1(1) True
      by (auto simp: I2C_SUCCESS_def algebra_simps)
  next
    case False
    then show ?thesis using Cons.prems by (auto simp: I2C_SUCCESS_def)
  qed
qed auto

lemma read_buf_run:
  assumes "at s True False syms n"
  shows "\<exists>s'. run_state (read_buf ans d k) s = (map (\<lambda>j. byte_of (\<lambda>i. ans (n + 9 * j + i))) [0..<k], s') \<and>
    at s' True False (syms @ concat (map read_syms (map (\<lambda>j. j < k - 1) [0..<k]))) (n + 9 * k)"
  using assms
proof (induction k arbitrary: s syms n)
  case (Suc k)
  obtain s1 where 1: "run_state (SW_I2C_Read ans d (k \<noteq> 0)) s = (byte_of (\<lambda>i. ans (n + i)), s1)"
    "at s1 True False (syms @ read_syms (k \<noteq> 0)) (n + 9)" using read_run [OF Suc.prems] by blast
  have u: "[0..<Suc k] = 0 # map Suc [0..<k]" by (simp only: upt_conv_Cons zero_less_Suc map_Suc_upt)
  have m: "map (\<lambda>j. j < Suc k - 1) [0..<Suc k] = (k \<noteq> 0) # map (\<lambda>j. j < k - 1) [0..<k]"
    unfolding u by auto
  obtain s2 where 2: "run_state (read_buf ans d k) s1 = (map (\<lambda>j. byte_of (\<lambda>i. ans (n + 9 + 9 * j + i))) [0..<k], s2)"
    "at s2 True False ((syms @ read_syms (k \<noteq> 0)) @ concat (map read_syms (map (\<lambda>j. j < k - 1) [0..<k]))) (n + 9 + 9 * k)"
    using Suc.IH [OF 1(2)] by blast
  have v: "map (\<lambda>j. byte_of (\<lambda>i. ans (n + 9 * j + i))) [0..<Suc k] =
      byte_of (\<lambda>i. ans (n + i)) # map (\<lambda>j. byte_of (\<lambda>i. ans (n + 9 + 9 * j + i))) [0..<k]"
    unfolding u by (simp add: algebra_simps)
  show ?case unfolding m v using 1(1) 2 by (auto simp: algebra_simps)
qed auto

section \<open>Every transfer is framed\<close>

text \<open>What happens between the start and the stop condition: the clock stays with the master
  and no stop condition is heard, whatever the device answers.\<close>

definition inside :: "'a i2c \<Rightarrow> bool" where
  "inside m \<longleftrightarrow> (\<forall>s x syms n. at s x False syms n \<longrightarrow>
     (\<exists>v s' x' mid k. run_state m s = (v, s') \<and> at s' x' False (syms @ mid) k \<and> STOP \<notin> set mid))"

lemma insideI:
  assumes "\<And>s x syms n. at s x False syms n \<Longrightarrow>
    \<exists>v s' x' mid k. run_state m s = (v, s') \<and> at s' x' False (syms @ mid) k \<and> STOP \<notin> set mid"
  shows "inside m"
  using assms by (auto simp: inside_def)

lemma inside_bind [inv_intros]:
  assumes "inside m" "\<And>v. inside (f v)"
  shows "inside (State_Monad.bind m f)"
proof (rule insideI)
  fix s x syms n assume "at s x False syms n"
  then obtain v s1 x1 mid1 k1 where 1: "run_state m s = (v, s1)" "at s1 x1 False (syms @ mid1) k1" "STOP \<notin> set mid1"
    using assms(1) unfolding inside_def by blast
  obtain w s2 x2 mid2 k2 where "run_state (f v) s1 = (w, s2)" "at s2 x2 False ((syms @ mid1) @ mid2) k2" "STOP \<notin> set mid2"
    using assms(2) [of v] 1(2) unfolding inside_def by blast
  then show "\<exists>v s' x' mid k. run_state (State_Monad.bind m f) s = (v, s') \<and> at s' x' False (syms @ mid) k \<and> STOP \<notin> set mid"
    using 1 by (intro exI [of _ w] exI [of _ s2] exI [of _ x2] exI [of _ "mid1 @ mid2"] exI [of _ k2]) simp
qed

lemma inside_return [inv_intros]: "inside (State_Monad.return v)"
  by (rule insideI) (rule exI, rule exI, rule exI, rule exI [of _ "[]"], auto)

lemma inside_skip [inv_intros]: "inside skip"
  by (simp add: skip_def inside_return)

lemma inside_sda [inv_intros]: "inside (call (Sda l))"
  by (rule insideI, drule sda_run [where l = l]) (metis append.right_neutral empty_iff list.set(1))

lemma inside_clock [inv_intros]: "inside (SW_I2C_Clock ans d)"
proof (rule insideI)
  fix s x syms n assume "at s x False syms n"
  from clock_run [OF this, of ans d] obtain s' where "run_state (SW_I2C_Clock ans d) s = (ans n, s')"
    "at s' x False (syms @ [BIT x]) (Suc n)" by blast
  then show "\<exists>v s' x' mid k. run_state (SW_I2C_Clock ans d) s = (v, s') \<and> at s' x' False (syms @ mid) k \<and> STOP \<notin> set mid"
    by (intro exI conjI) (assumption, assumption, simp)
qed

lemma inside_restart [inv_intros]: "inside (SW_I2C_ReStart d)"
proof (rule insideI)
  fix s x syms n assume "at s x False syms n"
  from restart_run [OF this, of d] obtain s' where "run_state (SW_I2C_ReStart d) s = ((), s')"
    "at s' False False (syms @ [START]) n" by blast
  then show "\<exists>v s' x' mid k. run_state (SW_I2C_ReStart d) s = (v, s') \<and> at s' x' False (syms @ mid) k \<and> STOP \<notin> set mid"
    by (intro exI conjI) (assumption, assumption, simp)
qed

lemma inside_if [inv_intros]: "inside a \<Longrightarrow> inside b \<Longrightarrow> inside (if c then a else b)"
  by simp

lemma inside_option [inv_intros]: "inside a \<Longrightarrow> (\<And>v. inside (f v)) \<Longrightarrow> inside (case p of None \<Rightarrow> a | Some v \<Rightarrow> f v)"
  by (cases p) simp_all

lemma inside_prod [inv_intros]: "(\<And>a b. inside (f a b)) \<Longrightarrow> inside (case p of (a, b) \<Rightarrow> f a b)"
  by (cases p) simp

lemma inside_write_bits [inv_intros]: "inside (write_bits ans d data ms)"
  by (induction ms) (simp_all add: inv_intros)

lemma inside_write [inv_intros]: "inside (SW_I2C_Write ans d data)"
  by (simp add: SW_I2C_Write_def inv_intros)

lemma inside_read_bits [inv_intros]: "inside (read_bits ans d data ms)"
  by (induction ms arbitrary: data) (simp_all add: inv_intros)

lemma inside_read [inv_intros]: "inside (SW_I2C_Read ans d ack)"
  unfolding SW_I2C_Read_def by (intro inv_intros)

lemma inside_write_regs [inv_intros]: "inside (write_regs ans d r rs)"
  by (induction rs arbitrary: r) (simp_all add: inv_intros)

lemma inside_write_buf [inv_intros]: "inside (write_buf ans d r bs)"
  by (induction bs arbitrary: r) (simp_all add: inv_intros)

lemma inside_read_buf [inv_intros]: "inside (read_buf ans d k)"
  by (induction k) (simp_all add: inv_intros)

lemma inside_poll_ack [inv_intros]: "inside (poll_ack ans d address k)"
  by (induction k) (simp_all add: inv_intros)

lemma inside_poll_flag [inv_intros]: "inside (poll_flag ans d flag k)"
  by (induction k) (simp_all add: inv_intros)

text \<open>A transfer that finds its driver and the bus free: a start condition, the first byte, some traffic and one stop
  condition.  Without a driver nothing is called; on a busy bus, where the data line reads low, nothing is heard.  Both are
  reported, and both lines are released at the end.\<close>

definition framed :: "answers \<Rightarrow> i2c_driver option \<Rightarrow> u8 \<Rightarrow> 'a \<Rightarrow> 'a \<Rightarrow> 'a i2c \<Rightarrow> bool" where
  "framed ans drv w absent busy m \<longleftrightarrow> (\<exists>v s'. run_state m io_start = (v, s') \<and> sda (heard s') \<and> scl (heard s') \<and>
     (if drv = None then v = absent \<and> trace s' = []
      else if ans 0 = 0 then v = busy \<and> seen (heard s') = []
      else \<exists>mid. seen (heard s') = START # write_syms w @ mid @ [STOP] \<and> STOP \<notin> set mid))"

lemma framed_transfer:
  assumes "\<And>a. inside (body a)"
  shows "framed ans (Some d) w absent busy (do { st \<leftarrow> SW_I2C_Start ans d; if st \<noteq> I2C_SUCCESS then State_Monad.return busy
     else do { a \<leftarrow> SW_I2C_Write ans d w; res \<leftarrow> body a; SW_I2C_Stop d; State_Monad.return (g res) } })"
proof -
  obtain s1 where 1: "run_state (SW_I2C_Start ans d) io_start = (if ans 0 = 0 then I2C_BUS_BUSY else I2C_SUCCESS, s1)"
    "if ans 0 = 0 then at s1 True True [] (Suc 0) else at s1 False False ([] @ [START]) (Suc 0)"
    using start_run [OF at_start, of ans d] by blast
  show ?thesis
  proof (cases "ans 0 = 0")
    case True
    then show ?thesis using 1 by (simp add: framed_def I2C_BUS_BUSY_def I2C_SUCCESS_def at_def)
  next
    case False
    then have "at s1 False False [START] 1" using 1(2) by simp
    from write_run [OF this, of ans d w] obtain s2 where 2: "run_state (SW_I2C_Write ans d w) s1 = (ans 9, s2)"
      "at s2 True False ([START] @ write_syms w) 10" by auto
    obtain v s3 x3 mid k where 3: "run_state (body (ans 9)) s2 = (v, s3)" "at s3 x3 False (([START] @ write_syms w) @ mid) k" "STOP \<notin> set mid"
      using assms [of "ans 9"] 2(2) unfolding inside_def by blast
    obtain s4 where 4: "run_state (SW_I2C_Stop d) s3 = ((), s4)" "at s4 True True ((([START] @ write_syms w) @ mid) @ [STOP]) k"
      using stop_run [OF 3(2)] by blast
    show ?thesis using 1(1) False 2(1) 3(1,3) 4 by (auto simp: framed_def at_def)
  qed
qed

lemma framed_return: "framed ans None w absent busy (State_Monad.return absent)"
  by (simp add: framed_def heard_def idle_bus_def)

lemma framed_WR: "framed ans drv (address AND 0xFE) I2C_INTERFACE_ERROR I2C_BUS_BUSY (SW_I2C_WR ans drv address reg buf)"
proof (cases drv)
  case (Some d)
  have "inside (
      if a = ACK then do { r \<leftarrow> write_regs ans d I2C_SUCCESS reg; write_buf ans d r buf }
      else State_Monad.return I2C_ADD_NOT_EXIST)" for a
    by (intro inv_intros)
  from framed_transfer [OF this, where g = id and ans = ans and d = d and busy = I2C_BUS_BUSY] show ?thesis
    by (simp add: SW_I2C_WR_def Some cong: if_cong)
qed (simp add: SW_I2C_WR_def framed_return)

lemma framed_RD: "framed ans drv (address AND 0xFE) (I2C_INTERFACE_ERROR, []) (I2C_BUS_BUSY, []) (SW_I2C_RD ans drv address reg sz)"
proof (cases drv)
  case (Some d)
  have "inside (
      if a = ACK then do {
        r \<leftarrow> write_regs ans d ACK reg;
        SW_I2C_ReStart d;
        a2 \<leftarrow> SW_I2C_Write ans d (address OR 1);
        if a2 = I2C_SUCCESS then do { bs \<leftarrow> read_buf ans d sz; State_Monad.return (I2C_SUCCESS, bs) }
        else State_Monad.return (r, [])
      } else State_Monad.return (I2C_ADD_NOT_EXIST, []))" for a
    by (intro inv_intros)
  from framed_transfer [OF this, where g = id and ans = ans and d = d and busy = "(I2C_BUS_BUSY, [])"] show ?thesis
    by (simp add: SW_I2C_RD_def Some cong: if_cong)
qed (simp add: SW_I2C_RD_def framed_return)

lemma framed_FAST_RD: "framed ans drv (address OR 1) (I2C_INTERFACE_ERROR, []) (I2C_BUS_BUSY, []) (SW_I2C_FAST_RD ans drv address sz)"
proof (cases drv)
  case (Some d)
  have "inside (
      if a = ACK then do { bs \<leftarrow> read_buf ans d sz; State_Monad.return (I2C_SUCCESS, bs) }
      else State_Monad.return (I2C_ADD_NOT_EXIST, []))" for a
    by (intro inv_intros)
  from framed_transfer [OF this, where g = id and ans = ans and d = d and busy = "(I2C_BUS_BUSY, [])"] show ?thesis
    by (simp add: SW_I2C_FAST_RD_def Some cong: if_cong)
qed (simp add: SW_I2C_FAST_RD_def framed_return)

lemma framed_RD_POOLING: "framed ans drv (address AND 0xFE) (I2C_INTERFACE_ERROR, []) (I2C_BUS_BUSY, []) (SW_I2C_RD_POOLING_ACK ans drv address r sz attempts)"
proof (cases drv)
  case (Some d)
  have "inside (
      if a = ACK then do {
        SW_I2C_Write ans d r;
        (r, left) \<leftarrow> poll_ack ans d address (rounds attempts);
        if left \<noteq> 0 then do { bs \<leftarrow> read_buf ans d sz; State_Monad.return (r, bs) }
        else State_Monad.return (I2C_TIMEOUT, [])
      } else State_Monad.return (I2C_ADD_NOT_EXIST, []))" for a
    by (intro inv_intros)
  from framed_transfer [OF this, where g = id and ans = ans and d = d and busy = "(I2C_BUS_BUSY, [])"] show ?thesis
    by (simp add: SW_I2C_RD_POOLING_ACK_def Some cong: if_cong)
qed (simp add: SW_I2C_RD_POOLING_ACK_def framed_return)

lemma framed_flag_pooling: "framed ans drv (address AND 0xFE) I2C_INTERFACE_ERROR I2C_BUS_BUSY (SW_I2C_WriteWithFlagPooling ans drv address r v attempts flag)"
proof (cases drv)
  case (Some d)
  have "inside (
      if a = I2C_SUCCESS then do {
        (if r \<noteq> 0 then do { SW_I2C_Write ans d r; skip } else skip);
        (case v of Some v \<Rightarrow> do { SW_I2C_Write ans d v; skip } | None \<Rightarrow> skip);
        SW_I2C_ReStart d;
        SW_I2C_Write ans d (address OR 1);
        left \<leftarrow> poll_flag ans d flag (rounds attempts);
        SW_I2C_Read ans d False;
        State_Monad.return left
      } else State_Monad.return attempts)" for a
    by (intro inv_intros)
  from framed_transfer [OF this, where g = "\<lambda>left. if left = 0 then I2C_TIMEOUT else I2C_SUCCESS"
      and ans = ans and d = d and busy = I2C_BUS_BUSY] show ?thesis
    by (simp add: SW_I2C_WriteWithFlagPooling_def Some cong: if_cong)
qed (simp add: SW_I2C_WriteWithFlagPooling_def framed_return)

text \<open> C6: Every transfer of the I2C master is properly framed, whatever the devices on the
  bus answer.  When the data line is high at the beginning, a device hears one start
  condition first, then the address with the direction bit of the transfer, and one stop condition last and none between.
  When the line is low the transfer reports a busy bus and a device hears nothing; without a driver it reports that and calls
  nothing.  The master has released both lines when it returns.\<close>

theorem i2c_transfers_framed:
  "framed ans drv (address AND 0xFE) I2C_INTERFACE_ERROR I2C_BUS_BUSY (SW_I2C_WR ans drv address reg buf) \<and>
   framed ans drv (address AND 0xFE) (I2C_INTERFACE_ERROR, []) (I2C_BUS_BUSY, []) (SW_I2C_RD ans drv address reg sz) \<and>
   framed ans drv (address OR 1) (I2C_INTERFACE_ERROR, []) (I2C_BUS_BUSY, []) (SW_I2C_FAST_RD ans drv address sz) \<and>
   framed ans drv (address AND 0xFE) (I2C_INTERFACE_ERROR, []) (I2C_BUS_BUSY, []) (SW_I2C_RD_POOLING_ACK ans drv address r sz attempts) \<and>
   framed ans drv (address AND 0xFE) I2C_INTERFACE_ERROR I2C_BUS_BUSY (SW_I2C_WriteWithFlagPooling ans drv address r v attempts flag)"
  by (simp add: framed_WR framed_RD framed_FAST_RD framed_RD_POOLING framed_flag_pooling)

text \<open>What a write puts on the bus: the address with the write bit; when that is acknowledged all register bytes, and the
  data bytes up to the first one that follows an unacknowledged byte.  Byte \<open>k\<close> of a transfer is acknowledged by the answer
  \<open>9 k + 9\<close> of the bus.\<close>

definition written :: "answers \<Rightarrow> u8 \<Rightarrow> u8 list \<Rightarrow> u8 list \<Rightarrow> u8 list" where
  "written ans address reg buf = (address AND 0xFE) # (if ans 9 = 0
     then reg @ take (length (takeWhile (\<lambda>k. ans (9 * (length reg + k) + 9) = 0) [0..<length buf])) buf else [])"

lemma sent_take:
  "sent ans (9 * j + 10) (ans (9 * j + 9)) bs = take (length (takeWhile (\<lambda>k. ans (9 * (j + k) + 9) = 0) [0..<length bs])) bs"
proof (induction bs arbitrary: j)
  case (Cons b bs)
  have "[0..<length (b # bs)] = 0 # map Suc [0..<length bs]" by (simp add: map_Suc_upt upt_conv_Cons del: upt_Suc)
  then show ?case using Cons.IH [of "Suc j"] by (simp add: takeWhile_map comp_def algebra_simps del: upt_Suc)
qed simp

text \<open> C7: What a device hears of a write, whatever the bus answers and for every address, register and data: nothing when
  the data line is low, and the call reports a busy bus.  Otherwise, between one start and one stop condition and most
  significant bit first, the address with the write bit; when it is not acknowledged nothing else, and the call reports
  that the address does not exist; when it is, all register bytes, acknowledged or not, and then the data bytes until one
  byte, the last register byte or a data byte, is not acknowledged.  The result is the acknowledgement of the last byte
  sent, so a register byte before the last one that is not acknowledged goes unnoticed.\<close>

theorem i2c_write_heard:
  "\<exists>s. run_state (SW_I2C_WR ans (Some d) address reg buf) io_start =
      (if ans 0 = 0 then I2C_BUS_BUSY else if ans 9 \<noteq> 0 then I2C_ADD_NOT_EXIST
       else ans (9 * length (written ans address reg buf)), s) \<and>
    seen (heard s) = (if ans 0 = 0 then [] else START # concat (map write_syms (written ans address reg buf)) @ [STOP])"
proof -
  let ?w = "address AND 0xFE"
  obtain s1 where 1: "run_state (SW_I2C_Start ans d) io_start = (if ans 0 = 0 then I2C_BUS_BUSY else I2C_SUCCESS, s1)"
    "if ans 0 = 0 then at s1 True True [] (Suc 0) else at s1 False False ([] @ [START]) (Suc 0)"
    using start_run [OF at_start, of ans d] by blast
  show ?thesis
  proof (cases "ans 0 = 0")
    case True
    then show ?thesis using 1 by (simp add: SW_I2C_WR_def I2C_BUS_BUSY_def I2C_SUCCESS_def at_def)
  next
    case free: False
    then have "at s1 False False [START] 1" using 1(2) by simp
    from write_run [OF this, of ans d ?w] obtain s2 where 2: "run_state (SW_I2C_Write ans d ?w) s1 = (ans 9, s2)"
      "at s2 True False ([START] @ write_syms ?w) 10" by auto
    show ?thesis
    proof (cases "ans 9 = 0")
      case False
      obtain s5 where "run_state (SW_I2C_Stop d) s2 = ((), s5)" "at s5 True True (([START] @ write_syms ?w) @ [STOP]) 10"
        using stop_run [OF 2(2)] by blast
      then show ?thesis using 1(1) 2(1) free False by (simp add: SW_I2C_WR_def written_def ACK_def I2C_SUCCESS_def at_def)
    next
      case True
      let ?n = "9 * length reg + 10" and ?r = "ans (9 * length reg + 9)"
      let ?out = "take (length (takeWhile (\<lambda>k. ans (9 * (length reg + k) + 9) = 0) [0..<length buf])) buf"
      have "\<exists>s'. run_state (write_regs ans d I2C_SUCCESS reg) s2 = (?r, s') \<and>
          at s' True False (([START] @ write_syms ?w) @ concat (map write_syms reg)) ?n"
        using write_regs_run [OF 2(2), of reg ans d I2C_SUCCESS] True by (cases reg) (auto simp: I2C_SUCCESS_def algebra_simps)
      then obtain s3 where 3: "run_state (write_regs ans d I2C_SUCCESS reg) s2 = (?r, s3)"
        "at s3 True False (([START] @ write_syms ?w) @ concat (map write_syms reg)) ?n" by blast
      obtain s4 k4 where 4: "run_state (write_buf ans d ?r buf) s3 = (if ?out = [] then ?r else ans (?n + 9 * length ?out - 1), s4)"
        "at s4 True False ((([START] @ write_syms ?w) @ concat (map write_syms reg)) @ concat (map write_syms ?out)) k4"
        using write_buf_run [OF 3(2), of ans d ?r buf] unfolding sent_take by blast
      obtain s5 where 5: "run_state (SW_I2C_Stop d) s4 = ((), s5)"
        "at s5 True True (((([START] @ write_syms ?w) @ concat (map write_syms reg)) @ concat (map write_syms ?out)) @ [STOP]) k4"
        using stop_run [OF 4(2)] by blast
      have w: "written ans address reg buf = ?w # reg @ ?out" using True by (simp add: written_def)
      have r: "(if ?out = [] then ?r else ans (?n + 9 * length ?out - 1)) = ans (9 * length (?w # reg @ ?out))"
        by (simp add: algebra_simps del: length_take take_eq_Nil)
      have "run_state (SW_I2C_WR ans (Some d) address reg buf) io_start = (ans (9 * length (?w # reg @ ?out)), s5)"
        using 1(1) 2(1) 3(1) 4(1) 5(1) free True unfolding r by (simp add: SW_I2C_WR_def ACK_def I2C_SUCCESS_def)
      then show ?thesis using 5(2) free True unfolding w by (simp add: at_def)
    qed
  qed
qed

text \<open>A register byte that is not acknowledged, followed by one that is: the write reports success.\<close>

lemma i2c_register_unacknowledged:
  "fst (run_state (SW_I2C_WR (\<lambda>n. if n = 0 \<or> n = 18 then 1 else 0) (Some d) 0xA0 [1, 2] []) io_start) = I2C_SUCCESS"
proof -
  let ?a = "\<lambda>n. if n = 0 \<or> n = (18 :: nat) then 1 else 0 :: u16"
  obtain s1 where 1: "run_state (SW_I2C_Start ?a d) io_start = (I2C_SUCCESS, s1)" "at s1 False False [START] 1"
    using start_run [OF at_start, of ?a d] by auto
  obtain s2 where 2: "run_state (SW_I2C_Write ?a d (0xA0 AND 0xFE)) s1 = (0, s2)" "at s2 True False ([START] @ write_syms (0xA0 AND 0xFE)) 10"
    using write_run [OF 1(2), of ?a d "0xA0 AND 0xFE"] by auto
  obtain s3 where 3: "run_state (write_regs ?a d I2C_SUCCESS [1, 2]) s2 = (0, s3)"
    using write_regs_run [OF 2(2), of "[1, 2]" ?a d I2C_SUCCESS] by auto
  obtain s4 where "run_state (SW_I2C_Stop d) s3 = ((), s4)" by (metis (full_types) old.unit.exhaust surj_pair)
  then show ?thesis using 1(1) 2(1) 3 by (simp add: SW_I2C_WR_def ACK_def I2C_SUCCESS_def)
qed

text \<open> A read that is acknowledged returns the bytes the device drives onto the line; the
  master acknowledges all of them but the last.\<close>

theorem i2c_read_data:
  assumes free: "ans 0 \<noteq> 0" and acks: "ans 9 = 0" "ans (9 * length reg + 18) = 0"
  shows "\<exists>s. run_state (SW_I2C_RD ans (Some d) address reg sz) io_start =
      ((I2C_SUCCESS, map (\<lambda>j. byte_of (\<lambda>i. ans (9 * (length reg + 2 + j) + 1 + i))) [0..<sz]), s) \<and>
    seen (heard s) = START # concat (map write_syms ((address AND 0xFE) # reg)) @ [START] @ write_syms (address OR 1) @
      concat (map (\<lambda>j. read_syms (j < sz - 1)) [0..<sz]) @ [STOP]"
proof -
  obtain s1 where 1: "run_state (SW_I2C_Start ans d) io_start = (I2C_SUCCESS, s1)" "at s1 False False [START] 1"
    using start_run [OF at_start, of ans d] free by auto
  obtain s2 where 2: "run_state (SW_I2C_Write ans d (address AND 0xFE)) s1 = (ans 9, s2)"
    "at s2 True False ([START] @ write_syms (address AND 0xFE)) 10"
    using write_run [OF 1(2), of ans d "address AND 0xFE"] by auto
  let ?n = "10 + 9 * length reg"
  let ?r = "if reg = [] then ACK else ans (?n - 1)"
  obtain s3 where 3: "run_state (write_regs ans d ACK reg) s2 = (?r, s3)"
    "at s3 True False (([START] @ write_syms (address AND 0xFE)) @ concat (map write_syms reg)) ?n"
    using write_regs_run [OF 2(2), of reg ans d ACK] by auto
  obtain s4 where 4: "run_state (SW_I2C_ReStart d) s3 = ((), s4)"
    "at s4 False False ((([START] @ write_syms (address AND 0xFE)) @ concat (map write_syms reg)) @ [START]) ?n"
    using restart_run [OF 3(2)] by blast
  obtain s5 where 5: "run_state (SW_I2C_Write ans d (address OR 1)) s4 = (ans (?n + 8), s5)"
    "at s5 True False (((([START] @ write_syms (address AND 0xFE)) @ concat (map write_syms reg)) @ [START]) @ write_syms (address OR 1)) (?n + 9)"
    using write_run [OF 4(2)] by blast
  have a: "ans (?n + 8) = 0" using acks(2) by (simp add: algebra_simps)
  obtain s6 where 6: "run_state (read_buf ans d sz) s5 = (map (\<lambda>j. byte_of (\<lambda>i. ans (?n + 9 + 9 * j + i))) [0..<sz], s6)"
    "at s6 True False ((((([START] @ write_syms (address AND 0xFE)) @ concat (map write_syms reg)) @ [START]) @ write_syms (address OR 1)) @
      concat (map read_syms (map (\<lambda>j. j < sz - 1) [0..<sz]))) (?n + 9 + 9 * sz)"
    using read_buf_run [OF 5(2)] by blast
  obtain s7 k7 where 7: "run_state (SW_I2C_Stop d) s6 = ((), s7)"
    "at s7 True True (((((([START] @ write_syms (address AND 0xFE)) @ concat (map write_syms reg)) @ [START]) @ write_syms (address OR 1)) @
      concat (map read_syms (map (\<lambda>j. j < sz - 1) [0..<sz]))) @ [STOP]) k7"
    using stop_run [OF 6(2)] by blast
  have ix: "?n + 9 + 9 * j + i = 9 * (length reg + 2 + j) + 1 + i" for i j by simp
  have "run_state (SW_I2C_RD ans (Some d) address reg sz) io_start =
      ((I2C_SUCCESS, map (\<lambda>j. byte_of (\<lambda>i. ans (9 * (length reg + 2 + j) + 1 + i))) [0..<sz]), s7)"
    using 1(1) 2(1) 3(1) 4(1) 5(1) 6(1) 7(1) acks(1) a unfolding ix by (simp add: SW_I2C_RD_def ACK_def I2C_SUCCESS_def)
  then show ?thesis using 7(2) by (simp add: at_def comp_def)
qed

theorem i2c_read_data_witness:
  "\<exists>s. run_state (SW_I2C_RD (\<lambda>n. if n = 0 \<or> n = 28 then 1 else 0) (Some \<lparr>DelayValue = 0, has_delay = False\<rparr>) 0xA0 [7] 2) io_start =
    ((I2C_SUCCESS, [0x80, 0]), s)"
proof -
  let ?a = "\<lambda>n. if n = 0 \<or> n = (28 :: nat) then 1 else 0 :: u16"
  have "byte_of (\<lambda>i. ?a (9 * (length [7 :: u8] + 2 + 0) + 1 + i)) = 0x80"
    "byte_of (\<lambda>i. ?a (9 * (length [7 :: u8] + 2 + 1) + 1 + i)) = 0"
    by (simp_all add: byte_of_def masks_def upt_rec)
  then show ?thesis
    using i2c_read_data [where ans = ?a and reg = "[7]" and d = "\<lparr>DelayValue = 0, has_delay = False\<rparr>" and address = "0xA0" and sz = 2] by (auto simp: upt_rec)
qed

text \<open>A device that does not acknowledge its address in the read direction is not noticed: the
  call succeeds and has read nothing.\<close>

lemma i2c_read_unacknowledged:
  "\<exists>s. run_state (SW_I2C_RD (\<lambda>n. if n = 0 \<or> n = 18 then 1 else 0) (Some d) address [] sz) io_start = ((I2C_SUCCESS, []), s)"
proof -
  let ?a = "\<lambda>n. if n = 0 \<or> n = (18 :: nat) then 1 else 0 :: u16"
  obtain s1 where 1: "run_state (SW_I2C_Start ?a d) io_start = (I2C_SUCCESS, s1)" "at s1 False False [START] 1"
    using start_run [OF at_start, of ?a d] by auto
  obtain s2 where 2: "run_state (SW_I2C_Write ?a d (address AND 0xFE)) s1 = (0, s2)"
    "at s2 True False ([START] @ write_syms (address AND 0xFE)) 10"
    using write_run [OF 1(2), of ?a d "address AND 0xFE"] by auto
  obtain s3 where 3: "run_state (SW_I2C_ReStart d) s2 = ((), s3)"
    "at s3 False False (([START] @ write_syms (address AND 0xFE)) @ [START]) 10" using restart_run [OF 2(2)] by blast
  obtain s4 where 4: "run_state (SW_I2C_Write ?a d (address OR 1)) s3 = (1, s4)"
    using write_run [OF 3(2), of ?a d "address OR 1"] by auto
  obtain s5 where "run_state (SW_I2C_Stop d) s4 = ((), s5)" by (metis (full_types) old.unit.exhaust surj_pair)
  then show ?thesis using 1(1) 2(1) 3(1) 4 by (simp add: SW_I2C_RD_def ACK_def I2C_SUCCESS_def)
qed

end
