(* ===== verification/One_Wire.thy ===== *)
theory One_Wire
  imports C_Prelude
begin

text \<open>
  The bit-banged 1-Wire master of stm32/1-Wire.c (single-pin variant).  The pin and
  the delay function are reached through macros and a function pointer that are not
  part of the library; they are a parameter, a record of the operations the code
  uses on a world \<open>'w\<close> that holds the pin and everything connected to it.
\<close>

section \<open>The model\<close>

record 'w pins =
  open_drain :: "'w \<Rightarrow> 'w"
  drive :: "bool \<Rightarrow> 'w \<Rightarrow> 'w"
  sense :: "'w \<Rightarrow> bool"
  wait :: "nat \<Rightarrow> 'w \<Rightarrow> 'w"

definition Time_Pulse_Delay_Low :: nat where "Time_Pulse_Delay_Low = 10"
definition Time_Pulse_Delay_High :: nat where "Time_Pulse_Delay_High = 40"
definition Time_Reset_Low :: nat where "Time_Reset_Low = 500"
definition Time_Before_Reset :: nat where "Time_Before_Reset = 500"
definition Time_After_Reset :: nat where "Time_After_Reset = 350"
definition Time_Hold_Down :: nat where "Time_Hold_Down = 10"

lemmas one_wire_times = Time_Pulse_Delay_Low_def Time_Pulse_Delay_High_def Time_Reset_Low_def
  Time_Before_Reset_def Time_After_Reset_def Time_Hold_Down_def

datatype one_wire_error = One_Wire_Success | One_Wire_Error_No_Echo | One_Wire_Bus_Low_Error
  | One_Wire_Device_Busy | One_Wire_CRC_Error

definition do_pin :: "('w \<Rightarrow> 'w) \<Rightarrow> ('w, unit) state" where
  "do_pin f = State (\<lambda>w. ((), f w))"

definition get_pin :: "('w \<Rightarrow> 'a) \<Rightarrow> ('w, 'a) state" where
  "get_pin f = State (\<lambda>w. (f w, w))"

lemma run_pin [run_simps]: "run_state (do_pin f) w = ((), f w)" "run_state (get_pin g) w = (g w, w)"
  by (simp_all add: do_pin_def get_pin_def)

definition One_Wire_Reset :: "'w pins \<Rightarrow> ('w, one_wire_error) state" where
  "One_Wire_Reset hw = do {
     do_pin (wait hw Time_Before_Reset);
     do_pin (open_drain hw);
     do_pin (drive hw True);
     level \<leftarrow> get_pin (sense hw);
     if \<not> level then State_Monad.return One_Wire_Bus_Low_Error
     else do {
       do_pin (drive hw False);
       do_pin (wait hw Time_Reset_Low);
       do_pin (drive hw True);
       do_pin (wait hw Time_Pulse_Delay_High);
       echo \<leftarrow> get_pin (sense hw);
       do_pin (wait hw Time_After_Reset);
       State_Monad.return (if echo then One_Wire_Error_No_Echo else One_Wire_Success)
     }
   }"

definition One_Wire_Write_Bit :: "'w pins \<Rightarrow> bool \<Rightarrow> ('w, unit) state" where
  "One_Wire_Write_Bit hw b = do {
     do_pin (drive hw False);
     if b then do {
       do_pin (wait hw Time_Pulse_Delay_Low); do_pin (drive hw True); do_pin (wait hw Time_Pulse_Delay_High)
     } else do {
       do_pin (wait hw Time_Pulse_Delay_High); do_pin (drive hw True); do_pin (wait hw Time_Pulse_Delay_Low)
     }
   }"

fun write_byte_loop :: "'w pins \<Rightarrow> u8 \<Rightarrow> nat list \<Rightarrow> ('w, unit) state" where
  "write_byte_loop hw Byte [] = State_Monad.return ()"
| "write_byte_loop hw Byte (cnt # cs) = do {
     One_Wire_Write_Bit hw (Byte AND push_bit cnt 1 \<noteq> 0); write_byte_loop hw Byte cs
   }"

definition One_Wire_Write_Byte :: "'w pins \<Rightarrow> u8 \<Rightarrow> ('w, unit) state" where
  "One_Wire_Write_Byte hw Byte = write_byte_loop hw Byte [0..<8]"

definition One_Wire_Read_Bit :: "'w pins \<Rightarrow> ('w, bool) state" where
  "One_Wire_Read_Bit hw = do {
     do_pin (drive hw False);
     do_pin (wait hw Time_Hold_Down);
     do_pin (drive hw True);
     do_pin (wait hw Time_Pulse_Delay_Low);
     tmp \<leftarrow> get_pin (sense hw);
     do_pin (wait hw Time_Pulse_Delay_High);
     State_Monad.return tmp
   }"

fun read_byte_loop :: "'w pins \<Rightarrow> u8 \<Rightarrow> nat list \<Rightarrow> ('w, u8) state" where
  "read_byte_loop hw tmp [] = State_Monad.return tmp"
| "read_byte_loop hw tmp (cnt # cs) = do {
     b \<leftarrow> One_Wire_Read_Bit hw;
     read_byte_loop hw (if b then tmp OR push_bit cnt 1 else tmp) cs
   }"

definition One_Wire_Read_Byte :: "'w pins \<Rightarrow> ('w, u8) state" where
  "One_Wire_Read_Byte hw = do {
     tmp \<leftarrow> read_byte_loop hw 0 [0..<8];
     do_pin (wait hw Time_Pulse_Delay_High);
     State_Monad.return tmp
   }"

end
