(* ===== verification/Rom_Search.thy ===== *)
theory Rom_Search
  imports C_Prelude
begin

text \<open>
  The search of the 1-Wire bus as a walk through a binary tree, without the bus: the
  serial numbers of the sensors are bit sequences, and a pass of the search is a
  walk from the root to a leaf.  At a bit where the numbers still in the race differ, the
  pass takes the branch that the marker \<open>path\<close> tells and notes in \<open>next\<close> the last
  place where it went left.  The passes visit all leaves in order.
\<close>

type_synonym rom = "bool list"

definition ones :: "rom set \<Rightarrow> nat \<Rightarrow> rom set" where
  "ones S i = {r \<in> S. r ! i}"

definition zeros :: "rom set \<Rightarrow> nat \<Rightarrow> rom set" where
  "zeros S i = {r \<in> S. \<not> r ! i}"

definition side :: "rom set \<Rightarrow> nat \<Rightarrow> bool \<Rightarrow> rom set" where
  "side S i b = {r \<in> S. r ! i = b}"

text \<open>The decision at one bit, on what the two reads of the bus deliver: whether all numbers
  in the race have a one there, and whether all have a zero.\<close>

definition decide :: "u32 \<Rightarrow> bool \<Rightarrow> bool \<Rightarrow> u32 \<times> u32 \<Rightarrow> bool \<times> u32 \<times> u32" where
  "decide path b0 chk s = (case s of (nxt, pos) \<Rightarrow>
     (if \<not> b0 \<and> \<not> chk
      then (if pos AND path \<noteq> 0 then (True, nxt, pos * 2) else (b0, (path AND (pos - 1)) OR pos, pos * 2))
      else (b0, nxt, pos)))"

fun walk :: "nat \<Rightarrow> nat \<Rightarrow> rom set \<Rightarrow> u32 \<Rightarrow> u32 \<times> u32 \<Rightarrow> bool list \<times> u32 \<times> u32" where
  "walk 0 i S path s = ([], s)"
| "walk (Suc n) i S path s =
     (let (b, s') = decide path (\<forall>r \<in> S. r ! i) (\<forall>r \<in> S. \<not> r ! i) s;
          (bs, s'') = walk n (Suc i) (side S i b) path s'
      in (b # bs, s''))"

text \<open>The leaves from left to right, the marker that leads to each, and the number of
  branchings on the way.\<close>

fun leaves :: "nat \<Rightarrow> nat \<Rightarrow> rom set \<Rightarrow> bool list list" where
  "leaves 0 i S = [[]]"
| "leaves (Suc n) i S =
     (if zeros S i = {} then [] else map ((#) False) (leaves n (Suc i) (zeros S i))) @
     (if ones S i = {} then [] else map ((#) True) (leaves n (Suc i) (ones S i)))"

fun paths :: "nat \<Rightarrow> nat \<Rightarrow> rom set \<Rightarrow> nat list" where
  "paths 0 i S = [0]"
| "paths (Suc n) i S =
     (if zeros S i = {} then paths n (Suc i) (ones S i)
      else if ones S i = {} then paths n (Suc i) (zeros S i)
      else map (\<lambda>q. 2 * q) (paths n (Suc i) (zeros S i)) @ map (\<lambda>q. 2 * q + 1) (paths n (Suc i) (ones S i)))"

fun depth :: "nat \<Rightarrow> nat \<Rightarrow> rom set \<Rightarrow> nat" where
  "depth 0 i S = 0"
| "depth (Suc n) i S =
     (if zeros S i = {} then depth n (Suc i) (ones S i)
      else if ones S i = {} then depth n (Suc i) (zeros S i)
      else Suc (max (depth n (Suc i) (zeros S i)) (depth n (Suc i) (ones S i))))"

lemma split_sides:
  "side S i True = ones S i" "side S i False = zeros S i"
  "S = zeros S i \<union> ones S i" "zeros S i \<inter> ones S i = {}"
  by (auto simp: side_def ones_def zeros_def)

lemma all_ones: "(\<forall>r \<in> S. r ! i) \<longleftrightarrow> zeros S i = {}"
  by (auto simp: zeros_def)

lemma all_zeros: "(\<forall>r \<in> S. \<not> r ! i) \<longleftrightarrow> ones S i = {}"
  by (auto simp: ones_def)

lemma no_zeros: "zeros S i = {} \<Longrightarrow> ones S i = S"
  by (auto simp: zeros_def ones_def)

lemma no_ones: "ones S i = {} \<Longrightarrow> zeros S i = S"
  by (auto simp: zeros_def ones_def)

lemma length_paths: "S \<noteq> {} \<Longrightarrow> length (paths n i S) = length (leaves n i S)"
  by (induction n arbitrary: i S) (auto simp: no_zeros no_ones)

text \<open>The three shapes of a node: only ones, only zeros, or a branching.\<close>

lemma node_cases:
  obtains (Ones) "zeros S i = {}" "ones S i = S" | (Zeros) "ones S i = {}" "zeros S i = S" "zeros S i \<noteq> {}"
    | (Both) "zeros S i \<noteq> {}" "ones S i \<noteq> {}"
  using no_zeros no_ones by blast

lemma length_paths_pos: "0 < length (paths n i S)"
proof (induction n arbitrary: i S)
  case (Suc n)
  then show ?case by (cases rule: node_cases [of S i]) simp_all
qed simp

lemma paths_ne [simp]: "paths n i S \<noteq> []"
  using length_paths_pos [of n i S] by auto

lemma paths_hd: "paths n i S ! 0 = 0"
proof (induction n arbitrary: i S)
  case (Suc n)
  then show ?case by (cases rule: node_cases [of S i]) (simp_all add: nth_append length_paths_pos)
qed simp

lemma paths_nonzero: "0 < j \<Longrightarrow> j < length (paths n i S) \<Longrightarrow> 0 < paths n i S ! j"
proof (induction n arbitrary: i S j)
  case (Suc n)
  show ?case
  proof (cases rule: node_cases [of S i])
    case Both
    then show ?thesis using Suc by (auto simp: nth_append)
  qed (use Suc in simp_all)
qed simp

lemma paths_bound: "j < length (paths n i S) \<Longrightarrow> paths n i S ! j < 2 ^ depth n i S"
proof (induction n arbitrary: i S j)
  case (Suc n)
  let ?z = "paths n (Suc i) (zeros S i)" and ?o = "paths n (Suc i) (ones S i)"
  let ?m = "max (depth n (Suc i) (zeros S i)) (depth n (Suc i) (ones S i))"
  have z: "?z ! k < 2 ^ ?m" if "k < length ?z" for k
    using Suc.IH [OF that] by (rule order_less_le_trans) simp
  have o: "?o ! k < 2 ^ ?m" if "k < length ?o" for k
    using Suc.IH [OF that] by (rule order_less_le_trans) simp
  show ?case
  proof (cases rule: node_cases [of S i])
    case Both
    show ?thesis
    proof (cases "j < length ?z")
      case True
      then show ?thesis using Both z [OF True] by (simp add: nth_append)
    next
      case False
      then have "j - length ?z < length ?o" using Suc.prems Both by auto
      from o [OF this] show ?thesis using Both False Suc.prems by (simp add: nth_append)
    qed
  qed (use Suc in simp_all)
qed simp

lemma depth_card: "finite S \<Longrightarrow> S \<noteq> {} \<Longrightarrow> Suc (depth n i S) \<le> card S"
proof (induction n arbitrary: i S)
  case (Suc n)
  have c: "card S = card (zeros S i) + card (ones S i)"
    using Suc.prems by (subst split_sides(3) [of S i]) (auto intro!: card_Un_disjoint simp: zeros_def ones_def)
  have f: "finite (zeros S i)" "finite (ones S i)" using Suc.prems by (auto simp: zeros_def ones_def)
  show ?case
  proof (cases "zeros S i = {} \<or> ones S i = {}")
    case True
    then show ?thesis using Suc by (auto simp: no_zeros no_ones)
  next
    case False
    then have "Suc (depth n (Suc i) (zeros S i)) \<le> card (zeros S i)" "Suc (depth n (Suc i) (ones S i)) \<le> card (ones S i)"
      using Suc.IH f by blast+
    then show ?thesis using False c by simp
  qed
qed (simp add: Suc_leI card_gt_0_iff)

lemma leaves_set:
  assumes "\<And>r. r \<in> S \<Longrightarrow> length r = i + n" "S \<noteq> {}"
  shows "set (leaves n i S) = drop i ` S"
  using assms
proof (induction n arbitrary: i S)
  case 0
  then show ?case by auto
next
  case (Suc n)
  have z: "set (leaves n (Suc i) (zeros S i)) = drop (Suc i) ` zeros S i" if "zeros S i \<noteq> {}"
    using Suc.prems that by (intro Suc.IH) (auto simp: zeros_def)
  have o: "set (leaves n (Suc i) (ones S i)) = drop (Suc i) ` ones S i" if "ones S i \<noteq> {}"
    using Suc.prems that by (intro Suc.IH) (auto simp: ones_def)
  have d: "drop i r = r ! i # drop (Suc i) r" if "r \<in> S" for r
    using Suc.prems(1) [OF that] by (simp add: Cons_nth_drop_Suc)
  have "drop i ` S = ((#) False) ` drop (Suc i) ` zeros S i \<union> ((#) True) ` drop (Suc i) ` ones S i"
    using d by (force simp: zeros_def ones_def image_image)
  then show ?case using z o by auto
qed

lemma leaves_distinct: "distinct (leaves n i S)"
  by (induction n arbitrary: i S) (auto simp: distinct_map)

text \<open>The marker in machine words.\<close>

lemma marker_bit:
  assumes "k < 32"
  shows "(2 ^ k :: u32) AND of_nat m \<noteq> 0 \<longleftrightarrow> bit m k"
proof -
  have "(2 ^ k :: u32) AND of_nat m \<noteq> 0 \<longleftrightarrow> bit (of_nat m :: u32) k"
    by (metis and.commute and_exp_eq_0_iff_not_bit)
  then show ?thesis using assms by (simp add: bit_of_nat_iff)
qed

lemma marker_next:
  assumes "k < 32" "P < 2 ^ k"
  shows "(of_nat (P + 2 ^ k * q) AND (2 ^ k - 1)) OR 2 ^ k = (of_nat (P + 2 ^ k) :: u32)"
proof -
  have "of_nat (P + 2 ^ k * q) AND (2 ^ k - 1 :: u32) = take_bit k (of_nat (P + 2 ^ k * q))"
    by (simp add: take_bit_eq_mask mask_eq_exp_minus_1)
  also have "\<dots> = of_nat (take_bit k (P + 2 ^ k * q))"
    using assms(1) by (simp only: take_bit_of_nat)
  also have "take_bit k (P + 2 ^ k * q) = P" using assms(2) by (simp add: take_bit_eq_mod)
  finally have e: "of_nat (P + 2 ^ k * q) AND (2 ^ k - 1 :: u32) = of_nat P" .
  have "(of_nat P :: u32) OR 2 ^ k = of_nat P + 2 ^ k"
  proof (rule disjunctive_add [symmetric])
    fix n
    have "\<not> bit P k" using assms(2) by (simp add: bit_iff_odd)
    then show "\<not> bit (of_nat P :: u32) n \<or> \<not> bit (2 ^ k :: u32) n"
      by (auto simp: bit_simps bit_of_nat_iff)
  qed
  then show ?thesis unfolding e by simp
qed

text \<open>The decision at a branching.\<close>

lemma decide_branch:
  assumes "k < 32" "P < 2 ^ k"
  shows "decide (of_nat (P + 2 ^ k * q)) False False (nxt, 2 ^ k) =
    (odd q, if odd q then nxt else of_nat (P + 2 ^ k), 2 ^ Suc k)"
proof -
  have "bit (P + 2 ^ k * q) k \<longleftrightarrow> odd q"
    using assms(2) by (simp add: bit_iff_odd)
  then show ?thesis
    using marker_bit [OF assms(1), of "P + 2 ^ k * q"] marker_next [OF assms, of q]
    by (simp add: decide_def del: of_nat_add of_nat_mult of_nat_power)
qed

text \<open>The pass with the marker of the \<open>j\<close>-th leaf ends there, and leaves the marker of the
  next one.\<close>

lemma walk_leaf:
  assumes "S \<noteq> {}" "P < 2 ^ k" "k + depth n i S \<le> 32" "j < length (paths n i S)"
  shows "\<exists>pos. walk n i S (of_nat (P + 2 ^ k * paths n i S ! j)) (nxt, 2 ^ k) =
    (leaves n i S ! j, if Suc j < length (paths n i S) then of_nat (P + 2 ^ k * paths n i S ! Suc j) else nxt, pos)"
  using assms
proof (induction n arbitrary: i S P k j nxt)
  case (Suc n)
  show ?case
  proof (cases rule: node_cases [of S i])
    case Ones
    have "decide path True (ones S i = {}) (nxt, pos) = (True, nxt, pos)" for path pos by (simp add: decide_def)
    moreover have "\<exists>pos. walk n (Suc i) (ones S i) (of_nat (P + 2 ^ k * paths n (Suc i) (ones S i) ! j)) (nxt, 2 ^ k) =
      (leaves n (Suc i) (ones S i) ! j, if Suc j < length (paths n (Suc i) (ones S i))
        then of_nat (P + 2 ^ k * paths n (Suc i) (ones S i) ! Suc j) else nxt, pos)"
      by (rule Suc.IH) (use Suc.prems Ones in simp_all)
    moreover have "j < length (leaves n (Suc i) S)" using Suc.prems(1,4) Ones length_paths [of S n "Suc i"] by simp
    ultimately show ?thesis using Ones Suc.prems(1)
      by (auto simp: all_ones all_zeros split_sides Let_def)
  next
    case Zeros
    have "decide path False True (nxt, pos) = (False, nxt, pos)" for path pos by (simp add: decide_def)
    moreover have "\<exists>pos. walk n (Suc i) (zeros S i) (of_nat (P + 2 ^ k * paths n (Suc i) (zeros S i) ! j)) (nxt, 2 ^ k) =
      (leaves n (Suc i) (zeros S i) ! j, if Suc j < length (paths n (Suc i) (zeros S i))
        then of_nat (P + 2 ^ k * paths n (Suc i) (zeros S i) ! Suc j) else nxt, pos)"
      by (rule Suc.IH) (use Suc.prems Zeros in simp_all)
    moreover have "j < length (leaves n (Suc i) S)" using Suc.prems(1,4) Zeros length_paths [of S n "Suc i"] by simp
    ultimately show ?thesis using Zeros Suc.prems(1)
      by (auto simp: all_ones all_zeros split_sides Let_def)
  next
    case Both
    let ?z = "paths n (Suc i) (zeros S i)" and ?o = "paths n (Suc i) (ones S i)"
    have len: "length (leaves n (Suc i) (zeros S i)) = length ?z" "length (leaves n (Suc i) (ones S i)) = length ?o"
      using Both by (simp_all add: length_paths)
    have k: "k < 32" "Suc k + depth n (Suc i) (zeros S i) \<le> 32" "Suc k + depth n (Suc i) (ones S i) \<le> 32"
      using Suc.prems(3) Both by simp_all
    have w: "walk (Suc n) i S path s = (let (b, s') = decide path False False s;
          (bs, s'') = walk n (Suc i) (side S i b) path s' in (b # bs, s''))" for path s
      using Both by (simp only: walk.simps all_ones all_zeros simp_thms)
    show ?thesis
    proof (cases "j < length ?z")
      case True
      let ?m = "P + 2 ^ k * (2 * ?z ! j)"
      have m: "P + 2 ^ Suc k * x = P + 2 ^ k * (2 * x)" for x by simp
      obtain pos where "walk n (Suc i) (zeros S i) (of_nat ?m) (of_nat (P + 2 ^ k), 2 ^ Suc k) =
          (leaves n (Suc i) (zeros S i) ! j, if Suc j < length ?z then of_nat (P + 2 ^ k * (2 * ?z ! Suc j)) else of_nat (P + 2 ^ k), pos)"
        using Suc.IH [of "zeros S i" P "Suc k" "Suc i" j "of_nat (P + 2 ^ k)"] Both k Suc.prems(2) True unfolding m by auto
      moreover have "decide (of_nat ?m) False False (nxt, 2 ^ k) = (False, of_nat (P + 2 ^ k), 2 ^ Suc k)"
        using decide_branch [OF k(1) Suc.prems(2), of "2 * ?z ! j" nxt] by simp
      ultimately have "walk (Suc n) i S (of_nat ?m) (nxt, 2 ^ k) = (False # leaves n (Suc i) (zeros S i) ! j,
          if Suc j < length ?z then of_nat (P + 2 ^ k * (2 * ?z ! Suc j)) else of_nat (P + 2 ^ k), pos)"
        unfolding w by (simp add: split_sides del: of_nat_add of_nat_mult of_nat_power)
      then show ?thesis
        using Both True len paths_hd [of n "Suc i" "ones S i"] length_paths_pos [of n "Suc i" "ones S i"]
        by (auto simp: nth_append Suc_lessI less_Suc_eq not_less_eq simp del: of_nat_add of_nat_mult of_nat_power walk.simps)
    next
      case False
      define l where "l = j - length ?z"
      have j: "j = length ?z + l" "l < length ?o" using False Suc.prems(4) Both by (auto simp: l_def)
      let ?m = "P + 2 ^ k * (2 * ?o ! l + 1)"
      have m: "P + 2 ^ k + 2 ^ Suc k * x = P + 2 ^ k * (2 * x + 1)" for x by (simp add: algebra_simps)
      obtain pos where "walk n (Suc i) (ones S i) (of_nat ?m) (nxt, 2 ^ Suc k) =
          (leaves n (Suc i) (ones S i) ! l, if Suc l < length ?o then of_nat (P + 2 ^ k * (2 * ?o ! Suc l + 1)) else nxt, pos)"
        using Suc.IH [of "ones S i" "P + 2 ^ k" "Suc k" "Suc i" l nxt] Both k Suc.prems(2) j(2) unfolding m by auto
      moreover have "decide (of_nat ?m) False False (nxt, 2 ^ k) = (True, nxt, 2 ^ Suc k)"
        using decide_branch [OF k(1) Suc.prems(2), of "2 * ?o ! l + 1" nxt] by simp
      ultimately have "walk (Suc n) i S (of_nat ?m) (nxt, 2 ^ k) = (True # leaves n (Suc i) (ones S i) ! l,
          if Suc l < length ?o then of_nat (P + 2 ^ k * (2 * ?o ! Suc l + 1)) else nxt, pos)"
        unfolding w by (simp add: split_sides del: of_nat_add of_nat_mult of_nat_power)
      then show ?thesis
        using Both j len by (auto simp: nth_append simp del: of_nat_add of_nat_mult of_nat_power walk.simps)
    qed
  qed
qed simp

text \<open>A walk in stages: what is left in the race after some bits.\<close>

fun sides :: "rom set \<Rightarrow> nat \<Rightarrow> bool list \<Rightarrow> rom set" where
  "sides S i [] = S"
| "sides S i (b # bs) = sides (side S i b) (Suc i) bs"

lemma walk_append:
  "walk (n + m) i S path s =
     (let (bs, s') = walk n i S path s; (bs', s'') = walk m (i + n) (sides S i bs) path s' in (bs @ bs', s''))"
  by (induction n arbitrary: i S s) (auto simp: Let_def split: prod.splits)

lemma sides_append: "sides (sides S i xs) (i + length xs) ys = sides S i (xs @ ys)"
proof (induction xs arbitrary: S i)
  case (Cons x xs)
  then show ?case using Cons [of "side S i x" "Suc i"] by simp
qed simp

lemma length_walk: "walk n i S path s = (bs, s') \<Longrightarrow> length bs = n"
  by (induction n arbitrary: i S s bs) (auto simp: Let_def split: prod.splits)

text \<open>Bits and bytes of a serial number: the first bit is the lowest bit of the first byte.\<close>

definition bits_byte :: "nat list \<Rightarrow> bool list \<Rightarrow> u8 \<Rightarrow> u8" where
  "bits_byte cs bs sn = foldl (\<lambda>sn (c, b). if b then sn OR push_bit c 1 else sn) sn (zip cs bs)"

lemma bits_byte_simps [simp]:
  "bits_byte [] bs sn = sn"
  "bits_byte (c # cs) (b # bs) sn = bits_byte cs bs (if b then sn OR push_bit c 1 else sn)"
  by (simp_all add: bits_byte_def)

fun rom_bytes :: "nat \<Rightarrow> bool list \<Rightarrow> u8 list" where
  "rom_bytes 0 bs = []"
| "rom_bytes (Suc n) bs = bits_byte [0..<8] (take 8 bs) 0 # rom_bytes n (drop 8 bs)"

end
