(* ===== verification/Ds1822.thy ===== *)
theory Ds1822
  imports One_Wire Rom_Search
begin

text \<open>
  The temperature-sensor driver of stm32/DS1822.c on top of the 1-Wire master: commands
  to one sensor, the scratchpad with its checksum, and the search for all sensors on the
  bus.  The checksum routine \<open>Crc8Dallas\<close> comes from a header the repository does not
  contain and is a parameter.  The pointer to the interface that every sensor holds is
  the pin record; \<open>unsigned long\<close> has 32 bits.
\<close>

section \<open>The model\<close>

definition DS1822_SKIP_ROM :: u8 where "DS1822_SKIP_ROM = 0xCC"
definition DS1822_SEARCH_ROM :: u8 where "DS1822_SEARCH_ROM = 0xF0"
definition DS1822_MATCH_ROM :: u8 where "DS1822_MATCH_ROM = 0x55"
definition DS1822_CONVERT_T_CMD :: u8 where "DS1822_CONVERT_T_CMD = 0x44"
definition DS1822_WRITE_STRATCHPAD_CMD :: u8 where "DS1822_WRITE_STRATCHPAD_CMD = 0x4E"
definition DS1822_READ_STRATCHPAD_CMD :: u8 where "DS1822_READ_STRATCHPAD_CMD = 0xBE"
definition DS1822_STRATCHPAD_SIZE :: nat where "DS1822_STRATCHPAD_SIZE = 9"
definition Res_12bit :: u32 where "Res_12bit = 3"

record DS1822 =
  SN :: "u8 list"
  Temp16 :: int
  Th :: u8
  Tl :: u8
  Resolution :: u32

fun write_bytes :: "'w pins \<Rightarrow> u8 list \<Rightarrow> ('w, unit) state" where
  "write_bytes hw [] = State_Monad.return ()"
| "write_bytes hw (b # bs) = do { One_Wire_Write_Byte hw b; write_bytes hw bs }"

fun read_bytes :: "'w pins \<Rightarrow> nat \<Rightarrow> ('w, u8 list) state" where
  "read_bytes hw 0 = State_Monad.return []"
| "read_bytes hw (Suc n) = do { b \<leftarrow> One_Wire_Read_Byte hw; bs \<leftarrow> read_bytes hw n; State_Monad.return (b # bs) }"

definition DS1822_FindSensor :: "'w pins \<Rightarrow> DS1822 \<Rightarrow> ('w, unit) state" where
  "DS1822_FindSensor hw ds = do { One_Wire_Write_Byte hw DS1822_MATCH_ROM; write_bytes hw (SN ds) }"

definition DS1822_Configure :: "'w pins \<Rightarrow> DS1822 \<Rightarrow> ('w, one_wire_error) state" where
  "DS1822_Configure hw ds = do {
     Result \<leftarrow> One_Wire_Reset hw;
     if Result \<noteq> One_Wire_Success then State_Monad.return Result
     else do {
       DS1822_FindSensor hw ds;
       One_Wire_Write_Byte hw DS1822_WRITE_STRATCHPAD_CMD;
       One_Wire_Write_Byte hw (Th ds);
       One_Wire_Write_Byte hw (Tl ds);
       One_Wire_Write_Byte hw (ucast (push_bit 5 (Resolution ds) OR 0x1F));
       State_Monad.return One_Wire_Success
     }
   }"

definition DS1822_Start_Conversion :: "'w pins \<Rightarrow> DS1822 \<Rightarrow> ('w, one_wire_error) state" where
  "DS1822_Start_Conversion hw ds = do {
     Result \<leftarrow> One_Wire_Reset hw;
     if Result \<noteq> One_Wire_Success then State_Monad.return Result
     else do {
       DS1822_FindSensor hw ds;
       One_Wire_Write_Byte hw DS1822_CONVERT_T_CMD;
       State_Monad.return One_Wire_Success
     }
   }"

definition DS1822_Get_Conversion_Result ::
    "(u8 list \<Rightarrow> u8) \<Rightarrow> 'w pins \<Rightarrow> DS1822 \<Rightarrow> ('w, one_wire_error \<times> DS1822) state" where
  "DS1822_Get_Conversion_Result crc hw ds = do {
     Result \<leftarrow> One_Wire_Reset hw;
     if Result \<noteq> One_Wire_Success then State_Monad.return (Result, ds)
     else do {
       DS1822_FindSensor hw ds;
       One_Wire_Write_Byte hw DS1822_READ_STRATCHPAD_CMD;
       inbuff \<leftarrow> read_bytes hw DS1822_STRATCHPAD_SIZE;
       State_Monad.return (if crc inbuff = 0
         then (One_Wire_Success, ds\<lparr>Temp16 := int (unat (inbuff ! 0)) + 256 * int (unat (inbuff ! 1)),
                Th := inbuff ! 2, Tl := inbuff ! 3,
                Resolution := push_bit 5 (ucast (inbuff ! 4)) AND 0x60\<rparr>)
         else (One_Wire_CRC_Error, ds))
     }
   }"

text \<open>One bit of the search: the position markers \<open>next\<close> and \<open>pos\<close> and the serial number
  byte under construction.\<close>

definition search_bit :: "'w pins \<Rightarrow> u32 \<Rightarrow> nat \<Rightarrow> u32 \<times> u32 \<times> u8 \<Rightarrow> ('w, u32 \<times> u32 \<times> u8) state" where
  "search_bit hw path cnt_bit s = (case s of (nxt, pos, sn) \<Rightarrow> do {
     b0 \<leftarrow> One_Wire_Read_Bit hw;
     chk \<leftarrow> One_Wire_Read_Bit hw;
     let (b, nxt', pos') =
       (if \<not> b0 \<and> \<not> chk
        then (if pos AND path \<noteq> 0 then (True, nxt, pos * 2) else (b0, (path AND (pos - 1)) OR pos, pos * 2))
        else (b0, nxt, pos));
     One_Wire_Write_Bit hw b;
     State_Monad.return (nxt', pos', if b then sn OR push_bit cnt_bit 1 else sn)
   })"

fun search_byte :: "'w pins \<Rightarrow> u32 \<Rightarrow> nat list \<Rightarrow> u32 \<times> u32 \<times> u8 \<Rightarrow> ('w, u32 \<times> u32 \<times> u8) state" where
  "search_byte hw path [] s = State_Monad.return s"
| "search_byte hw path (cnt_bit # cs) s = do { s' \<leftarrow> search_bit hw path cnt_bit s; search_byte hw path cs s' }"

fun search_bytes :: "'w pins \<Rightarrow> u32 \<Rightarrow> nat \<Rightarrow> u32 \<times> u32 \<Rightarrow> ('w, u32 \<times> u32 \<times> u8 list) state" where
  "search_bytes hw path 0 s = State_Monad.return (fst s, snd s, [])"
| "search_bytes hw path (Suc n) s = do {
     (nxt, pos, sn) \<leftarrow> search_byte hw path [0..<8] (fst s, snd s, 0);
     (nxt', pos', sns) \<leftarrow> search_bytes hw path n (nxt, pos);
     State_Monad.return (nxt', pos', sn # sns)
   }"

text \<open>The passes of the search.  The array of sensors and the static counter of the code are
  passed along; a pass beyond the end of the array has no value.  The loop ends when no
  branch is left; the fuel bounds the number of passes.\<close>

fun search_loop ::
    "nat \<Rightarrow> 'w pins \<Rightarrow> u32 \<Rightarrow> DS1822 list \<Rightarrow> u8 \<Rightarrow> ('w, (one_wire_error \<times> DS1822 list \<times> u8) option) state" where
  "search_loop 0 hw path ds cnt_num = State_Monad.return None"
| "search_loop (Suc fuel) hw path ds cnt_num =
     (if length ds \<le> unat cnt_num then State_Monad.return None
      else do {
        let ds1 = ds[unat cnt_num := (ds ! unat cnt_num)\<lparr>Resolution := Res_12bit\<rparr>];
        Result \<leftarrow> One_Wire_Reset hw;
        if Result \<noteq> One_Wire_Success then State_Monad.return (Some (Result, ds1, cnt_num))
        else do {
          One_Wire_Write_Byte hw DS1822_SEARCH_ROM;
          (nxt, pos, sn) \<leftarrow> search_bytes hw path 8 (0, 1);
          let ds2 = ds1[unat cnt_num := (ds1 ! unat cnt_num)\<lparr>SN := sn\<rparr>];
          if nxt \<noteq> 0 then search_loop fuel hw nxt ds2 (cnt_num + 1)
          else State_Monad.return (Some (One_Wire_Success, ds2, cnt_num + 1))
        }
      })"

definition DS1822_Search_Rom ::
    "nat \<Rightarrow> 'w pins \<Rightarrow> DS1822 list \<Rightarrow> u8 \<Rightarrow> ('w, (one_wire_error \<times> DS1822 list \<times> u8) option) state" where
  "DS1822_Search_Rom fuel hw ds cnt_num = search_loop fuel hw 0 ds cnt_num"

definition DS1822_Start_Conversion_Skip_Rom :: "'w pins \<Rightarrow> ('w, one_wire_error) state" where
  "DS1822_Start_Conversion_Skip_Rom hw = do {
     Result \<leftarrow> One_Wire_Reset hw;
     if Result \<noteq> One_Wire_Success then State_Monad.return Result
     else do {
       One_Wire_Reset hw;
       One_Wire_Write_Byte hw DS1822_SKIP_ROM;
       One_Wire_Write_Byte hw DS1822_CONVERT_T_CMD;
       b \<leftarrow> One_Wire_Read_Byte hw;
       State_Monad.return (if b = 0 then One_Wire_Success else One_Wire_Device_Busy)
     }
   }"

text \<open>The temperature is the 16-bit reading, which the code divides by 16 as a \<open>float\<close>; C does
  not fix the order of the two reads in that expression, and the compiler's choice is an
  argument.\<close>

definition DS1822_Read_Skip_Rom :: "bool \<Rightarrow> 'w pins \<Rightarrow> ('w, one_wire_error \<times> int option) state" where
  "DS1822_Read_Skip_Rom left_first hw = do {
     Result \<leftarrow> One_Wire_Reset hw;
     if Result \<noteq> One_Wire_Success then State_Monad.return (Result, None)
     else do {
       One_Wire_Write_Byte hw DS1822_SKIP_ROM;
       One_Wire_Write_Byte hw DS1822_READ_STRATCHPAD_CMD;
       a \<leftarrow> One_Wire_Read_Byte hw;
       b \<leftarrow> One_Wire_Read_Byte hw;
       let (lo, hi) = (if left_first then (a, b) else (b, a));
       State_Monad.return (One_Wire_Success, Some (int (unat lo) + 256 * int (unat hi)))
     }
   }"

text \<open>The divisor of \<open>DS1822_ConvertTemp\<close> and the table of delays; an index outside the table
  has no value.\<close>

definition DS1822_ConvertTemp_Div :: "DS1822 \<Rightarrow> u8 option" where
  "DS1822_ConvertTemp_Div ds =
     (let n = unat (Resolution ds) + 1 in if n < 31 then Some (push_bit n 1) else None)"

definition DS1822_GetConversionDelayValue :: "DS1822 \<Rightarrow> nat option" where
  "DS1822_GetConversionDelayValue ds =
     (let ConvDelay = [100, 200, 400, 800]; i = unat (Resolution ds)
      in if i < length ConvDelay then Some (ConvDelay ! i) else None)"

section \<open>The search on a bus that keeps its promises\<close>

text \<open>
  What the search relies on: the reset wakes up every sensor, the search command puts
  all of them into the race, two reads tell whether the bits in turn are all ones
  or all zeros, and a write keeps the sensors with that bit.
\<close>

locale rom_bus =
  fixes hw :: "'w pins"
    and quiet :: "'w \<Rightarrow> rom set \<Rightarrow> bool"
    and awake :: "'w \<Rightarrow> rom set \<Rightarrow> bool"
    and racing :: "'w \<Rightarrow> rom set \<Rightarrow> rom set \<Rightarrow> nat \<Rightarrow> bool"
    and choosing :: "'w \<Rightarrow> rom set \<Rightarrow> rom set \<Rightarrow> nat \<Rightarrow> bool"
  assumes reset: "quiet w A \<Longrightarrow> A \<noteq> {} \<Longrightarrow>
      \<exists>w'. run_state (One_Wire_Reset hw) w = (One_Wire_Success, w') \<and> awake w' A"
    and search: "awake w A \<Longrightarrow>
      \<exists>w'. run_state (One_Wire_Write_Byte hw DS1822_SEARCH_ROM) w = ((), w') \<and> racing w' A A 0"
    and read_twice: "racing w A S i \<Longrightarrow> i < 64 \<Longrightarrow>
      \<exists>w1 w2. run_state (One_Wire_Read_Bit hw) w = ((\<forall>r \<in> S. r ! i), w1) \<and>
        run_state (One_Wire_Read_Bit hw) w1 = ((\<forall>r \<in> S. \<not> r ! i), w2) \<and> choosing w2 A S i"
    and choose: "choosing w A S i \<Longrightarrow> i < 64 \<Longrightarrow>
      \<exists>w'. run_state (One_Wire_Write_Bit hw b) w = ((), w') \<and> racing w' A (side S i b) (Suc i)"
    and rest: "racing w A S i \<Longrightarrow> quiet w A"
begin

lemma search_bit_run:
  assumes "racing w A S i" "i < 64" "decide path (\<forall>r \<in> S. r ! i) (\<forall>r \<in> S. \<not> r ! i) (nxt, pos) = (b, nxt', pos')"
  shows "\<exists>w'. run_state (search_bit hw path c (nxt, pos, sn)) w =
      ((nxt', pos', if b then sn OR push_bit c 1 else sn), w') \<and> racing w' A (side S i b) (Suc i)"
proof -
  obtain w1 w2 where 1: "run_state (One_Wire_Read_Bit hw) w = ((\<forall>r \<in> S. r ! i), w1)"
    "run_state (One_Wire_Read_Bit hw) w1 = ((\<forall>r \<in> S. \<not> r ! i), w2)" "choosing w2 A S i"
    using read_twice [OF assms(1,2)] by blast
  obtain w3 where 2: "run_state (One_Wire_Write_Bit hw b) w2 = ((), w3)" "racing w3 A (side S i b) (Suc i)"
    using choose [OF 1(3) assms(2)] by blast
  have "run_state (search_bit hw path c (nxt, pos, sn)) w =
      ((nxt', pos', if b then sn OR push_bit c 1 else sn), w3)"
    apply (simp only: search_bit_def prod.case)
    apply (simp only: run_state_bind 1(1) prod.case)
    apply (simp only: run_state_bind 1(2) prod.case)
    apply (simp only: Let_def)
    apply (subst assms(3) [unfolded decide_def prod.case])
    apply (simp only: prod.case)
    apply (simp only: run_state_bind 2(1) prod.case run_state_return)
    done
  with 2(2) show ?thesis by (intro exI [of _ w3] conjI)
qed

lemma search_byte_run:
  assumes "racing w A S i" "i + length cs \<le> 64" "walk (length cs) i S path (nxt, pos) = (bs, nxt', pos')"
  shows "\<exists>w'. run_state (search_byte hw path cs (nxt, pos, sn)) w = ((nxt', pos', bits_byte cs bs sn), w') \<and>
    racing w' A (sides S i bs) (i + length cs)"
  using assms
proof (induction cs arbitrary: w S i nxt pos bs sn)
  case (Cons c cs)
  obtain b n1 p1 where d: "decide path (\<forall>r \<in> S. r ! i) (\<forall>r \<in> S. \<not> r ! i) (nxt, pos) = (b, n1, p1)"
    by (rule prod_cases3)
  have i: "i < 64" using Cons.prems(2) by simp
  obtain w1 where 1: "run_state (search_bit hw path c (nxt, pos, sn)) w = ((n1, p1, if b then sn OR push_bit c 1 else sn), w1)"
    "racing w1 A (side S i b) (Suc i)"
    using search_bit_run [OF Cons.prems(1) i d] by blast
  obtain bs' where bs: "walk (length cs) (Suc i) (side S i b) path (n1, p1) = (bs', nxt', pos')" "bs = b # bs'"
    using Cons.prems(3) d by (auto simp: Let_def split: prod.splits)
  show ?case using Cons.IH [OF 1(2) _ bs(1)] Cons.prems(2) 1(1) bs(2) by auto
qed auto

lemma search_bytes_run:
  assumes "racing w A S i" "i + 8 * n \<le> 64" "walk (8 * n) i S path (nxt, pos) = (bs, nxt', pos')"
  shows "\<exists>w'. run_state (search_bytes hw path n (nxt, pos)) w = ((nxt', pos', rom_bytes n bs), w') \<and>
    racing w' A (sides S i bs) (i + 8 * n)"
  using assms
proof (induction n arbitrary: w S i nxt pos bs)
  case (Suc n)
  obtain b1 n1 p1 where w1: "walk 8 i S path (nxt, pos) = (b1, n1, p1)" by (rule prod_cases3)
  obtain b2 where w2: "walk (8 * n) (i + 8) (sides S i b1) path (n1, p1) = (b2, nxt', pos')" "bs = b1 @ b2"
    using Suc.prems(3) w1 walk_append [of 8 "8 * n" i S path "(nxt, pos)"] by (auto simp: Let_def split: prod.splits)
  have l: "length b1 = 8" using length_walk [OF w1] .
  obtain v1 where v1: "run_state (search_byte hw path [0..<8] (nxt, pos, 0)) w = ((n1, p1, bits_byte [0..<8] b1 0), v1)"
    "racing v1 A (sides S i b1) (i + 8)"
    using search_byte_run [OF Suc.prems(1), of "[0..<8]" path nxt pos b1 n1 p1 0] w1 Suc.prems(2) by auto
  obtain v2 where v2: "run_state (search_bytes hw path n (n1, p1)) v1 = ((nxt', pos', rom_bytes n b2), v2)"
    "racing v2 A (sides (sides S i b1) (i + 8) b2) (i + 8 + 8 * n)"
    using Suc.IH [OF v1(2) _ w2(1)] Suc.prems(2) by auto
  note s = sides_append [of S i b1 b2]
  show ?case using v1(1) v2 w2(2) l s by (auto simp: add.assoc simp del: upt_Suc)
qed auto

text \<open>One pass, and all of them.\<close>

lemma pass_run:
  assumes "quiet w A" "A \<noteq> {}" "walk 64 0 A path (0, 1) = (bs, nxt, pos)"
  shows "\<exists>w1 w2 w3. run_state (One_Wire_Reset hw) w = (One_Wire_Success, w1) \<and>
    run_state (One_Wire_Write_Byte hw DS1822_SEARCH_ROM) w1 = ((), w2) \<and>
    run_state (search_bytes hw path 8 (0, 1)) w2 = ((nxt, pos, rom_bytes 8 bs), w3) \<and> quiet w3 A"
proof -
  obtain w1 where 1: "run_state (One_Wire_Reset hw) w = (One_Wire_Success, w1)" "awake w1 A"
    using reset [OF assms(1,2)] by blast
  obtain w2 where 2: "run_state (One_Wire_Write_Byte hw DS1822_SEARCH_ROM) w1 = ((), w2)" "racing w2 A A 0"
    using search [OF 1(2)] by blast
  obtain w3 where 3: "run_state (search_bytes hw path 8 (0, 1)) w2 = ((nxt, pos, rom_bytes 8 bs), w3)"
    "racing w3 A (sides A 0 bs) (0 + 8 * 8)"
    using search_bytes_run [OF 2(2), of 8 path 0 1 bs nxt pos] assms(3) by auto
  show ?thesis using 1(1) 2(1) 3 rest by blast
qed

lemma one_wire_start: "(0::nat) + 2 ^ 0 * x = x" "(2::u32) ^ 0 = 1"
  by simp_all

lemma search_loop_step:
  assumes "quiet w A" "A \<noteq> {}" "walk 64 0 A path (0, 1) = (bs, nxt, pos)" "unat cnt < length ds"
    and "ds' = ds[unat cnt := (ds ! unat cnt)\<lparr>Resolution := Res_12bit, SN := rom_bytes 8 bs\<rparr>]"
  shows "\<exists>w'. quiet w' A \<and> run_state (search_loop (Suc fuel) hw path ds cnt) w =
    (if nxt \<noteq> 0 then run_state (search_loop fuel hw nxt ds' (cnt + 1)) w'
     else (Some (One_Wire_Success, ds', cnt + 1), w'))"
proof -
  obtain w1 w2 w3 where 1: "run_state (One_Wire_Reset hw) w = (One_Wire_Success, w1)"
    "run_state (One_Wire_Write_Byte hw DS1822_SEARCH_ROM) w1 = ((), w2)"
    "run_state (search_bytes hw path 8 (0, 1)) w2 = ((nxt, pos, rom_bytes 8 bs), w3)" "quiet w3 A"
    using pass_run [OF assms(1-3)] by blast
  then show ?thesis using assms(4,5) by (intro exI [of _ w3]) (simp add: Let_def del: search_bytes.simps)
qed

lemma search_loop_run:
  assumes A: "finite A" "A \<noteq> {}" "card A \<le> 32"
    and j: "j < length (leaves 64 0 A)" "unat cnt + (length (leaves 64 0 A) - j) \<le> length ds"
      "unat cnt + (length (leaves 64 0 A) - j) < 256" "length (leaves 64 0 A) - j \<le> fuel" "quiet w A"
  shows "\<exists>ds' cnt' w'. run_state (search_loop fuel hw (of_nat (paths 64 0 A ! j)) ds cnt) w =
      (Some (One_Wire_Success, ds', cnt'), w') \<and> unat cnt' = unat cnt + (length (leaves 64 0 A) - j) \<and>
    length ds' = length ds \<and> take (unat cnt) ds' = take (unat cnt) ds \<and>
    map SN (take (length (leaves 64 0 A) - j) (drop (unat cnt) ds')) = map (rom_bytes 8) (drop j (leaves 64 0 A))"
  using j
proof (induction "length (leaves 64 0 A) - j" arbitrary: j cnt ds fuel w)
  case (Suc k)
  let ?L = "leaves 64 0 A" and ?P = "paths 64 0 A"
  have len: "length ?P = length ?L" using A(2) by (rule length_paths)
  have dep: "depth 64 0 A \<le> 31" using depth_card [OF A(1,2), of 64 0] A(3) by simp
  obtain pos where w: "walk 64 0 A (of_nat (?P ! j)) (0, 1) =
      (?L ! j, if Suc j < length ?L then of_nat (?P ! Suc j) else 0, pos)"
    using walk_leaf [of A 0 0 64 0 j 0, unfolded one_wire_start] A(2) dep Suc.prems(1) len by fastforce
  define nxt where "nxt = (if Suc j < length ?L then of_nat (?P ! Suc j) else 0 :: u32)"
  define ds1 where "ds1 = ds[unat cnt := (ds ! unat cnt)\<lparr>Resolution := Res_12bit, SN := rom_bytes 8 (?L ! j)\<rparr>]"
  have c: "unat cnt < length ds" "unat (cnt + 1) = unat cnt + 1"
    using Suc.prems Suc.hyps(2) by (simp_all add: unat_word_ariths)
  obtain fuel' where f: "fuel = Suc fuel'" using Suc.prems(4) Suc.hyps(2) by (cases fuel) auto
  obtain w' where w': "quiet w' A" "run_state (search_loop fuel hw (of_nat (?P ! j)) ds cnt) w =
      (if nxt \<noteq> 0 then run_state (search_loop fuel' hw nxt ds1 (cnt + 1)) w'
       else (Some (One_Wire_Success, ds1, cnt + 1), w'))"
    using search_loop_step [OF Suc.prems(5) A(2) w [folded nxt_def] c(1) ds1_def, of fuel'] f by blast
  have dj: "drop j ?L = ?L ! j # drop (Suc j) ?L" using Suc.prems(1) by (simp add: Cons_nth_drop_Suc)
  have l1: "length ds1 = length ds" "take (unat cnt) ds1 = take (unat cnt) ds" "SN (ds1 ! unat cnt) = rom_bytes 8 (?L ! j)"
    using c(1) by (simp_all add: ds1_def)
  show ?case
  proof (cases "Suc j < length ?L")
    case False
    then have "nxt = 0" "k = 0" "drop (Suc j) ?L = []" using Suc.hyps(2) by (simp_all add: nxt_def)
    moreover have "length ?L - j = 1" using Suc.hyps(2) \<open>k = 0\<close> by simp
    moreover have "take 1 (drop (unat cnt) ds1) = [ds1 ! unat cnt]"
      using c(1) l1(1) by (simp add: take_Suc_conv_app_nth)
    ultimately show ?thesis using w'(2) c l1 dj by simp
  next
    case True
    have "0 < ?P ! Suc j" "?P ! Suc j < 2 ^ 32"
    proof -
      show "0 < ?P ! Suc j" using paths_nonzero True len by simp
      have "?P ! Suc j < 2 ^ depth 64 0 A" using paths_bound True len by simp
      also have "\<dots> \<le> 2 ^ 32" using dep by (intro power_increasing) simp_all
      finally show "?P ! Suc j < 2 ^ 32" .
    qed
    then have nz: "nxt \<noteq> 0" using True by (auto simp: nxt_def word_unat_eq_iff unat_of_nat)
    have IH: "\<exists>ds' cnt' w''. run_state (search_loop fuel' hw (of_nat (?P ! Suc j)) ds1 (cnt + 1)) w' =
        (Some (One_Wire_Success, ds', cnt'), w'') \<and> unat cnt' = unat (cnt + 1) + (length ?L - Suc j) \<and>
      length ds' = length ds1 \<and> take (unat (cnt + 1)) ds' = take (unat (cnt + 1)) ds1 \<and>
      map SN (take (length ?L - Suc j) (drop (unat (cnt + 1)) ds')) = map (rom_bytes 8) (drop (Suc j) ?L)"
      by (rule Suc.hyps(1)) (use Suc.hyps(2) Suc.prems True c l1 f w'(1) in simp_all)
    then obtain ds' cnt' w'' where ih: "run_state (search_loop fuel' hw nxt ds1 (cnt + 1)) w' =
        (Some (One_Wire_Success, ds', cnt'), w'')" "unat cnt' = unat cnt + 1 + (length ?L - Suc j)"
      "length ds' = length ds" "take (unat cnt + 1) ds' = take (unat cnt + 1) ds1"
      "map SN (take (length ?L - Suc j) (drop (unat cnt + 1) ds')) = map (rom_bytes 8) (drop (Suc j) ?L)"
      using True c(2) l1(1) by (auto simp: nxt_def)
    have t: "take (unat cnt) ds' = take (unat cnt) ds"
      using arg_cong [OF ih(4), of "take (unat cnt)"] l1(2) by simp
    have n: "ds' ! unat cnt = ds1 ! unat cnt"
      using ih(4) c(1) l1(1) ih(3) by (metis less_add_one nth_take)
    have "take (length ?L - j) (drop (unat cnt) ds') = ds' ! unat cnt # take (length ?L - Suc j) (drop (unat cnt + 1) ds')"
      using c(1) ih(3) True by (metis (no_types, lifting) Cons_nth_drop_Suc Suc_diff_Suc Suc_eq_plus1 Suc_lessD take_Suc_Cons)
    then show ?thesis using w'(2) nz ih t n l1(3) dj True by (auto simp: Suc_diff_Suc)
  qed
qed simp

end

section \<open>The resolution that is read back\<close>

text \<open>\<open>DS1822_Configure\<close> writes the resolution into bits 5 and 6 with ones below, and
  \<open>DS1822_Get_Conversion_Result\<close> shifts the byte to the left once more instead of back.
  Whatever was written, the resolution read back is 0x60, and the table of delays ends
  long before it.\<close>

definition configured :: "u32 \<Rightarrow> u8" where
  "configured r = ucast (push_bit 5 r OR 0x1F)"

lemma resolution_read_back: "push_bit 5 (ucast (configured r)) AND 0x60 = (0x60 :: u32)"
proof -
  have m: "(0x60 :: u32) = push_bit 5 (mask 2)" "(0x1F :: u32) = mask 5" by (simp_all add: mask_eq_exp_minus_1)
  show ?thesis
    unfolding configured_def m by (rule bit_word_eqI) (auto simp: bit_simps)
qed

lemma no_delay_after_read:
  "DS1822_GetConversionDelayValue (ds\<lparr>Resolution := push_bit 5 (ucast (configured r)) AND 0x60\<rparr>) = None"
  unfolding resolution_read_back by (simp add: DS1822_GetConversionDelayValue_def)

end
