(* ===== verification/Dallas_Bus.thy ===== *)
theory Dallas_Bus
  imports Ds1822
begin

text \<open>
  A 1-Wire bus at the level of its timing, with any number of sensors that know the search
  command: what stm32/DS1822.c finds on the other side of the pin.  It discharges the
  laws of \<open>rom_bus\<close>.  Then the search is correct on every bus with these laws.
\<close>

section \<open>Sensors on a wire\<close>

datatype phase = Asleep | Command "bool list" | Send nat | Send_Not nat | Receive nat

record wire =
  held :: bool
  held_for :: nat
  pull_left :: nat
  sensors :: "(rom \<times> phase) list"

text \<open>A sensor pulls the line down when it sends a zero; every slot takes it one step
  further.\<close>

fun pulls :: "rom \<times> phase \<Rightarrow> bool" where
  "pulls (r, Send i) \<longleftrightarrow> \<not> r ! i"
| "pulls (r, Send_Not i) \<longleftrightarrow> r ! i"
| "pulls (r, _) \<longleftrightarrow> False"

definition search_command :: "bool list" where
  "search_command = [False, False, False, False, True, True, True, True]"

fun advance :: "bool \<Rightarrow> rom \<times> phase \<Rightarrow> rom \<times> phase" where
  "advance v (r, Asleep) = (r, Asleep)"
| "advance v (r, Command bs) =
     (r, if length bs < 7 then Command (bs @ [v]) else if bs @ [v] = search_command then Send 0 else Asleep)"
| "advance v (r, Send i) = (r, Send_Not i)"
| "advance v (r, Send_Not i) = (r, Receive i)"
| "advance v (r, Receive i) = (r, if v = r ! i then Send (Suc i) else Asleep)"

text \<open>The falling edge starts a slot, in which a sensor holds a zero for 30 us; the rising
  edge tells a short slot, a long slot and a reset, which the sensors answer with a presence pulse.\<close>

definition wire_drive :: "bool \<Rightarrow> wire \<Rightarrow> wire" where
  "wire_drive v w =
     (if \<not> v then (if held w then w
        else w\<lparr>held := True, held_for := 0, pull_left := if \<exists>s \<in> set (sensors w). pulls s then 30 else 0\<rparr>)
      else if \<not> held w then w
      else if held_for w \<ge> 480
      then w\<lparr>held := False, pull_left := if sensors w = [] then 0 else 150,
             sensors := map (\<lambda>(r, p). (r, Command [])) (sensors w)\<rparr>
      else w\<lparr>held := False, sensors := map (advance (held_for w < 15)) (sensors w)\<rparr>)"

definition wire_wait :: "nat \<Rightarrow> wire \<Rightarrow> wire" where
  "wire_wait t w = w\<lparr>held_for := held_for w + t, pull_left := pull_left w - t\<rparr>"

definition wire_sense :: "wire \<Rightarrow> bool" where
  "wire_sense w \<longleftrightarrow> \<not> held w \<and> pull_left w = 0"

definition wire_pins :: "wire pins" where
  "wire_pins = \<lparr>open_drain = (\<lambda>w. w), drive = wire_drive, sense = wire_sense, wait = wire_wait\<rparr>"

definition wire_quiet :: "wire \<Rightarrow> rom set \<Rightarrow> bool" where
  "wire_quiet w A \<longleftrightarrow> \<not> held w \<and> pull_left w = 0 \<and> fst ` set (sensors w) = A"

definition wire_awake :: "wire \<Rightarrow> rom set \<Rightarrow> bool" where
  "wire_awake w A \<longleftrightarrow> wire_quiet w A \<and> (\<forall>s \<in> set (sensors w). snd s = Command [])"

definition wire_racing :: "wire \<Rightarrow> rom set \<Rightarrow> rom set \<Rightarrow> nat \<Rightarrow> bool" where
  "wire_racing w A S i \<longleftrightarrow> wire_quiet w A \<and> S \<subseteq> A \<and>
     (\<forall>s \<in> set (sensors w). snd s = (if fst s \<in> S then Send i else Asleep))"

definition wire_choosing :: "wire \<Rightarrow> rom set \<Rightarrow> rom set \<Rightarrow> nat \<Rightarrow> bool" where
  "wire_choosing w A S i \<longleftrightarrow> wire_quiet w A \<and> S \<subseteq> A \<and>
     (\<forall>s \<in> set (sensors w). snd s = (if fst s \<in> S then Receive i else Asleep))"

lemmas wire_defs = wire_drive_def wire_wait_def wire_sense_def wire_pins_def

section \<open>The master's operations on the wire\<close>

lemma fst_advance [simp]: "fst (advance v s) = fst s"
  by (cases s rule: pulls.cases) (auto split: phase.splits)

lemma fst_advance_image [simp]: "(\<lambda>x. fst (advance v x)) ` X = fst ` X"
  by simp

lemma wire_write_bit:
  assumes "wire_quiet w A"
  shows "\<exists>w'. run_state (One_Wire_Write_Bit wire_pins b) w = ((), w') \<and> wire_quiet w' A \<and>
    sensors w' = map (advance b) (sensors w)"
  using assms by (cases b) (auto simp: One_Wire_Write_Bit_def run_simps wire_defs one_wire_times wire_quiet_def image_image)

lemma wire_read_bit:
  assumes "wire_quiet w A"
  shows "\<exists>w'. run_state (One_Wire_Read_Bit wire_pins) w = ((\<forall>s \<in> set (sensors w). \<not> pulls s), w') \<and>
    wire_quiet w' A \<and> sensors w' = map (advance True) (sensors w)"
  using assms by (auto simp: One_Wire_Read_Bit_def run_simps wire_defs one_wire_times wire_quiet_def image_image)

lemma wire_reset:
  assumes "wire_quiet w A" "A \<noteq> {}"
  shows "\<exists>w'. run_state (One_Wire_Reset wire_pins) w = (One_Wire_Success, w') \<and> wire_awake w' A"
  using assms
  by (auto simp: One_Wire_Reset_def run_simps wire_defs one_wire_times wire_quiet_def wire_awake_def image_image split_beta)

lemma wire_write_bits:
  assumes "wire_quiet w A"
  shows "\<exists>w'. run_state (write_byte_loop wire_pins B cs) w = ((), w') \<and> wire_quiet w' A \<and>
    sensors w' = map (fold advance (map (\<lambda>c. B AND push_bit c 1 \<noteq> 0) cs)) (sensors w)"
  using assms
proof (induction cs arbitrary: w)
  case (Cons c cs)
  obtain w1 where 1: "run_state (One_Wire_Write_Bit wire_pins (B AND push_bit c 1 \<noteq> 0)) w = ((), w1)"
    "wire_quiet w1 A" "sensors w1 = map (advance (B AND push_bit c 1 \<noteq> 0)) (sensors w)"
    using wire_write_bit [OF Cons.prems] by blast
  obtain w2 where 2: "run_state (write_byte_loop wire_pins B cs) w1 = ((), w2)" "wire_quiet w2 A"
    "sensors w2 = map (fold advance (map (\<lambda>c. B AND push_bit c 1 \<noteq> 0) cs)) (sensors w1)"
    using Cons.IH [OF 1(2)] by blast
  show ?case by (intro exI [of _ w2] conjI) (use 1 2 in \<open>simp_all add: o_def\<close>)
qed simp

lemma wire_search:
  assumes "wire_awake w A"
  shows "\<exists>w'. run_state (One_Wire_Write_Byte wire_pins DS1822_SEARCH_ROM) w = ((), w') \<and> wire_racing w' A A 0"
proof -
  have q: "wire_quiet w A" and c: "snd s = Command []" if "s \<in> set (sensors w)" for s
    using assms that by (auto simp: wire_awake_def)
  have "map (\<lambda>c. (0xF0 :: u8) AND push_bit c 1 \<noteq> 0) [0..<8] = search_command"
    by code_simp
  moreover have "fold advance search_command (r, Command []) = (r, Send 0)" for r
    by (simp add: search_command_def)
  moreover have "wire_quiet w A" using assms by (simp add: wire_awake_def)
  ultimately obtain w' where w': "run_state (One_Wire_Write_Byte wire_pins DS1822_SEARCH_ROM) w = ((), w')"
    "wire_quiet w' A" "sensors w' = map (fold advance search_command) (sensors w)"
    using wire_write_bits [of w A DS1822_SEARCH_ROM "[0..<8]"]
    by (auto simp: One_Wire_Write_Byte_def DS1822_SEARCH_ROM_def)
  have "fold advance search_command s = (fst s, Send 0)" if "s \<in> set (sensors w)" for s
    using c [OF that] by (cases s) (simp add: search_command_def)
  then have "snd t = Send 0 \<and> fst t \<in> A" if "t \<in> set (sensors w')" for t
    using that w'(2,3) by (auto simp: wire_quiet_def)
  then show ?thesis using w' by (auto simp: wire_racing_def)
qed

lemma wire_read_twice:
  assumes "wire_racing w A S i"
  shows "\<exists>w1 w2. run_state (One_Wire_Read_Bit wire_pins) w = ((\<forall>r \<in> S. r ! i), w1) \<and>
    run_state (One_Wire_Read_Bit wire_pins) w1 = ((\<forall>r \<in> S. \<not> r ! i), w2) \<and> wire_choosing w2 A S i"
proof -
  have S: "S \<subseteq> fst ` set (sensors w)" "S \<subseteq> A" and q: "wire_quiet w A"
    and p: "\<forall>s \<in> set (sensors w). snd s = (if fst s \<in> S then Send i else Asleep)"
    using assms by (auto simp: wire_racing_def wire_quiet_def)
  obtain w1 where 1: "run_state (One_Wire_Read_Bit wire_pins) w = ((\<forall>s \<in> set (sensors w). \<not> pulls s), w1)"
    "wire_quiet w1 A" "sensors w1 = map (advance True) (sensors w)"
    using wire_read_bit [OF q] by blast
  obtain w2 where 2: "run_state (One_Wire_Read_Bit wire_pins) w1 = ((\<forall>s \<in> set (sensors w1). \<not> pulls s), w2)"
    "wire_quiet w2 A" "sensors w2 = map (advance True) (sensors w1)"
    using wire_read_bit [OF 1(2)] by blast
  have a: "advance True s = (fst s, if fst s \<in> S then Send_Not i else Asleep)" "pulls s \<longleftrightarrow> fst s \<in> S \<and> \<not> fst s ! i"
    if "s \<in> set (sensors w)" for s
    using p [rule_format, OF that] by (cases s; simp split: if_splits)+
  have b0: "(\<forall>s \<in> set (sensors w). \<not> pulls s) \<longleftrightarrow> (\<forall>r \<in> S. r ! i)"
    using S(1) a(2) by force
  have "pulls (advance True s) \<longleftrightarrow> fst s \<in> S \<and> fst s ! i"
    "advance True (advance True s) = (fst s, if fst s \<in> S then Receive i else Asleep)" if "s \<in> set (sensors w)" for s
    using a(1) [OF that] by simp_all
  then have b1: "(\<forall>s \<in> set (sensors w1). \<not> pulls s) \<longleftrightarrow> (\<forall>r \<in> S. \<not> r ! i)"
    and "wire_choosing w2 A S i"
    using S 1(3) 2(2,3) by (force simp: wire_choosing_def)+
  then show ?thesis using 1(1) 2(1) unfolding b0 b1 by blast
qed

lemma wire_choose:
  assumes "wire_choosing w A S i"
  shows "\<exists>w'. run_state (One_Wire_Write_Bit wire_pins b) w = ((), w') \<and> wire_racing w' A (side S i b) (Suc i)"
proof -
  obtain w' where "run_state (One_Wire_Write_Bit wire_pins b) w = ((), w')" "wire_quiet w' A"
    "sensors w' = map (advance b) (sensors w)"
    using wire_write_bit [of w A b] assms by (auto simp: wire_choosing_def)
  moreover have "advance b s = (fst s, if fst s \<in> side S i b then Send (Suc i) else Asleep)" if "s \<in> set (sensors w)" for s
  proof -
    have "snd s = (if fst s \<in> S then Receive i else Asleep)" using assms that by (simp add: wire_choosing_def)
    then show ?thesis by (cases s) (simp add: side_def split: if_splits)
  qed
  moreover have "side S i b \<subseteq> A" using assms by (auto simp: wire_choosing_def side_def)
  ultimately show ?thesis by (auto simp: wire_racing_def)
qed

interpretation wire: rom_bus wire_pins wire_quiet wire_awake wire_racing wire_choosing
proof unfold_locales
  fix w A S i
  show "wire_racing w A S i \<Longrightarrow> wire_quiet w A" by (simp add: wire_racing_def)
qed (use wire_reset wire_search wire_read_twice wire_choose in blast)+

section \<open>The search finds every sensor once\<close>

text \<open>
  C5: On a bus with at least one and at most 32 sensors, each with a serial number of 64 bits,
  \<open>DS1822_Search_Rom\<close> ends after as many passes as there are sensors, and succeeds.  It
  counts every sensor, and it stores every serial number exactly once, in the elements
  after the ones that the static counter says are in use.  The array must have room for all of them, and the counter, a byte, must
  stay below 256.  The bus is any that keeps the laws of \<open>rom_bus\<close>.
\<close>
theorem search_finds_all:
  assumes "rom_bus hw quiet awake racing choosing" "quiet w A"
    and "finite A" "A \<noteq> {}" "card A \<le> 32" "\<forall>r \<in> A. length r = 64"
    and "unat cnt + card A \<le> length ds" "unat cnt + card A < 256" "card A \<le> fuel"
  shows "\<exists>ds' cnt' w' rs. run_state (DS1822_Search_Rom fuel hw ds cnt) w = (Some (One_Wire_Success, ds', cnt'), w') \<and>
    distinct rs \<and> set rs = A \<and> unat cnt' = unat cnt + length rs \<and>
    take (unat cnt) ds' = take (unat cnt) ds \<and>
    map SN (take (length rs) (drop (unat cnt) ds')) = map (rom_bytes 8) rs"
proof -
  let ?L = "leaves 64 0 A"
  have L: "set ?L = A" using leaves_set [of A 0 64] assms(4,6) by simp
  have n: "length ?L = card A" using L leaves_distinct [of 64 0 A] distinct_card by metis
  have c: "0 < card A" using assms(3,4) by (simp add: card_gt_0_iff)
  have "\<exists>ds' cnt' w'. run_state (search_loop fuel hw (of_nat (paths 64 0 A ! 0)) ds cnt) w =
      (Some (One_Wire_Success, ds', cnt'), w') \<and> unat cnt' = unat cnt + (length ?L - 0) \<and>
    length ds' = length ds \<and> take (unat cnt) ds' = take (unat cnt) ds \<and>
    map SN (take (length ?L - 0) (drop (unat cnt) ds')) = map (rom_bytes 8) (drop 0 ?L)"
    by (rule rom_bus.search_loop_run [OF assms(1,3,4,5)]) (use assms(2,7-9) n c in simp_all)
  then obtain ds' cnt' w' where "run_state (DS1822_Search_Rom fuel hw ds cnt) w = (Some (One_Wire_Success, ds', cnt'), w')"
    "unat cnt' = unat cnt + length ?L" "take (unat cnt) ds' = take (unat cnt) ds"
    "map SN (take (length ?L) (drop (unat cnt) ds')) = map (rom_bytes 8) ?L"
    by (auto simp: DS1822_Search_Rom_def paths_hd)
  then show ?thesis using L leaves_distinct [of 64 0 A]
    by (intro exI [of _ ds'] exI [of _ cnt'] exI [of _ w'] exI [of _ ?L] conjI)
qed

definition wire_sample :: wire where
  "wire_sample = \<lparr>held = False, held_for = 0, pull_left = 0,
     sensors = [(replicate 64 False, Asleep), (replicate 60 False @ replicate 4 True, Asleep), (replicate 64 True, Asleep)]\<rparr>"

definition sensor_sample :: DS1822 where
  "sensor_sample = \<lparr>SN = replicate 8 0, Temp16 = 0, Th = 0, Tl = 0, Resolution = 0\<rparr>"

theorem search_finds_all_witness:
  "rom_bus wire_pins wire_quiet wire_awake wire_racing wire_choosing \<and>
   (\<exists>ds' cnt' w' rs. run_state (DS1822_Search_Rom 3 wire_pins (replicate 3 sensor_sample) 0) wire_sample =
      (Some (One_Wire_Success, ds', cnt'), w') \<and> distinct rs \<and>
    set rs = {replicate 64 False, replicate 60 False @ replicate 4 True, replicate 64 True} \<and> unat cnt' = length rs \<and>
    map SN (take (length rs) ds') = map (rom_bytes 8) rs)"
proof -
  let ?A = "{replicate 64 False, replicate 60 False @ replicate 4 True, replicate 64 True}"
  have e: "replicate 64 False \<noteq> replicate 60 False @ replicate 4 True" "replicate 64 False \<noteq> replicate 64 True"
    "replicate 60 False @ replicate 4 True \<noteq> replicate 64 True" by code_simp+
  have "wire_quiet wire_sample ?A" by (simp add: wire_quiet_def wire_sample_def)
  moreover have "card ?A = 3" using e by (simp add: card_insert_if)
  ultimately show ?thesis
    using search_finds_all [OF wire.rom_bus_axioms, of wire_sample ?A 0 "replicate 3 sensor_sample" 3] wire.rom_bus_axioms
    by (simp)
qed

end
