(* ===== verification/Hd44780.thy ===== *)
theory Hd44780
  imports C_Io
begin

text \<open>
  The driver for HD44780 character displays of Common/HD44780.c.  The board functions
  \<open>write\<close>, \<open>write16\<close> and \<open>delay_us\<close> are recorded as calls; the static
  pointer \<open>dev\<close> is an argument of the operations, and the function pointer \<open>wr\<close>
  is chosen by the bus type of the connection, as \<open>hd44780_init\<close> does.
\<close>

section \<open>The model\<close>

datatype lcd_call = Write u8 | Write16 u16 | Delay_us u16

definition HD44780_CMD_CLEAR :: u8 where "HD44780_CMD_CLEAR = 0x01"
definition HD44780_CMD_HOME :: u8 where "HD44780_CMD_HOME = 0x02"
definition HD44780_CMD_AUTOINCREMENTON :: u8 where "HD44780_CMD_AUTOINCREMENTON = 0x06"
definition HD44780_CMD_BLANK :: u8 where "HD44780_CMD_BLANK = 0x08"
definition HD44780_CMD_POWERON :: u8 where "HD44780_CMD_POWERON = 0x17"
definition HD44780_CMD_4B_2LINES :: u8 where "HD44780_CMD_4B_2LINES = 0x28"
definition HD44780_CMD_CURSOROFF :: u8 where "HD44780_CMD_CURSOROFF = 0x0C"
definition HD44780_CMD_SETCGRAM :: u8 where "HD44780_CMD_SETCGRAM = 0x40"
definition HD44780_NOP_DATA :: u8 where "HD44780_NOP_DATA = 0xFF"

lemmas lcd_codes = HD44780_CMD_CLEAR_def HD44780_CMD_HOME_def HD44780_CMD_AUTOINCREMENTON_def
  HD44780_CMD_BLANK_def HD44780_CMD_POWERON_def HD44780_CMD_4B_2LINES_def HD44780_CMD_CURSOROFF_def
  HD44780_CMD_SETCGRAM_def HD44780_NOP_DATA_def

definition LCD_DELAY_LOW :: u16 where "LCD_DELAY_LOW = 50"
definition LCD_DELAY_HIGH :: u16 where "LCD_DELAY_HIGH = 2000"

datatype hd44780_lcd_type = HD44780_TYPE_LCD | HD44780_TYPE_OLED

datatype hd44780_bus_width = HD44780_BUS_4B | HD44780_BUS_8B

datatype hd44780_font_table = HD44780_ENGLISH_JAPANESE_FONT | HD44780_WESTERN_EUROPEAN_FONT
  | HD44780_ENGLISH_RUSSIAN_FONT | HD44780_WESTERN_EUROPEAN2_FONT

fun font_code :: "hd44780_font_table \<Rightarrow> u8" where
  "font_code HD44780_ENGLISH_JAPANESE_FONT = 0"
| "font_code HD44780_WESTERN_EUROPEAN_FONT = 1"
| "font_code HD44780_ENGLISH_RUSSIAN_FONT = 2"
| "font_code HD44780_WESTERN_EUROPEAN2_FONT = 3"

record hd44780_ext_con =
  ext_pin0 :: u8
  ext_pin1 :: u8

record hd44780_conn =
  bus_type :: hd44780_bus_width
  data_shift :: u8
  rs_pin :: u8
  en_pin :: u8
  backlight_pin :: u8

record hd44780_lcd =
  is_backlight_enabled :: u8
  lcd_type :: hd44780_lcd_type
  font :: hd44780_font_table
  conn :: "hd44780_conn option"
  ext_con :: "hd44780_ext_con option"

definition pcf8574_con :: hd44780_conn where
  "pcf8574_con = \<lparr>bus_type = HD44780_BUS_4B, data_shift = 4, rs_pin = 1, en_pin = 4, backlight_pin = 8\<rparr>"

definition mc74hC595_con :: hd44780_conn where
  "mc74hC595_con = \<lparr>bus_type = HD44780_BUS_4B, data_shift = 4, rs_pin = 4, en_pin = 8, backlight_pin = 3\<rparr>"

type_synonym 'a lcd_io = "(lcd_call io, 'a) state"

text \<open>The operations dereference \<open>dev->conn\<close>, which \<open>hd44780_init\<close> has checked.\<close>

definition pins_of :: "hd44780_lcd \<Rightarrow> hd44780_conn" where
  "pins_of dev = the (conn dev)"

definition write_to_bus :: "hd44780_lcd \<Rightarrow> u8 \<Rightarrow> unit lcd_io" where
  "write_to_bus dev dat = do {
     call (Write (dat OR en_pin (pins_of dev)));
     call (Delay_us LCD_DELAY_LOW);
     call (Write ((dat OR en_pin (pins_of dev)) AND NOT (en_pin (pins_of dev))));
     call (Delay_us LCD_DELAY_LOW)
   }"

definition ext_latch :: "hd44780_lcd \<Rightarrow> u8" where
  "ext_latch dev = (case ext_con dev of None \<Rightarrow> 0 | Some e \<Rightarrow> ext_pin0 e OR ext_pin1 e)"

definition wr4b :: "hd44780_lcd \<Rightarrow> u8 \<Rightarrow> u8 \<Rightarrow> unit lcd_io" where
  "wr4b dev data cmd = (let
     latch = (if cmd = 0 then rs_pin (pins_of dev) else 0);
     latch = (if is_backlight_enabled dev \<noteq> 0 then latch OR backlight_pin (pins_of dev) else latch);
     latch = latch OR ext_latch dev
   in if cmd = HD44780_NOP_DATA then call (Write latch)
      else do {
        write_to_bus dev (latch OR push_bit (unat (data_shift (pins_of dev))) (drop_bit 4 (data AND 0xF0)));
        write_to_bus dev (latch OR push_bit (unat (data_shift (pins_of dev))) (drop_bit 0 (data AND 0x0F)))
      })"

definition wr8b :: "hd44780_lcd \<Rightarrow> u8 \<Rightarrow> u8 \<Rightarrow> unit lcd_io" where
  "wr8b dev data cmd = (let
     latch = push_bit 8 (ucast data) OR ucast (is_backlight_enabled dev) :: u16;
     latch = (if cmd = 0 then latch OR ucast (rs_pin (pins_of dev)) else latch);
     latch = latch OR ucast (ext_latch dev)
   in call (Write16 latch))"

definition wr :: "hd44780_lcd \<Rightarrow> u8 \<Rightarrow> u8 \<Rightarrow> unit lcd_io" where
  "wr dev = (case bus_type (pins_of dev) of HD44780_BUS_8B \<Rightarrow> wr8b dev | HD44780_BUS_4B \<Rightarrow> wr4b dev)"

definition wr_cmd :: "hd44780_lcd \<Rightarrow> u8 \<Rightarrow> unit lcd_io" where
  "wr_cmd dev CMD = do { wr dev CMD 1; call (Delay_us LCD_DELAY_HIGH) }"

definition rus_font :: "u8 list" where
  "rus_font = [
     0x41, 0xA0, 0x42, 0xA1, 0xE0, 0x45, 0xA3, 0xA4, 0xA5, 0xA6, 0x4B,
     0xA7, 0x4D, 0x48, 0x4F, 0xA8, 0x50, 0x43, 0x54, 0xA9, 0xAA, 0x58,
     0xE1, 0xAB, 0xAC, 0xE2, 0xAD, 0xAE, 0x62, 0xA2, 0xB0, 0xB1,
     0x61, 0xB2, 0xB3, 0xB4, 0xE3, 0x65, 0xB6, 0xB7, 0xB8, 0xB9,
     0xBA, 0xBB, 0xBC, 0xBD, 0x6F, 0xBE, 0x70, 0x63, 0xBF, 0x79, 0xE4, 0x78,
     0xE5, 0xC0, 0xC1, 0xE6, 0xC2, 0xC3, 0xC4, 0xC5, 0xC6, 0xC7]"

definition translate :: "hd44780_lcd \<Rightarrow> u8 \<Rightarrow> u8" where
  "translate dev dat =
     (if font dev \<noteq> HD44780_ENGLISH_RUSSIAN_FONT then dat
      else if dat < 0xC0 then dat
      else rus_font ! unat (dat - 0xC0))"

definition init_bus :: "hd44780_lcd \<Rightarrow> unit lcd_io" where
  "init_bus dev = do {
     let sh = unat (data_shift (pins_of dev));
     write_to_bus dev (push_bit sh 3);
     write_to_bus dev (push_bit sh 3);
     write_to_bus dev (push_bit sh 3);
     write_to_bus dev (push_bit sh 2);
     call (Delay_us LCD_DELAY_HIGH);
     wr dev (HD44780_CMD_4B_2LINES OR font_code (font dev)) 1
   }"

definition init_panel :: "hd44780_lcd \<Rightarrow> unit lcd_io" where
  "init_panel dev = (case lcd_type dev of
     HD44780_TYPE_LCD \<Rightarrow> do {
       wr_cmd dev HD44780_CMD_HOME;
       wr_cmd dev HD44780_CMD_CLEAR;
       call (Delay_us LCD_DELAY_HIGH);
       wr_cmd dev HD44780_CMD_CURSOROFF
     }
   | HD44780_TYPE_OLED \<Rightarrow> do {
       wr_cmd dev HD44780_CMD_BLANK;
       wr_cmd dev HD44780_CMD_AUTOINCREMENTON;
       wr_cmd dev HD44780_CMD_POWERON;
       wr_cmd dev HD44780_CMD_CLEAR;
       call (Delay_us LCD_DELAY_HIGH);
       wr_cmd dev HD44780_CMD_HOME;
       wr_cmd dev HD44780_CMD_CURSOROFF
     })"

text \<open>The result is the new value of the static pointer.\<close>

definition hd44780_init :: "hd44780_lcd option \<Rightarrow> hd44780_lcd option \<Rightarrow> hd44780_lcd option lcd_io" where
  "hd44780_init dev drv = (case drv of
     None \<Rightarrow> State_Monad.return dev
   | Some d \<Rightarrow> if conn d = None then State_Monad.return dev
     else do {
       (if bus_type (pins_of d) = HD44780_BUS_4B then init_bus d else skip);
       init_panel d;
       State_Monad.return (Some d)
     })"

definition hd44780_pcf8574_con_init :: "hd44780_lcd \<Rightarrow> hd44780_lcd" where
  "hd44780_pcf8574_con_init drv = drv\<lparr>conn := Some pcf8574_con\<rparr>"

definition hd44780_mc74hC595_con_init :: "hd44780_lcd \<Rightarrow> hd44780_lcd" where
  "hd44780_mc74hC595_con_init drv = drv\<lparr>conn := Some mc74hC595_con\<rparr>"

definition hd44780_set_pos :: "hd44780_lcd \<Rightarrow> u8 \<Rightarrow> u8 \<Rightarrow> unit lcd_io" where
  "hd44780_set_pos dev row col =
     wr_cmd dev ((if row \<noteq> 0 then 0x80 OR 0x40 else 0x80) OR col)"

definition hd44780_put_char :: "hd44780_lcd \<Rightarrow> u8 \<Rightarrow> unit lcd_io" where
  "hd44780_put_char dev data =
     (if data = 0x0A then wr_cmd dev (0x80 OR 0x40) else wr dev (translate dev data) 0)"

text \<open>The string is the bytes before its terminating zero.\<close>

definition hd44780_print :: "hd44780_lcd \<Rightarrow> u8 list \<Rightarrow> unit lcd_io" where
  "hd44780_print dev str = for_each (hd44780_put_char dev) str"

definition hd44780_clear :: "hd44780_lcd \<Rightarrow> unit lcd_io" where
  "hd44780_clear dev = do {
     wr_cmd dev HD44780_CMD_CLEAR;
     call (Delay_us LCD_DELAY_HIGH);
     wr_cmd dev HD44780_CMD_HOME;
     call (Delay_us LCD_DELAY_HIGH)
   }"

definition hd44780_update :: "hd44780_lcd \<Rightarrow> unit lcd_io" where
  "hd44780_update dev = wr_cmd dev HD44780_NOP_DATA"

definition hd44780_custom_char :: "hd44780_lcd \<Rightarrow> u8 \<Rightarrow> u8 list \<Rightarrow> unit lcd_io" where
  "hd44780_custom_char dev num data = do {
     wr dev (HD44780_CMD_SETCGRAM + num * 8) 1;
     for_each (\<lambda>cnt. wr dev (data ! cnt) 0) [0..<8];
     wr_cmd dev HD44780_CMD_HOME
   }"

definition hd44780_send_cmd :: "hd44780_lcd \<Rightarrow> u8 \<Rightarrow> unit lcd_io" where
  "hd44780_send_cmd dev cmd = wr_cmd dev cmd"

section \<open>The display at the other end of a four-bit bus\<close>

text \<open>
  The controller reads its pins at the falling edge of the enable pin.  After
  power-on it expects eight bits at a time, of which only the upper four are wired; the code 2 there
  switches it to pairs of nibbles, the upper one first.  \<open>got\<close> lists the bytes
  received with the level of the register-select pin: true for data, false for commands.
\<close>

record panel =
  enabled :: bool
  four_bits :: bool
  upper :: "u8 option"
  got :: "(bool \<times> u8) list"

definition strobe :: "bool \<Rightarrow> u8 \<Rightarrow> panel \<Rightarrow> panel" where
  "strobe rs n p =
     (if \<not> four_bits p then p\<lparr>four_bits := (n = 2)\<rparr>
      else (case upper p of None \<Rightarrow> p\<lparr>upper := Some n\<rparr>
        | Some h \<Rightarrow> p\<lparr>upper := None, got := got p @ [(rs, push_bit 4 h OR n)]\<rparr>))"

fun panel_listen :: "hd44780_conn \<Rightarrow> panel \<Rightarrow> lcd_call \<Rightarrow> panel" where
  "panel_listen c p (Write b) =
     (let p' = p\<lparr>enabled := (b AND en_pin c \<noteq> 0)\<rparr>
      in if enabled p \<and> b AND en_pin c = 0
         then strobe (b AND rs_pin c \<noteq> 0) (drop_bit (unat (data_shift c)) b AND 0x0F) p' else p')"
| "panel_listen c p _ = p"

definition power_on :: panel where
  "power_on = \<lparr>enabled = False, four_bits = False, upper = None, got = []\<rparr>"

definition shown :: "hd44780_lcd \<Rightarrow> lcd_call io \<Rightarrow> panel" where
  "shown dev s = foldl (panel_listen (pins_of dev)) power_on (trace s)"

text \<open>A board that wires the pins without overlaps.\<close>

definition data_pins :: "hd44780_conn \<Rightarrow> u8" where
  "data_pins c = push_bit (unat (data_shift c)) 0x0F"

definition wired :: "hd44780_lcd \<Rightarrow> bool" where
  "wired dev \<longleftrightarrow> (case conn dev of None \<Rightarrow> False | Some c \<Rightarrow>
     bus_type c = HD44780_BUS_4B \<and> data_shift c \<le> 4 \<and> en_pin c \<noteq> 0 \<and> rs_pin c \<noteq> 0 \<and>
     en_pin c AND (rs_pin c OR backlight_pin c OR ext_latch dev OR data_pins c) = 0 \<and>
     rs_pin c AND (backlight_pin c OR ext_latch dev OR data_pins c) = 0 \<and>
     data_pins c AND (backlight_pin c OR ext_latch dev) = 0)"

section \<open>What the display receives\<close>

lemma shown_call [simp]: "shown dev (s\<lparr>trace := trace s @ es\<rparr>) = foldl (panel_listen (pins_of dev)) (shown dev s) es"
  by (simp add: shown_def)

lemma wiredD:
  assumes "wired dev"
  shows "bus_type (pins_of dev) = HD44780_BUS_4B" "unat (data_shift (pins_of dev)) \<le> 4"
    "en_pin (pins_of dev) \<noteq> 0" "rs_pin (pins_of dev) \<noteq> 0"
    "en_pin (pins_of dev) AND (rs_pin (pins_of dev) OR backlight_pin (pins_of dev) OR ext_latch dev OR data_pins (pins_of dev)) = 0"
    "rs_pin (pins_of dev) AND (backlight_pin (pins_of dev) OR ext_latch dev OR data_pins (pins_of dev)) = 0"
    "data_pins (pins_of dev) AND (backlight_pin (pins_of dev) OR ext_latch dev) = 0"
  using assms by (auto simp: wired_def pins_of_def word_le_nat_alt split: option.splits)

lemma strobe_idle: "\<not> enabled p \<Longrightarrow> strobe rs n (p\<lparr>enabled := False\<rparr>) = strobe rs n p"
  by (cases p) (simp add: strobe_def)

lemma write_to_bus_strobe:
  assumes "wired dev" "en_pin (pins_of dev) AND dat = 0" "\<not> enabled (shown dev s)"
  shows "\<exists>s'. run_state (write_to_bus dev dat) s = ((), s') \<and>
    shown dev s' = strobe (dat AND rs_pin (pins_of dev) \<noteq> 0)
      (drop_bit (unat (data_shift (pins_of dev))) dat AND 0x0F) (shown dev s)"
proof -
  have a: "dat AND en_pin (pins_of dev) = 0" using assms(2) by (simp add: and.commute)
  show ?thesis
    using wiredD(3) [OF assms(1)] assms(2,3) a
    by (simp add: write_to_bus_def run_simps or_and_not or_and_same Let_def strobe_idle)
qed

text \<open>The nibble arrives whatever the other pins carry.\<close>

lemma nibble_arrives:
  assumes "wired dev" "data_pins (pins_of dev) AND latch = 0" "n AND 0x0F = n"
  shows "drop_bit (unat (data_shift (pins_of dev))) (latch OR push_bit (unat (data_shift (pins_of dev))) n) AND 0x0F = n"
proof -
  define k where "k = unat (data_shift (pins_of dev))"
  have k: "k \<le> 4" using wiredD(2) [OF assms(1)] by (simp add: k_def)
  have m: "(0x0F :: u8) = mask 4" by (simp add: mask_eq_exp_minus_1)
  have l: "\<not> bit latch (k + j)" if "j < 4" for j
    using assms(2) k that by (auto simp: data_pins_def bit_eq_iff bit_simps m simp flip: k_def)
  have n: "bit n j \<Longrightarrow> j < 4" for j
    using assms(3) unfolding m by (metis bit_and_iff bit_mask_iff)
  show ?thesis
    unfolding m k_def [symmetric] by (rule bit_word_eqI) (use k l in \<open>auto simp: bit_simps dest: n\<close>)
qed

lemma nibble_pins:
  assumes "n AND 0x0F = n" "m AND push_bit k 0x0F = 0"
  shows "m AND push_bit k n = (0 :: u8)"
  using assms by (metis and.left_commute and_zero_eq push_bit_and)

lemma nibbles: "drop_bit 4 (data AND 0xF0) AND 0x0F = drop_bit 4 (data AND 0xF0 :: u8)"
  "drop_bit 0 (data AND 0x0F) AND 0x0F = (drop_bit 0 (data AND 0x0F) :: u8)"
  "push_bit 4 (drop_bit 4 (data AND 0xF0)) OR drop_bit 0 (data AND 0x0F) = (data :: u8)"
proof -
  have m: "(0x0F :: u8) = mask 4" "(0xF0 :: u8) = push_bit 4 (mask 4)" by (simp_all add: mask_eq_exp_minus_1)
  show "drop_bit 4 (data AND 0xF0) AND 0x0F = drop_bit 4 (data AND 0xF0)"
    "drop_bit 0 (data AND 0x0F) AND 0x0F = (drop_bit 0 (data AND 0x0F))"
    "push_bit 4 (drop_bit 4 (data AND 0xF0)) OR drop_bit 0 (data AND 0x0F) = (data :: u8)"
    unfolding m by (rule bit_word_eqI; auto simp: bit_simps)+
qed

text \<open>A display that waits for the next byte, and operations that send it bytes.\<close>

definition ready :: "panel \<Rightarrow> bool" where
  "ready p \<longleftrightarrow> \<not> enabled p \<and> four_bits p \<and> upper p = None"

definition sends :: "hd44780_lcd \<Rightarrow> 'a lcd_io \<Rightarrow> (bool \<times> u8) list \<Rightarrow> bool" where
  "sends dev m bs \<longleftrightarrow> (\<forall>s. ready (shown dev s) \<longrightarrow> (\<exists>x s'. run_state m s = (x, s') \<and>
     ready (shown dev s') \<and> got (shown dev s') = got (shown dev s) @ bs))"

lemma sends_bind:
  assumes "sends dev m as" "\<And>x. sends dev (f x) bs"
  shows "sends dev (State_Monad.bind m f) (as @ bs)"
  unfolding sends_def
proof (intro allI impI)
  fix s assume "ready (shown dev s)"
  then obtain x s1 where 1: "run_state m s = (x, s1)" "ready (shown dev s1)" "got (shown dev s1) = got (shown dev s) @ as"
    using assms(1) unfolding sends_def by blast
  then obtain y s2 where "run_state (f x) s1 = (y, s2)" "ready (shown dev s2)" "got (shown dev s2) = got (shown dev s1) @ bs"
    using assms(2) [of x] unfolding sends_def by blast
  then show "\<exists>x s'. run_state (State_Monad.bind m f) s = (x, s') \<and> ready (shown dev s') \<and> got (shown dev s') = got (shown dev s) @ as @ bs"
    using 1 by simp
qed

lemma sends_delay: "sends dev (call (Delay_us t)) []"
  by (simp add: sends_def run_simps)

lemma sends_return: "sends dev (State_Monad.return x) []"
  by (simp add: sends_def)

definition latch_of :: "hd44780_lcd \<Rightarrow> u8 \<Rightarrow> u8" where
  "latch_of dev cmd = ((if cmd = 0 then rs_pin (pins_of dev) else 0) OR
     (if is_backlight_enabled dev \<noteq> 0 then backlight_pin (pins_of dev) else 0)) OR ext_latch dev"

lemma wr4b_latch:
  assumes "cmd \<noteq> HD44780_NOP_DATA"
  shows "wr4b dev data cmd = do {
    write_to_bus dev (latch_of dev cmd OR push_bit (unat (data_shift (pins_of dev))) (drop_bit 4 (data AND 0xF0)));
    write_to_bus dev (latch_of dev cmd OR push_bit (unat (data_shift (pins_of dev))) (drop_bit 0 (data AND 0x0F)))
  }"
  using assms by (simp add: wr4b_def latch_of_def Let_def)

lemma latch_pins:
  assumes "wired dev"
  shows "en_pin (pins_of dev) AND latch_of dev cmd = 0" "data_pins (pins_of dev) AND latch_of dev cmd = 0"
    "latch_of dev cmd AND rs_pin (pins_of dev) \<noteq> 0 \<longleftrightarrow> cmd = 0"
proof -
  note w = wiredD(4-7) [OF assms, unfolded disjoint_or]
  have d: "data_pins (pins_of dev) AND rs_pin (pins_of dev) = 0" using w(3) by (simp add: and.commute)
  show "en_pin (pins_of dev) AND latch_of dev cmd = 0" "data_pins (pins_of dev) AND latch_of dev cmd = 0"
    using w d by (simp_all add: latch_of_def disjoint_or)
  have "rs_pin (pins_of dev) AND latch_of dev cmd = (if cmd = 0 then rs_pin (pins_of dev) else 0)"
    using w by (simp add: latch_of_def bit.conj_disj_distrib)
  then show "latch_of dev cmd AND rs_pin (pins_of dev) \<noteq> 0 \<longleftrightarrow> cmd = 0"
    using w(1) by (simp add: and.commute)
qed

lemma nibble_strobe:
  assumes "wired dev" "n AND 0x0F = n" "\<not> enabled (shown dev s)"
  shows "\<exists>s'. run_state (write_to_bus dev (latch_of dev cmd OR push_bit (unat (data_shift (pins_of dev))) n)) s = ((), s') \<and>
    shown dev s' = strobe (cmd = 0) n (shown dev s)"
proof -
  let ?c = "pins_of dev" and ?d = "push_bit (unat (data_shift (pins_of dev))) n"
  note w = wiredD [OF assms(1), unfolded data_pins_def disjoint_or] and l = latch_pins [OF assms(1), of cmd]
  have "en_pin ?c AND ?d = 0" "rs_pin ?c AND ?d = 0"
    using w(5,6) nibble_pins [OF assms(2)] by simp_all
  then have "en_pin ?c AND (latch_of dev cmd OR ?d) = 0" "(latch_of dev cmd OR ?d) AND rs_pin ?c \<noteq> 0 \<longleftrightarrow> cmd = 0"
    using l(1,3) by (simp_all add: disjoint_or bit.conj_disj_distrib2 and.commute)
  then show ?thesis
    using write_to_bus_strobe [OF assms(1), of "latch_of dev cmd OR ?d" s] assms(3) nibble_arrives [OF assms(1) l(2) assms(2)]
    by simp
qed

lemma sends_wr:
  assumes "wired dev" "cmd \<noteq> HD44780_NOP_DATA"
  shows "sends dev (wr dev data cmd) [(cmd = 0, data)]"
  unfolding sends_def
proof (intro allI impI)
  fix s assume r: "ready (shown dev s)"
  then obtain s1 where 1: "run_state (write_to_bus dev (latch_of dev cmd OR
      push_bit (unat (data_shift (pins_of dev))) (drop_bit 4 (data AND 0xF0)))) s = ((), s1)"
    "shown dev s1 = strobe (cmd = 0) (drop_bit 4 (data AND 0xF0)) (shown dev s)"
    using nibble_strobe [OF assms(1) nibbles(1), of s cmd data] unfolding ready_def by blast
  then have e: "\<not> enabled (shown dev s1)" using r by (auto simp: ready_def strobe_def)
  obtain s2 where 2: "run_state (write_to_bus dev (latch_of dev cmd OR
      push_bit (unat (data_shift (pins_of dev))) (drop_bit 0 (data AND 0x0F)))) s1 = ((), s2)"
    "shown dev s2 = strobe (cmd = 0) (drop_bit 0 (data AND 0x0F)) (shown dev s1)"
    using nibble_strobe [OF assms(1) nibbles(2) e, of cmd data] by blast
  have "run_state (wr dev data cmd) s = ((), s2)"
    unfolding wr_def wiredD(1) [OF assms(1)] hd44780_bus_width.case wr4b_latch [OF assms(2)] run_state_bind 1(1) prod.case 2(1) ..
  moreover have "ready (shown dev s2) \<and> got (shown dev s2) = got (shown dev s) @ [(cmd = 0, data)]"
    using r nibbles(3) [of data] unfolding 1(2) 2(2) by (simp add: ready_def strobe_def)
  ultimately show "\<exists>x s'. run_state (wr dev data cmd) s = (x, s') \<and> ready (shown dev s') \<and>
      got (shown dev s') = got (shown dev s) @ [(cmd = 0, data)]" by blast
qed

lemma sends_wr_cmd: "wired dev \<Longrightarrow> sends dev (wr_cmd dev c) [(False, c)]"
  using sends_bind [OF sends_wr [of dev 1 c] sends_delay [of dev LCD_DELAY_HIGH]]
  by (simp add: wr_cmd_def HD44780_NOP_DATA_def)

lemma sends_wr_data: "wired dev \<Longrightarrow> sends dev (wr dev d 0) [(True, d)]"
  using sends_wr [of dev 0 d] by (simp add: HD44780_NOP_DATA_def)

lemma sends_for_each:
  assumes "\<And>x. x \<in> set xs \<Longrightarrow> sends dev (f x) (g x)"
  shows "sends dev (for_each f xs) (concat (map g xs))"
  using assms
proof (induction xs)
  case (Cons x xs)
  then show ?case using sends_bind [of dev "f x" "g x" "\<lambda>_. for_each f xs"] by simp
qed (simp add: sends_return)

text \<open>The operations, as the bytes they put on the display.\<close>

datatype lcd_op = Set_pos u8 u8 | Put_char u8 | Print "u8 list" | Clear | Update | Custom_char u8 "u8 list" | Send_cmd u8

fun perform :: "hd44780_lcd \<Rightarrow> lcd_op \<Rightarrow> unit lcd_io" where
  "perform dev (Set_pos row col) = hd44780_set_pos dev row col"
| "perform dev (Put_char c) = hd44780_put_char dev c"
| "perform dev (Print str) = hd44780_print dev str"
| "perform dev Clear = hd44780_clear dev"
| "perform dev Update = hd44780_update dev"
| "perform dev (Custom_char num data) = hd44780_custom_char dev num data"
| "perform dev (Send_cmd c) = hd44780_send_cmd dev c"

definition char_byte :: "hd44780_lcd \<Rightarrow> u8 \<Rightarrow> bool \<times> u8" where
  "char_byte dev c = (if c = 0x0A then (False, 0xC0) else (True, translate dev c))"

fun op_bytes :: "hd44780_lcd \<Rightarrow> lcd_op \<Rightarrow> (bool \<times> u8) list" where
  "op_bytes dev (Set_pos row col) = [(False, (if row = 0 then 0x80 else 0xC0) OR col)]"
| "op_bytes dev (Put_char c) = [char_byte dev c]"
| "op_bytes dev (Print str) = map (char_byte dev) str"
| "op_bytes dev Clear = [(False, 1), (False, 2)]"
| "op_bytes dev Update = [(False, 0xFF)]"
| "op_bytes dev (Custom_char num data) =
     (False, 0x40 + num * 8) # map (\<lambda>i. (True, data ! i)) [0..<8] @ [(False, 2)]"
| "op_bytes dev (Send_cmd c) = [(False, c)]"

definition panel_bytes :: "hd44780_lcd \<Rightarrow> (bool \<times> u8) list" where
  "panel_bytes dev = (case lcd_type dev of HD44780_TYPE_LCD \<Rightarrow> map (Pair False) [2, 1, 0x0C]
     | HD44780_TYPE_OLED \<Rightarrow> map (Pair False) [8, 6, 0x17, 1, 2, 0x0C])"

lemma sends_put_char: "wired dev \<Longrightarrow> sends dev (hd44780_put_char dev c) [char_byte dev c]"
  using sends_wr_cmd [of dev "0xC0"] sends_wr_data [of dev "translate dev c"]
  by (simp add: hd44780_put_char_def char_byte_def)

lemma sends_custom:
  assumes "wired dev"
  shows "sends dev (hd44780_custom_char dev num data) (op_bytes dev (Custom_char num data))"
proof -
  have "sends dev (for_each (\<lambda>cnt. wr dev (data ! cnt) 0) [0..<8]) (concat (map (\<lambda>i. [(True, data ! i)]) [0..<8]))"
    using assms by (intro sends_for_each sends_wr_data)
  then have "sends dev (do { for_each (\<lambda>cnt. wr dev (data ! cnt) 0) [0..<8]; wr_cmd dev HD44780_CMD_HOME })
      (map (\<lambda>i. (True, data ! i)) [0..<8] @ [(False, 2)])"
    using sends_wr_cmd [OF assms, of HD44780_CMD_HOME]
    by (intro sends_bind) (simp_all add: HD44780_CMD_HOME_def concat_map_singleton del: upt_Suc)
  then show ?thesis
    using sends_bind [OF sends_wr [OF assms, of 1 "HD44780_CMD_SETCGRAM + num * 8"]]
    by (fastforce simp: hd44780_custom_char_def lcd_codes simp del: upt_Suc)
qed

lemma sends_op:
  assumes "wired dev"
  shows "sends dev (perform dev op) (op_bytes dev op)"
proof (cases op)
  case (Print str)
  have "sends dev (hd44780_print dev str) (concat (map (\<lambda>c. [char_byte dev c]) str))"
    unfolding hd44780_print_def using assms by (intro sends_for_each sends_put_char)
  then show ?thesis using Print by (simp add: concat_map_singleton)
next
  case Clear
  note c = sends_wr_cmd [OF assms]
  show ?thesis
    using Clear sends_bind [OF c [of 1] sends_bind [OF sends_delay sends_bind [OF c [of 2] sends_delay]]]
    by (simp add: hd44780_clear_def lcd_codes)
qed (use assms sends_wr_cmd sends_put_char sends_custom in
  \<open>auto simp: hd44780_set_pos_def hd44780_update_def hd44780_send_cmd_def lcd_codes\<close>)

text \<open>\<open>hd44780_update\<close> is meant to refresh the extension pins alone, but hands its code 0xFF
  over as the data and not as the mark that \<open>wr4b\<close> tests, so the display receives it as a command
  that moves the cursor.\<close>

lemma update_is_a_command: "wired dev \<Longrightarrow> sends dev (hd44780_update dev) [(False, 0xFF)]"
  using sends_op [of dev Update] by simp

lemma sends_panel:
  assumes "wired dev"
  shows "sends dev (init_panel dev) (panel_bytes dev)"
proof -
  note c = sends_wr_cmd [OF assms]
  show ?thesis
  proof (cases "lcd_type dev")
    case HD44780_TYPE_LCD
    then show ?thesis
      using sends_bind [OF c [of 2] sends_bind [OF c [of 1] sends_bind [OF sends_delay c [of "0x0C"]]]]
      by (simp add: init_panel_def panel_bytes_def lcd_codes)
  next
    case HD44780_TYPE_OLED
    then show ?thesis
      using sends_bind [OF c [of 8] sends_bind [OF c [of 6] sends_bind [OF c [of "0x17"] sends_bind [OF c [of 1]
        sends_bind [OF sends_delay sends_bind [OF c [of 2] c [of "0x0C"]]]]]]]
      by (simp add: init_panel_def panel_bytes_def lcd_codes)
  qed
qed

text \<open>The switch to four bits.\<close>

lemma init_strobe:
  assumes "wired dev" "n AND 0x0F = n" "\<not> enabled (shown dev s)"
  shows "\<exists>s'. run_state (write_to_bus dev (push_bit (unat (data_shift (pins_of dev))) n)) s = ((), s') \<and>
    shown dev s' = strobe False n (shown dev s)"
proof -
  let ?c = "pins_of dev" and ?d = "push_bit (unat (data_shift (pins_of dev))) n"
  note w = wiredD [OF assms(1), unfolded data_pins_def disjoint_or]
  have "en_pin ?c AND ?d = 0" "?d AND rs_pin ?c = 0"
    using w(5,6) nibble_pins [OF assms(2)] by (simp_all add: and.commute)
  then show ?thesis
    using write_to_bus_strobe [OF assms(1), of ?d s] assms(3) nibble_arrives [OF assms(1), of 0 n] assms(2) by simp
qed

lemma init_bus_run:
  assumes "wired dev" "shown dev s = power_on"
  shows "\<exists>s'. run_state (init_bus dev) s = ((), s') \<and> ready (shown dev s') \<and>
    got (shown dev s') = [(False, 0x28 OR font_code (font dev))]"
proof -
  let ?w = "\<lambda>n. write_to_bus dev (push_bit (unat (data_shift (pins_of dev))) n)"
  have 3: "\<exists>s'. run_state (?w 3) s = ((), s') \<and> shown dev s' = power_on" if "shown dev s = power_on" for s
    using init_strobe [OF assms(1), of 3 s] that by (simp add: power_on_def strobe_def)
  have 2: "\<exists>s'. run_state (?w 2) s = ((), s') \<and> shown dev s' = power_on\<lparr>four_bits := True\<rparr>" if "shown dev s = power_on" for s
    using init_strobe [OF assms(1), of 2 s] that by (simp add: power_on_def strobe_def)
  obtain s1 where s1: "run_state (?w 3) s = ((), s1)" "shown dev s1 = power_on" using 3 [OF assms(2)] by blast
  obtain s2 where s2: "run_state (?w 3) s1 = ((), s2)" "shown dev s2 = power_on" using 3 [OF s1(2)] by blast
  obtain s3 where s3: "run_state (?w 3) s2 = ((), s3)" "shown dev s3 = power_on" using 3 [OF s2(2)] by blast
  obtain s4 where s4: "run_state (?w 2) s3 = ((), s4)" "shown dev s4 = power_on\<lparr>four_bits := True\<rparr>" using 2 [OF s3(2)] by blast
  define s5 where "s5 = s4\<lparr>trace := trace s4 @ [Delay_us LCD_DELAY_HIGH]\<rparr>"
  have "shown dev s5 = power_on\<lparr>four_bits := True\<rparr>" using s4(2) by (simp add: s5_def)
  then obtain s6 where s6: "run_state (wr dev (HD44780_CMD_4B_2LINES OR font_code (font dev)) 1) s5 = ((), s6)"
    "ready (shown dev s6)" "got (shown dev s6) = [(False, 0x28 OR font_code (font dev))]"
    using sends_wr [OF assms(1), of 1 "HD44780_CMD_4B_2LINES OR font_code (font dev)"]
    by (force simp: sends_def ready_def power_on_def lcd_codes)
  have "run_state (init_bus dev) s = ((), s6)"
    using s1(1) s2(1) s3(1) s4(1) s6(1) by (simp add: init_bus_def Let_def run_simps s5_def)
  then show ?thesis using s6 by blast
qed

text \<open>
  C23: On a board that wires the display with four data pins and without overlaps (both
  connections of the library are such boards), \<open>hd44780_init\<close> brings the freshly powered
  display into four-bit mode, and from then on the display receives exactly the bytes of the
  operations performed, in order, each marked as command or character as it was
  meant.
\<close>
theorem hd44780_session:
  assumes "wired dev"
  shows "\<exists>s'. run_state (do { hd44780_init old (Some dev); for_each (perform dev) ops }) io_start = ((), s') \<and>
    ready (shown dev s') \<and>
    got (shown dev s') = (False, 0x28 OR font_code (font dev)) # panel_bytes dev @ concat (map (op_bytes dev) ops)"
proof -
  have c: "conn dev \<noteq> None" "bus_type (pins_of dev) = HD44780_BUS_4B"
    using assms wiredD(1) [OF assms] by (auto simp: wired_def split: option.splits)
  have "shown dev io_start = power_on" by (simp add: shown_def)
  then obtain s1 where s1: "run_state (init_bus dev) io_start = ((), s1)" "ready (shown dev s1)"
    "got (shown dev s1) = [(False, 0x28 OR font_code (font dev))]"
    using init_bus_run [OF assms] by blast
  have "sends dev (for_each (perform dev) ops) (concat (map (op_bytes dev) ops))"
    by (rule sends_for_each) (rule sends_op [OF assms])
  then have "sends dev (do { init_panel dev; for_each (perform dev) ops }) (panel_bytes dev @ concat (map (op_bytes dev) ops))"
    by (intro sends_bind sends_panel [OF assms])
  from this [unfolded sends_def, rule_format, OF s1(2)]
  obtain s2 where "run_state (do { init_panel dev; for_each (perform dev) ops }) s1 = ((), s2)" "ready (shown dev s2)"
    "got (shown dev s2) = got (shown dev s1) @ panel_bytes dev @ concat (map (op_bytes dev) ops)"
    by auto
  then show ?thesis
    using s1 c by (intro exI [of _ s2]) (auto simp: hd44780_init_def split: prod.splits)
qed

definition lcd_sample :: hd44780_lcd where
  "lcd_sample = hd44780_pcf8574_con_init \<lparr>is_backlight_enabled = 1, lcd_type = HD44780_TYPE_LCD,
     font = HD44780_ENGLISH_RUSSIAN_FONT, conn = None, ext_con = None\<rparr>"

theorem hd44780_session_witness:
  "wired lcd_sample \<and> wired (hd44780_mc74hC595_con_init lcd_sample) \<and>
   (\<exists>s'. run_state (do { hd44780_init None (Some lcd_sample); for_each (perform lcd_sample) [Print [0x48, 0x0A, 0xCF]] }) io_start = ((), s') \<and>
    got (shown lcd_sample s') = [(False, 0x2A), (False, 2), (False, 1), (False, 0x0C), (True, 0x48), (False, 0xC0), (True, 0xA8)])"
proof -
  have w: "wired lcd_sample" "wired (hd44780_mc74hC595_con_init lcd_sample)"
    by (simp_all add: wired_def lcd_sample_def hd44780_pcf8574_con_init_def hd44780_mc74hC595_con_init_def
      pcf8574_con_def mc74hC595_con_def data_pins_def ext_latch_def)
  have f: "font_code (font lcd_sample) = 2" "panel_bytes lcd_sample = [(False, 2), (False, 1), (False, 0x0C)]"
    "map (char_byte lcd_sample) [0x48, 0x0A, 0xCF] = [(True, 0x48), (False, 0xC0), (True, 0xA8)]"
    by (simp_all add: lcd_sample_def hd44780_pcf8574_con_init_def panel_bytes_def char_byte_def translate_def rus_font_def)
  show ?thesis
    using w hd44780_session [OF w(1), of None "[Print [0x48, 0x0A, 0xCF]]"] f by auto
qed

end
