(* ===== verification/Mfrc522_Rfid.thy ===== *)
theory Mfrc522_Rfid
  imports C_Io
begin

text \<open>
  The card reader driver of Common/mfrc522_rfid.c.  The register access functions of
  \<open>struct mfrc_t\<close> are recorded as calls, and what the chip answers to the reads is a
  parameter; so are the two callbacks of the caller, which work on the arrays they get.
  Arrays are lists of their bytes, and writing beyond the end of one has no
  value (\<open>None\<close>).
\<close>

section \<open>The model\<close>

definition MFRC522_SN_LEN :: nat where "MFRC522_SN_LEN = 16"
definition MFRC522_DATA_LEN :: nat where "MFRC522_DATA_LEN = 16"
definition MFRC522_PASS_LEN :: nat where "MFRC522_PASS_LEN = 6"
definition MFRC522_MAX_SECTORS :: u8 where "MFRC522_MAX_SECTORS = 40"

definition PICC_REQIDL :: u8 where "PICC_REQIDL = 0x26"
definition PICC_ANTICOLL :: u8 where "PICC_ANTICOLL = 0x93"
definition PICC_SElECTTAG :: u8 where "PICC_SElECTTAG = 0x93"
definition PICC_READ :: u8 where "PICC_READ = 0x30"
definition PICC_WRITE :: u8 where "PICC_WRITE = 0xA0"
definition PICC_HALT :: u8 where "PICC_HALT = 0x50"

datatype mfrc_cmd = PCD_IDLE | PCD_AUTHENT | PCD_RECEIVE | PCD_TRANSMIT | PCD_TRANSCEIVE | PCD_RESETPHASE | PCD_CALCCRC

fun cmd_code :: "mfrc_cmd \<Rightarrow> u8" where
  "cmd_code PCD_IDLE = 0x00"
| "cmd_code PCD_AUTHENT = 0x0E"
| "cmd_code PCD_RECEIVE = 0x08"
| "cmd_code PCD_TRANSMIT = 0x04"
| "cmd_code PCD_TRANSCEIVE = 0x0C"
| "cmd_code PCD_RESETPHASE = 0x0F"
| "cmd_code PCD_CALCCRC = 0x03"

definition MifareErr :: u8 where "MifareErr = 0x00"
definition Mifare_1k :: u8 where "Mifare_1k = 0x08"
definition PICC_AUTHENT1A :: u8 where "PICC_AUTHENT1A = 0x60"

definition MFRC522_REG_COMMAND :: u8 where "MFRC522_REG_COMMAND = 0x01"
definition MFRC522_REG_COMM_IE_N :: u8 where "MFRC522_REG_COMM_IE_N = 0x02"
definition MFRC522_REG_COMM_IRQ :: u8 where "MFRC522_REG_COMM_IRQ = 0x04"
definition MFRC522_REG_DIV_IRQ :: u8 where "MFRC522_REG_DIV_IRQ = 0x05"
definition MFRC522_REG_ERROR :: u8 where "MFRC522_REG_ERROR = 0x06"
definition MFRC522_REG_STATUS2 :: u8 where "MFRC522_REG_STATUS2 = 0x08"
definition MFRC522_REG_FIFO_DATA :: u8 where "MFRC522_REG_FIFO_DATA = 0x09"
definition MFRC522_REG_FIFO_LEVEL :: u8 where "MFRC522_REG_FIFO_LEVEL = 0x0A"
definition MFRC522_REG_CONTROL :: u8 where "MFRC522_REG_CONTROL = 0x0C"
definition MFRC522_REG_BIT_FRAMING :: u8 where "MFRC522_REG_BIT_FRAMING = 0x0D"
definition MFRC522_REG_MODE :: u8 where "MFRC522_REG_MODE = 0x11"
definition MFRC522_REG_TX_CONTROL :: u8 where "MFRC522_REG_TX_CONTROL = 0x14"
definition MFRC522_REG_TX_AUTO :: u8 where "MFRC522_REG_TX_AUTO = 0x15"
definition MFRC522_REG_CRC_RESULT_M :: u8 where "MFRC522_REG_CRC_RESULT_M = 0x21"
definition MFRC522_REG_CRC_RESULT_L :: u8 where "MFRC522_REG_CRC_RESULT_L = 0x22"
definition MFRC522_REG_RF_CFG :: u8 where "MFRC522_REG_RF_CFG = 0x26"
definition MFRC522_REG_T_MODE :: u8 where "MFRC522_REG_T_MODE = 0x2A"
definition MFRC522_REG_T_PRESCALER :: u8 where "MFRC522_REG_T_PRESCALER = 0x2B"
definition MFRC522_REG_T_RELOAD_H :: u8 where "MFRC522_REG_T_RELOAD_H = 0x2C"
definition MFRC522_REG_T_RELOAD_L :: u8 where "MFRC522_REG_T_RELOAD_L = 0x2D"
definition MFRC522_REG_VERSION :: u8 where "MFRC522_REG_VERSION = 0x37"

lemmas mfrc_regs = MFRC522_REG_COMMAND_def MFRC522_REG_COMM_IE_N_def MFRC522_REG_COMM_IRQ_def
  MFRC522_REG_DIV_IRQ_def MFRC522_REG_ERROR_def MFRC522_REG_STATUS2_def MFRC522_REG_FIFO_DATA_def
  MFRC522_REG_FIFO_LEVEL_def MFRC522_REG_CONTROL_def MFRC522_REG_BIT_FRAMING_def MFRC522_REG_MODE_def
  MFRC522_REG_TX_CONTROL_def MFRC522_REG_TX_AUTO_def MFRC522_REG_CRC_RESULT_M_def MFRC522_REG_CRC_RESULT_L_def
  MFRC522_REG_RF_CFG_def MFRC522_REG_T_MODE_def MFRC522_REG_T_PRESCALER_def MFRC522_REG_T_RELOAD_H_def
  MFRC522_REG_T_RELOAD_L_def MFRC522_REG_VERSION_def

definition RX_GAIN_48dB :: u8 where "RX_GAIN_48dB = 0x70"

datatype mfrc_status = MI_OK | MI_NOTAGERR | MI_ERR | MI_NOCARD | MI_COLLISION | MI_WRONG_CARD | MI_AUTH_ERROR
  | MI_READ_ERROR | MI_WRITE_ERROR | MI_WRONG_DATA | MI_WRONG_PARAM | MI_INTERFACE_ERROR

datatype mfrc_op = CARD_READ | CARD_WRITE | CARD_RW | CARD_RW_ANYWAY

text \<open>The settings of \<open>struct mfrc_t\<close>; its function pointers are the calls.\<close>

record mfrc_t =
  rx_gain :: u8

datatype mfrc_call = Wr u8 u8 | Rd u8 | Keygen "u8 list" | Handler "u8 list" "u8 list"

type_synonym 'a mfrc = "(mfrc_call io, 'a) state"
type_synonym chip = "nat \<Rightarrow> u8"

definition write_reg :: "u8 \<Rightarrow> u8 \<Rightarrow> unit mfrc" where
  "write_reg addr val = call (Wr (push_bit 1 addr AND 0x7E) val)"

definition read_reg :: "chip \<Rightarrow> u8 \<Rightarrow> u8 mfrc" where
  "read_reg answers addr = ask answers (Rd (push_bit 1 addr AND 0x7E OR 0x80))"

definition mfrc_set_bit_mask :: "chip \<Rightarrow> u8 \<Rightarrow> u8 \<Rightarrow> unit mfrc" where
  "mfrc_set_bit_mask answers reg m = do { v \<leftarrow> read_reg answers reg; write_reg reg (v OR m) }"

definition mfrc_clear_bit_mask :: "chip \<Rightarrow> u8 \<Rightarrow> u8 \<Rightarrow> unit mfrc" where
  "mfrc_clear_bit_mask answers reg m = do { v \<leftarrow> read_reg answers reg; write_reg reg (v AND NOT m) }"

definition mfrc_tx_enable :: "chip \<Rightarrow> unit mfrc" where
  "mfrc_tx_enable answers = do {
     v \<leftarrow> read_reg answers MFRC522_REG_TX_CONTROL;
     if v AND 0x03 = 0 then mfrc_set_bit_mask answers MFRC522_REG_TX_CONTROL 0x03 else skip
   }"

definition mfrc_tx_disable :: "chip \<Rightarrow> unit mfrc" where
  "mfrc_tx_disable answers = mfrc_clear_bit_mask answers MFRC522_REG_TX_CONTROL 0x03"

definition mfrc_reset :: "unit mfrc" where
  "mfrc_reset = write_reg MFRC522_REG_COMMAND (cmd_code PCD_RESETPHASE)"

text \<open>The loop that waits for an interrupt bit, and the one that empties the FIFO.\<close>

fun wait_irq :: "chip \<Rightarrow> u8 \<Rightarrow> nat \<Rightarrow> (u8 \<times> nat) mfrc" where
  "wait_irq answers waitIRq 0 = State_Monad.return (0, 0)"
| "wait_irq answers waitIRq (Suc i) = do {
     n \<leftarrow> read_reg answers MFRC522_REG_COMM_IRQ;
     if i \<noteq> 0 \<and> n AND 0x01 = 0 \<and> n AND waitIRq = 0 then wait_irq answers waitIRq i
     else State_Monad.return (n, i)
   }"

fun read_fifo :: "chip \<Rightarrow> nat \<Rightarrow> u8 list mfrc" where
  "read_fifo answers 0 = State_Monad.return []"
| "read_fifo answers (Suc n) = do {
     b \<leftarrow> read_reg answers MFRC522_REG_FIFO_DATA; bs \<leftarrow> read_fifo answers n; State_Monad.return (b # bs)
   }"

definition irq_masks :: "mfrc_cmd \<Rightarrow> (u8 \<times> u8) option" where
  "irq_masks command = (case command of PCD_AUTHENT \<Rightarrow> Some (0x12, 0x10) | PCD_TRANSCEIVE \<Rightarrow> Some (0x77, 0x30) | _ \<Rightarrow> None)"

text \<open>What the command leaves behind: the status, the length in bits and the bytes for the
  caller's array, where it stores them.\<close>

definition collect :: "chip \<Rightarrow> mfrc_cmd \<Rightarrow> u8 \<Rightarrow> u8 \<Rightarrow> nat \<Rightarrow> (mfrc_status \<times> u16 option \<times> u8 list) mfrc" where
  "collect answers command irqEn n i =
     (if i = 0 then State_Monad.return (MI_ERR, None, [])
      else do {
        err \<leftarrow> read_reg answers MFRC522_REG_ERROR;
        if err AND 0x1B \<noteq> 0 then State_Monad.return (MI_ERR, None, [])
        else do {
          let status = (if n AND irqEn AND 0x01 \<noteq> 0 then MI_NOTAGERR else MI_OK);
          if command \<noteq> PCD_TRANSCEIVE then State_Monad.return (status, None, [])
          else do {
            n \<leftarrow> read_reg answers MFRC522_REG_FIFO_LEVEL;
            control \<leftarrow> read_reg answers MFRC522_REG_CONTROL;
            let lastBits = control AND 0x07;
            let backLen = (if lastBits \<noteq> 0 then (ucast n - 1) * 8 + ucast lastBits else ucast n * 8);
            let n = (if n = 0 then 1 else n);
            let n = (if MFRC522_SN_LEN < unat n then MFRC522_SN_LEN else unat n);
            backData \<leftarrow> read_fifo answers n;
            State_Monad.return (status, Some backLen, backData)
          }
        }
      })"

definition mfrc_to_card :: "chip \<Rightarrow> mfrc_cmd \<Rightarrow> u8 list \<Rightarrow> (mfrc_status \<times> u16 option \<times> u8 list) mfrc" where
  "mfrc_to_card answers command sendData = (case irq_masks command of
     None \<Rightarrow> State_Monad.return (MI_WRONG_PARAM, None, [])
   | Some (irqEn, waitIRq) \<Rightarrow> do {
       write_reg MFRC522_REG_COMM_IE_N (irqEn OR 0x80);
       mfrc_clear_bit_mask answers MFRC522_REG_COMM_IRQ 0x80;
       mfrc_set_bit_mask answers MFRC522_REG_FIFO_LEVEL 0x80;
       write_reg MFRC522_REG_COMMAND (cmd_code PCD_IDLE);
       for_each (write_reg MFRC522_REG_FIFO_DATA) sendData;
       write_reg MFRC522_REG_COMMAND (cmd_code command);
       (if command = PCD_TRANSCEIVE then mfrc_set_bit_mask answers MFRC522_REG_BIT_FRAMING 0x80 else skip);
       (n, i) \<leftarrow> wait_irq answers waitIRq 2000;
       mfrc_clear_bit_mask answers MFRC522_REG_BIT_FRAMING 0x80;
       collect answers command irqEn n i
     })"

text \<open>The bytes stored into an array, and the operations after a store that may leave it.\<close>

definition overlay :: "u8 list \<Rightarrow> u8 list \<Rightarrow> u8 list option" where
  "overlay buf bs = (if length bs \<le> length buf then Some (bs @ drop (length bs) buf) else None)"

definition stored :: "'a option mfrc \<Rightarrow> ('a \<Rightarrow> 'b option mfrc) \<Rightarrow> 'b option mfrc" where
  "stored m f = do { x \<leftarrow> m; case x of None \<Rightarrow> State_Monad.return None | Some v \<Rightarrow> f v }"

definition mfrc_request :: "chip \<Rightarrow> u8 \<Rightarrow> u8 list \<Rightarrow> (mfrc_status \<times> u8 list) option mfrc" where
  "mfrc_request answers reqMode tag = do {
     write_reg MFRC522_REG_BIT_FRAMING 0x07;
     let tag = tag[0 := reqMode];
     (status, backbits, back) \<leftarrow> mfrc_to_card answers PCD_TRANSCEIVE (take 1 tag);
     State_Monad.return (map_option (Pair
       (if status \<noteq> MI_OK \<or> backbits \<noteq> Some 0x10 then MI_ERR else status)) (overlay tag back))
   }"

definition mfrc_anti_collision :: "chip \<Rightarrow> u8 list \<Rightarrow> (mfrc_status \<times> u8 list) option mfrc" where
  "mfrc_anti_collision answers sn = do {
     write_reg MFRC522_REG_BIT_FRAMING 0x00;
     let sn = sn[0 := PICC_ANTICOLL, 1 := 0x20];
     (status, unLen, back) \<leftarrow> mfrc_to_card answers PCD_TRANSCEIVE (take 2 sn);
     State_Monad.return (map_option (\<lambda>sn.
       (if status = MI_OK \<and> foldl (XOR) 0 (map ((!) sn) [0..<4]) \<noteq> sn ! 4 then MI_ERR else status, sn)) (overlay sn back))
   }"

fun wait_crc :: "chip \<Rightarrow> nat \<Rightarrow> unit mfrc" where
  "wait_crc answers 0 = State_Monad.return ()"
| "wait_crc answers (Suc i) = do {
     n \<leftarrow> read_reg answers MFRC522_REG_DIV_IRQ;
     if i \<noteq> 0 \<and> n AND 0x04 = 0 then wait_crc answers i else State_Monad.return ()
   }"

definition mfrc_calc_crc :: "chip \<Rightarrow> u8 list \<Rightarrow> u8 list mfrc" where
  "mfrc_calc_crc answers pIndata = do {
     mfrc_clear_bit_mask answers MFRC522_REG_DIV_IRQ 0x04;
     mfrc_set_bit_mask answers MFRC522_REG_FIFO_LEVEL 0x80;
     for_each (write_reg MFRC522_REG_FIFO_DATA) pIndata;
     write_reg MFRC522_REG_COMMAND (cmd_code PCD_CALCCRC);
     wait_crc answers 0xFF;
     lo \<leftarrow> read_reg answers MFRC522_REG_CRC_RESULT_L;
     hi \<leftarrow> read_reg answers MFRC522_REG_CRC_RESULT_M;
     State_Monad.return [lo, hi]
   }"

definition mfrc_select_tag :: "chip \<Rightarrow> u8 list \<Rightarrow> u8 option mfrc" where
  "mfrc_select_tag answers sn = do {
     let buf = [PICC_SElECTTAG, 0x70] @ take 5 sn;
     crc \<leftarrow> mfrc_calc_crc answers buf;
     let buf = buf @ crc;
     (status, recvBits, back) \<leftarrow> mfrc_to_card answers PCD_TRANSCEIVE buf;
     State_Monad.return (map_option (\<lambda>buf.
       if status = MI_OK \<and> recvBits = Some 0x18 then buf ! 0 else MifareErr) (overlay buf back))
   }"

definition mfrc_auth :: "chip \<Rightarrow> u8 \<Rightarrow> u8 \<Rightarrow> u8 list \<Rightarrow> u8 list \<Rightarrow> mfrc_status mfrc" where
  "mfrc_auth answers auth block sector sn = do {
     (status, recvBits, back) \<leftarrow> mfrc_to_card answers PCD_AUTHENT ([auth, block] @ take 6 sector @ take 4 sn);
     if status \<noteq> MI_OK then State_Monad.return MI_ERR
     else do {
       st \<leftarrow> read_reg answers MFRC522_REG_STATUS2;
       State_Monad.return (if st AND 0x08 = 0 then MI_ERR else status)
     }
   }"

definition mfrc_read :: "chip \<Rightarrow> u8 \<Rightarrow> u8 list \<Rightarrow> (mfrc_status \<times> u8 list) option mfrc" where
  "mfrc_read answers block data = do {
     crc \<leftarrow> mfrc_calc_crc answers [PICC_READ, block];
     let data = [PICC_READ, block] @ crc @ drop 4 data;
     (status, unLen, back) \<leftarrow> mfrc_to_card answers PCD_TRANSCEIVE (take 4 data);
     State_Monad.return (map_option (Pair (if status \<noteq> MI_OK \<or> unLen \<noteq> Some 0x90 then MI_ERR else status)) (overlay data back))
   }"

text \<open>The bytes of the local array that the code does not fill are not read; they are zero here.\<close>

definition mfrc_write :: "chip \<Rightarrow> u8 \<Rightarrow> u8 list \<Rightarrow> mfrc_status option mfrc" where
  "mfrc_write answers block data = do {
     crc \<leftarrow> mfrc_calc_crc answers [PICC_WRITE, block];
     let buf = [PICC_WRITE, block] @ crc @ replicate 14 0;
     (status, recvBits, back) \<leftarrow> mfrc_to_card answers PCD_TRANSCEIVE (take 4 buf);
     stored (State_Monad.return (overlay buf back)) (\<lambda>buf.
       if status \<noteq> MI_OK \<or> recvBits \<noteq> Some 4 \<or> buf ! 0 AND 0x0F \<noteq> 0x0A then State_Monad.return (Some MI_ERR)
       else do {
         let buf = take MFRC522_DATA_LEN data;
         crc \<leftarrow> mfrc_calc_crc answers buf;
         let buf = buf @ crc;
         (status, recvBits, back) \<leftarrow> mfrc_to_card answers PCD_TRANSCEIVE buf;
         stored (State_Monad.return (overlay buf back)) (\<lambda>buf.
           State_Monad.return (Some
             (if status \<noteq> MI_OK \<or> recvBits \<noteq> Some 4 \<or> buf ! 0 AND 0x0F \<noteq> 0x0A then MI_ERR else status)))
       })
   }"

definition mfrc_restart :: "chip \<Rightarrow> mfrc_t \<Rightarrow> unit mfrc" where
  "mfrc_restart answers driver = do {
     mfrc_reset;
     write_reg MFRC522_REG_T_MODE 0x8D;
     write_reg MFRC522_REG_T_PRESCALER 0x3E;
     write_reg MFRC522_REG_T_RELOAD_L 30;
     write_reg MFRC522_REG_T_RELOAD_H 0;
     write_reg MFRC522_REG_RF_CFG (rx_gain driver);
     write_reg MFRC522_REG_TX_AUTO 0x40;
     write_reg MFRC522_REG_MODE 0x3D;
     mfrc_tx_disable answers
   }"

text \<open>The steps between the transmitter's start and the label \<open>operate_end\<close>, from the last ones:
  the handler with the write, the read before it, and the way to an authorised card.  The arrays
  \<open>data\<close> and \<open>pass\<close> are uninitialised in the code; what they hold is an argument.\<close>

type_synonym callback = "u8 list \<Rightarrow> u8 list \<Rightarrow> u8 list \<times> u8 list"

definition handle_phase :: "chip \<Rightarrow> u8 \<Rightarrow> callback \<Rightarrow> mfrc_op \<Rightarrow> u8 list \<Rightarrow> u8 list \<Rightarrow> mfrc_status option mfrc" where
  "handle_phase answers sector handler task serial data = do {
     call (Handler serial data);
     let (serial, data) = handler serial data;
     if task = CARD_READ then State_Monad.return (Some MI_OK) else
     stored (mfrc_write answers sector data) (\<lambda>st.
     State_Monad.return (Some (if st \<noteq> MI_OK then MI_WRITE_ERROR else MI_OK)))
   }"

definition data_phase :: "chip \<Rightarrow> u8 \<Rightarrow> callback \<Rightarrow> mfrc_op \<Rightarrow> u8 list \<Rightarrow> u8 list \<Rightarrow> mfrc_status option mfrc" where
  "data_phase answers sector handler task serial data =
     stored (if task \<noteq> CARD_WRITE then mfrc_read answers sector data else State_Monad.return (Some (MI_OK, data)))
     (\<lambda>(st, data).
     if st \<noteq> MI_OK then State_Monad.return (Some MI_READ_ERROR) else handle_phase answers sector handler task serial data)"

definition card_phase ::
    "chip \<Rightarrow> u8 \<Rightarrow> callback \<Rightarrow> callback \<Rightarrow> mfrc_op \<Rightarrow> u8 list \<Rightarrow> u8 list \<Rightarrow> u8 list \<Rightarrow> mfrc_status option mfrc" where
  "card_phase answers sector keygen_func handler task data pass serial =
     stored (mfrc_select_tag answers serial) (\<lambda>card.
     if card \<noteq> Mifare_1k then State_Monad.return (Some MI_WRONG_CARD) else do {
       call (Keygen serial);
       let (serial, pass) = keygen_func serial pass;
       st \<leftarrow> mfrc_auth answers PICC_AUTHENT1A sector pass serial;
       if st \<noteq> MI_OK then State_Monad.return (Some MI_AUTH_ERROR)
       else data_phase answers sector handler task serial data
     })"

definition operate_steps ::
    "chip \<Rightarrow> u8 \<Rightarrow> callback \<Rightarrow> callback \<Rightarrow> mfrc_op \<Rightarrow> u8 list \<Rightarrow> u8 list \<Rightarrow> mfrc_status option mfrc" where
  "operate_steps answers sector keygen_func handler task data pass =
     stored (mfrc_request answers PICC_REQIDL (replicate MFRC522_SN_LEN 0)) (\<lambda>(st, serial).
     if st \<noteq> MI_OK then State_Monad.return (Some MI_NOCARD) else
     stored (mfrc_anti_collision answers serial) (\<lambda>(st, serial).
     if st \<noteq> MI_OK then State_Monad.return (Some MI_COLLISION)
     else card_phase answers sector keygen_func handler task data pass serial))"

definition mfrc_operate ::
    "chip \<Rightarrow> mfrc_t \<Rightarrow> u8 \<Rightarrow> callback \<Rightarrow> callback \<Rightarrow>
     mfrc_op \<Rightarrow> u8 list \<Rightarrow> u8 list \<Rightarrow> mfrc_status option mfrc" where
  "mfrc_operate answers driver sector keygen_func handler task data pass =
     (if MFRC522_MAX_SECTORS \<le> sector then State_Monad.return (Some MI_WRONG_PARAM)
      else do {
        mfrc_tx_enable answers;
        stored (operate_steps answers sector keygen_func handler task data pass) (\<lambda>res. do {
          mfrc_restart answers driver;
          State_Monad.return (Some res)
        })
      })"

definition mfrc_check_interface :: "chip \<Rightarrow> mfrc_status mfrc" where
  "mfrc_check_interface answers = do {
     vers \<leftarrow> read_reg answers MFRC522_REG_VERSION;
     State_Monad.return (if vers = 0x91 \<or> vers = 0x92 then MI_OK else MI_INTERFACE_ERROR)
   }"

definition mfrc_sleep :: "chip \<Rightarrow> unit option mfrc" where
  "mfrc_sleep answers = do {
     crc \<leftarrow> mfrc_calc_crc answers [PICC_HALT, 0];
     let buf = [PICC_HALT, 0] @ crc;
     (status, unLen, back) \<leftarrow> mfrc_to_card answers PCD_TRANSCEIVE buf;
     State_Monad.return (map_option (\<lambda>_. ()) (overlay buf back))
   }"

text \<open>Numbers in a data block, least significant byte first as the target stores them.\<close>

definition mifare_encode :: "u32 \<Rightarrow> u8 list \<Rightarrow> u8 list option" where
  "mifare_encode v buf = overlay buf (le_bytes 4 v @ le_bytes 4 (NOT v) @ le_bytes 4 v)"

definition mifare_decode :: "u8 list \<Rightarrow> u32" where
  "mifare_decode buf = le_word (take 4 buf)"

text \<open>The static pointer \<open>mfrc_driver\<close> before and after; a null result is \<open>None\<close>.\<close>

definition mfrc_init :: "chip \<Rightarrow> mfrc_t option \<Rightarrow> mfrc_t option \<Rightarrow> (mfrc_t option \<times> mfrc_t option) mfrc" where
  "mfrc_init answers driver init = (case init of
     None \<Rightarrow> State_Monad.return (driver, driver)
   | Some d \<Rightarrow> do {
       let d = (if rx_gain d = 0 then d\<lparr>rx_gain := RX_GAIN_48dB\<rparr> else d);
       st \<leftarrow> mfrc_check_interface answers;
       if st \<noteq> MI_OK then State_Monad.return (None, Some d)
       else do { mfrc_restart answers d; State_Monad.return (Some d, Some d) }
     })"

section \<open>What the chip is told\<close>

text \<open>
  The chip collects bytes in its FIFO until a command takes them; a write to the FIFO level
  register with bit 7 set empties the FIFO.  The log lists the commands with the
  bytes they take, what the driver then reads from the FIFO and from the register that tells whether the authentication
  has succeeded, and the calls of the two callbacks in between.  It has a value as long as the reads have been answered
  in their order.
\<close>

datatype heard = Command u8 "u8 list" | Got u8 | Status u8 | Key "u8 list" | Handled "u8 list" "u8 list"

fun hear :: "chip \<Rightarrow> heard list \<times> u8 list \<times> nat \<Rightarrow> mfrc_call \<Rightarrow> heard list \<times> u8 list \<times> nat" where
  "hear answers (hs, fifo, n) (Wr a v) =
     (if a = 0x12 then (hs, fifo @ [v], n)
      else if a = 0x14 \<and> v AND 0x80 \<noteq> 0 then (hs, [], n)
      else if a = 0x02 \<and> v \<noteq> 0 then (hs @ [Command v fifo], [], n)
      else (hs, fifo, n))"
| "hear answers (hs, fifo, n) (Rd a) =
     ((if a = 0x92 then hs @ [Got (answers n)] else if a = 0x90 then hs @ [Status (answers n)] else hs), fifo, Suc n)"
| "hear answers (hs, fifo, n) (Keygen sn) = (hs @ [Key sn], fifo, n)"
| "hear answers (hs, fifo, n) (Handler sn data) = (hs @ [Handled sn data], fifo, n)"

definition heard_in :: "chip \<Rightarrow> mfrc_call list \<Rightarrow> heard list \<times> u8 list \<times> nat" where
  "heard_in answers es = foldl (hear answers) ([], [], 0) es"

definition ear :: "chip \<Rightarrow> mfrc_call io \<Rightarrow> (heard list \<times> u8 list) option" where
  "ear answers s = (case heard_in answers (trace s) of (hs, fifo, n) \<Rightarrow> if n = asked s then Some (hs, fifo) else None)"

lemma ear_io_start [simp]: "ear answers io_start = Some ([], [])"
  by (simp add: ear_def heard_in_def)

lemma ear_Some: "ear answers s = Some (hs, fifo) \<longleftrightarrow> heard_in answers (trace s) = (hs, fifo, asked s)"
  by (auto simp: ear_def split: prod.splits if_splits)

lemma heard_in_append [simp]: "heard_in answers (es @ es') = foldl (hear answers) (heard_in answers es) es'"
  by (simp add: heard_in_def)

text \<open>Operations the log does not show.\<close>

definition silent :: "chip \<Rightarrow> 'a mfrc \<Rightarrow> bool" where
  "silent answers m \<longleftrightarrow> (\<forall>s hs fifo. ear answers s = Some (hs, fifo) \<longrightarrow> ear answers (snd (run_state m s)) = Some (hs, fifo))"

lemma silentD: "silent answers m \<Longrightarrow> ear answers s = Some e \<Longrightarrow> run_state m s = (x, s') \<Longrightarrow> ear answers s' = Some e"
  unfolding silent_def by (metis snd_conv surj_pair)

lemma silent_bind [inv_intros]:
  assumes "silent answers m" "\<And>x. silent answers (f x)"
  shows "silent answers (State_Monad.bind m f)"
  using assms by (auto simp: silent_def split: prod.splits) (metis snd_conv)

lemma silent_return [inv_intros]: "silent answers (State_Monad.return x)"
  by (simp add: silent_def)

lemma silent_if [inv_intros]: "silent answers a \<Longrightarrow> silent answers b \<Longrightarrow> silent answers (if c then a else b)"
  by simp

definition dull_reg :: "u8 \<Rightarrow> bool" where
  "dull_reg a \<longleftrightarrow> push_bit 1 a AND 0x7E OR 0x80 \<notin> {0x90, 0x92}"

lemma silent_read [inv_intros]: "dull_reg a \<Longrightarrow> silent answers (read_reg answers a)"
  by (auto simp: silent_def read_reg_def run_simps ear_Some dull_reg_def)

lemma silent_skip [inv_intros]: "silent answers skip"
  by (simp add: silent_def run_simps)

definition quiet_reg :: "u8 \<Rightarrow> bool" where
  "quiet_reg a \<longleftrightarrow> push_bit 1 a AND 0x7E \<notin> {0x12, 0x14, 0x02}"

lemma silent_write [inv_intros]: "quiet_reg a \<Longrightarrow> silent answers (write_reg a v)"
  by (auto simp: silent_def write_reg_def run_simps ear_Some quiet_reg_def)

lemma silent_idle [inv_intros]: "silent answers (write_reg MFRC522_REG_COMMAND 0)"
  by (auto simp: silent_def write_reg_def run_simps mfrc_regs ear_Some)

lemma silent_masks [inv_intros]:
  "quiet_reg a \<Longrightarrow> dull_reg a \<Longrightarrow> silent answers (mfrc_set_bit_mask answers a m)"
  "quiet_reg a \<Longrightarrow> dull_reg a \<Longrightarrow> silent answers (mfrc_clear_bit_mask answers a m)"
  unfolding mfrc_set_bit_mask_def mfrc_clear_bit_mask_def by (intro inv_intros; assumption)+

lemma quiet_regs [inv_intros]:
  "quiet_reg MFRC522_REG_COMM_IE_N" "quiet_reg MFRC522_REG_COMM_IRQ" "quiet_reg MFRC522_REG_DIV_IRQ"
  "quiet_reg MFRC522_REG_BIT_FRAMING" "quiet_reg MFRC522_REG_TX_CONTROL" "quiet_reg MFRC522_REG_T_MODE"
  "quiet_reg MFRC522_REG_T_PRESCALER" "quiet_reg MFRC522_REG_T_RELOAD_L" "quiet_reg MFRC522_REG_T_RELOAD_H"
  "quiet_reg MFRC522_REG_RF_CFG" "quiet_reg MFRC522_REG_TX_AUTO" "quiet_reg MFRC522_REG_MODE"
  by (simp_all add: quiet_reg_def mfrc_regs)

lemma dull_regs [inv_intros]:
  "dull_reg MFRC522_REG_COMM_IRQ" "dull_reg MFRC522_REG_DIV_IRQ" "dull_reg MFRC522_REG_BIT_FRAMING"
  "dull_reg MFRC522_REG_TX_CONTROL" "dull_reg MFRC522_REG_ERROR" "dull_reg MFRC522_REG_FIFO_LEVEL" "dull_reg MFRC522_REG_CONTROL"
  "dull_reg MFRC522_REG_CRC_RESULT_L" "dull_reg MFRC522_REG_CRC_RESULT_M" "dull_reg MFRC522_REG_VERSION"
  by (simp_all add: dull_reg_def mfrc_regs)

lemma silent_wait [inv_intros]: "silent answers (wait_irq answers w i)" "silent answers (wait_crc answers i)"
  by (induction i) (auto intro!: inv_intros)

lemma silent_tx [inv_intros]: "silent answers (mfrc_tx_enable answers)" "silent answers (mfrc_tx_disable answers)"
  unfolding mfrc_tx_enable_def mfrc_tx_disable_def by (intro inv_intros)+

text \<open>What an operation does from a given state of the ear.\<close>

definition told :: "chip \<Rightarrow> heard list \<times> u8 list \<Rightarrow> 'a mfrc \<Rightarrow> ('a \<Rightarrow> heard list \<times> u8 list \<Rightarrow> bool) \<Rightarrow> bool" where
  "told answers e m Q \<longleftrightarrow> (\<forall>s. ear answers s = Some e \<longrightarrow> (\<exists>x s' e'. run_state m s = (x, s') \<and> ear answers s' = Some e' \<and> Q x e'))"

lemma told_bind:
  assumes "told answers e m R" "\<And>x e'. R x e' \<Longrightarrow> told answers e' (f x) Q"
  shows "told answers e (State_Monad.bind m f) Q"
  unfolding told_def
proof (intro allI impI)
  fix s assume e: "ear answers s = Some e"
  obtain x s1 e1 where 1: "run_state m s = (x, s1)" "ear answers s1 = Some e1" "R x e1"
    using assms(1) [unfolded told_def, rule_format, OF e] by blast
  then show "\<exists>y s' e'. run_state (State_Monad.bind m f) s = (y, s') \<and> ear answers s' = Some e' \<and> Q y e'"
    using assms(2) [OF 1(3), unfolded told_def, rule_format, OF 1(2)] by simp
qed

lemma told_return: "Q x e \<Longrightarrow> told answers e (State_Monad.return x) Q"
  by (cases e) (simp add: told_def)

lemma told_silent: "silent answers m \<Longrightarrow> (\<And>x. Q x e) \<Longrightarrow> told answers e m Q"
  unfolding told_def by (metis silentD surj_pair)

lemma told_then_silent: "silent answers m \<Longrightarrow> (\<And>x. told answers e (f x) Q) \<Longrightarrow> told answers e (State_Monad.bind m f) Q"
  by (rule told_bind [OF told_silent [where Q = "\<lambda>x e'. e' = e"]]) auto

lemma told_step: "told answers e m (\<lambda>_ e'. e' = e1) \<Longrightarrow> (\<And>x. told answers e1 (f x) Q) \<Longrightarrow> told answers e (State_Monad.bind m f) Q"
  by (erule told_bind) auto

lemma told_if: "(c \<Longrightarrow> told answers e a Q) \<Longrightarrow> (\<not> c \<Longrightarrow> told answers e b Q) \<Longrightarrow> told answers e (if c then a else b) Q"
  by simp

lemma told_mono: "told answers e m Q \<Longrightarrow> (\<And>x e'. Q x e' \<Longrightarrow> R x e') \<Longrightarrow> told answers e m R"
  unfolding told_def by blast

text \<open>Filling the FIFO and starting a command.\<close>

lemma told_flush: "told answers (hs, fifo) (mfrc_set_bit_mask answers MFRC522_REG_FIFO_LEVEL 0x80) (\<lambda>_ e. e = (hs, []))"
proof -
  have "(v OR 0x80) AND 0x80 \<noteq> (0 :: u8)" for v using or_and_same by simp
  then show ?thesis
    by (simp add: told_def mfrc_set_bit_mask_def read_reg_def write_reg_def run_simps mfrc_regs ear_Some)
qed

lemma told_fill: "told answers (hs, fifo) (for_each (write_reg MFRC522_REG_FIFO_DATA) bs) (\<lambda>_ e. e = (hs, fifo @ bs))"
proof (induction bs arbitrary: fifo)
  case (Cons b bs)
  have "told answers (hs, fifo) (write_reg MFRC522_REG_FIFO_DATA b) (\<lambda>_ e. e = (hs, fifo @ [b]))"
    by (simp add: told_def write_reg_def run_simps mfrc_regs ear_Some)
  then show ?case using Cons [of "fifo @ [b]"] by (auto intro!: told_bind)
qed (simp add: told_return)

lemma told_command: "c \<noteq> 0 \<Longrightarrow>
  told answers (hs, fifo) (write_reg MFRC522_REG_COMMAND c) (\<lambda>_ e. e = (hs @ [Command c fifo], []))"
  by (simp add: told_def write_reg_def run_simps mfrc_regs ear_Some)

text \<open>Reading what is logged.\<close>

lemma told_got: "told answers (hs, fifo) (read_reg answers MFRC522_REG_FIFO_DATA) (\<lambda>b e. e = (hs @ [Got b], fifo))"
  by (simp add: told_def read_reg_def run_simps mfrc_regs ear_Some)

lemma told_status: "told answers (hs, fifo) (read_reg answers MFRC522_REG_STATUS2) (\<lambda>v e. e = (hs @ [Status v], fifo))"
  by (simp add: told_def read_reg_def run_simps mfrc_regs ear_Some)

lemma told_read_fifo: "told answers (hs, fifo) (read_fifo answers n) (\<lambda>bs e. e = (hs @ map Got bs, fifo) \<and> length bs = n)"
proof (induction n arbitrary: hs)
  case (Suc n)
  show ?case
    unfolding read_fifo.simps
    by (rule told_bind [OF told_got]) (auto intro!: told_bind [OF Suc] told_return)
qed (simp add: told_return)

text \<open>What a command leaves behind: with a success and a length in bits there are as many bytes, if they are not more than sixteen.\<close>

definition left_behind :: "mfrc_cmd \<Rightarrow> mfrc_status \<times> u16 option \<times> u8 list \<Rightarrow> bool" where
  "left_behind command r \<longleftrightarrow> (case r of (st, len, back) \<Rightarrow> length back \<le> 16 \<and> (command \<noteq> PCD_TRANSCEIVE \<longrightarrow> back = []) \<and>
     (command = PCD_TRANSCEIVE \<and> st = MI_OK \<longrightarrow> back \<noteq> [] \<and>
       (\<forall>k \<in> {4, 16, 24, 144}. len = Some k \<longrightarrow> length back = min 16 ((unat k + 7) div 8))))"

lemma fifo_length:
  fixes n c :: u8
  assumes "(if c AND 0x07 \<noteq> 0 then (ucast n - 1) * 8 + ucast (c AND 0x07) else ucast n * 8 :: u16) = k" "k \<in> {4, 16, 24, 144}"
  shows "(let m = (if n = 0 then 1 else n) in if MFRC522_SN_LEN < unat m then MFRC522_SN_LEN else unat m) = min 16 ((unat k + 7) div 8)"
proof -
  have un: "unat (ucast x :: u16) = unat x" for x :: u8
  proof -
    have "unat x < 2 ^ 8" using unsigned_less [of x, where ?'a = nat] by simp
    then have "unat x < 2 ^ 16" by (rule order.strict_trans) simp
    then have "take_bit 16 (unat x) = unat x" by (rule take_bit_nat_eq_self)
    then show ?thesis by (simp add: unsigned_ucast_eq)
  qed
  have c: "unat (c AND 0x07) < 8"
  proof -
    have "c AND 0x07 = take_bit 3 c" by (simp add: take_bit_eq_mask mask_numeral)
    then show ?thesis using take_bit_nat_less_exp [of 3 "unat c"] by (simp add: unsigned_take_bit_eq)
  qed
  have "unat n < 256" using unsigned_less [of n, where ?'a = nat] by simp
  then have "unat n * 8 < 65536" "(unat n - 1) * 8 + unat (c AND 0x07) < 65536" "(unat n - 1) * 8 < 65536" using c by linarith+
  note m = this [THEN mod_less]
  show ?thesis
  proof (cases "c AND 0x07 = 0")
    case True
    then have "unat k = unat n * 8" using assms(1) m(1) by (auto simp: unat_word_ariths un)
    then show ?thesis using assms(2) by (auto simp: Let_def MFRC522_SN_LEN_def min_def unat_eq_zero)
  next
    case False
    then have e: "(ucast n - 1) * 8 + ucast (c AND 0x07) = k" using assms(1) by simp
    show ?thesis
    proof (cases "n = 0")
      case True
      then have "unat k = 65536 - 8 + unat (c AND 0x07)" using e c by (auto simp: unat_sub_if' un)
      then show ?thesis using assms(2) by auto
    next
      case n0: False
      then have p: "0 < unat n" by (simp add: unat_gt_0)
      define x y where "x = (ucast n - 1 :: u16)" and "y = (ucast (c AND 0x07) :: u16)"
      have "unat x = unat n - 1" "unat y = unat (c AND 0x07)" using p by (simp_all add: x_def y_def unat_sub_if' un)
      moreover have "x * 8 + y = k" using e by (simp add: x_def y_def)
      ultimately have u: "unat k = (unat n - 1) * 8 + unat (c AND 0x07)" using m(2,3) by (auto simp: unat_word_ariths)
      have f: "0 < unat (c AND 0x07)" using False by (simp add: unat_gt_0)
      have "unat n = (unat k + 7) div 8" using u p c f by linarith
      then show ?thesis using n0 by (simp add: Let_def MFRC522_SN_LEN_def min_def)
    qed
  qed
qed

lemma told_collect:
  "told answers (hs, fifo) (collect answers command irqEn n i)
     (\<lambda>(st, len, back) e. e = (hs @ map Got back, fifo) \<and> left_behind command (st, len, back))"
proof -
  have n: "0 < (if MFRC522_SN_LEN < unat k then MFRC522_SN_LEN else unat k)"
    "(if MFRC522_SN_LEN < unat k then MFRC522_SN_LEN else unat k) \<le> 16" if "k \<noteq> 0" for k :: u8
    using that by (auto simp: MFRC522_SN_LEN_def unat_gt_0)
  show ?thesis
    unfolding collect_def
    apply (rule told_if, simp add: told_return left_behind_def)
    apply (rule told_then_silent, intro inv_intros)
    apply (rule told_if, simp add: told_return left_behind_def)
    apply (subst Let_def, rule told_if, simp add: told_return left_behind_def)
    apply (rule told_then_silent, intro inv_intros)+
    unfolding Let_def
    apply (rule told_bind [OF told_read_fifo])
    apply (rule told_return)
    subgoal for _ level control bs
      using n [of "if level = 0 then 1 else level"] fifo_length [of control level, OF refl]
      by (auto simp: left_behind_def Let_def simp flip: length_greater_0_conv)
    done
qed

text \<open>An operation with what the log shows of it, started and left with an empty FIFO.\<close>

definition hears :: "chip \<Rightarrow> 'a mfrc \<Rightarrow> ('a \<Rightarrow> heard list \<Rightarrow> bool) \<Rightarrow> bool" where
  "hears answers m P \<longleftrightarrow> (\<forall>s hs. ear answers s = Some (hs, []) \<longrightarrow>
     (\<exists>x s' hs'. run_state m s = (x, s') \<and> ear answers s' = Some (hs @ hs', []) \<and> P x hs'))"

lemma hears_bind:
  assumes "hears answers m P" "\<And>x hs. P x hs \<Longrightarrow> hears answers (f x) (\<lambda>y hs'. Q y (hs @ hs'))"
  shows "hears answers (State_Monad.bind m f) Q"
  unfolding hears_def
proof (intro allI impI)
  fix s hs assume e: "ear answers s = Some (hs, [])"
  obtain x s1 h1 where 1: "run_state m s = (x, s1)" "ear answers s1 = Some (hs @ h1, [])" "P x h1"
    using assms(1) [unfolded hears_def, rule_format, OF e] by blast
  obtain y s2 h2 where 2: "run_state (f x) s1 = (y, s2)" "ear answers s2 = Some ((hs @ h1) @ h2, [])" "Q y (h1 @ h2)"
    using assms(2) [OF 1(3), unfolded hears_def, rule_format, OF 1(2)] by blast
  show "\<exists>x s' hs'. run_state (State_Monad.bind m f) s = (x, s') \<and> ear answers s' = Some (hs @ hs', []) \<and> Q x hs'"
    using 1(1) 2 by (intro exI [of _ y] exI [of _ s2] exI [of _ "h1 @ h2"]) simp
qed

lemma hears_stored:
  assumes "hears answers m P" "\<And>hs. P None hs \<Longrightarrow> Q None hs"
    "\<And>v hs. P (Some v) hs \<Longrightarrow> hears answers (f v) (\<lambda>y hs'. Q y (hs @ hs'))"
  shows "hears answers (stored m f) Q"
  unfolding stored_def
proof (rule hears_bind [OF assms(1)])
  fix x hs assume "P x hs"
  then show "hears answers (case x of None \<Rightarrow> State_Monad.return None | Some v \<Rightarrow> f v) (\<lambda>y hs'. Q y (hs @ hs'))"
    using assms(2,3) by (cases x) (auto simp: hears_def)
qed

lemma stored_return: "stored (State_Monad.return (Some v)) f = f v"
  by (simp add: stored_def)

lemma hears_if: "(c \<Longrightarrow> hears answers a P) \<Longrightarrow> (\<not> c \<Longrightarrow> hears answers b P) \<Longrightarrow> hears answers (if c then a else b) P"
  by simp

lemma hears_return: "P x [] \<Longrightarrow> hears answers (State_Monad.return x) P"
  by (simp add: hears_def)

lemma hears_silent: "silent answers m \<Longrightarrow> (\<And>x. P x []) \<Longrightarrow> hears answers m P"
  unfolding hears_def by (metis append_Nil2 silentD surj_pair)

lemma hears_callbacks:
  "P () [Key sn] \<Longrightarrow> hears answers (call (Keygen sn)) P"
  "P () [Handled sn d] \<Longrightarrow> hears answers (call (Handler sn d)) P"
  by (simp_all add: hears_def run_simps ear_Some)

lemma hears_mono: "hears answers m P \<Longrightarrow> (\<And>x hs. P x hs \<Longrightarrow> Q x hs) \<Longrightarrow> hears answers m Q"
  unfolding hears_def by blast

text \<open>A command, and the bytes that come back.\<close>

definition exchange :: "u8 \<Rightarrow> u8 list \<Rightarrow> u8 list \<Rightarrow> heard list" where
  "exchange c d back = Command c d # map Got back"

definition carried :: "mfrc_cmd \<Rightarrow> u8 list \<Rightarrow> mfrc_status \<times> u16 option \<times> u8 list \<Rightarrow> heard list \<Rightarrow> bool" where
  "carried command d r hs \<longleftrightarrow> hs = exchange (cmd_code command) d (snd (snd r)) \<and> left_behind command r"

lemma hears_told: "hears answers m P \<longleftrightarrow> (\<forall>hs. told answers (hs, []) m (\<lambda>x e. \<exists>hs'. e = (hs @ hs', []) \<and> P x hs'))"
  unfolding hears_def told_def by fastforce

lemma hears_status: "(\<And>v. P v [Status v]) \<Longrightarrow> hears answers (read_reg answers MFRC522_REG_STATUS2) P"
  unfolding hears_told by (auto intro: told_mono [OF told_status])

lemma hears_to_card:
  assumes "command = PCD_AUTHENT \<or> command = PCD_TRANSCEIVE"
  shows "hears answers (mfrc_to_card answers command d) (carried command d)"
proof -
  obtain irqEn waitIRq where m: "irq_masks command = Some (irqEn, waitIRq)" and c: "cmd_code command \<noteq> 0"
    using assms by (auto simp: irq_masks_def)
  show ?thesis
    unfolding hears_told mfrc_to_card_def m option.case prod.case
    apply (rule allI)
    apply (rule told_then_silent, intro inv_intros)
    apply (rule told_then_silent, intro inv_intros)
    apply (rule told_step [OF told_flush])
    apply (rule told_then_silent, simp only: cmd_code.simps, rule silent_idle)
    apply (rule told_step [OF told_fill])
    apply (rule told_step [OF told_command [OF c]])
    apply (rule told_then_silent, intro inv_intros)
    apply (rule told_then_silent, rule silent_wait)
    apply (simp only: split_beta)
    apply (rule told_then_silent, intro inv_intros)
    apply (rule told_mono [OF told_collect])
    by (auto simp: carried_def exchange_def)
qed

lemmas picc_codes = PICC_REQIDL_def PICC_ANTICOLL_def PICC_SElECTTAG_def PICC_READ_def PICC_WRITE_def PICC_AUTHENT1A_def

lemma hears_calc_crc: "hears answers (mfrc_calc_crc answers d) (\<lambda>crc hs. hs = [Command 0x03 d] \<and> length crc = 2)"
  unfolding hears_told mfrc_calc_crc_def
  apply (rule allI)
  apply (rule told_then_silent, intro inv_intros)
  apply (rule told_step [OF told_flush])
  apply (rule told_step [OF told_fill])
  apply (rule told_step [OF told_command], simp)
  apply (rule told_then_silent, rule silent_wait)
  apply (rule told_then_silent, intro inv_intros)
  apply (rule told_then_silent, intro inv_intros)
  by (simp add: told_return)

lemma overlay_Some: "length bs \<le> length buf \<Longrightarrow> \<exists>buf'. overlay buf bs = Some buf' \<and> length buf' = length buf"
  by (simp add: overlay_def)

lemma left_lengths:
  "left_behind c (st, len, b) \<Longrightarrow> length b \<le> 16"
  "left_behind PCD_TRANSCEIVE (MI_OK, Some 4, b) \<Longrightarrow> length b = 1"
  "left_behind PCD_TRANSCEIVE (MI_OK, Some 16, b) \<Longrightarrow> length b = 2"
  "left_behind PCD_TRANSCEIVE (MI_OK, Some 24, b) \<Longrightarrow> length b = 3"
  "left_behind PCD_TRANSCEIVE (MI_OK, Some 144, b) \<Longrightarrow> length b = 16"
  by (simp_all add: left_behind_def)

lemma hears_transceive:
  assumes "\<And>st len b. left_behind PCD_TRANSCEIVE (st, len, b) \<Longrightarrow> hears answers (f (st, len, b)) (\<lambda>y hs. Q y (exchange 0x0C d b @ hs))"
  shows "hears answers (State_Monad.bind (mfrc_to_card answers PCD_TRANSCEIVE d) f) Q"
proof (rule hears_bind [OF hears_to_card])
  fix r hs assume c: "carried PCD_TRANSCEIVE d r hs"
  obtain st len b where r: "r = (st, len, b)" by (rule prod_cases3)
  show "hears answers (f r) (\<lambda>y hs'. Q y (hs @ hs'))" using assms [of st len b] c by (simp add: r carried_def)
qed simp

lemma hears_quietly: "silent answers m \<Longrightarrow> (\<And>x. hears answers (f x) Q) \<Longrightarrow> hears answers (State_Monad.bind m f) Q"
  by (rule hears_bind [OF hears_silent [where P = "\<lambda>_ hs. hs = []"]]) auto

lemma hears_crc:
  assumes "\<And>c. length c = 2 \<Longrightarrow> hears answers (f c) (\<lambda>y hs. Q y (Command 0x03 d # hs))"
  shows "hears answers (State_Monad.bind (mfrc_calc_crc answers d) f) Q"
  by (rule hears_bind [OF hears_calc_crc]) (use assms in auto)

lemma hears_request:
  assumes "length tag = 16"
  shows "hears answers (mfrc_request answers m tag) (\<lambda>r hs. \<exists>st b. r = Some (st, b @ drop (length b) (tag[0 := m])) \<and>
    hs = exchange 0x0C [m] b \<and> length b \<le> 16 \<and> (st = MI_OK \<longrightarrow> length b = 2))"
proof -
  have t: "take 1 (tag[0 := m]) = [m]" using assms by (cases tag) simp_all
  show ?thesis
    unfolding mfrc_request_def Let_def t
  proof (rule hears_quietly, intro inv_intros, rule hears_transceive, unfold prod.case, rule hears_return)
    fix st len b assume l: "left_behind PCD_TRANSCEIVE (st, len, b)"
    then have 2: "length b = 2" if "st = MI_OK" "len = Some 16" using that left_lengths(3) by blast
    show "\<exists>st' b'. map_option (Pair (if st \<noteq> MI_OK \<or> len \<noteq> Some 16 then MI_ERR else st)) (overlay (tag[0 := m]) b) =
        Some (st', b' @ drop (length b') (tag[0 := m])) \<and> exchange 12 [m] b @ [] = exchange 12 [m] b' \<and> length b' \<le> 16 \<and> (st' = MI_OK \<longrightarrow> length b' = 2)"
      using left_lengths(1) [OF l] 2 assms
      by (intro exI [of _ "if st \<noteq> MI_OK \<or> len \<noteq> Some 16 then MI_ERR else st"] exI [of _ b]) (auto simp: overlay_def)
  qed
qed

definition valid_sn :: "u8 list \<Rightarrow> bool" where
  "valid_sn sn \<longleftrightarrow> foldl (XOR) 0 (map ((!) sn) [0..<4]) = sn ! 4"

lemma hears_anti_collision:
  assumes "length sn = 16"
  shows "hears answers (mfrc_anti_collision answers sn) (\<lambda>r hs. \<exists>st b. hs = exchange 0x0C [0x93, 0x20] b \<and>
    (let sn = b @ drop (length b) (0x93 # 0x20 # drop 2 sn) in length sn = 16 \<and> r = Some (st, sn) \<and> (st = MI_OK \<longrightarrow> valid_sn sn)))"
proof -
  obtain x y zs where sn: "sn = x # y # zs" using assms by (cases sn; cases "tl sn") auto
  have t: "sn[0 := PICC_ANTICOLL, 1 := 0x20] = 0x93 # 0x20 # drop 2 sn" by (simp add: sn picc_codes)
  show ?thesis
    unfolding mfrc_anti_collision_def t
  proof (subst Let_def, rule hears_quietly, intro inv_intros, rule hears_transceive, unfold prod.case, rule hears_return)
    fix st len b assume "left_behind PCD_TRANSCEIVE (st, len, b)"
    from left_lengths(1) [OF this] have o: "overlay (0x93 # 0x20 # drop 2 sn) b = Some (b @ drop (length b) (0x93 # 0x20 # drop 2 sn))"
      and l: "length (b @ drop (length b) (0x93 # 0x20 # drop 2 sn)) = 16" using assms by (simp_all add: overlay_def)
    show "\<exists>st' b'. exchange 12 (take 2 (0x93 # 0x20 # drop 2 sn)) b @ [] = exchange 12 [0x93, 0x20] b' \<and>
        (let sn' = b' @ drop (length b') (0x93 # 0x20 # drop 2 sn) in length sn' = 16 \<and>
          map_option (\<lambda>sn. (if st = MI_OK \<and> foldl (XOR) 0 (map ((!) sn) [0..<4]) \<noteq> sn ! 4 then MI_ERR else st, sn))
            (overlay (0x93 # 0x20 # drop 2 sn) b) = Some (st', sn') \<and> (st' = MI_OK \<longrightarrow> valid_sn sn'))"
      unfolding o option.map Let_def
      by (rule exI [of _ "if st = MI_OK \<and> \<not> valid_sn (b @ drop (length b) (0x93 # 0x20 # drop 2 sn)) then MI_ERR else st"], rule exI [of _ b])
        (use l in \<open>simp add: valid_sn_def\<close>)
  qed
qed

lemma hears_select_tag:
  assumes "5 \<le> length sn"
  shows "hears answers (mfrc_select_tag answers sn) (\<lambda>r hs. \<exists>c b. length c = 2 \<and>
    hs = Command 0x03 ([0x93, 0x70] @ take 5 sn) # exchange 0x0C ([0x93, 0x70] @ take 5 sn @ c) b \<and>
    (if 9 < length b then r = None else \<exists>card. r = Some card \<and> (card = Mifare_1k \<longrightarrow> length b = 3 \<and> hd b = 0x08)))"
  unfolding mfrc_select_tag_def Let_def
proof (rule hears_crc, rule hears_transceive, unfold prod.case, rule hears_return)
  fix c :: "u8 list" and st len b assume c: "length c = 2" and l: "left_behind PCD_TRANSCEIVE (st, len, b)"
  let ?buf = "([PICC_SElECTTAG, 112] @ take 5 sn) @ c"
  let ?r = "map_option (\<lambda>buf. if st = MI_OK \<and> len = Some 24 then buf ! 0 else MifareErr) (overlay ?buf b)"
  have k: "length ?buf = 9" using assms c by simp
  have o: "overlay ?buf b = (if 9 < length b then None else Some (b @ drop (length b) ?buf))" unfolding overlay_def k by simp
  have b: "length b = 3" "(b @ drop (length b) ?buf) ! 0 = hd b" if "st = MI_OK" "len = Some 24"
    using left_lengths(4) [of b] l that by (cases b; auto)+
  have "if 9 < length b then ?r = None else \<exists>card. ?r = Some card \<and> (card = Mifare_1k \<longrightarrow> length b = 3 \<and> hd b = 0x08)"
    unfolding o using b by (simp add: MifareErr_def Mifare_1k_def)
  then show "\<exists>c' b'. length c' = 2 \<and>
      Command 3 ([PICC_SElECTTAG, 112] @ take 5 sn) # exchange 12 ?buf b @ [] =
        Command 3 ([147, 112] @ take 5 sn) # exchange 12 ([147, 112] @ take 5 sn @ c') b' \<and>
      (if 9 < length b' then ?r = None else \<exists>card. ?r = Some card \<and> (card = Mifare_1k \<longrightarrow> length b' = 3 \<and> hd b' = 8))"
    using c by (intro exI [of _ c] exI [of _ b]) (simp add: picc_codes)
qed

lemma hears_auth:
  "hears answers (mfrc_auth answers a block key sn) (\<lambda>st hs. \<exists>rest. hs = Command 0x0E ([a, block] @ take 6 key @ take 4 sn) # rest \<and>
    (rest = [] \<and> st \<noteq> MI_OK \<or> (\<exists>v. rest = [Status v] \<and> (st = MI_OK \<longleftrightarrow> v AND 0x08 \<noteq> 0))))"
  unfolding mfrc_auth_def
  apply (rule hears_bind [OF hears_to_card], simp)
  apply (clarsimp simp: carried_def left_behind_def exchange_def)
  by (auto intro!: hears_return hears_bind [OF hears_status [where P = "\<lambda>v hs. hs = [Status v]"]] simp: exchange_def)

lemma hears_read:
  assumes "length d = 16"
  shows "hears answers (mfrc_read answers block d) (\<lambda>r hs. \<exists>c b st d'. length c = 2 \<and>
    hs = Command 0x03 [0x30, block] # exchange 0x0C ([0x30, block] @ c) b \<and> r = Some (st, d') \<and> length d' = 16 \<and>
    (st = MI_OK \<longrightarrow> length b = 16 \<and> d' = b))"
  unfolding mfrc_read_def Let_def
proof (rule hears_crc, rule hears_transceive, unfold prod.case, rule hears_return)
  fix c :: "u8 list" and st len b assume c: "length c = 2" and l: "left_behind PCD_TRANSCEIVE (st, len, b)"
  let ?buf = "[PICC_READ, block] @ c @ drop 4 d"
  have k: "length ?buf = 16" using assms c by simp
  have o: "overlay ?buf b = Some (b @ drop (length b) ?buf)" using left_lengths(1) [OF l] k by (simp add: overlay_def)
  have 16: "length b = 16" if "st = MI_OK" "len = Some 144" using left_lengths(5) [of b] l that by blast
  have "(if st \<noteq> MI_OK \<or> len \<noteq> Some 144 then MI_ERR else st) = MI_OK \<longrightarrow> length b = 16 \<and> b @ drop (length b) ?buf = b"
    using 16 k by auto
  moreover have "length (b @ drop (length b) ?buf) = 16" using left_lengths(1) [OF l] k by simp
  ultimately show "\<exists>c' b' st' d'. length c' = 2 \<and>
      Command 3 [PICC_READ, block] # exchange 12 (take 4 ?buf) b @ [] = Command 3 [48, block] # exchange 12 ([48, block] @ c') b' \<and>
      map_option (Pair (if st \<noteq> MI_OK \<or> len \<noteq> Some 144 then MI_ERR else st)) (overlay ?buf b) = Some (st', d') \<and> length d' = 16 \<and>
      (st' = MI_OK \<longrightarrow> length b' = 16 \<and> d' = b')"
    unfolding o option.map using c
    by (intro exI [of _ c] exI [of _ b] exI [of _ "if st \<noteq> MI_OK \<or> len \<noteq> Some 144 then MI_ERR else st"]
      exI [of _ "b @ drop (length b) ?buf"]) (simp add: picc_codes)
qed

text \<open>The card acknowledges with four bits.\<close>

definition ack :: "u8 list \<Rightarrow> bool" where
  "ack b \<longleftrightarrow> length b = 1 \<and> hd b AND 0x0F = 0x0A"

definition writes :: "u8 \<Rightarrow> u8 list \<Rightarrow> bool \<Rightarrow> heard list \<Rightarrow> bool" where
  "writes block d ok hs \<longleftrightarrow> (\<exists>c b. length c = 2 \<and> (let w = Command 0x03 [0xA0, block] # exchange 0x0C ([0xA0, block] @ c) b in
     hs = w \<and> \<not> ok \<or>
     ack b \<and> (\<exists>c' b'. length c' = 2 \<and> hs = w @ Command 0x03 (take 16 d) # exchange 0x0C (take 16 d @ c') b' \<and> (ok \<longrightarrow> ack b'))))"

lemma hears_write:
  assumes "length d = 16"
  shows "hears answers (mfrc_write answers block d) (\<lambda>r hs. \<exists>st. r = Some st \<and> writes block d (st = MI_OK) hs)"
proof -
  have ack: "ack b" if "left_behind PCD_TRANSCEIVE (MI_OK, Some 4, b)" "(b @ drop (length b) buf) ! 0 AND 0x0F = 0x0A" for b buf
    using that by (cases b) (auto simp: left_behind_def ack_def)
  have 2: "hears answers (do { crc \<leftarrow> mfrc_calc_crc answers (take 16 d);
      (status, recvBits, back) \<leftarrow> mfrc_to_card answers PCD_TRANSCEIVE (take 16 d @ crc);
      stored (State_Monad.return (overlay (take 16 d @ crc) back)) (\<lambda>buf. State_Monad.return (Some
        (if status \<noteq> MI_OK \<or> recvBits \<noteq> Some 4 \<or> buf ! 0 AND 0x0F \<noteq> 0x0A then MI_ERR else status))) })
    (\<lambda>r hs. \<exists>st c b. r = Some st \<and> length c = 2 \<and> hs = Command 0x03 (take 16 d) # exchange 0x0C (take 16 d @ c) b \<and> (st = MI_OK \<longrightarrow> ack b))"
  proof (rule hears_crc, rule hears_transceive, unfold prod.case)
    fix c :: "u8 list" and st len b assume c: "length c = 2" and l: "left_behind PCD_TRANSCEIVE (st, len, b)"
    let ?buf = "take 16 d @ c"
    have o: "overlay ?buf b = Some (b @ drop (length b) ?buf)" using left_lengths(1) [OF l] assms c by (simp add: overlay_def)
    have a: "ack b" if "st = MI_OK" "len = Some 4" "(b @ drop (length b) ?buf) ! 0 AND 0x0F = 0x0A"
      using ack [of b ?buf] l that by simp
    show "hears answers (stored (State_Monad.return (overlay ?buf b)) (\<lambda>buf. State_Monad.return (Some
        (if st \<noteq> MI_OK \<or> len \<noteq> Some 4 \<or> buf ! 0 AND 0x0F \<noteq> 0x0A then MI_ERR else st))))
      (\<lambda>r hs. \<exists>st' c' b'. r = Some st' \<and> length c' = 2 \<and>
        Command 0x03 (take 16 d) # exchange 0x0C ?buf b @ hs = Command 0x03 (take 16 d) # exchange 0x0C (take 16 d @ c') b' \<and>
        (st' = MI_OK \<longrightarrow> ack b'))"
      unfolding o stored_return
      by (rule hears_return, rule exI [of _ "if st \<noteq> MI_OK \<or> len \<noteq> Some 4 \<or> (b @ drop (length b) ?buf) ! 0 AND 0x0F \<noteq> 0x0A then MI_ERR else st"],
          rule exI [of _ c], rule exI [of _ b]) (use a c in simp)
  qed
  show ?thesis
    unfolding mfrc_write_def Let_def MFRC522_DATA_LEN_def
  proof (rule hears_bind [OF hears_calc_crc], rule hears_bind [OF hears_to_card], simp)
    fix crc hs r hs'
    let ?buf = "[PICC_WRITE, block] @ crc @ replicate 14 0"
    assume c: "hs = [Command 3 [PICC_WRITE, block]] \<and> length crc = 2" and r: "carried PCD_TRANSCEIVE (take 4 ?buf) r hs'"
    obtain st len b where b: "r = (st, len, b)" by (rule prod_cases3)
    have o: "overlay ?buf b = Some (b @ drop (length b) ?buf)" using c r b by (simp add: overlay_def carried_def left_behind_def)
    have h: "hs @ hs' = Command 0x03 [0xA0, block] # exchange 0x0C ([0xA0, block] @ crc) b"
      using c r b by (simp add: carried_def picc_codes)
    then have h2: "hs @ hs' @ xs = (Command 0x03 [0xA0, block] # exchange 0x0C ([0xA0, block] @ crc) b) @ xs" for xs
      by (metis append_assoc)
    have a: "ack b" if "st = MI_OK" "len = Some 4" "(b @ drop (length b) ?buf) ! 0 AND 0x0F = 0x0A"
      using ack [of b ?buf] r that by (simp add: b carried_def)
    show "hears answers (case r of (status, recvBits, back) \<Rightarrow>
        stored (State_Monad.return (overlay ?buf back)) (\<lambda>buf.
          if status \<noteq> MI_OK \<or> recvBits \<noteq> Some 4 \<or> buf ! 0 AND 0x0F \<noteq> 0x0A then State_Monad.return (Some MI_ERR)
          else do { crc \<leftarrow> mfrc_calc_crc answers (take 16 d);
            (status, recvBits, back) \<leftarrow> mfrc_to_card answers PCD_TRANSCEIVE (take 16 d @ crc);
            stored (State_Monad.return (overlay (take 16 d @ crc) back)) (\<lambda>buf. State_Monad.return (Some
              (if status \<noteq> MI_OK \<or> recvBits \<noteq> Some 4 \<or> buf ! 0 AND 0x0F \<noteq> 0x0A then MI_ERR else status))) }))
      (\<lambda>r hs''. \<exists>st. r = Some st \<and> writes block d (st = MI_OK) (hs @ hs' @ hs''))"
      unfolding b prod.case h2
      unfolding o stored_return
    proof (rule hears_if)
      show "hears answers (State_Monad.return (Some MI_ERR)) (\<lambda>r hs''. \<exists>st. r = Some st \<and> writes block d (st = MI_OK)
          ((Command 0x03 [0xA0, block] # exchange 0x0C ([0xA0, block] @ crc) b) @ hs''))"
        using c by (intro hears_return) (auto simp: writes_def Let_def)
      assume "\<not> (st \<noteq> MI_OK \<or> len \<noteq> Some 4 \<or> (b @ drop (length b) ?buf) ! 0 AND 0x0F \<noteq> 0x0A)"
      then have b: "ack b" using a by blast
      have w: "writes block d ok ((Command 0x03 [0xA0, block] # exchange 0x0C ([0xA0, block] @ crc) b) @ h)"
        if "length c' = 2" "h = Command 0x03 (take 16 d) # exchange 0x0C (take 16 d @ c') b'" "ok \<longrightarrow> ack b'" for ok c' b' h
        unfolding writes_def Let_def by (rule exI [of _ crc], rule exI [of _ b]) (use that b c in blast)
      show "hears answers (do { crc \<leftarrow> mfrc_calc_crc answers (take 16 d);
            (status, recvBits, back) \<leftarrow> mfrc_to_card answers PCD_TRANSCEIVE (take 16 d @ crc);
            stored (State_Monad.return (overlay (take 16 d @ crc) back)) (\<lambda>buf. State_Monad.return (Some
              (if status \<noteq> MI_OK \<or> recvBits \<noteq> Some 4 \<or> buf ! 0 AND 0x0F \<noteq> 0x0A then MI_ERR else status))) })
        (\<lambda>r hs''. \<exists>st. r = Some st \<and> writes block d (st = MI_OK)
          ((Command 0x03 [0xA0, block] # exchange 0x0C ([0xA0, block] @ crc) b) @ hs''))"
        by (rule hears_mono [OF 2]) (use w in blast)
    qed
  qed
qed

lemma hears_restart: "hears answers (mfrc_restart answers driver) (\<lambda>_ hs. hs = [Command 0x0F []])"
  unfolding hears_told mfrc_restart_def mfrc_reset_def
  apply (rule allI)
  apply (rule told_step [OF told_command], simp)
  by (rule told_silent, intro inv_intros) auto

section \<open>The session with a card\<close>

text \<open>
  What the log may be, from each point of the session on, and the result that goes with it.  The write of a block after
  the handler; the handler, with the bytes that the card has sent, and the read before it; the
  authentication, with the key of the caller's function; and the selection, whose answer may be too long for its array.
\<close>

definition handles :: "u8 \<Rightarrow> callback \<Rightarrow> mfrc_op \<Rightarrow> u8 list \<Rightarrow> u8 list \<Rightarrow> mfrc_status option \<Rightarrow> heard list \<Rightarrow> bool" where
  "handles sector handler task sn data r hs \<longleftrightarrow> (\<exists>rest. hs = Handled sn data # rest \<and>
     (if task = CARD_READ then rest = [] \<and> r = Some MI_OK
      else writes sector (snd (handler sn data)) (r = Some MI_OK) rest \<and> (r = Some MI_OK \<or> r = Some MI_WRITE_ERROR)))"

definition transfers :: "u8 \<Rightarrow> callback \<Rightarrow> mfrc_op \<Rightarrow> u8 list \<Rightarrow> u8 list \<Rightarrow> mfrc_status option \<Rightarrow> heard list \<Rightarrow> bool" where
  "transfers sector handler task sn data r hs \<longleftrightarrow>
     (if task = CARD_WRITE then handles sector handler task sn data r hs
      else \<exists>c b rest. length c = 2 \<and> hs = Command 0x03 [0x30, sector] # exchange 0x0C ([0x30, sector] @ c) b @ rest \<and>
        (rest = [] \<and> r = Some MI_READ_ERROR \<or> length b = 16 \<and> handles sector handler task sn b r rest))"

definition authorises ::
    "u8 \<Rightarrow> callback \<Rightarrow> callback \<Rightarrow> mfrc_op \<Rightarrow> u8 list \<Rightarrow> u8 list \<Rightarrow> u8 list \<Rightarrow> mfrc_status option \<Rightarrow> heard list \<Rightarrow> bool" where
  "authorises sector keygen_func handler task data pass serial r hs \<longleftrightarrow> (case keygen_func serial pass of (sn, key) \<Rightarrow>
     (\<exists>rest. hs = Key serial # Command 0x0E ([0x60, sector] @ take 6 key @ take 4 sn) # rest \<and>
       (rest = [] \<and> r = Some MI_AUTH_ERROR \<or>
        (\<exists>v rest'. rest = Status v # rest' \<and>
          (if v AND 0x08 = 0 then rest' = [] \<and> r = Some MI_AUTH_ERROR
           else transfers sector handler task sn data r rest')))))"

definition selects ::
    "u8 \<Rightarrow> callback \<Rightarrow> callback \<Rightarrow> mfrc_op \<Rightarrow> u8 list \<Rightarrow> u8 list \<Rightarrow> u8 list \<Rightarrow> mfrc_status option \<Rightarrow> heard list \<Rightarrow> bool" where
  "selects sector keygen_func handler task data pass serial r hs \<longleftrightarrow> (\<exists>c b rest. length c = 2 \<and>
     hs = Command 0x03 ([0x93, 0x70] @ take 5 serial) # exchange 0x0C ([0x93, 0x70] @ take 5 serial @ c) b @ rest \<and>
     (if 9 < length b then rest = [] \<and> r = None
      else rest = [] \<and> r = Some MI_WRONG_CARD \<or>
        length b = 3 \<and> hd b = 0x08 \<and> authorises sector keygen_func handler task data pass serial r rest))"

text \<open>The whole session: the request, to which a card answers with two bytes, and the serial number with its checksum.\<close>

definition follows ::
    "u8 \<Rightarrow> callback \<Rightarrow> callback \<Rightarrow> mfrc_op \<Rightarrow> u8 list \<Rightarrow> u8 list \<Rightarrow> mfrc_status option \<Rightarrow> heard list \<Rightarrow> bool" where
  "follows sector keygen_func handler task data pass r hs \<longleftrightarrow> (\<exists>b rest. hs = exchange 0x0C [0x26] b @ rest \<and>
     (rest = [] \<and> r = Some MI_NOCARD \<or>
      length b = 2 \<and> (\<exists>b' rest'. rest = exchange 0x0C [0x93, 0x20] b' @ rest' \<and>
        (let serial = b' @ drop (length b') (0x93 # 0x20 # replicate 14 0) in
          rest' = [] \<and> r = Some MI_COLLISION \<or>
          valid_sn serial \<and> selects sector keygen_func handler task data pass serial r rest'))))"

lemma hears_handle_phase:
  assumes "length (snd (handler sn d)) = 16"
  shows "hears answers (handle_phase answers sector handler task sn d) (handles sector handler task sn d)"
  unfolding handle_phase_def
proof (rule hears_bind [OF hears_callbacks(2) [where P = "\<lambda>_ hs. hs = [Handled sn d]"]], simp)
  fix u hs assume hs: "hs = [Handled sn d]"
  have "hears answers (if task = CARD_READ then State_Monad.return (Some MI_OK)
      else stored (mfrc_write answers sector (snd (handler sn d))) (\<lambda>st. State_Monad.return (Some (if st \<noteq> MI_OK then MI_WRITE_ERROR else MI_OK))))
    (\<lambda>y hs'. handles sector handler task sn d y (hs @ hs'))"
  proof (rule hears_if)
    assume "task = CARD_READ"
    then show "hears answers (State_Monad.return (Some MI_OK)) (\<lambda>y hs'. handles sector handler task sn d y (hs @ hs'))"
      by (intro hears_return) (simp add: handles_def hs)
  next
    assume t: "task \<noteq> CARD_READ"
    show "hears answers (stored (mfrc_write answers sector (snd (handler sn d)))
        (\<lambda>st. State_Monad.return (Some (if st \<noteq> MI_OK then MI_WRITE_ERROR else MI_OK))))
      (\<lambda>y hs'. handles sector handler task sn d y (hs @ hs'))"
      by (rule hears_stored [OF hears_write [OF assms]]) (auto intro!: hears_return simp: handles_def hs t)
  qed
  then show "hears answers (let (serial, data) = handler sn d in if task = CARD_READ then State_Monad.return (Some MI_OK) else
      stored (mfrc_write answers sector data) (\<lambda>st. State_Monad.return (Some (if st \<noteq> MI_OK then MI_WRITE_ERROR else MI_OK))))
    (\<lambda>y hs'. handles sector handler task sn d y (hs @ hs'))"
    by (simp add: Let_def split_beta)
qed

lemma hears_data_phase:
  assumes h: "\<And>sn d. length d = 16 \<Longrightarrow> length (snd (handler sn d)) = 16" and data: "length data = 16"
  shows "hears answers (data_phase answers sector handler task sn data) (transfers sector handler task sn data)"
proof (cases "task = CARD_WRITE")
  case True
  then show ?thesis
    using hears_handle_phase [of handler sn data answers sector task, OF h [OF data]] by (simp add: data_phase_def stored_return transfers_def [abs_def])
next
  case False
  show ?thesis
    unfolding data_phase_def if_P [OF False]
  proof (rule hears_stored [OF hears_read [OF data]])
    fix v :: "mfrc_status \<times> u8 list" and hs
    assume "\<exists>c b st d'. length c = 2 \<and> hs = Command 3 [0x30, sector] # exchange 0x0C ([0x30, sector] @ c) b \<and>
      Some v = Some (st, d') \<and> length d' = 16 \<and> (st = MI_OK \<longrightarrow> length b = 16 \<and> d' = b)"
    then obtain c b st d' where c: "length c = 2" "hs = Command 3 [0x30, sector] # exchange 0x0C ([0x30, sector] @ c) b"
      "v = (st, d')" "length d' = 16" "st = MI_OK \<Longrightarrow> length b = 16 \<and> d' = b" by blast
    have t: "transfers sector handler task sn data r (hs @ rest)"
      if "rest = [] \<and> r = Some MI_READ_ERROR \<or> length b = 16 \<and> handles sector handler task sn b r rest" for r rest
      unfolding transfers_def if_not_P [OF False] using c(1,2) that by (intro exI [of _ c] exI [of _ b] exI [of _ rest]) simp
    show "hears answers (case v of (st, data) \<Rightarrow>
       if st \<noteq> MI_OK then State_Monad.return (Some MI_READ_ERROR) else handle_phase answers sector handler task sn data)
       (\<lambda>y hs'. transfers sector handler task sn data y (hs @ hs'))"
      unfolding c(3) prod.case
    proof (rule hears_if)
      show "hears answers (State_Monad.return (Some MI_READ_ERROR)) (\<lambda>y hs'. transfers sector handler task sn data y (hs @ hs'))"
        by (rule hears_return, rule t) simp
      assume "\<not> st \<noteq> MI_OK"
      then have b: "length b = 16" "d' = b" using c(5) by simp_all
      show "hears answers (handle_phase answers sector handler task sn d') (\<lambda>y hs'. transfers sector handler task sn data y (hs @ hs'))"
        unfolding b(2) by (rule hears_mono [OF hears_handle_phase [of handler sn b, OF h [OF b(1)]]], rule t) (simp add: b)
    qed
  qed simp
qed

lemma hears_card_phase:
  assumes h: "\<And>sn d. length d = 16 \<Longrightarrow> length (snd (handler sn d)) = 16" and data: "length data = 16" and sn: "5 \<le> length serial"
  shows "hears answers (card_phase answers sector keygen_func handler task data pass serial)
    (selects sector keygen_func handler task data pass serial)"
  unfolding card_phase_def
proof (rule hears_stored [OF hears_select_tag [OF sn]])
  let ?cmds = "\<lambda>c b. Command 3 ([0x93, 0x70] @ take 5 serial) # exchange 0x0C ([0x93, 0x70] @ take 5 serial @ c) b"
  fix hs assume "\<exists>c b. length c = 2 \<and> hs = ?cmds c b \<and>
    (if 9 < length b then None = None else \<exists>card. None = Some card \<and> (card = Mifare_1k \<longrightarrow> length b = 3 \<and> hd b = 8))"
  then show "selects sector keygen_func handler task data pass serial None hs"
    unfolding selects_def by (fastforce split: if_splits)
next
  let ?cmds = "\<lambda>c b. Command 3 ([0x93, 0x70] @ take 5 serial) # exchange 0x0C ([0x93, 0x70] @ take 5 serial @ c) b"
  fix v hs assume "\<exists>c b. length c = 2 \<and> hs = ?cmds c b \<and>
    (if 9 < length b then Some v = None else \<exists>card. Some v = Some card \<and> (card = Mifare_1k \<longrightarrow> length b = 3 \<and> hd b = 8))"
  then obtain c b where c: "length c = 2" "hs = ?cmds c b" "\<not> 9 < length b" "v = Mifare_1k \<Longrightarrow> length b = 3 \<and> hd b = 8"
    by (auto split: if_splits)
  have s: "selects sector keygen_func handler task data pass serial r (hs @ rest)"
    if "rest = [] \<and> r = Some MI_WRONG_CARD \<or> length b = 3 \<and> hd b = 8 \<and> authorises sector keygen_func handler task data pass serial r rest"
    for r rest
    unfolding selects_def using c(1-3) that by (intro exI [of _ c] exI [of _ b] exI [of _ rest]) simp
  obtain sn key where k: "keygen_func serial pass = (sn, key)" by fastforce
  let ?auth = "[Key serial, Command 0x0E ([0x60, sector] @ take 6 key @ take 4 sn)]"
  have "hears answers (do { st \<leftarrow> mfrc_auth answers PICC_AUTHENT1A sector key sn;
      if st \<noteq> MI_OK then State_Monad.return (Some MI_AUTH_ERROR) else data_phase answers sector handler task sn data })
    (\<lambda>y hs'. authorises sector keygen_func handler task data pass serial y (Key serial # hs'))"
  proof (rule hears_bind [OF hears_auth])
    fix st h assume "\<exists>rest. h = Command 0x0E ([PICC_AUTHENT1A, sector] @ take 6 key @ take 4 sn) # rest \<and>
      (rest = [] \<and> st \<noteq> MI_OK \<or> (\<exists>v. rest = [Status v] \<and> (st = MI_OK \<longleftrightarrow> v AND 8 \<noteq> 0)))"
    then obtain rest where r: "h = Command 0x0E ([0x60, sector] @ take 6 key @ take 4 sn) # rest"
      "rest = [] \<and> st \<noteq> MI_OK \<or> (\<exists>v. rest = [Status v] \<and> (st = MI_OK \<longleftrightarrow> v AND 8 \<noteq> 0))" by (auto simp: picc_codes)
    show "hears answers (if st \<noteq> MI_OK then State_Monad.return (Some MI_AUTH_ERROR) else data_phase answers sector handler task sn data)
      (\<lambda>y hs'. authorises sector keygen_func handler task data pass serial y (Key serial # h @ hs'))"
    proof (rule hears_if)
      assume "st \<noteq> MI_OK"
      then show "hears answers (State_Monad.return (Some MI_AUTH_ERROR))
          (\<lambda>y hs'. authorises sector keygen_func handler task data pass serial y (Key serial # h @ hs'))"
        using r by (intro hears_return) (auto simp: authorises_def k)
    next
      assume "\<not> st \<noteq> MI_OK"
      then obtain v where v: "rest = [Status v]" "v AND 8 \<noteq> 0" using r(2) by auto
      show "hears answers (data_phase answers sector handler task sn data)
          (\<lambda>y hs'. authorises sector keygen_func handler task data pass serial y (Key serial # h @ hs'))"
        by (rule hears_mono [OF hears_data_phase [OF h data]]) (simp_all add: authorises_def k r(1) v)
    qed
  qed
  then have auth: "hears answers (do { call (Keygen serial); let (serial, pass) = keygen_func serial pass;
       st \<leftarrow> mfrc_auth answers PICC_AUTHENT1A sector pass serial;
       if st \<noteq> MI_OK then State_Monad.return (Some MI_AUTH_ERROR) else data_phase answers sector handler task serial data })
    (authorises sector keygen_func handler task data pass serial)"
    by (intro hears_bind [OF hears_callbacks(1) [where P = "\<lambda>_ h. h = [Key serial]"]]) (simp_all add: k)
  show "hears answers (if v \<noteq> Mifare_1k then State_Monad.return (Some MI_WRONG_CARD) else do {
       call (Keygen serial);
       let (serial, pass) = keygen_func serial pass;
       st \<leftarrow> mfrc_auth answers PICC_AUTHENT1A sector pass serial;
       if st \<noteq> MI_OK then State_Monad.return (Some MI_AUTH_ERROR)
       else data_phase answers sector handler task serial data
     }) (\<lambda>y hs'. selects sector keygen_func handler task data pass serial y (hs @ hs'))"
  proof (rule hears_if)
    show "hears answers (State_Monad.return (Some MI_WRONG_CARD)) (\<lambda>y hs'. selects sector keygen_func handler task data pass serial y (hs @ hs'))"
      by (rule hears_return, rule s) simp
    assume "\<not> v \<noteq> Mifare_1k"
    then have "length b = 3 \<and> hd b = 8" using c(4) by simp
    then show "hears answers (do { call (Keygen serial); let (serial, pass) = keygen_func serial pass;
       st \<leftarrow> mfrc_auth answers PICC_AUTHENT1A sector pass serial;
       if st \<noteq> MI_OK then State_Monad.return (Some MI_AUTH_ERROR) else data_phase answers sector handler task serial data })
      (\<lambda>y hs'. selects sector keygen_func handler task data pass serial y (hs @ hs'))"
      by (intro hears_mono [OF auth] s) simp
  qed
qed

lemma hears_operate_steps:
  assumes h: "\<And>sn d. length d = 16 \<Longrightarrow> length (snd (handler sn d)) = 16" and data: "length data = 16"
  shows "hears answers (operate_steps answers sector keygen_func handler task data pass) (follows sector keygen_func handler task data pass)"
  unfolding operate_steps_def
proof (rule hears_stored [OF hears_request], simp add: MFRC522_SN_LEN_def, simp)
  let ?tag = "(replicate MFRC522_SN_LEN 0)[0 := PICC_REQIDL] :: u8 list"
  fix v hs assume "\<exists>st b. Some v = Some (st, b @ drop (length b) ?tag) \<and> hs = exchange 0x0C [PICC_REQIDL] b \<and>
    length b \<le> 16 \<and> (st = MI_OK \<longrightarrow> length b = 2)"
  then obtain st b where v: "v = (st, b @ drop (length b) ?tag)" "hs = exchange 0x0C [0x26] b" "length b \<le> 16"
    "st = MI_OK \<Longrightarrow> length b = 2" by (auto simp: picc_codes)
  have f: "follows sector keygen_func handler task data pass r (hs @ rest)"
    if "rest = [] \<and> r = Some MI_NOCARD \<or> length b = 2 \<and> (\<exists>b' rest'. rest = exchange 0x0C [0x93, 0x20] b' @ rest' \<and>
        (let serial = b' @ drop (length b') (0x93 # 0x20 # replicate 14 0) in
          rest' = [] \<and> r = Some MI_COLLISION \<or> valid_sn serial \<and> selects sector keygen_func handler task data pass serial r rest'))" for r rest
    unfolding follows_def using v(2) that by blast
  let ?sn = "b @ drop (length b) ?tag"
  show "hears answers (case v of (st, serial) \<Rightarrow>
     if st \<noteq> MI_OK then State_Monad.return (Some MI_NOCARD) else
     stored (mfrc_anti_collision answers serial) (\<lambda>(st, serial).
     if st \<noteq> MI_OK then State_Monad.return (Some MI_COLLISION)
     else card_phase answers sector keygen_func handler task data pass serial))
    (\<lambda>y hs'. follows sector keygen_func handler task data pass y (hs @ hs'))"
    unfolding v(1) prod.case
  proof (rule hears_if)
    show "hears answers (State_Monad.return (Some MI_NOCARD)) (\<lambda>y hs'. follows sector keygen_func handler task data pass y (hs @ hs'))"
      by (rule hears_return, rule f) simp
    assume "\<not> st \<noteq> MI_OK"
    then have b: "length b = 2" using v(4) by simp
    have l: "length ?sn = 16" using v(3) by (simp add: MFRC522_SN_LEN_def)
    have d: "drop 2 ?sn = replicate 14 0" using b by (simp add: MFRC522_SN_LEN_def numeral_eq_Suc)
    show "hears answers (stored (mfrc_anti_collision answers ?sn) (\<lambda>(st, serial).
        if st \<noteq> MI_OK then State_Monad.return (Some MI_COLLISION)
        else card_phase answers sector keygen_func handler task data pass serial))
      (\<lambda>y hs'. follows sector keygen_func handler task data pass y (hs @ hs'))"
    proof (rule hears_stored [OF hears_anti_collision [OF l]], unfold d)
      fix v h assume "\<exists>st b'. h = exchange 0x0C [0x93, 0x20] b' \<and> (let sn = b' @ drop (length b') (0x93 # 0x20 # replicate 14 0) in
        length sn = 16 \<and> Some v = Some (st, sn) \<and> (st = MI_OK \<longrightarrow> valid_sn sn))"
      then obtain st b' sn where w: "h = exchange 0x0C [0x93, 0x20] b'" "sn = b' @ drop (length b') (0x93 # 0x20 # replicate 14 0)"
        "length sn = 16" "v = (st, sn)" "st = MI_OK \<Longrightarrow> valid_sn sn" by (auto simp: Let_def)
      show "hears answers (case v of (st, serial) \<Rightarrow> if st \<noteq> MI_OK then State_Monad.return (Some MI_COLLISION)
          else card_phase answers sector keygen_func handler task data pass serial)
        (\<lambda>y hs'. follows sector keygen_func handler task data pass y (hs @ h @ hs'))"
        unfolding w(4) prod.case
      proof (rule hears_if)
        show "hears answers (State_Monad.return (Some MI_COLLISION)) (\<lambda>y hs'. follows sector keygen_func handler task data pass y (hs @ h @ hs'))"
          by (rule hears_return, rule f) (use b w(1) in \<open>auto simp: Let_def\<close>)
        assume "\<not> st \<noteq> MI_OK"
        then have "valid_sn sn" using w(5) by simp
        then show "hears answers (card_phase answers sector keygen_func handler task data pass sn)
            (\<lambda>y hs'. follows sector keygen_func handler task data pass y (hs @ h @ hs'))"
          by (intro hears_mono [OF hears_card_phase [OF h data]] f) (use b w(1-3) in \<open>auto simp: Let_def\<close>)
      qed
    qed simp
  qed
qed

lemma restart_last:
  "\<exists>v. last (trace (snd (run_state (mfrc_restart answers driver) s))) = Wr 0x28 v \<and> v AND 0x03 = 0"
proof -
  have "(x AND - 4) AND 0x03 = (0 :: u8)" for x by (simp add: and.assoc)
  then show ?thesis
    by (simp add: mfrc_restart_def mfrc_reset_def mfrc_tx_disable_def mfrc_clear_bit_mask_def read_reg_def write_reg_def
      run_simps mfrc_regs)
qed

text \<open>The waits end at once when the first answer has the bit.\<close>

lemma wait_irq_hit:
  assumes "answers (asked s) AND w \<noteq> 0 \<or> answers (asked s) AND 1 \<noteq> 0"
  shows "run_state (wait_irq answers w 2000) s =
    ((answers (asked s), 1999), s\<lparr>trace := trace s @ [Rd 0x88], asked := Suc (asked s)\<rparr>)"
proof -
  have "wait_irq answers w (Suc 1999) = do {
     n \<leftarrow> read_reg answers MFRC522_REG_COMM_IRQ;
     if 1999 \<noteq> (0 :: nat) \<and> n AND 0x01 = 0 \<and> n AND w = 0 then wait_irq answers w 1999
     else State_Monad.return (n, 1999)
   }" by (rule wait_irq.simps)
  then show ?thesis using assms by (auto simp: read_reg_def run_simps mfrc_regs)
qed

lemma wait_crc_hit:
  assumes "answers (asked s) AND 4 \<noteq> 0"
  shows "run_state (wait_crc answers 0xFF) s = ((), s\<lparr>trace := trace s @ [Rd 0x8A], asked := Suc (asked s)\<rparr>)"
proof -
  have "wait_crc answers (Suc 254) = do {
     n \<leftarrow> read_reg answers MFRC522_REG_DIV_IRQ;
     if 254 \<noteq> (0 :: nat) \<and> n AND 0x04 = 0 then wait_crc answers 254 else State_Monad.return ()
   }" by (rule wait_crc.simps)
  then show ?thesis using assms by (simp add: read_reg_def run_simps mfrc_regs)
qed

lemmas run_mfrc = mfrc_operate_def operate_steps_def card_phase_def data_phase_def handle_phase_def mfrc_request_def mfrc_anti_collision_def
  mfrc_select_tag_def mfrc_auth_def mfrc_read_def mfrc_write_def mfrc_calc_crc_def mfrc_to_card_def collect_def irq_masks_def
  mfrc_restart_def mfrc_reset_def mfrc_tx_enable_def mfrc_tx_disable_def mfrc_set_bit_mask_def mfrc_clear_bit_mask_def
  read_reg_def write_reg_def stored_def run_simps wait_irq_hit wait_crc_hit Let_def MFRC522_MAX_SECTORS_def MFRC522_SN_LEN_def MFRC522_DATA_LEN_def overlay_def

lemma numeral_steps:
  "read_fifo answers (numeral k) = do {
     b \<leftarrow> read_reg answers MFRC522_REG_FIFO_DATA; bs \<leftarrow> read_fifo answers (pred_numeral k); State_Monad.return (b # bs) }"
  "replicate (numeral k) x = x # replicate (pred_numeral k) x"
  by (simp_all add: numeral_eq_Suc)

text \<open>
  C25: an operation on a sector below 40, with 16 bytes of data and a handler that keeps their number, whatever the chip and the card
  answer.  It follows the session with the card step by step, and goes from each step to the next only on what it
  read from the chip: two bytes after the request; a serial number with the right checksum; three bytes, the first of a 1k
  card, after the selection; the bit of the status register that tells that the authentication has succeeded; sixteen bytes after the
  read, which are the data that the handler gets; and the acknowledgement of each part of the write, with the bytes of the handler.  The result
  tells where the session ended.  Whenever the operation returns, the chip has been reset last and the transmitter
  switched off.  The operation has no value, and then there is no reset, exactly when the answer to the selection is longer than the
  nine bytes of the local array of \<open>mfrc_select_tag\<close>.
\<close>
theorem mfrc_operate_protocol:
  assumes "sector < 40" "length data = 16" "\<And>sn d. length d = 16 \<Longrightarrow> length (snd (handler sn d)) = 16"
  shows "\<exists>r s' hs. run_state (mfrc_operate answers driver sector keygen_func handler task data pass) io_start = (r, s') \<and>
    follows sector keygen_func handler task data pass r hs \<and>
    (case r of None \<Rightarrow> ear answers s' = Some (hs, [])
     | Some st \<Rightarrow> ear answers s' = Some (hs @ [Command 0x0F []], []) \<and> (\<exists>v. last (trace s') = Wr 0x28 v \<and> v AND 0x03 = 0))"
proof -
  let ?m = "do { mfrc_tx_enable answers; operate_steps answers sector keygen_func handler task data pass }"
  have s: "\<not> MFRC522_MAX_SECTORS \<le> sector" using assms(1) by (simp add: MFRC522_MAX_SECTORS_def)
  have "hears answers ?m (follows sector keygen_func handler task data pass)"
    by (rule hears_quietly, intro inv_intros) (rule hears_operate_steps [OF assms(3,2)])
  from this [unfolded hears_def, rule_format, OF ear_io_start]
  obtain r s1 hs where 1: "run_state ?m io_start = (r, s1)" "ear answers s1 = Some (hs, [])"
    "follows sector keygen_func handler task data pass r hs" by auto
  show ?thesis
  proof (cases r)
    case None
    then show ?thesis using 1 s by (auto simp: mfrc_operate_def stored_def split: prod.splits)
  next
    case (Some st)
    obtain u s2 where 2: "run_state (mfrc_restart answers driver) s1 = (u, s2)" "ear answers s2 = Some (hs @ [Command 0x0F []], [])"
      using hears_restart [unfolded hears_def, rule_format, OF 1(2)] by blast
    have "run_state (mfrc_operate answers driver sector keygen_func handler task data pass) io_start = (Some st, s2)"
      using 1(1) s Some 2(1) by (auto simp: mfrc_operate_def stored_def split: prod.splits)
    then show ?thesis using 1(3) 2 restart_last [of answers driver s1] Some by simp
  qed
qed

theorem mfrc_operate_protocol_witness:
  "\<exists>s' b. run_state (mfrc_operate (\<lambda>_. 1) \<lparr>rx_gain = 0x70\<rparr> 4 (\<lambda>sn key. (sn, replicate 6 0xFF)) (\<lambda>sn d. (sn, map (\<lambda>b. b + 1) d))
      CARD_RW (replicate 16 0) (replicate 6 0)) io_start = (Some MI_NOCARD, s') \<and>
    ear (\<lambda>_. 1) s' = Some (exchange 0x0C [0x26] b @ [Command 0x0F []], [])"
proof -
  let ?r = "run_state (mfrc_operate (\<lambda>_. 1) \<lparr>rx_gain = 0x70\<rparr> 4 (\<lambda>sn key. (sn, replicate 6 0xFF)) (\<lambda>sn d. (sn, map (\<lambda>b. b + 1) d))
      CARD_RW (replicate 16 0) (replicate 6 0)) io_start"
  have "fst ?r = Some MI_NOCARD" by (simp add: run_mfrc numeral_steps)
  then obtain s' hs where s': "?r = (Some MI_NOCARD, s')" "ear (\<lambda>_. 1) s' = Some (hs @ [Command 0x0F []], [])"
    "follows 4 (\<lambda>sn key. (sn, replicate 6 0xFF)) (\<lambda>sn d. (sn, map (\<lambda>b. b + 1) d)) CARD_RW (replicate 16 0) (replicate 6 0) (Some MI_NOCARD) hs"
    using mfrc_operate_protocol [of 4 "replicate 16 0" "\<lambda>sn d. (sn, map (\<lambda>b. b + 1) d)" "\<lambda>_. 1" "\<lparr>rx_gain = 0x70\<rparr>"
      "\<lambda>sn key. (sn, replicate 6 0xFF)" CARD_RW "replicate 6 0"] by auto
  from s'(3) obtain b where "hs = exchange 0x0C [0x26] b"
    by (auto simp: follows_def selects_def authorises_def transfers_def handles_def Let_def split: if_splits)
  then show ?thesis using s'(1,2) by blast
qed

text \<open>The local array of \<open>mfrc_select_tag\<close> has nine bytes, and the code copies up to sixteen into it.\<close>

lemma select_tag_overruns: "fst (run_state (mfrc_select_tag (\<lambda>_. 0x24) (replicate 16 0)) io_start) = None"
  by (simp add: run_mfrc numeral_steps)

text \<open>A number survives in a data block.\<close>

lemma mifare_round_trip:
  assumes "12 \<le> length buf"
  shows "\<exists>buf'. mifare_encode v buf = Some buf' \<and> mifare_decode buf' = v \<and> length buf' = length buf"
  using assms by (simp add: mifare_encode_def mifare_decode_def overlay_def le_word_le_bytes_id)

end
