(* ===== verification/Nrf24l01.thy ===== *)
theory Nrf24l01
  imports C_Io
begin

text \<open>
  The radio driver of Common/nrf24l01+.c.  The bus functions of the configuration structure
  are recorded as calls, and what the radio answers is a parameter.  The static pointer
  \<open>local_driver\<close> is the component \<open>driver\<close> of the state, and the function pointers that
  \<open>nrf24l01_init\<close> stores there are the functions themselves.
\<close>

section \<open>The model\<close>

definition CONFIG_REG :: u8 where "CONFIG_REG = 0x00"
definition EN_AA_REG :: u8 where "EN_AA_REG = 0x01"
definition EN_RXADDR_REG :: u8 where "EN_RXADDR_REG = 0x02"
definition SETUP_AW_REG :: u8 where "SETUP_AW_REG = 0x03"
definition SETUP_RETR_REG :: u8 where "SETUP_RETR_REG = 0x04"
definition RF_CH_REG :: u8 where "RF_CH_REG = 0x05"
definition RF_SETUP_REG :: u8 where "RF_SETUP_REG = 0x06"
definition STATUS_REG :: u8 where "STATUS_REG = 0x07"
definition RX_ADDR_P0_REG :: u8 where "RX_ADDR_P0_REG = 0x0A"
definition RX_ADDR_P1_REG :: u8 where "RX_ADDR_P1_REG = 0x0B"
definition RX_ADDR_P2_REG :: u8 where "RX_ADDR_P2_REG = 0x0C"
definition RX_ADDR_P3_REG :: u8 where "RX_ADDR_P3_REG = 0x0D"
definition RX_ADDR_P4_REG :: u8 where "RX_ADDR_P4_REG = 0x0E"
definition RX_ADDR_P5_REG :: u8 where "RX_ADDR_P5_REG = 0x0F"
definition TX_ADDR_REG :: u8 where "TX_ADDR_REG = 0x10"
definition RX_PW_P0_REG :: u8 where "RX_PW_P0_REG = 0x11"
definition RX_PW_P1_REG :: u8 where "RX_PW_P1_REG = 0x12"
definition RX_PW_P2_REG :: u8 where "RX_PW_P2_REG = 0x13"
definition RX_PW_P3_REG :: u8 where "RX_PW_P3_REG = 0x14"
definition RX_PW_P4_REG :: u8 where "RX_PW_P4_REG = 0x15"
definition RX_PW_P5_REG :: u8 where "RX_PW_P5_REG = 0x16"
definition FIFO_STATUS_REG :: u8 where "FIFO_STATUS_REG = 0x17"
definition SEND_PAYLOAD_CMD :: u8 where "SEND_PAYLOAD_CMD = 0xA0"
definition RX_DR_IRQ_MASK :: u8 where "RX_DR_IRQ_MASK = 0x40"
definition TX_DS_IRQ_MASK :: u8 where "TX_DS_IRQ_MASK = 0x20"
definition MAX_RT_IRQ_MASK :: u8 where "MAX_RT_IRQ_MASK = 0x10"
definition FLUSH_TX_CMD :: u8 where "FLUSH_TX_CMD = 0xE1"
definition FLUSH_RX_CMD :: u8 where "FLUSH_RX_CMD = 0xE2"
definition RX_PAYLOAD_CMD :: u8 where "RX_PAYLOAD_CMD = 0x61"
definition PIPE_BITMASK :: u8 where "PIPE_BITMASK = 0x0E"
definition RX_FIFO_EMPTY_MASK :: u8 where "RX_FIFO_EMPTY_MASK = 0x01"
definition INVERT_IRQ_BITS :: u8 where "INVERT_IRQ_BITS = 0x70"
definition MAX_PIPE_SIZE :: u8 where "MAX_PIPE_SIZE = 32"

lemmas nrf_codes = CONFIG_REG_def EN_AA_REG_def EN_RXADDR_REG_def SETUP_AW_REG_def SETUP_RETR_REG_def RF_CH_REG_def
  RF_SETUP_REG_def STATUS_REG_def RX_ADDR_P0_REG_def RX_ADDR_P1_REG_def RX_ADDR_P2_REG_def RX_ADDR_P3_REG_def
  RX_ADDR_P4_REG_def RX_ADDR_P5_REG_def TX_ADDR_REG_def RX_PW_P0_REG_def RX_PW_P1_REG_def RX_PW_P2_REG_def
  RX_PW_P3_REG_def RX_PW_P4_REG_def RX_PW_P5_REG_def FIFO_STATUS_REG_def SEND_PAYLOAD_CMD_def RX_DR_IRQ_MASK_def
  TX_DS_IRQ_MASK_def MAX_RT_IRQ_MASK_def FLUSH_TX_CMD_def FLUSH_RX_CMD_def RX_PAYLOAD_CMD_def PIPE_BITMASK_def
  RX_FIFO_EMPTY_MASK_def INVERT_IRQ_BITS_def MAX_PIPE_SIZE_def

datatype radio_mode = RADIO_TX | RADIO_RX

record nrf_config =
  mode :: radio_mode
  power_enable :: bool
  crc_2b :: bool
  crc_enable :: bool
  max_rt_irq :: bool
  tx_irq :: bool
  rx_irq :: bool

record pipe_bits =
  pipe0 :: bool
  pipe1 :: bool
  pipe2 :: bool
  pipe3 :: bool
  pipe4 :: bool
  pipe5 :: bool

text \<open>The fields of several bits are bytes, of which the low bits count; \<open>has_read_irq\<close> tells
  whether the optional function pointer is set.\<close>

record nrf24l01_conf =
  error :: u8
  has_read_irq :: bool
  config :: nrf_config
  auto_acknowledgment :: pipe_bits
  enabled_rx_addresses :: pipe_bits
  address_len :: u8
  retransmit_count :: u8
  retransmit_delay :: u8
  channel :: u8
  rf_power :: u8
  data_rate_2M :: bool
  rx_address_p0 :: "u8 list option"
  rx_address_p1 :: "u8 list option"
  rx_address_p2 :: u8
  rx_address_p3 :: u8
  rx_address_p4 :: u8
  rx_address_p5 :: u8
  tx_address :: "u8 list option"
  rx_pipe_size :: "u8 list"
  read_cnt :: u32

definition config_byte :: "nrf_config \<Rightarrow> u8" where
  "config_byte c = pack [mode c = RADIO_RX, power_enable c, crc_2b c, crc_enable c, max_rt_irq c, tx_irq c, rx_irq c]"

definition pipe_byte :: "pipe_bits \<Rightarrow> u8" where
  "pipe_byte p = pack [pipe0 p, pipe1 p, pipe2 p, pipe3 p, pipe4 p, pipe5 p]"

definition count_field :: "nrf24l01_conf \<Rightarrow> u8" where
  "count_field d = retransmit_count d AND 0x0F"

datatype nrf_call = Write_cmd u8 "u8 list" | Read_cmd u8 nat | Radio_en bool | Read_irq

record nrf_io = "nrf_call io" +
  driver :: nrf24l01_conf

text \<open>What the radio answers to its \<open>i\<close>-th call: an error code, bytes, the level of the interrupt line.\<close>

record radio =
  errors :: "nat \<Rightarrow> u8"
  bytes :: "nat \<Rightarrow> nat \<Rightarrow> u8"
  irq_level :: "nat \<Rightarrow> bool"

type_synonym 'a nrf = "(nrf_io, 'a) state"

definition the_driver :: "nrf24l01_conf nrf" where
  "the_driver = State (\<lambda>s. (driver s, s))"

definition set_driver :: "(nrf24l01_conf \<Rightarrow> nrf24l01_conf) \<Rightarrow> unit nrf" where
  "set_driver f = State (\<lambda>s. ((), s\<lparr>driver := f (driver s)\<rparr>))"

lemma run_driver [run_simps]:
  "run_state the_driver s = (driver s, s)" "run_state (set_driver f) s = ((), s\<lparr>driver := f (driver s)\<rparr>)"
  by (simp_all add: the_driver_def set_driver_def)

definition write_reg :: "radio \<Rightarrow> u8 \<Rightarrow> u8 \<Rightarrow> unit nrf" where
  "write_reg hw reg val = do {
     e \<leftarrow> ask (errors hw) (Write_cmd ((0x1F AND reg) OR push_bit 5 1) [val]);
     set_driver (error_update (\<lambda>_. e))
   }"

definition read_reg :: "radio \<Rightarrow> u8 \<Rightarrow> u8 nrf" where
  "read_reg hw reg = do {
     (e, res) \<leftarrow> ask (\<lambda>i. (errors hw i, bytes hw i 0)) (Read_cmd (0x1F AND reg) 1);
     set_driver (error_update (\<lambda>_. e));
     State_Monad.return res
   }"

definition write_address :: "radio \<Rightarrow> u8 \<Rightarrow> u8 list option \<Rightarrow> unit nrf" where
  "write_address hw reg address = (case address of None \<Rightarrow> skip
     | Some a \<Rightarrow> do { ask (errors hw) (Write_cmd (reg OR push_bit 5 1) (take 5 a)); skip })"

definition read_irq :: "radio \<Rightarrow> u8 \<Rightarrow> bool nrf" where
  "read_irq hw irq_mask = do {
     d \<leftarrow> the_driver;
     if has_read_irq d then do { l \<leftarrow> ask (irq_level hw) Read_irq; State_Monad.return (\<not> l) }
     else do { v \<leftarrow> read_reg hw STATUS_REG; State_Monad.return (v AND irq_mask \<noteq> 0) }
   }"

definition clear_irq :: "radio \<Rightarrow> u8 \<Rightarrow> unit nrf" where
  "clear_irq hw irq_mask = write_reg hw STATUS_REG irq_mask"

definition flush_buffer :: "radio \<Rightarrow> u8 \<Rightarrow> unit nrf" where
  "flush_buffer hw cmd = do { ask (errors hw) (Write_cmd cmd []); skip }"

definition update_config :: "radio \<Rightarrow> unit nrf" where
  "update_config hw = do { d \<leftarrow> the_driver; write_reg hw CONFIG_REG (config_byte (config d) XOR INVERT_IRQ_BITS) }"

definition disable_radio :: "radio \<Rightarrow> unit nrf" where
  "disable_radio hw = write_reg hw CONFIG_REG 0x00"

definition switch_mode :: "radio \<Rightarrow> radio_mode \<Rightarrow> bool \<Rightarrow> unit nrf" where
  "switch_mode hw m pow = do {
     set_driver (\<lambda>d. d\<lparr>config := (config d)\<lparr>mode := m, power_enable := pow\<rparr>\<rparr>);
     disable_radio hw;
     (case m of
        RADIO_TX \<Rightarrow> set_driver (\<lambda>d. d\<lparr>config := (config d)\<lparr>tx_irq := True, rx_irq := False, max_rt_irq := count_field d \<noteq> 0\<rparr>\<rparr>)
      | RADIO_RX \<Rightarrow> do {
          set_driver (\<lambda>d. d\<lparr>config := (config d)\<lparr>rx_irq := True, tx_irq := False, max_rt_irq := False\<rparr>\<rparr>);
          call (Radio_en pow)
        });
     update_config hw
   }"

text \<open>The loop that waits for the interrupt, with the value of \<open>cnt\<close> at its end.  The decrement
  wraps around, so a limit of zero means \<open>2 ^ 32\<close> rounds.\<close>

fun wait_sent :: "radio \<Rightarrow> u8 \<Rightarrow> nat \<Rightarrow> u32 nrf" where
  "wait_sent hw irq_mask 0 = State_Monad.return 0"
| "wait_sent hw irq_mask (Suc n) = do {
     r \<leftarrow> read_irq hw irq_mask;
     if r then State_Monad.return (of_nat (Suc n))
     else if n = 0 then State_Monad.return 0
     else wait_sent hw irq_mask n
   }"

definition poll_limit :: "u32 \<Rightarrow> nat" where
  "poll_limit cnt = (if cnt = 0 then 2 ^ 32 else unat cnt)"

definition send :: "radio \<Rightarrow> u8 list option \<Rightarrow> u8 list \<Rightarrow> bool nrf" where
  "send hw dest data = do {
     d \<leftarrow> the_driver;
     let in_rx = (mode (config d) = RADIO_RX);
     let tx_irq = (if count_field d \<noteq> 0 then MAX_RT_IRQ_MASK OR TX_DS_IRQ_MASK else TX_DS_IRQ_MASK);
     write_address hw TX_ADDR_REG dest;
     call (Radio_en True);
     switch_mode hw RADIO_TX True;
     ask (errors hw) (Write_cmd SEND_PAYLOAD_CMD data);
     cnt \<leftarrow> wait_sent hw tx_irq (poll_limit (read_cnt d));
     res \<leftarrow> (if count_field d \<noteq> 0
             then do { v \<leftarrow> read_reg hw STATUS_REG; State_Monad.return (v AND MAX_RT_IRQ_MASK = 0) }
             else State_Monad.return (cnt \<noteq> 0));
     clear_irq hw tx_irq;
     flush_buffer hw FLUSH_TX_CMD;
     (if in_rx then switch_mode hw RADIO_RX True else call (Radio_en False));
     State_Monad.return res
   }"

text \<open>The result is the number of bytes with the pipe and the payload; a pipe number
  outside the array of sizes has no value.\<close>

definition recv :: "radio \<Rightarrow> (u8 \<times> (u8 \<times> u8 list) option) option nrf" where
  "recv hw = do {
     d \<leftarrow> the_driver;
     (if mode (config d) = RADIO_TX then do { switch_mode hw RADIO_RX True; call (Radio_en True) } else skip);
     r \<leftarrow> read_irq hw RX_DR_IRQ_MASK;
     if \<not> r then State_Monad.return (Some (0, None))
     else do {
       st \<leftarrow> read_reg hw STATUS_REG;
       let pipe_num = drop_bit 1 (st AND PIPE_BITMASK);
       if length (rx_pipe_size d) \<le> unat pipe_num then State_Monad.return None
       else do {
         let num = rx_pipe_size d ! unat pipe_num;
         data \<leftarrow> ask (\<lambda>i. map (bytes hw i) [0..<unat num]) (Read_cmd RX_PAYLOAD_CMD (unat num));
         fifo \<leftarrow> read_reg hw FIFO_STATUS_REG;
         (if fifo AND RX_FIFO_EMPTY_MASK \<noteq> 0 then do { clear_irq hw RX_DR_IRQ_MASK; flush_buffer hw FLUSH_RX_CMD } else skip);
         State_Monad.return (Some (num, Some (pipe_num, data)))
       }
     }
   }"

definition sleep :: "radio \<Rightarrow> unit nrf" where
  "sleep hw = do {
     call (Radio_en False);
     d \<leftarrow> the_driver;
     switch_mode hw (mode (config d)) False
   }"

definition wakeup :: "radio \<Rightarrow> unit nrf" where
  "wakeup hw = do {
     d \<leftarrow> the_driver;
     switch_mode hw (mode (config d)) True;
     d \<leftarrow> the_driver;
     (if mode (config d) = RADIO_RX then call (Radio_en True) else skip)
   }"

definition pipe_size :: "nrf24l01_conf \<Rightarrow> nat \<Rightarrow> u8" where
  "pipe_size d i = (let a = rx_pipe_size d ! i in if a < MAX_PIPE_SIZE then a else MAX_PIPE_SIZE)"

definition init_registers :: "nrf24l01_conf \<Rightarrow> (u8 \<times> u8) list" where
  "init_registers d = [
     (EN_AA_REG, pipe_byte (auto_acknowledgment d)),
     (EN_RXADDR_REG, pipe_byte (enabled_rx_addresses d)),
     (SETUP_AW_REG, address_len d AND 0x03),
     (SETUP_RETR_REG, count_field d OR push_bit 4 (retransmit_delay d)),
     (RF_CH_REG, channel d AND 0x7F),
     (RF_SETUP_REG, rf_power d AND 0x07 OR push_bit 3 (of_bool (data_rate_2M d)))]"

definition init_pipes :: "nrf24l01_conf \<Rightarrow> (u8 \<times> u8) list" where
  "init_pipes d = [
     (RX_ADDR_P2_REG, rx_address_p2 d),
     (RX_ADDR_P3_REG, rx_address_p3 d),
     (RX_ADDR_P4_REG, rx_address_p4 d),
     (RX_ADDR_P5_REG, rx_address_p5 d),
     (RX_PW_P0_REG, pipe_size d 0),
     (RX_PW_P1_REG, pipe_size d 1),
     (RX_PW_P2_REG, pipe_size d 2),
     (RX_PW_P3_REG, pipe_size d 3),
     (RX_PW_P4_REG, pipe_size d 4),
     (RX_PW_P5_REG, pipe_size d 5)]"

definition nrf24l01_init :: "radio \<Rightarrow> nrf24l01_conf \<Rightarrow> u8 nrf" where
  "nrf24l01_init hw drv = do {
     set_driver (\<lambda>_. drv);
     disable_radio hw;
     for_each (\<lambda>(reg, val). write_reg hw reg val) (init_registers drv);
     write_address hw RX_ADDR_P0_REG (rx_address_p0 drv);
     write_address hw RX_ADDR_P1_REG (rx_address_p1 drv);
     write_address hw TX_ADDR_REG (tx_address drv);
     for_each (\<lambda>(reg, val). write_reg hw reg val) (init_pipes drv);
     switch_mode hw (mode (config drv)) (power_enable (config drv));
     d \<leftarrow> the_driver;
     State_Monad.return (error d)
   }"

section \<open>The radio and its picture in the driver\<close>

text \<open>What the calls have left in the configuration register and on the enable pin.\<close>

fun watch :: "u8 \<times> bool \<Rightarrow> nrf_call \<Rightarrow> u8 \<times> bool" where
  "watch (c, e) (Write_cmd a bs) = (if a = 0x20 \<and> bs \<noteq> [] then (hd bs, e) else (c, e))"
| "watch (c, e) (Radio_en b) = (c, b)"
| "watch (c, e) _ = (c, e)"

definition watched :: "nrf_io \<Rightarrow> u8 \<times> bool" where
  "watched s = foldl watch (0, False) (trace s)"

text \<open>
  The driver is in step with the radio when the configuration register holds the fields of
  the structure, with the interrupt masks inverted, when exactly the interrupts of
  the current mode are enabled, and when a receiver is enabled exactly if it is powered.
\<close>

definition in_step :: "nrf_io \<Rightarrow> bool" where
  "in_step s \<longleftrightarrow> (let c = config (driver s); (reg, enabled) = watched s in
     reg = config_byte c XOR 0x70 \<and> rx_irq c = (mode c = RADIO_RX) \<and> tx_irq c = (mode c = RADIO_TX) \<and>
     max_rt_irq c = (mode c = RADIO_TX \<and> count_field (driver s) \<noteq> 0) \<and>
     (if mode c = RADIO_RX then enabled = power_enable c else True))"

definition view :: "nrf_io \<Rightarrow> (u8 \<times> bool) \<times> nrf24l01_conf" where
  "view s = (watched s, (driver s)\<lparr>error := 0\<rparr>)"

lemma config_error [simp]: "config (d\<lparr>error := x\<rparr>) = config d" "count_field (d\<lparr>error := x\<rparr>) = count_field d"
  by (simp_all add: count_field_def)

lemma in_step_view: "view s = view s' \<Longrightarrow> in_step s = in_step s'"
proof -
  assume v: "view s = view s'"
  then have w: "watched s = watched s'" by (simp add: view_def)
  have "config (driver s) = config (driver s')" "count_field (driver s) = count_field (driver s')"
    using v config_error [where d = "driver s" and x = 0] config_error [where d = "driver s'" and x = 0]
    unfolding view_def by (metis prod.inject)+
  then show ?thesis using w by (simp add: in_step_def)
qed

text \<open>Operations that change neither.\<close>

definition unseen :: "'a nrf \<Rightarrow> bool" where
  "unseen m \<longleftrightarrow> (\<forall>s. view (snd (run_state m s)) = view s)"

lemma unseen_bind [inv_intros]: "unseen m \<Longrightarrow> (\<And>x. unseen (f x)) \<Longrightarrow> unseen (State_Monad.bind m f)"
  unfolding unseen_def by (auto split: prod.splits) (metis snd_conv)

lemma unseen_return [inv_intros]: "unseen (State_Monad.return x)"
  by (simp add: unseen_def)

lemma unseen_skip [inv_intros]: "unseen skip"
  by (simp add: unseen_def run_simps)

lemma unseen_if [inv_intros]: "unseen a \<Longrightarrow> unseen b \<Longrightarrow> unseen (if c then a else b)"
  by simp

lemma unseen_driver [inv_intros]: "unseen the_driver"
  by (simp add: unseen_def run_simps)

lemma watched_ask [simp]:
  "watched (s\<lparr>trace := trace s @ es, asked := n\<rparr>) = foldl watch (watched s) es"
  "watched (s\<lparr>trace := trace s @ es\<rparr>) = foldl watch (watched s) es"
  "watched (s\<lparr>trace := trace s @ es, asked := n, driver := d\<rparr>) = foldl watch (watched s) es"
  "watched (s\<lparr>driver := d\<rparr>) = watched s"
  by (simp_all add: watched_def)

lemma watch_other [simp]: "a \<noteq> 0x20 \<Longrightarrow> watch p (Write_cmd a bs) = p" "watch p (Read_cmd a n) = p" "watch p Read_irq = p"
  by (cases p; simp)+

lemma unseen_write [inv_intros]: "(0x1F AND reg) OR 0x20 \<noteq> 0x20 \<Longrightarrow> unseen (write_reg hw reg v)"
  by (simp add: unseen_def write_reg_def run_simps view_def)

lemma unseen_read [inv_intros]: "unseen (read_reg hw reg)"
  by (simp add: unseen_def read_reg_def run_simps view_def)

lemma unseen_cmd [inv_intros]: "c \<noteq> 0x20 \<Longrightarrow> unseen (ask a (Write_cmd c bs))" "unseen (ask b (Read_cmd c n))" "unseen (ask l Read_irq)"
  by (simp_all add: unseen_def run_simps view_def)

lemma unseen_address [inv_intros]: "reg OR 0x20 \<noteq> 0x20 \<Longrightarrow> unseen (write_address hw reg a)"
  by (auto simp: write_address_def split: option.splits intro!: inv_intros)

lemma unseen_irq [inv_intros]: "unseen (read_irq hw m)" "unseen (clear_irq hw m)"
  unfolding read_irq_def clear_irq_def by (intro inv_intros; simp add: nrf_codes)+

lemma unseen_flush [inv_intros]: "c \<noteq> 0x20 \<Longrightarrow> unseen (flush_buffer hw c)"
  unfolding flush_buffer_def by (intro inv_intros)

lemma unseen_wait [inv_intros]: "unseen (wait_sent hw m n)"
  by (induction n) (auto intro!: inv_intros)

lemma unseen_for_each [inv_intros]: "(\<And>x. x \<in> set xs \<Longrightarrow> unseen (f x)) \<Longrightarrow> unseen (for_each f xs)"
  by (induction xs) (auto intro!: inv_intros)

text \<open>The mode and the power of the structure and the level of the enable pin.\<close>

definition radio_state :: "nrf_io \<Rightarrow> radio_mode \<times> bool \<times> bool" where
  "radio_state s = (mode (config (driver s)), power_enable (config (driver s)), snd (watched s))"

definition at_step :: "radio_mode \<times> bool \<times> bool \<Rightarrow> nrf_io \<Rightarrow> bool" where
  "at_step a s \<longleftrightarrow> in_step s \<and> radio_state s = a"

lemma radio_state_view: "view s = view s' \<Longrightarrow> radio_state s = radio_state s'"
  using config_error(1) [where d = "driver s" and x = 0] config_error(1) [where d = "driver s'" and x = 0]
  unfolding view_def radio_state_def by (metis prod.inject)

text \<open>What an operation makes of a condition on the state.\<close>

definition leads :: "(nrf_io \<Rightarrow> bool) \<Rightarrow> 'a nrf \<Rightarrow> (nrf_io \<Rightarrow> bool) \<Rightarrow> bool" where
  "leads P m Q \<longleftrightarrow> (\<forall>s. P s \<longrightarrow> Q (snd (run_state m s)))"

lemma leads_bind: "leads P m Q \<Longrightarrow> (\<And>x. leads Q (f x) R) \<Longrightarrow> leads P (State_Monad.bind m f) R"
  unfolding leads_def by (auto split: prod.splits)

lemma leads_unseen:
  assumes "unseen m"
  shows "leads (at_step a) m (at_step a)" "leads (\<lambda>s. radio_state s = a) m (\<lambda>s. radio_state s = a)"
proof -
  have v: "view (snd (run_state m s)) = view s" for s using assms by (simp add: unseen_def)
  show "leads (at_step a) m (at_step a)" "leads (\<lambda>s. radio_state s = a) m (\<lambda>s. radio_state s = a)"
    unfolding leads_def at_step_def in_step_view [OF v] radio_state_view [OF v] by simp_all
qed

lemma leads_return: "leads P (State_Monad.return x) P"
  by (simp add: leads_def)

lemma leads_driver:
  "(\<And>d. \<exists>s. P s \<and> driver s = d \<Longrightarrow> leads P (f d) Q) \<Longrightarrow> leads P (State_Monad.bind the_driver f) Q"
  unfolding leads_def by (auto simp: run_simps)

lemma leads_weaken: "leads P m R \<Longrightarrow> (\<And>s. P' s \<Longrightarrow> P s) \<Longrightarrow> leads P' m R"
  by (auto simp: leads_def)

lemma leads_set_driver: "leads P (set_driver f) (\<lambda>s. snd (watched s) = e)" if "\<And>s. P s \<Longrightarrow> snd (watched s) = e"
  using that by (simp add: leads_def run_simps)

lemma switch_mode_run:
  "\<exists>s'. run_state (switch_mode hw m pow) s = ((), s') \<and> at_step (m, pow, if m = RADIO_RX then pow else snd (watched s)) s'"
  by (cases m; cases "watched s")
    (simp_all add: switch_mode_def disable_radio_def update_config_def write_reg_def run_simps in_step_def at_step_def radio_state_def
      nrf_codes count_field_def)

lemma leads_switch_mode:
  "leads (\<lambda>s. snd (watched s) = e) (switch_mode hw m pow) (at_step (m, pow, if m = RADIO_RX then pow else e))"
  unfolding leads_def
proof (intro allI impI)
  fix s assume "snd (watched s) = e"
  then show "at_step (m, pow, if m = RADIO_RX then pow else e) (snd (run_state (switch_mode hw m pow) s))"
    using switch_mode_run [of hw m pow s] by auto
qed

lemma leads_switch_from:
  "leads (\<lambda>s. radio_state s = (m, p, e)) (switch_mode hw m' p') (at_step (m', p', if m' = RADIO_RX then p' else e))"
  "leads (at_step (m, p, e)) (switch_mode hw m' p') (at_step (m', p', if m' = RADIO_RX then p' else e))"
  by (rule leads_weaken [OF leads_switch_mode], simp add: radio_state_def at_step_def)+

lemma watch_cmd: "snd (watch q (Write_cmd c bs)) = snd q"
  by (cases q) simp

lemma watch_en: "watch q (Radio_en b) = (fst q, b)"
  by (cases q) simp

lemma leads_radio_en:
  "leads (\<lambda>s. True) (call (Radio_en b)) (\<lambda>s. snd (watched s) = b)"
  "leads (\<lambda>s. radio_state s = (m, p, e)) (call (Radio_en b)) (\<lambda>s. radio_state s = (m, p, b))"
  by (simp_all add: leads_def run_simps radio_state_def watch_en)

lemma leads_pin:
  assumes "m = RADIO_TX \<or> b = p"
  shows "leads (at_step (m, p, e)) (call (Radio_en b)) (at_step (m, p, b))"
proof -
  have "at_step (m, p, b) (s\<lparr>trace := trace s @ [Radio_en b]\<rparr>)" if "at_step (m, p, e) s" for s
    using that assms by (cases "watched s") (auto simp: at_step_def in_step_def radio_state_def Let_def)
  then show ?thesis by (simp add: leads_def run_simps)
qed

text \<open>The operations of the driver's structure; a reception outside the array of sizes ends the run.\<close>

datatype nrf_op = Send "u8 list option" "u8 list" | Recv | Mode radio_mode bool | Sleep | Wakeup

fun perform :: "radio \<Rightarrow> nrf_op \<Rightarrow> bool nrf" where
  "perform hw (Send dest data) = do { send hw dest data; State_Monad.return True }"
| "perform hw Recv = do { r \<leftarrow> recv hw; State_Monad.return (r \<noteq> None) }"
| "perform hw (Mode m pow) = do { switch_mode hw m pow; State_Monad.return True }"
| "perform hw Sleep = do { sleep hw; State_Monad.return True }"
| "perform hw Wakeup = do { wakeup hw; State_Monad.return True }"

fun perform_all :: "radio \<Rightarrow> nrf_op list \<Rightarrow> bool nrf" where
  "perform_all hw [] = State_Monad.return True"
| "perform_all hw (op # ops) = do { ok \<leftarrow> perform hw op; if ok then perform_all hw ops else State_Monad.return False }"

text \<open>What is to be expected of the mode, the power and the enable pin after an operation.\<close>

fun expect :: "radio_mode \<times> bool \<times> bool \<Rightarrow> nrf_op \<Rightarrow> radio_mode \<times> bool \<times> bool" where
  "expect (m, p, e) (Send dest data) = (if m = RADIO_RX then (RADIO_RX, True, True) else (RADIO_TX, True, False))"
| "expect (m, p, e) Recv = (if m = RADIO_TX then (RADIO_RX, True, True) else (m, p, e))"
| "expect (m, p, e) (Mode m' p') = (m', p', if m' = RADIO_RX then p' else e)"
| "expect (m, p, e) Sleep = (m, False, False)"
| "expect (m, p, e) Wakeup = (m, True, m = RADIO_RX \<or> e)"

lemma leads_send: "leads (\<lambda>s. radio_state s = (m, p, e)) (send hw dest data) (at_step (expect (m, p, e) (Send dest data)))"
proof -
  have r: "unseen (if c then do { v \<leftarrow> read_reg hw STATUS_REG; State_Monad.return (v AND MAX_RT_IRQ_MASK = 0) }
      else State_Monad.return x)" for c x
    by (intro inv_intros)
  have on: "leads (\<lambda>s. radio_state s = (m, p, True)) (switch_mode hw RADIO_TX True) (at_step (RADIO_TX, True, True))"
    using leads_switch_from(1) [of m p True hw RADIO_TX True] by simp
  have rx: "leads (at_step (RADIO_TX, True, True)) (switch_mode hw RADIO_RX True) (at_step (RADIO_RX, True, True))"
    using leads_switch_from(2) [of RADIO_TX True True hw RADIO_RX True] by simp
  show ?thesis
    unfolding send_def Let_def
  proof (rule leads_driver)
    fix d assume "\<exists>s. radio_state s = (m, p, e) \<and> driver s = d"
    then have d: "mode (config d) = m" by (auto simp: radio_state_def)
    have leave: "leads (at_step (RADIO_TX, True, True)) (if mode (config d) = RADIO_RX then switch_mode hw RADIO_RX True else call (Radio_en False))
        (at_step (expect (m, p, e) (Send dest data)))"
      using rx leads_pin [of RADIO_TX False True True] by (simp add: d)
    show "leads (\<lambda>s. radio_state s = (m, p, e)) (do {
        write_address hw TX_ADDR_REG dest;
        call (Radio_en True);
        switch_mode hw RADIO_TX True;
        ask (errors hw) (Write_cmd SEND_PAYLOAD_CMD data);
        cnt \<leftarrow> wait_sent hw (if count_field d \<noteq> 0 then MAX_RT_IRQ_MASK OR TX_DS_IRQ_MASK else TX_DS_IRQ_MASK) (poll_limit (read_cnt d));
        res \<leftarrow> (if count_field d \<noteq> 0 then do { v \<leftarrow> read_reg hw STATUS_REG; State_Monad.return (v AND MAX_RT_IRQ_MASK = 0) }
          else State_Monad.return (cnt \<noteq> 0));
        clear_irq hw (if count_field d \<noteq> 0 then MAX_RT_IRQ_MASK OR TX_DS_IRQ_MASK else TX_DS_IRQ_MASK);
        flush_buffer hw FLUSH_TX_CMD;
        (if mode (config d) = RADIO_RX then switch_mode hw RADIO_RX True else call (Radio_en False));
        State_Monad.return res
      }) (at_step (expect (m, p, e) (Send dest data)))"
      apply (rule leads_bind [OF leads_unseen(2) [OF unseen_address]], simp add: nrf_codes)
      apply (rule leads_bind [OF leads_radio_en(2)])
      apply (rule leads_bind [OF on])
      apply (rule leads_bind [OF leads_unseen(1) [OF unseen_cmd(1)]], simp add: nrf_codes)
      apply (rule leads_bind [OF leads_unseen(1) [OF unseen_wait]])
      apply (rule leads_bind [OF leads_unseen(1) [OF r]])
      apply (rule leads_bind [OF leads_unseen(1) [OF unseen_irq(2)]])
      apply (rule leads_bind [OF leads_unseen(1) [OF unseen_flush]], simp add: nrf_codes)
      apply (rule leads_bind [OF leave])
      by (rule leads_return)
  qed
qed

lemma leads_recv: "leads (at_step (m, p, e)) (recv hw) (at_step (expect (m, p, e) Recv))"
proof -
  have "leads (at_step (m, p, e)) (switch_mode hw RADIO_RX True) (at_step (RADIO_RX, True, True))"
    using leads_switch_from(2) [of m p e hw RADIO_RX True] by simp
  then have "leads (at_step (m, p, e)) (do { switch_mode hw RADIO_RX True; call (Radio_en True) }) (at_step (RADIO_RX, True, True))"
    by (rule leads_bind) (rule leads_pin, simp)
  then have on: "leads (at_step (m, p, e)) (if m = RADIO_TX then do { switch_mode hw RADIO_RX True; call (Radio_en True) } else skip)
      (at_step (expect (m, p, e) Recv))"
    using leads_unseen(1) [OF unseen_skip] by (cases m) simp_all
  show ?thesis
    unfolding recv_def Let_def
  proof (rule leads_driver)
    fix d assume "\<exists>s. at_step (m, p, e) s \<and> driver s = d"
    then have d: "mode (config d) = m" by (auto simp: at_step_def radio_state_def)
    show "leads (at_step (m, p, e)) (do {
        (if mode (config d) = RADIO_TX then do { switch_mode hw RADIO_RX True; call (Radio_en True) } else skip);
        r \<leftarrow> read_irq hw RX_DR_IRQ_MASK;
        if \<not> r then State_Monad.return (Some (0, None))
        else do {
          st \<leftarrow> read_reg hw STATUS_REG;
          if length (rx_pipe_size d) \<le> unat (drop_bit 1 (st AND PIPE_BITMASK)) then State_Monad.return None
          else do {
            data \<leftarrow> ask (\<lambda>i. map (bytes hw i) [0..<unat (rx_pipe_size d ! unat (drop_bit 1 (st AND PIPE_BITMASK)))])
              (Read_cmd RX_PAYLOAD_CMD (unat (rx_pipe_size d ! unat (drop_bit 1 (st AND PIPE_BITMASK)))));
            fifo \<leftarrow> read_reg hw FIFO_STATUS_REG;
            (if fifo AND RX_FIFO_EMPTY_MASK \<noteq> 0 then do { clear_irq hw RX_DR_IRQ_MASK; flush_buffer hw FLUSH_RX_CMD } else skip);
            State_Monad.return (Some (rx_pipe_size d ! unat (drop_bit 1 (st AND PIPE_BITMASK)),
              Some (drop_bit 1 (st AND PIPE_BITMASK), data)))
          }
        }
      }) (at_step (expect (m, p, e) Recv))"
      unfolding d
      apply (rule leads_bind [OF on])
      by (rule leads_unseen(1)) (auto intro!: inv_intros simp: nrf_codes)
  qed
qed

lemma leads_sleep: "leads (\<lambda>s. radio_state s = (m, p, e)) (sleep hw) (at_step (expect (m, p, e) Sleep))"
  unfolding sleep_def
proof (rule leads_bind [OF leads_radio_en(2)], rule leads_driver)
  fix d assume "\<exists>s. radio_state s = (m, p, False) \<and> driver s = d"
  then have d: "mode (config d) = m" by (auto simp: radio_state_def)
  show "leads (\<lambda>s. radio_state s = (m, p, False)) (switch_mode hw (mode (config d)) False) (at_step (expect (m, p, e) Sleep))"
    unfolding d using leads_switch_from(1) [of m p False hw m False] by simp
qed

lemma leads_wakeup: "leads (\<lambda>s. radio_state s = (m, p, e)) (wakeup hw) (at_step (expect (m, p, e) Wakeup))"
  unfolding wakeup_def
proof (rule leads_driver)
  fix d assume "\<exists>s. radio_state s = (m, p, e) \<and> driver s = d"
  then have d: "mode (config d) = m" by (auto simp: radio_state_def)
  let ?a = "(m, True, if m = RADIO_RX then True else e)"
  have on: "leads (\<lambda>s. radio_state s = (m, p, e)) (switch_mode hw (mode (config d)) True) (at_step ?a)"
    unfolding d by (rule leads_switch_from(1))
  have "leads (at_step ?a) (do { d \<leftarrow> the_driver; if mode (config d) = RADIO_RX then call (Radio_en True) else skip })
      (at_step (expect (m, p, e) Wakeup))"
  proof (rule leads_driver)
    fix d' assume "\<exists>s. at_step ?a s \<and> driver s = d'"
    then have d': "mode (config d') = m" by (auto simp: at_step_def radio_state_def)
    show "leads (at_step ?a) (if mode (config d') = RADIO_RX then call (Radio_en True) else skip) (at_step (expect (m, p, e) Wakeup))"
      using leads_pin [of m True True True] leads_unseen(1) [OF unseen_skip] by (cases m) (simp_all add: d')
  qed
  then show "leads (\<lambda>s. radio_state s = (m, p, e)) (do { switch_mode hw (mode (config d)) True; d \<leftarrow> the_driver;
      if mode (config d) = RADIO_RX then call (Radio_en True) else skip }) (at_step (expect (m, p, e) Wakeup))"
    by (intro leads_bind [OF on])
qed

lemma leads_init:
  "leads (\<lambda>s. radio_state s = a) (nrf24l01_init hw drv) (at_step (expect a (Mode (mode (config drv)) (power_enable (config drv)))))"
proof -
  obtain m p e where a: "a = (m, p, e)" by (cases a) auto
  let ?Q = "\<lambda>s. snd (watched s) = e"
  have u: "leads ?Q m' ?Q" if "unseen m'" for m' :: "'a nrf"
    using that by (auto simp: leads_def unseen_def view_def)
  have start: "leads (\<lambda>s. radio_state s = a) (set_driver (\<lambda>_. drv)) ?Q" by (rule leads_set_driver) (simp add: radio_state_def a)
  have off: "leads ?Q (disable_radio hw) ?Q"
    by (simp add: leads_def disable_radio_def write_reg_def run_simps nrf_codes watch_cmd)
  have rest: "leads (at_step b) (do { d \<leftarrow> the_driver; State_Monad.return (error d) }) (at_step b)" for b
    by (rule leads_unseen(1)) (intro inv_intros)
  show ?thesis
    unfolding nrf24l01_init_def a
    apply (rule leads_bind [OF start [unfolded a]])
    apply (rule leads_bind [OF off])
    apply (rule leads_bind, rule u, rule unseen_for_each, clarsimp, rule unseen_write, force simp: init_registers_def nrf_codes)
    apply (rule leads_bind, rule u, rule unseen_address, simp add: nrf_codes)+
    apply (rule leads_bind, rule u, rule unseen_for_each, clarsimp, rule unseen_write, force simp: init_pipes_def nrf_codes)
    apply (rule leads_bind [OF leads_switch_mode])
    using rest by simp
qed

lemma leads_perform: "leads (at_step a) (perform hw op) (at_step (expect a op))"
proof -
  obtain m p e where a: "a = (m, p, e)" by (cases a) auto
  have w: "leads (at_step (m, p, e)) f Q" if "leads (\<lambda>s. radio_state s = (m, p, e)) f Q" for f :: "'a nrf" and Q
    using that by (rule leads_weaken) (simp add: at_step_def)
  have "leads (\<lambda>s. radio_state s = (m, p, e)) (switch_mode hw m' p') (at_step (expect (m, p, e) (Mode m' p')))" for m' p'
    using leads_switch_from(1) by simp
  note steps = this
  show ?thesis
    unfolding a
  proof (cases op)
    case (Send dest data)
    show "leads (at_step (m, p, e)) (perform hw op) (at_step (expect (m, p, e) op))"
      unfolding Send perform.simps by (rule leads_bind [OF w [OF leads_send] leads_return])
  next
    case Recv
    show "leads (at_step (m, p, e)) (perform hw op) (at_step (expect (m, p, e) op))"
      unfolding Recv perform.simps by (rule leads_bind [OF leads_recv leads_return])
  next
    case (Mode m' p')
    show "leads (at_step (m, p, e)) (perform hw op) (at_step (expect (m, p, e) op))"
      unfolding Mode perform.simps by (rule leads_bind [OF w [OF steps] leads_return])
  next
    case Sleep
    show "leads (at_step (m, p, e)) (perform hw op) (at_step (expect (m, p, e) op))"
      unfolding Sleep perform.simps by (rule leads_bind [OF w [OF leads_sleep] leads_return])
  next
    case Wakeup
    show "leads (at_step (m, p, e)) (perform hw op) (at_step (expect (m, p, e) op))"
      unfolding Wakeup perform.simps by (rule leads_bind [OF w [OF leads_wakeup] leads_return])
  qed
qed

text \<open>A sequence of operations, and how many of them were carried out.\<close>

lemma perform_all_run:
  assumes "at_step a s"
  shows "\<exists>ok s' n. run_state (perform_all hw ops) s = (ok, s') \<and> at_step (foldl expect a (take n ops)) s' \<and>
    (if ok then n = length ops else 0 < n \<and> n \<le> length ops \<and> ops ! (n - 1) = Recv)"
  using assms
proof (induction ops arbitrary: a s)
  case (Cons op ops)
  obtain ok s1 where 1: "run_state (perform hw op) s = (ok, s1)" by fastforce
  have 2: "at_step (expect a op) s1" using leads_perform [of a hw op] Cons.prems 1 unfolding leads_def by (metis snd_conv)
  show ?case
  proof (cases ok)
    case True
    obtain ok' s' n where 3: "run_state (perform_all hw ops) s1 = (ok', s')" "at_step (foldl expect (expect a op) (take n ops)) s'"
      "if ok' then n = length ops else 0 < n \<and> n \<le> length ops \<and> ops ! (n - 1) = Recv" using Cons.IH [OF 2] by blast
    show ?thesis using 1 True 3
      by (intro exI [of _ ok'] exI [of _ s'] exI [of _ "Suc n"]) (auto simp: nth_Cons' split: if_splits)
  next
    case False
    then have "op = Recv" using 1 by (cases op) (auto split: prod.splits)
    moreover have "run_state (perform_all hw (op # ops)) s = (False, s1)" using 1 False by simp
    ultimately show ?thesis using 2 by (intro exI [of _ False] exI [of _ s1] exI [of _ 1]) simp
  qed
qed (auto intro: exI [of _ True])

text \<open>
  C35: the initialisation and any sequence of transmissions, receptions, changes of mode, sleeps and
  wake-ups, whatever the radio answers; only a reception whose pipe number is outside of the array of sizes ends the run.  Afterwards
  the driver's structure is a true picture of the radio: the configuration register holds the structure's fields, the interrupts of
  the current mode and no others are enabled, and the enable pin of a receiver is high
  exactly when the receiver is powered.  The mode, the power and the level of the enable pin in both modes are those that
  \<open>expect\<close> says: a transmission leaves the pin high when the radio was a receiver, and low otherwise; a sleep leaves it low; and a
  change to the transmitter's mode, which the initialisation may be, leaves it as it was, high also without power.
\<close>
theorem nrf24l01_in_step:
  "\<exists>ok s' n. run_state (do { nrf24l01_init hw drv; perform_all hw ops }) s = (ok, s') \<and> in_step s' \<and>
    radio_state s' = foldl expect (radio_state s) (Mode (mode (config drv)) (power_enable (config drv)) # take n ops) \<and>
    (if ok then n = length ops else 0 < n \<and> n \<le> length ops \<and> ops ! (n - 1) = Recv)"
proof -
  obtain x s1 where 1: "run_state (nrf24l01_init hw drv) s = (x, s1)" by fastforce
  have "at_step (expect (radio_state s) (Mode (mode (config drv)) (power_enable (config drv)))) s1"
    using leads_init [of "radio_state s" hw drv] 1 unfolding leads_def by (metis snd_conv)
  from perform_all_run [OF this, of hw ops] show ?thesis using 1 by (auto simp: at_step_def)
qed

text \<open>With automatic retransmission, \<open>send\<close> decides by the bit for too many retries alone.  A radio
  that is not there, and reads as zero, has never that bit set: the transmission counts as done.\<close>

lemma send_without_radio:
  assumes "hw = \<lparr>errors = (\<lambda>_. 0), bytes = (\<lambda>_ _. 0), irq_level = (\<lambda>_. True)\<rparr>" "count_field (driver s) \<noteq> 0"
  shows "fst (run_state (send hw dest data) s)"
  using assms by (simp add: send_def read_reg_def run_simps Let_def split: prod.splits)

text \<open>The status of an empty receive FIFO names pipe 7, and the code looks up its size
  in an array of six.\<close>

lemma recv_empty_fifo:
  assumes "hw = \<lparr>errors = (\<lambda>_. 0), bytes = (\<lambda>_ _. 0x4E), irq_level = (\<lambda>_. False)\<rparr>" "length (rx_pipe_size (driver s)) = 6"
    "mode (config (driver s)) = RADIO_RX"
  shows "fst (run_state (recv hw) s) = None"
  using assms by (simp add: recv_def read_irq_def read_reg_def run_simps Let_def nrf_codes split: prod.splits)

end
