(* ===== verification/Mpu6050.thy ===== *)
theory Mpu6050
  imports C_Io Complex_Main
begin

text \<open>
  The motion sensor driver of Common/mpu6050.c.  The bus functions and the optional ready pin of
  \<open>struct acc_interface\<close> are recorded as calls, and their answers are a parameter.  The
  16-bit measurements are words, whose differences wrap around as the code's do.  The
  optional scaled values are computed in \<open>float\<close> by the code and as exact rational
  numbers here.
\<close>

section \<open>The model\<close>

definition MPU6050_RA_SMPLRT_DIV :: u8 where "MPU6050_RA_SMPLRT_DIV = 0x19"
definition MPU6050_RA_CONFIG :: u8 where "MPU6050_RA_CONFIG = 0x1A"
definition MPU6050_RA_GYRO_CONFIG :: u8 where "MPU6050_RA_GYRO_CONFIG = 0x1B"
definition MPU6050_RA_ACCEL_CONFIG :: u8 where "MPU6050_RA_ACCEL_CONFIG = 0x1C"
definition MPU6050_RA_FIFO_EN :: u8 where "MPU6050_RA_FIFO_EN = 0x23"
definition MPU6050_RA_INT_PIN_CFG :: u8 where "MPU6050_RA_INT_PIN_CFG = 0x37"
definition MPU6050_RA_INT_ENABLE :: u8 where "MPU6050_RA_INT_ENABLE = 0x38"
definition MPU6050_RA_INT_STATUS :: u8 where "MPU6050_RA_INT_STATUS = 0x3A"
definition MPU6050_RA_USER_CTRL :: u8 where "MPU6050_RA_USER_CTRL = 0x6A"
definition MPU6050_RA_PWR_MGMT_1 :: u8 where "MPU6050_RA_PWR_MGMT_1 = 0x6B"
definition MPU6050_RA_PWR_MGMT_2 :: u8 where "MPU6050_RA_PWR_MGMT_2 = 0x6C"
definition MPU6050_RA_WHO_AM_I :: u8 where "MPU6050_RA_WHO_AM_I = 0x75"
definition LATCH_INT_EN :: u8 where "LATCH_INT_EN = 0x20"
definition INT_RD_CLEAR :: u8 where "INT_RD_CLEAR = 0x10"
definition DATA_RDY_EN :: u8 where "DATA_RDY_EN = 0x01"
definition DATA_READY_BIT :: u8 where "DATA_READY_BIT = 0x01"

text \<open>The results are numbers: \<open>mpu6050_get_result\<close> also passes on codes of the bus function.\<close>

definition MPU6050_SUCCESS :: u8 where "MPU6050_SUCCESS = 0"
definition MPU6050_BUSY :: u8 where "MPU6050_BUSY = 1"
definition MPU6050_INTERFACE_ERROR :: u8 where "MPU6050_INTERFACE_ERROR = 2"
definition MPU6050_ERROR_ID :: u8 where "MPU6050_ERROR_ID = 3"
definition MPU6050_INVAL :: u8 where "MPU6050_INVAL = 4"

lemmas acc_results = MPU6050_SUCCESS_def MPU6050_BUSY_def MPU6050_INTERFACE_ERROR_def MPU6050_ERROR_ID_def MPU6050_INVAL_def

definition SCALE_2G :: u8 where "SCALE_2G = 0x00"
definition SCALE_4G :: u8 where "SCALE_4G = 0x08"
definition SCALE_8G :: u8 where "SCALE_8G = 0x10"
definition SCALE_16G :: u8 where "SCALE_16G = 0x18"

record acc_measdata =
  raw_x :: u16
  raw_y :: u16
  raw_z :: u16
  raw_temp :: u16
  raw_ax :: u16
  raw_ay :: u16
  raw_az :: u16

record acc_zeropoint =
  x_offset :: u16
  y_offset :: u16
  z_offset :: u16
  ax_offset :: u16
  ay_offset :: u16
  az_offset :: u16

record acc_real_values =
  real_x :: rat
  real_y :: rat
  real_z :: rat
  real_temp :: rat

record acc_conf =
  sample_rate_hz :: u8
  gyro_gain :: u8
  acc_gain :: u8
  filter_order :: u8

text \<open>\<open>has_ready\<close> tells whether the function pointer \<open>ready\<close> is set.\<close>

record acc =
  has_ready :: bool
  conf :: acc_conf
  raw :: acc_measdata
  zero :: "acc_zeropoint option"
  res :: "acc_real_values option"

datatype acc_call = Acc_wr u8 u8 | Acc_rd u8 nat | Acc_ready | Delay_100ms

record acc_io = "acc_call io" +
  dev :: acc

record sensor =
  acc_status :: "nat \<Rightarrow> u8"
  acc_bytes :: "nat \<Rightarrow> nat \<Rightarrow> u8"
  acc_ready :: "nat \<Rightarrow> u16"

type_synonym 'a acc_m = "(acc_io, 'a) state"

definition the_dev :: "acc acc_m" where
  "the_dev = State (\<lambda>s. (dev s, s))"

definition set_dev :: "(acc \<Rightarrow> acc) \<Rightarrow> unit acc_m" where
  "set_dev f = State (\<lambda>s. ((), s\<lparr>dev := f (dev s)\<rparr>))"

lemma run_dev [run_simps]:
  "run_state the_dev s = (dev s, s)" "run_state (set_dev f) s = ((), s\<lparr>dev := f (dev s)\<rparr>)"
  by (simp_all add: the_dev_def set_dev_def)

definition acc_read :: "sensor \<Rightarrow> u8 \<Rightarrow> nat \<Rightarrow> (u8 \<times> u8 list) acc_m" where
  "acc_read hw reg n = ask (\<lambda>i. (acc_status hw i, map (acc_bytes hw i) [0..<n])) (Acc_rd reg n)"

definition divider :: "u8 \<Rightarrow> u8" where
  "divider rate = of_int (1000 div uint rate - 1)"

definition init_table :: "acc_conf \<Rightarrow> (u8 \<times> u8) list" where
  "init_table c = [
     (MPU6050_RA_PWR_MGMT_1, 0x80),
     (MPU6050_RA_GYRO_CONFIG, gyro_gain c),
     (MPU6050_RA_ACCEL_CONFIG, acc_gain c),
     (MPU6050_RA_INT_PIN_CFG, LATCH_INT_EN OR INT_RD_CLEAR),
     (MPU6050_RA_INT_ENABLE, DATA_RDY_EN),
     (MPU6050_RA_USER_CTRL, 0x00),
     (MPU6050_RA_PWR_MGMT_1, 0x00),
     (MPU6050_RA_PWR_MGMT_2, 0x00),
     (MPU6050_RA_FIFO_EN, 0x00),
     (MPU6050_RA_SMPLRT_DIV, divider (sample_rate_hz c)),
     (MPU6050_RA_CONFIG, filter_order c AND 0x07)]"

fun write_table :: "sensor \<Rightarrow> (u8 \<times> u8) list \<Rightarrow> u8 acc_m" where
  "write_table hw [] = State_Monad.return MPU6050_SUCCESS"
| "write_table hw ((reg, val) # rest) = do {
     r \<leftarrow> ask (acc_status hw) (Acc_wr reg val);
     if r \<noteq> 0 then State_Monad.return MPU6050_INTERFACE_ERROR else write_table hw rest
   }"

text \<open>A sample rate of zero has no value: the table is computed first and divides by it.\<close>

definition mpu6050_init :: "sensor \<Rightarrow> bool \<Rightarrow> u8 option acc_m" where
  "mpu6050_init hw has_delay = do {
     d \<leftarrow> the_dev;
     if sample_rate_hz (conf d) = 0 then State_Monad.return None
     else do {
       (r, bs) \<leftarrow> acc_read hw MPU6050_RA_WHO_AM_I 1;
       if r \<noteq> 0 then State_Monad.return (Some MPU6050_INTERFACE_ERROR)
       else if drop_bit 1 (bs ! 0 AND 0x7E) \<noteq> 0x34 then State_Monad.return (Some MPU6050_ERROR_ID)
       else do {
         r \<leftarrow> ask (acc_status hw) (Acc_wr MPU6050_RA_PWR_MGMT_1 0x80);
         if r \<noteq> 0 then State_Monad.return (Some MPU6050_INTERFACE_ERROR)
         else do {
           (if has_delay then call Delay_100ms else skip);
           r \<leftarrow> write_table hw (init_table (conf d));
           State_Monad.return (Some r)
         }
       }
     }
   }"

text \<open>The bytes stored over the packed structure, low byte first.\<close>

definition measdata_of :: "u8 list \<Rightarrow> acc_measdata" where
  "measdata_of bs = (let w = \<lambda>i. le_word (take 2 (drop (2 * i) bs)) in
     \<lparr>raw_x = w 0, raw_y = w 1, raw_z = w 2, raw_temp = w 3, raw_ax = w 4, raw_ay = w 5, raw_az = w 6\<rparr>)"

definition apply_zero :: "acc_zeropoint \<Rightarrow> acc_measdata \<Rightarrow> acc_measdata" where
  "apply_zero z r = r\<lparr>raw_x := raw_x r - x_offset z, raw_y := raw_y r - y_offset z, raw_z := raw_z r - z_offset z,
     raw_ax := raw_ax r - ax_offset z, raw_ay := raw_ay r - ay_offset z, raw_az := raw_az r - az_offset z\<rparr>"

definition scale :: "u8 \<Rightarrow> rat" where
  "scale gain = 32768 /
     (if gain = SCALE_2G then 2 else if gain = SCALE_4G then 4 else if gain = SCALE_8G then 8
      else if gain = SCALE_16G then 16 else 1)"

definition real_values :: "u8 \<Rightarrow> acc_measdata \<Rightarrow> acc_real_values" where
  "real_values gain r = (let v = \<lambda>w :: u16. rat_of_int (sint w); g = scale gain in
     \<lparr>real_x = v (raw_x r) / g, real_y = v (raw_y r) / g, real_z = v (raw_z r) / g,
      real_temp = v (raw_temp r) / 340 + 3653 / 100\<rparr>)"

definition store_result :: "acc \<Rightarrow> acc" where
  "store_result d =
     (let d = (case zero d of None \<Rightarrow> d | Some z \<Rightarrow> d\<lparr>raw := apply_zero z (raw d)\<rparr>)
      in case res d of None \<Rightarrow> d | Some _ \<Rightarrow> d\<lparr>res := Some (real_values (acc_gain (conf d)) (raw d))\<rparr>)"

definition is_ready :: "sensor \<Rightarrow> u8 acc_m" where
  "is_ready hw = do {
     d \<leftarrow> the_dev;
     if has_ready d then do {
       r \<leftarrow> ask (acc_ready hw) Acc_ready;
       State_Monad.return (if r = 0 then MPU6050_BUSY else MPU6050_SUCCESS)
     } else do {
       (r, bs) \<leftarrow> acc_read hw MPU6050_RA_INT_STATUS 1;
       State_Monad.return (if r \<noteq> 0 then r else if bs ! 0 AND DATA_READY_BIT = 0 then MPU6050_BUSY else MPU6050_SUCCESS)
     }
   }"

definition mpu6050_get_result :: "sensor \<Rightarrow> u8 acc_m" where
  "mpu6050_get_result hw = do {
     st \<leftarrow> is_ready hw;
     if st \<noteq> MPU6050_SUCCESS then State_Monad.return st
     else do {
       (r, bs) \<leftarrow> acc_read hw MPU6050_RA_INT_STATUS 14;
       set_dev (\<lambda>d. d\<lparr>raw := measdata_of bs\<rparr>);
       if r \<noteq> 0 then State_Monad.return MPU6050_INTERFACE_ERROR
       else do { set_dev store_result; State_Monad.return MPU6050_SUCCESS }
     }
   }"

text \<open>The loop that waits for a measurement may run forever; the fuel bounds its rounds.\<close>

fun cal_loop :: "nat \<Rightarrow> sensor \<Rightarrow> u8 option acc_m" where
  "cal_loop 0 hw = State_Monad.return None"
| "cal_loop (Suc fuel) hw = do {
     r \<leftarrow> mpu6050_get_result hw;
     if r = MPU6050_BUSY then cal_loop fuel hw else State_Monad.return (Some r)
   }"

definition no_offset :: acc_zeropoint where
  "no_offset = \<lparr>x_offset = 0, y_offset = 0, z_offset = 0, ax_offset = 0, ay_offset = 0, az_offset = 0\<rparr>"

definition offset_of :: "acc_measdata \<Rightarrow> acc_zeropoint" where
  "offset_of r = \<lparr>x_offset = raw_x r, y_offset = raw_y r, z_offset = raw_z r,
     ax_offset = raw_ax r, ay_offset = raw_ay r, az_offset = raw_az r\<rparr>"

definition mpu6050_zero_cal :: "nat \<Rightarrow> sensor \<Rightarrow> u8 option acc_m" where
  "mpu6050_zero_cal fuel hw = do {
     d \<leftarrow> the_dev;
     if zero d = None then State_Monad.return (Some MPU6050_INVAL)
     else do {
       set_dev (\<lambda>d. d\<lparr>zero := Some no_offset\<rparr>);
       r \<leftarrow> cal_loop fuel hw;
       case r of None \<Rightarrow> State_Monad.return None
       | Some r \<Rightarrow>
           if r \<noteq> 0 then State_Monad.return (Some r)
           else do { set_dev (\<lambda>d. d\<lparr>zero := Some (offset_of (raw d))\<rparr>); State_Monad.return (Some MPU6050_SUCCESS) }
     }
   }"

section \<open>Measurements\<close>

lemma ready_frame:
  assumes "run_state (is_ready hw) s = (r, s')"
  shows "dev s' = dev s"
  using assms by (auto simp: is_ready_def acc_read_def run_simps split: if_splits prod.splits)

text \<open>A successful measurement stores the bytes of the last answer, corrected by the offsets.\<close>

lemma get_result_success:
  assumes "run_state (mpu6050_get_result hw) s = (MPU6050_SUCCESS, s')"
  shows "dev s' = store_result ((dev s)\<lparr>raw := measdata_of (map (acc_bytes hw (asked s' - 1)) [0..<14])\<rparr>)"
proof -
  obtain st s1 where 1: "run_state (is_ready hw) s = (st, s1)" by fastforce
  then show ?thesis
    using assms ready_frame [OF 1]
    by (auto simp: mpu6050_get_result_def acc_read_def run_simps acc_results split: if_splits simp del: upt_rec_numeral upt_Suc)
qed

lemma get_result_fail:
  assumes "run_state (mpu6050_get_result hw) s = (r, s')"
  shows "zero (dev s') = zero (dev s) \<and> conf (dev s') = conf (dev s)"
proof -
  obtain st s1 where 1: "run_state (is_ready hw) s = (st, s1)" by fastforce
  then show ?thesis
    using assms ready_frame [OF 1]
    by (auto simp: mpu6050_get_result_def acc_read_def run_simps store_result_def Let_def split: if_splits option.splits
      simp del: upt_rec_numeral upt_Suc)
qed

lemma raw_store_result:
  "raw (store_result d) = (case zero d of None \<Rightarrow> raw d | Some z \<Rightarrow> apply_zero z (raw d))"
  "zero (store_result d) = zero d" "has_ready (store_result d) = has_ready d"
  by (simp_all add: store_result_def Let_def split: option.splits)

lemma upt_14: "[0..<14] = [0, 1, 2, 3, 4, 5, 6, 7, 8, 9, 10, 11, 12, 13 :: nat]"
  by (simp add: upt_rec)

lemma apply_no_offset: "apply_zero no_offset r = r"
  by (simp add: apply_zero_def no_offset_def)

section \<open>Calibration\<close>

lemma cal_loop_success:
  assumes "run_state (cal_loop fuel hw) s = (Some MPU6050_SUCCESS, s')" "zero (dev s) = Some z"
  shows "zero (dev s') = Some z \<and> raw (dev s') = apply_zero z (measdata_of (map (acc_bytes hw (asked s' - 1)) [0..<14]))"
  using assms
proof (induction fuel arbitrary: s)
  case (Suc fuel)
  obtain r s1 where 1: "run_state (mpu6050_get_result hw) s = (r, s1)" by fastforce
  show ?case
  proof (cases "r = MPU6050_BUSY")
    case True
    then show ?thesis using Suc 1 get_result_fail [OF 1] by simp
  next
    case False
    then have r: "r = MPU6050_SUCCESS" "s1 = s'" using Suc.prems(1) 1 by simp_all
    then show ?thesis
      using get_result_success [of hw s s'] 1 Suc.prems(2) by (simp add: raw_store_result del: upt_rec_numeral upt_Suc)
  qed
qed simp

lemma zero_cal_success:
  assumes "run_state (mpu6050_zero_cal fuel hw) s = (Some MPU6050_SUCCESS, s')"
  shows "zero (dev s') = Some (offset_of (measdata_of (map (acc_bytes hw (asked s' - 1)) [0..<14])))"
proof -
  define s0 where "s0 = s\<lparr>dev := (dev s)\<lparr>zero := Some no_offset\<rparr>\<rparr>"
  obtain r s1 where 1: "run_state (cal_loop fuel hw) s0 = (r, s1)" by fastforce
  have r: "r = Some MPU6050_SUCCESS" "s' = s1\<lparr>dev := (dev s1)\<lparr>zero := Some (offset_of (raw (dev s1)))\<rparr>\<rparr>"
    using assms 1 by (auto simp: mpu6050_zero_cal_def run_simps acc_results s0_def split: if_splits option.splits)
  have "zero (dev s0) = Some no_offset" by (simp add: s0_def)
  with cal_loop_success [of fuel hw s0 s1] 1 r show ?thesis
    by (simp add: apply_no_offset del: upt_rec_numeral upt_Suc)
qed

text \<open>
  After a successful \<open>mpu6050_zero_cal\<close>, a successful \<open>mpu6050_get_result\<close> delivers the
  sensor's answer minus its answer at the calibration, in every axis of both
  instruments and with wrap-around; the temperature is not corrected.
\<close>
theorem mpu6050_calibrated:
  assumes "run_state (mpu6050_zero_cal fuel hw) s = (Some MPU6050_SUCCESS, s1)"
    and "run_state (mpu6050_get_result hw) s1 = (MPU6050_SUCCESS, s2)"
  shows "let m1 = measdata_of (map (acc_bytes hw (asked s1 - 1)) [0..<14]);
             m2 = measdata_of (map (acc_bytes hw (asked s2 - 1)) [0..<14]); r = raw (dev s2)
         in raw_x r = raw_x m2 - raw_x m1 \<and> raw_y r = raw_y m2 - raw_y m1 \<and> raw_z r = raw_z m2 - raw_z m1 \<and>
            raw_ax r = raw_ax m2 - raw_ax m1 \<and> raw_ay r = raw_ay m2 - raw_ay m1 \<and> raw_az r = raw_az m2 - raw_az m1 \<and>
            raw_temp r = raw_temp m2"
  using get_result_success [OF assms(2)] zero_cal_success [OF assms(1)]
  by (simp add: raw_store_result apply_zero_def offset_of_def Let_def del: upt_rec_numeral upt_Suc)

text \<open>A sensor with a ready pin, whose answers are numbered.\<close>

definition acc_sensor_sample :: sensor where
  "acc_sensor_sample = \<lparr>acc_status = (\<lambda>_. 0), acc_bytes = (\<lambda>i j. of_nat (i + j)), acc_ready = (\<lambda>i. if i < 2 then 0 else 1)\<rparr>"

definition acc_sample :: acc_io where
  "acc_sample = \<lparr>trace = [], asked = 0, dev = \<lparr>has_ready = True,
     conf = \<lparr>sample_rate_hz = 100, gyro_gain = 0, acc_gain = 0, filter_order = 0\<rparr>,
     raw = \<lparr>raw_x = 0, raw_y = 0, raw_z = 0, raw_temp = 0, raw_ax = 0, raw_ay = 0, raw_az = 0\<rparr>,
     zero = Some no_offset, res = None\<rparr>\<rparr>"

theorem mpu6050_calibrated_witness:
  "\<exists>s1 s2. run_state (mpu6050_zero_cal 3 acc_sensor_sample) acc_sample = (Some MPU6050_SUCCESS, s1) \<and>
    run_state (mpu6050_get_result acc_sensor_sample) s1 = (MPU6050_SUCCESS, s2) \<and>
    raw_y (raw (dev s2)) = 0x202"
proof -
  let ?s1 = "snd (run_state (mpu6050_zero_cal 3 acc_sensor_sample) acc_sample)"
  let ?s2 = "snd (run_state (mpu6050_get_result acc_sensor_sample) ?s1)"
  have 1: "run_state (mpu6050_zero_cal 3 acc_sensor_sample) acc_sample = (Some MPU6050_SUCCESS, ?s1)"
    "run_state (mpu6050_get_result acc_sensor_sample) ?s1 = (MPU6050_SUCCESS, ?s2)" "asked ?s1 = 4" "asked ?s2 = 6"
    by (simp_all add: mpu6050_zero_cal_def mpu6050_get_result_def is_ready_def acc_read_def run_simps acc_results
      acc_sensor_sample_def acc_sample_def raw_store_result numeral_eq_Suc del: upt_rec_numeral upt_Suc)
  have "raw_y (raw (dev ?s2)) = raw_y (measdata_of (map (acc_bytes acc_sensor_sample 5) [0..<14])) -
      raw_y (measdata_of (map (acc_bytes acc_sensor_sample 3) [0..<14]))"
    using mpu6050_calibrated [OF 1(1,2)] 1(3,4) by (simp add: Let_def del: upt_rec_numeral upt_Suc)
  also have "\<dots> = 0x202" by (simp add: measdata_of_def acc_sensor_sample_def upt_14)
  finally show ?thesis using 1(1,2) by blast
qed

text \<open>
  When the ready pin rises at the \<open>k\<close>-th poll, \<open>mpu6050_zero_cal\<close> returns after that poll and one
  reading: the loop ends, with success or with an interface error as the bus function says.
\<close>
theorem zero_cal_returns:
  assumes "has_ready (dev s)" "zero (dev s) \<noteq> None"
    and "\<forall>i < k. acc_ready hw (asked s + i) = 0" "acc_ready hw (asked s + k) \<noteq> 0" "k < fuel"
  shows "\<exists>s'. run_state (mpu6050_zero_cal fuel hw) s =
      (Some (if acc_status hw (asked s + k + 1) = 0 then MPU6050_SUCCESS else MPU6050_INTERFACE_ERROR), s') \<and>
    asked s' = asked s + k + 2"
proof -
  have loop: "\<exists>s'. run_state (cal_loop fuel hw) s =
      (Some (if acc_status hw (asked s + k + 1) = 0 then MPU6050_SUCCESS else MPU6050_INTERFACE_ERROR), s') \<and>
      asked s' = asked s + k + 2"
    if "has_ready (dev s)" "\<forall>i < k. acc_ready hw (asked s + i) = 0" "acc_ready hw (asked s + k) \<noteq> 0" "k < fuel" for s
    using that
  proof (induction k arbitrary: fuel s)
    case 0
    then show ?case
      by (cases fuel) (auto simp: mpu6050_get_result_def is_ready_def acc_read_def run_simps acc_results)
  next
    case (Suc k)
    obtain fuel' where f: "fuel = Suc fuel'" using Suc.prems(4) by (cases fuel) auto
    define s1 where "s1 = s\<lparr>trace := trace s @ [Acc_ready], asked := Suc (asked s)\<rparr>"
    have "acc_ready hw (asked s) = 0" using Suc.prems(2) by (metis add.right_neutral zero_less_Suc)
    then have "run_state (mpu6050_get_result hw) s = (MPU6050_BUSY, s1)"
      using Suc.prems(1) by (simp add: mpu6050_get_result_def is_ready_def run_simps acc_results s1_def)
    moreover have "has_ready (dev s1)" "asked s1 = Suc (asked s)" using Suc.prems(1) by (simp_all add: s1_def)
    moreover have "\<forall>i < k. acc_ready hw (asked s1 + i) = 0" "acc_ready hw (asked s1 + k) \<noteq> 0" "k < fuel'"
      using Suc.prems f by (auto simp: s1_def)
    ultimately show ?case using Suc.IH [of s1 fuel'] f by auto
  qed
  let ?s0 = "s\<lparr>dev := (dev s)\<lparr>zero := Some no_offset\<rparr>\<rparr>"
  obtain s1 where "run_state (cal_loop fuel hw) ?s0 =
      (Some (if acc_status hw (asked s + k + 1) = 0 then MPU6050_SUCCESS else MPU6050_INTERFACE_ERROR), s1)"
    "asked s1 = asked s + k + 2"
    using loop [of ?s0] assms by auto
  then show ?thesis
    using assms(2) by (auto simp: mpu6050_zero_cal_def run_simps acc_results)
qed

theorem zero_cal_returns_witness:
  "\<exists>s'. run_state (mpu6050_zero_cal 3 acc_sensor_sample) acc_sample = (Some MPU6050_SUCCESS, s') \<and> asked s' = 4"
  using zero_cal_returns [of acc_sample 2 acc_sensor_sample 3] by (auto simp: acc_sample_def acc_sensor_sample_def)

section \<open>The bytes that are read\<close>

text \<open>The code starts to read at the interrupt status register and stores big-endian values in
  little-endian order.  On a sensor with its registers in a row every measurement gets its low byte
  from the axis before it, and the first from the status register.\<close>

lemma measurements_shifted:
  assumes "bs = map (\<lambda>j. regs (MPU6050_RA_INT_STATUS + of_nat j)) [0..<14]"
  shows "raw_x (measdata_of bs) = le_word [regs 0x3A, regs 0x3B]" "raw_y (measdata_of bs) = le_word [regs 0x3C, regs 0x3D]"
  unfolding assms by (simp_all add: measdata_of_def MPU6050_RA_INT_STATUS_def upt_14)

text \<open>A bus function that reports its failure as 1 makes the driver report a busy sensor.\<close>

lemma bus_error_looks_busy:
  assumes "\<not> has_ready (dev s)" "acc_status hw (asked s) = 1"
  shows "fst (run_state (mpu6050_get_result hw) s) = MPU6050_BUSY"
  using assms by (simp add: mpu6050_get_result_def is_ready_def acc_read_def run_simps acc_results)

end
