(* ===== verification/Apds9960.thy ===== *)
theory Apds9960
  imports C_Io
begin

text \<open>
  The gesture, light and proximity sensor driver of Common/apds9960.c.  The bus functions and
  the two optional interrupt functions of \<open>struct apds9960\<close> are recorded as calls, and
  their answers are a parameter.  Bit fields are bytes of which the low bits count; the
  driver writes the bytes the compiler packs them into, first field lowest.
\<close>

section \<open>The model\<close>

definition APDS_ENABLE_REG :: u8 where "APDS_ENABLE_REG = 0x80"
definition APDS_ENABLE_GEN :: u8 where "APDS_ENABLE_GEN = push_bit 6 1"
definition APDS_ENABLE_PIEN :: u8 where "APDS_ENABLE_PIEN = push_bit 5 1"
definition APDS_ENABLE_AIEN :: u8 where "APDS_ENABLE_AIEN = push_bit 4 1"
definition APDS_ENABLE_WEN :: u8 where "APDS_ENABLE_WEN = push_bit 3 1"
definition APDS_ENABLE_PEN :: u8 where "APDS_ENABLE_PEN = push_bit 2 1"
definition APDS_ENABLE_AEN :: u8 where "APDS_ENABLE_AEN = push_bit 1 1"
definition APDS_ENABLE_PON :: u8 where "APDS_ENABLE_PON = push_bit 0 1"
definition APDS_ATIME_REG :: u8 where "APDS_ATIME_REG = 0x81"
definition APDS_WTIME_REG :: u8 where "APDS_WTIME_REG = 0x83"
definition APDS_AILTL_REG :: u8 where "APDS_AILTL_REG = 0x84"
definition APDS_AILTH_REG :: u8 where "APDS_AILTH_REG = 0x85"
definition APDS_AIHTL_REG :: u8 where "APDS_AIHTL_REG = 0x86"
definition APDS_AIHTH_REG :: u8 where "APDS_AIHTH_REG = 0x87"
definition APDS_PILT_REG :: u8 where "APDS_PILT_REG = 0x89"
definition APDS_PIHT_REG :: u8 where "APDS_PIHT_REG = 0x8B"
definition APDS_PERS_REG :: u8 where "APDS_PERS_REG = 0x8C"
definition APDS_CONFIG1_REG :: u8 where "APDS_CONFIG1_REG = 0x8D"
definition APDS_PPULSE_REG :: u8 where "APDS_PPULSE_REG = 0x8E"
definition APDS_CONTROL_REG :: u8 where "APDS_CONTROL_REG = 0x8F"
definition APDS_CONFIG2_REG :: u8 where "APDS_CONFIG2_REG = 0x90"
definition APDS_ID_REG :: u8 where "APDS_ID_REG = 0x92"
definition APDS_STATUS_REG :: u8 where "APDS_STATUS_REG = 0x93"
definition APDS_STATUS_PINT_BIT :: u8 where "APDS_STATUS_PINT_BIT = push_bit 5 1"
definition APDS_STATUS_GINT_BIT :: u8 where "APDS_STATUS_GINT_BIT = push_bit 2 1"
definition APDS_STATUS_PVALID_BIT :: u8 where "APDS_STATUS_PVALID_BIT = push_bit 1 1"
definition APDS_STATUS_AVALID_BIT :: u8 where "APDS_STATUS_AVALID_BIT = push_bit 0 1"
definition APDS_CDATAL_REG :: u8 where "APDS_CDATAL_REG = 0x94"
definition APDS_POFFSET_UR_REG :: u8 where "APDS_POFFSET_UR_REG = 0x9D"
definition APDS_POFFSET_DL_REG :: u8 where "APDS_POFFSET_DL_REG = 0x9E"
definition APDS_CONFIG3_REG :: u8 where "APDS_CONFIG3_REG = 0x9F"
definition APDS_GPENTH_REG :: u8 where "APDS_GPENTH_REG = 0xA0"
definition APDS_GEXTH_REG :: u8 where "APDS_GEXTH_REG = 0xA1"
definition APDS_GCONF1_REG :: u8 where "APDS_GCONF1_REG = 0xA2"
definition APDS_GCONF2_REG :: u8 where "APDS_GCONF2_REG = 0xA3"
definition APDS_GOFFSET_U_REG :: u8 where "APDS_GOFFSET_U_REG = 0xA4"
definition APDS_GOFFSET_D_REG :: u8 where "APDS_GOFFSET_D_REG = 0xA5"
definition APDS_GOFFSET_L_REG :: u8 where "APDS_GOFFSET_L_REG = 0xA7"
definition APDS_GOFFSET_R_REG :: u8 where "APDS_GOFFSET_R_REG = 0xA9"
definition APDS_GPULSE_REG :: u8 where "APDS_GPULSE_REG = 0xA6"
definition APDS_GCONF3_REG :: u8 where "APDS_GCONF3_REG = 0xAA"
definition APDS_GFLVL_REG :: u8 where "APDS_GFLVL_REG = 0xAE"
definition APDS_GSTATUS_REG :: u8 where "APDS_GSTATUS_REG = 0xAF"
definition APDS_PICLEAR_REG :: u8 where "APDS_PICLEAR_REG = 0xE5"
definition APDS_CICLEAR_REG :: u8 where "APDS_CICLEAR_REG = 0xE6"
definition APDS_AICLEAR_REG :: u8 where "APDS_AICLEAR_REG = 0xE7"
definition APDS_GFIFO_U_REG :: u8 where "APDS_GFIFO_U_REG = 0xFC"
definition APDS_ID :: u8 where "APDS_ID = 0xAB"
definition GESTURE_THRESHOLD_MIN :: int where "GESTURE_THRESHOLD_MIN = 10"
definition GESTURE_THRESHOLD_MAX :: int where "GESTURE_THRESHOLD_MAX = 240"

lemmas apds_regs = APDS_ENABLE_REG_def APDS_ATIME_REG_def APDS_WTIME_REG_def APDS_AILTL_REG_def APDS_AILTH_REG_def
  APDS_AIHTL_REG_def APDS_AIHTH_REG_def APDS_PILT_REG_def APDS_PIHT_REG_def APDS_PERS_REG_def APDS_CONFIG1_REG_def
  APDS_PPULSE_REG_def APDS_CONTROL_REG_def APDS_CONFIG2_REG_def APDS_ID_REG_def APDS_STATUS_REG_def APDS_CDATAL_REG_def
  APDS_POFFSET_UR_REG_def APDS_POFFSET_DL_REG_def APDS_CONFIG3_REG_def APDS_GPENTH_REG_def APDS_GEXTH_REG_def
  APDS_GCONF1_REG_def APDS_GCONF2_REG_def APDS_GOFFSET_U_REG_def APDS_GOFFSET_D_REG_def APDS_GOFFSET_L_REG_def
  APDS_GOFFSET_R_REG_def APDS_GPULSE_REG_def APDS_GCONF3_REG_def APDS_GFLVL_REG_def APDS_GSTATUS_REG_def
  APDS_PICLEAR_REG_def APDS_CICLEAR_REG_def APDS_AICLEAR_REG_def APDS_GFIFO_U_REG_def

definition LED_100mA :: u8 where "LED_100mA = 0"
definition GAIN_1x :: u8 where "GAIN_1x = 0"
definition GAIN_4x :: u8 where "GAIN_4x = 2"
definition BOOST_100 :: u8 where "BOOST_100 = 0"
definition PLEN_8_US :: u8 where "PLEN_8_US = 1"
definition PLEN_16_US :: u8 where "PLEN_16_US = 2"
definition FIFO_1 :: u8 where "FIFO_1 = 0"
definition FIFO_16 :: u8 where "FIFO_16 = 3"

datatype apds_gesture = NO_ACTIVITY | DIR_UP | DIR_DOWN | DIR_LEFT | DIR_RIGHT | ERR_DATA_INVALID | ERR_FIFO_EMPTY

record rgbs_data =
  rgb_clear :: u16
  rgb_red :: u16
  rgb_green :: u16
  rgb_blue :: u16

record gesture_data =
  g_up :: u8
  g_down :: u8
  g_left :: u8
  g_right :: u8

record als_treshold = als_low :: u16  als_high :: u16
record prox_treshold = prox_low :: u8  prox_high :: u8
record persistance = apers :: u8  ppers :: u8
record pulse_cnt = pulses :: u8  pulse_len :: u8
record ctrl1 = again :: u8  pgain :: u8  ctrl_led_c :: u8
record conf2 = led_boost :: u8  CPSIEN :: bool  PSIEN :: bool
record pconf3 = p_mask_r :: bool  p_mask_l :: bool  p_mask_d :: bool  p_mask_u :: bool  sleep_after_irq :: bool  p_gain_cmp :: bool
record gconf1 = gexpers :: u8  gexmask :: u8  gfifoth :: u8
record gconf2 = gwtime :: u8  g_led_c :: u8  ggain :: u8
record gconf3 = up_down_gest_enable :: bool  left_right_gest_enable :: bool

text \<open>The optional function pointers are booleans that tell whether they are set.\<close>

record apds9960 =
  has_check_irq :: bool
  has_wait_for_irq :: bool
  atime :: u8
  wtime :: u8
  als_treshold_f :: als_treshold
  prox_treshold_f :: prox_treshold
  persistance_f :: persistance
  wlong :: bool
  prox_pulse_cnt :: pulse_cnt
  ctrl1_f :: ctrl1
  conf2_f :: conf2
  p_offset_ur :: u8
  p_offset_ds :: u8
  pconf3_f :: pconf3
  ges_prox_enter :: u8
  get_prox_exit :: u8
  gconf1_f :: gconf1
  gconf2_f :: gconf2
  g_offset_u :: u8
  g_offset_d :: u8
  g_offset_l :: u8
  g_offset_r :: u8
  g_pulse_cnt :: pulse_cnt
  gconf3_f :: gconf3

datatype apds_call = Apds_wr u8 u8 | Apds_rd u8 nat | Check_irq | Wait_for_irq u8

record apds_chip =
  status :: "nat \<Rightarrow> u8"
  bytes :: "nat \<Rightarrow> nat \<Rightarrow> u8"
  irq_line :: "nat \<Rightarrow> bool"
  waited :: "nat \<Rightarrow> u8"

type_synonym 'a apds = "(apds_call io, 'a) state"

definition write_reg :: "apds_chip \<Rightarrow> u8 \<Rightarrow> u8 \<Rightarrow> u8 apds" where
  "write_reg hw reg v = ask (status hw) (Apds_wr reg v)"

definition read_reg :: "apds_chip \<Rightarrow> u8 \<Rightarrow> nat \<Rightarrow> (u8 \<times> u8 list) apds" where
  "read_reg hw reg n = ask (\<lambda>i. (status hw i, map (bytes hw i) [0..<n])) (Apds_rd reg n)"

text \<open>A read into a variable of one byte.\<close>

definition read_byte :: "apds_chip \<Rightarrow> u8 \<Rightarrow> (u8 \<times> u8) apds" where
  "read_byte hw reg = ask (\<lambda>i. (status hw i, bytes hw i 0)) (Apds_rd reg 1)"

definition check_irq :: "apds_chip \<Rightarrow> apds9960 \<Rightarrow> u8 \<Rightarrow> u8 apds" where
  "check_irq hw dev b = do {
     up \<leftarrow> (if has_check_irq dev then ask (irq_line hw) Check_irq else State_Monad.return True);
     if \<not> up then State_Monad.return 0
     else do { (_, irq) \<leftarrow> read_byte hw APDS_STATUS_REG; State_Monad.return (irq AND b) }
   }"

text \<open>The loop of \<open>wait_for_irq\<close> may run forever; the fuel bounds its rounds.\<close>

fun irq_loop :: "nat \<Rightarrow> apds_chip \<Rightarrow> apds9960 \<Rightarrow> u8 \<Rightarrow> u8 option apds" where
  "irq_loop 0 hw dev b = State_Monad.return None"
| "irq_loop (Suc fuel) hw dev b = do {
     r \<leftarrow> check_irq hw dev b;
     if r = 0 then irq_loop fuel hw dev b else State_Monad.return (Some r)
   }"

definition wait_for_irq :: "nat \<Rightarrow> apds_chip \<Rightarrow> apds9960 \<Rightarrow> u8 \<Rightarrow> u8 option apds" where
  "wait_for_irq fuel hw dev b =
     (if has_wait_for_irq dev then do { r \<leftarrow> ask (waited hw) (Wait_for_irq b); State_Monad.return (Some r) }
      else irq_loop fuel hw dev b)"

definition sleep_mode :: "apds_chip \<Rightarrow> u8 apds" where
  "sleep_mode hw = do {
     ret \<leftarrow> write_reg hw APDS_ENABLE_REG 0;
     write_reg hw APDS_PICLEAR_REG 0;
     write_reg hw APDS_CICLEAR_REG 0;
     write_reg hw APDS_AICLEAR_REG 0;
     State_Monad.return ret
   }"

definition validate_gest_data :: "gesture_data \<Rightarrow> bool" where
  "validate_gest_data d \<longleftrightarrow>
     uint (g_up d) > GESTURE_THRESHOLD_MIN \<and> uint (g_down d) > GESTURE_THRESHOLD_MIN \<and>
     uint (g_left d) > GESTURE_THRESHOLD_MIN \<and> uint (g_right d) > GESTURE_THRESHOLD_MIN \<and>
     uint (g_up d) < GESTURE_THRESHOLD_MAX \<and> uint (g_down d) < GESTURE_THRESHOLD_MAX \<and>
     uint (g_left d) < GESTURE_THRESHOLD_MAX \<and> uint (g_right d) < GESTURE_THRESHOLD_MAX"

text \<open>Division in C truncates towards zero and has no value for a divisor of zero.\<close>

definition c_div :: "int \<Rightarrow> int \<Rightarrow> int option" where
  "c_div a b = (if b = 0 then None else Some (sgn a * sgn b * (\<bar>a\<bar> div \<bar>b\<bar>)))"

definition ratio :: "u8 \<Rightarrow> u8 \<Rightarrow> int option" where
  "ratio a b = c_div ((uint a - uint b) * 100) (uint a + uint b)"

definition direction :: "int \<Rightarrow> int \<Rightarrow> apds_gesture" where
  "direction diff_ud diff_lr =
     (if diff_ud > diff_lr \<and> diff_ud > GESTURE_THRESHOLD_MIN then DIR_UP
      else if diff_ud > diff_lr \<and> diff_ud < - GESTURE_THRESHOLD_MIN then DIR_DOWN
      else if diff_ud < diff_lr \<and> diff_lr > GESTURE_THRESHOLD_MIN then DIR_LEFT
      else if diff_ud < diff_lr \<and> diff_lr < - GESTURE_THRESHOLD_MIN then DIR_RIGHT
      else ERR_DATA_INVALID)"

definition proccess_gesture :: "gesture_data \<Rightarrow> gesture_data \<Rightarrow> apds_gesture option" where
  "proccess_gesture mn mx = do {
     ud_min \<leftarrow> ratio (g_up mn) (g_down mn);
     lr_min \<leftarrow> ratio (g_left mn) (g_right mn);
     ud_max \<leftarrow> ratio (g_up mx) (g_down mx);
     lr_max \<leftarrow> ratio (g_left mx) (g_right mx);
     Some (direction (ud_max - ud_min) (lr_max - lr_min))
   }"

definition apds9960_use_default :: "apds9960 \<Rightarrow> apds9960" where
  "apds9960_use_default dev = dev\<lparr>
     atime := 0xFF, wtime := 0xFF,
     als_treshold_f := \<lparr>als_low = 0, als_high = 0\<rparr>,
     prox_treshold_f := \<lparr>prox_low = 0, prox_high = 0\<rparr>,
     persistance_f := \<lparr>apers = 0, ppers = 0\<rparr>,
     wlong := True,
     prox_pulse_cnt := \<lparr>pulses = 0, pulse_len = PLEN_8_US\<rparr>,
     ctrl1_f := \<lparr>again = GAIN_1x, pgain = GAIN_1x, ctrl_led_c = LED_100mA\<rparr>,
     conf2_f := \<lparr>led_boost = BOOST_100, CPSIEN = False, PSIEN = True\<rparr>,
     p_offset_ur := 0, p_offset_ds := 0,
     pconf3_f := \<lparr>p_mask_r = False, p_mask_l = False, p_mask_d = False, p_mask_u = False,
       sleep_after_irq = False, p_gain_cmp = False\<rparr>,
     ges_prox_enter := 0, get_prox_exit := 0,
     gconf1_f := \<lparr>gexpers = 0, gexmask = 0, gfifoth = FIFO_1\<rparr>,
     gconf2_f := \<lparr>gwtime = 0, g_led_c = LED_100mA, ggain = GAIN_1x\<rparr>,
     g_offset_u := 0, g_offset_d := 0, g_offset_l := 0, g_offset_r := 0,
     g_pulse_cnt := \<lparr>pulses = 0, pulse_len = PLEN_8_US\<rparr>,
     gconf3_f := \<lparr>up_down_gest_enable = False, left_right_gest_enable = False\<rparr>\<rparr>"

definition apds9960_recomended_settings :: "apds9960 \<Rightarrow> apds9960" where
  "apds9960_recomended_settings dev = (let d = apds9960_use_default dev in d\<lparr>
     gconf1_f := (gconf1_f d)\<lparr>gfifoth := FIFO_16\<rparr>,
     gconf3_f := \<lparr>up_down_gest_enable = True, left_right_gest_enable = True\<rparr>,
     g_pulse_cnt := \<lparr>pulses = 10, pulse_len = PLEN_16_US\<rparr>,
     gconf2_f := \<lparr>gwtime = 2, g_led_c = LED_100mA, ggain = GAIN_4x\<rparr>,
     ctrl1_f := \<lparr>again = GAIN_4x, pgain = GAIN_4x, ctrl_led_c = LED_100mA\<rparr>,
     prox_pulse_cnt := \<lparr>pulses = 8, pulse_len = PLEN_16_US\<rparr>,
     wlong := False,
     persistance_f := \<lparr>apers = 1, ppers = 1\<rparr>,
     prox_treshold_f := \<lparr>prox_low = 0, prox_high = 50\<rparr>,
     atime := 219, wtime := 246,
     als_treshold_f := \<lparr>als_low = 0xFFFF, als_high = 0\<rparr>,
     ges_prox_enter := 40, get_prox_exit := 30\<rparr>)"

text \<open>The bytes of the bit-field structures.\<close>

definition persistance_byte :: "persistance \<Rightarrow> u8" where
  "persistance_byte p = apers p AND 0x0F OR push_bit 4 (ppers p)"

definition pulse_byte :: "pulse_cnt \<Rightarrow> u8" where
  "pulse_byte p = pulses p AND 0x3F OR push_bit 6 (pulse_len p)"

definition ctrl1_byte :: "ctrl1 \<Rightarrow> u8" where
  "ctrl1_byte c = again c AND 3 OR push_bit 2 (pgain c AND 3) OR push_bit 6 (ctrl_led_c c)"

definition conf2_byte :: "conf2 \<Rightarrow> u8" where
  "conf2_byte c = push_bit 4 (led_boost c AND 3) OR push_bit 6 (of_bool (CPSIEN c)) OR push_bit 7 (of_bool (PSIEN c))"

definition pconf3_byte :: "pconf3 \<Rightarrow> u8" where
  "pconf3_byte c = pack [p_mask_r c, p_mask_l c, p_mask_d c, p_mask_u c, sleep_after_irq c, p_gain_cmp c]"

definition gconf1_byte :: "gconf1 \<Rightarrow> u8" where
  "gconf1_byte c = gexpers c AND 3 OR push_bit 2 (gexmask c AND 0x0F) OR push_bit 6 (gfifoth c)"

definition gconf2_byte :: "gconf2 \<Rightarrow> u8" where
  "gconf2_byte c = gwtime c AND 7 OR push_bit 3 (g_led_c c AND 3) OR push_bit 5 (ggain c AND 3)"

definition gconf3_byte :: "gconf3 \<Rightarrow> u8" where
  "gconf3_byte c = pack [up_down_gest_enable c, left_right_gest_enable c]"

definition settings :: "apds9960 \<Rightarrow> (u8 \<times> u8) list" where
  "settings d = [
     (APDS_ATIME_REG, atime d),
     (APDS_WTIME_REG, wtime d),
     (APDS_AILTL_REG, ucast (als_low (als_treshold_f d))),
     (APDS_AILTH_REG, ucast (drop_bit 8 (als_low (als_treshold_f d)))),
     (APDS_AIHTL_REG, ucast (als_high (als_treshold_f d))),
     (APDS_AIHTH_REG, ucast (drop_bit 8 (als_high (als_treshold_f d)))),
     (APDS_PILT_REG, prox_low (prox_treshold_f d)),
     (APDS_PIHT_REG, prox_high (prox_treshold_f d)),
     (APDS_PERS_REG, persistance_byte (persistance_f d)),
     (APDS_CONFIG1_REG, pack [False, wlong d]),
     (APDS_PPULSE_REG, pulse_byte (prox_pulse_cnt d)),
     (APDS_CONTROL_REG, ctrl1_byte (ctrl1_f d)),
     (APDS_CONFIG2_REG, conf2_byte (conf2_f d) OR 1),
     (APDS_POFFSET_UR_REG, p_offset_ur d),
     (APDS_POFFSET_DL_REG, p_offset_ds d),
     (APDS_CONFIG3_REG, pconf3_byte (pconf3_f d)),
     (APDS_GPENTH_REG, ges_prox_enter d),
     (APDS_GEXTH_REG, get_prox_exit d),
     (APDS_GCONF1_REG, gconf1_byte (gconf1_f d)),
     (APDS_GCONF2_REG, gconf2_byte (gconf2_f d)),
     (APDS_GOFFSET_U_REG, g_offset_u d),
     (APDS_GOFFSET_D_REG, g_offset_d d),
     (APDS_GOFFSET_L_REG, g_offset_l d),
     (APDS_GOFFSET_R_REG, g_offset_r d),
     (APDS_GPULSE_REG, pulse_byte (g_pulse_cnt d)),
     (APDS_GCONF3_REG, gconf3_byte (gconf3_f d))]"

definition apds9960_init :: "apds_chip \<Rightarrow> apds9960 \<Rightarrow> bool \<Rightarrow> bool \<Rightarrow> (u8 \<times> apds9960) apds" where
  "apds9960_init hw dev use_default use_recommended = do {
     (ret, id) \<leftarrow> read_byte hw APDS_ID_REG;
     if ret \<noteq> 0 \<or> id \<noteq> APDS_ID then State_Monad.return (ret, dev)
     else do {
       let dev = (if use_recommended then apds9960_recomended_settings dev
                  else if use_default then apds9960_use_default dev else dev);
       for_each (\<lambda>(reg, v). do { write_reg hw reg v; skip }) (settings dev);
       State_Monad.return (ret, dev)
     }
   }"

definition rgbs_of :: "u8 list \<Rightarrow> rgbs_data" where
  "rgbs_of bs = (let w = \<lambda>i. le_word (take 2 (drop (2 * i) bs)) in
     \<lparr>rgb_clear = w 0, rgb_red = w 1, rgb_green = w 2, rgb_blue = w 3\<rparr>)"

definition apds9960_meas_crgb :: "nat \<Rightarrow> apds_chip \<Rightarrow> apds9960 \<Rightarrow> (u8 \<times> rgbs_data) option apds" where
  "apds9960_meas_crgb fuel hw dev = do {
     write_reg hw APDS_ENABLE_REG (APDS_ENABLE_AEN OR APDS_ENABLE_AIEN OR APDS_ENABLE_PON OR APDS_ENABLE_WEN);
     irq \<leftarrow> wait_for_irq fuel hw dev APDS_STATUS_AVALID_BIT;
     if irq = None then State_Monad.return None
     else do {
       (_, bs) \<leftarrow> read_reg hw APDS_CDATAL_REG 8;
       ret \<leftarrow> sleep_mode hw;
       State_Monad.return (Some (ret, rgbs_of bs))
     }
   }"

definition apds9960_proximity :: "nat \<Rightarrow> apds_chip \<Rightarrow> apds9960 \<Rightarrow> u8 option apds" where
  "apds9960_proximity fuel hw dev = do {
     write_reg hw APDS_ENABLE_REG (APDS_ENABLE_PEN OR APDS_ENABLE_PIEN OR APDS_ENABLE_PON OR APDS_ENABLE_WEN);
     irq \<leftarrow> wait_for_irq fuel hw dev (APDS_STATUS_PINT_BIT OR APDS_STATUS_PVALID_BIT);
     case irq of None \<Rightarrow> State_Monad.return None
     | Some ret \<Rightarrow> do { sleep_mode hw; State_Monad.return (Some (ret AND APDS_STATUS_PINT_BIT)) }
   }"

text \<open>A sample, and the structure that a read leaves in the memory of one: fewer or more bytes than it has give no value.\<close>

definition gesture_of :: "u8 list \<Rightarrow> gesture_data option" where
  "gesture_of bs = (case bs of [u, d, l, r] \<Rightarrow> Some \<lparr>g_up = u, g_down = d, g_left = l, g_right = r\<rparr> | _ \<Rightarrow> None)"

fun fifo_loop ::
    "apds_chip \<Rightarrow> nat \<Rightarrow> gesture_data option \<times> gesture_data option \<Rightarrow> (gesture_data option \<times> gesture_data option) option apds" where
  "fifo_loop hw 0 mm = State_Monad.return (Some mm)"
| "fifo_loop hw (Suc n) mm = do {
     (_, bs) \<leftarrow> read_reg hw APDS_GFIFO_U_REG 4;
     case gesture_of bs of None \<Rightarrow> State_Monad.return None
     | Some g \<Rightarrow> fifo_loop hw n
         (if validate_gest_data g then (if fst mm = None then (Some g, snd mm) else (fst mm, Some g)) else mm)
   }"

definition read_gesture :: "apds_chip \<Rightarrow> u8 \<Rightarrow> (apds_gesture \<times> gesture_data option \<times> gesture_data option) option apds" where
  "read_gesture hw ret =
     (if ret = 0 then State_Monad.return (Some (NO_ACTIVITY, None, None))
      else do {
        (_, gvalid) \<leftarrow> read_byte hw APDS_GSTATUS_REG;
        if gvalid = 0 then State_Monad.return (Some (ERR_DATA_INVALID, None, None))
        else do {
          (_, fifo_level) \<leftarrow> read_byte hw APDS_GFLVL_REG;
          if fifo_level = 0 then State_Monad.return (Some (ERR_FIFO_EMPTY, None, None))
          else do {
            mm \<leftarrow> fifo_loop hw (unat fifo_level) (None, None);
            State_Monad.return (map_option (Pair NO_ACTIVITY) mm)
          }
        }
      })"

definition apds9960_gesture :: "nat \<Rightarrow> apds_chip \<Rightarrow> apds9960 \<Rightarrow> apds_gesture option apds" where
  "apds9960_gesture fuel hw dev = do {
     write_reg hw APDS_ENABLE_REG
       (APDS_ENABLE_GEN OR APDS_ENABLE_PEN OR APDS_ENABLE_AEN OR APDS_ENABLE_PON OR APDS_ENABLE_WEN);
     irq \<leftarrow> wait_for_irq fuel hw dev APDS_STATUS_GINT_BIT;
     case irq of None \<Rightarrow> State_Monad.return None
     | Some ret \<Rightarrow> do {
         read \<leftarrow> read_gesture hw ret;
         case read of None \<Rightarrow> State_Monad.return None
         | Some (r, mn, mx) \<Rightarrow> do {
             sleep_mode hw;
             State_Monad.return (case (mn, mx) of (Some mn, Some mx) \<Rightarrow> proccess_gesture mn mx | _ \<Rightarrow> Some r)
           }
       }
   }"

section \<open>Gestures\<close>

lemma ratio_valid:
  assumes "validate_gest_data d"
  shows "\<exists>r. ratio (g_up d) (g_down d) = Some r" "\<exists>r. ratio (g_left d) (g_right d) = Some r"
  using assms by (auto simp: validate_gest_data_def GESTURE_THRESHOLD_MIN_def ratio_def c_div_def)

lemma proccess_gesture_valid:
  assumes "validate_gest_data mn" "validate_gest_data mx"
  shows "\<exists>g. proccess_gesture mn mx = Some g"
  using ratio_valid [OF assms(1)] ratio_valid [OF assms(2)] by (auto simp: proccess_gesture_def)

text \<open>The samples that the sensor delivers, and those that the loop keeps: the first valid one, and the last, if there are two.\<close>

definition sample :: "apds_chip \<Rightarrow> nat \<Rightarrow> gesture_data" where
  "sample hw i = \<lparr>g_up = bytes hw i 0, g_down = bytes hw i 1, g_left = bytes hw i 2, g_right = bytes hw i 3\<rparr>"

definition kept :: "gesture_data list \<Rightarrow> gesture_data option \<times> gesture_data option" where
  "kept gs = (let vs = filter validate_gest_data gs in
     (if vs = [] then None else Some (hd vs), if length vs < 2 then None else Some (last vs)))"

lemma kept_snoc:
  "kept (gs @ [g]) = (if validate_gest_data g
     then (if fst (kept gs) = None then (Some g, snd (kept gs)) else (fst (kept gs), Some g)) else kept gs)"
  by (auto simp: kept_def Let_def)

lemma kept_case:
  "(case (fst (kept gs), snd (kept gs)) of (Some mn, Some mx) \<Rightarrow> proccess_gesture mn mx | _ \<Rightarrow> Some r) =
    (let vs = filter validate_gest_data gs in if length vs < 2 then Some r else proccess_gesture (hd vs) (last vs))"
  by (auto simp: kept_def Let_def)

lemma gesture_of_sample: "gesture_of (map (bytes hw i) [0..<4]) = Some (sample hw i)"
proof -
  have "[0..<4] = [0, 1, 2, 3 :: nat]" by (simp add: upt_rec)
  then show ?thesis by (simp add: gesture_of_def sample_def)
qed

lemma fifo_loop_run:
  "\<exists>s'. run_state (fifo_loop hw n (kept gs)) s = (Some (kept (gs @ map (sample hw) [asked s..<asked s + n])), s')"
proof (induction n arbitrary: gs s)
  case (Suc n)
  let ?s = "s\<lparr>trace := trace s @ [Apds_rd APDS_GFIFO_U_REG 4], asked := Suc (asked s)\<rparr>"
  have "[asked s..<asked s + Suc n] = asked s # [asked ?s..<asked ?s + n]" by (simp add: upt_rec)
  then show ?case using Suc.IH [of "gs @ [sample hw (asked s)]" ?s]
    by (simp add: read_reg_def run_simps gesture_of_sample kept_snoc)
qed simp

text \<open>The result by the answers of the sensor, from the first one after the interrupt on.\<close>

definition recognised :: "apds_chip \<Rightarrow> nat \<Rightarrow> u8 \<Rightarrow> apds_gesture option" where
  "recognised hw i ret =
     (if ret = 0 then Some NO_ACTIVITY
      else if bytes hw i 0 = 0 then Some ERR_DATA_INVALID
      else if bytes hw (i + 1) 0 = 0 then Some ERR_FIFO_EMPTY
      else let vs = filter validate_gest_data (map (sample hw) [i + 2..<i + 2 + unat (bytes hw (i + 1) 0)])
        in if length vs < 2 then Some NO_ACTIVITY else proccess_gesture (hd vs) (last vs))"

lemma read_gesture_run:
  "\<exists>r mn mx s'. run_state (read_gesture hw ret) s = (Some (r, mn, mx), s') \<and>
    (case (mn, mx) of (Some mn, Some mx) \<Rightarrow> proccess_gesture mn mx | _ \<Rightarrow> Some r) = recognised hw (asked s) ret"
proof -
  let ?s = "s\<lparr>trace := trace s @ [Apds_rd APDS_GSTATUS_REG 1, Apds_rd APDS_GFLVL_REG 1], asked := Suc (Suc (asked s))\<rparr>"
  let ?n = "unat (bytes hw (Suc (asked s)) 0)"
  let ?gs = "map (sample hw) [asked s + 2..<asked s + 2 + ?n]"
  have start: "kept [] = (None, None)" by (simp add: kept_def)
  obtain s' where 1: "run_state (fifo_loop hw ?n (None, None)) ?s = (Some (kept ?gs), s')"
    using fifo_loop_run [of hw ?n "[]" ?s] unfolding start by auto
  show ?thesis
  proof (cases "ret = 0 \<or> bytes hw (asked s) 0 = 0 \<or> bytes hw (Suc (asked s)) 0 = 0")
    case True
    then show ?thesis by (auto simp: read_gesture_def read_byte_def run_simps recognised_def)
  next
    case False
    then have "run_state (read_gesture hw ret) s = (Some (NO_ACTIVITY, fst (kept ?gs), snd (kept ?gs)), s')"
      using 1 by (simp add: read_gesture_def read_byte_def run_simps)
    moreover have "recognised hw (asked s) ret =
        (case (fst (kept ?gs), snd (kept ?gs)) of (Some mn, Some mx) \<Rightarrow> proccess_gesture mn mx | _ \<Rightarrow> Some NO_ACTIVITY)"
      unfolding kept_case using False by (simp add: recognised_def del: upt_Suc)
    ultimately show ?thesis by fastforce
  qed
qed

lemma recognised_defined: "\<exists>g. recognised hw i ret = Some g"
proof -
  have "\<exists>g. proccess_gesture (hd vs) (last vs) = Some g" if "vs = filter validate_gest_data gs" "\<not> length vs < 2" for vs gs
  proof -
    have "vs \<noteq> []" using that(2) by auto
    then have "hd vs \<in> set vs" "last vs \<in> set vs" by simp_all
    then show ?thesis using that(1) by (intro proccess_gesture_valid) simp_all
  qed
  then show ?thesis unfolding recognised_def Let_def by auto
qed

lemma sleep_mode_run:
  "\<exists>s'. run_state (sleep_mode hw) s = (status hw (asked s), s') \<and>
    trace s' = trace s @ [Apds_wr 0x80 0, Apds_wr 0xE5 0, Apds_wr 0xE6 0, Apds_wr 0xE7 0]"
  by (simp add: sleep_mode_def write_reg_def run_simps apds_regs)

text \<open>
  C40: once the interrupt has come, \<open>apds9960_gesture\<close> always returns a gesture or one of its error
  codes, whatever bytes the sensor delivers: every read fills the variable or the structure it is for exactly, and
  the divisions of \<open>proccess_gesture\<close> never have a
  divisor of zero, since only validated samples reach them.  The result comes from the first and the last valid sample of the FIFO,
  and is that there was no activity when there are not two.  And the sensor is
  put to sleep with its interrupts cleared last of all.
\<close>
theorem apds9960_gesture_safe:
  assumes "run_state (wait_for_irq fuel hw dev APDS_STATUS_GINT_BIT) (snd (run_state (write_reg hw 0x80 0x4F) s)) = (Some ret, s1)"
  shows "\<exists>g es s'. run_state (apds9960_gesture fuel hw dev) s = (Some g, s') \<and> recognised hw (asked s1) ret = Some g \<and>
    trace s' = es @ [Apds_wr 0x80 0, Apds_wr 0xE5 0, Apds_wr 0xE6 0, Apds_wr 0xE7 0]"
proof -
  obtain r mn mx s2 where 2: "run_state (read_gesture hw ret) s1 = (Some (r, mn, mx), s2)"
    "(case (mn, mx) of (Some mn, Some mx) \<Rightarrow> proccess_gesture mn mx | _ \<Rightarrow> Some r) = recognised hw (asked s1) ret"
    using read_gesture_run by blast
  obtain s3 where 3: "run_state (sleep_mode hw) s2 = (status hw (asked s2), s3)"
    "trace s3 = trace s2 @ [Apds_wr 0x80 0, Apds_wr 0xE5 0, Apds_wr 0xE6 0, Apds_wr 0xE7 0]"
    using sleep_mode_run by blast
  obtain g where g: "recognised hw (asked s1) ret = Some g" using recognised_defined by blast
  have e: "APDS_ENABLE_GEN OR APDS_ENABLE_PEN OR APDS_ENABLE_AEN OR APDS_ENABLE_PON OR APDS_ENABLE_WEN = 0x4F"
    by (simp add: APDS_ENABLE_GEN_def APDS_ENABLE_PEN_def APDS_ENABLE_AEN_def APDS_ENABLE_PON_def APDS_ENABLE_WEN_def)
  obtain x s0 where 0: "run_state (write_reg hw APDS_ENABLE_REG 0x4F) s = (x, s0)" by fastforce
  then have 1: "run_state (wait_for_irq fuel hw dev APDS_STATUS_GINT_BIT) s0 = (Some ret, s1)"
    using assms by (simp add: APDS_ENABLE_REG_def)
  have "run_state (apds9960_gesture fuel hw dev) s = (Some g, s3)"
    unfolding apds9960_gesture_def e using 0 1 2 3(1) g by simp
  then show ?thesis using 3(2) g by blast
qed

definition apds_sample :: apds9960 where
  "apds_sample = apds9960_recomended_settings \<lparr>has_check_irq = False, has_wait_for_irq = True, atime = 0, wtime = 0,
     als_treshold_f = \<lparr>als_low = 0, als_high = 0\<rparr>, prox_treshold_f = \<lparr>prox_low = 0, prox_high = 0\<rparr>,
     persistance_f = \<lparr>apers = 0, ppers = 0\<rparr>, wlong = False, prox_pulse_cnt = \<lparr>pulses = 0, pulse_len = 0\<rparr>,
     ctrl1_f = \<lparr>again = 0, pgain = 0, ctrl_led_c = 0\<rparr>, conf2_f = \<lparr>led_boost = 0, CPSIEN = False, PSIEN = False\<rparr>,
     p_offset_ur = 0, p_offset_ds = 0, pconf3_f = \<lparr>p_mask_r = False, p_mask_l = False, p_mask_d = False, p_mask_u = False,
       sleep_after_irq = False, p_gain_cmp = False\<rparr>, ges_prox_enter = 0, get_prox_exit = 0,
     gconf1_f = \<lparr>gexpers = 0, gexmask = 0, gfifoth = 0\<rparr>, gconf2_f = \<lparr>gwtime = 0, g_led_c = 0, ggain = 0\<rparr>,
     g_offset_u = 0, g_offset_d = 0, g_offset_l = 0, g_offset_r = 0, g_pulse_cnt = \<lparr>pulses = 0, pulse_len = 0\<rparr>,
     gconf3_f = \<lparr>up_down_gest_enable = False, left_right_gest_enable = False\<rparr>\<rparr>"

definition chip_sample :: apds_chip where
  "chip_sample = \<lparr>status = (\<lambda>_. 0), bytes = (\<lambda>i j. if i < 4 then 2 else if i = 4 then 50 else if j = 0 then 150 else 50),
     irq_line = (\<lambda>_. True), waited = (\<lambda>_. 4)\<rparr>"

theorem apds9960_gesture_safe_witness:
  "\<exists>es s'. run_state (apds9960_gesture 0 chip_sample apds_sample) io_start = (Some DIR_UP, s') \<and>
    trace s' = es @ [Apds_wr 0x80 0, Apds_wr 0xE5 0, Apds_wr 0xE6 0, Apds_wr 0xE7 0]"
proof -
  have "has_wait_for_irq apds_sample" by (simp add: apds_sample_def apds9960_recomended_settings_def apds9960_use_default_def Let_def)
  then obtain s1 where 1: "run_state (wait_for_irq 0 chip_sample apds_sample APDS_STATUS_GINT_BIT)
      (snd (run_state (write_reg chip_sample 0x80 0x4F) io_start)) = (Some 4, s1)" "asked s1 = 2"
    by (simp add: wait_for_irq_def write_reg_def run_simps chip_sample_def)
  have "recognised chip_sample 2 4 = Some DIR_UP"
    by (simp add: recognised_def chip_sample_def sample_def upt_rec validate_gest_data_def GESTURE_THRESHOLD_MIN_def
      GESTURE_THRESHOLD_MAX_def proccess_gesture_def ratio_def c_div_def direction_def)
  then show ?thesis using apds9960_gesture_safe [of 0 chip_sample apds_sample io_start 4 s1] 1 by auto
qed

text \<open>A movement straight down, which leaves the balance of left and right as it is, is not
  recognised as one; the opposite movement is.  The comparison for \<open>DIR_DOWN\<close>
  asks for an even stronger movement to the right.\<close>

lemma straight_down_is_lost:
  assumes "diff < - GESTURE_THRESHOLD_MIN"
  shows "direction diff 0 = ERR_DATA_INVALID" "direction (- diff) 0 = DIR_UP"
    and "direction diff_ud diff_lr = DIR_DOWN \<Longrightarrow> diff_lr < diff_ud \<and> diff_ud < - GESTURE_THRESHOLD_MIN"
  using assms by (auto simp: direction_def GESTURE_THRESHOLD_MIN_def split: if_splits)

section \<open>Initialisation\<close>

text \<open>A chip with another identity is reported as a success, and nothing is set up.\<close>

lemma wrong_id_is_success:
  assumes "status hw (asked s) = 0" "bytes hw (asked s) 0 \<noteq> APDS_ID"
  shows "\<exists>s'. run_state (apds9960_init hw dev use_default use_recommended) s = ((0, dev), s') \<and>
    trace s' = trace s @ [Apds_rd 0x92 1]"
  using assms by (simp add: apds9960_init_def read_byte_def run_simps apds_regs)

lemma for_each_writes:
  "\<exists>s'. run_state (for_each (\<lambda>(reg, v). do { write_reg hw reg v; skip }) rs) s = ((), s') \<and>
    trace s' = trace s @ map (\<lambda>(reg, v). Apds_wr reg v) rs"
proof (induction rs arbitrary: s)
  case (Cons r rs)
  obtain reg v where r: "r = (reg, v)" by fastforce
  show ?case using Cons.IH [of "s\<lparr>trace := trace s @ [Apds_wr reg v], asked := Suc (asked s)\<rparr>"]
    by (auto simp: r write_reg_def run_simps)
qed simp

text \<open>With the right chip and the recommended settings, the registers get these values.\<close>

lemma init_recommended:
  assumes "status hw (asked s) = 0" "bytes hw (asked s) 0 = APDS_ID"
  shows "\<exists>s'. run_state (apds9960_init hw dev d True) s = ((0, apds9960_recomended_settings dev), s') \<and>
    trace s' = trace s @ Apds_rd 0x92 1 # map (\<lambda>(reg, v). Apds_wr reg v)
      [(0x81, 219), (0x83, 246), (0x84, 0xFF), (0x85, 0xFF), (0x86, 0), (0x87, 0), (0x89, 0), (0x8B, 50),
       (0x8C, 0x11), (0x8D, 0), (0x8E, 0x88), (0x8F, 0x0A), (0x90, 0x81), (0x9D, 0), (0x9E, 0), (0x9F, 0),
       (0xA0, 40), (0xA1, 30), (0xA2, 0xC0), (0xA3, 0x42), (0xA4, 0), (0xA5, 0), (0xA7, 0), (0xA9, 0), (0xA6, 0x8A), (0xAA, 3)]"
proof -
  let ?d = "apds9960_recomended_settings dev"
  have t: "settings ?d = [(0x81, 219), (0x83, 246), (0x84, 0xFF), (0x85, 0xFF), (0x86, 0), (0x87, 0), (0x89, 0), (0x8B, 50),
       (0x8C, 0x11), (0x8D, 0), (0x8E, 0x88), (0x8F, 0x0A), (0x90, 0x81), (0x9D, 0), (0x9E, 0), (0x9F, 0),
       (0xA0, 40), (0xA1, 30), (0xA2, 0xC0), (0xA3, 0x42), (0xA4, 0), (0xA5, 0), (0xA7, 0), (0xA9, 0), (0xA6, 0x8A), (0xAA, 3)]"
    by (simp add: settings_def apds9960_recomended_settings_def apds9960_use_default_def Let_def apds_regs
      persistance_byte_def pulse_byte_def ctrl1_byte_def conf2_byte_def pconf3_byte_def gconf1_byte_def gconf2_byte_def
      gconf3_byte_def LED_100mA_def GAIN_1x_def GAIN_4x_def BOOST_100_def PLEN_8_US_def PLEN_16_US_def FIFO_1_def FIFO_16_def)
  let ?s1 = "s\<lparr>trace := trace s @ [Apds_rd 0x92 1], asked := Suc (asked s)\<rparr>"
  obtain s' where f: "run_state (for_each (\<lambda>(reg, v). do { write_reg hw reg v; skip }) (settings ?d)) ?s1 = ((), s')"
    "trace s' = trace ?s1 @ map (\<lambda>(reg, v). Apds_wr reg v) (settings ?d)"
    using for_each_writes by blast
  have "run_state (apds9960_init hw dev d True) s = ((0, ?d), s')"
    using assms f(1) by (simp add: apds9960_init_def read_byte_def run_simps apds_regs Let_def del: for_each.simps)
  moreover have "trace s' = trace s @ Apds_rd 0x92 1 # map (\<lambda>(reg, v). Apds_wr reg v) (settings ?d)" using f(2) by simp
  ultimately show ?thesis unfolding t by blast
qed

end
