(* ===== verification/Filters.thy ===== *)
theory Filters
  imports C_Prelude Complex_Main "HOL-Library.Multiset"
begin

text \<open>
  The digital filters of Common/filters.h.  The classes are templates over a number type; the
  models work for every ordered field, that is, with exact arithmetic.  An object is a record of its members, and
  \<open>update\<close> returns the new object with the result.  The infinities and not-a-numbers that a division
  by zero gives in floating point are outside of the model: such a call has the value \<open>None\<close>.
\<close>

section \<open>The model\<close>

subsection \<open>Kalman filter\<close>

record 'a KalmanFilter =
  processNoise :: 'a
  measurementNoise :: 'a
  estimationError :: 'a
  lastEstimate :: 'a

definition KalmanFilter_new :: "'a::linordered_field \<Rightarrow> 'a \<Rightarrow> 'a \<Rightarrow> 'a KalmanFilter" where
  "KalmanFilter_new p m e = \<lparr>processNoise = p, measurementNoise = m, estimationError = e, lastEstimate = 0\<rparr>"

definition KalmanFilter_update :: "'a::linordered_field KalmanFilter \<Rightarrow> 'a \<Rightarrow> ('a KalmanFilter \<times> 'a) option" where
  "KalmanFilter_update f measurement =
     (let err = estimationError f + processNoise f;
          den = err + measurementNoise f
      in if den = 0 then None
         else let gain = err / den;
                  est = lastEstimate f + gain * (measurement - lastEstimate f)
              in Some (f\<lparr>lastEstimate := est, estimationError := (1 - gain) * err\<rparr>, est))"

subsection \<open>Moving average\<close>

record 'a MovingAverageFilter =
  ma_buffer :: "'a list"
  ma_sum :: 'a
  ma_count :: nat
  ma_index :: nat

definition MovingAverageFilter_new :: "nat \<Rightarrow> 'a::linordered_field MovingAverageFilter" where
  "MovingAverageFilter_new windowSize = \<lparr>ma_buffer = replicate windowSize 0, ma_sum = 0, ma_count = 0, ma_index = 0\<rparr>"

definition MovingAverageFilter_update ::
    "nat \<Rightarrow> 'a::linordered_field MovingAverageFilter \<Rightarrow> 'a \<Rightarrow> 'a MovingAverageFilter \<times> 'a" where
  "MovingAverageFilter_update windowSize f newValue =
     (let s = ma_sum f - ma_buffer f ! ma_index f + newValue;
          c = (if ma_count f < windowSize then ma_count f + 1 else ma_count f)
      in (f\<lparr>ma_buffer := (ma_buffer f)[ma_index f := newValue], ma_sum := s,
            ma_index := (ma_index f + 1) mod windowSize, ma_count := c\<rparr>, s / of_nat c))"

subsection \<open>Exponential moving average\<close>

record 'a ExponentialMovingAverage =
  alpha :: 'a
  ema_initialized :: bool
  ema_last :: 'a

definition ExponentialMovingAverage_new :: "'a::linordered_field \<Rightarrow> 'a ExponentialMovingAverage" where
  "ExponentialMovingAverage_new a = \<lparr>alpha = a, ema_initialized = False, ema_last = 0\<rparr>"

definition ExponentialMovingAverage_update ::
    "'a::linordered_field ExponentialMovingAverage \<Rightarrow> 'a \<Rightarrow> 'a ExponentialMovingAverage \<times> 'a" where
  "ExponentialMovingAverage_update f val =
     (let l = (if ema_initialized f then alpha f * val + (1 - alpha f) * ema_last f else val)
      in (f\<lparr>ema_last := l, ema_initialized := True\<rparr>, l))"

definition ExponentialMovingAverage_reset :: "'a ExponentialMovingAverage \<Rightarrow> 'a \<Rightarrow> 'a ExponentialMovingAverage" where
  "ExponentialMovingAverage_reset f v = f\<lparr>ema_last := v, ema_initialized := False\<rparr>"

subsection \<open>Median\<close>

record 'a MedianFilter =
  md_buffer :: "'a list"
  md_index :: nat
  md_count :: nat

definition MedianFilter_new :: "nat \<Rightarrow> 'a::linordered_field MedianFilter" where
  "MedianFilter_new windowSize = \<lparr>md_buffer = replicate windowSize 0, md_index = 0, md_count = 0\<rparr>"

text \<open>\<open>std::nth_element\<close> may rearrange the copy in many ways; the function is an argument.
  \<open>std::max_element\<close> runs over the part before the middle.\<close>

definition middle :: "(nat \<Rightarrow> 'a::linordered_field list \<Rightarrow> 'a list) \<Rightarrow> 'a list \<Rightarrow> 'a" where
  "middle nth_element tmp =
     (let c = length tmp; mid = c div 2; tmp = nth_element mid tmp
      in if c mod 2 = 1 then tmp ! mid
         else (foldr max (tl (take mid tmp)) (hd (take mid tmp)) + tmp ! mid) / 2)"

definition MedianFilter_update ::
    "(nat \<Rightarrow> 'a::linordered_field list \<Rightarrow> 'a list) \<Rightarrow> nat \<Rightarrow> 'a MedianFilter \<Rightarrow> 'a \<Rightarrow> 'a MedianFilter \<times> 'a" where
  "MedianFilter_update nth_element windowSize f val =
     (let b = (md_buffer f)[md_index f := val];
          c = (if md_count f < windowSize then md_count f + 1 else md_count f)
      in (f\<lparr>md_buffer := b, md_index := (md_index f + 1) mod windowSize, md_count := c\<rparr>,
          middle nth_element (take c b)))"

definition MedianFilter_reset :: "nat \<Rightarrow> 'a MedianFilter \<Rightarrow> 'a \<Rightarrow> 'a MedianFilter" where
  "MedianFilter_reset windowSize f v = f\<lparr>md_buffer := replicate windowSize v, md_index := 0, md_count := 0\<rparr>"

subsection \<open>First-order filters\<close>

definition pi_const :: "'a::linordered_field" where
  "pi_const = 314159265358979323846 / 100000000000000000000"

definition time_constant :: "'a::linordered_field \<Rightarrow> 'a" where
  "time_constant cutoff_hz = 1 / (2 * pi_const * cutoff_hz)"

record 'a FirstOrderLowPass =
  lp_cutoff_hz :: 'a
  lp_last :: 'a
  lp_initialized :: bool

definition FirstOrderLowPass_new :: "'a::linordered_field \<Rightarrow> 'a \<Rightarrow> 'a FirstOrderLowPass" where
  "FirstOrderLowPass_new cutoff_hz ini = \<lparr>lp_cutoff_hz = cutoff_hz, lp_last = ini, lp_initialized = False\<rparr>"

definition FirstOrderLowPass_update ::
    "'a::linordered_field FirstOrderLowPass \<Rightarrow> 'a \<Rightarrow> 'a \<Rightarrow> ('a FirstOrderLowPass \<times> 'a) option" where
  "FirstOrderLowPass_update f sample dt =
     (if dt \<le> 0 then Some (f, lp_last f)
      else if lp_cutoff_hz f = 0 \<or> time_constant (lp_cutoff_hz f) + dt = 0 then None
      else let a = dt / (time_constant (lp_cutoff_hz f) + dt);
               l = (if lp_initialized f then lp_last f + a * (sample - lp_last f) else sample)
           in Some (f\<lparr>lp_last := l, lp_initialized := True\<rparr>, l))"

definition FirstOrderLowPass_reset :: "'a FirstOrderLowPass \<Rightarrow> 'a \<Rightarrow> 'a FirstOrderLowPass" where
  "FirstOrderLowPass_reset f v = f\<lparr>lp_last := v, lp_initialized := False\<rparr>"

record 'a FirstOrderHighPass =
  hp_cutoff_hz :: 'a
  hp_last_y :: 'a
  hp_last_x :: 'a
  hp_initialized :: bool

definition FirstOrderHighPass_new :: "'a::linordered_field \<Rightarrow> 'a \<Rightarrow> 'a FirstOrderHighPass" where
  "FirstOrderHighPass_new cutoff_hz ini =
     \<lparr>hp_cutoff_hz = cutoff_hz, hp_last_y = ini, hp_last_x = ini, hp_initialized = False\<rparr>"

definition FirstOrderHighPass_update ::
    "'a::linordered_field FirstOrderHighPass \<Rightarrow> 'a \<Rightarrow> 'a \<Rightarrow> ('a FirstOrderHighPass \<times> 'a) option" where
  "FirstOrderHighPass_update f sample dt =
     (if dt \<le> 0 then Some (f, hp_last_y f)
      else if hp_cutoff_hz f = 0 \<or> time_constant (hp_cutoff_hz f) + dt = 0 then None
      else let tau = time_constant (hp_cutoff_hz f);
               a = tau / (tau + dt);
               f = (if hp_initialized f then f else f\<lparr>hp_last_x := sample, hp_last_y := 0, hp_initialized := True\<rparr>);
               y = a * (hp_last_y f + sample - hp_last_x f)
           in Some (f\<lparr>hp_last_x := sample, hp_last_y := y\<rparr>, y))"

definition FirstOrderHighPass_reset :: "'a FirstOrderHighPass \<Rightarrow> 'a \<Rightarrow> 'a FirstOrderHighPass" where
  "FirstOrderHighPass_reset f v = f\<lparr>hp_last_x := v, hp_last_y := v, hp_initialized := False\<rparr>"

section \<open>Ring buffers\<close>

text \<open>Read from its index on, a ring buffer is the window over the history, padded with the
  initial value at the front.\<close>

lemma rotate_write:
  assumes "i < length b"
  shows "rotate (Suc i mod length b) (b[i := v]) = tl (rotate i b) @ [v]"
proof -
  have r: "rotate i (b[i := v]) = v # drop (Suc i) b @ take i b"
    using assms by (simp add: rotate_drop_take drop_update_cancel Cons_nth_drop_Suc [symmetric] drop_update_swap)
  have "rotate (Suc i mod length b) (b[i := v]) = rotate1 (rotate i (b[i := v]))"
    using rotate_conv_mod [of "Suc i" "b[i := v]"] by simp
  also have "\<dots> = tl (rotate i b) @ [v]"
    using assms by (simp add: r rotate_drop_take Cons_nth_drop_Suc [symmetric])
  finally show ?thesis .
qed

definition window :: "nat \<Rightarrow> 'a list \<Rightarrow> 'a list" where
  "window n vs = drop (length vs - n) vs"

text \<open>The ring after the values \<open>vs\<close> were written, one after the other.\<close>

definition ring :: "nat \<Rightarrow> 'a \<Rightarrow> 'a list \<Rightarrow> 'a list \<Rightarrow> nat \<Rightarrow> nat \<Rightarrow> bool" where
  "ring n z vs b i c \<longleftrightarrow> length b = n \<and> i = length vs mod n \<and> c = min (length vs) n \<and>
     rotate i b = drop (length vs) (replicate n z @ vs)"

lemma ring_new: "0 < n \<Longrightarrow> ring n z [] (replicate n z) 0 0"
  by (simp add: ring_def)

lemma drop_one_more: "k < length xs \<Longrightarrow> tl (drop k xs) @ [v] = drop (Suc k) (xs @ [v])"
  by (simp add: drop_Suc tl_drop)

lemma ring_write:
  assumes "0 < n" "ring n z vs b i c"
  shows "ring n z (vs @ [v]) (b[i := v]) ((i + 1) mod n) (if c < n then c + 1 else c)"
proof -
  have l: "length b = n" "i = length vs mod n" "c = min (length vs) n" and
    r: "rotate i b = drop (length vs) (replicate n z @ vs)" using assms(2) by (auto simp: ring_def)
  have i: "i < length b" using assms(1) l by simp
  have "rotate (Suc i mod n) (b[i := v]) = tl (rotate i b) @ [v]" using rotate_write [OF i] l(1) by simp
  also have "\<dots> = drop (Suc (length vs)) (replicate n z @ vs @ [v])"
    unfolding r using drop_one_more [of "length vs" "replicate n z @ vs" v] assms(1) by simp
  finally show ?thesis using l by (auto simp: ring_def mod_Suc_eq)
qed

text \<open>What the buffer holds: the window, and as a whole the window with its padding.\<close>

lemma ring_total:
  assumes "ring n z vs b i c"
  shows "mset b = mset (window n vs) + replicate_mset (n - length vs) z"
proof -
  have "mset b = mset (rotate i b)"
    by (simp add: rotate_drop_take) (metis add.commute append_take_drop_id mset_append)
  also have "\<dots> = mset (drop (length vs) (replicate n z @ vs))" using assms unfolding ring_def by metis
  also have "\<dots> = mset (window n vs) + replicate_mset (n - length vs) z"
    by (simp add: window_def)
  finally show ?thesis .
qed

lemma ring_window:
  assumes "0 < n" "ring n z vs b i c"
  shows "mset (take c b) = mset (window n vs)" "length (window n vs) = c"
proof -
  show "length (window n vs) = c" using assms(2) by (auto simp: ring_def window_def)
  show "mset (take c b) = mset (window n vs)"
  proof (cases "length vs < n")
    case True
    then have "rotate (length vs) b = replicate (n - length vs) z @ vs" "length b = n" "c = length vs"
      using assms(2) True unfolding ring_def by auto
    then have "drop (length vs) b @ take (length vs) b = replicate (n - length vs) z @ vs"
      using True by (simp add: rotate_drop_take)
    then have "take (length vs) b = vs" using \<open>length b = n\<close> by (subst (asm) append_eq_append_conv) simp_all
    then show ?thesis using True \<open>c = length vs\<close> by (simp add: window_def)
  next
    case False
    then have "length b = c" using assms(2) by (simp add: ring_def)
    then show ?thesis using ring_total [OF assms(2)] False by simp
  qed
qed

section \<open>The moving average\<close>

fun ma_run :: "nat \<Rightarrow> 'a::linordered_field MovingAverageFilter \<Rightarrow> 'a list \<Rightarrow> 'a MovingAverageFilter" where
  "ma_run n f [] = f"
| "ma_run n f (v # vs) = ma_run n (fst (MovingAverageFilter_update n f v)) vs"

definition ma_inv :: "nat \<Rightarrow> 'a::linordered_field list \<Rightarrow> 'a MovingAverageFilter \<Rightarrow> bool" where
  "ma_inv n vs f \<longleftrightarrow> ring n 0 vs (ma_buffer f) (ma_index f) (ma_count f) \<and> ma_sum f = sum_list (ma_buffer f)"

lemma sum_list_replace:
  "i < length xs \<Longrightarrow> sum_list (xs[i := v]) = sum_list xs - xs ! i + v" for xs :: "'a::linordered_field list"
  by (induction xs arbitrary: i) (auto split: nat.splits)

lemma ma_inv_update:
  assumes "0 < n" "ma_inv n vs f"
  shows "ma_inv n (vs @ [v]) (fst (MovingAverageFilter_update n f v))"
proof -
  have "ma_index f < length (ma_buffer f)" using assms by (auto simp: ma_inv_def ring_def)
  then have "ma_sum f - ma_buffer f ! ma_index f + v = sum_list ((ma_buffer f)[ma_index f := v])"
    using assms(2) by (simp add: ma_inv_def sum_list_replace)
  then show ?thesis
    using ring_write [OF assms(1), of 0 vs "ma_buffer f" "ma_index f" "ma_count f" v] assms(2)
    by (simp add: MovingAverageFilter_update_def ma_inv_def Let_def)
qed

lemma ma_inv_run: "0 < n \<Longrightarrow> ma_inv n us f \<Longrightarrow> ma_inv n (us @ vs) (ma_run n f vs)"
proof (induction vs arbitrary: us f)
  case (Cons v vs)
  then show ?case using ma_inv_update [of n us f v] Cons.IH [of "us @ [v]"] by simp
qed simp

lemma sum_list_mset_cong: "mset xs = mset ys \<Longrightarrow> sum_list xs = sum_list ys" for xs :: "'a::comm_monoid_add list"
  by (metis sum_mset_sum_list)

text \<open>
  Fed with any values one after the other, the moving average returns after each of them the
  mean of the last \<open>windowSize\<close> values, or of all values while there are fewer.
\<close>
theorem moving_average_is_mean:
  assumes "0 < windowSize"
  shows "snd (MovingAverageFilter_update windowSize (ma_run windowSize (MovingAverageFilter_new windowSize) vs) v) =
    sum_list (window windowSize (vs @ [v])) / of_nat (length (window windowSize (vs @ [v])))"
proof -
  let ?f = "ma_run windowSize (MovingAverageFilter_new windowSize) vs"
  let ?g = "fst (MovingAverageFilter_update windowSize ?f v)"
  have "ma_inv windowSize [] (MovingAverageFilter_new windowSize)"
    using ring_new [OF assms] by (simp add: ma_inv_def MovingAverageFilter_new_def sum_list_replicate)
  then have g: "ma_inv windowSize (vs @ [v]) ?g"
    using ma_inv_update [OF assms ma_inv_run [OF assms]] by fastforce
  then have r: "ring windowSize 0 (vs @ [v]) (ma_buffer ?g) (ma_index ?g) (ma_count ?g)" by (simp add: ma_inv_def)
  have "sum_list (ma_buffer ?g) = sum_mset (mset (window windowSize (vs @ [v])) + replicate_mset (windowSize - length (vs @ [v])) 0)"
    using ring_total [OF r] by (metis sum_mset_sum_list)
  then have "ma_sum ?g = sum_list (window windowSize (vs @ [v]))"
    using g by (simp add: ma_inv_def sum_mset_sum_list)
  then show ?thesis
    using ring_window(2) [OF assms r] by (simp add: MovingAverageFilter_update_def Let_def)
qed

theorem moving_average_is_mean_witness:
  "snd (MovingAverageFilter_update 3 (ma_run 3 (MovingAverageFilter_new 3) [1, 2, 3, 4 :: rat]) 8) = 5"
  using moving_average_is_mean [of 3 "[1, 2, 3, 4 :: rat]" 8] by (simp add: window_def)

section \<open>The median\<close>

lemma sort_eq_Nil: "sort xs = [] \<longleftrightarrow> xs = []"
  by (metis length_0_conv length_sort)

lemma foldr_max_eq: "foldr max xs x = Max (insert x (set xs))" for x :: "'a::linorder"
  by (induction xs) (simp_all add: insert_commute)

lemma Max_last_sort:
  assumes "xs \<noteq> []"
  shows "Max (set xs) = last (sort xs)"
proof (rule Max_eqI)
  show "last (sort xs) \<in> set xs" using assms by (metis last_in_set set_sort sort_eq_Nil)
  fix y assume "y \<in> set xs"
  then obtain i where "i < length (sort xs)" "y = sort xs ! i" by (metis in_set_conv_nth set_sort)
  moreover have "sort xs \<noteq> []" using assms by (metis sort_eq_Nil)
  ultimately show "y \<le> last (sort xs)"
    by (simp add: last_conv_nth sorted_nth_mono del: length_sort)
qed simp

text \<open>What \<open>std::nth_element\<close> promises: a permutation with nothing greater before and nothing smaller
  behind the chosen place.\<close>

locale selection =
  fixes sel :: "nat \<Rightarrow> 'a::linordered_field list \<Rightarrow> 'a list"
  assumes sel_mset: "k < length xs \<Longrightarrow> mset (sel k xs) = mset xs"
    and sel_lower: "k < length xs \<Longrightarrow> i < k \<Longrightarrow> sel k xs ! i \<le> sel k xs ! k"
    and sel_upper: "k < j \<Longrightarrow> j < length xs \<Longrightarrow> sel k xs ! k \<le> sel k xs ! j"
begin

lemma sel_length: "k < length xs \<Longrightarrow> length (sel k xs) = length xs"
  using sel_mset by (metis size_mset)

lemma sel_split: "k < length xs \<Longrightarrow> sel k xs = take k (sel k xs) @ sel k xs ! k # drop (Suc k) (sel k xs)"
  by (simp add: sel_length id_take_nth_drop [symmetric])

text \<open>Sorting the two parts sorts the whole list.\<close>

lemma sort_sel:
  assumes "k < length xs"
  shows "sort xs = sort (take k (sel k xs)) @ sel k xs ! k # sort (drop (Suc k) (sel k xs))"
proof -
  let ?y = "sel k xs"
  have n: "length ?y = length xs" using sel_length [OF assms] .
  have lo: "\<forall>x \<in> set (take k ?y). x \<le> ?y ! k"
    using sel_lower [OF assms] n assms by (auto simp: in_set_conv_nth)
  have hi: "\<forall>x \<in> set (drop (Suc k) ?y). ?y ! k \<le> x"
    using sel_upper n by (auto simp: in_set_conv_nth)
  have "sorted (sort (take k ?y) @ ?y ! k # sort (drop (Suc k) ?y))"
    using lo hi by (auto simp: sorted_append intro: order_trans)
  moreover have "mset (sort (take k ?y) @ ?y ! k # sort (drop (Suc k) ?y)) = mset ?y"
    by (subst (4) sel_split [OF assms]) simp
  ultimately show ?thesis using sel_mset [OF assms] by (intro properties_for_sort) simp_all
qed

lemma sel_nth: "k < length xs \<Longrightarrow> sel k xs ! k = sort xs ! k"
  using sort_sel [of k xs] sel_length [of k xs] by (simp add: nth_append)

lemma max_lower:
  assumes "0 < k" "k < length xs"
  shows "foldr max (tl (take k (sel k xs))) (hd (take k (sel k xs))) = sort xs ! (k - 1)"
proof -
  let ?l = "take k (sel k xs)"
  have ne: "?l \<noteq> []" and len: "length ?l = k" using assms sel_length [OF assms(2)] by auto
  have "foldr max (tl ?l) (hd ?l) = Max (set ?l)"
    using ne by (cases ?l) (simp_all add: foldr_max_eq)
  also have "\<dots> = last (sort ?l)" using ne by (rule Max_last_sort)
  also have "\<dots> = sort xs ! (k - 1)"
  proof -
    have "last (sort ?l) = sort ?l ! (k - 1)"
      using len ne sort_eq_Nil [of ?l] by (subst last_conv_nth) (simp_all del: length_take)
    also have "\<dots> = sort xs ! (k - 1)"
      unfolding sort_sel [OF assms(2)] using len assms(1) by (simp add: nth_append del: length_take)
    finally show ?thesis .
  qed
  finally show ?thesis .
qed

lemma middle_sorted:
  assumes "xs \<noteq> []"
  shows "middle sel xs = (let s = sort xs; k = length xs div 2 in
    if length xs mod 2 = 1 then s ! k else (s ! (k - 1) + s ! k) / 2)"
proof -
  have k: "length xs div 2 < length xs" using assms by (cases xs) auto
  have "0 < length xs div 2" if "length xs mod 2 \<noteq> 1" using that assms by (cases xs; cases "tl xs") auto
  then show ?thesis
    using sel_nth [OF k] max_lower [OF _ k] by (simp add: middle_def Let_def)
qed

end

interpretation sorting: selection "\<lambda>k xs. sort (xs :: 'a::linordered_field list)"
  by unfold_locales (auto simp: sorted_nth_mono)

fun md_run :: "(nat \<Rightarrow> 'a::linordered_field list \<Rightarrow> 'a list) \<Rightarrow> nat \<Rightarrow> 'a MedianFilter \<Rightarrow> 'a list \<Rightarrow> 'a MedianFilter" where
  "md_run nth_element n f [] = f"
| "md_run nth_element n f (v # vs) = md_run nth_element n (fst (MedianFilter_update nth_element n f v)) vs"

lemma md_ring_run:
  assumes "0 < n" "ring n z us (md_buffer f) (md_index f) (md_count f)"
  shows "let g = md_run nth_element n f vs in ring n z (us @ vs) (md_buffer g) (md_index g) (md_count g)"
  using assms(2)
proof (induction vs arbitrary: us f)
  case (Cons v vs)
  have "ring n z (us @ [v]) (md_buffer (fst (MedianFilter_update nth_element n f v)))
      (md_index (fst (MedianFilter_update nth_element n f v))) (md_count (fst (MedianFilter_update nth_element n f v)))"
    using ring_write [OF assms(1) Cons.prems, of v] by (simp add: MedianFilter_update_def Let_def)
  from Cons.IH [OF this] show ?case by (simp add: Let_def)
qed (simp add: Let_def)

definition median :: "'a::linordered_field list \<Rightarrow> 'a" where
  "median xs = (let s = sort xs; k = length xs div 2 in
     if length xs mod 2 = 1 then s ! k else (s ! (k - 1) + s ! k) / 2)"

lemma median_cong: "mset xs = mset ys \<Longrightarrow> median xs = median ys"
  unfolding median_def by (metis size_mset sorted_list_of_multiset_mset)

text \<open>
  C39: Fed with any values one after the other, after its creation or a reset, the median filter returns
  after each of them the median of the last \<open>windowSize\<close> values, or of all values while there are
  fewer, with the mean of the two middle ones for an even number; whichever way \<open>std::nth_element\<close>
  rearranges the rest.
\<close>
theorem median_filter_is_median:
  assumes "selection nth_element" "0 < windowSize"
    and "f = MedianFilter_new windowSize \<or> (\<exists>g z. f = MedianFilter_reset windowSize g z)"
  shows "snd (MedianFilter_update nth_element windowSize (md_run nth_element windowSize f vs) v) =
    median (window windowSize (vs @ [v]))"
proof -
  obtain z where "md_buffer f = replicate windowSize z" "md_index f = 0" "md_count f = 0"
    using assms(3) by (fastforce simp: MedianFilter_new_def MedianFilter_reset_def simp del: replicate_eq_replicate)
  then have z: "ring windowSize z [] (md_buffer f) (md_index f) (md_count f)"
    using ring_new [OF assms(2)] by simp
  define g where "g = md_run nth_element windowSize f (vs @ [v])"
  have r: "ring windowSize z (vs @ [v]) (md_buffer g) (md_index g) (md_count g)"
    using md_ring_run [OF assms(2) z, of nth_element "vs @ [v]"] by (simp add: g_def Let_def)
  have split: "md_run nth_element n h (xs @ [v]) = fst (MedianFilter_update nth_element n (md_run nth_element n h xs) v)" for n h xs
    by (induction xs arbitrary: h) simp_all
  have "snd (MedianFilter_update nth_element windowSize (md_run nth_element windowSize f vs) v) =
      middle nth_element (take (md_count g) (md_buffer g))"
    unfolding g_def split by (simp add: MedianFilter_update_def Let_def)
  also have "\<dots> = median (take (md_count g) (md_buffer g))"
    using selection.middle_sorted [OF assms(1)] ring_window [OF assms(2) r] assms(2) r
    unfolding median_def by (intro selection.middle_sorted [OF assms(1)]) (auto simp: ring_def)
  also have "\<dots> = median (window windowSize (vs @ [v]))" using ring_window(1) [OF assms(2) r] by (rule median_cong)
  finally show ?thesis .
qed

theorem median_filter_is_median_witness:
  "snd (MedianFilter_update (\<lambda>k. sort) 3 (md_run (\<lambda>k. sort) 3 (MedianFilter_new 3) [7, 1, 5 :: rat]) 2) = 2"
proof -
  have "sort [1, 5, 2 :: rat] = [1, 2, 5]" by simp
  then show ?thesis
    using median_filter_is_median [OF sorting.selection_axioms, of 3 "MedianFilter_new 3" "[7, 1, 5 :: rat]" 2]
    by (simp add: window_def median_def)
qed

section \<open>The recursive filters stay in the range of their input\<close>

fun outputs :: "('s \<Rightarrow> 'i \<Rightarrow> ('s \<times> 'o) option) \<Rightarrow> 's \<Rightarrow> 'i list \<Rightarrow> 'o list option" where
  "outputs upd f [] = Some []"
| "outputs upd f (v # vs) =
    (case upd f v of None \<Rightarrow> None | Some (f, y) \<Rightarrow> map_option (Cons y) (outputs upd f vs))"

text \<open>A filter whose update keeps an invariant on the inputs it expects, and returns values of a set.\<close>

locale safe_filter =
  fixes upd :: "'s \<Rightarrow> 'i \<Rightarrow> ('s \<times> 'o) option" and inv :: "'s \<Rightarrow> bool" and ins :: "'i set" and outs :: "'o set"
  assumes upd_keeps: "inv f \<Longrightarrow> v \<in> ins \<Longrightarrow> \<exists>g y. upd f v = Some (g, y) \<and> inv g \<and> y \<in> outs"
begin

lemma outputs_in:
  assumes "inv f" "set vs \<subseteq> ins"
  shows "\<exists>ys. outputs upd f vs = Some ys \<and> length ys = length vs \<and> set ys \<subseteq> outs"
  using assms
proof (induction vs arbitrary: f)
  case (Cons v vs)
  then obtain g y where g: "upd f v = Some (g, y)" "inv g" "y \<in> outs" using upd_keeps [of f v] by auto
  then show ?case using Cons.IH [of g] Cons.prems by auto
qed simp

end

lemma between:
  fixes a l v :: "'a::linordered_field"
  assumes "0 \<le> a" "a \<le> 1" "l \<in> {lo..hi}" "v \<in> {lo..hi}"
  shows "l + a * (v - l) \<in> {lo..hi}"
proof -
  have e: "l + a * (v - l) = (1 - a) * l + a * v" by (simp add: algebra_simps)
  have "lo \<le> (1 - a) * l + a * v" "(1 - a) * l + a * v \<le> hi"
    using convex_bound_le [of l hi v "1 - a" a] convex_bound_le [of "- l" "- lo" "- v" "1 - a" a] assms
    by (auto simp: algebra_simps)
  then show ?thesis by (simp add: e)
qed

lemma ratio_unit: "0 < t \<Longrightarrow> 0 \<le> d \<Longrightarrow> 0 \<le> d / (d + t) \<and> d / (d + t) \<le> 1" for d t :: "'a::linordered_field"
  by simp

definition ema_inv :: "'a::linordered_field \<Rightarrow> 'a \<Rightarrow> 'a ExponentialMovingAverage \<Rightarrow> bool" where
  "ema_inv lo hi f \<longleftrightarrow> 0 \<le> alpha f \<and> alpha f \<le> 1 \<and> (ema_initialized f \<longrightarrow> ema_last f \<in> {lo..hi})"

definition lp_inv :: "'a::linordered_field \<Rightarrow> 'a \<Rightarrow> 'a FirstOrderLowPass \<Rightarrow> bool" where
  "lp_inv lo hi f \<longleftrightarrow> 0 < lp_cutoff_hz f \<and> lp_last f \<in> {lo..hi}"

definition kalman_inv :: "'a::linordered_field \<Rightarrow> 'a \<Rightarrow> 'a KalmanFilter \<Rightarrow> bool" where
  "kalman_inv lo hi f \<longleftrightarrow> 0 \<le> processNoise f \<and> 0 < measurementNoise f \<and> 0 \<le> estimationError f \<and> lastEstimate f \<in> {lo..hi}"

lemma time_constant_positive: "0 < c \<Longrightarrow> 0 < time_constant c"
  by (simp add: time_constant_def pi_const_def)

interpretation ema: safe_filter "\<lambda>f v. Some (ExponentialMovingAverage_update f v)" "ema_inv lo hi" "{lo..hi}" "{lo..hi}"
  for lo hi :: "'a::linordered_field"
proof
  fix f :: "'a ExponentialMovingAverage" and v
  assume f: "ema_inv lo hi f" and v: "v \<in> {lo..hi}"
  have "alpha f * v + (1 - alpha f) * ema_last f \<in> {lo..hi}" if "ema_initialized f"
    using between [of "alpha f" "ema_last f" lo hi v] f v that by (simp add: ema_inv_def algebra_simps)
  then show "\<exists>g y. Some (ExponentialMovingAverage_update f v) = Some (g, y) \<and> ema_inv lo hi g \<and> y \<in> {lo..hi}"
    using f v by (auto simp: ExponentialMovingAverage_update_def ema_inv_def Let_def)
qed

interpretation low_pass: safe_filter "\<lambda>f (v, dt). FirstOrderLowPass_update f v dt" "lp_inv lo hi" "{lo..hi} \<times> UNIV" "{lo..hi}"
  for lo hi :: "'a::linordered_field"
proof
  fix f :: "'a FirstOrderLowPass" and s :: "'a \<times> 'a"
  assume f: "lp_inv lo hi f" and s: "s \<in> {lo..hi} \<times> UNIV"
  obtain v dt where vd: "s = (v, dt)" by (cases s)
  have t: "0 < time_constant (lp_cutoff_hz f)" using f by (simp add: lp_inv_def time_constant_positive)
  let ?a = "dt / (time_constant (lp_cutoff_hz f) + dt)"
  have "lp_last f + ?a * (v - lp_last f) \<in> {lo..hi}" if "0 < dt"
    using between [of ?a "lp_last f" lo hi v] ratio_unit [OF t, of dt] f s vd that by (simp add: lp_inv_def add.commute)
  moreover have "time_constant (lp_cutoff_hz f) + dt \<noteq> 0" if "0 < dt" using t that by (metis add_pos_pos less_irrefl)
  ultimately show "\<exists>g y. (case s of (v, dt) \<Rightarrow> FirstOrderLowPass_update f v dt) = Some (g, y) \<and> lp_inv lo hi g \<and> y \<in> {lo..hi}"
    using f s vd by (auto simp: FirstOrderLowPass_update_def lp_inv_def Let_def not_le)
qed

interpretation kalman: safe_filter KalmanFilter_update "kalman_inv lo hi" "{lo..hi}" "{lo..hi}"
  for lo hi :: "'a::linordered_field"
proof
  fix f :: "'a KalmanFilter" and v
  assume f: "kalman_inv lo hi f" and v: "v \<in> {lo..hi}"
  define err where "err = estimationError f + processNoise f"
  have e: "0 \<le> err" "0 < measurementNoise f" using f by (simp_all add: kalman_inv_def err_def)
  let ?k = "err / (err + measurementNoise f)"
  have k: "0 \<le> ?k" "?k \<le> 1" using ratio_unit [OF e(2,1)] by simp_all
  have "lastEstimate f + ?k * (v - lastEstimate f) \<in> {lo..hi}"
    using between [OF k, of "lastEstimate f" lo hi v] f v by (simp add: kalman_inv_def)
  moreover have "0 \<le> (1 - ?k) * err" using k e by (intro mult_nonneg_nonneg) simp_all
  moreover have "err + measurementNoise f \<noteq> 0" using e by simp
  ultimately show "\<exists>g y. KalmanFilter_update f v = Some (g, y) \<and> kalman_inv lo hi g \<and> y \<in> {lo..hi}"
    using f unfolding err_def by (auto simp: KalmanFilter_update_def kalman_inv_def Let_def)
qed

text \<open>
  While the samples stay between two bounds, so does every value that the recursive filters
  return, and they always return one: the exponential moving average with a factor between 0 and 1,
  the low-pass filter with a positive cutoff frequency, whatever the times between the samples and with an initial
  value inside of the bounds, and the Kalman filter with a positive measurement noise, which starts at 0.
\<close>
theorem filters_stay_in_range:
  fixes lo hi :: "'a::linordered_field"
  assumes "set vs \<subseteq> {lo..hi}"
    and "0 \<le> a" "a \<le> 1"
    and "0 < cutoff_hz" "ini \<in> {lo..hi}" "length dts = length vs"
    and "0 \<le> p" "0 < m" "0 \<le> e" "0 \<in> {lo..hi}"
  shows "(\<exists>ys. outputs (\<lambda>f v. Some (ExponentialMovingAverage_update f v)) (ExponentialMovingAverage_new a) vs = Some ys \<and>
        length ys = length vs \<and> set ys \<subseteq> {lo..hi}) \<and>
      (\<exists>ys. outputs (\<lambda>f (v, dt). FirstOrderLowPass_update f v dt) (FirstOrderLowPass_new cutoff_hz ini) (zip vs dts) = Some ys \<and>
        length ys = length vs \<and> set ys \<subseteq> {lo..hi}) \<and>
      (\<exists>ys. outputs KalmanFilter_update (KalmanFilter_new p m e) vs = Some ys \<and>
        length ys = length vs \<and> set ys \<subseteq> {lo..hi})"
proof (intro conjI)
  show "\<exists>ys. outputs (\<lambda>f v. Some (ExponentialMovingAverage_update f v)) (ExponentialMovingAverage_new a) vs = Some ys \<and>
      length ys = length vs \<and> set ys \<subseteq> {lo..hi}"
    using assms by (intro ema.outputs_in) (simp_all add: ema_inv_def ExponentialMovingAverage_new_def)
  have "lp_inv lo hi (FirstOrderLowPass_new cutoff_hz ini)" using assms by (simp add: lp_inv_def FirstOrderLowPass_new_def)
  moreover have "set (zip vs dts) \<subseteq> {lo..hi} \<times> UNIV" using assms(1) by (auto dest: set_zip_leftD)
  ultimately show "\<exists>ys. outputs (\<lambda>f (v, dt). FirstOrderLowPass_update f v dt) (FirstOrderLowPass_new cutoff_hz ini) (zip vs dts) =
      Some ys \<and> length ys = length vs \<and> set ys \<subseteq> {lo..hi}"
    using low_pass.outputs_in [of lo hi _ "zip vs dts"] assms(6) by simp
  show "\<exists>ys. outputs KalmanFilter_update (KalmanFilter_new p m e) vs = Some ys \<and> length ys = length vs \<and> set ys \<subseteq> {lo..hi}"
    using assms by (intro kalman.outputs_in) (simp_all add: kalman_inv_def KalmanFilter_new_def)
qed

theorem filters_stay_in_range_witness:
  "(\<exists>ys. outputs (\<lambda>f v. Some (ExponentialMovingAverage_update f v)) (ExponentialMovingAverage_new (1 / 10)) [5, 1, 4 :: rat] = Some ys \<and>
    length ys = 3 \<and> set ys \<subseteq> {0..5}) \<and>
   (\<exists>ys. outputs (\<lambda>f (v, dt). FirstOrderLowPass_update f v dt) (FirstOrderLowPass_new 1 0) (zip [5, 1, 4 :: rat] [1, 2, 0]) = Some ys \<and>
    length ys = 3 \<and> set ys \<subseteq> {0..5}) \<and>
   (\<exists>ys. outputs KalmanFilter_update (KalmanFilter_new 1 2 3) [5, 1, 4 :: rat] = Some ys \<and> length ys = 3 \<and> set ys \<subseteq> {0..5})"
proof -
  have "length [5, 1, 4 :: rat] = 3" "set [5, 1, 4 :: rat] \<subseteq> {0..5}" by simp_all
  then show ?thesis
    using filters_stay_in_range [of "[5, 1, 4 :: rat]" 0 5 "1 / 10" 1 0 "[1, 2, 0]" 1 2 3] by (simp add: numeral_3_eq_3 del: outputs.simps zip_Cons_Cons)
qed

section \<open>What the documentation says otherwise\<close>

text \<open>The value handed to \<open>reset\<close> is the initial value of the filter in the documentation; the next update forgets
  it, as it forgets the initial value of the constructor.\<close>

lemma reset_value_ignored:
  "ExponentialMovingAverage_update (ExponentialMovingAverage_reset f u) v = ExponentialMovingAverage_update (ExponentialMovingAverage_reset f w) v"
  "0 < dt \<Longrightarrow> FirstOrderLowPass_update (FirstOrderLowPass_new c u) v dt = FirstOrderLowPass_update (FirstOrderLowPass_new c w) v dt"
  "0 < dt \<Longrightarrow> FirstOrderLowPass_update (FirstOrderLowPass_reset g u) v dt = FirstOrderLowPass_update (FirstOrderLowPass_reset g w) v dt"
  "0 < dt \<Longrightarrow> FirstOrderHighPass_update (FirstOrderHighPass_reset h u) v dt = FirstOrderHighPass_update (FirstOrderHighPass_reset h w) v dt"
  by (auto simp: ExponentialMovingAverage_update_def ExponentialMovingAverage_reset_def FirstOrderLowPass_update_def
      FirstOrderLowPass_new_def FirstOrderLowPass_reset_def FirstOrderHighPass_update_def FirstOrderHighPass_reset_def Let_def)

text \<open>A high-pass filter lets nothing of a constant signal through.\<close>

definition hp_quiet :: "'a::linordered_field \<Rightarrow> 'a FirstOrderHighPass \<Rightarrow> bool" where
  "hp_quiet c f \<longleftrightarrow> 0 < hp_cutoff_hz f \<and> hp_last_y f = 0 \<and> (hp_initialized f \<longrightarrow> hp_last_x f = c)"

interpretation high_pass: safe_filter "\<lambda>f (v, dt). FirstOrderHighPass_update f v dt" "hp_quiet c" "{c} \<times> UNIV" "{0}"
  for c :: "'a::linordered_field"
proof
  fix f :: "'a FirstOrderHighPass" and s :: "'a \<times> 'a"
  assume f: "hp_quiet c f" and s: "s \<in> {c} \<times> UNIV"
  obtain dt where vd: "s = (c, dt)" using s by (cases s) auto
  have "0 < time_constant (hp_cutoff_hz f)" using f by (simp add: hp_quiet_def time_constant_positive)
  then have "time_constant (hp_cutoff_hz f) + dt \<noteq> 0" if "0 < dt" using that by (metis add_pos_pos less_irrefl)
  then show "\<exists>g y. (case s of (v, dt) \<Rightarrow> FirstOrderHighPass_update f v dt) = Some (g, y) \<and> hp_quiet c g \<and> y \<in> {0}"
    using f vd by (auto simp: FirstOrderHighPass_update_def hp_quiet_def Let_def not_le)
qed

lemma high_pass_blocks_constant:
  assumes "0 < cutoff_hz"
  shows "outputs (\<lambda>f (v, dt). FirstOrderHighPass_update f v dt) (FirstOrderHighPass_new cutoff_hz 0) (map (Pair c) dts) =
    Some (replicate (length dts) 0)"
proof -
  have "hp_quiet c (FirstOrderHighPass_new cutoff_hz 0)" using assms by (simp add: hp_quiet_def FirstOrderHighPass_new_def)
  then obtain ys where "outputs (\<lambda>f (v, dt). FirstOrderHighPass_update f v dt) (FirstOrderHighPass_new cutoff_hz 0)
      (map (Pair c) dts) = Some ys" "length ys = length dts" "set ys \<subseteq> {0}"
    using high_pass.outputs_in [of c _ "map (Pair c) dts"] by force
  then show ?thesis by (metis replicate_eqI singletonD subsetD)
qed

end
