(* ===== verification/Bme280.thy ===== *)
theory Bme280
  imports C_Io Complex_Main "HOL-Library.Signed_Division"
begin

text \<open>
  The pressure, temperature and humidity sensor driver of Common/BME280.c.  The bus functions are
  recorded as calls, and their answers are a parameter.  The compensation formulas work on signed integers of
  32 and 64 bits; every sum, difference, product and left shift is checked, and an overflow, which
  is undefined in C, has no value.  A right shift of a negative number rounds down, as all
  compilers for the supported processors do.
\<close>

section \<open>The model\<close>

definition BME280_PRESS_MSB :: u8 where "BME280_PRESS_MSB = 0xF7"
definition BME280_CTRL_MEAS :: u8 where "BME280_CTRL_MEAS = 0xF4"
definition BME280_STATUS :: u8 where "BME280_STATUS = 0xF3"
definition BME280_CTRL_HUM :: u8 where "BME280_CTRL_HUM = 0xF2"
definition BME280_ID :: u8 where "BME280_ID = 0xD0"
definition BME280_BUSY :: u8 where "BME280_BUSY = 0x10"

datatype chip_type = ID_WRONG | BMP280 | BME280

text \<open>The members \<open>t2\<close> to \<open>p9\<close> without \<open>p1\<close>, \<open>h2\<close>, \<open>h4\<close>, \<open>h5\<close> and \<open>h6\<close> are signed.\<close>

record bme280_const =
  cal_t1 :: u16
  cal_t2 :: u16
  cal_t3 :: u16
  cal_p1 :: u16
  cal_p2 :: u16
  cal_p3 :: u16
  cal_p4 :: u16
  cal_p5 :: u16
  cal_p6 :: u16
  cal_p7 :: u16
  cal_p8 :: u16
  cal_p9 :: u16
  cal_h1 :: u8
  cal_h2 :: u16
  cal_h3 :: u8
  cal_h4 :: u16
  cal_h5 :: u16
  cal_h6 :: u8

text \<open>The results are quotients of integers in \<open>double\<close>, here exact.\<close>

record bme280_t =
  humidity :: rat
  pressure :: u32
  sea_level_pressure :: u32
  temperature :: rat
  humidity_oversampling :: u8
  pressure_oversampling :: u8
  temperature_oversampling :: u8
  calibration :: bme280_const
  chip :: chip_type

datatype bme_call = Bme_wr u8 u8 | Bme_rd u8 nat

record bme_io = "bme_call io" +
  bme :: bme280_t
  t_fine :: int

text \<open>What the bus function returns and what the buffer holds after the call.\<close>

record bme_chip =
  bme_status :: "nat \<Rightarrow> u8"
  bme_bytes :: "nat \<Rightarrow> nat \<Rightarrow> u8"

type_synonym 'a bme_m = "(bme_io, 'a) state"

definition the_bme :: "bme280_t bme_m" where
  "the_bme = State (\<lambda>s. (bme s, s))"

definition set_bme :: "(bme280_t \<Rightarrow> bme280_t) \<Rightarrow> unit bme_m" where
  "set_bme f = State (\<lambda>s. ((), s\<lparr>bme := f (bme s)\<rparr>))"

definition get_t_fine :: "int bme_m" where
  "get_t_fine = State (\<lambda>s. (t_fine s, s))"

definition set_t_fine :: "int \<Rightarrow> unit bme_m" where
  "set_t_fine t = State (\<lambda>s. ((), s\<lparr>t_fine := t\<rparr>))"

lemma run_bme [run_simps]:
  "run_state the_bme s = (bme s, s)" "run_state (set_bme f) s = ((), s\<lparr>bme := f (bme s)\<rparr>)"
  "run_state get_t_fine s = (t_fine s, s)" "run_state (set_t_fine t) s = ((), s\<lparr>t_fine := t\<rparr>)"
  by (simp_all add: the_bme_def set_bme_def get_t_fine_def set_t_fine_def)

definition bme_read :: "bme_chip \<Rightarrow> u8 \<Rightarrow> nat \<Rightarrow> (u8 \<times> u8 list) bme_m" where
  "bme_read hw reg n = ask (\<lambda>i. (bme_status hw i, map (bme_bytes hw i) [0..<n])) (Bme_rd reg n)"

definition bme_write :: "bme_chip \<Rightarrow> u8 \<Rightarrow> u8 \<Rightarrow> u8 bme_m" where
  "bme_write hw reg v = ask (bme_status hw) (Bme_wr reg v)"

definition bme280_check_id :: "bme_chip \<Rightarrow> chip_type bme_m" where
  "bme280_check_id hw = do {
     (r, bs) \<leftarrow> bme_read hw BME280_ID 1;
     State_Monad.return
       (if r \<noteq> 0 then ID_WRONG
        else if bs ! 0 = 0x58 then BMP280
        else if bs ! 0 = 0x60 then BME280
        else ID_WRONG)
   }"

definition check_busy :: "bme_chip \<Rightarrow> u8 bme_m" where
  "check_busy hw = do {
     (r, bs) \<leftarrow> bme_read hw BME280_STATUS 1;
     State_Monad.return (bs ! 0 AND push_bit 3 1)
   }"

text \<open>The integers that 32 and 64 bits hold.\<close>

definition s32 :: "int \<Rightarrow> int option" where
  "s32 x = (if - (2 ^ 31) \<le> x \<and> x < 2 ^ 31 then Some x else None)"

definition s64 :: "int \<Rightarrow> int option" where
  "s64 x = (if - (2 ^ 63) \<le> x \<and> x < 2 ^ 63 then Some x else None)"

text \<open>The new value of \<open>t_fine\<close> and the temperature in hundredths of a degree.\<close>

definition compensate_t_int32 :: "bme280_const \<Rightarrow> int \<Rightarrow> (int \<times> int) option" where
  "compensate_t_int32 c adc_t = do {
     d1 \<leftarrow> s32 (adc_t div 2 ^ 3 - uint (cal_t1 c) * 2);
     m1 \<leftarrow> s32 (d1 * sint (cal_t2 c));
     d2 \<leftarrow> s32 (adc_t div 2 ^ 4 - uint (cal_t1 c));
     q \<leftarrow> s32 (d2 * d2);
     m2 \<leftarrow> s32 (q div 2 ^ 12 * sint (cal_t3 c));
     t \<leftarrow> s32 (m1 div 2 ^ 11 + m2 div 2 ^ 14);
     t5 \<leftarrow> s32 (t * 5);
     r \<leftarrow> s32 (t5 + 128);
     Some (t, r div 2 ^ 8)
   }"

text \<open>The pressure formula up to the test for zero, and behind it.\<close>

definition compensate_p_vars :: "bme280_const \<Rightarrow> int \<Rightarrow> (int \<times> int) option" where
  "compensate_p_vars c t = do {
     v \<leftarrow> s64 (t - 128000);
     vv \<leftarrow> s64 (v * v);
     a6 \<leftarrow> s64 (vv * sint (cal_p6 c));
     v5 \<leftarrow> s64 (v * sint (cal_p5 c));
     a5 \<leftarrow> s64 (v5 * 2 ^ 17);
     b \<leftarrow> s64 (a6 + a5);
     a4 \<leftarrow> s64 (sint (cal_p4 c) * 2 ^ 35);
     var2 \<leftarrow> s64 (b + a4);
     a3 \<leftarrow> s64 (vv * sint (cal_p3 c));
     v2 \<leftarrow> s64 (v * sint (cal_p2 c));
     a2 \<leftarrow> s64 (v2 * 2 ^ 12);
     w \<leftarrow> s64 (a3 div 2 ^ 8 + a2);
     w1 \<leftarrow> s64 (2 ^ 47 + w);
     w2 \<leftarrow> s64 (w1 * uint (cal_p1 c));
     Some (w2 div 2 ^ 33, var2)
   }"

definition compensate_p_value :: "bme280_const \<Rightarrow> int \<Rightarrow> int \<Rightarrow> int \<Rightarrow> u32 option" where
  "compensate_p_value c var1 var2 adc_p = do {
     p0 \<leftarrow> s64 ((1048576 - adc_p) * 2 ^ 31);
     n \<leftarrow> s64 (p0 - var2);
     n' \<leftarrow> s64 (n * 3125);
     p \<leftarrow> s64 (n' sdiv var1);
     x \<leftarrow> s64 (sint (cal_p9 c) * (p div 2 ^ 13));
     x' \<leftarrow> s64 (x * (p div 2 ^ 13));
     y \<leftarrow> s64 (sint (cal_p8 c) * p);
     z \<leftarrow> s64 (p + x' div 2 ^ 25);
     z' \<leftarrow> s64 (z + y div 2 ^ 19);
     r \<leftarrow> s64 (z' div 2 ^ 8 + sint (cal_p7 c) * 2 ^ 4);
     Some (word_of_int r)
   }"

definition compensate_p_int64 :: "bme280_const \<Rightarrow> int \<Rightarrow> int \<Rightarrow> u32 option" where
  "compensate_p_int64 c t adc_p = do {
     (var1, var2) \<leftarrow> compensate_p_vars c t;
     if var1 = 0 then Some 0 else compensate_p_value c var1 var2 adc_p
   }"

definition compensate_h_int32 :: "bme280_const \<Rightarrow> int \<Rightarrow> int \<Rightarrow> u32 option" where
  "compensate_h_int32 c t adc_h = do {
     h \<leftarrow> s32 (t - 76800);
     a \<leftarrow> s32 (adc_h * 2 ^ 14);
     a4 \<leftarrow> s32 (sint (cal_h4 c) * 2 ^ 20);
     a \<leftarrow> s32 (a - a4);
     a5 \<leftarrow> s32 (sint (cal_h5 c) * h);
     a \<leftarrow> s32 (a - a5);
     a \<leftarrow> s32 (a + 16384);
     h6 \<leftarrow> s32 (h * sint (cal_h6 c));
     h3 \<leftarrow> s32 (h * uint (cal_h3 c));
     b \<leftarrow> s32 (h3 div 2 ^ 11 + 32768);
     b \<leftarrow> s32 (h6 div 2 ^ 10 * b);
     b \<leftarrow> s32 (b div 2 ^ 10 + 2097152);
     b \<leftarrow> s32 (b * sint (cal_h2 c));
     b \<leftarrow> s32 (b + 8192);
     hum \<leftarrow> s32 (a div 2 ^ 15 * (b div 2 ^ 14));
     q \<leftarrow> s32 (hum div 2 ^ 15 * (hum div 2 ^ 15));
     q \<leftarrow> s32 (q div 2 ^ 7 * uint (cal_h1 c));
     hum \<leftarrow> s32 (hum - q div 2 ^ 4);
     let hum = (if hum < 0 then 0 else hum);
         hum = (if hum > 419430400 then 419430400 else hum)
     in Some (word_of_int (hum div 2 ^ 12))
   }"

text \<open>The twelve values that lie in a row, low byte first.\<close>

definition read_row :: "u8 list \<Rightarrow> bme280_const \<Rightarrow> bme280_const" where
  "read_row bs c = (let w = \<lambda>i. le_word (take 2 (drop (2 * i) bs)) in
     c\<lparr>cal_t1 := w 0, cal_t2 := w 1, cal_t3 := w 2, cal_p1 := w 3, cal_p2 := w 4, cal_p3 := w 5,
       cal_p4 := w 6, cal_p5 := w 7, cal_p6 := w 8, cal_p7 := w 9, cal_p8 := w 10, cal_p9 := w 11\<rparr>)"

definition set_cal :: "(bme280_const \<Rightarrow> bme280_const) \<Rightarrow> unit bme_m" where
  "set_cal f = set_bme (\<lambda>d. d\<lparr>calibration := f (calibration d)\<rparr>)"

text \<open>\<open>junk\<close> is what the local buffer holds before anything is stored there.\<close>

definition bme280_init :: "(nat \<Rightarrow> u8) \<Rightarrow> bme_chip \<Rightarrow> u8 bme_m" where
  "bme280_init junk hw = do {
     id \<leftarrow> bme280_check_id hw;
     set_bme (\<lambda>d. d\<lparr>chip := id\<rparr>);
     if id = ID_WRONG then State_Monad.return 1
     else do {
       set_bme (\<lambda>d. d\<lparr>sea_level_pressure := 101325\<rparr>);
       (ret, bs) \<leftarrow> bme_read hw 0x88 24;
       set_cal (read_row bs);
       if ret \<noteq> 0 then State_Monad.return ret
       else do {
         (_, bs) \<leftarrow> bme_read hw 0xA1 1;
         set_cal (\<lambda>c. c\<lparr>cal_h1 := bs ! 0\<rparr>);
         (_, bs) \<leftarrow> bme_read hw 0xE1 2;
         set_cal (\<lambda>c. c\<lparr>cal_h2 := le_word bs\<rparr>);
         (_, bs) \<leftarrow> bme_read hw 0xE3 1;
         set_cal (\<lambda>c. c\<lparr>cal_h3 := bs ! 0\<rparr>);
         (_, bs) \<leftarrow> bme_read hw 0xE7 1;
         set_cal (\<lambda>c. c\<lparr>cal_h6 := bs ! 0\<rparr>);
         (_, bs) \<leftarrow> bme_read hw 0xE4 1;
         set_cal (\<lambda>c. c\<lparr>cal_h4 := (ucast (junk 1) AND 0x07) OR push_bit 4 (ucast (bs ! 0)),
           cal_h5 := (ucast (junk 2) AND 0x07) OR push_bit 4 (ucast (junk 3))\<rparr>);
         d \<leftarrow> the_bme;
         _ \<leftarrow> bme_write hw BME280_CTRL_MEAS (push_bit 5 (temperature_oversampling d) OR push_bit 2 (pressure_oversampling d) OR 3);
         _ \<leftarrow> bme_write hw BME280_CTRL_HUM (humidity_oversampling d);
         State_Monad.return ret
       }
     }
   }"

text \<open>A big-endian number of 20 bits in three bytes.\<close>

definition adc20 :: "u8 \<Rightarrow> u8 \<Rightarrow> u8 \<Rightarrow> int" where
  "adc20 msb lsb xlsb = (uint xlsb + uint lsb * 2 ^ 8 + uint msb * 2 ^ 16) div 2 ^ 4"

definition bme280_get_result :: "bme_chip \<Rightarrow> u8 option bme_m" where
  "bme280_get_result hw = do {
     ret \<leftarrow> check_busy hw;
     if ret \<noteq> 0 then State_Monad.return (Some BME280_BUSY)
     else do {
       (_, buf) \<leftarrow> bme_read hw BME280_PRESS_MSB 8;
       d \<leftarrow> the_bme;
       case compensate_t_int32 (calibration d) (adc20 (buf ! 3) (buf ! 4) (buf ! 5)) of
         None \<Rightarrow> State_Monad.return None
       | Some (t, temp) \<Rightarrow> do {
           set_t_fine t;
           set_bme (\<lambda>d. d\<lparr>temperature := of_int temp / 100\<rparr>);
           case compensate_p_int64 (calibration d) t (adc20 (buf ! 0) (buf ! 1) (buf ! 2)) of
             None \<Rightarrow> State_Monad.return None
           | Some p \<Rightarrow> do {
               set_bme (\<lambda>d. d\<lparr>pressure := drop_bit 8 p\<rparr>);
               if chip d = BME280 then
                 case compensate_h_int32 (calibration d) t (uint (buf ! 7) + uint (buf ! 6) * 2 ^ 8) of
                   None \<Rightarrow> State_Monad.return None
                 | Some h \<Rightarrow> do {
                     set_bme (\<lambda>d. d\<lparr>humidity := of_int (uint h) / 1024\<rparr>);
                     State_Monad.return (Some ret)
                   }
               else State_Monad.return (Some ret)
             }
         }
     }
   }"

definition bme280_calibrate_sea_level :: "bme_chip \<Rightarrow> u8 option bme_m" where
  "bme280_calibrate_sea_level hw = do {
     ret \<leftarrow> bme280_get_result hw;
     if ret \<noteq> Some 0 then State_Monad.return ret
     else do {
       set_bme (\<lambda>d. d\<lparr>sea_level_pressure := pressure d\<rparr>);
       State_Monad.return ret
     }
   }"

definition bme280_altitude :: "bme280_t \<Rightarrow> real" where
  "bme280_altitude d = 44330 * (1 - (real (unat (pressure d)) / real (unat (sea_level_pressure d))) powr 0.190295)"

text \<open>The cast to 16 bits comes before the division.\<close>

definition bme280_mmHg :: "bme280_t \<Rightarrow> u16 option" where
  "bme280_mmHg d =
     (if sea_level_pressure d = 0 then None
      else Some (ucast (ucast (ucast (pressure d * 760) :: u16) div sea_level_pressure d)))"

text \<open>The calibration values that the data sheet uses as its example.\<close>

definition bme_cal_sample :: bme280_const where
  "bme_cal_sample = \<lparr>cal_t1 = 27504, cal_t2 = 26435, cal_t3 = - 1000, cal_p1 = 36477, cal_p2 = - 10685, cal_p3 = 3024,
     cal_p4 = 2855, cal_p5 = 140, cal_p6 = - 7, cal_p7 = 15500, cal_p8 = - 14600, cal_p9 = 6000,
     cal_h1 = 75, cal_h2 = 370, cal_h3 = 0, cal_h4 = 313, cal_h5 = 50, cal_h6 = 30\<rparr>"

section \<open>Bounds\<close>

lemma sint_u16: "\<bar>sint (w :: u16)\<bar> \<le> 2 ^ 15"
  using sint_ge [of w] sint_lt [of w] by (simp add: abs_le_iff)

lemma uint_u16: "uint (w :: u16) < 2 ^ 16" "0 \<le> uint w"
  using uint_bounded [of w] by simp_all

lemma mult_bound: "\<bar>a\<bar> \<le> A \<Longrightarrow> \<bar>b\<bar> \<le> B \<Longrightarrow> \<bar>a * b\<bar> \<le> A * B" for a b :: "'a::linordered_idom"
  by (simp add: abs_mult mult_mono')

lemma div_bound:
  fixes a k :: int
  assumes "\<bar>a\<bar> \<le> A * k" "0 < k"
  shows "\<bar>a div k\<bar> \<le> A"
proof -
  have "a div k \<le> (A * k) div k" "(- A * k) div k \<le> a div k"
    using assms by (intro zdiv_mono1; simp)+
  moreover have "(A * k) div k = A" "(- A * k) div k = - A" using assms(2) by (simp_all only: nonzero_mult_div_cancel_right less_imp_neq [symmetric] not_False_eq_True)
  ultimately show ?thesis by linarith
qed

lemma s32_Some: "s32 x = Some y \<Longrightarrow> y = x"
  by (simp add: s32_def split: if_splits)

lemma s32_fits: "\<bar>x\<bar> < 2 ^ 31 \<Longrightarrow> s32 x = Some x"
  by (auto simp: s32_def)

lemma s64_fits: "\<bar>x\<bar> < 2 ^ 63 \<Longrightarrow> s64 x = Some x"
  by (auto simp: s64_def)

section \<open>Temperature\<close>

text \<open>The formula that the data sheet of the sensor gives in real numbers, in degrees.\<close>

definition t_real :: "bme280_const \<Rightarrow> int \<Rightarrow> real" where
  "t_real c adc_t =
     (let t1 = of_int (uint (cal_t1 c)); t2 = of_int (sint (cal_t2 c)); t3 = of_int (sint (cal_t3 c)); a = of_int adc_t
      in ((a / 16384 - t1 / 1024) * t2 + (a / 131072 - t1 / 8192)\<^sup>2 * t3) / 5120)"

text \<open>A right shift rounds down by less than one.\<close>

lemma shift_error: "0 < k \<Longrightarrow> \<bar>real_of_int (x div k) - real_of_int x / real_of_int k\<bar> \<le> 1"
  using real_of_int_div3 [of x k] real_of_int_div4 [of x k] by linarith

lemma var1_error:
  fixes t2 :: int
  assumes "\<bar>t2\<bar> \<le> 2 ^ 15"
  shows "\<bar>real_of_int ((adc div 2 ^ 3 - t1 * 2) * t2 div 2 ^ 11) - (of_int adc / 16384 - of_int t1 / 1024) * of_int t2\<bar> \<le> 17"
proof -
  define e where "e = real_of_int (adc div 2 ^ 3) - real_of_int adc / 8"
  define m where "m = (adc div 2 ^ 3 - t1 * 2) * t2"
  have "\<bar>e\<bar> \<le> 1" using shift_error [of "2 ^ 3" adc] by (simp add: e_def)
  moreover have "\<bar>real_of_int t2\<bar> \<le> 2 ^ 15" using assms by simp
  ultimately have "\<bar>e * of_int t2\<bar> \<le> 1 * 2 ^ 15" by (rule mult_bound)
  moreover have "real_of_int m / 2 ^ 11 - (of_int adc / 16384 - of_int t1 / 1024) * of_int t2 = e * of_int t2 / 2 ^ 11"
    by (simp add: m_def e_def field_simps)
  ultimately have "\<bar>real_of_int m / 2 ^ 11 - (of_int adc / 16384 - of_int t1 / 1024) * of_int t2\<bar> \<le> 16" by (simp add: abs_le_iff)
  then show ?thesis using shift_error [of "2 ^ 11" m] unfolding m_def by simp linarith
qed

lemma var2_error:
  fixes t3 :: int
  assumes "\<bar>t3\<bar> \<le> 8191" "\<bar>adc div 2 ^ 4 - t1\<bar> \<le> 32767"
  shows "\<bar>real_of_int ((adc div 2 ^ 4 - t1) * (adc div 2 ^ 4 - t1) div 2 ^ 12 * t3 div 2 ^ 14) -
    (of_int adc / 131072 - of_int t1 / 8192)\<^sup>2 * of_int t3\<bar> \<le> 19 / 2"
proof -
  define d where "d = adc div 2 ^ 4 - t1"
  define e where "e = real_of_int (adc div 2 ^ 4) - real_of_int adc / 16"
  define q where "q = d * d div 2 ^ 12"
  have e: "\<bar>e\<bar> \<le> 1" using shift_error [of "2 ^ 4" adc] by (simp add: e_def)
  have t3: "\<bar>real_of_int t3\<bar> \<le> 8191" and d: "\<bar>real_of_int d\<bar> \<le> 32767" using assms by (simp_all add: d_def)
  have "\<bar>2 * of_int d - e\<bar> \<le> 65535" using e d by linarith
  from mult_bound [OF mult_bound [OF e this] t3]
  have "\<bar>e * (2 * of_int d - e) * of_int t3 / 2 ^ 26\<bar> \<le> 8" by (simp add: abs_le_iff)
  moreover have "real_of_int (d * d) * of_int t3 / 2 ^ 26 - (of_int adc / 131072 - of_int t1 / 8192)\<^sup>2 * of_int t3 =
      e * (2 * of_int d - e) * of_int t3 / 2 ^ 26"
    by (simp add: d_def e_def field_simps power2_eq_square)
  moreover have "\<bar>(real_of_int q - of_int (d * d) / 2 ^ 12) * of_int t3\<bar> \<le> 1 * 8191"
    using shift_error [of "2 ^ 12" "d * d"] t3 by (intro mult_bound) (simp_all add: q_def)
  then have "\<bar>real_of_int (q * t3) / 2 ^ 14 - of_int (d * d) * of_int t3 / 2 ^ 26\<bar> \<le> 1 / 2"
    by (simp add: abs_le_iff field_simps)
  moreover have "\<bar>real_of_int (q * t3 div 2 ^ 14) - of_int (q * t3) / 2 ^ 14\<bar> \<le> 1"
    using shift_error [of "2 ^ 14" "q * t3"] by simp
  ultimately have "\<bar>real_of_int (q * t3 div 2 ^ 14) - (of_int adc / 131072 - of_int t1 / 8192)\<^sup>2 * of_int t3\<bar> \<le> 19 / 2"
    by linarith
  then show ?thesis by (simp add: q_def d_def)
qed

text \<open>
  C33: When the reading is at most 32767 away from the calibration value \<open>t1\<close> and \<open>t3\<close> is at most 8191,
  \<open>compensate_t_int32\<close> overflows nowhere, and its temperature is within 0.011 degrees of the
  formula in real numbers.
\<close>
theorem bme280_temperature_accurate:
  assumes "\<bar>adc_t div 2 ^ 4 - uint (cal_t1 c)\<bar> \<le> 32767" "\<bar>sint (cal_t3 c)\<bar> \<le> 8191"
  shows "\<exists>t temp. compensate_t_int32 c adc_t = Some (t, temp) \<and> \<bar>real_of_int temp / 100 - t_real c adc_t\<bar> \<le> 11 / 1000"
proof -
  let ?t1 = "uint (cal_t1 c)" and ?t2 = "sint (cal_t2 c)" and ?t3 = "sint (cal_t3 c)"
  let ?d1 = "adc_t div 2 ^ 3 - ?t1 * 2" and ?d2 = "adc_t div 2 ^ 4 - ?t1"
  define m1 where "m1 = ?d1 * ?t2 div 2 ^ 11"
  define m2 where "m2 = ?d2 * ?d2 div 2 ^ 12 * ?t3 div 2 ^ 14"
  define t where "t = m1 + m2"
  have d1: "\<bar>?d1\<bar> \<le> 65535" using assms(1) by (simp; presburger)
  have p1: "\<bar>?d1 * ?t2\<bar> \<le> 65535 * 2 ^ 15" using d1 sint_u16 by (rule mult_bound)
  have q: "\<bar>?d2 * ?d2\<bar> \<le> 32767 * 32767" using assms(1) assms(1) by (rule mult_bound)
  then have "\<bar>?d2 * ?d2 div 2 ^ 12\<bar> \<le> 262129" by (intro div_bound) simp_all
  from this assms(2) have p2: "\<bar>?d2 * ?d2 div 2 ^ 12 * ?t3\<bar> \<le> 262129 * 8191" by (rule mult_bound)
  have "\<bar>m1\<bar> \<le> 2 ^ 20" unfolding m1_def using p1 by (intro div_bound) simp_all
  moreover have "\<bar>m2\<bar> \<le> 2 ^ 18" unfolding m2_def using p2 by (intro div_bound) simp_all
  ultimately have t: "\<bar>t\<bar> \<le> 2 ^ 21" unfolding t_def by simp
  have "s32 ?d1 = Some ?d1" "s32 (?d1 * ?t2) = Some (?d1 * ?t2)" "s32 ?d2 = Some ?d2" "s32 (?d2 * ?d2) = Some (?d2 * ?d2)"
    "s32 (?d2 * ?d2 div 2 ^ 12 * ?t3) = Some (?d2 * ?d2 div 2 ^ 12 * ?t3)"
    by (rule s32_fits, rule le_less_trans, rule d1 p1 assms(1) q p2, simp)+
  moreover have "s32 t = Some t" "s32 (t * 5) = Some (t * 5)" "s32 (t * 5 + 128) = Some (t * 5 + 128)"
    using t by (simp_all add: s32_def abs_le_iff)
  ultimately have r: "compensate_t_int32 c adc_t = Some (t, (t * 5 + 128) div 2 ^ 8)"
    by (simp only: compensate_t_int32_def Option.bind.bind_lunit m1_def [symmetric] m2_def [symmetric] t_def [symmetric])
  define x where "x = (real_of_int adc_t / 16384 - of_int ?t1 / 1024) * of_int ?t2"
  define y where "y = (real_of_int adc_t / 131072 - of_int ?t1 / 8192)\<^sup>2 * of_int ?t3"
  have "\<bar>real_of_int m1 - x\<bar> \<le> 17" unfolding m1_def x_def by (rule var1_error [OF sint_u16])
  moreover have "\<bar>real_of_int m2 - y\<bar> \<le> 19 / 2" unfolding m2_def y_def by (rule var2_error [OF assms(2,1)])
  moreover have "t_real c adc_t = (x + y) / 5120" by (simp only: t_real_def Let_def x_def y_def)
  ultimately have "\<bar>real_of_int t - 5120 * t_real c adc_t\<bar> \<le> 53 / 2" unfolding t_def of_int_add by argo
  moreover define v where "v = real_of_int ((t * 5 + 128) div 2 ^ 8)"
  have "\<bar>v - (of_int t * 5 + 128) / 256\<bar> \<le> 1" "v \<le> (of_int t * 5 + 128) / 256"
    using shift_error [of "2 ^ 8" "t * 5 + 128"] real_of_int_div4 [of "t * 5 + 128" "2 ^ 8"] by (simp_all add: v_def)
  ultimately have "\<bar>v / 100 - t_real c adc_t\<bar> \<le> 11 / 1000" by argo
  then show ?thesis using r unfolding v_def by blast
qed

theorem bme280_temperature_accurate_witness:
  "\<exists>t temp. compensate_t_int32 bme_cal_sample 519888 = Some (t, temp) \<and> \<bar>real_of_int temp / 100 - t_real bme_cal_sample 519888\<bar> \<le> 11 / 1000"
proof -
  have "\<bar>519888 div 2 ^ 4 - uint (cal_t1 bme_cal_sample)\<bar> \<le> 32767" "\<bar>sint (cal_t3 bme_cal_sample)\<bar> \<le> 8191"
    by (simp_all add: bme_cal_sample_def)
  then show ?thesis by (rule bme280_temperature_accurate)
qed

section \<open>Pressure\<close>

text \<open>The calibration values for which the 64-bit formula is safe; those of a sensor, which the data
  sheet gives as an example, are well inside.\<close>

definition pressure_range :: "bme280_const \<Rightarrow> bool" where
  "pressure_range c \<longleftrightarrow> 2 ^ 14 \<le> uint (cal_p1 c) \<and> uint (cal_p1 c) \<le> 50000 \<and> \<bar>sint (cal_p2 c)\<bar> \<le> 2 ^ 14 \<and>
     \<bar>sint (cal_p3 c)\<bar> \<le> 2 ^ 13 \<and> \<bar>sint (cal_p4 c)\<bar> \<le> 2 ^ 13 \<and> \<bar>sint (cal_p5 c)\<bar> \<le> 2 ^ 12 \<and> \<bar>sint (cal_p6 c)\<bar> \<le> 2 ^ 7"

text \<open>A checked operation that stays in range does nothing but pass on its value.\<close>

lemma s64_step: "\<bar>x\<bar> \<le> B \<Longrightarrow> B < 2 ^ 63 \<Longrightarrow> Option.bind (s64 x) f = f x"
  by (simp add: s64_fits)

lemma shift_bound: "\<bar>a\<bar> \<le> A \<Longrightarrow> \<bar>a * 2 ^ k\<bar> \<le> A * 2 ^ k" for a :: int
  by (rule mult_bound) simp_all

lemma add_bound: "\<bar>a\<bar> \<le> A \<Longrightarrow> \<bar>b\<bar> \<le> B \<Longrightarrow> \<bar>a + b\<bar> \<le> A + B" "\<bar>a\<bar> \<le> A \<Longrightarrow> \<bar>b\<bar> \<le> B \<Longrightarrow> \<bar>a - b\<bar> \<le> A + B"
  for a b :: int
  by linarith+

text \<open>The first half of the formula stays in range, and the divisor it computes is positive and large.\<close>

lemma compensate_p_vars_defined:
  assumes "pressure_range c" "\<bar>t - 128000\<bar> \<le> 2 ^ 18"
  shows "\<exists>var1 var2. compensate_p_vars c t = Some (var1, var2) \<and> 2 ^ 27 \<le> var1 \<and> \<bar>var2\<bar> \<le> 2 ^ 49"
proof -
  define v where "v = t - 128000"
  define p1 where "p1 = uint (cal_p1 c)"
  define w where "w = v * v * sint (cal_p3 c) div 2 ^ 8 + v * sint (cal_p2 c) * 2 ^ 12"
  define a where "a = v * v * sint (cal_p6 c) + v * sint (cal_p5 c) * 2 ^ 17"
  have r: "\<bar>sint (cal_p2 c)\<bar> \<le> 2 ^ 14" "\<bar>sint (cal_p3 c)\<bar> \<le> 2 ^ 13" "\<bar>sint (cal_p4 c)\<bar> \<le> 2 ^ 13"
    "\<bar>sint (cal_p5 c)\<bar> \<le> 2 ^ 12" "\<bar>sint (cal_p6 c)\<bar> \<le> 2 ^ 7" and p1: "2 ^ 14 \<le> p1" "\<bar>p1\<bar> \<le> 50000"
    using assms(1) by (simp_all add: pressure_range_def p1_def)
  have 0: "\<bar>v\<bar> \<le> 2 ^ 18" using assms(2) by (simp add: v_def)
  have 1: "\<bar>v * v\<bar> \<le> 2 ^ 36" using mult_bound [OF 0 0] by simp
  have 2: "\<bar>v * v * sint (cal_p6 c)\<bar> \<le> 2 ^ 43" using mult_bound [OF 1 r(5)] by simp
  have 3: "\<bar>v * sint (cal_p5 c)\<bar> \<le> 2 ^ 30" using mult_bound [OF 0 r(4)] by simp
  have 4: "\<bar>v * sint (cal_p5 c) * 2 ^ 17\<bar> \<le> 2 ^ 47" using shift_bound [OF 3, of 17] by simp
  have 5: "\<bar>sint (cal_p4 c) * 2 ^ 35\<bar> \<le> 2 ^ 48" using shift_bound [OF r(3), of 35] by simp
  have 6: "\<bar>a\<bar> \<le> 2 ^ 48" unfolding a_def using add_bound(1) [OF 2 4] by simp
  have 7: "\<bar>a + sint (cal_p4 c) * 2 ^ 35\<bar> \<le> 2 ^ 49" using add_bound(1) [OF 6 5] by simp
  have 8: "\<bar>v * v * sint (cal_p3 c)\<bar> \<le> 2 ^ 49" using mult_bound [OF 1 r(2)] by simp
  have 9: "\<bar>v * sint (cal_p2 c)\<bar> \<le> 2 ^ 32" using mult_bound [OF 0 r(1)] by simp
  have 10: "\<bar>v * sint (cal_p2 c) * 2 ^ 12\<bar> \<le> 2 ^ 44" using shift_bound [OF 9, of 12] by simp
  have "\<bar>v * v * sint (cal_p3 c) div 2 ^ 8\<bar> \<le> 2 ^ 41" using 8 by (intro div_bound) simp_all
  from add_bound(1) [OF this 10] have 11: "\<bar>w\<bar> \<le> 2 ^ 45" unfolding w_def by simp
  then have 12: "\<bar>2 ^ 47 + w\<bar> \<le> 2 ^ 47 + 2 ^ 45" by simp
  from mult_bound [OF this p1(2)] have 13: "\<bar>(2 ^ 47 + w) * p1\<bar> \<le> (2 ^ 47 + 2 ^ 45) * 50000" .
  have "2 ^ 46 * 2 ^ 14 \<le> (2 ^ 47 + w) * p1" by (rule mult_mono) (use 11 p1 in simp_all)
  from zdiv_mono1 [OF this, of "2 ^ 33"] have "2 ^ 27 \<le> (2 ^ 47 + w) * p1 div 2 ^ 33" by simp
  moreover note 7
  moreover have "compensate_p_vars c t = Some ((2 ^ 47 + w) * p1 div 2 ^ 33, a + sint (cal_p4 c) * 2 ^ 35)"
    unfolding compensate_p_vars_def v_def [symmetric] p1_def [symmetric]
    unfolding a_def w_def
    by (simp add: s64_step [OF 0, simplified] s64_step [OF 1, simplified] s64_step [OF 2, simplified] s64_step [OF 3, simplified]
        s64_step [OF 4, simplified] s64_step [OF 6 [unfolded a_def], simplified] s64_step [OF 5, simplified]
        s64_step [OF 7 [unfolded a_def], simplified] s64_step [OF 8, simplified] s64_step [OF 9, simplified]
        s64_step [OF 10, simplified] s64_step [OF 11 [unfolded w_def], simplified] s64_step [OF 12 [unfolded w_def], simplified]
        s64_step [OF 13 [unfolded w_def], simplified])
  ultimately show ?thesis by blast
qed

lemma sdiv_bound:
  fixes a b :: int
  assumes "\<bar>a\<bar> \<le> A * B" "B \<le> b" "0 < B" "0 \<le> A"
  shows "\<bar>a sdiv b\<bar> \<le> A"
proof -
  have "\<bar>a sdiv b\<bar> \<le> \<bar>a\<bar> div \<bar>b\<bar>"
    by (auto simp: signed_divide_int_def abs_mult abs_sgn_eq pos_imp_zdiv_nonneg_iff)
  also have "\<dots> \<le> \<bar>a\<bar> div B" using assms by (intro zdiv_mono2) auto
  also have "\<dots> \<le> A * B div B" using assms by (intro zdiv_mono1) auto
  finally show ?thesis using assms(3) by simp
qed

lemma compensate_p_value_defined:
  assumes "2 ^ 27 \<le> d" "\<bar>var2\<bar> \<le> 2 ^ 49" "0 \<le> adc_p" "adc_p < 2 ^ 20"
  shows "\<exists>r. compensate_p_value c d var2 adc_p = Some r"
proof -
  define n where "n = (1048576 - adc_p) * 2 ^ 31 - var2"
  define p where "p = n * 3125 sdiv d"
  define q where "q = p div 2 ^ 13"
  define x where "x = sint (cal_p9 c) * q * q div 2 ^ 25"
  define y where "y = sint (cal_p8 c) * p div 2 ^ 19"
  have 1: "\<bar>(1048576 - adc_p) * 2 ^ 31\<bar> \<le> 2 ^ 51" using assms(3,4) by (simp add: abs_le_iff)
  have 2: "\<bar>n\<bar> \<le> 2 ^ 51 + 2 ^ 49" unfolding n_def using add_bound(2) [OF 1 assms(2)] .
  then have 3: "\<bar>n * 3125\<bar> \<le> (2 ^ 51 + 2 ^ 49) * 3125" by (intro mult_bound) simp_all
  have 4: "\<bar>p\<bar> \<le> 2 ^ 36" unfolding p_def by (rule sdiv_bound [OF _ assms(1)]) (use 3 in simp_all)
  then have q: "\<bar>q\<bar> \<le> 2 ^ 23" unfolding q_def by (intro div_bound) simp_all
  have 5: "\<bar>sint (cal_p9 c) * q\<bar> \<le> 2 ^ 38" using mult_bound [OF sint_u16 q] by simp
  have 6: "\<bar>sint (cal_p9 c) * q * q\<bar> \<le> 2 ^ 61" using mult_bound [OF 5 q] by simp
  have 7: "\<bar>sint (cal_p8 c) * p\<bar> \<le> 2 ^ 51" using mult_bound [OF sint_u16 4] by simp
  have "\<bar>x\<bar> \<le> 2 ^ 36" "\<bar>y\<bar> \<le> 2 ^ 32" unfolding x_def y_def using 6 7 by (intro div_bound; simp)+
  with 4 have 8: "\<bar>p + x\<bar> \<le> 2 ^ 36 + 2 ^ 36" and 9: "\<bar>p + x + y\<bar> \<le> 2 ^ 36 + 2 ^ 36 + 2 ^ 32" by (intro add_bound; simp)+
  from 9 have "\<bar>(p + x + y) div 2 ^ 8\<bar> \<le> 2 ^ 30" by (intro div_bound) simp_all
  from add_bound(1) [OF this shift_bound [OF sint_u16]]
  have 10: "\<bar>(p + x + y) div 2 ^ 8 + sint (cal_p7 c) * 2 ^ 4\<bar> \<le> 2 ^ 30 + 2 ^ 15 * 2 ^ 4" .
  have "compensate_p_value c d var2 adc_p = Some (word_of_int ((p + x + y) div 2 ^ 8 + sint (cal_p7 c) * 2 ^ 4))"
    unfolding compensate_p_value_def
    by (simp add: s64_step [OF 1, simplified] s64_step [OF 2, simplified] s64_step [OF 3, simplified] s64_step [OF 4, simplified]
        s64_step [OF 5, simplified] s64_step [OF 6, simplified] s64_step [OF 7, simplified] s64_step [OF 8, simplified]
        s64_step [OF 9, simplified] s64_step [OF 10, simplified] n_def [simplified, symmetric] p_def [simplified, symmetric]
        q_def [simplified, symmetric] x_def [simplified, symmetric] y_def [simplified, symmetric])
  then show ?thesis by blast
qed

lemma compensate_p_defined:
  assumes "pressure_range c" "\<bar>t - 128000\<bar> \<le> 2 ^ 18" "0 \<le> adc_p" "adc_p < 2 ^ 20"
  shows "\<exists>r. compensate_p_int64 c t adc_p = Some r"
proof -
  obtain var1 var2 where v: "compensate_p_vars c t = Some (var1, var2)" "2 ^ 27 \<le> var1" "\<bar>var2\<bar> \<le> 2 ^ 49"
    using compensate_p_vars_defined [OF assms(1,2)] by blast
  then show ?thesis using compensate_p_value_defined [OF v(2,3) assms(3,4)] by (simp add: compensate_p_int64_def)
qed

lemma adc20_range: "0 \<le> adc20 a b c" "adc20 a b c < 2 ^ 20"
  using uint_bounded [of a] uint_bounded [of b] uint_bounded [of c] by (simp_all add: adc20_def pos_imp_zdiv_nonneg_iff)

text \<open>Between -26 and 76 degrees the fine temperature is in the range of the pressure formula.\<close>

lemma fine_range:
  assumes "compensate_t_int32 c adc_t = Some (t, temp)" "- 2600 \<le> temp" "temp \<le> 7600"
  shows "\<bar>t - 128000\<bar> \<le> 2 ^ 18"
proof -
  have "temp = (t * 5 + 128) div 2 ^ 8"
    using assms(1) unfolding compensate_t_int32_def by (auto simp only: bind_eq_Some_conv prod.inject option.inject dest!: s32_Some)
  then show ?thesis using assms(2,3) by simp
qed

text \<open>
  C32: A BMP280 whose calibration values are in the safe ranges and whose reading gives a temperature between -26 and
  76 degrees is measured without any overflow, whatever the pressure reading is: \<open>bme280_get_result\<close> reports
  success and stores the temperature and the pressure that belong to the bytes read.
\<close>
theorem bme280_measures:
  assumes "chip (bme s) = BMP280" "pressure_range (calibration (bme s))"
    and "bme_bytes hw (asked s) 0 AND 8 = 0"
    and "b = bme_bytes hw (asked s + 1)"
    and "compensate_t_int32 (calibration (bme s)) (adc20 (b 3) (b 4) (b 5)) = Some (t, temp)" "- 2600 \<le> temp" "temp \<le> 7600"
  shows "\<exists>p s'. run_state (bme280_get_result hw) s = (Some 0, s') \<and>
    compensate_p_int64 (calibration (bme s)) t (adc20 (b 0) (b 1) (b 2)) = Some p \<and>
    bme s' = (bme s)\<lparr>temperature := of_int temp / 100, pressure := drop_bit 8 p\<rparr> \<and> t_fine s' = t"
proof -
  obtain p where "compensate_p_int64 (calibration (bme s)) t (adc20 (b 0) (b 1) (b 2)) = Some p"
    using compensate_p_defined [OF assms(2) fine_range [OF assms(5-7)] adc20_range] by blast
  then show ?thesis
    using assms by (simp add: bme280_get_result_def check_busy_def bme_read_def run_simps nth_map_upt numeral_2_eq_2 del: upt_rec_numeral upt_Suc)
qed

definition bme_sample :: bme_io where
  "bme_sample = \<lparr>trace = [], asked = 0, bme = \<lparr>humidity = 0, pressure = 0, sea_level_pressure = 101325, temperature = 0,
     humidity_oversampling = 1, pressure_oversampling = 1, temperature_oversampling = 1, calibration = bme_cal_sample,
     chip = BMP280\<rparr>, t_fine = 0\<rparr>"

definition bme_chip_sample :: bme_chip where
  "bme_chip_sample = \<lparr>bme_status = (\<lambda>_. 0),
     bme_bytes = (\<lambda>i j. if i = 0 then 0 else [0x65, 0x5A, 0xC0, 0x7E, 0xED, 0x00, 0, 0] ! j)\<rparr>"

theorem bme280_measures_witness:
  "\<exists>s'. run_state (bme280_get_result bme_chip_sample) bme_sample = (Some 0, s') \<and> temperature (bme s') = 2508 / 100"
proof -
  have "chip (bme bme_sample) = BMP280" "bme_bytes bme_chip_sample (asked bme_sample) 0 AND 8 = 0"
    and "pressure_range (calibration (bme bme_sample))"
    by (simp_all add: bme_sample_def bme_chip_sample_def bme_cal_sample_def pressure_range_def)
  moreover have "compensate_t_int32 (calibration (bme bme_sample)) (adc20 (bme_bytes bme_chip_sample (asked bme_sample + 1) 3)
      (bme_bytes bme_chip_sample (asked bme_sample + 1) 4) (bme_bytes bme_chip_sample (asked bme_sample + 1) 5)) = Some (128422, 2508)"
    by (simp add: bme_sample_def bme_chip_sample_def bme_cal_sample_def adc20_def compensate_t_int32_def s32_def)
  ultimately show ?thesis using bme280_measures [of bme_sample bme_chip_sample _ 128422 2508, OF _ _ _ refl] by fastforce
qed

section \<open>Initialisation\<close>

text \<open>Only one byte is read into the buffer whose four bytes make up \<open>h4\<close> and \<open>h5\<close>: after a successful
  initialisation \<open>h5\<close> and the low bits of \<open>h4\<close> are what the stack held before.\<close>

lemma init_humidity_junk:
  assumes "run_state (bme280_init junk hw) s = (0, s')"
  shows "cal_h5 (calibration (bme s')) = (ucast (junk 2) AND 0x07) OR push_bit 4 (ucast (junk 3))"
    and "chip (bme s') \<noteq> ID_WRONG" "sea_level_pressure (bme s') = 101325"
  using assms
  by (auto simp: bme280_init_def bme280_check_id_def bme_read_def bme_write_def set_cal_def run_simps Let_def read_row_def
      simp del: upt_rec_numeral upt_Suc split: if_splits)

section \<open>Humidity, altitude and air pressure in millimetres\<close>

text \<open>The humidity never exceeds 100 percent.\<close>

lemma humidity_in_range:
  assumes "compensate_h_int32 c t adc_h = Some h"
  shows "uint h \<le> 100 * 1024"
proof -
  obtain z :: int where "h = word_of_int ((let z = (if z < 0 then 0 else z) in if z > 419430400 then 419430400 else z) div 2 ^ 12)"
    using assms unfolding compensate_h_int32_def Let_def bind_eq_Some_conv by (elim exE conjE) (metis option.inject)
  moreover define x where "x = (let z = (if z < 0 then 0 else z) in if z > 419430400 then 419430400 else z) div 2 ^ 12"
  moreover have "0 \<le> x" "x \<le> 100 * 1024" by (auto simp: x_def Let_def pos_imp_zdiv_nonneg_iff)
  ultimately show ?thesis by (simp add: uint_word_of_int_eq take_bit_int_eq_self)
qed

text \<open>The altitude is 0 at the pressure of the sea level and falls as the pressure rises.\<close>

lemma altitude_sea_level:
  "pressure d = sea_level_pressure d \<Longrightarrow> sea_level_pressure d \<noteq> 0 \<Longrightarrow> bme280_altitude d = 0"
  by (simp add: bme280_altitude_def unsigned_eq_0_iff)

lemma ratio_powr_less: "0 \<le> a \<Longrightarrow> a < b \<Longrightarrow> 0 < c \<Longrightarrow> 0 < k \<Longrightarrow> (a / c) powr k < (b / c) powr k" for a b c k :: real
  by (intro powr_less_mono2) (simp_all add: divide_strict_right_mono)

lemma altitude_falls:
  assumes "unat (pressure d) < unat (pressure e)" "sea_level_pressure d = sea_level_pressure e" "sea_level_pressure d \<noteq> 0"
  shows "bme280_altitude e < bme280_altitude d"
proof -
  have "0 < unat (sea_level_pressure e)" using assms(2,3) by (metis unsigned_eq_0_iff neq0_conv)
  then have "(real (unat (pressure d)) / real (unat (sea_level_pressure e))) powr 0.190295 <
      (real (unat (pressure e)) / real (unat (sea_level_pressure e))) powr 0.190295"
    using assms(1) by (intro ratio_powr_less) (simp_all only: of_nat_0_le_iff of_nat_less_iff of_nat_0_less_iff, simp)
  then show ?thesis unfolding bme280_altitude_def assms(2) by argo
qed

text \<open>The cast in \<open>bme280_mmHg\<close> applies to the product alone, so that the result is 0 for every sea level
  pressure above 65535 Pa, the usual one included.\<close>

lemma mmHg_zero:
  assumes "65535 < unat (sea_level_pressure d)"
  shows "bme280_mmHg d = Some 0"
proof -
  have "unat (ucast w :: u32) \<le> unat w" for w :: u16 by (simp add: unsigned_ucast_eq)
  then have "unat (ucast (ucast (pressure d * 760) :: u16) :: u32) < 65536" using unat_u16_less by (rule le_less_trans)
  then have "ucast (ucast (pressure d * 760) :: u16) div sea_level_pressure d = 0"
    using assms by (intro div_word_less) (unfold word_less_nat_alt, linarith)
  moreover have "sea_level_pressure d \<noteq> 0" using assms by auto
  ultimately show ?thesis by (simp add: bme280_mmHg_def)
qed

end
