(* ===== verification/Hash_Db.thy ===== *)
theory Hash_Db
  imports C_Memory
begin

text \<open>
  The hash data base of Common/hash_db.cpp: a buffer with a header of two 32-bit words, the hash of the name and the
  bytes in use, followed by the entries, each a header of the same form, with the hash of the entry and the size of
  its data, and the data.  An access outside of the buffer has no value, and neither has a search that
  never ends.  The width of \<open>size_t\<close>, in which the space is computed, is an argument.
\<close>

section \<open>The model\<close>

datatype db_errno = SUCCESS | ENOSPC | EINVAL | ENOENT

definition header_size :: nat where
  "header_size = 8"

definition initialize_database :: "u32 \<Rightarrow> mem \<Rightarrow> mem option" where
  "initialize_database name_hash m = do {
     m1 \<leftarrow> store 0 (le_bytes 4 name_hash) m;
     store 4 (le_bytes 4 (of_nat header_size :: u32)) m1
   }"

text \<open>The loop that looks for an entry, which both operations have: whether it was found, and the offset.\<close>

partial_function (option) find_entry :: "u32 \<Rightarrow> mem \<Rightarrow> u32 \<Rightarrow> (bool \<times> u32) option" where
  "find_entry name_hash m offset = do {
     db_size \<leftarrow> load_u32 4 m;
     if offset < db_size then do {
       h \<leftarrow> load_u32 (unat offset) m;
       if h = name_hash then Some (True, offset)
       else do {
         sz \<leftarrow> load_u32 (unat offset + 4) m;
         find_entry name_hash m (offset + 8 + sz)
       }
     } else Some (False, offset)
   }"

definition write_int :: "nat \<Rightarrow> u32 \<Rightarrow> u32 \<Rightarrow> u8 list \<Rightarrow> mem \<Rightarrow> (db_errno \<times> mem) option" where
  "write_int size_bits max_size name_hash data m = do {
     (found, offset) \<leftarrow> find_entry name_hash m 8;
     db_size \<leftarrow> load_u32 4 m;
     if (unat db_size + header_size + length data) mod 2 ^ size_bits > unat max_size then Some (ENOSPC, m)
     else do {
       m1 \<leftarrow> store (unat offset) (le_bytes 4 name_hash) m;
       m2 \<leftarrow> store (unat offset + 4) (le_bytes 4 (of_nat (length data) :: u32)) m1;
       m3 \<leftarrow> store (unat offset + header_size) data m2;
       if found then Some (SUCCESS, m3)
       else do {
         used \<leftarrow> load_u32 4 m3;
         m4 \<leftarrow> store 4 (le_bytes 4 (used + of_nat header_size + of_nat (length data) :: u32)) m3;
         Some (SUCCESS, m4)
       }
     }
   }"

text \<open>The bytes that are copied to the caller's object come with the result.\<close>

definition read_int :: "u32 \<Rightarrow> nat \<Rightarrow> mem \<Rightarrow> (db_errno \<times> u8 list) option" where
  "read_int name_hash n m = do {
     (found, offset) \<leftarrow> find_entry name_hash m 8;
     if \<not> found then Some (ENOENT, [])
     else do {
       sz \<leftarrow> load_u32 (unat offset + 4) m;
       if sz \<noteq> of_nat n then Some (EINVAL, [])
       else do {
         bs \<leftarrow> load (unat offset + header_size) n m;
         Some (SUCCESS, bs)
       }
     }
   }"

definition GetUsedSize :: "mem \<Rightarrow> u32 option" where
  "GetUsedSize m = load_u32 4 m"

definition CheckName :: "u32 \<Rightarrow> mem \<Rightarrow> bool option" where
  "CheckName name_hash m = map_option (\<lambda>h. h = name_hash) (load_u32 0 m)"

text \<open>
  The constructors and the destructor: where the buffer comes from, and the buffer.  The answer of \<open>malloc\<close> is a
  parameter; the destructor hands the buffer to \<open>free\<close>, which is undefined for memory from elsewhere.
\<close>

datatype origin = Allocated | Given

definition HashDB_alloc :: "(nat \<Rightarrow> mem option) \<Rightarrow> u32 \<Rightarrow> u32 \<Rightarrow> (origin \<times> mem) option" where
  "HashDB_alloc malloc max_size name_hash =
     (case malloc (unat max_size) of None \<Rightarrow> None | Some m \<Rightarrow> map_option (Pair Allocated) (initialize_database name_hash m))"

definition HashDB_given :: "mem \<Rightarrow> u32 \<Rightarrow> (origin \<times> mem) option" where
  "HashDB_given location name_hash = map_option (Pair Given) (initialize_database name_hash location)"

definition HashDB_destroy :: "origin \<times> mem \<Rightarrow> unit option" where
  "HashDB_destroy db = (if fst db = Allocated then Some () else None)"

lemma given_buffer_freed: "HashDB_given location name_hash = Some db \<Longrightarrow> HashDB_destroy db = None"
  by (auto simp: HashDB_given_def HashDB_destroy_def)

section \<open>Stores of values under keys\<close>

fun write_all :: "('k \<Rightarrow> 'v \<Rightarrow> 's \<Rightarrow> ('e \<times> 's) option) \<Rightarrow> ('k \<times> 'v) list \<Rightarrow> 's \<Rightarrow> ('e list \<times> 's) option" where
  "write_all wr [] s = Some ([], s)"
| "write_all wr ((k, v) # ws) s =
    (case wr k v s of None \<Rightarrow> None
     | Some (e, s) \<Rightarrow> map_option (\<lambda>(es, s). (e # es, s)) (write_all wr ws s))"

text \<open>The values of the operations that succeeded.\<close>

fun taken :: "'e \<Rightarrow> ('k \<times> 'v) list \<Rightarrow> 'e list \<Rightarrow> ('k \<rightharpoonup> 'v) \<Rightarrow> 'k \<rightharpoonup> 'v" where
  "taken ok ((k, v) # ws) (e # es) m = taken ok ws es (if e = ok then m(k \<mapsto> v) else m)"
| "taken ok _ _ m = m"

text \<open>What a client may expect of a store: an operation either takes the value or refuses it and changes nothing, and a
  look-up returns the value taken last.\<close>

locale key_store =
  fixes wr :: "'k \<Rightarrow> 'v \<Rightarrow> 's \<Rightarrow> ('e \<times> 's) option"
    and rd :: "'k \<Rightarrow> 's \<Rightarrow> ('e \<times> 'v) option"
    and rep :: "'s \<Rightarrow> ('k \<rightharpoonup> 'v) \<Rightarrow> bool"
    and fits :: "'k \<Rightarrow> 'v \<Rightarrow> bool"
    and ok missing :: 'e and nothing :: 'v
  assumes wr_law: "rep s m \<Longrightarrow> fits k v \<Longrightarrow> \<exists>e s'. wr k v s = Some (e, s') \<and> rep s' (if e = ok then m(k \<mapsto> v) else m)"
    and rd_law: "rep s m \<Longrightarrow> rd k s = Some (case m k of None \<Rightarrow> (missing, nothing) | Some v \<Rightarrow> (ok, v))"
begin

lemma write_all_rep:
  assumes "rep s m" "\<forall>(k, v) \<in> set ws. fits k v"
  shows "\<exists>es s'. write_all wr ws s = Some (es, s') \<and> length es = length ws \<and> rep s' (taken ok ws es m)"
  using assms
proof (induction ws arbitrary: s m)
  case (Cons w ws)
  obtain k v where w: "w = (k, v)" by (cases w)
  obtain e s1 where 1: "wr k v s = Some (e, s1)" "rep s1 (if e = ok then m(k \<mapsto> v) else m)"
    using wr_law [OF Cons.prems(1), of k v] Cons.prems(2) w by auto
  obtain es s2 where 2: "write_all wr ws s1 = Some (es, s2)" "length es = length ws"
      "rep s2 (taken ok ws es (if e = ok then m(k \<mapsto> v) else m))"
    using Cons.IH [OF 1(2)] Cons.prems(2) by auto
  show ?case using 1(1) 2 unfolding w by (intro exI [of _ "e # es"] exI [of _ s2]) simp
qed auto

lemma last_write_wins:
  assumes "rep s m" "\<forall>(k, v) \<in> set ws. fits k v"
  shows "\<exists>es s'. write_all wr ws s = Some (es, s') \<and> length es = length ws \<and>
    (\<forall>k. rd k s' = Some (case taken ok ws es m k of None \<Rightarrow> (missing, nothing) | Some v \<Rightarrow> (ok, v)))"
  using write_all_rep [OF assms] rd_law by blast

end

section \<open>The abstract data base\<close>

definition hash_enc :: "u32 \<times> u8 list \<Rightarrow> u8 list" where
  "hash_enc e = le_bytes 4 (fst e) @ le_bytes 4 (of_nat (length (snd e)) :: u32) @ snd e"

definition hash_body :: "(u32 \<times> u8 list) list \<Rightarrow> u8 list" where
  "hash_body es = concat (map hash_enc es)"

lemma hash_body_simps [simp]: "hash_body [] = []" "hash_body (e # es) = hash_enc e @ hash_body es" "hash_body (es @ fs) = hash_body es @ hash_body fs"
  by (simp_all add: hash_body_def)

lemma length_hash_enc [simp]: "length (hash_enc e) = 8 + length (snd e)"
  by (simp add: hash_enc_def)

definition holds :: "u32 \<Rightarrow> mem \<Rightarrow> (u32 \<times> u8 list) list \<Rightarrow> bool" where
  "holds max_size m es \<longleftrightarrow> (\<exists>(name :: u32) free. m = le_bytes 4 name @ le_bytes 4 (of_nat (8 + length (hash_body es)) :: u32) @ hash_body es @ free \<and>
     8 + length (hash_body es) \<le> unat max_size \<and> unat max_size \<le> length m \<and> length m < 2 ^ 32 \<and> distinct (map fst es))"

lemma load_u32_mid: "length a = p \<Longrightarrow> load_u32 p (a @ le_bytes 4 w @ c) = Some w"
  using load_mid [of a p "le_bytes 4 w" 4 c] by (simp add: load_u32_def le_word_le_bytes_id)

lemma find_entry_body:
  assumes "load_u32 4 m = Some (of_nat (length pre + length (hash_body es)))" "m = pre @ hash_body es @ free" "length m < 2 ^ 32"
  shows "find_entry h m (of_nat (length pre)) =
    Some (h \<in> fst ` set es, of_nat (length pre + length (hash_body (takeWhile (\<lambda>e. fst e \<noteq> h) es))))"
  using assms
proof (induction es arbitrary: pre)
  case Nil
  then show ?case by (subst find_entry.simps) simp
next
  case (Cons e es)
  have len: "length pre + length (hash_body (e # es)) < 2 ^ 32" using Cons.prems(2,3) by simp
  then have u: "unat (of_nat (length pre) :: u32) = length pre" by (intro unat_offset) simp
  have less: "(of_nat (length pre) :: u32) < of_nat (length pre + length (hash_body (e # es)))"
    using len unat_offset [OF len] u by (simp add: word_less_nat_alt)
  have key: "load_u32 (length pre) m = Some (fst e)"
    using load_u32_mid [of pre "length pre" "fst e"] Cons.prems(2) by (simp add: hash_enc_def)
  have sz: "load_u32 (length pre + 4) m = Some (of_nat (length (snd e)))"
    using load_u32_mid [of "pre @ le_bytes 4 (fst e)" "length pre + 4" "of_nat (length (snd e))"] Cons.prems(2) by (simp add: hash_enc_def)
  show ?case
  proof (cases "fst e = h")
    case True
    then show ?thesis using Cons.prems(1) less key u by (subst find_entry.simps) simp
  next
    case False
    have "find_entry h m (of_nat (length (pre @ hash_enc e))) =
        Some (h \<in> fst ` set es, of_nat (length (pre @ hash_enc e) + length (hash_body (takeWhile (\<lambda>e. fst e \<noteq> h) es))))"
      by (rule Cons.IH) (use Cons.prems in \<open>simp_all add: add.assoc\<close>)
    then show ?thesis using Cons.prems(1) less key sz u False by (subst find_entry.simps) (simp add: add.assoc)
  qed
qed

lemma holds_find:
  assumes "holds max_size m es"
  shows "find_entry h m 8 = Some (h \<in> fst ` set es, of_nat (8 + length (hash_body (takeWhile (\<lambda>e. fst e \<noteq> h) es))))"
    and "load_u32 4 m = Some (of_nat (8 + length (hash_body es)))"
proof -
  obtain name :: u32 and free where m: "m = (le_bytes 4 name @ le_bytes 4 (of_nat (8 + length (hash_body es)) :: u32)) @ hash_body es @ free" "length m < 2 ^ 32"
    using assms by (auto simp: holds_def)
  show l: "load_u32 4 m = Some (of_nat (8 + length (hash_body es)))"
    unfolding m(1) append_assoc by (rule load_u32_mid) simp
  show "find_entry h m 8 = Some (h \<in> fst ` set es, of_nat (8 + length (hash_body (takeWhile (\<lambda>e. fst e \<noteq> h) es))))"
    using find_entry_body [OF _ m(1,2), of h] l by simp
qed

lemma takeWhile_key:
  assumes "h \<in> fst ` set es"
  obtains d es1 es2 where "es = es1 @ (h, d) # es2" "takeWhile (\<lambda>e. fst e \<noteq> h) es = es1"
  using assms
proof (induction es arbitrary: thesis)
  case (Cons e es)
  show ?case
  proof (cases "fst e = h")
    case True
    then show ?thesis using Cons.prems(1) [of "[]" "snd e" es] by (cases e) simp
  next
    case False
    then obtain d es1 es2 where "es = es1 @ (h, d) # es2" "takeWhile (\<lambda>e. fst e \<noteq> h) es = es1"
      using Cons.IH Cons.prems(2) by auto
    then show ?thesis using Cons.prems(1) [of "e # es1" d es2] False by simp
  qed
qed simp

lemma takeWhile_no_key: "h \<notin> fst ` set es \<Longrightarrow> takeWhile (\<lambda>e. fst e \<noteq> h) es = es"
  by (auto simp: takeWhile_eq_all_conv)

text \<open>The three stores of a new entry put its bytes in place.\<close>

lemma hash_store_entry:
  fixes h :: u32
  assumes "length a = p" "length b = 8 + length d"
  shows "do { m1 \<leftarrow> store p (le_bytes 4 h) (a @ b @ c);
      m2 \<leftarrow> store (p + 4) (le_bytes 4 (of_nat (length d) :: u32)) m1;
      m3 \<leftarrow> store (p + header_size) d m2; f m3 } = f (a @ hash_enc (h, d) @ c)"
proof -
  have e: "drop 8 b = drop 4 (drop 4 b)" by simp
  have "b = take 4 b @ take 4 (drop 4 b) @ drop 8 b" unfolding e by (simp only: append_take_drop_id)
  then obtain b1 b2 b3 where b: "b = b1 @ b2 @ b3" "length b1 = 4" "length b2 = 4" "length b3 = length d"
    using that [of "take 4 b" "take 4 (drop 4 b)" "drop 8 b"] assms(2) by simp
  have "store p (le_bytes 4 h) (a @ b @ c) = Some (a @ le_bytes 4 h @ b2 @ b3 @ c)"
    using store_mid [OF assms(1), of b1 "le_bytes 4 h" "b2 @ b3 @ c"] b by simp
  moreover have "store (p + 4) (le_bytes 4 (of_nat (length d) :: u32)) (a @ le_bytes 4 h @ b2 @ b3 @ c) =
      Some (a @ le_bytes 4 h @ le_bytes 4 (of_nat (length d) :: u32) @ b3 @ c)"
    using store_mid [of "a @ le_bytes 4 h" "p + 4" b2 "le_bytes 4 (of_nat (length d) :: u32)" "b3 @ c"] b assms by simp
  moreover have "store (p + header_size) d (a @ le_bytes 4 h @ le_bytes 4 (of_nat (length d) :: u32) @ b3 @ c) =
      Some (a @ hash_enc (h, d) @ c)"
    using store_mid [of "a @ le_bytes 4 h @ le_bytes 4 (of_nat (length d) :: u32)" "p + header_size" b3 d c] b assms
    by (simp add: hash_enc_def header_size_def)
  ultimately show ?thesis by simp
qed

section \<open>The operations on the abstract data base\<close>

lemma hash_read_ok:
  assumes "holds max_size m es" "n < 2 ^ 32"
  shows "read_int h n m = Some (case map_of es h of None \<Rightarrow> (ENOENT, [])
    | Some d \<Rightarrow> if length d = n then (SUCCESS, d) else (EINVAL, []))"
proof (cases "h \<in> fst ` set es")
  case False
  then have "map_of es h = None" by (simp add: map_of_eq_None_iff)
  then show ?thesis using holds_find(1) [OF assms(1), of h] False by (simp add: read_int_def)
next
  case True
  obtain d es1 es2 where es: "es = es1 @ (h, d) # es2" "takeWhile (\<lambda>e. fst e \<noteq> h) es = es1"
    using takeWhile_key [OF True] .
  obtain name :: u32 and free where m: "m = le_bytes 4 name @ le_bytes 4 (of_nat (8 + length (hash_body es)) :: u32) @ hash_body es @ free" "length m < 2 ^ 32"
    "distinct (map fst es)" using assms(1) by (auto simp: holds_def)
  define a where "a = le_bytes 4 name @ le_bytes 4 (of_nat (8 + length (hash_body es)) :: u32) @ hash_body es1"
  have a: "m = a @ hash_enc (h, d) @ hash_body es2 @ free" "length a = 8 + length (hash_body es1)" by (simp_all add: m(1) a_def es(1))
  have len: "length a < 2 ^ 32" "length d < 2 ^ 32" using m(2) a(1) by simp_all
  have f: "find_entry h m 8 = Some (True, of_nat (length a))" using holds_find(1) [OF assms(1), of h] True es(2) a(2) by simp
  have sz: "load_u32 (length a + 4) m = Some (of_nat (length d))"
    using load_u32_mid [of "a @ le_bytes 4 h" "length a + 4" "of_nat (length d)"] a(1) by (simp add: hash_enc_def)
  have bs: "load (length a + header_size) (length d) m = Some d"
    using load_mid [of "a @ le_bytes 4 h @ le_bytes 4 (of_nat (length d) :: u32)" "length a + header_size" d "length d"] a(1)
    by (simp add: hash_enc_def header_size_def)
  have "(of_nat (length d) :: u32) = of_nat n \<longleftrightarrow> length d = n"
    using unat_offset [OF len(2)] unat_offset [OF assms(2)] by metis
  moreover have "map_of es h = Some d" using m(3) es(1) by (intro map_of_is_SomeI) simp_all
  ultimately show ?thesis using f sz bs unat_offset [OF len(1)] by (auto simp: read_int_def)
qed

text \<open>A write is refused when the space behind the entries is too small, and otherwise adds a new entry or replaces one of
  the same size.\<close>

lemma write_full:
  assumes "holds max_size m es" "unat max_size + 8 + length d < 2 ^ size_bits"
    and "unat max_size < 8 + length (hash_body es) + 8 + length d"
  shows "write_int size_bits max_size h d m = Some (ENOSPC, m)"
proof -
  have used: "8 + length (hash_body es) \<le> unat max_size" "8 + length (hash_body es) < 2 ^ 32" using assms(1) by (auto simp: holds_def)
  then have "unat (of_nat (8 + length (hash_body es)) :: u32) = 8 + length (hash_body es)" by (intro unat_offset)
  moreover have "(8 + length (hash_body es) + header_size + length d) mod 2 ^ size_bits = 8 + length (hash_body es) + header_size + length d"
    using used assms(2) by (intro mod_less) (simp add: header_size_def)
  ultimately show ?thesis using holds_find [OF assms(1)] assms(3) by (simp add: write_int_def header_size_def)
qed

lemma write_fits:
  assumes "holds max_size m es" "unat max_size + 8 + length d < 2 ^ size_bits" "8 + length (hash_body es) + 8 + length d \<le> unat max_size"
  shows "write_int size_bits max_size h d m = (let p = 8 + length (hash_body (takeWhile (\<lambda>e. fst e \<noteq> h) es)) in
    do { m1 \<leftarrow> store p (le_bytes 4 h) m;
      m2 \<leftarrow> store (p + 4) (le_bytes 4 (of_nat (length d) :: u32)) m1;
      m3 \<leftarrow> store (p + header_size) d m2;
      if h \<in> fst ` set es then Some (SUCCESS, m3)
      else do {
        used \<leftarrow> load_u32 4 m3;
        m4 \<leftarrow> store 4 (le_bytes 4 (used + of_nat header_size + of_nat (length d) :: u32)) m3;
        Some (SUCCESS, m4) } })"
proof -
  have used: "8 + length (hash_body es) < 2 ^ 32" using assms(1) by (auto simp: holds_def)
  have "length (hash_body (takeWhile (\<lambda>e. fst e \<noteq> h) es)) \<le> length (hash_body (takeWhile (\<lambda>e. fst e \<noteq> h) es @ dropWhile (\<lambda>e. fst e \<noteq> h) es))"
    unfolding hash_body_simps by simp
  then have "8 + length (hash_body (takeWhile (\<lambda>e. fst e \<noteq> h) es)) < 2 ^ 32" using used by simp
  note u = unat_offset [OF this] unat_offset [OF used]
  have "(8 + length (hash_body es) + header_size + length d) mod 2 ^ size_bits = 8 + length (hash_body es) + header_size + length d"
    using assms(2,3) by (intro mod_less) (simp add: header_size_def)
  then show ?thesis
    using holds_find(1) [OF assms(1), of h] holds_find(2) [OF assms(1)] assms(3) u by (simp add: write_int_def Let_def header_size_def)
qed

lemma write_new:
  assumes "holds max_size m es" "unat max_size + 8 + length d < 2 ^ size_bits" "8 + length (hash_body es) + 8 + length d \<le> unat max_size"
    and "h \<notin> fst ` set es"
  shows "\<exists>m'. write_int size_bits max_size h d m = Some (SUCCESS, m') \<and> holds max_size m' (es @ [(h, d)])"
proof -
  obtain name :: u32 and free where m: "m = le_bytes 4 name @ le_bytes 4 (of_nat (8 + length (hash_body es)) :: u32) @ hash_body es @ free"
    "unat max_size \<le> length m" "length m < 2 ^ 32" "distinct (map fst es)" using assms(1) by (auto simp: holds_def)
  define a where "a = le_bytes 4 name @ le_bytes 4 (of_nat (8 + length (hash_body es)) :: u32) @ hash_body es"
  define b where "b = take (8 + length d) free"
  define c where "c = drop (8 + length d) free"
  have split: "m = a @ b @ c" "length a = 8 + length (hash_body es)" "length b = 8 + length d"
    using assms(3) m(1,2) by (simp_all add: a_def b_def c_def)
  let ?used = "of_nat (8 + length (hash_body es)) + of_nat header_size + of_nat (length d) :: u32"
  have l: "load_u32 4 (a @ hash_enc (h, d) @ c) = Some (of_nat (8 + length (hash_body es)))"
    unfolding a_def append_assoc by (rule load_u32_mid) simp
  have "store 4 (le_bytes 4 ?used) (a @ hash_enc (h, d) @ c) = Some (le_bytes 4 name @ le_bytes 4 ?used @ hash_body es @ hash_enc (h, d) @ c)"
    unfolding a_def append_assoc by (rule store_mid) simp_all
  moreover have "?used = of_nat (8 + length (hash_body (es @ [(h, d)])))" by (simp add: header_size_def)
  ultimately have "write_int size_bits max_size h d m =
      Some (SUCCESS, le_bytes 4 name @ le_bytes 4 (of_nat (8 + length (hash_body (es @ [(h, d)]))) :: u32) @ hash_body (es @ [(h, d)]) @ c)"
    using write_fits [OF assms(1-3), of h, unfolded Let_def takeWhile_no_key [OF assms(4)] split(1) hash_store_entry [OF split(2,3)]] l assms(4)
    unfolding split(1) by (simp add: ac_simps)
  moreover have "length (le_bytes 4 name @ le_bytes 4 ?used @ hash_body (es @ [(h, d)]) @ c) = length m"
    using split by (simp add: a_def)
  ultimately show ?thesis using m(2-4) assms(3,4) unfolding holds_def by auto
qed

text \<open>An existing entry is overwritten in place whatever the new size is: a longer value takes the bytes of the entries
  behind it, and the number of bytes in use stays as it was.\<close>

lemma write_over:
  assumes "holds max_size m es" "unat max_size + 8 + length d < 2 ^ size_bits" "8 + length (hash_body es) + 8 + length d \<le> unat max_size"
    and "es = es1 @ (h, d0) # es2" "m = a @ rest" "length a = 8 + length (hash_body es1)"
  shows "write_int size_bits max_size h d m = Some (SUCCESS, a @ hash_enc (h, d) @ drop (8 + length d) rest)"
proof -
  have m: "unat max_size \<le> length m" "distinct (map fst es)" using assms(1) by (auto simp: holds_def)
  have t: "takeWhile (\<lambda>e. fst e \<noteq> h) es = es1" using m(2) assms(4) by (auto simp: takeWhile_append)
  have split: "m = a @ take (8 + length d) rest @ drop (8 + length d) rest" "length (take (8 + length d) rest) = 8 + length d"
    using assms(3-6) m(1) by simp_all
  have "write_int size_bits max_size h d (a @ take (8 + length d) rest @ drop (8 + length d) rest) =
      Some (SUCCESS, a @ hash_enc (h, d) @ drop (8 + length d) rest)"
    using write_fits [OF assms(1-3), of h, unfolded Let_def t split(1) hash_store_entry [OF assms(6) split(2)]] assms(4) by simp
  then show ?thesis unfolding split(1) [symmetric] .
qed

lemma write_replace:
  assumes "holds max_size m es" "unat max_size + 8 + length d < 2 ^ size_bits" "8 + length (hash_body es) + 8 + length d \<le> unat max_size"
    and "es = es1 @ (h, d0) # es2" "length d0 = length d"
  shows "\<exists>m'. write_int size_bits max_size h d m = Some (SUCCESS, m') \<and> holds max_size m' (es1 @ (h, d) # es2)"
proof -
  obtain name :: u32 and free where m: "m = le_bytes 4 name @ le_bytes 4 (of_nat (8 + length (hash_body es)) :: u32) @ hash_body es @ free"
    "unat max_size \<le> length m" "length m < 2 ^ 32" "distinct (map fst es)" using assms(1) by (auto simp: holds_def)
  define a where "a = le_bytes 4 name @ le_bytes 4 (of_nat (8 + length (hash_body es)) :: u32) @ hash_body es1"
  have split: "m = a @ hash_enc (h, d0) @ hash_body es2 @ free" "length a = 8 + length (hash_body es1)"
    using assms(4) m(1) by (simp_all add: a_def)
  have "write_int size_bits max_size h d m = Some (SUCCESS, a @ hash_enc (h, d) @ hash_body es2 @ free)"
    using write_over [OF assms(1-4) split] assms(5) by simp
  moreover have "length (hash_body (es1 @ (h, d) # es2)) = length (hash_body es)" using assms(4,5) by simp
  ultimately show ?thesis using m assms unfolding holds_def a_def by auto
qed

section \<open>The hash data base is a store\<close>

text \<open>Every key has a type and with it a size.\<close>

definition hash_rep :: "u32 \<Rightarrow> (u32 \<Rightarrow> nat) \<Rightarrow> mem \<Rightarrow> (u32 \<rightharpoonup> u8 list) \<Rightarrow> bool" where
  "hash_rep max_size sz m f \<longleftrightarrow> (\<forall>k. sz k < 2 ^ 32) \<and> (\<exists>es. holds max_size m es \<and> map_of es = f \<and> (\<forall>(k, v) \<in> set es. length v = sz k))"

lemma map_of_replace:
  "distinct (map fst (es1 @ (h, d0) # es2)) \<Longrightarrow> map_of (es1 @ (h, d) # es2) = (map_of (es1 @ (h, d0) # es2))(h \<mapsto> d)"
  by (induction es1) (auto simp: fun_upd_twist)

lemma map_of_append_new: "h \<notin> fst ` set es \<Longrightarrow> map_of (es @ [(h, d)]) = (map_of es)(h \<mapsto> d)"
  by (induction es) (auto simp: fun_upd_twist)

lemma hash_write_law:
  assumes "hash_rep max_size sz m f" "length d = sz h" "unat max_size + 8 + sz h < 2 ^ size_bits"
  shows "\<exists>e m'. write_int size_bits max_size h d m = Some (e, m') \<and> hash_rep max_size sz m' (if e = SUCCESS then f(h \<mapsto> d) else f)"
proof -
  obtain es where es: "holds max_size m es" "map_of es = f" "\<forall>(k, v) \<in> set es. length v = sz k" and sz: "\<forall>k. sz k < 2 ^ 32"
    using assms(1) by (auto simp: hash_rep_def)
  have bits: "unat max_size + 8 + length d < 2 ^ size_bits" using assms(2,3) by simp
  show ?thesis
  proof (cases "8 + length (hash_body es) + 8 + length d \<le> unat max_size")
    case False
    then show ?thesis using write_full [OF es(1) bits] assms(1) by auto
  next
    case fits: True
    show ?thesis
    proof (cases "h \<in> fst ` set es")
      case True
      then obtain d0 es1 es2 where e: "es = es1 @ (h, d0) # es2" by (rule takeWhile_key)
      then have "length d0 = length d" "distinct (map fst (es1 @ (h, d0) # es2))"
        using es(1,3) assms(2) by (auto simp: holds_def)
      then have "map_of (es1 @ (h, d) # es2) = f(h \<mapsto> d)" "\<forall>(k, v) \<in> set (es1 @ (h, d) # es2). length v = sz k"
        using map_of_replace [of es1 h d0 es2 d] es(2,3) assms(2) by (auto simp: e)
      moreover note write_replace [OF es(1) bits fits e \<open>length d0 = length d\<close>]
      ultimately show ?thesis using sz unfolding hash_rep_def by metis
    next
      case False
      then have "map_of (es @ [(h, d)]) = f(h \<mapsto> d)" "\<forall>(k, v) \<in> set (es @ [(h, d)]). length v = sz k"
        using map_of_append_new [of h es d] es(2,3) assms(2) by auto
      moreover note write_new [OF es(1) bits fits False]
      ultimately show ?thesis using sz unfolding hash_rep_def by metis
    qed
  qed
qed

lemma hash_read_law:
  assumes "hash_rep max_size sz m f"
  shows "read_int k (sz k) m = Some (case f k of None \<Rightarrow> (ENOENT, []) | Some v \<Rightarrow> (SUCCESS, v))"
proof -
  obtain es where es: "holds max_size m es" "map_of es = f" "\<forall>(k, v) \<in> set es. length v = sz k" "sz k < 2 ^ 32"
    using assms by (auto simp: hash_rep_def)
  then have "length v = sz k" if "f k = Some v" for v using map_of_SomeD [of es k v] that by auto
  then show ?thesis using hash_read_ok [OF es(1,4), of k] es(2) by (auto split: option.splits)
qed

interpretation hash_store: key_store "write_int size_bits max_size" "\<lambda>k. read_int k (sz k)" "hash_rep max_size sz"
    "\<lambda>k v. length v = sz k \<and> unat max_size + 8 + sz k < 2 ^ size_bits" SUCCESS ENOENT "[]" for size_bits max_size sz
  by unfold_locales (use hash_write_law hash_read_law in blast)+

lemma initialize_ok:
  assumes "8 \<le> unat max_size" "unat max_size \<le> length location" "length location < 2 ^ 32" "\<forall>k. sz k < 2 ^ 32"
  shows "\<exists>m. initialize_database name location = Some m \<and> CheckName name m = Some True \<and> hash_rep max_size sz m Map.empty"
proof -
  let ?m = "le_bytes 4 name @ le_bytes 4 (8 :: u32) @ drop 8 location"
  have "store 0 (le_bytes 4 name) location = Some (le_bytes 4 name @ drop 4 location)"
    using assms by (simp add: store_def)
  moreover have "store 4 (le_bytes 4 (8 :: u32)) (le_bytes 4 name @ take 4 (drop 4 location) @ drop 8 location) = Some ?m"
    using assms by (intro store_mid) simp_all
  moreover have "take 4 (drop 4 location) @ drop 8 location = drop 4 location"
    using append_take_drop_id [of 4 "drop 4 location"] by simp
  ultimately have "initialize_database name location = Some ?m"
    by (simp add: initialize_database_def header_size_def)
  moreover have "CheckName name ?m = Some True"
    using load_u32_mid [of "[]" 0 name] by (simp add: CheckName_def)
  moreover have "hash_rep max_size sz ?m Map.empty"
    unfolding hash_rep_def holds_def using assms by (intro conjI exI [of _ "[]"] exI [of _ name] exI [of _ "drop 8 location"]) simp_all
  ultimately show ?thesis by blast
qed

text \<open>
  C29: In a fresh data base every sequence of writes in which each key always comes with data of the same size runs
  to its end; each write either succeeds or is refused without any effect, and afterwards a read returns for every key
  exactly what the last successful write of that key stored, and ENOENT for a key without one.  The code reads and writes
  the headers, of 32 bits each, at any address; that is taken to work, as it does on a target that permits it.
\<close>
theorem hash_db_last_write_wins:
  assumes "8 \<le> unat max_size" "unat max_size \<le> length location" "length location < 2 ^ 32"
    and "\<forall>k. sz k < 2 ^ 32 \<and> unat max_size + 8 + sz k < 2 ^ size_bits"
    and "\<forall>(k, v) \<in> set ws. length v = sz k"
  shows "\<exists>m es m'. initialize_database name location = Some m \<and> CheckName name m = Some True \<and>
    write_all (write_int size_bits max_size) ws m = Some (es, m') \<and> length es = length ws \<and>
    (\<forall>k. read_int k (sz k) m' = Some (case taken SUCCESS ws es Map.empty k of None \<Rightarrow> (ENOENT, []) | Some v \<Rightarrow> (SUCCESS, v)))"
proof -
  obtain m where m: "initialize_database name location = Some m" "CheckName name m = Some True" "hash_rep max_size sz m Map.empty"
    using initialize_ok [of max_size location sz name] assms(1-4) by blast
  then show ?thesis
    using hash_store.last_write_wins [OF m(3), of ws size_bits] assms(4,5) by (auto simp: case_prod_beta)
qed

theorem hash_db_last_write_wins_witness:
  "\<exists>m es m'. initialize_database 7 (replicate 64 0) = Some m \<and> CheckName 7 m = Some True \<and>
    write_all (write_int 64 64) [(1, [10, 11]), (2, [20, 21]), (1, [12, 13])] m = Some (es, m') \<and>
    length es = length [(1, [10, 11]), (2, [20, 21]), (1 :: u32, [12, 13 :: u8])] \<and>
    (\<forall>k. read_int k 2 m' = Some (case taken SUCCESS [(1, [10, 11]), (2, [20, 21]), (1, [12, 13])] es Map.empty k of
      None \<Rightarrow> (ENOENT, []) | Some v \<Rightarrow> (SUCCESS, v)))"
  by (rule hash_db_last_write_wins [of 64 "replicate 64 0" "\<lambda>_. 2" 64 "[(1, [10, 11]), (2, [20, 21]), (1, [12, 13])]" 7]) simp_all

end
