(* ===== verification/I2c_Parts.thy ===== *)
theory I2c_Parts
  imports C_Io Complex_Main
begin

text \<open>
  Small parts on the I2C bus: the converters of Common/ads111x.c, the PWM controller of
  Common/PCA9685.c, the thermometer of Common/LM75.c and the 1-Wire bridge of
  Common/DS2482_I2C-1Wire.c.  The bus functions are recorded as calls, and what they return and store is a
  parameter.
\<close>

section \<open>The model\<close>

datatype part_call =
    Part_wr u8 u8 "u8 list"
  | Part_rd u8 u8 nat
  | Bridge_wr u8 "u8 list"
  | Bridge_poll u8 "u8 option" u8 u8
  | Bridge_rd "u8 list" nat

record part =
  part_status :: "nat \<Rightarrow> u8"
  part_bytes :: "nat \<Rightarrow> nat \<Rightarrow> u8"

type_synonym 'a part_m = "(part_call io, 'a) state"

definition part_write :: "part \<Rightarrow> u8 \<Rightarrow> u8 \<Rightarrow> u8 list \<Rightarrow> u8 part_m" where
  "part_write hw addr reg bs = ask (part_status hw) (Part_wr addr reg bs)"

definition part_read :: "part \<Rightarrow> u8 \<Rightarrow> u8 \<Rightarrow> nat \<Rightarrow> (u8 \<times> u8 list) part_m" where
  "part_read hw addr reg n = ask (\<lambda>i. (part_status hw i, map (part_bytes hw i) [0..<n])) (Part_rd addr reg n)"

subsection \<open>Analog to digital converters\<close>

definition CONV_REG :: u8 where "CONV_REG = 0"
definition CONF_REG :: u8 where "CONF_REG = 1"
definition ADS111X_CONV_IN_PROGRESS :: u8 where "ADS111X_CONV_IN_PROGRESS = 0x80"

text \<open>The enumerations are numbers.\<close>

record ads111x_t =
  ads_addr :: u8
  ads_gain :: u16
  ads_mode :: u16
  ads_rate :: u16
  ads_comp :: u16
  ads_cpol :: u16
  ads_comp_latch :: u16
  ads_comp_mode :: u16
  ads_config :: u16

definition check_ready :: "part \<Rightarrow> ads111x_t \<Rightarrow> u8 part_m" where
  "check_ready hw dev = do {
     (_, bs) \<leftarrow> part_read hw (ads_addr dev) CONF_REG 1;
     State_Monad.return (bs ! 0 AND 0x80)
   }"

definition ads111x_init :: "part \<Rightarrow> ads111x_t \<Rightarrow> (u8 \<times> ads111x_t) part_m" where
  "ads111x_init hw dev =
     (let c = push_bit 9 (ads_gain dev) OR push_bit 8 (ads_mode dev) OR push_bit 5 (ads_rate dev) OR push_bit 4 (ads_comp dev) OR
            push_bit 3 (ads_cpol dev) OR push_bit 2 (ads_comp_latch dev) OR ads_comp_mode dev
      in do {
        r \<leftarrow> part_write hw (ads_addr dev) CONF_REG (le_bytes 2 c);
        State_Monad.return (r, dev\<lparr>ads_config := c\<rparr>)
      })"

definition ads111x_start :: "part \<Rightarrow> ads111x_t \<Rightarrow> u16 \<Rightarrow> (u8 \<times> ads111x_t) part_m" where
  "ads111x_start hw dev channel =
     (let c = (ads_config dev AND NOT 0x7000) OR push_bit 12 channel OR push_bit 15 1
      in do {
        r \<leftarrow> part_write hw (ads_addr dev) CONF_REG (le_bytes 2 c);
        State_Monad.return (r, dev\<lparr>ads_config := c\<rparr>)
      })"

text \<open>The bytes are stored over the caller's result.\<close>

definition ads111x_read :: "part \<Rightarrow> ads111x_t \<Rightarrow> (u8 \<times> u16 option) part_m" where
  "ads111x_read hw dev = do {
     busy \<leftarrow> check_ready hw dev;
     if busy = 0 then State_Monad.return (ADS111X_CONV_IN_PROGRESS, None)
     else do {
       (r, bs) \<leftarrow> part_read hw (ads_addr dev) CONV_REG 2;
       State_Monad.return (r, Some (le_word bs))
     }
   }"

subsection \<open>PWM controller\<close>

record pca9685_t =
  pca_addr :: u8
  pca_ext_clk :: u8
  pca_psc :: u8

definition pca9685_init :: "part \<Rightarrow> pca9685_t \<Rightarrow> u8 part_m" where
  "pca9685_init hw dev = do {
     ret \<leftarrow> part_write hw (pca_addr dev) 0xFE [pca_psc dev];
     _ \<leftarrow> part_write hw (pca_addr dev) 0x00 [pca_ext_clk dev OR 0x20 OR 0x80];
     State_Monad.return ret
   }"

definition pca9685_set :: "part \<Rightarrow> pca9685_t \<Rightarrow> u8 \<Rightarrow> u16 \<Rightarrow> u8 part_m" where
  "pca9685_set hw dev channel val =
     part_write hw (pca_addr dev) (6 + channel * 4) [0, 0, ucast val, ucast (drop_bit 8 val AND 0x0F)]"

subsection \<open>Thermometer\<close>

definition LM75_TEMP_REG :: u8 where "LM75_TEMP_REG = 0x00"
definition LM75_CONFIG_REG :: u8 where "LM75_CONFIG_REG = 0x01"

record lm75_t =
  lm75_temp :: rat
  lm75_addr :: u8

definition lm75_init :: "part \<Rightarrow> lm75_t \<Rightarrow> bool \<Rightarrow> u8 part_m" where
  "lm75_init hw dev enable = part_write hw (lm75_addr dev) LM75_CONFIG_REG [if enable then 0 else 1]"

definition lm75_value :: "u8 \<Rightarrow> u8 \<Rightarrow> rat" where
  "lm75_value t0 t1 = of_int (sint t0) + (if t1 AND 0x80 \<noteq> 0 then 1 / 2 else 0)"

definition lm75_get_result :: "part \<Rightarrow> lm75_t \<Rightarrow> (u8 \<times> lm75_t) part_m" where
  "lm75_get_result hw dev = do {
     (r, bs) \<leftarrow> part_read hw (lm75_addr dev) LM75_TEMP_REG 2;
     State_Monad.return (r, dev\<lparr>lm75_temp := lm75_value (bs ! 0) (bs ! 1)\<rparr>)
   }"

subsection \<open>Bridge to the 1-Wire bus\<close>

definition DS2482_BUS_RESET :: u8 where "DS2482_BUS_RESET = 0xB4"
definition DS2482_DATA_REG :: u8 where "DS2482_DATA_REG = 0xE1"
definition DS2482_DRST :: u8 where "DS2482_DRST = 0xF0"
definition DS2482_WCFG :: u8 where "DS2482_WCFG = 0xD2"
definition DS2482_1WWB :: u8 where "DS2482_1WWB = 0xA5"
definition DS2482_1WRB :: u8 where "DS2482_1WRB = 0x96"
definition STATUS_1WB :: u8 where "STATUS_1WB = 0x01"
definition STATUS_PPD :: u8 where "STATUS_PPD = 0x02"
definition ONE_WIRE_SUCCESS :: u8 where "ONE_WIRE_SUCCESS = 0x00"
definition ONE_WIRE_NO_ECHO :: u8 where "ONE_WIRE_NO_ECHO = 0x01"
definition ONE_WIRE_INTERFACE_ERROR :: u8 where "ONE_WIRE_INTERFACE_ERROR = 0x05"

record ds2482_t =
  active_pullup :: u8
  strong_pullup :: u8
  bus_speed :: u8
  attemps :: u8

definition ds2482_init :: "part \<Rightarrow> ds2482_t \<Rightarrow> u8 part_m" where
  "ds2482_init hw dev = do {
     r \<leftarrow> ask (part_status hw) (Bridge_wr DS2482_DRST []);
     if r \<noteq> 0 then State_Monad.return ONE_WIRE_INTERFACE_ERROR
     else do {
       _ \<leftarrow> ask (part_status hw) (Bridge_wr DS2482_WCFG [active_pullup dev OR bus_speed dev OR strong_pullup dev OR push_bit 5 1]);
       State_Monad.return ONE_WIRE_SUCCESS
     }
   }"

text \<open>The function that polls a flag stores the status byte over the value it is given.\<close>

definition ds2482_one_wire_reset :: "part \<Rightarrow> ds2482_t \<Rightarrow> u8 part_m" where
  "ds2482_one_wire_reset hw dev = do {
     (ret, val) \<leftarrow> ask (\<lambda>i. (part_status hw i, part_bytes hw i 0)) (Bridge_poll 0 (Some DS2482_BUS_RESET) (attemps dev) STATUS_PPD);
     State_Monad.return
       (if ret = ONE_WIRE_SUCCESS then ONE_WIRE_SUCCESS
        else if val AND STATUS_PPD \<noteq> 0 then ONE_WIRE_SUCCESS else ONE_WIRE_NO_ECHO)
   }"

definition ds2482_one_wire_write :: "part \<Rightarrow> ds2482_t \<Rightarrow> u8 \<Rightarrow> u8 part_m" where
  "ds2482_one_wire_write hw dev val = ask (part_status hw) (Bridge_poll DS2482_1WWB (Some val) (attemps dev) STATUS_1WB)"

definition ds2482_one_wire_read :: "part \<Rightarrow> ds2482_t \<Rightarrow> u8 part_m" where
  "ds2482_one_wire_read hw dev = do {
     _ \<leftarrow> ask (part_status hw) (Bridge_poll DS2482_1WRB None (attemps dev) STATUS_1WB);
     ask (\<lambda>i. part_bytes hw i 0) (Bridge_rd [DS2482_DATA_REG, DS2482_DATA_REG] 1)
   }"

section \<open>The configuration of the converters\<close>

text \<open>Starting a conversion selects the channel and sets the start bit, and keeps every other field.\<close>

lemma start_config:
  "\<exists>r s'. run_state (ads111x_start hw dev channel) s = (r, s') \<and>
    take_bit 3 (drop_bit 12 (ads_config (snd r))) = take_bit 3 channel \<and> bit (ads_config (snd r)) 15 \<and>
    ads_config (snd r) AND 0x0FFF = ads_config dev AND 0x0FFF"
proof -
  define c where "c = (ads_config dev AND NOT 0x7000) OR push_bit 12 channel OR push_bit 15 1"
  have "run_state (ads111x_start hw dev channel) s =
      ((part_status hw (asked s), dev\<lparr>ads_config := c\<rparr>), s\<lparr>trace := trace s @ [Part_wr (ads_addr dev) CONF_REG (le_bytes 2 c)], asked := Suc (asked s)\<rparr>)"
    by (simp add: ads111x_start_def part_write_def run_simps c_def Let_def)
  moreover have "take_bit 3 (drop_bit 12 c) = take_bit 3 channel"
  proof (rule bit_word_eqI)
    fix n :: nat
    have "n = 0 \<or> n = 1 \<or> n = 2 \<or> 3 \<le> n" by arith
    then show "bit (take_bit 3 (drop_bit 12 c)) n \<longleftrightarrow> bit (take_bit 3 channel) n"
      by (elim disjE) (simp_all add: c_def bit_simps)
  qed
  moreover have "bit c 15" by (simp add: c_def bit_simps)
  moreover have "c AND 0x0FFF = ads_config dev AND 0x0FFF"
  proof -
    have "(x OR push_bit 12 y) AND 0x0FFF = x AND 0x0FFF" for x y :: u16
    proof -
      have "(0x0FFF :: u16) = mask 12" by (simp add: mask_eq_exp_minus_1)
      then show ?thesis by (simp only: take_bit_eq_mask [symmetric]) (simp add: take_bit_push_bit)
    qed
    moreover have "push_bit 15 1 = (push_bit 12 8 :: u16)" by simp
    moreover have "(ads_config dev AND NOT 0x7000) AND 0x0FFF = ads_config dev AND 0x0FFF" by (simp add: and.assoc)
    ultimately show ?thesis by (simp only: c_def push_bit_or [symmetric])
  qed
  ultimately show ?thesis by simp
qed

text \<open>The configuration goes out low byte first.  A converter that takes the high byte first finds the upper bit of the
  data rate where it expects the start bit.\<close>

lemma start_bit_misplaced:
  fixes c :: u16
  assumes "c = (ads_config dev AND NOT 0x7000) OR push_bit 12 channel OR push_bit 15 1"
  shows "trace (snd (run_state (ads111x_start hw dev channel) s)) = trace s @ [Part_wr (ads_addr dev) CONF_REG (le_bytes 2 c)]"
    and "bit (hd (le_bytes 2 c)) 7 \<longleftrightarrow> bit (ads_config dev) 7"
  by (simp_all add: assms ads111x_start_def part_write_def run_simps Let_def le_bytes_2 bit_simps)

section \<open>The other parts\<close>

text \<open>The thermometer reports half degrees between -128 and 127.5.\<close>

lemma lm75_range: "- 128 \<le> lm75_value t0 t1" "lm75_value t0 t1 \<le> 255 / 2"
proof -
  have "- 128 \<le> sint t0" "sint t0 \<le> 127" using sint_ge [of t0] sint_lt [of t0] by simp_all
  then have "- 128 \<le> (of_int (sint t0) :: rat)" "(of_int (sint t0) :: rat) \<le> 127" by linarith+
  then show "- 128 \<le> lm75_value t0 t1" "lm75_value t0 t1 \<le> 255 / 2" by (auto simp: lm75_value_def)
qed

text \<open>The sixteen channels of the PWM controller have registers of their own, and the twelve bits of the value arrive.\<close>

lemma pca9685_registers:
  assumes "channel < 16" "channel' < 16" "channel \<noteq> channel'"
  shows "6 + channel * 4 \<noteq> 6 + channel' * (4 :: u8)"
proof -
  have "unat channel < 16" "unat channel' < 16" using assms(1,2) by (simp_all add: word_less_nat_alt)
  then have "unat (channel * 4) = unat channel * 4" "unat (channel' * 4) = unat channel' * 4"
    by (simp_all add: unat_word_ariths)
  then show ?thesis using assms(3) by (metis add_left_cancel mult_cancel_right unsigned_word_eqI zero_neq_numeral)
qed

text \<open>The bridge reports an answer from the bus when either the poll or the presence bit of the status says so.\<close>

lemma bridge_reset_result:
  "fst (run_state (ds2482_one_wire_reset hw dev) s) =
    (if part_status hw (asked s) = 0 \<or> bit (part_bytes hw (asked s) 0) 1 then ONE_WIRE_SUCCESS else ONE_WIRE_NO_ECHO)"
proof -
  have "(x AND STATUS_PPD \<noteq> 0) = bit x 1" for x :: u8
    using and_exp_eq_0_iff_not_bit [of x 1] by (simp add: STATUS_PPD_def)
  then show ?thesis by (simp add: ds2482_one_wire_reset_def run_simps ONE_WIRE_SUCCESS_def)
qed

end
