(* ===== verification/Sw_I2c_Struct.thy ===== *)
theory Sw_I2c_Struct
  imports Sw_I2c
begin

text \<open>
  The older I2C master of stm32/SW_I2C.c, which takes a transfer from a structure and counts the
  structure's own members down while it runs.  The levels on the two lines are the same calls as in the newer driver.
  A pointer is the list of the bytes from where it points to the end of its buffer; to go beyond has no value.
\<close>

section \<open>The model\<close>

record i2c_sw =
  sw_DelayValue :: u16
  I2C_Address :: u8
  Reg_Address :: "u8 list"
  Reg_AddressOrLen :: u8
  pBuffer :: "u8 list"
  pBufferSize :: u8

definition I2C__Start :: "answers \<Rightarrow> u16 \<Rightarrow> u16 i2c" where
  "I2C__Start ans v = do {
     call (Sda True); call (Scl True); call (Delay v);
     a \<leftarrow> ask ans Sda_read;
     b \<leftarrow> ask ans Scl_read;
     if a OR b = 0 then State_Monad.return I2C_BUS_BUSY
     else do {
       call (Sda False); call (Delay v); call (Scl False); call (Delay v);
       State_Monad.return I2C_SUCCESS
     }
   }"

definition I2C__ReStart :: "u16 \<Rightarrow> unit i2c" where
  "I2C__ReStart v = do {
     call (Sda True); call (Scl True); call (Delay v); call (Sda False); call (Delay v); call (Scl False)
   }"

definition I2C__Stop :: "u16 \<Rightarrow> unit i2c" where
  "I2C__Stop v = do {
     call (Delay v); call (Sda False); call (Scl True); call (Delay v); call (Sda True); call (Delay v)
   }"

definition I2C__Clock :: "answers \<Rightarrow> u16 \<Rightarrow> u16 i2c" where
  "I2C__Clock ans v = do {
     call (Scl True); call (Delay v);
     Result \<leftarrow> ask ans Sda_read;
     call (Scl False); call (Delay v);
     State_Monad.return Result
   }"

fun put_bits :: "answers \<Rightarrow> u16 \<Rightarrow> u8 \<Rightarrow> u8 list \<Rightarrow> unit i2c" where
  "put_bits ans v data [] = State_Monad.return ()"
| "put_bits ans v data (m # ms) = do {
     call (Sda (data AND m \<noteq> 0)); I2C__Clock ans v; put_bits ans v data ms
   }"

definition I2C__Write :: "answers \<Rightarrow> u16 \<Rightarrow> u8 \<Rightarrow> u16 i2c" where
  "I2C__Write ans v data = do { put_bits ans v data masks; call (Sda True); I2C__Clock ans v }"

fun get_bits :: "answers \<Rightarrow> u16 \<Rightarrow> u8 \<Rightarrow> u8 list \<Rightarrow> u8 i2c" where
  "get_bits ans v data [] = State_Monad.return data"
| "get_bits ans v data (m # ms) = do {
     level \<leftarrow> I2C__Clock ans v;
     get_bits ans v (if level \<noteq> 0 then data OR m else data) ms
   }"

definition I2C__Read :: "answers \<Rightarrow> u16 \<Rightarrow> bool \<Rightarrow> u8 i2c" where
  "I2C__Read ans v ack = do {
     data \<leftarrow> get_bits ans v 0 masks;
     (if ack then do { call (Sda False); I2C__Clock ans v; call (Sda True) }
      else do { call (Sda True); I2C__Clock ans v; skip });
     State_Monad.return data
   }"

text \<open>\<open>while (pBufferSize--) *pBuffer++ = I2C__Read(pBufferSize ? 1 : 0)\<close>: the bytes stored and what is left of the
  buffer.  The counter is 255 afterwards.\<close>

fun read_loop :: "answers \<Rightarrow> u16 \<Rightarrow> nat \<Rightarrow> u8 list \<Rightarrow> (u8 list \<times> u8 list) option i2c" where
  "read_loop ans v 0 buf = State_Monad.return (Some ([], buf))"
| "read_loop ans v (Suc n) buf = do {
     b \<leftarrow> I2C__Read ans v (n \<noteq> 0);
     case buf of
       [] \<Rightarrow> State_Monad.return None
     | _ # rest \<Rightarrow> do {
         r \<leftarrow> read_loop ans v n rest;
         State_Monad.return (map_option (\<lambda>(bs, left). (b # bs, left)) r)
       }
   }"

text \<open>\<open>while (pBufferSize--) I2C__Write(*pBuffer++)\<close>\<close>

fun write_loop :: "answers \<Rightarrow> u16 \<Rightarrow> nat \<Rightarrow> u8 list \<Rightarrow> u8 list option i2c" where
  "write_loop ans v 0 buf = State_Monad.return (Some buf)"
| "write_loop ans v (Suc n) [] = State_Monad.return None"
| "write_loop ans v (Suc n) (b # buf) = do { I2C__Write ans v b; write_loop ans v n buf }"

text \<open>\<open>while (len-- && Result == ACK) Result = I2C__Write(*p++)\<close>: the result, the rest of the bytes and the counter.\<close>

fun write_acked :: "answers \<Rightarrow> u16 \<Rightarrow> u16 \<Rightarrow> nat \<Rightarrow> u8 list \<Rightarrow> (u16 \<times> u8 list \<times> u8) option i2c" where
  "write_acked ans v Result 0 p = State_Monad.return (Some (Result, p, 255))"
| "write_acked ans v Result (Suc n) p =
    (if Result \<noteq> ACK then State_Monad.return (Some (Result, p, of_nat n))
     else case p of
       [] \<Rightarrow> State_Monad.return None
     | b # bs \<Rightarrow> do { r \<leftarrow> I2C__Write ans v b; write_acked ans v r n bs })"

text \<open>Between start and stop, and the frame around it.\<close>

definition transfer :: "answers \<Rightarrow> u16 \<Rightarrow> 'a \<Rightarrow> 'a option i2c \<Rightarrow> 'a option i2c" where
  "transfer ans v busy body = do {
     st \<leftarrow> I2C__Start ans v;
     if st \<noteq> I2C_SUCCESS then State_Monad.return (Some busy)
     else do {
       r \<leftarrow> body;
       case r of None \<Rightarrow> State_Monad.return None
       | Some x \<Rightarrow> do { I2C__Stop v; State_Monad.return (Some x) }
     }
   }"

text \<open>A read returns the bytes it has stored behind the old pointer.\<close>

definition read_into :: "answers \<Rightarrow> i2c_sw \<Rightarrow> (u16 \<times> u8 list \<times> i2c_sw) option i2c" where
  "read_into ans s = do {
     r \<leftarrow> read_loop ans (sw_DelayValue s) (unat (pBufferSize s)) (pBuffer s);
     State_Monad.return (map_option (\<lambda>(bs, left). (I2C_SUCCESS, bs, s\<lparr>pBuffer := left, pBufferSize := 255\<rparr>)) r)
   }"

definition SW_I2C_Read_Reg :: "answers \<Rightarrow> i2c_sw \<Rightarrow> (u16 \<times> u8 list \<times> i2c_sw) option i2c" where
  "SW_I2C_Read_Reg ans s = (let v = sw_DelayValue s in
     transfer ans v (I2C_BUS_BUSY, [], s) (do {
       a \<leftarrow> I2C__Write ans v (I2C_Address s);
       if a \<noteq> ACK then State_Monad.return (Some (I2C_ADD_NOT_EXIST, [], s))
       else do {
         a \<leftarrow> I2C__Write ans v (Reg_AddressOrLen s);
         if a \<noteq> ACK then State_Monad.return (Some (I2C_ADD_NOT_EXIST, [], s))
         else do {
           I2C__ReStart v;
           a \<leftarrow> I2C__Write ans v (I2C_Address s OR 1);
           if a \<noteq> ACK then State_Monad.return (Some (I2C_ADD_NOT_EXIST, [], s))
           else read_into ans s
         }
       }
     }))"

definition SW_I2C_Read_Page :: "answers \<Rightarrow> i2c_sw \<Rightarrow> (u16 \<times> u8 list \<times> i2c_sw) option i2c" where
  "SW_I2C_Read_Page ans s = (let v = sw_DelayValue s in
     transfer ans v (I2C_BUS_BUSY, [], s) (do {
       a \<leftarrow> I2C__Write ans v (I2C_Address s AND 0xFE);
       if a \<noteq> ACK then State_Monad.return (Some (I2C_ADD_NOT_EXIST, [], s))
       else do {
         r \<leftarrow> write_acked ans v ACK (unat (Reg_AddressOrLen s)) (Reg_Address s);
         case r of None \<Rightarrow> State_Monad.return None
         | Some (Result, p, len) \<Rightarrow> (let s1 = s\<lparr>Reg_Address := p, Reg_AddressOrLen := len\<rparr> in do {
             I2C__ReStart v;
             a \<leftarrow> I2C__Write ans v (I2C_Address s OR 0x01);
             if a \<noteq> ACK then State_Monad.return (Some (Result, [], s1))
             else read_into ans s1
           })
       }
     }))"

definition SW_I2C_Write_Reg :: "answers \<Rightarrow> i2c_sw \<Rightarrow> (u16 \<times> i2c_sw) option i2c" where
  "SW_I2C_Write_Reg ans s = (let v = sw_DelayValue s in
     transfer ans v (I2C_BUS_BUSY, s) (do {
       a \<leftarrow> I2C__Write ans v (I2C_Address s AND 0xFE);
       if a \<noteq> ACK then State_Monad.return (Some (I2C_ADD_NOT_EXIST, s))
       else do {
         a \<leftarrow> I2C__Write ans v (Reg_AddressOrLen s);
         if a \<noteq> ACK then State_Monad.return (Some (I2C_ADD_NOT_EXIST, s))
         else do {
           r \<leftarrow> write_loop ans v (unat (pBufferSize s)) (pBuffer s);
           State_Monad.return (map_option (\<lambda>left. (I2C_SUCCESS, s\<lparr>pBuffer := left, pBufferSize := 255\<rparr>)) r)
         }
       }
     }))"

definition SW_I2C_Write_Page :: "answers \<Rightarrow> i2c_sw \<Rightarrow> (u16 \<times> i2c_sw) option i2c" where
  "SW_I2C_Write_Page ans s = (let v = sw_DelayValue s in
     transfer ans v (I2C_BUS_BUSY, s) (do {
       a \<leftarrow> I2C__Write ans v (I2C_Address s AND 0xFE);
       if a \<noteq> ACK then State_Monad.return (Some (I2C_ADD_NOT_EXIST, s))
       else do {
         r \<leftarrow> write_acked ans v ACK (unat (Reg_AddressOrLen s)) (Reg_Address s);
         case r of None \<Rightarrow> State_Monad.return None
         | Some (Result, p, len) \<Rightarrow> do {
             q \<leftarrow> write_acked ans v Result (unat (pBufferSize s)) (pBuffer s);
             State_Monad.return (map_option (\<lambda>(Result, b, n).
               (Result, s\<lparr>Reg_Address := p, Reg_AddressOrLen := len, pBuffer := b, pBufferSize := n\<rparr>)) q)
           }
       }
     }))"

definition SW_I2C_Write_Byte :: "answers \<Rightarrow> i2c_sw \<Rightarrow> u8 \<Rightarrow> u8 \<Rightarrow> (u16 \<times> i2c_sw) option i2c" where
  "SW_I2C_Write_Byte ans s Reg val = SW_I2C_Write_Reg ans (s\<lparr>Reg_AddressOrLen := Reg, pBuffer := [val]\<rparr>)"

definition reset_lines :: "u16 \<Rightarrow> u16 i2c" where
  "reset_lines v = do {
     call (Sda False); call (Scl False);
     for_each (\<lambda>_. call (Delay v)) [0..<100];
     call (Sda True); call (Scl True);
     State_Monad.return I2C_BUS_BUSY
   }"

definition SW_I2C_Check_Bus :: "answers \<Rightarrow> i2c_sw \<Rightarrow> u16 i2c" where
  "SW_I2C_Check_Bus ans s = do {
     a \<leftarrow> ask ans Sda_read;
     if a = 0 then reset_lines (sw_DelayValue s)
     else do {
       b \<leftarrow> ask ans Scl_read;
       if b = 0 then reset_lines (sw_DelayValue s) else State_Monad.return I2C_SUCCESS
     }
   }"

section \<open>The same signals as the newer driver\<close>

abbreviation drv :: "u16 \<Rightarrow> i2c_driver" where
  "drv v \<equiv> \<lparr>DelayValue = v, has_delay = True\<rparr>"

lemma same_signals:
  "I2C__ReStart v = SW_I2C_ReStart (drv v)" "I2C__Stop v = SW_I2C_Stop (drv v)" "I2C__Clock ans v = SW_I2C_Clock ans (drv v)"
  by (simp_all add: I2C__ReStart_def SW_I2C_ReStart_def I2C__Stop_def SW_I2C_Stop_def I2C__Clock_def SW_I2C_Clock_def delay_def)

lemma same_write: "I2C__Write ans v data = SW_I2C_Write ans (drv v) data"
proof -
  have "put_bits ans v data ms = write_bits ans (drv v) data ms" for ms by (induction ms) (simp_all add: same_signals)
  then show ?thesis by (simp add: I2C__Write_def SW_I2C_Write_def same_signals)
qed

lemma same_read: "I2C__Read ans v ack = SW_I2C_Read ans (drv v) ack"
proof -
  have "get_bits ans v data ms = read_bits ans (drv v) data ms" for data ms
    by (induction ms arbitrary: data) (simp_all add: same_signals)
  then show ?thesis by (simp add: I2C__Read_def SW_I2C_Read_def same_signals)
qed

lemma inside_legacy [inv_intros]:
  "inside (I2C__ReStart v)" "inside (I2C__Write ans v data)" "inside (I2C__Read ans v ack)"
  by (simp_all add: same_signals same_write same_read inside_restart inside_write inside_read)

section \<open>Every transfer is framed\<close>

lemma inside_read_loop [inv_intros]: "inside (read_loop ans v n buf)"
  by (induction n arbitrary: buf) (auto intro!: inv_intros split: list.split)

lemma inside_write_loop [inv_intros]: "inside (write_loop ans v n buf)"
  by (induction ans v n buf rule: write_loop.induct) (simp_all add: inv_intros)

lemma inside_write_acked [inv_intros]: "inside (write_acked ans v r n p)"
  by (induction n arbitrary: r p) (auto intro!: inv_intros split: list.split)

lemma inside_read_into [inv_intros]: "inside (read_into ans s)"
  unfolding read_into_def by (intro inv_intros)

text \<open>The start condition, when one of the lines is high.\<close>

lemma legacy_start_run:
  assumes "at s True True syms n"
  shows "\<exists>s'. run_state (I2C__Start ans v) s = (if ans n OR ans (Suc n) = 0 then I2C_BUS_BUSY else I2C_SUCCESS, s') \<and>
    (if ans n OR ans (Suc n) = 0 then at s' True True syms (n + 2) else at s' False False (syms @ [START]) (n + 2))"
  using assms by (auto simp: I2C__Start_def run_simps at_def heard_def)

text \<open>A transfer that stays inside of its buffers: on a busy bus, where one of the lines reads low twice, it reports that and
  a device hears nothing; otherwise there is one start and one stop condition.\<close>

definition framed_if_defined :: "answers \<Rightarrow> 'a \<Rightarrow> 'a option i2c \<Rightarrow> bool" where
  "framed_if_defined ans busy m \<longleftrightarrow> (\<forall>v s'. run_state m io_start = (Some v, s') \<longrightarrow> sda (heard s') \<and> scl (heard s') \<and>
     (if ans 0 OR ans 1 = 0 then v = busy \<and> seen (heard s') = []
      else \<exists>mid. seen (heard s') = START # mid @ [STOP] \<and> STOP \<notin> set mid))"

lemma framed_struct_transfer:
  assumes "inside body"
  shows "framed_if_defined ans busy (transfer ans v busy body)"
proof -
  obtain s1 where 1: "run_state (I2C__Start ans v) io_start = (if ans 0 OR ans 1 = 0 then I2C_BUS_BUSY else I2C_SUCCESS, s1)"
    "if ans 0 OR ans 1 = 0 then at s1 True True [] 2 else at s1 False False ([] @ [START]) 2"
    using legacy_start_run [OF at_start, of ans v] unfolding add_0 One_nat_def by blast
  show ?thesis
  proof (cases "ans 0 OR ans 1 = 0")
    case True
    then show ?thesis
      using 1 by (simp add: framed_if_defined_def transfer_def I2C_BUS_BUSY_def I2C_SUCCESS_def at_def)
  next
    case False
    obtain r s2 x2 mid k where 2: "run_state body s1 = (r, s2)" "at s2 x2 False ([START] @ mid) k" "STOP \<notin> set mid"
      using assms 1(2) False unfolding inside_def by fastforce
    obtain s3 where 3: "run_state (I2C__Stop v) s2 = ((), s3)" "at s3 True True (([START] @ mid) @ [STOP]) k"
      using stop_run [OF 2(2)] by (auto simp: same_signals)
    show ?thesis
      using 1(1) False 2 3 by (cases r) (auto simp: framed_if_defined_def transfer_def at_def)
  qed
qed

lemma struct_transfers_framed:
  "framed_if_defined ans (I2C_BUS_BUSY, [], s) (SW_I2C_Read_Reg ans s)"
  "framed_if_defined ans (I2C_BUS_BUSY, [], s) (SW_I2C_Read_Page ans s)"
  "framed_if_defined ans (I2C_BUS_BUSY, s) (SW_I2C_Write_Reg ans s)"
  "framed_if_defined ans (I2C_BUS_BUSY, s) (SW_I2C_Write_Page ans s)"
  unfolding SW_I2C_Read_Reg_def SW_I2C_Read_Page_def SW_I2C_Write_Reg_def SW_I2C_Write_Page_def Let_def
  by (intro framed_struct_transfer inv_intros)+

lemma struct_write_byte_framed:
  "framed_if_defined ans (I2C_BUS_BUSY, s\<lparr>Reg_AddressOrLen := Reg, pBuffer := [val]\<rparr>) (SW_I2C_Write_Byte ans s Reg val)"
  unfolding SW_I2C_Write_Byte_def by (rule struct_transfers_framed(3))

section \<open>The counter that is not reset\<close>

lemma write_loop_defined:
  "fst (run_state (write_loop ans v n buf) s) = (if n \<le> length buf then Some (drop n buf) else None)"
  by (induction ans v n buf arbitrary: s rule: write_loop.induct) (simp_all add: case_prod_beta)

text \<open>After a successful write the counter of the structure is 255.  \<open>SW_I2C_Write_Byte\<close> does not set the counter: unless it is 1, or
  0, the function sends bytes from beyond its one-byte buffer.\<close>

lemma struct_write_result:
  assumes "ans 0 OR ans 1 \<noteq> 0" "ans 10 = 0" "ans 19 = 0"
  shows "fst (run_state (SW_I2C_Write_Reg ans s) io_start) =
    (if unat (pBufferSize s) \<le> length (pBuffer s)
     then Some (I2C_SUCCESS, s\<lparr>pBuffer := drop (unat (pBufferSize s)) (pBuffer s), pBufferSize := 255\<rparr>) else None)"
proof -
  let ?v = "sw_DelayValue s"
  obtain s1 where 1: "run_state (I2C__Start ans ?v) io_start = (I2C_SUCCESS, s1)" "at s1 False False [START] 2"
    using legacy_start_run [OF at_start, of ans ?v] assms(1) by (auto simp: numeral_2_eq_2)
  obtain s2 where 2: "run_state (I2C__Write ans ?v (I2C_Address s AND 0xFE)) s1 = (ans 10, s2)"
    "at s2 True False ([START] @ write_syms (I2C_Address s AND 0xFE)) 11"
    using write_run [OF 1(2), of ans "drv ?v" "I2C_Address s AND 0xFE"] by (auto simp: same_write)
  obtain s3 where 3: "run_state (I2C__Write ans ?v (Reg_AddressOrLen s)) s2 = (ans 19, s3)"
    using write_run [OF 2(2), of ans "drv ?v" "Reg_AddressOrLen s"] by (auto simp: same_write)
  show ?thesis
    using write_loop_defined [of ans ?v "unat (pBufferSize s)" "pBuffer s" s3] 1(1) 2(1) 3 assms(2,3)
    by (auto simp: SW_I2C_Write_Reg_def transfer_def Let_def ACK_def case_prod_beta split: prod.splits option.splits)
qed

lemma write_byte_overruns:
  assumes "ans 0 OR ans 1 \<noteq> 0" "ans 10 = 0" "ans 19 = 0"
    and "fst (run_state (SW_I2C_Write_Byte ans s r val) io_start) = Some (I2C_SUCCESS, s')"
  shows "fst (run_state (SW_I2C_Write_Byte ans s' r' val') io_start) = None"
proof -
  have "pBufferSize s' = 255"
    using assms(4) struct_write_result [OF assms(1-3), of "s\<lparr>Reg_AddressOrLen := r, pBuffer := [val]\<rparr>"]
    by (auto simp: SW_I2C_Write_Byte_def split: if_splits)
  then show ?thesis
    using struct_write_result [OF assms(1-3), of "s'\<lparr>Reg_AddressOrLen := r', pBuffer := [val']\<rparr>"]
    by (simp add: SW_I2C_Write_Byte_def)
qed

end
