(* ===== verification/State_Machine_Cpp.thy ===== *)
theory State_Machine_Cpp
  imports C_Io
begin

text \<open>
  The C++ state machine of Common/state_machine.cpp.  A state has a hash and three methods, which return 0 or the
  hash of the state to go to; the methods are recorded as calls, and what they return is a parameter.
  \<open>current\<close> is the index of the current state in the array of states.
\<close>

section \<open>The model\<close>

datatype state_call = Enter nat | Work nat | Exit nat

record machine_io = "state_call io" +
  current :: nat
  mode_change_n :: bool

type_synonym 'a machine_m = "(machine_io, 'a) state"

definition the_machine :: "(nat \<times> bool) machine_m" where
  "the_machine = State (\<lambda>s. ((current s, mode_change_n s), s))"

definition set_current :: "nat \<Rightarrow> unit machine_m" where
  "set_current i = State (\<lambda>s. ((), s\<lparr>current := i\<rparr>))"

definition set_mode_change :: "bool \<Rightarrow> unit machine_m" where
  "set_mode_change b = State (\<lambda>s. ((), s\<lparr>mode_change_n := b\<rparr>))"

lemma run_machine [run_simps]:
  "run_state the_machine s = ((current s, mode_change_n s), s)"
  "run_state (set_current i) s = ((), s\<lparr>current := i\<rparr>)"
  "run_state (set_mode_change b) s = ((), s\<lparr>mode_change_n := b\<rparr>)"
  by (simp_all add: the_machine_def set_current_def set_mode_change_def)

fun find_from :: "u32 list \<Rightarrow> u32 \<Rightarrow> nat \<Rightarrow> nat option" where
  "find_from [] h i = None"
| "find_from (x # xs) h i = (if x = h then Some i else find_from xs h (Suc i))"

definition find_state_by_hash :: "u32 list \<Rightarrow> u32 \<Rightarrow> nat option" where
  "find_state_by_hash hashes h = find_from hashes h 0"

definition EINVAL_result :: int where
  "EINVAL_result = - 22"

definition Machine :: machine_io where
  "Machine = \<lparr>trace = [], asked = 0, current = 0, mode_change_n = True\<rparr>"

definition leave_current :: "(nat \<Rightarrow> u32) \<Rightarrow> u32 list \<Rightarrow> nat \<Rightarrow> nat \<Rightarrow> int machine_m" where
  "leave_current ans hashes i target = do {
     next \<leftarrow> ask ans (Exit i);
     case (if next \<noteq> 0 then find_state_by_hash hashes next else Some target) of
       None \<Rightarrow> State_Monad.return EINVAL_result
     | Some j \<Rightarrow> do { set_current j; set_mode_change True; State_Monad.return 0 }
   }"

definition work_state :: "(nat \<Rightarrow> u32) \<Rightarrow> u32 list \<Rightarrow> int machine_m" where
  "work_state ans hashes = do {
     (i, _) \<leftarrow> the_machine;
     next \<leftarrow> ask ans (Work i);
     if next \<noteq> 0 then
       case find_state_by_hash hashes next of
         None \<Rightarrow> State_Monad.return EINVAL_result
       | Some j \<Rightarrow> leave_current ans hashes i j
     else do {
       (_, changed) \<leftarrow> the_machine;
       if changed then do {
         next \<leftarrow> ask ans (Exit i);
         if next \<noteq> 0 then
           case find_state_by_hash hashes next of
             None \<Rightarrow> State_Monad.return EINVAL_result
           | Some j \<Rightarrow> do { set_current j; State_Monad.return 0 }
         else State_Monad.return 0
       } else State_Monad.return 0
     }
   }"

definition DoStep :: "(nat \<Rightarrow> u32) \<Rightarrow> u32 list \<Rightarrow> int machine_m" where
  "DoStep ans hashes = do {
     (i, changed) \<leftarrow> the_machine;
     if changed then do {
       next \<leftarrow> ask ans (Enter i);
       if next \<noteq> 0 then
         case find_state_by_hash hashes next of
           None \<Rightarrow> State_Monad.return EINVAL_result
         | Some j \<Rightarrow> do { set_current j; State_Monad.return 0 }
       else do { set_mode_change False; work_state ans hashes }
     } else work_state ans hashes
   }"

fun DoSteps :: "(nat \<Rightarrow> u32) \<Rightarrow> u32 list \<Rightarrow> nat \<Rightarrow> unit machine_m" where
  "DoSteps ans hashes 0 = skip"
| "DoSteps ans hashes (Suc n) = do { DoStep ans hashes; DoSteps ans hashes n }"

section \<open>Runs\<close>

lemma find_from_range: "find_from xs h i = Some j \<Longrightarrow> i \<le> j \<and> j < i + length xs \<and> xs ! (j - i) = h"
  by (induction xs arbitrary: i) (fastforce simp: nth_Cons' Suc_diff_le split: if_splits)+

lemma find_state_range: "find_state_by_hash hashes h = Some j \<Longrightarrow> j < length hashes \<and> hashes ! j = h"
  using find_from_range [of hashes h 0 j] by (simp add: find_state_by_hash_def)

text \<open>The state that was entered last.\<close>

fun entered :: "state_call list \<Rightarrow> nat option" where
  "entered [] = None"
| "entered (Enter i # es) = Some i"
| "entered (_ # es) = entered es"

text \<open>Reading the calls from the last one back: no state works before it was entered, and none is left
  that was not entered.\<close>

fun orderly :: "state_call list \<Rightarrow> bool" where
  "orderly [] = True"
| "orderly (Enter i # es) = orderly es"
| "orderly (Work i # es) = (entered es = Some i \<and> orderly es)"
| "orderly (Exit i # es) = (entered es = Some i \<and> orderly es)"

definition machine_inv :: "u32 list \<Rightarrow> machine_io \<Rightarrow> bool" where
  "machine_inv hashes s \<longleftrightarrow> current s < length hashes \<and> orderly (rev (trace s)) \<and>
     (\<not> mode_change_n s \<longrightarrow> entered (rev (trace s)) = Some (current s))"

lemma machine_start: "hashes \<noteq> [] \<Longrightarrow> machine_inv hashes Machine"
  by (simp add: machine_inv_def Machine_def)

lemma DoStep_inv:
  assumes "machine_inv hashes s"
  shows "machine_inv hashes (snd (run_state (DoStep ans hashes) s)) \<and> fst (run_state (DoStep ans hashes) s) \<in> {0, EINVAL_result}"
  using assms find_state_range [of hashes]
  by (auto simp: DoStep_def work_state_def leave_current_def machine_inv_def run_simps split: option.splits if_splits)

text \<open>Every run of the machine stays inside of its array of states, and calls \<open>work\<close> and \<open>exit\<close> only for the
  state that was entered last, whatever the methods return.\<close>

lemma machine_runs:
  assumes "hashes \<noteq> []"
  shows "machine_inv hashes (snd (run_state (DoSteps ans hashes n) Machine))"
proof -
  have "machine_inv hashes (snd (run_state (DoSteps ans hashes n) s))" if "machine_inv hashes s" for s
    using that
  proof (induction n arbitrary: s)
    case (Suc n)
    show ?case using Suc.IH [of "snd (run_state (DoStep ans hashes) s)"] DoStep_inv [OF Suc.prems, of ans]
      by (simp add: run_simps case_prod_beta)
  qed (simp add: run_simps)
  then show ?thesis using machine_start [OF assms] by blast
qed

text \<open>The call of \<open>exit\<close> in the last branch of \<open>DoStep\<close> is never made: when \<open>work\<close> stays in its state, the step
  ends without any further call.\<close>

lemma last_branch_dead:
  assumes "ans (asked s + (if mode_change_n s then 1 else 0)) = 0" "mode_change_n s \<Longrightarrow> ans (asked s) = 0"
  shows "trace (snd (run_state (DoStep ans hashes) s)) =
    trace s @ (if mode_change_n s then [Enter (current s)] else []) @ [Work (current s)]"
  using assms by (auto simp: DoStep_def work_state_def run_simps)

end
