(* ===== verification/Mfrc522.thy ===== *)
theory Mfrc522
  imports Mfrc522_Rfid
begin

text \<open>
  The older card reader driver of Common/MFRC522.c.  It drives the same chip as
  Common/mfrc522_rfid.c, so its calls are recorded in the same way and its operations can be
  compared with those of \<open>Mfrc522_Rfid\<close>.  It differs in that the caller owns the serial number
  and the key, that the arrays and results of the two session functions are static and so
  live from call to call, and that nothing bounds what the chip stores into short arrays; such a
  store has no value (\<open>None\<close>).
\<close>

section \<open>The header\<close>

datatype MFRC522_RXGainTypeDef = RX_Gain18dB | RX_Gain23dB | RX_Gain33dB | RX_Gain38dB | RX_Gain43dB | RX_Gain48dB | RX_Gain

fun gain_code :: "MFRC522_RXGainTypeDef \<Rightarrow> u8" where
  "gain_code RX_Gain18dB = 0x20"
| "gain_code RX_Gain23dB = 0x30"
| "gain_code RX_Gain33dB = 0x40"
| "gain_code RX_Gain38dB = 0x50"
| "gain_code RX_Gain43dB = 0x60"
| "gain_code RX_Gain48dB = 0x70"
| "gain_code RX_Gain = 0x71"

text \<open>The settings; the function pointers of the structure are the calls.\<close>

record MFRC522_StructTypeDef =
  MFRC522_RXGain :: MFRC522_RXGainTypeDef

text \<open>The status codes, commands and tasks are those of the newer header, which adds
  \<open>MI_INTERFACE_ERROR\<close> at the end of the first.\<close>

type_synonym MFRC522_StatusTypeDef = mfrc_status
type_synonym MFRC522_CommandsTypeDef = mfrc_cmd
type_synonym MFRC522_ToDoTypeDef = mfrc_op

definition MFRC522_MAX_LEN :: nat where "MFRC522_MAX_LEN = 16"

datatype (plugins only: code) MRFC522_RegTypeDef =
  MFRC522_REG_RESERVED00 | MFRC522_REG_COMMAND | MFRC522_REG_COMM_IE_N | MFRC522_REG_DIV1_EN
  | MFRC522_REG_COMM_IRQ | MFRC522_REG_DIV_IRQ | MFRC522_REG_ERROR | MFRC522_REG_STATUS1 | MFRC522_REG_STATUS2
  | MFRC522_REG_FIFO_DATA | MFRC522_REG_FIFO_LEVEL | MFRC522_REG_WATER_LEVEL | MFRC522_REG_CONTROL
  | MFRC522_REG_BIT_FRAMING | MFRC522_REG_COLL | MFRC522_REG_RESERVED01 | MFRC522_REG_RESERVED10
  | MFRC522_REG_MODE | MFRC522_REG_TX_MODE | MFRC522_REG_RX_MODE | MFRC522_REG_TX_CONTROL | MFRC522_REG_TX_AUTO
  | MFRC522_REG_TX_SELL | MFRC522_REG_RX_SELL | MFRC522_REG_RX_THRESHOLD | MFRC522_REG_DEMOD
  | MFRC522_REG_RESERVED11 | MFRC522_REG_RESERVED12 | MFRC522_REG_MIFARE | MFRC522_REG_RESERVED13
  | MFRC522_REG_RESERVED14 | MFRC522_REG_SERIALSPEED | MFRC522_REG_RESERVED20 | MFRC522_REG_CRC_RESULT_M
  | MFRC522_REG_CRC_RESULT_L | MFRC522_REG_RESERVED21 | MFRC522_REG_MOD_WIDTH | MFRC522_REG_RESERVED22
  | MFRC522_REG_RF_CFG | MFRC522_REG_GS_N | MFRC522_REG_CWGS_PREG | MFRC522_REG__MODGS_PREG
  | MFRC522_REG_T_MODE | MFRC522_REG_T_PRESCALER | MFRC522_REG_T_RELOAD_H | MFRC522_REG_T_RELOAD_L
  | MFRC522_REG_T_COUNTER_VALUE_H | MFRC522_REG_T_COUNTER_VALUE_L | MFRC522_REG_RESERVED30
  | MFRC522_REG_TEST_SEL1 | MFRC522_REG_TEST_SEL2 | MFRC522_REG_TEST_PIN_EN | MFRC522_REG_TEST_PIN_VALUE
  | MFRC522_REG_TEST_BUS | MFRC522_REG_AUTO_TEST | MFRC522_REG_VERSION | MFRC522_REG_ANALOG_TEST
  | MFRC522_REG_TEST_ADC1 | MFRC522_REG_TEST_ADC2 | MFRC522_REG_TEST_ADC0 | MFRC522_REG_RESERVED31
  | MFRC522_REG_RESERVED32 | MFRC522_REG_RESERVED33 | MFRC522_REG_RESERVED34

fun reg_code :: "MRFC522_RegTypeDef \<Rightarrow> u8" where
  "reg_code MFRC522_REG_RESERVED00 = 0x00"
| "reg_code MFRC522_REG_COMMAND = 0x01"
| "reg_code MFRC522_REG_COMM_IE_N = 0x02"
| "reg_code MFRC522_REG_DIV1_EN = 0x03"
| "reg_code MFRC522_REG_COMM_IRQ = 0x04"
| "reg_code MFRC522_REG_DIV_IRQ = 0x05"
| "reg_code MFRC522_REG_ERROR = 0x06"
| "reg_code MFRC522_REG_STATUS1 = 0x07"
| "reg_code MFRC522_REG_STATUS2 = 0x08"
| "reg_code MFRC522_REG_FIFO_DATA = 0x09"
| "reg_code MFRC522_REG_FIFO_LEVEL = 0x0A"
| "reg_code MFRC522_REG_WATER_LEVEL = 0x0B"
| "reg_code MFRC522_REG_CONTROL = 0x0C"
| "reg_code MFRC522_REG_BIT_FRAMING = 0x0D"
| "reg_code MFRC522_REG_COLL = 0x0E"
| "reg_code MFRC522_REG_RESERVED01 = 0x0F"
| "reg_code MFRC522_REG_RESERVED10 = 0x10"
| "reg_code MFRC522_REG_MODE = 0x11"
| "reg_code MFRC522_REG_TX_MODE = 0x12"
| "reg_code MFRC522_REG_RX_MODE = 0x13"
| "reg_code MFRC522_REG_TX_CONTROL = 0x14"
| "reg_code MFRC522_REG_TX_AUTO = 0x15"
| "reg_code MFRC522_REG_TX_SELL = 0x16"
| "reg_code MFRC522_REG_RX_SELL = 0x17"
| "reg_code MFRC522_REG_RX_THRESHOLD = 0x18"
| "reg_code MFRC522_REG_DEMOD = 0x19"
| "reg_code MFRC522_REG_RESERVED11 = 0x1A"
| "reg_code MFRC522_REG_RESERVED12 = 0x1B"
| "reg_code MFRC522_REG_MIFARE = 0x1C"
| "reg_code MFRC522_REG_RESERVED13 = 0x1D"
| "reg_code MFRC522_REG_RESERVED14 = 0x1E"
| "reg_code MFRC522_REG_SERIALSPEED = 0x1F"
| "reg_code MFRC522_REG_RESERVED20 = 0x20"
| "reg_code MFRC522_REG_CRC_RESULT_M = 0x21"
| "reg_code MFRC522_REG_CRC_RESULT_L = 0x22"
| "reg_code MFRC522_REG_RESERVED21 = 0x23"
| "reg_code MFRC522_REG_MOD_WIDTH = 0x24"
| "reg_code MFRC522_REG_RESERVED22 = 0x25"
| "reg_code MFRC522_REG_RF_CFG = 0x26"
| "reg_code MFRC522_REG_GS_N = 0x27"
| "reg_code MFRC522_REG_CWGS_PREG = 0x28"
| "reg_code MFRC522_REG__MODGS_PREG = 0x29"
| "reg_code MFRC522_REG_T_MODE = 0x2A"
| "reg_code MFRC522_REG_T_PRESCALER = 0x2B"
| "reg_code MFRC522_REG_T_RELOAD_H = 0x2C"
| "reg_code MFRC522_REG_T_RELOAD_L = 0x2D"
| "reg_code MFRC522_REG_T_COUNTER_VALUE_H = 0x2E"
| "reg_code MFRC522_REG_T_COUNTER_VALUE_L = 0x2F"
| "reg_code MFRC522_REG_RESERVED30 = 0x30"
| "reg_code MFRC522_REG_TEST_SEL1 = 0x31"
| "reg_code MFRC522_REG_TEST_SEL2 = 0x32"
| "reg_code MFRC522_REG_TEST_PIN_EN = 0x33"
| "reg_code MFRC522_REG_TEST_PIN_VALUE = 0x34"
| "reg_code MFRC522_REG_TEST_BUS = 0x35"
| "reg_code MFRC522_REG_AUTO_TEST = 0x36"
| "reg_code MFRC522_REG_VERSION = 0x37"
| "reg_code MFRC522_REG_ANALOG_TEST = 0x38"
| "reg_code MFRC522_REG_TEST_ADC1 = 0x39"
| "reg_code MFRC522_REG_TEST_ADC2 = 0x3A"
| "reg_code MFRC522_REG_TEST_ADC0 = 0x3B"
| "reg_code MFRC522_REG_RESERVED31 = 0x3C"
| "reg_code MFRC522_REG_RESERVED32 = 0x3D"
| "reg_code MFRC522_REG_RESERVED33 = 0x3E"
| "reg_code MFRC522_REG_RESERVED34 = 0x3F"

section \<open>Registers\<close>

definition MFRC522_WriteRegister :: "u8 \<Rightarrow> u8 \<Rightarrow> unit mfrc" where
  "MFRC522_WriteRegister addr val = call (Wr (push_bit 1 addr AND 0x7E) val)"

definition MFRC522_ReadRegister :: "chip \<Rightarrow> u8 \<Rightarrow> u8 mfrc" where
  "MFRC522_ReadRegister answers addr = ask answers (Rd ((push_bit 1 addr AND 0x7E) OR 0x80))"

definition MFRC522_SetBitMask :: "chip \<Rightarrow> MRFC522_RegTypeDef \<Rightarrow> u8 \<Rightarrow> unit mfrc" where
  "MFRC522_SetBitMask answers reg m = do {
     v \<leftarrow> MFRC522_ReadRegister answers (reg_code reg);
     MFRC522_WriteRegister (reg_code reg) (v OR m)
   }"

definition MFRC522_ClearBitMask :: "chip \<Rightarrow> MRFC522_RegTypeDef \<Rightarrow> u8 \<Rightarrow> unit mfrc" where
  "MFRC522_ClearBitMask answers reg m = do {
     v \<leftarrow> MFRC522_ReadRegister answers (reg_code reg);
     MFRC522_WriteRegister (reg_code reg) (v AND NOT m)
   }"

definition MFRC522_AntennaOn :: "chip \<Rightarrow> unit mfrc" where
  "MFRC522_AntennaOn answers = do {
     temp \<leftarrow> MFRC522_ReadRegister answers (reg_code MFRC522_REG_TX_CONTROL);
     if temp AND 0x03 = 0 then MFRC522_SetBitMask answers MFRC522_REG_TX_CONTROL 0x03 else skip
   }"

definition MFRC522_AntennaOff :: "chip \<Rightarrow> unit mfrc" where
  "MFRC522_AntennaOff answers = MFRC522_ClearBitMask answers MFRC522_REG_TX_CONTROL 0x03"

definition MFRC522_Reset :: "unit mfrc" where
  "MFRC522_Reset = MFRC522_WriteRegister (reg_code MFRC522_REG_COMMAND) (cmd_code PCD_RESETPHASE)"

definition MFRC522_Init :: "chip \<Rightarrow> MFRC522_StructTypeDef \<Rightarrow> unit mfrc" where
  "MFRC522_Init answers InitStruct = do {
     MFRC522_Reset;
     MFRC522_WriteRegister (reg_code MFRC522_REG_T_MODE) 0x8D;
     MFRC522_WriteRegister (reg_code MFRC522_REG_T_PRESCALER) 0x3E;
     MFRC522_WriteRegister (reg_code MFRC522_REG_T_RELOAD_L) 30;
     MFRC522_WriteRegister (reg_code MFRC522_REG_T_RELOAD_H) 0;
     MFRC522_WriteRegister (reg_code MFRC522_REG_RF_CFG) (gain_code (MFRC522_RXGain InitStruct));
     MFRC522_WriteRegister (reg_code MFRC522_REG_TX_AUTO) 0x40;
     MFRC522_WriteRegister (reg_code MFRC522_REG_MODE) 0x3D;
     MFRC522_AntennaOff answers
   }"

section \<open>A command and its answer\<close>

text \<open>The loop that waits for an interrupt bit, with its counter, and the one that reads the FIFO.\<close>

fun ToCard_wait :: "chip \<Rightarrow> u8 \<Rightarrow> nat \<Rightarrow> (u8 \<times> nat) mfrc" where
  "ToCard_wait answers waitIRq 0 = State_Monad.return (0, 0)"
| "ToCard_wait answers waitIRq (Suc i) = do {
     n \<leftarrow> MFRC522_ReadRegister answers (reg_code MFRC522_REG_COMM_IRQ);
     if i \<noteq> 0 \<and> n AND 0x01 = 0 \<and> n AND waitIRq = 0 then ToCard_wait answers waitIRq i
     else State_Monad.return (n, i)
   }"

fun ToCard_read :: "chip \<Rightarrow> nat \<Rightarrow> u8 list mfrc" where
  "ToCard_read answers 0 = State_Monad.return []"
| "ToCard_read answers (Suc n) = do {
     b \<leftarrow> MFRC522_ReadRegister answers (reg_code MFRC522_REG_FIFO_DATA);
     bs \<leftarrow> ToCard_read answers n;
     State_Monad.return (b # bs)
   }"

text \<open>The part after the wait: the status, the length in bits and the bytes for the caller's
  array, where they are stored.\<close>

definition ToCard_result ::
    "chip \<Rightarrow> MFRC522_CommandsTypeDef \<Rightarrow> u8 \<Rightarrow> u8 \<Rightarrow> nat \<Rightarrow> (MFRC522_StatusTypeDef \<times> u16 option \<times> u8 list) mfrc" where
  "ToCard_result answers command irqEn n i =
     (if i \<noteq> 0 then do {
        err \<leftarrow> MFRC522_ReadRegister answers (reg_code MFRC522_REG_ERROR);
        if err AND 0x1B = 0 then do {
          let status = (if n AND irqEn AND 0x01 \<noteq> 0 then MI_NOTAGERR else MI_OK);
          if command = PCD_TRANSCEIVE then do {
            n \<leftarrow> MFRC522_ReadRegister answers (reg_code MFRC522_REG_FIFO_LEVEL);
            control \<leftarrow> MFRC522_ReadRegister answers (reg_code MFRC522_REG_CONTROL);
            let lastBits = control AND 0x07;
            let backLen = (if lastBits \<noteq> 0 then (ucast n - 1) * 8 + ucast lastBits else ucast n * 8);
            let n = (if n = 0 then 1 else n);
            let n = (if MFRC522_MAX_LEN < unat n then MFRC522_MAX_LEN else unat n);
            backData \<leftarrow> ToCard_read answers n;
            State_Monad.return (status, Some backLen, backData)
          } else State_Monad.return (status, None, [])
        } else State_Monad.return (MI_ERR, None, [])
      } else State_Monad.return (MI_ERR, None, []))"

definition MFRC522_ToCard ::
    "chip \<Rightarrow> MFRC522_CommandsTypeDef \<Rightarrow> u8 list \<Rightarrow> (MFRC522_StatusTypeDef \<times> u16 option \<times> u8 list) mfrc" where
  "MFRC522_ToCard answers command sendData = do {
     let (irqEn, waitIRq) = (case command of PCD_AUTHENT \<Rightarrow> (0x12, 0x10) | PCD_TRANSCEIVE \<Rightarrow> (0x77, 0x30) | _ \<Rightarrow> (0, 0));
     MFRC522_WriteRegister (reg_code MFRC522_REG_COMM_IE_N) (irqEn OR 0x80);
     MFRC522_ClearBitMask answers MFRC522_REG_COMM_IRQ 0x80;
     MFRC522_SetBitMask answers MFRC522_REG_FIFO_LEVEL 0x80;
     MFRC522_WriteRegister (reg_code MFRC522_REG_COMMAND) (cmd_code PCD_IDLE);
     for_each (MFRC522_WriteRegister (reg_code MFRC522_REG_FIFO_DATA)) sendData;
     MFRC522_WriteRegister (reg_code MFRC522_REG_COMMAND) (cmd_code command);
     (if command = PCD_TRANSCEIVE then MFRC522_SetBitMask answers MFRC522_REG_BIT_FRAMING 0x80 else skip);
     (n, i) \<leftarrow> ToCard_wait answers waitIRq 2000;
     MFRC522_ClearBitMask answers MFRC522_REG_BIT_FRAMING 0x80;
     ToCard_result answers command irqEn n i
   }"

fun CRC_wait :: "chip \<Rightarrow> nat \<Rightarrow> unit mfrc" where
  "CRC_wait answers 0 = State_Monad.return ()"
| "CRC_wait answers (Suc i) = do {
     n \<leftarrow> MFRC522_ReadRegister answers (reg_code MFRC522_REG_DIV_IRQ);
     if i \<noteq> 0 \<and> n AND 0x04 = 0 then CRC_wait answers i else State_Monad.return ()
   }"

definition MFRC522_CalculateCRC :: "chip \<Rightarrow> u8 list \<Rightarrow> u8 list mfrc" where
  "MFRC522_CalculateCRC answers pIndata = do {
     MFRC522_ClearBitMask answers MFRC522_REG_DIV_IRQ 0x04;
     MFRC522_SetBitMask answers MFRC522_REG_FIFO_LEVEL 0x80;
     for_each (MFRC522_WriteRegister (reg_code MFRC522_REG_FIFO_DATA)) pIndata;
     MFRC522_WriteRegister (reg_code MFRC522_REG_COMMAND) (cmd_code PCD_CALCCRC);
     CRC_wait answers 0xFF;
     lo \<leftarrow> MFRC522_ReadRegister answers (reg_code MFRC522_REG_CRC_RESULT_L);
     hi \<leftarrow> MFRC522_ReadRegister answers (reg_code MFRC522_REG_CRC_RESULT_M);
     State_Monad.return [lo, hi]
   }"

section \<open>The steps of a session\<close>

definition MFRC522_Request :: "chip \<Rightarrow> u8 \<Rightarrow> u8 list \<Rightarrow> (MFRC522_StatusTypeDef \<times> u8 list) option mfrc" where
  "MFRC522_Request answers reqMode TagType = do {
     MFRC522_WriteRegister (reg_code MFRC522_REG_BIT_FRAMING) 0x07;
     stored (State_Monad.return (overlay TagType [reqMode])) (\<lambda>TagType. do {
       (status, backBits, back) \<leftarrow> MFRC522_ToCard answers PCD_TRANSCEIVE (take 1 TagType);
       State_Monad.return (map_option
         (Pair (if status \<noteq> MI_OK \<or> backBits \<noteq> Some 0x10 then MI_ERR else status)) (overlay TagType back))
     })
   }"

definition Anticoll_check :: "u8 list \<Rightarrow> MFRC522_StatusTypeDef option" where
  "Anticoll_check serNum =
     (if length serNum < 5 then None
      else Some (if foldl (XOR) 0 (map ((!) serNum) [0..<4]) \<noteq> serNum ! 4 then MI_ERR else MI_OK))"

definition MFRC522_Anticoll :: "chip \<Rightarrow> u8 list \<Rightarrow> (MFRC522_StatusTypeDef \<times> u8 list) option mfrc" where
  "MFRC522_Anticoll answers serNum = do {
     MFRC522_WriteRegister (reg_code MFRC522_REG_BIT_FRAMING) 0x00;
     stored (State_Monad.return (overlay serNum [PICC_ANTICOLL, 0x20])) (\<lambda>serNum. do {
       (status, unLen, back) \<leftarrow> MFRC522_ToCard answers PCD_TRANSCEIVE (take 2 serNum);
       stored (State_Monad.return (overlay serNum back)) (\<lambda>serNum.
         State_Monad.return (map_option (\<lambda>st. (st, serNum))
           (if status = MI_OK then Anticoll_check serNum else Some status)))
     })
   }"

definition MFRC522_SelectTag :: "chip \<Rightarrow> u8 list \<Rightarrow> u8 option mfrc" where
  "MFRC522_SelectTag answers serNum =
     (if length serNum < 5 then State_Monad.return None
      else do {
        let buffer = [PICC_SElECTTAG, 0x70] @ take 5 serNum;
        crc \<leftarrow> MFRC522_CalculateCRC answers buffer;
        let buffer = buffer @ crc;
        (status, recvBits, back) \<leftarrow> MFRC522_ToCard answers PCD_TRANSCEIVE buffer;
        State_Monad.return (map_option (\<lambda>buffer.
          if status = MI_OK \<and> recvBits = Some 0x18 then buffer ! 0 else MifareErr) (overlay buffer back))
      })"

definition MFRC522_Auth :: "chip \<Rightarrow> u8 \<Rightarrow> u8 \<Rightarrow> u8 list \<Rightarrow> u8 list \<Rightarrow> MFRC522_StatusTypeDef option mfrc" where
  "MFRC522_Auth answers authMode BlockAddr Sectorkey serNum =
     (if length Sectorkey < 6 \<or> length serNum < 4 then State_Monad.return None
      else do {
        (status, recvBits, back) \<leftarrow>
          MFRC522_ToCard answers PCD_AUTHENT ([authMode, BlockAddr] @ take 6 Sectorkey @ take 4 serNum);
        if status \<noteq> MI_OK then State_Monad.return (Some MI_ERR)
        else do {
          v \<leftarrow> MFRC522_ReadRegister answers (reg_code MFRC522_REG_STATUS2);
          State_Monad.return (Some (if v AND 0x08 = 0 then MI_ERR else status))
        }
      })"

definition MFRC522_Read :: "chip \<Rightarrow> u8 \<Rightarrow> u8 list \<Rightarrow> (MFRC522_StatusTypeDef \<times> u8 list) option mfrc" where
  "MFRC522_Read answers blockAddr recvData = do {
     crc \<leftarrow> MFRC522_CalculateCRC answers [PICC_READ, blockAddr];
     stored (State_Monad.return (overlay recvData ([PICC_READ, blockAddr] @ crc))) (\<lambda>recvData. do {
       (status, unLen, back) \<leftarrow> MFRC522_ToCard answers PCD_TRANSCEIVE (take 4 recvData);
       State_Monad.return (map_option
         (Pair (if status \<noteq> MI_OK \<or> unLen \<noteq> Some 0x90 then MI_ERR else status)) (overlay recvData back))
     })
   }"

text \<open>Of the static array of \<open>MFRC522_Write\<close> only bytes the call has filled are read.\<close>

definition MFRC522_Write :: "chip \<Rightarrow> u8 \<Rightarrow> u8 list \<Rightarrow> MFRC522_StatusTypeDef option mfrc" where
  "MFRC522_Write answers blockAddr writeData = do {
     crc \<leftarrow> MFRC522_CalculateCRC answers [PICC_WRITE, blockAddr];
     let buff = [PICC_WRITE, blockAddr] @ crc @ replicate 14 0;
     (status, recvBits, back) \<leftarrow> MFRC522_ToCard answers PCD_TRANSCEIVE (take 4 buff);
     stored (State_Monad.return (overlay buff back)) (\<lambda>buff.
       if status \<noteq> MI_OK \<or> recvBits \<noteq> Some 4 \<or> buff ! 0 AND 0x0F \<noteq> 0x0A then State_Monad.return (Some MI_ERR)
       else if length writeData < 16 then State_Monad.return None
       else do {
         let buff = take 16 writeData;
         crc \<leftarrow> MFRC522_CalculateCRC answers buff;
         let buff = buff @ crc;
         (status, recvBits, back) \<leftarrow> MFRC522_ToCard answers PCD_TRANSCEIVE buff;
         stored (State_Monad.return (overlay buff back)) (\<lambda>buff.
           State_Monad.return (Some
             (if status \<noteq> MI_OK \<or> recvBits \<noteq> Some 4 \<or> buff ! 0 AND 0x0F \<noteq> 0x0A then MI_ERR else status)))
       })
   }"

definition MFRC522_Halt :: "chip \<Rightarrow> unit option mfrc" where
  "MFRC522_Halt answers = do {
     crc \<leftarrow> MFRC522_CalculateCRC answers [PICC_HALT, 0];
     let buff = [PICC_HALT, 0] @ crc;
     (status, unLen, back) \<leftarrow> MFRC522_ToCard answers PCD_TRANSCEIVE buff;
     State_Monad.return (map_option (\<lambda>_. ()) (overlay buff back))
   }"

definition MFRC522_Check :: "chip \<Rightarrow> u8 list \<Rightarrow> (MFRC522_StatusTypeDef \<times> u8 list) option mfrc" where
  "MFRC522_Check answers card_id =
     stored (MFRC522_Request answers PICC_REQIDL card_id) (\<lambda>(status, card_id).
     stored (if status = MI_OK then MFRC522_Anticoll answers card_id else State_Monad.return (Some (status, card_id))) (\<lambda>r.
     stored (MFRC522_Halt answers) (\<lambda>_. State_Monad.return (Some r))))"

fun Compare_from :: "nat \<Rightarrow> u8 list \<Rightarrow> u8 list \<Rightarrow> MFRC522_StatusTypeDef option" where
  "Compare_from 0 CardID CompareID = Some MI_OK"
| "Compare_from (Suc n) (a # CardID) (b # CompareID) =
     (if a \<noteq> b then Some MI_ERR else Compare_from n CardID CompareID)"
| "Compare_from (Suc n) _ _ = None"

definition MFRC522_Compare :: "u8 list \<Rightarrow> u8 list \<Rightarrow> MFRC522_StatusTypeDef option" where
  "MFRC522_Compare CardID CompareID = Compare_from 5 CardID CompareID"

section \<open>Numbers on a card\<close>

definition MFRC522_EncodeData :: "u32 \<Rightarrow> u8 list \<Rightarrow> u8 list option" where
  "MFRC522_EncodeData value data =
     (let v8 = le_bytes 4 value in overlay data (v8 @ map (\<lambda>b. NOT b) v8 @ v8))"

text \<open>\<open>res\<close> is the static variable of the function: it starts as \<open>MI_OK\<close> and no call resets it.\<close>

definition MFRC522_DecodeData :: "MFRC522_StatusTypeDef \<Rightarrow> u8 list \<Rightarrow> (MFRC522_StatusTypeDef \<times> u32) option" where
  "MFRC522_DecodeData res data =
     (if length data < 12 then None
      else Some (if \<exists>cnt \<in> {0..<4}. data ! cnt \<noteq> data ! (cnt + 8) then MI_WRONG_DATA else res, le_word (take 4 data)))"

section \<open>Sessions\<close>

text \<open>What the static variables of the session functions keep between calls.\<close>

record statics =
  Operate32_data :: "u8 list"
  Operate32_value :: u32
  DecodeData_res :: MFRC522_StatusTypeDef
  Operate_data :: "u8 list"

definition statics_start :: statics where
  "statics_start = \<lparr>Operate32_data = replicate 16 0, Operate32_value = 0, DecodeData_res = MI_OK,
     Operate_data = replicate 16 0\<rparr>"

text \<open>A session returns the status and leaves the serial number, the key and the statics.\<close>

type_synonym outcome = "MFRC522_StatusTypeDef \<times> u8 list \<times> u8 list \<times> statics"
type_synonym callback32 = "u8 list \<Rightarrow> u32 \<Rightarrow> u8 list \<times> u32"

definition leave :: "unit mfrc \<Rightarrow> outcome \<Rightarrow> outcome option mfrc" where
  "leave m r = do { m; State_Monad.return (Some r) }"

text \<open>From the handler on: \<open>res\<close> is the result so far.\<close>

definition Operate32_finish :: "chip \<Rightarrow> MFRC522_StructTypeDef \<Rightarrow> u8 \<Rightarrow> callback32 \<Rightarrow> MFRC522_ToDoTypeDef \<Rightarrow>
    u8 list \<Rightarrow> u8 list \<Rightarrow> MFRC522_StatusTypeDef \<Rightarrow> statics \<Rightarrow> outcome option mfrc" where
  "Operate32_finish answers drv Sector EvenHandler Task SN KEY res st = do {
     let value = Operate32_value st;
     call (Handler SN (le_bytes 4 value));
     let (SN, value) = EvenHandler SN value;
     let st = st\<lparr>Operate32_value := value\<rparr>;
     if Task = CARD_READ then leave (MFRC522_Init answers drv) (res, SN, KEY, st)
     else if res \<noteq> MI_OK \<and> Task \<noteq> CARD_RW_ANYWAY then leave (MFRC522_Init answers drv) (MI_WRONG_DATA, SN, KEY, st)
     else stored (State_Monad.return (MFRC522_EncodeData value (Operate32_data st))) (\<lambda>data. do {
       let st = st\<lparr>Operate32_data := data\<rparr>;
       stored (MFRC522_Write answers Sector data) (\<lambda>w.
         leave (MFRC522_Init answers drv) (if w \<noteq> MI_OK then MI_WRITE_ERROR else res, SN, KEY, st))
     })
   }"

definition Operate32_data_phase :: "chip \<Rightarrow> MFRC522_StructTypeDef \<Rightarrow> u8 \<Rightarrow> callback32 \<Rightarrow> MFRC522_ToDoTypeDef \<Rightarrow>
    u8 list \<Rightarrow> u8 list \<Rightarrow> statics \<Rightarrow> outcome option mfrc" where
  "Operate32_data_phase answers drv Sector EvenHandler Task SN KEY st =
     (if Task \<noteq> CARD_WRITE then
        stored (MFRC522_Read answers Sector (Operate32_data st)) (\<lambda>(s, data). do {
          let st = st\<lparr>Operate32_data := data\<rparr>;
          if s \<noteq> MI_OK then leave (MFRC522_Init answers drv) (MI_READ_ERROR, SN, KEY, st)
          else stored (State_Monad.return (MFRC522_DecodeData (DecodeData_res st) data)) (\<lambda>(res, value).
            Operate32_finish answers drv Sector EvenHandler Task SN KEY res
              (st\<lparr>Operate32_value := value, DecodeData_res := res\<rparr>))
        })
      else Operate32_finish answers drv Sector EvenHandler Task SN KEY MI_OK st)"

definition MFRC522_Operate32 :: "chip \<Rightarrow> MFRC522_StructTypeDef \<Rightarrow> u8 list \<Rightarrow> u8 \<Rightarrow> u8 list \<Rightarrow> callback \<Rightarrow> callback32 \<Rightarrow>
    MFRC522_ToDoTypeDef \<Rightarrow> statics \<Rightarrow> outcome option mfrc" where
  "MFRC522_Operate32 answers drv SN Sector KEY KeyGenFunc EvenHandler Task st =
     (if 39 < Sector then State_Monad.return (Some (MI_WRONG_PARAM, SN, KEY, st))
      else stored (MFRC522_Request answers PICC_REQIDL (replicate 2 0)) (\<lambda>(s, UID).
      if s \<noteq> MI_OK then State_Monad.return (Some (MI_NOCARD, SN, KEY, st))
      else stored (MFRC522_Anticoll answers SN) (\<lambda>(s, SN).
      if s \<noteq> MI_OK then State_Monad.return (Some (MI_COLLISION, SN, KEY, st))
      else stored (MFRC522_SelectTag answers SN) (\<lambda>card.
      if card \<noteq> Mifare_1k then leave (MFRC522_Init answers drv) (MI_WRONG_CARD, SN, KEY, st)
      else do {
        call (Keygen SN);
        let (SN, KEY) = KeyGenFunc SN KEY;
        stored (MFRC522_Auth answers PICC_AUTHENT1A Sector KEY SN) (\<lambda>s.
        if s \<noteq> MI_OK then leave (MFRC522_Init answers drv) (MI_AUTH_ERROR, SN, KEY, st)
        else Operate32_data_phase answers drv Sector EvenHandler Task SN KEY st)
      }))))"

definition Operate_data_phase :: "chip \<Rightarrow> MFRC522_StructTypeDef \<Rightarrow> u8 \<Rightarrow> callback \<Rightarrow> MFRC522_ToDoTypeDef \<Rightarrow>
    u8 list \<Rightarrow> u8 list \<Rightarrow> statics \<Rightarrow> outcome option mfrc" where
  "Operate_data_phase answers drv Sector EvenHandler Task SN KEY st =
     stored (if Task \<noteq> CARD_WRITE then MFRC522_Read answers Sector (Operate_data st)
             else State_Monad.return (Some (MI_OK, Operate_data st))) (\<lambda>(s, data).
     if s \<noteq> MI_OK then leave (MFRC522_Init answers drv) (MI_READ_ERROR, SN, KEY, st\<lparr>Operate_data := data\<rparr>)
     else do {
       call (Handler SN data);
       let (SN, data) = EvenHandler SN data;
       let st = st\<lparr>Operate_data := data\<rparr>;
       if Task = CARD_READ then leave (MFRC522_Init answers drv) (MI_OK, SN, KEY, st)
       else stored (MFRC522_Write answers Sector data) (\<lambda>w.
         leave (MFRC522_Init answers drv) (if w \<noteq> MI_OK then MI_WRITE_ERROR else MI_OK, SN, KEY, st))
     })"

definition MFRC522_Operate :: "chip \<Rightarrow> MFRC522_StructTypeDef \<Rightarrow> u8 list \<Rightarrow> u8 \<Rightarrow> u8 list \<Rightarrow> callback \<Rightarrow> callback \<Rightarrow>
    MFRC522_ToDoTypeDef \<Rightarrow> statics \<Rightarrow> outcome option mfrc" where
  "MFRC522_Operate answers drv SN Sector KEY KeyGenFunc EvenHandler Task st =
     (if 39 < Sector then State_Monad.return (Some (MI_WRONG_PARAM, SN, KEY, st))
      else do {
        MFRC522_AntennaOn answers;
        stored (MFRC522_Request answers PICC_REQIDL SN) (\<lambda>(s, SN).
        if s \<noteq> MI_OK then leave (MFRC522_AntennaOff answers) (MI_NOCARD, SN, KEY, st)
        else stored (MFRC522_Anticoll answers SN) (\<lambda>(s, SN).
        if s \<noteq> MI_OK then leave (MFRC522_AntennaOff answers) (MI_COLLISION, SN, KEY, st)
        else stored (MFRC522_SelectTag answers SN) (\<lambda>card.
        if card \<noteq> Mifare_1k then leave (MFRC522_Init answers drv) (MI_WRONG_CARD, SN, KEY, st)
        else do {
          call (Keygen SN);
          let (SN, KEY) = KeyGenFunc SN KEY;
          stored (MFRC522_Auth answers PICC_AUTHENT1A Sector KEY SN) (\<lambda>s.
          if s \<noteq> MI_OK then leave (MFRC522_Init answers drv) (MI_AUTH_ERROR, SN, KEY, st)
          else Operate_data_phase answers drv Sector EvenHandler Task SN KEY st)
        })))
      })"

section \<open>Key coding\<close>

fun code_bytes :: "u8 list \<Rightarrow> u8 list" where
  "code_bytes [] = []"
| "code_bytes (b # bs) = (let ln = b AND 0x0F; hn = drop_bit 4 b in
     (push_bit 4 (NOT hn) OR hn) # (push_bit 4 (NOT ln) OR ln) # code_bytes bs)"

definition Mf500HostCodeKey :: "u8 list \<Rightarrow> u8 list \<Rightarrow> (MFRC522_StatusTypeDef \<times> u8 list) option" where
  "Mf500HostCodeKey uncoded coded =
     (if length uncoded < 6 then None else map_option (Pair MI_OK) (overlay coded (code_bytes (take 6 uncoded))))"

section \<open>Agreement with the newer driver\<close>

lemma reg_codes:
  "reg_code MFRC522_REG_COMMAND = Mfrc522_Rfid.MFRC522_REG_COMMAND"
  "reg_code MFRC522_REG_COMM_IE_N = Mfrc522_Rfid.MFRC522_REG_COMM_IE_N"
  "reg_code MFRC522_REG_COMM_IRQ = Mfrc522_Rfid.MFRC522_REG_COMM_IRQ"
  "reg_code MFRC522_REG_DIV_IRQ = Mfrc522_Rfid.MFRC522_REG_DIV_IRQ"
  "reg_code MFRC522_REG_ERROR = Mfrc522_Rfid.MFRC522_REG_ERROR"
  "reg_code MFRC522_REG_STATUS2 = Mfrc522_Rfid.MFRC522_REG_STATUS2"
  "reg_code MFRC522_REG_FIFO_DATA = Mfrc522_Rfid.MFRC522_REG_FIFO_DATA"
  "reg_code MFRC522_REG_FIFO_LEVEL = Mfrc522_Rfid.MFRC522_REG_FIFO_LEVEL"
  "reg_code MFRC522_REG_CONTROL = Mfrc522_Rfid.MFRC522_REG_CONTROL"
  "reg_code MFRC522_REG_BIT_FRAMING = Mfrc522_Rfid.MFRC522_REG_BIT_FRAMING"
  "reg_code MFRC522_REG_MODE = Mfrc522_Rfid.MFRC522_REG_MODE"
  "reg_code MFRC522_REG_TX_CONTROL = Mfrc522_Rfid.MFRC522_REG_TX_CONTROL"
  "reg_code MFRC522_REG_TX_AUTO = Mfrc522_Rfid.MFRC522_REG_TX_AUTO"
  "reg_code MFRC522_REG_CRC_RESULT_M = Mfrc522_Rfid.MFRC522_REG_CRC_RESULT_M"
  "reg_code MFRC522_REG_CRC_RESULT_L = Mfrc522_Rfid.MFRC522_REG_CRC_RESULT_L"
  "reg_code MFRC522_REG_RF_CFG = Mfrc522_Rfid.MFRC522_REG_RF_CFG"
  "reg_code MFRC522_REG_T_MODE = Mfrc522_Rfid.MFRC522_REG_T_MODE"
  "reg_code MFRC522_REG_T_PRESCALER = Mfrc522_Rfid.MFRC522_REG_T_PRESCALER"
  "reg_code MFRC522_REG_T_RELOAD_H = Mfrc522_Rfid.MFRC522_REG_T_RELOAD_H"
  "reg_code MFRC522_REG_T_RELOAD_L = Mfrc522_Rfid.MFRC522_REG_T_RELOAD_L"
  by (simp_all add: mfrc_regs)

declare reg_code.simps [simp del]

named_theorems same_driver \<open>operations of the older driver as those of the newer one\<close>

lemma same_registers [same_driver]:
  "MFRC522_WriteRegister = write_reg"
  "MFRC522_ReadRegister answers a = read_reg answers a"
  "MFRC522_SetBitMask answers r m = mfrc_set_bit_mask answers (reg_code r) m"
  "MFRC522_ClearBitMask answers r m = mfrc_clear_bit_mask answers (reg_code r) m"
  by (simp_all add: fun_eq_iff MFRC522_WriteRegister_def write_reg_def MFRC522_ReadRegister_def read_reg_def
    MFRC522_SetBitMask_def mfrc_set_bit_mask_def MFRC522_ClearBitMask_def mfrc_clear_bit_mask_def)

lemma same_antenna [same_driver]:
  "MFRC522_AntennaOn answers = mfrc_tx_enable answers"
  "MFRC522_AntennaOff answers = mfrc_tx_disable answers"
  "MFRC522_Init answers drv = mfrc_restart answers \<lparr>rx_gain = gain_code (MFRC522_RXGain drv)\<rparr>"
  by (simp_all add: MFRC522_AntennaOn_def mfrc_tx_enable_def MFRC522_AntennaOff_def mfrc_tx_disable_def
    MFRC522_Init_def MFRC522_Reset_def mfrc_restart_def mfrc_reset_def same_driver reg_codes cong: if_cong)

lemma same_loops [same_driver]:
  "ToCard_wait answers w i = wait_irq answers w i"
  "ToCard_read answers i = read_fifo answers i"
  "CRC_wait answers i = wait_crc answers i"
  by (induction i) (simp_all add: same_driver reg_codes cong: if_cong)

lemma if_neq_swap: "(if a \<noteq> b then x else y) = (if a = b then y else x)"
  by simp

lemma same_result [same_driver]: "ToCard_result answers command irqEn n i = collect answers command irqEn n i"
  unfolding ToCard_result_def collect_def MFRC522_MAX_LEN_def MFRC522_SN_LEN_def
  by (simp add: same_driver reg_codes if_neq_swap cong: if_cong)

lemma same_to_card [same_driver]:
  "command = PCD_AUTHENT \<or> command = PCD_TRANSCEIVE \<Longrightarrow> MFRC522_ToCard answers command d = mfrc_to_card answers command d"
  unfolding MFRC522_ToCard_def mfrc_to_card_def irq_masks_def
  by (auto simp: same_driver reg_codes cong: if_cong)

lemma same_crc [same_driver]: "MFRC522_CalculateCRC answers d = mfrc_calc_crc answers d"
  unfolding MFRC522_CalculateCRC_def mfrc_calc_crc_def by (simp add: same_driver reg_codes)


lemma same_request: "length tag = 16 \<Longrightarrow> MFRC522_Request answers m tag = mfrc_request answers m tag"
  unfolding MFRC522_Request_def mfrc_request_def
  by (cases tag) (simp_all add: same_driver reg_codes overlay_def stored_return cong: if_cong)

lemma same_anticoll:
  assumes "length sn = 16"
  shows "MFRC522_Anticoll answers sn = mfrc_anti_collision answers sn"
proof -
  obtain a b sn' where sn: "sn = a # b # sn'" "length sn' = 14"
    using assms by (cases sn; cases "tl sn") auto
  show ?thesis
    unfolding MFRC522_Anticoll_def mfrc_anti_collision_def sn
    by (auto simp: same_driver reg_codes overlay_def stored_def Anticoll_check_def sn fun_eq_iff
      intro!: arg_cong [where f = "State_Monad.bind m" for m])
qed

lemma same_select: "5 \<le> length sn \<Longrightarrow> MFRC522_SelectTag answers sn = mfrc_select_tag answers sn"
  unfolding MFRC522_SelectTag_def mfrc_select_tag_def by (simp add: same_driver reg_codes)

lemma same_auth:
  "length key = 6 \<Longrightarrow> length sn = 16 \<Longrightarrow>
   MFRC522_Auth answers a block key sn = State_Monad.bind (mfrc_auth answers a block key sn) (\<lambda>st. State_Monad.return (Some st))"
  unfolding MFRC522_Auth_def mfrc_auth_def
  by (auto simp: same_driver reg_codes fun_eq_iff intro!: arg_cong [where f = "State_Monad.bind m" for m])


lemma same_card_read:
  assumes "length d = 16"
  shows "MFRC522_Read answers block d = mfrc_read answers block d"
proof -
  have crc: "stored (State_Monad.return (overlay d ([PICC_READ, block] @ crc))) f =
      f ([PICC_READ, block] @ crc @ drop 4 d)" if "length crc = 2" for crc and f :: "u8 list \<Rightarrow> 'a option mfrc"
    using assms that by (simp add: overlay_def stored_return)
  show ?thesis
    unfolding MFRC522_Read_def mfrc_read_def same_crc mfrc_calc_crc_def bind_assoc
    by (auto simp: crc [of "[a, b]" for a b, simplified] same_driver fun_eq_iff Let_def
      intro!: arg_cong [where f = "State_Monad.bind m" for m])
qed

lemma same_card_write: "16 \<le> length d \<Longrightarrow> MFRC522_Write answers block d = mfrc_write answers block d"
  unfolding MFRC522_Write_def mfrc_write_def MFRC522_DATA_LEN_def
  by (simp add: same_driver cong: if_cong)


text \<open>What an operation stores into an array keeps the array's length.\<close>

definition returns :: "'a mfrc \<Rightarrow> ('a \<Rightarrow> bool) \<Rightarrow> bool" where
  "returns m P \<longleftrightarrow> (\<forall>s. P (fst (run_state m s)))"

lemma returns_request: "length tag = 16 \<Longrightarrow> returns (mfrc_request answers m tag) (\<lambda>r. \<forall>st sn. r = Some (st, sn) \<longrightarrow> length sn = 16)"
  by (auto simp: returns_def mfrc_request_def overlay_def Let_def split: prod.splits)

lemma returns_anti_collision:
  "length sn = 16 \<Longrightarrow> returns (mfrc_anti_collision answers sn) (\<lambda>r. \<forall>st sn. r = Some (st, sn) \<longrightarrow> length sn = 16)"
  by (auto simp: returns_def mfrc_anti_collision_def overlay_def Let_def split: prod.splits if_splits)

lemma stored_cong:
  assumes "returns m (\<lambda>r. \<forall>v. r = Some v \<longrightarrow> f v = g v)"
  shows "stored m f = stored m g"
proof (rule state.expand, rule ext)
  fix s
  show "run_state (stored m f) s = run_state (stored m g) s"
    using assms by (auto simp: stored_def returns_def split: prod.splits option.splits) (metis fst_conv)
qed


lemma returns_read:
  "length d = 16 \<Longrightarrow> returns (mfrc_read answers block d) (\<lambda>r. \<forall>st d. r = Some (st, d) \<longrightarrow> length d = 16)"
  by (auto simp: returns_def mfrc_read_def mfrc_calc_crc_def overlay_def Let_def split: prod.splits if_splits)

lemma stored_congD:
  assumes "returns m (\<lambda>r. \<forall>v. r = Some v \<longrightarrow> P v)" "\<And>v. P v \<Longrightarrow> f v = g v"
  shows "stored m f = stored m g"
  using assms by (intro stored_cong) (simp add: returns_def)

lemma stored_stored: "stored (stored m f) g = stored m (\<lambda>v. stored (f v) g)"
  by (auto simp: stored_def fun_eq_iff split: option.splits intro!: arg_cong [where f = "State_Monad.bind m" for m])

lemma stored_bind: "stored (State_Monad.bind m f) g = State_Monad.bind m (\<lambda>v. stored (f v) g)"
  by (simp add: stored_def)

lemma stored_if: "stored (if c then a else b) g = (if c then stored a g else stored b g)"
  by simp

text \<open>The status of a session, without what it leaves in the caller's arrays.\<close>

definition status_of :: "outcome option mfrc \<Rightarrow> MFRC522_StatusTypeDef option mfrc" where
  "status_of m = do { r \<leftarrow> m; State_Monad.return (map_option fst r) }"

lemma status_of_simps:
  "status_of (stored m f) = stored m (\<lambda>v. status_of (f v))"
  "status_of (State_Monad.bind k h) = State_Monad.bind k (\<lambda>v. status_of (h v))"
  "status_of (leave c r) = do { c; State_Monad.return (Some (fst r)) }"
  "status_of (State_Monad.return x) = State_Monad.return (map_option fst x)"
  by (auto simp: status_of_def stored_def leave_def fun_eq_iff split: option.splits
    intro!: arg_cong [where f = "State_Monad.bind m" for m])

definition cleanup :: "chip \<Rightarrow> MFRC522_StructTypeDef \<Rightarrow> MFRC522_StatusTypeDef \<Rightarrow> unit mfrc" where
  "cleanup answers drv res =
     (if res = MI_NOCARD \<or> res = MI_COLLISION then mfrc_tx_disable answers
      else mfrc_restart answers \<lparr>rx_gain = gain_code (MFRC522_RXGain drv)\<rparr>)"

definition closing :: "chip \<Rightarrow> MFRC522_StructTypeDef \<Rightarrow> MFRC522_StatusTypeDef \<Rightarrow> MFRC522_StatusTypeDef option mfrc" where
  "closing answers drv res = do { cleanup answers drv res; State_Monad.return (Some res) }"

lemma status_of_if: "status_of (if c then a else b) = (if c then status_of a else status_of b)"
  by simp

lemma same_data_phase:
  assumes "length (Operate_data st) = 16" "\<And>sn d. length d = 16 \<Longrightarrow> length (snd (h sn d)) = 16"
  shows "status_of (Operate_data_phase answers drv sector h task sn key st) =
    stored (data_phase answers sector h task sn (Operate_data st)) (closing answers drv)"
proof -
  have 1: "returns (mfrc_read answers sector (Operate_data st)) (\<lambda>r. \<forall>v. r = Some v \<longrightarrow> length (snd v) = 16)"
    using returns_read [OF assms(1), of answers sector] by (auto simp: returns_def)
  have 2: "status_of (case v of (s, data) \<Rightarrow>
       if s \<noteq> MI_OK then leave (MFRC522_Init answers drv) (MI_READ_ERROR, sn, key, st\<lparr>Operate_data := data\<rparr>)
       else do {
         call (Handler sn data);
         let (sn, data) = h sn data;
         let st = st\<lparr>Operate_data := data\<rparr>;
         if task = CARD_READ then leave (MFRC522_Init answers drv) (MI_OK, sn, key, st)
         else stored (MFRC522_Write answers sector data) (\<lambda>w.
           leave (MFRC522_Init answers drv) (if w \<noteq> MI_OK then MI_WRITE_ERROR else MI_OK, sn, key, st))
       }) = stored (case v of (s, data) \<Rightarrow>
         if s \<noteq> MI_OK then State_Monad.return (Some MI_READ_ERROR) else handle_phase answers sector h task sn data) (closing answers drv)"
    if "length (snd v) = 16" for v
    using that assms(2) [of "snd v" sn]
    by (auto simp: handle_phase_def status_of_simps stored_return stored_stored stored_bind closing_def cleanup_def same_driver same_card_write
      split: prod.splits intro!: arg_cong [where f = "State_Monad.bind m" for m] arg_cong [where f = "stored m" for m] ext)
  have "returns (if task \<noteq> CARD_WRITE then mfrc_read answers sector (Operate_data st)
      else State_Monad.return (Some (MI_OK, Operate_data st))) (\<lambda>r. \<forall>v. r = Some v \<longrightarrow> length (snd v) = 16)"
    using 1 assms(1) by (simp add: returns_def)
  from stored_congD [OF this 2] show ?thesis
    unfolding Operate_data_phase_def data_phase_def status_of_simps stored_stored same_card_read [OF assms(1)] by simp
qed


text \<open>What a session asks of its caller: arrays of the right size, kept by the callbacks.\<close>

definition sized :: "callback \<Rightarrow> callback \<Rightarrow> u8 list \<Rightarrow> statics \<Rightarrow> bool" where
  "sized kg h key st \<longleftrightarrow> length key = 6 \<and> length (Operate_data st) = 16 \<and>
     (\<forall>sn k. length sn = 16 \<and> length k = 6 \<longrightarrow> length (fst (kg sn k)) = 16 \<and> length (snd (kg sn k)) = 6) \<and>
     (\<forall>sn d. length d = 16 \<longrightarrow> length (snd (h sn d)) = 16)"

definition card_steps :: "chip \<Rightarrow> MFRC522_StructTypeDef \<Rightarrow> u8 list \<Rightarrow> u8 \<Rightarrow> u8 list \<Rightarrow> callback \<Rightarrow> callback \<Rightarrow>
    MFRC522_ToDoTypeDef \<Rightarrow> statics \<Rightarrow> outcome option mfrc" where
  "card_steps answers drv SN Sector KEY kg h Task st = stored (MFRC522_SelectTag answers SN) (\<lambda>card.
     if card \<noteq> Mifare_1k then leave (MFRC522_Init answers drv) (MI_WRONG_CARD, SN, KEY, st)
     else do {
       call (Keygen SN);
       let (SN, KEY) = kg SN KEY;
       stored (MFRC522_Auth answers PICC_AUTHENT1A Sector KEY SN) (\<lambda>s.
       if s \<noteq> MI_OK then leave (MFRC522_Init answers drv) (MI_AUTH_ERROR, SN, KEY, st)
       else Operate_data_phase answers drv Sector h Task SN KEY st)
     })"

lemma same_card_steps:
  assumes "sized kg h key st" "length sn = 16"
  shows "status_of (card_steps answers drv sn sector key kg h task st) =
    stored (card_phase answers sector kg h task (Operate_data st) key sn) (closing answers drv)"
proof -
  obtain sn' key' where kg: "kg sn key = (sn', key')" "length sn' = 16" "length key' = 6"
    using assms by (metis sized_def prod.collapse)
  have dp: "status_of (Operate_data_phase answers drv sector h task sn' key' st) =
    stored (data_phase answers sector h task sn' (Operate_data st)) (closing answers drv)"
    using assms(1) by (intro same_data_phase) (auto simp: sized_def)
  show ?thesis
    using assms(2) kg(2,3)
    by (auto simp: card_steps_def card_phase_def kg(1) status_of_simps status_of_if stored_stored stored_bind stored_return
        same_select same_auth dp closing_def [of _ _ MI_WRONG_CARD] closing_def [of _ _ MI_AUTH_ERROR] cleanup_def same_driver
      intro!: arg_cong [where f = "State_Monad.bind m" for m] arg_cong [where f = "stored m" for m] ext)
qed

lemma same_operate:
  assumes "sized kg h key st"
  shows "status_of (MFRC522_Operate answers drv (replicate 16 0) sector key kg h task st) =
    (if 39 < sector then State_Monad.return (Some MI_WRONG_PARAM) else do {
      mfrc_tx_enable answers;
      stored (operate_steps answers sector kg h task (Operate_data st) key) (closing answers drv) })"
proof -
  let ?req = "mfrc_request answers PICC_REQIDL (replicate 16 0)"
  have 2: "status_of (if s \<noteq> MI_OK then leave (MFRC522_AntennaOff answers) (MI_COLLISION, sn, key, st)
       else card_steps answers drv sn sector key kg h task st) =
    stored (if s \<noteq> MI_OK then State_Monad.return (Some MI_COLLISION)
       else card_phase answers sector kg h task (Operate_data st) key sn) (closing answers drv)"
    if "length sn = 16" for s sn
    using same_card_steps [OF assms that] by (simp add: status_of_simps stored_return closing_def cleanup_def same_driver)
  have 1: "status_of (if s \<noteq> MI_OK then leave (MFRC522_AntennaOff answers) (MI_NOCARD, sn, key, st)
       else stored (MFRC522_Anticoll answers sn) (\<lambda>(s, sn).
         if s \<noteq> MI_OK then leave (MFRC522_AntennaOff answers) (MI_COLLISION, sn, key, st)
         else card_steps answers drv sn sector key kg h task st)) =
     stored (if s \<noteq> MI_OK then State_Monad.return (Some MI_NOCARD)
       else stored (mfrc_anti_collision answers sn) (\<lambda>(s, sn).
         if s \<noteq> MI_OK then State_Monad.return (Some MI_COLLISION)
         else card_phase answers sector kg h task (Operate_data st) key sn)) (closing answers drv)"
    if "length sn = 16" for s sn
    using returns_anti_collision [OF that, of answers] 2
    by (auto simp: status_of_simps stored_return closing_def [of _ _ MI_NOCARD] cleanup_def same_driver same_anticoll [OF that]
      stored_stored returns_def split_def intro!: stored_cong)
  have "status_of (stored ?req (\<lambda>(s, sn).
      if s \<noteq> MI_OK then leave (MFRC522_AntennaOff answers) (MI_NOCARD, sn, key, st)
       else stored (MFRC522_Anticoll answers sn) (\<lambda>(s, sn).
         if s \<noteq> MI_OK then leave (MFRC522_AntennaOff answers) (MI_COLLISION, sn, key, st)
         else card_steps answers drv sn sector key kg h task st))) =
     stored (operate_steps answers sector kg h task (Operate_data st) key) (closing answers drv)"
    using returns_request [of "replicate 16 0" answers PICC_REQIDL] 1
    unfolding operate_steps_def MFRC522_SN_LEN_def stored_stored status_of_simps
    by (auto simp: returns_def split_def intro!: stored_cong)
  then show ?thesis
    unfolding MFRC522_Operate_def card_steps_def [symmetric]
    by (simp add: status_of_simps same_driver same_request)
qed


lemma run_status_of: "run_state (status_of m) s = (map_option fst (fst (run_state m s)), snd (run_state m s))"
  by (simp add: status_of_def split: prod.splits)

lemma run_closing: "run_state (closing answers drv res) s = (Some res, snd (run_state (cleanup answers drv res) s))"
  by (simp add: closing_def split: prod.splits)

text \<open>C26: a session of the older driver (\<open>MFRC522_Operate\<close>) and one of the newer
  (\<open>mfrc_operate\<close>) with the same callbacks and key, an array for the serial number of 16 zero bytes, the static data array of
  the older one equal to the local one of the newer, and callbacks that keep the sizes of their arrays, against a chip
  that answers the same, return the same status and make the same calls.  Only where no card answers or several do, the calls
  differ, and only in the end: from the same state, the same calls before it, the older session switches
  the transmitter off and the newer one resets the chip.\<close>

theorem operate_agrees:
  assumes "sized kg h key st"
  shows "\<exists>r s0 s1 s2.
    run_state (MFRC522_Operate answers drv (replicate 16 0) sector key kg h task st) s = (r, s1) \<and>
    run_state (mfrc_operate answers \<lparr>rx_gain = gain_code (MFRC522_RXGain drv)\<rparr> sector kg h task (Operate_data st) key) s
      = (map_option fst r, s2) \<and>
    (if map_option fst r = Some MI_NOCARD \<or> map_option fst r = Some MI_COLLISION
     then run_state (MFRC522_AntennaOff answers) s0 = ((), s1) \<and>
       run_state (mfrc_restart answers \<lparr>rx_gain = gain_code (MFRC522_RXGain drv)\<rparr>) s0 = ((), s2)
     else s1 = s2)"
proof -
  let ?d = "\<lparr>rx_gain = gain_code (MFRC522_RXGain drv)\<rparr>"
  let ?steps = "operate_steps answers sector kg h task (Operate_data st) key"
  obtain r s1 where r: "run_state (MFRC522_Operate answers drv (replicate 16 0) sector key kg h task st) s = (r, s1)"
    by fastforce
  have sec: "MFRC522_MAX_SECTORS \<le> sector \<longleftrightarrow> 39 < sector"
    by (simp add: MFRC522_MAX_SECTORS_def word_less_nat_alt word_le_nat_alt) linarith
  note old = run_status_of [of "MFRC522_Operate answers drv (replicate 16 0) sector key kg h task st" s, unfolded r
    same_operate [OF assms] fst_conv snd_conv]
  show ?thesis
  proof (cases "39 < sector")
    case True
    then show ?thesis using r old by (auto simp: mfrc_operate_def sec)
  next
    case False
    obtain s2 x where x: "run_state ?steps (snd (run_state (mfrc_tx_enable answers) s)) = (x, s2)" by fastforce
    show ?thesis
    proof (cases x)
      case None
      then show ?thesis using r old x False
        by (auto simp: mfrc_operate_def sec stored_def split: prod.splits)
    next
      case (Some res)
      then have "Some res = map_option fst r \<and> s1 = snd (run_state (cleanup answers drv res) s2)"
        using old x False by (simp add: stored_def run_closing split: prod.splits)
      moreover from this obtain a b c where "r = Some (res, a, b, c)" by (cases r) auto
      moreover have "run_state (mfrc_operate answers ?d sector kg h task (Operate_data st) key) s = (Some res, snd (run_state (mfrc_restart answers ?d) s2))"
        using x False Some by (auto simp: mfrc_operate_def sec stored_def split: prod.splits)
      ultimately show ?thesis
        by (intro exI [of _ r] exI [of _ s2] exI [of _ s1] exI [of _ "snd (run_state (mfrc_restart answers ?d) s2)"])
          (auto simp: r cleanup_def same_driver prod_eq_iff)
    qed
  qed
qed


theorem operate_agrees_witness:
  "sized Pair Pair (replicate 6 0xFF) statics_start \<and> (\<exists>r s0 s1 s2.
    run_state (MFRC522_Operate (\<lambda>_. 0) \<lparr>MFRC522_RXGain = RX_Gain48dB\<rparr> (replicate 16 0) 4 (replicate 6 0xFF) Pair Pair CARD_RW statics_start)
      io_start = (r, s1) \<and>
    run_state (mfrc_operate (\<lambda>_. 0) \<lparr>rx_gain = 0x70\<rparr> 4 Pair Pair CARD_RW (replicate 16 0) (replicate 6 0xFF)) io_start
      = (map_option fst r, s2) \<and>
    (if map_option fst r = Some MI_NOCARD \<or> map_option fst r = Some MI_COLLISION
     then run_state (MFRC522_AntennaOff (\<lambda>_. 0)) s0 = ((), s1) \<and> run_state (mfrc_restart (\<lambda>_. 0) \<lparr>rx_gain = 0x70\<rparr>) s0 = ((), s2)
     else s1 = s2))"
proof -
  have z: "sized Pair Pair (replicate 6 0xFF) statics_start" by (simp add: sized_def statics_start_def)
  have e: "gain_code (MFRC522_RXGain \<lparr>MFRC522_RXGain = RX_Gain48dB\<rparr>) = 0x70" "Operate_data statics_start = replicate 16 0"
    by (simp_all add: statics_start_def)
  from operate_agrees [OF z, of "\<lambda>_. 0" "\<lparr>MFRC522_RXGain = RX_Gain48dB\<rparr>" 4 CARD_RW io_start] show ?thesis
    unfolding e using z by (intro conjI)
qed

section \<open>Numbers that survive the card, and a flag that does not\<close>

text \<open>A number put into a block is read back, and a block that is not damaged leaves the flag alone.\<close>

lemma decode_encode:
  assumes "MFRC522_EncodeData v d = Some d'"
  shows "MFRC522_DecodeData res d' = Some (res, v)"
proof -
  have l: "12 \<le> length d'" "d' = le_bytes 4 v @ map (\<lambda>b. NOT b) (le_bytes 4 v) @ le_bytes 4 v @ drop 12 d"
    using assms by (auto simp: MFRC522_EncodeData_def Let_def overlay_def split: if_splits)
  have "d' ! cnt = d' ! (cnt + 8)" if "cnt < 4" for cnt
    using that by (simp add: l(2) nth_append)
  then show ?thesis using l by (simp add: MFRC522_DecodeData_def le_word_le_bytes_id)
qed

lemma decode_latch: "MFRC522_DecodeData MI_WRONG_DATA d = Some (r, v) \<Longrightarrow> r = MI_WRONG_DATA"
  by (auto simp: MFRC522_DecodeData_def split: if_splits)

text \<open>Commands that ask the card to write a block.\<close>

fun asks_write :: "heard \<Rightarrow> bool" where
  "asks_write (Command c d) \<longleftrightarrow> c = 0x0C \<and> take 1 d = [0xA0]"
| "asks_write _ \<longleftrightarrow> False"

definition no_write :: "'a \<Rightarrow> heard list \<Rightarrow> bool" where
  "no_write r hs \<longleftrightarrow> list_all (\<lambda>h. \<not> asks_write h) hs"

lemma no_write_got: "list_all (\<lambda>h. \<not> asks_write h) (map Got b)"
  by (induction b) simp_all

lemmas old_hears = no_write_def overlay_def stored_return same_driver carried_def exchange_def no_write_got
lemmas old_hears_intros = hears_bind [OF hears_silent [where P = "\<lambda>_ hs. hs = []"]] inv_intros hears_return
  hears_bind [OF hears_to_card] hears_if

lemma hears_old_request: "hears answers (MFRC522_Request answers PICC_REQIDL tag) no_write"
proof -
  have none: "stored (State_Monad.return None) f = State_Monad.return None" for f :: "u8 list \<Rightarrow> 'b option mfrc"
    by (simp add: stored_def)
  show ?thesis
    unfolding MFRC522_Request_def Let_def same_driver reg_codes
    by (cases tag) (auto intro!: old_hears_intros simp: old_hears none PICC_REQIDL_def split: prod.splits)
qed

lemma hears_old_anticoll: "hears answers (MFRC522_Anticoll answers sn) no_write"
proof (cases "2 \<le> length sn")
  case True
  then obtain a b t where sn: "sn = a # b # t" by (cases sn; cases "tl sn") auto
  show ?thesis
    unfolding MFRC522_Anticoll_def Let_def same_driver reg_codes sn
    by (auto intro!: old_hears_intros simp: old_hears picc_codes stored_def split: prod.splits option.splits)
next
  case False
  then show ?thesis
    unfolding MFRC522_Anticoll_def Let_def same_driver reg_codes
    by (auto intro!: old_hears_intros simp: old_hears stored_def)
qed

lemma hears_old_select: "hears answers (MFRC522_SelectTag answers sn) no_write"
  unfolding MFRC522_SelectTag_def Let_def same_crc
  by (auto intro!: old_hears_intros hears_bind [OF hears_calc_crc] simp: old_hears picc_codes split: prod.splits)

lemma hears_old_auth: "hears answers (MFRC522_Auth answers a block key sn) no_write"
  unfolding MFRC522_Auth_def reg_codes
  by (auto intro!: hears_return hears_bind [OF hears_to_card] hears_if hears_bind [OF hears_status [where P = "\<lambda>v hs. hs = [Status v]"]]
    simp: old_hears split: prod.splits)

lemma hears_old_read: "hears answers (MFRC522_Read answers block d) no_write"
proof -
  have none: "stored (State_Monad.return None) f = State_Monad.return None" for f :: "u8 list \<Rightarrow> 'b option mfrc"
    by (simp add: stored_def)
  show ?thesis
    unfolding MFRC522_Read_def Let_def same_crc
    by (auto intro!: old_hears_intros hears_bind [OF hears_calc_crc] simp: old_hears none picc_codes split: prod.splits)
qed

text \<open>A session that fails, writes nothing to the card and leaves the flag set.\<close>

definition spoilt :: "outcome option \<Rightarrow> heard list \<Rightarrow> bool" where
  "spoilt r hs \<longleftrightarrow> no_write r hs \<and>
     (case r of None \<Rightarrow> True | Some (s, sn, key, st) \<Rightarrow> s \<noteq> MI_OK \<and> DecodeData_res st = MI_WRONG_DATA)"

lemma spoilt_leave:
  assumes "fst r \<noteq> MI_OK" "DecodeData_res (snd (snd (snd r))) = MI_WRONG_DATA"
  shows "hears answers (leave (MFRC522_Init answers drv) r) spoilt"
  unfolding leave_def same_driver using assms
  by (cases r) (auto intro!: hears_bind [OF hears_restart] hears_return simp: spoilt_def no_write_def)

lemma spoilt_return:
  "fst r \<noteq> MI_OK \<Longrightarrow> DecodeData_res (snd (snd (snd r))) = MI_WRONG_DATA \<Longrightarrow> hears answers (State_Monad.return (Some r)) spoilt"
  by (cases r) (auto intro!: hears_return simp: spoilt_def no_write_def)

lemma spoilt_none: "hears answers (State_Monad.return None) spoilt"
  by (auto intro!: hears_return simp: spoilt_def no_write_def)

lemma spoilt_stored:
  assumes "hears answers m no_write" "\<And>v. hears answers (f v) spoilt"
  shows "hears answers (stored m f) spoilt"
  by (rule hears_stored [OF assms(1)])
    (auto intro!: hears_mono [OF assms(2)] simp: spoilt_def no_write_def)

lemma spoilt_call: "(\<And>u. hears answers (f u) spoilt) \<Longrightarrow> hears answers (State_Monad.bind (call (Keygen sn)) f) spoilt"
  "(\<And>u. hears answers (f u) spoilt) \<Longrightarrow> hears answers (State_Monad.bind (call (Handler sn d)) f) spoilt"
  by (auto intro!: hears_bind [OF hears_callbacks(1) [where P = "\<lambda>_ hs. hs = [Key sn]"]]
      hears_bind [OF hears_callbacks(2) [where P = "\<lambda>_ hs. hs = [Handled sn d]"]] elim!: hears_mono
    simp: spoilt_def no_write_def)

lemma spoilt_finish:
  assumes "DecodeData_res st = MI_WRONG_DATA" "task = CARD_READ \<or> task = CARD_RW"
  shows "hears answers (Operate32_finish answers drv sector h task sn key MI_WRONG_DATA st) spoilt"
  unfolding Operate32_finish_def Let_def using assms
  by (auto intro!: spoilt_call spoilt_leave split: prod.splits)

lemma spoilt_data_phase:
  assumes "DecodeData_res st = MI_WRONG_DATA" "task = CARD_READ \<or> task = CARD_RW"
  shows "hears answers (Operate32_data_phase answers drv sector h task sn key st) spoilt"
proof -
  have "hears answers (stored (State_Monad.return (MFRC522_DecodeData MI_WRONG_DATA data)) (\<lambda>(res, value).
      Operate32_finish answers drv sector h task sn key res (st'\<lparr>Operate32_value := value, DecodeData_res := res\<rparr>))) spoilt"
    for data st'
    using assms(2) decode_latch [of data]
    by (cases "MFRC522_DecodeData MI_WRONG_DATA data") (auto simp: stored_def intro!: spoilt_none spoilt_finish)
  then show ?thesis
    unfolding Operate32_data_phase_def Let_def using assms
    by (auto intro!: spoilt_stored hears_old_read spoilt_leave)
qed

text \<open>Once a damaged block has set the static result of \<open>MFRC522_DecodeData\<close>, nothing
  clears it: every later session that reads a number fails, whatever the card holds, a session
  that should write the number back sends the card no write command, and the flag is still set
  after the session.\<close>

theorem operate32_latched:
  assumes "DecodeData_res st = MI_WRONG_DATA" "task = CARD_READ \<or> task = CARD_RW" "ear answers s = Some (hs, [])"
  shows "\<exists>r s' hs'.
    run_state (MFRC522_Operate32 answers drv sn sector key kg h task st) s = (r, s') \<and>
    ear answers s' = Some (hs @ hs', []) \<and> list_all (\<lambda>c. \<not> asks_write c) hs' \<and>
    (\<forall>res sn' key' st'. r = Some (res, sn', key', st') \<longrightarrow> res \<noteq> MI_OK \<and> DecodeData_res st' = MI_WRONG_DATA)"
proof -
  have "hears answers (MFRC522_Operate32 answers drv sn sector key kg h task st) spoilt"
    unfolding MFRC522_Operate32_def Let_def using assms(1,2)
    by (auto intro!: spoilt_stored hears_old_request hears_old_anticoll hears_old_select hears_old_auth
      spoilt_leave spoilt_call spoilt_return spoilt_data_phase split: prod.split)
  from this [unfolded hears_def, rule_format, OF assms(3)] obtain r s' hs' where
    "run_state (MFRC522_Operate32 answers drv sn sector key kg h task st) s = (r, s')"
    "ear answers s' = Some (hs @ hs', [])" "spoilt r hs'" by blast
  then show ?thesis by (intro exI [of _ r] exI [of _ s'] exI [of _ hs']) (auto simp: spoilt_def no_write_def)
qed


theorem operate32_latched_witness:
  "DecodeData_res (statics_start\<lparr>DecodeData_res := MI_WRONG_DATA\<rparr>) = MI_WRONG_DATA \<and> (\<exists>r s' hs'.
    run_state (MFRC522_Operate32 (\<lambda>_. 0x08) \<lparr>MFRC522_RXGain = RX_Gain48dB\<rparr> (replicate 16 0) 4 (replicate 6 0xFF) Pair Pair CARD_RW
      (statics_start\<lparr>DecodeData_res := MI_WRONG_DATA\<rparr>)) io_start = (r, s') \<and>
    ear (\<lambda>_. 0x08) s' = Some (hs', []) \<and> list_all (\<lambda>c. \<not> asks_write c) hs' \<and>
    (\<forall>res sn' key' st'. r = Some (res, sn', key', st') \<longrightarrow> res \<noteq> MI_OK \<and> DecodeData_res st' = MI_WRONG_DATA))"
  using operate32_latched [of "statics_start\<lparr>DecodeData_res := MI_WRONG_DATA\<rparr>" CARD_RW "\<lambda>_. 0x08" io_start "[]"
    "\<lparr>MFRC522_RXGain = RX_Gain48dB\<rparr>" "replicate 16 0" 4 "replicate 6 0xFF" Pair Pair]
  by simp

section \<open>The transmitter\<close>

text \<open>Which calls an operation can make.\<close>

definition emits :: "('e \<Rightarrow> bool) \<Rightarrow> ('e io, 'a) state \<Rightarrow> bool" where
  "emits P m \<longleftrightarrow> (\<forall>s. \<exists>es. trace (snd (run_state m s)) = trace s @ es \<and> list_all P es)"

lemma emits_bind:
  assumes "emits P m" "\<And>x. emits P (f x)"
  shows "emits P (State_Monad.bind m f)"
  unfolding emits_def
proof
  fix s
  obtain x s1 where 1: "run_state m s = (x, s1)" by fastforce
  obtain es fs where "trace s1 = trace s @ es" "list_all P es"
      "trace (snd (run_state (f x) s1)) = trace s1 @ fs" "list_all P fs"
    using assms [unfolded emits_def] 1 by (metis snd_conv)
  then show "\<exists>es. trace (snd (run_state (State_Monad.bind m f) s)) = trace s @ es \<and> list_all P es"
    using 1 by (intro exI [of _ "es @ fs"]) simp
qed

lemma emits_basic:
  "emits P (State_Monad.return x)" "emits P skip" "P e \<Longrightarrow> emits P (call e)" "P e \<Longrightarrow> emits P (ask answers e)"
  "emits P a \<Longrightarrow> emits P b \<Longrightarrow> emits P (if c then a else b)"
  by (auto simp: emits_def run_simps)

lemma emits_for_each: "(\<And>x. emits P (f x)) \<Longrightarrow> emits P (for_each f xs)"
  by (induction xs) (auto intro: emits_basic emits_bind)

lemma emits_stored: "emits P m \<Longrightarrow> (\<And>v. emits P (f v)) \<Longrightarrow> emits P (stored m f)"
  unfolding stored_def by (auto intro!: emits_bind emits_basic split: option.split)

lemmas emits_rules = emits_basic emits_bind emits_for_each emits_stored

text \<open>No write to the transmitter's register sets one of the two antenna bits.\<close>

fun antenna_off :: "mfrc_call \<Rightarrow> bool" where
  "antenna_off (Wr a v) \<longleftrightarrow> a = 0x28 \<longrightarrow> v AND 0x03 = 0"
| "antenna_off _ \<longleftrightarrow> True"

lemma off_registers:
  "emits antenna_off (MFRC522_ReadRegister answers a)"
  "push_bit 1 a AND 0x7E \<noteq> 0x28 \<Longrightarrow> emits antenna_off (MFRC522_WriteRegister a v)"
  "push_bit 1 (reg_code r) AND 0x7E \<noteq> 0x28 \<Longrightarrow> emits antenna_off (MFRC522_SetBitMask answers r m)"
  "push_bit 1 (reg_code r) AND 0x7E \<noteq> 0x28 \<Longrightarrow> emits antenna_off (MFRC522_ClearBitMask answers r m)"
  unfolding MFRC522_ReadRegister_def MFRC522_WriteRegister_def MFRC522_SetBitMask_def MFRC522_ClearBitMask_def
  by (auto intro!: emits_rules)

lemma off_init: "emits antenna_off (MFRC522_Init answers drv)"
proof -
  have "(v AND NOT 0x03) AND 0x03 = (0 :: u8)" for v by (simp add: and.assoc)
  then have "emits antenna_off (MFRC522_AntennaOff answers)"
    unfolding MFRC522_AntennaOff_def MFRC522_ClearBitMask_def MFRC522_WriteRegister_def
    by (intro emits_bind off_registers emits_basic) simp
  then show ?thesis
    unfolding MFRC522_Init_def MFRC522_Reset_def by (auto intro!: emits_rules off_registers simp: reg_code.simps)
qed

lemma off_loops:
  "emits antenna_off (ToCard_wait answers w i)" "emits antenna_off (ToCard_read answers i)" "emits antenna_off (CRC_wait answers i)"
  by (induction i) (auto intro!: emits_rules off_registers)

lemma off_to_card: "emits antenna_off (MFRC522_ToCard answers command d)"
  unfolding MFRC522_ToCard_def ToCard_result_def Let_def
  by (auto intro!: emits_rules off_registers off_loops simp: reg_code.simps split: prod.splits)

lemma off_crc: "emits antenna_off (MFRC522_CalculateCRC answers d)"
  unfolding MFRC522_CalculateCRC_def
  by (auto intro!: emits_rules off_registers off_loops simp: reg_code.simps)

lemma off_steps:
  "emits antenna_off (MFRC522_Request answers m tag)" "emits antenna_off (MFRC522_Anticoll answers sn)"
  "emits antenna_off (MFRC522_SelectTag answers sn)" "emits antenna_off (MFRC522_Auth answers a block key sn)"
  "emits antenna_off (MFRC522_Read answers block d)" "emits antenna_off (MFRC522_Write answers block d)"
  unfolding MFRC522_Request_def MFRC522_Anticoll_def MFRC522_SelectTag_def MFRC522_Auth_def MFRC522_Read_def MFRC522_Write_def Let_def
  by (auto intro!: emits_rules off_registers off_to_card off_crc simp: reg_code.simps split: prod.splits)

text \<open>The session for numbers never switches the transmitter on, though \<open>MFRC522_Init\<close> and each
  of its own exits that reset the chip switch it off.\<close>

theorem operate32_antenna_off: "emits antenna_off (MFRC522_Operate32 answers drv sn sector key kg h task st)"
proof -
  have "emits antenna_off (Operate32_finish answers drv sector h task sn key res st)" for sn key res st
    unfolding Operate32_finish_def leave_def Let_def
    by (auto intro!: emits_rules off_steps off_init split: prod.splits)
  then show ?thesis
    unfolding MFRC522_Operate32_def Operate32_data_phase_def leave_def Let_def
    by (auto intro!: emits_rules off_steps off_init split: prod.splits)
qed


section \<open>Short arrays\<close>

text \<open>The two bytes that \<open>MFRC522_Operate32\<close> gives \<open>MFRC522_Request\<close> are too few: a chip with
  more bytes in its FIFO makes it write beyond them.\<close>

lemma request_overflow:
  "fst (run_state (MFRC522_Request (\<lambda>_. 0x20) PICC_REQIDL (replicate 2 0)) io_start) = None"
proof -
  have fifo: "fst (run_state (read_fifo (\<lambda>_. 0x20) n) s) = replicate n 0x20" for n s
  proof (induction n arbitrary: s)
    case (Suc n)
    show ?case using Suc [of "snd (run_state (read_reg (\<lambda>_. 0x20) Mfrc522_Rfid.MFRC522_REG_FIFO_DATA) s)"]
      by (simp add: read_reg_def run_simps Product_Type.split_beta)
  qed simp
  have wait: "fst (run_state (wait_irq (\<lambda>_. 0x20) 0x30 2000) s) = (0x20, 1999)" for s
    using wait_irq.simps(2) [where i = 1999] by (simp add: read_reg_def run_simps)
  have card: "fst (run_state (mfrc_to_card (\<lambda>_. 0x20) PCD_TRANSCEIVE d) s) = (MI_OK, Some 0x100, replicate 16 0x20)" for d s
    using fifo [of 16]
    by (simp add: mfrc_to_card_def irq_masks_def wait collect_def read_reg_def run_simps MFRC522_SN_LEN_def
        Product_Type.split_beta)
  show ?thesis
    using card
    by (simp add: MFRC522_Request_def same_driver overlay_def stored_return Product_Type.split_beta)
qed

section \<open>Coded keys\<close>

fun decode_key :: "u8 list \<Rightarrow> u8 list" where
  "decode_key (h # l # cs) = (push_bit 4 (h AND 0x0F) OR (l AND 0x0F)) # decode_key cs"
| "decode_key cs = []"

definition guarded :: "u8 \<Rightarrow> bool" where
  "guarded c \<longleftrightarrow> drop_bit 4 c = NOT c AND 0x0F"

lemma low_nibble: "x AND 0x0F = take_bit 4 x" for x :: u8
  by (simp add: take_bit_eq_mask mask_numeral)

lemma code_nibble:
  fixes n :: u8
  assumes "take_bit 4 n = n"
  shows "take_bit 4 (push_bit 4 (NOT n) OR n) = n" "guarded (push_bit 4 (NOT n) OR n)"
proof -
  have "take_bit 4 (push_bit 4 (NOT n) OR take_bit 4 n) = take_bit 4 n"
    "drop_bit 4 (push_bit 4 (NOT n) OR take_bit 4 n) = take_bit 4 (NOT (push_bit 4 (NOT n) OR take_bit 4 n))"
    by (rule bit_word_eqI; auto simp: bit_simps)+
  then show "take_bit 4 (push_bit 4 (NOT n) OR n) = n" "guarded (push_bit 4 (NOT n) OR n)"
    by (simp_all only: assms guarded_def low_nibble)
qed

lemma nibble_bits:
  fixes b :: u8
  shows "take_bit 4 (take_bit 4 b) = take_bit 4 b" "take_bit 4 (drop_bit 4 b) = drop_bit 4 b"
    "push_bit 4 (drop_bit 4 b) OR take_bit 4 b = b"
proof -
  have "i < 4" if "bit b (i + 4)" for i using bit_imp_le_length [OF that] by simp
  then show "take_bit 4 (drop_bit 4 b) = drop_bit 4 b"
    by (intro bit_word_eqI) (auto simp: bit_simps add.commute)
  show "push_bit 4 (drop_bit 4 b) OR take_bit 4 b = b"
    by (rule bit_word_eqI; auto simp: bit_simps)
qed simp

lemma code_bytes_guarded:
  "list_all guarded (code_bytes bs)" "decode_key (code_bytes bs) = bs"
  by (induction bs) (simp_all only: code_bytes.simps decode_key.simps Let_def low_nibble code_nibble nibble_bits list.pred_inject simp_thms)

lemma length_code_bytes [simp]: "length (code_bytes bs) = 2 * length bs"
  by (induction bs) (simp_all add: Let_def)

text \<open>Every byte of a coded key carries its low half inverted in its high half, and the key can be
  read back from the low halves.\<close>

theorem host_code_key:
  assumes "length uncoded = 6" "length coded = 12"
  shows "\<exists>out. Mf500HostCodeKey uncoded coded = Some (MI_OK, out) \<and> length out = 12 \<and> list_all guarded out \<and> decode_key out = uncoded"
  using assms code_bytes_guarded [of uncoded] by (simp add: Mf500HostCodeKey_def overlay_def)

end
