(* ===== verification/Rf_Radio.thy ===== *)
theory Rf_Radio
  imports C_Io
begin

text \<open>
  The older radio driver of Common/nrf24l01.c.  The functions of the configuration
  structure are recorded as calls, and what they return is a parameter.  The global pointer
  \<open>RF_InitStruct\<close> is a component of the state.  The driver hands the bytes at an address to the
  bus function with their number; the recorded call holds those bytes.
\<close>

section \<open>The header\<close>

definition Max_Adress_Len :: nat where "Max_Adress_Len = 5"
definition Payload_send_delay :: nat where "Payload_send_delay = 50000"
definition PipeBitMask :: u8 where "PipeBitMask = 0x0E"

datatype nRF_RegTypeDef = nRF_CONFIG_REG | nRF_EN_AA_REG | nRF_EN_RXADDR_REG | nRF_SETUP_AW_REG | nRF_SETUP_RETR_REG
  | nRF_RF_CH_REG | nRF_RF_SETUP_REG | nRF_STATUS_REG | nRF_OBSERV_TX_REG | nRF_CD_REG | nRF_RX_ADDR_P0_REG
  | nRF_RX_ADDR_P1_REG | nRF_RX_ADDR_P2_REG | nRF_RX_ADDR_P3_REG | nRF_RX_ADDR_P4_REG | nRF_RX_ADDR_P5_REG
  | nRF_TX_ADDR_REG | nRF_RX_PW_P0_REG | nRF_RX_PW_P1_REG | nRF_RX_PW_P2_REG | nRF_RX_PW_P3_REG | nRF_RX_PW_P4_REG
  | nRF_RX_PW_P5_REG | nRF_FIFO_STATUS_REG

fun nRF_reg :: "nRF_RegTypeDef \<Rightarrow> u8" where
  "nRF_reg nRF_CONFIG_REG = 0x00"
| "nRF_reg nRF_EN_AA_REG = 0x01"
| "nRF_reg nRF_EN_RXADDR_REG = 0x02"
| "nRF_reg nRF_SETUP_AW_REG = 0x03"
| "nRF_reg nRF_SETUP_RETR_REG = 0x04"
| "nRF_reg nRF_RF_CH_REG = 0x05"
| "nRF_reg nRF_RF_SETUP_REG = 0x06"
| "nRF_reg nRF_STATUS_REG = 0x07"
| "nRF_reg nRF_OBSERV_TX_REG = 0x08"
| "nRF_reg nRF_CD_REG = 0x09"
| "nRF_reg nRF_RX_ADDR_P0_REG = 0x0A"
| "nRF_reg nRF_RX_ADDR_P1_REG = 0x0B"
| "nRF_reg nRF_RX_ADDR_P2_REG = 0x0C"
| "nRF_reg nRF_RX_ADDR_P3_REG = 0x0D"
| "nRF_reg nRF_RX_ADDR_P4_REG = 0x0E"
| "nRF_reg nRF_RX_ADDR_P5_REG = 0x0F"
| "nRF_reg nRF_TX_ADDR_REG = 0x10"
| "nRF_reg nRF_RX_PW_P0_REG = 0x11"
| "nRF_reg nRF_RX_PW_P1_REG = 0x12"
| "nRF_reg nRF_RX_PW_P2_REG = 0x13"
| "nRF_reg nRF_RX_PW_P3_REG = 0x14"
| "nRF_reg nRF_RX_PW_P4_REG = 0x15"
| "nRF_reg nRF_RX_PW_P5_REG = 0x16"
| "nRF_reg nRF_FIFO_STATUS_REG = 0x17"

definition RF_RX_FIFO_EMPTY_Bit :: u8 where "RF_RX_FIFO_EMPTY_Bit = push_bit 0 1"
definition RF_SendPayload_CMD :: u8 where "RF_SendPayload_CMD = 0xA0"
definition RF_Flush_TX_CMD :: u8 where "RF_Flush_TX_CMD = 0xE1"
definition RF_RX_PAYLOAD_CMD :: u8 where "RF_RX_PAYLOAD_CMD = 0x61"
definition RF_RX_DR_IRQ_CLEAR :: u8 where "RF_RX_DR_IRQ_CLEAR = 0x40"
definition RF_TX_DS_IRQ_CLEAR :: u8 where "RF_TX_DS_IRQ_CLEAR = 0x20"
definition RF_MAX_RT_IRQ_CLEAR :: u8 where "RF_MAX_RT_IRQ_CLEAR = 0x10"

lemmas rf_codes = RF_RX_FIFO_EMPTY_Bit_def RF_SendPayload_CMD_def RF_Flush_TX_CMD_def RF_RX_PAYLOAD_CMD_def
  RF_RX_DR_IRQ_CLEAR_def RF_TX_DS_IRQ_CLEAR_def RF_MAX_RT_IRQ_CLEAR_def PipeBitMask_def

text \<open>The results are numbers: the driver casts status bytes and pipe numbers to the type.\<close>

type_synonym nRF_ERROR_TypeDef = u8

definition nRF24L01_SUCCESS :: nRF_ERROR_TypeDef where "nRF24L01_SUCCESS = 0"
definition nRF24L01_DATA_SEND_NO_ACK_RECEIVED :: nRF_ERROR_TypeDef where "nRF24L01_DATA_SEND_NO_ACK_RECEIVED = 1"
definition nRF24L01_DATA_SEND_ACK_RECEIVED_OK :: nRF_ERROR_TypeDef where "nRF24L01_DATA_SEND_ACK_RECEIVED_OK = 2"
definition nRF_ERROR_CHIP_NOT_RESPONDING :: nRF_ERROR_TypeDef where "nRF_ERROR_CHIP_NOT_RESPONDING = 3"
definition nRF24L01_NO_DATA_RECEIVED :: nRF_ERROR_TypeDef where "nRF24L01_NO_DATA_RECEIVED = 0xFF"

lemmas rf_results = nRF24L01_SUCCESS_def nRF24L01_DATA_SEND_NO_ACK_RECEIVED_def
  nRF24L01_DATA_SEND_ACK_RECEIVED_OK_def nRF_ERROR_CHIP_NOT_RESPONDING_def nRF24L01_NO_DATA_RECEIVED_def

datatype nRF_PowerTypeDef = nRF_Power_Off | nRF_Power_On
datatype nRF_RX_IRQ_Config_TypeDef = nRF_Config_IRQ_RX_On | nRF_Config_IRQ_RX_Off
datatype nRF_TX_IRQ_Config_TypeDef = nRF_Config_IRQ_TX_On | nRF_Config_IRQ_TX_Off
datatype nRF_RT_IRQ_Config_TypeDef = nRF_Config_IRQ_Max_RT_On | nRF_Config_IRQ_Max_RT_Off
datatype nRF_CRC_Mode_TypeDef = nRF_CRC_Off | nRF_CRC8 | nRF_CRC16
datatype nRF_Mode_TypeDef = nRF_Mode_TX | nRF_Mode_RX
datatype nRF_TX_Power_TypeDef = nRF_TX_Power_High | nRF_TX_Power_Medium | nRF_TX_Power_Low | nRF_TX_Power_Lowest
datatype nRF_Data_Rate_TypeDef = nRF_Data_Rate_1Mbs | nRF_Data_Rate_2Mbs

fun power_bits :: "nRF_PowerTypeDef \<Rightarrow> u8" where
  "power_bits nRF_Power_Off = 0x00" | "power_bits nRF_Power_On = 0x02"
fun rx_irq_bits :: "nRF_RX_IRQ_Config_TypeDef \<Rightarrow> u8" where
  "rx_irq_bits nRF_Config_IRQ_RX_On = 0x00" | "rx_irq_bits nRF_Config_IRQ_RX_Off = 0x40"
fun tx_irq_bits :: "nRF_TX_IRQ_Config_TypeDef \<Rightarrow> u8" where
  "tx_irq_bits nRF_Config_IRQ_TX_On = 0x00" | "tx_irq_bits nRF_Config_IRQ_TX_Off = 0x20"
fun rt_irq_bits :: "nRF_RT_IRQ_Config_TypeDef \<Rightarrow> u8" where
  "rt_irq_bits nRF_Config_IRQ_Max_RT_On = 0x00" | "rt_irq_bits nRF_Config_IRQ_Max_RT_Off = 0x10"
fun crc_bits :: "nRF_CRC_Mode_TypeDef \<Rightarrow> u8" where
  "crc_bits nRF_CRC_Off = 0x00" | "crc_bits nRF_CRC8 = 0x08" | "crc_bits nRF_CRC16 = 0x0C"
fun mode_bits :: "nRF_Mode_TypeDef \<Rightarrow> u8" where
  "mode_bits nRF_Mode_TX = 0x00" | "mode_bits nRF_Mode_RX = 0x01"
fun tx_power_bits :: "nRF_TX_Power_TypeDef \<Rightarrow> u8" where
  "tx_power_bits nRF_TX_Power_High = 0x06"
| "tx_power_bits nRF_TX_Power_Medium = 0x04"
| "tx_power_bits nRF_TX_Power_Low = 0x02"
| "tx_power_bits nRF_TX_Power_Lowest = 0x00"
fun data_rate_bits :: "nRF_Data_Rate_TypeDef \<Rightarrow> u8" where
  "data_rate_bits nRF_Data_Rate_1Mbs = 0x00" | "data_rate_bits nRF_Data_Rate_2Mbs = 0x08"

text \<open>The sets of pipes and the address length are numbers: the code combines the former's
  values and tests the latter for zero, which is not one of them.\<close>

record RF_InitTypeDef =
  nRF_Power :: nRF_PowerTypeDef
  nRF_RX_IRQ_Config :: nRF_RX_IRQ_Config_TypeDef
  nRF_TX_IRQ_Config :: nRF_TX_IRQ_Config_TypeDef
  nRF_RT_IRQ_Config :: nRF_RT_IRQ_Config_TypeDef
  nRF_CRC_Mode :: nRF_CRC_Mode_TypeDef
  nRF_Mode :: nRF_Mode_TypeDef
  nRF_Pipes_ACK_Enable :: u8
  nRF_Pipes_Enable :: u8
  nRF_AddressLen :: u8
  nRF_Channel :: u8
  nRF_TX_Power :: nRF_TX_Power_TypeDef
  nRF_Data_Rate :: nRF_Data_Rate_TypeDef
  nRF_RX_Adress_Pipe0 :: "u8 list"
  nRF_RX_Adress_Pipe1 :: "u8 list"
  nRF_RX_Adress_Pipe2 :: u8
  nRF_RX_Adress_Pipe3 :: u8
  nRF_RX_Adress_Pipe4 :: u8
  nRF_RX_Adress_Pipe5 :: u8
  nRF_TX_Adress :: "u8 list"
  nRF_Payload_Size_Pipe0 :: u8
  nRF_Payload_Size_Pipe1 :: u8
  nRF_Payload_Size_Pipe2 :: u8
  nRF_Payload_Size_Pipe3 :: u8
  nRF_Payload_Size_Pipe4 :: u8
  nRF_Payload_Size_Pipe5 :: u8
  nRF_Auto_Retransmit_Delay :: u8
  nRF_Auto_Retransmit_Count :: u8

section \<open>Calls\<close>

datatype rf_call = WriteReg u8 "u8 list" | ReadReg u8 nat | IO_CE_Func u8 | IO_IRQ_Func

record rf_io = "rf_call io" +
  RF_InitStruct :: RF_InitTypeDef

text \<open>What the functions return at their \<open>i\<close>-th call: the status byte, the bytes read, the level
  of the interrupt line.\<close>

record rf_hw =
  status :: "nat \<Rightarrow> u8"
  data :: "nat \<Rightarrow> nat \<Rightarrow> u8"
  irq :: "nat \<Rightarrow> u8"

type_synonym 'a rf = "(rf_io, 'a) state"

definition InitStruct :: "RF_InitTypeDef rf" where
  "InitStruct = State (\<lambda>s. (RF_InitStruct s, s))"

definition set_InitStruct :: "RF_InitTypeDef \<Rightarrow> unit rf" where
  "set_InitStruct d = State (\<lambda>s. ((), s\<lparr>RF_InitStruct := d\<rparr>))"

lemma run_init_struct [run_simps]:
  "run_state InitStruct s = (RF_InitStruct s, s)" "run_state (set_InitStruct d) s = ((), s\<lparr>RF_InitStruct := d\<rparr>)"
  by (simp_all add: InitStruct_def set_InitStruct_def)

definition RF_Send_Cmd :: "rf_hw \<Rightarrow> nRF_RegTypeDef \<Rightarrow> u8 \<Rightarrow> nRF_ERROR_TypeDef rf" where
  "RF_Send_Cmd hw reg cmd = ask (status hw) (WriteReg ((0x1F AND nRF_reg reg) OR push_bit 5 1) [cmd])"

definition RF_Read_Cmd :: "rf_hw \<Rightarrow> nRF_RegTypeDef \<Rightarrow> u8 rf" where
  "RF_Read_Cmd hw adrs = ask (\<lambda>i. data hw i 0) (ReadReg (0x1F AND nRF_reg adrs) 1)"

definition RF_Send_Adr :: "rf_hw \<Rightarrow> nRF_RegTypeDef \<Rightarrow> u8 list \<Rightarrow> nat \<Rightarrow> unit rf" where
  "RF_Send_Adr hw adrs bs len = do {
     _ \<leftarrow> ask (status hw) (WriteReg (nRF_reg adrs OR push_bit 5 1) (take len bs));
     State_Monad.return ()
   }"

definition RF_IRQ_CLEAR :: "rf_hw \<Rightarrow> u8 \<Rightarrow> unit rf" where
  "RF_IRQ_CLEAR hw cmd = do { _ \<leftarrow> RF_Send_Cmd hw nRF_STATUS_REG cmd; State_Monad.return () }"

definition RF_Flush :: "rf_hw \<Rightarrow> u8 \<Rightarrow> unit rf" where
  "RF_Flush hw cmd = do { _ \<leftarrow> ask (status hw) (WriteReg cmd []); State_Monad.return () }"

definition ANT_ENABLE :: "unit rf" where "ANT_ENABLE = call (IO_CE_Func 1)"
definition ANT_DISABLE :: "unit rf" where "ANT_DISABLE = call (IO_CE_Func 0)"

section \<open>Operations\<close>

text \<open>The number of address bytes; a length setting above 3 indexes beyond the table.\<close>

definition address_bytes :: "u8 \<Rightarrow> nat option" where
  "address_bytes alen = (let add_var = [3, 4, 5] in
     if alen \<noteq> 0 then (if unat alen - 1 < length add_var then Some (add_var ! (unat alen - 1)) else None) else Some 5)"

definition config_value :: "RF_InitTypeDef \<Rightarrow> u8" where
  "config_value d = rx_irq_bits (nRF_RX_IRQ_Config d) OR tx_irq_bits (nRF_TX_IRQ_Config d) OR
     rt_irq_bits (nRF_RT_IRQ_Config d) OR power_bits (nRF_Power d) OR crc_bits (nRF_CRC_Mode d) OR mode_bits (nRF_Mode d)"

definition retr_value :: "RF_InitTypeDef \<Rightarrow> u8" where
  "retr_value d = (nRF_Auto_Retransmit_Count d AND 0x0F) OR push_bit 4 (nRF_Auto_Retransmit_Delay d AND 0x0F)"

definition setup_value :: "RF_InitTypeDef \<Rightarrow> u8" where
  "setup_value d = 0x01 OR tx_power_bits (nRF_TX_Power d) OR data_rate_bits (nRF_Data_Rate d)"

definition RF_Init :: "rf_hw \<Rightarrow> RF_InitTypeDef \<Rightarrow> nRF_ERROR_TypeDef option rf" where
  "RF_Init hw d = (case address_bytes (nRF_AddressLen d) of
     None \<Rightarrow> State_Monad.return None
   | Some add_len \<Rightarrow> do {
       set_InitStruct d;
       res \<leftarrow> RF_Send_Cmd hw nRF_CONFIG_REG (config_value d);
       if res = 0x00 \<or> res = 0xFF then State_Monad.return (Some nRF_ERROR_CHIP_NOT_RESPONDING)
       else do {
         _ \<leftarrow> RF_Send_Cmd hw nRF_EN_AA_REG (nRF_Pipes_ACK_Enable d);
         _ \<leftarrow> RF_Send_Cmd hw nRF_EN_RXADDR_REG (nRF_Pipes_Enable d);
         _ \<leftarrow> RF_Send_Cmd hw nRF_SETUP_AW_REG (nRF_AddressLen d);
         _ \<leftarrow> RF_Send_Cmd hw nRF_SETUP_RETR_REG (retr_value d);
         _ \<leftarrow> RF_Send_Cmd hw nRF_RF_CH_REG (nRF_Channel d AND 0x7F);
         _ \<leftarrow> RF_Send_Cmd hw nRF_RF_SETUP_REG (setup_value d);
         RF_Send_Adr hw nRF_RX_ADDR_P0_REG (nRF_RX_Adress_Pipe0 d) add_len;
         RF_Send_Adr hw nRF_RX_ADDR_P1_REG (nRF_RX_Adress_Pipe1 d) add_len;
         _ \<leftarrow> RF_Send_Cmd hw nRF_RX_ADDR_P2_REG (nRF_RX_Adress_Pipe2 d);
         _ \<leftarrow> RF_Send_Cmd hw nRF_RX_ADDR_P3_REG (nRF_RX_Adress_Pipe3 d);
         _ \<leftarrow> RF_Send_Cmd hw nRF_RX_ADDR_P4_REG (nRF_RX_Adress_Pipe4 d);
         _ \<leftarrow> RF_Send_Cmd hw nRF_RX_ADDR_P5_REG (nRF_RX_Adress_Pipe5 d);
         RF_Send_Adr hw nRF_TX_ADDR_REG (nRF_TX_Adress d) add_len;
         _ \<leftarrow> RF_Send_Cmd hw nRF_RX_PW_P0_REG (nRF_Payload_Size_Pipe0 d);
         _ \<leftarrow> RF_Send_Cmd hw nRF_RX_PW_P1_REG (nRF_Payload_Size_Pipe1 d);
         _ \<leftarrow> RF_Send_Cmd hw nRF_RX_PW_P2_REG (nRF_Payload_Size_Pipe2 d);
         _ \<leftarrow> RF_Send_Cmd hw nRF_RX_PW_P3_REG (nRF_Payload_Size_Pipe3 d);
         _ \<leftarrow> RF_Send_Cmd hw nRF_RX_PW_P4_REG (nRF_Payload_Size_Pipe4 d);
         _ \<leftarrow> RF_Send_Cmd hw nRF_RX_PW_P5_REG (nRF_Payload_Size_Pipe5 d);
         ANT_ENABLE;
         State_Monad.return (Some res)
       }
     })"

text \<open>The wait for the interrupt line to go low, with what is left of the delay.\<close>

fun wait_irq_low :: "rf_hw \<Rightarrow> nat \<Rightarrow> nat rf" where
  "wait_irq_low hw 0 = State_Monad.return 0"
| "wait_irq_low hw (Suc DS_Delay) = do {
     level \<leftarrow> ask (irq hw) IO_IRQ_Func;
     if level \<noteq> 0 then wait_irq_low hw DS_Delay else State_Monad.return (Suc DS_Delay)
   }"

definition RF_SendPayload :: "rf_hw \<Rightarrow> u8 list \<Rightarrow> bool \<Rightarrow> nRF_ERROR_TypeDef rf" where
  "RF_SendPayload hw payload RX_Enable = do {
     _ \<leftarrow> ask (status hw) (WriteReg RF_SendPayload_CMD payload);
     ANT_ENABLE;
     DS_Delay \<leftarrow> wait_irq_low hw Payload_send_delay;
     (if \<not> RX_Enable then ANT_DISABLE else skip);
     RF_IRQ_CLEAR hw RF_TX_DS_IRQ_CLEAR;
     RF_Flush hw RF_Flush_TX_CMD;
     State_Monad.return (if DS_Delay = 0 then nRF_ERROR_CHIP_NOT_RESPONDING else nRF24L01_SUCCESS)
   }"

definition RF_SendPayloadACK :: "rf_hw \<Rightarrow> u8 list \<Rightarrow> bool \<Rightarrow> nRF_ERROR_TypeDef rf" where
  "RF_SendPayloadACK hw payload RX_Enable = do {
     _ \<leftarrow> ask (status hw) (WriteReg RF_SendPayload_CMD payload);
     ANT_ENABLE;
     DS_Delay \<leftarrow> wait_irq_low hw Payload_send_delay;
     (if \<not> RX_Enable then ANT_DISABLE else skip);
     st \<leftarrow> ask (status hw) (ReadReg 0xFF 0);
     let res = (if st AND RF_TX_DS_IRQ_CLEAR \<noteq> 0 then nRF24L01_DATA_SEND_ACK_RECEIVED_OK
                else nRF24L01_DATA_SEND_NO_ACK_RECEIVED);
     let res = (if DS_Delay = 0 then nRF_ERROR_CHIP_NOT_RESPONDING else res);
     RF_IRQ_CLEAR hw (RF_MAX_RT_IRQ_CLEAR OR RF_TX_DS_IRQ_CLEAR);
     RF_Flush hw RF_Flush_TX_CMD;
     State_Monad.return res
   }"

text \<open>The result with the bytes for the caller's buffer, of which the bus function fills \<open>n\<close>.\<close>

definition RF_Receive_Data :: "rf_hw \<Rightarrow> nat \<Rightarrow> (nRF_ERROR_TypeDef \<times> u8 list) rf" where
  "RF_Receive_Data hw n = do {
     level \<leftarrow> ask (irq hw) IO_IRQ_Func;
     if level \<noteq> 0 then State_Monad.return (nRF24L01_NO_DATA_RECEIVED, [])
     else do {
       (st, bs) \<leftarrow> ask (\<lambda>i. (status hw i, map (data hw i) [0..<n])) (ReadReg RF_RX_PAYLOAD_CMD n);
       let res = drop_bit 1 (st AND PipeBitMask);
       fifo \<leftarrow> RF_Read_Cmd hw nRF_FIFO_STATUS_REG;
       (if fifo AND RF_RX_FIFO_EMPTY_Bit \<noteq> 0 then RF_IRQ_CLEAR hw RF_RX_DR_IRQ_CLEAR else skip);
       State_Monad.return (res, bs)
     }
   }"

definition RF_ChangeFreqChannel :: "rf_hw \<Rightarrow> u8 \<Rightarrow> nRF_ERROR_TypeDef rf" where
  "RF_ChangeFreqChannel hw channel = do {
     d \<leftarrow> InitStruct;
     let d = d\<lparr>nRF_Channel := channel\<rparr>;
     set_InitStruct d;
     RF_Send_Cmd hw nRF_RF_CH_REG (nRF_Channel d AND 0x7F)
   }"

definition RF_Carrier_Detect :: "rf_hw \<Rightarrow> u8 rf" where
  "RF_Carrier_Detect hw = do { v \<leftarrow> RF_Read_Cmd hw nRF_CD_REG; State_Monad.return (v AND 0x01) }"

definition RF_Count_Lost_Packets :: "rf_hw \<Rightarrow> u8 rf" where
  "RF_Count_Lost_Packets hw = do { v \<leftarrow> RF_Read_Cmd hw nRF_OBSERV_TX_REG; State_Monad.return (drop_bit 4 (v AND 0xF0)) }"

definition RF_Count_Resend_Packets :: "rf_hw \<Rightarrow> u8 rf" where
  "RF_Count_Resend_Packets hw = do { v \<leftarrow> RF_Read_Cmd hw nRF_OBSERV_TX_REG; State_Monad.return (v AND 0x0F) }"

definition RF_Switch_RX_TX :: "rf_hw \<Rightarrow> nRF_Mode_TypeDef \<Rightarrow> u8 rf" where
  "RF_Switch_RX_TX hw Mode = do {
     pMode \<leftarrow> RF_Read_Cmd hw nRF_CONFIG_REG;
     ANT_DISABLE;
     _ \<leftarrow> RF_Send_Cmd hw nRF_CONFIG_REG ((pMode AND 0xFE) OR (mode_bits Mode AND 1));
     ANT_ENABLE;
     State_Monad.return pMode
   }"

definition RF_Sleep :: "rf_hw \<Rightarrow> nRF_ERROR_TypeDef rf" where
  "RF_Sleep hw = do {
     v \<leftarrow> RF_Read_Cmd hw nRF_CONFIG_REG;
     RF_Send_Cmd hw nRF_CONFIG_REG (v AND NOT (power_bits nRF_Power_On))
   }"

definition RF_WakeUp :: "rf_hw \<Rightarrow> nRF_ERROR_TypeDef rf" where
  "RF_WakeUp hw = do {
     v \<leftarrow> RF_Read_Cmd hw nRF_CONFIG_REG;
     RF_Send_Cmd hw nRF_CONFIG_REG (v OR power_bits nRF_Power_On)
   }"

definition RF_FastTX_Address_Confirure :: "rf_hw \<Rightarrow> u8 list \<Rightarrow> nRF_ERROR_TypeDef rf" where
  "RF_FastTX_Address_Confirure hw Address =
     ask (status hw) (WriteReg (nRF_reg nRF_TX_ADDR_REG OR push_bit 5 1) (take Max_Adress_Len Address))"

definition RF_InitStructGet :: "RF_InitTypeDef rf" where
  "RF_InitStructGet = InitStruct"

definition RF_GetChannelFreqInMHz :: "u16 rf" where
  "RF_GetChannelFreqInMHz = do { d \<leftarrow> InitStruct; State_Monad.return (2400 + ucast (nRF_Channel d)) }"


section \<open>What the radio's registers hold\<close>

text \<open>A write command has the bits 001 in front of the register number; the other commands are not
  register writes.\<close>

fun store_reg :: "(u8 \<Rightarrow> u8 list option) \<Rightarrow> rf_call \<Rightarrow> (u8 \<Rightarrow> u8 list option)" where
  "store_reg r (WriteReg c bs) = (if c AND 0xE0 = 0x20 then r(c AND 0x1F \<mapsto> bs) else r)"
| "store_reg r _ = r"

definition registers :: "rf_call list \<Rightarrow> u8 \<Rightarrow> u8 list option" where
  "registers es = foldl store_reg (\<lambda>_. None) es"

text \<open>How the data sheet reads the registers, against the fields of the configuration.\<close>

definition config_shows :: "u8 \<Rightarrow> RF_InitTypeDef \<Rightarrow> bool" where
  "config_shows c d \<longleftrightarrow> (bit c 0 \<longleftrightarrow> nRF_Mode d = nRF_Mode_RX) \<and> (bit c 1 \<longleftrightarrow> nRF_Power d = nRF_Power_On) \<and>
     (bit c 2 \<longleftrightarrow> nRF_CRC_Mode d = nRF_CRC16) \<and> (bit c 3 \<longleftrightarrow> nRF_CRC_Mode d \<noteq> nRF_CRC_Off) \<and>
     (bit c 4 \<longleftrightarrow> nRF_RT_IRQ_Config d = nRF_Config_IRQ_Max_RT_Off) \<and>
     (bit c 5 \<longleftrightarrow> nRF_TX_IRQ_Config d = nRF_Config_IRQ_TX_Off) \<and>
     (bit c 6 \<longleftrightarrow> nRF_RX_IRQ_Config d = nRF_Config_IRQ_RX_Off) \<and> \<not> bit c 7"

definition air_shows :: "(u8 \<Rightarrow> u8 list option) \<Rightarrow> RF_InitTypeDef \<Rightarrow> bool" where
  "air_shows r d \<longleftrightarrow> (\<exists>retr setup. r 0x04 = Some [retr] \<and> r 0x06 = Some [setup] \<and>
     take_bit 4 retr = take_bit 4 (nRF_Auto_Retransmit_Count d) \<and> drop_bit 4 retr = take_bit 4 (nRF_Auto_Retransmit_Delay d) \<and>
     (bit setup 3 \<longleftrightarrow> nRF_Data_Rate d = nRF_Data_Rate_2Mbs) \<and>
     take_bit 2 (drop_bit 1 setup) = (case nRF_TX_Power d of nRF_TX_Power_High \<Rightarrow> 3 | nRF_TX_Power_Medium \<Rightarrow> 2
        | nRF_TX_Power_Low \<Rightarrow> 1 | nRF_TX_Power_Lowest \<Rightarrow> 0)) \<and>
     r 0x05 = Some [nRF_Channel d AND 0x7F]"

definition pipes_show :: "(u8 \<Rightarrow> u8 list option) \<Rightarrow> RF_InitTypeDef \<Rightarrow> bool" where
  "pipes_show r d \<longleftrightarrow> r 0x01 = Some [nRF_Pipes_ACK_Enable d] \<and> r 0x02 = Some [nRF_Pipes_Enable d] \<and>
     r 0x03 = Some [nRF_AddressLen d] \<and>
     map r [0x0A, 0x0B, 0x10] = map Some [nRF_RX_Adress_Pipe0 d, nRF_RX_Adress_Pipe1 d, nRF_TX_Adress d] \<and>
     map r [0x0C, 0x0D, 0x0E, 0x0F] = map (\<lambda>f. Some [f d]) [nRF_RX_Adress_Pipe2, nRF_RX_Adress_Pipe3, nRF_RX_Adress_Pipe4, nRF_RX_Adress_Pipe5] \<and>
     map r [0x11, 0x12, 0x13, 0x14, 0x15, 0x16] = map (\<lambda>f. Some [f d]) [nRF_Payload_Size_Pipe0, nRF_Payload_Size_Pipe1,
       nRF_Payload_Size_Pipe2, nRF_Payload_Size_Pipe3, nRF_Payload_Size_Pipe4, nRF_Payload_Size_Pipe5]"

lemma config_value_shows: "config_shows (config_value d) d"
  unfolding config_shows_def config_value_def
  by (cases "nRF_RX_IRQ_Config d"; cases "nRF_TX_IRQ_Config d"; cases "nRF_RT_IRQ_Config d"; cases "nRF_Power d";
      cases "nRF_CRC_Mode d"; cases "nRF_Mode d") (simp_all add: bit_simps)

lemma low_half: "x AND 0x0F = take_bit 4 x" for x :: u8
  by (simp add: take_bit_eq_mask mask_numeral)

lemma retransmit_value:
  "take_bit 4 (retr_value d) = take_bit 4 (nRF_Auto_Retransmit_Count d)"
  "drop_bit 4 (retr_value d) = take_bit 4 (nRF_Auto_Retransmit_Delay d)"
  unfolding retr_value_def low_half by (rule bit_word_eqI; auto simp: bit_simps)+

lemma rf_setup_value:
  "bit (setup_value d) 3 \<longleftrightarrow> nRF_Data_Rate d = nRF_Data_Rate_2Mbs"
  "take_bit 2 (drop_bit 1 (setup_value d)) = (case nRF_TX_Power d of nRF_TX_Power_High \<Rightarrow> 3 | nRF_TX_Power_Medium \<Rightarrow> 2
        | nRF_TX_Power_Low \<Rightarrow> 1 | nRF_TX_Power_Lowest \<Rightarrow> 0)"
  unfolding setup_value_def by (cases "nRF_TX_Power d"; cases "nRF_Data_Rate d"; simp add: bit_simps)+

text \<open>The length that a setting of the address width stands for.\<close>

definition addressed :: "RF_InitTypeDef \<Rightarrow> bool" where
  "addressed d \<longleftrightarrow> (\<exists>n. address_bytes (nRF_AddressLen d) = Some n \<and>
     length (nRF_RX_Adress_Pipe0 d) = n \<and> length (nRF_RX_Adress_Pipe1 d) = n \<and> length (nRF_TX_Adress d) = n)"

text \<open>When the radio answers the first command with a status byte that a radio can have,
  \<open>RF_Init\<close> returns that byte, leaves the enable pin high, and the radio's registers, read the way the
  data sheet reads them, hold the fields of the caller's structure: the power, the mode, the checksum and the
  interrupts, the air settings, and the addresses and sizes of the six pipes.\<close>

theorem rf_init_configures:
  assumes "addressed d" "status hw (asked s) \<notin> {0x00, 0xFF}" "trace s = []"
  shows "\<exists>s' c. run_state (RF_Init hw d) s = (Some (status hw (asked s)), s') \<and>
    last (trace s') = IO_CE_Func 1 \<and> RF_InitStruct s' = d \<and>
    registers (trace s') 0x00 = Some [c] \<and> config_shows c d \<and>
    air_shows (registers (trace s')) d \<and> pipes_show (registers (trace s')) d"
proof -
  obtain n where n: "address_bytes (nRF_AddressLen d) = Some n" "length (nRF_RX_Adress_Pipe0 d) = n"
    "length (nRF_RX_Adress_Pipe1 d) = n" "length (nRF_TX_Adress d) = n"
    using assms(1) by (auto simp: addressed_def)
  have n': "take n (nRF_RX_Adress_Pipe0 d) = nRF_RX_Adress_Pipe0 d" "take n (nRF_RX_Adress_Pipe1 d) = nRF_RX_Adress_Pipe1 d"
    "take n (nRF_TX_Adress d) = nRF_TX_Adress d" by (simp_all add: n)
  show ?thesis
    using assms(2,3)
    by (simp add: RF_Init_def n(1) n' RF_Send_Cmd_def RF_Send_Adr_def ANT_ENABLE_def run_simps registers_def config_value_shows
      air_shows_def pipes_show_def rf_setup_value [simplified] retransmit_value)
qed

text \<open>How often the radio's interrupt line is read: at most 50000 times, and until it is low.\<close>

lemma wait_irq_low_result:
  "fst (run_state (wait_irq_low hw n) s) = 0 \<longleftrightarrow> (\<forall>i < n. irq hw (asked s + i) \<noteq> 0)"
proof (induction n arbitrary: s)
  case (Suc n)
  show ?case
    using Suc [of "s\<lparr>trace := trace s @ [IO_IRQ_Func], asked := Suc (asked s)\<rparr>"]
    by (auto simp: run_simps less_Suc_eq_0_disj)
qed simp

lemma wait_irq_low_polls:
  "\<exists>k \<le> n. snd (run_state (wait_irq_low hw n) s) = s\<lparr>trace := trace s @ replicate k IO_IRQ_Func, asked := asked s + k\<rparr>"
proof (induction n arbitrary: s)
  case (Suc n)
  obtain k where "k \<le> n" "snd (run_state (wait_irq_low hw n) (s\<lparr>trace := trace s @ [IO_IRQ_Func], asked := Suc (asked s)\<rparr>)) =
     s\<lparr>trace := trace s @ replicate (Suc k) IO_IRQ_Func, asked := asked s + Suc k\<rparr>"
    using Suc [of "s\<lparr>trace := trace s @ [IO_IRQ_Func], asked := Suc (asked s)\<rparr>"] by auto
  then show ?case
    by (cases "irq hw (asked s) = 0")
      (auto simp: run_simps intro: exI [of _ "Suc k"] exI [of _ "1 :: nat"])
qed simp

text \<open>\<open>RF_SendPayload\<close> reads the interrupt line at most 50000 times, and counts the payload as sent
  exactly when the line was low at one of them, whatever the status register says; it then clears
  the interrupt for sent data and no other.  An interrupt for too many retransmissions therefore counts as a
  success, and stays pending.\<close>

theorem rf_send_payload:
  "\<exists>k \<le> 50000. \<exists>s'. run_state (RF_SendPayload hw payload rx) s =
     (if \<forall>i < 50000. irq hw (Suc (asked s) + i) \<noteq> 0 then nRF_ERROR_CHIP_NOT_RESPONDING else nRF24L01_SUCCESS, s') \<and>
   trace s' = trace s @ [WriteReg 0xA0 payload, IO_CE_Func 1] @ replicate k IO_IRQ_Func @
     (if rx then [] else [IO_CE_Func 0]) @ [WriteReg 0x27 [0x20], WriteReg 0xE1 []]"
proof -
  define s1 where "s1 = s\<lparr>asked := Suc (asked s), trace := trace s @ [WriteReg 0xA0 payload, IO_CE_Func 1]\<rparr>"
  obtain k where k: "k \<le> 50000" "snd (run_state (wait_irq_low hw 50000) s1) =
      s1\<lparr>trace := trace s1 @ replicate k IO_IRQ_Func, asked := asked s1 + k\<rparr>"
    using wait_irq_low_polls by blast
  obtain x where x: "run_state (wait_irq_low hw 50000) s1 = (x, s1\<lparr>trace := trace s1 @ replicate k IO_IRQ_Func, asked := asked s1 + k\<rparr>)"
    using k(2) by (metis prod.collapse)
  have x0: "x = 0 \<longleftrightarrow> (\<forall>i < 50000. irq hw (Suc (asked s) + i) \<noteq> 0)"
    using wait_irq_low_result [of hw 50000 s1] x by (simp add: s1_def)
  have "run_state (RF_SendPayload hw payload rx) s =
    (if x = 0 then nRF_ERROR_CHIP_NOT_RESPONDING else nRF24L01_SUCCESS,
     s1\<lparr>trace := trace s1 @ replicate k IO_IRQ_Func @ (if rx then [] else [IO_CE_Func 0]) @ [WriteReg 0x27 [0x20], WriteReg 0xE1 []],
        asked := asked s1 + k + 2\<rparr>)"
    using x
    by (simp add: RF_SendPayload_def RF_IRQ_CLEAR_def RF_Send_Cmd_def RF_Flush_def ANT_ENABLE_def ANT_DISABLE_def run_simps
        Payload_send_delay_def rf_codes flip: s1_def)
  then show ?thesis
    using k(1) x0 by (intro exI [of _ k] conjI exI) (auto simp: s1_def)
qed


definition example_radio :: RF_InitTypeDef where
  "example_radio = \<lparr>nRF_Power = nRF_Power_On, nRF_RX_IRQ_Config = nRF_Config_IRQ_RX_On, nRF_TX_IRQ_Config = nRF_Config_IRQ_TX_On,
     nRF_RT_IRQ_Config = nRF_Config_IRQ_Max_RT_Off, nRF_CRC_Mode = nRF_CRC16, nRF_Mode = nRF_Mode_RX, nRF_Pipes_ACK_Enable = 0x3F,
     nRF_Pipes_Enable = 0x03, nRF_AddressLen = 3, nRF_Channel = 76, nRF_TX_Power = nRF_TX_Power_Medium,
     nRF_Data_Rate = nRF_Data_Rate_2Mbs, nRF_RX_Adress_Pipe0 = [1, 2, 3, 4, 5], nRF_RX_Adress_Pipe1 = [6, 7, 8, 9, 10],
     nRF_RX_Adress_Pipe2 = 11, nRF_RX_Adress_Pipe3 = 12, nRF_RX_Adress_Pipe4 = 13, nRF_RX_Adress_Pipe5 = 14,
     nRF_TX_Adress = [1, 2, 3, 4, 5], nRF_Payload_Size_Pipe0 = 32, nRF_Payload_Size_Pipe1 = 32, nRF_Payload_Size_Pipe2 = 0,
     nRF_Payload_Size_Pipe3 = 0, nRF_Payload_Size_Pipe4 = 0, nRF_Payload_Size_Pipe5 = 0, nRF_Auto_Retransmit_Delay = 5,
     nRF_Auto_Retransmit_Count = 15\<rparr>"

theorem rf_init_configures_witness:
  "\<exists>s' c. run_state (RF_Init \<lparr>status = (\<lambda>_. 0x0E), data = (\<lambda>_ _. 0), irq = (\<lambda>_. 1)\<rparr> example_radio)
      \<lparr>trace = [], asked = 0, RF_InitStruct = example_radio\<rparr> = (Some 0x0E, s') \<and>
    last (trace s') = IO_CE_Func 1 \<and> RF_InitStruct s' = example_radio \<and>
    registers (trace s') 0x00 = Some [c] \<and> config_shows c example_radio \<and>
    air_shows (registers (trace s')) example_radio \<and> pipes_show (registers (trace s')) example_radio"
  using rf_init_configures [of example_radio "\<lparr>status = (\<lambda>_. 0x0E), data = (\<lambda>_ _. 0), irq = (\<lambda>_. 1)\<rparr>"
    "\<lparr>trace = [], asked = 0, RF_InitStruct = example_radio\<rparr>"]
  by (simp add: addressed_def address_bytes_def example_radio_def)

theorem rf_send_payload_witness:
  "\<exists>k s'. run_state (RF_SendPayload \<lparr>status = (\<lambda>_. 0x10), data = (\<lambda>_ _. 0), irq = (\<lambda>n. if n = 3 then 0 else 1)\<rparr> [7] True)
      \<lparr>trace = [], asked = 0, RF_InitStruct = example_radio\<rparr> = (nRF24L01_SUCCESS, s') \<and>
    trace s' = [WriteReg 0xA0 [7], IO_CE_Func 1] @ replicate k IO_IRQ_Func @ [WriteReg 0x27 [0x20], WriteReg 0xE1 []]"
proof -
  let ?hw = "\<lparr>status = (\<lambda>_. 0x10), data = (\<lambda>_ _. 0), irq = (\<lambda>n. if n = 3 then 0 else 1)\<rparr> :: rf_hw"
  have "\<not> (\<forall>i < 50000. irq ?hw (Suc 0 + i) \<noteq> 0)" by (auto intro: exI [of _ "2 :: nat"])
  then show ?thesis
    using rf_send_payload [of ?hw "[7]" True "\<lparr>trace = [], asked = 0, RF_InitStruct = example_radio\<rparr>"] by auto
qed

text \<open>The radio is told the channel modulo 128; the frequency is reported without the reduction.\<close>

lemma channel_frequency:
  fixes channel :: u8 and hw :: rf_hw and s :: rf_io
  defines "s' \<equiv> snd (run_state (RF_ChangeFreqChannel hw channel) s)"
  shows "registers (trace s') 0x05 = Some [channel AND 0x7F]"
    "fst (run_state RF_GetChannelFreqInMHz s') = 2400 + ucast channel"
    "fst (run_state RF_GetChannelFreqInMHz s') = 2400 + ucast (channel AND 0x7F) \<longleftrightarrow> channel < 128"
proof -
  show "registers (trace s') 0x05 = Some [channel AND 0x7F]"
    by (simp add: s'_def RF_ChangeFreqChannel_def RF_Send_Cmd_def run_simps registers_def)
  show f: "fst (run_state RF_GetChannelFreqInMHz s') = 2400 + ucast channel"
    by (simp add: s'_def RF_ChangeFreqChannel_def RF_Send_Cmd_def RF_GetChannelFreqInMHz_def run_simps)
  have down: "(ucast (ucast c :: u16) :: u8) = c" for c :: u8 by (rule ucast_down_up) simp
  have "ucast channel = (ucast (channel AND 0x7F) :: u16) \<longleftrightarrow> channel = channel AND 0x7F"
    using down [of channel] down [of "channel AND 0x7F"] by metis
  moreover have "channel = channel AND 0x7F \<longleftrightarrow> channel < 128"
  proof -
    have "channel AND 0x7F = take_bit 7 channel" by (simp add: take_bit_eq_mask mask_numeral)
    moreover have "take_bit 7 channel = channel \<longleftrightarrow> channel < 128" 
      by (simp add: word_unat_eq_iff unsigned_take_bit_eq take_bit_nat_eq_self_iff word_less_nat_alt)
    ultimately show ?thesis by metis
  qed
  ultimately show "fst (run_state RF_GetChannelFreqInMHz s') = 2400 + ucast (channel AND 0x7F) \<longleftrightarrow> channel < 128"
    by (simp add: f)
qed

text \<open>Sleeping and waking up change the power bit of the configuration the radio reports, and no other.\<close>

lemma sleep_wake_config:
  "registers (trace (snd (run_state (RF_Sleep hw) s))) 0x00 = Some [data hw (asked s) 0 AND NOT 0x02]"
  "registers (trace (snd (run_state (RF_WakeUp hw) s))) 0x00 = Some [data hw (asked s) 0 OR 0x02]"
  by (simp_all add: RF_Sleep_def RF_WakeUp_def RF_Read_Cmd_def RF_Send_Cmd_def run_simps registers_def)

text \<open>A received payload's pipe has the same number as one of the results for errors.\<close>

lemma pipe_3_not_responding:
  assumes "irq hw (asked s) = 0" "status hw (Suc (asked s)) = 0x46"
  shows "fst (fst (run_state (RF_Receive_Data hw n) s)) = nRF_ERROR_CHIP_NOT_RESPONDING"
  using assms by (simp add: RF_Receive_Data_def RF_Read_Cmd_def RF_IRQ_CLEAR_def RF_Send_Cmd_def run_simps rf_codes rf_results Let_def)

end
