(* ===== verification/I2c_Gpio.thy ===== *)
theory I2c_Gpio
  imports Sw_I2c
begin

text \<open>
  The I2C master on two pins of Common/I2C_GPIO.cpp, with the results of Common/monads.h it
  chains its steps by.  The calls on the pins are those of \<open>Sw_I2c\<close>, so the listener of that
  theory hears this master too; the virtual \<open>DelayFunc\<close> has no argument and is recorded with
  the duration 0.
\<close>

section \<open>Results\<close>

text \<open>\<open>Result<T>\<close>: an error code, zero for success, and a value.  \<open>T{}\<close>, the value of a failed
  result, is an argument of \<open>Err\<close>.\<close>

record 'a Result =
  err_code :: int
  res_value :: 'a

definition Ok :: "'a \<Rightarrow> 'a Result" where
  "Ok v = \<lparr>err_code = 0, res_value = v\<rparr>"

definition Err :: "'a \<Rightarrow> int \<Rightarrow> 'a Result" where
  "Err zero e = \<lparr>err_code = e, res_value = zero\<rparr>"

definition IsOk :: "'a Result \<Rightarrow> bool" where
  "IsOk r \<longleftrightarrow> err_code r = 0"

definition AndThen :: "'b \<Rightarrow> 'a Result \<Rightarrow> ('a \<Rightarrow> ('s, 'b Result) state) \<Rightarrow> ('s, 'b Result) state" where
  "AndThen zero r func = (if \<not> IsOk r then State_Monad.return (Err zero (err_code r)) else func (res_value r))"

lemma result_simps [simp]:
  "IsOk (Ok v)" "err_code (Ok v) = 0" "res_value (Ok v) = v" "err_code (Err z e) = e" "res_value (Err z e) = z"
  "IsOk (Err z e) \<longleftrightarrow> e = 0"
  by (simp_all add: IsOk_def Ok_def Err_def)

lemma AndThen_simps:
  "AndThen z (Ok v) f = f v" "e \<noteq> 0 \<Longrightarrow> AndThen z (Err z' e) f = State_Monad.return (Err z e)"
  by (simp_all add: AndThen_def)

section \<open>The master\<close>

definition EIO :: int where "EIO = 5"
definition EBUSY :: int where "EBUSY = 16"

definition DelayFunc :: "unit i2c" where
  "DelayFunc = call (Delay 0)"

definition StartCondition :: "answers \<Rightarrow> int i2c" where
  "StartCondition ans = do {
     call (Sda True); call (Scl True); DelayFunc;
     a \<leftarrow> ask ans Sda_read;
     if a = 0 then State_Monad.return (- EBUSY)
     else do {
       b \<leftarrow> ask ans Scl_read;
       if b = 0 then State_Monad.return (- EBUSY)
       else do {
         call (Sda False); DelayFunc; call (Scl False); DelayFunc;
         State_Monad.return 0
       }
     }
   }"

definition RepeatStartCondition :: "unit i2c" where
  "RepeatStartCondition = do {
     call (Sda True); call (Scl True); DelayFunc; call (Sda False); DelayFunc; call (Scl False); DelayFunc
   }"

definition StopCondition :: "unit i2c" where
  "StopCondition = do {
     DelayFunc; call (Sda False); call (Scl True); DelayFunc; call (Sda True); DelayFunc
   }"

text \<open>The values of \<open>mask\<close> are those of \<open>Sw_I2c\<close>, from 0x80 down to 1.\<close>

fun WriteByte_bits :: "u8 \<Rightarrow> u8 list \<Rightarrow> unit i2c" where
  "WriteByte_bits data [] = State_Monad.return ()"
| "WriteByte_bits data (m # ms) = do {
     (if data AND m \<noteq> 0 then call (Sda True) else call (Sda False));
     call (Scl True); DelayFunc; call (Scl False); DelayFunc;
     WriteByte_bits data ms
   }"

definition WriteByte :: "answers \<Rightarrow> u8 \<Rightarrow> u16 i2c" where
  "WriteByte ans data = do {
     WriteByte_bits data masks;
     call (Sda True); DelayFunc; call (Scl True); DelayFunc;
     ack \<leftarrow> ask ans Sda_read;
     call (Scl False); DelayFunc;
     State_Monad.return ack
   }"

fun ReadByte_bits :: "answers \<Rightarrow> u8 \<Rightarrow> u8 list \<Rightarrow> u8 i2c" where
  "ReadByte_bits ans data [] = State_Monad.return data"
| "ReadByte_bits ans data (m # ms) = do {
     call (Scl True); DelayFunc;
     level \<leftarrow> ask ans Sda_read;
     call (Scl False); DelayFunc;
     ReadByte_bits ans (if level \<noteq> 0 then data OR m else data) ms
   }"

definition ReadByte :: "answers \<Rightarrow> bool \<Rightarrow> u8 i2c" where
  "ReadByte ans ack = do {
     call (Sda True);
     data \<leftarrow> ReadByte_bits ans 0 masks;
     (if ack then call (Sda False) else call (Sda True));
     DelayFunc; call (Scl True); DelayFunc; call (Scl False); DelayFunc;
     call (Sda True);
     State_Monad.return data
   }"

text \<open>The local functions of \<open>Write\<close> and \<open>Read\<close>.  The flag \<open>started\<close> is the second component of
  the first one's result.\<close>

definition start :: "answers \<Rightarrow> (unit Result \<times> bool) i2c" where
  "start ans = do {
     rc \<leftarrow> StartCondition ans;
     State_Monad.return (if rc \<noteq> 0 then (Err () rc, False) else (Ok (), True))
   }"

definition writeByte :: "answers \<Rightarrow> u8 \<Rightarrow> unit Result i2c" where
  "writeByte ans byte = do {
     ack \<leftarrow> WriteByte ans byte;
     State_Monad.return (if ack \<noteq> 0 then Err () (- EIO) else Ok ())
   }"

fun writeMany :: "answers \<Rightarrow> u8 list \<Rightarrow> unit Result i2c" where
  "writeMany ans [] = State_Monad.return (Ok ())"
| "writeMany ans (b # bs) = do {
     ack \<leftarrow> WriteByte ans b;
     if ack \<noteq> 0 then State_Monad.return (Err () (- EIO)) else writeMany ans bs
   }"

definition repeatStart :: "unit Result i2c" where
  "repeatStart = do { RepeatStartCondition; State_Monad.return (Ok ()) }"

text \<open>\<open>n\<close> bytes are left; all but the last are acknowledged.\<close>

fun readMany :: "answers \<Rightarrow> nat \<Rightarrow> u8 list i2c" where
  "readMany ans 0 = State_Monad.return []"
| "readMany ans (Suc n) = do {
     b \<leftarrow> ReadByte ans (n \<noteq> 0); bs \<leftarrow> readMany ans n; State_Monad.return (b # bs)
   }"

definition Write :: "answers \<Rightarrow> u8 \<Rightarrow> u8 list \<Rightarrow> u8 list \<Rightarrow> int i2c" where
  "Write ans device_addr reg_addr data = do {
     (r, started) \<leftarrow> start ans;
     r \<leftarrow> AndThen () r (\<lambda>_. writeByte ans (push_bit 1 device_addr OR 0));
     r \<leftarrow> AndThen () r (\<lambda>_. writeMany ans reg_addr);
     result \<leftarrow> AndThen () r (\<lambda>_. writeMany ans data);
     (if started then StopCondition else skip);
     State_Monad.return (if \<not> IsOk result then err_code result else 0)
   }"

text \<open>A read returns the code with the bytes it has stored into the buffer.\<close>

definition Read :: "answers \<Rightarrow> u8 \<Rightarrow> u8 list \<Rightarrow> nat \<Rightarrow> (int \<times> u8 list) i2c" where
  "Read ans device_addr reg_addr data_length = do {
     (r, started) \<leftarrow> start ans;
     r \<leftarrow> AndThen () r (\<lambda>_. writeByte ans (push_bit 1 device_addr OR 0));
     r \<leftarrow> AndThen () r (\<lambda>_. writeMany ans reg_addr);
     r \<leftarrow> AndThen () r (\<lambda>_. repeatStart);
     r \<leftarrow> AndThen () r (\<lambda>_. writeByte ans (push_bit 1 device_addr OR 1));
     result \<leftarrow> AndThen [] r (\<lambda>_. do { bs \<leftarrow> readMany ans data_length; State_Monad.return (Ok bs) });
     (if started then StopCondition else skip);
     State_Monad.return (if \<not> IsOk result then err_code result else 0, res_value result)
   }"

section \<open>The parts of a transfer, as a device hears them\<close>

lemma run_DelayFunc [run_simps]: "run_state DelayFunc s = ((), s\<lparr>trace := trace s @ [Delay 0]\<rparr>)"
  by (simp add: DelayFunc_def run_simps)

lemma pin_start_run:
  assumes "at s True True syms n"
  shows "\<exists>s' k. run_state (StartCondition ans) s = (if ans n = 0 \<or> ans (Suc n) = 0 then - EBUSY else 0, s') \<and>
    (if ans n = 0 \<or> ans (Suc n) = 0 then at s' True True syms k else at s' False False (syms @ [START]) (n + 2))"
  using assms by (auto simp: StartCondition_def run_simps at_def heard_def)

lemma pin_restart_run:
  assumes "at s x False syms n"
  shows "\<exists>s'. run_state RepeatStartCondition s = ((), s') \<and> at s' False False (syms @ [START]) n"
  using assms by (auto simp: RepeatStartCondition_def run_simps at_def heard_def)

lemma pin_stop_run:
  assumes "at s x False syms n"
  shows "\<exists>s'. run_state StopCondition s = ((), s') \<and> at s' True True (syms @ [STOP]) n"
  using assms by (auto simp: StopCondition_def run_simps at_def heard_def)

lemma WriteByte_bits_run:
  assumes "at s x False syms n"
  shows "\<exists>s' x'. run_state (WriteByte_bits data ms) s = ((), s') \<and>
    at s' x' False (syms @ map (\<lambda>m. BIT (data AND m \<noteq> 0)) ms) n"
  using assms
proof (induction ms arbitrary: s x syms)
  case (Cons m ms)
  obtain s1 where 1: "run_state (do { (if data AND m \<noteq> 0 then call (Sda True) else call (Sda False));
      call (Scl True); DelayFunc; call (Scl False); DelayFunc }) s = ((), s1)"
    "at s1 (data AND m \<noteq> 0) False (syms @ [BIT (data AND m \<noteq> 0)]) n"
    using Cons.prems by (cases "data AND m = 0") (auto simp: run_simps at_def heard_def)
  show ?case using Cons.IH [OF 1(2)] 1(1) by (auto split: prod.splits)
qed auto

lemma WriteByte_run:
  assumes "at s x False syms n"
  shows "\<exists>s'. run_state (WriteByte ans data) s = (ans n, s') \<and> at s' True False (syms @ write_syms data) (Suc n)"
proof -
  obtain s1 x1 where "run_state (WriteByte_bits data masks) s = ((), s1)"
    "at s1 x1 False (syms @ map (\<lambda>m. BIT (data AND m \<noteq> 0)) masks) n"
    using WriteByte_bits_run [OF assms] by blast
  then show ?thesis by (auto simp: WriteByte_def write_syms_def run_simps at_def heard_def)
qed


lemma ReadByte_bits_run:
  assumes "at s True False syms n"
  shows "\<exists>s'. run_state (ReadByte_bits ans data ms) s =
      (foldl (\<lambda>data i. if ans (n + i) \<noteq> 0 then data OR ms ! i else data) data [0..<length ms], s') \<and>
    at s' True False (syms @ replicate (length ms) (BIT True)) (n + length ms)"
  using assms
proof (induction ms arbitrary: s syms n data)
  case (Cons m ms)
  obtain s1 where 1: "run_state (do { call (Scl True); DelayFunc; level \<leftarrow> ask ans Sda_read; call (Scl False); DelayFunc;
      State_Monad.return level }) s = (ans n, s1)" "at s1 True False (syms @ [BIT True]) (Suc n)"
    using Cons.prems by (auto simp: run_simps at_def heard_def)
  have "[0..<length (m # ms)] = 0 # map Suc [0..<length ms]"
    by (simp only: length_Cons upt_conv_Cons zero_less_Suc map_Suc_upt)
  then show ?case using Cons.IH [OF 1(2), of "if ans n \<noteq> 0 then data OR m else data"] 1(1)
    by (auto simp: foldl_map run_simps cong: if_cong split: prod.splits)
qed auto

lemma ReadByte_run:
  assumes "at s x False syms n"
  shows "\<exists>s'. run_state (ReadByte ans ack) s = (byte_of (\<lambda>i. ans (n + i)), s') \<and>
    at s' True False (syms @ read_syms ack) (n + 8)"
proof -
  have m: "length masks = 8" by (simp add: masks_def)
  obtain s0 where 0: "run_state (call (Sda True)) s = ((), s0)" "at s0 True False syms n"
    using sda_run [OF assms] by blast
  obtain s1 where 1: "run_state (ReadByte_bits ans 0 masks) s0 = (byte_of (\<lambda>i. ans (n + i)), s1)"
    "at s1 True False (syms @ replicate 8 (BIT True)) (n + 8)"
    using ReadByte_bits_run [OF 0(2), of ans 0 masks] m by (auto simp: byte_of_def)
  show ?thesis using 0(1) 1
    by (cases ack) (auto simp: ReadByte_def read_syms_def run_simps at_def heard_def)
qed

lemma readMany_run:
  assumes "at s True False syms n"
  shows "\<exists>s'. run_state (readMany ans k) s = (map (\<lambda>j. byte_of (\<lambda>i. ans (n + 8 * j + i))) [0..<k], s') \<and>
    at s' True False (syms @ concat (map (\<lambda>j. read_syms (j < k - 1)) [0..<k])) (n + 8 * k)"
  using assms
proof (induction k arbitrary: s syms n)
  case (Suc k)
  obtain s1 where 1: "run_state (ReadByte ans (k \<noteq> 0)) s = (byte_of (\<lambda>i. ans (n + i)), s1)"
    "at s1 True False (syms @ read_syms (k \<noteq> 0)) (n + 8)" using ReadByte_run [OF Suc.prems] by blast
  obtain s2 where 2: "run_state (readMany ans k) s1 = (map (\<lambda>j. byte_of (\<lambda>i. ans (n + 8 + 8 * j + i))) [0..<k], s2)"
    "at s2 True False ((syms @ read_syms (k \<noteq> 0)) @ concat (map (\<lambda>j. read_syms (j < k - 1)) [0..<k])) (n + 8 + 8 * k)"
    using Suc.IH [OF 1(2)] by blast
  have u: "[0..<Suc k] = 0 # map Suc [0..<k]" by (simp only: upt_conv_Cons zero_less_Suc map_Suc_upt)
  have "map (\<lambda>j. byte_of (\<lambda>i. ans (n + 8 * j + i))) [0..<Suc k] =
      byte_of (\<lambda>i. ans (n + i)) # map (\<lambda>j. byte_of (\<lambda>i. ans (n + 8 + 8 * j + i))) [0..<k]"
    unfolding u by (simp add: algebra_simps)
  moreover have "map (\<lambda>j. read_syms (j < Suc k - 1)) [0..<Suc k] = read_syms (k \<noteq> 0) # map (\<lambda>j. read_syms (j < k - 1)) [0..<k]"
    unfolding u by (auto simp: comp_def less_diff_conv)
  ultimately show ?case using 1(1) 2 by (simp add: algebra_simps)
qed auto

section \<open>Whole transfers\<close>

text \<open>The bytes that go out: up to the first that is not acknowledged.\<close>

fun sent_until :: "answers \<Rightarrow> nat \<Rightarrow> u8 list \<Rightarrow> u8 list" where
  "sent_until ans n [] = []"
| "sent_until ans n (b # bs) = b # (if ans n = 0 then sent_until ans (Suc n) bs else [])"

definition all_acked :: "answers \<Rightarrow> nat \<Rightarrow> nat \<Rightarrow> bool" where
  "all_acked ans n k \<longleftrightarrow> (\<forall>i < k. ans (n + i) = 0)"

lemma all_acked_Suc: "all_acked ans n (Suc k) \<longleftrightarrow> ans n = 0 \<and> all_acked ans (Suc n) k"
  by (auto simp: all_acked_def less_Suc_eq_0_disj)

lemma all_acked_add: "all_acked ans n (j + k) \<longleftrightarrow> all_acked ans n j \<and> all_acked ans (n + j) k"
  by (induction j arbitrary: n) (auto simp: all_acked_Suc, auto simp: all_acked_def)

lemma sent_until_all: "all_acked ans n (length bs) \<Longrightarrow> sent_until ans n bs = bs"
  by (induction bs arbitrary: n) (auto simp: all_acked_Suc)

lemma writeMany_run:
  assumes "at s x False syms n" "bs \<noteq> [] \<or> x"
  shows "\<exists>s' k. run_state (writeMany ans bs) s =
      (if all_acked ans n (length bs) then Ok () else Err () (- EIO), s') \<and>
    at s' True False (syms @ concat (map write_syms (sent_until ans n bs))) k \<and>
    (all_acked ans n (length bs) \<longrightarrow> k = n + length bs)"
  using assms
proof (induction bs arbitrary: s x syms n)
  case (Cons b bs)
  obtain s1 where 1: "run_state (WriteByte ans b) s = (ans n, s1)" "at s1 True False (syms @ write_syms b) (Suc n)"
    using WriteByte_run [OF Cons.prems(1)] by blast
  show ?case
    using Cons.IH [OF 1(2)] 1 by (cases "ans n = 0") (auto simp: all_acked_Suc)
qed (auto simp: all_acked_def)

text \<open>The chain of steps writes the bytes one after the other.\<close>

lemma AndThen_Ok_unit: "AndThen () r (\<lambda>_. State_Monad.return (Ok ())) = State_Monad.return r"
  by (cases r) (auto simp: AndThen_def IsOk_def Ok_def Err_def)

lemma writeMany_append:
  "State_Monad.bind (writeMany ans as) (\<lambda>r. AndThen () r (\<lambda>_. writeMany ans bs)) = writeMany ans (as @ bs)"
  by (induction as) (auto simp: AndThen_simps EIO_def intro!: arg_cong [where f = "State_Monad.bind m" for m])

lemma writeByte_Many: "writeByte ans b = writeMany ans [b]"
  by (auto simp: writeByte_def fun_eq_iff intro!: arg_cong [where f = "State_Monad.bind m" for m])


lemma Write_steps:
  "Write ans device_addr reg data = do {
     rc \<leftarrow> StartCondition ans;
     if rc \<noteq> 0 then State_Monad.return rc
     else do {
       result \<leftarrow> writeMany ans (push_bit 1 device_addr # reg @ data);
       StopCondition;
       State_Monad.return (if \<not> IsOk result then err_code result else 0)
     }
   }"
proof -
  have "writeMany ans (push_bit 1 device_addr # reg @ data) = do {
      r \<leftarrow> do { r \<leftarrow> writeMany ans [push_bit 1 device_addr]; AndThen () r (\<lambda>_. writeMany ans reg) };
      AndThen () r (\<lambda>_. writeMany ans data) }"
    by (simp only: writeMany_append append.simps append_assoc)
  then show ?thesis
    by (auto simp: Write_def start_def skip_def writeByte_Many AndThen_simps fun_eq_iff simp del: writeMany.simps
      intro!: arg_cong [where f = "State_Monad.bind m" for m])
qed

text \<open>A line is held low when the master looks, at its \<open>m\<close>-th question.\<close>

definition busy :: "answers \<Rightarrow> nat \<Rightarrow> bool" where
  "busy ans m \<longleftrightarrow> ans m = 0 \<or> ans (Suc m) = 0"

definition write_msg :: "u8 \<Rightarrow> u8 list \<Rightarrow> u8 list \<Rightarrow> u8 list" where
  "write_msg device_addr reg data = push_bit 1 device_addr # reg @ data"

lemma Write_run:
  assumes at0: "at s0 True True syms m"
  shows "\<exists>s k. run_state (Write ans device_addr reg data) s0 =
      (if busy ans m then - EBUSY else if all_acked ans (m + 2) (length (write_msg device_addr reg data)) then 0 else - EIO, s) \<and>
    at s True True (syms @ (if busy ans m then []
      else START # concat (map write_syms (sent_until ans (m + 2) (write_msg device_addr reg data))) @ [STOP])) k"
proof -
  let ?msg = "write_msg device_addr reg data"
  obtain s1 k where 1: "run_state (StartCondition ans) s0 = (if busy ans m then - EBUSY else 0, s1)"
    "if busy ans m then at s1 True True syms k else at s1 False False (syms @ [START]) (m + 2)"
    using pin_start_run [OF at0, of ans] unfolding busy_def by blast
  show ?thesis
  proof (cases "busy ans m")
    case True
    then show ?thesis using 1 by (auto simp: Write_steps EBUSY_def)
  next
    case False
    then have a: "at s1 False False (syms @ [START]) (m + 2)" using 1(2) by simp
    obtain s2 k2 where 2: "run_state (writeMany ans ?msg) s1 = (if all_acked ans (m + 2) (length ?msg) then Ok () else Err () (- EIO), s2)"
      "at s2 True False ((syms @ [START]) @ concat (map write_syms (sent_until ans (m + 2) ?msg))) k2"
      using writeMany_run [OF a, of ?msg ans] by (auto simp: write_msg_def)
    obtain s3 where 3: "run_state StopCondition s2 = ((), s3)"
      "at s3 True True (((syms @ [START]) @ concat (map write_syms (sent_until ans (m + 2) ?msg))) @ [STOP]) k2"
      using pin_stop_run [OF 2(2)] by blast
    show ?thesis
      using 1(1) False 2(1) 3 unfolding Write_steps write_msg_def [symmetric]
      by (auto simp: EIO_def)
  qed
qed

lemma Read_steps:
  "Read ans device_addr reg n = do {
     rc \<leftarrow> StartCondition ans;
     if rc \<noteq> 0 then State_Monad.return (rc, [])
     else do {
       r \<leftarrow> writeMany ans (push_bit 1 device_addr # reg);
       if \<not> IsOk r then do { StopCondition; State_Monad.return (err_code r, []) }
       else do {
         RepeatStartCondition;
         r \<leftarrow> writeMany ans [push_bit 1 device_addr OR 1];
         if \<not> IsOk r then do { StopCondition; State_Monad.return (err_code r, []) }
         else do {
           bs \<leftarrow> readMany ans n;
           StopCondition;
           State_Monad.return (0, bs)
         }
       }
     }
   }"
proof -
  have w: "writeMany ans (push_bit 1 device_addr # reg) =
      do { r \<leftarrow> writeMany ans [push_bit 1 device_addr]; AndThen () r (\<lambda>_. writeMany ans reg) }"
    by (simp only: writeMany_append append.simps)
  have e: "AndThen [] r f = (if IsOk r then f () else State_Monad.return (Err [] (err_code r)))"
    "AndThen () r g = (if IsOk r then g () else State_Monad.return (Err () (err_code r)))"
    for r :: "unit Result" and f :: "unit \<Rightarrow> u8 list Result i2c" and g :: "unit \<Rightarrow> unit Result i2c"
    by (simp_all add: AndThen_def)
  have nz: "\<not> IsOk r \<Longrightarrow> err_code r \<noteq> 0" for r :: "unit Result" by (simp add: IsOk_def)
  show ?thesis
    unfolding w
    by (auto simp: Read_def start_def skip_def writeByte_Many repeatStart_def e nz IsOk_def fun_eq_iff simp del: writeMany.simps
      intro!: arg_cong [where f = "State_Monad.bind m" for m])
qed

definition read_acked :: "answers \<Rightarrow> nat \<Rightarrow> u8 list \<Rightarrow> bool" where
  "read_acked ans m reg \<longleftrightarrow> \<not> busy ans m \<and> all_acked ans (m + 2) (Suc (Suc (length reg)))"

definition driven :: "answers \<Rightarrow> nat \<Rightarrow> u8 list \<Rightarrow> nat \<Rightarrow> u8 list" where
  "driven ans m reg n = map (\<lambda>j. byte_of (\<lambda>i. ans (m + 4 + length reg + 8 * j + i))) [0..<n]"

lemma Read_run:
  assumes at0: "at s0 True True syms m"
  shows "\<exists>rc bs s syms' k. run_state (Read ans device_addr reg n) s0 = ((rc, bs), s) \<and> at s True True (syms @ syms') k \<and>
    (if read_acked ans m reg then rc = 0 \<and> bs = driven ans m reg n \<and>
       syms' = START # concat (map write_syms (push_bit 1 device_addr # reg)) @ [START] @
         write_syms (push_bit 1 device_addr OR 1) @ concat (map (\<lambda>j. read_syms (j < n - 1)) [0..<n]) @ [STOP]
     else rc = (if busy ans m then - EBUSY else - EIO) \<and> bs = [])"
proof -
  define n0 where "n0 = m + 3 + length reg"
  have n1: "Suc n0 = m + 4 + length reg" by (simp add: n0_def)
  obtain s1 k where 1: "run_state (StartCondition ans) s0 = (if busy ans m then - EBUSY else 0, s1)"
    "if busy ans m then at s1 True True syms k else at s1 False False (syms @ [START]) (m + 2)"
    using pin_start_run [OF at0, of ans] unfolding busy_def by blast
  show ?thesis
  proof (cases "busy ans m")
    case True
    then show ?thesis using 1 
      by (intro exI [of _ "- EBUSY"] exI [of _ "[]"] exI [of _ s1] exI [of _ "[]"] exI [of _ k])
        (auto simp: Read_steps EBUSY_def read_acked_def)
  next
    case False
    then have a: "at s1 False False (syms @ [START]) (m + 2)" using 1(2) by simp
    let ?msg = "push_bit 1 device_addr # reg"
    obtain s2 k2 where 2: "run_state (writeMany ans ?msg) s1 = (if all_acked ans (m + 2) (length ?msg) then Ok () else Err () (- EIO), s2)"
      "at s2 True False ((syms @ [START]) @ concat (map write_syms (sent_until ans (m + 2) ?msg))) k2"
      "all_acked ans (m + 2) (length ?msg) \<longrightarrow> k2 = m + 2 + length ?msg"
      using writeMany_run [OF a, of ?msg ans] by auto
    have stop: "\<exists>s'. run_state StopCondition s = ((), s') \<and> at s' True True (syms @ symt @ [STOP]) k"
      if "at s x False (syms @ symt) k" for s x symt k using pin_stop_run [OF that] by simp
    have n0: "n0 = m + 2 + length ?msg" by (simp add: n0_def)
    have split: "all_acked ans (m + 2) (Suc (Suc (length reg))) \<longleftrightarrow> all_acked ans (m + 2) (length ?msg) \<and> ans n0 = 0"
      using all_acked_add [of ans "m + 2" "length ?msg" 1] by (simp add: n0) (simp add: all_acked_def)
    have done_as: ?thesis if "run_state (Read ans device_addr reg n) s0 = ((rc, bs), s')" "at s' True True (syms @ x) j"
      "if read_acked ans m reg then rc = 0 \<and> bs = driven ans m reg n \<and>
         x = START # concat (map write_syms (push_bit 1 device_addr # reg)) @ [START] @
           write_syms (push_bit 1 device_addr OR 1) @ concat (map (\<lambda>j. read_syms (j < n - 1)) [0..<n]) @ [STOP]
       else rc = (if busy ans m then - EBUSY else - EIO) \<and> bs = []" for rc bs s' x j
      using that by blast
    show ?thesis
    proof (cases "all_acked ans (m + 2) (length ?msg)")
      case no: False
      obtain s3 where "run_state StopCondition s2 = ((), s3)"
        "at s3 True True (syms @ ([START] @ concat (map write_syms (sent_until ans (m + 2) ?msg))) @ [STOP]) k2"
        using stop [OF 2(2) [unfolded append_assoc]] by blast
      then show ?thesis using 1(1) False 2(1) no split
        by (intro done_as) (auto simp: Read_steps EIO_def read_acked_def simp del: writeMany.simps)
    next
      case yes: True
      obtain s3 where 3: "run_state RepeatStartCondition s2 = ((), s3)"
        "at s3 False False (((syms @ [START]) @ concat (map write_syms ?msg)) @ [START]) n0"
        using pin_restart_run [OF 2(2)] 2(3) yes sent_until_all [OF yes] n0 by auto
      obtain s4 where 4: "run_state (writeMany ans [push_bit 1 device_addr OR 1]) s3 =
          (if ans n0 = 0 then Ok () else Err () (- EIO), s4)"
        "at s4 True False ((((syms @ [START]) @ concat (map write_syms ?msg)) @ [START]) @ write_syms (push_bit 1 device_addr OR 1)) (Suc n0)"
        using WriteByte_run [OF 3(2), of ans "push_bit 1 device_addr OR 1"] by auto
      show ?thesis
      proof (cases "ans n0 = 0")
        case False
        obtain s5 where "run_state StopCondition s4 = ((), s5)"
          "at s5 True True (syms @ ([START] @ concat (map write_syms ?msg) @ [START] @ write_syms (push_bit 1 device_addr OR 1)) @ [STOP]) (Suc n0)"
          using stop [OF 4(2) [unfolded append_assoc]] by auto
        then show ?thesis using 1(1) \<open>\<not> busy ans m\<close> 2(1) yes 3(1) 4(1) False split
          by (intro done_as) (auto simp: Read_steps EIO_def read_acked_def simp del: writeMany.simps)
      next
        case True
        obtain s5 where 5: "run_state (readMany ans n) s4 = (map (\<lambda>j. byte_of (\<lambda>i. ans (Suc n0 + 8 * j + i))) [0..<n], s5)"
          "at s5 True False (((((syms @ [START]) @ concat (map write_syms ?msg)) @ [START]) @ write_syms (push_bit 1 device_addr OR 1)) @
            concat (map (\<lambda>j. read_syms (j < n - 1)) [0..<n])) (Suc n0 + 8 * n)"
          using readMany_run [OF 4(2)] by blast
        obtain s6 where "run_state StopCondition s5 = ((), s6)"
          "at s6 True True (syms @ [START] @ concat (map write_syms ?msg) @ [START] @
            write_syms (push_bit 1 device_addr OR 1) @ concat (map (\<lambda>j. read_syms (j < n - 1)) [0..<n]) @ [STOP]) (Suc n0 + 8 * n)"
          using stop [OF 5(2) [unfolded append_assoc]] by auto
        then show ?thesis using 1(1) \<open>\<not> busy ans m\<close> 2(1) yes 3(1) 4(1) 5(1) True split unfolding n1
          by (intro done_as) (auto simp: Read_steps read_acked_def driven_def simp del: writeMany.simps)
      qed
    qed
  qed
qed

text \<open>C19: a write on two pins does what the bus asks of it whatever the devices answer.  When a
  line is held low nothing is sent and the result is \<open>-EBUSY\<close>.  Otherwise a device hears, between one
  start and one stop condition, the address with the write bit, the register bytes and the data, up
  to the first byte that no device acknowledges; the result is zero when all are acknowledged and
  \<open>-EIO\<close> otherwise.  Both lines are released at the end.\<close>

theorem i2c_gpio_write:
  "\<exists>rc s. run_state (Write ans device_addr reg data) io_start = (rc, s) \<and> sda (heard s) \<and> scl (heard s) \<and>
    rc = (if busy ans 0 then - EBUSY else if all_acked ans 2 (length (write_msg device_addr reg data)) then 0 else - EIO) \<and>
    seen (heard s) = (if busy ans 0 then []
      else START # concat (map write_syms (sent_until ans 2 (write_msg device_addr reg data))) @ [STOP])"
  using Write_run [OF at_start, of ans device_addr reg data] by (auto simp: at_def numeral_2_eq_2)

text \<open>A read returns what the device drives onto the line, or fails and stores nothing.  When the
  address, the register bytes and the address with the read bit are all acknowledged, the result is zero and the
  bytes are the levels of the data line at eight clock pulses each, and the master acknowledges all of
  them but the last.  When one is not, the result is \<open>-EIO\<close>, or \<open>-EBUSY\<close> when the bus was not free, and
  the caller's buffer is left as it was.\<close>

theorem i2c_gpio_read:
  "\<exists>rc bs s. run_state (Read ans device_addr reg n) io_start = ((rc, bs), s) \<and> sda (heard s) \<and> scl (heard s) \<and>
    (if read_acked ans 0 reg then rc = 0 \<and> bs = driven ans 0 reg n \<and>
       seen (heard s) = START # concat (map write_syms (push_bit 1 device_addr # reg)) @ [START] @
         write_syms (push_bit 1 device_addr OR 1) @ concat (map (\<lambda>j. read_syms (j < n - 1)) [0..<n]) @ [STOP]
     else rc = (if busy ans 0 then - EBUSY else - EIO) \<and> bs = [])"
proof -
  obtain rc bs s syms' k where "run_state (Read ans device_addr reg n) io_start = ((rc, bs), s)" "at s True True ([] @ syms') k"
    "if read_acked ans 0 reg then rc = 0 \<and> bs = driven ans 0 reg n \<and>
       syms' = START # concat (map write_syms (push_bit 1 device_addr # reg)) @ [START] @
         write_syms (push_bit 1 device_addr OR 1) @ concat (map (\<lambda>j. read_syms (j < n - 1)) [0..<n]) @ [STOP]
     else rc = (if busy ans 0 then - EBUSY else - EIO) \<and> bs = []"
    using Read_run [OF at_start, of ans device_addr reg n] by blast
  then show ?thesis by (intro exI [of _ rc] exI [of _ bs] exI [of _ s]) (auto simp: at_def split: if_splits)
qed

end
