(* ===== verification/Lm75.thy ===== *)
theory Lm75
  imports I2c_Gpio Complex_Main
begin

text \<open>
  The C++ classes between a thermometer and its bus: the interface and the device of
  Common/interfaces.h and Common/devices.h, and the thermometer of Common/LM75.cpp.  The virtual functions
  of an interface are the fields of a record; a read returns the code with the bytes it has stored from
  the start of the buffer.  The temperature, a \<open>float\<close> that is a multiple of a half, is a rational number.
\<close>

section \<open>Interface and device\<close>

record 's I2C_InterfaceBase =
  if_Write :: "u8 \<Rightarrow> u8 list \<Rightarrow> u8 list \<Rightarrow> ('s, int) state"
  if_Read :: "u8 \<Rightarrow> u8 list \<Rightarrow> nat \<Rightarrow> ('s, int \<times> u8 list) state"

record 's I2C_DeviceBase =
  ifs :: "'s I2C_InterfaceBase"
  address :: u8

definition Device_Write :: "'s I2C_DeviceBase \<Rightarrow> u8 list \<Rightarrow> u8 list \<Rightarrow> ('s, unit) state" where
  "Device_Write dev reg_addr data = do {
     _ \<leftarrow> if_Write (ifs dev) (address dev) reg_addr data;
     State_Monad.return ()
   }"

definition Device_Write_reg :: "'s I2C_DeviceBase \<Rightarrow> u8 \<Rightarrow> u8 list \<Rightarrow> ('s, unit) state" where
  "Device_Write_reg dev reg_addr data = Device_Write dev [reg_addr] data"

definition Device_Write_byte :: "'s I2C_DeviceBase \<Rightarrow> u8 \<Rightarrow> u8 \<Rightarrow> ('s, unit) state" where
  "Device_Write_byte dev reg_addr data = Device_Write dev [reg_addr] [data]"

text \<open>The caller's buffer, with what the interface has stored into it.\<close>

definition Device_Read :: "'s I2C_DeviceBase \<Rightarrow> u8 list \<Rightarrow> u8 list \<Rightarrow> ('s, u8 list) state" where
  "Device_Read dev reg_addr data = do {
     (_, bs) \<leftarrow> if_Read (ifs dev) (address dev) reg_addr (length data);
     State_Monad.return (bs @ drop (length bs) data)
   }"

definition Device_Read_reg :: "'s I2C_DeviceBase \<Rightarrow> u8 \<Rightarrow> u8 list \<Rightarrow> ('s, u8 list) state" where
  "Device_Read_reg dev reg_addr data = Device_Read dev [reg_addr] data"

definition Device_Read_byte :: "'s I2C_DeviceBase \<Rightarrow> u8 \<Rightarrow> u8 \<Rightarrow> ('s, u8) state" where
  "Device_Read_byte dev reg_addr data = do { bs \<leftarrow> Device_Read dev [reg_addr] [data]; State_Monad.return (hd bs) }"

section \<open>The thermometer\<close>

definition LM75_TEMP_REG :: u8 where "LM75_TEMP_REG = 0x00"
definition LM75_CONFIG_REG :: u8 where "LM75_CONFIG_REG = 0x01"

definition LM75_Init :: "'s I2C_DeviceBase \<Rightarrow> bool \<Rightarrow> ('s, unit) state" where
  "LM75_Init dev enable = (let config = (if enable then 0 else 1) in Device_Write_reg dev LM75_CONFIG_REG [config])"

text \<open>The two bytes as a signed number of 16 bits, shifted to 9, in halves of a degree.\<close>

definition temp_raw :: "u8 \<Rightarrow> u8 \<Rightarrow> 16 word" where
  "temp_raw hi lo = (let t = push_bit 8 (ucast hi) OR ucast lo;
     t = signed_drop_bit 7 t
     in if t AND 0x0100 \<noteq> 0 then t OR 0xFE00 else t)"

definition LM75_GetResult :: "'s I2C_DeviceBase \<Rightarrow> ('s, rat) state" where
  "LM75_GetResult dev = do {
     data \<leftarrow> Device_Read_reg dev LM75_TEMP_REG (replicate 2 0);
     State_Monad.return (of_int (sint (temp_raw (data ! 0) (data ! 1))) * (1 / 2))
   }"

section \<open>What a client of an interface relies on\<close>

locale i2c_interface =
  fixes bus :: "'s I2C_InterfaceBase"
    and ready :: "'s \<Rightarrow> bool"
    and answer :: "'s \<Rightarrow> u8 list \<Rightarrow> nat \<Rightarrow> u8 list option"
  assumes read_answer: "ready s \<Longrightarrow> answer s reg n = Some bs \<Longrightarrow>
      \<exists>s'. run_state (if_Read bus a reg n) s = ((0, bs), s') \<and> ready s'"
    and read_refused: "ready s \<Longrightarrow> answer s reg n = None \<Longrightarrow>
      \<exists>rc s'. run_state (if_Read bus a reg n) s = ((rc, []), s') \<and> rc \<noteq> 0 \<and> ready s'"
    and answer_length: "answer s reg n = Some bs \<Longrightarrow> length bs = n"
    and write_ready: "ready s \<Longrightarrow> \<exists>rc s'. run_state (if_Write bus a reg bs) s = (rc, s') \<and> ready s'"
begin

lemma device_read:
  assumes "ready s" "ifs dev = bus"
  shows "\<exists>s'. run_state (Device_Read dev reg data) s =
    (case answer s reg (length data) of None \<Rightarrow> data | Some bs \<Rightarrow> bs, s') \<and> ready s'"
proof (cases "answer s reg (length data)")
  case None
  then show ?thesis using read_refused [OF assms(1) None, of "address dev"] assms(2)
    by (auto simp: Device_Read_def)
next
  case (Some bs)
  then show ?thesis using read_answer [OF assms(1) Some, of "address dev"] answer_length [OF Some] assms(2)
    by (auto simp: Device_Read_def)
qed

lemma device_write: "ready s \<Longrightarrow> ifs dev = bus \<Longrightarrow> \<exists>s'. run_state (Device_Write dev reg data) s = ((), s') \<and> ready s'"
  using write_ready [of s "address dev" reg data] by (auto simp: Device_Write_def)

text \<open>A thermometer on a bus: an answered read yields the temperature of the two bytes, one that fails
  zero degrees.\<close>

lemma thermometer:
  assumes "ready s" "ifs dev = bus"
  shows "\<exists>s'. run_state (LM75_GetResult dev) s =
    (case answer s [LM75_TEMP_REG] 2 of None \<Rightarrow> 0
     | Some bs \<Rightarrow> of_int (sint (temp_raw (bs ! 0) (bs ! 1))) / 2, s') \<and> ready s'"
proof -
  have z: "temp_raw 0 0 = 0" by (simp add: temp_raw_def Let_def)
  obtain s' where "run_state (Device_Read dev [LM75_TEMP_REG] (replicate 2 0)) s =
    (case answer s [LM75_TEMP_REG] 2 of None \<Rightarrow> replicate 2 0 | Some bs \<Rightarrow> bs, s')" "ready s'"
    using device_read [OF assms, of "[LM75_TEMP_REG]" "replicate 2 0"] by auto
  then show ?thesis
    by (auto simp: LM75_GetResult_def Device_Read_reg_def z nth_append split: option.splits)
qed

end

section \<open>The interface on two pins\<close>

definition gpio_bus :: "answers \<Rightarrow> i2c_call io I2C_InterfaceBase" where
  "gpio_bus ans = \<lparr>if_Write = Write ans, if_Read = Read ans\<rparr>"

definition released :: "i2c_call io \<Rightarrow> bool" where
  "released s \<longleftrightarrow> sda (heard s) \<and> scl (heard s) \<and> pending (heard s) = None"

lemma released_at: "released s \<longleftrightarrow> Sw_I2c.at s True True (seen (heard s)) (asked s)"
  by (cases "heard s") (auto simp: released_def Sw_I2c.at_def)

lemma at_released: "Sw_I2c.at s True True syms k \<Longrightarrow> released s"
  by (simp add: released_def Sw_I2c.at_def)

definition pin_answer :: "answers \<Rightarrow> i2c_call io \<Rightarrow> u8 list \<Rightarrow> nat \<Rightarrow> u8 list option" where
  "pin_answer ans s reg n = (if read_acked ans (asked s) reg then Some (driven ans (asked s) reg n) else None)"

interpretation gpio: i2c_interface "gpio_bus ans" released "pin_answer ans" for ans
proof
  fix s reg n bs a
  assume s: "released s"
  note r = Read_run [OF s [unfolded released_at], of ans a reg n]
  show "\<exists>s'. run_state (if_Read (gpio_bus ans) a reg n) s = ((0, bs), s') \<and> released s'" if "pin_answer ans s reg n = Some bs"
    using r that by (auto simp: gpio_bus_def pin_answer_def intro: at_released split: if_splits)
  show "\<exists>rc s'. run_state (if_Read (gpio_bus ans) a reg n) s = ((rc, []), s') \<and> rc \<noteq> 0 \<and> released s'" if "pin_answer ans s reg n = None"
    using r that by (auto simp: gpio_bus_def pin_answer_def EBUSY_def EIO_def intro: at_released split: if_splits)
  show "\<exists>rc s'. run_state (if_Write (gpio_bus ans) a reg bs) s = (rc, s') \<and> released s'"
    using Write_run [OF s [unfolded released_at], of ans a reg bs] by (auto simp: gpio_bus_def intro: at_released)
next
  fix s reg n bs
  show "pin_answer ans s reg n = Some bs \<Longrightarrow> length bs = n"
    by (auto simp: pin_answer_def driven_def split: if_splits)
qed

text \<open>What a temperature can be: the upper nine of the sixteen bits, as a signed number of half degrees.\<close>

lemma sign_extended:
  fixes w :: "16 word"
  assumes "bit (signed_drop_bit 7 w) 8"
  shows "signed_drop_bit 7 w OR 0xFE00 = signed_drop_bit 7 w"
proof (rule bit_word_eqI)
  fix n assume n: "n < LENGTH(16)"
  have w: "bit w 15" using assms by (simp add: bit_signed_drop_bit_iff)
  have m: "bit (0xFE00 :: 16 word) n \<longleftrightarrow> 9 \<le> n"
  proof -
    have "(0xFE00 :: 16 word) = push_bit 9 (mask 7)" by (simp add: mask_numeral)
    moreover have "bit (push_bit 9 (mask 7) :: 16 word) n \<longleftrightarrow> 9 \<le> n"
      using n by (simp only: bit_push_bit_iff bit_mask_iff) auto
    ultimately show ?thesis by (simp only:)
  qed
  show "bit (signed_drop_bit 7 w OR 0xFE00) n = bit (signed_drop_bit 7 w) n"
    unfolding bit_or_iff m using n w by (auto simp: bit_signed_drop_bit_iff)
qed

lemma and_single_bit: "w AND 0x0100 \<noteq> 0 \<longleftrightarrow> bit w 8" for w :: "16 word"
proof -
  have "(0x0100 :: 16 word) = push_bit 8 1" by simp
  then show ?thesis by (simp only: and_exp_eq_0_iff_not_bit push_bit_of_1 simp_thms)
qed

lemma temp_raw_value: "sint (temp_raw hi lo) = sint (push_bit 8 (ucast hi) OR ucast lo :: 16 word) div 128"
proof -
  have "temp_raw hi lo = signed_drop_bit 7 (push_bit 8 (ucast hi) OR ucast lo)"
    using sign_extended by (simp add: temp_raw_def Let_def and_single_bit)
  then show ?thesis by (simp only: sint_signed_drop_bit_eq) (simp add: drop_bit_eq_div)
qed


text \<open>C18: the whole way from the bus to the temperature: on two pins, from released lines, \<open>GetResult\<close> returns
  the upper nine bits of the two bytes that the thermometer drives onto the line, as a signed number of half
  degrees, which lies between -128 and 127.5; and when the bus is busy or a byte is not acknowledged it
  returns 0 degrees, since the device class drops the interface's error code.\<close>

theorem lm75_on_pins:
  assumes "released s"
  shows "\<exists>t s'. run_state (LM75_GetResult \<lparr>ifs = gpio_bus ans, address = a\<rparr>) s = (t, s') \<and> released s' \<and>
    -128 \<le> t \<and> t \<le> 127.5 \<and>
    t = (if read_acked ans (asked s) [LM75_TEMP_REG] then
      let bs = driven ans (asked s) [LM75_TEMP_REG] 2
      in of_int (sint (push_bit 8 (ucast (bs ! 0)) OR ucast (bs ! 1) :: 16 word) div 128) / 2 else 0)"
proof -
  have b: "-256 \<le> sint w div 128" "sint w div 128 \<le> 255" for w :: "16 word"
    using sint_greater_eq [of w] sint_less [of w] by simp_all
  have "-128 \<le> (of_int (sint w div 128) / 2 :: rat)" "(of_int (sint w div 128) / 2 :: rat) \<le> 127.5" for w :: "16 word"
    using b [of w, THEN of_int_le_iff [where 'a = rat, THEN iffD2]] by simp_all
  moreover have "ifs \<lparr>ifs = gpio_bus ans, address = a\<rparr> = gpio_bus ans" by simp
  note gpio.thermometer [OF assms this]
  ultimately show ?thesis by (auto simp: pin_answer_def temp_raw_value Let_def)
qed

theorem lm75_on_pins_witness:
  "\<exists>s'. run_state (LM75_GetResult \<lparr>ifs = gpio_bus (\<lambda>n. if n \<in> {0, 1, 5, 6, 8, 9, 13} then 1 else 0), address = 0x48\<rparr>) io_start
    = (- 39.5, s')"
proof -
  let ?a = "\<lambda>n. if n \<in> {0, 1, 5, 6, 8, 9, 13 :: nat} then 1 else 0 :: u16"
  have r: "released io_start" by (simp add: released_def heard_def idle_bus_def)
  have a: "read_acked ?a 0 [LM75_TEMP_REG]"
    by (auto simp: read_acked_def busy_def all_acked_def less_Suc_eq)
  have d: "driven ?a 0 [LM75_TEMP_REG] 2 = [0xD8, 0x80]"
    by (simp add: driven_def byte_of_def masks_def upt_rec)
  show ?thesis
    using lm75_on_pins [OF r, where ans = ?a and a = "0x48"] a d by (auto simp: Let_def)
qed

end
