(* ===== verification/Ds18b20.thy ===== *)
theory Ds18b20
  imports Complex_Main Dallas_Bus Checksum C_Io
begin

text \<open>
  The C++ driver for temperature sensors of Common/DS18B20.cpp, for one sensor and for several on a bus.
  The virtual functions of \<open>OneWire_InterfaceBase\<close> (Common/interfaces.h) are the fields of a record; the driver is
  the same for every interface.  \<open>unsigned long\<close> has 32 bits.  Temperatures, multiples of a sixteenth,
  are rational numbers.  An access outside of an array, or through a null pointer, has no value.
\<close>

section \<open>The interface\<close>

datatype Result = Success | NoDevice | CrcMissmatch | NotReady | NotAllDevicesFound

record 'w OneWire_InterfaceBase =
  Reset :: "('w, Result) state"
  Write :: "u8 \<Rightarrow> ('w, unit) state"
  Read :: "('w, u8) state"
  WriteBit :: "u8 \<Rightarrow> ('w, unit) state"
  ReadBit :: "('w, u8) state"

definition SKIP_ROM :: u8 where "SKIP_ROM = 0xCC"
definition SEARCH_ROM :: u8 where "SEARCH_ROM = 0xF0"
definition MATCH_ROM :: u8 where "MATCH_ROM = 0x55"
definition CONVERT_T_CMD :: u8 where "CONVERT_T_CMD = 0x44"
definition WRITE_STRATCHPAD_CMD :: u8 where "WRITE_STRATCHPAD_CMD = 0x4E"
definition READ_STRATCHPAD_CMD :: u8 where "READ_STRATCHPAD_CMD = 0xBE"
definition STRATCHPAD_SIZE :: nat where "STRATCHPAD_SIZE = 9"

datatype Resolution = Res_9bit | Res_10bit | Res_11bit | Res_12bit

fun resolution_code :: "Resolution \<Rightarrow> u8" where
  "resolution_code Res_9bit = 0"
| "resolution_code Res_10bit = 1"
| "resolution_code Res_11bit = 2"
| "resolution_code Res_12bit = 3"

definition GetConversionDelayMs :: "Resolution \<Rightarrow> nat" where
  "GetConversionDelayMs resolution = [100, 200, 400, 800] ! unat (resolution_code resolution)"

fun ow_write_all :: "'w OneWire_InterfaceBase \<Rightarrow> u8 list \<Rightarrow> ('w, unit) state" where
  "ow_write_all ifc [] = State_Monad.return ()"
| "ow_write_all ifc (b # bs) = do { Write ifc b; ow_write_all ifc bs }"

fun ow_read_all :: "'w OneWire_InterfaceBase \<Rightarrow> nat \<Rightarrow> ('w, u8 list) state" where
  "ow_read_all ifc 0 = State_Monad.return []"
| "ow_read_all ifc (Suc n) = do { b \<leftarrow> Read ifc; bs \<leftarrow> ow_read_all ifc n; State_Monad.return (b # bs) }"

section \<open>One sensor\<close>

definition scratchpad_config :: "Resolution \<Rightarrow> u8 list" where
  "scratchpad_config resolution = [0, 0, push_bit 5 (resolution_code resolution) OR 0x1F]"

definition Single_Init :: "'w OneWire_InterfaceBase \<Rightarrow> Resolution \<Rightarrow> ('w, Result) state" where
  "Single_Init ifc resolution = do {
     res \<leftarrow> Reset ifc;
     if res \<noteq> Success then State_Monad.return res
     else do {
       ow_write_all ifc ([SKIP_ROM, WRITE_STRATCHPAD_CMD] @ scratchpad_config resolution);
       State_Monad.return res
     }
   }"

definition Single_StartConversion :: "'w OneWire_InterfaceBase \<Rightarrow> ('w, Result) state" where
  "Single_StartConversion ifc = do {
     res \<leftarrow> Reset ifc;
     if res \<noteq> Success then State_Monad.return res
     else do { ow_write_all ifc [SKIP_ROM, CONVERT_T_CMD]; State_Monad.return res }
   }"

text \<open>What both \<open>ReadTemperature\<close> functions do with the nine bytes; the temperature is stored only on success.\<close>

definition rawvalue :: "u8 list \<Rightarrow> 16 word" where
  "rawvalue buf = ucast (buf ! 0) OR push_bit 8 (ucast (buf ! 1))"

definition temperature_of :: "u8 list \<Rightarrow> Result \<times> rat option" where
  "temperature_of buf =
     (if crc8Dallas buf \<noteq> 0 then (CrcMissmatch, None)
      else if sint (rawvalue buf) = 2495 then (NotReady, None)
      else (Success, Some (of_int (sint (rawvalue buf)) / 16)))"

definition Single_ReadTemperature :: "'w OneWire_InterfaceBase \<Rightarrow> ('w, Result \<times> rat option) state" where
  "Single_ReadTemperature ifc = do {
     res \<leftarrow> Reset ifc;
     if res \<noteq> Success then State_Monad.return (res, None)
     else do {
       ow_write_all ifc [SKIP_ROM, READ_STRATCHPAD_CMD];
       buf \<leftarrow> ow_read_all ifc STRATCHPAD_SIZE;
       State_Monad.return (temperature_of buf)
     }
   }"

section \<open>Several sensors\<close>

text \<open>One bit, one byte and the eight bytes of a pass of the search.\<close>

definition pass_bit :: "'w OneWire_InterfaceBase \<Rightarrow> u32 \<Rightarrow> nat \<Rightarrow> u32 \<times> u32 \<times> u8 \<Rightarrow> ('w, u32 \<times> u32 \<times> u8) state" where
  "pass_bit ifc path cnt_bit s = (case s of (nxt, pos, sn) \<Rightarrow> do {
     b \<leftarrow> ReadBit ifc;
     chk \<leftarrow> ReadBit ifc;
     let (b, nxt, pos) =
       (if b = 0 \<and> chk = 0
        then (if pos AND path \<noteq> 0 then (1, nxt, push_bit 1 pos) else (b, (path AND (pos - 1)) OR pos, push_bit 1 pos))
        else (b, nxt, pos));
     WriteBit ifc b;
     State_Monad.return (nxt, pos, if b \<noteq> 0 then sn OR push_bit cnt_bit 1 else sn)
   })"

fun pass_byte :: "'w OneWire_InterfaceBase \<Rightarrow> u32 \<Rightarrow> nat list \<Rightarrow> u32 \<times> u32 \<times> u8 \<Rightarrow> ('w, u32 \<times> u32 \<times> u8) state" where
  "pass_byte ifc path [] s = State_Monad.return s"
| "pass_byte ifc path (cnt_bit # cs) s = do { s' \<leftarrow> pass_bit ifc path cnt_bit s; pass_byte ifc path cs s' }"

fun pass_bytes :: "'w OneWire_InterfaceBase \<Rightarrow> u32 \<Rightarrow> nat \<Rightarrow> u32 \<times> u32 \<Rightarrow> ('w, u32 \<times> u32 \<times> u8 list) state" where
  "pass_bytes ifc path 0 s = State_Monad.return (fst s, snd s, [])"
| "pass_bytes ifc path (Suc n) s = do {
     (nxt, pos, sn) \<leftarrow> pass_byte ifc path [0..<8] (fst s, snd s, 0);
     (nxt, pos, sns) \<leftarrow> pass_bytes ifc path n (nxt, pos);
     State_Monad.return (nxt, pos, sn # sns)
   }"

text \<open>The passes.  The array of serial numbers has \<open>max_devices\<close> rows; the loop ends when no branch is
  left or the array is full, or with an error, which leaves the counter unread.  The fuel bounds the
  number of passes.\<close>

fun search_passes :: "nat \<Rightarrow> 'w OneWire_InterfaceBase \<Rightarrow> u32 \<Rightarrow> u8 list list \<Rightarrow> u8 \<Rightarrow> ('w, (Result \<times> u8 list list \<times> u8) option) state" where
  "search_passes 0 ifc path serial_number cnt_num = State_Monad.return None"
| "search_passes (Suc fuel) ifc path serial_number cnt_num = do {
     res \<leftarrow> Reset ifc;
     if res \<noteq> Success then State_Monad.return (Some (res, serial_number, cnt_num))
     else if length serial_number \<le> unat cnt_num then State_Monad.return None
     else do {
       Write ifc SEARCH_ROM;
       (nxt, pos, sn) \<leftarrow> pass_bytes ifc path 8 (0, 1);
       let serial_number = serial_number[unat cnt_num := sn];
       let cnt_num = cnt_num + 1;
       if unat cnt_num = length serial_number \<or> nxt = 0 then State_Monad.return (Some (Success, serial_number, cnt_num))
       else search_passes fuel ifc nxt serial_number cnt_num
     }
   }"

text \<open>The result, the array and what is stored through \<open>devices_found\<close>, a pointer that may be null and is read at
  the end in any case.\<close>

definition SearchSensors :: "nat \<Rightarrow> 'w OneWire_InterfaceBase \<Rightarrow> u8 list list \<Rightarrow> bool \<Rightarrow>
    ('w, (Result \<times> u8 list list \<times> u8 option) option) state" where
  "SearchSensors fuel ifc serial_number devices_found = do {
     r \<leftarrow> search_passes fuel ifc 0 serial_number 0;
     State_Monad.return (case r of
       None \<Rightarrow> None
     | Some (res, serial_number, cnt_num) \<Rightarrow>
         if res \<noteq> Success then Some (res, serial_number, None)
         else if \<not> devices_found then None
         else Some (if unat cnt_num = length serial_number then Success else NotAllDevicesFound, serial_number, Some cnt_num))
   }"

text \<open>The loop of \<open>Init\<close> runs while \<open>i != devices ? devices : max_devices\<close> is not zero.  Its index is a byte: it
  leaves an array of fewer than 256 rows at its end, and in a longer one the loop would run for ever; neither has
  a value.  The local \<open>res\<close> is uninitialised; what it holds is an argument.\<close>

definition Init_continues :: "u8 \<Rightarrow> nat \<Rightarrow> u8 \<Rightarrow> bool" where
  "Init_continues devices max_devices i = (if i \<noteq> devices then devices \<noteq> 0 else max_devices \<noteq> 0)"

function Init_loop :: "'w OneWire_InterfaceBase \<Rightarrow> Resolution \<Rightarrow> u8 \<Rightarrow> u8 list list \<Rightarrow> nat \<Rightarrow> Result \<Rightarrow> ('w, Result option) state" where
  "Init_loop ifc resolution devices serial_number i res =
     (if \<not> Init_continues devices (length serial_number) (of_nat i) then State_Monad.return (Some res)
      else do {
        res \<leftarrow> Reset ifc;
        if res \<noteq> Success then State_Monad.return (Some res)
        else if length serial_number \<le> i \<or> 256 \<le> length serial_number then State_Monad.return None
        else do {
          ow_write_all ifc ([MATCH_ROM] @ serial_number ! i @ [WRITE_STRATCHPAD_CMD] @ scratchpad_config resolution);
          Init_loop ifc resolution devices serial_number (Suc i) res
        }
      })"
  by pat_completeness auto
termination
  by (relation "measure (\<lambda>(ifc, resolution, devices, serial_number, i, res). length serial_number - i)") auto


declare Init_loop.simps [simp del]

definition Multi_Init :: "'w OneWire_InterfaceBase \<Rightarrow> Resolution \<Rightarrow> u8 list list \<Rightarrow> u8 \<Rightarrow> Result \<Rightarrow> ('w, Result option) state" where
  "Multi_Init ifc resolution serial_number devices junk = Init_loop ifc resolution devices serial_number 0 junk"

text \<open>A row of the array by an \<open>int\<close>.\<close>

definition row :: "u8 list list \<Rightarrow> int \<Rightarrow> u8 list option" where
  "row serial_number num = (if 0 \<le> num \<and> num < int (length serial_number) then Some (serial_number ! nat num) else None)"

definition Multi_StartConversion :: "'w OneWire_InterfaceBase \<Rightarrow> u8 list list \<Rightarrow> int \<Rightarrow> ('w, Result option) state" where
  "Multi_StartConversion ifc serial_number num =
     (if num = 0 then do {
        res \<leftarrow> Reset ifc;
        if res \<noteq> Success then State_Monad.return (Some res)
        else do { ow_write_all ifc [SKIP_ROM, CONVERT_T_CMD]; State_Monad.return (Some res) }
      } else do {
        res \<leftarrow> Reset ifc;
        if res \<noteq> Success then State_Monad.return (Some res)
        else case row serial_number (num - 1) of
          None \<Rightarrow> State_Monad.return None
        | Some sn \<Rightarrow> do { ow_write_all ifc ([MATCH_ROM] @ sn @ [CONVERT_T_CMD]); State_Monad.return (Some res) }
      })"

definition Multi_ReadTemperature :: "'w OneWire_InterfaceBase \<Rightarrow> u8 list list \<Rightarrow> int \<Rightarrow> ('w, (Result \<times> rat option) option) state" where
  "Multi_ReadTemperature ifc serial_number num = do {
     res \<leftarrow> Reset ifc;
     if res \<noteq> Success then State_Monad.return (Some (res, None))
     else case row serial_number num of
       None \<Rightarrow> State_Monad.return None
     | Some sn \<Rightarrow> do {
         ow_write_all ifc ([MATCH_ROM] @ sn @ [READ_STRATCHPAD_CMD]);
         buf \<leftarrow> ow_read_all ifc STRATCHPAD_SIZE;
         State_Monad.return (Some (temperature_of buf))
       }
   }"

section \<open>A recorded interface\<close>

text \<open>An interface whose calls are recorded; its answers are a parameter.\<close>

datatype ow_call = OwReset | OwWrite u8 | OwRead | OwWriteBit u8 | OwReadBit

definition recorded :: "(nat \<Rightarrow> Result) \<Rightarrow> (nat \<Rightarrow> u8) \<Rightarrow> ow_call io OneWire_InterfaceBase" where
  "recorded resets bytes = \<lparr>Reset = ask resets OwReset, Write = (\<lambda>b. call (OwWrite b)), Read = ask bytes OwRead,
     WriteBit = (\<lambda>b. call (OwWriteBit b)), ReadBit = ask bytes OwReadBit\<rparr>"

lemma recorded_simps [simp]:
  "Reset (recorded rs bs) = ask rs OwReset" "Write (recorded rs bs) b = call (OwWrite b)"
  "Read (recorded rs bs) = ask bs OwRead"
  by (simp_all add: recorded_def)

lemma recorded_write: "run_state (ow_write_all (recorded rs bs) ws) s = ((), s\<lparr>trace := trace s @ map OwWrite ws\<rparr>)"
  by (induction ws arbitrary: s) (simp_all add: run_simps)

lemma recorded_read:
  "run_state (ow_read_all (recorded rs bs) n) s =
    (map (\<lambda>i. bs (asked s + i)) [0..<n], s\<lparr>trace := trace s @ replicate n OwRead, asked := asked s + n\<rparr>)"
proof (induction n arbitrary: s)
  case (Suc n)
  have "[0..<Suc n] = 0 # map Suc [0..<n]" by (simp only: upt_conv_Cons zero_less_Suc map_Suc_upt)
  then show ?case using Suc by (simp add: run_simps del: upt_Suc)
qed simp

text \<open>The scratchpad a sensor sends: eight bytes and their checksum.\<close>

definition scratchpad :: "u8 list \<Rightarrow> u8 list" where
  "scratchpad sp = sp @ [crc8Dallas sp]"

text \<open>A sensor that answers the reset and sends eight bytes with their checksum is read as the sixteenths of a
  degree in its first two bytes (unless they are the number 2495, which the driver takes for a conversion still
  running), and when a single byte of the nine arrives wrong, whichever and however, the driver returns
  \<open>CrcMissmatch\<close> and stores no temperature.\<close>

theorem ds18b20_reads_or_rejects:
  assumes "resets (asked s) = Success" "length sp = 8" "k < 9"
    and "\<forall>i < 9. i \<noteq> k \<longrightarrow> bytes (Suc (asked s) + i) = scratchpad sp ! i"
  shows "fst (run_state (Single_ReadTemperature (recorded resets bytes)) s) =
    (if bytes (Suc (asked s) + k) \<noteq> scratchpad sp ! k then (CrcMissmatch, None)
     else if sint (rawvalue sp) = 2495 then (NotReady, None)
     else (Success, Some (of_int (sint (rawvalue sp)) / 16)))"
proof -
  let ?buf = "map (\<lambda>i. bytes (Suc (asked s) + i)) [0..<9]"
  have run: "fst (run_state (Single_ReadTemperature (recorded resets bytes)) s) = temperature_of ?buf"
    using assms(1) by (simp add: Single_ReadTemperature_def run_simps recorded_write recorded_read STRATCHPAD_SIZE_def del: ow_write_all.simps ow_read_all.simps)
  have l: "length (scratchpad sp) = 9" using assms(2) by (simp add: scratchpad_def)
  have buf: "?buf = (scratchpad sp)[k := bytes (Suc (asked s) + k)]"
    by (rule nth_equalityI) (use assms(3,4) l in \<open>auto simp: nth_list_update simp del: upt_Suc\<close>)
  have ok: "crc8Dallas (scratchpad sp) = 0"
    using dallas_residue_iff [of sp "crc8Dallas sp"] by (simp add: scratchpad_def)
  show ?thesis
  proof (cases "bytes (Suc (asked s) + k) = scratchpad sp ! k")
    case True
    then have "?buf = scratchpad sp" using buf by simp
    moreover have "rawvalue (scratchpad sp) = rawvalue sp" using assms(2) by (simp add: rawvalue_def scratchpad_def nth_append)
    ultimately show ?thesis using run ok True by (simp add: temperature_of_def)
  next
    case False
    define xs where "xs = take k (scratchpad sp)"
    define ys where "ys = drop (Suc k) (scratchpad sp)"
    have "?buf = xs @ bytes (Suc (asked s) + k) # ys" "scratchpad sp = xs @ scratchpad sp ! k # ys"
      using assms(3) l buf by (simp_all add: xs_def ys_def upd_conv_take_nth_drop id_take_nth_drop [symmetric])
    then have "crc8Dallas ?buf \<noteq> crc8Dallas (scratchpad sp)"
      using dallas.item_error_detected [OF False, of 0 xs ys] by (metis crc8Dallas_def crc8Dallas_loop_foldl)
    then show ?thesis using run ok False by (simp add: temperature_of_def)
  qed
qed


theorem ds18b20_reads_or_rejects_witness:
  "fst (run_state (Single_ReadTemperature (recorded (\<lambda>_. Success) (\<lambda>n. scratchpad [0x91, 1, 0, 0, 0x7F, 0xFF, 0, 0x10] ! (n - 1)))) io_start)
    = (Success, Some (401 / 16)) \<and>
   fst (run_state (Single_ReadTemperature (recorded (\<lambda>_. Success)
     (\<lambda>n. if n = 2 then 3 else scratchpad [0x91, 1, 0, 0, 0x7F, 0xFF, 0, 0x10] ! (n - 1)))) io_start) = (CrcMissmatch, None)"
proof
  let ?sp = "[0x91, 1, 0, 0, 0x7F, 0xFF, 0, 0x10] :: u8 list"
  have v: "sint (rawvalue ?sp) = 401" by (simp add: rawvalue_def)
  show "fst (run_state (Single_ReadTemperature (recorded (\<lambda>_. Success) (\<lambda>n. scratchpad ?sp ! (n - 1)))) io_start) = (Success, Some (401 / 16))"
    by (subst ds18b20_reads_or_rejects [where k = 0 and sp = ?sp]) (simp_all add: v)
  show "fst (run_state (Single_ReadTemperature (recorded (\<lambda>_. Success) (\<lambda>n. if n = 2 then 3 else scratchpad ?sp ! (n - 1)))) io_start) =
    (CrcMissmatch, None)"
    by (subst ds18b20_reads_or_rejects [where k = 1 and sp = ?sp]) (auto simp: scratchpad_def)
qed

section \<open>Initialising several sensors\<close>

text \<open>With a number of devices other than 0 the loop condition is never false: \<open>Init\<close> returns only when a
  reset fails, and otherwise goes on beyond the end of the array.  With 0 it configures the first sensor alone.\<close>

lemma init_loop_no_success:
  assumes "devices \<noteq> 0" "fst (run_state (Init_loop ifc resolution devices serial_number i res) s) = Some r"
    and "serial_number \<noteq> []"
  shows "r \<noteq> Success"
  using assms
proof (induction ifc resolution devices serial_number i res arbitrary: s rule: Init_loop.induct)
  case (1 ifc resolution devices serial_number i res)
  have c: "Init_continues devices (length serial_number) (of_nat i)"
    using 1(2,4) by (auto simp: Init_continues_def)
  show ?case
  proof (cases "fst (run_state (Reset ifc) s) = Success \<and> i < length serial_number \<and> length serial_number < 256")
    case True
    obtain s1 where s1: "run_state (Reset ifc) s = (Success, s1)" using True by (cases "run_state (Reset ifc) s") auto
    obtain s2 where s2: "run_state (ow_write_all ifc ([MATCH_ROM] @ serial_number ! i @ [WRITE_STRATCHPAD_CMD] @ scratchpad_config resolution)) s1
      = ((), s2)"
      by (cases "run_state (ow_write_all ifc ([MATCH_ROM] @ serial_number ! i @ [WRITE_STRATCHPAD_CMD] @ scratchpad_config resolution)) s1") auto
    have "fst (run_state (Init_loop ifc resolution devices serial_number (Suc i) Success) s2) = Some r"
      using 1(3) c True s1 s2 by (simp add: Init_loop.simps [of ifc resolution devices serial_number i] del: ow_write_all.simps append.simps)
    then show ?thesis using 1(1) [of Success s2] 1(2,4) c True by simp
  next
    case False
    then show ?thesis using 1(3) c
      by (auto simp: Init_loop.simps [of ifc resolution devices serial_number i] split: prod.splits if_splits)
  qed
qed

lemma multi_init_returns_errors_only:
  "devices \<noteq> 0 \<Longrightarrow> serial_number \<noteq> [] \<Longrightarrow> fst (run_state (Multi_Init ifc resolution serial_number devices junk) s) = Some r \<Longrightarrow> r \<noteq> Success"
  unfolding Multi_Init_def by (rule init_loop_no_success)

lemma multi_init_first_only:
  assumes "serial_number \<noteq> []" "length serial_number < 256" "\<forall>i. resets i = Success"
  shows "run_state (Multi_Init (recorded resets bytes) resolution serial_number 0 junk) s =
    (Some Success, s\<lparr>trace := trace s @ OwReset # map OwWrite
       ([MATCH_ROM] @ hd serial_number @ [WRITE_STRATCHPAD_CMD] @ scratchpad_config resolution), asked := Suc (asked s)\<rparr>)"
  using assms
  by (simp add: Multi_Init_def Init_loop.simps [of _ _ _ _ 0] Init_loop.simps [of _ _ _ _ "Suc 0"] Init_continues_def run_simps
    recorded_write hd_conv_nth del: ow_write_all.simps)

section \<open>The search on the bus of the C driver\<close>

text \<open>The interface that the C functions of stm32/1-Wire.c make.\<close>

definition c_result :: "one_wire_error \<Rightarrow> Result" where
  "c_result e = (if e = One_Wire_Success then Success else NoDevice)"

definition c_interface :: "'w pins \<Rightarrow> 'w OneWire_InterfaceBase" where
  "c_interface hw = \<lparr>Reset = do { e \<leftarrow> One_Wire_Reset hw; State_Monad.return (c_result e) },
     Write = One_Wire_Write_Byte hw, Read = One_Wire_Read_Byte hw,
     WriteBit = (\<lambda>b. One_Wire_Write_Bit hw (b \<noteq> 0)),
     ReadBit = do { b \<leftarrow> One_Wire_Read_Bit hw; State_Monad.return (of_bool b) }\<rparr>"

lemma same_pass_bit: "pass_bit (c_interface hw) path c s = search_bit hw path c s"
  by (cases s) (auto simp: pass_bit_def search_bit_def c_interface_def Let_def fun_eq_iff mult.commute
    intro!: arg_cong [where f = "State_Monad.bind m" for m])

lemma same_pass_byte: "pass_byte (c_interface hw) path cs = search_byte hw path cs"
proof (induction cs)
  case (Cons c cs)
  show ?case by (rule ext) (simp add: same_pass_bit Cons)
qed (simp add: fun_eq_iff)

lemma same_pass_bytes: "pass_bytes (c_interface hw) path n = search_bytes hw path n"
proof (induction n)
  case (Suc n)
  show ?case by (rule ext) (simp add: same_pass_byte Suc)
qed (simp add: fun_eq_iff)

lemma search_passes_step:
  assumes "rom_bus hw quiet awake racing choosing" "quiet w A" "A \<noteq> {}"
    and "walk 64 0 A path (0, 1) = (bs, nxt, pos)" "unat cnt < length sn"
    and "sn' = sn[unat cnt := rom_bytes 8 bs]"
  shows "\<exists>w'. quiet w' A \<and> run_state (search_passes (Suc fuel) (c_interface hw) path sn cnt) w =
    (if unat (cnt + 1) = length sn \<or> nxt = 0 then (Some (Success, sn', cnt + 1), w')
     else run_state (search_passes fuel (c_interface hw) nxt sn' (cnt + 1)) w')"
proof -
  obtain w1 w2 w3 where 1: "run_state (One_Wire_Reset hw) w = (One_Wire_Success, w1)"
    "run_state (One_Wire_Write_Byte hw DS1822_SEARCH_ROM) w1 = ((), w2)"
    "run_state (search_bytes hw path 8 (0, 1)) w2 = ((nxt, pos, rom_bytes 8 bs), w3)" "quiet w3 A"
    using rom_bus.pass_run [OF assms(1-4)] by blast
  have "SEARCH_ROM = DS1822_SEARCH_ROM" by (simp add: SEARCH_ROM_def DS1822_SEARCH_ROM_def)
  then show ?thesis using 1 assms(5,6)
    by (intro exI [of _ w3]) (simp add: same_pass_bytes c_interface_def [of hw, THEN arg_cong [where f = Reset]]
      c_interface_def [of hw, THEN arg_cong [where f = Write]] c_result_def Let_def del: search_bytes.simps pass_bytes.simps)
qed

text \<open>The search over the bus of the C driver, from its first pass or from a later one.\<close>

lemma search_passes_run:
  assumes A: "rom_bus hw quiet awake racing choosing" "finite A" "A \<noteq> {}" "card A \<le> 32"
    and "j < length (leaves 64 0 A)" "j < length sn" "length (leaves 64 0 A) - j \<le> fuel" "quiet w A"
    and "take j sn = map (rom_bytes 8) (take j (leaves 64 0 A))"
    and "n = min (length sn) (length (leaves 64 0 A))" "length (leaves 64 0 A) \<le> 32"
  shows "\<exists>sn' w'. run_state (search_passes fuel (c_interface hw) (of_nat (paths 64 0 A ! j)) sn (of_nat j)) w =
      (Some (Success, sn', of_nat n), w') \<and>
    length sn' = length sn \<and> take n sn' = map (rom_bytes 8) (take n (leaves 64 0 A)) \<and> drop n sn' = drop n sn"
  using assms(5-)
proof (induction "length (leaves 64 0 A) - j" arbitrary: j sn fuel w)
  case (Suc k)
  let ?L = "leaves 64 0 A" and ?P = "paths 64 0 A"
  have len: "length ?P = length ?L" using A(3) by (rule length_paths)
  have dep: "depth 64 0 A \<le> 31" using depth_card [OF A(2,3), of 64 0] A(4) by simp
  define nxt where "nxt = (if Suc j < length ?L then of_nat (?P ! Suc j) else 0 :: u32)"
  obtain pos where w: "walk 64 0 A (of_nat (?P ! j)) (0, 1) = (?L ! j, nxt, pos)"
    using walk_leaf [of A 0 0 64 0 j 0, unfolded rom_bus.one_wire_start [OF A(1)]] A(3) dep Suc.prems(1) len
    unfolding nxt_def by fastforce
  define sn1 where "sn1 = sn[j := rom_bytes 8 (?L ! j)]"
  have j: "unat (of_nat j :: u8) = j" "unat (of_nat j + 1 :: u8) = Suc j"
    using Suc.prems(1,7) by (simp_all add: unat_word_ariths unat_of_nat)
  obtain fuel' where f: "fuel = Suc fuel'" using Suc.prems(3) Suc.hyps(2) by (cases fuel) auto
  obtain w' where w': "quiet w' A" "run_state (search_passes fuel (c_interface hw) (of_nat (?P ! j)) sn (of_nat j)) w =
    (if Suc j = length sn \<or> nxt = 0 then (Some (Success, sn1, of_nat (Suc j)), w')
     else run_state (search_passes fuel' (c_interface hw) nxt sn1 (of_nat (Suc j))) w')"
    using search_passes_step [OF A(1) Suc.prems(4) A(3) w, of "of_nat j" sn sn1 fuel'] Suc.prems(2) f j
    by (auto simp: sn1_def add.commute)
  have t: "take (Suc j) sn1 = map (rom_bytes 8) (take (Suc j) ?L)" "drop (Suc j) sn1 = drop (Suc j) sn" "length sn1 = length sn"
    using Suc.prems(1,2,5) by (simp_all add: sn1_def take_Suc_conv_app_nth)
  have nz: "nxt = 0 \<longleftrightarrow> Suc j = length ?L"
  proof (cases "Suc j < length ?L")
    case True
    have "?P ! Suc j < 2 ^ depth 64 0 A" using paths_bound True len by simp
    also have "\<dots> \<le> 2 ^ 32" using dep by (intro power_increasing) simp_all
    finally show ?thesis using True paths_nonzero [of "Suc j" 64 0 A] len by (auto simp: nxt_def word_unat_eq_iff unat_of_nat)
  qed (use Suc.prems(1) in \<open>simp add: nxt_def\<close>)
  show ?case
  proof (cases "Suc j = length sn \<or> nxt = 0")
    case True
    then have "n = Suc j" using nz Suc.prems(1,2,6) by auto
    then show ?thesis using True w'(2) t by (simp del: of_nat_Suc)
  next
    case False
    then have l: "Suc j < length ?L" "Suc j < length sn" using nz Suc.prems(1,2) by simp_all
    have "\<exists>sn' w''. run_state (search_passes fuel' (c_interface hw) (of_nat (?P ! Suc j)) sn1 (of_nat (Suc j))) w' =
        (Some (Success, sn', of_nat n), w'') \<and>
      length sn' = length sn1 \<and> take n sn' = map (rom_bytes 8) (take n ?L) \<and> drop n sn' = drop n sn1"
      by (rule Suc.hyps(1)) (use Suc.hyps(2) Suc.prems l t f w'(1) in simp_all)
    moreover have "drop n sn1 = drop n sn" using l Suc.prems(6) by (simp add: sn1_def)
    moreover have "nxt = of_nat (?P ! Suc j)" using l by (simp add: nxt_def)
    ultimately show ?thesis using w'(2) False t(3) by simp
  qed
qed simp

text \<open>
  C17: on a bus with at least one and at most 32 sensors, \<open>SearchSensors\<close> finds as many different sensors as its array
  has rows, or all of them when there are fewer, and stores their serial numbers in the first rows in the order of
  the addresses.  It reports success just when the array is full: with more rows than sensors it has found them all
  and returns \<open>NotAllDevicesFound\<close>, and a bus with more sensors than rows is reported as a success.
\<close>

theorem multi_search_finds:
  assumes "rom_bus hw quiet awake racing choosing" "quiet w A"
    and "finite A" "A \<noteq> {}" "card A \<le> 32" "\<forall>r \<in> A. length r = 64"
    and "serial_number \<noteq> []" "card A \<le> fuel"
  shows "\<exists>sn' rs w'. run_state (SearchSensors fuel (c_interface hw) serial_number True) w =
      (Some (if length serial_number \<le> card A then Success else NotAllDevicesFound, sn', Some (of_nat (length rs))), w') \<and>
    distinct rs \<and> set rs \<subseteq> A \<and> length rs = min (length serial_number) (card A) \<and>
    sn' = map (rom_bytes 8) rs @ drop (length rs) serial_number"
proof -
  let ?L = "leaves 64 0 A" and ?n = "min (length serial_number) (card A)"
  have L: "set ?L = A" using leaves_set [of A 0 64] assms(4,6) by simp
  have n: "length ?L = card A" using L leaves_distinct [of 64 0 A] distinct_card by metis
  have c: "0 < card A" using assms(3,4) by (simp add: card_gt_0_iff)
  obtain sn' w' where r: "run_state (search_passes fuel (c_interface hw) 0 serial_number 0) w =
      (Some (Success, sn', of_nat ?n), w')" "length sn' = length serial_number"
    "take ?n sn' = map (rom_bytes 8) (take ?n ?L)" "drop ?n sn' = drop ?n serial_number"
    using search_passes_run [OF assms(1,3,4,5), of 0 serial_number fuel w ?n] assms(2,5,7,8) n c
    by (auto simp: paths_hd)
  have "unat (of_nat ?n :: u8) = ?n" using assms(5) by (simp add: unat_of_nat)
  moreover have "?n = length serial_number \<longleftrightarrow> length serial_number \<le> card A" by auto
  moreover have "sn' = map (rom_bytes 8) (take ?n ?L) @ drop ?n serial_number"
    using r(3,4) append_take_drop_id [of ?n sn'] by simp
  moreover have "length (take ?n ?L) = ?n" using n by simp
  ultimately show ?thesis using r(1,2) L leaves_distinct [of 64 0 A]
    by (intro exI [of _ sn'] exI [of _ "take ?n ?L"] exI [of _ w']) (auto simp: SearchSensors_def dest: in_set_takeD)
qed

theorem multi_search_finds_witness:
  "\<exists>sn' rs w'. run_state (SearchSensors 3 (c_interface wire_pins) [[], []] True) wire_sample = (Some (Success, sn', Some 2), w') \<and>
    distinct rs \<and> set rs \<subseteq> {replicate 64 False, replicate 60 False @ replicate 4 True, replicate 64 True} \<and>
    sn' = map (rom_bytes 8) rs"
proof -
  let ?A = "{replicate 64 False, replicate 60 False @ replicate 4 True, replicate 64 True}"
  have e: "replicate 64 False \<noteq> replicate 60 False @ replicate 4 True" "replicate 64 False \<noteq> replicate 64 True"
    "replicate 60 False @ replicate 4 True \<noteq> replicate 64 True" by code_simp+
  have "wire_quiet wire_sample ?A" by (simp add: wire_quiet_def wire_sample_def)
  moreover have c: "card ?A = 3" using e by (simp add: card_insert_if)
  ultimately obtain sn' rs w' where "run_state (SearchSensors 3 (c_interface wire_pins) [[], []] True) wire_sample =
      (Some (Success, sn', Some (of_nat (length rs))), w')" "distinct rs" "set rs \<subseteq> ?A" "length rs = 2"
      "sn' = map (rom_bytes 8) rs @ drop (length rs) [[], []]"
    using multi_search_finds [OF wire.rom_bus_axioms, of wire_sample ?A "[[], []]" 3] by auto
  then show ?thesis by auto
qed

end
