(* ===== verification/Stm32_Gpio.thy ===== *)
theory Stm32_Gpio
  imports C_Prelude
begin

text \<open>
  Pins and ports of stm32f10x_cpp (gpio.h, gpio.cpp), for the device that stm32f10x_pr0/Makefile names, which has
  five ports.  The state is the clock enable register and the registers of the ports.  An access through the null
  pointer of a port that does not exist and a shift by 32 or more have no value.
\<close>

section \<open>Registers\<close>

record gpio =
  CRL :: u32
  CRH :: u32
  IDR :: u32
  ODR :: u32

text \<open>
  What the hardware does with a value that is written to BSRR and BRR, which hold nothing: the lower half of BSRR sets the bits
  of ODR, its upper half clears them where they are not set as well, and BRR clears them.
\<close>

definition write_BSRR :: "u32 \<Rightarrow> gpio \<Rightarrow> gpio" where
  "write_BSRR v g = g\<lparr>ODR := ODR g AND NOT (drop_bit 16 v) OR take_bit 16 v\<rparr>"

definition write_BRR :: "u32 \<Rightarrow> gpio \<Rightarrow> gpio" where
  "write_BRR v g = g\<lparr>ODR := ODR g AND NOT (take_bit 16 v)\<rparr>"

record board =
  APB2ENR :: u32
  ports :: "gpio list"

definition port_count :: nat where "port_count = 5"

datatype Direction = INPUT | OUTPUT | OPEN_DRAIN | PULL_UP | PULL_DOWN

text \<open>\<open>getGPIOPort\<close>, by the number of the port, and \<open>rcc_enable\<close>.\<close>

definition getGPIOPort :: "u16 \<Rightarrow> nat option" where
  "getGPIOPort port = (if unat port \<ge> port_count then None else Some (unat port))"

definition rcc_masks :: "u32 list" where
  "rcc_masks = [0x00000004, 0x00000008, 0x00000010, 0x00000020, 0x00000040]"

definition rcc_enable :: "u16 \<Rightarrow> u32" where
  "rcc_enable port = (if unat port \<ge> length rcc_masks then 0 else rcc_masks ! unat port)"

section \<open>A pin\<close>

record GPIO_Config =
  cfg_gpio :: "nat option"
  cfg_direction :: Direction
  rcc_mask :: u32
  crl_set :: u32
  crl_clear :: u32
  crh_set :: u32
  crh_clear :: u32

fun mode_cnf :: "Direction \<Rightarrow> u32 \<times> u32" where
  "mode_cnf INPUT = (0, 2)"
| "mode_cnf OUTPUT = (3, 0)"
| "mode_cnf OPEN_DRAIN = (3, 1)"
| "mode_cnf PULL_UP = (0, 2)"
| "mode_cnf PULL_DOWN = (0, 2)"

definition config_register :: "Direction \<Rightarrow> u32" where
  "config_register dir = (case mode_cnf dir of (mode, cnf) \<Rightarrow> push_bit 2 cnf OR mode)"

definition shl32 :: "u32 \<Rightarrow> nat \<Rightarrow> u32 option" where
  "shl32 v n = (if n < 32 then Some (push_bit n v) else None)"

definition GPIO_Config_new :: "u16 \<Rightarrow> u16 \<Rightarrow> Direction \<Rightarrow> GPIO_Config option" where
  "GPIO_Config_new port pin dir =
     (let cr = config_register dir;
          pin_shift = 4 * unat pin;
          c = \<lparr>cfg_gpio = getGPIOPort port, cfg_direction = dir, rcc_mask = rcc_enable port,
               crl_set = 0, crl_clear = 0, crh_set = 0, crh_clear = 0\<rparr>
      in if pin_shift < 32 then
           (case (shl32 0xF pin_shift, shl32 cr pin_shift) of
              (Some clear, Some s) \<Rightarrow> Some (c\<lparr>crl_clear := clear, crl_set := s\<rparr>) | _ \<Rightarrow> None)
         else
           (case (shl32 0xF (pin_shift - 32), shl32 cr (pin_shift - 32)) of
              (Some clear, Some s) \<Rightarrow> Some (c\<lparr>crh_clear := clear, crh_set := s\<rparr>) | _ \<Rightarrow> None))"

record GPIO_Device =
  dev_port :: u16
  dev_pin :: u16
  config :: GPIO_Config

definition GPIO_Device_new :: "u16 \<Rightarrow> u16 \<Rightarrow> Direction \<Rightarrow> GPIO_Device option" where
  "GPIO_Device_new port pin dir =
     map_option (\<lambda>c. \<lparr>dev_port = port, dev_pin = pin, config = c\<rparr>) (GPIO_Config_new port pin dir)"

definition change_port :: "nat option \<Rightarrow> (gpio \<Rightarrow> gpio) \<Rightarrow> board \<Rightarrow> board option" where
  "change_port p f b = (case p of None \<Rightarrow> None
     | Some i \<Rightarrow> if i < length (ports b) then Some (b\<lparr>ports := (ports b)[i := f (ports b ! i)]\<rparr>) else None)"

definition Set :: "GPIO_Device \<Rightarrow> bool \<Rightarrow> board \<Rightarrow> board option" where
  "Set d st b = (case shl32 1 (unat (dev_pin d)) of None \<Rightarrow> None
     | Some m \<Rightarrow> change_port (getGPIOPort (dev_port d)) (if st then write_BSRR m else write_BRR m) b)"

definition Get :: "GPIO_Device \<Rightarrow> board \<Rightarrow> bool option" where
  "Get d b = (case (getGPIOPort (dev_port d), shl32 1 (unat (dev_pin d))) of
     (Some i, Some m) \<Rightarrow> if i < length (ports b) then Some (IDR (ports b ! i) AND m \<noteq> 0) else None
   | _ \<Rightarrow> None)"

definition Init :: "GPIO_Device \<Rightarrow> board \<Rightarrow> board option" where
  "Init d b = do {
     let c = config d;
     let b = b\<lparr>APB2ENR := APB2ENR b OR rcc_mask c\<rparr>;
     b \<leftarrow> change_port (cfg_gpio c) (\<lambda>g. g\<lparr>CRL := CRL g AND NOT (crl_clear c)\<rparr>) b;
     b \<leftarrow> change_port (cfg_gpio c) (\<lambda>g. g\<lparr>CRL := CRL g OR crl_set c\<rparr>) b;
     b \<leftarrow> change_port (cfg_gpio c) (\<lambda>g. g\<lparr>CRH := CRH g AND NOT (crh_clear c)\<rparr>) b;
     b \<leftarrow> change_port (cfg_gpio c) (\<lambda>g. g\<lparr>CRH := CRH g OR crh_set c\<rparr>) b;
     if cfg_direction c = PULL_UP then Set d True b
     else if cfg_direction c = PULL_DOWN then Set d False b
     else Some b
   }"

section \<open>A port\<close>

definition Port_Read :: "u16 \<Rightarrow> board \<Rightarrow> u16 option" where
  "Port_Read port b = (case getGPIOPort port of None \<Rightarrow> None
     | Some i \<Rightarrow> if i < length (ports b) then Some (ucast (IDR (ports b ! i))) else None)"

definition Port_Write :: "u16 \<Rightarrow> u16 \<Rightarrow> board \<Rightarrow> board option" where
  "Port_Write port bitmask b = change_port (getGPIOPort port) (\<lambda>g. g\<lparr>ODR := ucast bitmask\<rparr>) b"

section \<open>What a pin is configured as\<close>

text \<open>The four configuration bits of a pin.\<close>

definition pin_config :: "gpio \<Rightarrow> nat \<Rightarrow> u32" where
  "pin_config g pin = (if pin < 8 then take_bit 4 (drop_bit (4 * pin) (CRL g)) else take_bit 4 (drop_bit (4 * pin - 32) (CRH g)))"

definition with_pin :: "nat \<Rightarrow> Direction \<Rightarrow> gpio \<Rightarrow> gpio" where
  "with_pin pin dir g =
     (if pin < 8 then g\<lparr>CRL := CRL g AND NOT (push_bit (4 * pin) 0xF) OR push_bit (4 * pin) (config_register dir)\<rparr>
      else g\<lparr>CRH := CRH g AND NOT (push_bit (4 * pin - 32) 0xF) OR push_bit (4 * pin - 32) (config_register dir)\<rparr>)"

definition levelled :: "nat \<Rightarrow> Direction \<Rightarrow> gpio \<Rightarrow> gpio" where
  "levelled pin dir g = (case dir of PULL_UP \<Rightarrow> write_BSRR (push_bit pin 1) g | PULL_DOWN \<Rightarrow> write_BRR (push_bit pin 1) g | _ \<Rightarrow> g)"

lemma config_register_bits: "config_register dir = take_bit 4 (config_register dir)"
  by (cases dir) (simp_all add: config_register_def)

lemma init_run:
  assumes "GPIO_Device_new port pin dir = Some d" "unat port < port_count" "length (ports b) = port_count"
  shows "Init d b = Some (b\<lparr>APB2ENR := APB2ENR b OR rcc_enable port,
      ports := (ports b)[unat port := levelled (unat pin) dir (with_pin (unat pin) dir (ports b ! unat port))]\<rparr>)"
  using assms
  by (auto simp: GPIO_Device_new_def GPIO_Config_new_def Let_def shl32_def getGPIOPort_def Init_def change_port_def Set_def
      with_pin_def levelled_def split: if_splits Direction.splits)


lemma nibble_at: "bit (push_bit k 0xF :: u32) n \<longleftrightarrow> n < 32 \<and> k \<le> n \<and> n < k + 4"
proof -
  have "(0xF :: u32) = mask 4" by (simp add: mask_numeral)
  then show ?thesis by (simp only: bit_push_bit_iff bit_mask_iff) auto
qed

lemma config_at: "bit (config_register dir) n \<Longrightarrow> n < 4"
  using config_register_bits [of dir] by (metis bit_take_bit_iff)

text \<open>A register of eight fields: writing one of them.\<close>

lemma field_written:
  assumes "i < 8" "j < 8" "\<And>n. bit v n \<Longrightarrow> n < 4"
  shows "take_bit 4 (drop_bit (4 * j) (r AND NOT (push_bit (4 * i) 0xF) OR push_bit (4 * i) v)) =
    (if i = j then v else take_bit 4 (drop_bit (4 * j) (r :: u32)))"
proof -
  define M where "M = push_bit (4 * i) (0xF :: u32)"
  have M: "bit M n \<longleftrightarrow> n < 32 \<and> 4 * i \<le> n \<and> n < 4 * i + 4" for n unfolding M_def by (rule nibble_at)
  have "take_bit 4 (drop_bit (4 * j) (r AND NOT M OR push_bit (4 * i) v)) = (if i = j then v else take_bit 4 (drop_bit (4 * j) r))"
  proof (rule bit_word_eqI)
    fix n assume n: "n < LENGTH(32)"
    show "bit (take_bit 4 (drop_bit (4 * j) (r AND NOT M OR push_bit (4 * i) v))) n = bit (if i = j then v else take_bit 4 (drop_bit (4 * j) r)) n"
    proof (cases "n < 4")
      case True
      have "\<not> bit v (4 * j + n - 4 * i)" if "4 * i \<le> 4 * j + n" "i \<noteq> j"
      proof
        assume "bit v (4 * j + n - 4 * i)"
        from assms(3) [OF this] show False using that True by linarith
      qed
      moreover have "4 * i \<le> 4 * j + n \<and> 4 * j + n < 4 * i + 4 \<longleftrightarrow> i = j" using True by linarith
      moreover have "4 * j + n < 32" using True assms(2) by linarith
      ultimately show ?thesis using True by (auto simp: bit_simps M)
    qed (use assms(3) in \<open>auto simp: bit_simps\<close>)
  qed
  then show ?thesis unfolding M_def .
qed

lemma pin_config_with_pin:
  assumes "p < 16" "q < 16"
  shows "pin_config (with_pin p dir g) q = (if p = q then config_register dir else pin_config g q)"
proof -
  have "4 * p - 32 = 4 * (p - 8)" "4 * q - 32 = 4 * (q - 8)" by simp_all
  then show ?thesis
    using assms field_written [of p q "config_register dir" "CRL g"] field_written [of "p - 8" "q - 8" "config_register dir" "CRH g"] config_at
    by (auto simp: pin_config_def with_pin_def)
qed

lemma pin_config_levelled [simp]: "pin_config (levelled p dir g) q = pin_config g q"
  by (cases dir) (simp_all add: levelled_def pin_config_def write_BSRR_def write_BRR_def)

text \<open>The pull resistor that a direction selects, and the bit of ODR of a pin after the initialisation of one.\<close>

fun pull_of :: "Direction \<Rightarrow> bool option" where
  "pull_of PULL_UP = Some True"
| "pull_of PULL_DOWN = Some False"
| "pull_of _ = None"

lemma level_with_pin:
  assumes "p < 16" "q < 16"
  shows "bit (ODR (levelled p dir (with_pin p dir g))) q =
    (case pull_of dir of None \<Rightarrow> bit (ODR g) q | Some l \<Rightarrow> if p = q then l else bit (ODR g) q)"
  using assms by (cases dir) (auto simp: levelled_def with_pin_def write_BSRR_def write_BRR_def bit_simps)

section \<open>Any sequence of initialisations\<close>

fun run_inits :: "(u16 \<times> u16 \<times> Direction) list \<Rightarrow> board \<Rightarrow> board option" where
  "run_inits [] b = Some b"
| "run_inits ((port, pin, dir) # js) b = do { d \<leftarrow> GPIO_Device_new port pin dir; b \<leftarrow> Init d b; run_inits js b }"

text \<open>What was asked of a pin last, and the clocks of all the ports asked for.\<close>

fun requested :: "(u16 \<times> u16 \<times> Direction) list \<Rightarrow> nat \<Rightarrow> nat \<Rightarrow> Direction option" where
  "requested [] po pi = None"
| "requested ((port, pin, dir) # js) po pi =
     (case requested js po pi of None \<Rightarrow> if unat port = po \<and> unat pin = pi then Some dir else None | Some d \<Rightarrow> Some d)"

definition wanted :: "(u16 \<times> u16 \<times> Direction) list \<Rightarrow> u32" where
  "wanted js = foldr (\<lambda>(port, pin, dir) m. rcc_enable port OR m) js 0"

text \<open>The pull resistor that was asked for last; a pin that became an output or an input after that keeps its bit of ODR.\<close>

fun pulled :: "(u16 \<times> u16 \<times> Direction) list \<Rightarrow> nat \<Rightarrow> nat \<Rightarrow> bool option" where
  "pulled [] po pi = None"
| "pulled ((port, pin, dir) # js) po pi =
     (case pulled js po pi of None \<Rightarrow> if unat port = po \<and> unat pin = pi then pull_of dir else None | Some l \<Rightarrow> Some l)"

lemma device_new: "unat pin < 16 \<Longrightarrow> \<exists>d. GPIO_Device_new port pin dir = Some d"
  by (auto simp: GPIO_Device_new_def GPIO_Config_new_def Let_def shl32_def)

text \<open>
  C22: pins that exist can be initialised in any order and number.  Every pin then has the configuration that was
  asked for last, and a pin that was not asked for keeps its own: the masks of one pin never touch another.  The bit of the output
  register, which selects the pull resistor of an input and the level of an output, is the last pull that was asked for of the pin,
  up or down, and unchanged when none was.  Of the clock enable register exactly the bits of the ports asked for are set in addition.
\<close>

theorem gpio_last_init_wins:
  assumes "length (ports b) = port_count" "\<forall>(port, pin, dir) \<in> set js. unat port < port_count \<and> unat pin < 16"
  shows "\<exists>b'. run_inits js b = Some b' \<and> length (ports b') = port_count \<and> APB2ENR b' = APB2ENR b OR wanted js \<and>
    (\<forall>po < port_count. \<forall>pi < 16. pin_config (ports b' ! po) pi =
        (case requested js po pi of None \<Rightarrow> pin_config (ports b ! po) pi | Some dir \<Rightarrow> config_register dir) \<and>
      bit (ODR (ports b' ! po)) pi = (case pulled js po pi of None \<Rightarrow> bit (ODR (ports b ! po)) pi | Some l \<Rightarrow> l))"
  using assms
proof (induction js arbitrary: b)
  case Nil
  then show ?case by (simp add: wanted_def)
next
  case (Cons j js)
  obtain port pin dir where j: "j = (port, pin, dir)" by (rule prod_cases3)
  have ok: "unat port < port_count" "unat pin < 16" using Cons.prems(2) j by auto
  obtain d where d: "GPIO_Device_new port pin dir = Some d" using device_new [OF ok(2)] by blast
  let ?b = "b\<lparr>APB2ENR := APB2ENR b OR rcc_enable port,
      ports := (ports b)[unat port := levelled (unat pin) dir (with_pin (unat pin) dir (ports b ! unat port))]\<rparr>"
  have i: "Init d b = Some ?b" by (rule init_run [OF d ok(1) Cons.prems(1)])
  have pc: "pin_config (ports ?b ! po) pi = (if unat port = po \<and> unat pin = pi then config_register dir else pin_config (ports b ! po) pi)"
    and lv: "bit (ODR (ports ?b ! po)) pi =
      (case if unat port = po \<and> unat pin = pi then pull_of dir else None of None \<Rightarrow> bit (ODR (ports b ! po)) pi | Some l \<Rightarrow> l)"
    if "po < port_count" "pi < 16" for po pi
    using that ok Cons.prems(1) pin_config_with_pin [OF ok(2) that(2), of dir "ports b ! po"] level_with_pin [OF ok(2) that(2), of dir "ports b ! po"]
    by (auto simp: nth_list_update split: option.splits)
  obtain b' where b': "run_inits js ?b = Some b'" "length (ports b') = port_count" "APB2ENR b' = APB2ENR ?b OR wanted js"
    "\<forall>po < port_count. \<forall>pi < 16. pin_config (ports b' ! po) pi =
        (case requested js po pi of None \<Rightarrow> pin_config (ports ?b ! po) pi | Some dir \<Rightarrow> config_register dir) \<and>
      bit (ODR (ports b' ! po)) pi = (case pulled js po pi of None \<Rightarrow> bit (ODR (ports ?b ! po)) pi | Some l \<Rightarrow> l)"
    using Cons.IH [of ?b] Cons.prems by auto
  show ?case
  proof (intro exI [of _ b'] conjI allI impI)
    show "APB2ENR b' = APB2ENR b OR wanted (j # js)" using b'(3) by (simp add: wanted_def j or.assoc)
    fix po pi assume p: "po < port_count" "pi < (16 :: nat)"
    show "pin_config (ports b' ! po) pi =
      (case requested (j # js) po pi of None \<Rightarrow> pin_config (ports b ! po) pi | Some dir \<Rightarrow> config_register dir)"
      using b'(4) p pc [OF p] by (auto simp: j split: option.splits)
    have l: "bit (ODR (ports b' ! po)) pi = (case pulled js po pi of None \<Rightarrow> bit (ODR (ports ?b ! po)) pi | Some l \<Rightarrow> l)"
      using b'(4) p by blast
    show "bit (ODR (ports b' ! po)) pi = (case pulled (j # js) po pi of None \<Rightarrow> bit (ODR (ports b ! po)) pi | Some l \<Rightarrow> l)"
      unfolding l lv [OF p] j by (simp split: option.splits)
  qed (use b' d i j in simp_all)
qed

definition blank_board :: board where
  "blank_board = \<lparr>APB2ENR = 0, ports = replicate 5 \<lparr>CRL = 0x44444444, CRH = 0x44444444, IDR = 0, ODR = 0\<rparr>\<rparr>"

theorem gpio_last_init_wins_witness:
  "\<exists>b'. run_inits [(2, 13, OUTPUT), (0, 3, PULL_UP), (2, 13, OPEN_DRAIN)] blank_board = Some b' \<and>
    APB2ENR b' = 0x14 \<and> pin_config (ports b' ! 2) 13 = 7 \<and> pin_config (ports b' ! 0) 3 = 8 \<and> pin_config (ports b' ! 2) 12 = 4 \<and>
    bit (ODR (ports b' ! 0)) 3 \<and> \<not> bit (ODR (ports b' ! 0)) 4"
proof -
  let ?js = "[(2, 13, OUTPUT), (0, 3, PULL_UP), (2, 13, OPEN_DRAIN)] :: (u16 \<times> u16 \<times> Direction) list"
  obtain b' where b': "run_inits ?js blank_board = Some b'" "APB2ENR b' = APB2ENR blank_board OR wanted ?js"
    and c: "\<forall>po < port_count. \<forall>pi < 16. pin_config (ports b' ! po) pi =
        (case requested ?js po pi of None \<Rightarrow> pin_config (ports blank_board ! po) pi | Some dir \<Rightarrow> config_register dir) \<and>
      bit (ODR (ports b' ! po)) pi = (case pulled ?js po pi of None \<Rightarrow> bit (ODR (ports blank_board ! po)) pi | Some l \<Rightarrow> l)"
    using gpio_last_init_wins [of blank_board ?js]
    by (auto simp: blank_board_def port_count_def simp del: run_inits.simps requested.simps pulled.simps)
  have "pin_config (ports b' ! 2) 13 = config_register OPEN_DRAIN" "pin_config (ports b' ! 0) 3 = config_register PULL_UP"
    "pin_config (ports b' ! 2) 12 = pin_config (ports blank_board ! 2) 12" "bit (ODR (ports b' ! 0)) 3"
    "bit (ODR (ports b' ! 0)) 4 = bit (ODR (ports blank_board ! 0)) 4"
    using c [rule_format, of 2 13] c [rule_format, of 0 3] c [rule_format, of 2 12] c [rule_format, of 0 4] by (simp_all add: port_count_def)
  moreover have "APB2ENR b' = 0x14" using b'(2) by (simp add: blank_board_def wanted_def rcc_enable_def rcc_masks_def)
  moreover have "pin_config (ports blank_board ! 2) 12 = 4" "\<not> bit (ODR (ports blank_board ! 0)) 4"
    by (simp_all add: blank_board_def pin_config_def)
  ultimately show ?thesis using b'(1) by (intro exI [of _ b']) (simp add: config_register_def)
qed

text \<open>The comment in gpio.h calls the input floating; its configuration is that of an input with a pull resistor.\<close>

lemma input_has_pull: "config_register INPUT = config_register PULL_UP" "config_register INPUT = config_register PULL_DOWN"
  by (simp_all add: config_register_def)

text \<open>A pin that does not exist has no device.\<close>

lemma no_such_pin: "16 \<le> unat pin \<Longrightarrow> GPIO_Device_new port pin dir = None"
  by (auto simp: GPIO_Device_new_def GPIO_Config_new_def Let_def shl32_def)

end
