(* ===== verification/Stm32_Clock.thy ===== *)
theory Stm32_Clock
  imports C_Io
begin

text \<open>
  The clock tree of stm32f10x_cpp (clock.cpp).  The registers of RCC are memory that the
  hardware changes on its own: what a read finds is the hardware's answer to the registers and to the number of the
  read, a parameter.  The masks are those of the vendor's header stm32f10x.h, whose comments also say what the
  fields of CFGR mean.  The variables at file scope, whose names end in an underscore, are fields of the state.
  \<open>unsigned long\<close> has 32 bits.
\<close>

section \<open>Registers\<close>

definition RCC_CR_HSION :: u32 where "RCC_CR_HSION = 0x00000001"
definition RCC_CR_HSIRDY :: u32 where "RCC_CR_HSIRDY = 0x00000002"
definition RCC_CR_HSEON :: u32 where "RCC_CR_HSEON = 0x00010000"
definition RCC_CR_HSERDY :: u32 where "RCC_CR_HSERDY = 0x00020000"
definition RCC_CR_CSSON :: u32 where "RCC_CR_CSSON = 0x00080000"
definition RCC_CR_PLLON :: u32 where "RCC_CR_PLLON = 0x01000000"
definition RCC_CR_PLLRDY :: u32 where "RCC_CR_PLLRDY = 0x02000000"
definition RCC_CFGR_SW :: u32 where "RCC_CFGR_SW = 0x00000003"
definition RCC_CFGR_SW_HSI :: u32 where "RCC_CFGR_SW_HSI = 0x00000000"
definition RCC_CFGR_SW_HSE :: u32 where "RCC_CFGR_SW_HSE = 0x00000001"
definition RCC_CFGR_SW_PLL :: u32 where "RCC_CFGR_SW_PLL = 0x00000002"
definition RCC_CFGR_SWS :: u32 where "RCC_CFGR_SWS = 0x0000000C"
definition RCC_CFGR_SWS_HSI :: u32 where "RCC_CFGR_SWS_HSI = 0x00000000"
definition RCC_CFGR_SWS_HSE :: u32 where "RCC_CFGR_SWS_HSE = 0x00000004"
definition RCC_CFGR_SWS_PLL :: u32 where "RCC_CFGR_SWS_PLL = 0x00000008"
definition RCC_CFGR_HPRE :: u32 where "RCC_CFGR_HPRE = 0x000000F0"
definition RCC_CFGR_PPRE1 :: u32 where "RCC_CFGR_PPRE1 = 0x00000700"
definition RCC_CFGR_PPRE2 :: u32 where "RCC_CFGR_PPRE2 = 0x00003800"
definition RCC_CFGR_PLLSRC :: u32 where "RCC_CFGR_PLLSRC = 0x00010000"
definition RCC_CFGR_PLLXTPRE :: u32 where "RCC_CFGR_PLLXTPRE = 0x00020000"
definition RCC_CFGR_PLLMULL :: u32 where "RCC_CFGR_PLLMULL = 0x003C0000"

lemmas cr_masks = RCC_CR_HSION_def RCC_CR_HSIRDY_def RCC_CR_HSEON_def RCC_CR_HSERDY_def RCC_CR_CSSON_def
  RCC_CR_PLLON_def RCC_CR_PLLRDY_def
lemmas cfgr_masks = RCC_CFGR_SW_def RCC_CFGR_SW_HSI_def RCC_CFGR_SW_HSE_def RCC_CFGR_SW_PLL_def RCC_CFGR_SWS_def
  RCC_CFGR_SWS_HSI_def RCC_CFGR_SWS_HSE_def RCC_CFGR_SWS_PLL_def RCC_CFGR_HPRE_def RCC_CFGR_PPRE1_def
  RCC_CFGR_PPRE2_def RCC_CFGR_PLLSRC_def RCC_CFGR_PLLXTPRE_def RCC_CFGR_PLLMULL_def

definition HSI_CLOCK_FREQ :: u32 where "HSI_CLOCK_FREQ = 8000000"
definition HSE_DEFAULT_CLOCK_FREQ :: u32 where "HSE_DEFAULT_CLOCK_FREQ = 8000000"

datatype ClockSource = NO_CLOCK | HSI_CLOCK | HSE_CLOCK | HSE_CLOCK_DIV2 | HSE_CLOCK_DIV128 | LSI_CLOCK | LSE_CLOCK
  | PLL_CLOCK | INV_CLOCK

record rcc =
  CR :: u32
  CFGR :: u32
  APB2ENR :: u32
  APB1ENR :: u32

type_synonym rcc_hw = "nat \<Rightarrow> rcc \<Rightarrow> rcc"

record clk =
  RCC :: rcc
  reads :: nat
  hse_freq :: u32
  cpu_freq :: u32
  ahb_freq :: u32
  apb1_freq :: u32
  apb2_freq :: u32
  current_source :: ClockSource

definition clk_start :: "rcc \<Rightarrow> clk" where
  "clk_start r = \<lparr>RCC = r, reads = 0, hse_freq = HSE_DEFAULT_CLOCK_FREQ, cpu_freq = HSI_CLOCK_FREQ,
     ahb_freq = HSI_CLOCK_FREQ, apb1_freq = HSI_CLOCK_FREQ, apb2_freq = HSI_CLOCK_FREQ, current_source = HSI_CLOCK\<rparr>"

definition sample :: "rcc_hw \<Rightarrow> (clk, rcc) state" where
  "sample hw = State (\<lambda>s. let r = hw (reads s) (RCC s) in (r, s\<lparr>RCC := r, reads := Suc (reads s)\<rparr>))"

definition read_CR :: "rcc_hw \<Rightarrow> (clk, u32) state" where
  "read_CR hw = do { r \<leftarrow> sample hw; State_Monad.return (CR r) }"

definition read_CFGR :: "rcc_hw \<Rightarrow> (clk, u32) state" where
  "read_CFGR hw = do { r \<leftarrow> sample hw; State_Monad.return (CFGR r) }"

definition assign :: "(clk \<Rightarrow> clk) \<Rightarrow> (clk, unit) state" where
  "assign f = State (\<lambda>s. ((), f s))"

definition write_CR :: "u32 \<Rightarrow> (clk, unit) state" where
  "write_CR v = assign (\<lambda>s. s\<lparr>RCC := (RCC s)\<lparr>CR := v\<rparr>\<rparr>)"

definition write_CFGR :: "u32 \<Rightarrow> (clk, unit) state" where
  "write_CFGR v = assign (\<lambda>s. s\<lparr>RCC := (RCC s)\<lparr>CFGR := v\<rparr>\<rparr>)"

text \<open>\<open>CR |= m\<close>, \<open>CFGR &= m\<close> and \<open>CFGR |= m\<close>.\<close>

definition or_CR :: "rcc_hw \<Rightarrow> u32 \<Rightarrow> (clk, unit) state" where
  "or_CR hw m = do { v \<leftarrow> read_CR hw; write_CR (v OR m) }"

definition and_CFGR :: "rcc_hw \<Rightarrow> u32 \<Rightarrow> (clk, unit) state" where
  "and_CFGR hw m = do { v \<leftarrow> read_CFGR hw; write_CFGR (v AND m) }"

definition or_CFGR :: "rcc_hw \<Rightarrow> u32 \<Rightarrow> (clk, unit) state" where
  "or_CFGR hw m = do { v \<leftarrow> read_CFGR hw; write_CFGR (v OR m) }"

text \<open>A loop that waits for the hardware, with fuel; what follows it runs only if it ended.\<close>

fun await :: "nat \<Rightarrow> ('s, bool) state \<Rightarrow> ('s, bool) state" where
  "await 0 done_now = State_Monad.return False"
| "await (Suc fuel) done_now = do { b \<leftarrow> done_now; if b then State_Monad.return True else await fuel done_now }"

definition waited :: "('s, bool) state \<Rightarrow> ('s, 'a option) state \<Rightarrow> ('s, 'a option) state" where
  "waited w m = do { ended \<leftarrow> w; if ended then m else State_Monad.return None }"

section \<open>The clock tree\<close>

definition get_ahb_mult :: "rcc_hw \<Rightarrow> (clk, u32) state" where
  "get_ahb_mult hw = do {
     v \<leftarrow> read_CFGR hw;
     let mult = drop_bit 4 (v AND RCC_CFGR_HPRE);
     State_Monad.return (if mult < 8 then 1 else push_bit (unat (mult - 7)) 1)
   }"

definition get_apb1_mult :: "rcc_hw \<Rightarrow> (clk, u32) state" where
  "get_apb1_mult hw = do {
     v \<leftarrow> read_CFGR hw;
     let mult = drop_bit 8 (v AND RCC_CFGR_PPRE1);
     State_Monad.return (if mult < 4 then 1 else push_bit (unat (mult - 3)) 1)
   }"

definition get_apb2_mult :: "rcc_hw \<Rightarrow> (clk, u32) state" where
  "get_apb2_mult hw = do {
     v \<leftarrow> read_CFGR hw;
     let mult = drop_bit 11 (v AND RCC_CFGR_PPRE2);
     State_Monad.return (if mult < 4 then 1 else push_bit (unat (mult - 3)) 1)
   }"

definition get_pll_source :: "rcc_hw \<Rightarrow> (clk, ClockSource) state" where
  "get_pll_source hw = do {
     v \<leftarrow> read_CFGR hw;
     State_Monad.return (if v AND RCC_CFGR_PLLSRC \<noteq> 0 then HSE_CLOCK else HSI_CLOCK)
   }"

definition get_pll_mult :: "rcc_hw \<Rightarrow> (clk, u8) state" where
  "get_pll_mult hw = do {
     v \<leftarrow> read_CFGR hw;
     let mult = drop_bit 18 (v AND RCC_CFGR_PLLMULL);
     State_Monad.return (if mult \<ge> 2 then ucast (mult + 2) else 1)
   }"

definition GetClockSource :: "rcc_hw \<Rightarrow> (clk, ClockSource) state" where
  "GetClockSource hw = do {
     a \<leftarrow> read_CFGR hw;
     if a AND RCC_CFGR_SWS = RCC_CFGR_SWS_HSI then State_Monad.return HSI_CLOCK
     else do {
       b \<leftarrow> read_CFGR hw;
       if b AND RCC_CFGR_SWS = RCC_CFGR_SWS_HSE then State_Monad.return HSE_CLOCK
       else do {
         c \<leftarrow> read_CFGR hw;
         State_Monad.return (if c AND RCC_CFGR_SWS = RCC_CFGR_SWS_PLL then PLL_CLOCK else INV_CLOCK)
       }
     }
   }"

text \<open>An object of the class: four frequencies, at first those of the variables.\<close>

record Clocks =
  cpu_freq_hz :: u32
  ahb_freq_hz :: u32
  apb1_freq_hz :: u32
  apb2_freq_hz :: u32

definition var :: "(clk \<Rightarrow> 'a) \<Rightarrow> (clk, 'a) state" where
  "var f = State (\<lambda>s. (f s, s))"

definition Clocks_new :: "(clk, Clocks) state" where
  "Clocks_new = var (\<lambda>s. \<lparr>cpu_freq_hz = cpu_freq s, ahb_freq_hz = ahb_freq s, apb1_freq_hz = apb1_freq s,
     apb2_freq_hz = apb2_freq s\<rparr>)"

definition Update :: "rcc_hw \<Rightarrow> Clocks \<Rightarrow> (clk, Clocks) state" where
  "Update hw this = do {
     src \<leftarrow> GetClockSource hw;
     cpu \<leftarrow> (case src of
         HSI_CLOCK \<Rightarrow> State_Monad.return HSI_CLOCK_FREQ
       | HSE_CLOCK \<Rightarrow> var hse_freq
       | PLL_CLOCK \<Rightarrow> do {
           pll \<leftarrow> get_pll_source hw;
           mult \<leftarrow> get_pll_mult hw;
           if pll = HSI_CLOCK then State_Monad.return (HSI_CLOCK_FREQ div 2 * ucast mult)
           else do { hse \<leftarrow> var hse_freq; State_Monad.return (hse * ucast mult) }
         }
       | _ \<Rightarrow> State_Monad.return 0);
     d \<leftarrow> get_ahb_mult hw;
     let ahb = cpu div d;
     d1 \<leftarrow> get_apb1_mult hw;
     d2 \<leftarrow> get_apb2_mult hw;
     State_Monad.return (this\<lparr>cpu_freq_hz := cpu, ahb_freq_hz := ahb, apb1_freq_hz := ahb div d1, apb2_freq_hz := ahb div d2\<rparr>)
   }"

definition RunFromHSI :: "nat \<Rightarrow> rcc_hw \<Rightarrow> (clk, unit option) state" where
  "RunFromHSI fuel hw = do {
     or_CR hw RCC_CR_HSION;
     waited (await fuel (do { v \<leftarrow> read_CR hw; State_Monad.return (v AND RCC_CR_HSIRDY \<noteq> 0) })) (do {
       and_CFGR hw (NOT RCC_CFGR_SW);
       or_CFGR hw RCC_CFGR_SW_HSI;
       waited (await fuel (do { v \<leftarrow> read_CFGR hw; State_Monad.return (v AND RCC_CFGR_SWS = RCC_CFGR_SWS_HSI) })) (do {
         assign (\<lambda>s. s\<lparr>current_source := HSI_CLOCK\<rparr>);
         State_Monad.return (Some ())
       })
     })
   }"

definition RunFromHSE :: "nat \<Rightarrow> rcc_hw \<Rightarrow> u32 \<Rightarrow> (clk, unit option) state" where
  "RunFromHSE fuel hw crystal_freq_hz = do {
     assign (\<lambda>s. s\<lparr>hse_freq := crystal_freq_hz\<rparr>);
     or_CR hw (RCC_CR_CSSON OR RCC_CR_HSEON);
     waited (await fuel (do { v \<leftarrow> read_CR hw; State_Monad.return (v AND RCC_CR_HSERDY \<noteq> 0) })) (do {
       and_CFGR hw (NOT RCC_CFGR_SW);
       or_CFGR hw RCC_CFGR_SW_HSE;
       waited (await fuel (do { v \<leftarrow> read_CFGR hw; State_Monad.return (v AND RCC_CFGR_SWS = RCC_CFGR_SWS_HSE) })) (do {
         assign (\<lambda>s. s\<lparr>current_source := HSE_CLOCK\<rparr>);
         State_Monad.return (Some ())
       })
     })
   }"

text \<open>The mask \<open>~RCC_CFGR_PLLXTPRE | RCC_CFGR_PLLSRC\<close> is read as C reads it: the complement binds first.\<close>

definition pll_input :: "rcc_hw \<Rightarrow> ClockSource \<Rightarrow> (clk, bool) state" where
  "pll_input hw src = (case src of
       HSE_CLOCK \<Rightarrow> do {
         and_CFGR hw (NOT RCC_CFGR_PLLXTPRE OR RCC_CFGR_PLLSRC); or_CFGR hw RCC_CFGR_PLLSRC; State_Monad.return True }
     | HSE_CLOCK_DIV2 \<Rightarrow> do { or_CFGR hw (RCC_CFGR_PLLXTPRE OR RCC_CFGR_PLLSRC); State_Monad.return True }
     | HSI_CLOCK \<Rightarrow> do { and_CFGR hw (NOT RCC_CFGR_PLLXTPRE OR RCC_CFGR_PLLSRC); State_Monad.return True }
     | _ \<Rightarrow> State_Monad.return False)"

definition set_freqs :: "rcc_hw \<Rightarrow> u8 \<Rightarrow> (clk, unit) state" where
  "set_freqs hw mult = do {
     assign (\<lambda>s. s\<lparr>cpu_freq := hse_freq s * ucast mult\<rparr>);
     d \<leftarrow> get_ahb_mult hw;
     assign (\<lambda>s. s\<lparr>ahb_freq := cpu_freq s div d\<rparr>);
     d \<leftarrow> get_apb1_mult hw;
     assign (\<lambda>s. s\<lparr>apb1_freq := ahb_freq s div d\<rparr>);
     d \<leftarrow> get_apb2_mult hw;
     assign (\<lambda>s. s\<lparr>apb2_freq := ahb_freq s div d\<rparr>)
   }"

definition EnablePLL :: "nat \<Rightarrow> rcc_hw \<Rightarrow> u8 \<Rightarrow> (clk, unit option) state" where
  "EnablePLL fuel hw mult =
     (if mult < 2 \<or> mult > 16 then State_Monad.return (Some ())
      else do {
        src \<leftarrow> var current_source;
        known \<leftarrow> pll_input hw src;
        if \<not> known then State_Monad.return (Some ())
        else do {
          and_CFGR hw (NOT RCC_CFGR_PLLMULL);
          or_CFGR hw (push_bit 18 (ucast (mult - 2)));
          or_CR hw (RCC_CR_CSSON OR RCC_CR_PLLON);
          waited (await fuel (do { v \<leftarrow> read_CR hw; State_Monad.return (v AND RCC_CR_PLLRDY \<noteq> 0) })) (do {
            and_CFGR hw (NOT RCC_CFGR_SW);
            or_CFGR hw RCC_CFGR_SW_PLL;
            waited (await fuel (do { v \<leftarrow> read_CFGR hw; State_Monad.return (v AND RCC_CFGR_SWS = RCC_CFGR_SWS_PLL) })) (do {
              assign (\<lambda>s. s\<lparr>current_source := PLL_CLOCK\<rparr>);
              set_freqs hw mult;
              State_Monad.return (Some ())
            })
          })
        }
      })"

definition GetCPUFreqHz :: "clk \<Rightarrow> u32" where
  "GetCPUFreqHz s = cpu_freq s"


section \<open>Running the operations\<close>

lemma run_sample [run_simps]:
  "run_state (sample hw) s = (hw (reads s) (RCC s), s\<lparr>RCC := hw (reads s) (RCC s), reads := Suc (reads s)\<rparr>)"
  by (simp add: sample_def Let_def)

lemma run_assign [run_simps]: "run_state (assign f) s = ((), f s)"
  by (simp add: assign_def)

lemma run_var [run_simps]: "run_state (var f) s = (f s, s)"
  by (simp add: var_def)

lemma run_write [run_simps]:
  "run_state (write_CR v) s = ((), s\<lparr>RCC := (RCC s)\<lparr>CR := v\<rparr>\<rparr>)"
  "run_state (write_CFGR v) s = ((), s\<lparr>RCC := (RCC s)\<lparr>CFGR := v\<rparr>\<rparr>)"
  by (simp_all add: write_CR_def write_CFGR_def run_simps)

lemma run_read [run_simps]:
  "run_state (read_CR hw) s = (CR (hw (reads s) (RCC s)), s\<lparr>RCC := hw (reads s) (RCC s), reads := Suc (reads s)\<rparr>)"
  "run_state (read_CFGR hw) s = (CFGR (hw (reads s) (RCC s)), s\<lparr>RCC := hw (reads s) (RCC s), reads := Suc (reads s)\<rparr>)"
  by (simp_all add: read_CR_def read_CFGR_def run_simps)

section \<open>Hardware that keeps its promises\<close>

text \<open>The hardware changes the ready bits and the status of the switch only.  A source that is on gets ready, and
  a switch to a source that is on is carried out, within \<open>L\<close> reads; then it stays so.\<close>

definition ready_bits :: u32 where
  "ready_bits = RCC_CR_HSIRDY OR RCC_CR_HSERDY OR RCC_CR_PLLRDY"

definition cr_ctl :: "rcc \<Rightarrow> u32" where "cr_ctl r = CR r AND NOT ready_bits"
definition cfgr_ctl :: "rcc \<Rightarrow> u32" where "cfgr_ctl r = CFGR r AND NOT RCC_CFGR_SWS"

definition keeps :: "rcc \<Rightarrow> rcc \<Rightarrow> bool" where
  "keeps r r' \<longleftrightarrow> cr_ctl r' = cr_ctl r \<and> cfgr_ctl r' = cfgr_ctl r \<and> APB2ENR r' = APB2ENR r \<and> APB1ENR r' = APB1ENR r"

fun iter :: "rcc_hw \<Rightarrow> nat \<Rightarrow> nat \<Rightarrow> rcc \<Rightarrow> rcc" where
  "iter hw n 0 r = r"
| "iter hw n (Suc k) r = iter hw (Suc n) k (hw n r)"

definition selected_on :: "rcc \<Rightarrow> bool" where
  "selected_on r \<longleftrightarrow>
     CFGR r AND RCC_CFGR_SW = RCC_CFGR_SW_HSI \<and> CR r AND RCC_CR_HSION \<noteq> 0 \<or>
     CFGR r AND RCC_CFGR_SW = RCC_CFGR_SW_HSE \<and> CR r AND RCC_CR_HSEON \<noteq> 0 \<or>
     CFGR r AND RCC_CFGR_SW = RCC_CFGR_SW_PLL \<and> CR r AND RCC_CR_PLLON \<noteq> 0"

definition switched :: "rcc \<Rightarrow> bool" where
  "switched r \<longleftrightarrow> CFGR r AND RCC_CFGR_SWS = push_bit 2 (CFGR r AND RCC_CFGR_SW)"

definition hsi_ok :: "rcc \<Rightarrow> bool" where "hsi_ok r \<longleftrightarrow> CR r AND RCC_CR_HSION \<noteq> 0 \<longrightarrow> CR r AND RCC_CR_HSIRDY \<noteq> 0"
definition hse_ok :: "rcc \<Rightarrow> bool" where "hse_ok r \<longleftrightarrow> CR r AND RCC_CR_HSEON \<noteq> 0 \<longrightarrow> CR r AND RCC_CR_HSERDY \<noteq> 0"
definition pll_ok :: "rcc \<Rightarrow> bool" where "pll_ok r \<longleftrightarrow> CR r AND RCC_CR_PLLON \<noteq> 0 \<longrightarrow> CR r AND RCC_CR_PLLRDY \<noteq> 0"
definition sw_ok :: "rcc \<Rightarrow> bool" where "sw_ok r \<longleftrightarrow> selected_on r \<longrightarrow> switched r"

definition attains :: "rcc_hw \<Rightarrow> nat \<Rightarrow> (rcc \<Rightarrow> bool) \<Rightarrow> bool" where
  "attains hw L ok \<longleftrightarrow> (\<forall>n r. (ok r \<longrightarrow> ok (hw n r)) \<and> ok (iter hw n L r))"

definition prompt :: "rcc_hw \<Rightarrow> nat \<Rightarrow> bool" where
  "prompt hw L \<longleftrightarrow> (\<forall>n r. keeps r (hw n r)) \<and> attains hw L hsi_ok \<and> attains hw L hse_ok \<and> attains hw L pll_ok \<and> attains hw L sw_ok"

lemma keeps_refl: "keeps r r"
  by (simp add: keeps_def)

lemma keeps_trans: "keeps r s \<Longrightarrow> keeps s t \<Longrightarrow> keeps r t"
  by (simp add: keeps_def)

text \<open>The masks as fields.\<close>

lemma cfgr_fields:
  "RCC_CFGR_SW = mask 2" "RCC_CFGR_SWS = push_bit 2 (mask 2)" "RCC_CFGR_HPRE = push_bit 4 (mask 4)"
  "RCC_CFGR_PPRE1 = push_bit 8 (mask 3)" "RCC_CFGR_PPRE2 = push_bit 11 (mask 3)" "RCC_CFGR_PLLSRC = push_bit 16 1"
  "RCC_CFGR_PLLXTPRE = push_bit 17 1" "RCC_CFGR_PLLMULL = push_bit 18 (mask 4)"
  by (simp_all add: cfgr_masks mask_numeral)

lemma cr_fields:
  "RCC_CR_HSION = push_bit 0 1" "RCC_CR_HSIRDY = push_bit 1 1" "RCC_CR_HSEON = push_bit 16 1" "RCC_CR_HSERDY = push_bit 17 1"
  "RCC_CR_CSSON = push_bit 19 1" "RCC_CR_PLLON = push_bit 24 1" "RCC_CR_PLLRDY = push_bit 25 1"
  by (simp_all add: cr_masks)

lemma and_disjoint_mask: "m AND k = 0 \<Longrightarrow> (x AND NOT k) AND m = x AND m" for x m k :: "'a::len word"
  by (auto simp: bit_eq_iff bit_simps)

lemma ctl_fields:
  "CFGR r AND RCC_CFGR_SW = cfgr_ctl r AND RCC_CFGR_SW" "CFGR r AND RCC_CFGR_HPRE = cfgr_ctl r AND RCC_CFGR_HPRE"
  "CFGR r AND RCC_CFGR_PPRE1 = cfgr_ctl r AND RCC_CFGR_PPRE1" "CFGR r AND RCC_CFGR_PPRE2 = cfgr_ctl r AND RCC_CFGR_PPRE2"
  "CFGR r AND RCC_CFGR_PLLSRC = cfgr_ctl r AND RCC_CFGR_PLLSRC" "CFGR r AND RCC_CFGR_PLLXTPRE = cfgr_ctl r AND RCC_CFGR_PLLXTPRE"
  "CFGR r AND RCC_CFGR_PLLMULL = cfgr_ctl r AND RCC_CFGR_PLLMULL"
  "CR r AND RCC_CR_HSION = cr_ctl r AND RCC_CR_HSION" "CR r AND RCC_CR_HSEON = cr_ctl r AND RCC_CR_HSEON"
  "CR r AND RCC_CR_PLLON = cr_ctl r AND RCC_CR_PLLON"
  unfolding cfgr_ctl_def cr_ctl_def
  by (rule and_disjoint_mask [symmetric], simp add: cfgr_masks cr_masks ready_bits_def)+

lemma keeps_selected: "keeps r r' \<Longrightarrow> selected_on r' = selected_on r"
  by (simp add: selected_on_def ctl_fields keeps_def)

lemma await_ends:
  assumes "\<forall>n r. keeps r (hw n r)" "\<forall>n r. ok r \<longrightarrow> ok (hw n r)" "\<And>r. keeps (RCC s) r \<Longrightarrow> ok r \<Longrightarrow> test r"
    and "ok (iter hw (reads s) L (RCC s))" "L < fuel"
  shows "\<exists>k r. run_state (await fuel (do { r \<leftarrow> sample hw; State_Monad.return (test r) })) s =
    (True, s\<lparr>RCC := r, reads := k\<rparr>) \<and> keeps (RCC s) r \<and> test r"
  using assms(3-)
proof (induction fuel arbitrary: L s)
  case (Suc fuel)
  let ?r = "hw (reads s) (RCC s)"
  have k: "keeps (RCC s) ?r" using assms(1) by blast
  show ?case
  proof (cases "test ?r")
    case True
    then show ?thesis using k by (intro exI [of _ "Suc (reads s)"] exI [of _ ?r]) (simp add: run_simps)
  next
    case False
    then have "\<not> ok ?r" using Suc.prems(1) k by blast
    then obtain L' where L: "L = Suc L'" using Suc.prems(2) assms(2) by (cases L) auto
    let ?s = "s\<lparr>RCC := ?r, reads := Suc (reads s)\<rparr>"
    have "\<exists>k r. run_state (await fuel (do { r \<leftarrow> sample hw; State_Monad.return (test r) })) ?s =
      (True, ?s\<lparr>RCC := r, reads := k\<rparr>) \<and> keeps (RCC ?s) r \<and> test r"
      by (rule Suc.IH [of ?s L']) (use Suc.prems L k keeps_trans in auto)
    then show ?thesis using False k by (auto simp: run_simps intro: keeps_trans)
  qed
qed simp


text \<open>The waiting loops of the code.\<close>

lemma wait_read:
  "await fuel (do { v \<leftarrow> read_CR hw; State_Monad.return (f v) }) = await fuel (do { r \<leftarrow> sample hw; State_Monad.return (f (CR r)) })"
  "await fuel (do { v \<leftarrow> read_CFGR hw; State_Monad.return (f v) }) = await fuel (do { r \<leftarrow> sample hw; State_Monad.return (f (CFGR r)) })"
  by (simp_all add: read_CR_def read_CFGR_def)

lemma prompt_keeps: "prompt hw L \<Longrightarrow> keeps r (hw n r)"
  by (simp add: prompt_def)

lemma await_prompt:
  assumes "prompt hw L" "attains hw L ok" "L < fuel" "\<And>r. keeps (RCC s) r \<Longrightarrow> ok r \<Longrightarrow> test r"
  shows "\<exists>k r. run_state (await fuel (do { r \<leftarrow> sample hw; State_Monad.return (test r) })) s =
    (True, s\<lparr>RCC := r, reads := k\<rparr>) \<and> keeps (RCC s) r \<and> test r"
  by (rule await_ends [where ok = ok and L = L]) (use assms in \<open>auto simp: prompt_def attains_def\<close>)

text \<open>What an operation does to the registers that the hardware leaves alone: \<open>steps m s f g\<close> says that
  it ends and that it has applied \<open>f\<close> to CR and \<open>g\<close> to CFGR, and changed no variable.\<close>

definition steps :: "(clk, unit) state \<Rightarrow> clk \<Rightarrow> (u32 \<Rightarrow> u32) \<Rightarrow> (u32 \<Rightarrow> u32) \<Rightarrow> clk \<Rightarrow> bool" where
  "steps m s f g s' \<longleftrightarrow> run_state m s = ((), s') \<and> cr_ctl (RCC s') = f (cr_ctl (RCC s)) \<and> cfgr_ctl (RCC s') = g (cfgr_ctl (RCC s)) \<and>
     s' = s\<lparr>RCC := RCC s', reads := reads s'\<rparr>"

lemma steps_vars: "steps m s f g s' \<Longrightarrow> s'\<lparr>RCC := r, reads := k\<rparr> = s\<lparr>RCC := r, reads := k\<rparr>"
  unfolding steps_def by (metis (no_types) clk.surjective clk.update_convs(1,2))

lemma or_and_not_mask: "m AND k = 0 \<Longrightarrow> (v OR m) AND NOT k = (v AND NOT k) OR m" for m k v :: "'a::len word"
  by (auto simp: bit_eq_iff bit_simps)

lemma and_and_not_mask: "(v AND m) AND NOT k = (v AND NOT k) AND m" for m k v :: "'a::len word"
  by (simp add: ac_simps)

lemma or_CR_steps: "prompt hw L \<Longrightarrow> m AND ready_bits = 0 \<Longrightarrow> \<exists>s'. steps (or_CR hw m) s (\<lambda>c. c OR m) (\<lambda>c. c) s'"
  using prompt_keeps [of hw L "RCC s" "reads s"] or_and_not_mask [of m ready_bits]
  by (simp add: steps_def or_CR_def run_simps keeps_def cr_ctl_def cfgr_ctl_def)

lemma and_CFGR_steps: "prompt hw L \<Longrightarrow> \<exists>s'. steps (and_CFGR hw m) s (\<lambda>c. c) (\<lambda>c. c AND m) s'"
  using prompt_keeps [of hw L "RCC s" "reads s"] and_and_not_mask [of _ m RCC_CFGR_SWS]
  by (simp add: steps_def and_CFGR_def run_simps keeps_def cr_ctl_def cfgr_ctl_def)

lemma or_CFGR_steps: "prompt hw L \<Longrightarrow> m AND RCC_CFGR_SWS = 0 \<Longrightarrow> \<exists>s'. steps (or_CFGR hw m) s (\<lambda>c. c) (\<lambda>c. c OR m) s'"
  using prompt_keeps [of hw L "RCC s" "reads s"] or_and_not_mask [of m RCC_CFGR_SWS]
  by (simp add: steps_def or_CFGR_def run_simps keeps_def cr_ctl_def cfgr_ctl_def)

text \<open>A switch to a source that is on.\<close>

lemma switch_to:
  assumes p: "prompt hw L" "L < fuel" and v: "v AND RCC_CFGR_SW = v"
    and on: "v = RCC_CFGR_SW_HSI \<and> cr_ctl (RCC s) AND RCC_CR_HSION \<noteq> 0 \<or>
      v = RCC_CFGR_SW_HSE \<and> cr_ctl (RCC s) AND RCC_CR_HSEON \<noteq> 0 \<or> v = RCC_CFGR_SW_PLL \<and> cr_ctl (RCC s) AND RCC_CR_PLLON \<noteq> 0"
  shows "\<exists>k r. run_state (do {
      and_CFGR hw (NOT RCC_CFGR_SW); or_CFGR hw v;
      waited (await fuel (do { x \<leftarrow> read_CFGR hw; State_Monad.return (x AND RCC_CFGR_SWS = push_bit 2 v) })) m }) s =
    run_state m (s\<lparr>RCC := r, reads := k\<rparr>) \<and> cr_ctl r = cr_ctl (RCC s) \<and>
    cfgr_ctl r = cfgr_ctl (RCC s) AND NOT RCC_CFGR_SW OR v \<and> selected_on r \<and> switched r"
proof -
  obtain s1 where 1: "steps (and_CFGR hw (NOT RCC_CFGR_SW)) s (\<lambda>c. c) (\<lambda>c. c AND NOT RCC_CFGR_SW) s1"
    using and_CFGR_steps [OF p(1)] by blast
  have d: "v AND RCC_CFGR_SWS = 0"
  proof -
    have "v AND RCC_CFGR_SWS = v AND (RCC_CFGR_SW AND RCC_CFGR_SWS)" using v by (metis and.assoc)
    then show ?thesis by (simp add: cfgr_masks)
  qed
  obtain s2 where 2: "steps (or_CFGR hw v) s1 (\<lambda>c. c) (\<lambda>c. c OR v) s2"
    using or_CFGR_steps [OF p(1) d] by blast
  have c2: "cfgr_ctl (RCC s2) = cfgr_ctl (RCC s) AND NOT RCC_CFGR_SW OR v" "cr_ctl (RCC s2) = cr_ctl (RCC s)"
    using 1 2 by (simp_all add: steps_def)
  have sw: "(x AND NOT RCC_CFGR_SW OR v) AND RCC_CFGR_SW = v" for x
    using arg_cong [OF v, of bit] by (auto simp: bit_eq_iff bit_simps fun_eq_iff)
  have on2: "selected_on r \<and> CFGR r AND RCC_CFGR_SW = v" if "keeps (RCC s2) r" for r
    using that on c2 sw by (auto simp: selected_on_def ctl_fields keeps_def)
  have a: "attains hw L sw_ok" using p(1) by (simp add: prompt_def)
  obtain k r where 3: "run_state (await fuel (do { r \<leftarrow> sample hw; State_Monad.return (CFGR r AND RCC_CFGR_SWS = push_bit 2 v) })) s2 =
      (True, s2\<lparr>RCC := r, reads := k\<rparr>)" "keeps (RCC s2) r" "CFGR r AND RCC_CFGR_SWS = push_bit 2 v"
    using await_prompt [OF p(1) a p(2), of s2 "\<lambda>r. CFGR r AND RCC_CFGR_SWS = push_bit 2 v"] on2
    by (auto simp: sw_ok_def switched_def)
  have s2: "s2\<lparr>RCC := r, reads := k\<rparr> = s\<lparr>RCC := r, reads := k\<rparr>" for r k
    using steps_vars [OF 1] steps_vars [OF 2] by simp
  show ?thesis
    using 1 2 3 on2 [OF 3(2)] c2
    by (intro exI [of _ k] exI [of _ r]) (simp add: steps_def waited_def wait_read s2 keeps_def switched_def del: await.simps)
qed

text \<open>Switching a source on and waiting for it.\<close>

lemma turn_on:
  assumes p: "prompt hw L" "attains hw L ok" "L < fuel" and m: "m AND ready_bits = 0"
    and t: "\<And>r. cr_ctl r = cr_ctl (RCC s) OR m \<Longrightarrow> ok r \<Longrightarrow> CR r AND rdy \<noteq> 0"
  shows "\<exists>k r. run_state (do { or_CR hw m;
      waited (await fuel (do { v \<leftarrow> read_CR hw; State_Monad.return (v AND rdy \<noteq> 0) })) n }) s =
    run_state n (s\<lparr>RCC := r, reads := k\<rparr>) \<and> cr_ctl r = cr_ctl (RCC s) OR m \<and> cfgr_ctl r = cfgr_ctl (RCC s)"
proof -
  obtain s1 where 1: "steps (or_CR hw m) s (\<lambda>c. c OR m) (\<lambda>c. c) s1" using or_CR_steps [OF p(1) m] by blast
  obtain k r where 2: "run_state (await fuel (do { r \<leftarrow> sample hw; State_Monad.return (CR r AND rdy \<noteq> 0) })) s1 =
      (True, s1\<lparr>RCC := r, reads := k\<rparr>)" "keeps (RCC s1) r"
    using await_prompt [OF p, of s1 "\<lambda>r. CR r AND rdy \<noteq> 0"] t 1 by (auto simp: steps_def keeps_def)
  have s1: "s1\<lparr>RCC := r, reads := k\<rparr> = s\<lparr>RCC := r, reads := k\<rparr>" for r k
    using steps_vars [OF 1] by simp
  show ?thesis using 1 2
    by (intro exI [of _ k] exI [of _ r]) (simp add: steps_def waited_def wait_read s1 keeps_def del: await.simps)
qed


section \<open>What the chip does\<close>

text \<open>The clock of the processor and the divisors of the buses, by the comments of stm32f10x.h on the fields of
  CFGR.  The header has no multiplier for the field value 15.\<close>

definition pll_field :: "rcc \<Rightarrow> nat" where
  "pll_field r = unat (drop_bit 18 (CFGR r AND RCC_CFGR_PLLMULL))"

definition pll_in :: "nat \<Rightarrow> rcc \<Rightarrow> nat" where
  "pll_in hse r = (if CFGR r AND RCC_CFGR_PLLSRC = 0 then 4000000
     else if CFGR r AND RCC_CFGR_PLLXTPRE = 0 then hse else hse div 2)"

definition sysclk :: "nat \<Rightarrow> rcc \<Rightarrow> nat option" where
  "sysclk hse r =
     (if CFGR r AND RCC_CFGR_SWS = RCC_CFGR_SWS_HSI then Some 8000000
      else if CFGR r AND RCC_CFGR_SWS = RCC_CFGR_SWS_HSE then Some hse
      else if CFGR r AND RCC_CFGR_SWS = RCC_CFGR_SWS_PLL \<and> pll_field r \<noteq> 15 then Some (pll_in hse r * (pll_field r + 2))
      else None)"

definition ahb_div :: "rcc \<Rightarrow> nat" where
  "ahb_div r = (let k = unat (drop_bit 4 (CFGR r AND RCC_CFGR_HPRE))
     in if k < 8 then 1 else [2, 4, 8, 16, 64, 128, 256, 512] ! (k - 8))"

definition apb_div :: "u32 \<Rightarrow> nat" where
  "apb_div field = (if field < 4 then 1 else [2, 4, 8, 16] ! (unat field - 4))"

definition apb1_div :: "rcc \<Rightarrow> nat" where
  "apb1_div r = apb_div (drop_bit 8 (CFGR r AND RCC_CFGR_PPRE1))"

definition apb2_div :: "rcc \<Rightarrow> nat" where
  "apb2_div r = apb_div (drop_bit 11 (CFGR r AND RCC_CFGR_PPRE2))"

text \<open>A chip that has carried out the last switch does not change CFGR any more.\<close>

lemma settled_read:
  assumes "prompt hw L" "selected_on r" "switched r"
  shows "CFGR (hw n r) = CFGR r" "selected_on (hw n r)" "switched (hw n r)"
proof -
  have k: "keeps r (hw n r)" and a: "attains hw L sw_ok" using assms(1) by (simp_all add: prompt_def)
  show s: "selected_on (hw n r)" using keeps_selected [OF k] assms(2) by simp
  show sw: "switched (hw n r)" using a s assms(3) by (auto simp: attains_def sw_ok_def)
  have "CFGR (hw n r) AND RCC_CFGR_SWS = CFGR r AND RCC_CFGR_SWS"
    using sw assms(3) k by (simp add: switched_def ctl_fields keeps_def)
  moreover have "CFGR (hw n r) AND NOT RCC_CFGR_SWS = CFGR r AND NOT RCC_CFGR_SWS"
    using k by (simp add: keeps_def cfgr_ctl_def)
  ultimately show "CFGR (hw n r) = CFGR r" by (metis bit.conj_disj_distrib bit.disj_cancel_right word_bw_comms(1) and.right_neutral)
qed

definition settled :: "rcc \<Rightarrow> bool" where
  "settled r \<longleftrightarrow> selected_on r \<and> switched r"

definition stays :: "clk \<Rightarrow> clk \<Rightarrow> bool" where
  "stays s s' \<longleftrightarrow> settled (RCC s') \<and> keeps (RCC s) (RCC s') \<and> CFGR (RCC s') = CFGR (RCC s) \<and>
     s' = s\<lparr>RCC := RCC s', reads := reads s'\<rparr>"

lemma stays_trans: "stays s t \<Longrightarrow> stays t u \<Longrightarrow> stays s u"
  unfolding stays_def by (metis (no_types, lifting) clk.surjective clk.update_convs(1,2) keeps_trans)

lemma stays_fields:
  assumes "stays s s'"
  shows "hse_freq s' = hse_freq s" "cpu_freq s' = cpu_freq s" "ahb_freq s' = ahb_freq s" "apb1_freq s' = apb1_freq s"
    "apb2_freq s' = apb2_freq s" "current_source s' = current_source s"
proof -
  have "s' = s\<lparr>RCC := RCC s', reads := reads s'\<rparr>" using assms by (simp add: stays_def)
  from arg_cong [OF this, of hse_freq] arg_cong [OF this, of cpu_freq] arg_cong [OF this, of ahb_freq]
    arg_cong [OF this, of apb1_freq] arg_cong [OF this, of apb2_freq] arg_cong [OF this, of current_source]
  show "hse_freq s' = hse_freq s" "cpu_freq s' = cpu_freq s" "ahb_freq s' = ahb_freq s" "apb1_freq s' = apb1_freq s"
    "apb2_freq s' = apb2_freq s" "current_source s' = current_source s" by simp_all
qed

lemma read_settled:
  assumes "prompt hw L" "settled (RCC s)"
  shows "\<exists>s'. run_state (do { v \<leftarrow> read_CFGR hw; f v }) s = run_state (f (CFGR (RCC s))) s' \<and> stays s s'"
  using settled_read [OF assms(1), of "RCC s" "reads s"] assms(2) prompt_keeps [OF assms(1), of "RCC s" "reads s"]
  by (intro exI [of _ "s\<lparr>RCC := hw (reads s) (RCC s), reads := Suc (reads s)\<rparr>"]) (simp add: run_simps settled_def stays_def)

lemma getter:
  assumes "prompt hw L" "settled (RCC s)"
  shows "\<exists>s'. run_state (do { v \<leftarrow> read_CFGR hw; State_Monad.return (f v) }) s = (f (CFGR (RCC s)), s') \<and> stays s s'"
  using read_settled [OF assms, of "\<lambda>v. State_Monad.return (f v)"] by auto

definition ahb_code :: "u32 \<Rightarrow> u32" where
  "ahb_code c = (let mult = drop_bit 4 (c AND RCC_CFGR_HPRE) in if mult < 8 then 1 else push_bit (unat (mult - 7)) 1)"

definition apb_code :: "u32 \<Rightarrow> u32" where
  "apb_code mult = (if mult < 4 then 1 else push_bit (unat (mult - 3)) 1)"

definition pll_code :: "u32 \<Rightarrow> u8" where
  "pll_code c = (let mult = drop_bit 18 (c AND RCC_CFGR_PLLMULL) in if mult \<ge> 2 then ucast (mult + 2) else 1)"

definition cpu_code :: "u32 \<Rightarrow> u32 \<Rightarrow> u32" where
  "cpu_code hse c =
     (if c AND RCC_CFGR_SWS = RCC_CFGR_SWS_HSI then HSI_CLOCK_FREQ
      else if c AND RCC_CFGR_SWS = RCC_CFGR_SWS_HSE then hse
      else if c AND RCC_CFGR_SWS = RCC_CFGR_SWS_PLL
      then (if c AND RCC_CFGR_PLLSRC \<noteq> 0 then hse * ucast (pll_code c) else HSI_CLOCK_FREQ div 2 * ucast (pll_code c))
      else 0)"

lemma ahb_getter: "prompt hw L \<Longrightarrow> settled (RCC s) \<Longrightarrow> \<exists>s'. run_state (get_ahb_mult hw) s = (ahb_code (CFGR (RCC s)), s') \<and> stays s s'"
  using getter [of hw L s ahb_code] by (simp add: get_ahb_mult_def ahb_code_def Let_def cong: if_cong)

lemma apb1_getter: "prompt hw L \<Longrightarrow> settled (RCC s) \<Longrightarrow>
    \<exists>s'. run_state (get_apb1_mult hw) s = (apb_code (drop_bit 8 (CFGR (RCC s) AND RCC_CFGR_PPRE1)), s') \<and> stays s s'"
  using getter [of hw L s "\<lambda>c. apb_code (drop_bit 8 (c AND RCC_CFGR_PPRE1))"] by (simp add: get_apb1_mult_def apb_code_def Let_def cong: if_cong)

lemma apb2_getter: "prompt hw L \<Longrightarrow> settled (RCC s) \<Longrightarrow>
    \<exists>s'. run_state (get_apb2_mult hw) s = (apb_code (drop_bit 11 (CFGR (RCC s) AND RCC_CFGR_PPRE2)), s') \<and> stays s s'"
  using getter [of hw L s "\<lambda>c. apb_code (drop_bit 11 (c AND RCC_CFGR_PPRE2))"] by (simp add: get_apb2_mult_def apb_code_def Let_def cong: if_cong)

lemma pll_getter: "prompt hw L \<Longrightarrow> settled (RCC s) \<Longrightarrow> \<exists>s'. run_state (get_pll_mult hw) s = (pll_code (CFGR (RCC s)), s') \<and> stays s s'"
  using getter [of hw L s pll_code] by (simp add: get_pll_mult_def pll_code_def Let_def cong: if_cong)

lemma source_getter: "prompt hw L \<Longrightarrow> settled (RCC s) \<Longrightarrow>
    \<exists>s'. run_state (get_pll_source hw) s = (if CFGR (RCC s) AND RCC_CFGR_PLLSRC \<noteq> 0 then HSE_CLOCK else HSI_CLOCK, s') \<and> stays s s'"
  using getter [of hw L s "\<lambda>c. if c AND RCC_CFGR_PLLSRC \<noteq> 0 then HSE_CLOCK else HSI_CLOCK"] by (simp add: get_pll_source_def)

lemma clock_source:
  assumes p: "prompt hw L" "settled (RCC s)"
  shows "\<exists>s'. run_state (GetClockSource hw) s =
    (if CFGR (RCC s) AND RCC_CFGR_SWS = RCC_CFGR_SWS_HSI then HSI_CLOCK
     else if CFGR (RCC s) AND RCC_CFGR_SWS = RCC_CFGR_SWS_HSE then HSE_CLOCK
     else if CFGR (RCC s) AND RCC_CFGR_SWS = RCC_CFGR_SWS_PLL then PLL_CLOCK else INV_CLOCK, s') \<and> stays s s'"
proof -
  let ?r = "\<lambda>s. hw (reads s) (RCC s)"
  let ?n = "\<lambda>s. s\<lparr>RCC := ?r s, reads := Suc (reads s)\<rparr>"
  have n: "stays s (?n s)" if "settled (RCC s)" for s
    using settled_read [OF p(1), of "RCC s" "reads s"] that prompt_keeps [OF p(1), of "RCC s" "reads s"] by (simp add: stays_def settled_def)
  have 1: "stays s (?n s)" using n p(2) by blast
  have 2: "stays (?n s) (?n (?n s))" using n [of "?n s"] 1 by (simp add: stays_def)
  have 3: "stays (?n (?n s)) (?n (?n (?n s)))" using n [of "?n (?n s)"] 2 by (simp add: stays_def)
  have c: "CFGR (?r s) = CFGR (RCC s)" "CFGR (?r (?n s)) = CFGR (RCC s)" "CFGR (?r (?n (?n s))) = CFGR (RCC s)"
    using 1 2 3 by (simp_all add: stays_def)
  show ?thesis
  proof (cases "CFGR (RCC s) AND RCC_CFGR_SWS = RCC_CFGR_SWS_HSI")
    case True
    then show ?thesis using 1 c by (intro exI [of _ "?n s"]) (simp add: GetClockSource_def run_simps)
  next
    case F: False
    show ?thesis
    proof (cases "CFGR (RCC s) AND RCC_CFGR_SWS = RCC_CFGR_SWS_HSE")
      case True
      then show ?thesis using F 1 2 c stays_trans [OF 1 2] by (intro exI [of _ "?n (?n s)"]) (simp add: GetClockSource_def run_simps)
    next
      case False
      then show ?thesis using F c stays_trans [OF stays_trans [OF 1 2] 3]
        by (intro exI [of _ "?n (?n (?n s))"]) (simp add: GetClockSource_def run_simps)
    qed
  qed
qed


lemma update_run:
  assumes p: "prompt hw L" "settled (RCC s)"
  shows "\<exists>s'. run_state (Update hw this) s =
    (let c = CFGR (RCC s); cpu = cpu_code (hse_freq s) c; ahb = cpu div ahb_code c
     in this\<lparr>cpu_freq_hz := cpu, ahb_freq_hz := ahb, apb1_freq_hz := ahb div apb_code (drop_bit 8 (c AND RCC_CFGR_PPRE1)),
       apb2_freq_hz := ahb div apb_code (drop_bit 11 (c AND RCC_CFGR_PPRE2))\<rparr>, s') \<and> stays s s'"
proof -
  let ?c = "CFGR (RCC s)"
  obtain s1 where 1: "run_state (GetClockSource hw) s =
    (if ?c AND RCC_CFGR_SWS = RCC_CFGR_SWS_HSI then HSI_CLOCK else if ?c AND RCC_CFGR_SWS = RCC_CFGR_SWS_HSE then HSE_CLOCK
     else if ?c AND RCC_CFGR_SWS = RCC_CFGR_SWS_PLL then PLL_CLOCK else INV_CLOCK, s1)" "stays s s1"
    using clock_source [OF p] by blast
  let ?cpu = "\<lambda>src. case src of HSI_CLOCK \<Rightarrow> State_Monad.return HSI_CLOCK_FREQ | HSE_CLOCK \<Rightarrow> var hse_freq
       | PLL_CLOCK \<Rightarrow> do { pll \<leftarrow> get_pll_source hw; mult \<leftarrow> get_pll_mult hw;
           if pll = HSI_CLOCK then State_Monad.return (HSI_CLOCK_FREQ div 2 * ucast mult)
           else do { hse \<leftarrow> var hse_freq; State_Monad.return (hse * ucast mult) } }
       | _ \<Rightarrow> State_Monad.return 0"
  have t: "settled (RCC t)" "CFGR (RCC t) = ?c" "hse_freq t = hse_freq s" if "stays s t" for t
    using that stays_fields(1) [OF that] by (auto simp: stays_def)
  obtain s2 where 2: "run_state (get_pll_source hw) s1 = (if ?c AND RCC_CFGR_PLLSRC \<noteq> 0 then HSE_CLOCK else HSI_CLOCK, s2)" "stays s s2"
    using source_getter [OF p(1), of s1] t [OF 1(2)] stays_trans [OF 1(2)] by auto
  obtain s3 where 3: "run_state (get_pll_mult hw) s2 = (pll_code ?c, s3)" "stays s s3"
    using pll_getter [OF p(1), of s2] t [OF 2(2)] stays_trans [OF 2(2)] by auto
  obtain src where src: "run_state (GetClockSource hw) s = (src, s1)" using 1(1) by blast
  have v: "\<exists>u. run_state (?cpu src) s1 = (cpu_code (hse_freq s) ?c, u) \<and> stays s u"
    using 1 2 3 t [OF 1(2)] t [OF 3(2)] src by (auto simp: cpu_code_def run_simps)
  obtain u where u: "run_state (?cpu src) s1 = (cpu_code (hse_freq s) ?c, u)" "stays s u" using v by blast
  obtain u1 where u1: "run_state (get_ahb_mult hw) u = (ahb_code ?c, u1)" "stays s u1"
    using ahb_getter [OF p(1), of u] t [OF u(2)] stays_trans [OF u(2)] by auto
  obtain u2 where u2: "run_state (get_apb1_mult hw) u1 = (apb_code (drop_bit 8 (?c AND RCC_CFGR_PPRE1)), u2)" "stays s u2"
    using apb1_getter [OF p(1), of u1] t [OF u1(2)] stays_trans [OF u1(2)] by auto
  obtain u3 where u3: "run_state (get_apb2_mult hw) u2 = (apb_code (drop_bit 11 (?c AND RCC_CFGR_PPRE2)), u3)" "stays s u3"
    using apb2_getter [OF p(1), of u2] t [OF u2(2)] stays_trans [OF u2(2)] by auto
  show ?thesis
    using src u u1 u2 u3 by (intro exI [of _ u3]) (simp add: Update_def Let_def)
qed

text \<open>The code's divisors and multiplier against the header's.\<close>

lemma field_value: "drop_bit k (c AND push_bit k (mask n)) = drop_bit k c AND mask n" for c :: u32
  by (rule bit_word_eqI) (auto simp: bit_simps dest: bit_imp_le_length)

lemma field_bound: "unat (drop_bit k (c AND push_bit k (mask n)) :: u32) < 2 ^ n"
  unfolding field_value by (simp add: unsigned_take_bit_eq flip: take_bit_eq_mask)

lemma all_below: "\<forall>k \<in> set [0..<n]. P (of_nat k) \<Longrightarrow> unat f < n \<Longrightarrow> P f" for f :: u32
  by (drule bspec [of _ _ "unat f"]) simp_all

lemma apb_codes: "\<forall>k \<in> set [0..<8]. unat (apb_code (of_nat k)) = apb_div (of_nat k)"
  by code_simp

lemma apb_code_div: "unat f < 8 \<Longrightarrow> unat (apb_code f) = apb_div f"
  using apb_codes by (rule all_below)

lemma ahb_codes: "\<forall>k \<in> set [0..<12]. unat (if (of_nat k :: u32) < 8 then 1 else push_bit (unat (of_nat k - 7 :: u32)) 1 :: u32) =
    (if unat (of_nat k :: u32) < 8 then 1 else [2, 4, 8, 16, 64, 128, 256, 512] ! (unat (of_nat k :: u32) - 8))"
  by code_simp

lemma pll_codes: "\<forall>k \<in> set [0..<16]. unat (if (of_nat k :: u32) \<ge> 2 then ucast (of_nat k + 2 :: u32) else 1 :: u8) =
    (if 2 \<le> unat (of_nat k :: u32) then unat (of_nat k :: u32) + 2 else 1)"
  by code_simp


lemma cfgr_field_bounds:
  "unat (drop_bit 8 (c AND RCC_CFGR_PPRE1)) < 8" "unat (drop_bit 11 (c AND RCC_CFGR_PPRE2)) < 8"
  "unat (drop_bit 18 (c AND RCC_CFGR_PLLMULL)) < 16"
  unfolding cfgr_fields using field_bound [of 8 c 3] field_bound [of 11 c 3] field_bound [of 18 c 4] by (simp_all del: drop_bit_and)

lemma apb_values:
  "unat (apb_code (drop_bit 8 (CFGR r AND RCC_CFGR_PPRE1))) = apb1_div r"
  "unat (apb_code (drop_bit 11 (CFGR r AND RCC_CFGR_PPRE2))) = apb2_div r"
  unfolding apb1_div_def apb2_div_def by (rule apb_code_div, rule cfgr_field_bounds)+

lemma ahb_value: "unat (drop_bit 4 (CFGR r AND RCC_CFGR_HPRE)) < 12 \<Longrightarrow> unat (ahb_code (CFGR r)) = ahb_div r"
  unfolding ahb_code_def ahb_div_def Let_def by (rule all_below [OF ahb_codes])

lemma pll_value: "unat (pll_code (CFGR r)) = (if 2 \<le> pll_field r then pll_field r + 2 else 1)"
  unfolding pll_code_def pll_field_def Let_def by (rule all_below [OF pll_codes cfgr_field_bounds(3)])

lemma mult_no_wrap: "unat a * unat b < 2 ^ 32 \<Longrightarrow> unat (a * b) = unat a * unat b" for a b :: u32
  using unat_mult_lem [of a b] by simp

lemma byte_to_u32: "unat (ucast w :: u32) = unat w" for w :: u8
proof -
  have "unat w < 2 ^ LENGTH(8)" by (rule unsigned_less)
  also have "\<dots> < 2 ^ LENGTH(32)" by simp
  finally show ?thesis by (simp add: unsigned_ucast_eq take_bit_nat_eq_self)
qed

lemma cpu_value:
  assumes "sysclk (unat hse) r = Some f" "f < 2 ^ 32"
    and "CFGR r AND RCC_CFGR_SWS = RCC_CFGR_SWS_PLL \<longrightarrow> 2 \<le> pll_field r \<and> CFGR r AND RCC_CFGR_PLLXTPRE = 0"
  shows "unat (cpu_code hse (CFGR r)) = f"
proof -
  have hsi: "unat HSI_CLOCK_FREQ = 8000000" "unat (HSI_CLOCK_FREQ div 2) = 4000000" by (simp_all add: HSI_CLOCK_FREQ_def)
  have m: "unat (ucast (pll_code (CFGR r)) :: u32) = (if 2 \<le> pll_field r then pll_field r + 2 else 1)"
    using pll_value [of r] by (simp add: byte_to_u32)
  show ?thesis
    using assms hsi m mult_no_wrap [of hse "ucast (pll_code (CFGR r))"]
      mult_no_wrap [of "HSI_CLOCK_FREQ div 2" "ucast (pll_code (CFGR r))"]
    by (auto simp: sysclk_def cpu_code_def pll_in_def split: if_splits)
qed

text \<open>
  C21: on hardware that answers promptly and has carried out the last switch of its clock, \<open>Update\<close> reports the frequencies that the
  chip runs at according to the vendor's header, of the processor and of all three buses.  If the clock is the PLL's, the multiplier
  must be one from 4 to 16 with a code of its own (the code 15, which the header does not name, is left out: \<open>pll_code_15\<close>) and the
  crystal not be divided before it (PLLXTPRE = 0); the divisor of the first bus must be at most 16, and the frequency below
  \<open>2 ^ 32\<close>.
\<close>

theorem clocks_update_correct:
  assumes "prompt hw L" "settled (RCC s)"
    and "sysclk (unat (hse_freq s)) (RCC s) = Some f" "f < 2 ^ 32"
    and "CFGR (RCC s) AND RCC_CFGR_SWS = RCC_CFGR_SWS_PLL \<longrightarrow> 2 \<le> pll_field (RCC s) \<and> CFGR (RCC s) AND RCC_CFGR_PLLXTPRE = 0"
    and "unat (drop_bit 4 (CFGR (RCC s) AND RCC_CFGR_HPRE)) < 12"
  shows "\<exists>c s'. run_state (Update hw this) s = (c, s') \<and> unat (cpu_freq_hz c) = f \<and>
    unat (ahb_freq_hz c) = f div ahb_div (RCC s) \<and>
    unat (apb1_freq_hz c) = f div ahb_div (RCC s) div apb1_div (RCC s) \<and>
    unat (apb2_freq_hz c) = f div ahb_div (RCC s) div apb2_div (RCC s)"
proof -
  let ?c = "CFGR (RCC s)"
  obtain s' where "run_state (Update hw this) s =
    (this\<lparr>cpu_freq_hz := cpu_code (hse_freq s) ?c, ahb_freq_hz := cpu_code (hse_freq s) ?c div ahb_code ?c,
       apb1_freq_hz := cpu_code (hse_freq s) ?c div ahb_code ?c div apb_code (drop_bit 8 (?c AND RCC_CFGR_PPRE1)),
       apb2_freq_hz := cpu_code (hse_freq s) ?c div ahb_code ?c div apb_code (drop_bit 11 (?c AND RCC_CFGR_PPRE2))\<rparr>, s')"
    using update_run [OF assms(1,2), of this] unfolding Let_def by blast
  then show ?thesis
    by (simp add: unat_div_distrib cpu_value [OF assms(3-5)] ahb_value [OF assms(6)] apb_values del: drop_bit_and)
qed

text \<open>For the last code of the multiplier, which the reference manual gives as 16 once more, the code computes 17.\<close>

lemma pll_code_15: "pll_field r = 15 \<Longrightarrow> unat (pll_code (CFGR r)) = 17"
  by (simp add: pll_value)

text \<open>Beyond a divisor of 16 the code goes on in powers of two, where the header leaves out 32.\<close>

lemma ahb_code_coarse: "CFGR r AND RCC_CFGR_HPRE = 0xC0 \<Longrightarrow> ahb_code (CFGR r) = 32 \<and> ahb_div r = 64"
  by (simp add: ahb_code_def ahb_div_def Let_def del: drop_bit_and)

section \<open>Switching the clock\<close>

text \<open>The masks that the code sets keep clear of what the hardware changes.\<close>

lemma clear_masks:
  "RCC_CR_HSION AND ready_bits = 0" "(RCC_CR_CSSON OR RCC_CR_HSEON) AND ready_bits = 0" "(RCC_CR_CSSON OR RCC_CR_PLLON) AND ready_bits = 0"
  "(RCC_CFGR_PLLXTPRE OR RCC_CFGR_PLLSRC) AND RCC_CFGR_SWS = 0" "RCC_CFGR_PLLSRC AND RCC_CFGR_SWS = 0"
  by (simp_all add: cr_masks cfgr_masks ready_bits_def)

lemma or_one_bit: "(c OR m) AND k \<noteq> 0" if "m AND k \<noteq> 0" for c m k :: "'a::len word"
  using that by (auto simp: bit_eq_iff bit_simps)

lemma change_source:
  assumes p: "prompt hw L" "attains hw L ok" "L < fuel" and m: "m AND ready_bits = 0" "m AND b \<noteq> 0"
    and v: "(v, b) \<in> {(RCC_CFGR_SW_HSI, RCC_CR_HSION), (RCC_CFGR_SW_HSE, RCC_CR_HSEON), (RCC_CFGR_SW_PLL, RCC_CR_PLLON)}"
    and t: "\<And>r. cr_ctl r AND b \<noteq> 0 \<Longrightarrow> ok r \<Longrightarrow> CR r AND rdy \<noteq> 0"
  shows "\<exists>k r. run_state (do { or_CR hw m;
      waited (await fuel (do { v \<leftarrow> read_CR hw; State_Monad.return (v AND rdy \<noteq> 0) })) (do {
        and_CFGR hw (NOT RCC_CFGR_SW); or_CFGR hw v;
        waited (await fuel (do { x \<leftarrow> read_CFGR hw; State_Monad.return (x AND RCC_CFGR_SWS = push_bit 2 v) })) n }) }) s =
    run_state n (s\<lparr>RCC := r, reads := k\<rparr>) \<and> settled r \<and> cr_ctl r = cr_ctl (RCC s) OR m \<and>
    cfgr_ctl r = cfgr_ctl (RCC s) AND NOT RCC_CFGR_SW OR v"
proof -
  let ?n = "do { and_CFGR hw (NOT RCC_CFGR_SW); or_CFGR hw v;
      waited (await fuel (do { x \<leftarrow> read_CFGR hw; State_Monad.return (x AND RCC_CFGR_SWS = push_bit 2 v) })) n }"
  have on: "(c OR m) AND b \<noteq> 0" for c using m(2) by (rule or_one_bit)
  have "\<exists>k r. run_state (do { or_CR hw m; waited (await fuel (do { v \<leftarrow> read_CR hw; State_Monad.return (v AND rdy \<noteq> 0) })) ?n }) s =
    run_state ?n (s\<lparr>RCC := r, reads := k\<rparr>) \<and> cr_ctl r = cr_ctl (RCC s) OR m \<and> cfgr_ctl r = cfgr_ctl (RCC s)"
    by (rule turn_on [OF p m(1)]) (rule t, use on in simp_all)
  then obtain k1 r1 where 1: "run_state (do { or_CR hw m; waited (await fuel (do { v \<leftarrow> read_CR hw; State_Monad.return (v AND rdy \<noteq> 0) })) ?n }) s =
    run_state ?n (s\<lparr>RCC := r1, reads := k1\<rparr>)" "cr_ctl r1 = cr_ctl (RCC s) OR m" "cfgr_ctl r1 = cfgr_ctl (RCC s)" by blast
  have "\<exists>k r. run_state ?n (s\<lparr>RCC := r1, reads := k1\<rparr>) = run_state n (s\<lparr>RCC := r1, reads := k1\<rparr>\<lparr>RCC := r, reads := k\<rparr>) \<and>
    cr_ctl r = cr_ctl (RCC (s\<lparr>RCC := r1, reads := k1\<rparr>)) \<and>
    cfgr_ctl r = cfgr_ctl (RCC (s\<lparr>RCC := r1, reads := k1\<rparr>)) AND NOT RCC_CFGR_SW OR v \<and> selected_on r \<and> switched r"
    by (rule switch_to [OF p(1,3)]) (use v on [of "cr_ctl (RCC s)"] 1(2) in \<open>auto simp: cfgr_masks\<close>)
  then show ?thesis unfolding 1(1) using 1(2,3) by (auto simp: settled_def)
qed

lemma sws_codes:
  "push_bit 2 RCC_CFGR_SW_HSI = RCC_CFGR_SWS_HSI" "push_bit 2 RCC_CFGR_SW_HSE = RCC_CFGR_SWS_HSE" "push_bit 2 RCC_CFGR_SW_PLL = RCC_CFGR_SWS_PLL"
  by (simp_all add: cfgr_masks)

lemma source_ready:
  "prompt hw L \<Longrightarrow> attains hw L hsi_ok" "cr_ctl r AND RCC_CR_HSION \<noteq> 0 \<Longrightarrow> hsi_ok r \<Longrightarrow> CR r AND RCC_CR_HSIRDY \<noteq> 0"
  "prompt hw L \<Longrightarrow> attains hw L hse_ok" "cr_ctl r AND RCC_CR_HSEON \<noteq> 0 \<Longrightarrow> hse_ok r \<Longrightarrow> CR r AND RCC_CR_HSERDY \<noteq> 0"
  "prompt hw L \<Longrightarrow> attains hw L pll_ok" "cr_ctl r AND RCC_CR_PLLON \<noteq> 0 \<Longrightarrow> pll_ok r \<Longrightarrow> CR r AND RCC_CR_PLLRDY \<noteq> 0"
  by (simp_all add: prompt_def hsi_ok_def hse_ok_def pll_ok_def ctl_fields)

lemma hsi_run:
  assumes p: "prompt hw L" "L < fuel"
  shows "\<exists>r k. run_state (RunFromHSI fuel hw) s = (Some (), s\<lparr>RCC := r, reads := k, current_source := HSI_CLOCK\<rparr>) \<and>
    settled r \<and> cfgr_ctl r = cfgr_ctl (RCC s) AND NOT RCC_CFGR_SW OR RCC_CFGR_SW_HSI \<and> cr_ctl r = cr_ctl (RCC s) OR RCC_CR_HSION"
  using change_source [OF p(1) source_ready(1) [OF p(1)] p(2) clear_masks(1), of RCC_CR_HSION RCC_CFGR_SW_HSI RCC_CR_HSIRDY
    "do { assign (\<lambda>s. s\<lparr>current_source := HSI_CLOCK\<rparr>); State_Monad.return (Some ()) }" s] source_ready(2)
  unfolding RunFromHSI_def sws_codes by (auto simp: run_simps cr_masks simp del: await.simps)

lemma hse_run:
  assumes p: "prompt hw L" "L < fuel"
  shows "\<exists>r k. run_state (RunFromHSE fuel hw f) s = (Some (), s\<lparr>hse_freq := f, RCC := r, reads := k, current_source := HSE_CLOCK\<rparr>) \<and>
    settled r \<and> cfgr_ctl r = cfgr_ctl (RCC s) AND NOT RCC_CFGR_SW OR RCC_CFGR_SW_HSE \<and> cr_ctl r = cr_ctl (RCC s) OR (RCC_CR_CSSON OR RCC_CR_HSEON)"
  using change_source [OF p(1) source_ready(3) [OF p(1)] p(2) clear_masks(2), of RCC_CR_HSEON RCC_CFGR_SW_HSE RCC_CR_HSERDY
    "do { assign (\<lambda>s. s\<lparr>current_source := HSE_CLOCK\<rparr>); State_Monad.return (Some ()) }" "s\<lparr>hse_freq := f\<rparr>"] source_ready(4)
  unfolding RunFromHSE_def sws_codes by (auto simp: run_simps cr_masks simp del: await.simps)


lemma set_freqs_run:
  assumes p: "prompt hw L" and t: "settled (RCC s)"
  shows "\<exists>r k. run_state (set_freqs hw mult) s = ((), s\<lparr>RCC := r, reads := k, cpu_freq := hse_freq s * ucast mult,
      ahb_freq := hse_freq s * ucast mult div ahb_code (CFGR (RCC s)),
      apb1_freq := hse_freq s * ucast mult div ahb_code (CFGR (RCC s)) div apb_code (drop_bit 8 (CFGR (RCC s) AND RCC_CFGR_PPRE1)),
      apb2_freq := hse_freq s * ucast mult div ahb_code (CFGR (RCC s)) div apb_code (drop_bit 11 (CFGR (RCC s) AND RCC_CFGR_PPRE2))\<rparr>) \<and>
    settled r \<and> CFGR r = CFGR (RCC s) \<and> keeps (RCC s) r"
proof -
  let ?c = "CFGR (RCC s)" and ?cpu = "hse_freq s * ucast mult"
  let ?d1 = "apb_code (drop_bit 8 (?c AND RCC_CFGR_PPRE1))" and ?d2 = "apb_code (drop_bit 11 (?c AND RCC_CFGR_PPRE2))"
  obtain s1 where 1: "run_state (get_ahb_mult hw) (s\<lparr>cpu_freq := ?cpu\<rparr>) = (ahb_code ?c, s1)" "stays (s\<lparr>cpu_freq := ?cpu\<rparr>) s1"
    using ahb_getter [OF p, of "s\<lparr>cpu_freq := ?cpu\<rparr>"] t by auto
  let ?s1 = "s1\<lparr>ahb_freq := cpu_freq s1 div ahb_code ?c\<rparr>"
  obtain s2 where 2: "run_state (get_apb1_mult hw) ?s1 = (?d1, s2)" "stays ?s1 s2"
    using apb1_getter [OF p, of ?s1] 1(2) by (auto simp: stays_def)
  let ?s2 = "s2\<lparr>apb1_freq := ahb_freq s2 div ?d1\<rparr>"
  obtain s3 where 3: "run_state (get_apb2_mult hw) ?s2 = (?d2, s3)" "stays ?s2 s3"
    using apb2_getter [OF p, of ?s2] 1(2) 2(2) by (auto simp: stays_def)
  have k: "keeps (RCC s) (RCC s3)" "settled (RCC s3)" "CFGR (RCC s3) = ?c"
    using 1(2) 2(2) 3(2) by (auto simp: stays_def intro: keeps_trans)
  have "run_state (set_freqs hw mult) s = ((), s3\<lparr>apb2_freq := ahb_freq s3 div ?d2\<rparr>)"
    using 1(1) 2(1) 3(1) by (simp add: set_freqs_def run_simps)
  also have "s3\<lparr>apb2_freq := ahb_freq s3 div ?d2\<rparr> = s\<lparr>RCC := RCC s3, reads := reads s3, cpu_freq := ?cpu, ahb_freq := ?cpu div ahb_code ?c,
      apb1_freq := ?cpu div ahb_code ?c div ?d1, apb2_freq := ?cpu div ahb_code ?c div ?d2\<rparr>"
    by (rule clk.equality) (simp_all add: stays_fields [OF 1(2)] stays_fields [OF 2(2)] stays_fields [OF 3(2)])
  finally show ?thesis using k by blast
qed

text \<open>What the selection of the input leaves in CFGR.\<close>

definition input_bits :: "ClockSource \<Rightarrow> u32 \<Rightarrow> u32" where
  "input_bits src c = (c AND (NOT RCC_CFGR_PLLXTPRE OR RCC_CFGR_PLLSRC)) OR (if src = HSE_CLOCK then RCC_CFGR_PLLSRC else 0)"

lemma pll_input_run:
  assumes p: "prompt hw L" and s: "src = HSE_CLOCK \<or> src = HSI_CLOCK"
  shows "\<exists>s'. run_state (pll_input hw src) s = (True, s') \<and> cr_ctl (RCC s') = cr_ctl (RCC s) \<and>
    cfgr_ctl (RCC s') = input_bits src (cfgr_ctl (RCC s)) \<and> (\<forall>r k. s'\<lparr>RCC := r, reads := k\<rparr> = s\<lparr>RCC := r, reads := k\<rparr>)"
proof -
  obtain s1 where 1: "steps (and_CFGR hw (NOT RCC_CFGR_PLLXTPRE OR RCC_CFGR_PLLSRC)) s (\<lambda>c. c) (\<lambda>c. c AND (NOT RCC_CFGR_PLLXTPRE OR RCC_CFGR_PLLSRC)) s1"
    using and_CFGR_steps [OF p] by blast
  obtain s2 where 2: "steps (or_CFGR hw RCC_CFGR_PLLSRC) s1 (\<lambda>c. c) (\<lambda>c. c OR RCC_CFGR_PLLSRC) s2"
    using or_CFGR_steps [OF p clear_masks(5)] by blast
  show ?thesis
  proof (cases "src = HSE_CLOCK")
    case True
    then show ?thesis using 1 2 steps_vars [OF 1] steps_vars [OF 2]
      by (intro exI [of _ s2]) (simp add: pll_input_def input_bits_def steps_def)
  next
    case False
    then show ?thesis using 1 s steps_vars [OF 1]
      by (intro exI [of _ s1]) (auto simp: pll_input_def input_bits_def steps_def)
  qed
qed


definition pll_bits :: "ClockSource \<Rightarrow> u8 \<Rightarrow> u32 \<Rightarrow> u32" where
  "pll_bits src mult c = (input_bits src c AND NOT RCC_CFGR_PLLMULL OR push_bit 18 (ucast (mult - 2))) AND NOT RCC_CFGR_SW OR RCC_CFGR_SW_PLL"

lemma factor_clear: "push_bit 18 v AND RCC_CFGR_SWS = 0"
  unfolding cfgr_fields by (rule bit_word_eqI) (auto simp: bit_simps)

lemma pll_run:
  assumes p: "prompt hw L" "L < fuel" and m: "\<not> mult < 2" "\<not> mult > 16"
    and src: "current_source s = HSE_CLOCK \<or> current_source s = HSI_CLOCK"
  shows "\<exists>s'. run_state (EnablePLL fuel hw mult) s = (Some (), s') \<and> settled (RCC s') \<and>
    cfgr_ctl (RCC s') = pll_bits (current_source s) mult (cfgr_ctl (RCC s)) \<and> current_source s' = PLL_CLOCK \<and>
    hse_freq s' = hse_freq s \<and> cpu_freq s' = hse_freq s * ucast mult \<and>
    ahb_freq s' = cpu_freq s' div ahb_code (CFGR (RCC s')) \<and>
    apb1_freq s' = ahb_freq s' div apb_code (drop_bit 8 (CFGR (RCC s') AND RCC_CFGR_PPRE1)) \<and>
    apb2_freq s' = ahb_freq s' div apb_code (drop_bit 11 (CFGR (RCC s') AND RCC_CFGR_PPRE2))"
proof -
  let ?last = "do { assign (\<lambda>s. s\<lparr>current_source := PLL_CLOCK\<rparr>); set_freqs hw mult; State_Monad.return (Some ()) }"
  obtain s1 where 1: "run_state (pll_input hw (current_source s)) s = (True, s1)" "cr_ctl (RCC s1) = cr_ctl (RCC s)"
    "cfgr_ctl (RCC s1) = input_bits (current_source s) (cfgr_ctl (RCC s))" "\<forall>r k. s1\<lparr>RCC := r, reads := k\<rparr> = s\<lparr>RCC := r, reads := k\<rparr>"
    using pll_input_run [OF p(1) src, of s] by blast
  obtain s2 where 2: "steps (and_CFGR hw (NOT RCC_CFGR_PLLMULL)) s1 (\<lambda>c. c) (\<lambda>c. c AND NOT RCC_CFGR_PLLMULL) s2"
    using and_CFGR_steps [OF p(1)] by blast
  obtain s3 where 3: "steps (or_CFGR hw (push_bit 18 (ucast (mult - 2)))) s2 (\<lambda>c. c) (\<lambda>c. c OR push_bit 18 (ucast (mult - 2))) s3"
    using or_CFGR_steps [OF p(1) factor_clear] by blast
  have v: "s3\<lparr>RCC := r, reads := k\<rparr> = s\<lparr>RCC := r, reads := k\<rparr>" for r k
    using steps_vars [OF 2] steps_vars [OF 3] 1(4) by simp
  have c3: "cfgr_ctl (RCC s3) AND NOT RCC_CFGR_SW OR RCC_CFGR_SW_PLL = pll_bits (current_source s) mult (cfgr_ctl (RCC s))"
    using 1(3) 2 3 by (simp add: steps_def pll_bits_def)
  have "\<exists>k r. run_state (do { or_CR hw (RCC_CR_CSSON OR RCC_CR_PLLON);
      waited (await fuel (do { v \<leftarrow> read_CR hw; State_Monad.return (v AND RCC_CR_PLLRDY \<noteq> 0) })) (do {
        and_CFGR hw (NOT RCC_CFGR_SW); or_CFGR hw RCC_CFGR_SW_PLL;
        waited (await fuel (do { x \<leftarrow> read_CFGR hw; State_Monad.return (x AND RCC_CFGR_SWS = push_bit 2 RCC_CFGR_SW_PLL) })) ?last }) }) s3 =
    run_state ?last (s3\<lparr>RCC := r, reads := k\<rparr>) \<and> settled r \<and> cr_ctl r = cr_ctl (RCC s3) OR (RCC_CR_CSSON OR RCC_CR_PLLON) \<and>
    cfgr_ctl r = cfgr_ctl (RCC s3) AND NOT RCC_CFGR_SW OR RCC_CFGR_SW_PLL"
    by (rule change_source [OF p(1) source_ready(5) [OF p(1)] p(2) clear_masks(3), where b = RCC_CR_PLLON])
      (use source_ready(6) in \<open>auto simp: cr_masks\<close>)
  then obtain k r where 4: "run_state (do { or_CR hw (RCC_CR_CSSON OR RCC_CR_PLLON);
      waited (await fuel (do { v \<leftarrow> read_CR hw; State_Monad.return (v AND RCC_CR_PLLRDY \<noteq> 0) })) (do {
        and_CFGR hw (NOT RCC_CFGR_SW); or_CFGR hw RCC_CFGR_SW_PLL;
        waited (await fuel (do { x \<leftarrow> read_CFGR hw; State_Monad.return (x AND RCC_CFGR_SWS = RCC_CFGR_SWS_PLL) })) ?last }) }) s3 =
    run_state ?last (s\<lparr>RCC := r, reads := k\<rparr>)" "settled r" "cfgr_ctl r = pll_bits (current_source s) mult (cfgr_ctl (RCC s))"
    unfolding c3 sws_codes v by blast
  let ?t = "s\<lparr>RCC := r, reads := k, current_source := PLL_CLOCK\<rparr>"
  have "run_state (EnablePLL fuel hw mult) s = run_state ?last (s\<lparr>RCC := r, reads := k\<rparr>)"
    using m 1(1) 2 3 4(1) by (simp add: EnablePLL_def run_simps steps_def del: await.simps)
  also have "\<dots> = run_state (do { set_freqs hw mult; State_Monad.return (Some ()) }) ?t" by (simp add: run_simps)
  finally have run: "run_state (EnablePLL fuel hw mult) s = run_state (do { set_freqs hw mult; State_Monad.return (Some ()) }) ?t" .
  have "settled (RCC ?t)" using 4(2) by simp
  from set_freqs_run [OF p(1) this, of mult] obtain r2 k2 where 5: "run_state (set_freqs hw mult) ?t =
      ((), ?t\<lparr>RCC := r2, reads := k2, cpu_freq := hse_freq ?t * ucast mult, ahb_freq := hse_freq ?t * ucast mult div ahb_code (CFGR (RCC ?t)),
      apb1_freq := hse_freq ?t * ucast mult div ahb_code (CFGR (RCC ?t)) div apb_code (drop_bit 8 (CFGR (RCC ?t) AND RCC_CFGR_PPRE1)),
      apb2_freq := hse_freq ?t * ucast mult div ahb_code (CFGR (RCC ?t)) div apb_code (drop_bit 11 (CFGR (RCC ?t) AND RCC_CFGR_PPRE2))\<rparr>)"
    "settled r2" "CFGR r2 = CFGR (RCC ?t)" "keeps (RCC ?t) r2" by blast
  then show ?thesis using run 4(3) by (simp add: keeps_def del: drop_bit_and)
qed

text \<open>The fields after that.\<close>

lemma cfgr_bits:
  "bit RCC_CFGR_SW n \<longleftrightarrow> n < 2" "bit RCC_CFGR_HPRE n \<longleftrightarrow> 4 \<le> n \<and> n < 8" "bit RCC_CFGR_PPRE1 n \<longleftrightarrow> 8 \<le> n \<and> n < 11"
  "bit RCC_CFGR_PPRE2 n \<longleftrightarrow> 11 \<le> n \<and> n < 14" "bit RCC_CFGR_PLLSRC n \<longleftrightarrow> n = 16" "bit RCC_CFGR_PLLXTPRE n \<longleftrightarrow> n = 17"
  "bit RCC_CFGR_PLLMULL n \<longleftrightarrow> 18 \<le> n \<and> n < 22" "bit RCC_CFGR_SW_PLL n \<longleftrightarrow> n = 1"
proof -
  have sw: "RCC_CFGR_SW_PLL = push_bit 1 1" by (simp add: cfgr_masks)
  show "bit RCC_CFGR_SW n \<longleftrightarrow> n < 2" "bit RCC_CFGR_HPRE n \<longleftrightarrow> 4 \<le> n \<and> n < 8" "bit RCC_CFGR_PPRE1 n \<longleftrightarrow> 8 \<le> n \<and> n < 11"
    "bit RCC_CFGR_PPRE2 n \<longleftrightarrow> 11 \<le> n \<and> n < 14" "bit RCC_CFGR_PLLSRC n \<longleftrightarrow> n = 16" "bit RCC_CFGR_PLLXTPRE n \<longleftrightarrow> n = 17"
    "bit RCC_CFGR_PLLMULL n \<longleftrightarrow> 18 \<le> n \<and> n < 22" "bit RCC_CFGR_SW_PLL n \<longleftrightarrow> n = 1"
    unfolding cfgr_fields sw by (simp_all only: bit_push_bit_iff bit_mask_iff bit_1_iff possible_bit_word) auto
qed

lemma pll_bits_fields:
  "pll_bits src mult c AND RCC_CFGR_PLLSRC = (if src = HSE_CLOCK then RCC_CFGR_PLLSRC else c AND RCC_CFGR_PLLSRC)"
  "pll_bits src mult c AND RCC_CFGR_PLLXTPRE = 0"
  "pll_bits src mult c AND RCC_CFGR_SW = RCC_CFGR_SW_PLL"
  "pll_bits src mult c AND RCC_CFGR_HPRE = c AND RCC_CFGR_HPRE"
  "pll_bits src mult c AND RCC_CFGR_PPRE1 = c AND RCC_CFGR_PPRE1"
  "pll_bits src mult c AND RCC_CFGR_PPRE2 = c AND RCC_CFGR_PPRE2"
  by (rule bit_word_eqI, auto simp: pll_bits_def input_bits_def bit_simps cfgr_bits split: if_splits)+

lemma pll_bits_factor:
  assumes "\<not> mult > 16" "\<not> mult < 2"
  shows "unat (drop_bit 18 (pll_bits src mult c AND RCC_CFGR_PLLMULL)) = unat mult - 2"
proof -
  have "unat (mult - 2) = unat mult - 2" using assms(2) by (simp add: unat_sub)
  moreover have "unat mult \<le> 16" using assms(1) by (simp add: word_less_nat_alt)
  ultimately have b: "unat (ucast (mult - 2) :: u32) = unat mult - 2" "unat mult - 2 < 2 ^ 4" by (simp_all add: byte_to_u32)
  then have s: "take_bit 4 (ucast (mult - 2) :: u32) = ucast (mult - 2)"
    by (simp add: word_unat_eq_iff unsigned_take_bit_eq take_bit_nat_eq_self)
  have "drop_bit 18 (pll_bits src mult c AND RCC_CFGR_PLLMULL) = take_bit 4 (ucast (mult - 2))"
    by (rule bit_word_eqI) (auto simp: pll_bits_def input_bits_def bit_simps cfgr_bits dest: bit_imp_le_length split: if_splits)
  then show ?thesis using b s by simp
qed


lemma settled_sws: "settled r \<Longrightarrow> cfgr_ctl r AND RCC_CFGR_SW = RCC_CFGR_SW_PLL \<Longrightarrow> CFGR r AND RCC_CFGR_SWS = RCC_CFGR_SWS_PLL"
  by (simp add: settled_def switched_def ctl_fields sws_codes)

lemma pll_state:
  assumes r: "settled r" "cfgr_ctl r = pll_bits src mult c" and m: "\<not> mult < 2" "\<not> mult > 16"
  shows "CFGR r AND RCC_CFGR_SWS = RCC_CFGR_SWS_PLL" "pll_field r = unat mult - 2" "CFGR r AND RCC_CFGR_PLLXTPRE = 0"
    "CFGR r AND RCC_CFGR_PLLSRC = (if src = HSE_CLOCK then RCC_CFGR_PLLSRC else c AND RCC_CFGR_PLLSRC)"
    "sysclk h r = Some ((if src = HSE_CLOCK \<or> c AND RCC_CFGR_PLLSRC \<noteq> 0 then h else 4000000) * unat mult)"
proof -
  show sws: "CFGR r AND RCC_CFGR_SWS = RCC_CFGR_SWS_PLL" using settled_sws [OF r(1)] r(2) pll_bits_fields(3) by simp
  show f: "pll_field r = unat mult - 2" using pll_bits_factor [OF m(2,1)] r(2) by (simp add: pll_field_def ctl_fields del: drop_bit_and)
  show x: "CFGR r AND RCC_CFGR_PLLXTPRE = 0" using r(2) by (simp add: ctl_fields pll_bits_fields)
  show p: "CFGR r AND RCC_CFGR_PLLSRC = (if src = HSE_CLOCK then RCC_CFGR_PLLSRC else c AND RCC_CFGR_PLLSRC)"
    using r(2) by (simp add: ctl_fields pll_bits_fields)
  have "2 \<le> unat mult" "unat mult \<le> 16" using m by (simp_all add: word_less_nat_alt)
  then obtain k where b: "unat mult = Suc (Suc k)" "k \<noteq> 15" by (cases "unat mult - 2 = 15") (auto intro: that [of "unat mult - 2"])
  have nz: "RCC_CFGR_PLLSRC \<noteq> 0" "RCC_CFGR_SWS_PLL \<noteq> RCC_CFGR_SWS_HSI" "RCC_CFGR_SWS_PLL \<noteq> RCC_CFGR_SWS_HSE" by (simp_all add: cfgr_masks)
  show "sysclk h r = Some ((if src = HSE_CLOCK \<or> c AND RCC_CFGR_PLLSRC \<noteq> 0 then h else 4000000) * unat mult)"
    using b nz by (auto simp: sysclk_def sws f pll_in_def p x)
qed

text \<open>
  C20: with an external crystal, on hardware that gets ready within \<open>L\<close> reads, \<open>RunFromHSE\<close> and then \<open>EnablePLL\<close> with a
  multiplier from 2 to 16 return.  Then the chip runs at the product and \<open>GetCPUFreqHz\<close> says so; an
  \<open>Update\<close> says so too unless the multiplier is 2 or 3, for which it reports the crystal's frequency.
\<close>

theorem hse_pll_session:
  assumes p: "prompt hw L" "L < fuel" and m: "\<not> mult < 2" "\<not> mult > 16" and f: "unat f * unat mult < 2 ^ 32"
  shows "\<exists>s'. run_state (do { a \<leftarrow> RunFromHSE fuel hw f; b \<leftarrow> EnablePLL fuel hw mult; State_Monad.return (a, b) }) s =
      ((Some (), Some ()), s') \<and>
    sysclk (unat f) (RCC s') = Some (unat f * unat mult) \<and> unat (GetCPUFreqHz s') = unat f * unat mult \<and>
    (\<exists>c s''. run_state (Update hw this) s' = (c, s'') \<and> unat (cpu_freq_hz c) = (if mult < 4 then unat f else unat f * unat mult))"
proof -
  obtain r1 k1 where 1: "run_state (RunFromHSE fuel hw f) s = (Some (), s\<lparr>hse_freq := f, RCC := r1, reads := k1, current_source := HSE_CLOCK\<rparr>)"
    using hse_run [OF p, of f s] by blast
  let ?s1 = "s\<lparr>hse_freq := f, RCC := r1, reads := k1, current_source := HSE_CLOCK\<rparr>"
  have "current_source ?s1 = HSE_CLOCK \<or> current_source ?s1 = HSI_CLOCK" by simp
  from pll_run [OF p m this] obtain s2 where 2: "run_state (EnablePLL fuel hw mult) ?s1 = (Some (), s2)" "settled (RCC s2)"
    "cfgr_ctl (RCC s2) = pll_bits (current_source ?s1) mult (cfgr_ctl (RCC ?s1))"
    "hse_freq s2 = hse_freq ?s1" "cpu_freq s2 = hse_freq ?s1 * ucast mult" by blast
  have c: "cfgr_ctl (RCC s2) = pll_bits HSE_CLOCK mult (cfgr_ctl r1)" "hse_freq s2 = f" "cpu_freq s2 = f * ucast mult"
    using 2(3-5) by simp_all
  note st = pll_state [OF 2(2) c(1) m]
  have b: "2 \<le> unat mult" "unat mult \<le> 16" using m by (simp_all add: word_less_nat_alt)
  have cpu: "unat (cpu_freq s2) = unat f * unat mult"
    using f c(3) mult_no_wrap [of f "ucast mult"] by (simp add: byte_to_u32)
  have small: "mult < 4 \<longleftrightarrow> unat mult < 4" by (simp add: word_less_nat_alt)
  have "unat (cpu_code (hse_freq s2) (CFGR (RCC s2))) = (if mult < 4 then unat f else unat f * unat mult)"
  proof (cases "mult < 4")
    case True
    then have "unat (pll_code (CFGR (RCC s2))) = 1" using pll_value [of "RCC s2"] st(2) small by simp
    then have "pll_code (CFGR (RCC s2)) = 1" by (simp add: word_unat_eq_iff)
    then show ?thesis using st(1,4) c(2) True by (simp add: cpu_code_def cfgr_masks)
  next
    case False
    then have "2 \<le> pll_field (RCC s2)" using small st(2) by simp
    then show ?thesis using cpu_value [of "hse_freq s2" "RCC s2" "unat f * unat mult"] st c(2) f False by simp
  qed
  moreover obtain c' s3 where "run_state (Update hw this) s2 = (c', s3)" "cpu_freq_hz c' = cpu_code (hse_freq s2) (CFGR (RCC s2))"
    using update_run [OF p(1) 2(2), of this] by (auto simp: Let_def)
  ultimately show ?thesis
    using 1 2(1) st(5) [of "unat f"] cpu by (intro exI [of _ s2]) (auto simp: GetCPUFreqHz_def)
qed

text \<open>
  From the internal oscillator the report is wrong.  After \<open>RunFromHSI\<close> and \<open>EnablePLL\<close> the chip runs at the
  multiple of 4 MHz, half of the oscillator, or, when the crystal was the input of the PLL before, still at that of the
  crystal; \<open>GetCPUFreqHz\<close> returns the multiple of the crystal's frequency in both cases.
\<close>

theorem hsi_pll_misreported:
  assumes p: "prompt hw L" "L < fuel" and m: "\<not> mult < 2" "\<not> mult > 16"
  shows "\<exists>s'. run_state (do { a \<leftarrow> RunFromHSI fuel hw; b \<leftarrow> EnablePLL fuel hw mult; State_Monad.return (a, b) }) s =
      ((Some (), Some ()), s') \<and>
    sysclk (unat (hse_freq s)) (RCC s') =
      Some ((if CFGR (RCC s) AND RCC_CFGR_PLLSRC = 0 then 4000000 else unat (hse_freq s)) * unat mult) \<and>
    GetCPUFreqHz s' = hse_freq s * ucast mult"
proof -
  obtain r1 k1 where 1: "run_state (RunFromHSI fuel hw) s = (Some (), s\<lparr>RCC := r1, reads := k1, current_source := HSI_CLOCK\<rparr>)"
    "cfgr_ctl r1 = cfgr_ctl (RCC s) AND NOT RCC_CFGR_SW OR RCC_CFGR_SW_HSI"
    using hsi_run [OF p, of s] by blast
  let ?s1 = "s\<lparr>RCC := r1, reads := k1, current_source := HSI_CLOCK\<rparr>"
  have "current_source ?s1 = HSE_CLOCK \<or> current_source ?s1 = HSI_CLOCK" by simp
  from pll_run [OF p m this] obtain s2 where 2: "run_state (EnablePLL fuel hw mult) ?s1 = (Some (), s2)" "settled (RCC s2)"
    "cfgr_ctl (RCC s2) = pll_bits (current_source ?s1) mult (cfgr_ctl (RCC ?s1))" "cpu_freq s2 = hse_freq ?s1 * ucast mult" by blast
  have c: "cfgr_ctl (RCC s2) = pll_bits HSI_CLOCK mult (cfgr_ctl r1)" "cpu_freq s2 = hse_freq s * ucast mult" using 2(3,4) by simp_all
  have "cfgr_ctl r1 AND RCC_CFGR_PLLSRC = CFGR (RCC s) AND RCC_CFGR_PLLSRC"
    unfolding 1(2) ctl_fields(5) by (rule bit_word_eqI) (auto simp: bit_simps cfgr_bits RCC_CFGR_SW_HSI_def)
  then show ?thesis
    using 1(1) 2(1) c(2) pll_state(5) [OF 2(2) c(1) m, of "unat (hse_freq s)"]
    by (intro exI [of _ s2]) (simp add: GetCPUFreqHz_def)
qed

text \<open>A change of the source alone leaves the variables as they were.\<close>

lemma source_change_unreported:
  assumes "prompt hw L" "L < fuel"
  shows "GetCPUFreqHz (snd (run_state (RunFromHSE fuel hw f) s)) = GetCPUFreqHz s"
    "GetCPUFreqHz (snd (run_state (RunFromHSI fuel hw) s)) = GetCPUFreqHz s"
  using hse_run [OF assms, of f s] hsi_run [OF assms, of s] by (auto simp: GetCPUFreqHz_def)


section \<open>A prompt chip\<close>

text \<open>A chip on which every read finds the sources that are on ready and the switch carried out.\<close>

definition settle :: rcc_hw where
  "settle n r = r\<lparr>CR := CR r OR ready_bits,
     CFGR := if selected_on r then cfgr_ctl r OR push_bit 2 (CFGR r AND RCC_CFGR_SW) else CFGR r\<rparr>"

lemma settle_keeps: "keeps r (settle n r)"
proof -
  have "(c OR m) AND NOT m = c AND NOT m" for c m :: u32 by (auto simp: bit_eq_iff bit_simps)
  moreover have "(c AND NOT RCC_CFGR_SWS OR push_bit 2 (d AND RCC_CFGR_SW)) AND NOT RCC_CFGR_SWS = c AND NOT RCC_CFGR_SWS" for c d :: u32
    unfolding cfgr_fields by (rule bit_word_eqI) (auto simp: bit_simps)
  ultimately show ?thesis by (simp add: keeps_def settle_def cr_ctl_def cfgr_ctl_def)
qed

lemma settle_switched: "selected_on r \<Longrightarrow> switched (settle n r)"
proof -
  assume s: "selected_on r"
  have "(c AND NOT RCC_CFGR_SWS OR push_bit 2 (d AND RCC_CFGR_SW)) AND RCC_CFGR_SWS = push_bit 2 (d AND RCC_CFGR_SW)" for c d :: u32
    unfolding cfgr_fields by (rule bit_word_eqI) (auto simp: bit_simps)
  moreover have "CFGR (settle n r) AND RCC_CFGR_SW = CFGR r AND RCC_CFGR_SW"
    using settle_keeps [of r n] by (simp add: keeps_def ctl_fields)
  ultimately show ?thesis using s by (simp add: switched_def settle_def cfgr_ctl_def)
qed

lemma settle_prompt: "prompt settle 1"
proof -
  have "(c OR ready_bits) AND RCC_CR_HSIRDY \<noteq> 0" "(c OR ready_bits) AND RCC_CR_HSERDY \<noteq> 0" "(c OR ready_bits) AND RCC_CR_PLLRDY \<noteq> 0" for c
    by (rule or_one_bit, simp add: ready_bits_def cr_masks)+
  then have "hsi_ok (settle n r)" "hse_ok (settle n r)" "pll_ok (settle n r)" for n r
    by (simp_all add: hsi_ok_def hse_ok_def pll_ok_def settle_def)
  moreover have "sw_ok (settle n r)" for n r
    using settle_switched keeps_selected [OF settle_keeps] by (auto simp: sw_ok_def)
  ultimately show ?thesis using settle_keeps by (simp add: prompt_def attains_def)
qed

text \<open>Registers with the internal oscillator on, selected and ready.\<close>

definition reset_rcc :: rcc where
  "reset_rcc = \<lparr>CR = 0x00000083, CFGR = 0, APB2ENR = 0, APB1ENR = 0\<rparr>"

theorem hse_pll_session_witness:
  "\<exists>s'. run_state (do { a \<leftarrow> RunFromHSE 2 settle 8000000; b \<leftarrow> EnablePLL 2 settle 9; State_Monad.return (a, b) }) (clk_start reset_rcc) =
      ((Some (), Some ()), s') \<and> sysclk 8000000 (RCC s') = Some 72000000 \<and> unat (GetCPUFreqHz s') = 72000000"
  using hse_pll_session [OF settle_prompt, of 2 9 8000000 "clk_start reset_rcc"] by auto

theorem hsi_pll_misreported_witness:
  "\<exists>s'. run_state (do { a \<leftarrow> RunFromHSI 2 settle; b \<leftarrow> EnablePLL 2 settle 9; State_Monad.return (a, b) }) (clk_start reset_rcc) =
      ((Some (), Some ()), s') \<and> sysclk 8000000 (RCC s') = Some 36000000 \<and> GetCPUFreqHz s' = 72000000"
  using hsi_pll_misreported [OF settle_prompt, of 2 9 "clk_start reset_rcc"]
  by (auto simp: clk_start_def reset_rcc_def HSE_DEFAULT_CLOCK_FREQ_def)

theorem clocks_update_correct_witness:
  "\<exists>c s'. run_state (Update settle \<lparr>cpu_freq_hz = 0, ahb_freq_hz = 0, apb1_freq_hz = 0, apb2_freq_hz = 0\<rparr>)
      (clk_start \<lparr>CR = 0x03030083, CFGR = 0x001D240A, APB2ENR = 0, APB1ENR = 0\<rparr>) = (c, s') \<and>
    unat (cpu_freq_hz c) = 72000000 \<and> unat (ahb_freq_hz c) = 72000000 \<and> unat (apb1_freq_hz c) = 36000000 \<and> unat (apb2_freq_hz c) = 36000000"
proof -
  let ?r = "\<lparr>CR = 0x03030083, CFGR = 0x001D240A, APB2ENR = 0, APB1ENR = 0\<rparr>"
  have "settled ?r" by (simp add: settled_def selected_on_def switched_def cfgr_masks cr_masks)
  moreover have f: "pll_field ?r = 7" by (simp add: pll_field_def cfgr_masks)
  moreover have "sysclk 8000000 ?r = Some 72000000" by (simp add: sysclk_def f pll_in_def cfgr_masks)
  moreover have "ahb_div ?r = 1" "apb1_div ?r = 2" "apb2_div ?r = 2"
    by (simp_all add: ahb_div_def apb1_div_def apb2_div_def apb_div_def cfgr_masks)
  moreover have "unat (drop_bit 4 (CFGR ?r AND RCC_CFGR_HPRE)) < 12" by (simp add: cfgr_masks)
  ultimately show ?thesis
    using clocks_update_correct [OF settle_prompt, of "clk_start ?r" 72000000 "\<lparr>cpu_freq_hz = 0, ahb_freq_hz = 0, apb1_freq_hz = 0, apb2_freq_hz = 0\<rparr>"]
    by (simp add: clk_start_def HSE_DEFAULT_CLOCK_FREQ_def RCC_CFGR_PLLXTPRE_def)
qed

end
