(* ===== verification/Stm32_Timing.thy ===== *)
theory Stm32_Timing
  imports Stm32_Clock
begin

text \<open>
  Delays and timers of stm32f10x_cpp (delays.cpp, timer.h, timer.cpp), for the device that
  stm32f10x_pr0/Makefile names.  The delays are a trace of accesses to the SysTick registers, with the
  control register's answers as a parameter; a timer is its registers, and its counter moves on between two
  reads by a number of steps that is a parameter.  All integers have 32 bits, the timer's registers 16.
\<close>

section \<open>Delays\<close>

datatype systick = LOAD u32 | VAL u32 | CTRL u32 | CTRL_read

definition SysTick_CTRL_COUNTFLAG_Msk :: u32 where "SysTick_CTRL_COUNTFLAG_Msk = push_bit 16 1"
definition SysTick_CTRL_CLKSOURCE_Msk :: u32 where "SysTick_CTRL_CLKSOURCE_Msk = push_bit 2 1"
definition SysTick_CTRL_ENABLE_Msk :: u32 where "SysTick_CTRL_ENABLE_Msk = push_bit 0 1"

definition Delays_Init :: "(systick io, unit) state" where
  "Delays_Init = do { call (LOAD 0xFFFFFF); call (CTRL (SysTick_CTRL_CLKSOURCE_Msk OR SysTick_CTRL_ENABLE_Msk)) }"

definition delay_ticks :: "nat \<Rightarrow> (nat \<Rightarrow> u32) \<Rightarrow> u32 \<Rightarrow> (systick io, unit option) state" where
  "delay_ticks fuel ctrl ticks = do {
     call (LOAD ticks);
     call (VAL 0);
     waited (await fuel (do { v \<leftarrow> ask ctrl CTRL_read; State_Monad.return (v AND SysTick_CTRL_COUNTFLAG_Msk \<noteq> 0) }))
       (State_Monad.return (Some ()))
   }"

text \<open>\<open>freq\<close> is what \<open>GetCPUFreqHz\<close> returns.\<close>

definition DelayUs :: "nat \<Rightarrow> (nat \<Rightarrow> u32) \<Rightarrow> u32 \<Rightarrow> u32 \<Rightarrow> (systick io, unit option) state" where
  "DelayUs fuel ctrl freq us = (let ticks = us * freq div 1000000 in delay_ticks fuel ctrl ticks)"

text \<open>The number of ticks that \<open>DelayMs\<close> computes is not used.\<close>

fun DelayMs_loop :: "nat \<Rightarrow> (nat \<Rightarrow> u32) \<Rightarrow> u32 \<Rightarrow> nat \<Rightarrow> (systick io, unit option) state" where
  "DelayMs_loop fuel ctrl freq 0 = State_Monad.return (Some ())"
| "DelayMs_loop fuel ctrl freq (Suc n) = do {
     r \<leftarrow> DelayUs fuel ctrl freq 1000;
     if r = None then State_Monad.return None else DelayMs_loop fuel ctrl freq n
   }"

definition DelayMs :: "nat \<Rightarrow> (nat \<Rightarrow> u32) \<Rightarrow> u32 \<Rightarrow> u32 \<Rightarrow> (systick io, unit option) state" where
  "DelayMs fuel ctrl freq ms = DelayMs_loop fuel ctrl freq (unat ms)"

text \<open>The flag comes up within \<open>fuel\<close> reads, from wherever one begins.\<close>

definition fires :: "nat \<Rightarrow> (nat \<Rightarrow> u32) \<Rightarrow> bool" where
  "fires fuel ctrl \<longleftrightarrow> (\<forall>n. \<exists>k < fuel. ctrl (n + k) AND SysTick_CTRL_COUNTFLAG_Msk \<noteq> 0)"

lemma await_asked:
  assumes "\<exists>k < fuel. P (ctrl (asked s + k))"
  shows "\<exists>k. run_state (await fuel (do { v \<leftarrow> ask ctrl e; State_Monad.return (P v) })) s =
    (True, s\<lparr>trace := trace s @ replicate k e, asked := asked s + k\<rparr>)"
  using assms
proof (induction fuel arbitrary: s)
  case (Suc fuel)
  show ?case
  proof (cases "P (ctrl (asked s))")
    case True
    then show ?thesis by (intro exI [of _ 1]) (simp add: run_simps)
  next
    case False
    then obtain k where k: "k < Suc fuel" "P (ctrl (asked s + k))" "k \<noteq> 0" using Suc.prems by (metis add_0_right)
    then have "\<exists>j < fuel. P (ctrl (asked (s\<lparr>trace := trace s @ [e], asked := Suc (asked s)\<rparr>) + j))"
      by (intro exI [of _ "k - 1"]) auto
    from Suc.IH [OF this] obtain j where "run_state (await fuel (do { v \<leftarrow> ask ctrl e; State_Monad.return (P v) }))
        (s\<lparr>trace := trace s @ [e], asked := Suc (asked s)\<rparr>) =
      (True, s\<lparr>trace := trace s @ e # replicate j e, asked := Suc (asked s) + j\<rparr>)" by auto
    then show ?thesis using False by (intro exI [of _ "Suc j"]) (simp add: run_simps)
  qed
qed simp

text \<open>The reload values that a trace asks for.\<close>

fun loads :: "systick list \<Rightarrow> u32 list" where
  "loads [] = []"
| "loads (LOAD t # es) = t # loads es"
| "loads (_ # es) = loads es"

lemma loads_append [simp]: "loads (xs @ ys) = loads xs @ loads ys"
  by (induction xs rule: loads.induct) simp_all

lemma loads_reads [simp]: "loads (replicate k CTRL_read) = []"
  by (induction k) simp_all

lemma delay_ticks_run:
  assumes "fires fuel ctrl"
  shows "\<exists>s'. run_state (delay_ticks fuel ctrl t) s = (Some (), s') \<and> loads (trace s') = loads (trace s) @ [t]"
proof -
  let ?s = "s\<lparr>trace := trace s @ [LOAD t, VAL 0]\<rparr>"
  have "\<exists>k < fuel. ctrl (asked ?s + k) AND SysTick_CTRL_COUNTFLAG_Msk \<noteq> 0" using assms by (simp add: fires_def)
  from await_asked [where P = "\<lambda>v. v AND SysTick_CTRL_COUNTFLAG_Msk \<noteq> 0", OF this, of CTRL_read]
  show ?thesis by (auto simp: delay_ticks_def waited_def run_simps)
qed

lemma delay_us_run:
  "fires fuel ctrl \<Longrightarrow> \<exists>s'. run_state (DelayUs fuel ctrl freq us) s = (Some (), s') \<and> loads (trace s') = loads (trace s) @ [us * freq div 1000000]"
  using delay_ticks_run [of fuel ctrl] by (simp add: DelayUs_def)

lemma delay_ms_run:
  assumes "fires fuel ctrl"
  shows "\<exists>s'. run_state (DelayMs_loop fuel ctrl freq n) s = (Some (), s') \<and>
    loads (trace s') = loads (trace s) @ replicate n (1000 * freq div 1000000)"
proof (induction n arbitrary: s)
  case (Suc n)
  obtain s1 where 1: "run_state (DelayUs fuel ctrl freq 1000) s = (Some (), s1)" "loads (trace s1) = loads (trace s) @ [1000 * freq div 1000000]"
    using delay_us_run [OF assms] by blast
  show ?case using Suc [of s1] 1 by auto
qed simp

text \<open>
  When the flag keeps coming up, \<open>DelayUs\<close> and \<open>DelayMs\<close> return.  \<open>DelayUs\<close> loads the microseconds times the
  frequency in MHz, rounded down, as long as the product in Hz fits in 32 bits, and a wrong value otherwise; so \<open>DelayMs\<close>, which
  asks for 1000 microseconds at a time, loads the right value up to 4.29 MHz only.  At the 8 MHz of the internal
  oscillator every millisecond is 3705 ticks instead of 8000.
\<close>

theorem delays_load:
  assumes "fires fuel ctrl"
  shows "(\<exists>s'. run_state (DelayUs fuel ctrl freq us) s = (Some (), s') \<and>
      map unat (loads (trace s')) = map unat (loads (trace s)) @ [unat us * unat freq mod 2 ^ 32 div 1000000]) \<and>
    (\<exists>s'. run_state (DelayMs fuel ctrl freq ms) s = (Some (), s') \<and>
      map unat (loads (trace s')) = map unat (loads (trace s)) @ replicate (unat ms) (1000 * unat freq mod 2 ^ 32 div 1000000)) \<and>
    (\<exists>s'. run_state (DelayMs fuel ctrl (GetCPUFreqHz (clk_start r)) ms) s = (Some (), s') \<and>
      loads (trace s') = loads (trace s) @ replicate (unat ms) 3705)"
proof (intro conjI)
  have u: "unat (us * freq div 1000000) = unat us * unat freq mod 2 ^ 32 div 1000000" for us
    by (simp add: unat_div_distrib unat_word_ariths(2))
  show "\<exists>s'. run_state (DelayUs fuel ctrl freq us) s = (Some (), s') \<and>
      map unat (loads (trace s')) = map unat (loads (trace s)) @ [unat us * unat freq mod 2 ^ 32 div 1000000]"
    using delay_us_run [OF assms, of freq us s] u by auto
  show "\<exists>s'. run_state (DelayMs fuel ctrl freq ms) s = (Some (), s') \<and>
      map unat (loads (trace s')) = map unat (loads (trace s)) @ replicate (unat ms) (1000 * unat freq mod 2 ^ 32 div 1000000)"
    using delay_ms_run [OF assms, of freq "unat ms" s] u [of 1000] by (auto simp: DelayMs_def)
  show "\<exists>s'. run_state (DelayMs fuel ctrl (GetCPUFreqHz (clk_start r)) ms) s = (Some (), s') \<and>
      loads (trace s') = loads (trace s) @ replicate (unat ms) 3705"
    using delay_ms_run [OF assms, of 8000000 "unat ms" s] by (simp add: DelayMs_def GetCPUFreqHz_def clk_start_def HSI_CLOCK_FREQ_def)
qed

theorem delays_load_witness:
  "\<exists>s'. run_state (DelayUs 1 (\<lambda>_. 0x10000) 72000000 50) io_start = (Some (), s') \<and> map unat (loads (trace s')) = [3600]"
  using delays_load [of 1 "\<lambda>_. 0x10000" 72000000 50 io_start] by (simp add: fires_def SysTick_CTRL_COUNTFLAG_Msk_def)

section \<open>Timers\<close>

datatype clock_reg = APB1 | APB2

text \<open>The timers that the device has, with their clock registers and bits; any other number fails the assertion.  The
  number of the interrupt, which no function uses, is left out.\<close>

record Timer_Device =
  tim :: u8
  clock_enable_reg :: clock_reg
  clock_enable_bit :: u32

definition Timer_new :: "u8 \<Rightarrow> Timer_Device option" where
  "Timer_new n =
     (if n = 1 then Some \<lparr>tim = n, clock_enable_reg = APB2, clock_enable_bit = 0x00000800\<rparr>
      else if n = 2 then Some \<lparr>tim = n, clock_enable_reg = APB1, clock_enable_bit = 0x00000001\<rparr>
      else if n = 3 then Some \<lparr>tim = n, clock_enable_reg = APB1, clock_enable_bit = 0x00000002\<rparr>
      else if n = 4 then Some \<lparr>tim = n, clock_enable_reg = APB1, clock_enable_bit = 0x00000004\<rparr>
      else if n = 15 then Some \<lparr>tim = n, clock_enable_reg = APB2, clock_enable_bit = 0x00010000\<rparr>
      else if n = 16 then Some \<lparr>tim = n, clock_enable_reg = APB2, clock_enable_bit = 0x00020000\<rparr>
      else if n = 17 then Some \<lparr>tim = n, clock_enable_reg = APB2, clock_enable_bit = 0x00040000\<rparr>
      else None)"

text \<open>The registers of the timer, the clock tree, and the number of reads of the counter.\<close>

record timer =
  CR1 :: u16
  EGR :: u16
  CNT :: u16
  PSC :: u16
  ARR :: u16
  clk :: clk
  polls :: nat

definition TIM_EGR_UG :: u16 where "TIM_EGR_UG = 0x01"
definition TIM_CR1_CEN :: u16 where "TIM_CR1_CEN = 0x0001"
definition UINT16_MAX :: u32 where "UINT16_MAX = 65535"

definition enable_clock :: "Timer_Device \<Rightarrow> clk \<Rightarrow> clk" where
  "enable_clock d c = (case clock_enable_reg d of
     APB1 \<Rightarrow> c\<lparr>RCC := (RCC c)\<lparr>APB1ENR := APB1ENR (RCC c) OR clock_enable_bit d\<rparr>\<rparr>
   | APB2 \<Rightarrow> c\<lparr>RCC := (RCC c)\<lparr>APB2ENR := APB2ENR (RCC c) OR clock_enable_bit d\<rparr>\<rparr>)"

definition Timer_Init :: "Timer_Device \<Rightarrow> u32 \<Rightarrow> timer \<Rightarrow> timer" where
  "Timer_Init d period t =
     t\<lparr>clk := enable_clock d (clk t), ARR := ucast (if period \<noteq> 0 then period else UINT16_MAX), EGR := TIM_EGR_UG\<rparr>"

text \<open>\<open>Clocks()\<close> copies the variables; a frequency of zero divides by zero.\<close>

definition InitAt :: "Timer_Device \<Rightarrow> u32 \<Rightarrow> timer \<Rightarrow> timer option" where
  "InitAt d freq_hz t = (let t = Timer_Init d 0 t; c = fst (run_state Clocks_new (clk t)) in
     if freq_hz = 0 then None
     else Some (case clock_enable_reg d of
         APB1 \<Rightarrow> t\<lparr>PSC := ucast (apb1_freq_hz c div freq_hz - 1), EGR := TIM_EGR_UG\<rparr>
       | APB2 \<Rightarrow> t\<lparr>PSC := ucast (apb2_freq_hz c div freq_hz - 1), EGR := TIM_EGR_UG\<rparr>))"

definition Timer_Enable :: "timer \<Rightarrow> timer" where
  "Timer_Enable t = t\<lparr>CR1 := CR1 t OR TIM_CR1_CEN\<rparr>"

definition Timer_Disable :: "timer \<Rightarrow> timer" where
  "Timer_Disable t = t\<lparr>CR1 := CR1 t AND NOT TIM_CR1_CEN\<rparr>"

definition Timer_Reset :: "timer \<Rightarrow> timer" where
  "Timer_Reset t = t\<lparr>CNT := 0\<rparr>"

text \<open>A read of the counter, which has moved on by \<open>d\<close> of the number of the read, if it is enabled; after ARR comes 0.\<close>

definition read_CNT :: "(nat \<Rightarrow> nat) \<Rightarrow> (timer, u16) state" where
  "read_CNT d = State (\<lambda>t.
     let c = (if CR1 t AND TIM_CR1_CEN = 0 then CNT t else of_nat ((unat (CNT t) + d (polls t)) mod (unat (ARR t) + 1)))
     in (c, t\<lparr>CNT := c, polls := Suc (polls t)\<rparr>))"

definition Wait :: "nat \<Rightarrow> (nat \<Rightarrow> nat) \<Rightarrow> u32 \<Rightarrow> (timer, unit option) state" where
  "Wait fuel d timer_ticks = do {
     State (\<lambda>t. ((), t\<lparr>CNT := 0\<rparr>));
     waited (await fuel (do { c \<leftarrow> read_CNT d; State_Monad.return (\<not> unat c < unat timer_ticks) })) (State_Monad.return (Some ()))
   }"

text \<open>The prescaler that \<open>InitAt\<close> sets.\<close>

definition timer_clock :: "Timer_Device \<Rightarrow> timer \<Rightarrow> u32" where
  "timer_clock d t = (case clock_enable_reg d of APB1 \<Rightarrow> apb1_freq (clk t) | APB2 \<Rightarrow> apb2_freq (clk t))"

lemma enable_clock_freqs [simp]: "apb1_freq (enable_clock d c) = apb1_freq c" "apb2_freq (enable_clock d c) = apb2_freq c"
  by (simp_all add: enable_clock_def split: clock_reg.splits)

lemma prescaler: "unat (ucast (q - 1 :: u32) :: u16) + 1 = (if unat q mod 65536 = 0 then 65536 else unat q mod 65536)"
proof -
  have e: "unat (ucast (q - 1) :: u16) = unat (q - 1) mod 65536"
    by (simp add: unsigned_ucast_eq take_bit_eq_mod)
  show ?thesis
  proof (cases "q = 0")
    case True
    moreover have "unat (- 1 :: u32) = 4294967295" by (simp add: unsigned_minus_1_eq_mask mask_eq_exp_minus_1)
    ultimately show ?thesis using e by simp
  next
    case False
    then obtain n where n: "unat q = Suc n" by (metis not0_implies_Suc unsigned_0 unsigned_word_eqI)
    have "unat (q - 1) = n" using False n by (simp add: unat_minus_one)
    then show ?thesis using e n by (simp add: mod_Suc)
  qed
qed

text \<open>
  \<open>InitAt\<close> divides the clock that the variables record for the timer's bus by the quotient of that clock and the
  frequency asked for, if the quotient is between 1 and 65536; the counter then runs at least as fast as asked.  Otherwise
  the quotient is cut to sixteen bits, and zero becomes the slowest prescaler: a frequency above the clock gives the
  clock divided by 65536.
\<close>

theorem timer_init_at:
  assumes "freq_hz \<noteq> 0"
  shows "\<exists>t'. InitAt d freq_hz t = Some t' \<and> ARR t' = 0xFFFF \<and> EGR t' = TIM_EGR_UG \<and>
    unat (PSC t') + 1 = (let q = unat (timer_clock d t) div unat freq_hz in if q mod 65536 = 0 then 65536 else q mod 65536)"
  using assms prescaler [of "apb1_freq (clk t) div freq_hz"] prescaler [of "apb2_freq (clk t) div freq_hz"]
  by (auto simp: InitAt_def Let_def Timer_Init_def UINT16_MAX_def Clocks_new_def run_simps timer_clock_def unat_div_distrib
      split: clock_reg.splits)


theorem timer_init_at_witness:
  "\<exists>t'. InitAt \<lparr>tim = 2, clock_enable_reg = APB1, clock_enable_bit = 1\<rparr> 1000000
      \<lparr>CR1 = 0, EGR = 0, CNT = 0, PSC = 0, ARR = 0, clk = clk_start reset_rcc, polls = 0\<rparr> = Some t' \<and>
    ARR t' = 0xFFFF \<and> unat (PSC t') + 1 = 8"
  using timer_init_at [of 1000000 "\<lparr>tim = 2, clock_enable_reg = APB1, clock_enable_bit = 1\<rparr>"
    "\<lparr>CR1 = 0, EGR = 0, CNT = 0, PSC = 0, ARR = 0, clk = clk_start reset_rcc, polls = 0\<rparr>"]
  by (auto simp: timer_clock_def clk_start_def HSI_CLOCK_FREQ_def Let_def)

lemma small_of_nat: "m \<le> unat x \<Longrightarrow> unat (of_nat m :: u16) = m" for x :: u16
proof -
  assume "m \<le> unat x"
  also have "unat x < 2 ^ LENGTH(16)" by (rule unsigned_less)
  finally show ?thesis by (simp add: unat_of_nat)
qed

lemma wait_counts:
  assumes "CR1 t AND TIM_CR1_CEN \<noteq> 0" "\<forall>n. 0 < d n \<and> d n + ticks \<le> unat (ARR t) + 1" "unat (CNT t) < ticks \<or> ticks = 0" "ticks < unat (CNT t) + fuel" "0 < fuel"
  shows "fst (run_state (await fuel (do { c \<leftarrow> read_CNT d; State_Monad.return (\<not> unat c < ticks) })) t)"
  using assms
proof (induction fuel arbitrary: t)
  case (Suc fuel)
  let ?c = "of_nat ((unat (CNT t) + d (polls t)) mod (unat (ARR t) + 1)) :: u16"
  show ?case
  proof (cases "unat ?c < ticks")
    case True
    have d: "0 < d (polls t)" "d (polls t) + ticks \<le> unat (ARR t) + 1" using Suc.prems(2) by simp_all
    have "unat (CNT t) < ticks" using Suc.prems(3) True by auto
    then have "unat (CNT t) + d (polls t) < unat (ARR t) + 1" using d by linarith
    then have v: "unat ?c = unat (CNT t) + d (polls t)" using small_of_nat [of "unat (CNT t) + d (polls t)" "ARR t"] by simp
    have f: "ticks < unat ?c + fuel" using v d(1) Suc.prems(4) by linarith
    let ?t = "t\<lparr>CNT := ?c, polls := Suc (polls t)\<rparr>"
    have "fst (run_state (await fuel (do { c \<leftarrow> read_CNT d; State_Monad.return (\<not> unat c < ticks) })) ?t)"
      by (rule Suc.IH) (use Suc.prems(1,2) True f in simp_all)
    then show ?thesis using True Suc.prems(1) by (simp add: read_CNT_def Let_def)
  qed (use Suc.prems(1) in \<open>simp add: read_CNT_def Let_def\<close>)
qed simp


lemma wait_never:
  assumes "CR1 t AND TIM_CR1_CEN = 0 \<and> unat (CNT t) < ticks \<or> CR1 t AND TIM_CR1_CEN \<noteq> 0 \<and> unat (ARR t) < ticks"
  shows "\<not> fst (run_state (await fuel (do { c \<leftarrow> read_CNT d; State_Monad.return (\<not> unat c < ticks) })) t)"
  using assms
proof (induction fuel arbitrary: t)
  case (Suc fuel)
  let ?c = "if CR1 t AND TIM_CR1_CEN = 0 then CNT t else of_nat ((unat (CNT t) + d (polls t)) mod (unat (ARR t) + 1))"
  have "(unat (CNT t) + d (polls t)) mod (unat (ARR t) + 1) \<le> unat (ARR t)"
    using mod_less_divisor [of "unat (ARR t) + 1" "unat (CNT t) + d (polls t)"] by linarith
  then have "unat (of_nat ((unat (CNT t) + d (polls t)) mod (unat (ARR t) + 1)) :: u16) \<le> unat (ARR t)"
    using small_of_nat [of "(unat (CNT t) + d (polls t)) mod (unat (ARR t) + 1)" "ARR t"] by simp
  then have "unat ?c < ticks" using Suc.prems by auto
  moreover have "\<not> fst (run_state (await fuel (do { c \<leftarrow> read_CNT d; State_Monad.return (\<not> unat c < ticks) })) (t\<lparr>CNT := ?c, polls := Suc (polls t)\<rparr>))"
    by (rule Suc.IH) (use Suc.prems in auto)
  ultimately show ?case by (simp add: read_CNT_def Let_def)
qed simp

lemma wait_run: "fst (run_state (Wait fuel d ticks) t) =
    (if fst (run_state (await fuel (do { c \<leftarrow> read_CNT d; State_Monad.return (\<not> unat c < unat ticks) })) (t\<lparr>CNT := 0\<rparr>)) then Some () else None)"
  by (simp add: Wait_def waited_def Product_Type.split_beta)

text \<open>
  A timer that counts up to ARR, by at least one step between two reads and never so many that the end of
  its range is passed unseen, lets \<open>Wait\<close> return, after at most one read more than there are ticks, exactly when the
  ticks asked for do not exceed ARR; for more, the loop never ends.
\<close>

theorem timer_wait_returns:
  assumes "CR1 t AND TIM_CR1_CEN \<noteq> 0" "unat ticks < fuel"
    and "unat ticks \<le> unat (ARR t) \<longrightarrow> (\<forall>n. 0 < d n \<and> d n + unat ticks \<le> unat (ARR t) + 1)"
  shows "fst (run_state (Wait fuel d ticks) t) = Some () \<longleftrightarrow> unat ticks \<le> unat (ARR t)"
  using wait_counts [of "t\<lparr>CNT := 0\<rparr>" d "unat ticks" fuel] wait_never [of "t\<lparr>CNT := 0\<rparr>" "unat ticks" fuel d] assms
  by (auto simp: wait_run)

theorem timer_wait_returns_witness:
  "fst (run_state (Wait 11 (\<lambda>_. 2) 10) \<lparr>CR1 = 1, EGR = 0, CNT = 7, PSC = 0, ARR = 0xFFFF, clk = clk_start reset_rcc, polls = 0\<rparr>) = Some ()"
  using timer_wait_returns [of "\<lparr>CR1 = 1, EGR = 0, CNT = 7, PSC = 0, ARR = 0xFFFF, clk = clk_start reset_rcc, polls = 0\<rparr>" 10 11 "\<lambda>_. 2"]
  by (simp add: TIM_CR1_CEN_def)

text \<open>A stopped timer lets no one wait for a tick.\<close>

lemma stopped_timer_hangs: "0 < ticks \<Longrightarrow> fst (run_state (Wait fuel d ticks) (Timer_Disable t)) = None"
  using wait_never [of "Timer_Disable t\<lparr>CNT := 0\<rparr>" "unat ticks" fuel d]
  by (auto simp: wait_run Timer_Disable_def word_less_nat_alt and.assoc)

end
