(* ===== verification/Stm32_Uart.thy ===== *)
theory Stm32_Uart
  imports Stm32_Timing
begin

text \<open>
  The serial port of stm32f10x_cpp (uart.h, uart.cpp) as a trace of accesses to its registers.  What the status
  register answers and what the data register delivers are parameters.
\<close>

section \<open>The port\<close>

datatype uart = Brr u16 | Cr1 u16 | Cr2 u16 | Sr_read | Dr_write u16 | Dr_read u16

text \<open>What the port answers at its \<open>i\<close>-th access that returns something.\<close>

record uart_hw =
  sr :: "nat \<Rightarrow> u16"
  dr :: "nat \<Rightarrow> u16"

definition USART_SR_RXNE :: u16 where "USART_SR_RXNE = 0x0020"
definition USART_SR_TXE :: u16 where "USART_SR_TXE = 0x0080"
definition USART_CR1_RE :: u16 where "USART_CR1_RE = 0x0004"
definition USART_CR1_TE :: u16 where "USART_CR1_TE = 0x0008"
definition USART_CR1_UE :: u16 where "USART_CR1_UE = 0x2000"
definition USART_CR1_OVER8 :: u16 where "USART_CR1_OVER8 = 0x8000"

text \<open>The divisor; a baud rate of zero divides by zero.\<close>

definition UART_BRR_SAMPLING8 :: "u32 \<Rightarrow> u32 \<Rightarrow> u16 option" where
  "UART_BRR_SAMPLING8 pclk baud =
     (if baud = 0 then None
      else let d = ucast ((pclk + baud div 2) div baud) :: u16
        in Some (push_bit 1 (d AND NOT 7) OR (d AND 7)))"

definition Get_UART_Instance :: "u8 \<Rightarrow> nat option" where
  "Get_UART_Instance port_number =
     (if port_number > 0 \<and> port_number \<le> 3 then Some ([1, 2, 3] ! (unat port_number - 1)) else None)"

record UART_Device =
  brr_value :: u32
  uart_instance :: "nat option"

definition UART_Device_new :: "u8 \<Rightarrow> u32 \<Rightarrow> u32 \<Rightarrow> UART_Device option" where
  "UART_Device_new port_number baudrate peripheral_clock =
     map_option (\<lambda>b. \<lparr>brr_value = ucast b, uart_instance = Get_UART_Instance port_number\<rparr>)
       (UART_BRR_SAMPLING8 peripheral_clock baudrate)"

text \<open>The null pointer of a port that does not exist cannot be read or written.\<close>

definition UART_Init :: "UART_Device \<Rightarrow> (uart io, unit option) state" where
  "UART_Init d = (if uart_instance d = None then State_Monad.return None
     else do {
       call (Brr (ucast (brr_value d)));
       call (Cr1 (USART_CR1_UE OR USART_CR1_TE));
       call (Cr2 0);
       State_Monad.return (Some ())
     })"

definition read_dr :: "uart_hw \<Rightarrow> (uart io, u16) state" where
  "read_dr hw = State (\<lambda>s. (dr hw (asked s), s\<lparr>trace := trace s @ [Dr_read (dr hw (asked s))], asked := Suc (asked s)\<rparr>))"

text \<open>Waiting for a bit of the status register, with fuel.\<close>

definition until :: "nat \<Rightarrow> uart_hw \<Rightarrow> u16 \<Rightarrow> (uart io, bool) state" where
  "until fuel hw m = await fuel (do { v \<leftarrow> ask (sr hw) Sr_read; State_Monad.return (v AND m \<noteq> 0) })"

text \<open>The bytes to send, or none for a null pointer; the bytes received, which the caller stores if \<open>rx_data\<close> is not null.\<close>

fun exchange :: "nat \<Rightarrow> uart_hw \<Rightarrow> u8 list \<Rightarrow> (uart io, u8 list option) state" where
  "exchange fuel hw [] = State_Monad.return (Some [])"
| "exchange fuel hw (b # bs) = waited (until fuel hw USART_SR_TXE) (do {
     call (Dr_write (ucast b));
     waited (until fuel hw USART_SR_RXNE) (do {
       v \<leftarrow> read_dr hw;
       rest \<leftarrow> exchange fuel hw bs;
       State_Monad.return (map_option (\<lambda>r. ucast (v AND 0xFF) # r) rest)
     })
   })"

definition SendReceive :: "nat \<Rightarrow> uart_hw \<Rightarrow> UART_Device \<Rightarrow> u8 list option \<Rightarrow> bool \<Rightarrow> nat \<Rightarrow>
    (uart io, (int \<times> u8 list option) option) state" where
  "SendReceive fuel hw d tx_data rx_data n =
     (if uart_instance d = None \<and> 0 < n then State_Monad.return None
      else case tx_data of
        Some tx \<Rightarrow> if length tx < n then State_Monad.return None
          else do { r \<leftarrow> exchange fuel hw (take n tx); State_Monad.return (map_option (\<lambda>r. (0, if rx_data then Some r else None)) r) }
      | None \<Rightarrow> do { r \<leftarrow> exchange fuel hw (replicate n 0xFF);
          State_Monad.return (map_option (\<lambda>r. (0, if rx_data then Some r else None)) r) })"

section \<open>The divisor\<close>

text \<open>The divisor that a port with eight samples per bit makes of the register: the upper twelve bits count
  eighths in units of eight, the lower three single ones.\<close>

definition eighths :: "u16 \<Rightarrow> nat" where
  "eighths brr = 8 * unat (drop_bit 4 brr) + unat (brr AND 7)"

lemma encoded_divisor:
  assumes "unat d < 2 ^ 15"
  shows "eighths (push_bit 1 (d AND NOT 7) OR (d AND 7)) = unat d"
proof -
  let ?b = "push_bit 1 (d AND NOT 7) OR (d AND 7)"
  have m: "(7 :: u16) = mask 3" by (simp add: mask_numeral)
  have "take_bit 15 d = d" using assms by (simp add: word_unat_eq_iff unsigned_take_bit_eq take_bit_nat_eq_self)
  then have top: "n < 15" if "bit d n" for n using that by (metis bit_take_bit_iff)
  have hi: "drop_bit 4 ?b = drop_bit 3 d"
    unfolding m
    by (intro bit_word_eqI) (simp only: bit_drop_bit_eq o_def bit_or_iff bit_push_bit_iff bit_and_iff bit_not_iff bit_mask_iff possible_bit_word,
      auto dest: top simp: less_diff_conv)
  have lo: "?b AND 7 = d AND 7"
    unfolding m
    by (intro bit_word_eqI) (simp only: bit_or_iff bit_push_bit_iff bit_and_iff bit_not_iff bit_mask_iff possible_bit_word, auto)
  have "unat (d AND 7) = unat d mod 8" unfolding m take_bit_eq_mask [symmetric] unsigned_take_bit_eq by (simp add: take_bit_eq_mod)
  moreover have "unat (drop_bit 3 d) = unat d div 8" by (simp add: drop_bit_eq_div unat_div_distrib)
  ultimately show ?thesis unfolding eighths_def hi lo by simp
qed


lemma nearest_quotient: "0 < b \<Longrightarrow> \<bar>int ((p + b div 2) div b * b) - int p\<bar> \<le> int (b div 2)" for p b :: nat
proof -
  assume b: "0 < b"
  have e: "(p + b div 2) div b * b + (p + b div 2) mod b = p + b div 2" by simp
  have m: "(p + b div 2) mod b \<le> b - 1" using b using mod_less_divisor [OF b, of "p + b div 2"] by linarith
  have "b - 1 - b div 2 \<le> b div 2" by linarith
  then show ?thesis using e m by linarith
qed

text \<open>
  For a clock and a baud rate whose quotient is below 32768, the register value stands, with eight samples per bit, for
  the divisor nearest to the quotient: the clock the divisor gives differs from the one asked for by at most half the baud
  rate.
\<close>

theorem uart_baud_nearest:
  assumes "baud \<noteq> 0" "unat pclk + unat baud div 2 < 2 ^ 32" "(unat pclk + unat baud div 2) div unat baud < 2 ^ 15"
  shows "\<exists>brr. UART_BRR_SAMPLING8 pclk baud = Some brr \<and>
    \<bar>int (eighths brr * unat baud) - int (unat pclk)\<bar> \<le> int (unat baud div 2)"
proof -
  let ?q = "(unat pclk + unat baud div 2) div unat baud"
  let ?d = "ucast ((pclk + baud div 2) div baud) :: u16"
  have "unat ((pclk + baud div 2) div baud) = ?q"
    using assms(2) by (simp add: unat_div_distrib unat_word_ariths(1))
  then have d: "unat ?d = ?q" using assms(3) by (simp add: unsigned_ucast_eq take_bit_nat_eq_self)
  then have "eighths (push_bit 1 (?d AND NOT 7) OR (?d AND 7)) = ?q"
    using encoded_divisor [of ?d] assms(3) by simp
  moreover have "0 < unat baud" using assms(1) by (simp add: unat_gt_0)
  ultimately show ?thesis using assms(1) nearest_quotient [of "unat baud" "unat pclk"]
    by (simp add: UART_BRR_SAMPLING8_def Let_def del: push_bit_of_1)
qed

text \<open>\<open>Init\<close> selects neither eight samples per bit, which the divisor is for, nor the receiver, which \<open>SendReceive\<close> waits for.\<close>

lemma init_control: "(USART_CR1_UE OR USART_CR1_TE) AND USART_CR1_OVER8 = 0" "(USART_CR1_UE OR USART_CR1_TE) AND USART_CR1_RE = 0"
  by (simp_all add: USART_CR1_UE_def USART_CR1_TE_def USART_CR1_OVER8_def USART_CR1_RE_def)


theorem uart_baud_nearest_witness:
  "\<exists>brr. UART_BRR_SAMPLING8 8000000 115200 = Some brr \<and> \<bar>int (eighths brr * 115200) - 8000000\<bar> \<le> 57600"
  using uart_baud_nearest [of 115200 8000000] by simp

section \<open>An exchange\<close>

text \<open>What goes through the data register.\<close>

fun data_events :: "uart list \<Rightarrow> uart list" where
  "data_events [] = []"
| "data_events (Sr_read # es) = data_events es"
| "data_events (e # es) = e # data_events es"

lemma data_events_append [simp]: "data_events (xs @ ys) = data_events xs @ data_events ys"
  by (induction xs rule: data_events.induct) simp_all

lemma data_events_waits [simp]: "data_events (replicate k Sr_read) = []"
  by (induction k) simp_all

text \<open>Each of the two bits comes up within \<open>fuel\<close> reads.\<close>

definition serves :: "nat \<Rightarrow> uart_hw \<Rightarrow> bool" where
  "serves fuel hw \<longleftrightarrow> (\<forall>n. (\<exists>k < fuel. sr hw (n + k) AND USART_SR_TXE \<noteq> 0) \<and> (\<exists>k < fuel. sr hw (n + k) AND USART_SR_RXNE \<noteq> 0))"

lemma until_run:
  assumes "serves fuel hw" "m = USART_SR_TXE \<or> m = USART_SR_RXNE"
  shows "\<exists>s'. run_state (until fuel hw m) s = (True, s') \<and> data_events (trace s') = data_events (trace s)"
proof -
  have "\<exists>k < fuel. sr hw (asked s + k) AND m \<noteq> 0" using assms by (auto simp: serves_def)
  from await_asked [where P = "\<lambda>v. v AND m \<noteq> 0", OF this, of Sr_read] show ?thesis by (auto simp: until_def)
qed

lemma exchange_run:
  assumes "serves fuel hw"
  shows "\<exists>vs s'. run_state (exchange fuel hw bs) s = (Some (map (\<lambda>v. ucast (v AND 0xFF)) vs), s') \<and> length vs = length bs \<and>
    data_events (trace s') = data_events (trace s) @ concat (map2 (\<lambda>b v. [Dr_write (ucast b), Dr_read v]) bs vs)"
proof (induction bs arbitrary: s)
  case (Cons b bs)
  obtain s1 where 1: "run_state (until fuel hw USART_SR_TXE) s = (True, s1)" "data_events (trace s1) = data_events (trace s)"
    using until_run [OF assms] by blast
  let ?s2 = "s1\<lparr>trace := trace s1 @ [Dr_write (ucast b)]\<rparr>"
  obtain s3 where 3: "run_state (until fuel hw USART_SR_RXNE) ?s2 = (True, s3)" "data_events (trace s3) = data_events (trace ?s2)"
    using until_run [OF assms] by blast
  let ?v = "dr hw (asked s3)"
  let ?s4 = "s3\<lparr>trace := trace s3 @ [Dr_read ?v], asked := Suc (asked s3)\<rparr>"
  obtain vs s' where 4: "run_state (exchange fuel hw bs) ?s4 = (Some (map (\<lambda>v. ucast (v AND 0xFF)) vs), s')" "length vs = length bs"
    "data_events (trace s') = data_events (trace ?s4) @ concat (map2 (\<lambda>b v. [Dr_write (ucast b), Dr_read v]) bs vs)"
    using Cons.IH [of ?s4] by blast
  show ?case
    by (intro exI [of _ "?v # vs"] exI [of _ s']) (use 1 3 4 in \<open>simp add: waited_def read_dr_def run_simps\<close>)
qed auto

text \<open>
  On a port whose two bits come up again and again, \<open>SendReceive\<close> returns 0.  Through the data register go, strictly
  in turn, the bytes to send, or as many times 0xFF, and the values received, of which the caller gets the lower eight bits.
\<close>

theorem uart_exchange:
  assumes "serves fuel hw" "uart_instance d \<noteq> None" "\<forall>b. tx_data = Some b \<longrightarrow> n \<le> length b"
  shows "\<exists>vs s'. run_state (SendReceive fuel hw d tx_data True n) s = (Some (0, Some (map (\<lambda>v. ucast (v AND 0xFF)) vs)), s') \<and>
    length vs = n \<and> data_events (trace s') = data_events (trace s) @
      concat (map2 (\<lambda>b v. [Dr_write (ucast b), Dr_read v]) (case tx_data of Some b \<Rightarrow> take n b | None \<Rightarrow> replicate n 0xFF) vs)"
proof -
  let ?bs = "case tx_data of Some b \<Rightarrow> take n b | None \<Rightarrow> replicate n 0xFF"
  have l: "length ?bs = n" using assms(3) by (auto split: option.splits)
  obtain vs s' where 1: "run_state (exchange fuel hw ?bs) s = (Some (map (\<lambda>v. ucast (v AND 0xFF)) vs), s')" "length vs = length ?bs"
    "data_events (trace s') = data_events (trace s) @ concat (map2 (\<lambda>b v. [Dr_write (ucast b), Dr_read v]) ?bs vs)"
    using exchange_run [OF assms(1)] by blast
  have "run_state (SendReceive fuel hw d tx_data True n) s = (Some (0, Some (map (\<lambda>v. ucast (v AND 0xFF)) vs)), s')"
    using 1(1) assms(2,3) by (auto simp: SendReceive_def split: option.splits)
  then show ?thesis using 1(2,3) unfolding l by (intro exI [of _ vs] exI [of _ s']) simp
qed

theorem uart_exchange_witness:
  "\<exists>(vs :: u16 list) s'. run_state (SendReceive 1 \<lparr>sr = (\<lambda>_. 0xA0), dr = (\<lambda>n. of_nat n + 0x155)\<rparr> \<lparr>brr_value = 139, uart_instance = Some 1\<rparr>
      (Some [7, 8]) True 2) io_start = (Some (0, Some (map (\<lambda>v. ucast (v AND 0xFF)) vs)), s') \<and> length vs = 2"
proof -
  have "serves 1 \<lparr>sr = (\<lambda>_. 0xA0), dr = (\<lambda>n. of_nat n + 0x155)\<rparr>" by (simp add: serves_def USART_SR_TXE_def USART_SR_RXNE_def)
  from uart_exchange [OF this, of "\<lparr>brr_value = 139, uart_instance = Some 1\<rparr>" "Some [7, 8]" 2 io_start] show ?thesis by simp blast
qed

end
