(* ===== verification/File_Ops.thy ===== *)
theory File_Ops
  imports C_Prelude
begin

text \<open>
  The class \<open>File\<close> of Common/file_ops.cpp.  Below it lies a file system with contents by path and a table of
  open descriptors; its system calls do what POSIX says for regular files, and each may fail
  for reasons of its own and transfer fewer bytes than asked, which is a parameter, the environment.  An
  object and the system are one record, which the text files extend.  A C++ exception is a value; an
  access through a null pointer or outside of a mapping is \<open>Undefined\<close>.  One process uses the files, and
  one object owns its descriptor and its mapping.
\<close>

section \<open>Exceptions\<close>

datatype exception = Runtime_error string | System_error nat | Length_error string

datatype 'a outcome = Returns 'a | Throws exception | Undefined

definition after :: "('s, 'a outcome) state \<Rightarrow> ('a \<Rightarrow> ('s, 'b outcome) state) \<Rightarrow> ('s, 'b outcome) state" where
  "after m f = do {
     r \<leftarrow> m;
     case r of Returns x \<Rightarrow> f x | Throws e \<Rightarrow> State_Monad.return (Throws e) | Undefined \<Rightarrow> State_Monad.return Undefined }"

definition throw :: "exception \<Rightarrow> ('s, 'a outcome) state" where
  "throw e = State_Monad.return (Throws e)"

definition returns :: "'a \<Rightarrow> ('s, 'a outcome) state" where
  "returns x = State_Monad.return (Returns x)"

definition field :: "('s \<Rightarrow> 'a) \<Rightarrow> ('s, 'a) state" where
  "field f = State (\<lambda>s. (f s, s))"

definition change :: "('s \<Rightarrow> 's) \<Rightarrow> ('s, unit) state" where
  "change f = State (\<lambda>s. ((), f s))"

lemma run_field [run_simps]: "run_state (field f) s = (f s, s)"
  by (simp add: field_def)

lemma run_change [run_simps]: "run_state (change f) s = ((), f s)"
  by (simp add: change_def)

lemma run_throw [run_simps]: "run_state (throw e) s = (Throws e, s)"
  by (simp add: throw_def)

lemma run_returns [run_simps]: "run_state (returns x) s = (Returns x, s)"
  by (simp add: returns_def)

lemma run_after: "run_state (after m f) s =
    (case run_state m s of (Returns x, s') \<Rightarrow> run_state (f x) s' | (Throws e, s') \<Rightarrow> (Throws e, s') | (Undefined, s') \<Rightarrow> (Undefined, s'))"
  by (simp add: after_def State_Monad.bind_def split: prod.split outcome.split)

lemma run_after_returns [run_simps]: "run_state m s = (Returns x, s') \<Longrightarrow> run_state (after m f) s = run_state (f x) s'"
  by (simp add: run_after)

lemma run_after_throws [run_simps]: "run_state m s = (Throws e, s') \<Longrightarrow> run_state (after m f) s = (Throws e, s')"
  by (simp add: run_after)

section \<open>The system\<close>

datatype OpenFlags = READ_ONLY | WRITE_ONLY | READ_WRITE

datatype SeekAt = SET | CURRENT | END

definition ENOENT :: nat where "ENOENT = 2"
definition EBADF :: nat where "EBADF = 9"
definition EACCES :: nat where "EACCES = 13"
definition EINVAL :: nat where "EINVAL = 22"

text \<open>What call number \<open>n\<close> may do of its own: fail, cut a transfer short, report times and the mode.\<close>

record env =
  fault :: "nat \<Rightarrow> nat option"
  chunk :: "nat \<Rightarrow> nat"
  stamps :: "nat \<Rightarrow> int \<times> int \<times> int \<times> nat"

record desc =
  path :: string
  flags :: OpenFlags
  offset :: nat

record mapping =
  map_path :: string
  map_off :: nat
  map_size :: nat

record fs =
  files :: "string \<Rightarrow> string option"
  descs :: "desc option list"
  calls :: nat

definition descriptor :: "'z fs_scheme \<Rightarrow> nat \<Rightarrow> desc option" where
  "descriptor s fd = (if fd < length (descs s) then descs s ! fd else None)"

definition contents :: "'z fs_scheme \<Rightarrow> string \<Rightarrow> string" where
  "contents s p = (case files s p of None \<Rightarrow> '''' | Some c \<Rightarrow> c)"

definition lowest_free :: "desc option list \<Rightarrow> nat" where
  "lowest_free ds = length (takeWhile (\<lambda>d. d \<noteq> None) ds)"

definition sys :: "env \<Rightarrow> (nat \<Rightarrow> 'z fs_scheme \<Rightarrow> (nat + 'a) \<times> 'z fs_scheme) \<Rightarrow> ('z fs_scheme, nat + 'a) state" where
  "sys E f = State (\<lambda>s. let n = calls s; s' = s\<lparr>calls := Suc n\<rparr> in
     case fault E n of Some e \<Rightarrow> (Inl e, s') | None \<Rightarrow> f n s')"

definition on_desc :: "env \<Rightarrow> nat \<Rightarrow> (nat \<Rightarrow> desc \<Rightarrow> 'z fs_scheme \<Rightarrow> (nat + 'a) \<times> 'z fs_scheme) \<Rightarrow> ('z fs_scheme, nat + 'a) state" where
  "on_desc E fd f = sys E (\<lambda>n s. case descriptor s fd of None \<Rightarrow> (Inl EBADF, s) | Some d \<Rightarrow> f n d s)"

definition set_offset :: "nat \<Rightarrow> nat \<Rightarrow> 'z fs_scheme \<Rightarrow> 'z fs_scheme" where
  "set_offset fd o' s = s\<lparr>descs := (descs s)[fd := map_option (\<lambda>d. d\<lparr>offset := o'\<rparr>) (descs s ! fd)]\<rparr>"

definition set_contents :: "string \<Rightarrow> string \<Rightarrow> 'z fs_scheme \<Rightarrow> 'z fs_scheme" where
  "set_contents p c s = s\<lparr>files := (files s)(p \<mapsto> c)\<rparr>"

text \<open>A write behind the end fills the gap with zeros; a write of nothing does nothing.\<close>

definition overwrite :: "string \<Rightarrow> nat \<Rightarrow> string \<Rightarrow> string" where
  "overwrite c o' d = (if d = [] then c
     else take o' c @ replicate (o' - length c) (CHR 0x00) @ d @ drop (o' + length d) c)"

definition sys_open :: "env \<Rightarrow> string \<Rightarrow> OpenFlags \<Rightarrow> bool \<Rightarrow> ('z fs_scheme, nat + nat) state" where
  "sys_open E p fl creat = sys E (\<lambda>n s.
     if files s p = None \<and> \<not> creat then (Inl ENOENT, s)
     else let fd = lowest_free (descs s); d = Some \<lparr>path = p, flags = fl, offset = 0\<rparr> in
       (Inr fd, s\<lparr>files := (files s)(p \<mapsto> contents s p), descs := take fd (descs s) @ d # drop (Suc fd) (descs s)\<rparr>))"

definition sys_close :: "nat \<Rightarrow> ('z fs_scheme, unit) state" where
  "sys_close fd = change (\<lambda>s. s\<lparr>calls := Suc (calls s), descs := (descs s)[fd := None]\<rparr>)"

definition sys_lseek :: "env \<Rightarrow> nat \<Rightarrow> int \<Rightarrow> SeekAt \<Rightarrow> ('z fs_scheme, nat + nat) state" where
  "sys_lseek E fd off whence = on_desc E fd (\<lambda>n d s.
     let base = (case whence of SET \<Rightarrow> 0 | CURRENT \<Rightarrow> int (offset d) | END \<Rightarrow> int (length (contents s (path d)))) in
     if base + off < 0 then (Inl EINVAL, s) else (Inr (nat (base + off)), set_offset fd (nat (base + off)) s))"

definition sys_write :: "env \<Rightarrow> nat \<Rightarrow> string \<Rightarrow> ('z fs_scheme, nat + nat) state" where
  "sys_write E fd data = on_desc E fd (\<lambda>n d s.
     if flags d = READ_ONLY then (Inl EBADF, s)
     else let w = min (length data) (chunk E n) in
       (Inr w, set_offset fd (offset d + w) (set_contents (path d) (overwrite (contents s (path d)) (offset d) (take w data)) s)))"

definition sys_read :: "env \<Rightarrow> nat \<Rightarrow> nat \<Rightarrow> ('z fs_scheme, nat + string) state" where
  "sys_read E fd sz = on_desc E fd (\<lambda>n d s.
     if flags d = WRITE_ONLY then (Inl EBADF, s)
     else let r = take (min sz (chunk E n)) (drop (offset d) (contents s (path d))) in
       (Inr r, set_offset fd (offset d + length r) s))"

definition sys_fsync :: "env \<Rightarrow> nat \<Rightarrow> ('z fs_scheme, nat + unit) state" where
  "sys_fsync E fd = on_desc E fd (\<lambda>n d s. (Inr (), s))"

definition sys_ftruncate :: "env \<Rightarrow> nat \<Rightarrow> ('z fs_scheme, nat + unit) state" where
  "sys_ftruncate E fd = on_desc E fd (\<lambda>n d s.
     if flags d = READ_ONLY then (Inl EINVAL, s) else (Inr (), set_contents (path d) '''' s))"

record Stats =
  st_size :: nat
  st_times :: "int \<times> int \<times> int"
  st_mode :: nat

definition sys_fstat :: "env \<Rightarrow> nat \<Rightarrow> ('z fs_scheme, nat + Stats) state" where
  "sys_fstat E fd = on_desc E fd (\<lambda>n d s. case stamps E n of (a, m, c, mode) \<Rightarrow>
     (Inr \<lparr>st_size = length (contents s (path d)), st_times = (a, m, c), st_mode = mode\<rparr>, s))"

text \<open>A shared mapping needs a readable descriptor, and a writable one when it is to be written.\<close>

definition sys_mmap :: "env \<Rightarrow> nat \<Rightarrow> nat \<Rightarrow> OpenFlags \<Rightarrow> nat \<Rightarrow> ('z fs_scheme, nat + mapping) state" where
  "sys_mmap E fd sz prot off = on_desc E fd (\<lambda>n d s.
     if sz = 0 then (Inl EINVAL, s)
     else if flags d = WRITE_ONLY \<or> flags d = READ_ONLY \<and> prot \<noteq> READ_ONLY then (Inl EACCES, s)
     else (Inr \<lparr>map_path = path d, map_off = off, map_size = sz\<rparr>, s))"

definition load_map :: "'z fs_scheme \<Rightarrow> mapping \<Rightarrow> nat \<Rightarrow> char option" where
  "load_map s m k = (let c = contents s (map_path m) in
     if k < map_size m \<and> map_off m + k < length c then Some (c ! (map_off m + k)) else None)"

section \<open>File\<close>

record File = fs +
  fileInternal :: "nat option"
  openFlags :: OpenFlags
  fileMapping :: "mapping option"

definition checkFileOpen :: "('z File_scheme, unit outcome) state" where
  "checkFileOpen = do {
     f \<leftarrow> field fileInternal;
     if f = None then throw (Runtime_error ''File is not open'') else returns () }"

text \<open>\<open>fileInternal->fd\<close>, and the exception for a system call that fails.\<close>

definition with_fd :: "(nat \<Rightarrow> ('z File_scheme, 'a outcome) state) \<Rightarrow> ('z File_scheme, 'a outcome) state" where
  "with_fd f = do { i \<leftarrow> field fileInternal; case i of None \<Rightarrow> State_Monad.return Undefined | Some fd \<Rightarrow> f fd }"

definition or_throw :: "('s, nat + 'a) state \<Rightarrow> ('s, 'a outcome) state" where
  "or_throw m = do { r \<leftarrow> m; State_Monad.return (case r of Inl e \<Rightarrow> Throws (System_error e) | Inr x \<Rightarrow> Returns x) }"

definition Open :: "env \<Rightarrow> string \<Rightarrow> OpenFlags \<Rightarrow> ('z File_scheme, unit outcome) state" where
  "Open E p fl = do {
     f \<leftarrow> field fileInternal;
     if f \<noteq> None then throw (Runtime_error ''File is already open'')
     else do {
       change (openFlags_update (\<lambda>_. fl));
       after (or_throw (sys_open E p fl (fl = WRITE_ONLY \<or> fl = READ_WRITE))) (\<lambda>fd. do {
         change (fileInternal_update (\<lambda>_. Some fd));
         returns () }) } }"

definition Close :: "('z File_scheme, unit) state" where
  "Close = do {
     change (fileMapping_update (\<lambda>_. None));
     f \<leftarrow> field fileInternal;
     case f of None \<Rightarrow> State_Monad.return ()
     | Some fd \<Rightarrow> do { sys_close fd; change (fileInternal_update (\<lambda>_. None)) } }"

definition Seek :: "env \<Rightarrow> int \<Rightarrow> SeekAt \<Rightarrow> ('z File_scheme, unit outcome) state" where
  "Seek E off seekAt = after checkFileOpen (\<lambda>_. with_fd (\<lambda>fd.
     after (or_throw (sys_lseek E fd off seekAt)) (\<lambda>_. returns ())))"

definition File_Write :: "env \<Rightarrow> string \<Rightarrow> ('z File_scheme, unit outcome) state" where
  "File_Write E data = after checkFileOpen (\<lambda>_. do {
     fl \<leftarrow> field openFlags;
     if fl = READ_ONLY then throw (Runtime_error ''File is not open for writing'')
     else with_fd (\<lambda>fd. after (or_throw (sys_write E fd data)) (\<lambda>ret.
       if ret \<noteq> length data then throw (Length_error ''Invalid data size written'') else returns ())) })"

definition File_Read :: "env \<Rightarrow> nat \<Rightarrow> ('z File_scheme, string outcome) state" where
  "File_Read E sz = after checkFileOpen (\<lambda>_. do {
     fl \<leftarrow> field openFlags;
     if fl = WRITE_ONLY then throw (Runtime_error ''File is not open for reading'')
     else with_fd (\<lambda>fd. after (or_throw (sys_read E fd sz)) (\<lambda>dst.
       if length dst \<noteq> sz then throw (Length_error ''Invalid data size read'') else returns dst)) })"

definition Sync :: "env \<Rightarrow> ('z File_scheme, unit outcome) state" where
  "Sync E = after checkFileOpen (\<lambda>_. do {
     fl \<leftarrow> field openFlags;
     if fl = READ_ONLY then throw (Runtime_error ''File is not open for writing'')
     else with_fd (\<lambda>fd. or_throw (sys_fsync E fd)) })"

definition GetStats :: "env \<Rightarrow> ('z File_scheme, Stats outcome) state" where
  "GetStats E = after checkFileOpen (\<lambda>_. with_fd (\<lambda>fd. or_throw (sys_fstat E fd)))"

text \<open>\<open>GetLastAccessTime\<close>, \<open>GetLastModTime\<close>, \<open>GetLastStatusChangeTime\<close>, \<open>GetSize\<close>, \<open>GetMode\<close>.\<close>

definition GetLastAccessTime :: "Stats \<Rightarrow> int" where "GetLastAccessTime st = fst (st_times st)"
definition GetLastModTime :: "Stats \<Rightarrow> int" where "GetLastModTime st = fst (snd (st_times st))"
definition GetLastStatusChangeTime :: "Stats \<Rightarrow> int" where "GetLastStatusChangeTime st = snd (snd (st_times st))"
definition GetSize :: "Stats \<Rightarrow> nat" where "GetSize st = st_size st"
definition GetMode :: "Stats \<Rightarrow> nat" where "GetMode st = st_mode st"

text \<open>The constructor of \<open>Mmap\<close>; the size 0 stands for the size of the file.\<close>

definition Mmap :: "env \<Rightarrow> nat \<Rightarrow> nat \<Rightarrow> nat \<Rightarrow> OpenFlags \<Rightarrow> ('z fs_scheme, mapping outcome) state" where
  "Mmap E fd sz off fl =
     after (if sz = 0 then after (or_throw (sys_fstat E fd)) (\<lambda>st. returns (st_size st)) else returns sz) (\<lambda>n.
       or_throw (sys_mmap E fd n fl off))"

definition MapFile :: "env \<Rightarrow> nat \<Rightarrow> nat \<Rightarrow> ('z File_scheme, mapping outcome) state" where
  "MapFile E sz off = after checkFileOpen (\<lambda>_. do {
     m \<leftarrow> field fileMapping;
     case m of Some x \<Rightarrow> returns x
     | None \<Rightarrow> with_fd (\<lambda>fd. do {
         fl \<leftarrow> field openFlags;
         after (Mmap E fd sz off fl) (\<lambda>x. do { change (fileMapping_update (\<lambda>_. Some x)); returns x }) }) })"

text \<open>
  The two stream operators.  A stream for output takes all characters, or fails after \<open>room\<close> of them; a stream for
  input gives its characters and then fails, and what the operator leaves in it is the result.
\<close>

fun put_loop :: "(nat \<Rightarrow> char option) \<Rightarrow> nat option \<Rightarrow> nat \<Rightarrow> nat \<Rightarrow> string option" where
  "put_loop ld room k 0 = Some ''''"
| "put_loop ld room k (Suc filesize) = (case ld k of None \<Rightarrow> None
     | Some c \<Rightarrow> if c = CHR 0x00 \<or> room = Some 0 then Some ''''
       else map_option ((#) c) (put_loop ld (map_option (\<lambda>r. r - 1) room) (Suc k) filesize))"

definition stream_out :: "env \<Rightarrow> nat option \<Rightarrow> ('z File_scheme, string outcome) state" where
  "stream_out E room = with_fd (\<lambda>fd. after (or_throw (sys_lseek E fd 0 SET)) (\<lambda>_. do {
     st \<leftarrow> sys_fstat E fd;
     case st of Inl _ \<Rightarrow> returns ''''
     | Inr st \<Rightarrow>
         if st_size st = 0 then returns ''''
         else after (or_throw (sys_mmap E fd (st_size st) READ_ONLY 0)) (\<lambda>m. do {
           r \<leftarrow> field (\<lambda>s. put_loop (load_map s m) room 0 (st_size st));
           case r of None \<Rightarrow> State_Monad.return Undefined | Some out \<Rightarrow> returns out }) }))"

definition Read_string :: "env \<Rightarrow> ('z File_scheme, string outcome) state" where
  "Read_string E = stream_out E None"

fun get_loop :: "env \<Rightarrow> nat \<Rightarrow> string \<Rightarrow> ('z File_scheme, string outcome) state" where
  "get_loop E fd [] = returns []"
| "get_loop E fd (c # cs) = do {
     w \<leftarrow> sys_write E fd [c];
     case w of Inl _ \<Rightarrow> returns cs | Inr n \<Rightarrow> if n = 0 then returns cs else get_loop E fd cs }"

definition stream_in :: "env \<Rightarrow> string \<Rightarrow> ('z File_scheme, string outcome) state" where
  "stream_in E input = with_fd (\<lambda>fd. do {
     t \<leftarrow> sys_ftruncate E fd;
     case t of Inl _ \<Rightarrow> returns input
     | Inr _ \<Rightarrow> do {
         p \<leftarrow> sys_lseek E fd 0 CURRENT;
         case p of Inl _ \<Rightarrow> returns input | Inr _ \<Rightarrow> get_loop E fd input } })"

section \<open>What is written\<close>

lemmas sys_defs = sys_def on_desc_def Let_def

lemma run_or_throw [run_simps]: "run_state (or_throw m) s =
    (case run_state m s of (Inl e, s') \<Rightarrow> (Throws (System_error e), s') | (Inr x, s') \<Rightarrow> (Returns x, s'))"
  by (auto simp: or_throw_def split: prod.split sum.split)

lemma run_with_fd [run_simps]: "fileInternal s = Some fd \<Longrightarrow> run_state (with_fd f) s = run_state (f fd) s"
  by (simp add: with_fd_def run_simps)

lemma run_checkFileOpen [run_simps]: "fileInternal s = Some fd \<Longrightarrow> run_state (checkFileOpen) s = (Returns (), s)"
  by (simp add: checkFileOpen_def run_simps)

lemma overwrite_nil [simp]: "overwrite c k [] = c"
  by (simp add: overwrite_def)

lemma take_overwrite [simp]: "take (length d) (overwrite c 0 d) = d"
  by (simp add: overwrite_def)

lemma overwrite_append: "overwrite (overwrite c k a) (k + length a) b = overwrite c k (a @ b)"
proof (cases "a = [] \<or> b = []")
  case False
  then show ?thesis by (cases "k \<le> length c") (simp_all add: overwrite_def add.commute add.left_commute)
qed (auto simp: overwrite_def)

text \<open>The object has an open file with descriptor \<open>fd\<close>, path \<open>p\<close> and offset \<open>k\<close>.\<close>

definition opened :: "'z File_scheme \<Rightarrow> nat \<Rightarrow> string \<Rightarrow> OpenFlags \<Rightarrow> nat \<Rightarrow> bool" where
  "opened s fd p fl k \<longleftrightarrow> fileInternal s = Some fd \<and> openFlags s = fl \<and> descriptor s fd = Some \<lparr>path = p, flags = fl, offset = k\<rparr> \<and>
     files s p \<noteq> None"

definition others_kept :: "string \<Rightarrow> 'z fs_scheme \<Rightarrow> 'z fs_scheme \<Rightarrow> bool" where
  "others_kept p s s' \<longleftrightarrow> (\<forall>q. q \<noteq> p \<longrightarrow> files s' q = files s q)"

lemma others_kept_trans: "others_kept p s s' \<Longrightarrow> others_kept p s' s'' \<Longrightarrow> others_kept p s s''"
  by (simp add: others_kept_def)

lemma openedD:
  assumes "opened s fd p fl k"
  shows "fileInternal s = Some fd" "openFlags s = fl" "descriptor s fd = Some \<lparr>path = p, flags = fl, offset = k\<rparr>"
    "fd < length (descs s)" "descs s ! fd = Some \<lparr>path = p, flags = fl, offset = k\<rparr>" "files s p \<noteq> None"
  using assms by (auto simp: opened_def descriptor_def split: if_splits)

lemma descriptor_calls [simp]: "descriptor (s\<lparr>calls := n\<rparr>) fd = descriptor s fd"
  by (simp add: descriptor_def)

lemma contents_updates [simp]: "contents (s\<lparr>calls := n\<rparr>) p = contents s p" "contents (set_offset fd k s) p = contents s p"
  "contents (set_contents q c s) p = (if p = q then c else contents s p)"
  by (simp_all add: contents_def set_offset_def set_contents_def)

lemma opened_calls [simp]: "opened (s\<lparr>calls := n\<rparr>) fd p fl k = opened s fd p fl k"
  by (simp add: opened_def)

lemma opened_moved: "opened s fd p fl k \<Longrightarrow> opened (set_offset fd k' s) fd p fl k'"
  by (auto simp: opened_def set_offset_def descriptor_def split: if_splits)

lemma opened_written: "opened s fd p fl k \<Longrightarrow> opened (set_contents q c s) fd p fl k"
  by (auto simp: opened_def set_contents_def descriptor_def split: if_splits)

lemma kept_updates [simp]: "others_kept p s (s'\<lparr>calls := n\<rparr>) = others_kept p s s'"
  "others_kept p s (set_offset fd k s') = others_kept p s s'"
  "others_kept p s (set_contents p c s') = others_kept p s s'" "others_kept p s s"
  by (simp_all add: others_kept_def set_offset_def set_contents_def)

lemma sys_write_run:
  assumes "opened s fd p fl k" "fl \<noteq> READ_ONLY"
  obtains (failed) e where "run_state (sys_write E fd d) s = (Inl e, s\<lparr>calls := Suc (calls s)\<rparr>)"
    | (wrote) w s' where "run_state (sys_write E fd d) s = (Inr w, s')" "w = min (length d) (chunk E (calls s))" "opened s' fd p fl (k + w)"
        "contents s' p = overwrite (contents s p) k (take w d)" "others_kept p s s'" "calls s' = Suc (calls s)" "fault E (calls s) = None"
proof (cases "fault E (calls s)")
  case None
  let ?w = "min (length d) (chunk E (calls s))"
  let ?s = "set_offset fd (k + ?w) (set_contents p (overwrite (contents s p) k (take ?w d)) (s\<lparr>calls := Suc (calls s)\<rparr>))"
  have "run_state (sys_write E fd d) s = (Inr ?w, ?s)"
    using None assms(2) openedD(3) [OF assms(1)] by (simp add: sys_write_def sys_defs)
  moreover have "opened ?s fd p fl (k + ?w)" by (rule opened_moved, rule opened_written) (use assms(1) in simp)
  moreover have "calls ?s = Suc (calls s)" by (simp add: set_offset_def set_contents_def)
  ultimately show thesis using None by (intro that(2)) simp_all
next
  case (Some e)
  then show thesis by (intro that(1) [of e]) (simp add: sys_write_def sys_defs)
qed

lemma file_write_run:
  assumes o: "opened s fd p fl k" "fl \<noteq> READ_ONLY"
  obtains w r s' where "run_state (File_Write E d) s = (r, s')" "r \<noteq> Undefined" "opened s' fd p fl (k + w)" "w \<le> length d"
    "contents s' p = overwrite (contents s p) k (take w d)" "others_kept p s s'" "r = Returns () \<Longrightarrow> w = length d"
proof -
  note op = openedD(1,2) [OF o(1)]
  have run: "run_state (File_Write E d) s = run_state (after (or_throw (sys_write E fd d)) (\<lambda>ret.
      if ret \<noteq> length d then throw (Length_error ''Invalid data size written'') else returns ())) s"
    using op o(2) by (simp add: File_Write_def run_simps)
  show thesis
  proof (rule sys_write_run [OF o, where E = E and d = d], goal_cases failed wrote)
    case (failed e)
    then show thesis using o(1) run by (intro that [of "Throws (System_error e)" "s\<lparr>calls := Suc (calls s)\<rparr>" 0]) (simp_all add: run_simps)
  next
    case (wrote w s')
    then show thesis using run
      by (intro that [of "if w \<noteq> length d then Throws (Length_error ''Invalid data size written'') else Returns ()" s' w])
        (simp_all add: run_simps split: if_splits)
  qed
qed

fun write_all :: "env \<Rightarrow> string list \<Rightarrow> ('z File_scheme, unit outcome) state" where
  "write_all E [] = returns ()"
| "write_all E (d # ds) = after (File_Write E d) (\<lambda>_. write_all E ds)"

lemma file_writes_prefix_run:
  assumes "opened s fd p fl k" "fl \<noteq> READ_ONLY"
  shows "\<exists>r s' n. run_state (write_all E ds) s = (r, s') \<and> r \<noteq> Undefined \<and> opened s' fd p fl (k + n) \<and> n \<le> length (concat ds) \<and>
    contents s' p = overwrite (contents s p) k (take n (concat ds)) \<and> others_kept p s s' \<and> (r = Returns () \<longrightarrow> n = length (concat ds))"
  using assms
proof (induction ds arbitrary: s k)
  case Nil
  then show ?case by (auto simp: run_simps)
next
  case (Cons d ds)
  obtain w r s' where 1: "run_state (File_Write E d) s = (r, s')" "r \<noteq> Undefined" "opened s' fd p fl (k + w)" "w \<le> length d"
    "contents s' p = overwrite (contents s p) k (take w d)" "others_kept p s s'" "r = Returns () \<Longrightarrow> w = length d"
    by (rule file_write_run [OF Cons.prems, where E = E and d = d]) blast
  show ?case
  proof (cases "r = Returns ()")
    case True
    then have w: "w = length d" using 1(7) by simp
    from Cons.IH [OF 1(3) Cons.prems(2)] obtain r2 s2 n where 2: "run_state (write_all E ds) s' = (r2, s2)" "r2 \<noteq> Undefined"
      "opened s2 fd p fl (k + w + n)" "n \<le> length (concat ds)" "contents s2 p = overwrite (contents s' p) (k + w) (take n (concat ds))"
      "others_kept p s' s2" "r2 = Returns () \<longrightarrow> n = length (concat ds)" by blast
    have "contents s2 p = overwrite (contents s p) k (take (w + n) (concat (d # ds)))"
      using 2(5) 1(5) overwrite_append [of "contents s p" k d] w by simp
    then show ?thesis using 1(1) True 2 w others_kept_trans [OF 1(6) 2(6)]
      by (intro exI [of _ r2] exI [of _ s2] exI [of _ "w + n"]) (simp add: run_simps add.assoc)
  next
    case False
    then obtain e where "r = Throws e" using 1(2) by (cases r) auto
    then show ?thesis using 1 by (intro exI [of _ r] exI [of _ s'] exI [of _ w]) (simp add: run_simps)
  qed
qed

text \<open>
  C9: whatever the system does, a series of writes to an open file leaves a prefix of the data in the file, right where
  the offset was, moves the offset to the end of that prefix, touches no other file, and has written all of the data
  if no exception was thrown.
\<close>

theorem file_writes_prefix:
  assumes "opened s fd p fl k" "fl \<noteq> READ_ONLY"
  shows "\<exists>r s' n. run_state (write_all E ds) s = (r, s') \<and> r \<noteq> Undefined \<and> opened s' fd p fl (k + n) \<and> n \<le> length (concat ds) \<and>
    contents s' p = overwrite (contents s p) k (take n (concat ds)) \<and> others_kept p s s' \<and> (r = Returns () \<longrightarrow> n = length (concat ds))"
  using file_writes_prefix_run [OF assms] .

section \<open>What is read back\<close>

text \<open>A system without failures of its own, which transfers at least one byte per call.\<close>

definition smooth :: "env \<Rightarrow> bool" where
  "smooth E \<longleftrightarrow> (\<forall>n. fault E n = None \<and> 0 < chunk E n)"

lemma smoothD: "smooth E \<Longrightarrow> fault E n = None" "smooth E \<Longrightarrow> 0 < chunk E n"
  by (simp_all add: smooth_def)

text \<open>One byte of a full transfer.\<close>

lemma sys_write_char:
  assumes "smooth E" "opened s fd p fl k" "fl \<noteq> READ_ONLY"
  obtains s' where "run_state (sys_write E fd [c]) s = (Inr 1, s')" "opened s' fd p fl (k + 1)" "contents s' p = overwrite (contents s p) k [c]"
proof (rule sys_write_run [OF assms(2,3), where E = E and d = "[c]"], goal_cases failed wrote)
  case (failed e)
  then show ?case using smoothD(1) [OF assms(1)] assms(2,3) openedD(3) [OF assms(2)] by (simp add: sys_write_def sys_defs)
next
  case (wrote w s')
  then have "w = 1" using smoothD(2) [OF assms(1), of "calls s"] by simp
  then show ?case using wrote by (intro that [of s']) simp_all
qed

lemma get_loop_run:
  assumes "smooth E" "opened s fd p fl k" "fl \<noteq> READ_ONLY"
  shows "\<exists>s'. run_state (get_loop E fd cs) s = (Returns [], s') \<and> opened s' fd p fl (k + length cs) \<and>
    contents s' p = overwrite (contents s p) k cs"
  using assms
proof (induction cs arbitrary: s k)
  case Nil
  then show ?case by (simp add: run_simps)
next
  case (Cons c cs)
  obtain s1 where 1: "run_state (sys_write E fd [c]) s = (Inr 1, s1)" "opened s1 fd p fl (k + 1)" "contents s1 p = overwrite (contents s p) k [c]"
    by (rule sys_write_char [OF Cons.prems])
  from Cons.IH [OF Cons.prems(1) 1(2) Cons.prems(3)] show ?case
    using 1(1) overwrite_append [of "contents s p" k "[c]" cs] by (auto simp: 1(3))
qed

lemma stream_in_run:
  assumes "smooth E" "opened s fd p fl k" "fl \<noteq> READ_ONLY"
  shows "\<exists>s'. run_state (stream_in E inp) s = (Returns [], s') \<and> opened s' fd p fl (k + length inp) \<and> contents s' p = overwrite [] k inp"
proof -
  note d = openedD [OF assms(2)] and ok = smoothD [OF assms(1)]
  let ?s1 = "set_contents p [] (s\<lparr>calls := Suc (calls s)\<rparr>)"
  let ?s2 = "set_offset fd k (?s1\<lparr>calls := Suc (calls ?s1)\<rparr>)"
  have "run_state (sys_ftruncate E fd) s = (Inr (), ?s1)"
    using d ok assms(3) by (simp add: sys_ftruncate_def sys_defs)
  moreover have o1: "opened ?s1 fd p fl k" by (rule opened_written) (use assms(2) in simp)
  moreover have "run_state (sys_lseek E fd 0 CURRENT) ?s1 = (Inr k, ?s2)"
    using openedD(3) [OF o1] ok by (simp add: sys_lseek_def sys_defs)
  moreover have o2: "opened ?s2 fd p fl k" by (rule opened_moved [of _ fd p fl k]) (use o1 in simp)
  moreover have "contents ?s2 p = []" by simp
  ultimately show ?thesis using get_loop_run [OF assms(1) o2 assms(3), of inp] d(1)
    by (simp add: stream_in_def run_simps)
qed

lemma put_loop_text: "(\<And>i. i < length xs \<Longrightarrow> ld (k + i) = Some (xs ! i)) \<Longrightarrow>
    put_loop ld None k (length xs) = Some (takeWhile (\<lambda>c. c \<noteq> CHR 0x00) xs)"
proof (induction xs arbitrary: k)
  case (Cons x xs)
  have "ld k = Some x" using Cons.prems [of 0] by simp
  moreover have "ld (Suc k + i) = Some (xs ! i)" if "i < length xs" for i using Cons.prems [of "Suc i"] that by simp
  ultimately show ?case using Cons.IH [of "Suc k"] by auto
qed simp

lemma load_map_updates [simp]: "load_map (s\<lparr>calls := n\<rparr>) m = load_map s m" "load_map (set_offset fd k s) m = load_map s m"
  by (rule ext, simp add: load_map_def)+

lemma read_string_run:
  assumes "smooth E" "opened s fd p fl k" "fl \<noteq> WRITE_ONLY"
  shows "\<exists>s'. run_state (Read_string E) s = (Returns (takeWhile (\<lambda>c. c \<noteq> CHR 0x00) (contents s p)), s') \<and> opened s' fd p fl 0 \<and>
    contents s' p = contents s p"
proof -
  note d = openedD [OF assms(2)] and ok = smoothD [OF assms(1)]
  let ?s1 = "set_offset fd 0 (s\<lparr>calls := Suc (calls s)\<rparr>)"
  let ?s2 = "?s1\<lparr>calls := Suc (calls ?s1)\<rparr>"
  let ?s3 = "?s2\<lparr>calls := Suc (calls ?s2)\<rparr>"
  let ?c = "contents s p"
  have 1: "run_state (sys_lseek E fd 0 SET) s = (Inr 0, ?s1)" using d ok by (simp add: sys_lseek_def sys_defs)
  have o1: "opened ?s1 fd p fl 0" by (rule opened_moved [of _ fd p fl k]) (use assms(2) in simp)
  obtain st where 2: "run_state (sys_fstat E fd) ?s1 = (Inr st, ?s2)" "st_size st = length ?c"
    using openedD(3) [OF o1] ok by (cases "stamps E (calls ?s1)") (simp add: sys_fstat_def sys_defs)
  show ?thesis
  proof (cases "?c = []")
    case True
    then show ?thesis using 1 2 o1 d(1) by (intro exI [of _ ?s2]) (simp add: Read_string_def stream_out_def run_simps)
  next
    case False
    let ?m = "\<lparr>map_path = p, map_off = 0, map_size = length ?c\<rparr>"
    have 3: "run_state (sys_mmap E fd (length ?c) READ_ONLY 0) ?s2 = (Inr ?m, ?s3)"
      using openedD(3) [OF o1] ok False assms(3) by (simp add: sys_mmap_def sys_defs)
    have "put_loop (load_map s ?m) None 0 (length ?c) = Some (takeWhile (\<lambda>c. c \<noteq> CHR 0x00) ?c)"
      by (rule put_loop_text) (simp add: load_map_def)
    then show ?thesis using 1 2 3 o1 d(1) False by (intro exI [of _ ?s3]) (simp add: Read_string_def stream_out_def run_simps)
  qed
qed

text \<open>
  \<open>>>\<close> empties the file but leaves the offset where it is, against its comment.  When it was at the start,
  \<open>Read\<close> afterwards gives the text up to its first zero byte; anywhere else the file gets zeros before the text, and
  \<open>Read\<close>, which stops at the first zero byte, gives nothing.
\<close>

theorem file_stream_in_out:
  assumes "smooth E" "opened s fd p READ_WRITE k"
  shows "\<exists>s'. run_state (do { rest \<leftarrow> stream_in E inp; back \<leftarrow> Read_string E; State_Monad.return (rest, back) }) s =
      ((Returns [], Returns (if k = 0 then takeWhile (\<lambda>c. c \<noteq> CHR 0x00) inp else [])), s') \<and>
    contents s' p = (if inp = [] then [] else replicate k (CHR 0x00) @ inp)"
proof -
  obtain s1 where 1: "run_state (stream_in E inp) s = (Returns [], s1)" "opened s1 fd p READ_WRITE (k + length inp)"
    "contents s1 p = overwrite [] k inp" using stream_in_run [OF assms, of inp] by auto
  obtain s2 where 2: "run_state (Read_string E) s1 = (Returns (takeWhile (\<lambda>c. c \<noteq> CHR 0x00) (contents s1 p)), s2)"
    "contents s2 p = contents s1 p" using read_string_run [OF assms(1) 1(2)] by auto
  have "takeWhile (\<lambda>c. c \<noteq> CHR 0x00) (contents s1 p) = (if k = 0 then takeWhile (\<lambda>c. c \<noteq> CHR 0x00) inp else [])"
    by (cases k) (simp_all add: 1(3) overwrite_def)
  then show ?thesis using 1 2 by (intro exI [of _ s2]) (simp add: overwrite_def)
qed

section \<open>Open, write, seek, read\<close>

lemma lowest_free_le: "lowest_free ds \<le> length ds"
  by (simp add: lowest_free_def length_takeWhile_le)

lemma open_run:
  assumes "fileInternal s = None" "fault E (calls s) = None" "files s p \<noteq> None \<or> fl \<noteq> READ_ONLY"
  shows "\<exists>fd s'. run_state (Open E p fl) s = (Returns (), s') \<and> opened s' fd p fl 0 \<and> contents s' p = contents s p \<and>
    others_kept p s s' \<and> fileMapping s' = fileMapping s \<and> calls s' = Suc (calls s)"
  using assms lowest_free_le [of "descs s"]
  by (cases fl) (auto simp: Open_def run_simps sys_open_def sys_def Let_def contents_def opened_def descriptor_def nth_append
      others_kept_def split: option.split)

text \<open>
  What an operation does from a state: it returns a result of which something holds, or it throws, which is
  excluded when the condition \<open>b\<close> holds.
\<close>

definition gives :: "bool \<Rightarrow> ('s, 'a outcome) state \<Rightarrow> 's \<Rightarrow> ('a \<Rightarrow> 's \<Rightarrow> bool) \<Rightarrow> bool" where
  "gives b m s Q \<longleftrightarrow> (case run_state m s of (Returns x, s') \<Rightarrow> Q x s' | (Throws e, _) \<Rightarrow> \<not> b | (Undefined, _) \<Rightarrow> False)"

abbreviation throws_or :: "('s, 'a outcome) state \<Rightarrow> 's \<Rightarrow> ('a \<Rightarrow> 's \<Rightarrow> bool) \<Rightarrow> bool" where
  "throws_or \<equiv> gives False"

lemma gives_after: "gives b m s Q \<Longrightarrow> (\<And>x s'. Q x s' \<Longrightarrow> gives b (f x) s' R) \<Longrightarrow> gives b (after m f) s R"
  by (cases "run_state m s"; cases "fst (run_state m s)") (fastforce simp: gives_def run_after)+

lemma gives_weaken: "gives b m s Q \<Longrightarrow> (\<And>x s'. Q x s' \<Longrightarrow> R x s') \<Longrightarrow> (b' \<Longrightarrow> b) \<Longrightarrow> gives b' m s R"
  by (auto simp: gives_def split: prod.splits outcome.splits)

lemma gives_returns: "gives b m s Q \<Longrightarrow> b \<Longrightarrow> \<exists>x s'. run_state m s = (Returns x, s') \<and> Q x s'"
  by (auto simp: gives_def split: prod.splits outcome.splits)

lemma open_or_throw:
  assumes "fileInternal s = None"
  shows "throws_or (Open E p fl) s (\<lambda>_ s'. \<exists>fd. opened s' fd p fl 0 \<and> contents s' p = contents s p)"
proof (cases "fault E (calls s) = None \<and> (files s p \<noteq> None \<or> fl \<noteq> READ_ONLY)")
  case True
  then obtain fd s' where "run_state (Open E p fl) s = (Returns (), s')" "opened s' fd p fl 0" "contents s' p = contents s p"
    using open_run [OF assms, of E p fl] by blast
  then show ?thesis by (simp add: gives_def) blast
next
  case False
  then consider e where "fault E (calls s) = Some e" | "fault E (calls s) = None" "files s p = None" "fl = READ_ONLY" by auto
  then show ?thesis using assms
    by cases (simp_all add: gives_def Open_def run_simps run_after sys_open_def sys_def Let_def)
qed

lemma writes_or_throw:
  assumes "opened s fd p fl k" "fl \<noteq> READ_ONLY"
  shows "throws_or (write_all E ds) s (\<lambda>_ s'. opened s' fd p fl (k + length (concat ds)) \<and>
    contents s' p = overwrite (contents s p) k (concat ds))"
  using file_writes_prefix_run [OF assms, of E ds] by (auto simp: gives_def split: outcome.split)

lemma seek_or_throw:
  assumes "opened s fd p fl k"
  shows "throws_or (Seek E (int k') SET) s (\<lambda>_ s'. opened s' fd p fl k' \<and> contents s' p = contents s p)"
proof (cases "fault E (calls s)")
  case None
  let ?s = "set_offset fd k' (s\<lparr>calls := Suc (calls s)\<rparr>)"
  have "run_state (sys_lseek E fd (int k') SET) s = (Inr k', ?s)"
    using None openedD(3) [OF assms] by (simp add: sys_lseek_def sys_defs)
  moreover have "opened ?s fd p fl k'" by (rule opened_moved [of _ fd p fl k]) (use assms in simp)
  ultimately show ?thesis using openedD(1) [OF assms] by (simp add: gives_def Seek_def run_simps)
next
  case (Some e)
  then show ?thesis using openedD(1) [OF assms] by (simp add: gives_def Seek_def run_simps sys_lseek_def sys_defs)
qed

lemma read_or_throw:
  assumes "opened s fd p fl k" "fl \<noteq> WRITE_ONLY"
  shows "throws_or (File_Read E n) s (\<lambda>x s'. x = take n (drop k (contents s p)) \<and> length x = n)"
proof -
  note d = openedD [OF assms(1)]
  have "take (min n m) xs = take n xs" if "length (take (min n m) xs) = n" for m and xs :: string
    using that by (simp add: min_def split: if_splits)
  then show ?thesis using d(1-3) assms(2)
    by (cases "fault E (calls s)") (auto simp: gives_def File_Read_def run_simps sys_read_def sys_defs)
qed

text \<open>
  Opening a file for reading and writing, writing to it from its start, seeking back and reading as many bytes gives
  what was written or an exception; no failure of the system, no short transfer and no former contents can make it
  return anything else.
\<close>

theorem file_round_trip:
  "throws_or (after (Open E p READ_WRITE) (\<lambda>_. after (write_all E ds) (\<lambda>_. after (Seek E 0 SET) (\<lambda>_.
      File_Read E (length (concat ds)))))) (s\<lparr>fileInternal := None\<rparr>) (\<lambda>x _. x = concat ds)"
proof (rule gives_after [OF open_or_throw])
  show "fileInternal (s\<lparr>fileInternal := None\<rparr>) = None" by simp
next
  fix s' assume "\<exists>fd. opened s' fd p READ_WRITE 0 \<and> contents s' p = contents (s\<lparr>fileInternal := None\<rparr>) p"
  then obtain fd where o: "opened s' fd p READ_WRITE 0" by blast
  show "throws_or (after (write_all E ds) (\<lambda>_. after (Seek E 0 SET) (\<lambda>_. File_Read E (length (concat ds))))) s' (\<lambda>x _. x = concat ds)"
  proof (rule gives_after [OF writes_or_throw [OF o]])
    fix s2 assume w: "opened s2 fd p READ_WRITE (0 + length (concat ds)) \<and> contents s2 p = overwrite (contents s' p) 0 (concat ds)"
    show "throws_or (after (Seek E 0 SET) (\<lambda>_. File_Read E (length (concat ds)))) s2 (\<lambda>x _. x = concat ds)"
    proof (rule gives_after)
      show "throws_or (Seek E 0 SET) s2 (\<lambda>_ s'. opened s' fd p READ_WRITE 0 \<and> contents s' p = contents s2 p)"
        using seek_or_throw [OF conjunct1 [OF w], of E 0] by simp
    next
      fix s3 assume "opened s3 fd p READ_WRITE 0 \<and> contents s3 p = contents s2 p"
      then show "throws_or (File_Read E (length (concat ds))) s3 (\<lambda>x _. x = concat ds)"
        using read_or_throw [of s3 fd p READ_WRITE 0 E "length (concat ds)"] w
        by (auto simp: gives_def simp del: length_concat split: prod.splits outcome.splits)
    qed
  qed simp
qed

text \<open>A mapping of a file that was opened for writing only always fails.\<close>

lemma map_write_only:
  assumes "smooth E" "opened s fd p WRITE_ONLY k" "fileMapping s = None" "n \<noteq> 0"
  shows "fst (run_state (MapFile E n off) s) = Throws (System_error EACCES)"
  using openedD [OF assms(2)] smoothD [OF assms(1)] assms(3,4)
  by (simp add: MapFile_def Mmap_def run_simps sys_mmap_def sys_defs)

section \<open>Examples\<close>

definition calm :: env where
  "calm = \<lparr>fault = (\<lambda>_. None), chunk = (\<lambda>_. 4096), stamps = (\<lambda>_. (0, 0, 0, 420))\<rparr>"

lemma smooth_calm [simp]: "smooth calm"
  by (simp add: smooth_def calm_def)

definition no_file :: "(string \<Rightarrow> string option) \<Rightarrow> File" where
  "no_file fl = \<lparr>files = fl, descs = [], calls = 0, fileInternal = None, openFlags = READ_ONLY, fileMapping = None\<rparr>"

definition one_open :: "OpenFlags \<Rightarrow> nat \<Rightarrow> string \<Rightarrow> File" where
  "one_open fl k c = (no_file [''f'' \<mapsto> c])\<lparr>descs := [Some \<lparr>path = ''f'', flags = fl, offset = k\<rparr>], fileInternal := Some 0, openFlags := fl\<rparr>"

lemma opened_one_open: "opened (one_open fl k c) 0 ''f'' fl k"
  by (simp add: opened_def one_open_def no_file_def descriptor_def)

lemma contents_one_open [simp]: "contents (one_open fl k c) ''f'' = c"
  by (simp add: contents_def one_open_def no_file_def)

theorem file_writes_prefix_witness:
  "\<exists>r s' n. run_state (write_all \<lparr>fault = (\<lambda>n. if n = 1 then Some 28 else None), chunk = (\<lambda>_. 3), stamps = (\<lambda>_. (0, 0, 0, 0))\<rparr> [''ab'', ''cd'']) (one_open READ_WRITE 1 ''xyz'') = (r, s') \<and>
    n \<le> 4 \<and> contents s' ''f'' = overwrite ''xyz'' 1 (take n ''abcd'')"
  using file_writes_prefix [OF opened_one_open [of READ_WRITE 1 "''xyz''"], of "\<lparr>fault = (\<lambda>n. if n = 1 then Some 28 else None), chunk = (\<lambda>_. 3), stamps = (\<lambda>_. (0, 0, 0, 0))\<rparr>" "[''ab'', ''cd'']"]
  by (simp add: numeral_eq_Suc) blast

theorem file_stream_in_out_witness:
  "\<exists>s'. run_state (do { rest \<leftarrow> stream_in calm ''hi''; back \<leftarrow> Read_string calm; State_Monad.return (rest, back) }) (one_open READ_WRITE 2 ''old'') =
      ((Returns [], Returns ''''), s') \<and> contents s' ''f'' = [CHR 0x00, CHR 0x00, CHR ''h'', CHR ''i'']"
  using file_stream_in_out [OF smooth_calm opened_one_open [of READ_WRITE 2 "''old''"], of "''hi''"] by (simp add: numeral_2_eq_2)

end
