(* ===== verification/Text_File.thy ===== *)
theory Text_File
  imports File_Ops
begin

text \<open>
  The classes \<open>TextFile\<close> and \<open>CSVFile\<close> of Common/file_ops.cpp.  A text file is the object of File_Ops with a read position and
  an end, which are kept here as offsets into the mapping of the file; a \<open>string_view\<close> is the text it
  shows when it is made.  The conversion of a \<open>float\<close> is a parameter.
\<close>

section \<open>Text files\<close>

datatype LineEnding = CRLF | LF

record TextFile = File +
  readPos :: nat
  endPos :: nat
  fileSize :: nat
  lineCount :: nat
  lineEnding :: LineEnding

abbreviation CR :: char where "CR \<equiv> CHR 0x0D"
abbreviation NL :: char where "NL \<equiv> CHR 0x0A"

text \<open>A load through the pointer of the mapping.\<close>

definition peek :: "'z TextFile_scheme \<Rightarrow> nat \<Rightarrow> char option" where
  "peek s k = (case fileMapping s of None \<Rightarrow> None | Some m \<Rightarrow> load_map s m k)"

definition view :: "(nat \<Rightarrow> char option) \<Rightarrow> nat \<Rightarrow> nat \<Rightarrow> string option" where
  "view ld k n = those (map ld [k..<k + n])"

definition show_view :: "nat \<Rightarrow> nat \<Rightarrow> ('z TextFile_scheme, string outcome) state" where
  "show_view k n = do {
     v \<leftarrow> field (\<lambda>s. view (peek s) k n);
     State_Monad.return (case v of None \<Rightarrow> Undefined | Some str \<Rightarrow> Returns str) }"

definition Reset :: "env \<Rightarrow> ('z TextFile_scheme, unit outcome) state" where
  "Reset E = after (GetStats E) (\<lambda>st. do {
     change (fileSize_update (\<lambda>_. GetSize st));
     after (MapFile E (GetSize st) 0) (\<lambda>_. do {
       change (\<lambda>s. s\<lparr>readPos := 0, endPos := fileSize s\<rparr>);
       n \<leftarrow> field fileSize;
       if n = 0 then throw (Length_error ''File is empty'') else returns () }) })"

definition Text_Read :: "env \<Rightarrow> ('z TextFile_scheme, string outcome) state" where
  "Text_Read E = after (Reset E) (\<lambda>_. do { k \<leftarrow> field readPos; n \<leftarrow> field fileSize; show_view k n })"

text \<open>The initial values of the members.\<close>

definition init_members :: "'z TextFile_scheme \<Rightarrow> 'z TextFile_scheme" where
  "init_members s = s\<lparr>fileInternal := None, fileMapping := None, readPos := 0, endPos := 0, fileSize := 0, lineCount := 0,
     lineEnding := LF\<rparr>"

text \<open>The constructor; the destructor of the base class closes the file when an exception leaves it.\<close>

definition count_of :: "char \<Rightarrow> string \<Rightarrow> nat" where
  "count_of c xs = length (filter (\<lambda>x. x = c) xs)"

definition TextFile_new :: "env \<Rightarrow> string \<Rightarrow> ('z TextFile_scheme, unit outcome) state" where
  "TextFile_new E p = do {
     change init_members;
     r \<leftarrow> after (Open E p READ_ONLY) (\<lambda>_. after (Text_Read E) (\<lambda>content. do {
       let r_cnt = count_of CR content;
       let n_cnt = count_of NL content;
       if 0 < r_cnt \<and> 0 < n_cnt \<and> r_cnt \<noteq> n_cnt
       then throw (Runtime_error ''Inconsistent line endings detected in file'')
       else do {
         change (\<lambda>s. if 0 < r_cnt \<and> 0 < n_cnt then s\<lparr>lineEnding := CRLF\<rparr> else s);
         change (lineCount_update (\<lambda>_. n_cnt + 1));
         returns () } }));
     case r of Returns _ \<Rightarrow> State_Monad.return r | _ \<Rightarrow> do { Close; State_Monad.return r } }"

definition GetLineCount :: "'z TextFile_scheme \<Rightarrow> nat" where
  "GetLineCount s = lineCount s"

text \<open>The loop of \<open>ReadLine\<close>, from \<open>ptr\<close> on: where it stops, or none for a load outside of the file.\<close>

function scan :: "LineEnding \<Rightarrow> (nat \<Rightarrow> char option) \<Rightarrow> nat \<Rightarrow> nat \<Rightarrow> nat option" where
  "scan le ld ptr e =
     (if ptr < e then
        (case ld ptr of None \<Rightarrow> None
         | Some c \<Rightarrow>
             if le = CRLF \<and> c = CR then Some (ptr + 1)
             else if le = LF \<and> c = NL then Some ptr
             else scan le ld (ptr + 1) e)
      else Some ptr)"
  by auto
termination by (relation "measure (\<lambda>(le, ld, ptr, e). e - ptr)") auto

declare scan.simps [simp del]

definition ReadLine :: "('z TextFile_scheme, string outcome) state" where
  "ReadLine = do {
     k \<leftarrow> field readPos; e \<leftarrow> field endPos;
     if k = e then returns ''''
     else do {
       stop \<leftarrow> field (\<lambda>s. scan (lineEnding s) (peek s) k e);
       case stop of None \<Rightarrow> State_Monad.return Undefined
       | Some p \<Rightarrow> do {
           let ptr = (if p < e then p + 1 else p);
           after (show_view k (ptr - k)) (\<lambda>ret. do {
             change (readPos_update (\<lambda>q. q + (ptr - k)));
             returns ret }) } } }"

text \<open>\<open>ReadLines\<close> stores into a vector of \<open>GetLineCount\<close> lines; a store behind its end has no value.\<close>

fun read_lines :: "nat \<Rightarrow> string list \<Rightarrow> ('z TextFile_scheme, string list outcome) state" where
  "read_lines 0 lines = after ReadLine (\<lambda>line. if line = [] then returns lines else State_Monad.return Undefined)"
| "read_lines (Suc room) lines = after ReadLine (\<lambda>line.
     if line = [] then returns (lines @ replicate (Suc room) '''') else read_lines room (lines @ [line]))"

definition ReadLines :: "('z TextFile_scheme, string list outcome) state" where
  "ReadLines = do { n \<leftarrow> field GetLineCount; read_lines n [] }"

section \<open>CSV files\<close>

definition find_char :: "string \<Rightarrow> char \<Rightarrow> nat \<Rightarrow> nat option" where
  "find_char str c pos = (let n = pos + length (takeWhile (\<lambda>x. x \<noteq> c) (drop pos str)) in if n < length str then Some n else None)"

definition substr :: "string \<Rightarrow> nat \<Rightarrow> nat \<Rightarrow> string" where
  "substr str pos n = take n (drop pos str)"

text \<open>The last field takes one character less than is left, the newline of a line; \<open>size_t\<close> wraps when nothing is left.\<close>

function splitString_loop :: "string \<Rightarrow> char \<Rightarrow> nat \<Rightarrow> string list \<Rightarrow> string list" where
  "splitString_loop str delimiter pos result =
     (case find_char str delimiter pos of
        Some nxt \<Rightarrow> splitString_loop str delimiter (nxt + 1) (result @ [substr str pos (nxt - pos)])
      | None \<Rightarrow> result @ [substr str pos (if pos < length str then length str - pos - 1 else 2 ^ 64 - 1)])"
  by auto
termination
  by (relation "measure (\<lambda>(str, d, pos, r). length str - pos)") (auto simp: find_char_def Let_def split: if_splits)

declare splitString_loop.simps [simp del]

definition splitString :: "string \<Rightarrow> char \<Rightarrow> string list" where
  "splitString str delimiter = splitString_loop str delimiter 0 []"

definition isFloat :: "string \<Rightarrow> bool" where
  "isFloat str \<longleftrightarrow> find_char str CHR ''.'' 0 \<noteq> None"

text \<open>
  \<open>from_chars\<close> for \<open>int\<close>: an optional minus and the longest run of digits at the start; without a digit, or out
  of the range of \<open>int\<close>, it fails.  What follows the digits is ignored.
\<close>

definition is_digit :: "char \<Rightarrow> bool" where
  "is_digit c \<longleftrightarrow> (of_char c :: nat) \<in> {48..57}"

definition digits_value :: "string \<Rightarrow> nat" where
  "digits_value ds = foldl (\<lambda>v c. 10 * v + (of_char c - 48)) 0 ds"

definition from_chars_int :: "string \<Rightarrow> int option" where
  "from_chars_int str =
     (let neg = (case str of [] \<Rightarrow> False | c # _ \<Rightarrow> c = CHR ''-'');
          ds = takeWhile is_digit (if neg then tl str else str);
          v = (if neg then - int (digits_value ds) else int (digits_value ds)) in
      if ds = [] \<or> v < - (2 ^ 31) \<or> 2 ^ 31 \<le> v then None else Some v)"

datatype 'f ParsedValue = Text_value string | Int_value int | Float_value 'f

definition ParsedValue_new :: "(string \<Rightarrow> 'f option) \<Rightarrow> string \<Rightarrow> 'f ParsedValue" where
  "ParsedValue_new from_chars_float str =
     (case (if isFloat str then from_chars_float str else None) of
        Some f \<Rightarrow> Float_value f
      | None \<Rightarrow> (case from_chars_int str of Some i \<Rightarrow> Int_value i | None \<Rightarrow> Text_value str))"

definition ParseNextLine :: "(string \<Rightarrow> 'f option) \<Rightarrow> ('z TextFile_scheme, 'f ParsedValue list outcome) state" where
  "ParseNextLine ff = after ReadLine (\<lambda>line.
     if line = [] then returns [] else returns (map (ParsedValue_new ff) (splitString line CHR '','')))"

fun parse_rows :: "(string \<Rightarrow> 'f option) \<Rightarrow> nat \<Rightarrow> 'f ParsedValue list list \<Rightarrow> ('z TextFile_scheme, 'f ParsedValue list list outcome) state" where
  "parse_rows ff 0 allValues = after (ParseNextLine ff) (\<lambda>vs. if vs = [] then returns allValues else State_Monad.return Undefined)"
| "parse_rows ff (Suc room) allValues = after (ParseNextLine ff) (\<lambda>vs.
     if vs = [] then returns (allValues @ replicate (Suc room) []) else parse_rows ff room (allValues @ [vs]))"

definition Parse :: "env \<Rightarrow> (string \<Rightarrow> 'f option) \<Rightarrow> ('z TextFile_scheme, 'f ParsedValue list list outcome) state" where
  "Parse E ff = do {
     n \<leftarrow> field GetLineCount;
     after (Reset E) (\<lambda>_. parse_rows ff n []) }"

section \<open>Lines\<close>

fun first_line :: "LineEnding \<Rightarrow> string \<Rightarrow> string" where
  "first_line le [] = []"
| "first_line LF (c # cs) = (if c = NL then [c] else c # first_line LF cs)"
| "first_line CRLF (c # cs) = (if c = CR then c # take 1 cs else c # first_line CRLF cs)"

lemma take_min_length: "take (min (length xs) n) xs = take n xs"
  by (simp add: min_def)

lemma first_line_prefix: "take (length (first_line le xs)) xs = first_line le xs"
  by (induction le xs rule: first_line.induct) (auto simp: take_min_length)

lemma first_line_pos: "xs \<noteq> [] \<Longrightarrow> first_line le xs \<noteq> []"
  by (cases "(le, xs)" rule: first_line.cases) auto

function lines_of :: "LineEnding \<Rightarrow> string \<Rightarrow> string list" where
  "lines_of le xs = (if xs = [] then [] else first_line le xs # lines_of le (drop (length (first_line le xs)) xs))"
  by auto
termination
  by (relation "measure (\<lambda>(le, xs). length xs)") (use first_line_pos in auto)

declare lines_of.simps [simp del]

lemma lines_of_nil [simp]: "lines_of le [] = []"
  by (simp add: lines_of.simps)

lemma lines_of_step: "xs \<noteq> [] \<Longrightarrow> lines_of le xs = first_line le xs # lines_of le (drop (length (first_line le xs)) xs)"
  by (simp add: lines_of.simps [of le xs])

lemma first_line_drop: "first_line le xs @ drop (length (first_line le xs)) xs = xs"
  using append_take_drop_id [of "length (first_line le xs)" xs] by (simp add: first_line_prefix)

lemma concat_lines_of: "concat (lines_of le xs) = xs"
  by (induction le xs rule: lines_of.induct) (simp add: lines_of.simps first_line_drop)

lemma lines_of_ne: "l \<in> set (lines_of le xs) \<Longrightarrow> l \<noteq> []"
proof (induction le xs rule: lines_of.induct)
  case (1 le xs)
  then have ne: "xs \<noteq> []" by auto
  then have "l = first_line le xs \<or> l \<in> set (lines_of le (drop (length (first_line le xs)) xs))"
    using 1(2) lines_of_step [OF ne, of le] by (metis set_ConsD)
  then show ?case using 1(1) [OF ne] first_line_pos [OF ne, of le] by metis
qed

lemma first_line_clean: "NL \<notin> set (butlast (first_line LF xs))"
  by (induction xs) auto

lemma lines_of_clean: "l \<in> set (lines_of LF xs) \<Longrightarrow> NL \<notin> set (butlast l)"
proof (induction "length xs" arbitrary: xs rule: less_induct)
  case less
  then have ne: "xs \<noteq> []" by auto
  have "length (drop (length (first_line LF xs)) xs) < length xs" using first_line_pos [OF ne, of LF] ne by simp
  from less(1) [OF this] show ?case using less(2) first_line_clean [of xs] by (auto simp: lines_of_step [OF ne])
qed

lemma count_of_append [simp]: "count_of c (xs @ ys) = count_of c xs + count_of c ys"
  by (simp add: count_of_def)

lemma count_of_simps [simp]: "count_of c [] = 0" "count_of c (x # xs) = (if x = c then 1 else 0) + count_of c xs"
  by (simp_all add: count_of_def)

abbreviation mark :: "LineEnding \<Rightarrow> char" where
  "mark le \<equiv> (case le of CRLF \<Rightarrow> CR | LF \<Rightarrow> NL)"

text \<open>A first line that does not take all of the text has the mark of the ending in it.\<close>

lemma first_line_mark: "length (first_line le xs) < length xs \<Longrightarrow> 0 < count_of (mark le) (first_line le xs)"
  by (induction le xs rule: first_line.induct) (auto split: if_splits)

lemma lines_of_bound: "length (lines_of le xs) \<le> count_of (mark le) xs + 1"
proof (induction le xs rule: lines_of.induct)
  case (1 le xs)
  let ?l = "first_line le xs" and ?r = "drop (length (first_line le xs)) xs"
  have c: "count_of (mark le) xs = count_of (mark le) ?l + count_of (mark le) ?r"
    using count_of_append [of "mark le" ?l ?r] by (simp add: first_line_drop)
  show ?case
  proof (cases "xs = [] \<or> ?r = []")
    case True
    then show ?thesis using lines_of_step [of xs le] by (cases "xs = []") simp_all
  next
    case False
    then have "length (lines_of le ?r) \<le> count_of (mark le) ?r + 1" "0 < count_of (mark le) ?l" "xs \<noteq> []"
      using 1 first_line_mark [of le xs] by auto
    then show ?thesis using c lines_of_step [of xs le] by simp
  qed
qed

section \<open>Reading\<close>

text \<open>The object reads the text \<open>c\<close> and has come to \<open>k\<close>.\<close>

definition reading :: "'z TextFile_scheme \<Rightarrow> string \<Rightarrow> nat \<Rightarrow> bool" where
  "reading s c k \<longleftrightarrow> readPos s = k \<and> endPos s = length c \<and> k \<le> length c \<and> (\<forall>i < length c. peek s i = Some (c ! i))"

lemma peek_readPos [simp]: "peek (s\<lparr>readPos := k\<rparr>) = peek s"
  by (rule ext) (simp add: peek_def load_map_def contents_def split: option.split)

lemma view_text: "(\<And>i. i < length c \<Longrightarrow> ld i = Some (c ! i)) \<Longrightarrow> k + n \<le> length c \<Longrightarrow> view ld k n = Some (take n (drop k c))"
proof (induction n arbitrary: k)
  case 0
  then show ?case by (simp add: view_def)
next
  case (Suc n)
  have "[k..<k + Suc n] = k # [Suc k..<Suc k + n]" using upt_conv_Cons [of k "k + Suc n"] by simp
  then have "view ld k (Suc n) = those (ld k # map ld [Suc k..<Suc k + n])" unfolding view_def by (simp only: list.map)
  then have "view ld k (Suc n) = (case ld k of None \<Rightarrow> None | Some x \<Rightarrow> map_option ((#) x) (view ld (Suc k) n))"
    by (simp only: view_def those.simps)
  then show ?case using Suc.prems(2) Suc.IH [OF Suc.prems(1), of "Suc k"] Suc.prems(1) [of k]
    by (simp add: Cons_nth_drop_Suc [symmetric, of k c])
qed

lemma scan_text: "(\<And>i. i < length c \<Longrightarrow> ld i = Some (c ! i)) \<Longrightarrow> k \<le> length c \<Longrightarrow>
    \<exists>p. scan le ld k (length c) = Some p \<and> (if p < length c then p + 1 else p) = k + length (first_line le (drop k c))"
proof (induction "length c - k" arbitrary: k)
  case 0
  then show ?case by (simp add: scan.simps)
next
  case (Suc n)
  then have k: "k < length c" by simp
  let ?x = "c ! k"
  have d: "drop k c = ?x # drop (Suc k) c" using k by (simp add: Cons_nth_drop_Suc)
  have ld: "ld k = Some ?x" using Suc.prems(1) k by simp
  show ?case
  proof (cases "?x = mark le")
    case True
    then show ?thesis using k ld d by (cases le) (auto simp: scan.simps)
  next
    case False
    have "\<exists>p. scan le ld (Suc k) (length c) = Some p \<and> (if p < length c then p + 1 else p) = Suc k + length (first_line le (drop (Suc k) c))"
      by (rule Suc.hyps(1)) (use Suc.hyps(2) Suc.prems(1) k in auto)
    moreover have "scan le ld k (length c) = scan le ld (Suc k) (length c)"
      using False k ld by (subst scan.simps) (cases le; simp)
    moreover have "first_line le (drop k c) = ?x # first_line le (drop (Suc k) c)"
      using False d by (cases le) simp_all
    ultimately show ?thesis by simp
  qed
qed

lemma read_line_run:
  assumes "reading s c k"
  shows "run_state ReadLine s =
    (Returns (first_line (lineEnding s) (drop k c)), s\<lparr>readPos := k + length (first_line (lineEnding s) (drop k c))\<rparr>)"
    and "reading (s\<lparr>readPos := k + length (first_line (lineEnding s) (drop k c))\<rparr>) c (k + length (first_line (lineEnding s) (drop k c)))"
proof -
  let ?l = "first_line (lineEnding s) (drop k c)"
  have r: "readPos s = k" "endPos s = length c" "k \<le> length c" "\<And>i. i < length c \<Longrightarrow> peek s i = Some (c ! i)"
    using assms by (auto simp: reading_def)
  have b: "length ?l \<le> length c - k" using first_line_prefix [of "lineEnding s" "drop k c"] by (metis length_drop length_take min.cobounded1)
  obtain p where p: "scan (lineEnding s) (peek s) k (length c) = Some p" "(if p < length c then p + 1 else p) = k + length ?l"
    using scan_text [of c "peek s" k "lineEnding s"] r by blast
  have v: "view (peek s) k (length ?l) = Some ?l"
    using view_text [of c "peek s" k "length ?l"] r b first_line_prefix [of "lineEnding s" "drop k c"] by simp
  show "run_state ReadLine s = (Returns ?l, s\<lparr>readPos := k + length ?l\<rparr>)"
  proof (cases "k = length c")
    case True
    then show ?thesis using r by (simp add: ReadLine_def run_simps)
  next
    case False
    then show ?thesis using r p v by (simp add: ReadLine_def run_simps run_after show_view_def Let_def)
  qed
  show "reading (s\<lparr>readPos := k + length ?l\<rparr>) c (k + length ?l)"
    using r b by (simp add: reading_def)
qed

lemma read_lines_run:
  assumes "reading s c k" "length (lines_of (lineEnding s) (drop k c)) \<le> room"
  shows "run_state (read_lines room ls) s =
    (Returns (ls @ lines_of (lineEnding s) (drop k c) @ replicate (room - length (lines_of (lineEnding s) (drop k c))) ''''),
     s\<lparr>readPos := length c\<rparr>)"
  using assms
proof (induction room arbitrary: s k ls)
  case 0
  then have "drop k c = []" by (metis concat.simps(1) concat_lines_of le_zero_eq length_0_conv)
  then show ?case using read_line_run(1) [OF 0(1)] 0(1) by (simp add: run_simps run_after reading_def)
next
  case (Suc room)
  let ?le = "lineEnding s" and ?l = "first_line (lineEnding s) (drop k c)"
  let ?s = "s\<lparr>readPos := k + length ?l\<rparr>"
  show ?case
  proof (cases "drop k c = []")
    case True
    then show ?thesis using read_line_run(1) [OF Suc.prems(1)] Suc.prems(1) by (simp add: run_simps run_after reading_def)
  next
    case False
    have "lines_of ?le (drop k c) = ?l # lines_of ?le (drop (k + length ?l) c)"
      using lines_of_step [OF False, of ?le] by (simp add: add.commute)
    moreover have "run_state (read_lines room (ls @ [?l])) ?s = (Returns ((ls @ [?l]) @ lines_of (lineEnding ?s) (drop (k + length ?l) c) @
        replicate (room - length (lines_of (lineEnding ?s) (drop (k + length ?l) c))) ''''), ?s\<lparr>readPos := length c\<rparr>)"
      by (rule Suc.IH [OF read_line_run(2) [OF Suc.prems(1)]]) (use calculation Suc.prems(2) in simp)
    ultimately show ?thesis using read_line_run(1) [OF Suc.prems(1)] first_line_pos [OF False, of ?le]
      by (simp add: run_simps run_after)
  qed
qed

text \<open>A text file that is open, with a mapping of all of it or none.\<close>

definition whole :: "'z File_scheme \<Rightarrow> string \<Rightarrow> mapping" where
  "whole s p = \<lparr>map_path = p, map_off = 0, map_size = length (contents s p)\<rparr>"

definition text_open :: "'z TextFile_scheme \<Rightarrow> nat \<Rightarrow> string \<Rightarrow> bool" where
  "text_open s fd p \<longleftrightarrow> opened s fd p READ_ONLY 0 \<and> (fileMapping s = None \<or> fileMapping s = Some (whole s p))"

definition same_text :: "'z TextFile_scheme \<Rightarrow> 'z TextFile_scheme \<Rightarrow> string \<Rightarrow> bool" where
  "same_text s s' p \<longleftrightarrow> contents s' p = contents s p \<and> lineEnding s' = lineEnding s \<and> lineCount s' = lineCount s"

lemma get_stats_run:
  assumes "opened s fd p fl k"
  obtains (failed) e where "fault E (calls s) = Some e" "run_state (GetStats E) s = (Throws (System_error e), s\<lparr>calls := Suc (calls s)\<rparr>)"
    | (got) st where "fault E (calls s) = None" "run_state (GetStats E) s = (Returns st, s\<lparr>calls := Suc (calls s)\<rparr>)"
        "GetSize st = length (contents s p)"
  using openedD [OF assms]
  by (cases "fault E (calls s)"; cases "stamps E (calls s)")
    (auto simp: GetStats_def run_simps run_after sys_fstat_def sys_defs GetSize_def)

lemma map_file_run:
  assumes "opened s fd p READ_ONLY k" "fileMapping s = None \<or> fileMapping s = Some (whole s p)"
  obtains (failed) e n where "run_state (MapFile E (length (contents s p)) 0) s = (Throws e, s\<lparr>calls := n\<rparr>)"
      "\<not> (smooth E \<and> contents s p \<noteq> [])"
    | (mapped) n where "run_state (MapFile E (length (contents s p)) 0) s = (Returns (whole s p), s\<lparr>calls := n, fileMapping := Some (whole s p)\<rparr>)"
        "contents s p \<noteq> [] \<or> fileMapping s \<noteq> None"
proof (cases "fileMapping s")
  case (Some m)
  then show thesis using assms openedD(1,2) [OF assms(1)]
    by (intro that(2) [of "calls s"]) (simp_all add: MapFile_def run_simps run_after)
next
  case None
  note d = openedD [OF assms(1)]
  show thesis
  proof (cases "contents s p = []")
    case True
    then show thesis using d None that(1)
      by (cases "fault E (calls s)"; cases "fault E (Suc (calls s))"; cases "stamps E (calls s)")
        (auto simp: MapFile_def Mmap_def run_simps run_after sys_fstat_def sys_mmap_def sys_defs)
  next
    case False
    show thesis
    proof (cases "fault E (calls s)")
      case (Some e)
      then show thesis using d None False that(1)
        by (auto simp: MapFile_def Mmap_def run_simps run_after sys_mmap_def sys_defs smooth_def)
    next
      case N: None
      then show thesis using d None False
        by (intro that(2) [of "Suc (calls s)"]) (auto simp: MapFile_def Mmap_def run_simps run_after sys_mmap_def sys_defs whole_def)
    qed
  qed
qed

lemma reset_gives:
  assumes "text_open s fd p" and b: "b \<Longrightarrow> smooth E \<and> contents s p \<noteq> []"
  shows "gives b (Reset E) s (\<lambda>_ s'. reading s' (contents s p) 0 \<and> fileSize s' = length (contents s p) \<and> text_open s' fd p \<and> same_text s s' p)"
proof -
  have o: "opened s fd p READ_ONLY 0" "fileMapping s = None \<or> fileMapping s = Some (whole s p)"
    using assms(1) by (auto simp: text_open_def)
  show ?thesis
  proof (rule get_stats_run [OF o(1), of E], goal_cases failed got)
    case (failed e)
    then show ?case using b by (auto simp: gives_def Reset_def run_after smooth_def)
  next
    case (got st)
    let ?s = "s\<lparr>calls := Suc (calls s), fileSize := length (contents s p)\<rparr>"
    have o': "opened ?s fd p READ_ONLY 0" "fileMapping ?s = None \<or> fileMapping ?s = Some (whole ?s p)" "contents ?s p = contents s p"
      using o by (auto simp: opened_def descriptor_def contents_def whole_def split: if_splits)
    show ?case
    proof (rule map_file_run [OF o'(1,2), of E], goal_cases failed mapped)
      case (failed e n)
      then show ?case using got b o'(3) by (auto simp: gives_def Reset_def run_after run_simps)
    next
      case (mapped n)
      then show ?case using got b o o'(3) openedD(4) [OF o(1)]
        by (auto simp: gives_def Reset_def run_after run_simps reading_def peek_def load_map_def whole_def contents_def
          text_open_def same_text_def opened_def descriptor_def Let_def split: if_splits)
    qed
  qed
qed

definition consistent :: "string \<Rightarrow> bool" where
  "consistent c \<longleftrightarrow> count_of CR c = 0 \<or> count_of NL c = 0 \<or> count_of CR c = count_of NL c"

definition ending_of :: "string \<Rightarrow> LineEnding" where
  "ending_of c = (if 0 < count_of CR c \<and> 0 < count_of NL c then CRLF else LF)"

lemma lines_fit: "consistent c \<Longrightarrow> length (lines_of (ending_of c) c) \<le> count_of NL c + 1"
  using lines_of_bound [of "ending_of c" c] by (auto simp: ending_of_def consistent_def split: if_splits)

text \<open>Opening a text file for reading keeps what the object had of its own.\<close>

lemma open_keeps_text:
  "lineEnding (snd (run_state (Open E p fl) s)) = lineEnding s" "lineCount (snd (run_state (Open E p fl) s)) = lineCount s"
  by (simp_all add: Open_def run_simps run_after sys_open_def sys_def Let_def split: option.split)

lemma open_text_gives:
  assumes "b \<Longrightarrow> smooth E \<and> files s p \<noteq> None"
  shows "gives b (Open E p READ_ONLY) (init_members s) (\<lambda>_ s'. \<exists>fd. text_open s' fd p \<and> contents s' p = contents s p \<and> lineEnding s' = LF)"
proof -
  have i: "fileInternal (init_members s) = None" "fileMapping (init_members s) = None" "lineEnding (init_members s) = LF"
    "files (init_members s) = files s" "calls (init_members s) = calls s" "contents (init_members s) p = contents s p"
    by (simp_all add: init_members_def contents_def)
  show ?thesis
  proof (cases "fault E (calls s) = None \<and> files s p \<noteq> None")
    case True
    then obtain fd s' where "run_state (Open E p READ_ONLY) (init_members s) = (Returns (), s')" "opened s' fd p READ_ONLY 0"
      "contents s' p = contents s p" "fileMapping s' = None"
      using open_run [of "init_members s" E p READ_ONLY] i by auto
    then show ?thesis using open_keeps_text(1) [of E p READ_ONLY "init_members s"] i(3)
      by (auto simp: gives_def text_open_def)
  next
    case False
    then have "\<not> b" using assms smoothD(1) by blast
    then show ?thesis using gives_weaken [OF open_or_throw [OF i(1)]] False i
      by (auto simp: gives_def Open_def run_simps run_after sys_open_def sys_def Let_def split: option.split)
  qed
qed

lemma close_first [simp]: "fst (run_state Close s) = ()"
  by simp

text \<open>The constructor: afterwards the file is open, its lines are counted and their ending is known.\<close>

lemma text_new_gives:
  assumes "b \<Longrightarrow> smooth E \<and> contents s p \<noteq> [] \<and> consistent (contents s p)"
  shows "gives b (TextFile_new E p) s (\<lambda>_ s'. \<exists>fd. text_open s' fd p \<and> reading s' (contents s p) 0 \<and> contents s' p = contents s p \<and>
    consistent (contents s p) \<and> lineEnding s' = ending_of (contents s p) \<and> lineCount s' = count_of NL (contents s p) + 1)"
proof -
  let ?c = "contents s p"
  let ?R = "\<lambda>(_::unit) s'. \<exists>fd. text_open s' fd p \<and> reading s' ?c 0 \<and> contents s' p = ?c \<and>
    consistent ?c \<and> lineEnding s' = ending_of ?c \<and> lineCount s' = count_of NL ?c + 1"
  let ?m = "after (Open E p READ_ONLY) (\<lambda>_. after (Text_Read E) (\<lambda>content. do {
       let r_cnt = count_of CR content;
       let n_cnt = count_of NL content;
       if 0 < r_cnt \<and> 0 < n_cnt \<and> r_cnt \<noteq> n_cnt
       then throw (Runtime_error ''Inconsistent line endings detected in file'')
       else do {
         change (\<lambda>s. if 0 < r_cnt \<and> 0 < n_cnt then s\<lparr>lineEnding := CRLF\<rparr> else s);
         change (lineCount_update (\<lambda>_. n_cnt + 1));
         returns () } }))"
  have "gives b ?m (init_members s) ?R"
  proof (rule gives_after [OF open_text_gives])
    show "b \<Longrightarrow> smooth E \<and> files s p \<noteq> None" using assms by (auto simp: contents_def split: option.splits)
  next
    fix s1 assume "\<exists>fd. text_open s1 fd p \<and> contents s1 p = ?c \<and> lineEnding s1 = LF"
    then obtain fd where 1: "text_open s1 fd p" "contents s1 p = ?c" "lineEnding s1 = LF" by blast
    have "gives b (Text_Read E) s1 (\<lambda>x s'. x = ?c \<and> text_open s' fd p \<and> reading s' ?c 0 \<and> contents s' p = ?c \<and> lineEnding s' = LF)"
      unfolding Text_Read_def
    proof (rule gives_after [OF reset_gives [OF 1(1)]])
      show "b \<Longrightarrow> smooth E \<and> contents s1 p \<noteq> []" using assms 1(2) by simp
    next
      fix s2 assume "reading s2 (contents s1 p) 0 \<and> fileSize s2 = length (contents s1 p) \<and> text_open s2 fd p \<and> same_text s1 s2 p"
      then show "gives b (do { k \<leftarrow> field readPos; n \<leftarrow> field fileSize; show_view k n }) s2
          (\<lambda>x s'. x = ?c \<and> text_open s' fd p \<and> reading s' ?c 0 \<and> contents s' p = ?c \<and> lineEnding s' = LF)"
        using 1 view_text [of ?c "peek s2" 0 "length ?c"]
        by (auto simp: gives_def run_simps show_view_def reading_def same_text_def)
    qed
    then show "gives b (after (Text_Read E) (\<lambda>content. do {
       let r_cnt = count_of CR content;
       let n_cnt = count_of NL content;
       if 0 < r_cnt \<and> 0 < n_cnt \<and> r_cnt \<noteq> n_cnt
       then throw (Runtime_error ''Inconsistent line endings detected in file'')
       else do {
         change (\<lambda>s. if 0 < r_cnt \<and> 0 < n_cnt then s\<lparr>lineEnding := CRLF\<rparr> else s);
         change (lineCount_update (\<lambda>_. n_cnt + 1));
         returns () } })) s1 ?R"
    proof (rule gives_after, goal_cases)
      case (1 x s2)
      then show ?case using assms
        by (auto simp: gives_def run_simps Let_def consistent_def ending_of_def text_open_def opened_def descriptor_def
            reading_def peek_def load_map_def contents_def whole_def split: if_splits option.splits)
    qed
  qed
  then show ?thesis
    by (cases "run_state ?m (init_members s)"; cases "fst (run_state ?m (init_members s))")
      (auto simp: gives_def TextFile_new_def run_simps split: prod.split)
qed

text \<open>
  C14: constructing a text file and reading its lines never leaves the file or the vector of lines, whatever the file
  holds and whatever the system does.  If no exception is thrown, which is certain on a smooth system for a file that is not
  empty and has consistent endings, the lines put together are the file, there are as many as \<open>GetLineCount\<close> says, filled up
  with empty ones, and in a file without carriage returns each ends at its first newline.
\<close>

theorem text_file_lines:
  "gives (smooth E \<and> contents s p \<noteq> [] \<and> consistent (contents s p)) (after (TextFile_new E p) (\<lambda>_. ReadLines)) s
    (\<lambda>ls s'. concat ls = contents s p \<and> length ls = GetLineCount s' \<and>
      (count_of CR (contents s p) = 0 \<longrightarrow> (\<forall>l \<in> set ls. NL \<notin> set (butlast l))))"
proof (rule gives_after [OF text_new_gives], blast, elim exE conjE)
  let ?c = "contents s p"
  fix s' fd assume r: "reading s' ?c 0" "consistent ?c" "lineEnding s' = ending_of ?c" "lineCount s' = count_of NL ?c + 1"
  have "length (lines_of (lineEnding s') (drop 0 ?c)) \<le> GetLineCount s'" using lines_fit [OF r(2)] r(3,4) by (simp add: GetLineCount_def)
  from read_lines_run [OF r(1) this, of "[]"]
  show "gives (smooth E \<and> ?c \<noteq> [] \<and> consistent ?c) ReadLines s' (\<lambda>ls s'. concat ls = ?c \<and> length ls = GetLineCount s' \<and>
      (count_of CR ?c = 0 \<longrightarrow> (\<forall>l \<in> set ls. NL \<notin> set (butlast l))))"
    using r lines_fit [OF r(2)] lines_of_clean [of _ ?c]
    by (auto simp: gives_def ReadLines_def run_simps GetLineCount_def concat_lines_of ending_of_def)
qed

section \<open>Tables\<close>

lemma splitString_loop_ne: "splitString_loop str d pos r \<noteq> []"
proof (induction str d pos r rule: splitString_loop.induct)
  case (1 str d pos r)
  then show ?case by (subst splitString_loop.simps) (auto split: option.split)
qed

definition row_of :: "(string \<Rightarrow> 'f option) \<Rightarrow> string \<Rightarrow> 'f ParsedValue list" where
  "row_of ff line = map (ParsedValue_new ff) (splitString line CHR '','')"

lemma row_of_ne: "row_of ff line \<noteq> []"
  by (simp add: row_of_def splitString_def splitString_loop_ne)

lemma parse_rows_run:
  assumes "reading s c k" "length (lines_of (lineEnding s) (drop k c)) \<le> room"
  shows "run_state (parse_rows ff room acc) s =
    (Returns (acc @ map (row_of ff) (lines_of (lineEnding s) (drop k c)) @ replicate (room - length (lines_of (lineEnding s) (drop k c))) []),
     s\<lparr>readPos := length c\<rparr>)"
  using assms
proof (induction room arbitrary: s k acc)
  case 0
  then have "drop k c = []" by (metis concat.simps(1) concat_lines_of le_zero_eq length_0_conv)
  then show ?case using read_line_run(1) [OF 0(1)] 0(1) by (simp add: ParseNextLine_def run_simps run_after reading_def)
next
  case (Suc room)
  let ?le = "lineEnding s" and ?l = "first_line (lineEnding s) (drop k c)"
  let ?s = "s\<lparr>readPos := k + length ?l\<rparr>"
  show ?case
  proof (cases "drop k c = []")
    case True
    then show ?thesis using read_line_run(1) [OF Suc.prems(1)] Suc.prems(1) by (simp add: ParseNextLine_def run_simps run_after reading_def)
  next
    case False
    have l: "lines_of ?le (drop k c) = ?l # lines_of ?le (drop (k + length ?l) c)"
      using lines_of_step [OF False, of ?le] by (simp add: add.commute)
    have "run_state (parse_rows ff room (acc @ [row_of ff ?l])) ?s = (Returns ((acc @ [row_of ff ?l]) @
        map (row_of ff) (lines_of (lineEnding ?s) (drop (k + length ?l) c)) @
        replicate (room - length (lines_of (lineEnding ?s) (drop (k + length ?l) c))) []), ?s\<lparr>readPos := length c\<rparr>)"
      by (rule Suc.IH [OF read_line_run(2) [OF Suc.prems(1)]]) (use l Suc.prems(2) in simp)
    moreover have "run_state (ParseNextLine ff) s = (Returns (row_of ff ?l), ?s)"
      using read_line_run(1) [OF Suc.prems(1)] first_line_pos [OF False, of ?le]
      by (simp add: ParseNextLine_def run_simps run_after row_of_def)
    ultimately show ?thesis using l row_of_ne [of ff ?l] by (simp add: run_simps)
  qed
qed

fun join :: "string list \<Rightarrow> string" where
  "join [] = ''''"
| "join [x] = x"
| "join (x # y # xs) = x @ CHR '','' # join (y # xs)"

definition print_table :: "string list list \<Rightarrow> string" where
  "print_table rows = concat (map (\<lambda>r. join r @ [NL]) rows)"

definition clean :: "string \<Rightarrow> bool" where
  "clean x \<longleftrightarrow> CHR '','' \<notin> set x \<and> NL \<notin> set x \<and> CR \<notin> set x"

lemma join_clean: "list_all clean r \<Longrightarrow> NL \<notin> set (join r) \<and> CR \<notin> set (join r)"
  by (induction r rule: join.induct) (auto simp: clean_def)

lemma first_line_LF: "NL \<notin> set xs \<Longrightarrow> first_line LF (xs @ NL # ys) = xs @ [NL]"
  by (induction xs) auto

lemma lines_of_table: "list_all (list_all clean) rows \<Longrightarrow> lines_of LF (print_table rows) = map (\<lambda>r. join r @ [NL]) rows"
proof (induction rows)
  case (Cons r rows)
  have "print_table (r # rows) = join r @ NL # print_table rows" by (simp add: print_table_def)
  then show ?case using Cons join_clean [of r] lines_of_step [of "print_table (r # rows)" LF]
    by (simp add: first_line_LF)
qed (simp add: print_table_def)

lemma count_table: "list_all (list_all clean) rows \<Longrightarrow> count_of CR (print_table rows) = 0 \<and> count_of NL (print_table rows) = length rows"
proof (induction rows)
  case (Cons r rows)
  have "count_of CR (join r) = 0 \<and> count_of NL (join r) = 0"
    using join_clean [of r] Cons.prems by (simp add: count_of_def filter_empty_conv) metis
  then show ?case using Cons by (simp add: print_table_def)
qed (simp add: print_table_def)

lemma takeWhile_clean: "c \<notin> set xs \<Longrightarrow> takeWhile (\<lambda>x. x \<noteq> c) (xs @ ys) = xs @ takeWhile (\<lambda>x. x \<noteq> c) ys"
  by (induction xs) auto

lemma split_join:
  "r \<noteq> [] \<Longrightarrow> list_all clean r \<Longrightarrow> pos \<le> length str \<Longrightarrow> drop pos str = join r @ [NL] \<Longrightarrow> splitString_loop str CHR '','' pos res = res @ r"
proof (induction r arbitrary: pos res rule: join.induct)
  case (2 x)
  have len: "length str = pos + length x + 1" using arg_cong [OF 2(4), of length] 2(3) by simp
  show ?case using 2 len takeWhile_clean [of "CHR '',''" x "[NL]"]
    by (subst splitString_loop.simps) (simp add: find_char_def Let_def substr_def clean_def)
next
  case (3 x y xs)
  have len: "length str = pos + length x + 1 + length (join (y # xs)) + 1"
    using arg_cong [OF 3(5), of length] 3(4) by simp
  have f: "find_char str CHR '','' pos = Some (pos + length x)"
    using 3(3,5) len takeWhile_clean [of "CHR '',''" x "CHR '','' # join (y # xs) @ [NL]"] by (simp add: find_char_def Let_def clean_def)
  have s: "substr str pos (pos + length x - pos) = x" using 3(5) by (simp add: substr_def)
  have d: "drop (pos + length x + 1) str = join (y # xs) @ [NL]"
    using arg_cong [OF 3(5), of "drop (length x + 1)"] by (simp add: add.commute add.left_commute)
  have "splitString_loop str CHR '','' (pos + length x + 1) (res @ [x]) = (res @ [x]) @ y # xs"
    by (rule 3(1)) (use 3(3) len d in auto)
  then show ?case by (subst splitString_loop.simps) (simp add: f s [simplified])
qed simp

text \<open>A table of clean cells, printed with a newline after each row, comes back cell by cell; one empty row follows.\<close>

lemma csv_cells:
  assumes "list_all (list_all clean) rows" "\<forall>r \<in> set rows. r \<noteq> []" "contents s p = print_table rows"
  shows "gives (smooth E \<and> rows \<noteq> []) (after (TextFile_new E p) (\<lambda>_. Parse E ff)) s
    (\<lambda>t _. t = map (map (ParsedValue_new ff)) rows @ [[]])"
proof (rule gives_after [OF text_new_gives], goal_cases)
  case 1
  then show ?case using assms(3) count_table [OF assms(1)] by (auto simp: consistent_def print_table_def)
next
  case (2 u s1)
  let ?c = "print_table rows"
  obtain fd where o: "text_open s1 fd p" "contents s1 p = ?c" "lineEnding s1 = LF" "lineCount s1 = length rows + 1"
    using 2 count_table [OF assms(1)] unfolding assms(3) ending_of_def by auto
  have row: "map (row_of ff) (map (\<lambda>r. join r @ [NL]) rows) = map (map (ParsedValue_new ff)) rows"
  proof -
    have "row_of ff (join r @ [NL]) = map (ParsedValue_new ff) r" if "r \<in> set rows" for r
      using that assms(1,2) split_join [of r 0 "join r @ [NL]" "[]"] by (simp add: row_of_def splitString_def list_all_iff)
    then show ?thesis by simp
  qed
  have "gives (smooth E \<and> rows \<noteq> []) (after (Reset E) (\<lambda>_. parse_rows ff (length rows + 1) [])) s1
      (\<lambda>t _. t = map (map (ParsedValue_new ff)) rows @ [[]])"
  proof (rule gives_after [OF reset_gives [OF o(1)]], goal_cases)
    case 1
    then show ?case using o(2) by (cases rows) (auto simp: print_table_def)
  next
    case (2 u s2)
    then have r: "reading s2 ?c 0" "lineEnding s2 = LF" using o by (auto simp: same_text_def)
    then show ?case using parse_rows_run [OF r(1), of "length rows + 1" ff "[]"] lines_of_table [OF assms(1)] row
      by (simp add: gives_def)
  qed
  then show ?case using o(4) by (simp add: Parse_def gives_def run_simps GetLineCount_def)
qed

text \<open>Decimal numbers as cells.\<close>

fun show_nat :: "nat \<Rightarrow> string" where
  "show_nat n = (if n < 10 then [char_of (48 + n)] else show_nat (n div 10) @ [char_of (48 + n mod 10)])"

declare show_nat.simps [simp del]

definition show_int :: "int \<Rightarrow> string" where
  "show_int i = (if i < 0 then CHR ''-'' # show_nat (nat (- i)) else show_nat (nat i))"

lemma code_of_digit: "d < 10 \<Longrightarrow> (of_char (char_of (48 + d) :: char) :: nat) = 48 + d"
  by simp

lemma digits_value_snoc [simp]: "digits_value (xs @ [c]) = 10 * digits_value xs + (of_char c - 48)"
  by (simp add: digits_value_def)

lemma show_nat_facts: "show_nat n \<noteq> [] \<and> list_all is_digit (show_nat n) \<and> digits_value (show_nat n) = n"
proof (induction n rule: show_nat.induct)
  case (1 n)
  show ?case
  proof (cases "n < 10")
    case True
    then show ?thesis using code_of_digit [of n]
      by (simp add: show_nat.simps [of n] is_digit_def digits_value_def)
  next
    case False
    then show ?thesis using 1 code_of_digit [of "n mod 10"]
      by (simp add: show_nat.simps [of n] is_digit_def)
  qed
qed

lemma not_digits: "\<not> is_digit CHR ''-''" "\<not> is_digit CHR ''.''" "\<not> is_digit CHR '',''" "\<not> is_digit NL" "\<not> is_digit CR"
  by (simp_all add: is_digit_def)

lemma digits_avoid: "list_all is_digit xs \<Longrightarrow> \<not> is_digit c \<Longrightarrow> c \<notin> set xs"
  by (auto simp: list_all_iff)

lemma show_nat_read [simp]: "show_nat n \<noteq> []" "takeWhile is_digit (show_nat n) = show_nat n" "digits_value (show_nat n) = n"
  using show_nat_facts [of n] by (auto simp: list_all_iff takeWhile_eq_all_conv)

lemma isFloat_iff: "isFloat str \<longleftrightarrow> CHR ''.'' \<in> set str"
proof -
  have "length (takeWhile (\<lambda>x. x \<noteq> CHR ''.'') str) < length str \<longleftrightarrow> CHR ''.'' \<in> set str" by (induction str) auto
  then show ?thesis by (simp add: isFloat_def find_char_def)
qed

lemma show_int_clean: "clean (show_int i)" "\<not> isFloat (show_int i)"
proof -
  have "c \<notin> set (show_int i)" if "\<not> is_digit c" "c \<noteq> CHR ''-''" for c
    using that digits_avoid show_nat_facts by (auto simp: show_int_def)
  then show "clean (show_int i)" "\<not> isFloat (show_int i)"
    using not_digits by (auto simp: clean_def isFloat_iff)
qed

lemma from_chars_show:
  assumes "- (2 ^ 31) \<le> i" "i < 2 ^ 31"
  shows "from_chars_int (show_int i) = Some i"
proof (cases "i < 0")
  case True
  then show ?thesis using assms
    by (simp add: from_chars_int_def show_int_def Let_def)
next
  case False
  then have s: "show_int i = show_nat (nat i)" by (simp add: show_int_def)
  obtain c cs where cs: "show_nat (nat i) = c # cs" using show_nat_facts [of "nat i"] by (cases "show_nat (nat i)") auto
  then have "c \<noteq> CHR ''-''" using show_nat_facts [of "nat i"] not_digits(1) by auto
  then have "(case show_nat (nat i) of [] \<Rightarrow> False | c # _ \<Rightarrow> c = CHR ''-'') = False" using cs by simp
  then show ?thesis using False s assms by (simp add: from_chars_int_def Let_def)
qed

text \<open>
  C8: a table of 32-bit integers, printed as decimal numbers with commas between them and a newline after each row, comes
  back from \<open>Parse\<close> as it was, with one empty row behind it; on a smooth system, for a table with rows, \<open>Parse\<close>
  does return, and no failure of the system can make it return anything else.
\<close>

theorem csv_round_trip:
  assumes "\<forall>r \<in> set t. r \<noteq> [] \<and> (\<forall>i \<in> set r. - (2 ^ 31) \<le> i \<and> i < 2 ^ 31)"
    and "contents s p = print_table (map (map show_int) t)"
  shows "gives (smooth E \<and> t \<noteq> []) (after (TextFile_new E p) (\<lambda>_. Parse E ff)) s (\<lambda>rows _. rows = map (map Int_value) t @ [[]])"
proof -
  have v: "map (map (ParsedValue_new ff)) (map (map show_int) t) = map (map Int_value) t"
    using assms(1) show_int_clean(2) from_chars_show by (simp add: ParsedValue_new_def)
  have "list_all (list_all clean) (map (map show_int) t)" "\<forall>r \<in> set (map (map show_int) t). r \<noteq> []"
    using assms(1) show_int_clean(1) by (auto simp: list_all_iff)
  from csv_cells [OF this assms(2), of E ff] show ?thesis unfolding v by simp
qed

section \<open>What goes wrong\<close>

text \<open>Without a newline at its end the last line loses a character; before a carriage return that character is kept.\<close>

lemma last_cell_cut: "splitString ''1,23'' CHR '','' = [''1'', ''2'']"
  by (simp add: splitString_def splitString_loop.simps find_char_def substr_def Let_def)

lemma crlf_cell_kept: "splitString (''a,b'' @ [CR, NL]) CHR '','' = [''a'', ''b'' @ [CR]]"
  by (simp add: splitString_def splitString_loop.simps find_char_def substr_def Let_def)

text \<open>A text that begins with digits counts as the number.\<close>

lemma text_as_number: "ParsedValue_new ff ''12 May'' = Int_value 12"
  by (simp add: ParsedValue_new_def isFloat_def find_char_def from_chars_int_def is_digit_def digits_value_def)

text \<open>An empty file fails in the mapping, not with the exception that is meant for it.\<close>

lemma size_updates [simp]: "descriptor (s\<lparr>fileSize := n\<rparr>) fd = descriptor s fd" "contents (s\<lparr>fileSize := n\<rparr>) p = contents s p"
  by (simp_all add: descriptor_def contents_def)

lemma empty_text_file:
  assumes "files s p = Some []" "smooth E"
  shows "fst (run_state (TextFile_new E p) s) = Throws (System_error EINVAL)"
proof -
  obtain fd s1 where 1: "run_state (Open E p READ_ONLY) (init_members s) = (Returns (), s1)" "opened s1 fd p READ_ONLY 0"
    "contents s1 p = []" "fileMapping s1 = None"
    using open_run [of "init_members s" E p READ_ONLY] assms smoothD(1) [OF assms(2)] by (auto simp: init_members_def contents_def)
  obtain s2 where "run_state (Reset E) s1 = (Throws (System_error EINVAL), s2)"
    using smoothD(1) [OF assms(2)] openedD [OF 1(2)] 1(3,4)
    by (cases "stamps E (calls s1)"; cases "stamps E (Suc (calls s1))")
      (simp add: Reset_def GetStats_def MapFile_def Mmap_def run_simps run_after sys_fstat_def sys_mmap_def sys_defs GetSize_def)
  then show ?thesis using 1(1) by (simp add: TextFile_new_def Text_Read_def run_simps run_after split: prod.split)
qed

definition no_text :: "(string \<Rightarrow> string option) \<Rightarrow> TextFile" where
  "no_text f = \<lparr>files = f, descs = [], calls = 0, fileInternal = None, openFlags = READ_ONLY, fileMapping = None,
     readPos = 0, endPos = 0, fileSize = 0, lineCount = 0, lineEnding = LF\<rparr>"

theorem csv_round_trip_witness:
  "\<exists>s' :: TextFile. run_state (after (TextFile_new calm ''t'') (\<lambda>_. Parse calm (\<lambda>_. None :: nat option)))
      (no_text [''t'' \<mapsto> ''1,-20'' @ [NL] @ ''3'' @ [NL]]) = (Returns [[Int_value 1, Int_value (- 20)], [Int_value 3], []], s')"
proof -
  let ?s = "no_text [''t'' \<mapsto> ''1,-20'' @ [NL] @ ''3'' @ [NL]]"
  have c: "contents ?s ''t'' = print_table (map (map show_int) [[1, - 20], [3]])"
    by (simp add: contents_def no_text_def print_table_def show_int_def show_nat.simps char_of_def bit_0)
  have "gives (smooth calm \<and> [[1, - 20], [3 :: int]] \<noteq> []) (after (TextFile_new calm ''t'') (\<lambda>_. Parse calm (\<lambda>_. None :: nat option))) ?s
      (\<lambda>rows _. rows = map (map Int_value) [[1, - 20], [3]] @ [[]])"
    by (rule csv_round_trip [OF _ c]) simp
  from gives_returns [OF this] show ?thesis by simp
qed

theorem text_file_lines_witness:
  "\<exists>ls (s' :: TextFile). run_state (after (TextFile_new calm ''t'') (\<lambda>_. ReadLines)) (no_text [''t'' \<mapsto> ''a'' @ [NL] @ ''b'']) = (Returns ls, s') \<and>
    concat ls = ''a'' @ [NL] @ ''b'' \<and> (\<forall>l \<in> set ls. NL \<notin> set (butlast l))"
proof -
  let ?s = "no_text [''t'' \<mapsto> ''a'' @ [NL] @ ''b'']"
  have c: "contents ?s ''t'' = ''a'' @ [NL] @ ''b''" by (simp add: contents_def no_text_def)
  note t = text_file_lines [of calm ?s "''t''"]
  show ?thesis using gives_returns [OF t] unfolding c by (auto simp: consistent_def)
qed

end
