(* ===== verification/Threads.thy ===== *)
theory Threads
  imports C_Io "HOL-Library.Multiset"
begin

text \<open>
  Threads that each hold one descriptor: a list of pairs of the descriptor and the place where the thread is.  What
  happens to the descriptors of the threads in certain places when one thread moves on.
\<close>

text \<open>The sockets of the threads that are in one of the places \<open>P\<close>.\<close>

definition fds_at :: "'p set \<Rightarrow> (int \<times> 'p) list \<Rightarrow> int list" where
  "fds_at P cs = map fst (filter (\<lambda>c. snd c \<in> P) cs)"

lemma fds_at_simps [simp]: "fds_at P [] = []" "fds_at P (c # cs) = (if snd c \<in> P then [fst c] else []) @ fds_at P cs"
  "fds_at P (cs @ ds) = fds_at P cs @ fds_at P ds"
  by (simp_all add: fds_at_def)

lemma fds_at_split: "i < length cs \<Longrightarrow> fds_at P (cs[i := c]) = fds_at P (take i cs) @ fds_at P [c] @ fds_at P (drop (Suc i) cs)"
  by (simp add: upd_conv_take_nth_drop)

lemma fds_at_nth: "i < length cs \<Longrightarrow> fds_at P cs = fds_at P (take i cs) @ fds_at P [cs ! i] @ fds_at P (drop (Suc i) cs)"
  using fds_at_split [of i cs P "cs ! i"] by simp

lemma fds_at_stay: "i < length cs \<Longrightarrow> cs ! i = (f, pc) \<Longrightarrow> pc \<in> P \<longleftrightarrow> pc' \<in> P \<Longrightarrow> fds_at P (cs[i := (f, pc')]) = fds_at P cs"
  by (simp add: fds_at_split fds_at_nth [of i cs])

lemma fds_at_leave: "i < length cs \<Longrightarrow> cs ! i = (f, pc) \<Longrightarrow> pc \<in> P \<Longrightarrow> pc' \<notin> P \<Longrightarrow>
    f \<in> set (fds_at P cs) \<and> mset (fds_at P (cs[i := (f, pc')])) = mset (fds_at P cs) - {#f#}"
  by (simp add: fds_at_split fds_at_nth [of i cs])

lemma map_fst_update: "i < length cs \<Longrightarrow> cs ! i = (f, pc) \<Longrightarrow> map fst (cs[i := (f, pc')]) = map fst cs"
  by (simp add: map_update list_update_same_conv)

lemma fst_at_mem: "i < length cs \<Longrightarrow> cs ! i = (f, pc) \<Longrightarrow> f \<in> fst ` set cs"
  by (force simp: in_set_conv_nth)

lemma mset_append_less: "f \<in> set B \<Longrightarrow> mset B' = mset B - {#f#} \<Longrightarrow> mset (A @ B') = mset (A @ B) - {#f#}"
  using diff_union_single_conv [of f "mset B" "mset A"] by (simp only: mset_append set_mset_mset)

text \<open>The descriptor that a thread gives up disappears from a list without duplicates.\<close>

lemma distinct_less: "distinct xs \<Longrightarrow> f \<in> set xs \<Longrightarrow> mset ys = mset xs - {#f#} \<Longrightarrow> distinct ys \<and> set ys = set xs - {f}"
  by (metis distinct_remove1 mset_eq_imp_distinct_iff mset_eq_setD mset_remove1 set_remove1_eq)

text \<open>A thread with a descriptor of its own is the only one that disappears with it.\<close>

lemma fds_at_leave_distinct:
  assumes "i < length cs" "cs ! i = (f, pc)" "pc \<in> P" "pc' \<notin> P" "distinct (fds_at P cs)"
  shows "f \<in> set (fds_at P cs) \<and> distinct (fds_at P (cs[i := (f, pc')])) \<and> set (fds_at P (cs[i := (f, pc')])) = set (fds_at P cs) - {f}"
  using fds_at_leave [OF assms(1-4)] distinct_less [OF assms(5)] by blast

lemma fds_at_mono: "P \<subseteq> Q \<Longrightarrow> set (fds_at P cs) \<subseteq> set (fds_at Q cs)"
  by (auto simp: fds_at_def)

lemma fds_at_mem: "i < length cs \<Longrightarrow> cs ! i = (f, pc) \<Longrightarrow> pc \<in> P \<Longrightarrow> f \<in> set (fds_at P cs)"
  unfolding fds_at_def by (force simp: in_set_conv_nth)

lemma fds_at_distinct_mono: "P \<subseteq> Q \<Longrightarrow> distinct (fds_at Q cs) \<Longrightarrow> distinct (fds_at P cs)"
proof (induction cs)
  case (Cons c cs)
  then have "fst c \<notin> set (fds_at Q cs)" if "snd c \<in> P" using that by auto
  then have "fst c \<notin> set (fds_at P cs)" if "snd c \<in> P" using that fds_at_mono [OF Cons.prems(1)] by blast
  then show ?case using Cons by (auto split: if_splits)
qed simp

end
