(* ===== verification/Server.thy ===== *)
theory Server
  imports Threads
begin

text \<open>
  The TCP server of Linux/server.c: one thread accepts connections, one thread serves each client, and the thread of
  the application stops the server.  They share the list of client sockets, which a mutex guards, and the
  table of descriptors of the process.  The model is a step relation for every
  thread; a step is one call of the system or one piece of code that runs under the mutex, the steps of the threads
  interleave, and what the system and the callbacks answer is left open.  Other code of the process opens descriptors of its
  own.  Descriptor 0 is open from the start.
\<close>

section \<open>The list of clients\<close>

definition MAX_CLIENTS :: nat where "MAX_CLIENTS = 128"
definition EAGAIN :: int where "EAGAIN = 11"

fun add_client_to_list :: "int \<Rightarrow> int list \<Rightarrow> int \<times> int list" where
  "add_client_to_list new_socket [] = (EAGAIN, [])"
| "add_client_to_list new_socket (x # xs) =
     (if x = 0 then (0, new_socket # xs)
      else (case add_client_to_list new_socket xs of (r, ys) \<Rightarrow> (r, x # ys)))"

fun remove_client_from_list :: "int \<Rightarrow> int list \<Rightarrow> int list" where
  "remove_client_from_list old_socket [] = []"
| "remove_client_from_list old_socket (x # xs) =
     (if x = old_socket then 0 # xs else x # remove_client_from_list old_socket xs)"

section \<open>The state\<close>

text \<open>Where the accepting thread, a client's thread and the application's call of \<open>server_stop\<close> are.\<close>

datatype server_pc = Listening | Allocating | Accepting | Adding int | Creating int | Undoing int | Ending | Ended

datatype client_pc = Begun | Reading | Closing | Removing | Gone

datatype main_pc = Running | Terminating nat | Close_listener | Joining | Stopped

record server_state =
  client_socket_list :: "int list"
  open_fds :: "int set"
  foreign :: "int set"
  srv :: server_pc
  clientfd :: "int option"
  listener :: int
  clients :: "(int \<times> client_pc) list"
  main :: main_pc

definition start_state :: "int \<Rightarrow> server_state" where
  "start_state l = \<lparr>client_socket_list = replicate MAX_CLIENTS 0, open_fds = {0, l}, foreign = {}, srv = Listening, clientfd = None,
     listener = l, clients = [], main = Running\<rparr>"

text \<open>\<open>terminate_all_clients\<close> holds the mutex all the time.\<close>

definition lock_free :: "server_state \<Rightarrow> bool" where
  "lock_free s \<longleftrightarrow> (\<forall>i. main s \<noteq> Terminating i)"

definition close_fd :: "int \<Rightarrow> server_state \<Rightarrow> server_state" where
  "close_fd f s = s\<lparr>open_fds := open_fds s - {f}\<rparr>"

text \<open>The condition at the end of the accepting loop; a variable that was never written may hold anything.\<close>

definition loop_condition :: "server_state \<Rightarrow> bool \<Rightarrow> bool" where
  "loop_condition s b \<longleftrightarrow> (case clientfd s of None \<Rightarrow> True | Some f \<Rightarrow> b = (0 < f \<and> 0 < listener s))"

definition next_round :: "bool \<Rightarrow> server_pc" where
  "next_round b = (if b then Allocating else Ending)"

section \<open>The accepting thread\<close>

text \<open>
  \<open>server_handler\<close>.  When the memory for a client or the connection fails, the callback for errors decides whether
  the loop is left; otherwise the \<open>continue\<close> evaluates the condition of the loop.
\<close>

inductive server_step :: "server_state \<Rightarrow> server_state \<Rightarrow> bool" where
  listen_ok: "srv s = Listening \<Longrightarrow> server_step s (s\<lparr>srv := Allocating\<rparr>)"
| listen_error: "srv s = Listening \<Longrightarrow> server_step s (s\<lparr>srv := Ending\<rparr>)"
| malloc_ok: "srv s = Allocating \<Longrightarrow> server_step s (s\<lparr>srv := Accepting\<rparr>)"
| malloc_error_stop: "srv s = Allocating \<Longrightarrow> server_step s (s\<lparr>srv := Ending\<rparr>)"
| malloc_error_continue: "srv s = Allocating \<Longrightarrow> loop_condition s b \<Longrightarrow> server_step s (s\<lparr>srv := next_round b\<rparr>)"
| accept_ok: "srv s = Accepting \<Longrightarrow> 0 \<le> f \<Longrightarrow> f \<notin> open_fds s \<Longrightarrow>
    server_step s (s\<lparr>srv := Adding f, clientfd := Some f, open_fds := insert f (open_fds s)\<rparr>)"
| accept_error_stop: "srv s = Accepting \<Longrightarrow> server_step s (s\<lparr>srv := Ending, clientfd := Some (- 1)\<rparr>)"
| accept_error_continue: "srv s = Accepting \<Longrightarrow> loop_condition (s\<lparr>clientfd := Some (- 1)\<rparr>) b \<Longrightarrow>
    server_step s (s\<lparr>srv := next_round b, clientfd := Some (- 1)\<rparr>)"
| add_ok: "srv s = Adding f \<Longrightarrow> lock_free s \<Longrightarrow> add_client_to_list f (client_socket_list s) = (0, xs) \<Longrightarrow>
    server_step s (s\<lparr>srv := Creating f, client_socket_list := xs\<rparr>)"
| add_error: "srv s = Adding f \<Longrightarrow> lock_free s \<Longrightarrow> add_client_to_list f (client_socket_list s) = (r, xs) \<Longrightarrow> r \<noteq> 0 \<Longrightarrow>
    server_step s (s\<lparr>srv := Ending, client_socket_list := xs\<rparr>)"
| create_ok: "srv s = Creating f \<Longrightarrow> loop_condition s b \<Longrightarrow>
    server_step s (s\<lparr>srv := next_round b, clients := clients s @ [(f, Begun)]\<rparr>)"
| create_error: "srv s = Creating f \<Longrightarrow> server_step s (close_fd f s\<lparr>srv := Undoing f\<rparr>)"
| create_undo: "srv s = Undoing f \<Longrightarrow> lock_free s \<Longrightarrow>
    server_step s (s\<lparr>srv := Ending, client_socket_list := remove_client_from_list f (client_socket_list s)\<rparr>)"
| shutdown: "srv s = Ending \<Longrightarrow> server_step s (s\<lparr>srv := Ended\<rparr>)"

section \<open>A client's thread\<close>

text \<open>
  \<open>client_handler\<close>.  It serves when the memory, the callback \<open>connected\<close> and the options of the socket are
  all right, and goes on as long as data comes and \<open>receive\<close> returns 0.
\<close>

inductive client_step :: "server_state \<Rightarrow> server_state \<Rightarrow> bool" where
  serve: "i < length (clients s) \<Longrightarrow> clients s ! i = (f, Begun) \<Longrightarrow> client_step s (s\<lparr>clients := (clients s)[i := (f, Reading)]\<rparr>)"
| refuse: "i < length (clients s) \<Longrightarrow> clients s ! i = (f, Begun) \<Longrightarrow> client_step s (s\<lparr>clients := (clients s)[i := (f, Closing)]\<rparr>)"
| receive: "i < length (clients s) \<Longrightarrow> clients s ! i = (f, Reading) \<Longrightarrow> client_step s s"
| leave: "i < length (clients s) \<Longrightarrow> clients s ! i = (f, Reading) \<Longrightarrow> client_step s (s\<lparr>clients := (clients s)[i := (f, Closing)]\<rparr>)"
| close_socket: "i < length (clients s) \<Longrightarrow> clients s ! i = (f, Closing) \<Longrightarrow>
    client_step s (close_fd f s\<lparr>clients := (clients s)[i := (f, Removing)]\<rparr>)"
| remove_client: "i < length (clients s) \<Longrightarrow> clients s ! i = (f, Removing) \<Longrightarrow> lock_free s \<Longrightarrow>
    client_step s (s\<lparr>clients := (clients s)[i := (f, Gone)], client_socket_list := remove_client_from_list f (client_socket_list s)\<rparr>)"

section \<open>Stopping\<close>

text \<open>\<open>terminate_all_clients\<close>, which closes the sockets one after the other.\<close>

inductive terminate_step :: "server_state \<Rightarrow> server_state \<Rightarrow> bool" where
  stop_client: "main s = Terminating i \<Longrightarrow> i < MAX_CLIENTS \<Longrightarrow>
    terminate_step s ((if client_socket_list s ! i \<noteq> 0 then close_fd (client_socket_list s ! i) s else s)\<lparr>main := Terminating (Suc i)\<rparr>)"
| stop_unlock: "main s = Terminating MAX_CLIENTS \<Longrightarrow> terminate_step s (s\<lparr>main := Close_listener\<rparr>)"

text \<open>The rest of \<open>server_stop\<close>, and \<open>server_wait_for_err\<close>.\<close>

inductive stop_step :: "server_state \<Rightarrow> server_state \<Rightarrow> bool" where
  stop_begin: "main s = Running \<Longrightarrow> stop_step s (s\<lparr>main := Terminating 0\<rparr>)"
| stop_listener: "main s = Close_listener \<Longrightarrow> stop_step s (close_fd (listener s) s\<lparr>main := Joining\<rparr>)"
| stop_join: "main s = Joining \<Longrightarrow> srv s = Ended \<Longrightarrow> stop_step s (s\<lparr>main := Stopped\<rparr>)"

text \<open>Other code of the process opens a file.\<close>

inductive other_step :: "server_state \<Rightarrow> server_state \<Rightarrow> bool" where
  other_open: "0 \<le> f \<Longrightarrow> f \<notin> open_fds s \<Longrightarrow> other_step s (s\<lparr>open_fds := insert f (open_fds s), foreign := insert f (foreign s)\<rparr>)"

inductive reachable :: "int \<Rightarrow> server_state \<Rightarrow> bool" for l where
  start: "0 < l \<Longrightarrow> reachable l (start_state l)"
| server: "reachable l s \<Longrightarrow> server_step s s' \<Longrightarrow> reachable l s'"
| client: "reachable l s \<Longrightarrow> client_step s s' \<Longrightarrow> reachable l s'"
| terminate: "reachable l s \<Longrightarrow> terminate_step s s' \<Longrightarrow> reachable l s'"
| stop: "reachable l s \<Longrightarrow> stop_step s s' \<Longrightarrow> reachable l s'"
| other: "reachable l s \<Longrightarrow> other_step s s' \<Longrightarrow> reachable l s'"

section \<open>The list is exact\<close>

abbreviation live :: "(int \<times> client_pc) list \<Rightarrow> int list" where
  "live \<equiv> fds_at {Begun, Reading, Closing, Removing}"

text \<open>The sockets that the list should hold: of the client being set up and of the threads that have not removed theirs.\<close>

definition registered :: "server_state \<Rightarrow> int list" where
  "registered s = (case srv s of Creating f \<Rightarrow> [f] | Undoing f \<Rightarrow> [f] | _ \<Rightarrow> []) @ live (clients s)"

definition used :: "int list \<Rightarrow> int multiset" where
  "used xs = filter_mset (\<lambda>f. f \<noteq> 0) (mset xs)"

lemma used_simps [simp]: "used [] = {#}" "used (x # xs) = (if x = 0 then used xs else add_mset x (used xs))"
  by (simp_all add: used_def)

lemma used_replicate [simp]: "used (replicate n 0) = {#}"
  by (induction n) simp_all

lemma add_client_run: "f \<noteq> 0 \<Longrightarrow> add_client_to_list f xs = (r, ys) \<Longrightarrow>
    length ys = length xs \<and> (if 0 \<in> set xs then r = 0 \<and> used ys = add_mset f (used xs) else r = EAGAIN \<and> ys = xs)"
  by (induction xs arbitrary: r ys) (auto split: if_splits prod.splits)

lemma remove_client_run: "f \<noteq> 0 \<Longrightarrow> f \<in># used xs \<Longrightarrow>
    length (remove_client_from_list f xs) = length xs \<and> used (remove_client_from_list f xs) = used xs - {#f#}"
  by (induction xs) (auto split: if_splits)

lemma used_member: "i < length xs \<Longrightarrow> xs ! i \<noteq> 0 \<Longrightarrow> xs ! i \<in># used xs"
  by (simp add: used_def)

lemma used_size: "size (used xs) + count_list xs 0 = length xs"
  by (induction xs) auto

definition list_exact :: "server_state \<Rightarrow> bool" where
  "list_exact s \<longleftrightarrow> length (client_socket_list s) = MAX_CLIENTS \<and> used (client_socket_list s) = mset (registered s) \<and>
     (\<forall>f \<in> set (registered s). 0 < f) \<and> (\<forall>f. srv s = Adding f \<longrightarrow> 0 < f) \<and> 0 \<in> open_fds s \<and> 0 < listener s \<and>
     (\<forall>f \<in> set (map fst (clients s)). 0 < f)"

lemma list_exact_start: "0 < l \<Longrightarrow> list_exact (start_state l)"
  by (simp add: list_exact_def start_state_def registered_def)

lemma list_exact_server: "server_step s s' \<Longrightarrow> list_exact s \<Longrightarrow> list_exact s'"
proof (induction rule: server_step.induct)
  case (add_ok s f xs)
  then show ?case using add_client_run [of f "client_socket_list s" 0 xs]
    by (auto simp: list_exact_def registered_def EAGAIN_def split: if_splits)
next
  case (add_error s f r xs)
  then show ?case using add_client_run [of f "client_socket_list s" r xs]
    by (auto simp: list_exact_def registered_def split: if_splits)
next
  case (accept_ok s f)
  then have "f \<noteq> 0" by (auto simp: list_exact_def)
  then show ?case using accept_ok by (auto simp: list_exact_def registered_def)
next
  case (create_undo s f)
  then show ?case using remove_client_run [of f "client_socket_list s"]
    by (auto simp: list_exact_def registered_def)
qed (auto simp: list_exact_def registered_def close_fd_def next_round_def split: server_pc.splits)

lemma list_exact_client: "client_step s s' \<Longrightarrow> list_exact s \<Longrightarrow> list_exact s'"
proof (induction rule: client_step.induct)
  case (remove_client i s f)
  let ?s = "s\<lparr>clients := (clients s)[i := (f, Gone)], client_socket_list := remove_client_from_list f (client_socket_list s)\<rparr>"
  let ?P = "case srv s of Creating f \<Rightarrow> [f] | Undoing f \<Rightarrow> [f] | _ \<Rightarrow> []"
  have g: "f \<in> set (live (clients s))" "mset (live ((clients s)[i := (f, Gone)])) = mset (live (clients s)) - {#f#}"
    using fds_at_leave [OF remove_client(1,2), of _ Gone] by simp_all
  note e = remove_client(4) [unfolded list_exact_def]
  have r: "registered s = ?P @ live (clients s)" "registered ?s = ?P @ live ((clients s)[i := (f, Gone)])"
    by (simp_all add: registered_def)
  have f: "f \<in> set (live (clients s))" "f \<noteq> 0" using g e r(1) by auto
  have u: "f \<in># used (client_socket_list s)" using e r(1) f(1) by simp
  have m: "mset (registered ?s) = mset (registered s) - {#f#}"
    unfolding r by (rule mset_append_less [OF f(1)]) (use g in simp)
  then have "set (registered ?s) \<subseteq> set (registered s)" by (metis in_diffD set_mset_mset subsetI)
  then have p: "\<forall>f \<in> set (registered ?s). 0 < f" using e by blast
  have "map fst (clients ?s) = map fst (clients s)" using map_fst_update [OF remove_client(1,2), of Gone] by simp
  then have q: "\<forall>f \<in> set (map fst (clients ?s)). 0 < f" using e by presburger
  have c: "length (client_socket_list ?s) = MAX_CLIENTS" "used (client_socket_list ?s) = mset (registered ?s)"
    using remove_client_run [OF f(2) u] e m by simp_all
  have k: "\<forall>f. srv ?s = Adding f \<longrightarrow> 0 < f" "0 \<in> open_fds ?s" "0 < listener ?s" using e by simp_all
  show ?case unfolding list_exact_def by (intro conjI c p k q)
next
  case (close_socket i s f)
  have "f \<in> set (map fst (clients s))" using nth_mem [OF close_socket(1)] close_socket(2) by force
  then have "0 < f" using close_socket(3) unfolding list_exact_def by blast
  then show ?case using close_socket
    by (auto simp: list_exact_def registered_def close_fd_def fds_at_stay map_fst_update simp del: set_map)
qed (auto simp: list_exact_def registered_def fds_at_stay map_fst_update simp del: set_map)

lemma list_exact_stop: "stop_step s s' \<Longrightarrow> list_exact s \<Longrightarrow> list_exact s'"
  by (induction rule: stop_step.induct) (auto simp: list_exact_def registered_def close_fd_def simp del: set_map)

lemma list_exact_terminate: "terminate_step s s' \<Longrightarrow> list_exact s \<Longrightarrow> list_exact s'"
proof (induction rule: terminate_step.induct)
  case (stop_client s i)
  have "client_socket_list s ! i \<in># used (client_socket_list s)" if "client_socket_list s ! i \<noteq> 0"
    by (rule used_member) (use that stop_client(2,3) in \<open>simp_all add: list_exact_def\<close>)
  then show ?case using stop_client by (auto simp: list_exact_def registered_def close_fd_def simp del: set_map)
qed (auto simp: list_exact_def registered_def close_fd_def simp del: set_map)

lemma reachable_list_exact: "reachable l s \<Longrightarrow> list_exact s"
proof (induction rule: reachable.induct)
  case (other s s')
  then show ?case by (auto simp: list_exact_def registered_def elim!: other_step.cases)
qed (auto intro: list_exact_start list_exact_server list_exact_client list_exact_terminate list_exact_stop)

text \<open>
  C10: in every interleaving of the threads the list of clients holds, as a multiset, exactly the registered sockets: that of the
  client whose thread is being created, and of every thread of a client until it has removed its socket, which is after it has
  closed it.  A number that the system gives out again between the closing and the removal is registered twice and stands in the list
  twice.  There are never more than \<open>MAX_CLIENTS\<close> registered sockets, and adding one fails exactly when there are so
  many, so that a connection is refused only when the list is full.
\<close>

theorem server_list_exact:
  assumes "reachable l s"
  shows "length (client_socket_list s) = MAX_CLIENTS \<and> filter_mset (\<lambda>f. f \<noteq> 0) (mset (client_socket_list s)) = mset (registered s) \<and>
    length (registered s) \<le> MAX_CLIENTS \<and>
    (fst (add_client_to_list f (client_socket_list s)) = EAGAIN \<longleftrightarrow> length (registered s) = MAX_CLIENTS)"
proof -
  have e: "length (client_socket_list s) = MAX_CLIENTS" "used (client_socket_list s) = mset (registered s)"
    using reachable_list_exact [OF assms] by (auto simp: list_exact_def)
  have n: "length (registered s) + count_list (client_socket_list s) 0 = MAX_CLIENTS"
    using used_size [of "client_socket_list s"] e by (simp add: size_mset [symmetric] del: size_mset)
  have "fst (add_client_to_list f xs) = EAGAIN \<longleftrightarrow> 0 \<notin> set xs" for xs
    by (induction xs) (auto simp: EAGAIN_def split: prod.split)
  moreover have "0 \<notin> set (client_socket_list s) \<longleftrightarrow> length (registered s) = MAX_CLIENTS"
    using n by (simp add: count_list_0_iff [symmetric]) linarith
  ultimately show ?thesis using e n unfolding used_def by simp
qed

section \<open>Who closes what\<close>

text \<open>The connections that a thread is responsible for and has not closed.\<close>

definition owned :: "server_state \<Rightarrow> int list" where
  "owned s = (case srv s of Adding f \<Rightarrow> [f] | Creating f \<Rightarrow> [f] | _ \<Rightarrow> []) @ fds_at {Begun, Reading, Closing} (clients s)"

definition orderly :: "server_state \<Rightarrow> bool" where
  "orderly s \<longleftrightarrow> distinct (owned s) \<and> set (owned s) \<union> foreign s \<union> {listener s} \<subseteq> open_fds s \<and>
     set (owned s) \<inter> foreign s = {} \<and> listener s \<notin> set (owned s) \<union> foreign s"

lemma orderly_server: "server_step s s' \<Longrightarrow> orderly s \<Longrightarrow> orderly s'"
  by (induction rule: server_step.induct)
    (auto simp: orderly_def owned_def close_fd_def next_round_def split: server_pc.splits)

lemma orderly_client: "client_step s s' \<Longrightarrow> orderly s \<Longrightarrow> orderly s'"
proof (induction rule: client_step.induct)
  case (close_socket i s f)
  let ?s = "close_fd f s\<lparr>clients := (clients s)[i := (f, Removing)]\<rparr>"
  have g: "f \<in> set (fds_at {Begun, Reading, Closing} (clients s))"
    "mset (fds_at {Begun, Reading, Closing} ((clients s)[i := (f, Removing)])) = mset (fds_at {Begun, Reading, Closing} (clients s)) - {#f#}"
    using fds_at_leave [OF close_socket(1,2), of "{Begun, Reading, Closing}" Removing] by simp_all
  have o: "mset (owned ?s) = mset (owned s) - {#f#}" "f \<in> set (owned s)"
    using g mset_append_less [OF g] by (auto simp: owned_def close_fd_def)
  have "distinct (owned s)" using close_socket(3) by (simp add: orderly_def)
  from distinct_less [OF this o(2,1)] have "set (owned ?s) = set (owned s) - {f}" "distinct (owned ?s)" by auto
  then show ?case using close_socket(3) o(2) by (auto simp: orderly_def close_fd_def)
qed (auto simp: orderly_def owned_def fds_at_stay)

text \<open>
  C11: as long as nobody stops the server, every thread closes its own connection only: the connections that
  are still open belong to one thread each, they and the listening socket and all descriptors of other
  code of the process are open, and none of them is in the hands of two.
\<close>

theorem server_orderly:
  assumes "reachable l s" "main s = Running"
  shows "distinct (owned s) \<and> set (owned s) \<union> foreign s \<union> {l} \<subseteq> open_fds s \<and> set (owned s) \<inter> foreign s = {} \<and>
    l \<notin> set (owned s) \<union> foreign s"
proof -
  have "(main s = Running \<longrightarrow> orderly s) \<and> listener s = l" using assms(1)
  proof (induction rule: reachable.induct)
    case start
    then show ?case by (auto simp: start_state_def orderly_def owned_def)
  next
    case (server s s')
    then have "main s' = main s \<and> listener s' = listener s" by (auto simp: close_fd_def elim!: server_step.cases)
    then show ?case using server orderly_server by auto
  next
    case (client s s')
    then have "main s' = main s \<and> listener s' = listener s" by (auto simp: close_fd_def elim!: client_step.cases)
    then show ?case using client orderly_client by auto
  next
    case (terminate s s')
    then show ?case by (auto simp: close_fd_def elim!: terminate_step.cases)
  next
    case (stop s s')
    then show ?case by (auto simp: close_fd_def elim!: stop_step.cases)
  next
    case (other s s')
    then show ?case by (auto simp: orderly_def owned_def elim!: other_step.cases)
  qed
  then show ?thesis using assms(2) unfolding orderly_def by blast
qed

text \<open>
  C28: stopping the server closes the sockets of the clients under the feet of their threads, which close them once more:
  a descriptor that other code of the process has opened in between is closed by the server.
\<close>

theorem server_stop_closes_foreign:
  assumes "0 < l" "0 < f" "f \<noteq> l"
  shows "\<exists>s. reachable l s \<and> f \<in> foreign s \<and> f \<notin> open_fds s"
proof -
  have slots: "replicate MAX_CLIENTS (0 :: int) = 0 # replicate 127 0"
    by (simp add: MAX_CLIENTS_def numeral_eq_Suc)
  have add: "add_client_to_list f (replicate MAX_CLIENTS 0) = (0, f # replicate 127 0)" by (simp add: slots)
  note run = start_state_def slots lock_free_def loop_condition_def close_fd_def MAX_CLIENTS_def
  let ?s0 = "start_state l"
  let ?s1 = "?s0\<lparr>srv := Allocating\<rparr>"
  let ?s2 = "?s1\<lparr>srv := Accepting\<rparr>"
  let ?s3 = "?s2\<lparr>srv := Adding f, clientfd := Some f, open_fds := insert f (open_fds ?s2)\<rparr>"
  let ?s4 = "?s3\<lparr>srv := Creating f, client_socket_list := f # replicate 127 0\<rparr>"
  let ?s5 = "?s4\<lparr>srv := next_round True, clients := clients ?s4 @ [(f, Begun)]\<rparr>"
  let ?s6 = "?s5\<lparr>clients := (clients ?s5)[0 := (f, Closing)]\<rparr>"
  let ?s7 = "?s6\<lparr>main := Terminating 0\<rparr>"
  let ?s8 = "(if client_socket_list ?s7 ! 0 \<noteq> 0 then close_fd (client_socket_list ?s7 ! 0) ?s7 else ?s7)\<lparr>main := Terminating (Suc 0)\<rparr>"
  let ?s9 = "?s8\<lparr>open_fds := insert f (open_fds ?s8), foreign := insert f (foreign ?s8)\<rparr>"
  let ?s10 = "close_fd f ?s9\<lparr>clients := (clients ?s9)[0 := (f, Removing)]\<rparr>"
  have "reachable l ?s0" using assms(1) by (rule reachable.start)
  then have "reachable l ?s1" by (rule reachable.server) (rule listen_ok, simp add: run)
  then have "reachable l ?s2" by (rule reachable.server) (rule malloc_ok, simp)
  then have "reachable l ?s3" by (rule reachable.server) (rule accept_ok, use assms in \<open>simp_all add: run\<close>)
  then have "reachable l ?s4" by (rule reachable.server) (rule add_ok, simp_all add: start_state_def lock_free_def add)
  then have "reachable l ?s5" by (rule reachable.server) (rule create_ok, use assms in \<open>simp_all add: run\<close>)
  then have "reachable l ?s6" by (rule reachable.client) (rule refuse, simp_all add: run)
  then have "reachable l ?s7" by (rule reachable.stop) (rule stop_begin, simp add: run)
  then have "reachable l ?s8" by (rule reachable.terminate) (rule stop_client, simp_all add: run)
  then have "reachable l ?s9" by (rule reachable.other) (rule other_open, use assms in \<open>simp_all add: run\<close>)
  then have "reachable l ?s10" by (rule reachable.client) (rule close_socket, use assms in \<open>simp_all add: run\<close>)
  moreover have "f \<in> foreign ?s10 \<and> f \<notin> open_fds ?s10" using assms by (simp add: run)
  ultimately show ?thesis by blast
qed

text \<open>One failed \<open>accept\<close> ends the accepting thread, also when the callback for errors asks to go on; a refused connection stays open.\<close>

lemma accept_error_ends: "srv s = Accepting \<Longrightarrow> server_step s s' \<Longrightarrow> clientfd s' = Some (- 1) \<Longrightarrow> srv s' = Ending"
  by (auto simp: loop_condition_def next_round_def elim!: server_step.cases)

lemma ending_ends: "srv s = Ending \<or> srv s = Ended \<Longrightarrow> server_step s s' \<Longrightarrow> srv s' = Ended"
  by (auto elim!: server_step.cases)

lemma refused_stays_open:
  "srv s = Adding f \<Longrightarrow> 0 \<notin> set (client_socket_list s) \<Longrightarrow> f \<in> open_fds s \<Longrightarrow> server_step s s' \<Longrightarrow> f \<noteq> 0 \<Longrightarrow>
    srv s' = Ending \<and> f \<in> open_fds s' \<and> clients s' = clients s"
  using add_client_run [of f "client_socket_list s"] by (auto simp: EAGAIN_def elim!: server_step.cases)

section \<open>Starting and waiting\<close>

text \<open>
  \<open>server_start\<close> as its calls: the memory, the socket, the address, the thread.  What they answer is given; a null
  pointer for the callbacks ends it after the memory was taken.
\<close>

datatype start_call = Malloc | Socket | Bind int | Create | Free | Close int | Error string int

record start_answers =
  memory :: bool
  sockfd :: "int + int"
  bind_error :: int
  create_error :: int

definition report :: "bool \<Rightarrow> string \<Rightarrow> int \<Rightarrow> (start_call io, unit) state" where
  "report has_error str err = (if has_error then call (Error str err) else skip)"

definition server_start :: "start_answers \<Rightarrow> bool option \<Rightarrow> (start_call io, int option) state" where
  "server_start ans ops = do {
     call Malloc;
     case ops of None \<Rightarrow> State_Monad.return None
     | Some has_error \<Rightarrow>
         if \<not> memory ans then do { report has_error ''No memory'' 12; State_Monad.return None }
         else do {
           call Socket;
           case sockfd ans of
             Inl errno \<Rightarrow> do { report has_error ''Open socket error'' errno; call Free; call (Close (- 1)); State_Monad.return None }
           | Inr fd \<Rightarrow> do {
               call (Bind fd);
               if bind_error ans \<noteq> 0
               then do { report has_error ''Bind socked error'' (bind_error ans); call (Close fd); State_Monad.return None }
               else do {
                 call Create;
                 if create_error ans \<noteq> 0
                 then do { report has_error ''Thread create error'' (create_error ans); call Free; call (Close fd); State_Monad.return None }
                 else State_Monad.return (Some fd) } } } }"

text \<open>A socket that was opened is closed on every failure; the memory is lost when the address is in use, and when there are no callbacks.\<close>

lemma start_failure_closes:
  "fst (run_state (server_start ans ops) io_start) = None \<Longrightarrow> memory ans \<Longrightarrow> ops \<noteq> None \<Longrightarrow> sockfd ans = Inr fd \<Longrightarrow>
    last (trace (snd (run_state (server_start ans ops) io_start))) = Close fd"
  by (auto simp: server_start_def report_def run_simps split: if_splits)

lemma start_leaks:
  "Free \<notin> set (trace (snd (run_state (server_start ans None) io_start)))"
  "memory ans \<Longrightarrow> sockfd ans = Inr fd \<Longrightarrow> bind_error ans \<noteq> 0 \<Longrightarrow>
    Free \<notin> set (trace (snd (run_state (server_start ans (Some b)) io_start)))"
  by (auto simp: server_start_def report_def run_simps)

text \<open>\<open>send_to_client\<close>: the error of the system, or 0, also for a part of the message.\<close>

definition send_to_client :: "int + nat \<Rightarrow> int" where
  "send_to_client sent = (case sent of Inl errno \<Rightarrow> errno | Inr _ \<Rightarrow> 0)"

section \<open>Examples\<close>

text \<open>A client whose thread has closed its socket and not removed it, and the next one, which got the same number.\<close>

definition reused_state :: "int \<Rightarrow> int \<Rightarrow> server_state" where
  "reused_state l f = \<lparr>client_socket_list = f # f # replicate 126 0, open_fds = {f, 0, l}, foreign = {}, srv = Creating f,
     clientfd = Some f, listener = l, clients = [(f, Removing)], main = Running\<rparr>"

lemma reused_reachable:
  assumes "0 < l" "0 < f" "f \<noteq> l"
  shows "reachable l (reused_state l f)"
proof -
  have slots: "replicate MAX_CLIENTS (0 :: int) = 0 # 0 # replicate 126 0"
    by (simp add: MAX_CLIENTS_def numeral_eq_Suc)
  note run = start_state_def slots lock_free_def loop_condition_def close_fd_def next_round_def
  let ?s1 = "(start_state l)\<lparr>srv := Allocating\<rparr>"
  let ?s2 = "?s1\<lparr>srv := Accepting\<rparr>"
  let ?s3 = "?s2\<lparr>srv := Adding f, clientfd := Some f, open_fds := insert f (open_fds ?s2)\<rparr>"
  let ?s4 = "?s3\<lparr>srv := Creating f, client_socket_list := f # 0 # replicate 126 0\<rparr>"
  let ?s5 = "?s4\<lparr>srv := next_round True, clients := clients ?s4 @ [(f, Begun)]\<rparr>"
  let ?s6 = "?s5\<lparr>clients := (clients ?s5)[0 := (f, Closing)]\<rparr>"
  let ?s7 = "close_fd f ?s6\<lparr>clients := (clients ?s6)[0 := (f, Removing)]\<rparr>"
  let ?s8 = "?s7\<lparr>srv := Accepting\<rparr>"
  let ?s9 = "?s8\<lparr>srv := Adding f, clientfd := Some f, open_fds := insert f (open_fds ?s8)\<rparr>"
  let ?s10 = "?s9\<lparr>srv := Creating f, client_socket_list := f # f # replicate 126 0\<rparr>"
  have "reachable l (start_state l)" using assms(1) by (rule reachable.start)
  then have "reachable l ?s1" by (rule reachable.server) (rule listen_ok, simp add: run)
  then have "reachable l ?s2" by (rule reachable.server) (rule malloc_ok, simp)
  then have "reachable l ?s3" by (rule reachable.server) (rule accept_ok, use assms in \<open>simp_all add: run\<close>)
  then have "reachable l ?s4" by (rule reachable.server) (rule add_ok, simp_all add: run)
  then have "reachable l ?s5" by (rule reachable.server) (rule create_ok, use assms in \<open>simp_all add: run\<close>)
  then have "reachable l ?s6" by (rule reachable.client) (rule refuse, simp_all add: run)
  then have "reachable l ?s7" by (rule reachable.client) (rule close_socket, simp_all add: run)
  then have "reachable l ?s8" by (rule reachable.server) (rule malloc_ok, simp add: run)
  then have "reachable l ?s9" by (rule reachable.server) (rule accept_ok, use assms in \<open>simp_all add: run\<close>)
  then have "reachable l ?s10" by (rule reachable.server) (rule add_ok, use assms in \<open>simp_all add: run\<close>)
  moreover have "?s10 = reused_state l f" using assms by (auto simp: reused_state_def run)
  ultimately show ?thesis by simp
qed

theorem server_list_exact_witness:
  "filter_mset (\<lambda>f. f \<noteq> 0) (mset (client_socket_list (reused_state 3 5))) = {#5, 5#} \<and>
   fst (add_client_to_list 7 (client_socket_list (reused_state 3 5))) \<noteq> EAGAIN"
proof -
  have "reachable 3 (reused_state 3 5)" by (rule reused_reachable) simp_all
  moreover have "registered (reused_state 3 5) = [5, 5]" by (simp add: registered_def reused_state_def)
  ultimately show ?thesis using server_list_exact [of 3 "reused_state 3 5" 7] by (simp add: MAX_CLIENTS_def)
qed

theorem server_orderly_witness: "set (owned (start_state 3)) \<union> foreign (start_state 3) \<union> {3} \<subseteq> open_fds (start_state 3)"
  using server_orderly [OF reachable.start [of 3]] by (simp add: start_state_def)

theorem server_stop_closes_foreign_witness: "\<exists>s. reachable 3 s \<and> 5 \<in> foreign s \<and> 5 \<notin> open_fds s"
  using server_stop_closes_foreign [of 3 5] by simp

end
