(* ===== verification/Hd44780_Cpp.thy ===== *)
theory Hd44780_Cpp
  imports C_Io
begin

text \<open>
  The class for character displays of Common/HD44780.cpp.  \<open>Write\<close> and \<open>DelayUs\<close> of the interface are recorded
  as calls.  The member \<open>is_backlight_enabled_\<close>, which the constructor does not set, is an argument and, where it
  changes, a result.  An operation returns None when it is undefined: a shift by 31 or more and a read behind the buffer
  of \<open>Print\<close>.  Whether \<open>char\<close> is signed is a parameter, and so is the text that \<open>vsnprintf\<close> makes.
\<close>

section \<open>The model\<close>

datatype lcd_call = Write u16 | DelayUs u16

definition LCD_DELAY_HIGH_US :: u16 where "LCD_DELAY_HIGH_US = 2000"
definition LCD_DELAY_LOW_US :: u16 where "LCD_DELAY_LOW_US = 50"

definition CMD_CLEAR :: u16 where "CMD_CLEAR = 0x01"
definition CMD_HOME :: u16 where "CMD_HOME = 0x02"
definition CMD_AUTOINCREMENTON :: u16 where "CMD_AUTOINCREMENTON = 0x06"
definition CMD_BLANK :: u16 where "CMD_BLANK = 0x08"
definition CMD_POWERON :: u16 where "CMD_POWERON = 0x17"
definition CMD_4B_2LINES :: u16 where "CMD_4B_2LINES = 0x28"
definition CMD_CURSOROFF :: u16 where "CMD_CURSOROFF = 0x0C"
definition NOP_DATA :: u16 where "NOP_DATA = 0xFF"

lemmas lcd_cmds = CMD_CLEAR_def CMD_HOME_def CMD_AUTOINCREMENTON_def CMD_BLANK_def CMD_POWERON_def CMD_4B_2LINES_def
  CMD_CURSOROFF_def

datatype LCD_Type = LCD | OLED

datatype BusWidth = BUS_4B | BUS_8B

datatype Font = ENGLISH_JAPANESE_FONT | WESTERN_EUROPEAN_FONT | ENGLISH_RUSSIAN_FONT | WESTERN_EUROPEAN2_FONT

fun font_number :: "Font \<Rightarrow> u16" where
  "font_number ENGLISH_JAPANESE_FONT = 0"
| "font_number WESTERN_EUROPEAN_FONT = 1"
| "font_number ENGLISH_RUSSIAN_FONT = 2"
| "font_number WESTERN_EUROPEAN2_FONT = 3"

record HD44780_Base =
  bus_width :: BusWidth
  en_pin :: u16
  rs_pin :: u16
  bl_pin :: u16

type_synonym 'a lcd_io = "(lcd_call io, 'a option) state"

definition done_with :: "'a \<Rightarrow> 'a lcd_io" where
  "done_with x = State_Monad.return (Some x)"

definition and_then :: "unit lcd_io \<Rightarrow> 'a lcd_io \<Rightarrow> 'a lcd_io" where
  "and_then m n = do { r \<leftarrow> m; case r of None \<Rightarrow> State_Monad.return None | Some _ \<Rightarrow> n }"

fun all_of :: "unit lcd_io list \<Rightarrow> unit lcd_io" where
  "all_of [] = done_with ()"
| "all_of (m # ms) = and_then m (all_of ms)"

definition pause :: "u16 \<Rightarrow> unit lcd_io" where
  "pause us = do { call (DelayUs us); done_with () }"

definition latch_write :: "HD44780_Base \<Rightarrow> u16 \<Rightarrow> unit lcd_io" where
  "latch_write d data = do {
     call (Write (data OR en_pin d));
     call (DelayUs LCD_DELAY_LOW_US);
     call (Write data);
     call (DelayUs LCD_DELAY_LOW_US);
     done_with () }"

text \<open>\<open>data |= (1 << pin)\<close>: a bit of an \<open>int\<close>, cut to sixteen.\<close>

definition or_pin :: "u16 \<Rightarrow> u16 \<Rightarrow> u16 option" where
  "or_pin data pin = (if pin < 31 then Some (data OR push_bit (unat pin) 1) else None)"

definition with_pins :: "HD44780_Base \<Rightarrow> bool \<Rightarrow> u16 \<Rightarrow> bool \<Rightarrow> u16 option" where
  "with_pins d is_backlight_enabled data is_cmd =
     (case (if is_backlight_enabled then or_pin data (bl_pin d) else Some data) of None \<Rightarrow> None
      | Some data \<Rightarrow> if \<not> is_cmd then or_pin data (rs_pin d) else Some data)"

definition intfs_write :: "HD44780_Base \<Rightarrow> bool \<Rightarrow> u16 \<Rightarrow> bool \<Rightarrow> unit lcd_io" where
  "intfs_write d is_backlight_enabled data is_cmd =
     (case with_pins d is_backlight_enabled data is_cmd of None \<Rightarrow> State_Monad.return None
      | Some data \<Rightarrow>
          if data = NOP_DATA then do { call (Write data); done_with () }
          else if bus_width d = BUS_4B
          then and_then (latch_write d (drop_bit 4 (data AND 0xF0))) (latch_write d (data AND 0x0F))
          else latch_write d data)"

definition Init :: "HD44780_Base \<Rightarrow> bool \<Rightarrow> LCD_Type \<Rightarrow> Font \<Rightarrow> unit lcd_io" where
  "Init d bl type font =
     and_then
       (if bus_width d = BUS_4B
        then all_of [latch_write d 0x03, latch_write d 0x03, latch_write d 0x03, latch_write d 0x02, pause LCD_DELAY_HIGH_US,
          intfs_write d bl (CMD_4B_2LINES OR font_number font) True]
        else done_with ())
       (if type = LCD
        then all_of [intfs_write d bl CMD_HOME True, intfs_write d bl CMD_CLEAR True, pause LCD_DELAY_HIGH_US,
          intfs_write d bl CMD_CURSOROFF True]
        else all_of [intfs_write d bl CMD_BLANK True, intfs_write d bl CMD_AUTOINCREMENTON True, intfs_write d bl CMD_POWERON True,
          intfs_write d bl CMD_CLEAR True, pause LCD_DELAY_HIGH_US, intfs_write d bl CMD_HOME True, intfs_write d bl CMD_CURSOROFF True])"

text \<open>The result is the new value of the member.\<close>

definition SetBacklight :: "HD44780_Base \<Rightarrow> bool \<Rightarrow> bool lcd_io" where
  "SetBacklight d is_enabled = and_then (intfs_write d is_enabled NOP_DATA True) (done_with is_enabled)"

definition SetCursorPos :: "HD44780_Base \<Rightarrow> bool \<Rightarrow> u8 \<Rightarrow> u8 \<Rightarrow> unit lcd_io" where
  "SetCursorPos d bl row col =
     (let position = (if row \<noteq> 0 then 0x80 OR 0x40 else 0x80 :: u8) in intfs_write d bl (ucast (position OR col)) True)"

definition Clear :: "HD44780_Base \<Rightarrow> bool \<Rightarrow> unit lcd_io" where
  "Clear d bl = all_of [intfs_write d bl CMD_CLEAR True, pause LCD_DELAY_HIGH_US, intfs_write d bl CMD_HOME True, pause LCD_DELAY_HIGH_US]"

definition PutChar :: "bool \<Rightarrow> HD44780_Base \<Rightarrow> bool \<Rightarrow> u8 \<Rightarrow> unit lcd_io" where
  "PutChar char_signed d bl data =
     (if data = 0x0A then intfs_write d bl (0x80 OR 0x40) True
      else intfs_write d bl (if char_signed then scast data else ucast data) False)"

text \<open>
  \<open>Print\<close>, for the formatted text or none when it cannot be encoded.  The buffer of 34 bytes holds at most 33
  characters and a zero byte, while the loop runs over the length of the whole text.
\<close>

definition buffer_at :: "u8 list \<Rightarrow> nat \<Rightarrow> u8 option" where
  "buffer_at formatted i = (let buffer = take 33 formatted @ [0] in if i < 34 \<and> i < length buffer then Some (buffer ! i) else None)"

fun put_chars :: "bool \<Rightarrow> HD44780_Base \<Rightarrow> bool \<Rightarrow> u8 list \<Rightarrow> nat list \<Rightarrow> unit lcd_io" where
  "put_chars char_signed d bl formatted [] = done_with ()"
| "put_chars char_signed d bl formatted (i # is) = (case buffer_at formatted i of None \<Rightarrow> State_Monad.return None
     | Some c \<Rightarrow> and_then (PutChar char_signed d bl c) (put_chars char_signed d bl formatted is))"

definition Print :: "bool \<Rightarrow> HD44780_Base \<Rightarrow> bool \<Rightarrow> u8 list option \<Rightarrow> int lcd_io" where
  "Print char_signed d bl formatted = (case formatted of None \<Rightarrow> done_with (- 1)
     | Some str \<Rightarrow> and_then (put_chars char_signed d bl str [0..<length str]) (done_with (int (length str))))"

section \<open>A display on eight wires\<close>

text \<open>
  The controller takes its eight data pins and the register-select pin at the falling edge of the enable pin; \<open>got\<close>
  lists the bytes received with the level of register select: true for data, false for commands.
\<close>

record panel =
  enabled :: bool
  got :: "(bool \<times> u8) list"

fun panel_listen :: "HD44780_Base \<Rightarrow> panel \<Rightarrow> lcd_call \<Rightarrow> panel" where
  "panel_listen d p (Write v) =
     p\<lparr>enabled := (v AND en_pin d \<noteq> 0),
       got := (if enabled p \<and> v AND en_pin d = 0 then got p @ [(bit v (unat (rs_pin d)), ucast v)] else got p)\<rparr>"
| "panel_listen d p (DelayUs _) = p"

definition shown :: "HD44780_Base \<Rightarrow> lcd_call io \<Rightarrow> panel" where
  "shown d s = foldl (panel_listen d) \<lparr>enabled = False, got = []\<rparr> (trace s)"

text \<open>The data lines are the lower eight pins, the others three different upper ones; the enable pin is given as a mask.\<close>

definition wired :: "HD44780_Base \<Rightarrow> bool" where
  "wired d \<longleftrightarrow> bus_width d = BUS_8B \<and> rs_pin d \<in> {8..15} \<and> bl_pin d \<in> {8..15} \<and> rs_pin d \<noteq> bl_pin d \<and>
     (\<exists>e \<in> {8..15}. en_pin d = push_bit e 1 \<and> e \<noteq> unat (rs_pin d) \<and> e \<noteq> unat (bl_pin d))"

definition sends :: "HD44780_Base \<Rightarrow> 'a lcd_io \<Rightarrow> 'a \<Rightarrow> (bool \<times> u8) list \<Rightarrow> bool" where
  "sends d m x bs \<longleftrightarrow> (\<forall>s. \<not> enabled (shown d s) \<longrightarrow> (\<exists>s'. run_state m s = (Some x, s') \<and>
     \<not> enabled (shown d s') \<and> got (shown d s') = got (shown d s) @ bs))"

lemma shown_after_call [simp]: "shown d (s\<lparr>trace := trace s @ es\<rparr>) = foldl (panel_listen d) (shown d s) es"
  by (simp add: shown_def)

lemma sends_done: "sends d (done_with x) x []"
  by (simp add: sends_def done_with_def)

lemma sends_then: "sends d m () as \<Longrightarrow> sends d n x bs \<Longrightarrow> sends d (and_then m n) x (as @ bs)"
  unfolding sends_def
proof (intro allI impI)
  fix s
  assume a: "\<forall>s. \<not> enabled (shown d s) \<longrightarrow> (\<exists>s'. run_state m s = (Some (), s') \<and> \<not> enabled (shown d s') \<and> got (shown d s') = got (shown d s) @ as)"
    and b: "\<forall>s. \<not> enabled (shown d s) \<longrightarrow> (\<exists>s'. run_state n s = (Some x, s') \<and> \<not> enabled (shown d s') \<and> got (shown d s') = got (shown d s) @ bs)"
    and e: "\<not> enabled (shown d s)"
  obtain s1 where 1: "run_state m s = (Some (), s1)" "\<not> enabled (shown d s1)" "got (shown d s1) = got (shown d s) @ as" using a e by blast
  obtain s2 where 2: "run_state n s1 = (Some x, s2)" "\<not> enabled (shown d s2)" "got (shown d s2) = got (shown d s1) @ bs" using b 1(2) by blast
  show "\<exists>s'. run_state (and_then m n) s = (Some x, s') \<and> \<not> enabled (shown d s') \<and> got (shown d s') = got (shown d s) @ as @ bs"
    using 1 2 by (simp add: and_then_def)
qed

lemma sends_pause: "sends d (pause us) () []"
  by (simp add: sends_def pause_def done_with_def run_simps)

lemma sends_latch:
  assumes "en_pin d \<noteq> 0" "v AND en_pin d = 0"
  shows "sends d (latch_write d v) () [(bit v (unat (rs_pin d)), ucast v)]"
proof -
  have "(v OR en_pin d) AND en_pin d \<noteq> 0" using assms(1) by (simp add: and.commute bit.conj_disj_distrib)
  then show ?thesis using assms(2) by (simp add: sends_def latch_write_def done_with_def run_simps)
qed

text \<open>The word on the pins, bit by bit.\<close>

lemma nop_bits: "bit NOP_DATA j \<longleftrightarrow> j < 8"
proof -
  have m: "NOP_DATA = mask 8" by (simp add: NOP_DATA_def mask_eq_exp_minus_1)
  show ?thesis unfolding m by (auto simp: bit_simps)
qed

lemma with_pins_word:
  assumes "wired d"
  obtains v where "with_pins d bl (ucast (c :: u8)) is_cmd = Some v" "v AND en_pin d = 0" "en_pin d \<noteq> 0" "ucast v = c"
    "bit v (unat (rs_pin d)) \<longleftrightarrow> \<not> is_cmd" "v = NOP_DATA \<longleftrightarrow> c = 0xFF \<and> \<not> bl \<and> is_cmd"
proof -
  obtain e where e: "8 \<le> e" "e \<le> 15" "en_pin d = push_bit e 1" "e \<noteq> unat (rs_pin d)" "e \<noteq> unat (bl_pin d)"
    using assms by (auto simp: wired_def)
  have p: "8 \<le> unat (rs_pin d)" "unat (rs_pin d) \<le> 15" "8 \<le> unat (bl_pin d)" "unat (bl_pin d) \<le> 15" "unat (rs_pin d) \<noteq> unat (bl_pin d)"
    using assms by (auto simp: wired_def word_le_nat_alt word_unat_eq_iff)
  define v :: u16 where "v = ucast c OR (if bl then push_bit (unat (bl_pin d)) 1 else 0) OR (if is_cmd then 0 else push_bit (unat (rs_pin d)) 1)"
  have b: "bit v j \<longleftrightarrow> j < 8 \<and> bit c j \<or> bl \<and> j = unat (bl_pin d) \<or> \<not> is_cmd \<and> j = unat (rs_pin d)" for j
    using p by (auto simp: v_def bit_simps dest: bit_imp_le_length)
  have "with_pins d bl (ucast c) is_cmd = Some v"
    using p by (auto simp: with_pins_def or_pin_def v_def word_less_nat_alt or.assoc)
  moreover have "v AND en_pin d = 0"
    by (rule bit_word_eqI) (use e b in \<open>auto simp: bit_simps\<close>)
  moreover have "bit (en_pin d) e" using e by (simp add: bit_simps)
  then have "en_pin d \<noteq> 0" by auto
  moreover have "ucast v = c" by (rule bit_word_eqI) (use b p in \<open>auto simp: bit_simps\<close>)
  moreover have "bit v (unat (rs_pin d)) \<longleftrightarrow> \<not> is_cmd" using b p by auto
  moreover have "v = NOP_DATA \<longleftrightarrow> c = 0xFF \<and> \<not> bl \<and> is_cmd"
  proof
    assume v: "v = NOP_DATA"
    have "\<not> bit v (unat (bl_pin d))" "\<not> bit v (unat (rs_pin d))" unfolding v using p by (simp_all add: nop_bits)
    moreover have "c = 0xFF" using v \<open>ucast v = c\<close> by (simp add: NOP_DATA_def)
    ultimately show "c = 0xFF \<and> \<not> bl \<and> is_cmd" using b by auto
  qed (simp add: v_def NOP_DATA_def)
  ultimately show thesis by (rule that)
qed

lemma sends_intfs:
  assumes "wired d"
  shows "sends d (intfs_write d bl (ucast (c :: u8)) is_cmd) () (if c = 0xFF \<and> \<not> bl \<and> is_cmd then [] else [(\<not> is_cmd, c)])"
proof -
  obtain v where v: "with_pins d bl (ucast c) is_cmd = Some v" "v AND en_pin d = 0" "en_pin d \<noteq> 0" "ucast v = c"
    "bit v (unat (rs_pin d)) \<longleftrightarrow> \<not> is_cmd" "v = NOP_DATA \<longleftrightarrow> c = 0xFF \<and> \<not> bl \<and> is_cmd"
    by (rule with_pins_word [OF assms])
  have w: "bus_width d = BUS_8B" using assms by (simp add: wired_def)
  show ?thesis
  proof (cases "v = NOP_DATA")
    case True
    then show ?thesis using v by (simp add: sends_def intfs_write_def done_with_def run_simps)
  next
    case False
    then have ne: "\<not> (c = 0xFF \<and> \<not> bl \<and> is_cmd)" using v(6) by blast
    have "intfs_write d bl (ucast c) is_cmd = latch_write d v" using v(1) w False by (simp add: intfs_write_def)
    then show ?thesis using sends_latch [OF v(3,2)] unfolding if_not_P [OF ne] v(4) by (simp only: v(5))
  qed
qed

text \<open>A session: the operations one after the other, with the member for the backlight threaded through.\<close>

datatype lcd_op = Op_init LCD_Type Font | Op_backlight bool | Op_cursor u8 u8 | Op_clear | Op_print "u8 list"

definition perform :: "bool \<Rightarrow> HD44780_Base \<Rightarrow> bool \<Rightarrow> lcd_op \<Rightarrow> bool lcd_io" where
  "perform char_signed d bl oper = (case oper of
     Op_init type font \<Rightarrow> and_then (Init d bl type font) (done_with bl)
   | Op_backlight b \<Rightarrow> SetBacklight d b
   | Op_cursor row col \<Rightarrow> and_then (SetCursorPos d bl row col) (done_with bl)
   | Op_clear \<Rightarrow> and_then (Clear d bl) (done_with bl)
   | Op_print str \<Rightarrow> do { r \<leftarrow> Print char_signed d bl (Some str); State_Monad.return (map_option (\<lambda>_. bl) r) })"

fun run_ops :: "bool \<Rightarrow> HD44780_Base \<Rightarrow> bool \<Rightarrow> lcd_op list \<Rightarrow> bool lcd_io" where
  "run_ops char_signed d bl [] = done_with bl"
| "run_ops char_signed d bl (x # xs) = do {
     r \<leftarrow> perform char_signed d bl x;
     case r of None \<Rightarrow> State_Monad.return None | Some b \<Rightarrow> run_ops char_signed d b xs }"

text \<open>What the display should get; with the backlight on, \<open>SetBacklight\<close> sends it the command 0xFF.\<close>

definition command :: "bool \<Rightarrow> u8 \<Rightarrow> (bool \<times> u8) list" where
  "command bl c = (if c = 0xFF \<and> \<not> bl then [] else [(False, c)])"

definition bytes_of :: "bool \<Rightarrow> lcd_op \<Rightarrow> (bool \<times> u8) list" where
  "bytes_of bl oper = (case oper of
     Op_init LCD _ \<Rightarrow> [(False, 0x02), (False, 0x01), (False, 0x0C)]
   | Op_init OLED _ \<Rightarrow> [(False, 0x08), (False, 0x06), (False, 0x17), (False, 0x01), (False, 0x02), (False, 0x0C)]
   | Op_backlight b \<Rightarrow> (if b then [(False, 0xFF)] else [])
   | Op_cursor row col \<Rightarrow> command bl ((if row = 0 then 0x80 else 0xC0) OR col)
   | Op_clear \<Rightarrow> [(False, 0x01), (False, 0x02)]
   | Op_print str \<Rightarrow> map (\<lambda>c. if c = 0x0A then (False, 0xC0) else (True, c)) str)"

fun session_bytes :: "bool \<Rightarrow> lcd_op list \<Rightarrow> (bool \<times> u8) list" where
  "session_bytes bl [] = []"
| "session_bytes bl (x # xs) = bytes_of bl x @ session_bytes (case x of Op_backlight b \<Rightarrow> b | _ \<Rightarrow> bl) xs"

definition printable :: "bool \<Rightarrow> lcd_op \<Rightarrow> bool" where
  "printable char_signed oper = (case oper of Op_print str \<Rightarrow> length str \<le> 33 \<and> (char_signed \<longrightarrow> (\<forall>c \<in> set str. c < 0x80)) | _ \<Rightarrow> True)"

lemma sends_cmd:
  assumes "wired d" "w = ucast (c :: u8)"
  shows "sends d (intfs_write d bl w True) () (command bl c)"
proof -
  have "(if c = 0xFF \<and> \<not> bl \<and> True then [] else [(\<not> True, c)]) = command bl c" by (simp add: command_def)
  then show ?thesis using sends_intfs [OF assms(1), of bl c True] unfolding assms(2) by (simp only:)
qed

lemma plain_command [simp]: "c \<noteq> 0xFF \<Longrightarrow> command bl c = [(False, c)]"
  by (simp add: command_def)

lemma sends_fixed:
  assumes "wired d"
  shows "sends d (intfs_write d bl CMD_HOME True) () [(False, 0x02)]" "sends d (intfs_write d bl CMD_CLEAR True) () [(False, 0x01)]"
    "sends d (intfs_write d bl CMD_CURSOROFF True) () [(False, 0x0C)]" "sends d (intfs_write d bl CMD_BLANK True) () [(False, 0x08)]"
    "sends d (intfs_write d bl CMD_AUTOINCREMENTON True) () [(False, 0x06)]" "sends d (intfs_write d bl CMD_POWERON True) () [(False, 0x17)]"
    "sends d (intfs_write d bl (0x80 OR 0x40) True) () [(False, 0xC0)]"
  using sends_cmd [OF assms, where w = CMD_HOME and c = "0x02" and bl = bl] sends_cmd [OF assms, where w = CMD_CLEAR and c = "0x01" and bl = bl] sends_cmd [OF assms, where w = CMD_CURSOROFF and c = "0x0C" and bl = bl]
    sends_cmd [OF assms, where w = CMD_BLANK and c = "0x08" and bl = bl] sends_cmd [OF assms, where w = CMD_AUTOINCREMENTON and c = "0x06" and bl = bl]
    sends_cmd [OF assms, where w = CMD_POWERON and c = "0x17" and bl = bl] sends_cmd [OF assms, where w = "0x80 OR 0x40" and c = "0xC0" and bl = bl]
  by (simp_all add: lcd_cmds)

lemma sends_init:
  assumes "wired d"
  shows "sends d (Init d bl type font) () (bytes_of bl (Op_init type font))"
proof -
  have w: "bus_width d = BUS_8B" using assms by (simp add: wired_def)
  note c = sends_fixed [OF assms, of bl] and p = sends_pause [of d LCD_DELAY_HIGH_US]
  have l: "sends d (all_of [intfs_write d bl CMD_HOME True, intfs_write d bl CMD_CLEAR True, pause LCD_DELAY_HIGH_US,
      intfs_write d bl CMD_CURSOROFF True]) () ([(False, 0x02)] @ [(False, 0x01)] @ [] @ [(False, 0x0C)] @ [])"
    unfolding all_of.simps by (intro sends_then c p sends_done)
  have o: "sends d (all_of [intfs_write d bl CMD_BLANK True, intfs_write d bl CMD_AUTOINCREMENTON True, intfs_write d bl CMD_POWERON True,
      intfs_write d bl CMD_CLEAR True, pause LCD_DELAY_HIGH_US, intfs_write d bl CMD_HOME True, intfs_write d bl CMD_CURSOROFF True]) ()
      ([(False, 0x08)] @ [(False, 0x06)] @ [(False, 0x17)] @ [(False, 0x01)] @ [] @ [(False, 0x02)] @ [(False, 0x0C)] @ [])"
    unfolding all_of.simps by (intro sends_then c p sends_done)
  show ?thesis
    using sends_then [OF sends_done l] sends_then [OF sends_done o] w by (cases type) (simp_all add: Init_def bytes_of_def)
qed

lemma sends_clear:
  assumes "wired d"
  shows "sends d (Clear d bl) () [(False, 0x01), (False, 0x02)]"
proof -
  have "sends d (Clear d bl) () ([(False, 0x01)] @ [] @ [(False, 0x02)] @ [] @ [])"
    unfolding Clear_def all_of.simps by (intro sends_then sends_fixed [OF assms] sends_pause sends_done)
  then show ?thesis by simp
qed

lemma scast_small: "c < 0x80 \<Longrightarrow> (scast c :: u16) = ucast (c :: u8)"
proof -
  assume "c < 0x80"
  then have "\<not> bit (unat c) 7" by (simp add: bit_iff_odd word_less_nat_alt)
  then have "\<not> bit c 7" by (simp add: bit_unsigned_iff)
  then have "bit c (min 7 n) \<longleftrightarrow> bit c n" for n
  proof (cases "n \<le> 7")
    case False
    then show ?thesis using bit_imp_le_length [of c n] \<open>\<not> bit c 7\<close> by auto
  qed simp
  then show ?thesis by (intro bit_word_eqI) (simp add: bit_simps)
qed

lemma sends_char:
  assumes "wired d" "char_signed \<longrightarrow> c < 0x80"
  shows "sends d (PutChar char_signed d bl c) () [if c = 0x0A then (False, 0xC0) else (True, c)]"
  using sends_fixed(7) [OF assms(1), of bl] sends_intfs [OF assms(1), of bl c False] assms(2)
  by (auto simp: PutChar_def scast_small)

lemma sends_chars:
  assumes "wired d" "char_signed \<longrightarrow> (\<forall>c \<in> set str. c < 0x80)" "length str \<le> 33" "set is \<subseteq> {..<length str}"
  shows "sends d (put_chars char_signed d bl str is) () (map (\<lambda>i. if str ! i = 0x0A then (False, 0xC0) else (True, str ! i)) is)"
  using assms(4)
proof (induction "is")
  case Nil
  then show ?case by (simp add: sends_done)
next
  case (Cons i js)
  then have "buffer_at str i = Some (str ! i)" using assms(3) by (simp add: buffer_at_def nth_append)
  then show ?case using Cons sends_then [OF sends_char [OF assms(1), of char_signed "str ! i" bl] Cons.IH] assms(2) by simp
qed

lemma sends_print:
  assumes "wired d" "char_signed \<longrightarrow> (\<forall>c \<in> set str. c < 0x80)" "length str \<le> 33"
  shows "sends d (Print char_signed d bl (Some str)) (int (length str)) (bytes_of bl (Op_print str))"
proof -
  have "map (\<lambda>i. if str ! i = 0x0A then (False, 0xC0) else (True, str ! i)) [0..<length str] = bytes_of bl (Op_print str)"
    by (rule nth_equalityI) (simp_all add: bytes_of_def)
  moreover have "sends d (put_chars char_signed d bl str [0..<length str]) ()
      (map (\<lambda>i. if str ! i = 0x0A then (False, 0xC0) else (True, str ! i)) [0..<length str])"
    by (rule sends_chars [OF assms]) auto
  ultimately show ?thesis using sends_then sends_done [of d "int (length str)"] by (fastforce simp: Print_def)
qed

lemma sends_map: "sends d m x bs \<Longrightarrow> sends d (do { r \<leftarrow> m; State_Monad.return (map_option f r) }) (f x) bs"
  by (fastforce simp: sends_def)

lemma sends_perform:
  assumes "wired d" "printable char_signed oper"
  shows "sends d (perform char_signed d bl oper) (case oper of Op_backlight b \<Rightarrow> b | _ \<Rightarrow> bl) (bytes_of bl oper)"
proof (cases oper)
  case (Op_init type font)
  then show ?thesis using sends_then [OF sends_init [OF assms(1), of bl type font] sends_done [of d bl]] by (simp add: perform_def)
next
  case (Op_backlight b)
  have "command b 0xFF = bytes_of bl (Op_backlight b)" by (simp add: command_def bytes_of_def)
  then show ?thesis using Op_backlight sends_then [OF sends_cmd [OF assms(1), where w = NOP_DATA and c = "0xFF" and bl = b] sends_done [of d b]]
    by (simp add: perform_def SetBacklight_def NOP_DATA_def)
next
  case (Op_cursor row col)
  have "sends d (SetCursorPos d bl row col) () (bytes_of bl oper)"
    using sends_cmd [OF assms(1), where w = "ucast ((if row = 0 then 0x80 else 0xC0) OR col)" and c = "(if row = 0 then 0x80 else 0xC0) OR col" and bl = bl] Op_cursor
    by (cases "row = 0") (simp_all add: SetCursorPos_def bytes_of_def)
  then show ?thesis using sends_then [OF _ sends_done [of d bl]] Op_cursor by (fastforce simp: perform_def)
next
  case Op_clear
  then show ?thesis using sends_then [OF sends_clear [OF assms(1), of bl] sends_done [of d bl]] by (simp add: perform_def bytes_of_def)
next
  case (Op_print str)
  then show ?thesis using sends_map [OF sends_print [OF assms(1), of char_signed str bl], of "\<lambda>_. bl"] assms(2)
    by (simp add: perform_def printable_def)
qed

text \<open>
  C24: on a board with eight data lines, where the enable pin is given as a mask, every session of the driver
  sends the display exactly the commands and the characters of its operations, in their order and with register select
  set for the characters only, if no text is longer than 33 characters and, where \<open>char\<close> is signed, all are ASCII.  To the
  commands of switching the backlight on belongs the byte 0xFF, which the code means to be none (see \<open>bytes_of\<close>).
\<close>

theorem lcd_session_on_eight_wires:
  assumes "wired d" "list_all (printable char_signed) xs"
  shows "\<exists>bl' s. run_state (run_ops char_signed d bl xs) io_start = (Some bl', s) \<and> got (shown d s) = session_bytes bl xs"
proof -
  have "\<exists>bl' s'. run_state (run_ops char_signed d bl xs) s = (Some bl', s') \<and> got (shown d s') = got (shown d s) @ session_bytes bl xs"
    if "\<not> enabled (shown d s)" for s
    using that assms(2)
  proof (induction xs arbitrary: s bl)
    case Nil
    then show ?case by (simp add: done_with_def)
  next
    case (Cons x xs)
    obtain s1 where 1: "run_state (perform char_signed d bl x) s = (Some (case x of Op_backlight b \<Rightarrow> b | _ \<Rightarrow> bl), s1)"
      "\<not> enabled (shown d s1)" "got (shown d s1) = got (shown d s) @ bytes_of bl x"
      using sends_perform [OF assms(1), of char_signed x bl] Cons.prems unfolding sends_def by auto
    then show ?case using Cons.IH [OF 1(2), of "case x of Op_backlight b \<Rightarrow> b | _ \<Rightarrow> bl"] Cons.prems(2) by simp
  qed
  from this [of io_start] show ?thesis by (simp add: shown_def)
qed

theorem lcd_session_on_eight_wires_witness:
  "\<exists>bl' s. run_state (run_ops True \<lparr>bus_width = BUS_8B, en_pin = 0x400, rs_pin = 8, bl_pin = 9\<rparr> False
      [Op_init LCD ENGLISH_JAPANESE_FONT, Op_backlight True, Op_print [0x48, 0x69]]) io_start = (Some bl', s) \<and>
    got (shown \<lparr>bus_width = BUS_8B, en_pin = 0x400, rs_pin = 8, bl_pin = 9\<rparr> s) =
      [(False, 0x02), (False, 0x01), (False, 0x0C), (False, 0xFF), (True, 0x48), (True, 0x69)]"
proof -
  let ?d = "\<lparr>bus_width = BUS_8B, en_pin = 0x400, rs_pin = 8, bl_pin = 9\<rparr>"
  have "wired ?d" unfolding wired_def by (auto intro!: bexI [of _ 10])
  from lcd_session_on_eight_wires [OF this, of True "[Op_init LCD ENGLISH_JAPANESE_FONT, Op_backlight True, Op_print [0x48, 0x69]]" False]
  show ?thesis by (simp add: printable_def bytes_of_def)
qed

section \<open>Four wires\<close>

text \<open>What is written, call by call.\<close>

definition writes_only :: "(u16 \<Rightarrow> bool) \<Rightarrow> 'a lcd_io \<Rightarrow> bool" where
  "writes_only P m \<longleftrightarrow> (\<forall>s. (\<forall>v. Write v \<in> set (trace s) \<longrightarrow> P v) \<longrightarrow> (\<forall>v. Write v \<in> set (trace (snd (run_state m s))) \<longrightarrow> P v))"

lemma writes_bind: "writes_only P m \<Longrightarrow> (\<And>r. writes_only P (f r)) \<Longrightarrow> writes_only P (State_Monad.bind m f)"
  for m :: "'a lcd_io" and f :: "'a option \<Rightarrow> 'b lcd_io"
  unfolding writes_only_def
proof (intro allI impI)
  fix s v
  assume a: "\<forall>s. (\<forall>v. Write v \<in> set (trace s) \<longrightarrow> P v) \<longrightarrow> (\<forall>v. Write v \<in> set (trace (snd (run_state m s))) \<longrightarrow> P v)"
    "\<And>r. \<forall>s. (\<forall>v. Write v \<in> set (trace s) \<longrightarrow> P v) \<longrightarrow> (\<forall>v. Write v \<in> set (trace (snd (run_state (f r) s))) \<longrightarrow> P v)"
    and s: "\<forall>v. Write v \<in> set (trace s) \<longrightarrow> P v" and v: "Write v \<in> set (trace (snd (run_state (State_Monad.bind m f) s)))"
  obtain x t where x: "run_state m s = (x, t)" by (cases "run_state m s")
  then have "\<forall>v. Write v \<in> set (trace t) \<longrightarrow> P v" using a(1) s by (metis snd_conv)
  then show "P v" using a(2) [of x] v x by (simp add: State_Monad.bind_def)
qed

lemma writes_return: "writes_only P (State_Monad.return x)" "writes_only P (done_with y)"
  by (simp_all add: writes_only_def done_with_def)

lemma writes_then: "writes_only P m \<Longrightarrow> writes_only P n \<Longrightarrow> writes_only P (and_then m n)"
  unfolding and_then_def by (intro writes_bind) (simp_all add: writes_return split: option.split)

lemma writes_all_of: "list_all (writes_only P) ms \<Longrightarrow> writes_only P (all_of ms)"
  by (induction ms) (simp_all add: writes_return writes_then)

lemma writes_pause: "writes_only P (pause us)"
  by (simp add: writes_only_def pause_def done_with_def run_simps)

lemma writes_latch: "P (v OR en_pin d) \<Longrightarrow> P v \<Longrightarrow> writes_only P (latch_write d v)"
  by (auto simp: writes_only_def latch_write_def done_with_def run_simps)

abbreviation low_rs :: "HD44780_Base \<Rightarrow> u16 \<Rightarrow> bool" where
  "low_rs d v \<equiv> \<not> bit v (unat (rs_pin d))"

lemma writes_intfs:
  assumes "bus_width d = BUS_4B" "8 \<le> rs_pin d" "low_rs d (en_pin d)"
  shows "writes_only (low_rs d) (intfs_write d bl data is_cmd)"
proof (cases "with_pins d bl data is_cmd")
  case None
  then show ?thesis by (simp add: intfs_write_def writes_return)
next
  case (Some v)
  have r: "8 \<le> unat (rs_pin d)" using assms(2) by (simp add: word_le_nat_alt)
  have m: "(0xF0 :: u16) = push_bit 4 (mask 4)" "(0x0F :: u16) = mask 4" by (simp_all add: mask_eq_exp_minus_1)
  have "writes_only (low_rs d) (latch_write d (drop_bit 4 (v AND 0xF0)))" "writes_only (low_rs d) (latch_write d (v AND 0x0F))"
    unfolding m using r assms(3) by (auto intro!: writes_latch simp: bit_simps)
  moreover have "writes_only (low_rs d) (do { call (Write NOP_DATA); done_with () })"
    using r by (auto simp: writes_only_def done_with_def run_simps nop_bits)
  ultimately show ?thesis using Some assms(1) by (auto simp: intfs_write_def intro: writes_then)
qed

text \<open>
  Over four wires no character can be shown: with register select on an upper pin, no session ever sets
  that pin, so the display takes all it gets for commands.
\<close>

theorem lcd_four_wires_no_data:
  assumes "bus_width d = BUS_4B" "8 \<le> rs_pin d" "rs_pin d < 16" "\<not> bit (en_pin d) (unat (rs_pin d))"
  shows "Write v \<in> set (trace (snd (run_state (run_ops char_signed d bl xs) io_start))) \<Longrightarrow> \<not> bit v (unat (rs_pin d))"
proof -
  note i = writes_intfs [OF assms(1,2,4)]
  have r: "8 \<le> unat (rs_pin d)" using assms(2) by (simp add: word_le_nat_alt)
  have small: "\<not> bit (3 :: u16) (unat (rs_pin d))" "\<not> bit (2 :: u16) (unat (rs_pin d))"
    using r bit_mask_iff [where 'a = u16, of 2] bit_push_bit_iff [of 1 "1 :: u16"] by (auto simp: mask_eq_exp_minus_1 bit_1_iff)
  have l: "writes_only (low_rs d) (latch_write d 3)" "writes_only (low_rs d) (latch_write d 2)"
    using small assms(4) by (auto intro!: writes_latch simp: bit_simps)
  have c: "writes_only (low_rs d) (put_chars char_signed d b str is)" for b str "is"
    by (induction "is") (auto simp: writes_return PutChar_def intro!: writes_then i split: option.split)
  have p: "writes_only (low_rs d) (perform char_signed d b x)" for b x
    unfolding perform_def Init_def SetBacklight_def SetCursorPos_def Clear_def Print_def Let_def
    by (cases x) (auto intro!: writes_then writes_all_of writes_bind writes_return c i l writes_pause split: option.split)
  have "writes_only (low_rs d) (run_ops char_signed d b xs)" for b
    by (induction xs arbitrary: b) (auto intro!: writes_bind p writes_return split: option.split)
  then show "Write v \<in> set (trace (snd (run_state (run_ops char_signed d bl xs) io_start))) \<Longrightarrow> \<not> bit v (unat (rs_pin d))"
    unfolding writes_only_def by (metis empty_iff empty_set io_start_simps(1))
qed

theorem lcd_four_wires_no_data_witness:
  "Write 8 \<in> set (trace (snd (run_state (run_ops True \<lparr>bus_width = BUS_4B, en_pin = 0x10, rs_pin = 8, bl_pin = 9\<rparr> False
      [Op_print [0x48]]) io_start))) \<and> \<not> bit (8 :: u16) 8"
proof -
  let ?d = "\<lparr>bus_width = BUS_4B, en_pin = 0x10, rs_pin = 8, bl_pin = 9\<rparr>"
  have w: "Write 8 \<in> set (trace (snd (run_state (run_ops True ?d False [Op_print [0x48]]) io_start)))"
    by code_simp
  have "\<not> bit (en_pin ?d) (unat (rs_pin ?d))" by (simp add: bit_iff_odd)
  from lcd_four_wires_no_data [OF _ _ _ this w] show ?thesis using w by simp
qed

section \<open>Other faults\<close>

text \<open>A text of more than 34 characters makes \<open>Print\<close> read behind its buffer.\<close>

lemma print_overruns: "34 < length str \<Longrightarrow> buffer_at str 34 = None"
  by (simp add: buffer_at_def)

text \<open>Eight wires never get the function set that \<open>Init\<close> sends over four.\<close>

lemma no_function_set: "bytes_of bl (Op_init type font) = bytes_of bl (Op_init type font')"
  by (simp add: bytes_of_def)

end
