(* ===== verification/Ota.thy ===== *)
theory Ota
  imports C_Memory
begin

text \<open>
  The firmware server of Linux/ota/ota.c: the handler of the requests, on the buffer of the client's thread, and
  the main program, which starts again when the file changes.  The machine is little-endian.  An access outside of the
  buffer, of the firmware or of the member for the version has no value, and neither has freeing memory twice.
\<close>

section \<open>Requests\<close>

definition VERSION_STRING_LEN :: nat where "VERSION_STRING_LEN = 16"
definition OTA_CMD_GET_LATEST_VERSION :: u32 where "OTA_CMD_GET_LATEST_VERSION = 0xFE3378A0"
definition OTA_CMD_GET_PAGE_DATA :: u32 where "OTA_CMD_GET_PAGE_DATA = 0x47BF1975"
definition OTA_PAGE_SIZE :: u32 where "OTA_PAGE_SIZE = 1000"

text \<open>The places of the members of \<open>struct ota_version_header\<close>, and its size.\<close>

definition magic_word_at :: nat where "magic_word_at = 0"
definition cmd_at :: nat where "cmd_at = 4"
definition vers_at :: nat where "vers_at = 12"
definition fw_file_size_at :: nat where "fw_file_size_at = 28"
definition page_size_at :: nat where "page_size_at = 32"
definition page_num_at :: nat where "page_num_at = 36"
definition data_at :: nat where "data_at = 40"

lemmas header_places = magic_word_at_def cmd_at_def vers_at_def fw_file_size_at_def page_size_at_def page_num_at_def
  data_at_def

definition OTA_HEADER_SIZE :: nat where
  "OTA_HEADER_SIZE = unat OTA_PAGE_SIZE + data_at"

text \<open>\<open>version_string\<close> is null until the server has been started.\<close>

record ota_ops =
  magic_word :: u32
  filesize :: u32
  firmware :: mem
  version_string :: "nat option"

text \<open>Where the firmware keeps its version.\<close>

definition version :: nat where "version = 48"

text \<open>\<open>strcpy\<close> into the member for the version.\<close>

definition strcpy_vers :: "u8 list \<Rightarrow> mem \<Rightarrow> mem option" where
  "strcpy_vers s m = (if length s < VERSION_STRING_LEN then store vers_at (s @ [0]) m else None)"

definition store_u32 :: "nat \<Rightarrow> u32 \<Rightarrow> mem \<Rightarrow> mem option" where
  "store_u32 p w m = store p (le_bytes 4 w) m"

text \<open>A handler's result: the buffer, and what it has sent.\<close>

definition get_version :: "ota_ops \<Rightarrow> mem \<Rightarrow> nat \<Rightarrow> (mem \<times> u8 list option) option" where
  "get_version ops data sz = do {
     p \<leftarrow> version_string ops;
     s \<leftarrow> c_string_at p (firmware ops);
     m1 \<leftarrow> strcpy_vers s data;
     m2 \<leftarrow> store_u32 fw_file_size_at (filesize ops) m1;
     m3 \<leftarrow> store_u32 page_size_at OTA_PAGE_SIZE m2;
     sent \<leftarrow> load 0 sz m3;
     Some (m3, Some sent)
   }"

definition get_next_page :: "ota_ops \<Rightarrow> mem \<Rightarrow> (mem \<times> u8 list option) option" where
  "get_next_page ops data = do {
     page_size \<leftarrow> load_u32 page_size_at data;
     page_num \<leftarrow> load_u32 page_num_at data;
     let offset = page_size * page_num;
     let left = filesize ops - offset;
     if offset \<ge> filesize ops then Some (data, None)
     else do {
       m1 \<leftarrow> (if left < page_size then store_u32 page_size_at left data else Some data);
       n \<leftarrow> load_u32 page_size_at m1;
       src \<leftarrow> load (unat offset) (unat n) (firmware ops);
       m2 \<leftarrow> store data_at src m1;
       n' \<leftarrow> load_u32 page_size_at m2;
       sent \<leftarrow> load 0 (unat n' + data_at) m2;
       Some (m2, Some sent)
     }
   }"

definition handler :: "ota_ops \<Rightarrow> mem \<Rightarrow> nat \<Rightarrow> (mem \<times> u8 list option) option" where
  "handler ops data sz =
     (if sz < data_at then Some (data, None)
      else do {
        magic \<leftarrow> load_u32 magic_word_at data;
        if magic \<noteq> magic_word ops then Some (data, None)
        else do {
          cmd \<leftarrow> load_u32 cmd_at data;
          if cmd = OTA_CMD_GET_LATEST_VERSION then get_version ops data sz
          else if cmd = OTA_CMD_GET_PAGE_DATA then get_next_page ops data
          else Some (data, None)
        }
      })"

text \<open>One round of the client's thread: the received bytes are at the start of the buffer.\<close>

definition receive :: "ota_ops \<Rightarrow> mem \<Rightarrow> u8 list \<Rightarrow> (mem \<times> u8 list option) option" where
  "receive ops buffer bs = do { m \<leftarrow> store 0 bs buffer; handler ops m (length bs) }"

section \<open>Messages\<close>

text \<open>A message as the client sees it.\<close>

definition message :: "u32 \<Rightarrow> u32 \<Rightarrow> u32 \<Rightarrow> u8 list \<Rightarrow> u32 \<Rightarrow> u32 \<Rightarrow> u32 \<Rightarrow> u8 list \<Rightarrow> u8 list" where
  "message magic cmd serial vers fw_file_size page_size page_num payload =
     le_bytes 4 magic @ le_bytes 4 cmd @ le_bytes 4 serial @ vers @ le_bytes 4 fw_file_size @ le_bytes 4 page_size @ le_bytes 4 page_num @ payload"

lemma load_u32_at: "length a = p \<Longrightarrow> load_u32 p (a @ le_bytes 4 w @ c) = Some w"
  using load_mid [of a p "le_bytes 4 w" 4 c] by (simp add: load_u32_def le_word_le_bytes_id)

lemma store_u32_at: "length a = p \<Longrightarrow> store_u32 p v (a @ le_bytes 4 w @ c) = Some (a @ le_bytes 4 v @ c)"
  unfolding store_u32_def by (rule store_mid) simp_all

lemma message_fields:
  assumes "length vers = VERSION_STRING_LEN"
  shows "load_u32 magic_word_at (message m c s vers z ps pn d) = Some m"
    "load_u32 cmd_at (message m c s vers z ps pn d) = Some c"
    "load_u32 page_size_at (message m c s vers z ps pn d) = Some ps"
    "load_u32 page_num_at (message m c s vers z ps pn d) = Some pn"
    "store_u32 page_size_at v (message m c s vers z ps pn d) = Some (message m c s vers z v pn d)"
    "store_u32 fw_file_size_at v (message m c s vers z ps pn d) = Some (message m c s vers v ps pn d)"
    "store data_at d' (message m c s vers z ps pn d) = (if length d < length d' then None else
      Some (message m c s vers z ps pn (d' @ drop (length d') d)))"
    "n \<le> length d \<Longrightarrow> load 0 (n + data_at) (message m c s vers z ps pn d) = Some (message m c s vers z ps pn (take n d))"
    "length (message m c s vers z ps pn d) = data_at + length d"
  using assms load_u32_at [of "[]" 0 m] load_u32_at [of "le_bytes 4 m" 4 c]
    load_u32_at [of "le_bytes 4 m @ le_bytes 4 c @ le_bytes 4 s @ vers @ le_bytes 4 z" 32 ps]
    load_u32_at [of "le_bytes 4 m @ le_bytes 4 c @ le_bytes 4 s @ vers @ le_bytes 4 z @ le_bytes 4 ps" 36 pn]
    store_u32_at [of "le_bytes 4 m @ le_bytes 4 c @ le_bytes 4 s @ vers @ le_bytes 4 z" 32 v ps]
    store_u32_at [of "le_bytes 4 m @ le_bytes 4 c @ le_bytes 4 s @ vers" 28 v z]
  by (simp_all add: message_def header_places VERSION_STRING_LEN_def load_def store_def)

section \<open>A page\<close>

definition page :: "nat \<Rightarrow> mem \<Rightarrow> nat \<Rightarrow> u8 list" where
  "page n fw i = take n (drop (n * i) fw)"

lemma next_page:
  assumes "length vers = VERSION_STRING_LEN" "filesize ops = of_nat (length (firmware ops))" "length (firmware ops) < 2 ^ 32"
  shows "get_next_page ops (message m c s vers z ps pn d) =
    (if unat (ps * pn) < length (firmware ops)
     then let fw = take (unat ps) (drop (unat (ps * pn)) (firmware ops)) in
       if length d < length fw then None
       else Some (message m c s vers z (of_nat (length fw)) pn (fw @ drop (length fw) d), Some (message m c s vers z (of_nat (length fw)) pn fw))
     else Some (message m c s vers z ps pn d, None))"
proof -
  let ?L = "length (firmware ops)" and ?o = "unat (ps * pn)"
  have u: "unat (filesize ops) = ?L" using assms by (simp add: unat_offset)
  then have c: "ps * pn \<ge> filesize ops \<longleftrightarrow> ?L \<le> ?o" by (simp add: word_le_nat_alt)
  note f = message_fields [OF assms(1)]
  show ?thesis
  proof (cases "?o < ?L")
    case True
    then have left: "unat (filesize ops - ps * pn) = ?L - ?o" using u c by (simp add: unat_sub word_le_nat_alt)
    have l: "filesize ops - ps * pn = of_nat (?L - ?o)" using left by (metis of_nat_unat ucast_id)
    define n where "n = length (take (unat ps) (drop (unat (ps * pn)) (firmware ops)))"
    have n: "n = min (unat ps) (?L - ?o)" "length (take (unat ps) (drop (unat (ps * pn)) (firmware ops))) = n" by (simp_all add: n_def)
    have small: "n = (if filesize ops - ps * pn < ps then ?L - ?o else unat ps)" using n(1) left by (simp add: word_less_nat_alt min_def)
    have st: "(if filesize ops - ps * pn < ps then store_u32 page_size_at (filesize ops - ps * pn) (message m c s vers z ps pn d)
        else Some (message m c s vers z ps pn d)) = Some (message m c s vers z (of_nat n) pn d)"
      unfolding small l by (simp add: f(5))
    have un: "unat (of_nat n :: u32) = n" using n(1) unat_less_exp [of ps] by (intro unat_offset) simp
    have ld: "load ?o n (firmware ops) = Some (take (unat ps) (drop (unat (ps * pn)) (firmware ops)))"
      using n(1) True by (auto simp: load_def min_def)
    have tk: "take n (drop ?o (firmware ops)) = take (unat ps) (drop ?o (firmware ops))" using n(1) by (simp add: min_def)
    have go: "\<not> ps * pn \<ge> filesize ops" using c True by simp
    show ?thesis
      unfolding get_next_page_def using True n(2)
      by (simp add: f(3,4,7,8) st ld un u go Let_def tk)
  next
    case False
    then show ?thesis using c f(3,4) by (simp add: get_next_page_def)
  qed
qed

section \<open>Downloading\<close>

text \<open>A client that asks for some pages one after the other and puts the payloads of the answers together.\<close>

definition request :: "ota_ops \<Rightarrow> u32 \<Rightarrow> u8 list \<Rightarrow> nat \<Rightarrow> u8 list" where
  "request ops serial vers i = message (magic_word ops) OTA_CMD_GET_PAGE_DATA serial vers 0 OTA_PAGE_SIZE (of_nat i) []"

fun download :: "ota_ops \<Rightarrow> u32 \<Rightarrow> u8 list \<Rightarrow> mem \<Rightarrow> nat list \<Rightarrow> u8 list option" where
  "download ops serial vers buffer [] = Some []"
| "download ops serial vers buffer (i # is) = do {
     (buffer', sent) \<leftarrow> receive ops buffer (request ops serial vers i);
     rest \<leftarrow> download ops serial vers buffer' is;
     Some (drop data_at (case sent of None \<Rightarrow> [] | Some m \<Rightarrow> m) @ rest)
   }"

lemma store_message:
  assumes "length vers = VERSION_STRING_LEN" "length buffer = OTA_HEADER_SIZE"
  shows "store 0 (message m c s vers z ps pn []) buffer = Some (message m c s vers z ps pn (drop data_at buffer))"
  using assms by (simp add: store_def message_def header_places OTA_HEADER_SIZE_def VERSION_STRING_LEN_def)

lemma receive_page:
  assumes "length vers = VERSION_STRING_LEN" "length buffer = OTA_HEADER_SIZE"
  shows "receive ops buffer (message (magic_word ops) OTA_CMD_GET_PAGE_DATA serial vers z ps pn []) =
    get_next_page ops (message (magic_word ops) OTA_CMD_GET_PAGE_DATA serial vers z ps pn (drop data_at buffer))"
  using store_message [OF assms] message_fields [OF assms(1)]
  by (simp add: receive_def handler_def OTA_CMD_GET_LATEST_VERSION_def OTA_CMD_GET_PAGE_DATA_def)

lemma receive_request:
  assumes "length vers = VERSION_STRING_LEN" "length buffer = OTA_HEADER_SIZE" "filesize ops = of_nat (length (firmware ops))"
    and "length (firmware ops) < 2 ^ 32" "1000 * i < 2 ^ 32"
  shows "\<exists>buffer' sent. receive ops buffer (request ops serial vers i) = Some (buffer', sent) \<and> length buffer' = OTA_HEADER_SIZE \<and>
    drop data_at (case sent of None \<Rightarrow> [] | Some m \<Rightarrow> m) = page 1000 (firmware ops) i"
proof -
  have u: "unat OTA_PAGE_SIZE = 1000" "unat (OTA_PAGE_SIZE * of_nat i) = 1000 * i"
    using assms(5) unat_offset [of i] by (simp_all add: OTA_PAGE_SIZE_def unat_mult_lem [THEN iffD1])
  have d: "length (drop data_at buffer) = 1000" using assms(2) by (simp add: OTA_HEADER_SIZE_def u)
  have m: "drop data_at (message m c s vers z ps pn payload) = payload" for m c s z ps pn payload
    using assms(1) by (simp add: message_def header_places VERSION_STRING_LEN_def)
  have "length (page 1000 (firmware ops) i) \<le> 1000" by (simp add: page_def)
  moreover have "\<not> 1000 * i < length (firmware ops) \<Longrightarrow> page 1000 (firmware ops) i = []" by (simp add: page_def)
  ultimately show ?thesis
    using receive_page [OF assms(1,2), of ops serial 0 OTA_PAGE_SIZE "of_nat i"]
      next_page [OF assms(1,3,4), where ps = OTA_PAGE_SIZE and pn = "of_nat i" and d = "drop data_at buffer" and m = "magic_word ops" and c = OTA_CMD_GET_PAGE_DATA and s = serial and z = 0]
      page_def [of 1000 "firmware ops" i] assms(5) u d m message_fields(9) [OF assms(1)]
    by (simp add: request_def Let_def OTA_HEADER_SIZE_def)
qed

lemma download_pages:
  assumes "length vers = VERSION_STRING_LEN" "filesize ops = of_nat (length (firmware ops))" "length (firmware ops) < 2 ^ 32"
  shows "length buffer = OTA_HEADER_SIZE \<Longrightarrow> \<forall>i \<in> set is. 1000 * i < 2 ^ 32 \<Longrightarrow>
    download ops serial vers buffer is = Some (concat (map (page 1000 (firmware ops)) is))"
proof (induction "is" arbitrary: buffer)
  case (Cons i js)
  then show ?case using receive_request [OF assms(1) Cons.prems(1) assms(2,3), of i serial] by auto
qed simp

lemma pages_concat: "concat (map (page n fw) [0..<k]) = take (n * k) fw"
  by (induction k) (simp_all add: page_def add.commute flip: take_add)

text \<open>
  C15: a client that asks for the pages 0, 1, 2 and so on, as many as the firmware has or more, receives the
  firmware, whatever is in the buffer of its thread.
\<close>

theorem ota_download:
  assumes "length vers = VERSION_STRING_LEN" "filesize ops = of_nat (length (firmware ops))" "length (firmware ops) < 2 ^ 32"
    and "length buffer = OTA_HEADER_SIZE" "length (firmware ops) \<le> 1000 * k" "1000 * k \<le> 2 ^ 32"
  shows "download ops serial vers buffer [0..<k] = Some (firmware ops)"
proof -
  have "\<forall>i \<in> set [0..<k]. 1000 * i < 2 ^ 32" using assms(6) by auto
  from download_pages [OF assms(1-4) this, of serial] show ?thesis using assms(5) by (simp add: pages_concat)
qed

theorem ota_download_witness:
  "download \<lparr>magic_word = 0xDEADBEEF, filesize = 2500, firmware = replicate 2500 7, version_string = Some version\<rparr> 1 (replicate 16 0)
     (replicate OTA_HEADER_SIZE 0) [0..<3] = Some (replicate 2500 7)"
  by (subst ota_download) (simp_all add: VERSION_STRING_LEN_def)

text \<open>
  C27: a request for a page of the firmware makes the server write behind its buffer exactly when it asks for more than
  1000 bytes and more than 1000 are left.
\<close>

theorem ota_page_overrun:
  assumes "length vers = VERSION_STRING_LEN" "filesize ops = of_nat (length (firmware ops))" "length (firmware ops) < 2 ^ 32"
    and "length buffer = OTA_HEADER_SIZE" "unat (ps * pn) < length (firmware ops)"
  shows "receive ops buffer (message (magic_word ops) OTA_CMD_GET_PAGE_DATA serial vers z ps pn []) = None \<longleftrightarrow>
    1000 < min (unat ps) (length (firmware ops) - unat (ps * pn))"
  using receive_page [OF assms(1,4), of ops serial z ps pn] next_page [OF assms(1-3), where ps = ps and pn = pn and d = "drop data_at buffer" and m = "magic_word ops" and c = OTA_CMD_GET_PAGE_DATA and s = serial and z = z]
    assms(3-5)
  by (simp add: page_def Let_def OTA_HEADER_SIZE_def OTA_PAGE_SIZE_def min_def)

theorem ota_page_overrun_witness:
  "receive \<lparr>magic_word = 1, filesize = 2500, firmware = replicate 2500 7, version_string = Some version\<rparr> (replicate OTA_HEADER_SIZE 0)
     (message 1 OTA_CMD_GET_PAGE_DATA 0 (replicate 16 0) 0 2000 0 []) = None"
  using ota_page_overrun [where ops = "\<lparr>magic_word = 1, filesize = 2500, firmware = replicate 2500 7, version_string = Some version\<rparr>"
      and vers = "replicate 16 0" and buffer = "replicate OTA_HEADER_SIZE 0" and ps = 2000 and pn = 0 and serial = 0 and z = 0]
  by (simp add: VERSION_STRING_LEN_def)

text \<open>The product of size and number wraps: a page far behind the end is answered with the start of the firmware.\<close>

lemma page_number_wraps:
  assumes "length vers = VERSION_STRING_LEN" "length buffer = OTA_HEADER_SIZE" "filesize ops = of_nat (length (firmware ops))"
    and "length (firmware ops) < 2 ^ 32" "firmware ops \<noteq> []"
  shows "\<exists>b sent. receive ops buffer (message (magic_word ops) OTA_CMD_GET_PAGE_DATA serial vers 0 512 0x800000 []) = Some (b, Some sent)"
  using receive_page [OF assms(1,2), of ops serial 0 512 "0x800000"]
    next_page [OF assms(1,3,4), where ps = 512 and pn = "0x800000" and d = "drop data_at buffer" and m = "magic_word ops" and c = OTA_CMD_GET_PAGE_DATA and s = serial and z = 0]
    assms(2,5)
  by (simp add: Let_def OTA_HEADER_SIZE_def OTA_PAGE_SIZE_def)

text \<open>A request for the version before the main program has stored it, and a version without a zero byte.\<close>

lemma version_too_early: "version_string ops = None \<Longrightarrow> get_version ops data n = None"
  by (simp add: get_version_def)

lemma version_answer:
  assumes "version_string ops = Some p" "c_string_at p (firmware ops) = Some v" "length v < VERSION_STRING_LEN"
    and "length vers = VERSION_STRING_LEN"
  shows "get_version ops (message m c s vers z ps pn d) data_at =
    Some (message m c s (v @ [0] @ drop (Suc (length v)) vers) (filesize ops) OTA_PAGE_SIZE pn d,
      Some (message m c s (v @ [0] @ drop (Suc (length v)) vers) (filesize ops) OTA_PAGE_SIZE pn []))"
proof -
  have l: "length (v @ [0] @ drop (Suc (length v)) vers) = VERSION_STRING_LEN" using assms(3,4) by simp
  have "strcpy_vers v (message m c s vers z ps pn d) = Some (message m c s (v @ [0] @ drop (Suc (length v)) vers) z ps pn d)"
    using assms(3,4) by (simp add: strcpy_vers_def store_def message_def header_places VERSION_STRING_LEN_def)
  then show ?thesis using assms(1,2) message_fields(5,6) [OF l] message_fields(8) [OF l, of 0] by (simp add: get_version_def)
qed

section \<open>The main program\<close>

text \<open>
  What the system answers in one round of the main program: the size of the file, the memory, whether the file
  opens, what is read, whether the server starts, whether the file changes before the program is interrupted.
\<close>

record round =
  stat_answer :: "int + nat"
  memory :: "mem option"
  open_error :: int
  read_answer :: "mem option"
  started :: bool
  modified :: bool
  stop_result :: int

definition ENOMEM :: int where "ENOMEM = 12"
definition EFAULT :: int where "EFAULT = 14"
definition EINVAL :: int where "EINVAL = 22"

text \<open>\<open>get_firmware\<close>: the size, when it is stored, and an error or the firmware.\<close>

definition get_firmware :: "round \<Rightarrow> u32 option \<times> (int + mem)" where
  "get_firmware a = (case stat_answer a of Inl e \<Rightarrow> (None, Inl e) | Inr n \<Rightarrow>
     (case memory a of None \<Rightarrow> (None, Inl ENOMEM) | Some tmp \<Rightarrow>
       if open_error a \<noteq> 0 then (Some (of_nat n), Inl (open_error a))
       else (let ret = (case read_answer a of None \<Rightarrow> - 1 | Some bs \<Rightarrow> (of_nat (length bs) :: u32)) in
         if unat ret \<noteq> n then (Some (of_nat n), Inl EINVAL)
         else (Some (of_nat n), Inr (case read_answer a of None \<Rightarrow> tmp | Some bs \<Rightarrow> bs)))))"

text \<open>The pointer to the firmware, which nobody resets when the memory is freed.\<close>

datatype pointer = Null | Live | Dangling

fun free :: "pointer \<Rightarrow> pointer option" where
  "free Null = Some Null"
| "free Live = Some Dangling"
| "free Dangling = None"

text \<open>The main program from \<open>restart\<close> on, with its exit code, or none while it waits.\<close>

fun restart :: "pointer \<Rightarrow> round list \<Rightarrow> int option option" where
  "restart p [] = Some None"
| "restart p (a # as) = do {
     p \<leftarrow> free p;
     case snd (get_firmware a) of
       Inl res \<Rightarrow> do { p \<leftarrow> free p; Some (Some res) }
     | Inr fw \<Rightarrow>
         if \<not> started a then do { p \<leftarrow> free Live; Some (Some EFAULT) }
         else if modified a then restart Live as
         else do { p \<leftarrow> free Live; Some (Some (stop_result a)) }
   }"

definition fails :: "round \<Rightarrow> bool" where
  "fails a \<longleftrightarrow> (\<exists>e. snd (get_firmware a) = Inl e)"

definition goes_on :: "round \<Rightarrow> bool" where
  "goes_on a \<longleftrightarrow> \<not> fails a \<and> started a \<and> modified a"

lemma fails_after_cons: "(\<exists>bs b cs. a # as = bs @ b # cs \<and> list_all goes_on bs \<and> fails b) \<longleftrightarrow>
    fails a \<or> goes_on a \<and> (\<exists>bs b cs. as = bs @ b # cs \<and> list_all goes_on bs \<and> fails b)" (is "?l \<longleftrightarrow> ?r")
proof
  assume ?l
  then obtain bs b cs where "a # as = bs @ b # cs" "list_all goes_on bs" "fails b" by blast
  then show ?r by (cases bs) auto
next
  assume ?r
  then show ?l
  proof
    assume "fails a"
    then have "a # as = [] @ a # as \<and> list_all goes_on [] \<and> fails a" by simp
    then show ?l by blast
  next
    assume "goes_on a \<and> (\<exists>bs b cs. as = bs @ b # cs \<and> list_all goes_on bs \<and> fails b)"
    then obtain bs b cs where "a # as = (a # bs) @ b # cs \<and> list_all goes_on (a # bs) \<and> fails b" by auto
    then show ?l by blast
  qed
qed

lemma restart_live: "restart Live as = None \<longleftrightarrow> (\<exists>bs a cs. as = bs @ a # cs \<and> list_all goes_on bs \<and> fails a)"
proof (induction as)
  case (Cons a as)
  have "restart Live (a # as) = None \<longleftrightarrow> fails a \<or> goes_on a \<and> restart Live as = None"
    by (cases "snd (get_firmware a)") (auto simp: fails_def goes_on_def)
  then show ?case unfolding fails_after_cons Cons.IH .
qed simp

lemma restart_null: "restart Null (a # as) = None \<longleftrightarrow> goes_on a \<and> restart Live as = None"
  by (cases "snd (get_firmware a)") (auto simp: fails_def goes_on_def)

text \<open>
  The main program frees memory twice exactly when the firmware cannot be read in a round after the
  first one; until then it runs without undefined behaviour.
\<close>

theorem ota_double_free:
  "restart Null as = None \<longleftrightarrow> (\<exists>b bs a cs. as = b # bs @ a # cs \<and> list_all goes_on (b # bs) \<and> fails a)"
proof (cases as)
  case (Cons a as')
  have "(\<exists>b bs c cs. as = b # bs @ c # cs \<and> list_all goes_on (b # bs) \<and> fails c) \<longleftrightarrow>
      goes_on a \<and> (\<exists>bs c cs. as' = bs @ c # cs \<and> list_all goes_on bs \<and> fails c)" using Cons by auto
  then show ?thesis unfolding Cons restart_null restart_live by simp
qed simp

end
