(* ===== verification/Framebuffer.thy ===== *)
theory Framebuffer
  imports C_Prelude
begin

text \<open>
  The drawing functions of Linux/framebuffer.c on a buffer of 32-bit pixels.  The global variables are the fields of the
  state, \<open>vinfo\<close> with the members that are used.  A pointer into the buffer is an index; a store outside of the
  buffer, or through a null pointer, has no value.  \<open>munmap\<close> of memory from \<open>malloc\<close>, which is not at the start of
  a page, fails and is left out.
\<close>

section \<open>The state\<close>

record font_t =
  FontXsize :: u8
  FontYsize :: u8
  Font :: "u8 list"
  FontColor :: u32
  BackColor :: u32

record fb =
  framebuffer :: int
  screenSize :: u32
  xres :: u32
  yres :: u32
  imagebuffer :: "u32 list option"
  bg_buffer :: "u32 list option"
  font :: "font_t option"
  windowInit :: bool
  ptr :: int
  win_x :: u16
  win_x_max :: u16

text \<open>What the system answers: the descriptor, the members of \<open>vinfo\<close>, the memory, and whether the mode is set.\<close>

record fb_answers =
  open_answer :: int
  info :: "(u32 \<times> u32 \<times> u32) option"
  block :: "u32 \<Rightarrow> u32 list option"
  put_ok :: bool
  mapped :: "u32 \<Rightarrow> u32 list option"

definition FrameBufferInit :: "fb_answers \<Rightarrow> u8 \<Rightarrow> fb \<Rightarrow> string \<times> fb" where
  "FrameBufferInit ans multiBuffer s =
     (if framebuffer s \<noteq> 0 then (''Already initialized!'', s)
      else let s = s\<lparr>bg_buffer := None, framebuffer := open_answer ans\<rparr> in
        if framebuffer s < 0 then (''Fail to open stream!'', s)
        else case info ans of None \<Rightarrow> (''Fail get info structure!'', s)
          | Some (x, y, bits_per_pixel) \<Rightarrow>
              let n = x * y * bits_per_pixel div 8;
                s = s\<lparr>xres := x, yres := y, screenSize := n, bg_buffer := block ans n\<rparr> in
              if multiBuffer \<noteq> 0 \<and> multiBuffer \<le> 4 \<and> \<not> put_ok ans then (''Error set resolution'', s)
              else (''OK'', s\<lparr>imagebuffer := mapped ans n\<rparr>))"

definition FrameBufferUpdate :: "fb \<Rightarrow> fb option" where
  "FrameBufferUpdate s = (case (imagebuffer s, bg_buffer s) of (Some _, Some b) \<Rightarrow> Some (s\<lparr>imagebuffer := Some b\<rparr>) | _ \<Rightarrow> None)"

definition FrameBufferDeInit :: "fb \<Rightarrow> fb" where
  "FrameBufferDeInit s = s\<lparr>bg_buffer := None\<rparr>"

section \<open>Pixels and windows\<close>

definition put :: "int \<Rightarrow> u32 \<Rightarrow> fb \<Rightarrow> fb option" where
  "put i c s = (case bg_buffer s of None \<Rightarrow> None
     | Some b \<Rightarrow> if 0 \<le> i \<and> nat i < length b then Some (s\<lparr>bg_buffer := Some (b[nat i := c])\<rparr>) else None)"

fun steps :: "('x \<Rightarrow> 's \<Rightarrow> 's option) \<Rightarrow> 'x list \<Rightarrow> 's \<Rightarrow> 's option" where
  "steps f [] s = Some s"
| "steps f (x # xs) s = do { s \<leftarrow> f x s; steps f xs s }"

definition ClearScreen :: "u32 \<Rightarrow> fb \<Rightarrow> fb option" where
  "ClearScreen color s = steps (\<lambda>i. put (int i) color) [0..<unat (xres s * yres s)] s"

definition pixel_index :: "u32 \<Rightarrow> u32 \<Rightarrow> fb \<Rightarrow> int" where
  "pixel_index x y s = uint (x + xres s * y)"

definition SetWindow :: "u16 \<Rightarrow> u16 \<Rightarrow> u16 \<Rightarrow> u16 \<Rightarrow> fb \<Rightarrow> fb" where
  "SetWindow x0 y0 size_x size_y s = s\<lparr>windowInit := True, ptr := pixel_index (ucast x0) (ucast y0) s, win_x_max := size_x\<rparr>"

definition FillWindow :: "u32 \<Rightarrow> fb \<Rightarrow> fb option" where
  "FillWindow color s =
     (if \<not> windowInit s then Some s
      else do {
        s \<leftarrow> put (ptr s) color s;
        let s = s\<lparr>ptr := ptr s + 1, win_x := win_x s + 1\<rparr>;
        Some (if win_x s < win_x_max s then s
              else s\<lparr>win_x := 0, ptr := ptr s + uint (xres s - ucast (win_x_max s))\<rparr>)
      })"

text \<open>The product of the sizes is an \<open>int\<close>; the colours are those of the array, as many as it has.\<close>

definition array_at :: "'x list \<Rightarrow> nat \<Rightarrow> 'x option" where
  "array_at xs i = (if i < length xs then Some (xs ! i) else None)"

definition FlushWindow :: "u16 \<Rightarrow> u16 \<Rightarrow> u16 \<Rightarrow> u16 \<Rightarrow> u32 list \<Rightarrow> fb \<Rightarrow> fb option" where
  "FlushWindow x0 y0 size_x size_y color s =
     (let n = unat size_x * unat size_y in
      if 2 ^ 31 \<le> n then None
      else steps (\<lambda>i s. do { c \<leftarrow> array_at color i; FillWindow c s }) [0..<n] (SetWindow x0 y0 size_x size_y s))"

definition DrawPic32 :: "u16 \<Rightarrow> u16 \<Rightarrow> u16 \<Rightarrow> u16 \<Rightarrow> u32 list \<Rightarrow> fb \<Rightarrow> fb option" where
  "DrawPic32 x0 y0 size_x size_y pic s =
     steps (\<lambda>y. steps (\<lambda>x s. do {
         c \<leftarrow> array_at pic (y * unat size_x + x);
         put (pixel_index (of_nat x + ucast x0) (ucast y0 + of_nat y) s) c s
       }) [0..<unat size_x]) [0..<unat size_y] s"

definition DrawPixel32 :: "u16 \<Rightarrow> u16 \<Rightarrow> u32 \<Rightarrow> fb \<Rightarrow> fb option" where
  "DrawPixel32 x0 y0 color s = put (pixel_index (ucast x0) (ucast y0) s) color s"

definition DrawHorizontalLine32 :: "u16 \<Rightarrow> u16 \<Rightarrow> u16 \<Rightarrow> u32 \<Rightarrow> fb \<Rightarrow> fb option" where
  "DrawHorizontalLine32 x0 y0 x1 color s =
     (let dx = (if x1 > x0 then x1 - x0 else x0 - x1) in
      steps (\<lambda>_. FillWindow color) [0..<unat dx] (SetWindow x0 y0 dx 1 s))"

definition DrawVerticalLine32 :: "u16 \<Rightarrow> u16 \<Rightarrow> u16 \<Rightarrow> u32 \<Rightarrow> fb \<Rightarrow> fb option" where
  "DrawVerticalLine32 x0 y0 y1 color s =
     (let dy = (if y1 > y0 then y1 - y0 else y0 - y1) in
      steps (\<lambda>_. FillWindow color) [0..<unat dy] (SetWindow x0 y0 1 dy s))"

definition DrawCross :: "u16 \<Rightarrow> u16 \<Rightarrow> u16 \<Rightarrow> u32 \<Rightarrow> fb \<Rightarrow> fb option" where
  "DrawCross x0 y0 cross_size color s = do {
     s \<leftarrow> DrawHorizontalLine32 (x0 - cross_size) y0 (x0 + cross_size) color s;
     DrawVerticalLine32 x0 (y0 - cross_size) (y0 + cross_size) color s }"

section \<open>Circles\<close>

text \<open>An assignment to \<open>int16_t\<close>, and one round of the loop that both circles have.\<close>

definition int16 :: "int \<Rightarrow> int" where
  "int16 v = sint (word_of_int v :: u16)"

definition circle_next :: "int \<times> int \<times> int \<Rightarrow> int \<times> int \<times> int" where
  "circle_next = (\<lambda>(x, y, err).
     let (y', err', e2) =
       (if err \<le> y
        then let y' = int16 (y + 1); err' = int16 (err + (y' * 2 + 1)) in (y', err', if - x = y' \<and> err \<le> x then 0 else err)
        else (y, err, err)) in
     if e2 > x then let x' = int16 (x + 1) in (x', y', int16 (err' + (x' * 2 + 1))) else (x, y', err'))"

partial_function (option) circle_loop :: "(int \<Rightarrow> int \<Rightarrow> 's \<Rightarrow> 's option) \<Rightarrow> int \<times> int \<times> int \<Rightarrow> 's \<Rightarrow> 's option" where
  "circle_loop draw v s = (case draw (fst v) (fst (snd v)) s of None \<Rightarrow> None
     | Some s' \<Rightarrow> if fst (circle_next v) \<le> 0 then circle_loop draw (circle_next v) s' else Some s')"

definition circle_start :: "int \<Rightarrow> int \<times> int \<times> int" where
  "circle_start r = (int16 (- r), 0, int16 (2 - 2 * r))"

definition DrawCircle32 :: "int \<Rightarrow> int \<Rightarrow> int \<Rightarrow> u32 \<Rightarrow> fb \<Rightarrow> fb option" where
  "DrawCircle32 x0 y0 r color = circle_loop (\<lambda>x y s. do {
     s \<leftarrow> DrawPixel32 (of_int (x0 - x)) (of_int (y0 + y)) color s;
     s \<leftarrow> DrawPixel32 (of_int (x0 + x)) (of_int (y0 + y)) color s;
     s \<leftarrow> DrawPixel32 (of_int (x0 + x)) (of_int (y0 - y)) color s;
     DrawPixel32 (of_int (x0 - x)) (of_int (y0 - y)) color s }) (circle_start r)"

definition DrawFilledCircle32 :: "int \<Rightarrow> int \<Rightarrow> int \<Rightarrow> u32 \<Rightarrow> fb \<Rightarrow> fb option" where
  "DrawFilledCircle32 x0 y0 r color = circle_loop (\<lambda>x y s. do {
     s \<leftarrow> DrawHorizontalLine32 (of_int (x0 + x)) (of_int (y0 + y)) (of_int (x0 - x)) color s;
     DrawHorizontalLine32 (of_int (x0 + x)) (of_int (y0 - y)) (of_int (x0 - x)) color s }) (circle_start r)"

section \<open>Text\<close>

definition GetScreenSize :: "fb \<Rightarrow> u16 \<times> u16" where
  "GetScreenSize s = (ucast (xres s), ucast (yres s))"

definition SetFont :: "font_t option \<Rightarrow> fb \<Rightarrow> font_t option \<times> fb" where
  "SetFont f s = (let s = (if f \<noteq> None then s\<lparr>font := f\<rparr> else s) in (font s, s))"

text \<open>A bit of the font: the character is signed or not, as \<open>char\<close> is; \<open>1 << y\<close> is an \<open>int\<close>.\<close>

definition font_bit :: "font_t \<Rightarrow> int \<Rightarrow> nat \<Rightarrow> nat \<Rightarrow> bool option" where
  "font_bit f ch x y = (let i = ch * uint (FontXsize f) + int x in
     if 0 \<le> i \<and> nat i < length (Font f) \<and> y < 31 then Some (bit (Font f ! nat i) y) else None)"

definition PrintChar :: "u16 \<Rightarrow> u16 \<Rightarrow> int \<Rightarrow> fb \<Rightarrow> fb option" where
  "PrintChar x0 y0 ch s = do {
     f \<leftarrow> font s;
     steps (\<lambda>x. steps (\<lambda>y s. do {
         b \<leftarrow> font_bit f ch x y;
         FillWindow (if b then FontColor f else BackColor f) s
       }) [0..<unat (FontYsize f)]) [0..<unat (FontXsize f)]
       (SetWindow x0 y0 (ucast (FontXsize f)) (ucast (FontYsize f)) s) }"

fun print_loop :: "u16 \<Rightarrow> u16 \<Rightarrow> u16 \<Rightarrow> u16 \<Rightarrow> int list \<Rightarrow> fb \<Rightarrow> (u16 \<times> fb) option" where
  "print_loop x x0 y0 Row [] s = Some (Row, s)"
| "print_loop x x0 y0 Row (c # text) s = do {
     f \<leftarrow> font s;
     if c = 10 then print_loop x x (y0 + ucast (FontYsize f)) (Row + 1) text s
     else do {
       s \<leftarrow> PrintChar x0 y0 c s;
       print_loop x (x0 + ucast (FontXsize f)) y0 Row text s } }"

definition PrintText :: "u16 \<Rightarrow> u16 \<Rightarrow> int list \<Rightarrow> fb \<Rightarrow> (u16 \<times> fb) option" where
  "PrintText x0 y0 text s = print_loop x0 x0 y0 0 text s"

section \<open>A prepared buffer\<close>

definition ready :: "fb \<Rightarrow> bool" where
  "ready s \<longleftrightarrow> (\<exists>b. bg_buffer s = Some b \<and> length b = unat (xres s) * unat (yres s) \<and> length b < 2 ^ 32)"

definition pixel :: "fb \<Rightarrow> nat \<Rightarrow> nat \<Rightarrow> u32" where
  "pixel s x y = the (bg_buffer s) ! (x + unat (xres s) * y)"

lemma steps_nil [simp]: "steps f [] = Some"
  by (rule ext) simp

lemma steps_append: "steps f (xs @ ys) s = (case steps f xs s of None \<Rightarrow> None | Some s' \<Rightarrow> steps f ys s')"
  by (induction xs arbitrary: s) (simp_all split: bind_split)

lemma steps_map: "steps f (map g xs) s = steps (f \<circ> g) xs s"
  by (induction xs arbitrary: s) (simp_all split: bind_split)

lemma steps_cong: "(\<And>x s. x \<in> set xs \<Longrightarrow> f x s = g x s) \<Longrightarrow> steps f xs s = steps g xs s"
  by (induction xs arbitrary: s) (simp_all split: bind_split)

text \<open>Two nested loops are one loop over the places of a rectangle, row by row.\<close>

lemma steps_rows: "steps (\<lambda>y. steps (\<lambda>x. f (y * w + x)) [0..<w]) [0..<h] s = steps f [0..<h * w] s"
proof (induction h arbitrary: s)
  case (Suc h)
  have "[0..<Suc h * w] = [0..<h * w] @ map (\<lambda>i. i + h * w) [0..<w]"
    using upt_add_eq_append [of 0 "h * w" w] by (simp add: map_add_upt add.commute)
  then show ?case using Suc by (simp add: steps_append steps_map comp_def add.commute split: option.split)
qed simp

text \<open>The buffer after some stores.\<close>

definition stored :: "(nat \<Rightarrow> nat) \<Rightarrow> (nat \<Rightarrow> u32) \<Rightarrow> nat \<Rightarrow> u32 list \<Rightarrow> u32 list" where
  "stored pos c n b = foldl (\<lambda>b k. b[pos k := c k]) b [0..<n]"

lemma stored_simps [simp]: "stored pos c 0 b = b" "stored pos c (Suc n) b = (stored pos c n b)[pos n := c n]"
  by (simp_all add: stored_def)

lemma length_stored [simp]: "length (stored pos c n b) = length b"
  by (induction n) simp_all

lemma stored_other: "\<forall>k<n. pos k \<noteq> i \<Longrightarrow> stored pos c n b ! i = b ! i"
  by (induction n) simp_all

lemma stored_nth: "k < n \<Longrightarrow> inj_on pos {..<n} \<Longrightarrow> pos k < length b \<Longrightarrow> stored pos c n b ! pos k = c k"
proof (induction n)
  case (Suc n)
  then have "k \<noteq> n \<Longrightarrow> pos n \<noteq> pos k" by (auto dest: inj_onD)
  moreover have "inj_on pos {..<n}" using Suc.prems(2) by (rule inj_on_subset) auto
  ultimately show ?case using Suc by (cases "k = n") simp_all
qed simp

section \<open>Filling a window\<close>

text \<open>The place of the pixel with number \<open>k\<close> in a window of width \<open>w\<close> whose first pixel is at \<open>p\<close>.\<close>

definition place :: "nat \<Rightarrow> nat \<Rightarrow> nat \<Rightarrow> nat \<Rightarrow> nat" where
  "place p X w k = p + X * (k div w) + k mod w"

lemma fill_run:
  assumes "windowInit s" "win_x s = 0" "bg_buffer s = Some b" "ptr s = int p" "0 < w" "w \<le> unat (xres s)" "win_x_max s = of_nat w" "w < 2 ^ 16"
    and "\<forall>k<length cs. place p (unat (xres s)) w k < length b"
  shows "steps FillWindow cs s = Some (s\<lparr>bg_buffer := Some (stored (place p (unat (xres s)) w) (\<lambda>k. cs ! k) (length cs) b),
    ptr := int (place p (unat (xres s)) w (length cs)), win_x := of_nat (length cs mod w)\<rparr>)"
  using assms(9)
proof (induction cs rule: rev_induct)
  case Nil
  then show ?case using assms by (simp add: place_def)
next
  case (snoc c cs)
  let ?n = "length cs" and ?X = "unat (xres s)"
  let ?pos = "place p ?X w"
  have IH: "steps FillWindow cs s = Some (s\<lparr>bg_buffer := Some (stored ?pos (\<lambda>k. cs ! k) ?n b), ptr := int (?pos ?n), win_x := of_nat (?n mod w)\<rparr>)"
    using snoc by simp
  have same: "stored ?pos (\<lambda>k. (cs @ [c]) ! k) ?n b = stored ?pos (\<lambda>k. cs ! k) ?n b"
    unfolding stored_def by (intro foldl_cong) (auto simp: nth_append)
  have m: "?n mod w < w" using assms(5) by simp
  have k16: "unat (of_nat k :: u16) = k" if "k < 2 ^ 16" for k
    using that by (simp add: unat_of_nat)
  have "unat (ucast (of_nat w :: u16) :: u32) = w"
    using assms(8) k16 [OF assms(8)] by (simp add: unsigned_ucast_eq take_bit_nat_eq_self)
  then have "unat (xres s - ucast (of_nat w :: u16)) = ?X - w" using assms(6) by (simp add: unat_sub word_le_nat_alt)
  then have u: "uint (xres s - ucast (of_nat w :: u16)) = int (?X - w)" unfolding uint_nat by (simp only:)
  have s16: "(of_nat (?n mod w) + 1 :: u16) = of_nat (Suc (?n mod w))" by simp
  have "Suc (?n mod w) < 2 ^ 16" using m assms(8) by simp
  from k16 [OF this] k16 [OF assms(8)] have lt: "(of_nat (?n mod w) + 1 :: u16) < of_nat w \<longleftrightarrow> Suc (?n mod w) < w"
    unfolding s16 word_less_nat_alt by simp
  have md: "Suc ?n mod w = (if Suc (?n mod w) < w then Suc (?n mod w) else 0)" using m by (simp add: mod_Suc)
  have nxt: "?pos (Suc ?n) = ?pos ?n + (if Suc (?n mod w) < w then 1 else 1 + (?X - w))"
  proof (cases "Suc (?n mod w) < w")
    case False
    then have e: "Suc (?n mod w) = w" using m by simp
    then show ?thesis using assms(6) by (simp add: place_def mod_Suc div_Suc)
  qed (simp add: place_def mod_Suc div_Suc)
  have "?pos ?n < length b" using snoc.prems by simp
  then have "FillWindow c (s\<lparr>bg_buffer := Some (stored ?pos (\<lambda>k. cs ! k) ?n b), ptr := int (?pos ?n), win_x := of_nat (?n mod w)\<rparr>) =
      Some (s\<lparr>bg_buffer := Some (stored ?pos (\<lambda>k. (cs @ [c]) ! k) (Suc ?n) b), ptr := int (?pos (Suc ?n)), win_x := of_nat (Suc ?n mod w)\<rparr>)"
    using assms(1,7) lt u by (simp add: FillWindow_def put_def same nxt md add.assoc add.commute)
  then show ?case by (simp add: steps_append IH)
qed

section \<open>Rectangles\<close>

lemma coords_less: "x < X \<Longrightarrow> y < Y \<Longrightarrow> x + X * y < X * Y" for x X y Y :: nat
proof -
  assume "x < X" "y < Y"
  then have "x + X * y < X * Suc y" "X * Suc y \<le> X * Y" by (simp, intro mult_le_mono) simp_all
  then show ?thesis by (rule less_le_trans)
qed

lemma coords_unique: "x < X \<Longrightarrow> a < X \<Longrightarrow> x + X * y = a + X * b \<longleftrightarrow> x = a \<and> y = b" for x X y a b :: nat
  by (metis add.commute add_left_cancel div_less div_mult_self1 mod_less mod_mult_self2 mult.commute mult_eq_0_iff not_less_zero)

lemma place_coords: "place (x0 + X * y0) X w k = (x0 + k mod w) + X * (y0 + k div w)"
  by (simp add: place_def distrib_left)

lemma unat_ucast_u32: "unat (ucast v :: u32) = unat (v :: u16)"
proof -
  have "unat v < 2 ^ 32" by (rule less_trans [OF unat_u16_less]) simp
  then show ?thesis by (simp add: unsigned_ucast_eq take_bit_nat_eq_self)
qed

lemma unat_shifted: "k < 2 ^ 16 \<Longrightarrow> unat (of_nat k + ucast v :: u32) = unat (v :: u16) + k" "k < 2 ^ 16 \<Longrightarrow> unat (ucast v + of_nat k :: u32) = unat v + k"
proof -
  assume "k < 2 ^ 16"
  moreover from this have "unat (of_nat k :: u32) = k" by (simp add: unat_of_nat)
  moreover have "unat v + k < 65536 + 2 ^ 16" using unat_u16_less [of v] \<open>k < 2 ^ 16\<close> by (rule add_strict_mono)
  then have "unat v + k < 2 ^ LENGTH(32)" by (rule less_trans) simp
  ultimately show u: "unat (ucast v + of_nat k :: u32) = unat v + k"
    by (subst unat_add_lem [THEN iffD1]) (simp_all add: unat_ucast_u32)
  then show "unat (of_nat k + ucast v :: u32) = unat v + k" by (simp add: add.commute)
qed

lemma pixel_index_id:
  assumes "unat x + unat (xres s) * unat y < 2 ^ 32"
  shows "pixel_index x y s = int (unat x + unat (xres s) * unat y)"
proof -
  have "unat (xres s * y) = unat (xres s) * unat y" using assms by (subst unat_mult_lem [THEN iffD1]) simp_all
  then have "unat (x + xres s * y) = unat x + unat (xres s) * unat y" using assms by (subst unat_add_lem [THEN iffD1]) simp_all
  then show ?thesis unfolding pixel_index_def uint_nat by (simp only:)
qed

text \<open>The rectangle lies on the screen.\<close>

definition on_screen :: "fb \<Rightarrow> u16 \<Rightarrow> u16 \<Rightarrow> u16 \<Rightarrow> u16 \<Rightarrow> bool" where
  "on_screen s x0 y0 w h \<longleftrightarrow> 0 < w \<and> 0 < h \<and> unat x0 + unat w \<le> unat (xres s) \<and> unat y0 + unat h \<le> unat (yres s)"

text \<open>All stores that put the picture at its place.\<close>

lemma place_on_screen:
  assumes "on_screen s x0 y0 w h" "k < unat h * unat w"
  shows "place (unat x0 + unat (xres s) * unat y0) (unat (xres s)) (unat w) k < unat (xres s) * unat (yres s)"
proof -
  have w: "0 < unat w" using assms(2) by (cases "unat w = 0") auto
  have "k mod unat w < unat w" "k div unat w < unat h" using w assms(2) by (simp_all add: less_mult_imp_div_less)
  then show ?thesis unfolding place_coords using assms(1) by (intro coords_less) (auto simp: on_screen_def)
qed

lemma flush_run:
  assumes "ready s" "on_screen s x0 y0 w h" "win_x s = 0" "length pic = unat w * unat h" "length pic < 2 ^ 31"
  shows "\<exists>s'. FlushWindow x0 y0 w h pic s = Some s' \<and> xres s' = xres s \<and>
    bg_buffer s' = Some (stored (place (unat x0 + unat (xres s) * unat y0) (unat (xres s)) (unat w)) (\<lambda>k. pic ! k) (length pic) (the (bg_buffer s)))"
proof -
  obtain b where b: "bg_buffer s = Some b" "length b = unat (xres s) * unat (yres s)" "length b < 2 ^ 32"
    using assms(1) by (auto simp: ready_def)
  let ?X = "unat (xres s)" and ?p = "unat x0 + unat (xres s) * unat y0"
  have l: "unat x0 < ?X" "unat y0 < unat (yres s)" "0 < unat w" "unat w \<le> ?X"
    using assms(2) by (auto simp: on_screen_def word_less_nat_alt)
  have "?p < 2 ^ 32" using coords_less [OF l(1,2)] b by simp
  then have p: "pixel_index (ucast x0) (ucast y0) s = int ?p" using pixel_index_id [of "ucast x0" s "ucast y0"] by (simp add: unat_ucast_u32)
  have pl: "\<forall>k<length pic. place ?p ?X (unat w) k < length b"
    using place_on_screen [OF assms(2)] assms(4) b(2) by (simp add: mult.commute)
  have "steps (\<lambda>i s. do { c \<leftarrow> array_at pic i; FillWindow c s }) [0..<length pic] t = steps FillWindow pic t" for t
  proof -
    have "steps (\<lambda>i s. do { c \<leftarrow> array_at pic i; FillWindow c s }) [0..<length pic] t = steps (FillWindow \<circ> (\<lambda>i. pic ! i)) [0..<length pic] t"
      by (rule steps_cong) (simp add: array_at_def)
    then show ?thesis by (simp only: map_nth flip: steps_map)
  qed
  then show ?thesis
    using fill_run [of "SetWindow x0 y0 w h s" b ?p "unat w" pic] assms(3-5) b(1) l pl p unat_u16_less [of w]
    by (simp add: FlushWindow_def SetWindow_def Let_def)
qed

lemma pic_run:
  assumes "ready s" "on_screen s x0 y0 w h" "length pic = unat w * unat h"
  shows "DrawPic32 x0 y0 w h pic s = Some (s\<lparr>bg_buffer :=
    Some (stored (place (unat x0 + unat (xres s) * unat y0) (unat (xres s)) (unat w)) (\<lambda>k. pic ! k) (length pic) (the (bg_buffer s)))\<rparr>)"
proof -
  obtain b where b: "bg_buffer s = Some b" "length b = unat (xres s) * unat (yres s)" "length b < 2 ^ 32"
    using assms(1) by (auto simp: ready_def)
  let ?X = "unat (xres s)" and ?p = "unat x0 + unat (xres s) * unat y0"
  let ?f = "\<lambda>k s. do { c \<leftarrow> array_at pic k; put (pixel_index (of_nat (k mod unat w) + ucast x0) (ucast y0 + of_nat (k div unat w)) s) c s }"
  have w: "0 < unat w" using assms(2) by (simp add: on_screen_def word_less_nat_alt)
  have "DrawPic32 x0 y0 w h pic s = steps (\<lambda>y. steps (\<lambda>x. ?f (y * unat w + x)) [0..<unat w]) [0..<unat h] s"
    unfolding DrawPic32_def using w by (intro steps_cong) (simp add: div_plus_div_distrib_dvd_right)
  also have "\<dots> = steps ?f [0..<length pic] s"
    using steps_rows [of ?f "unat w" "unat h" s] assms(3) by (simp only: mult.commute [of "unat w"])
  also have "n \<le> length pic \<Longrightarrow> steps ?f [0..<n] s = Some (s\<lparr>bg_buffer := Some (stored (place ?p ?X (unat w)) (\<lambda>k. pic ! k) n b)\<rparr>)" for n
  proof (induction n)
    case 0
    then show ?case using b(1) by simp
  next
    case (Suc n)
    have n: "n < unat h * unat w" using Suc.prems assms(3) by (simp add: mult.commute)
    have pl: "place ?p ?X (unat w) n < length b" using place_on_screen [OF assms(2) n] b(2) by simp
    have c: "unat (of_nat (n mod unat w) + ucast x0 :: u32) = unat x0 + n mod unat w" "unat (ucast y0 + of_nat (n div unat w) :: u32) = unat y0 + n div unat w"
      using n w unat_u16_less [of w] unat_u16_less [of h]
      by (auto intro!: unat_shifted intro: less_trans [OF mod_less_divisor] less_trans [OF less_mult_imp_div_less])
    have "pixel_index (of_nat (n mod unat w) + ucast x0) (ucast y0 + of_nat (n div unat w)) s = int (place ?p ?X (unat w) n)"
      unfolding place_coords using pl b(3) by (subst pixel_index_id) (simp_all add: c place_coords)
    then show ?case using Suc pl by (simp add: steps_append put_def array_at_def pixel_index_def)
  qed
  finally show ?thesis using b(1) by simp
qed

text \<open>The picture is at its place, and the other pixels are as before.\<close>

lemma picture_pixels:
  assumes "ready s" "bg_buffer s = Some b" "on_screen s x0 y0 w h" "length pic = unat w * unat h" "x < unat (xres s)" "y < unat (yres s)"
  shows "stored (place (unat x0 + unat (xres s) * unat y0) (unat (xres s)) (unat w)) (\<lambda>k. pic ! k) (length pic) b ! (x + unat (xres s) * y) =
    (if unat x0 \<le> x \<and> x < unat x0 + unat w \<and> unat y0 \<le> y \<and> y < unat y0 + unat h
     then pic ! ((y - unat y0) * unat w + (x - unat x0)) else b ! (x + unat (xres s) * y))"
proof -
  let ?X = "unat (xres s)"
  let ?pos = "place (unat x0 + ?X * unat y0) ?X (unat w)"
  have b: "length b = ?X * unat (yres s)" using assms(1,2) by (simp add: ready_def)
  have l: "unat x0 + unat w \<le> ?X" "0 < unat w" using assms(3) by (auto simp: on_screen_def word_less_nat_alt)
  have m: "unat x0 + k mod unat w < ?X" for k using l by (meson add_less_cancel_left less_le_trans mod_less_divisor)
  have inj: "inj_on ?pos {..<length pic}"
  proof (rule inj_onI)
    fix j k
    assume "?pos j = ?pos k"
    then have "j mod unat w = k mod unat w" "j div unat w = k div unat w" unfolding place_coords using coords_unique [OF m m] by simp_all
    then show "j = k" by (metis div_mult_mod_eq)
  qed
  show ?thesis
  proof (cases "unat x0 \<le> x \<and> x < unat x0 + unat w \<and> unat y0 \<le> y \<and> y < unat y0 + unat h")
    case True
    define k where "k = (y - unat y0) * unat w + (x - unat x0)"
    have u: "x - unat x0 < unat w" "y - unat y0 < unat h" using True by auto
    then have "k mod unat w = x - unat x0" "k div unat w = y - unat y0"
      unfolding k_def by (simp_all only: mod_mult_self3 div_mult_self3 mod_less div_less)
    then have k: "?pos k = x + ?X * y" using True unfolding place_coords by simp
    have "k < length pic" unfolding k_def assms(4) mult.commute [of "unat w"]
      using u by (metis add.commute coords_less mult.commute)
    then show ?thesis using stored_nth [OF _ inj, of k b] k coords_less [OF assms(5,6)] b True k_def by simp
  next
    case False
    have "?pos k \<noteq> x + ?X * y" if "k < length pic" for k
    proof
      assume "?pos k = x + ?X * y"
      then have e: "x = unat x0 + k mod unat w" "y = unat y0 + k div unat w"
        unfolding place_coords using coords_unique [OF m [of k] assms(5)] by auto
      have "k div unat w < unat h" using that assms(4) by (simp add: less_mult_imp_div_less mult.commute)
      then show False using False e l(2) by simp
    qed
    then show ?thesis unfolding if_not_P [OF False] by (intro stored_other) blast
  qed
qed

lemma flush_pixels:
  assumes "ready s" "on_screen s x0 y0 w h" "win_x s = 0" "length pic = unat w * unat h" "length pic < 2 ^ 31"
  shows "\<exists>s'. FlushWindow x0 y0 w h pic s = Some s' \<and> (\<forall>x < unat (xres s). \<forall>y < unat (yres s). pixel s' x y =
      (if unat x0 \<le> x \<and> x < unat x0 + unat w \<and> unat y0 \<le> y \<and> y < unat y0 + unat h
       then pic ! ((y - unat y0) * unat w + (x - unat x0)) else pixel s x y))"
proof -
  obtain b where b: "bg_buffer s = Some b" using assms(1) by (auto simp: ready_def)
  show ?thesis using flush_run [OF assms] picture_pixels [OF assms(1) b assms(2,4)] b by (auto simp: pixel_def)
qed

text \<open>
  C30: on a prepared screen \<open>FlushWindow\<close> and \<open>DrawPic32\<close> draw the same: the picture, in its rectangle, and
  nothing else.
\<close>

theorem fb_flush_is_pic:
  assumes "ready s" "on_screen s x0 y0 w h" "win_x s = 0" "length pic = unat w * unat h" "length pic < 2 ^ 31"
  shows "\<exists>s1 s2. FlushWindow x0 y0 w h pic s = Some s1 \<and> DrawPic32 x0 y0 w h pic s = Some s2 \<and> bg_buffer s1 = bg_buffer s2 \<and>
    (\<forall>x < unat (xres s). \<forall>y < unat (yres s). pixel s2 x y =
      (if unat x0 \<le> x \<and> x < unat x0 + unat w \<and> unat y0 \<le> y \<and> y < unat y0 + unat h
       then pic ! ((y - unat y0) * unat w + (x - unat x0)) else pixel s x y))"
proof -
  obtain b where b: "bg_buffer s = Some b" using assms(1) by (auto simp: ready_def)
  show ?thesis
    using flush_run [OF assms] pic_run [OF assms(1,2,4)] picture_pixels [OF assms(1) b assms(2,4)] b by (auto simp: pixel_def)
qed

theorem fb_flush_is_pic_witness:
  "\<exists>s1 s2. FlushWindow 1 1 2 1 [7, 8] \<lparr>framebuffer = 3, screenSize = 64, xres = 4, yres = 4, imagebuffer = None, bg_buffer = Some (replicate 16 0),
      font = None, windowInit = False, ptr = 0, win_x = 0, win_x_max = 0\<rparr> = Some s1 \<and>
    DrawPic32 1 1 2 1 [7, 8] \<lparr>framebuffer = 3, screenSize = 64, xres = 4, yres = 4, imagebuffer = None, bg_buffer = Some (replicate 16 0),
      font = None, windowInit = False, ptr = 0, win_x = 0, win_x_max = 0\<rparr> = Some s2 \<and> bg_buffer s1 = bg_buffer s2 \<and> pixel s2 2 1 = 8"
proof -
  let ?s = "\<lparr>framebuffer = 3, screenSize = 64, xres = 4, yres = 4, imagebuffer = None, bg_buffer = Some (replicate 16 0),
      font = None, windowInit = False, ptr = 0, win_x = 0, win_x_max = 0\<rparr>"
  have "ready ?s" "on_screen ?s 1 1 2 1" by (simp_all add: ready_def on_screen_def)
  from fb_flush_is_pic [OF this, of "[7, 8]"] obtain s1 s2 where "FlushWindow 1 1 2 1 [7, 8] ?s = Some s1" "DrawPic32 1 1 2 1 [7, 8] ?s = Some s2"
    "bg_buffer s1 = bg_buffer s2" and p: "\<And>x y. x < 4 \<Longrightarrow> y < 4 \<Longrightarrow> pixel s2 x y = (if 1 \<le> x \<and> x < 3 \<and> 1 \<le> y \<and> y < 2
       then [7, 8] ! ((y - 1) * 2 + (x - 1)) else pixel ?s x y)"
    by auto
  moreover have "pixel s2 2 1 = 8" using p [of 2 1] by simp
  ultimately show ?thesis by blast
qed

section \<open>The path of a circle\<close>

lemma int16_id: "- 32768 \<le> v \<Longrightarrow> v \<le> 32767 \<Longrightarrow> int16 v = v"
  by (simp add: int16_def signed_of_int signed_take_bit_int_eq_self)

text \<open>
  What holds at the head of the loop: \<open>err\<close> belongs to the next point on the diagonal, and the square of the
  distance from the centre is off by less than the radius.
\<close>

definition on_path :: "int \<Rightarrow> int \<times> int \<times> int \<Rightarrow> bool" where
  "on_path r = (\<lambda>(x, y, err). - r \<le> x \<and> x \<le> 0 \<and> 0 \<le> y \<and> y \<le> r \<and>
     err = x * x + y * y - r * r + 2 * x + 2 * y + 2 \<and> 1 - r \<le> x * x + y * y - r * r \<and> x * x + y * y - r * r \<le> r)"

lemma on_path_end: "on_path r (0, y, err) \<Longrightarrow> 0 < r \<Longrightarrow> y = r"
proof (rule ccontr)
  assume p: "on_path r (0, y, err)" "0 < r" "y \<noteq> r"
  then have "y * y \<le> (r - 1) * (r - 1)" by (intro mult_mono) (auto simp: on_path_def)
  then show False using p by (simp add: on_path_def algebra_simps)
qed

lemma circle_step:
  assumes "on_path r (x, y, err)" "0 < r" "r \<le> 10000" "circle_next (x, y, err) = (x', y', err')"
  shows "x' \<le> 0 \<Longrightarrow> on_path r (x', y', err')" "x' \<le> x + 1" "x \<le> x'" "y \<le> y'" "y' \<le> y + 1" "x + y < x' + y'" "0 < x' \<Longrightarrow> x = 0"
proof -
  define D where "D = x * x + y * y - r * r"
  have i: "- r \<le> x" "x \<le> 0" "0 \<le> y" "y \<le> r" "err = D + 2 * x + 2 * y + 2" "1 - r \<le> D" "D \<le> r"
    using assms(1) by (auto simp: on_path_def D_def)
  have "0 \<le> (x + 1) * (x + 1)" by simp
  then have sq: "0 \<le> x * x + 2 * x + 1" by (simp add: algebra_simps)
  have yr: "y = r \<Longrightarrow> D = x * x" by (simp add: D_def)
  have up: "err \<le> y \<Longrightarrow> y < r" using i sq yr by (cases "y = r") auto
  have n: "int16 (y + 1) = y + 1" "int16 (x + 1) = x + 1" "err \<le> y \<Longrightarrow> int16 (err + ((y + 1) * 2 + 1)) = err + 2 * y + 3"
    "- 10000 \<le> e \<Longrightarrow> e \<le> 32000 \<Longrightarrow> int16 (e + ((x + 1) * 2 + 1)) = e + 2 * x + 3" for e
    using i assms(2,3) by (simp_all add: int16_id)
  have b: "y < err \<Longrightarrow> - 10000 \<le> err" "err \<le> 32000" "x < err \<Longrightarrow> - 10000 \<le> err + 2 * y + 3" "- x = y + 1 \<Longrightarrow> - 10000 \<le> err + 2 * y + 3" "err \<le> y \<Longrightarrow> err + 2 * y + 3 \<le> 32000"
    using i assms(2,3) by linarith+
  have nxt: "(x', y', err') = (if err \<le> y then (if - x = y + 1 \<or> x < err then (x + 1, y + 1, err + 2 * y + 2 * x + 6) else (x, y + 1, err + 2 * y + 3))
      else (x + 1, y, err + 2 * x + 3))"
    using i b n(1-3) n(4) [of err] n(4) [of "err + 2 * y + 3"] unfolding assms(4) [symmetric]
    by (auto simp: circle_next_def Let_def)
  then show "x' \<le> x + 1" "x \<le> x'" "y \<le> y'" "y' \<le> y + 1" "x + y < x' + y'" "0 < x' \<Longrightarrow> x = 0"
    using i by (auto split: if_splits)
  define D' where "D' = x' * x' + y' * y' - r * r"
  have sqs: "(x + 1) * (x + 1) = x * x + 2 * x + 1" "(y + 1) * (y + 1) = y * y + 2 * y + 1" by (simp_all add: algebra_simps)
  have d: "D' = (if err \<le> y then (if - x = y + 1 \<or> x < err then D + 2 * x + 2 * y + 2 else D + 2 * y + 1) else D + 2 * x + 1)"
    using nxt unfolding D'_def D_def by (auto simp: sqs split: if_splits)
  assume "x' \<le> 0"
  then have "D' \<le> r" using d nxt i up by (auto split: if_splits)
  moreover have "1 - r \<le> D'" using d nxt i up sq yr assms(2) \<open>x' \<le> 0\<close> by (cases "y = r") (auto split: if_splits)
  ultimately show "on_path r (x', y', err')" using \<open>x' \<le> 0\<close> nxt i up d unfolding on_path_def D'_def by (auto simp: D_def sqs split: if_splits)
qed

text \<open>The points that the first \<open>n\<close> rounds of the loop visit.\<close>

fun circle_path :: "nat \<Rightarrow> int \<times> int \<times> int \<Rightarrow> (int \<times> int) list" where
  "circle_path 0 v = []"
| "circle_path (Suc n) v = (fst v, fst (snd v)) # (if fst (circle_next v) \<le> 0 then circle_path n (circle_next v) else [])"

definition circle_points :: "int \<Rightarrow> (int \<times> int) list" where
  "circle_points r = circle_path (nat (2 * r + 1)) (circle_start r)"

text \<open>The distance of a point from the centre is the radius, up to half a pixel.\<close>

definition on_circle :: "int \<Rightarrow> int \<times> int \<Rightarrow> bool" where
  "on_circle r = (\<lambda>(x, y). - r \<le> x \<and> x \<le> 0 \<and> 0 \<le> y \<and> y \<le> r \<and> (2 * r - 1) ^ 2 \<le> 4 * (x ^ 2 + y ^ 2) \<and> 4 * (x ^ 2 + y ^ 2) \<le> (2 * r + 1) ^ 2)"

definition neighbours :: "int \<times> int \<Rightarrow> int \<times> int \<Rightarrow> bool" where
  "neighbours = (\<lambda>(x, y) (x', y'). x \<le> x' \<and> x' \<le> x + 1 \<and> y \<le> y' \<and> y' \<le> y + 1)"

lemma on_path_circle: "on_path r (x, y, err) \<Longrightarrow> 0 < r \<Longrightarrow> on_circle r (x, y)"
  by (simp add: on_path_def on_circle_def power2_eq_square algebra_simps)

lemma circle_path_good:
  assumes "0 < r" "r \<le> 10000"
  shows "on_path r v \<Longrightarrow> nat (r + 1 - fst v - fst (snd v)) \<le> n \<Longrightarrow> circle_loop draw v s = steps (\<lambda>(x, y). draw x y) (circle_path n v) s \<and>
    circle_path n v \<noteq> [] \<and> hd (circle_path n v) = (fst v, fst (snd v)) \<and> last (circle_path n v) = (0, r) \<and>
    list_all (on_circle r) (circle_path n v) \<and> successively neighbours (circle_path n v)"
proof (induction n arbitrary: v s)
  case 0
  then show ?case by (auto simp: on_path_def split: prod.splits)
next
  case (Suc n)
  obtain x y err where v: "v = (x, y, err)" by (cases v)
  obtain x' y' err' where v': "circle_next v = (x', y', err')" by (cases "circle_next v")
  note st = circle_step [OF Suc.prems(1) [unfolded v] assms v' [unfolded v]]
  have c: "on_circle r (x, y)" using on_path_circle Suc.prems(1) assms(1) v by blast
  show ?case
  proof (cases "x' \<le> 0")
    case True
    have "nat (r + 1 - fst (circle_next v) - fst (snd (circle_next v))) \<le> n" using Suc.prems v v' st(6) by simp
    from Suc.IH [OF _ this] st(1) [OF True] True show ?thesis
      using st(2-5) c unfolding v' v
      by (subst circle_loop.simps) (auto simp: v' [unfolded v] neighbours_def successively_Cons split: option.split)
  next
    case False
    then have "x = 0" using st(7) by simp
    moreover have "y = r" using on_path_end Suc.prems(1) assms(1) v \<open>x = 0\<close> by blast
    moreover have "circle_next (0, r, err) = (x', y', err')" using v' v calculation by simp
    ultimately show ?thesis
      using False c unfolding v by (subst circle_loop.simps) (auto split: option.split)
  qed
qed

lemma circle_start_path: "0 < r \<Longrightarrow> r \<le> 10000 \<Longrightarrow> circle_start r = (- r, 0, 2 - 2 * r) \<and> on_path r (circle_start r)"
  by (simp add: circle_start_def int16_id on_path_def algebra_simps)

lemma circle_loop_points:
  assumes "0 < r" "r \<le> 10000"
  shows "circle_loop draw (circle_start r) s = steps (\<lambda>(x, y). draw x y) (circle_points r) s"
    "hd (circle_points r) = (- r, 0)" "last (circle_points r) = (0, r)" "list_all (on_circle r) (circle_points r)"
    "successively neighbours (circle_points r)"
proof -
  note st = circle_start_path [OF assms]
  have n: "nat (r + 1 - fst (circle_start r) - fst (snd (circle_start r))) \<le> nat (2 * r + 1)" using st by simp
  note g = circle_path_good [OF assms st [THEN conjunct2] n, of draw s]
  show "circle_loop draw (circle_start r) s = steps (\<lambda>(x, y). draw x y) (circle_points r) s"
    "hd (circle_points r) = (- r, 0)" "last (circle_points r) = (0, r)" "list_all (on_circle r) (circle_points r)"
    "successively neighbours (circle_points r)"
    using g st unfolding circle_points_def by auto
qed

section \<open>Drawing circles\<close>

lemma draw_pixel:
  assumes "ready s" "0 \<le> a" "nat a < unat (xres s)" "0 \<le> b" "nat b < unat (yres s)" "a < 65536" "b < 65536"
  shows "\<exists>s'. DrawPixel32 (of_int a) (of_int b) c s = Some s' \<and> ready s' \<and> xres s' = xres s \<and> yres s' = yres s \<and>
    (\<forall>x < unat (xres s). \<forall>y < unat (yres s). pixel s' x y = (if int x = a \<and> int y = b then c else pixel s x y))"
proof -
  obtain m where m: "bg_buffer s = Some m" "length m = unat (xres s) * unat (yres s)" "length m < 2 ^ 32"
    using assms(1) by (auto simp: ready_def)
  have u: "unat (of_int a :: u16) = nat a" "unat (of_int b :: u16) = nat b"
    using assms(2,4,6,7) by (simp_all add: unsigned_of_int take_bit_int_eq_self)
  have l: "nat a + unat (xres s) * nat b < length m" using coords_less [OF assms(3,5)] m(2) by simp
  then have i: "pixel_index (ucast (of_int a :: u16)) (ucast (of_int b :: u16)) s = int (nat a + unat (xres s) * nat b)"
    using m(3) by (subst pixel_index_id) (simp_all add: u unat_ucast_u32)
  have "nat a + unat (xres s) * nat b = x + unat (xres s) * y \<longleftrightarrow> int x = a \<and> int y = b" if "x < unat (xres s)" for x y
    using coords_unique [OF assms(3) that] assms(2,4) by auto
  moreover have "DrawPixel32 (of_int a) (of_int b) c s = Some (s\<lparr>bg_buffer := Some (m[nat a + unat (xres s) * nat b := c])\<rparr>)"
    unfolding DrawPixel32_def i put_def m(1) nat_int using l by (simp only: option.case if_True of_nat_0_le_iff simp_thms)
  ultimately show ?thesis using l m coords_less [of _ "unat (xres s)" _ "unat (yres s)"]
    by (simp add: ready_def pixel_def nth_list_update)
qed

text \<open>Some points, of which each is on the screen.\<close>

definition draws :: "(nat \<Rightarrow> nat \<Rightarrow> bool) \<Rightarrow> u32 \<Rightarrow> (fb \<Rightarrow> fb option) \<Rightarrow> fb \<Rightarrow> bool" where
  "draws P c m s \<longleftrightarrow> (\<exists>s'. m s = Some s' \<and> ready s' \<and> xres s' = xres s \<and> yres s' = yres s \<and>
    (\<forall>x < unat (xres s). \<forall>y < unat (yres s). pixel s' x y = (if P x y then c else pixel s x y)))"

lemma draws_both:
  assumes "draws P c m s" "\<And>t. ready t \<Longrightarrow> xres t = xres s \<Longrightarrow> yres t = yres s \<Longrightarrow> draws Q c n t"
  shows "draws (\<lambda>x y. P x y \<or> Q x y) c (\<lambda>s. do { s \<leftarrow> m s; n s }) s"
proof -
  obtain s1 where 1: "m s = Some s1" "ready s1" "xres s1 = xres s" "yres s1 = yres s"
    "\<forall>x < unat (xres s). \<forall>y < unat (yres s). pixel s1 x y = (if P x y then c else pixel s x y)"
    using assms(1) by (auto simp: draws_def)
  obtain s2 where 2: "n s1 = Some s2" "ready s2" "xres s2 = xres s" "yres s2 = yres s"
    "\<forall>x < unat (xres s). \<forall>y < unat (yres s). pixel s2 x y = (if Q x y then c else pixel s1 x y)"
    using assms(2) [OF 1(2-4)] 1(3,4) by (auto simp: draws_def)
  show ?thesis unfolding draws_def using 1 2 by auto
qed

lemma draws_steps:
  assumes "\<And>p t. p \<in> set ps \<Longrightarrow> ready t \<Longrightarrow> xres t = X \<Longrightarrow> yres t = Y \<Longrightarrow> draws (P p) c (m p) t"
  shows "ready s \<Longrightarrow> xres s = X \<Longrightarrow> yres s = Y \<Longrightarrow> draws (\<lambda>x y. \<exists>p \<in> set ps. P p x y) c (steps m ps) s"
  using assms
proof (induction ps arbitrary: s)
  case Nil
  then show ?case by (simp add: draws_def)
next
  case (Cons p ps)
  have "draws (\<lambda>x y. P p x y \<or> (\<exists>q \<in> set ps. P q x y)) c (\<lambda>s. do { s \<leftarrow> m p s; steps m ps s }) s"
    using Cons by (intro draws_both) auto
  then show ?case by (simp add: draws_def)
qed

text \<open>
  C16: \<open>DrawCircle32\<close> ends for every radius up to 10000, and on a screen that holds the circle it colours
  exactly the mirror images of the points of a path from (-r, 0) to (0, r) of neighbouring pixels, each of which is within
  half a pixel of the circle.
\<close>

theorem fb_circle_drawn:
  assumes "0 < r" "r \<le> 10000" "ready s" "r \<le> x0" "x0 + r < int (unat (xres s))" "r \<le> y0" "y0 + r < int (unat (yres s))" "x0 < 32768" "y0 < 32768"
  shows "\<exists>s'. DrawCircle32 x0 y0 r c s = Some s' \<and>
    (\<forall>x < unat (xres s). \<forall>y < unat (yres s). pixel s' x y =
      (if (- \<bar>int x - x0\<bar>, \<bar>int y - y0\<bar>) \<in> set (circle_points r) then c else pixel s x y)) \<and>
    hd (circle_points r) = (- r, 0) \<and> last (circle_points r) = (0, r) \<and> successively neighbours (circle_points r) \<and>
    list_all (on_circle r) (circle_points r)"
proof -
  note p = circle_loop_points [OF assms(1,2)]
  let ?m = "\<lambda>(x, y) s. do {
     s \<leftarrow> DrawPixel32 (of_int (x0 - x)) (of_int (y0 + y)) c s;
     s \<leftarrow> DrawPixel32 (of_int (x0 + x)) (of_int (y0 + y)) c s;
     s \<leftarrow> DrawPixel32 (of_int (x0 + x)) (of_int (y0 - y)) c s;
     DrawPixel32 (of_int (x0 - x)) (of_int (y0 - y)) c s }"
  let ?P = "\<lambda>(a, b) x y. (int x = x0 - a \<and> int y = y0 + b) \<or> (int x = x0 + a \<and> int y = y0 + b) \<or> (int x = x0 + a \<and> int y = y0 - b) \<or>
    (int x = x0 - a \<and> int y = y0 - b)"
  have one: "draws (\<lambda>x y. int x = a \<and> int y = b) c (DrawPixel32 (of_int a) (of_int b) c) t"
    if "ready t" "xres t = xres s" "yres t = yres s" "x0 - r \<le> a" "a \<le> x0 + r" "y0 - r \<le> b" "b \<le> y0 + r" for a b t
    using draw_pixel [of t a b c] that assms by (auto simp: draws_def nat_less_iff)
  have "draws (?P q) c (?m q) t" if "q \<in> set (circle_points r)" "ready t" "xres t = xres s" "yres t = yres s" for q t
  proof -
    obtain a b where q: "q = (a, b)" by (cases q)
    have "on_circle r (a, b)" using p(4) that(1) q by (auto simp: list_all_iff)
    then have "- r \<le> a" "a \<le> 0" "0 \<le> b" "b \<le> r" by (auto simp: on_circle_def)
    then show ?thesis unfolding q prod.case using that by (intro draws_both one) auto
  qed
  from draws_steps [OF this assms(3), of "circle_points r"]
  have d: "draws (\<lambda>x y. \<exists>q \<in> set (circle_points r). ?P q x y) c (steps ?m (circle_points r)) s" by simp
  have mirror: "(\<exists>q \<in> set (circle_points r). ?P q x y) \<longleftrightarrow> (- \<bar>int x - x0\<bar>, \<bar>int y - y0\<bar>) \<in> set (circle_points r)" for x y
  proof -
    have "?P (a, b) x y \<longleftrightarrow> a = - \<bar>int x - x0\<bar> \<and> b = \<bar>int y - y0\<bar>" if "(a, b) \<in> set (circle_points r)" for a b
    proof -
      have "on_circle r (a, b)" using p(4) that by (auto simp: list_all_iff)
      then show ?thesis by (auto simp: on_circle_def)
    qed
    then show ?thesis by (metis (no_types, lifting) surj_pair)
  qed
  have "DrawCircle32 x0 y0 r c s = steps ?m (circle_points r) s" unfolding DrawCircle32_def p(1) ..
  moreover obtain s' where "steps ?m (circle_points r) s = Some s'" "\<forall>x < unat (xres s). \<forall>y < unat (yres s). pixel s' x y =
      (if (- \<bar>int x - x0\<bar>, \<bar>int y - y0\<bar>) \<in> set (circle_points r) then c else pixel s x y)"
    using d unfolding draws_def mirror by blast
  ultimately show ?thesis using p(2-5) by (intro exI [of _ s'] conjI) simp_all
qed

theorem fb_circle_drawn_witness:
  "\<exists>s'. DrawCircle32 2 2 2 7 \<lparr>framebuffer = 3, screenSize = 100, xres = 5, yres = 5, imagebuffer = None, bg_buffer = Some (replicate 25 0),
      font = None, windowInit = False, ptr = 0, win_x = 0, win_x_max = 0\<rparr> = Some s' \<and> pixel s' 0 2 = 7 \<and> pixel s' 3 4 = 7 \<and> pixel s' 2 2 = 0"
proof -
  let ?s = "\<lparr>framebuffer = 3, screenSize = 100, xres = 5, yres = 5, imagebuffer = None, bg_buffer = Some (replicate 25 0),
      font = None, windowInit = False, ptr = 0, win_x = 0, win_x_max = 0\<rparr>"
  have pts: "circle_points 2 = [(- 2, 0), (- 2, 1), (- 1, 2), (0, 2)]" by code_simp
  have "ready ?s" by (simp add: ready_def)
  from fb_circle_drawn [OF _ _ this, of 2 2 2 7] obtain s' where "DrawCircle32 2 2 2 7 ?s = Some s'"
    and p: "\<And>x y. x < 5 \<Longrightarrow> y < 5 \<Longrightarrow> pixel s' x y = (if (- \<bar>int x - 2\<bar>, \<bar>int y - 2\<bar>) \<in> set (circle_points 2) then 7 else pixel ?s x y)"
    by auto
  moreover have "pixel s' 0 2 = 7" "pixel s' 3 4 = 7" "pixel s' 2 2 = 0"
    using p [of 0 2] p [of 3 4] p [of 2 2] by (simp_all add: pts pixel_def [of ?s])
  ultimately show ?thesis by blast
qed

section \<open>Characters\<close>

definition ink :: "font_t \<Rightarrow> bool \<Rightarrow> u32" where
  "ink f b = (if b then FontColor f else BackColor f)"

text \<open>
  The bits of a character are taken column by column, but the window is filled row by row: in a square font each
  character appears with rows and columns exchanged.
\<close>

lemma unat_ucast_u16: "unat (ucast v :: u16) = unat (v :: u8)"
proof -
  have "unat v < 2 ^ 16" by (rule less_trans [OF unat_u8_less]) simp
  then show ?thesis by (simp add: unsigned_ucast_eq take_bit_nat_eq_self)
qed

lemma font_area: "unat (FontXsize f) * unat (FontYsize f) < 2 ^ 31"
proof -
  have "unat (FontXsize f) * unat (FontYsize f) < 256 * 256" by (intro mult_strict_mono) simp_all
  then show ?thesis by simp
qed

lemma char_is_picture:
  assumes "font s = Some f" "0 \<le> ch" "(nat ch + 1) * unat (FontXsize f) \<le> length (Font f)" "unat (FontYsize f) < 31"
  shows "PrintChar x0 y0 ch s = FlushWindow x0 y0 (ucast (FontXsize f)) (ucast (FontYsize f))
    (map (\<lambda>k. ink f (bit (Font f ! (nat ch * unat (FontXsize f) + k div unat (FontYsize f))) (k mod unat (FontYsize f))))
      [0..<unat (FontXsize f) * unat (FontYsize f)]) s"
proof -
  let ?X = "unat (FontXsize f)" and ?Y = "unat (FontYsize f)"
  let ?bit = "\<lambda>k. bit (Font f ! (nat ch * ?X + k div ?Y)) (k mod ?Y)"
  let ?g = "\<lambda>k s. do { b \<leftarrow> font_bit f ch (k div ?Y) (k mod ?Y); FillWindow (if b then FontColor f else BackColor f) s }"
  have fb: "font_bit f ch (k div ?Y) (k mod ?Y) = Some (?bit k)" if "k < ?X * ?Y" for k
  proof -
    have x: "k div ?Y < ?X" "k mod ?Y < ?Y" using that less_mult_imp_div_less [of k ?X ?Y] by (cases "?Y = 0"; simp)+
    have "nat (ch * uint (FontXsize f) + int (k div ?Y)) = nat ch * ?X + k div ?Y" using assms(2)
      by (simp add: nat_add_distrib nat_mult_distrib)
    then show ?thesis using x assms(2-4) by (simp add: font_bit_def)
  qed
  let ?w = "SetWindow x0 y0 (ucast (FontXsize f)) (ucast (FontYsize f)) s"
  have "PrintChar x0 y0 ch s = steps (\<lambda>x. steps (\<lambda>y. ?g (x * ?Y + y)) [0..<?Y]) [0..<?X] ?w"
    using assms(1) by (auto simp: PrintChar_def intro!: steps_cong)
  also have "\<dots> = steps ?g [0..<?X * ?Y] ?w" by (rule steps_rows)
  also have "\<dots> = steps (\<lambda>i s. do { c \<leftarrow> array_at (map (\<lambda>k. ink f (?bit k)) [0..<?X * ?Y]) i; FillWindow c s }) [0..<?X * ?Y] ?w"
    by (rule steps_cong) (simp add: fb array_at_def ink_def)
  also have "\<dots> = FlushWindow x0 y0 (ucast (FontXsize f)) (ucast (FontYsize f)) (map (\<lambda>k. ink f (?bit k)) [0..<?X * ?Y]) s"
    using font_area [of f] by (simp add: FlushWindow_def unat_ucast_u16 Let_def)
  finally show ?thesis .
qed

lemma char_pixels:
  assumes "ready s" "on_screen s x0 y0 (ucast (FontXsize f)) (ucast (FontYsize f))" "win_x s = 0" "font s = Some f" "0 \<le> ch"
    and "(nat ch + 1) * unat (FontXsize f) \<le> length (Font f)" "unat (FontYsize f) < 31" "i < unat (FontXsize f)" "j < unat (FontYsize f)"
  shows "\<exists>s'. PrintChar x0 y0 ch s = Some s' \<and> pixel s' (unat x0 + i) (unat y0 + j) =
    (let k = j * unat (FontXsize f) + i in
      ink f (bit (Font f ! (nat ch * unat (FontXsize f) + k div unat (FontYsize f))) (k mod unat (FontYsize f))))"
proof -
  let ?X = "unat (FontXsize f)" and ?Y = "unat (FontYsize f)"
  let ?c = "\<lambda>k. ink f (bit (Font f ! (nat ch * ?X + k div ?Y)) (k mod ?Y))"
  let ?pic = "map ?c [0..<?X * ?Y]"
  have l: "length ?pic = unat (ucast (FontXsize f) :: u16) * unat (ucast (FontYsize f) :: u16)" "length ?pic < 2 ^ 31"
    using font_area [of f] by (simp_all add: unat_ucast_u16)
  obtain s' where s': "FlushWindow x0 y0 (ucast (FontXsize f)) (ucast (FontYsize f)) ?pic s = Some s'"
    "\<And>x y. x < unat (xres s) \<Longrightarrow> y < unat (yres s) \<Longrightarrow> pixel s' x y = (if unat x0 \<le> x \<and> x < unat x0 + ?X \<and> unat y0 \<le> y \<and> y < unat y0 + ?Y
       then ?pic ! ((y - unat y0) * ?X + (x - unat x0)) else pixel s x y)"
    using flush_pixels [OF assms(1-3) l] by (auto simp: unat_ucast_u16)
  have "j * ?X + i < ?X * ?Y" using coords_less [OF assms(8,9)] by (simp add: add.commute mult.commute)
  moreover have "unat x0 + i < unat (xres s)" "unat y0 + j < unat (yres s)"
    using assms(2,8,9) by (auto simp: on_screen_def unat_ucast_u16)
  ultimately have "pixel s' (unat x0 + i) (unat y0 + j) = ?c (j * ?X + i)" using s'(2) assms(8,9) by simp
  then show ?thesis using s'(1) char_is_picture [OF assms(4-7)] by (simp add: Let_def)
qed

section \<open>Screens and windows that go wrong\<close>

text \<open>A descriptor other than 0, also the one of a failure, is taken for a running frame buffer for ever.\<close>

lemma init_only_once:
  "open_answer ans \<noteq> 0 \<Longrightarrow> framebuffer s = 0 \<Longrightarrow> FrameBufferInit ans m s = (msg, s') \<Longrightarrow>
    FrameBufferInit ans' m' s' = (''Already initialized!'', s') \<and>
    FrameBufferInit ans' m' (FrameBufferDeInit s') = (''Already initialized!'', FrameBufferDeInit s')"
  by (auto simp: FrameBufferInit_def FrameBufferDeInit_def Let_def split: if_splits option.splits prod.splits)

text \<open>A screen of 16 bits per pixel has a buffer of half the size that \<open>ClearScreen\<close> fills.\<close>

lemma clear_overruns:
  assumes "bg_buffer s = Some b" "length b < unat (xres s * yres s)"
  shows "ClearScreen c s = None"
proof -
  let ?N = "unat (xres s * yres s)" and ?L = "length b"
  have "n \<le> ?L \<Longrightarrow> \<exists>b'. steps (\<lambda>i. put (int i) c) [0..<n] s = Some (s\<lparr>bg_buffer := Some b'\<rparr>) \<and> length b' = ?L" for n
  proof (induction n)
    case 0
    have "s = s\<lparr>bg_buffer := Some b\<rparr>" using assms(1) by (cases s) simp
    then show ?case by (intro exI [of _ b]) simp
  qed (auto simp: steps_append put_def)
  then obtain b' where b': "steps (\<lambda>i. put (int i) c) [0..<?L] s = Some (s\<lparr>bg_buffer := Some b'\<rparr>)" "length b' = ?L" by blast
  have "[0..<?N] = [0..<?L] @ ?L # [Suc ?L..<?N]" using assms(2) upt_add_eq_append [of 0 ?L "?N - ?L"] by (simp add: upt_conv_Cons)
  then show ?thesis using b' by (simp add: ClearScreen_def steps_append put_def)
qed

text \<open>A line to the left of its start is drawn to the right of it.\<close>

lemma line_goes_right:
  assumes "x1 < x0" "unat x0 + unat (x0 - x1) < 2 ^ 16"
  shows "DrawHorizontalLine32 x0 y0 x1 c s = DrawHorizontalLine32 x0 y0 (x0 + (x0 - x1)) c s"
proof -
  have "unat x1 < unat x0" using assms(1) by (simp add: word_less_nat_alt)
  moreover have "unat (x0 - x1) = unat x0 - unat x1" using assms(1) by (intro unat_sub) simp
  moreover have "unat (x0 + (x0 - x1)) = unat x0 + unat (x0 - x1)" using assms(2) by (subst unat_add_lem [THEN iffD1]) simp_all
  ultimately have "x0 < x0 + (x0 - x1)" by (simp add: word_less_nat_alt)
  moreover have "\<not> x0 < x1" using assms(1) by simp
  ultimately show ?thesis by (simp add: DrawHorizontalLine32_def Let_def)
qed

text \<open>\<open>SetWindow\<close> does not start a new row: what is left of the last window shifts the next one.\<close>

lemma window_keeps_column: "win_x (SetWindow x0 y0 w h s) = win_x s"
  by (simp add: SetWindow_def)

end
