(* ===== verification/Tft_Displays.thy ===== *)
theory Tft_Displays
  imports C_Prelude
begin

text \<open>
  The drivers of two graphic displays, Common/SSD1289.c and Common/ST7735.c.  They read nothing that they act upon, so each
  function is the list of the calls it makes; the static pointer to the display's structure is an argument.  A
  character beyond the end of the font and a shift by 31 or more have no value.
\<close>

section \<open>SSD1289\<close>

datatype tft_call = Wr_reg u8 u16 | Ram_prepare | Wr_ram u16

record tft_font =
  x_size :: u8
  y_size :: u8
  data :: "u8 list"

text \<open>The members \<open>c\<close> and \<open>bc\<close> are the colours of the text and behind it.\<close>

record ssd1289 =
  x_mirror :: bool
  y_mirror :: bool
  font :: tft_font
  text_color :: u16
  back_color :: u16

definition XSIZE :: u16 where "XSIZE = 240"
definition YSIZE :: u16 where "YSIZE = 320"

definition set_cursor :: "u16 \<Rightarrow> u16 \<Rightarrow> tft_call list" where
  "set_cursor x y = [Wr_reg 0x4e x, Wr_reg 0x4f y]"

definition set_window :: "u16 \<Rightarrow> u16 \<Rightarrow> u16 \<Rightarrow> u16 \<Rightarrow> tft_call list" where
  "set_window x y dx dy =
     [Wr_reg 0x44 (x OR push_bit 8 (x + (dx - 1))), Wr_reg 0x45 y, Wr_reg 0x46 (y + (dy - 1))] @ set_cursor x y"

text \<open>The product is an \<open>int\<close>.\<close>

definition fill_window :: "u16 \<Rightarrow> u16 \<Rightarrow> u16 \<Rightarrow> u16 \<Rightarrow> u16 \<Rightarrow> tft_call list option" where
  "fill_window x y dx dy col = (let index = unat dx * unat dy in
     if 2 ^ 31 \<le> index then None else Some (set_window x y dx dy @ [Ram_prepare] @ replicate index (Wr_ram col)))"

definition rgb2col :: "u8 \<Rightarrow> u8 \<Rightarrow> u8 \<Rightarrow> u16" where
  "rgb2col r g b = (ucast (drop_bit 3 b) AND 0x1f) OR push_bit 5 (ucast (drop_bit 2 g) AND 0x3f) OR push_bit 11 (ucast (drop_bit 3 r) AND 0x1f)"

definition init_seq_raw :: "u32 list" where
  "init_seq_raw = [
     0x00000001, 0x0003A8A4, 0x000C0000,
     0x000D080C, 0x000E2B00, 0x001E00B0,
     0x00012B3F, 0x00020600, 0x00100000,
     0x00116070, 0x00050000, 0x00060000,
     0x0016EF1C, 0x00170003, 0x00070133,
     0x000B0000, 0x000F0000, 0x00410000,
     0x00420000, 0x00480000, 0x0049013F,
     0x004A0000, 0x004B0000, 0x0044EF00,
     0x00450000, 0x0046013F, 0x00300707,
     0x00310204, 0x00320204, 0x00330502,
     0x00340507, 0x00350204, 0x00360204,
     0x00370502, 0x003A0302, 0x003B0302,
     0x00230000, 0x00240000, 0x00258000,
     0x004f0000, 0x004e0000]"

text \<open>The union, on a little-endian machine: the upper half is the register.\<close>

definition init_write :: "u32 \<Rightarrow> tft_call" where
  "init_write raw = Wr_reg (ucast (drop_bit 16 raw)) (ucast raw)"

text \<open>With a null pointer \<open>ssd1289_init\<close> only returns the display in use.\<close>

definition ssd1289_init :: "ssd1289 option \<Rightarrow> ssd1289 option \<Rightarrow> ssd1289 option \<times> tft_call list" where
  "ssd1289_init lcd dev = (case dev of None \<Rightarrow> (lcd, [])
     | Some d \<Rightarrow> (Some d, map init_write init_seq_raw @
         [Wr_reg 1 (0x293F OR (if x_mirror d then 0x4000 else 0) OR (if y_mirror d then 0x200 else 0))]))"

definition ssd1289_clear :: "ssd1289 \<Rightarrow> tft_call list option" where
  "ssd1289_clear lcd = fill_window 0 0 XSIZE YSIZE (back_color lcd)"

text \<open>The picture is read as far as it has pixels.\<close>

definition ssd1289_pic :: "u16 \<Rightarrow> u16 \<Rightarrow> u16 \<Rightarrow> u16 \<Rightarrow> u16 list \<Rightarrow> tft_call list option" where
  "ssd1289_pic x y dx dy pic = (let index = unat dx * unat dy in
     if 2 ^ 31 \<le> index \<or> length pic < index then None
     else Some (set_window x y dx dy @ [Ram_prepare] @ map Wr_ram (take index pic)))"

fun all_some :: "'x option list \<Rightarrow> 'x list option" where
  "all_some [] = Some []"
| "all_some (x # xs) = (case x of None \<Rightarrow> None | Some a \<Rightarrow> map_option ((#) a) (all_some xs))"

text \<open>The mask \<open>1 << y\<close> is made of the line on the screen, not of the line of the character.\<close>

definition char_pixel :: "ssd1289 \<Rightarrow> int \<Rightarrow> u16 \<Rightarrow> nat \<Rightarrow> tft_call option" where
  "char_pixel lcd ch y ix = (let i = ch * uint (x_size (font lcd)) + int ix in
     if 0 \<le> i \<and> nat i < length (data (font lcd)) \<and> y < 31
     then Some (Wr_ram (if bit (data (font lcd) ! nat i) (unat y) then text_color lcd else back_color lcd)) else None)"

definition ssd1289_putchar :: "ssd1289 \<Rightarrow> u16 \<Rightarrow> u16 \<Rightarrow> int \<Rightarrow> tft_call list option" where
  "ssd1289_putchar lcd x y ch = map_option (\<lambda>px. set_window x y (ucast (x_size (font lcd))) (ucast (y_size (font lcd))) @ [Ram_prepare] @ px)
     (all_some (concat (map (\<lambda>ix. map (\<lambda>iy. char_pixel lcd ch y ix) [0..<unat (y_size (font lcd))]) [0..<unat (x_size (font lcd))])))"

fun tft_print_loop :: "ssd1289 \<Rightarrow> u16 \<Rightarrow> u16 \<Rightarrow> u16 \<Rightarrow> u16 \<Rightarrow> int list \<Rightarrow> (u16 \<times> tft_call list) option" where
  "tft_print_loop lcd ix x y Row [] = Some (Row, [])"
| "tft_print_loop lcd ix x y Row (t # ts) =
     (if t = 10 then tft_print_loop lcd ix ix (y + ucast (y_size (font lcd))) (Row + 1) ts
      else do {
        px \<leftarrow> ssd1289_putchar lcd x y t;
        (n, rest) \<leftarrow> tft_print_loop lcd ix (x + ucast (x_size (font lcd))) y Row ts;
        Some (n, px @ rest) })"

definition ssd1289_print :: "ssd1289 \<Rightarrow> u16 \<Rightarrow> u16 \<Rightarrow> int list \<Rightarrow> (u16 \<times> tft_call list) option" where
  "ssd1289_print lcd x y ts = tft_print_loop lcd x x y 0 ts"

section \<open>The controller\<close>

text \<open>
  The controller keeps the window and the cursor in the registers 0x44 to 0x46, 0x4e and 0x4f.  A pixel goes to the
  cursor, which then moves to the right and, at the end of the window, to the next line, as the entry mode 0x6070
  of the initialisation asks.
\<close>

record tft_panel =
  win_left :: nat
  win_right :: nat
  win_top :: nat
  win_bottom :: nat
  cx :: nat
  cy :: nat
  gram :: "nat \<Rightarrow> nat \<Rightarrow> u16"

fun panel_takes :: "tft_panel \<Rightarrow> tft_call \<Rightarrow> tft_panel" where
  "panel_takes p (Wr_reg r v) =
     (if r = 0x44 then p\<lparr>win_left := unat v mod 256, win_right := unat v div 256\<rparr>
      else if r = 0x45 then p\<lparr>win_top := unat v\<rparr>
      else if r = 0x46 then p\<lparr>win_bottom := unat v\<rparr>
      else if r = 0x4e then p\<lparr>cx := unat v\<rparr>
      else if r = 0x4f then p\<lparr>cy := unat v\<rparr>
      else p)"
| "panel_takes p Ram_prepare = p"
| "panel_takes p (Wr_ram col) =
     p\<lparr>gram := (gram p)(cx p := (gram p (cx p))(cy p := col)),
       cx := (if cx p < win_right p then cx p + 1 else win_left p),
       cy := (if cx p < win_right p then cy p else if cy p < win_bottom p then cy p + 1 else win_top p)\<rparr>"

definition taken_by :: "tft_call list \<Rightarrow> tft_panel \<Rightarrow> tft_panel" where
  "taken_by es p = foldl panel_takes p es"

lemma taken_by_append [simp]: "taken_by (es @ fs) p = taken_by fs (taken_by es p)"
  by (simp add: taken_by_def)

lemma taken_by_simps [simp]: "taken_by [] p = p" "taken_by (e # es) p = taken_by es (panel_takes p e)"
  by (simp_all add: taken_by_def)

text \<open>The rectangle is on the screen.\<close>

definition fits :: "u16 \<Rightarrow> u16 \<Rightarrow> u16 \<Rightarrow> u16 \<Rightarrow> bool" where
  "fits x y dx dy \<longleftrightarrow> 0 < dx \<and> 0 < dy \<and> unat x + unat dx \<le> unat XSIZE \<and> unat y + unat dy \<le> unat YSIZE"

lemma pair_of_bytes: "unat a < 256 \<Longrightarrow> unat b < 256 \<Longrightarrow> unat (a OR push_bit 8 b) = unat a + 256 * unat b" for a b :: u16
proof -
  assume a: "unat a < 256" and b: "unat b < 256"
  have "\<not> bit a n" if "8 \<le> n" for n
  proof -
    have "\<not> bit (unat a) n" using a that bit_take_bit_iff [of 8 "unat a" n] by (simp add: take_bit_nat_eq_self)
    then show ?thesis by (simp add: bit_unsigned_iff)
  qed
  then have disj: "a OR push_bit 8 b = a + push_bit 8 b"
    by (intro disjunctive_add [symmetric]) (auto simp: bit_push_bit_iff not_le)
  have m: "push_bit 8 b = b * 256" by (simp add: push_bit_eq_mult)
  have "unat (b * 256) = unat b * 256" using b by (subst unat_mult_lem [THEN iffD1]) simp_all
  moreover from this have "unat a + unat (b * 256) < 2 ^ LENGTH(16)" using a b by simp
  ultimately show ?thesis unfolding disj unfolding m by (simp add: unat_add_lem [THEN iffD1])
qed

lemma last_pixel: "0 < dx \<Longrightarrow> unat x + unat dx \<le> 65535 \<Longrightarrow> unat (x + (dx - 1)) = unat x + unat dx - 1" for x dx :: u16
proof -
  assume d: "0 < dx" "unat x + unat dx \<le> 65535"
  then have e: "unat (dx - 1) = unat dx - 1" by (subst unat_sub) (simp_all add: word_le_nat_alt word_less_nat_alt)
  moreover have "0 < unat dx" using d(1) by (simp add: word_less_nat_alt)
  ultimately show ?thesis using d(2) by (subst unat_add_lem [THEN iffD1]) simp_all
qed

lemma set_window_panel:
  assumes "fits x y dx dy"
  shows "taken_by (set_window x y dx dy) p =
    p\<lparr>win_left := unat x, win_right := unat x + unat dx - 1, win_top := unat y, win_bottom := unat y + unat dy - 1, cx := unat x, cy := unat y\<rparr>"
proof -
  have l: "0 < dx" "0 < dy" "unat x + unat dx \<le> 240" "unat y + unat dy \<le> 320" using assms by (simp_all add: fits_def XSIZE_def YSIZE_def)
  have e: "unat (x + (dx - 1)) = unat x + unat dx - 1" "unat (y + (dy - 1)) = unat y + unat dy - 1" using l by (simp_all add: last_pixel)
  have "0 < unat dx" using l(1) by (simp add: word_less_nat_alt)
  then have "unat (x OR push_bit 8 (x + (dx - 1))) = unat x + 256 * (unat x + unat dx - 1)" using l e by (subst pair_of_bytes) simp_all
  then show ?thesis using l e \<open>0 < unat dx\<close> by (simp add: set_window_def set_cursor_def)
qed

text \<open>The pixels of a picture, row by row.\<close>

definition framed :: "nat \<Rightarrow> nat \<Rightarrow> nat \<Rightarrow> nat \<Rightarrow> u16 list \<Rightarrow> (nat \<Rightarrow> nat \<Rightarrow> u16) \<Rightarrow> nat \<Rightarrow> nat \<Rightarrow> u16" where
  "framed x0 y0 w h cs g i j =
     (if x0 \<le> i \<and> i < x0 + w \<and> y0 \<le> j \<and> j < y0 + h \<and> (j - y0) * w + (i - x0) < length cs
      then cs ! ((j - y0) * w + (i - x0)) else g i j)"

lemma rectangle_index: "i < w \<Longrightarrow> j * w + i = k \<longleftrightarrow> i = k mod w \<and> j = k div w" for i j k w :: nat
  by auto

lemma pixels_run:
  assumes "win_left p = x0" "win_right p = x0 + w - 1" "win_top p = y0" "win_bottom p = y0 + h - 1" "cx p = x0" "cy p = y0" "0 < w" "0 < h"
  shows "length cs \<le> w * h \<Longrightarrow> taken_by (map Wr_ram cs) p = p\<lparr>gram := framed x0 y0 w h cs (gram p),
    cx := x0 + length cs mod w, cy := (if length cs = w * h then y0 else y0 + length cs div w)\<rparr>"
proof (induction cs rule: rev_induct)
  case Nil
  have "framed x0 y0 w h [] (gram p) = gram p" by (intro ext) (simp add: framed_def)
  then show ?case using assms by simp
next
  case (snoc a cs)
  let ?k = "length cs"
  have k: "?k < w * h" using snoc.prems by simp
  have m: "?k mod w < w" "?k div w < h" using assms(7) k by (simp_all add: less_mult_imp_div_less mult.commute)
  have g: "(framed x0 y0 w h cs (gram p))(x0 + ?k mod w := (framed x0 y0 w h cs (gram p) (x0 + ?k mod w))(y0 + ?k div w := a)) =
      framed x0 y0 w h (cs @ [a]) (gram p)"
  proof (intro ext)
    fix i j
    show "((framed x0 y0 w h cs (gram p))(x0 + ?k mod w := (framed x0 y0 w h cs (gram p) (x0 + ?k mod w))(y0 + ?k div w := a))) i j =
        framed x0 y0 w h (cs @ [a]) (gram p) i j"
    proof (cases "x0 \<le> i \<and> i < x0 + w \<and> y0 \<le> j \<and> j < y0 + h")
      case True
      then have "(j - y0) * w + (i - x0) = ?k \<longleftrightarrow> i - x0 = ?k mod w \<and> j - y0 = ?k div w" by (intro rectangle_index) auto
      moreover have "i - x0 = ?k mod w \<longleftrightarrow> i = x0 + ?k mod w" "j - y0 = ?k div w \<longleftrightarrow> j = y0 + ?k div w" using True by auto
      ultimately show ?thesis using True by (auto simp: framed_def nth_append less_Suc_eq)
    next
      case False
      then have "i \<noteq> x0 + ?k mod w \<or> j \<noteq> y0 + ?k div w" using m by auto
      then show ?thesis using False by (auto simp: framed_def)
    qed
  qed
  have d: "Suc ?k mod w = (if ?k mod w + 1 < w then ?k mod w + 1 else 0)" "Suc ?k div w = (if ?k mod w + 1 < w then ?k div w else ?k div w + 1)"
    using m(1) by (auto simp: mod_Suc div_Suc)
  have e: "Suc ?k = w * h \<longleftrightarrow> \<not> ?k mod w + 1 < w \<and> \<not> ?k div w + 1 < h"
  proof -
    have k2: "?k = ?k div w * w + ?k mod w" by simp
    show ?thesis
    proof
      assume "Suc ?k = w * h"
      then have "Suc ?k mod w = 0" "Suc ?k div w = h" using assms(7) by simp_all
      then show "\<not> ?k mod w + 1 < w \<and> \<not> ?k div w + 1 < h" using d by (auto split: if_splits)
    next
      assume "\<not> ?k mod w + 1 < w \<and> \<not> ?k div w + 1 < h"
      then have "Suc ?k mod w = 0" "Suc ?k div w = h" using d m by auto
      then show "Suc ?k = w * h" by (metis add.right_neutral mult_div_mod_eq)
    qed
  qed
  have lt: "x0 + ?k mod w < x0 + w - 1 \<longleftrightarrow> ?k mod w + 1 < w" "y0 + ?k div w < y0 + h - 1 \<longleftrightarrow> ?k div w + 1 < h" by auto
  have "taken_by (map Wr_ram cs) p = p\<lparr>gram := framed x0 y0 w h cs (gram p), cx := x0 + ?k mod w, cy := y0 + ?k div w\<rparr>"
    using snoc k by simp
  then have step: "taken_by (map Wr_ram (cs @ [a])) p = p\<lparr>gram := framed x0 y0 w h (cs @ [a]) (gram p),
      cx := (if ?k mod w + 1 < w then x0 + ?k mod w + 1 else x0),
      cy := (if ?k mod w + 1 < w then y0 + ?k div w else if ?k div w + 1 < h then y0 + ?k div w + 1 else y0)\<rparr>"
    by (simp add: assms(1-4) lt g)
  show ?case unfolding step using d e by (cases "?k mod w + 1 < w"; cases "?k div w + 1 < h") simp_all
qed

lemma window_run:
  assumes "fits x y dx dy" "length cs = unat dx * unat dy"
  shows "gram (taken_by (set_window x y dx dy @ [Ram_prepare] @ map Wr_ram cs) p) = framed (unat x) (unat y) (unat dx) (unat dy) cs (gram p)"
proof -
  have "0 < unat dx" "0 < unat dy" using assms(1) by (simp_all add: fits_def word_less_nat_alt)
  then show ?thesis using assms by (simp add: set_window_panel pixels_run)
qed

lemma framed_full:
  assumes "length cs = w * h" "x0 \<le> i" "i < x0 + w" "y0 \<le> j" "j < y0 + h"
  shows "framed x0 y0 w h cs g i j = cs ! ((j - y0) * w + (i - x0))"
proof -
  have "i - x0 < w" "Suc (j - y0) \<le> h" using assms by auto
  then have "(j - y0) * w + (i - x0) < Suc (j - y0) * w" "Suc (j - y0) * w \<le> h * w" by (simp, intro mult_le_mono) simp_all
  then have "(j - y0) * w + (i - x0) < length cs" unfolding assms(1) by (metis less_le_trans mult.commute)
  then show ?thesis using assms by (simp add: framed_def)
qed

lemma fits_area: "fits x y dx dy \<Longrightarrow> unat dx * unat dy < 2 ^ 31"
proof -
  assume "fits x y dx dy"
  then have "unat dx * unat dy \<le> 240 * 320" by (intro mult_le_mono) (simp_all add: fits_def XSIZE_def YSIZE_def)
  then show ?thesis by simp
qed

text \<open>
  C36: a picture inside of the screen appears there pixel by pixel, and the rest of the screen stays as it was, whatever
  window was used before.
\<close>

theorem ssd1289_pic_shown:
  assumes "fits x y dx dy" "length pic = unat dx * unat dy"
  shows "\<exists>es. ssd1289_pic x y dx dy pic = Some es \<and> (\<forall>i j. gram (taken_by es p) i j =
    (if unat x \<le> i \<and> i < unat x + unat dx \<and> unat y \<le> j \<and> j < unat y + unat dy
     then pic ! ((j - unat y) * unat dx + (i - unat x)) else gram p i j))"
proof -
  have "ssd1289_pic x y dx dy pic = Some (set_window x y dx dy @ [Ram_prepare] @ map Wr_ram pic)"
    using assms fits_area [OF assms(1)] by (simp add: ssd1289_pic_def Let_def)
  moreover have "framed (unat x) (unat y) (unat dx) (unat dy) pic (gram p) i j =
    (if unat x \<le> i \<and> i < unat x + unat dx \<and> unat y \<le> j \<and> j < unat y + unat dy
     then pic ! ((j - unat y) * unat dx + (i - unat x)) else gram p i j)" for i j
  proof (cases "unat x \<le> i \<and> i < unat x + unat dx \<and> unat y \<le> j \<and> j < unat y + unat dy")
    case True
    then show ?thesis using framed_full [OF assms(2), of "unat x" i "unat y" j "gram p"] by simp
  next
    case False
    then show ?thesis unfolding if_not_P [OF False] framed_def by auto
  qed
  ultimately show ?thesis
    by (intro exI [of _ "set_window x y dx dy @ [Ram_prepare] @ map Wr_ram pic"]) (simp only: window_run [OF assms] simp_thms)
qed

theorem ssd1289_pic_shown_witness:
  "\<exists>es. ssd1289_pic 10 20 2 1 [5, 6] = Some es \<and>
    gram (taken_by es \<lparr>win_left = 0, win_right = 0, win_top = 0, win_bottom = 0, cx = 0, cy = 0, gram = \<lambda>_ _. 0\<rparr>) 11 20 = 6"
proof -
  have "fits 10 20 2 1" by (simp add: fits_def XSIZE_def YSIZE_def)
  from ssd1289_pic_shown [OF this, of "[5, 6]" "\<lparr>win_left = 0, win_right = 0, win_top = 0, win_bottom = 0, cx = 0, cy = 0, gram = \<lambda>_ _. 0\<rparr>"]
  obtain es where "ssd1289_pic 10 20 2 1 [5, 6] = Some es"
    and g: "\<And>i j. gram (taken_by es \<lparr>win_left = 0, win_right = 0, win_top = 0, win_bottom = 0, cx = 0, cy = 0, gram = \<lambda>_ _. 0\<rparr>) i j =
      (if 10 \<le> i \<and> i < 12 \<and> 20 \<le> j \<and> j < 21 then [5, 6] ! ((j - 20) * 2 + (i - 10)) else 0)"
    by auto
  then show ?thesis by (intro exI [of _ es]) simp
qed

text \<open>Clearing fills the screen with the colour of the background.\<close>

lemma ssd1289_clear_shown:
  "\<exists>es. ssd1289_clear lcd = Some es \<and> (\<forall>i < 240. \<forall>j < 320. gram (taken_by es p) i j = back_color lcd)"
proof -
  have f: "fits 0 0 XSIZE YSIZE" by (simp add: fits_def XSIZE_def YSIZE_def)
  have "ssd1289_clear lcd = Some (set_window 0 0 XSIZE YSIZE @ [Ram_prepare] @ map Wr_ram (replicate (240 * 320) (back_color lcd)))"
    by (simp add: ssd1289_clear_def fill_window_def Let_def XSIZE_def YSIZE_def)
  moreover have "framed 0 0 240 320 (replicate (240 * 320) (back_color lcd)) g i j = back_color lcd" if "i < 240" "j < 320" for g i j
  proof -
    have "j * 240 + i < 240 * 320" using that by simp
    then show ?thesis using framed_full [of "replicate (240 * 320) (back_color lcd)" 240 320 0 i 0 j g] that by simp
  qed
  ultimately show ?thesis using window_run [OF f, of "replicate (240 * 320) (back_color lcd)" p] by (simp add: XSIZE_def YSIZE_def del: replicate.simps)
qed

text \<open>
  The pixels of a character do not depend on the line they are in, and from the eighth line of the screen on a
  character is invisible.
\<close>

lemma all_some_map: "all_some xs = Some ys \<Longrightarrow> xs = map Some ys"
  by (induction xs arbitrary: ys) (auto split: option.splits)

lemma char_pixel_blank: "8 \<le> y \<Longrightarrow> char_pixel lcd ch y ix = Some e \<Longrightarrow> e = Wr_ram (back_color lcd)"
  using bit_imp_le_length by (fastforce simp: char_pixel_def Let_def word_le_nat_alt split: if_splits)

lemma char_invisible:
  assumes "8 \<le> y" "ssd1289_putchar lcd x y ch = Some es"
  shows "es = set_window x y (ucast (x_size (font lcd))) (ucast (y_size (font lcd))) @ [Ram_prepare] @
    replicate (unat (x_size (font lcd)) * unat (y_size (font lcd))) (Wr_ram (back_color lcd))"
proof -
  let ?cells = "concat (map (\<lambda>ix. map (\<lambda>iy. char_pixel lcd ch y ix) [0..<unat (y_size (font lcd))]) [0..<unat (x_size (font lcd))])"
  obtain px where px: "?cells = map Some px"
    and es: "es = set_window x y (ucast (x_size (font lcd))) (ucast (y_size (font lcd))) @ [Ram_prepare] @ px"
    using assms(2) all_some_map by (auto simp: ssd1289_putchar_def)
  have "length px = length ?cells" by (simp only: px length_map)
  moreover have "length ?cells = unat (x_size (font lcd)) * unat (y_size (font lcd))" by (simp add: length_concat comp_def sum_list_triv)
  moreover have "e = Wr_ram (back_color lcd)" if "e \<in> set px" for e
  proof -
    have "Some e \<in> set ?cells" unfolding px using that by simp
    then show ?thesis using char_pixel_blank [OF assms(1)] by auto
  qed
  ultimately show ?thesis unfolding es by (metis replicate_eqI)
qed

section \<open>ST7735\<close>

datatype st7735_type = eCMD | eDAT

datatype st7735_call = Wr "u8 list" st7735_type | Rd "u8 list" nat st7735_type

definition ST7735S_TFTHEIGHT :: u8 where "ST7735S_TFTHEIGHT = 160"
definition ST7735S_PWCTR1 :: u8 where "ST7735S_PWCTR1 = 0xC0"
definition ST7735S_PWCTR2 :: u8 where "ST7735S_PWCTR2 = 0xC1"
definition ST7735S_VMCTR1 :: u8 where "ST7735S_VMCTR1 = 0xC5"
definition ST7735S_VMCTR2 :: u8 where "ST7735S_VMCTR2 = 0xC7"
definition ST7735S_MADCTL :: u8 where "ST7735S_MADCTL = 0x36"
definition ST7735S_PIXFMT :: u8 where "ST7735S_PIXFMT = 0x3A"
definition ST7735S_FRMCTR1 :: u8 where "ST7735S_FRMCTR1 = 0xB1"
definition ST7735S_DFUNCTR :: u8 where "ST7735S_DFUNCTR = 0xB6"
definition ST7735S_GAMMASET :: u8 where "ST7735S_GAMMASET = 0x26"
definition ST7735S_GMCTRP1 :: u8 where "ST7735S_GMCTRP1 = 0xE0"
definition ST7735S_GMCTRN1 :: u8 where "ST7735S_GMCTRN1 = 0xE1"
definition ST7735S_SLPOUT :: u8 where "ST7735S_SLPOUT = 0x11"
definition ST7735S_DISPON :: u8 where "ST7735S_DISPON = 0x29"
definition ST7735S_SCRLAR :: u8 where "ST7735S_SCRLAR = 0x33"
definition ST7735S_MADCTL_MY :: u8 where "ST7735S_MADCTL_MY = 0x80"
definition ST7735S_MADCTL_MX :: u8 where "ST7735S_MADCTL_MX = 0x40"
definition ST7735S_MADCTL_BGR :: u8 where "ST7735S_MADCTL_BGR = 0x08"

definition st7735_writeC :: "u8 \<Rightarrow> st7735_call" where
  "st7735_writeC cmd = Wr [cmd] eCMD"

definition st7735_writeD :: "u8 \<Rightarrow> st7735_call" where
  "st7735_writeD dat = Wr [dat] eDAT"

definition ST7735S_DefineScrollArea :: "u8 \<Rightarrow> u8 \<Rightarrow> st7735_call list" where
  "ST7735S_DefineScrollArea upper lower =
     [st7735_writeC ST7735S_SCRLAR, st7735_writeD 0, st7735_writeD lower, st7735_writeD 0, st7735_writeD (ST7735S_TFTHEIGHT - upper - lower),
      st7735_writeD 0, st7735_writeD upper]"

text \<open>The calls of \<open>ST7735_Init\<close> when there is a display, the argument or one from before; otherwise it has no value.\<close>

definition LCD_Init_Seq1 :: "u8 list" where
  "LCD_Init_Seq1 = [0x39, 0x2C, 0x00, 0x34, 0x02]"

definition LCD_Init_GMCTRP1 :: "u8 list" where
  "LCD_Init_GMCTRP1 = [0x0F, 0x31, 0x2B, 0x0C, 0x0E, 0x08, 0x4E, 0xF1, 0x37, 0x07, 0x10, 0x03, 0x0E, 0x09, 0x00]"

definition LCD_Init_GMCTRN1 :: "u8 list" where
  "LCD_Init_GMCTRN1 = [0x00, 0x0E, 0x14, 0x03, 0x11, 0x07, 0x31, 0xC1, 0x48, 0x08, 0x0F, 0x0C, 0x31, 0x36, 0x0F]"

definition init_calls :: "st7735_call list" where
  "init_calls =
     [st7735_writeC 0xCB, Wr LCD_Init_Seq1 eDAT,
      st7735_writeC 0xF7, st7735_writeD 0x20,
      st7735_writeC 0xEA, st7735_writeD 0x00, st7735_writeD 0x00,
      st7735_writeC ST7735S_PWCTR1, st7735_writeD 0x23,
      st7735_writeC ST7735S_PWCTR2, st7735_writeD 0x10,
      st7735_writeC ST7735S_VMCTR1, st7735_writeD 0x3e, st7735_writeD 0x28,
      st7735_writeC ST7735S_VMCTR2, st7735_writeD 0x86,
      st7735_writeC ST7735S_MADCTL, st7735_writeD (ST7735S_MADCTL_MX OR ST7735S_MADCTL_MY OR ST7735S_MADCTL_BGR),
      st7735_writeC ST7735S_PIXFMT, st7735_writeD 0x55,
      st7735_writeC ST7735S_FRMCTR1, st7735_writeD 0x00, st7735_writeD 0x18,
      st7735_writeC ST7735S_DFUNCTR, st7735_writeD 0x08, st7735_writeD 0x82, st7735_writeD 0x27] @
     ST7735S_DefineScrollArea 16 0 @
     [st7735_writeC 0xF2, st7735_writeD 0x00,
      st7735_writeC ST7735S_GAMMASET, st7735_writeD 0x01,
      st7735_writeC ST7735S_GMCTRP1, Wr LCD_Init_GMCTRP1 eDAT,
      st7735_writeC ST7735S_GMCTRN1, Wr LCD_Init_GMCTRN1 eDAT,
      st7735_writeC ST7735S_SLPOUT,
      st7735_writeC ST7735S_DISPON]"

definition ST7735_Init :: "'d option \<Rightarrow> 'd option \<Rightarrow> ('d \<times> st7735_call list) option" where
  "ST7735_Init used driver = (case driver of Some d \<Rightarrow> Some (d, init_calls) | None \<Rightarrow> map_option (\<lambda>d. (d, init_calls)) used)"

text \<open>The first byte of the structure holds the command, and all of it is handed to the read function.\<close>

definition ST7735S_GetId :: "'d option \<Rightarrow> u8 list \<Rightarrow> (u8 list \<Rightarrow> u8 list) \<Rightarrow> (u8 list \<times> st7735_call list) option" where
  "ST7735S_GetId used old rd = (case used of None \<Rightarrow> None
     | Some _ \<Rightarrow> let buf = old[0 := 0xD3] in Some (rd buf, [Rd buf (length old) eCMD]))"

text \<open>The commands with their parameters, as the display takes them.\<close>

fun commands :: "st7735_call list \<Rightarrow> (u8 \<times> u8 list) list" where
  "commands [] = []"
| "commands (Wr [c] eCMD # es) = (c, concat (map (\<lambda>e. case e of Wr d eDAT \<Rightarrow> d | _ \<Rightarrow> []) (takeWhile (\<lambda>e. case e of Wr _ eDAT \<Rightarrow> True | _ \<Rightarrow> False) es))) # commands es"
| "commands (_ # es) = commands es"

lemma st7735_sends:
  "commands init_calls = [(0xCB, LCD_Init_Seq1), (0xF7, [0x20]), (0xEA, [0, 0]), (0xC0, [0x23]), (0xC1, [0x10]), (0xC5, [0x3E, 0x28]), (0xC7, [0x86]),
    (0x36, [0xC8]), (0x3A, [0x55]), (0xB1, [0, 0x18]), (0xB6, [0x08, 0x82, 0x27]), (0x33, [0, 0, 0, 144, 0, 16]), (0xF2, [0]), (0x26, [1]),
    (0xE0, LCD_Init_GMCTRP1), (0xE1, LCD_Init_GMCTRN1), (0x11, []), (0x29, [])]"
  by code_simp

text \<open>The three areas of the scrolling command make up the height, as long as they fit.\<close>

lemma scroll_areas: "unat upper + unat lower \<le> 160 \<Longrightarrow> unat (ST7735S_TFTHEIGHT - upper - lower) + unat upper + unat lower = 160"
  by (subst unat_sub; (subst unat_sub)?) (simp_all add: ST7735S_TFTHEIGHT_def word_le_nat_alt unat_sub)

end
