(* ===== verification/Bmp180.thy ===== *)
theory Bmp180
  imports Bme280
begin

text \<open>
  The older sensors: Common/BMP180.c for pressure and Common/SI7005.c for humidity.  The bus functions are recorded
  as calls, and their answers are a parameter; the drivers look at few of the codes, so what a failed read leaves in the buffer
  is used.  \<open>long\<close> has 32 bits and is checked as in \<open>Bme280\<close>; \<open>unsigned long\<close> wraps.  \<open>float\<close> is
  exact, the decimal constants included.
\<close>

section \<open>BMP180\<close>

definition AC1_Reg :: u8 where "AC1_Reg = 0xAA"
definition out_msb :: u8 where "out_msb = 0xF6"
definition ctrl_meas :: u8 where "ctrl_meas = 0xF4"
definition soft_reset :: u8 where "soft_reset = 0xE0"

record bmp180_cal =
  AC1 :: u16
  AC2 :: u16
  AC3 :: u16
  AC4 :: u16
  AC5 :: u16
  AC6 :: u16
  B1 :: u16
  B2 :: u16
  MB :: u16
  MC :: u16
  MD :: u16

text \<open>The oversampling is the number of its constant; the calibration is behind a pointer.\<close>

record bmp180 =
  Temperature :: rat
  Pressure :: int
  P_Oversampling :: nat
  BMP180_Calibration :: "bmp180_cal option"

datatype bmp_call = Bmp_wr u8 u8 | Bmp_rd u8 nat | Bmp_delay u16

type_synonym 'a bmp_m = "(bmp_call io, 'a) state"

definition bmp_read :: "bme_chip \<Rightarrow> u8 \<Rightarrow> nat \<Rightarrow> (u8 \<times> u8 list) bmp_m" where
  "bmp_read hw reg n = ask (\<lambda>i. (bme_status hw i, map (bme_bytes hw i) [0..<n])) (Bmp_rd reg n)"

definition BMP180_SW_Reset :: "unit bmp_m" where
  "BMP180_SW_Reset = do { call (Bmp_delay 100); call (Bmp_wr soft_reset 0xB6); call (Bmp_delay 100) }"

definition be16 :: "u8 list \<Rightarrow> nat \<Rightarrow> u16" where
  "be16 buf i = push_bit 8 (ucast (buf ! i)) OR ucast (buf ! (i + 1))"

definition parse_calibration :: "u8 list \<Rightarrow> bmp180_cal" where
  "parse_calibration buf = \<lparr>AC1 = be16 buf 0, AC2 = be16 buf 2, AC3 = be16 buf 4, AC4 = be16 buf 6, AC5 = be16 buf 8, AC6 = be16 buf 10,
     B1 = be16 buf 12, B2 = be16 buf 14, MB = be16 buf 16, MC = be16 buf 18, MD = be16 buf 20\<rparr>"

text \<open>A store through a null pointer has no value; the test for it comes after the stores.\<close>

definition BMP180_Init :: "bme_chip \<Rightarrow> bmp180 \<Rightarrow> (u8 \<times> bmp180) option bmp_m" where
  "BMP180_Init hw dev = do {
     BMP180_SW_Reset;
     (Result, buf) \<leftarrow> bmp_read hw AC1_Reg 22;
     State_Monad.return
       (if Result \<noteq> 0 then Some (Result, dev)
        else case BMP180_Calibration dev of None \<Rightarrow> None
          | Some _ \<Rightarrow> Some (Result, dev\<lparr>BMP180_Calibration := Some (parse_calibration buf)\<rparr>)) }"

definition BMP180_Read_UT_Value :: "bme_chip \<Rightarrow> int bmp_m" where
  "BMP180_Read_UT_Value hw = do {
     call (Bmp_wr ctrl_meas 0x2E);
     call (Bmp_delay 50);
     (_, buf) \<leftarrow> bmp_read hw out_msb 2;
     State_Monad.return (uint (buf ! 0) * 2 ^ 8 + uint (buf ! 1)) }"

definition BMP180_Read_UP_Value :: "bme_chip \<Rightarrow> nat \<Rightarrow> int bmp_m" where
  "BMP180_Read_UP_Value hw oss = do {
     call (Bmp_wr ctrl_meas (0x34 + push_bit 6 (of_nat oss)));
     call (Bmp_delay 100);
     (_, buf) \<leftarrow> bmp_read hw out_msb 3;
     State_Monad.return ((uint (buf ! 0) * 2 ^ 16 + uint (buf ! 1) * 2 ^ 8 + uint (buf ! 2)) div 2 ^ (8 - oss)) }"

text \<open>The formulas of \<open>BMP180_Get_Result\<close>: the temperature term, the pressure before and after the last correction.\<close>

definition calc_b5 :: "bmp180_cal \<Rightarrow> int \<Rightarrow> int option" where
  "calc_b5 k ut = do {
     d \<leftarrow> s32 (ut - uint (AC6 k));
     m \<leftarrow> s32 (d * uint (AC5 k));
     let x1 = m div 2 ^ 15;
     n \<leftarrow> s32 (sint (MC k) * 2 ^ 11);
     q \<leftarrow> s32 (x1 + sint (MD k));
     if q = 0 then None else s32 (x1 + n sdiv q) }"

definition calc_t :: "int \<Rightarrow> int option" where
  "calc_t b5 = map_option (\<lambda>x. x div 2 ^ 4) (s32 (b5 + 8))"

definition calc_b3 :: "bmp180_cal \<Rightarrow> nat \<Rightarrow> int \<Rightarrow> int option" where
  "calc_b3 k oss b6 = do {
     q \<leftarrow> s32 (b6 * b6);
     m1 \<leftarrow> s32 (sint (B2 k) * (q div 2 ^ 12));
     m2 \<leftarrow> s32 (sint (AC2 k) * b6);
     x3 \<leftarrow> s32 (m1 div 2 ^ 11 + m2 div 2 ^ 11);
     a \<leftarrow> s32 (sint (AC1 k) * 4 + x3);
     s \<leftarrow> s32 (a * 2 ^ oss);
     b \<leftarrow> s32 (s + 2);
     Some (b div 2 ^ 2) }"

definition calc_b4 :: "bmp180_cal \<Rightarrow> int \<Rightarrow> u32 option" where
  "calc_b4 k b6 = do {
     q \<leftarrow> s32 (b6 * b6);
     n1 \<leftarrow> s32 (sint (AC3 k) * b6);
     n2 \<leftarrow> s32 (sint (B1 k) * (q div 2 ^ 12));
     x \<leftarrow> s32 (n1 div 2 ^ 13 + n2 div 2 ^ 16);
     y \<leftarrow> s32 (x + 2);
     z \<leftarrow> s32 (y div 2 ^ 2 + 32768);
     Some (drop_bit 15 (ucast (AC4 k) * of_int z)) }"

definition raw_pressure :: "bmp180_cal \<Rightarrow> nat \<Rightarrow> int \<Rightarrow> int \<Rightarrow> int option" where
  "raw_pressure k oss up b5 = do {
     b6 \<leftarrow> s32 (b5 - 4000);
     b3 \<leftarrow> calc_b3 k oss b6;
     b4 \<leftarrow> calc_b4 k b6;
     let b7 = ((of_int up - of_int b3) * of_nat (50000 div 2 ^ oss) :: u32);
     if b4 = 0 then None
     else Some (sint (if b7 < 0x80000000 then (b7 * 2) div b4 else (b7 div b4) * 2)) }"

definition correct_pressure :: "int \<Rightarrow> int option" where
  "correct_pressure p = do {
     h \<leftarrow> s32 (p div 2 ^ 8 * (p div 2 ^ 8));
     t \<leftarrow> s32 (h * 3038);
     u \<leftarrow> s32 (- 7357 * p);
     v \<leftarrow> s32 (t div 2 ^ 16 + u div 2 ^ 16);
     w \<leftarrow> s32 (v + 3791);
     s32 (p + w div 2 ^ 4) }"

definition BMP180_Get_Result :: "bme_chip \<Rightarrow> bmp180 \<Rightarrow> bmp180 option bmp_m" where
  "BMP180_Get_Result hw dev = do {
     ut \<leftarrow> BMP180_Read_UT_Value hw;
     up \<leftarrow> BMP180_Read_UP_Value hw (P_Oversampling dev);
     State_Monad.return (do {
       k \<leftarrow> BMP180_Calibration dev;
       b5 \<leftarrow> calc_b5 k ut;
       t \<leftarrow> calc_t b5;
       p \<leftarrow> raw_pressure k (P_Oversampling dev) up b5;
       p \<leftarrow> correct_pressure p;
       Some (dev\<lparr>Temperature := of_int t / 10, Pressure := p\<rparr>) }) }"

definition Altitude :: "u32 \<Rightarrow> real" where
  "Altitude p = 44330 * (1 - (real (unat p) / 101325) powr 0.190295)"

definition Pa_To_Hg :: "u32 \<Rightarrow> u16" where
  "Pa_To_Hg p = ucast ((p * 760) div 101325)"

definition BMP180_Check_ID :: "bme_chip \<Rightarrow> u8 bmp_m" where
  "BMP180_Check_ID hw = do { (_, buf) \<leftarrow> bmp_read hw 0xD0 1; State_Monad.return (if buf ! 0 = 0x55 then 0 else 1) }"

definition BMP180_StartConversion :: "u8 \<Rightarrow> unit bmp_m" where
  "BMP180_StartConversion Flag = call (Bmp_wr ctrl_meas Flag)"

definition BMP180_Busy :: "bme_chip \<Rightarrow> u8 bmp_m" where
  "BMP180_Busy hw = do {
     call (Bmp_delay 10);
     (_, buf) \<leftarrow> bmp_read hw ctrl_meas 1;
     State_Monad.return (buf ! 0 AND push_bit 5 1) }"

section \<open>The temperature\<close>

text \<open>The formula in real numbers, in degrees.\<close>

definition bmp_x1 :: "bmp180_cal \<Rightarrow> int \<Rightarrow> real" where
  "bmp_x1 k ut = (of_int ut - of_int (uint (AC6 k))) * of_int (uint (AC5 k)) / 2 ^ 15"

definition bmp_t_real :: "bmp180_cal \<Rightarrow> int \<Rightarrow> real" where
  "bmp_t_real k ut = (bmp_x1 k ut + of_int (sint (MC k)) * 2 ^ 11 / (bmp_x1 k ut + of_int (sint (MD k)))) / 160"

text \<open>The constants and the readings that the data sheet gives as an example.\<close>

definition bmp_cal_sample :: bmp180_cal where
  "bmp_cal_sample = \<lparr>AC1 = 408, AC2 = - 72, AC3 = - 14383, AC4 = 32741, AC5 = 32757, AC6 = 23153, B1 = 6190, B2 = 4, MB = - 32768,
     MC = - 8711, MD = 2868\<rparr>"

lemma bmp_sample: "calc_b5 bmp_cal_sample 27898 = Some 2400" "calc_t 2400 = Some 150"
  "Option.bind (raw_pressure bmp_cal_sample 0 23843 2400) correct_pressure = Some 69964"
  by (simp_all add: calc_b5_def calc_t_def raw_pressure_def calc_b3_def calc_b4_def correct_pressure_def s32_def bmp_cal_sample_def
      signed_divide_int_def Let_def)

lemma sdiv_error: "0 < k \<Longrightarrow> \<bar>real_of_int (x sdiv k) - real_of_int x / real_of_int k\<bar> \<le> 1"
proof -
  assume k: "0 < k"
  show ?thesis
  proof (cases "0 \<le> x")
    case True
    then have "x sdiv k = x div k" using k by (cases "x = 0") (simp_all add: signed_divide_int_def)
    then show ?thesis using shift_error [OF k, of x] by simp
  next
    case False
    then have "x sdiv k = - ((- x) div k)" using k by (simp add: signed_divide_int_def)
    then show ?thesis using shift_error [OF k, of "- x"] by simp
  qed
qed

lemma quotient_error:
  fixes n q d :: real
  assumes "\<bar>n\<bar> \<le> 2 ^ 26" "4096 \<le> q" "0 \<le> d" "d \<le> 1"
  shows "\<bar>n / q - n / (q + d)\<bar> \<le> 4"
proof -
  have "n / q - n / (q + d) = n * d / (q * (q + d))" using assms(2,3) by (simp add: field_simps)
  moreover have "0 < q * (q + d)" using assms(2,3) by (intro mult_pos_pos) auto
  ultimately have e: "\<bar>n / q - n / (q + d)\<bar> = \<bar>n * d\<bar> / (q * (q + d))" by (simp only: abs_divide abs_of_pos)
  have "\<bar>n * d\<bar> \<le> 2 ^ 26 * 1" using assms by (intro mult_bound) auto
  moreover have "4096 * 4096 \<le> q * (q + d)" using assms by (intro mult_mono) auto
  ultimately have "\<bar>n * d\<bar> / (q * (q + d)) \<le> (2 ^ 26 * 1) / (4096 * 4096)" by (intro frac_le) simp_all
  then show ?thesis unfolding e by simp
qed

text \<open>
  When the reading is at most 32767 from the calibration value AC6 and the divisor at least 4096, as for the sensor
  of the data sheet, the temperature is computed without overflow and within a tenth of a degree of the formula
  in real numbers.
\<close>

theorem bmp180_temperature_accurate:
  assumes "\<bar>ut - uint (AC6 k)\<bar> \<le> 32767" "4096 \<le> (ut - uint (AC6 k)) * uint (AC5 k) div 2 ^ 15 + sint (MD k)"
  shows "\<exists>b5 t. calc_b5 k ut = Some b5 \<and> calc_t b5 = Some t \<and> \<bar>real_of_int t / 10 - bmp_t_real k ut\<bar> \<le> 1 / 10"
proof -
  define m where "m = (ut - uint (AC6 k)) * uint (AC5 k)"
  define x1 where "x1 = m div 2 ^ 15"
  define n where "n = sint (MC k) * 2 ^ 11"
  define q where "q = x1 + sint (MD k)"
  define b5 where "b5 = x1 + n sdiv q"
  have m: "\<bar>m\<bar> \<le> 32767 * 65535" unfolding m_def using assms(1) uint_u16 [of "AC5 k"] by (intro mult_bound) auto
  have x1: "\<bar>x1\<bar> \<le> 65535" unfolding x1_def using m by (intro div_bound) simp_all
  have n: "\<bar>n\<bar> \<le> 2 ^ 26" unfolding n_def using mult_bound [OF sint_u16 [of "MC k"], of "2 ^ 11" "2 ^ 11"] by simp
  have q: "4096 \<le> q" "\<bar>q\<bar> \<le> 2 ^ 17" using assms(2) x1 sint_u16 [of "MD k"] by (simp_all add: q_def x1_def m_def)
  have d: "\<bar>n sdiv q\<bar> \<le> 2 ^ 14" by (rule sdiv_bound [OF _ q(1)]) (use n in simp_all)
  have b5: "\<bar>b5\<bar> \<le> 2 ^ 17" using x1 d by (simp add: b5_def)
  have "s32 (ut - uint (AC6 k)) = Some (ut - uint (AC6 k))" "s32 m = Some m" "s32 n = Some n" "s32 q = Some q" "s32 b5 = Some b5"
    by (rule s32_fits, rule le_less_trans, rule assms(1) m n q(2) b5, simp)+
  then have 1: "calc_b5 k ut = Some b5" using q(1)
    by (simp only: calc_b5_def Let_def Option.bind.bind_lunit if_False flip: m_def x1_def n_def q_def b5_def) simp
  have "s32 (b5 + 8) = Some (b5 + 8)" using b5 by (intro s32_fits) (simp add: abs_le_iff abs_less_iff)
  then have 2: "calc_t b5 = Some ((b5 + 8) div 2 ^ 4)" by (simp add: calc_t_def)
  have xr: "bmp_x1 k ut = real_of_int m / 2 ^ 15" by (simp add: bmp_x1_def m_def)
  have dx: "0 \<le> bmp_x1 k ut - of_int x1" "bmp_x1 k ut - of_int x1 \<le> 1"
    unfolding xr x1_def using real_of_int_div3 [of m "2 ^ 15"] real_of_int_div4 [of m "2 ^ 15"] by simp_all
  have "\<bar>real_of_int (n sdiv q) - of_int n / of_int q\<bar> \<le> 1" using q(1) by (intro sdiv_error) simp
  moreover have "\<bar>real_of_int n / of_int q - of_int n / (bmp_x1 k ut + of_int (sint (MD k)))\<bar> \<le> 4"
  proof -
    have e: "of_int q + (bmp_x1 k ut - of_int x1) = bmp_x1 k ut + of_int (sint (MD k))" by (simp add: q_def)
    have "\<bar>real_of_int n\<bar> \<le> 2 ^ 26" using n by (simp flip: of_int_abs)
    from quotient_error [OF this, of "of_int q" "bmp_x1 k ut - of_int x1"] show ?thesis unfolding e using q(1) dx by simp
  qed
  moreover have "160 * bmp_t_real k ut = bmp_x1 k ut + of_int n / (bmp_x1 k ut + of_int (sint (MD k)))" by (simp add: bmp_t_real_def n_def)
  moreover have "real_of_int b5 = of_int x1 + of_int (n sdiv q)" by (simp add: b5_def)
  ultimately have "\<bar>real_of_int b5 - 160 * bmp_t_real k ut\<bar> \<le> 6"
    using dx by linarith
  moreover have "real_of_int ((b5 + 8) div 2 ^ 4) \<le> of_int b5 / 16 + 1 / 2" "of_int b5 / 16 \<le> real_of_int ((b5 + 8) div 2 ^ 4) + 1 / 2"
    using real_of_int_div3 [of "b5 + 8" "2 ^ 4"] real_of_int_div4 [of "b5 + 8" "2 ^ 4"] by (simp_all add: add_divide_distrib)
  ultimately have "\<bar>real_of_int ((b5 + 8) div 2 ^ 4) / 10 - bmp_t_real k ut\<bar> \<le> 1 / 10" by argo
  then show ?thesis using 1 2 by blast
qed

theorem bmp180_temperature_accurate_witness:
  "\<exists>b5 t. calc_b5 bmp_cal_sample 27898 = Some b5 \<and> calc_t b5 = Some t \<and> \<bar>real_of_int t / 10 - bmp_t_real bmp_cal_sample 27898\<bar> \<le> 1 / 10"
  by (rule bmp180_temperature_accurate) (simp_all add: bmp_cal_sample_def)

section \<open>The pressure\<close>

text \<open>The terms stay in range for every calibration.\<close>

lemma b3_defined:
  assumes "\<bar>b6\<bar> \<le> 10400" "oss \<le> 3"
  shows "\<exists>b3. calc_b3 k oss b6 = Some b3"
proof -
  define q where "q = b6 * b6"
  define m1 where "m1 = sint (B2 k) * (q div 2 ^ 12)"
  define m2 where "m2 = sint (AC2 k) * b6"
  define x3 where "x3 = m1 div 2 ^ 11 + m2 div 2 ^ 11"
  define a where "a = sint (AC1 k) * 4 + x3"
  have q: "\<bar>q\<bar> \<le> 10400 * 10400" unfolding q_def using assms(1) by (intro mult_bound)
  then have "\<bar>q div 2 ^ 12\<bar> \<le> 26407" by (intro div_bound) simp_all
  then have m1: "\<bar>m1\<bar> \<le> 2 ^ 15 * 26407" unfolding m1_def by (intro mult_bound sint_u16)
  have m2: "\<bar>m2\<bar> \<le> 2 ^ 15 * 10400" unfolding m2_def using assms(1) by (intro mult_bound sint_u16)
  have "\<bar>m1 div 2 ^ 11\<bar> \<le> 422512" "\<bar>m2 div 2 ^ 11\<bar> \<le> 166400" using m1 m2 by (auto intro!: div_bound)
  then have x3: "\<bar>x3\<bar> \<le> 588912" by (simp add: x3_def)
  then have a: "\<bar>a\<bar> \<le> 719984" using sint_u16 [of "AC1 k"] by (simp add: a_def)
  have "(2 :: int) ^ oss \<le> 2 ^ 3" using assms(2) by (intro power_increasing) auto
  then have s: "\<bar>a * 2 ^ oss\<bar> \<le> 719984 * 8" using a by (intro mult_bound) auto
  then have b: "\<bar>a * 2 ^ oss + 2\<bar> \<le> 719984 * 8 + 2" by linarith
  have "s32 q = Some q" "s32 m1 = Some m1" "s32 m2 = Some m2" "s32 x3 = Some x3" "s32 a = Some a" "s32 (a * 2 ^ oss) = Some (a * 2 ^ oss)"
    "s32 (a * 2 ^ oss + 2) = Some (a * 2 ^ oss + 2)"
    by (rule s32_fits, rule le_less_trans, rule q m1 m2 x3 a s b, simp)+
  then have "calc_b3 k oss b6 = Some ((a * 2 ^ oss + 2) div 2 ^ 2)"
    by (simp only: calc_b3_def Option.bind.bind_lunit flip: q_def m1_def m2_def x3_def a_def)
  then show ?thesis by blast
qed

lemma b4_defined:
  assumes "\<bar>b6\<bar> \<le> 10400" "2 \<le> AC4 k"
  shows "\<exists>b4. calc_b4 k b6 = Some b4 \<and> b4 \<noteq> 0"
proof -
  define q where "q = b6 * b6"
  define n1 where "n1 = sint (AC3 k) * b6"
  define n2 where "n2 = sint (B1 k) * (q div 2 ^ 12)"
  define x where "x = n1 div 2 ^ 13 + n2 div 2 ^ 16"
  define z where "z = (x + 2) div 2 ^ 2 + 32768"
  have q: "\<bar>q\<bar> \<le> 10400 * 10400" unfolding q_def using assms(1) by (intro mult_bound)
  then have "\<bar>q div 2 ^ 12\<bar> \<le> 26407" by (intro div_bound) simp_all
  then have n2: "\<bar>n2\<bar> \<le> 2 ^ 15 * 26407" unfolding n2_def by (intro mult_bound sint_u16)
  have n1: "\<bar>n1\<bar> \<le> 2 ^ 15 * 10400" unfolding n1_def using assms(1) by (intro mult_bound sint_u16)
  have "\<bar>n1 div 2 ^ 13\<bar> \<le> 41600" "\<bar>n2 div 2 ^ 16\<bar> \<le> 13204" using n1 n2 by (auto intro!: div_bound)
  then have x: "\<bar>x\<bar> \<le> 54804" by (simp add: x_def)
  then have x2: "\<bar>x + 2\<bar> \<le> 54806" by linarith
  then have "\<bar>(x + 2) div 2 ^ 2\<bar> \<le> 13702" by (intro div_bound) simp_all
  then have z: "19066 \<le> z" "z \<le> 46470" "\<bar>z\<bar> \<le> 46470" by (simp_all add: z_def)
  have d: "calc_b4 k b6 = Some (drop_bit 15 (ucast (AC4 k) * of_int z))"
  proof -
    have "s32 q = Some q" "s32 n1 = Some n1" "s32 n2 = Some n2" "s32 x = Some x" "s32 (x + 2) = Some (x + 2)" "s32 z = Some z"
      by (rule s32_fits, rule le_less_trans, rule q n1 n2 x x2 z(3), simp)+
    then show ?thesis by (simp only: calc_b4_def Option.bind.bind_lunit flip: q_def n1_def n2_def x_def z_def)
  qed
  have u: "unat (ucast (AC4 k) :: u32) = unat (AC4 k)" "unat (of_int z :: u32) = nat z"
  proof -
    have "unat (AC4 k) < 2 ^ 32" by (rule less_trans [OF unat_u16_less]) simp
    then show "unat (ucast (AC4 k) :: u32) = unat (AC4 k)" by (simp add: unsigned_ucast_eq take_bit_nat_eq_self)
    show "unat (of_int z :: u32) = nat z" using z by (simp add: unsigned_of_int take_bit_int_eq_self)
  qed
  have "unat (AC4 k) * nat z < 65536 * 46471" using z by (intro mult_strict_mono) auto
  then have l: "unat (AC4 k) * nat z < 2 ^ 32" by simp
  then have p: "unat (ucast (AC4 k) * of_int z :: u32) = unat (AC4 k) * nat z" by (subst unat_mult_lem [THEN iffD1]) (simp_all add: u)
  have "2 * 19066 \<le> unat (AC4 k) * nat z" using assms(2) z(1) by (intro mult_mono) (auto simp: word_le_nat_alt)
  then have "unat (drop_bit 15 (ucast (AC4 k) * of_int z :: u32)) \<noteq> 0" unfolding unsigned_drop_bit_eq p
    using l by (simp add: drop_bit_eq_div div_eq_0_iff take_bit_nat_eq_self)
  then have "drop_bit 15 (ucast (AC4 k) * of_int z :: u32) \<noteq> 0" by (metis unat_0)
  then show ?thesis using d by blast
qed

text \<open>
  C34: with a calibration value AC4 of at least 2, whatever the other ten are, and a temperature between -40 and 90
  degrees, the pressure is computed for every reading without overflow or division by zero up to its last correction,
  and that is defined for every pressure up to 215000 Pa.
\<close>

theorem bmp180_pressure_defined:
  assumes "\<bar>b5 - 4000\<bar> \<le> 10400" "2 \<le> AC4 k" "oss \<le> 3"
  shows "\<exists>p. raw_pressure k oss up b5 = Some p \<and> (0 \<le> p \<and> p \<le> 215000 \<longrightarrow> correct_pressure p \<noteq> None)"
proof -
  have "s32 (b5 - 4000) = Some (b5 - 4000)" using assms(1) by (intro s32_fits) simp
  then obtain p where p: "raw_pressure k oss up b5 = Some p"
    using b3_defined [OF assms(1,3), of k] b4_defined [OF assms(1,2)] by (auto simp: raw_pressure_def Let_def)
  have "correct_pressure p \<noteq> None" if "0 \<le> p" "p \<le> 215000"
  proof -
    define h where "h = p div 2 ^ 8 * (p div 2 ^ 8)"
    have "\<bar>p div 2 ^ 8\<bar> \<le> 840" using that by (intro div_bound) simp_all
    then have h: "\<bar>h\<bar> \<le> 840 * 840" unfolding h_def by (intro mult_bound)
    then have t: "\<bar>h * 3038\<bar> \<le> 840 * 840 * 3038" by (intro mult_bound) simp_all
    have u: "\<bar>- 7357 * p\<bar> \<le> 7357 * 215000" using that by (intro mult_bound) simp_all
    define v where "v = h * 3038 div 2 ^ 16 + - 7357 * p div 2 ^ 16"
    have "\<bar>h * 3038 div 2 ^ 16\<bar> \<le> 32709" "\<bar>- 7357 * p div 2 ^ 16\<bar> \<le> 24137" using t u by (auto intro!: div_bound)
    then have v: "\<bar>v\<bar> \<le> 56846" unfolding v_def by linarith
    then have w: "\<bar>v + 3791\<bar> \<le> 60637" by linarith
    then have "\<bar>(v + 3791) div 2 ^ 4\<bar> \<le> 3790" by (intro div_bound) simp_all
    then have r: "\<bar>p + (v + 3791) div 2 ^ 4\<bar> \<le> 218790" using that by linarith
    have "s32 h = Some h" "s32 (h * 3038) = Some (h * 3038)" "s32 (- 7357 * p) = Some (- 7357 * p)" "s32 v = Some v" "s32 (v + 3791) = Some (v + 3791)"
      "s32 (p + (v + 3791) div 2 ^ 4) = Some (p + (v + 3791) div 2 ^ 4)"
      by (rule s32_fits, rule le_less_trans, rule h t u v w r, simp)+
    then show ?thesis by (simp only: correct_pressure_def Option.bind.bind_lunit flip: h_def v_def) simp
  qed
  then show ?thesis using p by blast
qed

theorem bmp180_pressure_defined_witness:
  "\<exists>p. raw_pressure bmp_cal_sample 0 23843 2400 = Some p \<and> (0 \<le> p \<and> p \<le> 215000 \<longrightarrow> correct_pressure p \<noteq> None)"
  by (rule bmp180_pressure_defined) (simp_all add: bmp_cal_sample_def)

text \<open>A calibration value AC4 of 0, as a sensor gives it that answers nothing, is divided by.\<close>

lemma zero_calibration: "AC4 k = 0 \<Longrightarrow> raw_pressure k oss up b5 = None"
  by (auto simp: raw_pressure_def calc_b4_def Let_def split: bind_split)

text \<open>A failed read of the calibration ends \<open>BMP180_Init\<close>; with a null pointer for it a good read is fatal.\<close>

lemma init_null: "BMP180_Calibration dev = None \<Longrightarrow> bme_status hw (asked s) = 0 \<Longrightarrow> fst (run_state (BMP180_Init hw dev) s) = None"
  by (simp add: BMP180_Init_def BMP180_SW_Reset_def bmp_read_def run_simps)

text \<open>The product wraps only far above the pressures of the sensor.\<close>

lemma mmHg_exact:
  assumes "unat p \<le> 5651272"
  shows "unat (Pa_To_Hg p) = unat p * 760 div 101325"
proof -
  have "unat (p * 760) = unat p * 760" using assms by (subst unat_mult_lem [THEN iffD1]) simp_all
  then have d: "unat (p * 760 div 101325) = unat p * 760 div 101325" by (simp add: unat_div)
  have "unat p * 760 div 101325 \<le> 5651272 * 760 div 101325" using assms by (intro div_le_mono mult_le_mono1)
  then have "unat p * 760 div 101325 < 2 ^ 16" by simp
  then show ?thesis unfolding Pa_To_Hg_def unsigned_ucast_eq d by (simp add: take_bit_nat_eq_self)
qed

section \<open>SI7005\<close>

datatype SI7005_MeasType = MeasHum | MeasTemp

fun meas_value :: "SI7005_MeasType \<Rightarrow> u8" where
  "meas_value MeasHum = 0x01"
| "meas_value MeasTemp = 0x11"

text \<open>\<open>Humidity\<close> is a \<open>char\<close>, signed or not.\<close>

record si7005 =
  Humidity :: int
  si_temperature :: rat
  UseRelativeMeas :: bool
  MeasType :: SI7005_MeasType

definition Q0 :: rat where "Q0 = 1973 / 10000"
definition Q1 :: rat where "Q1 = 237 / 100000"
definition A0 :: rat where "A0 = - 47844 / 10000"
definition A1 :: rat where "A1 = 4008 / 10000"
definition A2 :: rat where "A2 = - 393 / 100000"

text \<open>An integer cut to a \<open>char\<close>, and a floating-point value, which must be in its range.\<close>

definition char_of_int :: "bool \<Rightarrow> int \<Rightarrow> int" where
  "char_of_int char_signed v = (if char_signed then sint (word_of_int v :: u8) else uint (word_of_int v :: u8))"

definition char_of_float :: "bool \<Rightarrow> rat \<Rightarrow> int option" where
  "char_of_float char_signed v = (let t = (if 0 \<le> v then \<lfloor>v\<rfloor> else \<lceil>v\<rceil>) in
     if (if char_signed then - 128 \<le> t \<and> t \<le> 127 else 0 \<le> t \<and> t \<le> 255) then Some t else None)"

definition SI7005_CheckID :: "bme_chip \<Rightarrow> u8 bmp_m" where
  "SI7005_CheckID hw = do {
     (Res, buf) \<leftarrow> bmp_read hw 17 1;
     State_Monad.return (if Res \<noteq> 0 then Res else if buf ! 0 \<noteq> 0x50 then 0xFF else 0) }"

definition SI7005_StartConversion :: "bme_chip \<Rightarrow> si7005 \<Rightarrow> u8 bmp_m" where
  "SI7005_StartConversion hw dev = ask (bme_status hw) (Bmp_wr 3 (meas_value (MeasType dev)))"

definition linearised :: "bool \<Rightarrow> int \<Rightarrow> int option" where
  "linearised char_signed h = char_of_float char_signed (of_int h - (of_int (h * h) * A2 + of_int h * A1 + A0))"

definition compensated :: "bool \<Rightarrow> rat \<Rightarrow> int \<Rightarrow> int option" where
  "compensated char_signed t h = char_of_float char_signed (of_int h + (t - 30) * (of_int h * Q1 + Q0))"

definition SI7005_GetResult :: "bool \<Rightarrow> bme_chip \<Rightarrow> si7005 \<Rightarrow> (u8 \<times> si7005) option bmp_m" where
  "SI7005_GetResult char_signed hw dev = do {
     (Res, buf) \<leftarrow> bmp_read hw 1 2;
     State_Monad.return
       (case MeasType dev of
          MeasHum \<Rightarrow> do {
            h \<leftarrow> linearised char_signed (char_of_int char_signed (uint (buf ! 0) - 24));
            h \<leftarrow> (if UseRelativeMeas dev then compensated char_signed (si_temperature dev) h else Some h);
            Some (Res, dev\<lparr>Humidity := h\<rparr>) }
        | MeasTemp \<Rightarrow> Some (Res, dev\<lparr>si_temperature := of_nat (unat (drop_bit 2 (be16 buf 0))) / 32 - 50\<rparr>)) }"

definition SI7005_DataReady :: "bme_chip \<Rightarrow> u8 bmp_m" where
  "SI7005_DataReady hw = do { (_, buf) \<leftarrow> bmp_read hw 0 1; State_Monad.return (buf ! 0) }"

text \<open>In the range of the sensor the linearised humidity fits a \<open>char\<close> of either kind.\<close>

lemma linearised_defined:
  assumes "0 \<le> h" "h \<le> 100"
  shows "\<exists>v. linearised char_signed h = Some v \<and> 0 \<le> v \<and> v \<le> 104"
proof -
  define x where "x = of_int h - (of_int (h * h) * A2 + of_int h * A1 + A0)"
  have "h * h \<le> 100 * 100" using assms by (intro mult_mono) auto
  then have "of_int (h * h) \<le> (of_int 10000 :: rat)" by (subst of_int_le_iff) simp
  then have "of_int (h * h) \<le> (10000 :: rat)" by simp
  moreover have "0 \<le> (of_int (h * h) :: rat)" using assms by simp
  moreover have "0 \<le> (of_int h :: rat)" "of_int h \<le> (100 :: rat)" using assms by simp_all
  ultimately have x: "0 \<le> x" "x < 105" unfolding x_def A0_def A1_def A2_def by linarith+
  then have "0 \<le> \<lfloor>x\<rfloor>" "\<lfloor>x\<rfloor> \<le> 104" by (simp_all add: floor_le_iff)
  then have "char_of_float char_signed x = Some \<lfloor>x\<rfloor>" using x(1) by (simp add: char_of_float_def Let_def)
  then show ?thesis using \<open>0 \<le> \<lfloor>x\<rfloor>\<close> \<open>\<lfloor>x\<rfloor> \<le> 104\<close> unfolding linearised_def x_def by blast
qed

text \<open>The code of the bus is returned, but the result is stored also after an error.\<close>

lemma error_stores: "MeasType dev = MeasTemp \<Longrightarrow>
  \<exists>t. fst (run_state (SI7005_GetResult cs hw dev) s) = Some (bme_status hw (asked s), dev\<lparr>si_temperature := t\<rparr>)"
proof -
  assume m: "MeasType dev = MeasTemp"
  show ?thesis unfolding SI7005_GetResult_def bmp_read_def by (simp only: run_simps run_state_bind prod.case SI7005_MeasType.case m fst_conv run_state_return) (rule exI, rule refl)
qed

end
