(* ===== verification/Server_Cpp.thy ===== *)
theory Server_Cpp
  imports Threads
begin

text \<open>
  The two C++ servers: the class of Linux/server/server.cpp and the older one of Linux/server_cpp.h.  Both have one thread
  that accepts connections and one for every client, and a set of client sockets under a mutex.  The model is a step relation
  for every thread, as for the server in C; a step is one call of the system or one piece of code that runs under the
  mutex.  They differ in when a client gets a thread of its own, in whether the number of clients is limited, and
  in how the clients are told to end.  Threads whose creation fails, and exceptions in the callbacks, which end the process, are left out.
\<close>

section \<open>The state\<close>

text \<open>The accepting thread, the thread of a client, and the thread of the application in \<open>Stop\<close> and in the destructors.\<close>

datatype acceptor_pc = Await | Connected int | Rejecting int | Registering int nat | Registered int nat | Inline nat | Returned

datatype handler_pc = Serving | Unlisting | Hanging_up | Reporting | Handled

datatype caller = User | Destructor | Socket_destructor

datatype owner_pc = Up | Closing_clients caller "int set" | Shutting_down caller | Awaiting caller | Down | Destroyed

text \<open>\<open>sockfd\<close> is the descriptor of the listening socket and \<open>listening\<close> says that it has not been shut down (the variable
  \<open>_sockfd\<close> of server.cpp is -1 from then on), \<open>others\<close> are descriptors of other code of the process.\<close>

record net_state =
  clients_list :: "int set"
  fds :: "int set"
  others :: "int set"
  handlers :: "(int \<times> handler_pc) list"
  acceptor :: acceptor_pc
  sockfd :: int
  listening :: bool
  max_connections :: nat
  owner :: owner_pc

definition net_start :: "int \<Rightarrow> nat \<Rightarrow> net_state" where
  "net_start l n = \<lparr>clients_list = {}, fds = {l}, others = {}, handlers = [], acceptor = Await, sockfd = l, listening = True,
     max_connections = n, owner = Up\<rparr>"

definition mutex_free :: "net_state \<Rightarrow> bool" where
  "mutex_free s \<longleftrightarrow> (\<forall>c xs. owner s \<noteq> Closing_clients c xs)"

section \<open>A client's thread\<close>

text \<open>
  \<open>client_handler\<close>, the same in both servers: it leaves the set before it closes the socket.  Every step but the closing
  uses the server object: \<open>read\<close> takes the size of the message from it, then come its callbacks, its mutex and its set.  After
  the server has been destroyed such a step is undefined, and the relation has none.
\<close>

definition alive :: "net_state \<Rightarrow> bool" where
  "alive s \<longleftrightarrow> owner s \<noteq> Destroyed"

inductive handler_step :: "net_state \<Rightarrow> net_state \<Rightarrow> bool" where
  receive: "i < length (handlers s) \<Longrightarrow> handlers s ! i = (f, Serving) \<Longrightarrow> alive s \<Longrightarrow> handler_step s s"
| hang_up: "i < length (handlers s) \<Longrightarrow> handlers s ! i = (f, Serving) \<Longrightarrow> alive s \<Longrightarrow>
    handler_step s (s\<lparr>handlers := (handlers s)[i := (f, Unlisting)]\<rparr>)"
| unlist: "i < length (handlers s) \<Longrightarrow> handlers s ! i = (f, Unlisting) \<Longrightarrow> alive s \<Longrightarrow> mutex_free s \<Longrightarrow>
    handler_step s (s\<lparr>clients_list := clients_list s - {f}, handlers := (handlers s)[i := (f, Hanging_up)]\<rparr>)"
| close_client: "i < length (handlers s) \<Longrightarrow> handlers s ! i = (f, Hanging_up) \<Longrightarrow>
    handler_step s (s\<lparr>fds := fds s - {f}, handlers := (handlers s)[i := (f, Reporting)]\<rparr>)"
| report: "i < length (handlers s) \<Longrightarrow> handlers s ! i = (f, Reporting) \<Longrightarrow> alive s \<Longrightarrow>
    handler_step s (s\<lparr>handlers := (handlers s)[i := (f, Handled)]\<rparr>)"

inductive others_step :: "net_state \<Rightarrow> net_state \<Rightarrow> bool" where
  others_open: "0 \<le> f \<Longrightarrow> f \<notin> fds s \<Longrightarrow> others_step s (s\<lparr>fds := insert f (fds s), others := insert f (others s)\<rparr>)"

section \<open>The accepting thread of server.cpp\<close>

text \<open>\<open>tcp_handler\<close>: it counts the clients first, and serves a client itself when the count was one.\<close>

inductive accept_step :: "net_state \<Rightarrow> net_state \<Rightarrow> bool" where
  accept_client: "acceptor s = Await \<Longrightarrow> listening s \<Longrightarrow> 0 \<le> f \<Longrightarrow> f \<notin> fds s \<Longrightarrow>
    accept_step s (s\<lparr>acceptor := Connected f, fds := insert f (fds s)\<rparr>)"
| accept_fails: "acceptor s = Await \<Longrightarrow> accept_step s (s\<lparr>acceptor := Returned\<rparr>)"
| count_full: "acceptor s = Connected f \<Longrightarrow> mutex_free s \<Longrightarrow> max_connections s \<le> card (clients_list s) \<Longrightarrow>
    accept_step s (s\<lparr>acceptor := Rejecting f\<rparr>)"
| count_free: "acceptor s = Connected f \<Longrightarrow> mutex_free s \<Longrightarrow> card (clients_list s) < max_connections s \<Longrightarrow>
    accept_step s (s\<lparr>acceptor := Registering f (card (clients_list s))\<rparr>)"
| reject: "acceptor s = Rejecting f \<Longrightarrow> accept_step s (s\<lparr>acceptor := Await, fds := fds s - {f}\<rparr>)"
| register: "acceptor s = Registering f n \<Longrightarrow> mutex_free s \<Longrightarrow>
    accept_step s (s\<lparr>acceptor := Registered f n, clients_list := insert f (clients_list s)\<rparr>)"
| serve_here: "acceptor s = Registered f n \<Longrightarrow> n = 1 \<Longrightarrow>
    accept_step s (s\<lparr>acceptor := Inline (length (handlers s)), handlers := handlers s @ [(f, Serving)]\<rparr>)"
| serve_thread: "acceptor s = Registered f n \<Longrightarrow> n \<noteq> 1 \<Longrightarrow>
    accept_step s (s\<lparr>acceptor := Await, handlers := handlers s @ [(f, Serving)]\<rparr>)"
| served: "acceptor s = Inline i \<Longrightarrow> i < length (handlers s) \<Longrightarrow> snd (handlers s ! i) = Handled \<Longrightarrow>
    accept_step s (s\<lparr>acceptor := Await\<rparr>)"

text \<open>
  \<open>Stop\<close>, which the destructor of the server calls and the destructor of its socket calls once more.  It closes the clients'
  sockets, but only shuts the listening socket down.
\<close>

inductive owner_step :: "net_state \<Rightarrow> net_state \<Rightarrow> bool" where
  call_stop: "owner s = Up \<or> owner s = Down \<Longrightarrow> owner_step s (s\<lparr>owner := Closing_clients User (clients_list s)\<rparr>)"
| call_destructor: "owner s = Up \<or> owner s = Down \<Longrightarrow> owner_step s (s\<lparr>owner := Closing_clients Destructor (clients_list s)\<rparr>)"
| close_one: "owner s = Closing_clients c xs \<Longrightarrow> f \<in> xs \<Longrightarrow>
    owner_step s (s\<lparr>owner := Closing_clients c (xs - {f}), fds := fds s - {f}\<rparr>)"
| closed_all: "owner s = Closing_clients c {} \<Longrightarrow> owner_step s (s\<lparr>owner := Shutting_down c\<rparr>)"
| shut_down: "owner s = Shutting_down c \<Longrightarrow> owner_step s (s\<lparr>owner := Awaiting c, listening := False\<rparr>)"
| join_user: "owner s = Awaiting User \<Longrightarrow> acceptor s = Returned \<Longrightarrow> owner_step s (s\<lparr>owner := Down\<rparr>)"
| join_destructor: "owner s = Awaiting Destructor \<Longrightarrow> acceptor s = Returned \<Longrightarrow>
    owner_step s (s\<lparr>owner := Closing_clients Socket_destructor (clients_list s)\<rparr>)"
| join_last: "owner s = Awaiting Socket_destructor \<Longrightarrow> acceptor s = Returned \<Longrightarrow> owner_step s (s\<lparr>owner := Destroyed\<rparr>)"

inductive class_reachable :: "int \<Rightarrow> nat \<Rightarrow> net_state \<Rightarrow> bool" for l n where
  class_start: "0 \<le> l \<Longrightarrow> class_reachable l n (net_start l n)"
| class_accept: "class_reachable l n s \<Longrightarrow> accept_step s s' \<Longrightarrow> class_reachable l n s'"
| class_handler: "class_reachable l n s \<Longrightarrow> handler_step s s' \<Longrightarrow> class_reachable l n s'"
| class_owner: "class_reachable l n s \<Longrightarrow> owner_step s s' \<Longrightarrow> class_reachable l n s'"
| class_others: "class_reachable l n s \<Longrightarrow> others_step s s' \<Longrightarrow> class_reachable l n s'"

section \<open>The accepting thread of server\_cpp.h\<close>

text \<open>\<open>server_handler\<close>: nothing is counted, and the only client of a server for one is served by the accepting thread.\<close>

inductive listen_step :: "net_state \<Rightarrow> net_state \<Rightarrow> bool" where
  listen_client: "acceptor s = Await \<Longrightarrow> listening s \<Longrightarrow> 0 \<le> f \<Longrightarrow> f \<notin> fds s \<Longrightarrow>
    listen_step s (s\<lparr>acceptor := Connected f, fds := insert f (fds s)\<rparr>)"
| listen_fails: "acceptor s = Await \<Longrightarrow> listen_step s (s\<lparr>acceptor := Returned\<rparr>)"
| listen_register: "acceptor s = Connected f \<Longrightarrow>
    listen_step s (s\<lparr>acceptor := Registered f 0, clients_list := insert f (clients_list s)\<rparr>)"
| listen_here: "acceptor s = Registered f n \<Longrightarrow> max_connections s = 1 \<Longrightarrow>
    listen_step s (s\<lparr>acceptor := Inline (length (handlers s)), handlers := handlers s @ [(f, Serving)]\<rparr>)"
| listen_thread: "acceptor s = Registered f n \<Longrightarrow> max_connections s \<noteq> 1 \<Longrightarrow>
    listen_step s (s\<lparr>acceptor := Await, handlers := handlers s @ [(f, Serving)]\<rparr>)"
| listen_served: "acceptor s = Inline i \<Longrightarrow> i < length (handlers s) \<Longrightarrow> snd (handlers s ! i) = Handled \<Longrightarrow>
    listen_step s (s\<lparr>acceptor := Await\<rparr>)"

text \<open>
  \<open>Stop\<close>, also called by the destructor.  It shuts the sockets of the clients down, which closes none of them, and so does
  the accepting thread when it ends.
\<close>

inductive halt_step :: "net_state \<Rightarrow> net_state \<Rightarrow> bool" where
  halt_call: "owner s = Up \<Longrightarrow> c \<noteq> Socket_destructor \<Longrightarrow> halt_step s (s\<lparr>owner := Shutting_down c\<rparr>)"
| halt_shut_down: "owner s = Shutting_down c \<Longrightarrow> halt_step s (s\<lparr>owner := Awaiting c, listening := False\<rparr>)"
| halt_join: "owner s = Awaiting c \<Longrightarrow> acceptor s = Returned \<Longrightarrow>
    halt_step s (s\<lparr>owner := if c = User then Down else Destroyed\<rparr>)"
| halt_destroy: "owner s = Down \<Longrightarrow> halt_step s (s\<lparr>owner := Destroyed\<rparr>)"

inductive old_reachable :: "int \<Rightarrow> nat \<Rightarrow> net_state \<Rightarrow> bool" for l n where
  old_start: "0 \<le> l \<Longrightarrow> old_reachable l n (net_start l n)"
| old_listen: "old_reachable l n s \<Longrightarrow> listen_step s s' \<Longrightarrow> old_reachable l n s'"
| old_handler: "old_reachable l n s \<Longrightarrow> handler_step s s' \<Longrightarrow> old_reachable l n s'"
| old_halt: "old_reachable l n s \<Longrightarrow> halt_step s s' \<Longrightarrow> old_reachable l n s'"
| old_others: "old_reachable l n s \<Longrightarrow> others_step s s' \<Longrightarrow> old_reachable l n s'"

inductive_cases handler_stepE: "handler_step s s'"
inductive_cases others_stepE: "others_step s s'"
inductive_cases accept_stepE: "accept_step s s'"
inductive_cases owner_stepE: "owner_step s s'"
inductive_cases listen_stepE: "listen_step s s'"
inductive_cases halt_stepE: "halt_step s s'"

section \<open>Whose descriptors are whose\<close>

text \<open>The sockets that the set should hold, and those that some thread has still to close.\<close>

definition listed :: "net_state \<Rightarrow> int list" where
  "listed s = (case acceptor s of Registered f n \<Rightarrow> [f] | _ \<Rightarrow> []) @ fds_at {Serving, Unlisting} (handlers s)"

definition held :: "net_state \<Rightarrow> int list" where
  "held s = (case acceptor s of Connected f \<Rightarrow> [f] | Rejecting f \<Rightarrow> [f] | Registering f n \<Rightarrow> [f] | Registered f n \<Rightarrow> [f] | _ \<Rightarrow> []) @
     fds_at {Serving, Unlisting, Hanging_up} (handlers s)"

definition tidy :: "net_state \<Rightarrow> bool" where
  "tidy s \<longleftrightarrow> distinct (held s) \<and> clients_list s = set (listed s) \<and> set (held s) \<union> others s \<union> {sockfd s} \<subseteq> fds s \<and>
     set (held s) \<inter> others s = {} \<and> sockfd s \<notin> set (held s) \<union> others s"

lemma tidy_start: "tidy (net_start l n)"
  by (simp add: tidy_def held_def listed_def net_start_def)

lemma tidy_distinct:
  assumes "tidy s"
  shows "distinct (fds_at {Serving, Unlisting, Hanging_up} (handlers s))" "distinct (fds_at {Serving, Unlisting} (handlers s))"
  using assms fds_at_distinct_mono [of "{Serving, Unlisting}" "{Serving, Unlisting, Hanging_up}" "handlers s"]
  by (auto simp: tidy_def held_def)

lemma tidy_handler: "handler_step s s' \<Longrightarrow> tidy s \<Longrightarrow> tidy s'"
proof (induction rule: handler_step.induct)
  case (unlist i s f)
  have h: "f \<in> set (fds_at {Serving, Unlisting, Hanging_up} (handlers s))" using fds_at_mem [OF unlist(1,2)] by simp
  then have a: "f \<notin> set (case acceptor s of Registered f n \<Rightarrow> [f] | _ \<Rightarrow> [])"
    using unlist(5) by (cases "acceptor s") (auto simp: tidy_def held_def)
  have d: "set (fds_at {Serving, Unlisting} ((handlers s)[i := (f, Hanging_up)])) = set (fds_at {Serving, Unlisting} (handlers s)) - {f}"
    using fds_at_leave_distinct [OF unlist(1,2), of "{Serving, Unlisting}" Hanging_up] tidy_distinct [OF unlist(5)] by simp
  show ?case using unlist a d by (auto simp: tidy_def held_def listed_def fds_at_stay)
next
  case (close_client i s f)
  let ?P = "{Serving, Unlisting, Hanging_up}"
  have d: "f \<in> set (fds_at ?P (handlers s))" "distinct (fds_at ?P ((handlers s)[i := (f, Reporting)]))"
    "set (fds_at ?P ((handlers s)[i := (f, Reporting)])) = set (fds_at ?P (handlers s)) - {f}"
    using fds_at_leave_distinct [OF close_client(1,2), of ?P Reporting] tidy_distinct [OF close_client(3)] by simp_all
  show ?case using close_client d by (auto simp: tidy_def held_def listed_def fds_at_stay)
qed (auto simp: tidy_def held_def listed_def fds_at_stay)

lemma tidy_others: "others_step s s' \<Longrightarrow> tidy s \<Longrightarrow> tidy s'"
  by (erule others_stepE) (auto simp: tidy_def held_def listed_def)

lemma tidy_accept: "accept_step s s' \<Longrightarrow> tidy s \<Longrightarrow> tidy s'"
  by (erule accept_stepE) (auto simp: tidy_def held_def listed_def)

lemma tidy_listen: "listen_step s s' \<Longrightarrow> tidy s \<Longrightarrow> tidy s'"
  by (erule listen_stepE) (auto simp: tidy_def held_def listed_def)

lemma tidy_halt: "halt_step s s' \<Longrightarrow> tidy s \<Longrightarrow> tidy s'"
  by (erule halt_stepE) (auto simp: tidy_def held_def listed_def)

lemma listed_distinct: "distinct (held s) \<Longrightarrow> distinct (listed s)"
  using fds_at_distinct_mono [of "{Serving, Unlisting}" "{Serving, Unlisting, Hanging_up}" "handlers s"]
    fds_at_mono [of "{Serving, Unlisting}" "{Serving, Unlisting, Hanging_up}" "handlers s"]
  by (auto simp: held_def listed_def split: acceptor_pc.splits)

text \<open>What the other threads leave alone.\<close>

lemma steps_keep:
  "handler_step s s' \<Longrightarrow> owner s' = owner s \<and> sockfd s' = sockfd s \<and> max_connections s' = max_connections s \<and> acceptor s' = acceptor s"
  "others_step s s' \<Longrightarrow> owner s' = owner s \<and> sockfd s' = sockfd s \<and> max_connections s' = max_connections s \<and> acceptor s' = acceptor s"
  "accept_step s s' \<Longrightarrow> owner s' = owner s \<and> sockfd s' = sockfd s \<and> max_connections s' = max_connections s"
  "listen_step s s' \<Longrightarrow> owner s' = owner s \<and> sockfd s' = sockfd s \<and> max_connections s' = max_connections s"
  "owner_step s s' \<Longrightarrow> sockfd s' = sockfd s \<and> max_connections s' = max_connections s \<and> acceptor s' = acceptor s"
  "halt_step s s' \<Longrightarrow> sockfd s' = sockfd s \<and> max_connections s' = max_connections s \<and> acceptor s' = acceptor s"
  by (auto elim!: handler_stepE others_stepE accept_stepE listen_stepE owner_stepE halt_stepE)

lemma owner_leaves_up: "owner_step s s' \<Longrightarrow> owner s' \<noteq> Up"
  by (auto elim!: owner_stepE)

text \<open>
  As long as the class of server.cpp is not stopped, its set holds exactly the sockets of the clients that are served, and
  every connection that is open belongs to one thread.
\<close>

theorem class_tidy:
  assumes "class_reachable l n s" "owner s = Up"
  shows "distinct (held s) \<and> clients_list s = set (listed s) \<and> set (held s) \<union> others s \<union> {l} \<subseteq> fds s \<and>
    set (held s) \<inter> others s = {} \<and> l \<notin> set (held s) \<union> others s"
proof -
  have "(owner s = Up \<longrightarrow> tidy s) \<and> sockfd s = l" using assms(1)
  proof (induction rule: class_reachable.induct)
    case class_start
    then show ?case using tidy_start [of l n] by (simp add: net_start_def)
  qed (use tidy_accept tidy_handler tidy_others steps_keep owner_leaves_up in metis)+
  then show ?thesis using assms(2) unfolding tidy_def by blast
qed

text \<open>
  C13: the older server keeps this order in every state that it reaches while it serves and is stopped, until it is destroyed
  and afterwards, as far as what its threads do then is defined: it never closes a descriptor of other code, nor one
  twice, and its set holds the sockets of the clients that are served.  A thread of a client that is still
  there when the server has been destroyed and uses it is outside of the model; \<open>old_destroyed_in_use\<close> shows that there can be one.
\<close>

theorem old_tidy:
  assumes "old_reachable l n s"
  shows "distinct (held s) \<and> clients_list s = set (listed s) \<and> set (held s) \<union> others s \<union> {l} \<subseteq> fds s \<and>
    set (held s) \<inter> others s = {} \<and> l \<notin> set (held s) \<union> others s"
proof -
  have "tidy s \<and> sockfd s = l" using assms
  proof (induction rule: old_reachable.induct)
    case old_start
    then show ?case using tidy_start [of l n] by (simp add: net_start_def)
  qed (use tidy_listen tidy_handler tidy_others tidy_halt steps_keep in metis)+
  then show ?thesis unfolding tidy_def by blast
qed

text \<open>A server with a client.\<close>

definition served_state :: "int \<Rightarrow> nat \<Rightarrow> int \<Rightarrow> net_state" where
  "served_state l n f = (net_start l n)\<lparr>clients_list := {f}, fds := {l, f}, handlers := [(f, Serving)]\<rparr>"

lemma old_serves:
  assumes "0 \<le> l" "0 \<le> f" "f \<noteq> l" "n \<noteq> 1"
  shows "old_reachable l n (served_state l n f)"
proof -
  let ?s = "net_start l n"
  let ?a = "?s\<lparr>acceptor := Connected f, fds := insert f (fds ?s)\<rparr>"
  let ?b = "?a\<lparr>acceptor := Registered f 0, clients_list := insert f (clients_list ?a)\<rparr>"
  let ?c = "?b\<lparr>acceptor := Await, handlers := handlers ?b @ [(f, Serving)]\<rparr>"
  have "old_reachable l n ?s" by (rule old_start) (rule assms(1))
  then have "old_reachable l n ?a" by (rule old_listen) (rule listen_client, use assms in \<open>simp_all add: net_start_def\<close>)
  then have "old_reachable l n ?b" by (rule old_listen) (rule listen_register, simp)
  then have "old_reachable l n ?c" by (rule old_listen) (rule listen_thread [of _ f 0], use assms(4) in \<open>simp_all add: net_start_def\<close>)
  moreover have "?c = served_state l n f" by (simp add: served_state_def net_start_def insert_commute)
  ultimately show ?thesis by simp
qed

text \<open>The server with a client whose thread is about to close the socket, and a descriptor of other code, while \<open>Stop\<close> waits.\<close>

definition stopping_state :: "int \<Rightarrow> nat \<Rightarrow> int \<Rightarrow> int \<Rightarrow> net_state" where
  "stopping_state l n f g = \<lparr>clients_list = {}, fds = {g, l, f}, others = {g}, handlers = [(f, Hanging_up)], acceptor = Await,
     sockfd = l, listening = False, max_connections = n, owner = Awaiting User\<rparr>"

lemma old_stops:
  assumes "0 \<le> l" "0 \<le> f" "f \<noteq> l" "n \<noteq> 1" "0 \<le> g" "g \<noteq> l" "g \<noteq> f"
  shows "old_reachable l n (stopping_state l n f g)"
proof -
  let ?s = "served_state l n f"
  let ?a = "?s\<lparr>fds := insert g (fds ?s), others := insert g (others ?s)\<rparr>"
  let ?b = "?a\<lparr>owner := Shutting_down User\<rparr>"
  let ?c = "?b\<lparr>owner := Awaiting User, listening := False\<rparr>"
  let ?d = "?c\<lparr>handlers := (handlers ?c)[0 := (f, Unlisting)]\<rparr>"
  let ?e = "?d\<lparr>clients_list := clients_list ?d - {f}, handlers := (handlers ?d)[0 := (f, Hanging_up)]\<rparr>"
  note run = served_state_def net_start_def mutex_free_def alive_def
  have "old_reachable l n ?s" by (rule old_serves [OF assms(1-4)])
  then have "old_reachable l n ?a" by (rule old_others) (rule others_open, use assms in \<open>simp_all add: run\<close>)
  then have "old_reachable l n ?b" by (rule old_halt) (rule halt_call, simp_all add: run)
  then have "old_reachable l n ?c" by (rule old_halt) (rule halt_shut_down, simp)
  then have "old_reachable l n ?d" by (rule old_handler) (rule hang_up, simp_all add: run)
  then have "old_reachable l n ?e" by (rule old_handler) (rule unlist, simp_all add: run)
  moreover have "?e = stopping_state l n f g" by (simp add: stopping_state_def run)
  ultimately show ?thesis by simp
qed

theorem old_tidy_witness:
  "held (stopping_state 3 4 5 7) = [5] \<and> set (held (stopping_state 3 4 5 7)) \<inter> others (stopping_state 3 4 5 7) = {} \<and>
   clients_list (stopping_state 3 4 5 7) = set (listed (stopping_state 3 4 5 7))"
proof -
  have "old_reachable 3 4 (stopping_state 3 4 5 7)" by (rule old_stops) simp_all
  from old_tidy [OF this] show ?thesis by (simp add: held_def stopping_state_def)
qed

section \<open>How many clients\<close>

text \<open>At most one client in the set while the accepting thread accepts; at most one more while it serves.\<close>

definition few :: "net_state \<Rightarrow> bool" where
  "few s \<longleftrightarrow> finite (clients_list s) \<and> (case acceptor s of
       Registering f n \<Rightarrow> card (clients_list s) \<le> n \<and> n \<le> 1 \<and> n < max_connections s
     | Registered f n \<Rightarrow> card (clients_list s - {f}) \<le> n \<and> n \<le> 1 \<and> n < max_connections s
     | Inline i \<Rightarrow> i < length (handlers s) \<and> card (clients_list s - {fst (handlers s ! i)}) \<le> 1 \<and> 1 < max_connections s \<and>
         (snd (handlers s ! i) \<notin> {Serving, Unlisting} \<longrightarrow> card (clients_list s) \<le> 1)
     | _ \<Rightarrow> card (clients_list s) \<le> 1 \<and> card (clients_list s) \<le> max_connections s)"

lemma card_less_other: "finite A \<Longrightarrow> card (A - {f}) \<le> card A"
  by (rule card_mono) auto

lemma card_le_Suc_other: "finite A \<Longrightarrow> card A \<le> Suc (card (A - {f}))"
  by (metis card_Diff_singleton_if diff_Suc_1 le_SucI le_diff_conv order_refl plus_1_eq_Suc add.commute)

lemma few_accept: "accept_step s s' \<Longrightarrow> few s \<Longrightarrow> few s'"
proof (induction rule: accept_step.induct)
  case (register s f n)
  then show ?case using card_less_other [of "clients_list s" f] by (auto simp: few_def)
next
  case (serve_thread s f n)
  then show ?case using card_le_Suc_other [of "clients_list s" f] by (auto simp: few_def)
next
  case (serve_here s f n)
  then show ?case by (auto simp: few_def)
qed (auto simp: few_def)

lemma few_handler: "handler_step s s' \<Longrightarrow> few s \<Longrightarrow> few s'"
proof (induction rule: handler_step.induct)
  case (unlist i s f)
  have c: "card (clients_list s - {f} - {g}) \<le> card (clients_list s - {g})" "card (clients_list s - {f}) \<le> card (clients_list s)" for g
    using unlist(5) by (auto simp: few_def intro!: card_mono)
  have m: "card (clients_list s - {f} - {g}) \<le> k" if "card (clients_list s - {g}) \<le> k" for g k using c(1) that by (rule order_trans)
  have k: "card (clients_list s - {f}) \<le> k" if "card (clients_list s) \<le> k" for k using c(2) that by (rule order_trans)
  show ?case using unlist m k by (cases "acceptor s") (auto simp: few_def nth_list_update split: if_splits)
qed (auto simp: few_def nth_list_update split: acceptor_pc.splits if_splits)

lemma few_owner: "owner_step s s' \<Longrightarrow> few s \<Longrightarrow> few s'"
  by (erule owner_stepE) (auto simp: few_def split: acceptor_pc.splits)

lemma few_others: "others_step s s' \<Longrightarrow> few s \<Longrightarrow> few s'"
  by (erule others_stepE) (auto simp: few_def split: acceptor_pc.splits)

text \<open>
  C12: the set of the class of server.cpp never has more than two clients, whatever limit the server was given, and never more
  than the limit; when there are two, one of them is with the accepting thread, which serves it itself, and nobody is
  accepted.  As long as the server has not been stopped or destroyed, the same holds for the clients that are served: each has its own
  entry of the set, from when it is registered until its thread has taken it out.  After a stop, which closes the sockets under
  the threads, a number can come back while its first thread is still there, and the set no longer counts the threads.
\<close>

theorem class_two_clients:
  assumes "class_reachable l n s"
  shows "finite (clients_list s) \<and> card (clients_list s) \<le> min 2 n \<and>
    (card (clients_list s) = 2 \<longrightarrow> (\<exists>f k. acceptor s = Registered f k) \<or> (\<exists>i. acceptor s = Inline i)) \<and>
    (owner s = Up \<longrightarrow> set (listed s) = clients_list s \<and> length (listed s) \<le> min 2 n)"
proof -
  have "few s \<and> max_connections s = n" using assms
  proof (induction rule: class_reachable.induct)
    case class_start
    then show ?case by (simp add: few_def net_start_def)
  qed (use few_accept few_handler few_owner few_others steps_keep in metis)+
  then have f: "few s" "max_connections s = n" by auto
  have c: "card (clients_list s) \<le> Suc k" if "card (clients_list s - {g}) \<le> k" for g k
    using that card_le_Suc_other [of "clients_list s" g] f(1) unfolding few_def by linarith
  have set: "finite (clients_list s) \<and> card (clients_list s) \<le> min 2 n \<and>
    (card (clients_list s) = 2 \<longrightarrow> (\<exists>f k. acceptor s = Registered f k) \<or> (\<exists>i. acceptor s = Inline i))"
  proof (cases "acceptor s")
    case (Registered g k)
    then show ?thesis using f c [of g k] by (auto simp: few_def min_def)
  next
    case (Inline i)
    then show ?thesis using f c [of "fst (handlers s ! i)" 1] by (auto simp: few_def min_def)
  qed (use f in \<open>auto simp: few_def min_def\<close>)
  moreover have "set (listed s) = clients_list s \<and> length (listed s) \<le> min 2 n" if "owner s = Up"
  proof -
    have t: "distinct (held s)" "clients_list s = set (listed s)" using class_tidy [OF assms that] by blast+
    then have "length (listed s) = card (clients_list s)" using listed_distinct by (simp add: distinct_card)
    then show ?thesis using set t(2) by simp
  qed
  ultimately show ?thesis by blast
qed

lemma class_serves:
  assumes "0 \<le> l" "0 \<le> f" "f \<noteq> l" "0 < n"
  shows "class_reachable l n (served_state l n f)"
proof -
  let ?s = "net_start l n"
  let ?a = "?s\<lparr>acceptor := Connected f, fds := insert f (fds ?s)\<rparr>"
  let ?b = "?a\<lparr>acceptor := Registering f (card (clients_list ?a))\<rparr>"
  let ?c = "?b\<lparr>acceptor := Registered f 0, clients_list := insert f (clients_list ?b)\<rparr>"
  let ?d = "?c\<lparr>acceptor := Await, handlers := handlers ?c @ [(f, Serving)]\<rparr>"
  have "class_reachable l n ?s" by (rule class_start) (rule assms(1))
  then have "class_reachable l n ?a" by (rule class_accept) (rule accept_client, use assms in \<open>simp_all add: net_start_def\<close>)
  then have "class_reachable l n ?b"
    by (rule class_accept) (rule count_free, use assms in \<open>simp_all add: net_start_def mutex_free_def\<close>)
  then have "class_reachable l n ?c" by (rule class_accept) (rule register, simp_all add: net_start_def mutex_free_def)
  then have "class_reachable l n ?d" by (rule class_accept) (rule serve_thread [of _ f 0], simp_all)
  moreover have "?d = served_state l n f" by (simp add: served_state_def net_start_def insert_commute)
  ultimately show ?thesis by simp
qed

text \<open>The server with a second client, which the accepting thread serves.\<close>

definition two_served :: "int \<Rightarrow> nat \<Rightarrow> int \<Rightarrow> int \<Rightarrow> net_state" where
  "two_served l n f g = (net_start l n)\<lparr>clients_list := {g, f}, fds := {g, l, f}, handlers := [(f, Serving), (g, Serving)], acceptor := Inline 1\<rparr>"

lemma class_serves_two:
  assumes "0 \<le> l" "0 \<le> f" "f \<noteq> l" "1 < n" "0 \<le> g" "g \<noteq> l" "g \<noteq> f"
  shows "class_reachable l n (two_served l n f g)"
proof -
  let ?s = "served_state l n f"
  let ?a = "?s\<lparr>acceptor := Connected g, fds := insert g (fds ?s)\<rparr>"
  let ?b = "?a\<lparr>acceptor := Registering g (card (clients_list ?a))\<rparr>"
  let ?c = "?b\<lparr>acceptor := Registered g 1, clients_list := insert g (clients_list ?b)\<rparr>"
  let ?d = "?b\<lparr>acceptor := Registered g 1, clients_list := insert g (clients_list ?b), acceptor := Inline (length (handlers ?c)),
    handlers := handlers ?c @ [(g, Serving)]\<rparr>"
  note run = served_state_def net_start_def mutex_free_def
  have "class_reachable l n ?s" by (rule class_serves) (use assms in simp_all)
  then have "class_reachable l n ?a" by (rule class_accept) (rule accept_client, use assms in \<open>simp_all add: run\<close>)
  then have "class_reachable l n ?b" by (rule class_accept) (rule count_free, use assms in \<open>simp_all add: run\<close>)
  then have c: "class_reachable l n ?c" by (rule class_accept) (rule register, simp_all add: run)
  have "accept_step ?c (?c\<lparr>acceptor := Inline (length (handlers ?c)), handlers := handlers ?c @ [(g, Serving)]\<rparr>)"
    by (rule serve_here [of _ g 1]) simp_all
  from class_accept [OF c this] show ?thesis by (simp add: two_served_def run)
qed

theorem class_two_clients_witness:
  "card (clients_list (two_served 3 32 5 7)) = 2 \<and> length (listed (two_served 3 32 5 7)) = 2 \<and> acceptor (two_served 3 32 5 7) = Inline 1 \<and>
   length (listed (two_served 3 32 5 7)) \<le> min 2 32"
proof -
  have "class_reachable 3 32 (two_served 3 32 5 7)" by (rule class_serves_two) simp_all
  from class_two_clients [OF this] show ?thesis by (simp add: two_served_def net_start_def listed_def)
qed

text \<open>The older server has no limit: with any limit but one it serves as many clients as come.\<close>

lemma finite_fds: "old_reachable l n s \<Longrightarrow> finite (fds s)"
  by (induction rule: old_reachable.induct)
    (auto simp: net_start_def elim!: handler_stepE others_stepE listen_stepE halt_stepE)

theorem old_no_limit:
  assumes "0 \<le> l" "n \<noteq> 1"
  shows "\<exists>s. old_reachable l n s \<and> acceptor s = Await \<and> card (clients_list s) = k"
proof -
  have "\<exists>s. old_reachable l n s \<and> acceptor s = Await \<and> listening s \<and> max_connections s = n \<and>
      finite (clients_list s) \<and> card (clients_list s) = k"
  proof (induction k)
    case 0
    show ?case by (rule exI [of _ "net_start l n"]) (use old_start [OF assms(1)] in \<open>simp add: net_start_def\<close>)
  next
    case (Suc k)
    then obtain s where s: "old_reachable l n s" "acceptor s = Await" "listening s" "max_connections s = n"
      "finite (clients_list s)" "card (clients_list s) = k" by blast
    obtain f where f: "0 \<le> f" "f \<notin> fds s"
    proof
      have "finite (insert 0 (fds s))" using finite_fds [OF s(1)] by simp
      note m = Max_ge [OF this]
      show "0 \<le> Max (insert 0 (fds s)) + 1" using m [of 0] by simp
      show "Max (insert 0 (fds s)) + 1 \<notin> fds s" using m [of "Max (insert 0 (fds s)) + 1"] by auto
    qed
    have "set (listed s) \<subseteq> set (held s)"
      using fds_at_mono [of "{Serving, Unlisting}" "{Serving, Unlisting, Hanging_up}" "handlers s"] by (simp add: listed_def held_def s(2))
    then have "clients_list s \<subseteq> fds s" using old_tidy [OF s(1)] by blast
    then have t: "f \<notin> clients_list s" using f(2) by blast
    let ?a = "s\<lparr>acceptor := Connected f, fds := insert f (fds s)\<rparr>"
    let ?b = "?a\<lparr>acceptor := Registered f 0, clients_list := insert f (clients_list ?a)\<rparr>"
    let ?c = "?b\<lparr>acceptor := Await, handlers := handlers ?b @ [(f, Serving)]\<rparr>"
    have "old_reachable l n ?a" using s(1) by (rule old_listen) (rule listen_client [OF s(2,3) f])
    then have "old_reachable l n ?b" by (rule old_listen) (rule listen_register, simp)
    then have "old_reachable l n ?c" by (rule old_listen) (rule listen_thread [of _ f 0], use s(4) assms(2) in simp_all)
    then show ?case using s f t by (intro exI [of _ ?c]) auto
  qed
  then show ?thesis by blast
qed

section \<open>Stopping\<close>

text \<open>
  Both servers leave the listening socket open for ever: \<open>Stop\<close> only shuts it down, although the comment says that it is closed.
\<close>

theorem class_listener_leaks:
  assumes "class_reachable l n s"
  shows "l \<in> fds s"
proof -
  have "sockfd s = l \<and> l \<in> fds s \<and> l \<notin> clients_list s \<and> l \<notin> set (map fst (handlers s)) \<and>
      (\<forall>f k. acceptor s \<in> {Connected f, Rejecting f, Registering f k, Registered f k} \<longrightarrow> f \<noteq> l) \<and>
      (\<forall>c xs. owner s = Closing_clients c xs \<longrightarrow> l \<notin> xs)" using assms
  proof (induction rule: class_reachable.induct)
    case class_start
    then show ?case by (simp add: net_start_def)
  next
    case (class_accept s s')
    show ?case using class_accept(2,3) by (elim accept_stepE) auto
  next
    case (class_handler s s')
    have "map fst (handlers s') = map fst (handlers s) \<and> acceptor s' = acceptor s \<and> owner s' = owner s \<and> sockfd s' = sockfd s \<and>
      clients_list s' \<subseteq> clients_list s" using class_handler(2) by (elim handler_stepE) (auto simp: map_fst_update)
    moreover have "l \<in> fds s'"
      using class_handler(2,3) by (elim handler_stepE) (auto dest: fst_at_mem)
    ultimately show ?case using class_handler(3) by (metis subsetD)
  next
    case (class_owner s s')
    show ?case using class_owner(2,3) by (elim owner_stepE) auto
  next
    case (class_others s s')
    show ?case using class_others(2,3) by (elim others_stepE) auto
  qed
  then show ?thesis by blast
qed

text \<open>
  Stopping the class of server.cpp closes the sockets of the clients, whose threads close them again: a descriptor that other
  code has opened in between is gone.  And neither server waits for the threads of its clients: one may go on after the
  server has been destroyed.
\<close>

theorem class_stop_closes_others:
  assumes "0 \<le> l" "0 \<le> f" "f \<noteq> l" "0 < n"
  shows "\<exists>s. class_reachable l n s \<and> f \<in> others s \<and> f \<notin> fds s"
proof -
  let ?s = "served_state l n f"
  let ?a = "?s\<lparr>handlers := (handlers ?s)[0 := (f, Unlisting)]\<rparr>"
  let ?b = "?a\<lparr>owner := Closing_clients User (clients_list ?a)\<rparr>"
  let ?c = "?b\<lparr>owner := Closing_clients User ({f} - {f}), fds := fds ?b - {f}\<rparr>"
  let ?d = "?c\<lparr>fds := insert f (fds ?c), others := insert f (others ?c)\<rparr>"
  let ?e = "?d\<lparr>owner := Shutting_down User\<rparr>"
  let ?f = "?e\<lparr>clients_list := clients_list ?e - {f}, handlers := (handlers ?e)[0 := (f, Hanging_up)]\<rparr>"
  let ?g = "?f\<lparr>fds := fds ?f - {f}, handlers := (handlers ?f)[0 := (f, Reporting)]\<rparr>"
  note run = served_state_def net_start_def mutex_free_def alive_def
  have "class_reachable l n ?s" by (rule class_serves [OF assms])
  then have "class_reachable l n ?a" by (rule class_handler) (rule hang_up, simp_all add: run)
  then have "class_reachable l n ?b" by (rule class_owner) (rule call_stop, simp add: run)
  then have "class_reachable l n ?c" by (rule class_owner) (rule close_one [of _ User "{f}" f], simp_all add: run)
  then have "class_reachable l n ?d" by (rule class_others) (rule others_open, use assms in \<open>simp_all add: run\<close>)
  then have "class_reachable l n ?e" by (rule class_owner) (rule closed_all, simp)
  then have "class_reachable l n ?f" by (rule class_handler) (rule unlist, simp_all add: run)
  then have "class_reachable l n ?g" by (rule class_handler) (rule close_client, simp_all add: run)
  then show ?thesis using assms by (intro exI [of _ ?g]) (simp add: run)
qed

theorem class_destroyed_in_use:
  assumes "0 \<le> l" "0 \<le> f" "f \<noteq> l" "0 < n"
  shows "\<exists>s. class_reachable l n s \<and> owner s = Destroyed \<and> handlers s = [(f, Serving)]"
proof -
  note run = served_state_def net_start_def mutex_free_def
  let ?s = "served_state l n f"
  let ?r = "?s\<lparr>acceptor := Returned\<rparr>"
  let ?fin = "\<lambda>c s. s\<lparr>fds := {l}, owner := Awaiting c, listening := False\<rparr>"
  have round: "class_reachable l n (?fin c s)"
    if "class_reachable l n (s\<lparr>owner := Closing_clients c {f}\<rparr>)" "fds s - {f} = {l}" for c s
  proof -
    let ?a = "s\<lparr>owner := Closing_clients c ({f} - {f}), fds := fds s - {f}\<rparr>"
    let ?b = "?a\<lparr>owner := Shutting_down c\<rparr>"
    have "class_reachable l n ?a" using class_owner [OF that(1) close_one [of _ c "{f}" f]] by simp
    then have "class_reachable l n ?b" by (rule class_owner) (rule closed_all, simp)
    from class_owner [OF this shut_down [of _ c]] show ?thesis using that(2) by simp
  qed
  have "class_reachable l n ?s" by (rule class_serves [OF assms])
  then have r: "class_reachable l n ?r" by (rule class_accept) (rule accept_fails, simp add: run)
  have "class_reachable l n (?fin Destructor ?r)"
    using class_owner [OF r call_destructor] assms by (intro round) (auto simp: run)
  from class_owner [OF this join_destructor] assms have "class_reachable l n (?fin Socket_destructor (?fin Destructor ?r))"
    by (intro round) (auto simp: run)
  from class_owner [OF this join_last] show ?thesis
    by (intro exI [of _ "?fin Socket_destructor (?fin Destructor ?r)\<lparr>owner := Destroyed\<rparr>"]) (simp add: run)
qed

text \<open>
  The older server neither: a client may be served when the server is gone.  With a limit of one, the client is served by
  the thread that \<open>Stop\<close> waits for, and nothing is left.
\<close>

theorem old_destroyed_in_use:
  assumes "0 \<le> l" "0 \<le> f" "f \<noteq> l" "n \<noteq> 1"
  shows "\<exists>s. old_reachable l n s \<and> owner s = Destroyed \<and> handlers s = [(f, Serving)]"
proof -
  let ?s = "served_state l n f"
  let ?a = "?s\<lparr>acceptor := Returned\<rparr>"
  let ?b = "?a\<lparr>owner := Shutting_down Destructor\<rparr>"
  let ?c = "?b\<lparr>owner := Awaiting Destructor, listening := False\<rparr>"
  let ?d = "?c\<lparr>owner := Destroyed\<rparr>"
  note run = served_state_def net_start_def
  have "old_reachable l n ?s" by (rule old_serves [OF assms])
  then have "old_reachable l n ?a" by (rule old_listen) (rule listen_fails, simp add: run)
  then have "old_reachable l n ?b" by (rule old_halt) (rule halt_call, simp_all add: run)
  then have "old_reachable l n ?c" by (rule old_halt) (rule halt_shut_down, simp)
  from old_halt [OF this halt_join [of _ Destructor]] show ?thesis
    by (intro exI [of _ ?d]) (simp add: run)
qed

definition active :: "(int \<times> handler_pc) list \<Rightarrow> nat set" where
  "active hs = {j. j < length hs \<and> snd (hs ! j) \<noteq> Handled}"

lemma active_append: "active (hs @ [(f, Serving)]) = insert (length hs) (active hs)"
  by (auto simp: active_def nth_append less_Suc_eq)

lemma active_update: "i < length hs \<Longrightarrow> hs ! i = (f, pc) \<Longrightarrow> pc \<noteq> Handled \<Longrightarrow> active (hs[i := (f, pc')]) \<subseteq> active hs"
  by (auto simp: active_def nth_list_update split: if_splits)

lemma active_handler: "handler_step s s' \<Longrightarrow> active (handlers s') \<subseteq> active (handlers s)"
  by (induction rule: handler_step.induct) (simp_all add: active_update)

definition alone :: "net_state \<Rightarrow> bool" where
  "alone s \<longleftrightarrow> active (handlers s) \<subseteq> (case acceptor s of Inline i \<Rightarrow> {i} | _ \<Rightarrow> {}) \<and>
     (owner s = Down \<or> owner s = Destroyed \<longrightarrow> acceptor s = Returned)"

lemma alone_listen: "listen_step s s' \<Longrightarrow> max_connections s = 1 \<Longrightarrow> alone s \<Longrightarrow> alone s'"
proof (induction rule: listen_step.induct)
  case (listen_served s i)
  then have "i \<notin> active (handlers s)" by (simp add: active_def)
  then show ?case using listen_served by (auto simp: alone_def)
qed (auto simp: alone_def active_append)

lemma alone_handler: "handler_step s s' \<Longrightarrow> alone s \<Longrightarrow> alone s'"
  using active_handler [of s s'] steps_keep(1) [of s s'] by (auto simp: alone_def)

lemma alone_halt: "halt_step s s' \<Longrightarrow> alone s \<Longrightarrow> alone s'"
  by (induction rule: halt_step.induct) (auto simp: alone_def)

lemma alone_others: "others_step s s' \<Longrightarrow> alone s \<Longrightarrow> alone s'"
  by (induction rule: others_step.induct) (auto simp: alone_def)

theorem old_single_client:
  assumes "old_reachable l 1 s"
  shows "card (clients_list s) \<le> 1 \<and> (owner s = Down \<or> owner s = Destroyed \<longrightarrow> snd ` set (handlers s) \<subseteq> {Handled})"
proof -
  have a: "alone s \<and> max_connections s = 1" using assms
  proof (induction rule: old_reachable.induct)
    case old_start
    then show ?case by (simp add: alone_def net_start_def active_def)
  qed (use alone_listen alone_handler alone_halt alone_others steps_keep in metis)+
  have h: "j \<in> active (handlers s)" if "j < length (handlers s)" "snd (handlers s ! j) \<noteq> Handled" for j
    using that by (simp add: active_def)
  have e: "snd ` set (handlers s) \<subseteq> {Handled}" if "active (handlers s) = {}"
    using h that by (fastforce simp: in_set_conv_nth)
  have "fds_at {Serving, Unlisting} (handlers s) = []" if "active (handlers s) = {}"
    using e [OF that] by (force simp: fds_at_def filter_empty_conv)
  then have n: "set (listed s) \<subseteq> (case acceptor s of Registered f k \<Rightarrow> {f} | _ \<Rightarrow> {})" if "active (handlers s) = {}"
    using that by (simp add: listed_def split: acceptor_pc.splits)
  have "\<exists>f. set (listed s) \<subseteq> {f}"
  proof (cases "\<exists>i. acceptor s = Inline i")
    case True
    then obtain i where i: "acceptor s = Inline i" by blast
    have "fst c = fst (handlers s ! i)" if c: "c \<in> set (handlers s)" "snd c \<noteq> Handled" for c
    proof -
      obtain j where j: "j < length (handlers s)" "handlers s ! j = c" using c(1) by (auto simp: in_set_conv_nth)
      then have "j \<in> active (handlers s)" using h [of j] c(2) by simp
      then have "j = i" using a i by (auto simp: alone_def)
      then show ?thesis using j by simp
    qed
    then show ?thesis using i by (intro exI [of _ "fst (handlers s ! i)"]) (auto simp: listed_def fds_at_def)
  next
    case False
    then have "active (handlers s) = {}" using a by (auto simp: alone_def split: acceptor_pc.splits)
    from n [OF this] show ?thesis by (cases "acceptor s") auto
  qed
  then obtain f where "clients_list s \<subseteq> {f}" using old_tidy [OF assms] by auto
  then have "card (clients_list s) \<le> card {f}" by (intro card_mono) auto
  moreover have "active (handlers s) = {}" if "owner s = Down \<or> owner s = Destroyed" using a that by (auto simp: alone_def)
  ultimately show ?thesis using e by auto
qed

section \<open>Starting\<close>

datatype protocol = TCP | UDP

datatype net_error = Open_error | Bind_error | Listen_error | Address_error | Connect_error | Send_error | Read_error

text \<open>The socket object of server.cpp, with the descriptors that it has closed and shut down; the parameters are what
  \<open>socket\<close>, \<open>bind\<close> and \<open>listen\<close> return.\<close>

record class_socket =
  cs_sockfd :: int
  cs_thread :: bool
  cs_closed :: "int list"
  cs_shut :: "int list"

definition class_Start :: "protocol \<Rightarrow> int \<Rightarrow> int \<Rightarrow> int \<Rightarrow> class_socket \<Rightarrow> net_error option \<times> class_socket" where
  "class_Start protocol sock bnd lst s =
     (let s = s\<lparr>cs_sockfd := sock\<rparr> in
      if cs_sockfd s < 0 then (Some Open_error, s)
      else if bnd < 0 then (Some Bind_error, s\<lparr>cs_closed := cs_closed s @ [cs_sockfd s]\<rparr>)
      else if protocol = TCP \<and> lst \<noteq> 0 then (Some Listen_error, s\<lparr>cs_closed := cs_closed s @ [cs_sockfd s]\<rparr>)
      else (None, s\<lparr>cs_thread := True\<rparr>))"

text \<open>\<open>ServerSocket::Stop\<close> after the clients.\<close>

definition class_Stop :: "class_socket \<Rightarrow> class_socket" where
  "class_Stop s =
     (let s = (if 0 \<le> cs_sockfd s then s\<lparr>cs_shut := cs_shut s @ [cs_sockfd s], cs_sockfd := - 1\<rparr> else s)
      in s\<lparr>cs_thread := False\<rparr>)"

text \<open>After a failed start the variable keeps the number that was closed, and \<open>Stop\<close> shuts down what has this number by then.\<close>

lemma class_start_failed:
  assumes "class_Start protocol sock bnd lst s = (Some e, s')" "e \<noteq> Open_error"
  shows "sock \<in> set (cs_closed s') \<and> cs_shut (class_Stop s') = cs_shut s' @ [sock]"
  using assms by (auto simp: class_Start_def class_Stop_def Let_def split: if_splits)

lemma class_stop_twice: "class_Stop (class_Stop s) = class_Stop s"
  by (simp add: class_Stop_def Let_def)

text \<open>The older server, where \<open>None\<close> for \<open>Stop\<close> is the exception that joining a thread that was never started throws.\<close>

record old_socket =
  os_sockfd :: "int option"
  os_thread :: bool
  os_shut :: "int list"

definition EALREADY :: int where "EALREADY = 114"

definition old_close_socket :: "old_socket \<Rightarrow> old_socket" where
  "old_close_socket s = (case os_sockfd s of None \<Rightarrow> s | Some f \<Rightarrow> s\<lparr>os_shut := os_shut s @ [f]\<rparr>)"

definition old_Start :: "protocol \<Rightarrow> int \<Rightarrow> int \<Rightarrow> int \<Rightarrow> int \<Rightarrow> old_socket \<Rightarrow> int \<times> old_socket" where
  "old_Start protocol sock bnd lst errno s =
     (if os_sockfd s \<noteq> None then (EALREADY, s)
      else let s = s\<lparr>os_sockfd := Some sock\<rparr> in
        if sock < 0 then (errno, s\<lparr>os_sockfd := None\<rparr>)
        else if bnd < 0 then (errno, old_close_socket s)
        else if protocol = TCP \<and> lst \<noteq> 0 then (errno, s)
        else (0, s\<lparr>os_thread := True\<rparr>))"

definition old_Stop :: "old_socket \<Rightarrow> (int \<times> old_socket) option" where
  "old_Stop s =
     (if os_sockfd s = None then Some (0, s)
      else let s = old_close_socket s in
        if \<not> os_thread s then None
        else Some (0, s\<lparr>os_sockfd := None, os_thread := False\<rparr>))"

text \<open>A server that could open its socket and then failed to bind it or to listen can neither be started again nor stopped.\<close>

lemma old_start_stuck:
  assumes "os_sockfd s = None" "\<not> os_thread s" "0 \<le> sock" "bnd < 0 \<or> protocol = TCP \<and> lst \<noteq> 0"
    "old_Start protocol sock bnd lst errno s = (r, s')"
  shows "old_Start protocol' sock' bnd' lst' errno' s' = (EALREADY, s') \<and> old_Stop s' = None"
  using assms by (auto simp: old_Start_def old_Stop_def old_close_socket_def Let_def split: if_splits)

lemma old_start_stop:
  "os_sockfd s = None \<Longrightarrow> 0 \<le> sock \<Longrightarrow> \<exists>s'. old_Start protocol sock 0 0 errno s = (0, s') \<and>
    old_Stop s' = Some (0, s\<lparr>os_thread := False, os_shut := os_shut s @ [sock]\<rparr>)"
  by (simp add: old_Start_def old_Stop_def old_close_socket_def Let_def)

section \<open>Datagrams\<close>

text \<open>The servers for datagrams: what \<open>recvfrom\<close> returns, an error or the data, gives the callbacks, and whether the thread ends.\<close>

datatype udp_event = On_connect | On_receive "u8 list" | On_disconnect

fun class_udp :: "u8 list option list \<Rightarrow> udp_event list \<times> bool" where
  "class_udp [] = ([], False)"
| "class_udp (None # as) = ([], True)"
| "class_udp (Some d # as) =
     (if d = [] then class_udp as
      else (case class_udp as of (es, b) \<Rightarrow> ([On_connect, On_receive d, On_disconnect] @ es, b)))"

fun old_udp :: "u8 list option list \<Rightarrow> udp_event list \<times> bool" where
  "old_udp [] = ([], False)"
| "old_udp (None # as) = ([On_disconnect], True)"
| "old_udp (Some d # as) =
     (if 0 < length d then (case old_udp as of (es, b) \<Rightarrow> ([On_connect, On_receive d] @ es, b))
      else ([On_disconnect], True))"

definition received :: "udp_event list \<Rightarrow> u8 list list" where
  "received es = concat (map (\<lambda>e. case e of On_receive d \<Rightarrow> [d] | _ \<Rightarrow> []) es)"

text \<open>
  The class delivers every datagram that is not empty and goes on; the older server delivers them up to the first empty one, which
  ends it: anybody can stop it with an empty datagram.
\<close>

theorem udp_delivered:
  "received (fst (class_udp (map Some ds))) = filter (\<lambda>d. d \<noteq> []) ds \<and> \<not> snd (class_udp (map Some ds)) \<and>
   received (fst (old_udp (map Some ds))) = takeWhile (\<lambda>d. d \<noteq> []) ds \<and> (snd (old_udp (map Some ds)) \<longleftrightarrow> [] \<in> set ds)"
  by (induction ds) (auto simp: received_def split: prod.split)

section \<open>Clients\<close>

text \<open>The client of server.cpp: the constructor with what \<open>socket\<close>, \<open>inet_pton\<close> and \<open>connect\<close> return, giving the error or the
  descriptor, and what it closed.\<close>

definition class_Client :: "int \<Rightarrow> int \<Rightarrow> int \<Rightarrow> (net_error + int) \<times> int list" where
  "class_Client sock pton conn =
     (if sock < 0 then (Inl Open_error, [])
      else if pton \<le> 0 then (Inl Address_error, [sock])
      else if conn < 0 then (Inl Connect_error, [sock])
      else (Inr sock, []))"

text \<open>\<open>Reply\<close> and \<open>Send\<close> with what \<open>write\<close> returns; the functions that read, with the data or the error of \<open>read\<close>.\<close>

definition class_Reply :: "int \<Rightarrow> u8 list \<Rightarrow> net_error + unit" where
  "class_Reply sent src = (if sent \<noteq> int (length src) then Inl Send_error else Inr ())"

definition class_Send :: "int \<Rightarrow> u8 list \<Rightarrow> net_error + unit" where
  "class_Send sent src = (if sent < 0 \<or> nat sent \<noteq> length src then Inl Send_error else Inr ())"

definition class_Read :: "u8 list option \<Rightarrow> u8 list \<Rightarrow> net_error + (nat \<times> u8 list)" where
  "class_Read ans dst = (case ans of None \<Rightarrow> Inl Read_error | Some d \<Rightarrow> Inr (length d, d @ drop (length d) dst))"

definition class_ReadString :: "u8 list option \<Rightarrow> nat \<Rightarrow> net_error + u8 list" where
  "class_ReadString ans max_size =
     (case class_Read ans (replicate max_size 0) of Inl e \<Rightarrow> Inl e | Inr (n, buffer) \<Rightarrow> Inr (take n buffer))"

definition class_Close :: "int \<times> int list \<Rightarrow> int \<times> int list" where
  "class_Close c = (case c of (f, closed) \<Rightarrow> if 0 \<le> f then (- 1, closed @ [f]) else c)"

lemma class_client_facts:
  "class_Reply sent src = class_Send sent src"
  "class_ReadString ans n = (case ans of None \<Rightarrow> Inl Read_error | Some d \<Rightarrow> Inr d)"
  "class_Close (class_Close c) = class_Close c"
  by (auto simp: class_Reply_def class_Send_def class_ReadString_def class_Read_def class_Close_def split: option.split prod.split)

text \<open>The client of server\_cpp.h.  \<open>Close\<close> closes nothing unless \<open>Connect\<close> has succeeded.\<close>

record old_client =
  oc_sockfd :: int
  close_required :: bool
  oc_closed :: "int list"

definition old_Close :: "old_client \<Rightarrow> old_client" where
  "old_Close c =
     (if close_required c \<and> 0 \<le> oc_sockfd c
      then c\<lparr>oc_sockfd := - 1, close_required := False, oc_closed := oc_closed c @ [oc_sockfd c]\<rparr> else c)"

definition old_Connect :: "int \<Rightarrow> int \<Rightarrow> int \<Rightarrow> int \<Rightarrow> old_client \<Rightarrow> int \<times> old_client" where
  "old_Connect sock pton conn errno c =
     (let c = c\<lparr>oc_sockfd := sock\<rparr> in
      if sock < 0 then (errno, c)
      else if pton \<le> 0 then (errno, old_Close c)
      else if conn < 0 then (errno, old_Close c)
      else (0, c\<lparr>close_required := True\<rparr>))"

definition old_Send :: "int \<Rightarrow> int \<Rightarrow> u8 list \<Rightarrow> int" where
  "old_Send written errno src = (if written = int (length src) then 0 else errno)"

definition old_Send_string :: "int \<Rightarrow> int \<Rightarrow> u8 list \<Rightarrow> int" where
  "old_Send_string written errno src = old_Send written errno (src @ [0])"

definition old_Read :: "u8 list option \<Rightarrow> u8 list" where
  "old_Read ans = (case ans of None \<Rightarrow> [] | Some d \<Rightarrow> if length d \<le> 0 then [] else d)"

definition old_Client :: old_client where
  "old_Client = \<lparr>oc_sockfd = - 1, close_required = False, oc_closed = []\<rparr>"

text \<open>The client that a callback gets never closes the socket of its server; one whose connection failed leaves its own open.\<close>

lemma old_given_client: "oc_closed (old_Close (old_Client\<lparr>oc_sockfd := f\<rparr>)) = []"
  by (simp add: old_Close_def old_Client_def)

lemma old_connect_leaks:
  assumes "0 \<le> sock" "pton \<le> 0 \<or> conn < 0" "old_Connect sock pton conn errno old_Client = (r, c)"
  shows "oc_sockfd c = sock \<and> oc_closed (old_Close c) = []"
  using assms by (auto simp: old_Connect_def old_Close_def old_Client_def Let_def split: if_splits)

lemma old_connect_close:
  "0 \<le> sock \<Longrightarrow> 0 < pton \<Longrightarrow> 0 \<le> conn \<Longrightarrow> oc_closed (old_Close (snd (old_Connect sock pton conn errno old_Client))) = [sock]"
  by (simp add: old_Connect_def old_Close_def old_Client_def Let_def)

end
