(* ===== verification/Board_Gpio.thy ===== *)
theory Board_Gpio
  imports C_Prelude "HOL-Library.Signed_Division"
begin

text \<open>
  The pins of two single-board computers through their mapped registers: Linux/raspberrypi/raspi_gpio.c and
  ARM/allwinner_H3_GPIO.c.  What \<open>open\<close> and \<open>mmap\<close> answer is a parameter.  An access through the null pointer and a shift by a
  negative number or by 32 and more have no value; a one shifted into the sign bit of an \<open>int\<close> is that bit, as the compilers for
  these boards define it.
\<close>

section \<open>Raspberry Pi: registers and functions\<close>

text \<open>The registers that set and clear pins act when they are written: the state keeps what was written, with the index.\<close>

record bcm2835_gpio =
  GPFSEL :: "u32 list"
  GPSET :: "(nat \<times> u32) list"
  GPCLR :: "(nat \<times> u32) list"
  GPLEV :: "u32 list"

text \<open>The pointer \<open>gpio\<close> and the descriptor are the variables of the file; \<open>closed\<close> lists the descriptors given to \<open>close\<close>.\<close>

record raspi =
  regs :: bcm2835_gpio
  mapped :: bool
  raspi_fd :: int
  closed :: "int list"

datatype raspi_func = GPIO_INPUT | GPIO_OUTPUT | GPIO_ALT5 | GPIO_ALT4 | GPIO_ALT0 | GPIO_ALT1 | GPIO_ALT2 | GPIO_ALT3 | GPIO_ERROR

definition func_list :: "raspi_func list" where
  "func_list = [GPIO_INPUT, GPIO_OUTPUT, GPIO_ALT5, GPIO_ALT4, GPIO_ALT0, GPIO_ALT1, GPIO_ALT2, GPIO_ALT3]"

fun func_code :: "raspi_func \<Rightarrow> u32" where
  "func_code GPIO_INPUT = 0"
| "func_code GPIO_OUTPUT = 1"
| "func_code GPIO_ALT5 = 2"
| "func_code GPIO_ALT4 = 3"
| "func_code GPIO_ALT0 = 4"
| "func_code GPIO_ALT1 = 5"
| "func_code GPIO_ALT2 = 6"
| "func_code GPIO_ALT3 = 7"
| "func_code GPIO_ERROR = 8"

definition RASPI_EINVAL :: int where "RASPI_EINVAL = 22"

text \<open>\<open>init\<close>; the parameters are the descriptor that \<open>open\<close> returns and the error of \<open>mmap\<close>, if it fails.\<close>

definition raspi_init :: "int \<times> int option \<Rightarrow> raspi \<Rightarrow> int \<times> raspi" where
  "raspi_init sys b =
     (if mapped b then (0, b)
      else let b = b\<lparr>raspi_fd := fst sys\<rparr> in
        if raspi_fd b < 0 then (raspi_fd b, b)
        else (case snd sys of
           Some res \<Rightarrow> (res, b\<lparr>mapped := False, closed := closed b @ [raspi_fd b]\<rparr>)
         | None \<Rightarrow> (0, b\<lparr>mapped := True\<rparr>)))"

definition get_gpfsel_reg :: "int \<Rightarrow> nat option" where
  "get_gpfsel_reg n =
     (if n \<le> 9 then Some 0 else if n \<le> 19 then Some 1 else if n \<le> 29 then Some 2 else if n \<le> 39 then Some 3
      else if n \<le> 49 then Some 4 else if n \<le> 53 then Some 5 else None)"

text \<open>The remainder has the sign of the number.\<close>

definition func_shift :: "int \<Rightarrow> nat option" where
  "func_shift n = (let k = (n smod 10) * 3 in if k < 0 then None else Some (nat k))"

definition raspi_gpio_init :: "int \<times> int option \<Rightarrow> int \<Rightarrow> raspi_func \<Rightarrow> raspi \<Rightarrow> (int \<times> raspi) option" where
  "raspi_gpio_init sys n func b =
     (case raspi_init sys b of (res, b) \<Rightarrow>
        if res \<noteq> 0 then Some (res, b)
        else (case get_gpfsel_reg n of
           None \<Rightarrow> Some (RASPI_EINVAL, b)
         | Some r \<Rightarrow> map_option (\<lambda>k.
             let v = GPFSEL (regs b) ! r AND push_bit k 7;
                 v = v OR push_bit k (func_code func)
             in (0, b\<lparr>regs := regs b\<lparr>GPFSEL := (GPFSEL (regs b))[r := v]\<rparr>\<rparr>)) (func_shift n)))"

definition raspi_gpio_func :: "int \<times> int option \<Rightarrow> int \<Rightarrow> raspi \<Rightarrow> (raspi_func \<times> raspi) option" where
  "raspi_gpio_func sys n b =
     (case raspi_init sys b of (res, b) \<Rightarrow>
        if res \<noteq> 0 then Some (GPIO_ERROR, b)
        else (case get_gpfsel_reg n of
           None \<Rightarrow> Some (GPIO_ERROR, b)
         | Some r \<Rightarrow> map_option (\<lambda>k. (func_list ! unat (drop_bit k (GPFSEL (regs b) ! r) AND 7), b)) (func_shift n)))"

section \<open>Raspberry Pi: levels\<close>

definition one_at :: "int \<Rightarrow> u32 option" where
  "one_at n = (if 0 \<le> n \<and> n < 32 then Some (push_bit (nat n) 1) else None)"

text \<open>The register of a pin and its bit there, as \<open>gpio_set\<close>, \<open>gpio_clr\<close> and \<open>gpio_read\<close> compute them.\<close>

definition level_bit :: "int \<Rightarrow> nat \<times> u32 option" where
  "level_bit n = (if n \<le> 31 then (0, one_at n) else (1, one_at (n - 31)))"

definition raspi_gpio_set :: "int \<Rightarrow> raspi \<Rightarrow> raspi option" where
  "raspi_gpio_set n b =
     (case level_bit n of (i, Some v) \<Rightarrow> if mapped b then Some (b\<lparr>regs := regs b\<lparr>GPSET := GPSET (regs b) @ [(i, v)]\<rparr>\<rparr>) else None
      | _ \<Rightarrow> None)"

definition raspi_gpio_clr :: "int \<Rightarrow> raspi \<Rightarrow> raspi option" where
  "raspi_gpio_clr n b =
     (case level_bit n of (i, Some v) \<Rightarrow> if mapped b then Some (b\<lparr>regs := regs b\<lparr>GPCLR := GPCLR (regs b) @ [(i, v)]\<rparr>\<rparr>) else None
      | _ \<Rightarrow> None)"

definition raspi_gpio_read :: "int \<Rightarrow> raspi \<Rightarrow> int option" where
  "raspi_gpio_read n b =
     (case level_bit n of (i, Some v) \<Rightarrow> if mapped b then Some (if GPLEV (regs b) ! i AND v \<noteq> 0 then 1 else 0) else None
      | _ \<Rightarrow> None)"

definition raspi_gpio_close :: "raspi \<Rightarrow> raspi" where
  "raspi_gpio_close b = b\<lparr>mapped := False, closed := closed b @ [raspi_fd b]\<rparr>"

section \<open>Raspberry Pi: what the functions do\<close>

lemma three_bits_at: "bit (push_bit k 7 :: u32) n \<longleftrightarrow> n < 32 \<and> k \<le> n \<and> n < k + 3"
proof -
  have "(7 :: u32) = mask 3" by (simp add: mask_numeral)
  then show ?thesis by (simp only: bit_push_bit_iff bit_mask_iff) auto
qed

lemma bit_7: "bit (7 :: int) n \<longleftrightarrow> n < 3"
proof -
  have "(7 :: int) = mask 3" by (simp add: mask_numeral)
  then show ?thesis by (simp only: bit_mask_iff) simp
qed

lemma and_7: "v AND 7 = take_bit 3 (v :: u32)"
  by (simp add: take_bit_eq_mask mask_numeral)

lemma func_code_bits: "f \<noteq> GPIO_ERROR \<Longrightarrow> take_bit 3 (func_code f) = func_code f"
  by (cases f) (simp_all add: and_7 [symmetric])

lemma func_list_code: "f \<noteq> GPIO_ERROR \<Longrightarrow> func_list ! unat (func_code f) = f"
  by (cases f) (simp_all add: func_list_def)

text \<open>The field of a pin after the two assignments: the register keeps the old field only, and the new function is added to it.\<close>

lemma field_after:
  assumes "i < 10" "j < 10" "take_bit 3 c = c"
  shows "drop_bit (3 * j) (r AND push_bit (3 * i) 7 OR push_bit (3 * i) c) AND 7 =
    (if i = j then (drop_bit (3 * j) r AND 7) OR c else (0 :: u32))"
proof (rule bit_word_eqI)
  have c: "bit c n \<Longrightarrow> n < 3" for n using assms(3) by (metis bit_take_bit_iff)
  fix n assume "n < LENGTH(32)"
  show "bit (drop_bit (3 * j) (r AND push_bit (3 * i) 7 OR push_bit (3 * i) c) AND 7) n =
    bit (if i = j then (drop_bit (3 * j) r AND 7) OR c else 0) n"
  proof (cases "n < 3")
    case True
    have "\<not> bit c (3 * j + n - 3 * i)" if "3 * i \<le> 3 * j + n" "i \<noteq> j"
    proof
      assume "bit c (3 * j + n - 3 * i)"
      from c [OF this] show False using that True by linarith
    qed
    moreover have "3 * i \<le> 3 * j + n \<and> 3 * j + n < 3 * i + 3 \<longleftrightarrow> i = j" using True by linarith
    moreover have "3 * j + n < 32" using True assms(2) by linarith
    ultimately show ?thesis using True by (auto simp: and_7 bit_simps bit_7)
  qed (use c in \<open>auto simp: and_7 bit_simps\<close>)
qed

definition board_ok :: "raspi \<Rightarrow> bool" where
  "board_ok b \<longleftrightarrow> mapped b \<and> length (GPFSEL (regs b)) = 6"

lemma raspi_init_mapped [simp]: "mapped b \<Longrightarrow> raspi_init sys b = (0, b)"
  by (simp add: raspi_init_def)

lemma gpfsel_reg: "n \<le> 53 \<Longrightarrow> get_gpfsel_reg (int n) = Some (n div 10)"
  unfolding get_gpfsel_reg_def by (cases "n < 10"; cases "n < 20"; cases "n < 30"; cases "n < 40"; cases "n < 50") auto

lemma func_shift_nat: "func_shift (int n) = Some (3 * (n mod 10))"
proof -
  have "int n smod 10 = int (n mod 10)" by (cases "n = 0") (simp_all add: signed_modulo_int_def zmod_int)
  then show ?thesis by (simp add: func_shift_def nat_mult_distrib)
qed

text \<open>The function that the registers select for a pin.\<close>

definition selected :: "raspi \<Rightarrow> nat \<Rightarrow> u32" where
  "selected b n = drop_bit (3 * (n mod 10)) (GPFSEL (regs b) ! (n div 10)) AND 7"

lemma raspi_gpio_func_selected: "mapped b \<Longrightarrow> n \<le> 53 \<Longrightarrow> raspi_gpio_func sys (int n) b = Some (func_list ! unat (selected b n), b)"
  by (simp add: raspi_gpio_func_def gpfsel_reg func_shift_nat selected_def)

text \<open>
  C37: choosing the function of a pin adds the bits of the function to those that the pin had, and makes all the other pins of the
  same register inputs: the complement is missing in the mask that should clear the field.  Pins of other registers
  keep their function.
\<close>

theorem raspi_init_others:
  assumes "board_ok b" "n \<le> 53" "m \<le> 53" "func \<noteq> GPIO_ERROR"
  shows "\<exists>b'. raspi_gpio_init sys (int n) func b = Some (0, b') \<and> board_ok b' \<and>
    raspi_gpio_func sys (int m) b' = Some (func_list ! unat (if m = n then selected b n OR func_code func
      else if m div 10 = n div 10 then 0 else selected b m), b')"
proof -
  let ?v = "GPFSEL (regs b) ! (n div 10) AND push_bit (3 * (n mod 10)) 7 OR push_bit (3 * (n mod 10)) (func_code func)"
  let ?b = "b\<lparr>regs := regs b\<lparr>GPFSEL := (GPFSEL (regs b))[n div 10 := ?v]\<rparr>\<rparr>"
  have i: "raspi_gpio_init sys (int n) func b = Some (0, ?b)" "board_ok ?b"
    using assms by (simp_all add: board_ok_def raspi_gpio_init_def gpfsel_reg func_shift_nat Let_def)
  have same: "m = n" if "m div 10 = n div 10" "m mod 10 = n mod 10" using that by (metis mult_div_mod_eq)
  have "n div 10 < 6" using assms(2) by simp
  then have s: "selected ?b m = (if m = n then selected b n OR func_code func else if m div 10 = n div 10 then 0 else selected b m)"
    using field_after [of "n mod 10" "m mod 10" "func_code func"] func_code_bits [OF assms(4)] assms(1) same
    by (auto simp: selected_def board_ok_def)
  show ?thesis
    by (intro exI [of _ ?b] conjI i raspi_gpio_func_selected [THEN trans])
      (use assms i(2) s in \<open>simp_all add: board_ok_def\<close>)
qed

definition demo_board :: raspi where
  "demo_board = \<lparr>regs = \<lparr>GPFSEL = [0x249, 8, 0, 0, 0, 0], GPSET = [], GPCLR = [], GPLEV = [0, 0]\<rparr>, mapped = True,
     raspi_fd = 3, closed = []\<rparr>"

text \<open>Pins 0 to 3 and 11 are outputs; pin 4 is made one too: pin 0 becomes an input, pin 11 stays.\<close>

theorem raspi_init_others_witness:
  "(\<exists>b'. raspi_gpio_init (3, None) 4 GPIO_OUTPUT demo_board = Some (0, b') \<and> raspi_gpio_func (3, None) 0 b' = Some (GPIO_INPUT, b')) \<and>
   (\<exists>b'. raspi_gpio_init (3, None) 4 GPIO_OUTPUT demo_board = Some (0, b') \<and> raspi_gpio_func (3, None) 11 b' = Some (GPIO_OUTPUT, b'))"
  using raspi_init_others [of demo_board 4 0 GPIO_OUTPUT "(3, None)"] raspi_init_others [of demo_board 4 11 GPIO_OUTPUT "(3, None)"]
  by (simp add: board_ok_def demo_board_def selected_def func_list_def) blast

text \<open>So the function arrives on a pin that was an input, and an output cannot be made an input again.\<close>

corollary raspi_init_input:
  assumes "board_ok b" "n \<le> 53" "func \<noteq> GPIO_ERROR" "selected b n = 0"
  shows "\<exists>b'. raspi_gpio_init sys (int n) func b = Some (0, b') \<and> raspi_gpio_func sys (int n) b' = Some (func, b')"
  using raspi_init_others [OF assms(1,2,2,3)] assms(4) by (simp add: func_list_code [OF assms(3)]) blast

corollary raspi_output_stays:
  assumes "board_ok b" "n \<le> 53" "raspi_gpio_func sys (int n) b = Some (GPIO_OUTPUT, b)"
  shows "\<exists>b'. raspi_gpio_init sys (int n) GPIO_INPUT b = Some (0, b') \<and> raspi_gpio_func sys (int n) b' = Some (GPIO_OUTPUT, b')"
  using raspi_init_others [OF assms(1,2,2), of GPIO_INPUT sys] assms by (auto simp: raspi_gpio_func_selected board_ok_def)

text \<open>The pins that a written word or the level register stands for.\<close>

definition word_pins :: "nat \<times> u32 \<Rightarrow> nat list" where
  "word_pins iv = (case iv of (i, v) \<Rightarrow> map (\<lambda>j. 32 * i + j) (filter (bit v) [0..<32]))"

definition level :: "raspi \<Rightarrow> nat \<Rightarrow> bool" where
  "level b n = bit (GPLEV (regs b) ! (n div 32)) (n mod 32)"

lemma word_pins_one: "j < 32 \<Longrightarrow> word_pins (i, push_bit j 1) = [32 * i + j]"
proof -
  assume j: "j < 32"
  have b: "bit (push_bit j 1 :: u32) k \<longleftrightarrow> k = j" if "k < 32" for k using that j by (auto simp: bit_simps)
  have "[0..<32] = [0..<j] @ j # [Suc j..<32]" using j upt_conv_Cons [of j 32] upt_add_eq_append [of 0 j "32 - j"] by simp
  moreover have "filter (bit (push_bit j 1 :: u32)) [0..<j] = []" "filter (bit (push_bit j 1 :: u32)) [Suc j..<32] = []"
    using b j by (auto simp: filter_empty_conv)
  ultimately show ?thesis using b j by (simp add: word_pins_def)
qed

text \<open>
  The pin that the functions for levels operate: up to 31 it is the right one, from 32 on the next one, because they
  subtract 31.
\<close>

theorem raspi_levels:
  assumes "mapped b" "n \<le> 53"
  defines "p \<equiv> if n \<le> 31 then n else Suc n"
  shows "\<exists>iv. raspi_gpio_set (int n) b = Some (b\<lparr>regs := regs b\<lparr>GPSET := GPSET (regs b) @ [iv]\<rparr>\<rparr>) \<and>
      raspi_gpio_clr (int n) b = Some (b\<lparr>regs := regs b\<lparr>GPCLR := GPCLR (regs b) @ [iv]\<rparr>\<rparr>) \<and> word_pins iv = [p]"
    and "raspi_gpio_read (int n) b = Some (of_bool (level b p))"
proof -
  have l: "level_bit (int n) = (p div 32, Some (push_bit (p mod 32) 1))"
  proof (cases "n \<le> 31")
    case False
    then have "p = 32 + (n - 31)" "n - 31 < 32" using assms(2,3) by auto
    then have "p div 32 = 1" "p mod 32 = n - 31" by simp_all
    moreover have "nat (int n - 31) = n - 31" "int n - 31 < 32" using \<open>n - 31 < 32\<close> by simp_all
    ultimately show ?thesis using False by (simp add: level_bit_def one_at_def)
  qed (simp add: p_def level_bit_def one_at_def)
  show "raspi_gpio_read (int n) b = Some (of_bool (level b p))"
    using assms(1) by (simp add: raspi_gpio_read_def l level_def bit_iff_and_push_bit_not_eq_0)
  show "\<exists>iv. raspi_gpio_set (int n) b = Some (b\<lparr>regs := regs b\<lparr>GPSET := GPSET (regs b) @ [iv]\<rparr>\<rparr>) \<and>
      raspi_gpio_clr (int n) b = Some (b\<lparr>regs := regs b\<lparr>GPCLR := GPCLR (regs b) @ [iv]\<rparr>\<rparr>) \<and> word_pins iv = [p]"
    using assms(1) word_pins_one [of "p mod 32" "p div 32"]
    by (intro exI [of _ "(p div 32, push_bit (p mod 32) 1)"]) (simp add: raspi_gpio_set_def raspi_gpio_clr_def l)
qed

text \<open>Before \<open>gpio_init\<close> and after \<open>gpio_close\<close> the levels are reached through a null pointer, and \<open>gpio_close\<close> closes
  what it did not open: the descriptor 0 of the start, or the one that was closed before.\<close>

lemma raspi_unmapped: "\<not> mapped b \<Longrightarrow> raspi_gpio_set n b = None \<and> raspi_gpio_clr n b = None \<and> raspi_gpio_read n b = None"
  by (auto simp: raspi_gpio_set_def raspi_gpio_clr_def raspi_gpio_read_def split: prod.split option.split)

definition raspi_start :: "bcm2835_gpio \<Rightarrow> raspi" where
  "raspi_start g = \<lparr>regs = g, mapped = False, raspi_fd = 0, closed = []\<rparr>"

lemma raspi_close_unopened: "closed (raspi_gpio_close (raspi_start g)) = [0]"
  by (simp add: raspi_gpio_close_def raspi_start_def)

lemma raspi_close_twice: "closed (raspi_gpio_close (raspi_gpio_close b)) = closed b @ [raspi_fd b, raspi_fd b]"
  by (simp add: raspi_gpio_close_def)

text \<open>A number below zero is not refused: most of them shift by a negative number, every tenth is taken for pin 0.\<close>

lemma raspi_negative: "board_ok b \<Longrightarrow> raspi_gpio_init sys (- 5) func b = None \<and>
    raspi_gpio_init sys (- 10) func b = raspi_gpio_init sys 0 func b"
  by (simp add: board_ok_def raspi_gpio_init_def get_gpfsel_reg_def func_shift_def signed_modulo_int_def)

lemma raspi_too_large: "board_ok b \<Longrightarrow> 53 < n \<Longrightarrow> raspi_gpio_init sys n func b = Some (RASPI_EINVAL, b)"
  by (simp add: board_ok_def raspi_gpio_init_def get_gpfsel_reg_def)

section \<open>Allwinner H3\<close>

record H3_GPIO =
  CFG0 :: u32
  CFG1 :: u32
  CFG2 :: u32
  CFG3 :: u32
  DAT :: u32
  DRV0 :: u32
  DRV1 :: u32
  PUL0 :: u32
  PUL1 :: u32

datatype H3_Func = eINPUT | eOUTPUT | eFUCN1 | eFUNC2 | eRES1 | eRES2 | eINT | eDISABLED

fun h3_code :: "H3_Func \<Rightarrow> u32" where
  "h3_code eINPUT = 0"
| "h3_code eOUTPUT = 1"
| "h3_code eFUCN1 = 2"
| "h3_code eFUNC2 = 3"
| "h3_code eRES1 = 4"
| "h3_code eRES2 = 5"
| "h3_code eINT = 6"
| "h3_code eDISABLED = 7"

definition GPIO_PIN_MAX :: nat where "GPIO_PIN_MAX = 23"

text \<open>The addresses of the ports: the offset is added to a pointer to the structure of nine words.\<close>

definition H3_port :: "nat \<Rightarrow> nat" where
  "H3_port k = 0x01C20800 + (9 * 4) * (0x24 * k)"

text \<open>The constants \<open>GPIO_Pin0\<close> to \<open>GPIO_Pin22\<close>.\<close>

definition H3_Pin :: "nat \<Rightarrow> u32" where
  "H3_Pin n = (if n = 0 then 0 else push_bit (n - 1) 1)"

definition put_cfg :: "nat \<Rightarrow> u32 \<Rightarrow> u32 \<Rightarrow> u32" where
  "put_cfg j f r = r AND NOT (push_bit j 7) OR push_bit j f"

definition H3_Init_pin :: "u32 \<Rightarrow> H3_Func \<Rightarrow> H3_GPIO \<Rightarrow> nat \<Rightarrow> H3_GPIO" where
  "H3_Init_pin Pin func g i =
     (if Pin AND push_bit i 1 \<noteq> 0 then
        if i \<le> 7 then g\<lparr>CFG0 := put_cfg i (h3_code func) (CFG0 g)\<rparr>
        else if i \<le> 15 then g\<lparr>CFG1 := put_cfg (i - 8) (h3_code func) (CFG1 g)\<rparr>
        else g\<lparr>CFG2 := put_cfg (i - 16) (h3_code func) (CFG2 g)\<rparr>
      else g)"

definition H3_Init :: "u32 \<Rightarrow> H3_Func \<Rightarrow> H3_GPIO \<Rightarrow> H3_GPIO" where
  "H3_Init Pin func g = foldl (H3_Init_pin Pin func) g [0..<GPIO_PIN_MAX]"

definition H3_Read :: "u32 \<Rightarrow> H3_GPIO \<Rightarrow> u32" where
  "H3_Read Pin g = DAT g AND Pin"

definition H3_Change :: "u32 \<Rightarrow> bool \<Rightarrow> H3_GPIO \<Rightarrow> H3_GPIO" where
  "H3_Change Pin st g = (if st then g\<lparr>DAT := DAT g OR Pin\<rparr> else g\<lparr>DAT := DAT g AND NOT Pin\<rparr>)"

definition H3_Set :: "u32 \<Rightarrow> H3_GPIO \<Rightarrow> H3_GPIO" where
  "H3_Set Pin g = g\<lparr>DAT := DAT g OR Pin\<rparr>"

definition H3_Clear :: "u32 \<Rightarrow> H3_GPIO \<Rightarrow> H3_GPIO" where
  "H3_Clear Pin g = g\<lparr>DAT := DAT g AND NOT Pin\<rparr>"

text \<open>Levels: exactly the pins of the mask change.\<close>

lemma h3_levels:
  "H3_Change Pin True g = H3_Set Pin g" "H3_Change Pin False g = H3_Clear Pin g"
  "H3_Read m (H3_Set Pin g) = H3_Read m g OR (m AND Pin)" "H3_Read m (H3_Clear Pin g) = H3_Read m g AND NOT Pin"
  by (auto simp: H3_Change_def H3_Set_def H3_Clear_def H3_Read_def bit_eq_iff bit_simps)

section \<open>Allwinner H3: the functions of several pins\<close>

lemma h3_code_bits: "bit (h3_code f) n \<Longrightarrow> n < 3"
proof -
  have "take_bit 3 (h3_code f) = h3_code f" by (cases f) (simp_all add: and_7 [symmetric])
  then show "bit (h3_code f) n \<Longrightarrow> n < 3" by (metis bit_take_bit_iff)
qed

lemma bit_put_cfg: "j \<le> 7 \<Longrightarrow> bit (put_cfg j (h3_code f) r) t \<longleftrightarrow> (if j \<le> t \<and> t < j + 3 then bit (h3_code f) (t - j) else bit r t)"
  using h3_code_bits [of f "t - j"] by (auto simp: put_cfg_def bit_simps bit_7 dest: bit_imp_le_length)

lemma bit_put_cfgs: "\<forall>j \<in> set js. j \<le> 7 \<Longrightarrow> bit (foldl (\<lambda>r j. put_cfg j (h3_code f) r) r js) t \<longleftrightarrow>
    (let own = filter (\<lambda>j. j \<le> t \<and> t < j + 3) js in if own = [] then bit r t else bit (h3_code f) (t - last own))"
  by (induction js rule: rev_induct) (auto simp: bit_put_cfg Let_def)

text \<open>The pins of a mask in one of the three registers, by their place there.\<close>

definition places :: "u32 \<Rightarrow> nat \<Rightarrow> nat list" where
  "places Pin k = filter (\<lambda>j. bit Pin (8 * k + j)) [0..<if k = 2 then 7 else 8]"

lemma H3_Init_pin_bit: "H3_Init_pin Pin f g i =
    (if bit Pin i then
       if i \<le> 7 then g\<lparr>CFG0 := put_cfg i (h3_code f) (CFG0 g)\<rparr>
       else if i \<le> 15 then g\<lparr>CFG1 := put_cfg (i - 8) (h3_code f) (CFG1 g)\<rparr>
       else g\<lparr>CFG2 := put_cfg (i - 16) (h3_code f) (CFG2 g)\<rparr>
     else g)"
  by (simp only: H3_Init_pin_def bit_iff_and_push_bit_not_eq_0)

lemma H3_Init_groups:
  "CFG0 (H3_Init Pin f g) = foldl (\<lambda>r j. put_cfg j (h3_code f) r) (CFG0 g) (places Pin 0)"
  "CFG1 (H3_Init Pin f g) = foldl (\<lambda>r j. put_cfg j (h3_code f) r) (CFG1 g) (places Pin 1)"
  "CFG2 (H3_Init Pin f g) = foldl (\<lambda>r j. put_cfg j (h3_code f) r) (CFG2 g) (places Pin 2)"
proof -
  have fold: "foldl (H3_Init_pin Pin f) g [0..<n] = g\<lparr>
      CFG0 := foldl (\<lambda>r j. put_cfg j (h3_code f) r) (CFG0 g) (filter (bit Pin) [0..<min n 8]),
      CFG1 := foldl (\<lambda>r j. put_cfg j (h3_code f) r) (CFG1 g) (filter (\<lambda>j. bit Pin (8 + j)) [0..<min n 16 - 8]),
      CFG2 := foldl (\<lambda>r j. put_cfg j (h3_code f) r) (CFG2 g) (filter (\<lambda>j. bit Pin (16 + j)) [0..<n - 16])\<rparr>" for n
  proof (induction n)
    case (Suc n)
    consider "n \<le> 7" | "8 \<le> n" "n \<le> 15" | "16 \<le> n" by linarith
    then show ?case
    proof cases
      case 1
      then show ?thesis by (simp add: Suc H3_Init_pin_bit [of Pin f _ n] min_def)
    next
      case 2
      then have "min (Suc n) 16 - 8 = Suc (min n 16 - 8)" "8 + (min n 16 - 8) = n" "min n 16 - 8 = n - 8" "min (Suc n) 8 = min n 8" by auto
      then show ?thesis using 2 by (simp add: Suc H3_Init_pin_bit [of Pin f _ n])
    next
      case 3
      then have "Suc n - 16 = Suc (n - 16)" "16 + (n - 16) = n" "min (Suc n) 16 = min n 16" "min (Suc n) 8 = min n 8" by auto
      then show ?thesis using 3 by (simp add: Suc H3_Init_pin_bit [of Pin f _ n])
    qed
  qed simp
  show "CFG0 (H3_Init Pin f g) = foldl (\<lambda>r j. put_cfg j (h3_code f) r) (CFG0 g) (places Pin 0)"
    "CFG1 (H3_Init Pin f g) = foldl (\<lambda>r j. put_cfg j (h3_code f) r) (CFG1 g) (places Pin 1)"
    "CFG2 (H3_Init Pin f g) = foldl (\<lambda>r j. put_cfg j (h3_code f) r) (CFG2 g) (places Pin 2)"
    unfolding H3_Init_def fold by (simp_all add: GPIO_PIN_MAX_def places_def)
qed

text \<open>
  The fields of three bits start one bit apart, so they overlap.  A bit of the register comes from the last pin of the mask whose
  field holds it, and keeps its value when there is none.
\<close>

theorem h3_init_overlaps:
  assumes "own = filter (\<lambda>j. j \<le> t \<and> t < j + 3) (places Pin 0)"
  shows "bit (CFG0 (H3_Init Pin f g)) t \<longleftrightarrow> (if own = [] then bit (CFG0 g) t else bit (h3_code f) (t - last own))"
proof -
  have "\<forall>j \<in> set (places Pin 0). j \<le> 7" by (auto simp: places_def)
  then show ?thesis using assms by (simp add: H3_Init_groups bit_put_cfgs Let_def)
qed

text \<open>The function of a pin at the place where the code writes it.\<close>

definition h3_field :: "nat \<Rightarrow> H3_GPIO \<Rightarrow> u32" where
  "h3_field j g = drop_bit j (CFG0 g) AND 7"

text \<open>One pin alone gets its function; of two neighbours made outputs at once, the first does not become one.\<close>

lemma h3_init_single: "j \<le> 7 \<Longrightarrow> h3_field j (H3_Init (push_bit j 1) f g) = h3_code f"
proof (rule bit_word_eqI)
  assume j: "j \<le> 7"
  have "j \<in> set [0..<8]" using j by simp
  then have "places (push_bit j 1) 0 = [j]"
    using j by (auto simp: places_def bit_simps numeral_eq_Suc less_Suc_eq le_Suc_eq)
  fix n assume "n < LENGTH(32)"
  then show "bit (h3_field j (H3_Init (push_bit j 1) f g)) n = bit (h3_code f) n"
    using j h3_init_overlaps [OF refl, of "push_bit j 1" f g "j + n"] \<open>places (push_bit j 1) 0 = [j]\<close> h3_code_bits [of f n]
    by (auto simp: h3_field_def and_7 bit_simps)
qed

lemma h3_init_neighbours: "h3_field 0 (H3_Init 3 eOUTPUT g) = h3_code eFUNC2"
proof (rule bit_word_eqI)
  have p: "places 3 0 = [0, 1]" by (simp add: places_def upt_rec)
  fix n :: nat
  consider "n = 0" | "n = 1" | "n = 2" | "3 \<le> n" by linarith
  then show "bit (h3_field 0 (H3_Init 3 eOUTPUT g)) n = bit (h3_code eFUNC2) n"
    using h3_init_overlaps [OF refl, of 3 eOUTPUT g n] h3_code_bits [of eFUNC2 n]
    by cases (auto simp: h3_field_def and_7 bit_simps p bit_1_iff)
qed

text \<open>The constants of the header are off by one: the first selects nothing, the others the pin before.\<close>

lemma h3_pin_constants: "H3_Init (H3_Pin 0) f g = g" "H3_Pin (Suc n) = push_bit n 1"
proof -
  have "foldl (H3_Init_pin 0 f) g xs = g" for xs by (induction xs) (simp_all add: H3_Init_pin_def)
  then show "H3_Init (H3_Pin 0) f g = g" by (simp add: H3_Init_def H3_Pin_def)
qed (simp add: H3_Pin_def)

text \<open>The ports are nine words apart in the chip; the constants are thirty-six times as far.\<close>

lemma h3_port_distance: "H3_port (Suc k) = H3_port k + 36 * 36"
  by (simp add: H3_port_def)

end
