(* ===== verification/Linux_Devices.thy ===== *)
theory Linux_Devices
  imports C_Memory
begin

text \<open>
  Access to devices and the logging services of Linux: Linux/gpio.c, i2c.c, i2c.cpp, spi.cpp, log.c, logger/logger.c and
  logger2/logger2.cpp.  What \<open>open\<close>, \<open>ioctl\<close> and \<open>read\<close> answer is a parameter.  Of the kernel's interface the model uses what
  is documented: a request for lines concerns as many of its offsets as it has lines, a transfer on the
  I2C bus moves as many bytes as its message says, and \<open>I2C_RDWR\<close> returns the number of messages.
\<close>

section \<open>Lines\<close>

datatype gpio_bank = GPIOA | GPIOB | GPIOC | GPIOD | GPIOE | GPIOF

fun bank_index :: "gpio_bank \<Rightarrow> nat" where
  "bank_index GPIOA = 0"
| "bank_index GPIOB = 1"
| "bank_index GPIOC = 2"
| "bank_index GPIOD = 3"
| "bank_index GPIOE = 4"
| "bank_index GPIOF = 5"

definition GPIOHANDLES_MAX :: nat where "GPIOHANDLES_MAX = 64"
definition LABEL_SIZE :: nat where "LABEL_SIZE = 32"
definition ENODEV :: int where "ENODEV = 19"

record gpiohandle_request =
  lineoffsets :: "u32 list"
  req_flags :: u32
  default_values :: "u8 list"
  consumer_label :: mem
  req_lines :: nat

text \<open>\<open>gpio_open\<close> gives the code; \<open>gpio_request\<close> builds the request and returns what \<open>ioctl\<close> made of it, an error or
  a descriptor.  A name that does not fit the label has no value.\<close>

definition gpio_open :: "int \<Rightarrow> int" where
  "gpio_open fd = (if fd < 0 then - ENODEV else 0)"

definition line_request :: "gpio_bank \<Rightarrow> nat \<Rightarrow> u32 \<Rightarrow> u8 list option \<Rightarrow> gpiohandle_request option" where
  "line_request bank pin mode name =
     (let req = \<lparr>lineoffsets = replicate GPIOHANDLES_MAX 0, req_flags = 0, default_values = replicate GPIOHANDLES_MAX 0,
            consumer_label = replicate LABEL_SIZE 0, req_lines = 0\<rparr>;
          req = req\<lparr>default_values := (default_values req)[bank_index bank := 0]\<rparr>;
          req = req\<lparr>lineoffsets := (lineoffsets req)[bank_index bank := of_nat pin]\<rparr>;
          req = req\<lparr>req_flags := mode, req_lines := 1\<rparr>
      in (case name of None \<Rightarrow> Some req
          | Some s \<Rightarrow> map_option (\<lambda>l. req\<lparr>consumer_label := l\<rparr>) (store 0 (s @ [0]) (consumer_label req))))"

definition gpio_request :: "(gpiohandle_request \<Rightarrow> int + int) \<Rightarrow> gpio_bank \<Rightarrow> nat \<Rightarrow> u32 \<Rightarrow> u8 list option \<Rightarrow> int option" where
  "gpio_request answer bank pin mode name =
     map_option (\<lambda>req. case answer req of Inl ret \<Rightarrow> ret | Inr fd \<Rightarrow> fd) (line_request bank pin mode name)"

text \<open>The value that \<open>gpio_read\<close> returns is that of the variable, which nothing has written when \<open>ioctl\<close> fails.\<close>

definition gpio_write_values :: "bool \<Rightarrow> u8 list" where
  "gpio_write_values st = of_bool st # replicate (GPIOHANDLES_MAX - 1) 0"

definition gpio_read :: "u8 list option \<Rightarrow> u8 list \<Rightarrow> bool" where
  "gpio_read ans data = ((case ans of None \<Rightarrow> data | Some vs \<Rightarrow> vs) ! 0 \<noteq> 0)"

definition gpio_get_name :: "int \<Rightarrow> mem \<Rightarrow> mem \<Rightarrow> (int \<times> mem) option" where
  "gpio_get_name ret consumer name =
     (if ret > 0 then do { s \<leftarrow> c_string_at 0 consumer; m \<leftarrow> store 0 (s @ [0]) name; Some (ret, m) } else Some (ret, name))"

text \<open>The lines that the kernel hands out.\<close>

definition handed_out :: "gpiohandle_request \<Rightarrow> u32 list" where
  "handed_out req = take (req_lines req) (lineoffsets req)"

text \<open>Only for the first bank the line asked for is requested: for all others the first line of the chip is.\<close>

theorem request_wrong_line:
  "line_request bank pin mode name = Some req \<Longrightarrow>
    handed_out req = [if bank = GPIOA then of_nat pin else 0] \<and> req_flags req = mode"
  by (cases bank) (auto simp: line_request_def handed_out_def GPIOHANDLES_MAX_def Let_def numeral_eq_Suc split: option.splits)

lemma request_label: "line_request bank pin mode (Some s) = None \<longleftrightarrow> LABEL_SIZE \<le> length s"
  by (auto simp: line_request_def store_def LABEL_SIZE_def Let_def)

lemma name_never_copied: "ret = 0 \<or> ret = - 1 \<Longrightarrow> gpio_get_name ret consumer name = Some (ret, name)"
  by (auto simp: gpio_get_name_def)

section \<open>The I2C bus\<close>

record i2c_msg =
  msg_addr :: u16
  msg_flags :: u16
  msg_len :: u16
  msg_buf :: "u8 list"

definition I2C_M_RD :: u16 where "I2C_M_RD = 1"

text \<open>The messages of \<open>i2c_wr\<close> and \<open>i2c_rd\<close>; the size is the length of the data, or of the buffer.  The designated flag
  is followed by a value without designator, which is the length that the last designator sets anew.\<close>

definition i2c_wr_msgs :: "u8 \<Rightarrow> u8 \<Rightarrow> u8 list \<Rightarrow> i2c_msg list" where
  "i2c_wr_msgs addr reg data =
     [\<lparr>msg_addr = ucast addr, msg_flags = 0, msg_len = of_nat (length data) + 1, msg_buf = reg # data\<rparr>]"

definition i2c_rd_msgs :: "u8 \<Rightarrow> u8 \<Rightarrow> u8 list \<Rightarrow> i2c_msg list" where
  "i2c_rd_msgs addr reg data =
     [\<lparr>msg_addr = ucast addr, msg_flags = 0, msg_len = 1, msg_buf = [reg]\<rparr>,
      \<lparr>msg_addr = ucast addr, msg_flags = I2C_M_RD, msg_len = of_nat (length data), msg_buf = data\<rparr>]"

text \<open>What both return: \<open>fd\<close> and \<open>ret\<close> are the answers of \<open>open\<close> and \<open>ioctl\<close>, \<open>errno\<close> the variable after the call.\<close>

definition i2c_code :: "int \<Rightarrow> int \<Rightarrow> int \<Rightarrow> int" where
  "i2c_code fd ret errno = (if fd < 0 then errno else if ret \<noteq> 0 then errno else 0)"

text \<open>The class of i2c.cpp; \<open>None\<close> is the exception.\<close>

definition class_write_msgs :: "u8 \<Rightarrow> u8 list \<Rightarrow> u8 list \<Rightarrow> i2c_msg list" where
  "class_write_msgs addr reg data =
     (let buf = reg @ data in [\<lparr>msg_addr = ucast addr, msg_flags = 0, msg_len = of_nat (length buf), msg_buf = buf\<rparr>])"

definition class_read_msgs :: "u8 \<Rightarrow> u8 list \<Rightarrow> u8 list \<Rightarrow> i2c_msg list" where
  "class_read_msgs addr reg data =
     [\<lparr>msg_addr = ucast addr, msg_flags = 0, msg_len = of_nat (length reg), msg_buf = reg\<rparr>,
      \<lparr>msg_addr = ucast addr, msg_flags = I2C_M_RD, msg_len = of_nat (length data), msg_buf = data\<rparr>]"

definition class_write_code :: "int \<Rightarrow> int option" where
  "class_write_code ret = (if ret \<noteq> 1 then None else Some 0)"

definition class_read_code :: "int \<Rightarrow> int option" where
  "class_read_code ret = (if ret \<noteq> 2 then None else Some 0)"

definition Init_fd :: "int \<Rightarrow> int option" where
  "Init_fd fd = (if fd < 0 then None else Some fd)"

text \<open>What such messages move on the bus: the bytes written, or the number of bytes read.\<close>

definition moved :: "i2c_msg \<Rightarrow> u8 list + nat" where
  "moved m = (if msg_flags m AND I2C_M_RD = 0 then Inl (take (unat (msg_len m)) (msg_buf m)) else Inr (unat (msg_len m)))"

lemma len_u16: "unat (of_nat n :: u16) = n mod 65536"
  by (simp add: unat_of_nat)

text \<open>Both ways to write a register put the same bytes on the bus, and so do both ways to read; a write of
  65535 bytes in C moves nothing, because the length of its message wraps to zero.\<close>

theorem i2c_messages:
  assumes "length data < 65535"
  shows "map moved (i2c_wr_msgs addr reg data) = [Inl (reg # data)]"
    and "class_write_msgs addr [reg] data = i2c_wr_msgs addr reg data"
    and "map moved (i2c_rd_msgs addr reg data) = [Inl [reg], Inr (length data)]"
    and "class_read_msgs addr [reg] data = i2c_rd_msgs addr reg data"
proof -
  have "unat (of_nat (length data) + 1 :: u16) = length data + 1" using len_u16 [of "length data + 1"] assms by (simp add: add.commute)
  then show "map moved (i2c_wr_msgs addr reg data) = [Inl (reg # data)]" by (simp add: i2c_wr_msgs_def moved_def)
  show "class_write_msgs addr [reg] data = i2c_wr_msgs addr reg data"
    by (simp add: class_write_msgs_def i2c_wr_msgs_def add.commute)
  show "map moved (i2c_rd_msgs addr reg data) = [Inl [reg], Inr (length data)]"
    using assms len_u16 [of "length data"] by (simp add: i2c_rd_msgs_def moved_def I2C_M_RD_def)
  show "class_read_msgs addr [reg] data = i2c_rd_msgs addr reg data" by (simp add: class_read_msgs_def i2c_rd_msgs_def)
qed

lemma i2c_wr_wraps: "length data = 65535 \<Longrightarrow> map moved (i2c_wr_msgs addr reg data) = [Inl []]"
  using len_u16 [of "Suc (length data)"] by (simp add: i2c_wr_msgs_def moved_def)

text \<open>After a transfer that succeeded the class returns 0 and the functions in C what \<open>errno\<close> was left at before.\<close>

lemma i2c_success_codes: "0 \<le> fd \<Longrightarrow> i2c_code fd 1 errno = errno \<and> i2c_code fd 2 errno = errno \<and> class_write_code 1 = Some 0 \<and> class_read_code 2 = Some 0"
  by (simp add: i2c_code_def class_write_code_def class_read_code_def)

section \<open>The SPI bus\<close>

record spi_transfer =
  spi_tx :: "u8 list"
  spi_len :: u32
  spi_speed :: u32

text \<open>\<open>Init\<close> with the answers of \<open>open\<close> and \<open>ioctl\<close>, giving the descriptor and whether it throws; \<open>Transfer\<close>, giving the request
  and the result.\<close>

definition spi_Init :: "int \<Rightarrow> int \<Rightarrow> int \<times> bool" where
  "spi_Init fd ret = (fd, fd < 0 \<or> ret < 0)"

definition spi_Transfer :: "u32 \<Rightarrow> u8 list \<Rightarrow> int \<Rightarrow> spi_transfer \<times> int option" where
  "spi_Transfer freq tx ret =
     (\<lparr>spi_tx = tx, spi_len = of_nat (length tx), spi_speed = freq\<rparr>, if ret < 0 then None else Some 0)"

definition spi_closes :: "int \<Rightarrow> int list" where
  "spi_closes fd = (if 0 \<le> fd then [fd] else [])"

text \<open>Whatever happens in \<open>Init\<close>, the destructor closes the descriptor exactly when there is one.\<close>

lemma spi_no_leak: "spi_closes (fst (spi_Init fd ret)) = (if 0 \<le> fd then [fd] else [])"
  by (simp add: spi_closes_def spi_Init_def)

section \<open>The log file\<close>

text \<open>\<open>log_to_file\<close> with the format \<open>%s\<close>: the descriptor, the time stamp, and how much \<open>write\<close> writes.\<close>

definition LOG_SIZE :: nat where "LOG_SIZE = 1024"

definition log_line :: "u8 list \<Rightarrow> u8 list \<Rightarrow> u8 list" where
  "log_line ts msg =
     (let buf = ts @ [58, 32]; room = LOG_SIZE - length buf - 1 in buf @ take (room - 1) msg)"

definition log_to_file :: "int \<Rightarrow> nat \<Rightarrow> u8 list \<Rightarrow> u8 list \<Rightarrow> u8 list \<Rightarrow> u8 list" where
  "log_to_file fd written ts msg file = (if fd \<le> 0 then file else file @ take written (log_line ts msg))"

lemma log_line_fits: "length ts + 2 < LOG_SIZE \<Longrightarrow> length (log_line ts msg) < LOG_SIZE \<and>
    (length ts + length msg + 4 \<le> LOG_SIZE \<longrightarrow> log_line ts msg = ts @ [58, 32] @ msg)"
  by (auto simp: log_line_def LOG_SIZE_def Let_def)

text \<open>
  \<open>receive\<close> of logger.c on the buffer of the client's thread: the message that is logged, nothing for a wrong token, no value when
  the buffer is left.
\<close>

definition logger_receive :: "u32 \<Rightarrow> mem \<Rightarrow> u8 list option option" where
  "logger_receive token data =
     (if token \<noteq> 0 then do {
        w \<leftarrow> load_u32 0 data;
        if w \<noteq> token then Some None else map_option Some (c_string_at 4 data)
      } else map_option Some (c_string_at 0 data))"

definition LOGGER_BUFFER :: nat where "LOGGER_BUFFER = 256"

text \<open>One message: the bytes that came lie at the start of the buffer, behind them are those of earlier messages.\<close>

definition logger_message :: "u32 \<Rightarrow> mem \<Rightarrow> u8 list \<Rightarrow> u8 list option option" where
  "logger_message token buffer bs = do { m \<leftarrow> store 0 bs buffer; logger_receive token m }"

lemma takeWhile_zero: "0 \<in> set bs \<Longrightarrow> takeWhile (\<lambda>c. c \<noteq> 0) (bs @ xs) = takeWhile (\<lambda>c. c \<noteq> (0 :: u8)) bs"
  by (induction bs) auto

lemma takeWhile_zero_length: "0 \<in> set bs \<Longrightarrow> length (takeWhile (\<lambda>c. c \<noteq> (0 :: u8)) bs) < length bs"
  by (induction bs) auto

text \<open>
  A message that ends with a zero is logged as it is.  One without a zero is logged together with the rest of older messages in the
  buffer, and when there is no zero there either, memory behind the buffer is read.
\<close>

theorem logger_logs:
  assumes "length bs \<le> length buffer"
  shows "logger_message 0 buffer bs =
    (if 0 \<in> set bs then Some (Some (takeWhile (\<lambda>c. c \<noteq> 0) bs))
     else if 0 \<in> set (drop (length bs) buffer) then Some (Some (bs @ takeWhile (\<lambda>c. c \<noteq> 0) (drop (length bs) buffer)))
     else None)"
proof (cases "0 \<in> set bs")
  case True
  then show ?thesis using assms takeWhile_zero_length [OF True]
    by (simp add: logger_message_def logger_receive_def store_def c_string_at_def takeWhile_zero Let_def)
next
  case False
  let ?d = "drop (length bs) buffer"
  have t: "takeWhile (\<lambda>c. c \<noteq> 0) (bs @ ?d) = bs @ takeWhile (\<lambda>c. c \<noteq> 0) ?d" using False by (intro takeWhile_append2) auto
  have l: "length (takeWhile (\<lambda>c. c \<noteq> 0) ?d) < length ?d \<longleftrightarrow> 0 \<in> set ?d"
    using takeWhile_zero_length [of ?d] by (metis (mono_tags, lifting) less_irrefl takeWhile_eq_all_conv)
  have "length bs + length (takeWhile (\<lambda>c. c \<noteq> 0) ?d) < length (bs @ ?d) \<longleftrightarrow> 0 \<in> set ?d"
    using l assms by (auto simp: less_diff_conv)
  then show ?thesis using assms False t
    by (simp add: logger_message_def logger_receive_def store_def c_string_at_def Let_def del: length_append) simp
qed

lemma logger_overruns: "length bs = LOGGER_BUFFER \<Longrightarrow> length buffer = LOGGER_BUFFER \<Longrightarrow> 0 \<notin> set bs \<Longrightarrow> logger_message 0 buffer bs = None"
  by (simp add: logger_logs)

section \<open>The log server in C++\<close>

definition MAX_MESSAGE_SIZE :: nat where "MAX_MESSAGE_SIZE = 1500"

text \<open>
  \<open>OnReceive\<close> of logger2.cpp: what is appended to the file and whether it replies.  The data is also printed as a string,
  which must end inside of the buffer.
\<close>

definition class_logger :: "u32 \<Rightarrow> u8 list \<Rightarrow> bool \<Rightarrow> mem \<Rightarrow> nat \<Rightarrow> (u8 list \<times> bool) option" where
  "class_logger magic ts replies data sz = do {
     m \<leftarrow> load_u32 0 data;
     if m \<noteq> magic then Some ([], False)
     else do {
       _ \<leftarrow> c_string_at 4 data;
       if sz < 4 + 1 then Some ([], False)
       else do {
         bs \<leftarrow> load 4 (sz - 4) data;
         last \<leftarrow> load_u8 (4 + (sz - 4 - 1)) data;
         Some (ts @ [58, 32] @ bs @ (if last = 10 then [13, 10] else []), replies)
       }
     }
   }"

text \<open>A message with the right number is written as it came, with a carriage return and a second line feed when it ends in one; one
  that does not end gets none.\<close>

theorem class_logger_writes:
  assumes "bs \<noteq> []" "0 \<in> set (bs @ rest)"
  shows "class_logger magic ts replies (le_bytes 4 magic @ bs @ rest) (4 + length bs) =
    Some (ts @ [58, 32] @ bs @ (if last bs = 10 then [13, 10] else []), replies)"
proof -
  let ?d = "le_bytes 4 magic @ bs @ rest"
  have w: "load_u32 0 ?d = Some magic"
    using load_mid [of "[]" 0 "le_bytes 4 magic" 4 "bs @ rest"] by (simp add: load_u32_def le_word_le_bytes_id)
  have s: "\<exists>s. c_string_at 4 ?d = Some s" using takeWhile_zero_length [OF assms(2)] by (simp add: c_string_at_def Let_def)
  have l: "load 4 (4 + length bs - 4) ?d = Some bs" by (simp add: load_def)
  obtain as b where b: "bs = as @ [b]" using assms(1) by (metis rev_exhaust)
  have u: "load_u8 (4 + (4 + length bs - 4 - 1)) ?d = Some (last bs)"
    using load_u8_mid [of "le_bytes 4 magic @ as" "4 + length as" b rest] by (simp add: b)
  show ?thesis using w s l u assms(1) by (auto simp: class_logger_def)
qed

text \<open>A shorter message than the number is compared with what an earlier one has left in the buffer.\<close>

lemma class_logger_short: "class_logger magic ts replies (le_bytes 4 magic @ 0 # rest) 0 = Some ([], False)"
  using load_mid [of "[]" 0 "le_bytes 4 magic" 4 "0 # rest"]
  by (simp add: class_logger_def load_u32_def le_word_le_bytes_id c_string_at_def)

end
