(* ===== verification/Spec2Isabelle.thy ===== *)
theory Spec2Isabelle
  imports Checksum Bitops Hash Prng Pid State_Machine Arg_Parser Stepper Simple_Db_Store Plbus Sw_I2c Dallas_Bus Hd44780 Mfrc522_Rfid Nrf24l01 Mpu6050 Apds9960 Filters Bme280 Hash_Db I2c_Parts Sw_I2c_Struct State_Machine_Cpp
    Mfrc522 Rf_Radio I2c_Gpio Lm75 Ds18b20 Stm32_Gpio Stm32_Uart Text_File Server Hd44780_Cpp Ota Framebuffer Tft_Displays Bmp180 Server_Cpp Board_Gpio Linux_Devices
begin

text \<open>
  A verification development for the embedded C and C++ library in this repository.

  \<^bold>\<open>The program.\<close>  The library is a collection of components for microcontrollers and small computers.
  Common/ holds the portable ones: algorithms without hardware (checksums, bit operations, hashes, random numbers,
  regulators, filters, a state machine, an argument parser, two data bases in a byte buffer, the frames of a serial bus) and
  drivers that reach their chip through function pointers which the application provides.  stm32/ holds drivers that
  make a bus out of single pins, stm32f10x_cpp/ classes for the peripherals of one microcontroller, and Linux/ services for
  an operating system.  A driver calls the bus functions in a fixed order, looks at their
  answers and keeps a structure of settings and results; the stepper driver is entered from interrupts.

  \<^bold>\<open>How it is modelled.\<close>  C integers are words of their width (C_Prelude), a structure is a record, an
  enumeration a datatype or, where arbitrary numbers occur, a word.  Undefined behaviour has no
  value: an access outside of a buffer, a division by zero and a signed overflow give None.  A byte buffer is a list of bytes
  with checked loads and stores (C_Memory).  A driver runs in a state monad over the trace of the calls it has made
  (C_Io); what the hardware answers is a parameter, a function from the number of the call to the answer, so a theorem
  about all such functions holds for all hardware.  Registers that the hardware changes on its own are read through
  such a parameter too.  The operating system is a file system whose calls may fail or transfer less than asked, and, for threads,
  a relation of interleaved steps.  Code that the repository lacks, such as the checksum that DS1822.c
  includes and \<open>std::nth_element\<close>, is a parameter too.

  \<^bold>\<open>The theories,\<close> in the order of the library:
  \<^item> Checksum (Common/crc.c): the five checksums and both tables.  The table-driven CRC-32 is the bit-serial one; which errors
    the checksums detect, and one that crc16 never detects; the Fletcher sums do not wrap.
  \<^item> Bitops (Common/bitops.c, bitops.h): reversal of bits, bit strings, byte order; round trips.
  \<^item> Hash (Common/hash.c, hash.h): three hashes; changes that always change the hash, and the collision that signed characters cause.
  \<^item> Prng (Common/rand.c): four generators; full periods, the trap of the seed zero, how TinyMT treats its state.
  \<^item> Pid (Common/pid.c, pid.h): both regulators over every ordered field; bounds, and the textbook formula without limits.
  \<^item> Filters (Common/filters.h): six filters over every ordered field; moving average and median of the window, bounds of the recursive filters.
    The interface locale \<open>safe_filter\<close> is interpreted for four of them, \<open>selection\<close> states what \<open>std::nth_element\<close> promises.
  \<^item> State_Machine (Common/state_machine.c): a step calls the callbacks of one state; no run leaves the array
    of states, and the enter and exit callbacks are balanced.  State_Machine_Cpp (Common/state_machine.cpp) is the C++ machine.
  \<^item> Arg_Parser (Common/arg_parser.c): splitting at spaces; only the first command of the list is ever found.
  \<^item> Stepper (Common/stepper.c): tasks, ramps and the two interrupts, in every interleaving; every queued step is
    made, and none after a stop.
  \<^item> Simple_Db, Simple_Db_Store (Common/simple_db.c): the tagged data base in a buffer, refined to a list of entries; the
    interface locale \<open>tag_store\<close>, interpreted for it, and what is read back after writing and deleting.
  \<^item> Hash_Db (Common/hash_db.cpp): the hash data base, refined to a map; its interface is the locale \<open>key_store\<close>.
  \<^item> Plbus (Common/plbus.c): frames; sender and receiver fit together, and how a foreign frame blocks the receiver.
  \<^item> Sw_I2c (stm32/SW_I2C_Driver.c): the I2C master down to the levels of the two lines; framing, what a listener hears, what is read.
    Sw_I2c_Struct (stm32/SW_I2C.c) is the older master, which gives the same signals but leaves its counters in disorder.
  \<^item> One_Wire, Ds1822, Rom_Search, Dallas_Bus (stm32/1-Wire.c, DS1822.c): the 1-Wire master and its search for sensors.  One_Wire and Ds1822
    translate the code, Rom_Search shows for an abstract bus that the search visits all serial numbers, Dallas_Bus runs the
    code against a bus of sensors and concludes that it finds every sensor exactly once.
  \<^item> I2c_Gpio, Lm75 (Common/I2C_GPIO.cpp, monads.h, interfaces.h, devices.h, LM75.cpp): the C++ master on two pins, which the
    listener of Sw_I2c hears as well, and the thermometer on any bus of the interface locale \<open>i2c_interface\<close>, interpreted
    for that master.
  \<^item> Ds18b20 (Common/DS18B20.cpp): one sensor or several on a bus; readings are right or rejected, the search finds the sensors.
  \<^item> Hd44780 (Common/HD44780.c): the display driver with both bus widths, refined to the bytes that the display receives.
    Hd44780_Cpp (Common/HD44780.cpp): the class for the same display, right on eight lines and dumb on four.
  \<^item> Mfrc522_Rfid (Common/mfrc522_rfid.c): the card reader; the session with a card, step by step, whatever chip and card answer.
    Mfrc522 (Common/MFRC522.c): the older driver; its read session agrees with that of the newer one.
  \<^item> Nrf24l01 (Common/nrf24l01+.c): the radio; structure and registers stay in step, and mode, power and the enable pin are predicted for every sequence of operations.
    Rf_Radio (Common/nrf24l01.c): the older driver; what its initialisation leaves in the registers.
  \<^item> Mpu6050 (Common/mpu6050.c): the motion sensor; calibrated measurements, termination of the calibration.
  \<^item> Apds9960 (Common/apds9960.c): the gesture sensor; no division by zero, reads that fill their variables exactly, and the gesture
    as a function of the samples.
  \<^item> Bme280 (Common/BME280.c): the pressure sensor; no overflow in the compensation formulas, accuracy of the temperature.
    Bmp180 (Common/BMP180.c, SI7005.c) are the older sensors, on the same checked arithmetic.
  \<^item> I2c_Parts (Common/ads111x.c, PCA9685.c, LM75.c, DS2482_I2C-1Wire.c): small parts on the I2C bus.
  \<^item> Stm32_Clock, Stm32_Gpio, Stm32_Timing, Stm32_Uart (stm32f10x_cpp/): the clock tree, with the frequency that the software reports
    against the one that the registers select; pins; delays and timers; the serial port.
  \<^item> File_Ops, Text_File (Common/file_ops.cpp): files, and on top of them lines and tables; what is in the file after writes that
    may fail, round trips, accesses inside of the mapped file only.
  \<^item> Server (Linux/server.c): the TCP server as steps of its threads in every order; the list of clients holds what is registered, no
    thread closes what is not its own, and what stopping the server breaks.  Server_Cpp (Linux/server/server.cpp, server_cpp.h) has the two
    C++ servers in the same way: how many clients they serve, and which of them keeps descriptors apart; a thread that would use a destroyed server has no step.  Threads holds what
    the three share, lists of threads with a descriptor each.
  \<^item> Ota (Linux/ota/ota.c): the firmware server on top of it; a client can download the firmware, and what a hostile one can do.
  \<^item> Framebuffer (Linux/framebuffer.c), Tft_Displays (Common/SSD1289.c, ST7735.c): graphics; pictures arrive where they
    belong, the circle algorithm ends and stays within half a pixel.
  \<^item> Board_Gpio (Linux/raspberrypi/raspi_gpio.c, ARM/allwinner_H3_GPIO.c): pins through mapped registers; what happens to the
    other pins.  Linux_Devices (Linux/gpio.c, i2c.c, i2c.cpp, spi.cpp, log.c, logger/, logger2/): requests to the kernel, and what the
    log servers write.

  \<^bold>\<open>Loops and fuel.\<close>  Loops over data are recursive functions that always end.  The loops that wait for hardware may run for ever: they
  take fuel, the number of rounds (the calibration of Mpu6050, the interrupt of Apds9960, the search of Ds1822, the waits of the
  clock, the timer and the serial port), or have the bound of the code itself; the theorems give the rounds that are enough, from
  a hypothesis that names the round in which the hardware answers.  The search for
  an entry in Hash_Db and the loop of the circles in Framebuffer are partial functions, and the theorems show that they end, the
  one on every well-formed buffer, the other for every radius up to 10000.

  \<^bold>\<open>Numbers.\<close>  Pid, Filters, Mpu6050 and Bme280 compute in \<open>float\<close> or \<open>double\<close> in parts; there the models are exact, in an
  ordered field, the rational or the real numbers.  Rounding errors are not modelled.

  \<^bold>\<open>Not modelled.\<close>  The classes that print states
  of other classes to a stream, to JSON or to a file, and the empty implementations of the interfaces; the main programs of the log
  servers and the helpers for tests (Linux/utils.h); vendor code under stm32f10x_pr0/; tests
  and examples.  Timing is modelled only as calls of the delay functions.
\<close>

end
